(* ===== verification/Prelude.thy ===== *)
theory Prelude
  imports Complex_Main "HOL-Library.Product_Lexorder" "HOL-Library.List_Lexorder"
    "HOL-Library.Char_ord" "HOL-Library.Multiset" "HOL-Library.AList"
begin

text \<open>
  What the components share: the values of Python that the source uses, and the lemmas about
  them that carry the component proofs.

  \<^item> A Python \<open>float\<close> is a \<open>real\<close>: arithmetic is exact, so rounding errors, NaN and overflow
    are outside the model; the one place where the source uses \<open>float("inf")\<close> has the type
    \<open>xfloat\<close> below. A Python \<open>int\<close> is an \<open>int\<close>, \<open>None\<close> is the \<open>None\<close> of an \<open>option\<close>.
  \<^item> A Python \<open>str\<close> is a \<open>string\<close>; \<open>lower\<close> and \<open>strip\<close> are those of ASCII text. Comparison
    of strings and of tuples is lexicographic (\<open>List_Lexorder\<close>, \<open>Product_Lexorder\<close>).
  \<^item> A function that may raise returns \<open>py_error + 'a\<close>.
  \<^item> \<open>min\<close> and \<open>max\<close> with a key return the first optimal element, \<open>sorted\<close> with a key is the
    stable \<open>sort_key\<close>.
\<close>

named_theorems py_defs \<open>definitions of the Python primitives\<close>

section \<open>Python values\<close>

type_synonym pyfloat = real

datatype py_error = ValueError | KeyError | IndexError | TypeError | ZeroDivisionError | DatabaseError

type_synonym 'a result = "py_error + 'a"

definition res_bind :: "'e + 'a \<Rightarrow> ('a \<Rightarrow> 'e + 'b) \<Rightarrow> 'e + 'b" where
  "res_bind r f = (case r of Inl e \<Rightarrow> Inl e | Inr x \<Rightarrow> f x)"

definition res_map :: "('a \<Rightarrow> 'b) \<Rightarrow> 'e + 'a \<Rightarrow> 'e + 'b" where
  "res_map f r = (case r of Inl e \<Rightarrow> Inl e | Inr x \<Rightarrow> Inr (f x))"

text \<open>\<open>bool(x)\<close> of an optional number: \<open>None\<close> and zero are false.\<close>

definition truthy :: "'a::zero option \<Rightarrow> bool" where
  "truthy x = (case x of None \<Rightarrow> False | Some v \<Rightarrow> v \<noteq> 0)"

text \<open>\<open>x or d\<close> for an optional number.\<close>

definition or_num :: "'a::zero option \<Rightarrow> 'a \<Rightarrow> 'a" where
  "or_num x d = (case x of None \<Rightarrow> d | Some v \<Rightarrow> if v = 0 then d else v)"

text \<open>\<open>x if x is not None else y\<close> with an optional and with a plain alternative.\<close>

definition or_else :: "'a option \<Rightarrow> 'a option \<Rightarrow> 'a option" where
  "or_else x y = (case x of None \<Rightarrow> y | Some v \<Rightarrow> Some v)"

definition default_to :: "'a option \<Rightarrow> 'a \<Rightarrow> 'a" where
  "default_to x d = (case x of None \<Rightarrow> d | Some v \<Rightarrow> v)"

text \<open>\<open>xs or ys\<close> for lists.\<close>

definition or_list :: "'a list \<Rightarrow> 'a list \<Rightarrow> 'a list" where
  "or_list xs ys = (if xs = [] then ys else xs)"

text \<open>\<open>int(x)\<close> truncates towards zero; \<open>round(x)\<close> rounds half to even, as \<open>format(x, ".0f")\<close>.\<close>

definition py_int :: "pyfloat \<Rightarrow> int" where
  "py_int x = (if 0 \<le> x then \<lfloor>x\<rfloor> else \<lceil>x\<rceil>)"

definition py_round :: "pyfloat \<Rightarrow> int" where
  "py_round x =
     (let n = \<lfloor>x\<rfloor>; d = x - of_int n
      in if d < 1 / 2 then n
         else if d > 1 / 2 then n + 1
         else if even n then n else n + 1)"

declare res_bind_def [py_defs] res_map_def [py_defs] truthy_def [py_defs] or_num_def [py_defs]
  or_else_def [py_defs] default_to_def [py_defs] or_list_def [py_defs]

section \<open>Floats with positive infinity\<close>

datatype xfloat = Fin pyfloat | PInf

instantiation xfloat :: linorder
begin

fun less_eq_xfloat :: "xfloat \<Rightarrow> xfloat \<Rightarrow> bool" where
  "less_eq_xfloat (Fin x) (Fin y) = (x \<le> y)"
| "less_eq_xfloat PInf (Fin y) = False"
| "less_eq_xfloat x PInf = True"

definition less_xfloat :: "xfloat \<Rightarrow> xfloat \<Rightarrow> bool" where
  "less_xfloat x y = (x \<le> y \<and> \<not> y \<le> x)"

instance
proof
  fix x y z :: xfloat
  show "(x < y) = (x \<le> y \<and> \<not> y \<le> x)" by (rule less_xfloat_def)
  show "x \<le> x" by (cases x) auto
  show "x \<le> y \<Longrightarrow> y \<le> z \<Longrightarrow> x \<le> z" by (cases x; cases y; cases z) auto
  show "x \<le> y \<Longrightarrow> y \<le> x \<Longrightarrow> x = y" by (cases x; cases y) auto
  show "x \<le> y \<or> y \<le> x" by (cases x; cases y) auto
qed

end

section \<open>Strings\<close>

definition lower_char :: "char \<Rightarrow> char" where
  "lower_char c =
     (let n = of_char c :: nat in if 65 \<le> n \<and> n \<le> 90 then char_of (n + 32) else c)"

definition py_lower :: "string \<Rightarrow> string" where
  "py_lower s = map lower_char s"

text \<open>The ASCII whitespace that \<open>str.strip\<close> removes: space, tab, LF, VT, FF, CR and 28 to 31.\<close>

definition is_space :: "char \<Rightarrow> bool" where
  "is_space c = (let n = of_char c :: nat in n = 32 \<or> (9 \<le> n \<and> n \<le> 13) \<or> (28 \<le> n \<and> n \<le> 31))"

definition py_strip :: "string \<Rightarrow> string" where
  "py_strip s = rev (dropWhile is_space (rev (dropWhile is_space s)))"

definition is_digit :: "char \<Rightarrow> bool" where
  "is_digit c = (let n = of_char c :: nat in 48 \<le> n \<and> n \<le> 57)"

definition digit_char :: "nat \<Rightarrow> char" where
  "digit_char n = char_of (48 + n)"

fun show_nat :: "nat \<Rightarrow> string" where
  "show_nat n =
     (if n < 10 then [digit_char n] else show_nat (n div 10) @ [digit_char (n mod 10)])"

declare show_nat.simps [simp del]

definition show_int :: "int \<Rightarrow> string" where
  "show_int i = (if i < 0 then CHR ''-'' # show_nat (nat (- i)) else show_nat (nat i))"

definition digits_value :: "string \<Rightarrow> nat" where
  "digits_value s = foldl (\<lambda>v c. 10 * v + (of_char c - 48)) 0 s"

definition starts_with :: "string \<Rightarrow> string \<Rightarrow> bool" where
  "starts_with s p = (take (length p) s = p)"

definition ends_with :: "string \<Rightarrow> string \<Rightarrow> bool" where
  "ends_with s p = (length p \<le> length s \<and> drop (length s - length p) s = p)"

section \<open>Selection by key\<close>

text \<open>\<open>min(xs, key=k)\<close> keeps the first element whose key no later key is strictly below; it
  raises \<open>ValueError\<close> on an empty sequence. \<open>max\<close> is dual.\<close>

definition keep_min :: "('a \<Rightarrow> 'k::linorder) \<Rightarrow> 'a \<Rightarrow> 'a \<Rightarrow> 'a" where
  "keep_min key m y = (if key y < key m then y else m)"

definition keep_max :: "('a \<Rightarrow> 'k::linorder) \<Rightarrow> 'a \<Rightarrow> 'a \<Rightarrow> 'a" where
  "keep_max key m y = (if key m < key y then y else m)"

fun py_min_by :: "('a \<Rightarrow> 'k::linorder) \<Rightarrow> 'a list \<Rightarrow> 'a result" where
  "py_min_by key [] = Inl ValueError"
| "py_min_by key (x # xs) = Inr (foldl (keep_min key) x xs)"

fun py_max_by :: "('a \<Rightarrow> 'k::linorder) \<Rightarrow> 'a list \<Rightarrow> 'a result" where
  "py_max_by key [] = Inl ValueError"
| "py_max_by key (x # xs) = Inr (foldl (keep_max key) x xs)"

text \<open>\<open>min(xs)\<close> and \<open>max(xs)\<close> of a nonempty list of numbers, with a default.\<close>

definition list_min :: "'a::linorder \<Rightarrow> 'a list \<Rightarrow> 'a" where
  "list_min d xs = (case xs of [] \<Rightarrow> d | x # ys \<Rightarrow> foldl min x ys)"

definition list_max :: "'a::linorder \<Rightarrow> 'a list \<Rightarrow> 'a" where
  "list_max d xs = (case xs of [] \<Rightarrow> d | x # ys \<Rightarrow> foldl max x ys)"

section \<open>Weighted choice\<close>

text \<open>
  \<open>random.choices(xs, weights=ws, k=1)[0]\<close>: the cumulative weights are searched by
  \<open>bisect\<close> for \<open>u * total\<close>, where \<open>u\<close> is the draw of \<open>random()\<close>, with the last index as
  the upper limit of the search; a total that is not positive raises \<open>ValueError\<close>, an empty
  population \<open>IndexError\<close>.
\<close>

fun weighted_index :: "pyfloat \<Rightarrow> pyfloat list \<Rightarrow> nat" where
  "weighted_index t [] = 0"
| "weighted_index t [w] = 0"
| "weighted_index t (w # v # ws) = (if t < w then 0 else Suc (weighted_index (t - w) (v # ws)))"

definition random_choices :: "pyfloat \<Rightarrow> 'a list \<Rightarrow> pyfloat list \<Rightarrow> 'a result" where
  "random_choices u xs ws =
     (if xs = [] then Inl IndexError
      else if length ws \<noteq> length xs then Inl ValueError
      else if sum_list ws \<le> 0 then Inl ValueError
      else Inr (xs ! weighted_index (u * sum_list ws) ws))"

section \<open>Dictionaries\<close>

text \<open>
  A \<open>dict\<close> whose order matters is an association list in insertion order: \<open>AList.update\<close>
  replaces the value of a present key where it stands and appends an absent one, as
  \<open>d[k] = v\<close> does; \<open>map_of\<close> is \<open>d.get\<close>. \<open>dict_of key xs\<close> is the comprehension
  \<open>{key(x): x for x in xs}\<close>.
\<close>

definition dict_of :: "('a \<Rightarrow> 'k) \<Rightarrow> 'a list \<Rightarrow> ('k \<times> 'a) list" where
  "dict_of key xs = foldl (\<lambda>d x. AList.update (key x) x d) [] xs"

section \<open>Interfaces\<close>

text \<open>A transition system with an invariant: what holds at the start and is kept by every step
  holds in every reachable state.\<close>

locale invariant_system =
  fixes start :: "'s \<Rightarrow> bool"
    and trans :: "'s \<Rightarrow> 's \<Rightarrow> bool"
    and inv :: "'s \<Rightarrow> bool"
  assumes start_inv: "start s \<Longrightarrow> inv s"
    and trans_inv: "inv s \<Longrightarrow> trans s t \<Longrightarrow> inv t"
begin

lemma steps_inv: "trans\<^sup>*\<^sup>* s t \<Longrightarrow> inv s \<Longrightarrow> inv t"
  by (induction rule: rtranclp_induct) (auto intro: trans_inv)

lemma reachable_inv: "start s \<Longrightarrow> trans\<^sup>*\<^sup>* s t \<Longrightarrow> inv t"
  by (blast intro: steps_inv start_inv)

end

text \<open>An operation that picks one element of a candidate list: it never raises on a nonempty
  list and always returns a member.\<close>

locale chooser =
  fixes pick :: "'a list \<Rightarrow> 'a result"
  assumes pick_total: "xs \<noteq> [] \<Longrightarrow> \<exists>x. pick xs = Inr x"
    and pick_member: "pick xs = Inr x \<Longrightarrow> x \<in> set xs"
begin

lemma pick_error: "pick xs = Inl e \<Longrightarrow> xs = []"
  using pick_total [of xs] by auto

lemma pick_cases:
  assumes "xs \<noteq> []"
  obtains x where "pick xs = Inr x" "x \<in> set xs"
  using pick_total [OF assms] pick_member by blast

lemma pick_pred: "xs \<noteq> [] \<Longrightarrow> (\<And>x. x \<in> set xs \<Longrightarrow> P x) \<Longrightarrow> \<exists>x. pick xs = Inr x \<and> P x"
  using pick_total pick_member by blast

end

text \<open>A chooser that minimises a key.\<close>

locale key_chooser = chooser pick for pick :: "'a list \<Rightarrow> 'a result" +
  fixes key :: "'a \<Rightarrow> 'k::linorder"
  assumes pick_least: "pick xs = Inr x \<Longrightarrow> y \<in> set xs \<Longrightarrow> key x \<le> key y"
begin

lemma pick_unique:
  "inj_on key (set xs) \<Longrightarrow> pick xs = Inr x \<Longrightarrow> y \<in> set xs \<Longrightarrow> y \<noteq> x \<Longrightarrow> key x < key y"
  using pick_least pick_member by (metis inj_onD order_le_imp_less_or_eq)

end

section \<open>Lemmas\<close>

lemma res_bind_simps [simp]:
  "res_bind (Inl e) f = Inl e" "res_bind (Inr x) f = f x"
  by (simp_all add: res_bind_def)

lemma res_map_simps [simp]:
  "res_map f (Inl e) = Inl e" "res_map f (Inr x) = Inr (f x)"
  by (simp_all add: res_map_def)

lemma res_map_Inr_iff: "res_map f r = Inr y \<longleftrightarrow> (\<exists>x. r = Inr x \<and> y = f x)"
  by (cases r) auto

lemma truthy_simps [simp]: "truthy None = False" "truthy (Some v) = (v \<noteq> 0)"
  by (simp_all add: truthy_def)

lemma or_num_simps [simp]: "or_num None d = d" "or_num (Some v) d = (if v = 0 then d else v)"
  by (simp_all add: or_num_def)

lemma default_to_simps [simp]: "default_to None d = d" "default_to (Some v) d = v"
  by (simp_all add: default_to_def)

lemma or_else_simps [simp]: "or_else None y = y" "or_else (Some v) y = Some v"
  by (simp_all add: or_else_def)

lemma or_list_simps [simp]: "or_list [] ys = ys" "or_list (x # xs) ys = x # xs"
  by (simp_all add: or_list_def)

lemma or_list_eq_Nil [simp]: "or_list xs ys = [] \<longleftrightarrow> xs = [] \<and> ys = []"
  by (simp add: or_list_def)

lemma set_or_list: "set (or_list xs ys) \<subseteq> set xs \<union> set ys"
  by (simp add: or_list_def)

lemma py_int_nonneg: "0 \<le> x \<Longrightarrow> 0 \<le> py_int x"
  by (simp add: py_int_def)

lemma py_int_of_int [simp]: "py_int (of_int n) = n"
  by (simp add: py_int_def)

lemma py_round_of_int [simp]: "py_round (of_int n) = n"
  by (simp add: py_round_def)

lemma py_round_bounds:
  assumes "of_int a \<le> x" "x \<le> of_int b"
  shows "a \<le> py_round x \<and> py_round x \<le> b"
proof -
  have lo: "a \<le> \<lfloor>x\<rfloor>" using assms(1) by (simp add: le_floor_iff)
  have "\<lfloor>x\<rfloor> < b \<or> \<lfloor>x\<rfloor> = b"
    using assms(2) by (metis floor_mono floor_of_int order_le_imp_less_or_eq)
  then show ?thesis
  proof
    assume "\<lfloor>x\<rfloor> < b"
    then show ?thesis using lo by (simp add: py_round_def Let_def)
  next
    assume eq: "\<lfloor>x\<rfloor> = b"
    then have "x = of_int b" using assms(2) by (metis of_int_floor_le order_antisym)
    then show ?thesis using lo eq by simp
  qed
qed

text \<open>Selection by key.\<close>

lemma foldl_keep_min_member: "foldl (keep_min key) m xs \<in> insert m (set xs)"
proof (induction xs arbitrary: m)
  case (Cons y ys)
  then show ?case using Cons [of "keep_min key m y"] by (auto simp: keep_min_def split: if_splits)
qed simp

lemma foldl_keep_min_least:
  "key (foldl (keep_min key) m xs) \<le> key m \<and>
   (\<forall>y \<in> set xs. key (foldl (keep_min key) m xs) \<le> key y)"
proof (induction xs arbitrary: m)
  case (Cons y ys)
  have "key (keep_min key m y) \<le> key m" "key (keep_min key m y) \<le> key y"
    by (auto simp: keep_min_def)
  with Cons [of "keep_min key m y"] show ?case by (auto intro: order_trans)
qed simp

lemma foldl_keep_max_member: "foldl (keep_max key) m xs \<in> insert m (set xs)"
proof (induction xs arbitrary: m)
  case (Cons y ys)
  then show ?case using Cons [of "keep_max key m y"] by (auto simp: keep_max_def split: if_splits)
qed simp

lemma foldl_keep_max_greatest:
  "key m \<le> key (foldl (keep_max key) m xs) \<and>
   (\<forall>y \<in> set xs. key y \<le> key (foldl (keep_max key) m xs))"
proof (induction xs arbitrary: m)
  case (Cons y ys)
  have "key m \<le> key (keep_max key m y)" "key y \<le> key (keep_max key m y)"
    by (auto simp: keep_max_def)
  with Cons [of "keep_max key m y"] show ?case by (auto intro: order_trans)
qed simp

interpretation min_by: key_chooser "py_min_by key" key for key :: "'a \<Rightarrow> 'k::linorder"
proof unfold_locales
  fix xs :: "'a list" and x y
  show "xs \<noteq> [] \<Longrightarrow> \<exists>x. py_min_by key xs = Inr x" by (cases xs) auto
  show "py_min_by key xs = Inr x \<Longrightarrow> x \<in> set xs"
    using foldl_keep_min_member [of key] by (cases xs) auto
  show "py_min_by key xs = Inr x \<Longrightarrow> y \<in> set xs \<Longrightarrow> key x \<le> key y"
    using foldl_keep_min_least [of key] by (cases xs) auto
qed

interpretation max_by: chooser "py_max_by key" for key :: "'a \<Rightarrow> 'k::linorder"
proof unfold_locales
  fix xs :: "'a list" and x
  show "xs \<noteq> [] \<Longrightarrow> \<exists>x. py_max_by key xs = Inr x" by (cases xs) auto
  show "py_max_by key xs = Inr x \<Longrightarrow> x \<in> set xs"
    using foldl_keep_max_member [of key] by (cases xs) auto
qed

lemma py_max_by_greatest: "py_max_by key xs = Inr x \<Longrightarrow> y \<in> set xs \<Longrightarrow> key y \<le> key x"
  using foldl_keep_max_greatest [of key] by (cases xs) auto

lemma foldl_min_props:
  "foldl min m xs \<in> insert m (set xs) \<and> (\<forall>y \<in> insert m (set xs). foldl min m xs \<le> y)"
  for m :: "'a::linorder"
proof (induction xs arbitrary: m)
  case (Cons y ys)
  from Cons [of "min m y"] show ?case by (auto simp: min_def split: if_splits)
qed simp

lemma foldl_max_props:
  "foldl max m xs \<in> insert m (set xs) \<and> (\<forall>y \<in> insert m (set xs). y \<le> foldl max m xs)"
  for m :: "'a::linorder"
proof (induction xs arbitrary: m)
  case (Cons y ys)
  from Cons [of "max m y"] show ?case by (auto simp: max_def split: if_splits)
qed simp

lemma list_min_in: "xs \<noteq> [] \<Longrightarrow> list_min d xs \<in> set xs"
  using foldl_min_props by (cases xs) (auto simp: list_min_def)

lemma list_min_le: "y \<in> set xs \<Longrightarrow> list_min d xs \<le> y"
  using foldl_min_props by (cases xs) (auto simp: list_min_def)

lemma list_max_in: "xs \<noteq> [] \<Longrightarrow> list_max d xs \<in> set xs"
  using foldl_max_props by (cases xs) (auto simp: list_max_def)

lemma list_max_ge: "y \<in> set xs \<Longrightarrow> y \<le> list_max d xs"
  using foldl_max_props by (cases xs) (auto simp: list_max_def)

text \<open>Strings.\<close>

lemma is_space_lower [simp]: "is_space (lower_char c) = is_space c"
proof (cases "65 \<le> (of_char c :: nat) \<and> (of_char c :: nat) \<le> 90")
  case True
  then have "of_char (lower_char c) = (of_char c :: nat) + 32"
    by (simp add: lower_char_def Let_def)
  with True show ?thesis by (simp add: is_space_def Let_def)
next
  case False
  then show ?thesis by (auto simp: lower_char_def Let_def)
qed

lemma lower_char_idem [simp]: "lower_char (lower_char c) = lower_char c"
proof (cases "65 \<le> (of_char c :: nat) \<and> (of_char c :: nat) \<le> 90")
  case True
  then have "of_char (lower_char c) = (of_char c :: nat) + 32"
    by (simp add: lower_char_def Let_def)
  with True show ?thesis by (simp add: lower_char_def [of "lower_char c"] Let_def)
next
  case False
  then have "lower_char c = c" by (auto simp: lower_char_def Let_def)
  then show ?thesis by simp
qed

lemma py_lower_idem [simp]: "py_lower (py_lower s) = py_lower s"
  by (simp add: py_lower_def)

lemma py_lower_eq_Nil [simp]: "py_lower s = [] \<longleftrightarrow> s = []"
  by (simp add: py_lower_def)

lemma py_strip_lower: "py_strip (py_lower s) = py_lower (py_strip s)"
  by (simp add: py_strip_def py_lower_def dropWhile_map rev_map o_def)

lemma py_strip_ends:
  "py_strip s \<noteq> [] \<Longrightarrow> \<not> is_space (hd (py_strip s)) \<and> \<not> is_space (last (py_strip s))"
proof -
  assume ne: "py_strip s \<noteq> []"
  let ?l = "dropWhile is_space s"
  have "dropWhile is_space (rev ?l) \<noteq> []" using ne by (simp add: py_strip_def)
  then have last: "\<not> is_space (last (py_strip s))"
    by (simp add: py_strip_def last_rev hd_dropWhile)
  obtain t where t: "?l = py_strip s @ t"
    by (metis py_strip_def rev_append rev_rev_ident takeWhile_dropWhile_id)
  with ne have "hd (py_strip s) = hd ?l" and "?l \<noteq> []" by auto
  with hd_dropWhile [of is_space s] last show ?thesis by simp
qed

lemma py_strip_idem [simp]: "py_strip (py_strip s) = py_strip s"
proof (cases "py_strip s = []")
  case False
  let ?t = "py_strip s"
  have "dropWhile is_space ?t = ?t"
    using py_strip_ends [OF False] False by (cases ?t) auto
  moreover have "dropWhile is_space (rev ?t) = rev ?t"
    using py_strip_ends [OF False] False by (cases "rev ?t") (auto simp: hd_rev [symmetric])
  ultimately show ?thesis by (simp add: py_strip_def [of ?t])
next
  case True
  then show ?thesis by (simp only: py_strip_def [of "[]"]) simp
qed

text \<open>Loops with an accumulator.\<close>

lemma foldl_inv:
  "P acc \<Longrightarrow> (\<And>a x. P a \<Longrightarrow> x \<in> set xs \<Longrightarrow> P (f a x)) \<Longrightarrow> P (foldl f acc xs)"
  by (induction xs arbitrary: acc) simp_all

lemma foldl_prefix_inv:
  assumes "P acc seen" and "\<And>a ys x. P a ys \<Longrightarrow> x \<in> set xs \<Longrightarrow> P (f a x) (ys @ [x])"
  shows "P (foldl f acc xs) (seen @ xs)"
  using assms
proof (induction xs arbitrary: acc seen)
  case (Cons x xs)
  have "P (f acc x) (seen @ [x])" using Cons.prems by simp
  from Cons.IH [OF this] Cons.prems(2) show ?case by simp
qed simp

text \<open>Dictionaries.\<close>

lemma dict_of_snoc: "dict_of key (xs @ [x]) = AList.update (key x) x (dict_of key xs)"
  by (simp add: dict_of_def)

lemma distinct_dict_of [simp]: "distinct (map fst (dict_of key xs))"
  by (induction xs rule: rev_induct) (simp_all add: dict_of_def distinct_update)

lemma keys_dict_of [simp]: "fst ` set (dict_of key xs) = key ` set xs"
  by (induction xs rule: rev_induct) (auto simp: dict_of_snoc dom_update dict_of_def)

lemma update_entry: "(k, x) \<in> set (AList.update l y d) \<Longrightarrow> (k, x) = (l, y) \<or> (k, x) \<in> set d"
  by (induction d) (auto split: if_splits)

lemma dict_of_entry: "(k, x) \<in> set (dict_of key xs) \<Longrightarrow> k = key x \<and> x \<in> set xs"
proof (induction xs rule: rev_induct)
  case (snoc y ys)
  have "(k, x) = (key y, y) \<or> (k, x) \<in> set (dict_of key ys)"
    using snoc.prems unfolding dict_of_snoc by (rule update_entry)
  with snoc.IH show ?case by auto
qed (simp add: dict_of_def)

text \<open>Weighted choice: the index is in range, and its weight is positive whenever the scaled
  draw is below the total.\<close>

lemma weighted_index_less: "ws \<noteq> [] \<Longrightarrow> weighted_index t ws < length ws"
  by (induction t ws rule: weighted_index.induct) auto

lemma weighted_index_positive:
  "0 \<le> t \<Longrightarrow> t < sum_list ws \<Longrightarrow> 0 < ws ! weighted_index t ws"
proof (induction t ws rule: weighted_index.induct)
  case (3 t w v ws)
  then show ?case by (cases "t < w") auto
qed auto

lemma random_choices_member: "random_choices u xs ws = Inr x \<Longrightarrow> x \<in> set xs"
  using weighted_index_less [of ws "u * sum_list ws"]
  by (cases "ws = []") (auto simp: random_choices_def split: if_splits)

lemma random_choices_total:
  "xs \<noteq> [] \<Longrightarrow> length ws = length xs \<Longrightarrow> \<not> sum_list ws \<le> 0 \<Longrightarrow> \<exists>x. random_choices u xs ws = Inr x"
  by (auto simp: random_choices_def)

lemma random_choices_positive:
  assumes "random_choices u xs (map w xs) = Inr x" "0 \<le> u" "u < 1"
  shows "0 < w x"
proof -
  let ?ws = "map w xs" and ?i = "weighted_index (u * sum_list (map w xs)) (map w xs)"
  from assms(1) have ne: "xs \<noteq> []" and tot: "0 < sum_list ?ws" and x: "x = xs ! ?i"
    by (auto simp: random_choices_def split: if_splits)
  have "u * sum_list ?ws < sum_list ?ws" using tot assms(3) by simp
  moreover have "0 \<le> u * sum_list ?ws" using tot assms(2) by simp
  ultimately have "0 < ?ws ! ?i" by (rule weighted_index_positive [rotated])
  then show ?thesis using weighted_index_less [of ?ws] ne x by simp
qed

lemma sum_list_nonneg_zero:
  "(\<And>x. x \<in> set xs \<Longrightarrow> 0 \<le> f x) \<Longrightarrow> sum_list (map f xs) \<le> 0 \<Longrightarrow> x \<in> set xs \<Longrightarrow> f x = (0::real)"
proof (induction xs)
  case (Cons y ys)
  have "0 \<le> sum_list (map f ys)" using Cons.prems(1) by (intro sum_list_nonneg) auto
  moreover have "0 \<le> f y" using Cons.prems(1) by simp
  ultimately have "f y = 0" "sum_list (map f ys) \<le> 0" using Cons.prems(2) by auto
  then show ?case using Cons.prems(1,3) Cons.IH by auto
qed simp

end
