(* ===== verification/Plan_Types.thy ===== *)
theory Plan_Types
  imports Prelude
begin

text \<open>
  Account plan names, after \<open>codex-lb/app/core/plan_types.py\<close>: cleaning, normalisation,
  canonicalisation, and the test whether an account's plan is among those a model allows.
  The sets of plan names are lists here, so that membership computes.
\<close>

section \<open>Definitions\<close>

definition ACCOUNT_PLAN_TYPES :: "string list" where
  "ACCOUNT_PLAN_TYPES =
     [''free'', ''plus'', ''pro'', ''prolite'', ''team'', ''business'', ''enterprise'', ''edu'']"

definition RATE_LIMIT_PLAN_TYPES :: "string list" where
  "RATE_LIMIT_PLAN_TYPES =
     ACCOUNT_PLAN_TYPES @ [''guest'', ''go'', ''free_workspace'', ''education'', ''quorum'', ''k12'']"

definition ACCOUNT_PLAN_EQUIVALENTS :: "(string \<times> string list) list" where
  "ACCOUNT_PLAN_EQUIVALENTS = [(''prolite'', [''pro''])]"

definition clean_plan_type :: "string option \<Rightarrow> string option" where
  "clean_plan_type v =
     (case v of None \<Rightarrow> None
      | Some s \<Rightarrow> let cleaned = py_strip s in if cleaned = [] then None else Some cleaned)"

definition normalize_account_plan_type :: "string option \<Rightarrow> string option" where
  "normalize_account_plan_type v =
     (case clean_plan_type v of None \<Rightarrow> None
      | Some cleaned \<Rightarrow>
          let normalized = py_lower cleaned
          in if normalized \<in> set ACCOUNT_PLAN_TYPES then Some normalized else None)"

definition canonicalize_account_plan_type :: "string option \<Rightarrow> string option" where
  "canonicalize_account_plan_type v =
     (case clean_plan_type v of None \<Rightarrow> None
      | Some cleaned \<Rightarrow>
          let normalized = py_lower cleaned
          in if normalized \<in> set ACCOUNT_PLAN_TYPES then Some normalized else Some cleaned)"

definition coerce_account_plan_type :: "string option \<Rightarrow> string \<Rightarrow> string" where
  "coerce_account_plan_type v dflt =
     (case clean_plan_type v of None \<Rightarrow> dflt
      | Some cleaned \<Rightarrow> default_to (canonicalize_account_plan_type (Some cleaned)) dflt)"

definition normalize_rate_limit_plan_type :: "string option \<Rightarrow> string option" where
  "normalize_rate_limit_plan_type v =
     (case clean_plan_type v of None \<Rightarrow> None
      | Some cleaned \<Rightarrow>
          let normalized = py_lower cleaned
          in if normalized \<in> set RATE_LIMIT_PLAN_TYPES then Some normalized else None)"

definition account_plan_matches_allowed :: "string option \<Rightarrow> string list \<Rightarrow> bool" where
  "account_plan_matches_allowed v allowed_plans =
     (case clean_plan_type v of None \<Rightarrow> False
      | Some cleaned \<Rightarrow>
          let normalized_allowed = map py_lower allowed_plans;
              normalized = normalize_account_plan_type (Some cleaned);
              candidate = default_to normalized (py_lower cleaned)
          in if candidate \<in> set normalized_allowed then True
             else (case normalized of None \<Rightarrow> False
                   | Some n \<Rightarrow>
                       list_ex (\<lambda>p. p \<in> set normalized_allowed)
                         (default_to (map_of ACCOUNT_PLAN_EQUIVALENTS n) [])))"

section \<open>Lemmas\<close>

lemma clean_plan_type_Some:
  "clean_plan_type v = Some c \<Longrightarrow> c \<noteq> [] \<and> py_strip c = c"
  by (auto simp: clean_plan_type_def Let_def split: option.splits if_splits)

lemma clean_plan_type_cleaned: "clean_plan_type v = Some c \<Longrightarrow> clean_plan_type (Some c) = Some c"
  using clean_plan_type_Some [of v c] by (simp add: clean_plan_type_def Let_def)

lemma clean_plan_type_lower:
  "clean_plan_type (Some (py_lower s)) = map_option py_lower (clean_plan_type (Some s))"
  by (auto simp: clean_plan_type_def Let_def py_strip_lower)

lemma normalize_account_plan_type_in:
  "normalize_account_plan_type v = Some p \<Longrightarrow> p \<in> set ACCOUNT_PLAN_TYPES"
  by (auto simp: normalize_account_plan_type_def Let_def split: option.splits if_splits)

lemma normalize_account_plan_type_lower:
  "normalize_account_plan_type (Some (py_lower s)) = normalize_account_plan_type (Some s)"
  by (auto simp: normalize_account_plan_type_def clean_plan_type_lower Let_def
      split: option.splits)

text \<open>Canonicalising a plan name twice changes nothing: what the account row stores is a fixed
  point, whether or not the plan is a known one.\<close>

lemma canonicalize_idem:
  "canonicalize_account_plan_type (canonicalize_account_plan_type v)
     = canonicalize_account_plan_type v"
proof (cases "clean_plan_type v")
  case (Some c)
  have c: "c \<noteq> []" "py_strip c = c" using clean_plan_type_Some [OF Some] by auto
  have low: "clean_plan_type (Some (py_lower c)) = Some (py_lower c)"
    using clean_plan_type_cleaned [OF Some] by (simp add: clean_plan_type_lower)
  show ?thesis
    using Some c low clean_plan_type_cleaned [OF Some]
    by (auto simp: canonicalize_account_plan_type_def Let_def)
qed (simp add: canonicalize_account_plan_type_def clean_plan_type_def)

lemma account_plan_matches_case_insensitive:
  "account_plan_matches_allowed (Some (py_lower s)) (map py_lower allowed)
     = account_plan_matches_allowed (Some s) allowed"
proof -
  have "map py_lower (map py_lower allowed) = map py_lower allowed" by simp
  then show ?thesis
    using clean_plan_type_cleaned [of "Some s"]
    by (auto simp: account_plan_matches_allowed_def clean_plan_type_lower
        normalize_account_plan_type_lower Let_def split: option.splits)
qed

end
