(* ===== verification/Usage_Core.thy ===== *)
theory Usage_Core
  imports Plan_Types
begin

text \<open>
  Usage windows, after \<open>codex-lb/app/core/usage/__init__.py\<close> and \<open>types.py\<close>: the capacity of
  each plan, the names and lengths of the windows, the pooled summary of a window over the
  accounts, expiry of elapsed rows, and the re-mapping of weekly-only rows from the primary to the
  secondary slot.

  An account is represented by its plan name, the only field these functions read. A
  \<open>datetime\<close> is a count of microseconds on the wall clock, with the UTC offset when it is aware.
\<close>

section \<open>Data\<close>

datatype py_datetime = Naive int | Aware int int

record UsageWindow =
  uw_used_percent :: "pyfloat option"
  uw_reset_at :: "int option"
  limit_window_seconds :: "int option"
  reset_after_seconds :: "int option"

record NormalizedRateLimitWindows =
  nw_primary :: "UsageWindow option"
  nw_secondary :: "UsageWindow option"
  nw_monthly :: "UsageWindow option"

record UsageWindowRow =
  row_account_id :: string
  row_used_percent :: "pyfloat option"
  row_reset_at :: "int option"
  row_window_minutes :: "int option"
  row_recorded_at :: "py_datetime option"

record UsageWindowSummary =
  ws_used_percent :: "pyfloat option"
  ws_capacity_credits :: pyfloat
  ws_used_credits :: pyfloat
  ws_reset_at :: "int option"
  ws_window_minutes :: "int option"

record UsageWindowSnapshot =
  sn_used_percent :: pyfloat
  sn_capacity_credits :: pyfloat
  sn_used_credits :: pyfloat
  sn_reset_at :: "int option"
  sn_window_minutes :: "int option"

definition PLAN_CAPACITY_CREDITS_PRIMARY :: "(string \<times> pyfloat) list" where
  "PLAN_CAPACITY_CREDITS_PRIMARY =
     [(''free'', 0), (''plus'', 225), (''business'', 225), (''team'', 225), (''edu'', 225),
      (''pro'', 1500), (''prolite'', 1125), (''enterprise'', 1500)]"

definition PLAN_CAPACITY_CREDITS_SECONDARY :: "(string \<times> pyfloat) list" where
  "PLAN_CAPACITY_CREDITS_SECONDARY =
     [(''free'', 1134), (''plus'', 7560), (''business'', 7560), (''team'', 7560), (''edu'', 7560),
      (''pro'', 50400), (''prolite'', 37800), (''enterprise'', 50400)]"

definition PLAN_CAPACITY_CREDITS_MONTHLY :: "(string \<times> pyfloat) list" where
  "PLAN_CAPACITY_CREDITS_MONTHLY = [(''free'', 1134)]"

definition DEFAULT_WINDOW_MINUTES_PRIMARY :: int where
  "DEFAULT_WINDOW_MINUTES_PRIMARY = 300"

definition DEFAULT_WINDOW_MINUTES_SECONDARY :: int where
  "DEFAULT_WINDOW_MINUTES_SECONDARY = 10080"

definition DEFAULT_WINDOW_MINUTES_MONTHLY :: int where
  "DEFAULT_WINDOW_MINUTES_MONTHLY = 43200"

section \<open>Windows and capacities\<close>

definition normalize_window_key :: "string option \<Rightarrow> string" where
  "normalize_window_key window =
     (let normalized = py_lower (default_to window [])
      in if normalized \<in> {''primary'', ''5h''} then ''primary''
         else if normalized \<in> {''secondary'', ''7d''} then ''secondary''
         else if normalized \<in> {''monthly'', ''30d''} then ''monthly''
         else normalized)"

definition normalize_rate_limit_windows ::
  "UsageWindow option \<Rightarrow> UsageWindow option \<Rightarrow> NormalizedRateLimitWindows" where
  "normalize_rate_limit_windows primary_window secondary_window =
     (if (case primary_window of None \<Rightarrow> False
          | Some w \<Rightarrow> limit_window_seconds w = Some (DEFAULT_WINDOW_MINUTES_MONTHLY * 60))
         \<and> secondary_window = None
      then \<lparr>nw_primary = None, nw_secondary = None, nw_monthly = primary_window\<rparr>
      else \<lparr>nw_primary = primary_window, nw_secondary = secondary_window, nw_monthly = None\<rparr>)"

definition used_credits_from_percent :: "pyfloat option \<Rightarrow> pyfloat option \<Rightarrow> pyfloat option" where
  "used_credits_from_percent used_pct capacity =
     (case (used_pct, capacity) of (Some u, Some c) \<Rightarrow> Some (c * u / 100) | _ \<Rightarrow> None)"

definition remaining_percent_from_used :: "pyfloat option \<Rightarrow> pyfloat option" where
  "remaining_percent_from_used used_pct = map_option (\<lambda>u. max 0 (100 - u)) used_pct"

definition remaining_credits_from_used :: "pyfloat option \<Rightarrow> pyfloat option \<Rightarrow> pyfloat option" where
  "remaining_credits_from_used used_credits capacity =
     (case (used_credits, capacity) of (Some u, Some c) \<Rightarrow> Some (max 0 (c - u)) | _ \<Rightarrow> None)"

definition remaining_credits_from_percent ::
  "pyfloat option \<Rightarrow> pyfloat option \<Rightarrow> pyfloat option" where
  "remaining_credits_from_percent used_pct capacity =
     remaining_credits_from_used (used_credits_from_percent used_pct capacity) capacity"

definition normalize_usage_window :: "UsageWindowSummary \<Rightarrow> UsageWindowSnapshot" where
  "normalize_usage_window s =
     \<lparr>sn_used_percent = or_num (ws_used_percent s) 0,
      sn_capacity_credits = ws_capacity_credits s,
      sn_used_credits = ws_used_credits s,
      sn_reset_at = ws_reset_at s,
      sn_window_minutes = ws_window_minutes s\<rparr>"

definition capacity_for_plan :: "string option \<Rightarrow> string \<Rightarrow> pyfloat option" where
  "capacity_for_plan plan window =
     (case normalize_account_plan_type plan of None \<Rightarrow> None
      | Some normalized \<Rightarrow>
          let window_key = normalize_window_key (Some window)
          in if window_key = ''primary'' then map_of PLAN_CAPACITY_CREDITS_PRIMARY normalized
             else if window_key = ''secondary'' then map_of PLAN_CAPACITY_CREDITS_SECONDARY normalized
             else if window_key = ''monthly'' then map_of PLAN_CAPACITY_CREDITS_MONTHLY normalized
             else None)"

definition default_window_minutes :: "string \<Rightarrow> int option" where
  "default_window_minutes window =
     (let window_key = normalize_window_key (Some window)
      in if window_key = ''primary'' then Some DEFAULT_WINDOW_MINUTES_PRIMARY
         else if window_key = ''secondary'' then Some DEFAULT_WINDOW_MINUTES_SECONDARY
         else if window_key = ''monthly'' then Some DEFAULT_WINDOW_MINUTES_MONTHLY
         else None)"

text \<open>The set of the positive window lengths is a duplicate-free list.\<close>

definition resolve_window_minutes_values :: "string \<Rightarrow> int list \<Rightarrow> int option" where
  "resolve_window_minutes_values window vals =
     (case vals of [] \<Rightarrow> default_window_minutes window
      | [v] \<Rightarrow> Some v
      | _ \<Rightarrow> (case default_window_minutes window of
               Some d \<Rightarrow> Some d
             | None \<Rightarrow> Some (list_min 0 vals)))"

definition add_window_minutes :: "int list \<Rightarrow> UsageWindowRow \<Rightarrow> int list" where
  "add_window_minutes vals row =
     (case row_window_minutes row of
        Some m \<Rightarrow> if m > 0 then List.insert m vals else vals
      | None \<Rightarrow> vals)"

definition resolve_window_minutes :: "string \<Rightarrow> UsageWindowRow list \<Rightarrow> int option" where
  "resolve_window_minutes window rows =
     resolve_window_minutes_values window (foldl add_window_minutes [] rows)"

text \<open>The loop of \<open>summarize_usage_window\<close>, one row at a time; \<open>plan_of\<close> is the account map.\<close>

definition summarize_row ::
  "(string \<Rightarrow> string option) \<Rightarrow> string \<Rightarrow> pyfloat \<times> pyfloat \<times> int list \<times> int list \<Rightarrow> UsageWindowRow
     \<Rightarrow> pyfloat \<times> pyfloat \<times> int list \<times> int list" where
  "summarize_row plan_of window acc row =
     (case acc of (total_capacity, total_used, reset_candidates, vals) \<Rightarrow>
        let reset_candidates' =
              (case row_reset_at row of None \<Rightarrow> reset_candidates | Some r \<Rightarrow> reset_candidates @ [r]);
            vals' = add_window_minutes vals row
        in case (row_used_percent row, capacity_for_plan (plan_of (row_account_id row)) window) of
             (Some u, Some c) \<Rightarrow>
               (total_capacity + c, total_used + c * u / 100, reset_candidates', vals')
           | _ \<Rightarrow> (total_capacity, total_used, reset_candidates', vals'))"

definition summarize_usage_window ::
  "UsageWindowRow list \<Rightarrow> (string \<Rightarrow> string option) \<Rightarrow> string \<Rightarrow> UsageWindowSummary" where
  "summarize_usage_window rows plan_of window =
     (case foldl (summarize_row plan_of window) (0, 0, [], []) rows of
        (total_capacity, total_used, reset_candidates, vals) \<Rightarrow>
          \<lparr>ws_used_percent =
             (if total_capacity > 0 then Some (total_used / total_capacity * 100) else None),
           ws_capacity_credits = total_capacity,
           ws_used_credits = total_used,
           ws_reset_at = (if reset_candidates = [] then None else Some (list_min 0 reset_candidates)),
           ws_window_minutes = resolve_window_minutes_values window vals\<rparr>)"

definition is_weekly_window_minutes :: "int option \<Rightarrow> bool" where
  "is_weekly_window_minutes m =
     (m \<noteq> None \<and> default_window_minutes ''secondary'' \<noteq> None \<and> m = default_window_minutes ''secondary'')"

definition is_monthly_window_minutes :: "int option \<Rightarrow> bool" where
  "is_monthly_window_minutes m =
     (m \<noteq> None \<and> default_window_minutes ''monthly'' \<noteq> None \<and> m = default_window_minutes ''monthly'')"

definition is_primary_window_minutes :: "int option \<Rightarrow> bool" where
  "is_primary_window_minutes m =
     (m \<noteq> None \<and> default_window_minutes ''primary'' \<noteq> None \<and> m = default_window_minutes ''primary'')"

section \<open>Rows\<close>

definition normalize_recorded_at :: "py_datetime option \<Rightarrow> int option" where
  "normalize_recorded_at v =
     map_option (\<lambda>d. case d of Naive t \<Rightarrow> t | Aware t off \<Rightarrow> t - off) v"

definition should_prefer_primary_row :: "UsageWindowRow \<Rightarrow> UsageWindowRow \<Rightarrow> bool" where
  "should_prefer_primary_row p s =
     (let by_reset =
            (case (row_reset_at p, row_reset_at s) of
               (Some a, Some b) \<Rightarrow> if a \<noteq> b then a > b else True
             | (Some a, None) \<Rightarrow> True
             | (None, Some b) \<Rightarrow> False
             | (None, None) \<Rightarrow> True)
      in case (normalize_recorded_at (row_recorded_at p), normalize_recorded_at (row_recorded_at s)) of
           (Some a, Some b) \<Rightarrow> if a \<noteq> b then a > b else by_reset
         | (Some a, None) \<Rightarrow> True
         | (None, Some b) \<Rightarrow> False
         | (None, None) \<Rightarrow> by_reset)"

definition should_use_weekly_primary :: "UsageWindowRow \<Rightarrow> UsageWindowRow option \<Rightarrow> bool" where
  "should_use_weekly_primary p s =
     (if \<not> is_weekly_window_minutes (row_window_minutes p) then False
      else (case s of None \<Rightarrow> True | Some r \<Rightarrow> should_prefer_primary_row p r))"

definition expire_elapsed_window_row :: "int \<Rightarrow> UsageWindowRow \<Rightarrow> UsageWindowRow" where
  "expire_elapsed_window_row now_epoch row =
     (case row_reset_at row of
        Some r \<Rightarrow> if r \<le> now_epoch then row\<lparr>row_used_percent := Some 0, row_reset_at := None\<rparr> else row
      | None \<Rightarrow> row)"

definition expire_elapsed_window_rows :: "UsageWindowRow list \<Rightarrow> int \<Rightarrow> UsageWindowRow list" where
  "expire_elapsed_window_rows rows now_epoch = map (expire_elapsed_window_row now_epoch) rows"

definition weekly_only_step ::
  "UsageWindowRow list \<times> (string \<times> UsageWindowRow) list \<Rightarrow> string \<times> UsageWindowRow
     \<Rightarrow> UsageWindowRow list \<times> (string \<times> UsageWindowRow) list" where
  "weekly_only_step acc entry =
     (case (acc, entry) of ((normalized_primary, secondary_by_account), (account_id, primary_row)) \<Rightarrow>
        if is_weekly_window_minutes (row_window_minutes primary_row)
        then (normalized_primary,
              if should_use_weekly_primary primary_row (map_of secondary_by_account account_id)
              then AList.update account_id primary_row secondary_by_account
              else secondary_by_account)
        else (normalized_primary @ [primary_row], secondary_by_account))"

definition normalize_weekly_only_rows ::
  "UsageWindowRow list \<Rightarrow> UsageWindowRow list \<Rightarrow> UsageWindowRow list \<times> UsageWindowRow list" where
  "normalize_weekly_only_rows primary_rows secondary_rows =
     (case foldl weekly_only_step ([], dict_of row_account_id secondary_rows)
             (dict_of row_account_id primary_rows) of
        (normalized_primary, secondary_by_account) \<Rightarrow>
          (normalized_primary, map snd secondary_by_account))"

section \<open>Invariants of the loops\<close>

definition percent_ok :: "UsageWindowRow \<Rightarrow> bool" where
  "percent_ok row = (case row_used_percent row of None \<Rightarrow> True | Some u \<Rightarrow> 0 \<le> u \<and> u \<le> 100)"

text \<open>The summary loop: used credits lie between zero and the capacity.\<close>

definition summary_ok :: "pyfloat \<times> pyfloat \<times> int list \<times> int list \<Rightarrow> bool" where
  "summary_ok acc = (case acc of (cap, used, resets, vals) \<Rightarrow> 0 \<le> used \<and> used \<le> cap)"

text \<open>The re-mapping loop: what it keeps between its two accumulators.\<close>

definition keyed_rows :: "(string \<times> UsageWindowRow) list \<Rightarrow> bool" where
  "keyed_rows d = (distinct (map fst d) \<and> (\<forall>e \<in> set d. fst e = row_account_id (snd e)))"

abbreviation weekly_entry :: "string \<times> UsageWindowRow \<Rightarrow> bool" where
  "weekly_entry e \<equiv> is_weekly_window_minutes (row_window_minutes (snd e))"

definition weekly_inv ::
  "UsageWindowRow list \<times> (string \<times> UsageWindowRow) list \<Rightarrow> (string \<times> UsageWindowRow) list \<Rightarrow> bool" where
  "weekly_inv acc seen =
     (fst acc = map snd (filter (\<lambda>e. \<not> weekly_entry e) seen)
      \<and> keyed_rows (snd acc)
      \<and> fst ` set (filter weekly_entry seen) \<subseteq> fst ` set (snd acc))"

text \<open>The secondary row of an account, from its primary and its secondary row.\<close>

definition chosen_secondary :: "UsageWindowRow option \<Rightarrow> UsageWindowRow option \<Rightarrow> UsageWindowRow option" where
  "chosen_secondary p s =
     (case p of None \<Rightarrow> s
      | Some r \<Rightarrow>
          if is_weekly_window_minutes (row_window_minutes r)
             \<and> (case s of None \<Rightarrow> True | Some r' \<Rightarrow> should_prefer_primary_row r r')
          then Some r else s)"

abbreviation weekly_loop ::
  "UsageWindowRow list \<Rightarrow> UsageWindowRow list \<Rightarrow> UsageWindowRow list \<times> (string \<times> UsageWindowRow) list" where
  "weekly_loop ps ss \<equiv>
     foldl weekly_only_step ([], dict_of row_account_id ss) (dict_of row_account_id ps)"

section \<open>Lemmas\<close>

lemma capacity_for_plan_nonneg: "capacity_for_plan p w = Some c \<Longrightarrow> 0 \<le> c"
  by (auto simp: capacity_for_plan_def Let_def PLAN_CAPACITY_CREDITS_PRIMARY_def
      PLAN_CAPACITY_CREDITS_SECONDARY_def PLAN_CAPACITY_CREDITS_MONTHLY_def
      split: option.splits if_splits)

text \<open>Used and remaining credits add up to the capacity.\<close>

lemma credits_conserved:
  assumes "0 \<le> u" "u \<le> 100" "0 \<le> c"
  shows "\<exists>used rem. used_credits_from_percent (Some u) (Some c) = Some used
     \<and> remaining_credits_from_percent (Some u) (Some c) = Some rem
     \<and> used + rem = c \<and> 0 \<le> used \<and> 0 \<le> rem"
proof -
  have "c * u \<le> c * 100" using assms by (intro mult_left_mono) auto
  then have "max 0 (c - c * u / 100) = c - c * u / 100" by simp
  moreover have "0 \<le> c * u / 100" "0 \<le> c - c * u / 100" using assms \<open>c * u \<le> c * 100\<close> by auto
  ultimately show ?thesis
    by (intro exI [of _ "c * u / 100"] exI [of _ "c - c * u / 100"])
      (simp add: used_credits_from_percent_def remaining_credits_from_percent_def
        remaining_credits_from_used_def)
qed

lemma summarize_row_ok:
  assumes "summary_ok acc" "percent_ok row"
  shows "summary_ok (summarize_row plan_of window acc row)"
proof -
  have "c * u \<le> c * 100" "0 \<le> c * u"
    if "row_used_percent row = Some u" "capacity_for_plan p window = Some c" for u c p
    using that assms(2) capacity_for_plan_nonneg [of p window c]
    by (auto simp: percent_ok_def intro: mult_left_mono)
  then show ?thesis using assms(1)
    by (fastforce simp: summary_ok_def summarize_row_def Let_def split: prod.splits option.splits)
qed

lemma summarize_bounds:
  assumes "\<And>r. r \<in> set rows \<Longrightarrow> percent_ok r"
  shows "0 \<le> ws_used_credits (summarize_usage_window rows plan_of window)
     \<and> ws_used_credits (summarize_usage_window rows plan_of window)
         \<le> ws_capacity_credits (summarize_usage_window rows plan_of window)
     \<and> (case ws_used_percent (summarize_usage_window rows plan_of window) of
          None \<Rightarrow> True | Some p \<Rightarrow> 0 \<le> p \<and> p \<le> 100)"
proof -
  obtain cap used resets vals
    where f: "foldl (summarize_row plan_of window) (0, 0, [], []) rows = (cap, used, resets, vals)"
    using prod_cases4 by blast
  have "summary_ok (foldl (summarize_row plan_of window) (0, 0, [], []) rows)"
    by (rule foldl_inv [where P = summary_ok]) (simp_all add: summary_ok_def [of "(0, 0, [], [])"]
        summarize_row_ok assms)
  then show ?thesis
    by (auto simp: summarize_usage_window_def f summary_ok_def divide_simps)
qed

lemma expire_row_idem:
  "expire_elapsed_window_row now (expire_elapsed_window_row now row)
     = expire_elapsed_window_row now row"
  by (auto simp: expire_elapsed_window_row_def split: option.splits)

lemma expire_row_future:
  "row_reset_at (expire_elapsed_window_row now row) = Some r \<Longrightarrow> now < r"
  by (auto simp: expire_elapsed_window_row_def split: option.splits if_splits)

lemma should_prefer_total:
  "should_prefer_primary_row a b \<or> should_prefer_primary_row b a"
  by (auto simp: should_prefer_primary_row_def Let_def split: option.splits)

lemma keyed_rows_dict_of: "keyed_rows (dict_of row_account_id rows)"
  by (auto simp: keyed_rows_def dest: dict_of_entry)

lemma keyed_rows_update:
  "keyed_rows d \<Longrightarrow> keyed_rows (AList.update (row_account_id r) r d)"
  by (auto simp: keyed_rows_def distinct_update dest!: update_entry)

lemma weekly_step_inv:
  assumes inv: "weekly_inv acc seen" and key: "fst e = row_account_id (snd e)"
  shows "weekly_inv (weekly_only_step acc e) (seen @ [e])"
proof -
  obtain np sec where acc: "acc = (np, sec)" by (cases acc) auto
  obtain k r where e: "e = (k, r)" by (cases e) auto
  consider "\<not> weekly_entry e"
    | "weekly_entry e" "should_use_weekly_primary r (map_of sec k)"
    | "weekly_entry e" "\<not> should_use_weekly_primary r (map_of sec k)" by blast
  then show ?thesis
  proof cases
    case 1
    then show ?thesis using inv by (simp add: acc e weekly_inv_def weekly_only_step_def)
  next
    case 2
    then show ?thesis using inv key
      by (auto simp: acc e weekly_inv_def weekly_only_step_def dom_update keyed_rows_update)
  next
    case 3
    then have "map_of sec k \<noteq> None"
      by (cases "map_of sec k") (simp_all add: e should_use_weekly_primary_def)
    then have "k \<in> fst ` set sec" by (simp add: map_of_eq_None_iff)
    with 3 inv show ?thesis by (simp add: acc e weekly_inv_def weekly_only_step_def)
  qed
qed

lemma weekly_step_keys: "fst ` set sec \<subseteq> fst ` set (snd (weekly_only_step (np, sec) e))"
  by (auto simp: weekly_only_step_def dom_update split: prod.splits)

lemma weekly_foldl_keys:
  "fst ` set sec \<subseteq> fst ` set (snd (foldl weekly_only_step (np, sec) es))"
proof (induction es arbitrary: np sec)
  case (Cons e es)
  obtain np' sec' where st: "weekly_only_step (np, sec) e = (np', sec')" by (cases "weekly_only_step (np, sec) e")
  have "fst ` set sec \<subseteq> fst ` set sec'" using weekly_step_keys [of sec np e] st by simp
  also have "\<dots> \<subseteq> fst ` set (snd (foldl weekly_only_step (np', sec') es))" by (rule Cons.IH)
  finally show ?case by (simp add: st)
qed simp

lemma weekly_loop_inv: "weekly_inv (weekly_loop ps ss) (dict_of row_account_id ps)"
proof -
  have "weekly_inv ([], dict_of row_account_id ss) []"
    by (simp add: weekly_inv_def keyed_rows_dict_of)
  then have "weekly_inv (weekly_loop ps ss) ([] @ dict_of row_account_id ps)"
  proof (rule foldl_prefix_inv [where P = weekly_inv])
    fix a ys x
    assume "weekly_inv a ys" "x \<in> set (dict_of row_account_id ps)"
    then show "weekly_inv (weekly_only_step a x) (ys @ [x])"
      using dict_of_entry [of "fst x" "snd x"] by (intro weekly_step_inv) auto
  qed
  then show ?thesis by simp
qed

lemma normalize_weekly_loop:
  "normalize_weekly_only_rows ps ss
     = (fst (weekly_loop ps ss), map snd (snd (weekly_loop ps ss)))"
  by (simp add: normalize_weekly_only_rows_def split: prod.splits)

text \<open>The loop decides each account on its own.\<close>

lemma weekly_step_lookup:
  "map_of (snd (weekly_only_step (np, sec) (k, r))) a
     = (if a = k then chosen_secondary (Some r) (map_of sec a) else map_of sec a)"
  by (auto simp: weekly_only_step_def chosen_secondary_def should_use_weekly_primary_def update_conv
      split: option.splits)

lemma weekly_foldl_lookup:
  "distinct (map fst es) \<Longrightarrow>
     map_of (snd (foldl weekly_only_step (np, sec) es)) a = chosen_secondary (map_of es a) (map_of sec a)"
proof (induction es arbitrary: np sec)
  case (Cons e es)
  obtain k r where e: "e = (k, r)" by (cases e)
  obtain np' sec' where st: "weekly_only_step (np, sec) e = (np', sec')"
    by (cases "weekly_only_step (np, sec) e")
  have sec': "map_of sec' a = (if a = k then chosen_secondary (Some r) (map_of sec a) else map_of sec a)"
    using weekly_step_lookup [of np sec k r a] st e by simp
  show ?case
  proof (cases "a = k")
    case True
    then have "map_of es a = None" using Cons.prems e by (simp add: map_of_eq_None_iff)
    then show ?thesis using Cons st e sec' True by (simp add: chosen_secondary_def)
  next
    case False
    then show ?thesis using Cons st e sec' by simp
  qed
qed (simp add: chosen_secondary_def)

section \<open>Properties\<close>

text \<open>Re-mapping weekly-only rows. With the last row of each account counting, the primary rows
  returned are exactly the given ones that are not weekly; the secondary rows hold each account at
  most once; and the secondary row of an account is its weekly primary row where that is preferred
  (no secondary row, or a later recording, or a later reset), else its own secondary row: no
  account loses its weekly figures and none gets another's.\<close>

lemma weekly_rows_remapped:
  "fst (normalize_weekly_only_rows ps ss)
     = filter (\<lambda>r. \<not> is_weekly_window_minutes (row_window_minutes r)) (map snd (dict_of row_account_id ps))
   \<and> distinct (map row_account_id (snd (normalize_weekly_only_rows ps ss)))
   \<and> List.find (\<lambda>r. row_account_id r = a) (snd (normalize_weekly_only_rows ps ss))
     = chosen_secondary (map_of (dict_of row_account_id ps) a) (map_of (dict_of row_account_id ss) a)"
proof -
  let ?s = "snd (weekly_loop ps ss)"
  have inv: "weekly_inv (weekly_loop ps ss) (dict_of row_account_id ps)" by (rule weekly_loop_inv)
  then have keyed: "keyed_rows ?s" by (simp add: weekly_inv_def)
  have "distinct (map fst (dict_of row_account_id ps))"
    using keyed_rows_dict_of [of ps] by (simp add: keyed_rows_def)
  then have look: "map_of ?s a = chosen_secondary (map_of (dict_of row_account_id ps) a) (map_of (dict_of row_account_id ss) a)"
    by (rule weekly_foldl_lookup)
  have "List.find (\<lambda>r. row_account_id r = a) (map snd d) = map_of d a" if "keyed_rows d" for d
    using that by (induction d) (auto simp: keyed_rows_def)
  then have "List.find (\<lambda>r. row_account_id r = a) (map snd ?s) = map_of ?s a" using keyed by blast
  moreover have "map row_account_id (map snd ?s) = map fst ?s" using keyed by (auto simp: keyed_rows_def)
  ultimately show ?thesis
    using inv keyed look
    by (simp add: normalize_weekly_loop weekly_inv_def keyed_rows_def filter_map o_def del: map_map)
qed

end
