(* ===== verification/Balancer_State.thy ===== *)
theory Balancer_State
  imports Usage_Core
begin

text \<open>
  The account state of the load balancer and the pure functions on it, after
  \<open>codex-lb/app/core/balancer/logic.py\<close>: sort keys, remaining percentages, the floors that protect
  \<open>preserve\<close> accounts from opportunistic traffic, reset buckets and remaining credits.

  Every field of the dataclass \<open>AccountState\<close> is a field of the record. The \<open>Literal\<close> types
  are datatypes; the routing policy of an account is a free string in the source and here. The
  dictionary of planner costs is an association list. The digest of \<open>hashlib.sha256\<close> is the
  argument \<open>sha256_hex\<close>: the results hold for every digest function.
\<close>

section \<open>Data\<close>

datatype AccountStatus =
  ACTIVE | RATE_LIMITED | QUOTA_EXCEEDED | PAUSED | REAUTH_REQUIRED | DEACTIVATED

datatype RoutingStrategy =
  usage_weighted | round_robin | capacity_weighted | relative_availability
| fill_first | sequential_drain | reset_drain | single_account

datatype TrafficClass = foreground | opportunistic

datatype UsageWeightedOrder = secondary_first | primary_first

datatype ResetPreferenceWindow = primary_window | secondary_window

record AccountState =
  account_id :: string
  status :: AccountStatus
  used_percent :: "pyfloat option"
  reset_at :: "pyfloat option"
  primary_reset_at :: "int option"
  primary_window_minutes :: "int option"
  blocked_at :: "pyfloat option"
  cooldown_until :: "pyfloat option"
  secondary_used_percent :: "pyfloat option"
  secondary_reset_at :: "int option"
  last_error_at :: "pyfloat option"
  last_selected_at :: "pyfloat option"
  error_count :: int
  deactivation_reason :: "string option"
  plan_type :: "string option"
  capacity_credits :: "pyfloat option"
  health_tier :: int
  priority_used_percent :: "pyfloat option"
  priority_secondary_used_percent :: "pyfloat option"
  priority_reset_at :: "int option"
  priority_capacity_credits :: "pyfloat option"
  limit_scoped_usage :: bool
  inflight_response_creates :: int
  inflight_streams :: int
  leased_tokens :: pyfloat
  routing_policy :: string
  ignore_standard_quota :: bool

text \<open>\<open>AccountState(id, status)\<close> with the defaults of the dataclass.\<close>

definition new_account :: "string \<Rightarrow> AccountStatus \<Rightarrow> AccountState" where
  "new_account i s =
     \<lparr>account_id = i, status = s, used_percent = None, reset_at = None, primary_reset_at = None,
      primary_window_minutes = None, blocked_at = None, cooldown_until = None,
      secondary_used_percent = None, secondary_reset_at = None, last_error_at = None,
      last_selected_at = None, error_count = 0, deactivation_reason = None, plan_type = None,
      capacity_credits = None, health_tier = 0, priority_used_percent = None,
      priority_secondary_used_percent = None, priority_reset_at = None,
      priority_capacity_credits = None, limit_scoped_usage = False, inflight_response_creates = 0,
      inflight_streams = 0, leased_tokens = 0, routing_policy = ''normal'',
      ignore_standard_quota = False\<rparr>"

record SelectionResult =
  account :: "AccountState option"
  error_message :: "string option"

record RoutingCost =
  rc_total :: pyfloat
  rc_reason :: "string option"

type_synonym RoutingCostsByAccount = "(string \<times> RoutingCost) list"

definition SECONDS_PER_DAY :: int where
  "SECONDS_PER_DAY = 60 * 60 * 24"

definition SECONDS_PER_HOUR :: int where
  "SECONDS_PER_HOUR = 60 * 60"

definition SECONDS_PER_WEEK :: int where
  "SECONDS_PER_WEEK = 7 * SECONDS_PER_DAY"

definition UNKNOWN_RESET_BUCKET_DAYS :: int where
  "UNKNOWN_RESET_BUCKET_DAYS = 10000"

definition UNKNOWN_RESET_FALLBACK_SECONDS :: int where
  "UNKNOWN_RESET_FALLBACK_SECONDS = 7 * SECONDS_PER_DAY"

definition RELATIVE_AVAILABILITY_MIN_DIVISOR_SECONDS :: int where
  "RELATIVE_AVAILABILITY_MIN_DIVISOR_SECONDS = 5 * 60"

definition RELATIVE_AVAILABILITY_MIN_WEIGHT_FRACTION :: pyfloat where
  "RELATIVE_AVAILABILITY_MIN_WEIGHT_FRACTION = 1 / 10"

definition DEFAULT_RELATIVE_AVAILABILITY_POWER :: pyfloat where
  "DEFAULT_RELATIVE_AVAILABILITY_POWER = 2"

definition UNKNOWN_PLAN_FALLBACK :: string where
  "UNKNOWN_PLAN_FALLBACK = ''free''"

definition CAPACITY_PLAN_ALIASES :: "(string \<times> string) list" where
  "CAPACITY_PLAN_ALIASES =
     [(''education'', ''edu''), (''k12'', ''edu''), (''guest'', ''free''), (''go'', ''free''),
      (''free_workspace'', ''free''), (''quorum'', ''free''), (''unknown'', ''free'')]"

definition HEALTH_TIER_HEALTHY :: int where
  "HEALTH_TIER_HEALTHY = 0"

definition HEALTH_TIER_DRAINING :: int where
  "HEALTH_TIER_DRAINING = 1"

definition HEALTH_TIER_PROBING :: int where
  "HEALTH_TIER_PROBING = 2"

definition ROUTING_POLICY_NORMAL :: string where
  "ROUTING_POLICY_NORMAL = ''normal''"

definition ROUTING_POLICY_BURN_FIRST :: string where
  "ROUTING_POLICY_BURN_FIRST = ''burn_first''"

definition ROUTING_POLICY_PRESERVE :: string where
  "ROUTING_POLICY_PRESERVE = ''preserve''"

definition PRESERVE_MIN_WEEKLY_FLOOR_PCT :: pyfloat where
  "PRESERVE_MIN_WEEKLY_FLOOR_PCT = 5"

definition PRESERVE_MIN_SHORT_WINDOW_FLOOR_PCT :: pyfloat where
  "PRESERVE_MIN_SHORT_WINDOW_FLOOR_PCT = 10"

definition NORMAL_LAST_ACCOUNT_EMERGENCY_FLOOR_PCT :: pyfloat where
  "NORMAL_LAST_ACCOUNT_EMERGENCY_FLOOR_PCT = 5"

definition RECENT_FOREGROUND_ACTIVITY_SECONDS :: pyfloat where
  "RECENT_FOREGROUND_ACTIVITY_SECONDS = 30 * 60"

lemmas time_constants =
  SECONDS_PER_DAY_def SECONDS_PER_HOUR_def SECONDS_PER_WEEK_def UNKNOWN_RESET_BUCKET_DAYS_def
  UNKNOWN_RESET_FALLBACK_SECONDS_def RELATIVE_AVAILABILITY_MIN_DIVISOR_SECONDS_def
  RECENT_FOREGROUND_ACTIVITY_SECONDS_def

lemmas policy_constants =
  ROUTING_POLICY_NORMAL_def ROUTING_POLICY_BURN_FIRST_def ROUTING_POLICY_PRESERVE_def

lemmas tier_constants =
  HEALTH_TIER_HEALTHY_def HEALTH_TIER_DRAINING_def HEALTH_TIER_PROBING_def

section \<open>Usage and cost\<close>

definition planner_cost :: "AccountState \<Rightarrow> RoutingCostsByAccount option \<Rightarrow> pyfloat" where
  "planner_cost st routing_costs =
     (case routing_costs of None \<Rightarrow> 0
      | Some costs \<Rightarrow>
          if costs = [] then 0
          else (case map_of costs (account_id st) of None \<Rightarrow> 0 | Some c \<Rightarrow> rc_total c))"

definition priority_primary_used :: "AccountState \<Rightarrow> pyfloat" where
  "priority_primary_used st = default_to (or_else (priority_used_percent st) (used_percent st)) 0"

definition priority_secondary_used :: "AccountState \<Rightarrow> pyfloat option \<Rightarrow> pyfloat" where
  "priority_secondary_used st primary_used =
     (if limit_scoped_usage st \<and> priority_secondary_used_percent st = None
      then default_to primary_used (priority_primary_used st)
      else (case or_else (priority_secondary_used_percent st) (secondary_used_percent st) of
              Some v \<Rightarrow> v
            | None \<Rightarrow> default_to primary_used (priority_primary_used st)))"

type_synonym usage_key = "pyfloat \<times> pyfloat \<times> pyfloat \<times> string"

definition usage_sort_key :: "AccountState \<Rightarrow> usage_key" where
  "usage_sort_key st =
     (let primary_used = priority_primary_used st;
          secondary_used = priority_secondary_used st (Some primary_used);
          last_selected = or_num (last_selected_at st) 0
      in (secondary_used, primary_used, last_selected, account_id st))"

definition primary_usage_sort_key :: "AccountState \<Rightarrow> usage_key" where
  "primary_usage_sort_key st =
     (let primary_used = priority_primary_used st;
          secondary_used = priority_secondary_used st (Some primary_used);
          last_selected = or_num (last_selected_at st) 0
      in (primary_used, secondary_used, last_selected, account_id st))"

definition effective_policy :: "AccountState \<Rightarrow> string" where
  "effective_policy st =
     (if routing_policy st \<in> {ROUTING_POLICY_BURN_FIRST, ROUTING_POLICY_NORMAL, ROUTING_POLICY_PRESERVE}
      then routing_policy st else ROUTING_POLICY_NORMAL)"

definition used_pct :: "AccountState \<Rightarrow> bool \<Rightarrow> pyfloat option" where
  "used_pct st secondary =
     (if secondary then or_else (secondary_used_percent st) (used_percent st) else used_percent st)"

definition remaining_pct :: "AccountState \<Rightarrow> bool \<Rightarrow> pyfloat option" where
  "remaining_pct st secondary = map_option (\<lambda>u. max 0 (100 - min 100 u)) (used_pct st secondary)"

definition seconds_until :: "pyfloat option \<Rightarrow> pyfloat \<Rightarrow> pyfloat option" where
  "seconds_until r current = map_option (\<lambda>t. max 0 (t - current)) r"

abbreviation int_seconds :: "int option \<Rightarrow> pyfloat option" where
  "int_seconds r \<equiv> map_option of_int r"

definition recent_foreground_activity :: "AccountState \<Rightarrow> pyfloat \<Rightarrow> bool" where
  "recent_foreground_activity st current =
     (case last_selected_at st of None \<Rightarrow> False
      | Some t \<Rightarrow> current - t \<le> RECENT_FOREGROUND_ACTIVITY_SECONDS)"

section \<open>Floors for opportunistic traffic\<close>

definition weekly_pace_floor_pct :: "AccountState \<Rightarrow> pyfloat \<Rightarrow> pyfloat" where
  "weekly_pace_floor_pct st current =
     (case (seconds_until (int_seconds (secondary_reset_at st)) current, used_pct st True) of
        (Some remaining_seconds, Some used) \<Rightarrow>
          let week = of_int SECONDS_PER_WEEK;
              elapsed_seconds = max 0 (week - remaining_seconds);
              expected_used_pct = min 100 (elapsed_seconds / week * 100);
              behind_pace = (used + 5 < expected_used_pct);
              pace_floor =
                (if remaining_seconds \<le> 6 * of_int SECONDS_PER_HOUR \<and> behind_pace then 0
                 else if remaining_seconds \<le> of_int SECONDS_PER_DAY \<and> behind_pace then 2
                 else if behind_pace then 5
                 else 15);
              pace_floor =
                (if recent_foreground_activity st current then max pace_floor 25 else pace_floor)
          in max PRESERVE_MIN_WEEKLY_FLOOR_PCT pace_floor
      | _ \<Rightarrow> 100)"

definition short_window_floor_pct :: "AccountState \<Rightarrow> pyfloat \<Rightarrow> int \<Rightarrow> pyfloat" where
  "short_window_floor_pct st current preserve_count =
     (case seconds_until (reset_at st) current of
        None \<Rightarrow> 100
      | Some remaining_seconds \<Rightarrow>
          let fl = PRESERVE_MIN_SHORT_WINDOW_FLOOR_PCT;
              fl = (if remaining_seconds > of_int SECONDS_PER_HOUR then max fl 20 else fl);
              fl = (if recent_foreground_activity st current then max fl 30 else fl)
          in if preserve_count \<le> 1 then max fl 25 else fl)"

definition preserve_allows_opportunistic_burn :: "AccountState \<Rightarrow> pyfloat \<Rightarrow> int \<Rightarrow> bool" where
  "preserve_allows_opportunistic_burn st current preserve_count =
     (if remaining_pct st True = None \<or> remaining_pct st False = None then False
      else if secondary_reset_at st = None \<or> reset_at st = None then False
      else
        let weekly_floor = weekly_pace_floor_pct st current;
            short_floor = short_window_floor_pct st current preserve_count
        in or_num (remaining_pct st True) 0 > weekly_floor
           \<and> or_num (remaining_pct st False) 0 > short_floor)"

definition preserve_count :: "AccountState list \<Rightarrow> int" where
  "preserve_count available =
     int (length (filter (\<lambda>st. effective_policy st = ROUTING_POLICY_PRESERVE) available))"

text \<open>The loop over the other accounts returns at the first usable one.\<close>

definition has_other_usable_foreground_capacity ::
  "AccountState \<Rightarrow> AccountState list \<Rightarrow> pyfloat \<Rightarrow> bool" where
  "has_other_usable_foreground_capacity candidate available current =
     list_ex (\<lambda>other.
         account_id other \<noteq> account_id candidate
         \<and> status other = ACTIVE
         \<and> (effective_policy other = ROUTING_POLICY_PRESERVE \<longrightarrow>
              preserve_allows_opportunistic_burn other current (preserve_count available)))
       available"

definition above_emergency_floor :: "AccountState \<Rightarrow> bool" where
  "above_emergency_floor st =
     (case (remaining_pct st False, remaining_pct st True) of
        (Some p, Some s) \<Rightarrow>
          p > NORMAL_LAST_ACCOUNT_EMERGENCY_FLOOR_PCT \<and> s > NORMAL_LAST_ACCOUNT_EMERGENCY_FLOOR_PCT
      | _ \<Rightarrow> False)"

definition opportunistic_ok :: "AccountState list \<Rightarrow> pyfloat \<Rightarrow> AccountState \<Rightarrow> bool" where
  "opportunistic_ok available current st =
     (if effective_policy st = ROUTING_POLICY_PRESERVE
      then preserve_allows_opportunistic_burn st current (preserve_count available)
      else has_other_usable_foreground_capacity st available current \<or> above_emergency_floor st)"

text \<open>The source appends to three lists in one loop, by policy; each list is the filter of the
  candidates by its policy and its admission test, in the order of the candidates.\<close>

definition filter_opportunistic_candidates ::
  "AccountState list \<Rightarrow> pyfloat \<Rightarrow> AccountState list \<times> string option" where
  "filter_opportunistic_candidates available current =
     (let ok = opportunistic_ok available current;
          burn_first = filter (\<lambda>st. effective_policy st = ROUTING_POLICY_BURN_FIRST \<and> ok st) available;
          preserve = filter (\<lambda>st. effective_policy st = ROUTING_POLICY_PRESERVE \<and> ok st) available;
          normal = filter (\<lambda>st. effective_policy st \<noteq> ROUTING_POLICY_BURN_FIRST
                             \<and> effective_policy st \<noteq> ROUTING_POLICY_PRESERVE \<and> ok st) available
      in if burn_first \<noteq> [] \<or> normal \<noteq> [] \<or> preserve \<noteq> []
         then (burn_first @ normal @ preserve, None)
         else if list_ex (\<lambda>st. effective_policy st = ROUTING_POLICY_PRESERVE) available
         then ([], Some ''preserve floor or stale usage data blocks opportunistic burn'')
         else ([], Some ''no expendable account has emergency foreground reserve''))"

section \<open>Resets and capacity\<close>

definition reset_preference_bucket :: "AccountState \<Rightarrow> pyfloat \<Rightarrow> ResetPreferenceWindow \<Rightarrow> int" where
  "reset_preference_bucket st current window =
     (let weekly = or_else (priority_reset_at st) (secondary_reset_at st);
          r = (case window of primary_window \<Rightarrow> or_else (primary_reset_at st) weekly
               | secondary_window \<Rightarrow> or_else weekly (primary_reset_at st))
      in case r of
           None \<Rightarrow> UNKNOWN_RESET_BUCKET_DAYS * SECONDS_PER_DAY
         | Some t \<Rightarrow>
             let remaining_seconds = max 0 (py_int (of_int t - current))
             in case window of secondary_window \<Rightarrow> remaining_seconds div SECONDS_PER_DAY
                | primary_window \<Rightarrow> remaining_seconds)"

text \<open>The caller's list is never empty: \<open>min\<close> of an empty generator would raise.\<close>

definition prefer_earlier_reset_candidates ::
  "AccountState list \<Rightarrow> pyfloat \<Rightarrow> ResetPreferenceWindow \<Rightarrow> AccountState list result" where
  "prefer_earlier_reset_candidates available current window =
     (if available = [] then Inl ValueError
      else
        let earliest_bucket = list_min 0 (map (\<lambda>st. reset_preference_bucket st current window) available)
        in Inr (filter (\<lambda>st. reset_preference_bucket st current window = earliest_bucket) available))"

definition fallback_secondary_capacity_credits :: "string option \<Rightarrow> pyfloat" where
  "fallback_secondary_capacity_credits plan =
     (let normalized = py_lower (py_strip (default_to plan []));
          resolved_plan =
            default_to (map_of CAPACITY_PLAN_ALIASES normalized)
              (if normalized = [] then UNKNOWN_PLAN_FALLBACK else normalized)
      in default_to (map_of PLAN_CAPACITY_CREDITS_SECONDARY resolved_plan)
           (the (map_of PLAN_CAPACITY_CREDITS_SECONDARY UNKNOWN_PLAN_FALLBACK)))"

definition remaining_secondary_credits :: "AccountState \<Rightarrow> pyfloat" where
  "remaining_secondary_credits st =
     (let left = (\<lambda>capacity.
            let primary_used = priority_primary_used st;
                used = priority_secondary_used st (Some primary_used)
            in max 0 (capacity * (1 - min used 100 / 100)))
      in case or_else (priority_capacity_credits st) (capacity_credits st) of
           None \<Rightarrow> left (fallback_secondary_capacity_credits (plan_type st))
         | Some capacity \<Rightarrow> if capacity \<le> 0 then 0 else left capacity)"

definition configured_capacity_credits :: "AccountState \<Rightarrow> pyfloat" where
  "configured_capacity_credits st =
     (case capacity_credits st of
        Some c \<Rightarrow> if c > 0 then c else fallback_secondary_capacity_credits (plan_type st)
      | None \<Rightarrow> fallback_secondary_capacity_credits (plan_type st))"

definition lowest_planner_cost_candidates ::
  "AccountState list \<Rightarrow> RoutingCostsByAccount option \<Rightarrow> AccountState list result" where
  "lowest_planner_cost_candidates available routing_costs =
     (if routing_costs = None \<or> routing_costs = Some [] then Inr available
      else if available = [] then Inl ValueError
      else
        let lowest_cost = list_min 0 (map (\<lambda>st. planner_cost st routing_costs) available)
        in Inr (filter (\<lambda>st. planner_cost st routing_costs = lowest_cost) available))"

end
