(* ===== verification/Balancer_Strategies.thy ===== *)
theory Balancer_Strategies
  imports Balancer_State
begin

text \<open>
  The ways in which the balancer picks one account out of a candidate pool, after
  \<open>codex-lb/app/core/balancer/logic.py\<close>: the sort keys of the deterministic strategies, the weighted
  draw of \<open>capacity_weighted\<close>, the top-k weighted draw of \<open>relative_availability\<close>, and the
  per-replica salt of the round-robin tie-break.

  The draw \<open>u\<close> is the number in \<open>[0, 1)\<close> that \<open>random()\<close> returns inside \<open>random.choices\<close>. Log
  lines are left out. Each strategy is interpreted as a \<open>chooser\<close>.
\<close>

section \<open>Tie-breaks\<close>

definition stable_tie_breaker :: "(string \<Rightarrow> string) \<Rightarrow> string \<Rightarrow> string" where
  "stable_tie_breaker sha256_hex acc_id = sha256_hex acc_id"

definition decorrelated_tie_breaker :: "(string \<Rightarrow> string) \<Rightarrow> string \<Rightarrow> string \<Rightarrow> string" where
  "decorrelated_tie_breaker sha256_hex acc_id salt = sha256_hex (salt @ [CHR 0x00] @ acc_id)"

text \<open>The two module globals of the salt.\<close>

record ReplicaSalt =
  configured_replica_salt :: "string option"
  process_replica_salt :: "string option"

definition configure_replica_salt :: "string option \<Rightarrow> ReplicaSalt \<Rightarrow> ReplicaSalt" where
  "configure_replica_salt salt g =
     (let normalized = py_strip (default_to salt [])
      in g\<lparr>configured_replica_salt := (if normalized = [] then None else Some normalized)\<rparr>)"

definition default_replica_salt :: "string \<Rightarrow> ReplicaSalt \<Rightarrow> string \<times> ReplicaSalt" where
  "default_replica_salt gethostname g =
     (case process_replica_salt g of
        Some s \<Rightarrow> (s, g)
      | None \<Rightarrow>
          let hostname = py_strip gethostname;
              s = (if hostname = [] then ''codex-lb'' else hostname)
          in (s, g\<lparr>process_replica_salt := Some s\<rparr>))"

definition effective_replica_salt ::
  "string option \<Rightarrow> string \<Rightarrow> ReplicaSalt \<Rightarrow> string \<times> ReplicaSalt" where
  "effective_replica_salt explicit gethostname g =
     (if explicit \<noteq> None \<and> py_strip (the explicit) \<noteq> [] then (py_strip (the explicit), g)
      else (case configured_replica_salt g of
              Some s \<Rightarrow> (s, g)
            | None \<Rightarrow> default_replica_salt gethostname g))"

section \<open>Sort keys\<close>

definition sequential_drain_sort_key ::
  "(string \<Rightarrow> string) \<Rightarrow> AccountState \<Rightarrow> pyfloat \<times> string \<times> string" where
  "sequential_drain_sort_key sha256_hex st =
     (configured_capacity_credits st, stable_tie_breaker sha256_hex (account_id st), account_id st)"

definition weekly_reset_timestamp :: "AccountState \<Rightarrow> pyfloat \<Rightarrow> xfloat" where
  "weekly_reset_timestamp st current =
     (case int_seconds (secondary_reset_at st) of
        Some t \<Rightarrow>
          if t > current then Fin t
          else (case reset_at st of Some r \<Rightarrow> if r > current then Fin r else PInf | None \<Rightarrow> PInf)
      | None \<Rightarrow> (case reset_at st of Some r \<Rightarrow> if r > current then Fin r else PInf | None \<Rightarrow> PInf))"

definition reset_drain_sort_key ::
  "(string \<Rightarrow> string) \<Rightarrow> AccountState \<Rightarrow> pyfloat \<Rightarrow> int \<times> pyfloat \<times> pyfloat \<times> xfloat \<times> string \<times> string" where
  "reset_drain_sort_key sha256_hex st current =
     (let primary_remaining = 100 - default_to (used_percent st) 0;
          secondary_remaining =
            100 - default_to (or_else (secondary_used_percent st) (used_percent st)) 0;
          r = weekly_reset_timestamp st current;
          reset_bucket_days =
            (case r of PInf \<Rightarrow> UNKNOWN_RESET_BUCKET_DAYS
             | Fin t \<Rightarrow> max 0 \<lfloor>(t - current) / of_int SECONDS_PER_DAY\<rfloor>)
      in (reset_bucket_days, - max 0 primary_remaining, - max 0 secondary_remaining, r,
          stable_tie_breaker sha256_hex (account_id st), account_id st))"

definition capacity_probe_sort_key :: "AccountState \<Rightarrow> pyfloat \<times> usage_key" where
  "capacity_probe_sort_key st = (- remaining_secondary_credits st, usage_sort_key st)"

definition capacity_probe_sort_key_with_cost ::
  "AccountState \<Rightarrow> RoutingCostsByAccount option \<Rightarrow> pyfloat \<times> pyfloat \<times> usage_key" where
  "capacity_probe_sort_key_with_cost st routing_costs =
     (planner_cost st routing_costs, - remaining_secondary_credits st, usage_sort_key st)"

definition fill_first_sort_key :: "AccountState \<Rightarrow> pyfloat \<times> pyfloat \<times> string" where
  "fill_first_sort_key st =
     (- default_to (used_percent st) 0, - default_to (secondary_used_percent st) 0, account_id st)"

definition select_fill_first :: "AccountState list \<Rightarrow> AccountState result" where
  "select_fill_first available = py_min_by fill_first_sort_key available"

section \<open>Weighted strategies\<close>

definition select_capacity_weighted :: "pyfloat \<Rightarrow> AccountState list \<Rightarrow> AccountState result" where
  "select_capacity_weighted u available =
     (let weights = map remaining_secondary_credits available
      in if sum_list weights \<le> 0 then py_min_by usage_sort_key available
         else random_choices u available weights)"

definition relative_availability_divisor_seconds :: "AccountState \<Rightarrow> pyfloat \<Rightarrow> pyfloat" where
  "relative_availability_divisor_seconds st current =
     (let remaining_seconds =
            (case or_else (priority_reset_at st) (secondary_reset_at st) of
               None \<Rightarrow> of_int UNKNOWN_RESET_FALLBACK_SECONDS
             | Some t \<Rightarrow> max 0 (of_int t - current))
      in max remaining_seconds (of_int RELATIVE_AVAILABILITY_MIN_DIVISOR_SECONDS))"

definition relative_availability_remaining_seconds :: "AccountState \<Rightarrow> pyfloat \<Rightarrow> pyfloat" where
  "relative_availability_remaining_seconds st current =
     (case or_else (priority_reset_at st) (secondary_reset_at st) of
        None \<Rightarrow> of_int UNKNOWN_RESET_FALLBACK_SECONDS
      | Some t \<Rightarrow> max 0 (of_int t - current))"

definition relative_availability_raw_score :: "AccountState \<Rightarrow> pyfloat \<Rightarrow> pyfloat" where
  "relative_availability_raw_score st current =
     (let remaining_credits = remaining_secondary_credits st
      in if remaining_credits \<le> 0 then 0
         else remaining_credits / relative_availability_divisor_seconds st current)"

type_synonym weighted_candidate = "AccountState \<times> pyfloat \<times> pyfloat"

definition relative_weight :: "pyfloat \<Rightarrow> pyfloat \<Rightarrow> pyfloat \<Rightarrow> pyfloat" where
  "relative_weight best exponent raw_score =
     (raw_score / best) powr (if exponent > 0 then exponent else DEFAULT_RELATIVE_AVAILABILITY_POWER)"

definition relative_sort_key :: "weighted_candidate \<Rightarrow> pyfloat \<times> pyfloat \<times> usage_key" where
  "relative_sort_key c = (case c of (st, weight, raw_score) \<Rightarrow> (- weight, - raw_score, usage_sort_key st))"

definition relative_availability_weighted_candidates ::
  "AccountState list \<Rightarrow> pyfloat \<Rightarrow> pyfloat \<Rightarrow> int \<Rightarrow> weighted_candidate list" where
  "relative_availability_weighted_candidates available current exponent top_k =
     (let raw_scores = map (\<lambda>st. (st, relative_availability_raw_score st current)) available;
          best_raw_score = list_max 0 (map snd raw_scores)
      in if best_raw_score \<le> 0 then []
         else
           let weighted =
                 filter (\<lambda>(st, weight, raw). \<not> weight < RELATIVE_AVAILABILITY_MIN_WEIGHT_FRACTION)
                   (map (\<lambda>(st, raw). (st, relative_weight best_raw_score exponent raw, raw)) raw_scores)
           in if weighted = [] then []
              else take (nat (max 1 top_k)) (sort_key relative_sort_key weighted))"

definition select_relative_availability ::
  "pyfloat \<Rightarrow> AccountState list \<Rightarrow> pyfloat \<Rightarrow> pyfloat \<Rightarrow> int \<Rightarrow> bool \<Rightarrow> AccountState result" where
  "select_relative_availability u available current exponent top_k deterministic_probe =
     (case relative_availability_weighted_candidates available current exponent top_k of
        [] \<Rightarrow> py_min_by usage_sort_key available
      | (winner, weight, raw) # rest \<Rightarrow>
          if deterministic_probe then Inr winner
          else
            let cands = (winner, weight, raw) # rest;
                states = map fst cands;
                weights = map (fst \<circ> snd) cands
            in if sum_list weights \<le> 0 then py_min_by usage_sort_key available
               else random_choices u states weights)"

section \<open>Lemmas\<close>

lemma remaining_secondary_credits_nonneg [simp]: "0 \<le> remaining_secondary_credits st"
  by (simp add: remaining_secondary_credits_def Let_def split: option.split)

interpretation capacity_weighted: chooser "select_capacity_weighted u" for u
proof unfold_locales
  fix xs :: "AccountState list" and x
  show "xs \<noteq> [] \<Longrightarrow> \<exists>x. select_capacity_weighted u xs = Inr x"
    by (simp add: select_capacity_weighted_def Let_def min_by.pick_total random_choices_total)
  show "select_capacity_weighted u xs = Inr x \<Longrightarrow> x \<in> set xs"
    by (auto simp: select_capacity_weighted_def Let_def
        intro: min_by.pick_member random_choices_member split: if_splits)
qed

interpretation fill_first: key_chooser select_fill_first fill_first_sort_key
  unfolding select_fill_first_def [abs_def] by unfold_locales

text \<open>A zero-credit account is drawn only when every candidate has zero credits.\<close>

lemma select_capacity_weighted_positive:
  assumes "select_capacity_weighted u xs = Inr x" "0 \<le> u" "u < 1"
    and "y \<in> set xs" "0 < remaining_secondary_credits y"
  shows "0 < remaining_secondary_credits x"
proof -
  have "\<not> sum_list (map remaining_secondary_credits xs) \<le> 0"
    using sum_list_nonneg_zero [of xs remaining_secondary_credits y] assms(4,5) by auto
  then have "random_choices u xs (map remaining_secondary_credits xs) = Inr x"
    using assms(1) by (simp add: select_capacity_weighted_def Let_def)
  then show ?thesis using assms(2,3) by (rule random_choices_positive)
qed

subsection \<open>Relative availability\<close>

lemma divisor_positive: "0 < relative_availability_divisor_seconds st current"
  by (simp add: relative_availability_divisor_seconds_def time_constants Let_def)

lemma raw_score_nonneg [simp]: "0 \<le> relative_availability_raw_score st current"
  using divisor_positive [of st current]
  by (simp add: relative_availability_raw_score_def Let_def)

lemma relative_weight_le_1:
  assumes "0 < best" "0 \<le> raw" "raw \<le> best"
  shows "relative_weight best exponent raw \<le> 1"
proof -
  have "0 \<le> raw / best" "raw / best \<le> 1" using assms by auto
  then show ?thesis
    using powr_mono2 [of "if exponent > 0 then exponent else DEFAULT_RELATIVE_AVAILABILITY_POWER" "raw / best" 1]
    by (auto simp: relative_weight_def DEFAULT_RELATIVE_AVAILABILITY_POWER_def split: if_splits)
qed

lemma relative_weight_best: "0 < best \<Longrightarrow> relative_weight best exponent best = 1"
  by (simp add: relative_weight_def)

text \<open>What the candidate list contains.\<close>

lemma weighted_candidates_cases:
  fixes available current exponent top_k
  defines "best \<equiv> list_max 0 (map (\<lambda>st. relative_availability_raw_score st current) available)"
  obtains "best \<le> 0" "relative_availability_weighted_candidates available current exponent top_k = []"
  | ws where "0 < best"
      "ws = filter (\<lambda>(st, weight, raw). \<not> weight < RELATIVE_AVAILABILITY_MIN_WEIGHT_FRACTION)
         (map (\<lambda>st. (st, relative_weight best exponent (relative_availability_raw_score st current),
              relative_availability_raw_score st current)) available)"
      "ws \<noteq> []"
      "relative_availability_weighted_candidates available current exponent top_k
         = take (nat (max 1 top_k)) (sort_key relative_sort_key ws)"
proof (cases "best \<le> 0")
  case True
  then show ?thesis using that(1)
    by (simp add: relative_availability_weighted_candidates_def best_def o_def Let_def)
next
  case False
  define ws where "ws = filter (\<lambda>(st, weight, raw). \<not> weight < RELATIVE_AVAILABILITY_MIN_WEIGHT_FRACTION)
     (map (\<lambda>st. (st, relative_weight best exponent (relative_availability_raw_score st current),
          relative_availability_raw_score st current)) available)"
  have ne: "available \<noteq> []" using False by (auto simp: best_def list_max_def)
  then have "best \<in> set (map (\<lambda>st. relative_availability_raw_score st current) available)"
    unfolding best_def by (intro list_max_in) simp
  then obtain st where "st \<in> set available" "relative_availability_raw_score st current = best" by auto
  then have "(st, 1, best) \<in> set ws"
    using False relative_weight_best [of best exponent]
    by (auto simp: ws_def RELATIVE_AVAILABILITY_MIN_WEIGHT_FRACTION_def intro!: image_eqI)
  then have wne: "ws \<noteq> []" by auto
  have "relative_availability_weighted_candidates available current exponent top_k
     = take (nat (max 1 top_k)) (sort_key relative_sort_key ws)"
    using False wne
    by (simp add: relative_availability_weighted_candidates_def best_def [symmetric] ws_def o_def Let_def)
  then show ?thesis using that(2) [OF _ ws_def wne] False by simp
qed

lemma weighted_candidates_member:
  assumes "(st, weight, raw) \<in> set (relative_availability_weighted_candidates available current exponent top_k)"
  shows "st \<in> set available \<and> raw = relative_availability_raw_score st current
     \<and> 0 < raw \<and> 1 / 10 \<le> weight \<and> weight \<le> 1"
proof (cases rule: weighted_candidates_cases [of current available exponent top_k])
  case 1
  then show ?thesis using assms by simp
next
  case (2 ws)
  let ?best = "list_max 0 (map (\<lambda>st. relative_availability_raw_score st current) available)"
  have "(st, weight, raw) \<in> set ws"
    using assms unfolding 2(4) by (auto dest: in_set_takeD)
  then have st: "st \<in> set available" and raw: "raw = relative_availability_raw_score st current"
    and w: "weight = relative_weight ?best exponent raw" "1 / 10 \<le> weight"
    by (auto simp: 2(2) RELATIVE_AVAILABILITY_MIN_WEIGHT_FRACTION_def)
  have "raw \<le> ?best" using st raw by (intro list_max_ge) auto
  then have "weight \<le> 1" using 2(1) w(1) raw by (simp add: relative_weight_le_1)
  moreover have "raw \<noteq> 0" using w by (auto simp: relative_weight_def)
  ultimately show ?thesis using st raw w(2) raw_score_nonneg [of st current] by (simp add: less_le)
qed

lemma weighted_candidates_length:
  "int (length (relative_availability_weighted_candidates available current exponent top_k)) \<le> max 1 top_k"
  by (cases rule: weighted_candidates_cases [of current available exponent top_k]) auto

lemma weighted_candidates_sorted:
  "sorted (map relative_sort_key
     (relative_availability_weighted_candidates available current exponent top_k))"
  by (cases rule: weighted_candidates_cases [of current available exponent top_k])
    (auto simp: take_map [symmetric] sorted_wrt_take)

text \<open>The head of the candidate list has the best raw score, hence weight one.\<close>

lemma weighted_candidates_head:
  assumes "relative_availability_weighted_candidates available current exponent top_k = (st, weight, raw) # rest"
    and "y \<in> set available"
  shows "relative_availability_raw_score y current \<le> raw \<and> weight = 1"
proof (cases rule: weighted_candidates_cases [of current available exponent top_k])
  case 1
  then show ?thesis using assms by simp
next
  case (2 ws)
  let ?best = "list_max 0 (map (\<lambda>st. relative_availability_raw_score st current) available)"
  have ne: "available \<noteq> []" using assms(2) by auto
  then have "?best \<in> set (map (\<lambda>st. relative_availability_raw_score st current) available)"
    by (intro list_max_in) simp
  then obtain b where b: "b \<in> set available" "relative_availability_raw_score b current = ?best" by auto
  have b_ws: "(b, 1, ?best) \<in> set ws"
    using 2(1) b relative_weight_best [of ?best exponent]
    by (auto simp: 2(2) RELATIVE_AVAILABILITY_MIN_WEIGHT_FRACTION_def intro!: image_eqI)
  obtain tl where srt: "sort_key relative_sort_key ws = (st, weight, raw) # tl"
    using assms(1) 2(4) by (cases "sort_key relative_sort_key ws"; cases "nat (max 1 top_k)") auto
  have "sorted (map relative_sort_key ((st, weight, raw) # tl))"
    using sorted_sort_key [of relative_sort_key ws] srt by simp
  moreover have "(b, 1, ?best) \<in> set ((st, weight, raw) # tl)"
    using b_ws set_sort [of relative_sort_key ws] srt by simp
  ultimately have le: "relative_sort_key (st, weight, raw) \<le> relative_sort_key (b, 1, ?best)" by auto
  have "(st, weight, raw) \<in> set ws" using set_sort [of relative_sort_key ws] srt by auto
  then have m: "raw \<le> ?best" "weight = relative_weight ?best exponent raw"
    using 2(2) by (auto intro: list_max_ge)
  have nn: "0 \<le> raw" using \<open>(st, weight, raw) \<in> set ws\<close> 2(2) by auto
  have "weight \<le> 1" using m nn 2(1) by (simp add: relative_weight_le_1)
  with le have "weight = 1" "?best \<le> raw" by (auto simp: relative_sort_key_def)
  moreover have "relative_availability_raw_score y current \<le> ?best"
    using assms(2) by (intro list_max_ge) auto
  ultimately show ?thesis by simp
qed

interpretation relative: chooser "\<lambda>xs. select_relative_availability u xs current exponent top_k probe"
  for u current exponent top_k probe
proof unfold_locales
  fix xs :: "AccountState list" and x
  let ?c = "relative_availability_weighted_candidates xs current exponent top_k"
  show "xs \<noteq> [] \<Longrightarrow> \<exists>x. select_relative_availability u xs current exponent top_k probe = Inr x"
    by (auto simp: select_relative_availability_def Let_def min_by.pick_total
        intro!: random_choices_total split: list.split)
  assume sel: "select_relative_availability u xs current exponent top_k probe = Inr x"
  have cands: "fst c \<in> set xs" if "c \<in> set ?c" for c
    using weighted_candidates_member [of "fst c" "fst (snd c)" "snd (snd c)"] that by simp
  show "x \<in> set xs"
  proof (cases ?c)
    case Nil
    then show ?thesis using sel
      by (auto simp: select_relative_availability_def intro: min_by.pick_member)
  next
    case (Cons c rest)
    obtain st w raw where c: "c = (st, w, raw)" by (cases c) auto
    have "x = fst c \<or> py_min_by usage_sort_key xs = Inr x
        \<or> random_choices u (map fst ?c) (map (fst \<circ> snd) ?c) = Inr x"
      using sel unfolding select_relative_availability_def Cons c list.case prod.case Let_def
      by (simp only: split: if_splits) simp_all
    then consider "x = fst c" | "py_min_by usage_sort_key xs = Inr x"
      | "random_choices u (map fst ?c) (map (fst \<circ> snd) ?c) = Inr x" by blast
    then show ?thesis
    proof cases
      case 1
      then show ?thesis using cands Cons by simp
    next
      case 2
      then show ?thesis by (rule min_by.pick_member)
    next
      case 3
      then have "x \<in> set (map fst ?c)" by (rule random_choices_member)
      then show ?thesis using cands by auto
    qed
  qed
qed

end
