(* ===== verification/Balancer_Select.thy ===== *)
theory Balancer_Select
  imports Balancer_Strategies
begin

text \<open>
  \<open>select_account\<close> of \<open>codex-lb/app/core/balancer/logic.py\<close>, in the order of its body: the pass
  over the states that recovers, skips or holds back each account (\<open>check_state\<close>), the candidate
  list with the opportunistic filter and the backoff fallback (\<open>candidates\<close>), the message when
  nothing can be selected (\<open>no_account_message\<close>), the pool by health tier and routing policy
  (\<open>effective_pool\<close>) and the strategy (\<open>run_strategy\<close>).

  The source changes the states in place; here the function returns the new states beside the
  result. The states of one call are distinct objects, as the caller builds them. The clock, the
  host name, the random draw and the digest are arguments.
\<close>

section \<open>Arguments\<close>

record SelectArgs =
  prefer_earlier_reset :: bool
  prefer_earlier_reset_window :: ResetPreferenceWindow
  routing_strategy :: RoutingStrategy
  allow_backoff_fallback :: bool
  deterministic_probe :: bool
  relative_availability_power :: pyfloat
  relative_availability_top_k :: int
  usage_weighted_order :: UsageWeightedOrder
  traffic_class :: TrafficClass
  args_ignore_standard_quota :: bool
  bypass_quota_exceeded :: bool
  bypass_quota_exceeded_account_ids :: "string list option"
  primary_first_usage_weighted :: bool
  routing_costs :: "RoutingCostsByAccount option"
  replica_salt :: "string option"

record SelectEnv =
  clock :: pyfloat
  gethostname :: string
  random_draw :: pyfloat
  sha256_hex :: "string \<Rightarrow> string"

definition default_args :: SelectArgs where
  "default_args =
     \<lparr>prefer_earlier_reset = False, prefer_earlier_reset_window = secondary_window,
      routing_strategy = capacity_weighted, allow_backoff_fallback = True,
      deterministic_probe = False, relative_availability_power = 2,
      relative_availability_top_k = 5, usage_weighted_order = secondary_first,
      traffic_class = foreground, args_ignore_standard_quota = False,
      bypass_quota_exceeded = False, bypass_quota_exceeded_account_ids = None,
      primary_first_usage_weighted = False, routing_costs = None, replica_salt = None\<rparr>"

section \<open>The pass over the states\<close>

datatype verdict = Skipped | InBackoff | Available

definition bypass_standard_quota :: "SelectArgs \<Rightarrow> AccountState \<Rightarrow> bool" where
  "bypass_standard_quota args st =
     (args_ignore_standard_quota args \<or> ignore_standard_quota st \<or> bypass_quota_exceeded args
      \<or> (case bypass_quota_exceeded_account_ids args of None \<Rightarrow> False
         | Some ids \<Rightarrow> account_id st \<in> set ids))"

definition elapsed :: "pyfloat option \<Rightarrow> pyfloat \<Rightarrow> bool" where
  "elapsed deadline current =
     (case deadline of None \<Rightarrow> False | Some t \<Rightarrow> t \<noteq> 0 \<and> current \<ge> t)"

text \<open>\<open>None\<close> is the \<open>continue\<close> of the loop.\<close>

definition recover_rate_limited :: "pyfloat \<Rightarrow> bool \<Rightarrow> AccountState \<Rightarrow> AccountState option" where
  "recover_rate_limited current bypass st =
     (if status st = RATE_LIMITED then
        if elapsed (reset_at st) current
        then Some (st\<lparr>status := ACTIVE, used_percent := Some 0, error_count := 0, reset_at := None\<rparr>)
        else if \<not> bypass then None else Some st
      else Some st)"

definition recover_quota_exceeded :: "pyfloat \<Rightarrow> bool \<Rightarrow> AccountState \<Rightarrow> AccountState option" where
  "recover_quota_exceeded current bypass st =
     (if status st = QUOTA_EXCEEDED then
        if elapsed (reset_at st) current
        then Some (st\<lparr>status := ACTIVE, used_percent := Some 0, secondary_used_percent := Some 0,
                      reset_at := None\<rparr>)
        else if \<not> bypass then None else Some st
      else Some st)"

definition clear_cooldown :: "pyfloat \<Rightarrow> AccountState \<Rightarrow> AccountState" where
  "clear_cooldown current st =
     (if elapsed (cooldown_until st) current
      then st\<lparr>cooldown_until := None, last_error_at := None, error_count := 0\<rparr> else st)"

definition in_cooldown :: "pyfloat \<Rightarrow> AccountState \<Rightarrow> bool" where
  "in_cooldown current st =
     (case cooldown_until st of None \<Rightarrow> False | Some t \<Rightarrow> t \<noteq> 0 \<and> current < t)"

definition error_backoff_seconds :: "int \<Rightarrow> int" where
  "error_backoff_seconds n = min 300 (30 * 2 ^ nat (n - 3))"

definition in_error_backoff :: "pyfloat \<Rightarrow> AccountState \<Rightarrow> bool" where
  "in_error_backoff current st =
     (case last_error_at st of None \<Rightarrow> False
      | Some t \<Rightarrow> t \<noteq> 0 \<and> current - t < of_int (error_backoff_seconds (error_count st)))"

definition check_state :: "pyfloat \<Rightarrow> SelectArgs \<Rightarrow> AccountState \<Rightarrow> AccountState \<times> verdict" where
  "check_state current args st =
     (let bypass = bypass_standard_quota args st
      in if status st \<in> {REAUTH_REQUIRED, DEACTIVATED} then (st, Skipped)
         else if status st = PAUSED then (st, Skipped)
         else (case recover_rate_limited current bypass st of
                 None \<Rightarrow> (st, Skipped)
               | Some st1 \<Rightarrow>
                   (case recover_quota_exceeded current bypass st1 of
                      None \<Rightarrow> (st1, Skipped)
                    | Some st2 \<Rightarrow>
                        let st3 = clear_cooldown current st2
                        in if in_cooldown current st3 then (st3, Skipped)
                           else if error_count st3 \<ge> 3 then
                             if in_error_backoff current st3 then (st3, InBackoff)
                             else (st3\<lparr>error_count := 0, last_error_at := None\<rparr>, Available)
                           else (st3, Available))))"

definition states_with :: "verdict \<Rightarrow> (AccountState \<times> verdict) list \<Rightarrow> AccountState list" where
  "states_with v checked = map fst (filter (\<lambda>c. snd c = v) checked)"

section \<open>Candidates and messages\<close>

definition SELECTOR_RETRY_HINT_MAX_SECONDS :: int where
  "SELECTOR_RETRY_HINT_MAX_SECONDS = 300"

definition capped_hint :: "pyfloat \<Rightarrow> pyfloat" where
  "capped_hint wait_seconds = min (max 0 wait_seconds) (of_int SELECTOR_RETRY_HINT_MAX_SECONDS)"

definition format_retry_hint :: "pyfloat \<Rightarrow> string" where
  "format_retry_hint wait_seconds =
     ''Rate limit exceeded. Try again in '' @ show_int (py_round (capped_hint wait_seconds)) @ ''s''"

definition no_account_message :: "pyfloat \<Rightarrow> AccountState list \<Rightarrow> string" where
  "no_account_message current all_states =
     (let has = (\<lambda>s. list_ex (\<lambda>st. status st = s) all_states);
          paused = has PAUSED; reauth_required = has REAUTH_REQUIRED; deactivated = has DEACTIVATED;
          reset_candidates =
            map the (filter truthy
              (map reset_at (filter (\<lambda>st. status st = QUOTA_EXCEEDED) all_states)));
          cooldowns =
            map the (filter (\<lambda>c. truthy c \<and> the c > current) (map cooldown_until all_states));
          retry_message =
            (if has QUOTA_EXCEEDED \<and> reset_candidates \<noteq> []
             then format_retry_hint (max 0 (list_min 0 reset_candidates - of_int (py_int current)))
             else if cooldowns \<noteq> []
             then format_retry_hint (max 0 (list_min 0 cooldowns - current))
             else ''No available accounts'')
      in if \<not> has RATE_LIMITED \<and> \<not> has QUOTA_EXCEEDED then
           (if paused \<and> reauth_required \<and> deactivated
            then ''All accounts are paused, deactivated, or require re-authentication''
            else if paused \<and> reauth_required then ''All accounts are paused or require re-authentication''
            else if paused \<and> deactivated then ''All accounts are paused or deactivated''
            else if reauth_required \<and> deactivated
            then ''All accounts are deactivated or require re-authentication''
            else if paused then ''All accounts are paused''
            else if reauth_required then ''All accounts require re-authentication''
            else if deactivated then ''All accounts are deactivated''
            else retry_message)
         else retry_message)"

definition hard_blocked :: "AccountStatus \<Rightarrow> bool" where
  "hard_blocked s = (s \<in> {PAUSED, REAUTH_REQUIRED, DEACTIVATED, RATE_LIMITED, QUOTA_EXCEEDED})"

definition backoff_expires_at :: "AccountState \<Rightarrow> pyfloat" where
  "backoff_expires_at st =
     or_num (last_error_at st) 0 + of_int (error_backoff_seconds (error_count st))"

definition opportunistic_gate ::
  "SelectArgs \<Rightarrow> pyfloat \<Rightarrow> AccountState list \<Rightarrow> string + AccountState list" where
  "opportunistic_gate args current available =
     (if traffic_class args = opportunistic \<and> available \<noteq> [] then
        (case filter_opportunistic_candidates available current of
           (cands, reason) \<Rightarrow>
             if cands = [] then Inl (''opportunistic burn window closed: '' @ default_to reason ''None'')
             else Inr cands)
      else Inr available)"

text \<open>The candidates of the call: \<open>Inl\<close> the message of an early return, \<open>Inr\<close> the accounts to
  choose from. The outer sum is the \<open>ValueError\<close> that \<open>min\<close> would raise.\<close>

definition candidates ::
  "SelectArgs \<Rightarrow> pyfloat \<Rightarrow> (AccountState \<times> verdict) list \<Rightarrow> (string + AccountState list) result" where
  "candidates args current checked =
     (let all_states = map fst checked;
          available = states_with Available checked;
          backoff = states_with InBackoff checked;
          hard_blocked_exists =
            list_ex (\<lambda>st. hard_blocked (status st) \<and> account_id st \<notin> set (map account_id backoff)) all_states
      in if available \<noteq> [] then Inr (opportunistic_gate args current available)
         else if allow_backoff_fallback args
                 \<and> (length backoff > 1 \<or> (backoff \<noteq> [] \<and> hard_blocked_exists))
         then res_map (\<lambda>st. opportunistic_gate args current [st]) (py_min_by backoff_expires_at backoff)
         else Inr (Inl (no_account_message current all_states)))"

section \<open>Pool and strategy\<close>

definition with_tier :: "int \<Rightarrow> AccountState list \<Rightarrow> AccountState list" where
  "with_tier t available = filter (\<lambda>st. health_tier st = t) available"

definition health_pool :: "AccountState list \<Rightarrow> AccountState list" where
  "health_pool available =
     or_list (with_tier HEALTH_TIER_HEALTHY available)
       (or_list (with_tier HEALTH_TIER_PROBING available)
         (or_list (with_tier HEALTH_TIER_DRAINING available) available))"

definition with_policy :: "string \<Rightarrow> AccountState list \<Rightarrow> AccountState list" where
  "with_policy p pool = filter (\<lambda>st. effective_policy st = p) pool"

definition policy_pool :: "AccountState list \<Rightarrow> AccountState list" where
  "policy_pool pool =
     or_list (with_policy ROUTING_POLICY_BURN_FIRST pool)
       (or_list (with_policy ROUTING_POLICY_NORMAL pool)
         (or_list (with_policy ROUTING_POLICY_PRESERVE pool) pool))"

definition effective_pool :: "AccountState list \<Rightarrow> AccountState list" where
  "effective_pool available = policy_pool (health_pool available)"

definition round_robin_sort_key ::
  "SelectEnv \<Rightarrow> SelectArgs \<Rightarrow> string \<Rightarrow> AccountState \<Rightarrow> pyfloat \<times> pyfloat \<times> string" where
  "round_robin_sort_key env args salt st =
     (planner_cost st (routing_costs args), or_num (last_selected_at st) 0,
      decorrelated_tie_breaker (sha256_hex env) (account_id st) salt)"

definition reset_first_sort_key ::
  "SelectArgs \<Rightarrow> pyfloat \<Rightarrow> AccountState \<Rightarrow> int \<times> pyfloat \<times> usage_key" where
  "reset_first_sort_key args current st =
     (reset_preference_bucket st current (prefer_earlier_reset_window args),
      planner_cost st (routing_costs args), usage_sort_key st)"

definition primary_reset_first_sort_key ::
  "SelectArgs \<Rightarrow> pyfloat \<Rightarrow> AccountState \<Rightarrow> int \<times> pyfloat \<times> usage_key" where
  "primary_reset_first_sort_key args current st =
     (reset_preference_bucket st current (prefer_earlier_reset_window args),
      planner_cost st (routing_costs args), primary_usage_sort_key st)"

definition primary_usage_sort_key_with_cost :: "SelectArgs \<Rightarrow> AccountState \<Rightarrow> pyfloat \<times> usage_key" where
  "primary_usage_sort_key_with_cost args st =
     (planner_cost st (routing_costs args), primary_usage_sort_key st)"

definition usage_sort_key_with_cost :: "SelectArgs \<Rightarrow> AccountState \<Rightarrow> pyfloat \<times> usage_key" where
  "usage_sort_key_with_cost args st = (planner_cost st (routing_costs args), usage_sort_key st)"

definition reset_preferred_pool ::
  "SelectArgs \<Rightarrow> bool \<Rightarrow> pyfloat \<Rightarrow> AccountState list \<Rightarrow> AccountState list result" where
  "reset_preferred_pool args prefer current pool =
     (if prefer
      then prefer_earlier_reset_candidates pool current (prefer_earlier_reset_window args)
      else Inr pool)"

definition pooled_strategy ::
  "SelectEnv \<Rightarrow> SelectArgs \<Rightarrow> string \<Rightarrow> pyfloat \<Rightarrow> AccountState list \<Rightarrow> AccountState result" where
  "pooled_strategy env args salt current pool =
     (let prefer = prefer_earlier_reset args \<and> routing_strategy args \<noteq> relative_availability
      in case routing_strategy args of
           round_robin \<Rightarrow> py_min_by (round_robin_sort_key env args salt) pool
         | capacity_weighted \<Rightarrow>
             res_bind (reset_preferred_pool args prefer current pool) (\<lambda>candidate_pool.
               if deterministic_probe args
               then py_min_by (\<lambda>st. capacity_probe_sort_key_with_cost st (routing_costs args)) candidate_pool
               else res_bind (lowest_planner_cost_candidates candidate_pool (routing_costs args))
                      (select_capacity_weighted (random_draw env)))
         | relative_availability \<Rightarrow>
             res_bind (lowest_planner_cost_candidates pool (routing_costs args)) (\<lambda>candidate_pool.
               select_relative_availability (random_draw env) candidate_pool current
                 (relative_availability_power args) (relative_availability_top_k args)
                 (deterministic_probe args))
         | fill_first \<Rightarrow>
             res_bind (reset_preferred_pool args (prefer_earlier_reset args) current pool) select_fill_first
         | _ \<Rightarrow>
             (let order = (if primary_first_usage_weighted args then primary_first
                           else usage_weighted_order args)
              in case order of
                   primary_first \<Rightarrow>
                     (if prefer then py_min_by (primary_reset_first_sort_key args current) pool
                      else py_min_by (primary_usage_sort_key_with_cost args) pool)
                 | secondary_first \<Rightarrow>
                     (if prefer then py_min_by (reset_first_sort_key args current) pool
                      else py_min_by (usage_sort_key_with_cost args) pool)))"

definition run_strategy ::
  "SelectEnv \<Rightarrow> SelectArgs \<Rightarrow> string \<Rightarrow> pyfloat \<Rightarrow> AccountState list \<Rightarrow> AccountState result" where
  "run_strategy env args salt current available =
     (case routing_strategy args of
        single_account \<Rightarrow> py_min_by account_id available
      | sequential_drain \<Rightarrow> py_min_by (sequential_drain_sort_key (sha256_hex env)) available
      | reset_drain \<Rightarrow> py_min_by (\<lambda>st. reset_drain_sort_key (sha256_hex env) st current) available
      | _ \<Rightarrow> pooled_strategy env args salt current (effective_pool available))"

definition current_time :: "SelectEnv \<Rightarrow> pyfloat option \<Rightarrow> pyfloat" where
  "current_time env now = or_num now (clock env)"

definition select_account ::
  "SelectEnv \<Rightarrow> SelectArgs \<Rightarrow> pyfloat option \<Rightarrow> AccountState list \<Rightarrow> ReplicaSalt
     \<Rightarrow> SelectionResult result \<times> AccountState list \<times> ReplicaSalt" where
  "select_account env args now states salts =
     (let current = current_time env now;
          checked = map (check_state current args) states;
          all_states = map fst checked
      in case candidates args current checked of
           Inl e \<Rightarrow> (Inl e, all_states, salts)
         | Inr (Inl msg) \<Rightarrow> (Inr \<lparr>account = None, error_message = Some msg\<rparr>, all_states, salts)
         | Inr (Inr available) \<Rightarrow>
             (case effective_replica_salt (replica_salt args) (gethostname env) salts of
                (salt, salts') \<Rightarrow>
                  (res_map (\<lambda>st. \<lparr>account = Some st, error_message = None\<rparr>)
                     (run_strategy env args salt current available),
                   all_states, salts')))"

end
