(* ===== verification/Retry.thy ===== *)
theory Retry
  imports Prelude
begin

text \<open>
  Retry hints and backoff, after \<open>codex-lb/app/core/utils/retry.py\<close>.

  The two regular expressions are matched by functions on strings of ASCII characters. A unit
  literal has to be followed by a character that is no letter, so the literal is exactly the run
  of letters after the number, and the alternation of the pattern is membership of that run in the
  list of literals. A number is a run of digits with an optional fraction; no shorter run can
  match, since a unit has to follow it.
\<close>

section \<open>Definitions\<close>

definition UNIT_LITERALS :: "string list" where
  "UNIT_LITERALS =
     [''ms'', ''milliseconds'', ''millisecond'', ''hours'', ''hour'', ''hrs'', ''hr'', ''h'',
      ''minutes'', ''minute'', ''mins'', ''min'', ''m'', ''seconds'', ''second'', ''secs'', ''sec'', ''s'']"

definition UNIT_SECONDS :: "(string \<times> pyfloat) list" where
  "UNIT_SECONDS =
     [(''ms'', 1 / 1000), (''millisecond'', 1 / 1000), (''milliseconds'', 1 / 1000),
      (''h'', 3600), (''hr'', 3600), (''hrs'', 3600), (''hour'', 3600), (''hours'', 3600),
      (''m'', 60), (''min'', 60), (''mins'', 60), (''minute'', 60), (''minutes'', 60),
      (''s'', 1), (''sec'', 1), (''secs'', 1), (''second'', 1), (''seconds'', 1)]"

definition is_letter :: "char \<Rightarrow> bool" where
  "is_letter c = (let n = of_char c :: nat in (65 \<le> n \<and> n \<le> 90) \<or> (97 \<le> n \<and> n \<le> 122))"

text \<open>A duration token: integer digits, fraction digits, unit.\<close>

type_synonym duration_token = "string \<times> string \<times> string"

definition match_fraction :: "string \<Rightarrow> string \<times> string" where
  "match_fraction s =
     (case s of c # r \<Rightarrow>
        if c = CHR ''.'' \<and> takeWhile is_digit r \<noteq> []
        then (takeWhile is_digit r, dropWhile is_digit r) else ([], s)
      | [] \<Rightarrow> ([], s))"

definition match_token :: "string \<Rightarrow> (duration_token \<times> string) option" where
  "match_token s =
     (let ds = takeWhile is_digit s
      in if ds = [] then None
         else (case match_fraction (dropWhile is_digit s) of (fr, r) \<Rightarrow>
                 let r' = dropWhile is_space r; unit = takeWhile is_letter r'
                 in if py_lower unit \<in> set UNIT_LITERALS
                    then Some ((ds, fr, unit), dropWhile is_letter r') else None))"

lemma match_fraction_length: "length (snd (match_fraction s)) \<le> length s"
  by (auto simp: match_fraction_def length_dropWhile_le le_SucI split: list.split)

lemma match_token_shorter:
  assumes "match_token s = Some (t, rest)"
  shows "length rest < length s"
proof -
  obtain fr r where f: "match_fraction (dropWhile is_digit s) = (fr, r)" by fastforce
  have ds: "takeWhile is_digit s \<noteq> []" and rest: "rest = dropWhile is_letter (dropWhile is_space r)"
    using assms f by (auto simp: match_token_def Let_def split: if_splits)
  have "length rest \<le> length r"
    unfolding rest using length_dropWhile_le order_trans by blast
  also have "\<dots> \<le> length (dropWhile is_digit s)"
    using match_fraction_length [of "dropWhile is_digit s"] f by simp
  also have "\<dots> < length s"
    using ds takeWhile_dropWhile_id [of is_digit s] by (metis length_append length_greater_0_conv less_add_same_cancel2)
  finally show ?thesis .
qed

text \<open>The repeated group of the pattern: the text of as many tokens as follow each other.\<close>

function match_group :: "string \<Rightarrow> string" where
  "match_group s =
     (case match_token s of None \<Rightarrow> []
      | Some (t, rest) \<Rightarrow>
          let rest' = dropWhile is_space rest
          in take (length s - length rest') s @ match_group rest')"
  by pat_completeness auto
termination
  by (relation "measure length")
    (auto dest!: match_token_shorter intro: le_less_trans [OF length_dropWhile_le])

declare match_group.simps [simp del]

definition match_retry_at :: "string \<Rightarrow> string option" where
  "match_retry_at s =
     (if py_lower (take 12 s) = ''try again in''
      then (let g = match_group (dropWhile is_space (drop 12 s)) in if g = [] then None else Some g)
      else None)"

fun search_retry :: "string \<Rightarrow> string option" where
  "search_retry [] = None"
| "search_retry (c # cs) =
     (case match_retry_at (c # cs) of Some g \<Rightarrow> Some g | None \<Rightarrow> search_retry cs)"

text \<open>\<open>findall\<close> of the token pattern.\<close>

function findall_tokens :: "string \<Rightarrow> duration_token list" where
  "findall_tokens s =
     (case s of [] \<Rightarrow> []
      | c # cs \<Rightarrow>
          (case match_token s of
             Some (t, rest) \<Rightarrow> t # findall_tokens rest
           | None \<Rightarrow> findall_tokens cs))"
  by pat_completeness auto
termination
  by (relation "measure length") (auto dest!: match_token_shorter)

declare findall_tokens.simps [simp del]

definition token_number :: "string \<Rightarrow> string \<Rightarrow> pyfloat" where
  "token_number ds fr = of_nat (digits_value ds) + of_nat (digits_value fr) / 10 ^ length fr"

definition add_token :: "pyfloat \<times> bool \<Rightarrow> duration_token \<Rightarrow> pyfloat \<times> bool" where
  "add_token acc t =
     (case (acc, t) of ((tot, matched), (ds, fr, unit)) \<Rightarrow>
        (case map_of UNIT_SECONDS (py_lower unit) of
           None \<Rightarrow> (tot, matched)
         | Some multiplier \<Rightarrow>
             (if py_lower unit = ''ms'' then tot + token_number ds fr / 1000
              else tot + token_number ds fr * multiplier, True)))"

definition parse_retry_after :: "string \<Rightarrow> pyfloat option" where
  "parse_retry_after message =
     (case search_retry message of None \<Rightarrow> None
      | Some g \<Rightarrow>
          (case foldl add_token (0, False) (findall_tokens g) of
             (tot, matched) \<Rightarrow> if matched then Some tot else None))"

text \<open>\<open>random.uniform(a, b)\<close> is \<open>a + (b - a) * u\<close> for the draw \<open>u\<close>.\<close>

definition backoff_jitter :: "pyfloat \<Rightarrow> pyfloat" where
  "backoff_jitter u = 9 / 10 + (11 / 10 - 9 / 10) * u"

definition backoff_seconds :: "pyfloat \<Rightarrow> int \<Rightarrow> pyfloat" where
  "backoff_seconds u attempt =
     (let attempt = (if attempt < 1 then 1 else attempt);
          exponent = (2 :: real) ^ nat (attempt - 1);
          base_ms = 200 * exponent
      in base_ms * backoff_jitter u / 1000)"

section \<open>Backoff\<close>

lemma backoff_jitter_bounds: "0 \<le> u \<Longrightarrow> u \<le> 1 \<Longrightarrow> 9 / 10 \<le> backoff_jitter u \<and> backoff_jitter u \<le> 11 / 10"
  by (simp add: backoff_jitter_def)

lemma backoff_seconds_bounds:
  assumes "0 \<le> u" "u \<le> 1" "1 \<le> n"
  shows "0.18 * 2 ^ nat (n - 1) \<le> backoff_seconds u n \<and> backoff_seconds u n \<le> 0.22 * 2 ^ nat (n - 1)"
  using backoff_jitter_bounds [OF assms(1,2)] assms(3)
  by (simp add: backoff_seconds_def Let_def)

lemma backoff_seconds_positive: "0 \<le> u \<Longrightarrow> 0 < backoff_seconds u n"
  by (simp add: backoff_seconds_def backoff_jitter_def Let_def add_pos_nonneg)

section \<open>Parsing what a hint shows\<close>

lemma is_digit_digit_char [simp]: "n < 10 \<Longrightarrow> is_digit (digit_char n)"
  by (simp add: is_digit_def digit_char_def)

lemma show_nat_digits: "c \<in> set (show_nat n) \<Longrightarrow> is_digit c"
proof (induction n rule: show_nat.induct)
  case (1 n)
  then show ?case by (cases "n < 10") (auto simp: show_nat.simps [of n])
qed

lemma show_nat_nonempty [simp]: "show_nat n \<noteq> []"
  by (simp add: show_nat.simps [of n])

lemma digits_value_snoc: "digits_value (s @ [c]) = 10 * digits_value s + (of_char c - 48)"
  by (simp add: digits_value_def)

lemma digits_value_show_nat [simp]: "digits_value (show_nat n) = n"
proof (induction n rule: show_nat.induct)
  case (1 n)
  show ?case
  proof (cases "n < 10")
    case True
    then show ?thesis by (simp add: show_nat.simps [of n] digits_value_def digit_char_def)
  next
    case False
    have "(48 + n mod 10) mod 256 = 48 + n mod 10"
      using mod_less_divisor [of 10 n] by simp
    then show ?thesis using False "1.IH"
      by (simp add: show_nat.simps [of n] digits_value_snoc digit_char_def)
  qed
qed

lemma takeWhile_digits: "\<not> is_digit c \<Longrightarrow> takeWhile is_digit (show_nat n @ c # s) = show_nat n"
  by (simp add: takeWhile_append show_nat_digits)

lemma dropWhile_digits: "\<not> is_digit c \<Longrightarrow> dropWhile is_digit (show_nat n @ c # s) = c # s"
  by (simp add: dropWhile_append show_nat_digits)

text \<open>One token \<open><n><unit>\<close> that is followed by nothing or by a digit.\<close>

lemma match_token_unit:
  assumes u: "u = c # cs" "\<forall>x \<in> set u. is_letter x" "py_lower u \<in> set UNIT_LITERALS"
    and s: "s = [] \<or> \<not> is_letter (hd s)"
  shows "match_token (show_nat n @ u @ s) = Some ((show_nat n, [], u), s)"
proof -
  have c: "is_letter c" using u by simp
  then have nc: "\<not> is_digit c" "c \<noteq> CHR ''.''" "\<not> is_space c"
    by (auto simp: is_letter_def is_digit_def is_space_def Let_def)
  have tw: "takeWhile is_letter (u @ s) = u" "dropWhile is_letter (u @ s) = s"
    using u(2) s by (cases s; simp add: takeWhile_append dropWhile_append)+
  have "dropWhile is_space (u @ s) = u @ s" using u(1) nc by simp
  moreover have "match_fraction (u @ s) = ([], u @ s)" using u(1) nc by (simp add: match_fraction_def)
  moreover have "takeWhile is_digit (show_nat n @ u @ s) = show_nat n"
      "dropWhile is_digit (show_nat n @ u @ s) = u @ s"
    using u(1) nc(1) takeWhile_digits dropWhile_digits by auto
  ultimately show ?thesis using u(3) tw by (simp add: match_token_def Let_def)
qed

lemma match_group_Nil [simp]: "match_group [] = []"
  by (simp add: match_group.simps [of "[]"] match_token_def)

lemma findall_tokens_Nil [simp]: "findall_tokens [] = []"
  by (simp add: findall_tokens.simps)

lemma match_group_unit:
  assumes "u = c # cs" "\<forall>x \<in> set u. is_letter x" "py_lower u \<in> set UNIT_LITERALS"
    and s: "s = [] \<or> is_digit (hd s)"
  shows "match_group (show_nat n @ u @ s) = show_nat n @ u @ match_group s"
proof -
  have nl: "s = [] \<or> \<not> is_letter (hd s)" using s by (auto simp: is_digit_def is_letter_def Let_def)
  have ns: "dropWhile is_space s = s"
    using s by (cases s) (auto simp: is_digit_def is_space_def Let_def)
  show ?thesis
    using match_token_unit [OF assms(1-3) nl, of n] ns
    by (simp add: match_group.simps [of "show_nat n @ u @ s"] Let_def)
qed

lemma findall_tokens_unit:
  assumes "u = c # cs" "\<forall>x \<in> set u. is_letter x" "py_lower u \<in> set UNIT_LITERALS"
    and s: "s = [] \<or> is_digit (hd s)"
  shows "findall_tokens (show_nat n @ u @ s) = (show_nat n, [], u) # findall_tokens s"
proof -
  have nl: "s = [] \<or> \<not> is_letter (hd s)" using s by (auto simp: is_digit_def is_letter_def Let_def)
  obtain x xs where "show_nat n @ u @ s = x # xs" using assms(1) by (cases "show_nat n @ u @ s") auto
  then show ?thesis
    using match_token_unit [OF assms(1-3) nl, of n] by (simp add: findall_tokens.simps [of "x # xs"])
qed

lemma hd_show_nat: "is_digit (hd (show_nat n @ s))"
  using show_nat_digits [OF hd_in_set [OF show_nat_nonempty]] by simp

lemma unit_literals:
  "\<forall>x \<in> set ''h''. is_letter x" "py_lower ''h'' \<in> set UNIT_LITERALS"
  "\<forall>x \<in> set ''m''. is_letter x" "py_lower ''m'' \<in> set UNIT_LITERALS"
  "\<forall>x \<in> set ''s''. is_letter x" "py_lower ''s'' \<in> set UNIT_LITERALS"
  by (simp_all add: is_letter_def UNIT_LITERALS_def py_lower_def lower_char_def)

lemmas match_h = match_group_unit [OF refl unit_literals(1,2)] findall_tokens_unit [OF refl unit_literals(1,2)]
lemmas match_m = match_group_unit [OF refl unit_literals(3,4)] findall_tokens_unit [OF refl unit_literals(3,4)]
lemmas match_s = match_group_unit [OF refl unit_literals(5,6)] findall_tokens_unit [OF refl unit_literals(5,6)]

lemma try_again_lower: "py_lower ''Try again in'' = ''try again in''"
  by code_simp

lemma match_retry_prefix:
  assumes "is_digit (hd g)" "g \<noteq> []" "match_group g = g"
  shows "match_retry_at (''Try again in '' @ g) = Some g"
proof -
  have "dropWhile is_space g = g"
    using assms(1,2) by (cases g) (auto simp: is_digit_def is_space_def Let_def)
  then have "dropWhile is_space (drop 12 (''Try again in '' @ g)) = g"
    by (simp add: is_space_def)
  moreover have "take 12 (''Try again in '' @ g) = ''Try again in''" by simp
  ultimately show ?thesis using assms(2,3) by (simp add: match_retry_at_def try_again_lower)
qed

lemma search_retry_prefix:
  "match_retry_at (''Try again in '' @ g) = Some g \<Longrightarrow> search_retry (''Try again in '' @ g) = Some g"
  by simp

lemma add_token_simps:
  "add_token (t, b) (ds, [], ''h'') = (t + of_nat (digits_value ds) * 3600, True)"
  "add_token (t, b) (ds, [], ''m'') = (t + of_nat (digits_value ds) * 60, True)"
  "add_token (t, b) (ds, [], ''s'') = (t + of_nat (digits_value ds), True)"
  by (simp_all add: add_token_def UNIT_SECONDS_def token_number_def digits_value_def py_lower_def lower_char_def)

section \<open>Properties\<close>

text \<open>A compound hint is read in full: what a message "Try again in 1h2m3s" announces is
  parsed to hours, minutes and seconds added up, for all numbers.\<close>

lemma parse_retry_after_compound:
  "parse_retry_after (''Try again in '' @ show_nat h @ ''h'' @ show_nat m @ ''m'' @ show_nat s @ ''s'')
     = Some (of_nat (h * 3600 + m * 60 + s))"
proof -
  let ?g = "show_nat h @ ''h'' @ show_nat m @ ''m'' @ show_nat s @ ''s''"
  have toks: "findall_tokens ?g = [(show_nat h, [], ''h''), (show_nat m, [], ''m''), (show_nat s, [], ''s'')]"
    using match_h(2) [of "show_nat m @ ''m'' @ show_nat s @ ''s''" h]
      match_m(2) [of "show_nat s @ ''s''" m] match_s(2) [of "[]" s] hd_show_nat by simp
  have "match_group ?g = ?g"
    using match_h(1) [of "show_nat m @ ''m'' @ show_nat s @ ''s''" h]
      match_m(1) [of "show_nat s @ ''s''" m] match_s(1) [of "[]" s] hd_show_nat by simp
  then have "search_retry (''Try again in '' @ ?g) = Some ?g"
    by (intro search_retry_prefix match_retry_prefix hd_show_nat) simp
  then show ?thesis by (simp only: parse_retry_after_def option.case toks)
      (simp add: add_token_simps)
qed

text \<open>The backoff of the \<open>n\<close>-th attempt lies within ten percent of \<open>0.2 * 2^(n-1)\<close> seconds,
  whatever the jitter draw, so from one attempt to the next it grows by at least 1.6.\<close>

lemma backoff_seconds_growth:
  assumes "0 \<le> u" "u \<le> 1" "0 \<le> v" "v \<le> 1" "1 \<le> n"
  shows "0.18 * 2 ^ nat (n - 1) \<le> backoff_seconds u n \<and> backoff_seconds u n \<le> 0.22 * 2 ^ nat (n - 1)
     \<and> 1.6 * backoff_seconds u n \<le> backoff_seconds v (n + 1)"
proof -
  have "nat (n + 1 - 1) = Suc (nat (n - 1))" using assms(5) by simp
  then show ?thesis
    using backoff_seconds_bounds [OF assms(1,2,5)] backoff_seconds_bounds [OF assms(3,4), of "n + 1"] assms(5)
    by simp
qed

end
