(* ===== verification/Balancer_Health.thy ===== *)
theory Balancer_Health
  imports Balancer_Correct Retry
begin

text \<open>
  What an upstream failure does to an account, after the last part of
  \<open>codex-lb/app/core/balancer/logic.py\<close>: the handlers of rate limits, exceeded quotas and permanent
  failures, the failover decision and the health tier of an account; and the rendezvous hash of
  \<open>codex-lb/app/core/balancer/rendezvous_hash.py\<close>.

  Each reading of the clock by a handler is an argument of its own, and so is the draw of the
  jitter. The argument \<open>current\<close> of the health tier is \<open>now or time.time()\<close>. An \<open>UpstreamError\<close> is a partial dictionary: its keys are optional fields.
\<close>

section \<open>Failures\<close>

definition PERMANENT_FAILURE_CODES :: "(string \<times> string) list" where
  "PERMANENT_FAILURE_CODES =
     [(''refresh_token_expired'', ''Refresh token expired - re-login required''),
      (''refresh_token_reused'', ''Refresh token was reused - re-login required''),
      (''refresh_token_invalidated'', ''Refresh token was revoked - re-login required''),
      (''invalid_grant'', ''Refresh token grant invalid - re-login required''),
      (''token_invalidated'', ''Authentication token invalidated - re-login required''),
      (''token_expired'', ''Authentication token expired - re-login required''),
      (''app_session_terminated'', ''ChatGPT session ended - re-login required''),
      (''account_session_expired'', ''ChatGPT session ended - re-login required''),
      (''account_auth_invalidated'', ''Authentication failed after token refresh - re-login required''),
      (''account_deactivated'', ''Account has been deactivated''),
      (''account_suspended'', ''Account has been suspended''),
      (''account_deleted'', ''Account has been deleted'')]"

definition REAUTH_REQUIRED_FAILURE_CODES :: "string list" where
  "REAUTH_REQUIRED_FAILURE_CODES =
     [''refresh_token_expired'', ''refresh_token_reused'', ''refresh_token_invalidated'', ''invalid_grant'',
      ''token_invalidated'', ''token_expired'', ''app_session_terminated'', ''account_session_expired'',
      ''account_auth_invalidated'']"

record UpstreamError =
  message :: "string option"
  resets_at :: "pyfloat option"
  resets_in_seconds :: "pyfloat option"

datatype FailureClass = rate_limit | quota | retryable_transient | non_retryable

datatype FailoverAction = failover_next | surface

definition RATE_LIMITED_MIN_COOLDOWN_SECONDS :: pyfloat where
  "RATE_LIMITED_MIN_COOLDOWN_SECONDS = 30"

definition QUOTA_EXCEEDED_COOLDOWN_SECONDS :: pyfloat where
  "QUOTA_EXCEEDED_COOLDOWN_SECONDS = 120"

definition extract_reset_at :: "pyfloat \<Rightarrow> UpstreamError \<Rightarrow> int option" where
  "extract_reset_at time err =
     (case resets_at err of
        Some r \<Rightarrow> Some (py_int r)
      | None \<Rightarrow>
          (case resets_in_seconds err of
             Some reset_in \<Rightarrow> Some (py_int (time + reset_in))
           | None \<Rightarrow> None))"

definition hinted_delay :: "UpstreamError \<Rightarrow> pyfloat option" where
  "hinted_delay err =
     (case message err of None \<Rightarrow> None
      | Some m \<Rightarrow> if m = [] then None else parse_retry_after m)"

definition handle_rate_limit ::
  "pyfloat \<Rightarrow> pyfloat \<Rightarrow> pyfloat \<Rightarrow> UpstreamError \<Rightarrow> AccountState \<Rightarrow> AccountState" where
  "handle_rate_limit now time2 u err st =
     (let count = error_count st + 1;
          reset = extract_reset_at time2 err;
          delay = (case hinted_delay err of Some d \<Rightarrow> d | None \<Rightarrow> backoff_seconds u count);
          persisted_delay =
            (case hinted_delay err of Some d \<Rightarrow> d
             | None \<Rightarrow> max delay RATE_LIMITED_MIN_COOLDOWN_SECONDS)
      in st\<lparr>status := RATE_LIMITED, error_count := count, last_error_at := Some now,
            blocked_at := Some now, cooldown_until := Some (now + delay),
            reset_at :=
              Some (case reset of Some r \<Rightarrow> of_int r
                    | None \<Rightarrow> of_int \<lceil>now + persisted_delay\<rceil>)\<rparr>)"

definition handle_quota_exceeded ::
  "pyfloat \<Rightarrow> pyfloat \<Rightarrow> pyfloat \<Rightarrow> UpstreamError \<Rightarrow> AccountState \<Rightarrow> AccountState" where
  "handle_quota_exceeded time1 time2 time3 err st =
     st\<lparr>status := QUOTA_EXCEEDED, used_percent := Some 100, blocked_at := Some time1,
        cooldown_until := Some (time2 + QUOTA_EXCEEDED_COOLDOWN_SECONDS),
        reset_at :=
          Some (case extract_reset_at time3 err of Some r \<Rightarrow> of_int r
                | None \<Rightarrow> of_int (py_int (time3 + 3600)))\<rparr>"

definition account_status_for_permanent_failure :: "string \<Rightarrow> AccountStatus" where
  "account_status_for_permanent_failure error_code =
     (if error_code \<in> set REAUTH_REQUIRED_FAILURE_CODES then REAUTH_REQUIRED else DEACTIVATED)"

definition handle_permanent_failure :: "string \<Rightarrow> AccountState \<Rightarrow> AccountState" where
  "handle_permanent_failure error_code st =
     st\<lparr>status := account_status_for_permanent_failure error_code,
        deactivation_reason :=
          Some (default_to (map_of PERMANENT_FAILURE_CODES error_code)
                  (''Authentication failed: '' @ error_code)),
        blocked_at := None\<rparr>"

definition failover_decision :: "FailureClass \<Rightarrow> bool \<Rightarrow> int \<Rightarrow> FailoverAction" where
  "failover_decision failure_class downstream_visible candidates_remaining =
     (if downstream_visible then surface
      else if candidates_remaining \<le> 0 then surface
      else if failure_class \<in> {rate_limit, quota, retryable_transient} then failover_next
      else surface)"

section \<open>Health tiers\<close>

record TierSettings =
  drain_primary_threshold_pct :: pyfloat
  drain_secondary_threshold_pct :: pyfloat
  drain_error_window_seconds :: pyfloat
  drain_error_count_threshold :: int
  probe_quiet_seconds :: pyfloat
  probe_success_streak_required :: int

definition default_tier_settings :: TierSettings where
  "default_tier_settings =
     \<lparr>drain_primary_threshold_pct = 85, drain_secondary_threshold_pct = 90,
      drain_error_window_seconds = 60, drain_error_count_threshold = 2,
      probe_quiet_seconds = 60, probe_success_streak_required = 3\<rparr>"

definition at_least :: "pyfloat option \<Rightarrow> pyfloat \<Rightarrow> bool" where
  "at_least x threshold = (case x of None \<Rightarrow> False | Some v \<Rightarrow> v \<ge> threshold)"

definition should_drain :: "TierSettings \<Rightarrow> pyfloat \<Rightarrow> AccountState \<Rightarrow> bool" where
  "should_drain ts current st =
     (at_least (used_percent st) (drain_primary_threshold_pct ts)
      \<or> at_least (secondary_used_percent st) (drain_secondary_threshold_pct ts)
      \<or> (error_count st \<ge> drain_error_count_threshold ts
          \<and> (case last_error_at st of None \<Rightarrow> False
             | Some t \<Rightarrow> current - t < drain_error_window_seconds ts)))"

definition evaluate_health_tier ::
  "TierSettings \<Rightarrow> pyfloat \<Rightarrow> pyfloat option \<Rightarrow> int \<Rightarrow> AccountState \<Rightarrow> int" where
  "evaluate_health_tier ts current drain_entered_at probe_success_streak st =
     (if hard_blocked (status st) then health_tier st
      else if health_tier st = HEALTH_TIER_HEALTHY then
        if should_drain ts current st then HEALTH_TIER_DRAINING else HEALTH_TIER_HEALTHY
      else if health_tier st = HEALTH_TIER_DRAINING then
        if should_drain ts current st then HEALTH_TIER_DRAINING
        else if (case drain_entered_at of None \<Rightarrow> False
                 | Some t \<Rightarrow> current - t \<ge> probe_quiet_seconds ts) then HEALTH_TIER_PROBING
        else HEALTH_TIER_DRAINING
      else if health_tier st = HEALTH_TIER_PROBING then
        if should_drain ts current st then HEALTH_TIER_DRAINING
        else if probe_success_streak \<ge> probe_success_streak_required ts then HEALTH_TIER_HEALTHY
        else HEALTH_TIER_PROBING
      else HEALTH_TIER_HEALTHY)"

section \<open>Rendezvous hashing\<close>

text \<open>The digest is a function from the hashed text to its bytes, which Python compares
  lexicographically.\<close>

definition select_node :: "(string \<Rightarrow> nat list) \<Rightarrow> string \<Rightarrow> string list \<Rightarrow> string option" where
  "select_node digest key nodes =
     (if nodes = [] then None
      else if length nodes = 1 then Some (nodes ! 0)
      else (case py_max_by (\<lambda>node. digest (key @ '':'' @ node)) nodes of
              Inl e \<Rightarrow> None | Inr n \<Rightarrow> Some n))"

section \<open>Lemmas on failures\<close>

lemma backoff_le_ceil: "x \<le> real_of_int \<lceil>x\<rceil>"
  by simp

lemma rate_limit_fields:
  assumes "extract_reset_at t err = None"
  shows "status (handle_rate_limit now t u err st) = RATE_LIMITED"
    and "reset_at (handle_rate_limit now t u err st)
           = Some (of_int \<lceil>now + (case hinted_delay err of Some d \<Rightarrow> d
               | None \<Rightarrow> max (backoff_seconds u (error_count st + 1)) 30)\<rceil>)"
    and "cooldown_until (handle_rate_limit now t u err st)
           = Some (now + (case hinted_delay err of Some d \<Rightarrow> d
               | None \<Rightarrow> backoff_seconds u (error_count st + 1)))"
  using assms
  by (simp_all add: handle_rate_limit_def Let_def RATE_LIMITED_MIN_COOLDOWN_SECONDS_def split: option.split)

lemma rate_limit_frame [simp]:
  "account_id (handle_rate_limit now t u err st) = account_id st"
  "ignore_standard_quota (handle_rate_limit now t u err st) = ignore_standard_quota st"
  by (simp_all add: handle_rate_limit_def Let_def)

lemma check_rate_limited_skipped:
  assumes "status st = RATE_LIMITED" "reset_at st = Some r" "c < r" "\<not> bypass_standard_quota args st"
  shows "check_state c args st = (st, Skipped)"
  using assms by (simp add: check_state_def Let_def recover_rate_limited_def elapsed_def)

lemma check_rate_limited_recovers:
  assumes "status st = RATE_LIMITED" "reset_at st = Some r" "r \<noteq> 0" "r \<le> c"
    and "cooldown_until st = Some k" "k \<le> c"
  shows "snd (check_state c args st) = Available \<and> status (fst (check_state c args st)) = ACTIVE
     \<and> error_count (fst (check_state c args st)) = 0"
proof -
  let ?s = "st\<lparr>status := ACTIVE, used_percent := Some 0, error_count := 0, reset_at := None\<rparr>"
  have "recover_rate_limited c (bypass_standard_quota args st) st = Some ?s"
    using assms by (simp add: recover_rate_limited_def elapsed_def)
  moreover have "recover_quota_exceeded c (bypass_standard_quota args st) ?s = Some ?s"
    by (simp add: recover_quota_exceeded_def)
  moreover have "\<not> in_cooldown c (clear_cooldown c ?s)" "error_count (clear_cooldown c ?s) = 0"
    "status (clear_cooldown c ?s) = ACTIVE"
    using assms(5,6) by (auto simp: clear_cooldown_def in_cooldown_def elapsed_def)
  ultimately show ?thesis using assms(1) by (simp add: check_state_def Let_def)
qed

lemma check_cooldown_skipped:
  assumes "status st = QUOTA_EXCEEDED" "cooldown_until st = Some k" "k \<noteq> 0" "c < k"
  shows "snd (check_state c args st) = Skipped"
proof -
  have cd: "in_cooldown c (clear_cooldown c s)" if "cooldown_until s = Some k" for s
    using that assms(3,4) by (simp add: clear_cooldown_def in_cooldown_def elapsed_def)
  show ?thesis using assms(1,2)
    by (auto simp: check_state_def Let_def recover_rate_limited_def recover_quota_exceeded_def cd)
qed

section \<open>Lemmas on rendezvous hashing\<close>

text \<open>The element that \<open>max\<close> returns is the first of the largest: strictly above all before it
  and not below any after it. Removing other elements keeps it so.\<close>

lemma keep_max_first:
  "\<exists>ys zs. m # xs = ys @ foldl (keep_max key) m xs # zs
     \<and> (\<forall>y \<in> set ys. key y < key (foldl (keep_max key) m xs))
     \<and> (\<forall>z \<in> set zs. key z \<le> key (foldl (keep_max key) m xs))"
proof (induction xs arbitrary: m)
  case (Cons x xs)
  let ?r = "foldl (keep_max key) m (x # xs)"
  show ?case
  proof (cases "key m < key x")
    case True
    then have r: "?r = foldl (keep_max key) x xs" by (simp add: keep_max_def)
    obtain ys zs where d: "x # xs = ys @ ?r # zs" "\<forall>y \<in> set ys. key y < key ?r" "\<forall>z \<in> set zs. key z \<le> key ?r"
      using Cons.IH [of x] unfolding r by blast
    have "key x \<le> key ?r" unfolding r using foldl_keep_max_greatest [of key x xs] by blast
    then have "\<forall>y \<in> set (m # ys). key y < key ?r" using True d(2) by auto
    moreover have "m # x # xs = (m # ys) @ ?r # zs" using d(1) by (simp only: append_Cons)
    ultimately show ?thesis using d(3) by blast
  next
    case False
    then have r: "?r = foldl (keep_max key) m xs" by (simp add: keep_max_def)
    obtain ys zs where d: "m # xs = ys @ ?r # zs" "\<forall>y \<in> set ys. key y < key ?r" "\<forall>z \<in> set zs. key z \<le> key ?r"
      using Cons.IH [of m] unfolding r by blast
    show ?thesis
    proof (cases ys)
      case Nil
      then have "m = ?r" "zs = xs" using d(1) by auto
      then have "m # x # xs = [] @ ?r # (x # xs) \<and> (\<forall>z \<in> set (x # xs). key z \<le> key ?r)"
        using d(3) False by auto
      then show ?thesis by (metis empty_iff list.set(1))
    next
      case (Cons y ys')
      then have m: "m # x # xs = (m # x # ys') @ ?r # zs" and "y = m" using d(1) by auto
      then have "\<forall>w \<in> set (m # x # ys'). key w < key ?r" using Cons d(2) False by auto
      then show ?thesis using m d(3) by blast
    qed
  qed
next
  case Nil
  have "[m] = [] @ foldl (keep_max key) m [] # []" by simp
  then show ?case by (metis empty_iff list.set(1))
qed

lemma keep_max_before:
  assumes "\<forall>y \<in> set ys. key y < key r" "key m < key r"
  shows "foldl (keep_max key) m (ys @ r # zs) = foldl (keep_max key) r zs"
proof -
  let ?m = "foldl (keep_max key) m ys"
  have "?m \<in> insert m (set ys)" by (rule foldl_keep_max_member)
  then have "keep_max key ?m r = r" using assms by (auto simp: keep_max_def)
  then show ?thesis by simp
qed

lemma keep_max_after: "\<forall>z \<in> set zs. key z \<le> key r \<Longrightarrow> foldl (keep_max key) r zs = r"
  by (induction zs) (auto simp: keep_max_def)

lemma py_max_by_first:
  "py_max_by key xs = Inr r \<longleftrightarrow>
     (\<exists>ys zs. xs = ys @ r # zs \<and> (\<forall>y \<in> set ys. key y < key r) \<and> (\<forall>z \<in> set zs. key z \<le> key r))"
  (is "?l \<longleftrightarrow> ?r")
proof
  assume ?l
  then show ?r using keep_max_first [of _ _ key] by (cases xs) fastforce+
next
  assume ?r
  then obtain ys zs where d: "xs = ys @ r # zs" "\<forall>y \<in> set ys. key y < key r" "\<forall>z \<in> set zs. key z \<le> key r"
    by blast
  show ?l
  proof (cases ys)
    case Nil
    then show ?thesis using d by (simp add: keep_max_after)
  next
    case (Cons y ys')
    then show ?thesis using d keep_max_before [of ys' key r y zs] by (simp add: keep_max_after)
  qed
qed

lemma py_max_by_filter:
  assumes "py_max_by key xs = Inr r" "P r"
  shows "py_max_by key (filter P xs) = Inr r"
proof -
  obtain ys zs where d: "xs = ys @ r # zs" "\<forall>y \<in> set ys. key y < key r" "\<forall>z \<in> set zs. key z \<le> key r"
    using assms(1) unfolding py_max_by_first by blast
  then have "filter P xs = filter P ys @ r # filter P zs" using assms(2) by simp
  then show ?thesis using d(2,3) unfolding py_max_by_first
    by (metis (no_types, lifting) filter_is_subset subsetD)
qed

lemma select_node_max:
  "select_node digest key nodes
     = (case py_max_by (\<lambda>node. digest (key @ '':'' @ node)) nodes of Inl e \<Rightarrow> None | Inr n \<Rightarrow> Some n)"
  by (cases nodes) (auto simp: select_node_def Suc_length_conv split: sum.split)

section \<open>The hint that clients read\<close>

lemma hint_prefix:
  assumes "match_retry_at (''Try again in '' @ g) = Some g"
  shows "search_retry (''Rate limit exceeded. Try again in '' @ g) = Some g"
  using assms by (simp add: match_retry_at_def py_lower_def lower_char_def)

lemma parse_seconds_hint:
  "parse_retry_after (''Rate limit exceeded. Try again in '' @ show_nat n @ ''s'') = Some (of_nat n)"
proof -
  let ?g = "show_nat n @ ''s''"
  have toks: "findall_tokens ?g = [(show_nat n, [], ''s'')]" using match_s(2) [of "[]" n] by simp
  have "match_group ?g = ?g" using match_s(1) [of "[]" n] by simp
  then have "match_retry_at (''Try again in '' @ ?g) = Some ?g"
    by (intro match_retry_prefix hd_show_nat) simp_all
  from hint_prefix [OF this] show ?thesis
    by (simp only: parse_retry_after_def option.case toks) (simp add: add_token_simps)
qed

section \<open>Properties\<close>

text \<open>An account that a 429 without reset metadata marked is out of rotation until its persisted
  deadline. The deadline is a whole second, so the truncation on writing it to the database loses
  nothing; it is not before the local cooldown, and without a retry hint at least 30 seconds away.
  Before it the selector skips the account; from it on the account is active and available again
  with its error count cleared.\<close>

lemma rate_limit_deadline:
  fixes now u :: pyfloat
  assumes "extract_reset_at t err = None" "\<not> bypass_standard_quota args st"
  defines "st' \<equiv> handle_rate_limit now t u err st"
  shows "\<exists>r k. reset_at st' = Some r \<and> cooldown_until st' = Some k
     \<and> r = of_int (py_int r) \<and> k \<le> r \<and> (hinted_delay err = None \<longrightarrow> now + 30 \<le> r)
     \<and> (\<forall>c. c < r \<longrightarrow> check_state c args st' = (st', Skipped))
     \<and> (\<forall>c. r \<noteq> 0 \<and> r \<le> c \<longrightarrow> snd (check_state c args st') = Available
           \<and> status (fst (check_state c args st')) = ACTIVE
           \<and> error_count (fst (check_state c args st')) = 0)"
proof -
  define d where "d = (case hinted_delay err of Some d \<Rightarrow> d | None \<Rightarrow> backoff_seconds u (error_count st + 1))"
  define p where "p = (case hinted_delay err of Some d \<Rightarrow> d
    | None \<Rightarrow> max (backoff_seconds u (error_count st + 1)) 30)"
  define r where "r = real_of_int \<lceil>now + p\<rceil>"
  note f = rate_limit_fields [OF assms(1), of now u st, folded st'_def, folded d_def p_def, folded r_def]
  have dp: "d \<le> p" by (simp add: d_def p_def split: option.split)
  have le: "now + p \<le> r" unfolding r_def by (rule backoff_le_ceil)
  have nb: "\<not> bypass_standard_quota args st'"
    using assms(2) by (simp add: st'_def bypass_standard_quota_def split: option.splits)
  have "hinted_delay err = None \<longrightarrow> 30 \<le> p" by (simp add: p_def)
  then have "hinted_delay err = None \<longrightarrow> now + 30 \<le> r" using le by linarith
  moreover have "now + d \<le> r" using dp le by simp
  moreover have "r = of_int (py_int r)" by (simp add: r_def)
  moreover have "\<forall>c. c < r \<longrightarrow> check_state c args st' = (st', Skipped)"
    using check_rate_limited_skipped f(1,2) nb by blast
  moreover have "\<forall>c. r \<noteq> 0 \<and> r \<le> c \<longrightarrow> snd (check_state c args st') = Available
           \<and> status (fst (check_state c args st')) = ACTIVE \<and> error_count (fst (check_state c args st')) = 0"
    using check_rate_limited_recovers [OF f(1,2) _ _ f(3)] \<open>now + d \<le> r\<close> by (meson order_trans)
  ultimately show ?thesis using f(2,3) by (intro exI [of _ r] exI [of _ "now + d"] conjI)
qed

text \<open>An account over its quota is out of rotation for 120 seconds whatever the quota bypasses
  of the call say, and without a bypass until its reset time.\<close>

lemma quota_exceeded_cooldown:
  fixes time1 time2 time3 :: pyfloat and err :: UpstreamError and st :: AccountState
  assumes "0 \<le> time2"
  defines "st' \<equiv> handle_quota_exceeded time1 time2 time3 err st"
  shows "(\<forall>c. c < time2 + 120 \<longrightarrow> snd (check_state c args st') = Skipped)
     \<and> (\<forall>c. \<not> bypass_standard_quota args st' \<and> c < the (reset_at st') \<longrightarrow>
            check_state c args st' = (st', Skipped))"
proof -
  have "status st' = QUOTA_EXCEEDED" "cooldown_until st' = Some (time2 + 120)"
    by (simp_all add: st'_def handle_quota_exceeded_def QUOTA_EXCEEDED_COOLDOWN_SECONDS_def)
  moreover obtain r where "reset_at st' = Some r" by (simp add: st'_def handle_quota_exceeded_def)
  ultimately show ?thesis using assms(1) check_cooldown_skipped [of st' "time2 + 120"]
    by (auto simp: check_state_def Let_def recover_rate_limited_def recover_quota_exceeded_def elapsed_def)
qed

text \<open>An account with a permanent failure is never handed out again by the selector, whatever
  the arguments of the call; every code that asks for a new login has a text of its own, and the
  other codes deactivate.\<close>

lemma permanent_failure_is_final:
  "check_state c args (handle_permanent_failure code st) = (handle_permanent_failure code st, Skipped)
   \<and> (status (handle_permanent_failure code st) = REAUTH_REQUIRED
        \<longleftrightarrow> code \<in> set REAUTH_REQUIRED_FAILURE_CODES)
   \<and> set REAUTH_REQUIRED_FAILURE_CODES \<subset> fst ` set PERMANENT_FAILURE_CODES
   \<and> (status (handle_permanent_failure code st) = REAUTH_REQUIRED
        \<or> status (handle_permanent_failure code st) = DEACTIVATED)"
proof -
  have "set REAUTH_REQUIRED_FAILURE_CODES \<subseteq> fst ` set PERMANENT_FAILURE_CODES"
    by (simp add: REAUTH_REQUIRED_FAILURE_CODES_def PERMANENT_FAILURE_CODES_def)
  moreover have "''account_deleted'' \<in> fst ` set PERMANENT_FAILURE_CODES - set REAUTH_REQUIRED_FAILURE_CODES"
    by (simp add: REAUTH_REQUIRED_FAILURE_CODES_def PERMANENT_FAILURE_CODES_def)
  ultimately have "set REAUTH_REQUIRED_FAILURE_CODES \<subset> fst ` set PERMANENT_FAILURE_CODES" by blast
  then show ?thesis
    by (simp add: check_state_def handle_permanent_failure_def account_status_for_permanent_failure_def)
qed

text \<open>The wait that the selector announces is what a client that parses the message waits: the
  hint, rounded to a whole second between 0 and 300, survives the round trip through the text.\<close>

lemma retry_hint_roundtrip:
  "parse_retry_after (format_retry_hint w) = Some (of_int (py_round (capped_hint w)))
   \<and> 0 \<le> py_round (capped_hint w) \<and> py_round (capped_hint w) \<le> 300"
proof -
  have b: "0 \<le> py_round (capped_hint w) \<and> py_round (capped_hint w) \<le> 300"
    using py_round_bounds [of 0 "capped_hint w" 300]
    by (simp add: capped_hint_def SELECTOR_RETRY_HINT_MAX_SECONDS_def)
  then have "show_int (py_round (capped_hint w)) = show_nat (nat (py_round (capped_hint w)))"
    by (simp add: show_int_def)
  then show ?thesis
    using b parse_seconds_hint [of "nat (py_round (capped_hint w))"]
    by (simp add: format_retry_hint_def)
qed

text \<open>Rendezvous hashing moves few keys. Removing a node other than the chosen one leaves the
  choice as it is, and adding a node changes the choice at most to the new node, for every digest.\<close>

lemma select_node_minimal_disruption:
  assumes "select_node digest key nodes = Some n"
  shows "n \<in> set nodes
     \<and> (\<forall>m. m \<noteq> n \<longrightarrow> select_node digest key (filter (\<lambda>x. x \<noteq> m) nodes) = Some n)
     \<and> (\<forall>m. m \<notin> set nodes \<longrightarrow> select_node digest key (nodes @ [m]) \<in> {Some n, Some m})"
proof -
  let ?k = "\<lambda>node. digest (key @ '':'' @ node)"
  have n: "py_max_by ?k nodes = Inr n"
    using assms unfolding select_node_max by (simp split: sum.splits)
  have "select_node digest key (nodes @ [m]) \<in> {Some n, Some m}" if m: "m \<notin> set nodes" for m
  proof -
    obtain r where r: "py_max_by ?k (nodes @ [m]) = Inr r"
      using max_by.pick_total [of "nodes @ [m]" ?k] by auto
    have "filter (\<lambda>x. x \<noteq> m) (nodes @ [m]) = nodes" using m by (induction nodes) auto
    then have "r \<noteq> m \<Longrightarrow> r = n" using py_max_by_filter [OF r, of "\<lambda>x. x \<noteq> m"] n by simp
    then show ?thesis using r unfolding select_node_max by auto
  qed
  moreover have "select_node digest key (filter (\<lambda>x. x \<noteq> m) nodes) = Some n" if "m \<noteq> n" for m
  proof -
    have "py_max_by ?k (filter (\<lambda>x. x \<noteq> m) nodes) = Inr n"
      by (rule py_max_by_filter [OF n]) (use that in auto)
    then show ?thesis unfolding select_node_max by simp
  qed
  ultimately show ?thesis using max_by.pick_member [OF n] by blast
qed

end
