(* ===== verification/Usage_Quota.thy ===== *)
theory Usage_Quota
  imports Balancer_State
begin

text \<open>
  The status of an account from its usage samples, after \<open>codex-lb/app/core/usage/quota.py\<close>.

  \<open>apply_usage_quota\<close> runs in four phases, one definition each: the long window
  (\<open>secondary_phase\<close>), the credit override (\<open>credit_phase\<close>), the short window
  (\<open>primary_phase\<close>) and the guard for terminal statuses. A phase that returns early gives
  \<open>Inl\<close>. The readings of the clock are the arguments \<open>time i\<close>, in the order of the code.
\<close>

section \<open>Definitions\<close>

record QuotaInput =
  primary_used :: "pyfloat option"
  primary_reset :: "int option"
  window_minutes_in :: "int option"
  runtime_reset :: "pyfloat option"
  secondary_used :: "pyfloat option"
  secondary_reset :: "int option"
  in_credits_has :: "bool option"
  in_credits_unlimited :: "bool option"
  in_credits_balance :: "pyfloat option"
  infer_status_from_usage :: bool

type_synonym quota_result = "AccountStatus \<times> pyfloat option \<times> pyfloat option"

definition has_usable_credits :: "bool option \<Rightarrow> bool option \<Rightarrow> pyfloat option \<Rightarrow> bool" where
  "has_usable_credits has unlimited balance =
     (if unlimited = Some True then True
      else if has = Some True then True
      else (case balance of None \<Rightarrow> False | Some b \<Rightarrow> b > 0))"

definition has_credit_override :: "QuotaInput \<Rightarrow> bool" where
  "has_credit_override q = has_usable_credits (in_credits_has q) (in_credits_unlimited q) (in_credits_balance q)"

definition fallback_primary_reset :: "pyfloat \<Rightarrow> int option \<Rightarrow> pyfloat option" where
  "fallback_primary_reset time minutes =
     (let window_minutes = or_num minutes (default_to (default_window_minutes ''primary'') 0)
      in if window_minutes = 0 then None else Some (time + of_int window_minutes * 60))"

definition pending :: "pyfloat option \<Rightarrow> pyfloat \<Rightarrow> bool" where
  "pending reset time = (truthy reset \<and> the reset > time)"

definition exhausted :: "pyfloat option \<Rightarrow> bool" where
  "exhausted used = (case used of None \<Rightarrow> False | Some u \<Rightarrow> u \<ge> 100)"

text \<open>A blocked status survives while the runtime reset is in the future.\<close>

definition clear_unless_pending ::
  "QuotaInput \<Rightarrow> pyfloat \<Rightarrow> AccountStatus \<Rightarrow> AccountStatus \<times> pyfloat option" where
  "clear_unless_pending q time stat =
     (if pending (runtime_reset q) time then (stat, runtime_reset q) else (ACTIVE, None))"

definition secondary_phase :: "QuotaInput \<Rightarrow> pyfloat \<Rightarrow> AccountStatus \<Rightarrow> quota_result + quota_result" where
  "secondary_phase q time stat =
     (case secondary_used q of
        Some u \<Rightarrow>
          (let full = u \<ge> 100;
               overridden = full \<and> has_credit_override q \<and> stat = QUOTA_EXCEEDED;
               stat1 = (if overridden then ACTIVE else stat);
               reset1 = (if overridden then None else runtime_reset q);
               used1 = (if full \<and> \<not> has_credit_override q then Some 100 else primary_used q)
           in if full \<and> \<not> has_credit_override q \<and> infer_status_from_usage q
              then Inl (QUOTA_EXCEEDED, Some 100,
                        (case secondary_reset q of Some r \<Rightarrow> Some (of_int r) | None \<Rightarrow> runtime_reset q))
              else if stat1 = QUOTA_EXCEEDED
              then (case clear_unless_pending q time stat1 of (s, r) \<Rightarrow> Inr (s, used1, r))
              else Inr (stat1, used1, reset1))
      | None \<Rightarrow>
          Inr (stat, primary_used q,
               if stat = QUOTA_EXCEEDED \<and> secondary_reset q \<noteq> None \<and> infer_status_from_usage q
               then map_option of_int (secondary_reset q) else runtime_reset q))"

definition credit_phase :: "QuotaInput \<Rightarrow> quota_result \<Rightarrow> quota_result" where
  "credit_phase q s =
     (case s of (stat, used, reset) \<Rightarrow>
        if has_credit_override q \<and> stat = QUOTA_EXCEEDED \<and> \<not> exhausted (primary_used q)
        then (ACTIVE, used, None) else s)"

definition primary_phase ::
  "QuotaInput \<Rightarrow> pyfloat \<Rightarrow> pyfloat \<Rightarrow> quota_result \<Rightarrow> quota_result" where
  "primary_phase q time_fallback time_clear s =
     (case s of (stat, used, reset) \<Rightarrow>
        (case primary_used q of
           Some u \<Rightarrow>
             (if u \<ge> 100 \<and> infer_status_from_usage q
              then (RATE_LIMITED, Some 100,
                    (case primary_reset q of
                       Some r \<Rightarrow> Some (of_int r)
                     | None \<Rightarrow>
                         (let f = fallback_primary_reset time_fallback (window_minutes_in q)
                          in if truthy f then f else reset)))
              else (let used1 = (if u \<ge> 100 then Some 100 else used)
                    in if stat = RATE_LIMITED
                       then (case clear_unless_pending q time_clear stat of (s, r) \<Rightarrow> (s, used1, r))
                       else (stat, used1, reset)))
         | None \<Rightarrow>
             (if stat = RATE_LIMITED \<and> secondary_used q \<noteq> None \<and> \<not> exhausted (secondary_used q)
              then (case clear_unless_pending q time_clear stat of (s, r) \<Rightarrow> (s, used, r))
              else s)))"

definition apply_usage_quota :: "QuotaInput \<Rightarrow> (nat \<Rightarrow> pyfloat) \<Rightarrow> AccountStatus \<Rightarrow> quota_result" where
  "apply_usage_quota q time stat =
     (if stat \<in> {REAUTH_REQUIRED, DEACTIVATED, PAUSED}
      then (stat, primary_used q, runtime_reset q)
      else (case secondary_phase q (time 0) stat of
              Inl r \<Rightarrow> r
            | Inr s \<Rightarrow> primary_phase q (time 1) (time 2) (credit_phase q s)))"

section \<open>Lemmas\<close>

lemmas quota_phases =
  secondary_phase_def credit_phase_def primary_phase_def clear_unless_pending_def

lemma clear_status: "fst (clear_unless_pending q t s) \<in> {s, ACTIVE}"
  by (simp add: clear_unless_pending_def)

lemma secondary_phase_cases:
  obtains used where "secondary_phase q t s = Inl (QUOTA_EXCEEDED, Some 100, used)"
      "infer_status_from_usage q" "exhausted (secondary_used q)" "\<not> has_credit_override q"
  | s' used reset where "secondary_phase q t s = Inr (s', used, reset)"
      "s' = s \<or> s = QUOTA_EXCEEDED \<and> s' = ACTIVE" "used = primary_used q \<or> used = Some 100"
      "reset \<in> {None, runtime_reset q, map_option of_int (secondary_reset q)}"
      "exhausted (secondary_used q) \<and> \<not> has_credit_override q \<longrightarrow> used = Some 100 \<and> \<not> infer_status_from_usage q"
proof (cases "secondary_phase q t s")
  case (Inl r)
  then show ?thesis
    using that(1) [of "snd (snd r)"]
    by (auto simp: secondary_phase_def clear_unless_pending_def exhausted_def Let_def
        split: option.splits if_splits prod.splits)
next
  case (Inr r)
  then show ?thesis
    using that(2) [of "fst r" "fst (snd r)" "snd (snd r)"]
    by (auto simp: secondary_phase_def clear_unless_pending_def exhausted_def Let_def
        split: option.splits if_splits prod.splits)
qed

lemma credit_phase_status:
  "fst (credit_phase q (s, u, r)) = s \<or> s = QUOTA_EXCEEDED \<and> fst (credit_phase q (s, u, r)) = ACTIVE"
  "fst (snd (credit_phase q (s, u, r))) = u"
  by (auto simp: credit_phase_def)

lemma primary_phase_keeps:
  "\<not> infer_status_from_usage q \<Longrightarrow>
     fst (primary_phase q tf tc s) = fst s \<or> fst s = RATE_LIMITED \<and> fst (primary_phase q tf tc s) = ACTIVE"
  by (auto simp: primary_phase_def clear_unless_pending_def Let_def split: prod.splits option.splits)

lemma credit_phase_active: "s \<noteq> QUOTA_EXCEEDED \<Longrightarrow> credit_phase q (s, u, r) = (s, u, r)"
  by (simp add: credit_phase_def)

lemma secondary_phase_not_quota:
  "s \<noteq> QUOTA_EXCEEDED \<Longrightarrow> \<not> (exhausted (secondary_used q) \<and> \<not> has_credit_override q \<and> infer_status_from_usage q) \<Longrightarrow>
     \<exists>u. secondary_phase q t s = Inr (s, u, runtime_reset q)"
  by (auto simp: secondary_phase_def exhausted_def Let_def split: option.split)

lemma primary_phase_pending:
  "\<not> infer_status_from_usage q \<Longrightarrow> pending (runtime_reset q) tc \<Longrightarrow>
     \<exists>u'. primary_phase q tf tc (RATE_LIMITED, u, runtime_reset q) = (RATE_LIMITED, u', runtime_reset q)"
  by (auto simp: primary_phase_def clear_unless_pending_def Let_def split: option.split)

lemma uninferred_status:
  assumes "\<not> infer_status_from_usage q"
  shows "let s' = fst (apply_usage_quota q time s)
         in s' = s \<or> s \<in> {RATE_LIMITED, QUOTA_EXCEEDED} \<and> s' = ACTIVE"
proof (rule secondary_phase_cases [of q "time 0" s], goal_cases)
  case 1
  then show ?thesis using assms by simp
next
  case (2 s' used reset)
  obtain s1 u1 r1 where c: "credit_phase q (s', used, reset) = (s1, u1, r1)" by (metis prod_cases3)
  have "s1 = s' \<or> s' = QUOTA_EXCEEDED \<and> s1 = ACTIVE" using credit_phase_status(1) [of q s' used reset] c by simp
  moreover have "fst (primary_phase q (time 1) (time 2) (s1, u1, r1)) = s1
      \<or> s1 = RATE_LIMITED \<and> fst (primary_phase q (time 1) (time 2) (s1, u1, r1)) = ACTIVE"
    using primary_phase_keeps [OF assms, of "time 1" "time 2" "(s1, u1, r1)"] by simp
  ultimately show ?thesis using 2(1,2) c by (auto simp: apply_usage_quota_def Let_def)
qed

lemma uninferred_pending:
  assumes "\<not> infer_status_from_usage q" "pending (runtime_reset q) (time 2)"
  shows "\<exists>u. apply_usage_quota q time RATE_LIMITED = (RATE_LIMITED, u, runtime_reset q)"
proof -
  obtain u where "secondary_phase q (time 0) RATE_LIMITED = Inr (RATE_LIMITED, u, runtime_reset q)"
    using secondary_phase_not_quota [of RATE_LIMITED q "time 0"] assms(1) by auto
  then show ?thesis
    using primary_phase_pending [OF assms, of "time 1" u]
    by (simp add: apply_usage_quota_def credit_phase_active)
qed

section \<open>Properties\<close>

text \<open>Without status inference a usage sample never blocks an account: the status stays, or
  a rate-limited or quota-exceeded account becomes active; and a rate limit whose reset deadline is
  still ahead stays with that deadline, whatever the samples and credits say.\<close>

lemma usage_never_blocks_uninferred:
  assumes "\<not> infer_status_from_usage q"
  shows "(let s' = fst (apply_usage_quota q time s)
          in s' = s \<or> s \<in> {RATE_LIMITED, QUOTA_EXCEEDED} \<and> s' = ACTIVE)
     \<and> (s = RATE_LIMITED \<and> pending (runtime_reset q) (time 2) \<longrightarrow>
          (\<exists>u. apply_usage_quota q time s = (RATE_LIMITED, u, runtime_reset q)))"
  using uninferred_status [OF assms] uninferred_pending [OF assms] by blast

text \<open>With status inference the status of an active account is the one its samples dictate:
  an exhausted long window without usable credits is an exceeded quota, otherwise an exhausted
  short window is a rate limit, otherwise the account stays active; the used percentage of a
  blocked account is 100.\<close>

lemma usage_inferred_status:
  assumes "infer_status_from_usage q"
  shows "fst (apply_usage_quota q time ACTIVE)
       = (if exhausted (secondary_used q) \<and> \<not> has_credit_override q then QUOTA_EXCEEDED
          else if exhausted (primary_used q) then RATE_LIMITED else ACTIVE)
     \<and> (fst (apply_usage_quota q time ACTIVE) \<noteq> ACTIVE \<longrightarrow>
          fst (snd (apply_usage_quota q time ACTIVE)) = Some 100)"
proof (cases "exhausted (secondary_used q) \<and> \<not> has_credit_override q")
  case True
  then show ?thesis using assms
    by (auto simp: apply_usage_quota_def secondary_phase_def exhausted_def Let_def split: option.splits)
next
  case False
  then obtain u where "secondary_phase q (time 0) ACTIVE = Inr (ACTIVE, u, runtime_reset q)"
    using secondary_phase_not_quota [of ACTIVE q "time 0"] by auto
  then show ?thesis using False assms
    by (auto simp: apply_usage_quota_def credit_phase_active primary_phase_def exhausted_def Let_def
        split: option.splits)
qed

end
