(* ===== verification/Account_Leases.thy ===== *)
theory Account_Leases
  imports Balancer_State
begin

text \<open>
  The runtime table of the proxy's load balancer and its account leases, after
  \<open>codex-lb/app/modules/proxy/load_balancer.py\<close>: acquiring a lease under the concurrency caps,
  releasing it, reclaiming stale leases, pruning the table.

  The table \<open>self._runtime\<close> is a dictionary in insertion order, and so is the \<open>leases\<close> dictionary
  of each entry. Every operation runs under \<open>_runtime_lock\<close>, so it is one step. The identifier
  of a new lease (\<open>uuid4().hex\<close>) and the clocks are arguments. Metrics and log lines
  are left out.
\<close>

section \<open>Data\<close>

datatype AccountLeaseKind = response_create | stream

record AccountLease =
  lease_id :: string
  lease_account_id :: string
  lease_kind :: AccountLeaseKind
  acquired_at :: pyfloat
  estimated_tokens :: pyfloat

record RuntimeState =
  rt_reset_at :: "pyfloat option"
  rt_cooldown_until :: "pyfloat option"
  rt_last_error_at :: "pyfloat option"
  rt_last_selected_at :: "pyfloat option"
  rt_error_count :: int
  rt_version :: int
  rt_blocked_at :: "pyfloat option"
  rt_health_tier :: int
  rt_drain_entered_at :: "pyfloat option"
  rt_probe_success_streak :: int
  rt_inflight_response_creates :: int
  rt_inflight_streams :: int
  rt_leased_tokens :: pyfloat
  rt_leases :: "(string \<times> AccountLease) list option"

definition new_runtime :: RuntimeState where
  "new_runtime =
     \<lparr>rt_reset_at = None, rt_cooldown_until = None, rt_last_error_at = None, rt_last_selected_at = None,
      rt_error_count = 0, rt_version = 0, rt_blocked_at = None, rt_health_tier = 0,
      rt_drain_entered_at = None, rt_probe_success_streak = 0, rt_inflight_response_creates = 0,
      rt_inflight_streams = 0, rt_leased_tokens = 0, rt_leases = None\<rparr>"

type_synonym runtime_table = "(string \<times> RuntimeState) list"

record AccountConcurrencyCaps =
  response_create_limit :: int
  stream_limit :: int
  configured_response_create_limit :: "int option"
  configured_stream_limit :: "int option"
  replica_count :: int

record LeaseSettings =
  proxy_account_lease_ttl_seconds :: pyfloat
  proxy_request_budget_seconds :: pyfloat
  http_responses_stream_request_budget_seconds :: pyfloat
  http_responses_session_bridge_request_budget_seconds :: pyfloat

definition ACCOUNT_STREAM_LEASE_STALE_GRACE_SECONDS :: pyfloat where
  "ACCOUNT_STREAM_LEASE_STALE_GRACE_SECONDS = 60"

section \<open>Operations\<close>

definition runtime_setdefault :: "string \<Rightarrow> runtime_table \<Rightarrow> runtime_table" where
  "runtime_setdefault k table =
     (case map_of table k of None \<Rightarrow> AList.update k new_runtime table | Some rt \<Rightarrow> table)"

definition runtime_get :: "string \<Rightarrow> runtime_table \<Rightarrow> RuntimeState" where
  "runtime_get k table = default_to (map_of table k) new_runtime"

definition inflight :: "AccountLeaseKind \<Rightarrow> RuntimeState \<Rightarrow> int" where
  "inflight kind rt =
     (case kind of response_create \<Rightarrow> rt_inflight_response_creates rt | stream \<Rightarrow> rt_inflight_streams rt)"

definition set_inflight :: "AccountLeaseKind \<Rightarrow> int \<Rightarrow> RuntimeState \<Rightarrow> RuntimeState" where
  "set_inflight kind n rt =
     (case kind of
        response_create \<Rightarrow> rt\<lparr>rt_inflight_response_creates := n\<rparr>
      | stream \<Rightarrow> rt\<lparr>rt_inflight_streams := n\<rparr>)"

definition add_lease :: "AccountLease \<Rightarrow> pyfloat \<Rightarrow> RuntimeState \<Rightarrow> RuntimeState" where
  "add_lease lease time rt =
     (let rt1 = rt\<lparr>rt_leases := Some (AList.update (lease_id lease) lease (default_to (rt_leases rt) []))\<rparr>;
          rt2 = set_inflight (lease_kind lease) (inflight (lease_kind lease) rt1 + 1) rt1
      in rt2\<lparr>rt_leased_tokens := rt_leased_tokens rt2 + estimated_tokens lease,
             rt_last_selected_at := Some time, rt_version := rt_version rt2 + 1\<rparr>)"

definition acquire_account_lease_locked ::
  "string \<Rightarrow> pyfloat \<Rightarrow> pyfloat \<Rightarrow> string \<Rightarrow> AccountLeaseKind \<Rightarrow> pyfloat \<Rightarrow> runtime_table
     \<Rightarrow> AccountLease \<times> runtime_table" where
  "acquire_account_lease_locked uuid monotonic time acct kind tokens table =
     (let table1 = runtime_setdefault acct table;
          lease = \<lparr>lease_id = uuid, lease_account_id = acct, lease_kind = kind,
                   acquired_at = monotonic, estimated_tokens = max 0 tokens\<rparr>
      in (lease, AList.update acct (add_lease lease time (runtime_get acct table1)) table1))"

definition drop_lease :: "AccountLease \<Rightarrow> (string \<times> AccountLease) list \<Rightarrow> RuntimeState \<Rightarrow> RuntimeState" where
  "drop_lease current ls rt =
     (let rt1 = rt\<lparr>rt_leases := Some ls\<rparr>;
          rt2 = set_inflight (lease_kind current) (max 0 (inflight (lease_kind current) rt1 - 1)) rt1
      in rt2\<lparr>rt_leased_tokens := max 0 (rt_leased_tokens rt2 - estimated_tokens current),
             rt_version := rt_version rt2 + 1\<rparr>)"

definition release_account_lease_locked :: "AccountLease \<Rightarrow> runtime_table \<Rightarrow> bool \<times> runtime_table" where
  "release_account_lease_locked lease table =
     (case map_of table (lease_account_id lease) of
        None \<Rightarrow> (False, table)
      | Some rt \<Rightarrow>
          (case rt_leases rt of
             None \<Rightarrow> (False, table)
           | Some ls \<Rightarrow>
               (case map_of ls (lease_id lease) of
                  None \<Rightarrow> (False, table)
                | Some current \<Rightarrow>
                    (True, AList.update (lease_account_id lease)
                             (drop_lease current (AList.delete (lease_id lease) ls) rt) table))))"

definition release_account_lease :: "AccountLease option \<Rightarrow> runtime_table \<Rightarrow> runtime_table" where
  "release_account_lease lease table =
     (case lease of None \<Rightarrow> table | Some l \<Rightarrow> snd (release_account_lease_locked l table))"

definition account_lease_stale_ttl_seconds :: "LeaseSettings \<Rightarrow> AccountLeaseKind \<Rightarrow> pyfloat" where
  "account_lease_stale_ttl_seconds settings kind =
     (let ttl_seconds = proxy_account_lease_ttl_seconds settings
      in if kind \<noteq> stream then ttl_seconds
         else max ttl_seconds
                (list_max 0 [ttl_seconds, proxy_request_budget_seconds settings,
                   http_responses_stream_request_budget_seconds settings,
                   http_responses_session_bridge_request_budget_seconds settings]
                 + ACCOUNT_STREAM_LEASE_STALE_GRACE_SECONDS))"

definition is_stale :: "LeaseSettings \<Rightarrow> pyfloat \<Rightarrow> AccountLease \<Rightarrow> bool" where
  "is_stale settings now lease =
     (now - acquired_at lease \<ge> account_lease_stale_ttl_seconds settings (lease_kind lease))"

definition stale_leases :: "LeaseSettings \<Rightarrow> pyfloat \<Rightarrow> RuntimeState \<Rightarrow> AccountLease list" where
  "stale_leases settings now rt = filter (is_stale settings now) (map snd (default_to (rt_leases rt) []))"

definition release_all :: "AccountLease list \<Rightarrow> runtime_table \<Rightarrow> runtime_table" where
  "release_all ls table = foldl (\<lambda>t l. snd (release_account_lease_locked l t)) table ls"

definition reclaim_step :: "LeaseSettings \<Rightarrow> pyfloat \<Rightarrow> runtime_table \<Rightarrow> string \<Rightarrow> runtime_table" where
  "reclaim_step settings now table k =
     release_all (stale_leases settings now (runtime_get k table)) table"

definition reclaim_stale_account_leases_locked ::
  "LeaseSettings \<Rightarrow> pyfloat \<Rightarrow> runtime_table \<Rightarrow> runtime_table" where
  "reclaim_stale_account_leases_locked settings now table =
     foldl (reclaim_step settings now) table (map fst table)"

definition cap_of :: "AccountConcurrencyCaps \<Rightarrow> AccountLeaseKind \<Rightarrow> int" where
  "cap_of caps kind = (case kind of response_create \<Rightarrow> response_create_limit caps | stream \<Rightarrow> stream_limit caps)"

definition acquire_account_lease ::
  "LeaseSettings \<Rightarrow> AccountConcurrencyCaps \<Rightarrow> pyfloat \<Rightarrow> string \<Rightarrow> pyfloat \<Rightarrow> pyfloat \<Rightarrow> string
     \<Rightarrow> AccountLeaseKind \<Rightarrow> pyfloat \<Rightarrow> runtime_table \<Rightarrow> AccountLease option \<times> runtime_table" where
  "acquire_account_lease settings caps now uuid monotonic time acct kind tokens table =
     (let table1 = runtime_setdefault acct (reclaim_stale_account_leases_locked settings now table);
          cap = cap_of caps kind
      in if cap > 0 \<and> inflight kind (runtime_get acct table1) \<ge> cap then (None, table1)
         else (case acquire_account_lease_locked uuid monotonic time acct kind tokens table1 of
                 (lease, table2) \<Rightarrow> (Some lease, table2)))"

definition account_pressure_snapshot :: "string \<Rightarrow> runtime_table \<Rightarrow> int \<times> int \<times> pyfloat" where
  "account_pressure_snapshot acct table =
     (case map_of table acct of None \<Rightarrow> (0, 0, 0)
      | Some rt \<Rightarrow> (rt_inflight_response_creates rt, rt_inflight_streams rt, rt_leased_tokens rt))"

definition effective_cap :: "AccountConcurrencyCaps \<Rightarrow> AccountLeaseKind \<Rightarrow> int \<Rightarrow> int" where
  "effective_cap caps kind stream_reserve_slots =
     (case kind of response_create \<Rightarrow> response_create_limit caps
      | stream \<Rightarrow> max 1 (stream_limit caps - max 0 stream_reserve_slots))"

definition account_lease_allowed_locked ::
  "string \<Rightarrow> AccountLeaseKind \<Rightarrow> AccountConcurrencyCaps \<Rightarrow> int \<Rightarrow> runtime_table \<Rightarrow> bool \<times> runtime_table" where
  "account_lease_allowed_locked acct kind caps stream_reserve_slots table =
     (let table1 = runtime_setdefault acct table
      in (cap_of caps kind \<le> 0
          \<or> inflight kind (runtime_get acct table1) < effective_cap caps kind stream_reserve_slots, table1))"

definition filter_states_for_account_caps ::
  "AccountState list \<Rightarrow> AccountLeaseKind option \<Rightarrow> AccountConcurrencyCaps \<Rightarrow> int \<Rightarrow> AccountState list" where
  "filter_states_for_account_caps states kind caps stream_reserve_slots =
     (case kind of None \<Rightarrow> states
      | Some k \<Rightarrow>
          filter (\<lambda>st. \<not> (cap_of caps k > 0
            \<and> (case k of response_create \<Rightarrow> inflight_response_creates st | stream \<Rightarrow> inflight_streams st)
                \<ge> effective_cap caps k stream_reserve_slots)) states)"

definition account_cap_error_code :: "AccountLeaseKind option \<Rightarrow> string option" where
  "account_cap_error_code kind =
     (case kind of Some response_create \<Rightarrow> Some ''account_response_create_cap''
      | Some stream \<Rightarrow> Some ''account_stream_cap'' | None \<Rightarrow> None)"

definition account_cap_error_message :: "AccountLeaseKind option \<Rightarrow> AccountConcurrencyCaps \<Rightarrow> string" where
  "account_cap_error_message kind caps =
     (case kind of
        Some response_create \<Rightarrow>
          (case configured_response_create_limit caps of
             Some limit \<Rightarrow>
               if replica_count caps > 1
               then ''Account response-create capacity is exhausted; this replica's share is ''
                    @ show_int (response_create_limit caps) @ '' of the per-account limit ''
                    @ show_int limit @ '' across '' @ show_int (replica_count caps) @ '' replicas''
               else ''Account response-create capacity is exhausted; per-account limit is ''
                    @ show_int (response_create_limit caps)
           | None \<Rightarrow> ''Account response-create capacity is exhausted; per-account limit is ''
                    @ show_int (response_create_limit caps))
      | Some stream \<Rightarrow>
          (case configured_stream_limit caps of
             Some limit \<Rightarrow>
               if replica_count caps > 1
               then ''Account stream capacity is exhausted; this replica's share is ''
                    @ show_int (stream_limit caps) @ '' of the per-account limit '' @ show_int limit
                    @ '' across '' @ show_int (replica_count caps)
                    @ '' replicas. Increase the dashboard stream limit or wait for active streams to finish.''
               else ''Account stream capacity is exhausted; per-account limit is '' @ show_int (stream_limit caps)
                    @ ''. Increase the dashboard stream limit or wait for active streams to finish.''
           | None \<Rightarrow> ''Account stream capacity is exhausted; per-account limit is '' @ show_int (stream_limit caps)
                    @ ''. Increase the dashboard stream limit or wait for active streams to finish.'')
      | None \<Rightarrow> ''Account capacity is exhausted'')"

definition prune_runtime :: "string list \<Rightarrow> runtime_table \<Rightarrow> runtime_table" where
  "prune_runtime account_ids table =
     filter (\<lambda>(k, rt). k \<in> set account_ids \<or> default_to (rt_leases rt) [] \<noteq> []) table"

section \<open>Specification\<close>

text \<open>What the table stands for: the outstanding leases.\<close>

definition lease_list :: "RuntimeState \<Rightarrow> (string \<times> AccountLease) list" where
  "lease_list rt = default_to (rt_leases rt) []"

definition outstanding :: "runtime_table \<Rightarrow> AccountLease set" where
  "outstanding table = (\<Union>(k, rt) \<in> set table. snd ` set (lease_list rt))"

definition count_kind :: "AccountLeaseKind \<Rightarrow> (string \<times> AccountLease) list \<Rightarrow> int" where
  "count_kind kind ls = int (length (filter (\<lambda>(i, l). lease_kind l = kind) ls))"

definition entry_inv :: "string \<Rightarrow> RuntimeState \<Rightarrow> bool" where
  "entry_inv k rt =
     (distinct (map fst (lease_list rt))
      \<and> list_all (\<lambda>(i, l). lease_id l = i \<and> lease_account_id l = k \<and> estimated_tokens l \<ge> 0) (lease_list rt)
      \<and> rt_inflight_response_creates rt = count_kind response_create (lease_list rt)
      \<and> rt_inflight_streams rt = count_kind stream (lease_list rt)
      \<and> rt_leased_tokens rt = sum_list (map (estimated_tokens \<circ> snd) (lease_list rt)))"

definition table_inv :: "runtime_table \<Rightarrow> bool" where
  "table_inv table = (distinct (map fst table) \<and> list_all (\<lambda>(k, rt). entry_inv k rt) table)"

text \<open>The steps of the runtime table under the lock, for fixed caps. The identifier of an acquired
  lease is new. An update of the fields that have nothing to do with leases (the health tier, the
  cooldown, the error count of the entry) is the step \<open>other\<close>.\<close>

inductive lease_step :: "LeaseSettings \<Rightarrow> AccountConcurrencyCaps \<Rightarrow> runtime_table \<Rightarrow> runtime_table \<Rightarrow> bool"
  for settings caps where
  acquire: "uuid \<notin> lease_id ` outstanding t \<Longrightarrow>
    lease_step settings caps t (snd (acquire_account_lease settings caps now uuid mono_time time acct kind tokens t))"
| select: "uuid \<notin> lease_id ` outstanding t \<Longrightarrow>
    account_lease_allowed_locked acct kind caps reserve t = (True, t') \<Longrightarrow>
    lease_step settings caps t (snd (acquire_account_lease_locked uuid mono_time time acct kind tokens t'))"
| release: "lease_step settings caps t (release_account_lease l t)"
| reclaim: "lease_step settings caps t (reclaim_stale_account_leases_locked settings now t)"
| prune: "lease_step settings caps t (prune_runtime ids t)"
| other: "rt = runtime_get k t \<Longrightarrow> rt_leases rt' = rt_leases rt \<Longrightarrow> inflight response_create rt' = inflight response_create rt
    \<Longrightarrow> inflight stream rt' = inflight stream rt \<Longrightarrow> rt_leased_tokens rt' = rt_leased_tokens rt \<Longrightarrow>
    lease_step settings caps t (AList.update k rt' t)"

definition own_leases :: "RuntimeState \<Rightarrow> AccountLease set" where
  "own_leases rt = {l. map_of (lease_list rt) (lease_id l) = Some l}"

text \<open>Two leases are the same entry when account and identifier agree.\<close>

definition same_lease :: "AccountLease \<Rightarrow> AccountLease \<Rightarrow> bool" where
  "same_lease l l' = (lease_account_id l = lease_account_id l' \<and> lease_id l = lease_id l')"

text \<open>No operation but acquiring raises an in-flight counter.\<close>

definition shrinks :: "runtime_table \<Rightarrow> runtime_table \<Rightarrow> bool" where
  "shrinks t t' = (\<forall>kind k. inflight kind (runtime_get k t') \<le> inflight kind (runtime_get k t))"

definition caps_respected :: "AccountConcurrencyCaps \<Rightarrow> runtime_table \<Rightarrow> bool" where
  "caps_respected caps t = (\<forall>kind k. 0 < cap_of caps kind \<longrightarrow> inflight kind (runtime_get k t) \<le> cap_of caps kind)"

definition sample_lease_settings :: LeaseSettings where
  "sample_lease_settings =
     \<lparr>proxy_account_lease_ttl_seconds = 900, proxy_request_budget_seconds = 600,
      http_responses_stream_request_budget_seconds = 600,
      http_responses_session_bridge_request_budget_seconds = 600\<rparr>"

definition sample_lease :: AccountLease where
  "sample_lease =
     \<lparr>lease_id = ''u0'', lease_account_id = ''a'', lease_kind = stream, acquired_at = 0, estimated_tokens = 7\<rparr>"

definition sample_caps :: AccountConcurrencyCaps where
  "sample_caps = \<lparr>response_create_limit = 2, stream_limit = 1, configured_response_create_limit = None,
     configured_stream_limit = None, replica_count = 1\<rparr>"

section \<open>One entry\<close>

lemma update_fresh: "k \<notin> fst ` set al \<Longrightarrow> AList.update k v al = al @ [(k, v)]"
  by (induction al) auto

lemma sum_delete:
  "distinct (map fst ls) \<Longrightarrow> map_of ls i = Some l \<Longrightarrow>
     sum_list (map f ls) = f (i, l) + sum_list (map f (AList.delete i ls))"
  for f :: "_ \<Rightarrow> 'b::ab_group_add"
proof (induction ls)
  case (Cons x xs)
  show ?case
  proof (cases "fst x = i")
    case True
    then have "AList.delete i xs = xs" using Cons.prems(1) by (intro delete_id) auto
    then show ?thesis using True Cons.prems(2) by (cases x) auto
  next
    case False
    then show ?thesis using Cons by (cases x) (auto simp: algebra_simps)
  qed
qed simp

lemma count_kind_sum: "count_kind k ls = sum_list (map (\<lambda>(i, l). if lease_kind l = k then 1 else 0) ls)"
  by (induction ls) (auto simp: count_kind_def)

lemma count_kind_delete:
  "distinct (map fst ls) \<Longrightarrow> map_of ls i = Some l \<Longrightarrow>
     count_kind k ls = (if lease_kind l = k then 1 else 0) + count_kind k (AList.delete i ls)"
  unfolding count_kind_sum by (subst sum_delete) simp_all

lemma count_kind_simps [simp]: "count_kind k [] = 0" "0 \<le> count_kind k ls"
  by (simp_all add: count_kind_def)

lemma entry_inv_new [simp]: "entry_inv k new_runtime"
  by (simp add: entry_inv_def new_runtime_def lease_list_def)

lemma inflight_count: "entry_inv k rt \<Longrightarrow> inflight kind rt = count_kind kind (lease_list rt)"
  by (cases kind) (simp_all add: entry_inv_def inflight_def)

lemma lease_list_add:
  "lease_list (add_lease l time rt) = AList.update (lease_id l) l (lease_list rt)"
  "lease_list (drop_lease l ls rt) = ls"
  by (cases "lease_kind l"; simp add: add_lease_def drop_lease_def Let_def set_inflight_def lease_list_def)+

lemma inflight_add:
  "inflight kind (add_lease l time rt) = inflight kind rt + (if lease_kind l = kind then 1 else 0)"
  "inflight kind (drop_lease l ls rt) = (if lease_kind l = kind then max 0 (inflight kind rt - 1) else inflight kind rt)"
  by (cases "lease_kind l"; cases kind; simp add: add_lease_def drop_lease_def Let_def set_inflight_def inflight_def)+

lemma tokens_add:
  "rt_leased_tokens (add_lease l time rt) = rt_leased_tokens rt + estimated_tokens l"
  "rt_leased_tokens (drop_lease l ls rt) = max 0 (rt_leased_tokens rt - estimated_tokens l)"
  by (cases "lease_kind l"; simp add: add_lease_def drop_lease_def Let_def set_inflight_def)+

lemma entry_invI:
  assumes "distinct (map fst (lease_list rt))"
    and "\<And>i l. (i, l) \<in> set (lease_list rt) \<Longrightarrow> lease_id l = i \<and> lease_account_id l = k \<and> estimated_tokens l \<ge> 0"
    and "\<And>kind. inflight kind rt = count_kind kind (lease_list rt)"
    and "rt_leased_tokens rt = sum_list (map (estimated_tokens \<circ> snd) (lease_list rt))"
  shows "entry_inv k rt"
  using assms(1,2,4) assms(3) [of response_create] assms(3) [of stream]
  by (auto simp: entry_inv_def list_all_iff inflight_def)

lemma entry_inv_add:
  assumes "entry_inv k rt" "lease_account_id l = k" "estimated_tokens l \<ge> 0" "lease_id l \<notin> fst ` set (lease_list rt)"
  shows "entry_inv k (add_lease l time rt)"
proof (rule entry_invI)
  note u = update_fresh [OF assms(4)]
  show "distinct (map fst (lease_list (add_lease l time rt)))"
    using assms(1,4) by (simp add: lease_list_add u entry_inv_def)
  show "inflight kind (add_lease l time rt) = count_kind kind (lease_list (add_lease l time rt))" for kind
    using inflight_count [OF assms(1)] by (simp add: lease_list_add u inflight_add count_kind_def)
  show "rt_leased_tokens (add_lease l time rt)
      = sum_list (map (estimated_tokens \<circ> snd) (lease_list (add_lease l time rt)))"
    using assms(1) by (simp add: lease_list_add u tokens_add entry_inv_def)
  show "lease_id l' = i \<and> lease_account_id l' = k \<and> estimated_tokens l' \<ge> 0"
    if "(i, l') \<in> set (lease_list (add_lease l time rt))" for i l'
    using that assms(1-3) by (auto simp: lease_list_add u entry_inv_def list_all_iff)
qed

lemma entry_inv_drop:
  assumes "entry_inv k rt" "map_of (lease_list rt) i = Some l"
  shows "entry_inv k (drop_lease l (AList.delete i (lease_list rt)) rt)"
proof (rule entry_invI)
  let ?ls = "lease_list rt" and ?ls' = "AList.delete i (lease_list rt)"
  have d: "distinct (map fst ?ls)" using assms(1) by (simp add: entry_inv_def)
  have sub: "set ?ls' \<subseteq> set ?ls" by (auto simp: AList.delete_eq)
  show "distinct (map fst (lease_list (drop_lease l ?ls' rt)))"
    using d by (simp add: lease_list_add distinct_delete)
  show props: "lease_id l' = j \<and> lease_account_id l' = k \<and> estimated_tokens l' \<ge> 0"
    if "(j, l') \<in> set (lease_list (drop_lease l ?ls' rt))" for j l'
    using that sub assms(1) by (auto simp: lease_list_add entry_inv_def list_all_iff)
  show "inflight kind (drop_lease l ?ls' rt) = count_kind kind (lease_list (drop_lease l ?ls' rt))" for kind
    using inflight_count [OF assms(1), of kind] count_kind_delete [OF d assms(2), of kind]
    by (simp add: lease_list_add inflight_add)
  have "0 \<le> sum_list (map (estimated_tokens \<circ> snd) ?ls')"
    using props by (intro sum_list_nonneg) (auto simp: lease_list_add)
  then show "rt_leased_tokens (drop_lease l ?ls' rt)
      = sum_list (map (estimated_tokens \<circ> snd) (lease_list (drop_lease l ?ls' rt)))"
    using sum_delete [OF d assms(2), of "estimated_tokens \<circ> snd"] assms(1)
    by (simp add: lease_list_add tokens_add entry_inv_def)
qed

section \<open>The table\<close>

lemma table_inv_iff:
  "table_inv t \<longleftrightarrow> distinct (map fst t) \<and> (\<forall>k rt. map_of t k = Some rt \<longrightarrow> entry_inv k rt)"
  by (auto simp: table_inv_def list_all_iff map_of_eq_Some_iff)

lemma table_inv_entry: "table_inv t \<Longrightarrow> map_of t k = Some rt \<Longrightarrow> entry_inv k rt"
  by (simp add: table_inv_iff)

lemma table_inv_update: "table_inv t \<Longrightarrow> entry_inv k rt \<Longrightarrow> table_inv (AList.update k rt t)"
  by (auto simp: table_inv_iff distinct_update update_conv split: if_splits)

lemma table_inv_setdefault: "table_inv t \<Longrightarrow> table_inv (runtime_setdefault k t)"
  by (auto simp: runtime_setdefault_def intro: table_inv_update split: option.split)

lemma map_of_setdefault:
  "map_of (runtime_setdefault k t) j = (if j = k then Some (runtime_get k t) else map_of t j)"
  by (auto simp: runtime_setdefault_def runtime_get_def update_conv split: option.split)

lemma runtime_get_setdefault [simp]: "runtime_get k (runtime_setdefault j t) = runtime_get k t"
  by (auto simp: runtime_get_def map_of_setdefault)

lemma entry_inv_get: "table_inv t \<Longrightarrow> entry_inv k (runtime_get k t)"
  by (cases "map_of t k") (simp_all add: runtime_get_def table_inv_iff)

lemma outstanding_iff:
  assumes "table_inv t"
  shows "l \<in> outstanding t \<longleftrightarrow> map_of (lease_list (runtime_get (lease_account_id l) t)) (lease_id l) = Some l"
proof
  assume "l \<in> outstanding t"
  then obtain k rt i where krt: "(k, rt) \<in> set t" "(i, l) \<in> set (lease_list rt)"
    by (auto simp: outstanding_def)
  then have m: "map_of t k = Some rt" using assms by (simp add: table_inv_def)
  then have e: "entry_inv k rt" by (rule table_inv_entry [OF assms])
  then have "i = lease_id l" "k = lease_account_id l" using krt(2) by (auto simp: entry_inv_def list_all_iff)
  then show "map_of (lease_list (runtime_get (lease_account_id l) t)) (lease_id l) = Some l"
    using m krt(2) e by (simp add: runtime_get_def entry_inv_def)
next
  assume a: "map_of (lease_list (runtime_get (lease_account_id l) t)) (lease_id l) = Some l"
  then obtain rt where "map_of t (lease_account_id l) = Some rt"
    by (cases "map_of t (lease_account_id l)") (auto simp: runtime_get_def new_runtime_def lease_list_def)
  then have "(lease_account_id l, rt) \<in> set t" "(lease_id l, l) \<in> set (lease_list rt)"
    using a by (auto simp: runtime_get_def dest: map_of_SomeD)
  then show "l \<in> outstanding t" by (force simp: outstanding_def)
qed

lemma own_leases_get:
  assumes "table_inv t"
  shows "own_leases (runtime_get k t) = {l \<in> outstanding t. lease_account_id l = k}"
proof -
  have "lease_account_id l = k" if "map_of (lease_list (runtime_get k t)) (lease_id l) = Some l" for l
    using entry_inv_get [OF assms, of k] map_of_SomeD [OF that] by (auto simp: entry_inv_def list_all_iff)
  then show ?thesis using outstanding_iff [OF assms] by (auto simp: own_leases_def)
qed

lemma own_leases_add:
  assumes "lease_id l \<notin> fst ` set (lease_list rt)"
  shows "own_leases (add_lease l time rt) = insert l (own_leases rt)"
proof -
  have "map_of (lease_list rt) (lease_id l) = None" using assms by (simp add: map_of_eq_None_iff)
  then show ?thesis by (auto simp: own_leases_def lease_list_add update_conv split: if_splits)
qed

lemma own_leases_drop:
  "own_leases (drop_lease c (AList.delete i (lease_list rt)) rt) = {l \<in> own_leases rt. lease_id l \<noteq> i}"
  by (auto simp: own_leases_def lease_list_add AList.delete_conv split: if_splits)

lemma outstanding_update:
  assumes "table_inv t" "entry_inv k rt"
  shows "outstanding (AList.update k rt t) = {l \<in> outstanding t. lease_account_id l \<noteq> k} \<union> own_leases rt"
proof (rule set_eqI)
  fix l
  have own: "lease_account_id l = k" if "map_of (lease_list rt) (lease_id l) = Some l"
    using assms(2) map_of_SomeD [OF that] by (auto simp: entry_inv_def list_all_iff)
  have "runtime_get (lease_account_id l) (AList.update k rt t)
      = (if lease_account_id l = k then rt else runtime_get (lease_account_id l) t)"
    by (simp add: runtime_get_def update_conv)
  then show "l \<in> outstanding (AList.update k rt t) \<longleftrightarrow>
      l \<in> {l \<in> outstanding t. lease_account_id l \<noteq> k} \<union> own_leases rt"
    using outstanding_iff [OF table_inv_update [OF assms]] outstanding_iff [OF assms(1)] own
    by (auto simp: own_leases_def)
qed

lemma outstanding_setdefault [simp]:
  "table_inv t \<Longrightarrow> outstanding (runtime_setdefault k t) = outstanding t"
  by (rule set_eqI) (simp add: outstanding_iff table_inv_setdefault)

lemma lease_id_outstanding:
  assumes "table_inv t" "uuid \<notin> lease_id ` outstanding t"
  shows "uuid \<notin> fst ` set (lease_list (runtime_get k t))"
proof
  assume "uuid \<in> fst ` set (lease_list (runtime_get k t))"
  then obtain l where l: "(uuid, l) \<in> set (lease_list (runtime_get k t))" by force
  have e: "entry_inv k (runtime_get k t)" by (rule entry_inv_get [OF assms(1)])
  then have "lease_id l = uuid" "lease_account_id l = k" using l by (auto simp: entry_inv_def list_all_iff)
  moreover have "map_of (lease_list (runtime_get k t)) uuid = Some l"
    using l e by (simp add: entry_inv_def)
  ultimately have "l \<in> outstanding t" using outstanding_iff [OF assms(1)] by simp
  then show False using assms(2) \<open>lease_id l = uuid\<close> by blast
qed

lemma acquire_locked_spec:
  assumes "table_inv t" "uuid \<notin> lease_id ` outstanding t"
    and "acquire_account_lease_locked uuid m time acct kind tokens t = (l, t')"
  shows "table_inv t'" "outstanding t' = insert l (outstanding t)"
    "inflight kind' (runtime_get k t')
       = inflight kind' (runtime_get k t) + (if k = acct \<and> kind' = kind then 1 else 0)"
proof -
  let ?rt = "runtime_get acct t"
  have l: "lease_id l = uuid" "lease_account_id l = acct" "lease_kind l = kind" "0 \<le> estimated_tokens l"
    and t': "t' = AList.update acct (add_lease l time ?rt) (runtime_setdefault acct t)"
    using assms(3) by (auto simp: acquire_account_lease_locked_def Let_def)
  have fresh: "uuid \<notin> fst ` set (lease_list ?rt)" by (rule lease_id_outstanding [OF assms(1,2)])
  have e: "entry_inv acct (add_lease l time ?rt)"
    using entry_inv_add [OF entry_inv_get [OF assms(1)] l(2,4)] fresh l(1) by simp
  show "table_inv t'" unfolding t' by (intro table_inv_update table_inv_setdefault assms(1) e)
  have "own_leases (add_lease l time ?rt) = insert l {l' \<in> outstanding t. lease_account_id l' = acct}"
    using own_leases_add [of l ?rt time] fresh l(1) own_leases_get [OF assms(1)] by simp
  then show "outstanding t' = insert l (outstanding t)"
    unfolding t' outstanding_update [OF table_inv_setdefault [OF assms(1)] e] using assms(1) by auto
  show "inflight kind' (runtime_get k t')
       = inflight kind' (runtime_get k t) + (if k = acct \<and> kind' = kind then 1 else 0)"
    by (cases "k = acct") (simp_all add: t' runtime_get_def update_conv inflight_add l(3) map_of_setdefault)
qed

lemma shrinks_refl [simp]: "shrinks t t"
  by (simp add: shrinks_def)

lemma shrinks_trans: "shrinks t u \<Longrightarrow> shrinks u v \<Longrightarrow> shrinks t v"
  by (meson order_trans shrinks_def)

lemma same_lease_outstanding:
  "table_inv t \<Longrightarrow> l' \<in> outstanding t \<and> same_lease l l' \<longleftrightarrow>
     same_lease l l' \<and> map_of (lease_list (runtime_get (lease_account_id l) t)) (lease_id l) = Some l'"
  using outstanding_iff [of t l'] by (auto simp: same_lease_def)

lemma release_missing:
  assumes "map_of (lease_list (runtime_get (lease_account_id l) t)) (lease_id l) = None"
  shows "release_account_lease_locked l t = (False, t)"
  using assms
  by (auto simp: release_account_lease_locked_def runtime_get_def lease_list_def split: option.split)

lemma release_present:
  assumes "map_of (lease_list (runtime_get (lease_account_id l) t)) (lease_id l) = Some cur"
  shows "release_account_lease_locked l t
     = (True, AList.update (lease_account_id l)
          (drop_lease cur (AList.delete (lease_id l) (lease_list (runtime_get (lease_account_id l) t)))
             (runtime_get (lease_account_id l) t)) t)"
proof (cases "map_of t (lease_account_id l)")
  case None
  then show ?thesis using assms by (simp add: runtime_get_def lease_list_def new_runtime_def)
next
  case (Some rt)
  then show ?thesis using assms
    by (cases "rt_leases rt") (simp_all add: release_account_lease_locked_def runtime_get_def lease_list_def)
qed

lemma release_present_spec:
  assumes t: "table_inv t" and cur: "map_of (lease_list (runtime_get (lease_account_id l) t)) (lease_id l) = Some cur"
  shows "table_inv (snd (release_account_lease_locked l t))"
    and "outstanding (snd (release_account_lease_locked l t)) = {l' \<in> outstanding t. \<not> same_lease l l'}"
    and "shrinks t (snd (release_account_lease_locked l t))"
proof -
  define rt where "rt = runtime_get (lease_account_id l) t"
  define rt' where "rt' = drop_lease cur (AList.delete (lease_id l) (lease_list rt)) rt"
  have r: "snd (release_account_lease_locked l t) = AList.update (lease_account_id l) rt' t"
    unfolding rt'_def rt_def by (simp add: release_present [OF cur])
  have e: "entry_inv (lease_account_id l) rt" unfolding rt_def by (rule entry_inv_get [OF t])
  then have e': "entry_inv (lease_account_id l) rt'"
    unfolding rt'_def using cur by (intro entry_inv_drop) (simp_all add: rt_def)
  show "table_inv (snd (release_account_lease_locked l t))" unfolding r by (rule table_inv_update [OF t e'])
  have own: "own_leases rt' = {l' \<in> outstanding t. lease_account_id l' = lease_account_id l \<and> lease_id l' \<noteq> lease_id l}"
    unfolding rt'_def own_leases_drop unfolding rt_def own_leases_get [OF t] by auto
  show "outstanding (snd (release_account_lease_locked l t)) = {l' \<in> outstanding t. \<not> same_lease l l'}"
    unfolding r outstanding_update [OF t e'] own by (auto simp: same_lease_def)
  have "0 \<le> inflight kind rt" for kind using inflight_count [OF e] by simp
  then have "inflight kind rt' \<le> inflight kind rt" for kind by (auto simp: rt'_def inflight_add)
  then show "shrinks t (snd (release_account_lease_locked l t))"
    unfolding r shrinks_def by (simp add: runtime_get_def update_conv rt_def)
qed

lemma release_locked_spec:
  assumes "table_inv t"
  shows "table_inv (snd (release_account_lease_locked l t))"
    and "outstanding (snd (release_account_lease_locked l t)) = {l' \<in> outstanding t. \<not> same_lease l l'}"
    and "shrinks t (snd (release_account_lease_locked l t))"
proof -
  have "table_inv (snd (release_account_lease_locked l t))
      \<and> outstanding (snd (release_account_lease_locked l t)) = {l' \<in> outstanding t. \<not> same_lease l l'}
      \<and> shrinks t (snd (release_account_lease_locked l t))"
  proof (cases "map_of (lease_list (runtime_get (lease_account_id l) t)) (lease_id l)")
    case None
    then show ?thesis using same_lease_outstanding [OF assms, of _ l] assms by (auto simp: release_missing)
  next
    case (Some cur)
    then show ?thesis using release_present_spec [OF assms Some] by simp
  qed
  then show "table_inv (snd (release_account_lease_locked l t))"
    "outstanding (snd (release_account_lease_locked l t)) = {l' \<in> outstanding t. \<not> same_lease l l'}"
    "shrinks t (snd (release_account_lease_locked l t))"
    by simp_all
qed

lemma release_returns:
  assumes "table_inv t"
  shows "fst (release_account_lease_locked l t) \<longleftrightarrow> (\<exists>l' \<in> outstanding t. same_lease l l')"
proof (cases "map_of (lease_list (runtime_get (lease_account_id l) t)) (lease_id l)")
  case None
  then show ?thesis using same_lease_outstanding [OF assms, of _ l] by (auto simp: release_missing)
next
  case (Some cur)
  have "same_lease l cur"
    using entry_inv_get [OF assms, of "lease_account_id l"] map_of_SomeD [OF Some]
    by (auto simp: entry_inv_def list_all_iff same_lease_def)
  then show ?thesis using same_lease_outstanding [OF assms, of cur l] Some by (auto simp: release_present)
qed

section \<open>Reclaiming and pruning\<close>

lemma release_all_spec:
  assumes "table_inv t"
  shows "table_inv (release_all ls t) \<and> outstanding (release_all ls t) = {l' \<in> outstanding t. \<forall>l \<in> set ls. \<not> same_lease l l'}
     \<and> shrinks t (release_all ls t)"
  using assms
proof (induction ls arbitrary: t)
  case (Cons l ls)
  let ?t = "snd (release_account_lease_locked l t)"
  note r = release_locked_spec [OF Cons.prems, where l = l]
  have "release_all (l # ls) t = release_all ls ?t" by (simp add: release_all_def)
  then show ?case using Cons.IH [OF r(1)] r(2,3) by (auto intro: shrinks_trans)
qed (simp add: release_all_def)

lemma stale_leases_iff:
  assumes "table_inv t"
  shows "l \<in> set (stale_leases s now (runtime_get k t)) \<longleftrightarrow>
     l \<in> outstanding t \<and> lease_account_id l = k \<and> is_stale s now l"
proof -
  have e: "entry_inv k (runtime_get k t)" by (rule entry_inv_get [OF assms])
  have "l \<in> snd ` set (lease_list (runtime_get k t)) \<longleftrightarrow> l \<in> own_leases (runtime_get k t)"
    using e by (force simp: own_leases_def entry_inv_def list_all_iff dest: map_of_SomeD)
  moreover have "l \<in> set (stale_leases s now (runtime_get k t)) \<longleftrightarrow>
      l \<in> snd ` set (lease_list (runtime_get k t)) \<and> is_stale s now l"
    unfolding stale_leases_def lease_list_def by auto
  ultimately show ?thesis unfolding own_leases_get [OF assms] by auto
qed

lemma same_lease_eq:
  "table_inv t \<Longrightarrow> l \<in> outstanding t \<Longrightarrow> l' \<in> outstanding t \<Longrightarrow> same_lease l l' \<Longrightarrow> l = l'"
  using outstanding_iff [of t l] outstanding_iff [of t l'] unfolding same_lease_def by (metis option.inject)

lemma same_lease_refl [simp]: "same_lease l l"
  by (simp add: same_lease_def)

lemma reclaim_step_spec:
  assumes "table_inv t"
  shows "table_inv (reclaim_step s now t k)"
    and "outstanding (reclaim_step s now t k) = {l \<in> outstanding t. \<not> (lease_account_id l = k \<and> is_stale s now l)}"
    and "shrinks t (reclaim_step s now t k)"
proof -
  note r = release_all_spec [OF assms, of "stale_leases s now (runtime_get k t)"]
  have "(\<forall>l' \<in> set (stale_leases s now (runtime_get k t)). \<not> same_lease l' l) \<longleftrightarrow>
      \<not> (lease_account_id l = k \<and> is_stale s now l)" if "l \<in> outstanding t" for l
    unfolding Ball_def stale_leases_iff [OF assms] using same_lease_eq [OF assms _ that] that same_lease_refl by blast
  then show "outstanding (reclaim_step s now t k) = {l \<in> outstanding t. \<not> (lease_account_id l = k \<and> is_stale s now l)}"
    unfolding reclaim_step_def using r by blast
  show "table_inv (reclaim_step s now t k)"
      "shrinks t (reclaim_step s now t k)"
    unfolding reclaim_step_def using r by blast+
qed

lemma reclaim_foldl_spec:
  assumes "table_inv t"
  shows "table_inv (foldl (reclaim_step s now) t ks)
     \<and> outstanding (foldl (reclaim_step s now) t ks) = {l \<in> outstanding t. \<not> (lease_account_id l \<in> set ks \<and> is_stale s now l)}
     \<and> shrinks t (foldl (reclaim_step s now) t ks)"
  using assms
proof (induction ks arbitrary: t)
  case (Cons k ks)
  note r = reclaim_step_spec [OF Cons.prems, where s = s and now = now and k = k]
  show ?case using Cons.IH [OF r(1)] r(2,3) by (auto intro: shrinks_trans)
qed simp

lemma outstanding_key: "table_inv t \<Longrightarrow> l \<in> outstanding t \<Longrightarrow> lease_account_id l \<in> fst ` set t"
  by (force simp: outstanding_def table_inv_def list_all_iff entry_inv_def)

lemma reclaim_spec:
  assumes "table_inv t"
  shows "table_inv (reclaim_stale_account_leases_locked s now t)"
    and "outstanding (reclaim_stale_account_leases_locked s now t) = {l \<in> outstanding t. \<not> is_stale s now l}"
    and "shrinks t (reclaim_stale_account_leases_locked s now t)"
  using reclaim_foldl_spec [OF assms, of s now "map fst t"] outstanding_key [OF assms]
  by (auto simp: reclaim_stale_account_leases_locked_def)

lemma prune_spec:
  assumes "table_inv t"
  shows "table_inv (prune_runtime ids t)" and "outstanding (prune_runtime ids t) = outstanding t"
    and "shrinks t (prune_runtime ids t)"
proof -
  have d: "distinct (map fst (prune_runtime ids t))"
    using assms by (simp add: prune_runtime_def table_inv_def distinct_map_filter)
  then show t': "table_inv (prune_runtime ids t)"
    using assms by (auto simp: table_inv_def prune_runtime_def list_all_iff)
  show "outstanding (prune_runtime ids t) = outstanding t"
    by (force simp: outstanding_def prune_runtime_def lease_list_def)
  have "0 \<le> inflight kind (runtime_get j t)" for kind j
    using inflight_count [OF entry_inv_get [OF assms]] by simp
  moreover have m: "map_of (prune_runtime ids t) j \<in> {None, map_of t j}" for j
  proof (cases "map_of (prune_runtime ids t) j")
    case (Some rt)
    then have "(j, rt) \<in> set t" by (auto simp: prune_runtime_def dest: map_of_SomeD)
    then show ?thesis using Some assms by (simp add: table_inv_def)
  qed simp
  have "runtime_get j (prune_runtime ids t) \<in> {new_runtime, runtime_get j t}" for j
    using m [of j] by (auto simp: runtime_get_def)
  moreover have "inflight kind new_runtime = 0" for kind by (cases kind) (simp_all add: inflight_def new_runtime_def)
  ultimately show "shrinks t (prune_runtime ids t)"
    unfolding shrinks_def by (metis empty_iff insertE order_refl)
qed

section \<open>Reachable tables\<close>

lemma caps_shrinks: "caps_respected caps t \<Longrightarrow> shrinks t t' \<Longrightarrow> caps_respected caps t'"
  unfolding caps_respected_def shrinks_def by (meson order_trans)

lemma caps_setdefault [simp]: "caps_respected caps (runtime_setdefault k t) = caps_respected caps t"
  by (simp add: caps_respected_def)

lemma caps_acquire_locked:
  assumes "table_inv t" "uuid \<notin> lease_id ` outstanding t" "caps_respected caps t"
    and "cap_of caps kind \<le> 0 \<or> inflight kind (runtime_get acct t) < cap_of caps kind"
  shows "caps_respected caps (snd (acquire_account_lease_locked uuid m time acct kind tokens t))"
proof -
  obtain l t' where a: "acquire_account_lease_locked uuid m time acct kind tokens t = (l, t')" by fastforce
  note i = acquire_locked_spec(3) [OF assms(1,2) a]
  show ?thesis unfolding caps_respected_def a snd_conv
  proof (intro allI impI)
    fix kind' k
    assume "0 < cap_of caps kind'"
    then have "inflight kind' (runtime_get k t) \<le> cap_of caps kind'" using assms(3) by (simp add: caps_respected_def)
    then show "inflight kind' (runtime_get k t') \<le> cap_of caps kind'"
      using i [of kind' k] assms(4) \<open>0 < cap_of caps kind'\<close> by (auto split: if_splits)
  qed
qed

lemma effective_cap_le: "0 < cap_of caps kind \<Longrightarrow> effective_cap caps kind reserve \<le> cap_of caps kind"
  by (cases kind) (simp_all add: cap_of_def effective_cap_def)

text \<open>Acquiring with the caps: reclaimed leases are gone, and the new one is there when it is granted.\<close>

lemma acquire_spec:
  assumes "table_inv t" "uuid \<notin> lease_id ` outstanding t" "caps_respected caps t"
    and "acquire_account_lease settings caps now uuid m time acct kind tokens t = (r, t')"
  shows "table_inv t' \<and> caps_respected caps t'
     \<and> outstanding t' = {l \<in> outstanding t. \<not> is_stale settings now l} \<union> set_option r"
proof -
  define t1 where "t1 = runtime_setdefault acct (reclaim_stale_account_leases_locked settings now t)"
  note rs = reclaim_spec [OF assms(1), of settings now]
  have t1: "table_inv t1" "outstanding t1 = {l \<in> outstanding t. \<not> is_stale settings now l}" "caps_respected caps t1"
    unfolding t1_def using rs(1,2) caps_shrinks [OF assms(3) rs(3)] by (simp_all add: table_inv_setdefault)
  show ?thesis
  proof (cases "0 < cap_of caps kind \<and> inflight kind (runtime_get acct t1) \<ge> cap_of caps kind")
    case True
    then have "r = None" "t' = t1"
      using assms(4) by (simp_all add: acquire_account_lease_def Let_def t1_def)
    then show ?thesis using t1 by simp
  next
    case False
    obtain l where a: "acquire_account_lease_locked uuid m time acct kind tokens t1 = (l, t')" and r: "r = Some l"
      using assms(4) False by (auto simp: acquire_account_lease_def Let_def t1_def split: prod.splits)
    have fresh: "uuid \<notin> lease_id ` outstanding t1" using assms(2) t1(2) by auto
    have "caps_respected caps t'"
      using caps_acquire_locked [OF t1(1) fresh t1(3), of kind acct m time tokens] a False by auto
    then show ?thesis using acquire_locked_spec(1,2) [OF t1(1) fresh a] t1(2) r by simp
  qed
qed

lemma other_step:
  assumes "table_inv t" "rt = runtime_get k t" "rt_leases rt' = rt_leases rt"
    "inflight response_create rt' = inflight response_create rt" "inflight stream rt' = inflight stream rt"
    "rt_leased_tokens rt' = rt_leased_tokens rt"
  shows "table_inv (AList.update k rt' t)" and "shrinks t (AList.update k rt' t)"
proof -
  have l: "lease_list rt' = lease_list rt" using assms(3) by (simp add: lease_list_def)
  have "entry_inv k rt'"
    using entry_inv_get [OF assms(1), of k] assms(2,4-6) by (simp add: entry_inv_def l inflight_def)
  then show "table_inv (AList.update k rt' t)" by (rule table_inv_update [OF assms(1)])
  have i: "inflight kind rt' = inflight kind rt" for kind using assms(4,5) by (cases kind) simp_all
  show "shrinks t (AList.update k rt' t)" unfolding shrinks_def using assms(2) i by (auto simp: runtime_get_def update_conv)
qed

lemma lease_step_inv:
  assumes "lease_step settings caps t t'" "table_inv t \<and> caps_respected caps t"
  shows "table_inv t' \<and> caps_respected caps t'"
  using assms
proof (cases rule: lease_step.cases)
  case (acquire uuid now m time acct kind tokens)
  then show ?thesis using assms(2) acquire_spec [of t uuid caps settings now m time acct kind tokens] by (metis surjective_pairing)
next
  case (select uuid acct kind reserve t1 m time tokens)
  then have t1: "t1 = runtime_setdefault acct t"
      and ok: "cap_of caps kind \<le> 0 \<or> inflight kind (runtime_get acct t) < effective_cap caps kind reserve"
    by (auto simp: account_lease_allowed_locked_def Let_def)
  have t1': "table_inv t1" "uuid \<notin> lease_id ` outstanding t1" "caps_respected caps t1"
    using assms(2) select(2) by (simp_all add: t1 table_inv_setdefault)
  have "cap_of caps kind \<le> 0 \<or> inflight kind (runtime_get acct t1) < cap_of caps kind"
    using ok effective_cap_le [of caps kind reserve] by (simp add: t1) linarith
  then show ?thesis
    using caps_acquire_locked [OF t1', of kind acct m time tokens] acquire_locked_spec(1) [OF t1'(1,2), of m time acct kind tokens]
    by (metis select(1) surjective_pairing)
next
  case (release l)
  then show ?thesis using assms(2) release_locked_spec(1,3) caps_shrinks
    by (auto simp: release_account_lease_def split: option.split)
next
  case (reclaim now)
  then show ?thesis using assms(2) reclaim_spec(1,3) caps_shrinks by blast
next
  case (prune ids)
  then show ?thesis using assms(2) prune_spec(1,3) caps_shrinks by blast
next
  case (other rt k rt')
  then show ?thesis using assms(2) other_step [of t rt k rt'] caps_shrinks by blast
qed

interpretation lease_table:
  invariant_system "\<lambda>t. t = []" "lease_step settings caps" "\<lambda>t. table_inv t \<and> caps_respected caps t" for settings caps
proof unfold_locales
  have "inflight kind new_runtime = 0" for kind by (cases kind) (simp_all add: inflight_def new_runtime_def)
  then show "t = [] \<Longrightarrow> table_inv t \<and> caps_respected caps t" for t
    by (simp add: table_inv_def caps_respected_def runtime_get_def)
  show "table_inv t \<and> caps_respected caps t \<Longrightarrow> lease_step settings caps t t' \<Longrightarrow> table_inv t' \<and> caps_respected caps t'" for t t'
    by (rule lease_step_inv)
qed

section \<open>Properties\<close>

text \<open>C13: in every table that a sequence of acquisitions, selections, releases, reclamations and
  prunings reaches from the empty one, the counters of each account are exact: they are the
  numbers of its outstanding leases of either kind and the sum of their estimated tokens; and
  neither counter exceeds a positive cap.\<close>

theorem lease_accounting:
  assumes "(lease_step settings caps)\<^sup>*\<^sup>* [] t" "map_of t k = Some rt"
  shows "rt_inflight_response_creates rt = count_kind response_create (lease_list rt)
     \<and> rt_inflight_streams rt = count_kind stream (lease_list rt)
     \<and> rt_leased_tokens rt = sum_list (map (estimated_tokens \<circ> snd) (lease_list rt))
     \<and> (0 < response_create_limit caps \<longrightarrow> rt_inflight_response_creates rt \<le> response_create_limit caps)
     \<and> (0 < stream_limit caps \<longrightarrow> rt_inflight_streams rt \<le> stream_limit caps)"
proof -
  have i: "table_inv t" "caps_respected caps t" using lease_table.reachable_inv [OF refl assms(1)] by simp_all
  have "inflight kind rt = inflight kind (runtime_get k t)" for kind using assms(2) by (simp add: runtime_get_def)
  then have "0 < cap_of caps kind \<longrightarrow> inflight kind rt \<le> cap_of caps kind" for kind
    using i(2) by (simp add: caps_respected_def)
  from this [of response_create] this [of stream] show ?thesis
    using table_inv_entry [OF i(1) assms(2)] by (simp add: entry_inv_def inflight_def cap_of_def)
qed

theorem lease_accounting_witness:
  "\<exists>rt. map_of (snd (acquire_account_lease sample_lease_settings sample_caps 0 ''u1'' 0 0 ''a'' stream 7 [])) ''a'' = Some rt
     \<and> rt_inflight_streams rt = 1 \<and> rt_leased_tokens rt = 7 \<and> count_kind stream (lease_list rt) = 1"
proof -
  let ?t = "snd (acquire_account_lease sample_lease_settings sample_caps 0 ''u1'' 0 0 ''a'' stream 7 [])"
  have "lease_step sample_lease_settings sample_caps [] ?t"
    by (rule lease_step.acquire) (simp add: outstanding_def)
  then have reach: "(lease_step sample_lease_settings sample_caps)\<^sup>*\<^sup>* [] ?t" by blast
  have "\<exists>rt. map_of ?t ''a'' = Some rt \<and> rt_inflight_streams rt = 1 \<and> rt_leased_tokens rt = 7"
    by (simp add: acquire_account_lease_def acquire_account_lease_locked_def Let_def runtime_setdefault_def
        reclaim_stale_account_leases_locked_def runtime_get_def new_runtime_def sample_caps_def cap_of_def
        inflight_def add_lease_def set_inflight_def)
  then obtain rt where rt: "map_of ?t ''a'' = Some rt" "rt_inflight_streams rt = 1" "rt_leased_tokens rt = 7" by blast
  with lease_accounting [OF reach rt(1)] show ?thesis by auto
qed

text \<open>C28: the table implements a set of leases. Under the invariant, releasing removes exactly the
  lease with that account and identifier and says whether there was one; reclaiming keeps exactly
  the leases that are not stale; pruning loses none; acquiring with a new identifier reclaims the
  stale ones and adds the granted one.\<close>

theorem lease_table_refines_set:
  assumes "table_inv t" "caps_respected caps t" "uuid \<notin> lease_id ` outstanding t"
  shows "outstanding (snd (release_account_lease_locked l t))
         = {l' \<in> outstanding t. \<not> same_lease l l'}
     \<and> fst (release_account_lease_locked l t) = (\<exists>l' \<in> outstanding t. same_lease l l')
     \<and> outstanding (reclaim_stale_account_leases_locked settings now t) = {l' \<in> outstanding t. \<not> is_stale settings now l'}
     \<and> outstanding (prune_runtime ids t) = outstanding t
     \<and> outstanding (snd (acquire_account_lease settings caps now uuid m time acct kind tokens t))
         = {l' \<in> outstanding t. \<not> is_stale settings now l'}
           \<union> set_option (fst (acquire_account_lease settings caps now uuid m time acct kind tokens t))"
  using release_locked_spec(2) [OF assms(1)] release_returns [OF assms(1)] reclaim_spec(2) [OF assms(1)]
    prune_spec(2) [OF assms(1)] acquire_spec [OF assms(1,3,2) surjective_pairing] by blast

theorem lease_table_refines_set_witness:
  "outstanding (snd (acquire_account_lease sample_lease_settings sample_caps 0 ''u1'' 0 0 ''a'' stream 7 []))
     = {\<lparr>lease_id = ''u1'', lease_account_id = ''a'', lease_kind = stream, acquired_at = 0, estimated_tokens = 7\<rparr>}"
proof -
  have "caps_respected sample_caps []" "table_inv []"
    using lease_table.start_inv by blast+
  from lease_table_refines_set [OF this(2,1), of "''u1''" sample_lease sample_lease_settings 0 "[]" 0 0 "''a''" stream 7]
  show ?thesis
    by (simp add: outstanding_def acquire_account_lease_def acquire_account_lease_locked_def Let_def runtime_setdefault_def
        reclaim_stale_account_leases_locked_def runtime_get_def new_runtime_def sample_caps_def cap_of_def
        inflight_def add_lease_def set_inflight_def lease_list_def)
qed

text \<open>Releasing a lease is idempotent: the second release finds nothing and leaves the table, so
  a stream that is closed twice does not free the slot of another.\<close>

lemma release_idempotent:
  assumes "table_inv t"
  shows "release_account_lease_locked l (snd (release_account_lease_locked l t))
     = (False, snd (release_account_lease_locked l t))"
proof -
  let ?t = "snd (release_account_lease_locked l t)"
  note r = release_locked_spec [OF assms, where l = l]
  have "\<not> (\<exists>l' \<in> outstanding ?t. same_lease l l')" unfolding r(2) by blast
  then have "\<not> fst (release_account_lease_locked l ?t)" using release_returns [OF r(1)] by simp
  then show ?thesis
    by (cases "map_of (lease_list (runtime_get (lease_account_id l) ?t)) (lease_id l)")
      (simp_all add: release_missing release_present)
qed

end
