(* ===== verification/Account_State.thy ===== *)
theory Account_State
  imports Balancer_Health Usage_Quota Account_Leases
begin

text \<open>
  From the persisted account row, the latest usage rows and the runtime entry to the state that
  the selector works on, after \<open>_state_from_account\<close>, \<open>background_recovery_state_from_account\<close>,
  \<open>_build_states\<close> and their helpers in \<open>codex-lb/app/modules/proxy/load_balancer.py\<close>.

  A usage row is a record; \<open>ue_standard\<close> tells a \<open>UsageHistory\<close> row from an
  \<open>AdditionalUsageHistory\<close> row. The columns are as the schema declares them: times are naive UTC
  (microseconds), the used percentage is never null. The \<open>i\<close>-th reading of \<open>time.time()\<close> in the
  body is \<open>time i\<close>, and the readings of \<open>utcnow()\<close> are \<open>utc i\<close>, so no result depends on
  the clock standing still.
\<close>

section \<open>Data\<close>

record Account =
  acc_id :: string
  acc_status :: AccountStatus
  acc_deactivation_reason :: "string option"
  acc_reset_at :: "int option"
  acc_blocked_at :: "int option"
  acc_plan_type :: string
  acc_routing_policy :: "string option"
  acc_refresh_token :: string
  acc_security_work_authorized :: bool

record UsageEntry =
  ue_account_id :: string
  ue_standard :: bool
  ue_window :: "string option"
  ue_used_percent :: pyfloat
  ue_reset_at :: "int option"
  ue_window_minutes :: "int option"
  ue_recorded_at :: int
  ue_credits_has :: "bool option"
  ue_credits_unlimited :: "bool option"
  ue_credits_balance :: "pyfloat option"

record BalancerSettings =
  soft_drain_enabled :: bool
  tier_settings :: TierSettings
  proxy_account_inflight_penalty_pct :: pyfloat
  proxy_account_lease_token_weight :: pyfloat
  usage_refresh_interval_seconds :: int

record Clocks =
  time :: "nat \<Rightarrow> pyfloat"
  utc :: "nat \<Rightarrow> int"

definition SIBLING_FETCH_MARGIN_SECONDS :: pyfloat where
  "SIBLING_FETCH_MARGIN_SECONDS = 5"

section \<open>Helpers\<close>

definition normalize_account_routing_policy :: "string option \<Rightarrow> string" where
  "normalize_account_routing_policy p =
     (if p \<in> {Some ROUTING_POLICY_NORMAL, Some ROUTING_POLICY_BURN_FIRST, Some ROUTING_POLICY_PRESERVE}
      then the p else ROUTING_POLICY_NORMAL)"

definition usage_history_to_window_row :: "UsageEntry \<Rightarrow> UsageWindowRow" where
  "usage_history_to_window_row e =
     \<lparr>row_account_id = ue_account_id e, row_used_percent = Some (ue_used_percent e),
      row_reset_at = ue_reset_at e, row_window_minutes = ue_window_minutes e,
      row_recorded_at = Some (Naive (ue_recorded_at e))\<rparr>"

definition epoch :: "int \<Rightarrow> pyfloat" where
  "epoch micros = of_int micros / 1000000"

definition usage_entry_is_recent_enough :: "BalancerSettings \<Rightarrow> int \<Rightarrow> int \<Rightarrow> bool" where
  "usage_entry_is_recent_enough settings utcnow recorded_at =
     (recorded_at \<ge> utcnow - max (usage_refresh_interval_seconds settings * 2) 180 * 1000000)"

definition usage_entry_is_recent_available ::
  "BalancerSettings \<Rightarrow> int \<Rightarrow> UsageEntry option \<Rightarrow> bool" where
  "usage_entry_is_recent_available settings utcnow entry =
     (case entry of None \<Rightarrow> False
      | Some e \<Rightarrow> usage_entry_is_recent_enough settings utcnow (ue_recorded_at e) \<and> ue_used_percent e < 100)"

definition usage_entry_recorded_after_block :: "UsageEntry option \<Rightarrow> pyfloat \<Rightarrow> bool" where
  "usage_entry_recorded_after_block entry blocked =
     (case entry of None \<Rightarrow> False | Some e \<Rightarrow> epoch (ue_recorded_at e) > blocked)"

definition has_credit_data :: "UsageEntry \<Rightarrow> bool" where
  "has_credit_data e =
     (ue_standard e
      \<and> \<not> (ue_credits_has e = None \<and> ue_credits_unlimited e = None \<and> ue_credits_balance e = None))"

definition extract_credit_status ::
  "UsageEntry option list \<Rightarrow> bool option \<times> bool option \<times> pyfloat option" where
  "extract_credit_status entries =
     (case py_max_by ue_recorded_at (filter has_credit_data (map the (filter (\<lambda>e. e \<noteq> None) entries))) of
        Inl e \<Rightarrow> (None, None, None)
      | Inr e \<Rightarrow> (ue_credits_has e, ue_credits_unlimited e, ue_credits_balance e))"

definition is_monthly :: "UsageEntry \<Rightarrow> bool" where
  "is_monthly e = (ue_window e = Some ''monthly'')"

definition monthly_capacity :: "Account \<Rightarrow> pyfloat option" where
  "monthly_capacity acc = capacity_for_plan (Some (acc_plan_type acc)) ''monthly''"

definition select_long_window_entry ::
  "Account \<Rightarrow> UsageEntry option \<Rightarrow> UsageEntry option \<Rightarrow> UsageEntry option" where
  "select_long_window_entry acc monthly_entry secondary_entry =
     (if monthly_entry \<noteq> None \<and> monthly_capacity acc \<noteq> None then monthly_entry else secondary_entry)"

definition rate_limited_freshness_entry ::
  "pyfloat \<Rightarrow> Account \<Rightarrow> UsageEntry option \<Rightarrow> UsageEntry option \<Rightarrow> UsageEntry option" where
  "rate_limited_freshness_entry now acc primary_entry long_entry =
     (case long_entry of
        None \<Rightarrow> primary_entry
      | Some l \<Rightarrow>
          if is_monthly l \<and> monthly_capacity acc \<noteq> None then Some l
          else (case primary_entry of
                  None \<Rightarrow> Some l
                | Some p \<Rightarrow>
                    let primary_window_expired = (case ue_reset_at p of None \<Rightarrow> False | Some r \<Rightarrow> of_int r \<le> now);
                        long_window_available = ue_used_percent l < 100
                    in if primary_window_expired \<and> long_window_available \<and> ue_recorded_at l > ue_recorded_at p
                       then Some l else Some p))"

definition effective_blocked_at :: "Account \<Rightarrow> RuntimeState \<Rightarrow> pyfloat option" where
  "effective_blocked_at acc rt =
     (case acc_blocked_at acc of Some b \<Rightarrow> Some (of_int b) | None \<Rightarrow> rt_blocked_at rt)"

section \<open>The windows of an account\<close>

record Windows =
  w_primary_used :: "pyfloat option"
  w_primary_reset :: "int option"
  w_primary_minutes :: "int option"
  w_secondary_used :: "pyfloat option"
  w_secondary_reset :: "int option"
  w_long_entry :: "UsageEntry option"

definition uses_weekly_primary :: "UsageEntry option \<Rightarrow> UsageEntry option \<Rightarrow> bool" where
  "uses_weekly_primary primary_entry secondary_entry =
     (case primary_entry of None \<Rightarrow> False
      | Some p \<Rightarrow>
          should_use_weekly_primary (usage_history_to_window_row p)
            (map_option usage_history_to_window_row secondary_entry))"

definition effective_long_entry :: "Account \<Rightarrow> UsageEntry option \<Rightarrow> UsageEntry option \<Rightarrow> UsageEntry option" where
  "effective_long_entry acc primary_entry secondary_entry =
     (if uses_weekly_primary primary_entry secondary_entry then primary_entry
      else (case secondary_entry of None \<Rightarrow> None
            | Some s \<Rightarrow> if is_monthly s \<and> monthly_capacity acc = None then None else Some s))"

definition expire_sample :: "int \<Rightarrow> pyfloat option \<times> int option \<Rightarrow> pyfloat option \<times> int option" where
  "expire_sample now_epoch s =
     (case s of (Some u, Some r) \<Rightarrow> if r \<le> now_epoch then (Some 0, None) else s | _ \<Rightarrow> s)"

definition short_window_gone :: "UsageEntry option \<Rightarrow> UsageEntry option \<Rightarrow> bool" where
  "short_window_gone primary_entry long_entry =
     (case (primary_entry, long_entry) of
        (Some p, Some l) \<Rightarrow> epoch (ue_recorded_at l - ue_recorded_at p) > SIBLING_FETCH_MARGIN_SECONDS
      | _ \<Rightarrow> False)"

definition read_windows :: "int \<Rightarrow> Account \<Rightarrow> UsageEntry option \<Rightarrow> UsageEntry option \<Rightarrow> Windows" where
  "read_windows now_epoch acc primary_entry secondary_entry =
     (let weekly = uses_weekly_primary primary_entry secondary_entry;
          long = effective_long_entry acc primary_entry secondary_entry;
          p = (if weekly then None else primary_entry);
          (pu, pr) = expire_sample now_epoch (map_option ue_used_percent p, Option.bind p ue_reset_at);
          minutes = Option.bind p ue_window_minutes;
          (su, sr) = expire_sample now_epoch (map_option ue_used_percent long, Option.bind long ue_reset_at)
      in \<lparr>w_primary_used = pu, w_primary_reset = pr,
          w_primary_minutes =
            (if minutes \<noteq> None \<and> \<not> weekly \<and> short_window_gone primary_entry long then None else minutes),
          w_secondary_used = su, w_secondary_reset = sr, w_long_entry = long\<rparr>)"

section \<open>The block of an account\<close>

text \<open>Whether this replica saw the block itself and its local cooldown has passed.\<close>

definition locally_observed :: "pyfloat \<Rightarrow> RuntimeState \<Rightarrow> pyfloat \<Rightarrow> bool" where
  "locally_observed now rt blocked =
     ((case rt_cooldown_until rt of None \<Rightarrow> False | Some c \<Rightarrow> c \<le> now)
      \<and> (case rt_blocked_at rt of None \<Rightarrow> False | Some b \<Rightarrow> b \<ge> blocked))"

definition persisted_deadline :: "Account \<Rightarrow> pyfloat \<Rightarrow> pyfloat" where
  "persisted_deadline acc blocked =
     (if truthy (acc_reset_at acc) then of_int (the (acc_reset_at acc))
      else blocked + RATE_LIMITED_MIN_COOLDOWN_SECONDS)"

definition rate_limited_cooldown_deadline ::
  "Clocks \<Rightarrow> Account \<Rightarrow> RuntimeState \<Rightarrow> UsageEntry option \<Rightarrow> UsageEntry option \<Rightarrow> pyfloat option" where
  "rate_limited_cooldown_deadline clk acc rt primary_entry long =
     (case effective_blocked_at acc rt of
        None \<Rightarrow> None
      | Some b \<Rightarrow>
          if acc_status acc \<noteq> RATE_LIMITED then None
          else if \<not> time clk 1 < persisted_deadline acc b then None
          else if locally_observed (time clk 2) rt b
                  \<and> usage_entry_recorded_after_block
                      (rate_limited_freshness_entry (time clk 3) acc primary_entry long) b
          then None
          else Some (persisted_deadline acc b))"

definition long_window_quota_available :: "BalancerSettings \<Rightarrow> int \<Rightarrow> UsageEntry option \<Rightarrow> bool" where
  "long_window_quota_available settings utcnow long = usage_entry_is_recent_available settings utcnow long"

text \<open>Plans without a short window: their primary data is dropped, unless a rate limit is running.\<close>

definition drops_primary ::
  "BalancerSettings \<Rightarrow> Clocks \<Rightarrow> Account \<Rightarrow> RuntimeState \<Rightarrow> UsageEntry option \<Rightarrow> Windows \<Rightarrow> bool" where
  "drops_primary settings clk acc rt primary_entry w =
     (capacity_for_plan (Some (acc_plan_type acc)) ''primary'' = Some 0
      \<and> (acc_status acc \<noteq> RATE_LIMITED
          \<or> (rate_limited_cooldown_deadline clk acc rt primary_entry (w_long_entry w) = None
              \<and> ((w_primary_minutes w \<noteq> None \<and> \<not> is_primary_window_minutes (w_primary_minutes w)
                    \<and> long_window_quota_available settings (utc clk 0) (w_long_entry w))
                  \<or> (primary_entry = None
                      \<and> long_window_quota_available settings (utc clk 0) (w_long_entry w))))))"

definition status_seed :: "Account \<Rightarrow> bool \<Rightarrow> AccountStatus" where
  "status_seed acc drops = (if drops \<and> acc_status acc = RATE_LIMITED then ACTIVE else acc_status acc)"

definition db_reset_at :: "Account \<Rightarrow> bool \<Rightarrow> pyfloat option" where
  "db_reset_at acc drops =
     (if drops \<and> acc_status acc = RATE_LIMITED then None
      else if truthy (acc_reset_at acc) then map_option of_int (acc_reset_at acc) else None)"

definition seeded_reset :: "Account \<Rightarrow> RuntimeState \<Rightarrow> bool \<Rightarrow> pyfloat option" where
  "seeded_reset acc rt drops =
     (if status_seed acc drops \<in> {RATE_LIMITED, QUOTA_EXCEEDED} \<or> rt_blocked_at rt \<noteq> None
      then (if truthy (db_reset_at acc drops) then db_reset_at acc drops else rt_reset_at rt)
      else None)"

definition floored_reset :: "Clocks \<Rightarrow> Account \<Rightarrow> RuntimeState \<Rightarrow> bool \<Rightarrow> pyfloat option" where
  "floored_reset clk acc rt drops =
     (case (seeded_reset acc rt drops, effective_blocked_at acc rt) of
        (None, Some b) \<Rightarrow>
          if status_seed acc drops = RATE_LIMITED \<and> time clk 4 < b + RATE_LIMITED_MIN_COOLDOWN_SECONDS
          then Some (b + RATE_LIMITED_MIN_COOLDOWN_SECONDS) else None
      | (r, _) \<Rightarrow> r)"

definition quota_reset_superseded ::
  "BalancerSettings \<Rightarrow> Clocks \<Rightarrow> Account \<Rightarrow> RuntimeState \<Rightarrow> UsageEntry option \<Rightarrow> pyfloat option \<Rightarrow> bool" where
  "quota_reset_superseded settings clk acc rt long reset =
     (acc_status acc = QUOTA_EXCEEDED \<and> effective_blocked_at acc rt = None
      \<and> (case (reset, long) of
           (Some r, Some l) \<Rightarrow>
             r > time clk 5 \<and> usage_entry_is_recent_enough settings (utc clk 1) (ue_recorded_at l)
             \<and> ue_used_percent l < 100
             \<and> (case ue_reset_at l of None \<Rightarrow> False | Some lr \<Rightarrow> of_int lr > r)
         | _ \<Rightarrow> False))"

definition cooldown_ready :: "Clocks \<Rightarrow> Account \<Rightarrow> RuntimeState \<Rightarrow> bool" where
  "cooldown_ready clk acc rt =
     (case effective_blocked_at acc rt of
        None \<Rightarrow> False
      | Some b \<Rightarrow>
          if acc_status acc = QUOTA_EXCEEDED then time clk 6 \<ge> b + QUOTA_EXCEEDED_COOLDOWN_SECONDS
          else locally_observed (time clk 7) rt b)"

definition freshness_entry ::
  "Clocks \<Rightarrow> Account \<Rightarrow> UsageEntry option \<Rightarrow> UsageEntry option \<Rightarrow> UsageEntry option" where
  "freshness_entry clk acc primary_entry long =
     (if acc_status acc = QUOTA_EXCEEDED then long
      else if acc_status acc = RATE_LIMITED
      then rate_limited_freshness_entry (time clk 8) acc primary_entry long
      else None)"

definition effective_runtime_reset ::
  "BalancerSettings \<Rightarrow> Clocks \<Rightarrow> Account \<Rightarrow> RuntimeState \<Rightarrow> UsageEntry option \<Rightarrow> UsageEntry option \<Rightarrow> bool
     \<Rightarrow> pyfloat option" where
  "effective_runtime_reset settings clk acc rt primary_entry long drops =
     (let reset = floored_reset clk acc rt drops;
          reset1 = (if quota_reset_superseded settings clk acc rt long reset then None else reset)
      in if cooldown_ready clk acc rt
            \<and> usage_entry_recorded_after_block (freshness_entry clk acc primary_entry long)
                (the (effective_blocked_at acc rt))
         then None else reset1)"

section \<open>Status, tier and state\<close>

definition account_status ::
  "BalancerSettings \<Rightarrow> Clocks \<Rightarrow> Account \<Rightarrow> RuntimeState \<Rightarrow> UsageEntry option \<Rightarrow> UsageEntry option \<Rightarrow> Windows \<Rightarrow> bool
     \<Rightarrow> quota_result" where
  "account_status settings clk acc rt primary_entry secondary_entry w drops =
     (let seed = status_seed acc drops;
          pu = (if drops then None else w_primary_used w);
          (has, unlimited, balance) =
            extract_credit_status [primary_entry, w_long_entry w, secondary_entry];
          q = \<lparr>primary_used = pu, primary_reset = (if drops then None else w_primary_reset w),
               window_minutes_in = (if drops then None else w_primary_minutes w),
               runtime_reset = effective_runtime_reset settings clk acc rt primary_entry (w_long_entry w) drops,
               secondary_used = w_secondary_used w, secondary_reset = w_secondary_reset w,
               in_credits_has = has, in_credits_unlimited = unlimited, in_credits_balance = balance,
               infer_status_from_usage = False\<rparr>;
          (stat, used, reset) = apply_usage_quota q (\<lambda>i. time clk (9 + i)) seed;
          resetless = (seed = RATE_LIMITED \<and> db_reset_at acc drops = None \<and> rt_reset_at rt = None)
      in (if resetless \<and> pu = None \<and> stat = ACTIVE then RATE_LIMITED else stat, used, reset))"

definition next_blocked_at :: "Account \<Rightarrow> RuntimeState \<Rightarrow> AccountStatus \<Rightarrow> pyfloat option" where
  "next_blocked_at acc rt stat =
     (if stat = QUOTA_EXCEEDED then effective_blocked_at acc rt
      else if stat = RATE_LIMITED \<and> acc_status acc \<noteq> QUOTA_EXCEEDED then effective_blocked_at acc rt
      else None)"

text \<open>The health tier of the runtime entry, with the bookkeeping of the drain start and the probe
  streak.\<close>

definition update_tier ::
  "BalancerSettings \<Rightarrow> Clocks \<Rightarrow> Account \<Rightarrow> AccountStatus \<Rightarrow> pyfloat option \<Rightarrow> pyfloat option
     \<Rightarrow> RuntimeState \<Rightarrow> RuntimeState" where
  "update_tier settings clk acc stat used secondary rt =
     (if soft_drain_enabled settings then
        (let st = (new_account (acc_id acc) stat)\<lparr>used_percent := used, secondary_used_percent := secondary,
                    last_error_at := rt_last_error_at rt, error_count := rt_error_count rt,
                    health_tier := rt_health_tier rt,
                    routing_policy := normalize_account_routing_policy (acc_routing_policy acc)\<rparr>;
             new_tier = evaluate_health_tier (tier_settings settings) (or_num (Some (time clk 12)) (time clk 13))
                          (rt_drain_entered_at rt) (rt_probe_success_streak rt) st;
             rt1 = (if new_tier = HEALTH_TIER_DRAINING \<and> rt_health_tier rt \<noteq> HEALTH_TIER_DRAINING
                    then rt\<lparr>rt_drain_entered_at := Some (time clk 14), rt_probe_success_streak := 0\<rparr> else rt);
             rt2 = (if new_tier = HEALTH_TIER_HEALTHY
                    then rt1\<lparr>rt_drain_entered_at := None, rt_probe_success_streak := 0\<rparr> else rt1)
         in rt2\<lparr>rt_health_tier := new_tier\<rparr>)
      else rt\<lparr>rt_drain_entered_at := None, rt_probe_success_streak := 0, rt_health_tier := HEALTH_TIER_HEALTHY\<rparr>)"

definition pressure_pct :: "BalancerSettings \<Rightarrow> RuntimeState \<Rightarrow> pyfloat \<Rightarrow> pyfloat" where
  "pressure_pct settings rt capacity =
     of_int (rt_inflight_response_creates rt + rt_inflight_streams rt) * proxy_account_inflight_penalty_pct settings
     + (if capacity > 0 \<and> rt_leased_tokens rt > 0
        then rt_leased_tokens rt * proxy_account_lease_token_weight settings / capacity * 100 else 0)"

definition under_pressure :: "pyfloat \<Rightarrow> pyfloat option \<Rightarrow> pyfloat option" where
  "under_pressure pressure used = map_option (\<lambda>u. min 100 (u + pressure)) used"

definition state_from_account ::
  "BalancerSettings \<Rightarrow> Clocks \<Rightarrow> Account \<Rightarrow> UsageEntry option \<Rightarrow> UsageEntry option \<Rightarrow> RuntimeState
     \<Rightarrow> AccountState \<times> RuntimeState" where
  "state_from_account settings clk acc primary_entry secondary_entry rt =
     (let w = read_windows (py_int (time clk 0)) acc primary_entry secondary_entry;
          drops = drops_primary settings clk acc rt primary_entry w;
          (stat, used, reset) = account_status settings clk acc rt primary_entry secondary_entry w drops;
          rt' = update_tier settings clk acc stat used (w_secondary_used w) rt;
          long_window_key = (case w_long_entry w of Some l \<Rightarrow> if is_monthly l then ''monthly'' else ''secondary''
                             | None \<Rightarrow> ''secondary'');
          capacity = or_num (capacity_for_plan (Some (acc_plan_type acc)) long_window_key) 0;
          pressure = pressure_pct settings rt' capacity
      in ((new_account (acc_id acc) stat)
            \<lparr>used_percent := under_pressure pressure used, reset_at := reset,
             primary_reset_at := (if drops then None else w_primary_reset w),
             primary_window_minutes := (if drops then None else w_primary_minutes w),
             blocked_at := next_blocked_at acc rt stat, cooldown_until := rt_cooldown_until rt',
             secondary_used_percent := under_pressure pressure (w_secondary_used w),
             secondary_reset_at := w_secondary_reset w, last_error_at := rt_last_error_at rt',
             last_selected_at := rt_last_selected_at rt', error_count := rt_error_count rt',
             deactivation_reason := acc_deactivation_reason acc, plan_type := Some (acc_plan_type acc),
             capacity_credits := Some capacity, health_tier := rt_health_tier rt',
             inflight_response_creates := rt_inflight_response_creates rt',
             inflight_streams := rt_inflight_streams rt', leased_tokens := rt_leased_tokens rt',
             routing_policy := normalize_account_routing_policy (acc_routing_policy acc)\<rparr>,
          rt'))"

text \<open>The scheduler's evaluation of a blocked account without live runtime state; \<open>time 15\<close> to
  \<open>time 17\<close> and \<open>utc 2\<close> are its own readings.\<close>

definition background_runtime :: "Account \<Rightarrow> RuntimeState" where
  "background_runtime acc =
     new_runtime\<lparr>rt_blocked_at := map_option of_int (acc_blocked_at acc),
       rt_cooldown_until :=
         (if acc_status acc = RATE_LIMITED \<and> acc_blocked_at acc \<noteq> None
          then map_option of_int (acc_reset_at acc) else None)\<rparr>"

definition background_recovery_state_from_account ::
  "BalancerSettings \<Rightarrow> Clocks \<Rightarrow> Account \<Rightarrow> UsageEntry option \<Rightarrow> UsageEntry option \<Rightarrow> AccountState" where
  "background_recovery_state_from_account settings clk acc primary_entry secondary_entry =
     (let st = fst (state_from_account settings clk acc primary_entry secondary_entry (background_runtime acc));
          fresh = rate_limited_freshness_entry (time clk 15) acc primary_entry secondary_entry
      in if acc_status acc \<noteq> RATE_LIMITED then st
         else (case acc_reset_at acc of
                 None \<Rightarrow> st\<lparr>status := RATE_LIMITED, reset_at := None,
                          blocked_at := map_option of_int (acc_blocked_at acc), cooldown_until := None\<rparr>
               | Some r \<Rightarrow>
                   (case acc_blocked_at acc of
                      Some b \<Rightarrow>
                        if of_int r \<le> time clk 16 \<and> \<not> usage_entry_recorded_after_block fresh (of_int b)
                        then st\<lparr>status := RATE_LIMITED, reset_at := Some (of_int r),
                                blocked_at := Some (of_int b), cooldown_until := Some (of_int r)\<rparr>
                        else st
                    | None \<Rightarrow>
                        if of_int r \<le> time clk 17 \<and> \<not> usage_entry_is_recent_available settings (utc clk 2) fresh
                        then st\<lparr>status := RATE_LIMITED, reset_at := Some (of_int r),
                                blocked_at := None, cooldown_until := None\<rparr>
                        else st)))"

text \<open>The states of all accounts of a call; each account has its own readings of the clocks.\<close>

record SelectionRows =
  sr_accounts :: "Account list"
  latest_primary :: "string \<Rightarrow> UsageEntry option"
  latest_secondary :: "string \<Rightarrow> UsageEntry option"
  latest_monthly :: "string \<Rightarrow> UsageEntry option"
  routing_policy_override :: "string option"
  ignore_standard_quota_account_ids :: "string list"

definition build_state ::
  "BalancerSettings \<Rightarrow> Clocks \<Rightarrow> SelectionRows \<Rightarrow> runtime_table \<Rightarrow> Account \<Rightarrow> AccountState \<times> runtime_table" where
  "build_state settings clk rows table acc =
     (let i = acc_id acc;
          ignored = i \<in> set (ignore_standard_quota_account_ids rows);
          secondary = (if ignored then latest_secondary rows i
                       else select_long_window_entry acc (latest_monthly rows i) (latest_secondary rows i));
          table1 = runtime_setdefault i table;
          (st, rt) = state_from_account settings clk acc (latest_primary rows i) secondary (runtime_get i table1);
          st1 = (case routing_policy_override rows of
                   Some p \<Rightarrow> if ignored then st\<lparr>routing_policy := p\<rparr> else st
                 | None \<Rightarrow> st)
      in (st1\<lparr>ignore_standard_quota := ignored\<rparr>, AList.update i rt table1))"

fun build_states ::
  "BalancerSettings \<Rightarrow> (nat \<Rightarrow> Clocks) \<Rightarrow> SelectionRows \<Rightarrow> runtime_table \<Rightarrow> Account list
     \<Rightarrow> AccountState list \<times> runtime_table" where
  "build_states settings clks rows table [] = ([], table)"
| "build_states settings clks rows table (acc # accs) =
     (case build_state settings (clks 0) rows table acc of
        (st, table1) \<Rightarrow>
          (case build_states settings (\<lambda>n. clks (Suc n)) rows table1 accs of
             (sts, table2) \<Rightarrow> (st # sts, table2)))"

text \<open>What changes the tier of a runtime entry: an evaluation, a recorded success (which extends
  the streak of a probing account) and recorded errors (which end it). Everything else leaves the
  tier, the streak and the start of the drain alone.\<close>

definition note_success :: "RuntimeState \<Rightarrow> RuntimeState" where
  "note_success rt =
     (let rt1 = (if rt_error_count rt > 0
                 then rt\<lparr>rt_error_count := 0, rt_last_error_at := None, rt_version := rt_version rt + 1\<rparr> else rt)
      in if rt_health_tier rt1 = HEALTH_TIER_PROBING
         then rt1\<lparr>rt_probe_success_streak := rt_probe_success_streak rt1 + 1, rt_version := rt_version rt1 + 1\<rparr>
         else rt1)"

definition note_probe_failure :: "RuntimeState \<Rightarrow> RuntimeState" where
  "note_probe_failure rt =
     (if rt_health_tier rt = HEALTH_TIER_PROBING then rt\<lparr>rt_probe_success_streak := 0\<rparr> else rt)"

definition tier_inv :: "RuntimeState \<Rightarrow> bool" where
  "tier_inv rt =
     (rt_health_tier rt \<in> {HEALTH_TIER_HEALTHY, HEALTH_TIER_DRAINING, HEALTH_TIER_PROBING}
      \<and> (rt_health_tier rt \<noteq> HEALTH_TIER_PROBING \<longrightarrow> rt_probe_success_streak rt = 0)
      \<and> (rt_health_tier rt = HEALTH_TIER_HEALTHY \<longleftrightarrow> rt_drain_entered_at rt = None)
      \<and> 0 \<le> rt_probe_success_streak rt)"

definition sample_settings :: BalancerSettings where
  "sample_settings =
     \<lparr>soft_drain_enabled = True, tier_settings = default_tier_settings\<lparr>probe_success_streak_required := 1\<rparr>,
      proxy_account_inflight_penalty_pct = 2, proxy_account_lease_token_weight = 1,
      usage_refresh_interval_seconds = 60\<rparr>"

definition clock_at :: "pyfloat \<Rightarrow> Clocks" where
  "clock_at t = \<lparr>time = (\<lambda>i. t), utc = (\<lambda>i. \<lfloor>t * 1000000\<rfloor>)\<rparr>"

definition sample_account :: "AccountStatus \<Rightarrow> Account" where
  "sample_account s =
     \<lparr>acc_id = ''a'', acc_status = s, acc_deactivation_reason = None, acc_reset_at = Some 1031,
      acc_blocked_at = Some 1000, acc_plan_type = ''plus'', acc_routing_policy = None, acc_refresh_token = ''t'',
      acc_security_work_authorized = False\<rparr>"

section \<open>Lemmas\<close>

lemma state_from_account_status:
  "status (fst (state_from_account settings clk acc pe se rt))
     = fst (account_status settings clk acc rt pe se (read_windows (py_int (time clk 0)) acc pe se)
              (drops_primary settings clk acc rt pe (read_windows (py_int (time clk 0)) acc pe se)))"
  by (simp add: state_from_account_def new_account_def Let_def split: prod.split)

lemma state_from_account_fields:
  "account_id (fst (state_from_account settings clk acc pe se rt)) = acc_id acc"
  "reset_at (fst (state_from_account settings clk acc pe se rt))
     = snd (snd (account_status settings clk acc rt pe se (read_windows (py_int (time clk 0)) acc pe se)
              (drops_primary settings clk acc rt pe (read_windows (py_int (time clk 0)) acc pe se))))"
  "blocked_at (fst (state_from_account settings clk acc pe se rt))
     = next_blocked_at acc rt (status (fst (state_from_account settings clk acc pe se rt)))"
  "ignore_standard_quota (fst (state_from_account settings clk acc pe se rt)) = False"
  by (simp_all add: state_from_account_def new_account_def Let_def split: prod.split)

text \<open>The tier bookkeeping touches nothing that leases or blocks use.\<close>

lemma update_tier_frame [simp]:
  "rt_leases (update_tier settings clk acc s u v rt) = rt_leases rt"
  "inflight kind (update_tier settings clk acc s u v rt) = inflight kind rt"
  "rt_leased_tokens (update_tier settings clk acc s u v rt) = rt_leased_tokens rt"
  "rt_cooldown_until (update_tier settings clk acc s u v rt) = rt_cooldown_until rt"
  "rt_blocked_at (update_tier settings clk acc s u v rt) = rt_blocked_at rt"
  by (cases kind; simp add: update_tier_def Let_def inflight_def)+

lemma state_from_account_runtime:
  "\<exists>s u v. snd (state_from_account settings clk acc pe se rt) = update_tier settings clk acc s u v rt"
  by (auto simp: state_from_account_def Let_def split: prod.split)

text \<open>The result of the quota rules, with the one exception for rate limits that have no deadline.\<close>

lemma account_status_cases:
  obtains q where "\<not> infer_status_from_usage q"
    "runtime_reset q = effective_runtime_reset settings clk acc rt pe (w_long_entry w) drops"
    "account_status settings clk acc rt pe se w drops
       = apply_usage_quota q (\<lambda>i. time clk (9 + i)) (status_seed acc drops)
     \<or> status_seed acc drops = RATE_LIMITED
         \<and> fst (account_status settings clk acc rt pe se w drops) = RATE_LIMITED
         \<and> fst (apply_usage_quota q (\<lambda>i. time clk (9 + i)) (status_seed acc drops)) = ACTIVE"
proof -
  obtain has unlimited balance where c: "extract_credit_status [pe, w_long_entry w, se] = (has, unlimited, balance)"
    by (metis prod_cases3)
  define q where "q = \<lparr>primary_used = if drops then None else w_primary_used w,
      primary_reset = if drops then None else w_primary_reset w,
      window_minutes_in = if drops then None else w_primary_minutes w,
      runtime_reset = effective_runtime_reset settings clk acc rt pe (w_long_entry w) drops,
      secondary_used = w_secondary_used w, secondary_reset = w_secondary_reset w, in_credits_has = has,
      in_credits_unlimited = unlimited, in_credits_balance = balance, infer_status_from_usage = False\<rparr>"
  obtain s u r where a: "apply_usage_quota q (\<lambda>i. time clk (9 + i)) (status_seed acc drops) = (s, u, r)"
    by (metis prod_cases3)
  have "account_status settings clk acc rt pe se w drops
      = (if status_seed acc drops = RATE_LIMITED \<and> db_reset_at acc drops = None \<and> rt_reset_at rt = None
            \<and> (if drops then None else w_primary_used w) = None \<and> s = ACTIVE then RATE_LIMITED else s, u, r)"
    unfolding account_status_def Let_def c prod.case q_def [symmetric] a by simp
  then show ?thesis using that [of q] a by (simp add: q_def split: if_splits)
qed

lemma status_seed_cases: "status_seed acc drops \<in> {acc_status acc, ACTIVE}"
  by (simp add: status_seed_def)

lemma account_status_in: "fst (account_status settings clk acc rt pe se w drops) \<in> {acc_status acc, ACTIVE}"
proof -
  obtain q where q: "\<not> infer_status_from_usage q"
    "account_status settings clk acc rt pe se w drops = apply_usage_quota q (\<lambda>i. time clk (9 + i)) (status_seed acc drops)
     \<or> status_seed acc drops = RATE_LIMITED \<and> fst (account_status settings clk acc rt pe se w drops) = RATE_LIMITED"
    using account_status_cases [of settings clk acc rt pe w drops se] by metis
  show ?thesis
    using uninferred_status [OF q(1), of "\<lambda>i. time clk (9 + i)" "status_seed acc drops"] q(2) status_seed_cases [of acc drops]
    unfolding Let_def by (metis AccountStatus.distinct(1) insert_iff singletonD)
qed

lemma account_status_terminal:
  assumes "acc_status acc \<in> {REAUTH_REQUIRED, DEACTIVATED, PAUSED}"
  shows "fst (account_status settings clk acc rt pe se w drops) = acc_status acc"
proof -
  have seed: "status_seed acc drops = acc_status acc" using assms by (auto simp: status_seed_def)
  obtain q where "account_status settings clk acc rt pe se w drops
      = apply_usage_quota q (\<lambda>i. time clk (9 + i)) (acc_status acc)"
    using account_status_cases [of settings clk acc rt pe w drops se] assms unfolding seed by fastforce
  then show ?thesis using assms by (simp add: apply_usage_quota_def)
qed

text \<open>A replica that did not see the block holds the account until the persisted deadline.\<close>

lemma not_locally_observed:
  "rt_cooldown_until rt = None \<or> (\<forall>x. rt_blocked_at rt = Some x \<longrightarrow> x < b) \<Longrightarrow> \<not> locally_observed t rt b"
  by (auto simp: locally_observed_def split: option.splits)

lemma peer_holds_block:
  assumes "acc_status acc = RATE_LIMITED" "effective_blocked_at acc rt = Some b" "acc_reset_at acc = Some r" "r \<noteq> 0"
    and peer: "\<And>t. \<not> locally_observed t rt b" and "\<And>i. time clk i < of_int r"
  shows "\<not> drops_primary settings clk acc rt pe w"
    and "effective_runtime_reset settings clk acc rt pe long False = Some (of_int r)"
proof -
  have "persisted_deadline acc b = of_int r" using assms(3,4) by (simp add: persisted_deadline_def)
  then have "rate_limited_cooldown_deadline clk acc rt pe l = Some (of_int r)" for l
    using assms by (simp add: rate_limited_cooldown_deadline_def)
  then show "\<not> drops_primary settings clk acc rt pe w" using assms(1) by (simp add: drops_primary_def)
  have "floored_reset clk acc rt False = Some (of_int r)"
    using assms(1,3,4) by (simp add: floored_reset_def seeded_reset_def db_reset_at_def status_seed_def)
  moreover have "\<not> cooldown_ready clk acc rt" using assms(1,2) peer by (simp add: cooldown_ready_def)
  moreover have "\<not> quota_reset_superseded settings clk acc rt long (Some (of_int r))"
    using assms(1) by (simp add: quota_reset_superseded_def)
  ultimately show "effective_runtime_reset settings clk acc rt pe long False = Some (of_int r)"
    by (simp add: effective_runtime_reset_def Let_def)
qed

lemma peer_state:
  assumes "acc_status acc = RATE_LIMITED" "effective_blocked_at acc rt = Some b" "acc_reset_at acc = Some r" "r \<noteq> 0"
    and peer: "\<And>t. \<not> locally_observed t rt b" and clk: "\<And>i. time clk i < of_int r"
  shows "status (fst (state_from_account settings clk acc pe se rt)) = RATE_LIMITED"
    and "reset_at (fst (state_from_account settings clk acc pe se rt)) = Some (of_int r)"
    and "blocked_at (fst (state_from_account settings clk acc pe se rt)) = Some b"
proof -
  define w where "w = read_windows (py_int (time clk 0)) acc pe se"
  note hold = peer_holds_block [OF assms(1-4) peer clk]
  have nd: "drops_primary settings clk acc rt pe w = False" using hold(1) by simp
  have seed: "status_seed acc False = RATE_LIMITED" using assms(1) by (simp add: status_seed_def)
  obtain q where q: "\<not> infer_status_from_usage q" "runtime_reset q = Some (of_int r)"
    "account_status settings clk acc rt pe se w False = apply_usage_quota q (\<lambda>i. time clk (9 + i)) RATE_LIMITED
     \<or> fst (apply_usage_quota q (\<lambda>i. time clk (9 + i)) RATE_LIMITED) = ACTIVE"
    using account_status_cases [of settings clk acc rt pe w False se] unfolding seed hold(2) by metis
  have "pending (runtime_reset q) (time clk (9 + 2))" using q(2) assms(4) clk by (simp add: pending_def)
  then obtain u where u: "apply_usage_quota q (\<lambda>i. time clk (9 + i)) RATE_LIMITED = (RATE_LIMITED, u, Some (of_int r))"
    using uninferred_pending [OF q(1), of "\<lambda>i. time clk (9 + i)"] q(2) by auto
  then have a: "account_status settings clk acc rt pe se w False = (RATE_LIMITED, u, Some (of_int r))" using q(3) by simp
  show s: "status (fst (state_from_account settings clk acc pe se rt)) = RATE_LIMITED"
    unfolding state_from_account_status w_def [symmetric] nd a by simp
  show "reset_at (fst (state_from_account settings clk acc pe se rt)) = Some (of_int r)"
    unfolding state_from_account_fields w_def [symmetric] nd a by simp
  show "blocked_at (fst (state_from_account settings clk acc pe se rt)) = Some b"
    unfolding state_from_account_fields using s assms(1,2) by (simp add: next_blocked_at_def)
qed

text \<open>A runtime entry that is rewritten with the same leases is a step of the lease table.\<close>

lemma update_setdefault: "AList.update k v (runtime_setdefault k t) = AList.update k v t"
  by (induction t) (auto simp: runtime_setdefault_def split: option.split)

lemma build_state_table:
  "\<exists>se. snd (build_state settings clk rows t acc)
     = AList.update (acc_id acc)
         (snd (state_from_account settings clk acc (latest_primary rows (acc_id acc)) se (runtime_get (acc_id acc) t))) t"
  unfolding build_state_def Let_def runtime_get_setdefault case_prod_beta snd_conv update_setdefault by blast

lemma build_state_step: "lease_step ls caps t (snd (build_state settings clk rows t acc))"
proof -
  obtain se where se: "snd (build_state settings clk rows t acc) = AList.update (acc_id acc)
      (snd (state_from_account settings clk acc (latest_primary rows (acc_id acc)) se (runtime_get (acc_id acc) t))) t"
    using build_state_table by blast
  obtain s u v where "snd (state_from_account settings clk acc (latest_primary rows (acc_id acc)) se (runtime_get (acc_id acc) t))
      = update_tier settings clk acc s u v (runtime_get (acc_id acc) t)"
    using state_from_account_runtime by blast
  then show ?thesis unfolding se by (intro lease_step.other [OF refl]) simp_all
qed

lemma build_states_steps: "(lease_step ls caps)\<^sup>*\<^sup>* t (snd (build_states settings clks rows t accs))"
proof (induction accs arbitrary: t clks)
  case (Cons acc accs)
  have "lease_step ls caps t (snd (build_state settings (clks 0) rows t acc))" by (rule build_state_step)
  moreover have "snd (build_states settings clks rows t (acc # accs))
      = snd (build_states settings (\<lambda>n. clks (Suc n)) rows (snd (build_state settings (clks 0) rows t acc)) accs)"
    by (simp add: case_prod_beta)
  ultimately show ?case using Cons.IH by (metis converse_rtranclp_into_rtranclp)
qed simp

section \<open>The tier machine\<close>

inductive tier_step :: "BalancerSettings \<Rightarrow> RuntimeState \<Rightarrow> RuntimeState \<Rightarrow> bool" for settings where
  evaluate: "tier_step settings rt (update_tier settings clk acc s u v rt)"
| success: "tier_step settings rt (note_success rt)"
| failure: "tier_step settings rt (note_probe_failure rt)"
| elsewhere: "rt_health_tier rt' = rt_health_tier rt \<Longrightarrow> rt_drain_entered_at rt' = rt_drain_entered_at rt \<Longrightarrow>
    rt_probe_success_streak rt' = rt_probe_success_streak rt \<Longrightarrow> tier_step settings rt rt'"

inductive_cases tier_step_elim: "tier_step settings rt rt'"

lemma evaluate_tier_moves:
  assumes "health_tier st \<in> {HEALTH_TIER_HEALTHY, HEALTH_TIER_DRAINING, HEALTH_TIER_PROBING}"
  shows "evaluate_health_tier ts c d p st = health_tier st
    \<or> health_tier st = HEALTH_TIER_HEALTHY \<and> evaluate_health_tier ts c d p st = HEALTH_TIER_DRAINING
    \<or> health_tier st = HEALTH_TIER_DRAINING \<and> evaluate_health_tier ts c d p st = HEALTH_TIER_PROBING
    \<or> health_tier st = HEALTH_TIER_PROBING \<and> evaluate_health_tier ts c d p st = HEALTH_TIER_DRAINING
    \<or> health_tier st = HEALTH_TIER_PROBING \<and> evaluate_health_tier ts c d p st = HEALTH_TIER_HEALTHY
        \<and> probe_success_streak_required ts \<le> p"
  using assms by (auto simp: evaluate_health_tier_def tier_constants)

lemma update_tier_inv:
  assumes "tier_inv rt"
  shows "tier_inv (update_tier settings clk acc s u v rt)"
    and "soft_drain_enabled settings \<Longrightarrow> rt_health_tier rt \<noteq> HEALTH_TIER_HEALTHY \<Longrightarrow>
      rt_health_tier (update_tier settings clk acc s u v rt) = HEALTH_TIER_HEALTHY \<Longrightarrow>
      rt_health_tier rt = HEALTH_TIER_PROBING
      \<and> probe_success_streak_required (tier_settings settings) \<le> rt_probe_success_streak rt"
proof -
  define st where "st = (new_account (acc_id acc) s)\<lparr>used_percent := u, secondary_used_percent := v,
      last_error_at := rt_last_error_at rt, error_count := rt_error_count rt, health_tier := rt_health_tier rt,
      routing_policy := normalize_account_routing_policy (acc_routing_policy acc)\<rparr>"
  define n where "n = evaluate_health_tier (tier_settings settings) (or_num (Some (time clk 12)) (time clk 13))
      (rt_drain_entered_at rt) (rt_probe_success_streak rt) st"
  have h: "health_tier st = rt_health_tier rt" by (simp add: st_def)
  have mv: "n = rt_health_tier rt \<or> rt_health_tier rt = HEALTH_TIER_HEALTHY \<and> n = HEALTH_TIER_DRAINING
    \<or> rt_health_tier rt = HEALTH_TIER_DRAINING \<and> n = HEALTH_TIER_PROBING
    \<or> rt_health_tier rt = HEALTH_TIER_PROBING \<and> n = HEALTH_TIER_DRAINING
    \<or> rt_health_tier rt = HEALTH_TIER_PROBING \<and> n = HEALTH_TIER_HEALTHY
        \<and> probe_success_streak_required (tier_settings settings) \<le> rt_probe_success_streak rt"
    unfolding n_def h [symmetric] by (rule evaluate_tier_moves) (use assms in \<open>auto simp: h tier_inv_def\<close>)
  have r: "soft_drain_enabled settings \<Longrightarrow> update_tier settings clk acc s u v rt =
     (let rt1 = (if n = HEALTH_TIER_DRAINING \<and> rt_health_tier rt \<noteq> HEALTH_TIER_DRAINING
                    then rt\<lparr>rt_drain_entered_at := Some (time clk 14), rt_probe_success_streak := 0\<rparr> else rt);
          rt2 = (if n = HEALTH_TIER_HEALTHY
                    then rt1\<lparr>rt_drain_entered_at := None, rt_probe_success_streak := 0\<rparr> else rt1)
      in rt2\<lparr>rt_health_tier := n\<rparr>)"
    unfolding update_tier_def Let_def n_def st_def by simp
  show "tier_inv (update_tier settings clk acc s u v rt)"
  proof (cases "soft_drain_enabled settings")
    case True
    show ?thesis unfolding r [OF True] Let_def using assms mv by (auto simp: tier_inv_def tier_constants)
  next
    case False
    then show ?thesis by (simp add: update_tier_def tier_inv_def)
  qed
  show "rt_health_tier rt = HEALTH_TIER_PROBING
      \<and> probe_success_streak_required (tier_settings settings) \<le> rt_probe_success_streak rt"
    if "soft_drain_enabled settings" "rt_health_tier rt \<noteq> HEALTH_TIER_HEALTHY"
      "rt_health_tier (update_tier settings clk acc s u v rt) = HEALTH_TIER_HEALTHY"
    using that mv unfolding r [OF that(1)] Let_def by (auto simp: tier_constants split: if_splits)
qed

lemma note_inv:
  assumes "tier_inv rt"
  shows "tier_inv (note_success rt)"
    and "tier_inv (note_probe_failure rt)"
  using assms by (auto simp: note_success_def note_probe_failure_def Let_def tier_inv_def tier_constants)

lemma tier_step_inv: "tier_inv rt \<Longrightarrow> tier_step settings rt rt' \<Longrightarrow> tier_inv rt'"
  by (erule tier_step_elim) (simp_all add: update_tier_inv(1) note_inv, auto simp: tier_inv_def)

interpretation tier: invariant_system "\<lambda>rt. rt = new_runtime" "tier_step settings" tier_inv for settings
proof unfold_locales
  show "rt = new_runtime \<Longrightarrow> tier_inv rt" for rt by (simp add: tier_inv_def new_runtime_def tier_constants)
  show "tier_inv rt \<Longrightarrow> tier_step settings rt rt' \<Longrightarrow> tier_inv rt'" for rt rt' by (rule tier_step_inv)
qed

section \<open>Properties\<close>

text \<open>Usage data never blocks an account. The state built for the selector has the persisted
  status, or it has recovered from a rate limit or an exceeded quota to active; paused,
  deactivated and re-authentication statuses pass through; pressure never lifts a used
  percentage above 100.\<close>

lemma state_never_newly_blocked:
  "let st = fst (state_from_account settings clk acc pe se rt)
   in (status st = acc_status acc \<or> acc_status acc \<in> {RATE_LIMITED, QUOTA_EXCEEDED} \<and> status st = ACTIVE)
      \<and> default_to (used_percent st) 0 \<le> 100 \<and> default_to (secondary_used_percent st) 0 \<le> 100"
proof -
  define w where "w = read_windows (py_int (time clk 0)) acc pe se"
  define s where "s = fst (account_status settings clk acc rt pe se w (drops_primary settings clk acc rt pe w))"
  have "s \<in> {acc_status acc, ACTIVE}" unfolding s_def by (rule account_status_in)
  moreover have "acc_status acc \<in> {REAUTH_REQUIRED, DEACTIVATED, PAUSED} \<Longrightarrow> s = acc_status acc"
    unfolding s_def by (rule account_status_terminal)
  ultimately have "s = acc_status acc \<or> acc_status acc \<in> {RATE_LIMITED, QUOTA_EXCEEDED} \<and> s = ACTIVE"
    by (cases "acc_status acc") auto
  moreover have "default_to (under_pressure p u) 0 \<le> 100" for p u
    by (cases u) (simp_all add: under_pressure_def)
  then have "default_to (used_percent (fst (state_from_account settings clk acc pe se rt))) 0 \<le> 100"
    "default_to (secondary_used_percent (fst (state_from_account settings clk acc pe se rt))) 0 \<le> 100"
    by (simp_all add: state_from_account_def Let_def split: prod.split)
  ultimately show ?thesis
    unfolding Let_def state_from_account_status w_def [symmetric] s_def [symmetric] by blast
qed

text \<open>Replicas honour each other's rate limits. A replica that did not observe the current
  block itself (it has no cooldown, or an older block marker) keeps a rate-limited account blocked
  until the persisted deadline, for every plan, every usage row and every credit balance, and its
  selector skips the account until then.\<close>

lemma peer_honours_rate_limit:
  assumes "acc_status acc = RATE_LIMITED" "acc_blocked_at acc = Some b" "acc_reset_at acc = Some r" "r \<noteq> 0"
    and "rt_cooldown_until rt = None \<or> rt_blocked_at rt = None"
    and "\<And>i. time clk i < of_int r" and "c < of_int r"
    and "\<not> args_ignore_standard_quota args" "\<not> bypass_quota_exceeded args" "bypass_quota_exceeded_account_ids args = None"
  shows "let st = fst (state_from_account settings clk acc pe se rt)
     in status st = RATE_LIMITED \<and> reset_at st = Some (of_int r) \<and> blocked_at st = Some (of_int b)
        \<and> check_state c args st = (st, Skipped)"
proof -
  have b: "effective_blocked_at acc rt = Some (of_int b)" using assms(2) by (simp add: effective_blocked_at_def)
  have "\<not> locally_observed t rt (of_int b)" for t using assms(5) by (intro not_locally_observed) auto
  note st = peer_state [OF assms(1) b assms(3,4) this assms(6), of settings pe se]
  have "\<not> bypass_standard_quota args (fst (state_from_account settings clk acc pe se rt))"
    using assms(8-10) by (simp add: bypass_standard_quota_def state_from_account_fields(4))
  then show ?thesis
    using check_rate_limited_skipped [OF st(1,2) assms(7)] st unfolding Let_def by blast
qed

text \<open>A drained account comes back only through probing. In every runtime entry that
  evaluations, successes and failures reach from a new one, a step that makes an unhealthy account
  healthy starts from the probing tier with at least the required number of successes since the
  last failure or drain; the streak is zero outside probing, and the start of the drain is
  recorded exactly while the account is not healthy.\<close>

lemma tier_recovery_through_probing:
  assumes "(tier_step settings)\<^sup>*\<^sup>* new_runtime rt" "soft_drain_enabled settings" "tier_step settings rt rt'"
    and "rt_health_tier rt \<noteq> HEALTH_TIER_HEALTHY" "rt_health_tier rt' = HEALTH_TIER_HEALTHY"
  shows "rt_health_tier rt = HEALTH_TIER_PROBING
     \<and> probe_success_streak_required (tier_settings settings) \<le> rt_probe_success_streak rt
     \<and> rt_drain_entered_at rt \<noteq> None \<and> rt_drain_entered_at rt' = None \<and> rt_probe_success_streak rt' = 0"
proof -
  have i: "tier_inv rt" using tier.reachable_inv [OF refl assms(1)] .
  then have i': "tier_inv rt'" using assms(3) by (rule tier_step_inv)
  have "rt_health_tier rt = HEALTH_TIER_PROBING
      \<and> probe_success_streak_required (tier_settings settings) \<le> rt_probe_success_streak rt"
    using assms(3)
  proof (cases rule: tier_step.cases)
    case (evaluate clk acc s u v)
    then show ?thesis using update_tier_inv(2) [OF i assms(2,4)] assms(5) by simp
  next
    case success
    then show ?thesis using assms(4,5) by (simp add: note_success_def Let_def split: if_splits)
  next
    case failure
    then show ?thesis using assms(4,5) by (simp add: note_probe_failure_def split: if_splits)
  next
    case elsewhere
    then show ?thesis using assms(4,5) by simp
  qed
  then show ?thesis using i i' assms(5) by (auto simp: tier_inv_def tier_constants)
qed

end
