(* ===== verification/Tables.thy ===== *)
theory Tables
  imports Prelude
begin

text \<open>
  Database tables, for the components that keep their state in one.

  A table is a list of rows. An \<open>UPDATE ... WHERE\<close> changes the rows that satisfy its condition
  (\<open>update_where\<close>), a \<open>DELETE ... WHERE\<close> is \<open>filter\<close>; the lemmas say what a statement does to the rows
  that satisfy some other condition, which is what the loops over batches of rows need to end.
\<close>

definition update_where :: "('r \<Rightarrow> bool) \<Rightarrow> ('r \<Rightarrow> 'r) \<Rightarrow> 'r list \<Rightarrow> 'r list" where
  "update_where cond f rows = map (\<lambda>r. if cond r then f r else r) rows"

lemma update_where_none: "(\<And>r. r \<in> set rows \<Longrightarrow> \<not> cond r) \<Longrightarrow> update_where cond f rows = rows"
  by (auto simp: update_where_def intro!: map_idI)

lemma update_where_cong:
  "(\<And>r. r \<in> set rows \<Longrightarrow> cond r = cond' r) \<Longrightarrow> update_where cond f rows = update_where cond' f rows"
  by (simp add: update_where_def)

lemma filter_update_le:
  "(\<And>r. cond r \<Longrightarrow> P (f r) \<Longrightarrow> P r) \<Longrightarrow> length (filter P (update_where cond f rows)) \<le> length (filter P rows)"
  by (induction rows) (auto simp: update_where_def)

lemma filter_update_less:
  "(\<And>r. cond r \<Longrightarrow> \<not> P (f r)) \<Longrightarrow> r \<in> set rows \<Longrightarrow> cond r \<Longrightarrow> P r \<Longrightarrow>
     length (filter P (update_where cond f rows)) < length (filter P rows)"
proof (induction rows)
  case (Cons x xs)
  have le: "length (filter P (update_where cond f xs)) \<le> length (filter P xs)"
    using Cons.prems(1) by (intro filter_update_le) blast
  show ?case
  proof (cases "x = r")
    case True
    then show ?thesis using le Cons.prems by (simp add: update_where_def)
  next
    case False
    then show ?thesis using Cons by (auto simp: update_where_def)
  qed
qed simp

lemma foldl_measure_le:
  "(\<And>a x. m (f a x) \<le> m a) \<Longrightarrow> m (foldl f a xs) \<le> m a" for m :: "'b \<Rightarrow> nat"
proof (induction xs arbitrary: a)
  case (Cons x xs)
  have "m (foldl f (f a x) xs) \<le> m (f a x)" by (rule Cons.IH [OF Cons.prems])
  also have "\<dots> \<le> m a" by (rule Cons.prems)
  finally show ?case by simp
qed simp

end
