(* ===== verification/Sticky_Sessions.thy ===== *)
theory Sticky_Sessions
  imports Tables "HOL-Library.Sublist" "HOL-Library.Product_Lexorder" "HOL-Library.List_Lexorder" "HOL-Library.Char_ord"
begin

text \<open>
  Sticky sessions: the rows that pin a client's key to an account, after
  \<open>codex-lb/app/modules/proxy/sticky_repository.py\<close> and \<open>codex-lb/app/modules/sticky_sessions/service.py\<close>.

  A \<open>datetime\<close> is a count of microseconds. \<open>utcnow()\<close> and \<open>func.now()\<close> are arguments, and so is the
  e-mail address of an account, which the queries join; an account that does not exist has none.
  \<open>LIKE\<close> is that of SQLite on text that both sides have lowered.
\<close>

section \<open>Rows\<close>

datatype StickySessionKind = CODEX_SESSION | STICKY_THREAD | PROMPT_CACHE

record StickySession =
  ss_key :: string
  ss_kind :: StickySessionKind
  ss_account_id :: string
  ss_created_at :: int
  ss_updated_at :: int

definition sticky_id :: "StickySession \<Rightarrow> string \<times> StickySessionKind" where
  "sticky_id r = (ss_key r, ss_kind r)"

definition age_seconds :: "int \<Rightarrow> int" where
  "age_seconds n = n * 1000000"

section \<open>Statements\<close>

definition get_entry :: "string \<Rightarrow> StickySessionKind \<Rightarrow> StickySession list \<Rightarrow> StickySession option" where
  "get_entry key kind rows = (if key = [] then None else List.find (\<lambda>r. sticky_id r = (key, kind)) rows)"

definition delete_entry :: "string \<Rightarrow> StickySessionKind \<Rightarrow> StickySession list \<Rightarrow> bool \<times> StickySession list" where
  "delete_entry key kind rows =
     (if key = [] then (False, rows)
      else (list_ex (\<lambda>r. sticky_id r = (key, kind)) rows, filter (\<lambda>r. sticky_id r \<noteq> (key, kind)) rows))"

definition get_account_id ::
  "int \<Rightarrow> string \<Rightarrow> StickySessionKind \<Rightarrow> int option \<Rightarrow> StickySession list \<Rightarrow> string option \<times> StickySession list" where
  "get_account_id now key kind max_age_seconds rows =
     (if key = [] then (None, rows)
      else (case get_entry key kind rows of
              None \<Rightarrow> (None, rows)
            | Some row \<Rightarrow>
                (case max_age_seconds of
                   None \<Rightarrow> (Some (ss_account_id row), rows)
                 | Some m \<Rightarrow>
                     if ss_updated_at row < now - age_seconds m then (None, snd (delete_entry key kind rows))
                     else (Some (ss_account_id row), rows))))"

text \<open>The account of a new or changed row must exist: the foreign key.\<close>

definition upsert ::
  "int \<Rightarrow> string set \<Rightarrow> string \<Rightarrow> string \<Rightarrow> StickySessionKind \<Rightarrow> StickySession list \<Rightarrow> StickySession list result" where
  "upsert now accounts key account kind rows =
     (if account \<notin> accounts then Inl DatabaseError
      else if list_ex (\<lambda>r. sticky_id r = (key, kind)) rows
      then Inr (update_where (\<lambda>r. sticky_id r = (key, kind)) (\<lambda>r. r\<lparr>ss_account_id := account, ss_updated_at := now\<rparr>) rows)
      else Inr (rows @ [\<lparr>ss_key = key, ss_kind = kind, ss_account_id = account, ss_created_at = now, ss_updated_at = now\<rparr>]))"

definition DELETE_ENTRIES_CHUNK_SIZE :: nat where
  "DELETE_ENTRIES_CHUNK_SIZE = 250"

fun delete_chunks ::
  "(string \<times> StickySessionKind) list \<Rightarrow> StickySession list \<Rightarrow> (string \<times> StickySessionKind) list \<times> StickySession list" where
  "delete_chunks [] rows = ([], rows)"
| "delete_chunks (t # ts) rows =
     (let chunk = take DELETE_ENTRIES_CHUNK_SIZE (t # ts);
          hit = (\<lambda>r. sticky_id r \<in> set chunk)
      in case delete_chunks (drop (DELETE_ENTRIES_CHUNK_SIZE - 1) ts) (filter (\<lambda>r. \<not> hit r) rows) of
           (deleted, rows') \<Rightarrow> (map sticky_id (filter hit rows) @ deleted, rows'))"

definition delete_entries ::
  "(string \<times> StickySessionKind) list \<Rightarrow> StickySession list \<Rightarrow> (string \<times> StickySessionKind) list \<times> StickySession list" where
  "delete_entries entries rows = delete_chunks (remdups (filter (\<lambda>(key, kind). key \<noteq> []) entries)) rows"

definition purge_before :: "int \<Rightarrow> StickySessionKind option \<Rightarrow> StickySession list \<Rightarrow> nat \<times> StickySession list" where
  "purge_before cutoff kind rows =
     (let hit = (\<lambda>r. ss_updated_at r < cutoff \<and> (kind \<noteq> None \<longrightarrow> Some (ss_kind r) = kind))
      in (length (filter hit rows), filter (\<lambda>r. \<not> hit r) rows))"

definition purge_prompt_cache_before :: "int \<Rightarrow> StickySession list \<Rightarrow> nat \<times> StickySession list" where
  "purge_prompt_cache_before cutoff rows = purge_before cutoff (Some PROMPT_CACHE) rows"

section \<open>Queries\<close>

fun sql_like :: "string \<Rightarrow> string \<Rightarrow> bool" where
  "sql_like [] s = (s = [])"
| "sql_like (p # ps) [] = (p = CHR ''%'' \<and> sql_like ps [])"
| "sql_like (p # ps) (c # cs) =
     (if p = CHR ''%'' then sql_like ps (c # cs) \<or> sql_like (p # ps) cs
      else (p = CHR ''_'' \<or> p = c) \<and> sql_like ps cs)"

definition sql_contains :: "string \<Rightarrow> string \<Rightarrow> bool" where
  "sql_contains query text = sql_like (''%'' @ py_lower query @ ''%'') (py_lower text)"

record EntryFilter =
  ef_kind :: "StickySessionKind option"
  ef_updated_before :: "int option"
  ef_account_query :: "string option"
  ef_key_query :: "string option"

definition apply_filters :: "(string \<Rightarrow> string option) \<Rightarrow> EntryFilter \<Rightarrow> StickySession \<Rightarrow> bool" where
  "apply_filters email f r =
     (email (ss_account_id r) \<noteq> None
      \<and> (case ef_kind f of None \<Rightarrow> True | Some k \<Rightarrow> ss_kind r = k)
      \<and> (case ef_updated_before f of None \<Rightarrow> True | Some t \<Rightarrow> ss_updated_at r < t)
      \<and> (case ef_account_query f of None \<Rightarrow> True
         | Some q \<Rightarrow> q = [] \<or> sql_contains q (default_to (email (ss_account_id r)) []))
      \<and> (case ef_key_query f of None \<Rightarrow> True | Some q \<Rightarrow> q = [] \<or> sql_contains q (ss_key r)))"

text \<open>Rows in the order of \<open>updated_at\<close> and \<open>created_at\<close> descending, then key.\<close>

definition list_entry_identifiers ::
  "(string \<Rightarrow> string option) \<Rightarrow> EntryFilter \<Rightarrow> StickySession list \<Rightarrow> (string \<times> StickySessionKind) list" where
  "list_entry_identifiers email f rows =
     map sticky_id (sort_key (\<lambda>r. (- ss_updated_at r, - ss_created_at r, ss_key r)) (filter (apply_filters email f) rows))"

definition count_entries :: "(string \<Rightarrow> string option) \<Rightarrow> EntryFilter \<Rightarrow> StickySession list \<Rightarrow> nat" where
  "count_entries email f rows = length (filter (apply_filters email f) rows)"

datatype StickySessionSortBy = by_updated_at | by_created_at | by_account | by_key

text \<open>The secondary orders, then the primary one; a stable sort by the primary key of a list that has
  the secondary order is the \<open>ORDER BY\<close> of both.\<close>

definition secondary_order :: "StickySessionSortBy \<Rightarrow> StickySession list \<Rightarrow> StickySession list" where
  "secondary_order sort_by rows =
     (case sort_by of
        by_updated_at \<Rightarrow> sort_key (\<lambda>r. (- ss_created_at r, ss_key r)) rows
      | by_created_at \<Rightarrow> sort_key (\<lambda>r. (- ss_updated_at r, ss_key r)) rows
      | by_account \<Rightarrow> sort_key (\<lambda>r. (- ss_updated_at r, ss_key r)) rows
      | by_key \<Rightarrow> sort_key (\<lambda>r. (- ss_updated_at r, - ss_created_at r)) rows)"

definition sort_stable :: "('a \<Rightarrow> 'k::linorder) \<Rightarrow> bool \<Rightarrow> 'a list \<Rightarrow> 'a list" where
  "sort_stable key descending xs = (if descending then rev (sort_key key (rev xs)) else sort_key key xs)"

definition ordered_entries ::
  "(string \<Rightarrow> string option) \<Rightarrow> StickySessionSortBy \<Rightarrow> bool \<Rightarrow> StickySession list \<Rightarrow> StickySession list" where
  "ordered_entries email sort_by descending rows =
     (let second = secondary_order sort_by rows
      in case sort_by of
           by_updated_at \<Rightarrow> sort_stable ss_updated_at descending second
         | by_created_at \<Rightarrow> sort_stable ss_created_at descending second
         | by_account \<Rightarrow> sort_stable (\<lambda>r. default_to (email (ss_account_id r)) []) descending second
         | by_key \<Rightarrow> sort_stable ss_key descending second)"

definition list_entries ::
  "(string \<Rightarrow> string option) \<Rightarrow> EntryFilter \<Rightarrow> StickySessionSortBy \<Rightarrow> bool \<Rightarrow> nat \<Rightarrow> nat option \<Rightarrow> StickySession list
     \<Rightarrow> (StickySession \<times> string) list" where
  "list_entries email f sort_by descending offset limit rows =
     (let ordered = drop offset (ordered_entries email sort_by descending (filter (apply_filters email f) rows));
          page = (case limit of None \<Rightarrow> ordered | Some n \<Rightarrow> take n ordered)
      in map (\<lambda>r. (r, default_to (email (ss_account_id r)) [])) page)"

section \<open>Service\<close>

record StickySessionEntryData =
  ed_key :: string
  ed_display_name :: string
  ed_kind :: StickySessionKind
  ed_created_at :: int
  ed_updated_at :: int
  ed_expires_at :: "int option"
  ed_is_stale :: bool

definition to_entry :: "int \<Rightarrow> int \<Rightarrow> StickySession \<times> string \<Rightarrow> StickySessionEntryData" where
  "to_entry now ttl_seconds row =
     (let r = fst row;
          expires_at = (if ss_kind r = PROMPT_CACHE then Some (ss_updated_at r + age_seconds ttl_seconds) else None)
      in \<lparr>ed_key = ss_key r, ed_display_name = snd row, ed_kind = ss_kind r, ed_created_at = ss_created_at r,
          ed_updated_at = ss_updated_at r, ed_expires_at = expires_at,
          ed_is_stale = (case expires_at of None \<Rightarrow> False | Some t \<Rightarrow> t \<le> now)\<rparr>)"

record EntryQuery =
  eq_kind :: "StickySessionKind option"
  eq_stale_only :: bool
  eq_account_query :: "string option"
  eq_key_query :: "string option"

definition normalized_query :: "string option \<Rightarrow> string option" where
  "normalized_query q = (case q of None \<Rightarrow> None | Some x \<Rightarrow> if x = [] then None else Some (py_strip x))"

definition query_filter :: "int \<Rightarrow> EntryQuery \<Rightarrow> EntryFilter" where
  "query_filter stale_cutoff q =
     \<lparr>ef_kind = (if eq_stale_only q then Some PROMPT_CACHE else eq_kind q),
      ef_updated_before = (if eq_stale_only q then Some stale_cutoff else None),
      ef_account_query = normalized_query (eq_account_query q), ef_key_query = normalized_query (eq_key_query q)\<rparr>"

definition no_stale_kind :: "EntryQuery \<Rightarrow> bool" where
  "no_stale_kind q = (eq_stale_only q \<and> eq_kind q \<notin> {None, Some PROMPT_CACHE})"

definition count_stale_prompt_cache_entries ::
  "(string \<Rightarrow> string option) \<Rightarrow> StickySessionKind option \<Rightarrow> int \<Rightarrow> StickySession list \<Rightarrow> nat" where
  "count_stale_prompt_cache_entries email kind stale_cutoff rows =
     (if kind \<notin> {None, Some PROMPT_CACHE} then 0
      else count_entries email
             \<lparr>ef_kind = Some PROMPT_CACHE, ef_updated_before = Some stale_cutoff, ef_account_query = None, ef_key_query = None\<rparr>
             rows)"

record StickySessionListData =
  ld_entries :: "StickySessionEntryData list"
  ld_stale_prompt_cache_count :: nat
  ld_total :: nat
  ld_has_more :: bool

text \<open>\<open>now\<close> is the clock of the cutoff, \<open>clock\<close> the reading for each entry.\<close>

definition list_page ::
  "(string \<Rightarrow> string option) \<Rightarrow> int \<Rightarrow> (StickySession \<Rightarrow> int) \<Rightarrow> int \<Rightarrow> EntryQuery \<Rightarrow> StickySessionSortBy \<Rightarrow> bool \<Rightarrow> nat \<Rightarrow> nat
     \<Rightarrow> StickySession list \<Rightarrow> StickySessionListData" where
  "list_page email now clock ttl_seconds q sort_by descending offset limit rows =
     (let stale_cutoff = now - age_seconds ttl_seconds;
          stale = count_stale_prompt_cache_entries email (eq_kind q) stale_cutoff rows;
          f = query_filter stale_cutoff q;
          total = count_entries email f rows;
          page = list_entries email f sort_by descending offset (Some limit) rows;
          entries = map (\<lambda>row. to_entry (clock (fst row)) ttl_seconds row) page
      in if no_stale_kind q
         then \<lparr>ld_entries = [], ld_stale_prompt_cache_count = stale, ld_total = 0, ld_has_more = False\<rparr>
         else \<lparr>ld_entries = entries, ld_stale_prompt_cache_count = stale, ld_total = total,
               ld_has_more = offset + length entries < total\<rparr>)"

record StickySessionsDeleteData =
  dd_deleted :: "(string \<times> StickySessionKind) list"
  dd_failed :: "(string \<times> StickySessionKind) list"

text \<open>Each target once, in the order of first occurrence; every failure has the reason \<open>not_found\<close>.\<close>

definition delete_targets :: "(string \<times> StickySessionKind) list \<Rightarrow> (string \<times> StickySessionKind) list" where
  "delete_targets entries = rev (remdups (rev (filter (\<lambda>(key, kind). key \<noteq> []) entries)))"

definition delete_sessions ::
  "(string \<times> StickySessionKind) list \<Rightarrow> StickySession list \<Rightarrow> StickySessionsDeleteData \<times> StickySession list" where
  "delete_sessions entries rows =
     (let targets = delete_targets entries
      in case delete_entries targets rows of
           (deleted, rows') \<Rightarrow>
             (\<lparr>dd_deleted = deleted, dd_failed = filter (\<lambda>t. t \<notin> set deleted) targets\<rparr>, rows'))"

definition delete_filtered_entries ::
  "(string \<Rightarrow> string option) \<Rightarrow> int \<Rightarrow> int \<Rightarrow> EntryQuery \<Rightarrow> StickySession list \<Rightarrow> nat \<times> StickySession list" where
  "delete_filtered_entries email now ttl_seconds q rows =
     (if no_stale_kind q then (0, rows)
      else (case delete_entries (list_entry_identifiers email (query_filter (now - age_seconds ttl_seconds) q) rows) rows of
              (deleted, rows') \<Rightarrow> (length deleted, rows')))"

definition purge_entries :: "int \<Rightarrow> int \<Rightarrow> StickySession list \<Rightarrow> nat \<times> StickySession list" where
  "purge_entries now ttl_seconds rows = purge_prompt_cache_before (now - age_seconds ttl_seconds) rows"

section \<open>Lemmas\<close>

lemma delete_chunks_rows: "snd (delete_chunks ts rows) = filter (\<lambda>r. sticky_id r \<notin> set ts) rows"
proof (induction ts rows rule: delete_chunks.induct)
  case (2 t ts rows)
  let ?n = DELETE_ENTRIES_CHUNK_SIZE
  have n: "?n = Suc (?n - 1)" by (simp add: DELETE_ENTRIES_CHUNK_SIZE_def)
  have "drop ?n (t # ts) = drop (?n - 1) ts" by (subst n) simp
  then have "set (t # ts) = set (take ?n (t # ts)) \<union> set (drop (?n - 1) ts)"
    by (metis append_take_drop_id set_append)
  then have "filter (\<lambda>r. sticky_id r \<notin> set (t # ts)) rows
      = filter (\<lambda>r. sticky_id r \<notin> set (drop (?n - 1) ts)) (filter (\<lambda>r. \<not> sticky_id r \<in> set (take ?n (t # ts))) rows)"
    unfolding filter_filter by (intro filter_cong) auto
  then show ?case using 2 by (simp add: Let_def split_beta del: set_simps take_Cons')
qed simp

lemma delete_chunks_count: "length (fst (delete_chunks ts rows)) + length (snd (delete_chunks ts rows)) = length rows"
proof (induction ts rows rule: delete_chunks.induct)
  case (2 t ts rows)
  let ?hit = "\<lambda>r. sticky_id r \<in> set (take DELETE_ENTRIES_CHUNK_SIZE (t # ts))"
  have "length (filter ?hit rows) + length (filter (\<lambda>r. \<not> ?hit r) rows) = length rows" by (rule sum_length_filter_compl)
  then show ?case using 2 [OF refl refl] unfolding delete_chunks.simps Let_def split_beta by simp
qed simp

lemma delete_entries_rows:
  assumes "\<And>r. r \<in> set rows \<Longrightarrow> ss_key r \<noteq> []"
  shows "snd (delete_entries ts rows) = filter (\<lambda>r. sticky_id r \<notin> set ts) rows"
    and "length (fst (delete_entries ts rows)) = length (filter (\<lambda>r. sticky_id r \<in> set ts) rows)"
proof -
  have hit: "sticky_id r \<in> set (remdups (filter (\<lambda>(key, kind). key \<noteq> []) ts)) \<longleftrightarrow> sticky_id r \<in> set ts"
    if "r \<in> set rows" for r
    using assms [OF that] by (simp add: sticky_id_def)
  then show rows: "snd (delete_entries ts rows) = filter (\<lambda>r. sticky_id r \<notin> set ts) rows"
    unfolding delete_entries_def delete_chunks_rows by (intro filter_cong) auto
  have "length (fst (delete_entries ts rows)) + length (filter (\<lambda>r. sticky_id r \<notin> set ts) rows) = length rows"
    using delete_chunks_count [of "remdups (filter (\<lambda>(key, kind). key \<noteq> []) ts)" rows] rows by (simp add: delete_entries_def)
  then show "length (fst (delete_entries ts rows)) = length (filter (\<lambda>r. sticky_id r \<in> set ts) rows)"
    using sum_length_filter_compl [of "\<lambda>r. sticky_id r \<in> set ts" rows] by simp
qed

lemma identifiers_hit:
  assumes "distinct (map sticky_id rows)" "r \<in> set rows"
  shows "sticky_id r \<in> set (list_entry_identifiers email f rows) \<longleftrightarrow> apply_filters email f r"
  using assms by (auto simp: list_entry_identifiers_def distinct_map inj_on_def)

text \<open>A pattern without percent sign matches the text that contains it, an underscore standing for any character.\<close>

definition matches_key :: "string \<Rightarrow> string \<Rightarrow> bool" where
  "matches_key text key = (\<exists>part. sublist part key \<and> list_all2 (\<lambda>p c. p = CHR ''_'' \<or> p = c) text part)"

lemma like_percent: "sql_like ''%'' s"
  by (induction s) simp_all

lemma prefix_match_Cons:
  "(\<exists>part. prefix part (c # cs) \<and> list_all2 R (p # ps) part) \<longleftrightarrow> R p c \<and> (\<exists>part. prefix part cs \<and> list_all2 R ps part)"
  by (auto simp: list_all2_Cons1 prefix_Cons)

lemma like_prefix:
  "CHR ''%'' \<notin> set q \<Longrightarrow> sql_like (q @ ''%'') s \<longleftrightarrow> (\<exists>part. prefix part s \<and> list_all2 (\<lambda>p c. p = CHR ''_'' \<or> p = c) q part)"
proof (induction q arbitrary: s)
  case (Cons p ps)
  show ?case
  proof (cases s)
    case (Cons c cs)
    then show ?thesis using Cons.IH [of cs] Cons.prems unfolding Cons prefix_match_Cons by auto
  qed (use Cons.prems in auto)
qed (simp add: like_percent)

lemma like_anywhere:
  assumes "\<And>s. sql_like ps s \<longleftrightarrow> (\<exists>part. prefix part s \<and> R part)"
  shows "sql_like (CHR ''%'' # ps) s \<longleftrightarrow> (\<exists>part. sublist part s \<and> R part)"
proof (induction s)
  case Nil
  then show ?case using assms by simp
next
  case (Cons c cs)
  then show ?case using assms by (auto simp: sublist_Cons_right)
qed

lemma contains_matches:
  assumes "CHR ''%'' \<notin> set (py_lower q)"
  shows "sql_contains q text \<longleftrightarrow> matches_key (py_lower q) (py_lower text)"
  unfolding sql_contains_def matches_key_def append_Cons append_Nil by (rule like_anywhere) (rule like_prefix [OF assms])

lemma lower_no_percent: "CHR ''%'' \<notin> set text \<Longrightarrow> CHR ''%'' \<notin> set (py_lower (py_strip text))"
proof -
  have "c = CHR ''%''" if "lower_char c = CHR ''%''" for c
  proof (rule ccontr)
    assume "c \<noteq> CHR ''%''"
    with that have c: "65 \<le> (of_char c :: nat)" "of_char c \<le> (90 :: nat)" "char_of (of_char c + 32 :: nat) = CHR ''%''"
      by (auto simp: lower_char_def Let_def split: if_splits)
    then have "of_char (char_of (of_char c + 32 :: nat) :: char) = (37 :: nat)" by simp
    with c(1,2) show False by simp
  qed
  moreover have "set (py_strip text) \<subseteq> set text"
    by (auto simp: py_strip_def dest!: set_dropWhileD)
  ultimately show "CHR ''%'' \<notin> set text \<Longrightarrow> CHR ''%'' \<notin> set (py_lower (py_strip text))"
    by (metis (no_types, lifting) image_iff list.set_map py_lower_def subsetD)
qed

section \<open>Properties\<close>

text \<open>Deleting by a filter deletes exactly the entries that the list shows and counts under the same
  filter, however many chunks the identifiers take, and every other entry stays.\<close>

lemma delete_filtered_exact:
  assumes "distinct (map sticky_id rows)" "\<forall>r \<in> set rows. ss_key r \<noteq> []" "\<not> no_stale_kind q"
  shows "delete_filtered_entries email now ttl q rows
    = (ld_total (list_page email now clock ttl q sort_by descending offset limit rows),
       filter (\<lambda>r. \<not> apply_filters email (query_filter (now - age_seconds ttl) q) r) rows)"
proof -
  let ?f = "query_filter (now - age_seconds ttl) q"
  let ?ids = "list_entry_identifiers email ?f rows"
  have k: "ss_key r \<noteq> []" if "r \<in> set rows" for r using assms(2) that by blast
  note del = delete_entries_rows [where ts = ?ids, OF k]
  have "filter (\<lambda>r. sticky_id r \<in> set ?ids) rows = filter (apply_filters email ?f) rows"
    "filter (\<lambda>r. sticky_id r \<notin> set ?ids) rows = filter (\<lambda>r. \<not> apply_filters email ?f r) rows"
    using identifiers_hit [OF assms(1)] by (auto intro!: filter_cong)
  then show ?thesis
    using assms(3) del by (simp add: delete_filtered_entries_def list_page_def Let_def count_entries_def split_beta)
qed

text \<open>C35: the text of a search for keys is not escaped. For a text without percent sign that is not blank, the sessions listed,
  counted and deleted by a filter with that text are exactly those that pass the filter's other conditions and whose key contains, letters
  compared without case, a part that is the text except that any character may stand where the text has an
  underscore. So a text with an underscore also lists and deletes sessions whose key does not contain it. (Keys are not
  empty and no two rows share key and kind, as the table has it; the search text is stripped.)\<close>

theorem key_query_wildcards:
  assumes "distinct (map sticky_id rows)" "\<forall>r \<in> set rows. ss_key r \<noteq> []" "\<not> no_stale_kind q"
    and "eq_key_query q = Some text" "py_strip text \<noteq> []" "CHR ''%'' \<notin> set text"
    and "hit = (\<lambda>r. apply_filters email (query_filter (now - age_seconds ttl) (q\<lparr>eq_key_query := None\<rparr>)) r
                  \<and> matches_key (py_lower (py_strip text)) (py_lower (ss_key r)))"
  shows "delete_filtered_entries email now ttl q rows = (length (filter hit rows), filter (\<lambda>r. \<not> hit r) rows)
    \<and> list_page email now clock ttl q sort_by descending offset limit rows
      = \<lparr>ld_entries = map (\<lambda>r. to_entry (clock r) ttl (r, default_to (email (ss_account_id r)) []))
                        (take limit (drop offset (ordered_entries email sort_by descending (filter hit rows)))),
         ld_stale_prompt_cache_count = count_stale_prompt_cache_entries email (eq_kind q) (now - age_seconds ttl) rows,
         ld_total = length (filter hit rows),
         ld_has_more = offset + min limit (length (filter hit rows) - offset) < length (filter hit rows)\<rparr>"
proof -
  have "text \<noteq> []" using assms(5) by (auto simp: py_strip_def)
  then have f: "apply_filters email (query_filter (now - age_seconds ttl) q) = hit"
    using assms(4,5) contains_matches [OF lower_no_percent [OF assms(6)]]
    by (auto simp: assms(7) fun_eq_iff apply_filters_def query_filter_def normalized_query_def)
  have total: "length (ordered_entries email sort_by descending xs) = length xs" for xs
    by (simp add: ordered_entries_def secondary_order_def sort_stable_def Let_def split: StickySessionSortBy.split)
  show ?thesis
    using assms(3) delete_filtered_exact [OF assms(1-3), of email now ttl clock sort_by descending offset limit]
    by (simp add: f list_page_def list_entries_def count_entries_def Let_def o_def total min.commute)
qed

definition sample_sessions :: "StickySession list" where
  "sample_sessions =
     [\<lparr>ss_key = ''a_b'', ss_kind = STICKY_THREAD, ss_account_id = ''a'', ss_created_at = 0, ss_updated_at = 5\<rparr>,
      \<lparr>ss_key = ''Axb'', ss_kind = STICKY_THREAD, ss_account_id = ''a'', ss_created_at = 0, ss_updated_at = 5\<rparr>,
      \<lparr>ss_key = ''ab'', ss_kind = STICKY_THREAD, ss_account_id = ''a'', ss_created_at = 0, ss_updated_at = 5\<rparr>]"

definition sample_key_query :: EntryQuery where
  "sample_key_query = \<lparr>eq_kind = None, eq_stale_only = False, eq_account_query = None, eq_key_query = Some ''a_b''\<rparr>"

theorem key_query_wildcards_witness:
  "fst (delete_filtered_entries (\<lambda>i. Some ''m'') 9 1 sample_key_query sample_sessions)
     = length (filter (\<lambda>r. apply_filters (\<lambda>i. Some ''m'') (query_filter (9 - age_seconds 1) (sample_key_query\<lparr>eq_key_query := None\<rparr>)) r
          \<and> matches_key ''a_b'' (py_lower (ss_key r))) sample_sessions)
   \<and> map ss_key (snd (delete_filtered_entries (\<lambda>i. Some ''m'') 9 1 sample_key_query sample_sessions)) = [''ab'']"
proof
  have "distinct (map sticky_id sample_sessions)" "\<forall>r \<in> set sample_sessions. ss_key r \<noteq> []" "\<not> no_stale_kind sample_key_query"
    "eq_key_query sample_key_query = Some ''a_b''" "py_strip ''a_b'' \<noteq> []" "CHR ''%'' \<notin> set ''a_b''"
    by code_simp+
  moreover have "py_lower (py_strip ''a_b'') = ''a_b''" by code_simp
  ultimately show "fst (delete_filtered_entries (\<lambda>i. Some ''m'') 9 1 sample_key_query sample_sessions)
     = length (filter (\<lambda>r. apply_filters (\<lambda>i. Some ''m'') (query_filter (9 - age_seconds 1) (sample_key_query\<lparr>eq_key_query := None\<rparr>)) r
          \<and> matches_key ''a_b'' (py_lower (ss_key r))) sample_sessions)"
    using key_query_wildcards [of sample_sessions sample_key_query "''a_b''" _ "\<lambda>i. Some ''m''" 9 1, OF _ _ _ _ _ _ refl] by simp
  show "map ss_key (snd (delete_filtered_entries (\<lambda>i. Some ''m'') 9 1 sample_key_query sample_sessions)) = [''ab'']"
    by code_simp
qed

end
