(* ===== verification/Durable_Bridge.thy ===== *)
theory Durable_Bridge
  imports Tables "HOL-Library.Product_Lexorder"
begin

text \<open>
  The durable sessions of the HTTP bridge, after
  \<open>codex-lb/app/modules/proxy/durable_bridge_repository.py\<close> and \<open>durable_bridge_coordinator.py\<close>, with their tables in
  \<open>codex-lb/app/db/models.py\<close>: which replica owns a session and until when, and the names (turn state, previous
  response, session header) by which a later request finds it.

  Renewals, releases and registrations are one statement, or one transaction that starts with an update of the row, and
  so one step each. A claim is one step by the lock of the row that its read takes; SQLite has no such lock, and there no
  other write of the row is assumed between the read and the commit of a claim. Draining takes no lock: its read and its
  write are two moments, with anything in between. A batch of a purge checks its
  conditions again when it deletes. A
  \<open>datetime\<close> is a count of microseconds; \<open>utcnow()\<close>, the identifier of a new row and the hash of a
  value are arguments. Columns that no statement reads are left out.
\<close>

section \<open>Rows\<close>

datatype HttpBridgeSessionState = ACTIVE_SESSION | DRAINING_SESSION | CLOSED_SESSION

record DurableBridgeSessionSnapshot =
  hb_id :: string
  hb_session_key_kind :: string
  hb_session_key_value :: string
  hb_session_key_hash :: string
  hb_api_key_scope :: string
  hb_owner_instance_id :: "string option"
  hb_owner_epoch :: int
  hb_lease_expires_at :: "int option"
  hb_state :: HttpBridgeSessionState
  hb_account_id :: "string option"
  hb_model :: "string option"
  hb_service_tier :: "string option"
  hb_latest_turn_state :: "string option"
  hb_latest_response_id :: "string option"
  hb_latest_input_item_count :: "int option"
  hb_latest_input_full_fingerprint :: "string option"
  hb_closed_at :: "int option"

text \<open>The table has two more columns than the snapshot.\<close>

record HttpBridgeSessionRecord = DurableBridgeSessionSnapshot +
  hb_updated_at :: int
  hb_last_seen_at :: int

record HttpBridgeSessionAlias =
  al_session_id :: string
  al_alias_kind :: string
  al_alias_value :: string
  al_alias_hash :: string
  al_api_key_scope :: string

record BridgeStore =
  bs_sessions :: "HttpBridgeSessionRecord list"
  bs_aliases :: "HttpBridgeSessionAlias list"

definition to_snapshot :: "HttpBridgeSessionRecord \<Rightarrow> DurableBridgeSessionSnapshot" where
  "to_snapshot r = DurableBridgeSessionSnapshot.truncate r"

definition ANONYMOUS_API_KEY_SCOPE :: string where
  "ANONYMOUS_API_KEY_SCOPE = ''__anonymous__''"

definition durable_bridge_api_key_scope :: "string option \<Rightarrow> string" where
  "durable_bridge_api_key_scope api_key_id =
     (case api_key_id of None \<Rightarrow> ANONYMOUS_API_KEY_SCOPE
      | Some k \<Rightarrow> (let stripped = py_strip k in if stripped = [] then ANONYMOUS_API_KEY_SCOPE else stripped))"

definition PURGE_CLOSED_BATCH_SIZE :: nat where
  "PURGE_CLOSED_BATCH_SIZE = 500"

definition SESSION_ID_LOOKUP_CHUNK_SIZE :: nat where
  "SESSION_ID_LOOKUP_CHUNK_SIZE = 500"

definition lease_deadline :: "int \<Rightarrow> pyfloat \<Rightarrow> int" where
  "lease_deadline now lease_ttl_seconds = now + py_round (max 1 lease_ttl_seconds * 1000000)"

section \<open>Reading\<close>

definition first_row :: "'r list \<Rightarrow> 'r option" where
  "first_row rows = (case rows of [] \<Rightarrow> None | r # rs \<Rightarrow> Some r)"

definition has_session_key :: "string \<Rightarrow> string \<Rightarrow> string \<Rightarrow> HttpBridgeSessionRecord \<Rightarrow> bool" where
  "has_session_key kind key_hash scope r =
     (hb_session_key_kind r = kind \<and> hb_session_key_hash r = key_hash \<and> hb_api_key_scope r = scope)"

definition get_session ::
  "(string \<Rightarrow> string) \<Rightarrow> string \<Rightarrow> string \<Rightarrow> string \<Rightarrow> BridgeStore \<Rightarrow> DurableBridgeSessionSnapshot option" where
  "get_session hash kind v scope s =
     map_option to_snapshot (List.find (has_session_key kind (hash v) scope) (bs_sessions s))"

definition get_session_by_id :: "string \<Rightarrow> BridgeStore \<Rightarrow> DurableBridgeSessionSnapshot option" where
  "get_session_by_id i s = map_option to_snapshot (List.find (\<lambda>r. hb_id r = i) (bs_sessions s))"

definition has_alias_key :: "string \<Rightarrow> string \<Rightarrow> string \<Rightarrow> HttpBridgeSessionAlias \<Rightarrow> bool" where
  "has_alias_key kind alias_hash scope a =
     (al_alias_kind a = kind \<and> al_alias_hash a = alias_hash \<and> al_api_key_scope a = scope)"

definition resolve_alias ::
  "(string \<Rightarrow> string) \<Rightarrow> string \<Rightarrow> string \<Rightarrow> string \<Rightarrow> BridgeStore \<Rightarrow> DurableBridgeSessionSnapshot option" where
  "resolve_alias hash kind v scope s =
     map_option to_snapshot (first_row
       (concat (map (\<lambda>a. filter (\<lambda>r. hb_id r = al_session_id a) (bs_sessions s))
          (filter (has_alias_key kind (hash v) scope) (bs_aliases s)))))"

text \<open>Active sessions first, then the one seen last.\<close>

definition latest_first :: "HttpBridgeSessionRecord \<Rightarrow> int \<times> int \<times> int" where
  "latest_first r = (if hb_state r = ACTIVE_SESSION then 0 else 1, - hb_last_seen_at r, - hb_updated_at r)"

definition is_live_state :: "HttpBridgeSessionState \<Rightarrow> bool" where
  "is_live_state st = (st = ACTIVE_SESSION \<or> st = DRAINING_SESSION)"

definition find_session_by_latest_turn_state :: "string \<Rightarrow> string \<Rightarrow> BridgeStore \<Rightarrow> DurableBridgeSessionSnapshot option" where
  "find_session_by_latest_turn_state turn_state scope s =
     map_option to_snapshot (first_row (sort_key latest_first
       (filter (\<lambda>r. hb_latest_turn_state r = Some turn_state \<and> hb_api_key_scope r = scope \<and> is_live_state (hb_state r))
          (bs_sessions s))))"

definition find_session_by_latest_response_id :: "string \<Rightarrow> string \<Rightarrow> BridgeStore \<Rightarrow> DurableBridgeSessionSnapshot option" where
  "find_session_by_latest_response_id response_id scope s =
     map_option to_snapshot (first_row (sort_key latest_first
       (filter (\<lambda>r. hb_latest_response_id r = Some response_id \<and> hb_api_key_scope r = scope \<and> is_live_state (hb_state r))
          (bs_sessions s))))"

text \<open>Each identifier once, in chunks.\<close>

fun lookup_chunks :: "string list \<Rightarrow> BridgeStore \<Rightarrow> DurableBridgeSessionSnapshot list" where
  "lookup_chunks [] s = []"
| "lookup_chunks (i # is) s =
     (let chunk = take SESSION_ID_LOOKUP_CHUNK_SIZE (i # is)
      in map to_snapshot (filter (\<lambda>r. hb_id r \<in> set chunk) (bs_sessions s))
         @ lookup_chunks (drop (SESSION_ID_LOOKUP_CHUNK_SIZE - 1) is) s)"

definition get_sessions_by_ids :: "string list \<Rightarrow> BridgeStore \<Rightarrow> DurableBridgeSessionSnapshot list" where
  "get_sessions_by_ids ids s = lookup_chunks (rev (remdups (rev ids))) s"

section \<open>Owning a session\<close>

record ClaimRequest =
  cl_session_key_kind :: string
  cl_session_key_value :: string
  cl_api_key_scope :: string
  cl_instance_id :: string
  cl_lease_ttl_seconds :: pyfloat
  cl_account_id :: "string option"
  cl_model :: "string option"
  cl_service_tier :: "string option"
  cl_latest_turn_state :: "string option"
  cl_latest_response_id :: "string option"
  cl_allow_takeover :: bool
  cl_force_owner_epoch_advance :: bool

datatype bridge_error = IntegrityError | RuntimeError | StaleDataError

definition claimed_record :: "(string \<Rightarrow> string) \<Rightarrow> int \<Rightarrow> string \<Rightarrow> ClaimRequest \<Rightarrow> HttpBridgeSessionRecord" where
  "claimed_record hash now new_id rq =
     \<lparr>hb_id = new_id, hb_session_key_kind = cl_session_key_kind rq, hb_session_key_value = cl_session_key_value rq,
      hb_session_key_hash = hash (cl_session_key_value rq), hb_api_key_scope = cl_api_key_scope rq,
      hb_owner_instance_id = Some (cl_instance_id rq), hb_owner_epoch = 1,
      hb_lease_expires_at = Some (lease_deadline now (cl_lease_ttl_seconds rq)), hb_state = ACTIVE_SESSION,
      hb_account_id = cl_account_id rq, hb_model = cl_model rq, hb_service_tier = cl_service_tier rq,
      hb_latest_turn_state = cl_latest_turn_state rq, hb_latest_response_id = cl_latest_response_id rq,
      hb_latest_input_item_count = None, hb_latest_input_full_fingerprint = None, hb_closed_at = None,
      hb_updated_at = now, hb_last_seen_at = now\<rparr>"

definition owner_changed :: "ClaimRequest \<Rightarrow> HttpBridgeSessionRecord \<Rightarrow> bool" where
  "owner_changed rq r = (hb_owner_instance_id r \<noteq> Some (cl_instance_id rq))"

definition account_changed :: "ClaimRequest \<Rightarrow> HttpBridgeSessionRecord \<Rightarrow> bool" where
  "account_changed rq r = (hb_account_id r \<noteq> cl_account_id rq)"

definition lease_expired :: "int \<Rightarrow> HttpBridgeSessionRecord \<Rightarrow> bool" where
  "lease_expired now r = (case hb_lease_expires_at r of None \<Rightarrow> True | Some t \<Rightarrow> t \<le> now)"

definition state_allows_takeover :: "HttpBridgeSessionRecord \<Rightarrow> bool" where
  "state_allows_takeover r = (hb_state r = DRAINING_SESSION \<or> hb_state r = CLOSED_SESSION)"

definition claim_refused :: "int \<Rightarrow> ClaimRequest \<Rightarrow> HttpBridgeSessionRecord \<Rightarrow> bool" where
  "claim_refused now rq r =
     (owner_changed rq r \<and> \<not> cl_allow_takeover rq \<and> \<not> lease_expired now r \<and> \<not> state_allows_takeover r)"

definition claim_epoch :: "ClaimRequest \<Rightarrow> HttpBridgeSessionRecord \<Rightarrow> int" where
  "claim_epoch rq r =
     (if owner_changed rq r then hb_owner_epoch r + 1
      else if account_changed rq r \<or> cl_force_owner_epoch_advance rq then hb_owner_epoch r + 1
      else hb_owner_epoch r)"

definition claim_row :: "int \<Rightarrow> ClaimRequest \<Rightarrow> HttpBridgeSessionRecord \<Rightarrow> HttpBridgeSessionRecord" where
  "claim_row now rq r =
     (let r1 = r\<lparr>hb_owner_instance_id := Some (cl_instance_id rq), hb_owner_epoch := claim_epoch rq r,
                 hb_lease_expires_at := Some (lease_deadline now (cl_lease_ttl_seconds rq)), hb_state := ACTIVE_SESSION,
                 hb_account_id := cl_account_id rq, hb_model := cl_model rq, hb_service_tier := cl_service_tier rq,
                 hb_last_seen_at := now, hb_updated_at := now, hb_closed_at := None\<rparr>
      in if account_changed rq r
         then r1\<lparr>hb_latest_turn_state := cl_latest_turn_state rq, hb_latest_response_id := cl_latest_response_id rq,
                 hb_latest_input_item_count := None, hb_latest_input_full_fingerprint := None\<rparr>
         else (let r2 = r1\<lparr>hb_latest_turn_state := or_else (cl_latest_turn_state rq) (hb_latest_turn_state r)\<rparr>
               in if cl_latest_response_id rq \<noteq> None
                  then r2\<lparr>hb_latest_response_id := cl_latest_response_id rq, hb_latest_input_item_count := None,
                          hb_latest_input_full_fingerprint := None\<rparr>
                  else r2))"

definition clear_aliases_for_session :: "string \<Rightarrow> BridgeStore \<Rightarrow> BridgeStore" where
  "clear_aliases_for_session i s = s\<lparr>bs_aliases := filter (\<lambda>a. al_session_id a \<noteq> i) (bs_aliases s)\<rparr>"

definition claim_existing ::
  "int \<Rightarrow> ClaimRequest \<Rightarrow> HttpBridgeSessionRecord \<Rightarrow> BridgeStore \<Rightarrow> DurableBridgeSessionSnapshot \<times> BridgeStore" where
  "claim_existing now rq r s =
     (if claim_refused now rq r then (to_snapshot r, s)
      else (let s1 = (if account_changed rq r then clear_aliases_for_session (hb_id r) s else s)
            in (to_snapshot (claim_row now rq r),
                s1\<lparr>bs_sessions := update_where (\<lambda>x. hb_id x = hb_id r) (claim_row now rq) (bs_sessions s1)\<rparr>)))"

text \<open>\<open>missed\<close> says, for each attempt, whether the row was inserted by another replica after the read: the
  insert then meets the unique constraint.\<close>

fun claim_session ::
  "(string \<Rightarrow> string) \<Rightarrow> bool list \<Rightarrow> int \<Rightarrow> string \<Rightarrow> ClaimRequest \<Rightarrow> BridgeStore
     \<Rightarrow> (bridge_error + DurableBridgeSessionSnapshot) \<times> BridgeStore" where
  "claim_session hash [] now new_id rq s = (Inl RuntimeError, s)"
| "claim_session hash (missed # later) now new_id rq s =
     (case List.find (has_session_key (cl_session_key_kind rq) (hash (cl_session_key_value rq)) (cl_api_key_scope rq))
             (bs_sessions s) of
        None \<Rightarrow>
          (Inr (to_snapshot (claimed_record hash now new_id rq)),
           s\<lparr>bs_sessions := bs_sessions s @ [claimed_record hash now new_id rq]\<rparr>)
      | Some r \<Rightarrow>
          if missed then (if later = [] then (Inl IntegrityError, s) else claim_session hash later now new_id rq s)
          else (case claim_existing now rq r s of (snap, s1) \<Rightarrow> (Inr snap, s1)))"

definition owned_by :: "string \<Rightarrow> int \<Rightarrow> HttpBridgeSessionRecord \<Rightarrow> bool" where
  "owned_by inst epoch r = (hb_owner_instance_id r = Some inst \<and> hb_owner_epoch r = epoch)"

definition execute_fenced_session_update ::
  "string \<Rightarrow> string \<Rightarrow> int \<Rightarrow> (HttpBridgeSessionRecord \<Rightarrow> HttpBridgeSessionRecord) \<Rightarrow> BridgeStore
     \<Rightarrow> DurableBridgeSessionSnapshot option \<times> BridgeStore" where
  "execute_fenced_session_update i inst epoch f s =
     (let s1 = s\<lparr>bs_sessions := update_where (\<lambda>r. hb_id r = i \<and> owned_by inst epoch r) f (bs_sessions s)\<rparr>
      in case List.find (\<lambda>r. hb_id r = i \<and> owned_by inst epoch r) (bs_sessions s) of
           Some r \<Rightarrow> (Some (to_snapshot (f r)), s1)
         | None \<Rightarrow> (get_session_by_id i s1, s1))"

record ContinuityUpdate =
  cu_latest_turn_state :: "string option"
  cu_latest_response_id :: "string option"
  cu_latest_input_item_count :: "int option"
  cu_latest_input_full_fingerprint :: "string option"

definition renew_session_row ::
  "int \<Rightarrow> pyfloat \<Rightarrow> ContinuityUpdate \<Rightarrow> HttpBridgeSessionState option \<Rightarrow> HttpBridgeSessionRecord \<Rightarrow> HttpBridgeSessionRecord" where
  "renew_session_row now ttl u st r =
     (let both = (cu_latest_input_item_count u \<noteq> None \<and> cu_latest_input_full_fingerprint u \<noteq> None);
          r1 = r\<lparr>hb_lease_expires_at := Some (lease_deadline now ttl), hb_last_seen_at := now, hb_updated_at := now,
                 hb_latest_turn_state := or_else (cu_latest_turn_state u) (hb_latest_turn_state r),
                 hb_latest_response_id := or_else (cu_latest_response_id u) (hb_latest_response_id r)\<rparr>;
          r2 = (if both
                then r1\<lparr>hb_latest_input_item_count := cu_latest_input_item_count u,
                        hb_latest_input_full_fingerprint := cu_latest_input_full_fingerprint u\<rparr>
                else if cu_latest_response_id u \<noteq> None
                then r1\<lparr>hb_latest_input_item_count := None, hb_latest_input_full_fingerprint := None\<rparr>
                else r1)
      in case st of None \<Rightarrow> r2 | Some x \<Rightarrow> r2\<lparr>hb_state := x\<rparr>)"

definition renew_session ::
  "int \<Rightarrow> string \<Rightarrow> string \<Rightarrow> int \<Rightarrow> pyfloat \<Rightarrow> ContinuityUpdate \<Rightarrow> HttpBridgeSessionState option \<Rightarrow> BridgeStore
     \<Rightarrow> DurableBridgeSessionSnapshot option \<times> BridgeStore" where
  "renew_session now i inst epoch ttl u st s = execute_fenced_session_update i inst epoch (renew_session_row now ttl u st) s"

definition release_session_row :: "int \<Rightarrow> bool \<Rightarrow> HttpBridgeSessionRecord \<Rightarrow> HttpBridgeSessionRecord" where
  "release_session_row now draining r =
     r\<lparr>hb_owner_instance_id := None, hb_lease_expires_at := Some now, hb_last_seen_at := now, hb_updated_at := now,
       hb_state := (if draining then DRAINING_SESSION else CLOSED_SESSION),
       hb_closed_at := (if draining then None else Some now)\<rparr>"

definition release_session ::
  "int \<Rightarrow> string \<Rightarrow> string \<Rightarrow> int \<Rightarrow> bool \<Rightarrow> BridgeStore \<Rightarrow> DurableBridgeSessionSnapshot option \<times> BridgeStore" where
  "release_session now i inst epoch draining s = execute_fenced_session_update i inst epoch (release_session_row now draining) s"

text \<open>Draining reads the rows of the instance without a lock; the commit writes the changed columns to the rows with these
  identifiers, whoever owns them by then. A row that is gone makes it raise where the driver counts the rows
  (\<open>counted\<close>). \<open>others\<close> is what happens between the two.\<close>

definition owner_rows :: "string \<Rightarrow> BridgeStore \<Rightarrow> string list" where
  "owner_rows inst s =
     map hb_id (filter (\<lambda>r. hb_owner_instance_id r = Some inst \<and> hb_state r = ACTIVE_SESSION) (bs_sessions s))"

definition commit_draining :: "bool \<Rightarrow> int \<Rightarrow> string list \<Rightarrow> BridgeStore \<Rightarrow> (bridge_error + nat) \<times> BridgeStore" where
  "commit_draining counted now ids s =
     (if counted \<and> \<not> set ids \<subseteq> hb_id ` set (bs_sessions s) then (Inl StaleDataError, s)
      else (Inr (length ids),
            s\<lparr>bs_sessions := update_where (\<lambda>r. hb_id r \<in> set ids)
                (\<lambda>r. r\<lparr>hb_state := DRAINING_SESSION, hb_last_seen_at := now, hb_updated_at := now\<rparr>) (bs_sessions s)\<rparr>))"

definition mark_owner_draining ::
  "bool \<Rightarrow> (BridgeStore \<Rightarrow> BridgeStore) \<Rightarrow> int \<Rightarrow> string \<Rightarrow> BridgeStore \<Rightarrow> (bridge_error + nat) \<times> BridgeStore" where
  "mark_owner_draining counted others now inst s = commit_draining counted now (owner_rows inst s) (others s)"

text \<open>What \<open>_close_http_bridge_sessions_for_account\<close> of the account repository does when an account is
  shut down: no name, owner or account is left.\<close>

definition close_account_row :: "int \<Rightarrow> HttpBridgeSessionRecord \<Rightarrow> HttpBridgeSessionRecord" where
  "close_account_row now r =
     r\<lparr>hb_account_id := None, hb_state := CLOSED_SESSION, hb_closed_at := Some now, hb_owner_instance_id := None,
       hb_lease_expires_at := None, hb_latest_turn_state := None, hb_latest_response_id := None,
       hb_latest_input_item_count := None, hb_latest_input_full_fingerprint := None, hb_updated_at := now\<rparr>"

definition close_http_bridge_sessions_for_account :: "int \<Rightarrow> string \<Rightarrow> BridgeStore \<Rightarrow> BridgeStore" where
  "close_http_bridge_sessions_for_account now acc s =
     (let ids = map hb_id (filter (\<lambda>r. hb_account_id r = Some acc) (bs_sessions s))
      in s\<lparr>bs_aliases := filter (\<lambda>a. al_session_id a \<notin> set ids) (bs_aliases s),
           bs_sessions := update_where (\<lambda>r. hb_account_id r = Some acc) (close_account_row now) (bs_sessions s)\<rparr>)"

section \<open>Names of a session\<close>

definition execute_alias_upsert :: "(string \<Rightarrow> string) \<Rightarrow> string \<Rightarrow> string \<Rightarrow> string \<Rightarrow> string \<Rightarrow> BridgeStore \<Rightarrow> BridgeStore" where
  "execute_alias_upsert hash i kind v scope s =
     s\<lparr>bs_aliases :=
         (if list_ex (has_alias_key kind (hash v) scope) (bs_aliases s)
          then update_where (has_alias_key kind (hash v) scope) (\<lambda>a. a\<lparr>al_session_id := i, al_alias_value := v\<rparr>) (bs_aliases s)
          else bs_aliases s
            @ [\<lparr>al_session_id = i, al_alias_kind = kind, al_alias_value = v, al_alias_hash = hash v, al_api_key_scope = scope\<rparr>])\<rparr>"

text \<open>An alias of a session that does not exist meets the foreign key.\<close>

definition upsert_alias ::
  "(string \<Rightarrow> string) \<Rightarrow> string \<Rightarrow> string \<Rightarrow> string \<Rightarrow> string \<Rightarrow> BridgeStore \<Rightarrow> (bridge_error + unit) \<times> BridgeStore" where
  "upsert_alias hash i kind v scope s =
     (if list_ex (\<lambda>r. hb_id r = i) (bs_sessions s) then (Inr (), execute_alias_upsert hash i kind v scope s)
      else (Inl IntegrityError, s))"

definition register_row :: "int \<Rightarrow> pyfloat \<Rightarrow> ContinuityUpdate \<Rightarrow> HttpBridgeSessionRecord \<Rightarrow> HttpBridgeSessionRecord" where
  "register_row now ttl u r =
     (let r1 = r\<lparr>hb_lease_expires_at := Some (lease_deadline now ttl), hb_last_seen_at := now, hb_updated_at := now,
                 hb_latest_turn_state := or_else (cu_latest_turn_state u) (hb_latest_turn_state r)\<rparr>
      in if cu_latest_response_id u \<noteq> None
         then r1\<lparr>hb_latest_response_id := cu_latest_response_id u,
                 hb_latest_input_item_count := cu_latest_input_item_count u,
                 hb_latest_input_full_fingerprint := cu_latest_input_full_fingerprint u\<rparr>
         else if cu_latest_input_item_count u \<noteq> None \<and> cu_latest_input_full_fingerprint u \<noteq> None
         then r1\<lparr>hb_latest_input_item_count := cu_latest_input_item_count u,
                 hb_latest_input_full_fingerprint := cu_latest_input_full_fingerprint u\<rparr>
         else r1)"

definition register_owned_alias ::
  "(string \<Rightarrow> string) \<Rightarrow> int \<Rightarrow> string \<Rightarrow> string \<Rightarrow> string \<Rightarrow> int \<Rightarrow> string \<Rightarrow> string \<Rightarrow> pyfloat \<Rightarrow> ContinuityUpdate \<Rightarrow> BridgeStore
     \<Rightarrow> bool \<times> BridgeStore" where
  "register_owned_alias hash now i scope inst epoch kind v ttl u s =
     (let cond = (\<lambda>r. hb_id r = i \<and> hb_api_key_scope r = scope \<and> owned_by inst epoch r)
      in if list_ex cond (bs_sessions s)
         then (True, execute_alias_upsert hash i kind v scope
                       (s\<lparr>bs_sessions := update_where cond (register_row now ttl u) (bs_sessions s)\<rparr>))
         else (False, s))"

section \<open>Purging\<close>

definition purge_batch :: "(HttpBridgeSessionRecord \<Rightarrow> bool) \<Rightarrow> nat \<Rightarrow> BridgeStore \<Rightarrow> string list" where
  "purge_batch P batch_size s = take batch_size (map hb_id (sort_key hb_last_seen_at (filter P (bs_sessions s))))"

definition purge_rows :: "(HttpBridgeSessionRecord \<Rightarrow> bool) \<Rightarrow> string list \<Rightarrow> BridgeStore \<Rightarrow> nat \<times> BridgeStore" where
  "purge_rows P ids s =
     (let doomed = filter (\<lambda>r. hb_id r \<in> set ids \<and> P r) (bs_sessions s)
      in (length doomed,
          s\<lparr>bs_aliases := filter (\<lambda>a. al_session_id a \<notin> hb_id ` set doomed) (bs_aliases s),
            bs_sessions := filter (\<lambda>r. \<not> (hb_id r \<in> set ids \<and> P r)) (bs_sessions s)\<rparr>))"

definition is_closed_before :: "int \<Rightarrow> HttpBridgeSessionRecord \<Rightarrow> bool" where
  "is_closed_before cutoff r = (hb_state r = CLOSED_SESSION \<and> hb_last_seen_at r < cutoff)"

definition is_abandoned_before :: "int \<Rightarrow> int \<Rightarrow> HttpBridgeSessionRecord \<Rightarrow> bool" where
  "is_abandoned_before now cutoff r =
     (is_live_state (hb_state r)
      \<and> (case hb_lease_expires_at r of None \<Rightarrow> True | Some t \<Rightarrow> t < now) \<and> hb_last_seen_at r < cutoff)"

lemma purge_less:
  assumes "purge_batch P n s \<noteq> []"
  shows "length (bs_sessions (snd (purge_rows P (purge_batch P n s) s))) < length (bs_sessions s)"
proof -
  obtain i ids where b: "purge_batch P n s = i # ids" using assms by (cases "purge_batch P n s") auto
  have "i \<in> set (map hb_id (sort_key hb_last_seen_at (filter P (bs_sessions s))))"
    using b unfolding purge_batch_def by (metis in_set_takeD list.set_intros(1))
  then obtain r where "r \<in> set (bs_sessions s)" "P r" "hb_id r = i" by auto
  then have "r \<in> set (bs_sessions s)" "\<not> \<not> (hb_id r \<in> set (purge_batch P n s) \<and> P r)" by (simp_all add: b)
  then show ?thesis by (simp add: purge_rows_def Let_def length_filter_less)
qed

function purge_closed_before :: "int \<Rightarrow> nat \<Rightarrow> nat \<Rightarrow> BridgeStore \<Rightarrow> nat \<times> BridgeStore" where
  "purge_closed_before cutoff batch_size deleted_count s =
     (let ids = purge_batch (is_closed_before cutoff) batch_size s
      in if ids = [] then (deleted_count, s)
         else (case purge_rows (is_closed_before cutoff) ids s of
                 (n, s1) \<Rightarrow> purge_closed_before cutoff batch_size (deleted_count + n) s1))"
  by pat_completeness auto
termination
  by (relation "measure (\<lambda>(cutoff, b, n, s). length (bs_sessions s))") (auto dest!: purge_less simp: prod_eq_iff)

declare purge_closed_before.simps [simp del]

text \<open>The clock is read in every turn.\<close>

function purge_abandoned_before :: "(nat \<Rightarrow> int) \<Rightarrow> nat \<Rightarrow> int \<Rightarrow> nat \<Rightarrow> nat \<Rightarrow> BridgeStore \<Rightarrow> nat \<times> BridgeStore" where
  "purge_abandoned_before clock turn cutoff batch_size deleted_count s =
     (let P = is_abandoned_before (clock turn) cutoff; ids = purge_batch P batch_size s
      in if ids = [] then (deleted_count, s)
         else (case purge_rows P ids s of
                 (n, s1) \<Rightarrow> purge_abandoned_before clock (turn + 1) cutoff batch_size (deleted_count + n) s1))"
  by pat_completeness auto
termination
  by (relation "measure (\<lambda>(clock, turn, cutoff, b, n, s). length (bs_sessions s))") (auto dest!: purge_less simp: prod_eq_iff)

declare purge_abandoned_before.simps [simp del]

section \<open>The coordinator\<close>

record DurableBridgeLookup =
  lk_session_id :: string
  lk_canonical_kind :: string
  lk_canonical_key :: string
  lk_api_key_scope :: string
  lk_account_id :: "string option"
  lk_owner_instance_id :: "string option"
  lk_owner_epoch :: int
  lk_lease_expires_at :: "int option"
  lk_state :: HttpBridgeSessionState
  lk_latest_turn_state :: "string option"
  lk_latest_response_id :: "string option"
  lk_latest_input_item_count :: "int option"
  lk_latest_input_full_fingerprint :: "string option"
  lk_model :: "string option"

definition to_lookup :: "DurableBridgeSessionSnapshot \<Rightarrow> DurableBridgeLookup" where
  "to_lookup r =
     \<lparr>lk_session_id = hb_id r, lk_canonical_kind = hb_session_key_kind r, lk_canonical_key = hb_session_key_value r,
      lk_api_key_scope = hb_api_key_scope r, lk_account_id = hb_account_id r,
      lk_owner_instance_id = hb_owner_instance_id r, lk_owner_epoch = hb_owner_epoch r,
      lk_lease_expires_at = hb_lease_expires_at r, lk_state = hb_state r,
      lk_latest_turn_state = hb_latest_turn_state r, lk_latest_response_id = hb_latest_response_id r,
      lk_latest_input_item_count = hb_latest_input_item_count r,
      lk_latest_input_full_fingerprint = hb_latest_input_full_fingerprint r, lk_model = hb_model r\<rparr>"

definition lease_is_active :: "int \<Rightarrow> DurableBridgeLookup \<Rightarrow> bool" where
  "lease_is_active now lk =
     (if lk_owner_instance_id lk = None then False
      else (case lk_lease_expires_at lk of None \<Rightarrow> False | Some t \<Rightarrow> t > now))"

fun resolve_aliases ::
  "(string \<Rightarrow> string) \<Rightarrow> (string \<times> string option) list \<Rightarrow> string \<Rightarrow> BridgeStore \<Rightarrow> DurableBridgeSessionSnapshot option" where
  "resolve_aliases hash [] scope s = None"
| "resolve_aliases hash ((kind, v) # rest) scope s =
     (case v of None \<Rightarrow> resolve_aliases hash rest scope s
      | Some x \<Rightarrow>
          (case resolve_alias hash kind x scope s of
             Some snap \<Rightarrow> Some snap
           | None \<Rightarrow> resolve_aliases hash rest scope s))"

definition lookup_request_targets ::
  "(string \<Rightarrow> string) \<Rightarrow> string \<Rightarrow> string \<Rightarrow> string option \<Rightarrow> string option \<Rightarrow> string option \<Rightarrow> string option \<Rightarrow> BridgeStore
     \<Rightarrow> DurableBridgeLookup option" where
  "lookup_request_targets hash kind v api_key_id turn_state session_header previous_response_id s =
     (let scope = durable_bridge_api_key_scope api_key_id
      in case resolve_aliases hash
                [(''turn_state'', turn_state), (''previous_response_id'', previous_response_id), (''session_header'', session_header)]
                scope s of
           Some snap \<Rightarrow> Some (to_lookup snap)
         | None \<Rightarrow>
             (let by_key = get_session hash kind v scope s;
                  by_turn = (if by_key = None
                             then (case turn_state of None \<Rightarrow> None | Some t \<Rightarrow> find_session_by_latest_turn_state t scope s)
                             else by_key);
                  by_response = (if by_key = None \<and> by_turn = None
                                 then (case previous_response_id of None \<Rightarrow> None
                                       | Some x \<Rightarrow> find_session_by_latest_response_id x scope s)
                                 else by_turn)
              in map_option to_lookup by_response))"

definition lookup_turn_state_target :: "(string \<Rightarrow> string) \<Rightarrow> string \<Rightarrow> string option \<Rightarrow> BridgeStore \<Rightarrow> DurableBridgeLookup option" where
  "lookup_turn_state_target hash turn_state api_key_id s =
     map_option to_lookup (resolve_alias hash ''turn_state'' turn_state (durable_bridge_api_key_scope api_key_id) s)"

definition lookup_sessions :: "string list \<Rightarrow> BridgeStore \<Rightarrow> DurableBridgeLookup list" where
  "lookup_sessions ids s = (if ids = [] then [] else map to_lookup (get_sessions_by_ids ids s))"

text \<open>\<open>cl_api_key_scope\<close> of the request is computed from the API key here.\<close>

definition claim_live_session ::
  "(string \<Rightarrow> string) \<Rightarrow> bool \<times> bool \<Rightarrow> int \<Rightarrow> string \<Rightarrow> string option \<Rightarrow> ClaimRequest \<Rightarrow> BridgeStore
     \<Rightarrow> (bridge_error + DurableBridgeLookup) \<times> BridgeStore" where
  "claim_live_session hash missed now new_id api_key_id rq s =
     (case claim_session hash [fst missed, snd missed] now new_id (rq\<lparr>cl_api_key_scope := durable_bridge_api_key_scope api_key_id\<rparr>) s of
        (r, s1) \<Rightarrow> (res_map to_lookup r, s1))"

definition renew_live_session ::
  "int \<Rightarrow> string \<Rightarrow> string \<Rightarrow> int \<Rightarrow> pyfloat \<Rightarrow> ContinuityUpdate \<Rightarrow> HttpBridgeSessionState option \<Rightarrow> BridgeStore
     \<Rightarrow> DurableBridgeLookup option \<times> BridgeStore" where
  "renew_live_session now i inst epoch ttl u st s =
     (case renew_session now i inst epoch ttl u st s of (r, s1) \<Rightarrow> (map_option to_lookup r, s1))"

definition release_live_session ::
  "int \<Rightarrow> string \<Rightarrow> string \<Rightarrow> int \<Rightarrow> bool \<Rightarrow> BridgeStore \<Rightarrow> DurableBridgeLookup option \<times> BridgeStore" where
  "release_live_session now i inst epoch draining s =
     (case release_session now i inst epoch draining s of (r, s1) \<Rightarrow> (map_option to_lookup r, s1))"

definition mark_instance_draining ::
  "bool \<Rightarrow> (BridgeStore \<Rightarrow> BridgeStore) \<Rightarrow> int \<Rightarrow> string \<Rightarrow> BridgeStore \<Rightarrow> (bridge_error + nat) \<times> BridgeStore" where
  "mark_instance_draining counted others now inst s = mark_owner_draining counted others now inst s"

definition no_continuity :: ContinuityUpdate where
  "no_continuity =
     \<lparr>cu_latest_turn_state = None, cu_latest_response_id = None, cu_latest_input_item_count = None,
      cu_latest_input_full_fingerprint = None\<rparr>"

definition register_turn_state ::
  "(string \<Rightarrow> string) \<Rightarrow> int \<Rightarrow> string \<Rightarrow> string option \<Rightarrow> string \<Rightarrow> int \<Rightarrow> string \<Rightarrow> pyfloat \<Rightarrow> BridgeStore \<Rightarrow> bool \<times> BridgeStore" where
  "register_turn_state hash now i api_key_id inst epoch turn_state ttl s =
     register_owned_alias hash now i (durable_bridge_api_key_scope api_key_id) inst epoch ''turn_state'' turn_state ttl
       (no_continuity\<lparr>cu_latest_turn_state := Some turn_state\<rparr>) s"

definition register_previous_response_id ::
  "(string \<Rightarrow> string) \<Rightarrow> int \<Rightarrow> string \<Rightarrow> string option \<Rightarrow> string \<Rightarrow> int \<Rightarrow> string \<Rightarrow> pyfloat \<Rightarrow> int option \<Rightarrow> string option
     \<Rightarrow> BridgeStore \<Rightarrow> bool \<times> BridgeStore" where
  "register_previous_response_id hash now i api_key_id inst epoch response_id ttl input_item_count input_full_fingerprint s =
     register_owned_alias hash now i (durable_bridge_api_key_scope api_key_id) inst epoch ''previous_response_id'' response_id ttl
       (no_continuity\<lparr>cu_latest_response_id := Some response_id, cu_latest_input_item_count := input_item_count,
                      cu_latest_input_full_fingerprint := input_full_fingerprint\<rparr>) s"

definition register_session_header ::
  "(string \<Rightarrow> string) \<Rightarrow> string \<Rightarrow> string option \<Rightarrow> string \<Rightarrow> BridgeStore \<Rightarrow> (bridge_error + unit) \<times> BridgeStore" where
  "register_session_header hash i api_key_id session_header s =
     upsert_alias hash i ''session_header'' session_header (durable_bridge_api_key_scope api_key_id) s"

section \<open>Specification\<close>

definition session_key :: "HttpBridgeSessionRecord \<Rightarrow> string \<times> string \<times> string" where
  "session_key r = (hb_session_key_kind r, hb_session_key_hash r, hb_api_key_scope r)"

definition alias_key :: "HttpBridgeSessionAlias \<Rightarrow> string \<times> string \<times> string" where
  "alias_key a = (al_alias_kind a, al_alias_hash a, al_api_key_scope a)"

definition alias_ok :: "HttpBridgeSessionRecord list \<Rightarrow> HttpBridgeSessionAlias \<Rightarrow> bool" where
  "alias_ok rows a = list_ex (\<lambda>r. hb_id r = al_session_id a \<and> hb_api_key_scope r = al_api_key_scope a) rows"

definition store_ok :: "BridgeStore \<Rightarrow> bool" where
  "store_ok s =
     (distinct (map hb_id (bs_sessions s)) \<and> distinct (map session_key (bs_sessions s))
      \<and> distinct (map alias_key (bs_aliases s)) \<and> list_all (alias_ok (bs_sessions s)) (bs_aliases s)
      \<and> list_all (\<lambda>r. 1 \<le> hb_owner_epoch r) (bs_sessions s))"

text \<open>The identifiers that were ever given out, and the store.\<close>

type_synonym bridge_state = "string set \<times> BridgeStore"

definition bridge_inv :: "bridge_state \<Rightarrow> bool" where
  "bridge_inv st = (store_ok (snd st) \<and> hb_id ` set (bs_sessions (snd st)) \<subseteq> fst st)"

text \<open>What a step may do to a row: the epoch does not fall, and it rises with every new owner.\<close>

definition advances :: "HttpBridgeSessionRecord \<Rightarrow> HttpBridgeSessionRecord \<Rightarrow> bool" where
  "advances r r' =
     (hb_id r' = hb_id r \<and> session_key r' = session_key r \<and> hb_owner_epoch r \<le> hb_owner_epoch r'
      \<and> (hb_owner_instance_id r' \<noteq> hb_owner_instance_id r \<and> hb_owner_instance_id r' \<noteq> None
         \<longrightarrow> hb_owner_epoch r < hb_owner_epoch r'))"

definition superseded :: "string \<Rightarrow> int \<Rightarrow> HttpBridgeSessionRecord \<Rightarrow> bool" where
  "superseded inst epoch r =
     (epoch < hb_owner_epoch r \<or> epoch = hb_owner_epoch r \<and> hb_owner_instance_id r \<noteq> Some inst)"

text \<open>The steps of the replicas. The write of a draining is a step of its own, for rows read at any earlier time; so is
  a batch of a purge.\<close>

inductive bridge_step :: "bridge_state \<Rightarrow> bridge_state \<Rightarrow> bool" where
  claim: "new_id \<notin> U \<Longrightarrow> bridge_step (U, s) (insert new_id U, snd (claim_live_session hash missed now new_id api_key_id rq s))"
| renew: "bridge_step (U, s) (U, snd (renew_live_session now i inst epoch ttl u st s))"
| release: "bridge_step (U, s) (U, snd (release_live_session now i inst epoch draining s))"
| drain: "bridge_step (U, s) (U, snd (commit_draining counted now ids s))"
| turn_state: "bridge_step (U, s) (U, snd (register_turn_state hash now i api_key_id inst epoch v ttl s))"
| response: "bridge_step (U, s) (U, snd (register_previous_response_id hash now i api_key_id inst epoch v ttl n f s))"
| header: "list_all (\<lambda>r. hb_id r = i \<longrightarrow> hb_api_key_scope r = durable_bridge_api_key_scope api_key_id) (bs_sessions s)
    \<Longrightarrow> bridge_step (U, s) (U, snd (register_session_header hash i api_key_id v s))"
| purge_closed: "bridge_step (U, s) (U, snd (purge_rows (is_closed_before cutoff) ids s))"
| purge_abandoned: "bridge_step (U, s) (U, snd (purge_rows (is_abandoned_before now cutoff) ids s))"
| account_deleted: "bridge_step (U, s)
    (U, s\<lparr>bs_sessions := update_where (\<lambda>r. hb_account_id r = Some acc) (\<lambda>r. r\<lparr>hb_account_id := None\<rparr>) (bs_sessions s)\<rparr>)"
| account_closed: "bridge_step (U, s) (U, close_http_bridge_sessions_for_account now acc s)"

section \<open>Rows advance\<close>

lemma advances_refl [simp]: "advances r r"
  by (simp add: advances_def)

lemma advances_superseded: "superseded inst epoch r \<Longrightarrow> advances r r' \<Longrightarrow> superseded inst epoch r'"
  by (auto simp: superseded_def advances_def)

lemma advances_claim_row: "advances r (claim_row now rq r)"
  by (auto simp: advances_def claim_row_def Let_def session_key_def claim_epoch_def owner_changed_def)

lemma advances_renew_row: "advances r (renew_session_row now ttl u st r)"
  by (auto simp: advances_def renew_session_row_def Let_def session_key_def split: option.split)

lemma advances_release_row: "advances r (release_session_row now draining r)"
  by (auto simp: advances_def release_session_row_def session_key_def)

lemma advances_register_row: "advances r (register_row now ttl u r)"
  by (auto simp: advances_def register_row_def Let_def session_key_def)

lemmas advances_rows = advances_claim_row advances_renew_row advances_release_row advances_register_row

text \<open>A change of rows that advances them keeps the store well-formed.\<close>

lemma advances_frame:
  assumes "advances r r'"
  shows "hb_id r' = hb_id r" "session_key r' = session_key r" "hb_api_key_scope r' = hb_api_key_scope r"
    "hb_owner_epoch r \<le> hb_owner_epoch r'"
  using assms by (auto simp: advances_def session_key_def)

lemma alias_ok_map:
  assumes "\<And>r. advances r (h r)" "alias_ok rows a"
  shows "alias_ok (map h rows) a"
  using assms(2) by (auto simp: alias_ok_def list_ex_iff advances_frame(1,3) [OF assms(1)])

lemma store_ok_map:
  assumes "store_ok s" "\<And>r. advances r (h r)"
  shows "store_ok (s\<lparr>bs_sessions := map h (bs_sessions s)\<rparr>)"
proof -
  note frame = advances_frame [OF assms(2)]
  have "list_all (\<lambda>r. 1 \<le> hb_owner_epoch r) (map h (bs_sessions s))"
    using assms(1) frame(4) by (auto simp: store_ok_def list_all_iff intro: order_trans)
  moreover have "list_all (alias_ok (map h (bs_sessions s))) (bs_aliases s)"
    using assms by (auto simp: store_ok_def list_all_iff intro: alias_ok_map)
  ultimately show ?thesis using assms(1) by (simp add: store_ok_def comp_def frame)
qed

lemma store_ok_update:
  assumes "store_ok s" "\<And>r. advances r (f r)"
  shows "store_ok (s\<lparr>bs_sessions := update_where cond f (bs_sessions s)\<rparr>)"
  unfolding update_where_def by (rule store_ok_map [OF assms(1)]) (simp add: assms(2))

text \<open>Every row of the new store is an old one that has advanced, or a new one.\<close>

definition follows :: "string set \<Rightarrow> BridgeStore \<Rightarrow> BridgeStore \<Rightarrow> bool" where
  "follows U s s' = (\<forall>r' \<in> set (bs_sessions s'). (\<exists>r \<in> set (bs_sessions s). advances r r') \<or> hb_id r' \<notin> U)"

lemma follows_update: "(\<And>r. advances r (f r)) \<Longrightarrow> bs_sessions s' = update_where cond f (bs_sessions s) \<Longrightarrow> follows U s s'"
  by (auto simp: follows_def update_where_def intro: advances_refl)

lemma follows_subset: "set (bs_sessions s') \<subseteq> set (bs_sessions s) \<Longrightarrow> follows U s s'"
  by (auto simp: follows_def intro: advances_refl)

section \<open>Operations keep the store well-formed\<close>

lemma fenced_update_keeps:
  assumes "\<And>r. advances r (f r)"
  shows "store_ok s \<Longrightarrow> store_ok (snd (execute_fenced_session_update i inst epoch f s))"
    and "follows U s (snd (execute_fenced_session_update i inst epoch f s))"
proof -
  have s': "snd (execute_fenced_session_update i inst epoch f s)
      = s\<lparr>bs_sessions := update_where (\<lambda>r. hb_id r = i \<and> owned_by inst epoch r) f (bs_sessions s)\<rparr>"
    by (simp add: execute_fenced_session_update_def Let_def split: option.split)
  show "store_ok s \<Longrightarrow> store_ok (snd (execute_fenced_session_update i inst epoch f s))"
    unfolding s' by (rule store_ok_update) (simp_all add: assms)
  show "follows U s (snd (execute_fenced_session_update i inst epoch f s))"
    unfolding s' by (rule follows_update [of f]) (simp_all add: assms)
qed

lemma upsert_keeps:
  assumes "store_ok s" "list_ex (\<lambda>r. hb_id r = i \<and> hb_api_key_scope r = scope) (bs_sessions s)"
  shows "store_ok (execute_alias_upsert hash i kind v scope s)"
proof -
  let ?k = "has_alias_key kind (hash v) scope" and ?f = "\<lambda>a. a\<lparr>al_session_id := i, al_alias_value := v\<rparr>"
  have new: "alias_ok (bs_sessions s) a" if "al_session_id a = i" "al_api_key_scope a = scope" for a
    using assms(2) that by (auto simp: alias_ok_def list_ex_iff)
  have "alias_key a = (kind, hash v, scope) \<longleftrightarrow> ?k a" for a by (auto simp: alias_key_def has_alias_key_def)
  then have "\<not> list_ex ?k (bs_aliases s) \<Longrightarrow> (kind, hash v, scope) \<notin> alias_key ` set (bs_aliases s)"
    by (force simp: list_ex_iff)
  moreover have "map alias_key (update_where ?k ?f (bs_aliases s)) = map alias_key (bs_aliases s)"
    by (simp add: update_where_def alias_key_def)
  moreover have "list_all (alias_ok (bs_sessions s)) (update_where ?k ?f (bs_aliases s))"
    using assms(1) new by (auto simp: store_ok_def list_all_iff update_where_def has_alias_key_def)
  ultimately show ?thesis
    using assms(1) new by (simp add: store_ok_def execute_alias_upsert_def) (simp add: alias_key_def)
qed

lemma upsert_sessions [simp]: "bs_sessions (execute_alias_upsert hash i kind v scope s) = bs_sessions s"
  by (simp add: execute_alias_upsert_def)

lemma register_keeps:
  shows "store_ok s \<Longrightarrow> store_ok (snd (register_owned_alias hash now i scope inst epoch kind v ttl u s))"
    and "follows U s (snd (register_owned_alias hash now i scope inst epoch kind v ttl u s))"
proof -
  let ?cond = "\<lambda>r. hb_id r = i \<and> hb_api_key_scope r = scope \<and> owned_by inst epoch r"
  let ?s = "s\<lparr>bs_sessions := update_where ?cond (register_row now ttl u) (bs_sessions s)\<rparr>"
  note frame = advances_frame(1,3) [OF advances_register_row]
  have ex: "list_ex (\<lambda>r. hb_id r = i \<and> hb_api_key_scope r = scope) (bs_sessions ?s)" if "list_ex ?cond (bs_sessions s)"
    using that frame by (fastforce simp: list_ex_iff update_where_def)
  have ok: "store_ok ?s" if "store_ok s" by (rule store_ok_update [OF that]) (rule advances_register_row)
  show "store_ok s \<Longrightarrow> store_ok (snd (register_owned_alias hash now i scope inst epoch kind v ttl u s))"
    using upsert_keeps [OF ok ex, of hash kind v] by (simp add: register_owned_alias_def Let_def)
  have "follows U s ?s" by (rule follows_update) (rule advances_register_row, simp)
  then show "follows U s (snd (register_owned_alias hash now i scope inst epoch kind v ttl u s))"
    by (auto simp: register_owned_alias_def Let_def follows_def intro: advances_refl)
qed

lemma filter_aliases_keeps: "store_ok s \<Longrightarrow> store_ok (s\<lparr>bs_aliases := filter P (bs_aliases s)\<rparr>)"
  by (auto simp: store_ok_def distinct_map_filter list_all_iff)

lemma clear_aliases_keeps: "store_ok s \<Longrightarrow> store_ok (clear_aliases_for_session i s)"
  unfolding clear_aliases_for_session_def by (rule filter_aliases_keeps)

lemma claim_existing_keeps:
  shows "store_ok s \<Longrightarrow> store_ok (snd (claim_existing now rq r s))" and "follows U s (snd (claim_existing now rq r s))"
proof -
  let ?s1 = "if account_changed rq r then clear_aliases_for_session (hb_id r) s else s"
  have s1: "bs_sessions ?s1 = bs_sessions s" by (simp add: clear_aliases_for_session_def)
  show "store_ok s \<Longrightarrow> store_ok (snd (claim_existing now rq r s))"
    using store_ok_update [of ?s1 "claim_row now rq" "\<lambda>x. hb_id x = hb_id r"] clear_aliases_keeps [of s] advances_claim_row
    by (simp add: claim_existing_def Let_def)
  show "follows U s (snd (claim_existing now rq r s))"
    using follows_update [where f = "claim_row now rq" and cond = "\<lambda>x. hb_id x = hb_id r" and s = s and U = U] s1 follows_subset [of s s U] advances_claim_row
    by (simp add: claim_existing_def Let_def)
qed

lemma claim_session_keeps:
  assumes "store_ok s" "new_id \<notin> U" "hb_id ` set (bs_sessions s) \<subseteq> U"
  shows "store_ok (snd (claim_session hash missed now new_id rq s))
    \<and> follows U s (snd (claim_session hash missed now new_id rq s))
    \<and> hb_id ` set (bs_sessions (snd (claim_session hash missed now new_id rq s))) \<subseteq> insert new_id U"
proof (induction missed)
  case (Cons m ms)
  let ?k = "has_session_key (cl_session_key_kind rq) (hash (cl_session_key_value rq)) (cl_api_key_scope rq)"
  show ?case
  proof (cases "List.find ?k (bs_sessions s)")
    case None
    let ?r = "claimed_record hash now new_id rq"
    have "?k ?r" "?k r \<longleftrightarrow> session_key r = session_key ?r" for r
      by (auto simp: has_session_key_def claimed_record_def session_key_def)
    then have key: "session_key ?r \<notin> session_key ` set (bs_sessions s)" using None by (auto simp: find_None_iff)
    have id: "hb_id ?r = new_id" "hb_owner_epoch ?r = 1" by (simp_all add: claimed_record_def)
    have "list_all (alias_ok (bs_sessions s @ [?r])) (bs_aliases s)"
      using assms(1) by (auto simp: store_ok_def list_all_iff alias_ok_def)
    then show ?thesis
      using None assms key id by (auto simp: store_ok_def follows_def intro: advances_refl)
  next
    case (Some r)
    have "hb_id ` set (bs_sessions (snd (claim_existing now rq r s))) \<subseteq> hb_id ` set (bs_sessions s)"
      using advances_frame(1) [OF advances_claim_row]
      by (auto simp: claim_existing_def Let_def clear_aliases_for_session_def update_where_def)
    then have ids: "hb_id ` set (bs_sessions (snd (claim_existing now rq r s))) \<subseteq> insert new_id U"
      using assms(3) by blast
    show ?thesis
      using Some Cons.IH assms claim_existing_keeps [where s = s and now = now and rq = rq and r = r] ids
      by (auto simp: split_beta intro: follows_subset)
  qed
qed (use assms in \<open>auto intro: follows_subset\<close>)

lemma purge_rows_keeps:
  shows "store_ok s \<Longrightarrow> store_ok (snd (purge_rows P ids s))" and "set (bs_sessions (snd (purge_rows P ids s))) \<subseteq> set (bs_sessions s)"
proof -
  let ?d = "filter (\<lambda>r. hb_id r \<in> set ids \<and> P r) (bs_sessions s)" and ?k = "filter (\<lambda>r. \<not> (hb_id r \<in> set ids \<and> P r)) (bs_sessions s)"
  have "alias_ok ?k a" if "alias_ok (bs_sessions s) a" "al_session_id a \<notin> hb_id ` set ?d" for a
  proof -
    obtain r where r: "r \<in> set (bs_sessions s)" "hb_id r = al_session_id a" "hb_api_key_scope r = al_api_key_scope a"
      using \<open>alias_ok (bs_sessions s) a\<close> by (auto simp: alias_ok_def list_ex_iff)
    then have "r \<in> set ?k" using \<open>al_session_id a \<notin> hb_id ` set ?d\<close> by force
    then show ?thesis using r(2,3) by (auto simp: alias_ok_def list_ex_iff)
  qed
  then have "list_all (alias_ok ?k) (filter (\<lambda>a. al_session_id a \<notin> hb_id ` set ?d) (bs_aliases s))" if "store_ok s"
    using that by (auto simp: store_ok_def list_all_iff)
  then show "store_ok s \<Longrightarrow> store_ok (snd (purge_rows P ids s))"
    by (simp add: store_ok_def purge_rows_def Let_def distinct_map_filter list_all_iff)
  show "set (bs_sessions (snd (purge_rows P ids s))) \<subseteq> set (bs_sessions s)" by (auto simp: purge_rows_def Let_def)
qed

text \<open>The loops, as induction rules on the store before and after.\<close>

lemma purge_closed_loop:
  assumes "\<And>s. purge_batch (is_closed_before cutoff) b s = [] \<Longrightarrow> Q s s"
    and "\<And>s t. Q (snd (purge_rows (is_closed_before cutoff) (purge_batch (is_closed_before cutoff) b s) s)) t \<Longrightarrow> Q s t"
  shows "Q s (snd (purge_closed_before cutoff b n s))"
  using assms
proof (induction cutoff b n s rule: purge_closed_before.induct)
  case (1 cutoff b n s)
  let ?ids = "purge_batch (is_closed_before cutoff) b s"
  obtain m s1 where r: "purge_rows (is_closed_before cutoff) ?ids s = (m, s1)" by fastforce
  show ?case
  proof (cases "?ids = []")
    case True
    then show ?thesis using 1(2) by (subst purge_closed_before.simps) simp
  next
    case False
    have "Q s1 (snd (purge_closed_before cutoff b (n + m) s1))" using 1(1) [OF refl False r [symmetric]] 1(2,3) by blast
    then show ?thesis using 1(3) [of s] False r by (subst purge_closed_before.simps) simp
  qed
qed

lemma purge_abandoned_loop:
  assumes "\<And>t s. purge_batch (is_abandoned_before (clock t) cutoff) b s = [] \<Longrightarrow> Q s s"
    and "\<And>t s u. Q (snd (purge_rows (is_abandoned_before (clock t) cutoff) (purge_batch (is_abandoned_before (clock t) cutoff) b s) s)) u
      \<Longrightarrow> Q s u"
  shows "Q s (snd (purge_abandoned_before clock t cutoff b n s))"
  using assms
proof (induction clock t cutoff b n s rule: purge_abandoned_before.induct)
  case (1 clock t cutoff b n s)
  let ?P = "is_abandoned_before (clock t) cutoff"
  obtain m s1 where r: "purge_rows ?P (purge_batch ?P b s) s = (m, s1)" by fastforce
  show ?case
  proof (cases "purge_batch ?P b s = []")
    case True
    then show ?thesis using 1(2) by (subst purge_abandoned_before.simps) simp
  next
    case False
    have "Q s1 (snd (purge_abandoned_before clock (t + 1) cutoff b (n + m) s1))"
      using 1(1) [OF refl refl False r [symmetric]] 1(2,3) by blast
    then show ?thesis using 1(3) [of t s] False r by (subst purge_abandoned_before.simps) simp
  qed
qed

lemma purge_closed_keeps:
  assumes "store_ok s"
  shows "store_ok (snd (purge_closed_before cutoff b n s))"
    and "set (bs_sessions (snd (purge_closed_before cutoff b n s))) \<subseteq> set (bs_sessions s)"
proof -
  show "store_ok (snd (purge_closed_before cutoff b n s))"
    by (rule purge_closed_loop [where Q = "\<lambda>s t. store_ok s \<longrightarrow> store_ok t", THEN mp]) (simp_all add: purge_rows_keeps(1) assms)
  show "set (bs_sessions (snd (purge_closed_before cutoff b n s))) \<subseteq> set (bs_sessions s)"
    by (rule purge_closed_loop [where Q = "\<lambda>s t. set (bs_sessions t) \<subseteq> set (bs_sessions s)"])
      (use purge_rows_keeps(2) in \<open>blast+\<close>)
qed

lemma purge_abandoned_keeps:
  assumes "store_ok s"
  shows "store_ok (snd (purge_abandoned_before clock t cutoff b n s))"
    and "set (bs_sessions (snd (purge_abandoned_before clock t cutoff b n s))) \<subseteq> set (bs_sessions s)"
proof -
  show "store_ok (snd (purge_abandoned_before clock t cutoff b n s))"
    by (rule purge_abandoned_loop [where Q = "\<lambda>s t. store_ok s \<longrightarrow> store_ok t", THEN mp]) (simp_all add: purge_rows_keeps(1) assms)
  show "set (bs_sessions (snd (purge_abandoned_before clock t cutoff b n s))) \<subseteq> set (bs_sessions s)"
    by (rule purge_abandoned_loop [where Q = "\<lambda>s t. set (bs_sessions t) \<subseteq> set (bs_sessions s)"])
      (use purge_rows_keeps(2) in \<open>blast+\<close>)
qed

section \<open>Steps\<close>

definition step_ok :: "bridge_state \<Rightarrow> bridge_state \<Rightarrow> bool" where
  "step_ok x y = (bridge_inv y \<and> fst x \<subseteq> fst y \<and> follows (fst x) (snd x) (snd y))"

text \<open>A step that gives out no identifier.\<close>

lemma quiet_step_ok:
  assumes "bridge_inv (U, s)" "store_ok s'" "\<And>V. follows V s s'"
  shows "step_ok (U, s) (U, s')"
proof -
  have "hb_id r' \<in> U" if "r' \<in> set (bs_sessions s')" for r'
    using assms(1) assms(3) [of UNIV] that advances_frame(1) by (fastforce simp: follows_def bridge_inv_def)
  then show ?thesis using assms by (auto simp: step_ok_def bridge_inv_def)
qed

lemma draining_keeps:
  shows "store_ok s \<Longrightarrow> store_ok (snd (commit_draining counted now ids s))" and "follows U s (snd (commit_draining counted now ids s))"
proof -
  let ?f = "\<lambda>r. r\<lparr>hb_state := DRAINING_SESSION, hb_last_seen_at := now, hb_updated_at := now\<rparr>"
  have adv: "advances r (?f r)" for r by (simp add: advances_def session_key_def)
  have out: "snd (commit_draining counted now ids s) = s
      \<or> snd (commit_draining counted now ids s) = s\<lparr>bs_sessions := update_where (\<lambda>r. hb_id r \<in> set ids) ?f (bs_sessions s)\<rparr>"
    by (auto simp: commit_draining_def)
  then show "store_ok s \<Longrightarrow> store_ok (snd (commit_draining counted now ids s))"
    using store_ok_update [OF _ adv] by auto
  show "follows U s (snd (commit_draining counted now ids s))"
    using out
  proof
    assume "snd (commit_draining counted now ids s) = s"
    then show ?thesis by (intro follows_subset) simp
  next
    assume "snd (commit_draining counted now ids s) = s\<lparr>bs_sessions := update_where (\<lambda>r. hb_id r \<in> set ids) ?f (bs_sessions s)\<rparr>"
    then show ?thesis by (intro follows_update [OF adv]) simp
  qed
qed

text \<open>Draining leaves the owner of every row, its epoch and lease and its latest names.\<close>

definition ownership :: "HttpBridgeSessionRecord \<Rightarrow> string \<times> string option \<times> int \<times> int option \<times> string option \<times> string option" where
  "ownership r =
     (hb_id r, hb_owner_instance_id r, hb_owner_epoch r, hb_lease_expires_at r, hb_latest_turn_state r, hb_latest_response_id r)"

lemma draining_ownership:
  "map ownership (bs_sessions (snd (commit_draining counted now ids s))) = map ownership (bs_sessions s)"
  by (simp add: commit_draining_def update_where_def ownership_def)

lemma account_deleted_keeps:
  defines "h \<equiv> \<lambda>r. r\<lparr>hb_account_id := None\<rparr>"
  shows "store_ok s \<Longrightarrow> store_ok (s\<lparr>bs_sessions := update_where cond h (bs_sessions s)\<rparr>)"
    and "follows U s (s\<lparr>bs_sessions := update_where cond h (bs_sessions s)\<rparr>)"
proof -
  have adv: "advances r (h r)" for r by (simp add: h_def advances_def session_key_def)
  show "store_ok s \<Longrightarrow> store_ok (s\<lparr>bs_sessions := update_where cond h (bs_sessions s)\<rparr>)" by (rule store_ok_update [OF _ adv])
  show "follows U s (s\<lparr>bs_sessions := update_where cond h (bs_sessions s)\<rparr>)" by (rule follows_update [OF adv]) simp
qed

lemma account_closed_keeps:
  shows "store_ok s \<Longrightarrow> store_ok (close_http_bridge_sessions_for_account now acc s)"
    and "follows U s (close_http_bridge_sessions_for_account now acc s)"
proof -
  have adv: "advances r (close_account_row now r)" for r
    by (simp add: close_account_row_def advances_def session_key_def)
  show "store_ok (close_http_bridge_sessions_for_account now acc s)" if "store_ok s"
    using store_ok_update [OF filter_aliases_keeps [OF that] adv] by (simp add: close_http_bridge_sessions_for_account_def Let_def)
  show "follows U s (close_http_bridge_sessions_for_account now acc s)"
    by (rule follows_update [OF adv]) (simp add: close_http_bridge_sessions_for_account_def Let_def)
qed

lemma header_keeps:
  assumes "store_ok s" "list_all (\<lambda>r. hb_id r = i \<longrightarrow> hb_api_key_scope r = scope) (bs_sessions s)"
  shows "store_ok (snd (upsert_alias hash i kind v scope s))" and "bs_sessions (snd (upsert_alias hash i kind v scope s)) = bs_sessions s"
proof -
  have "list_ex (\<lambda>r. hb_id r = i \<and> hb_api_key_scope r = scope) (bs_sessions s)" if "list_ex (\<lambda>r. hb_id r = i) (bs_sessions s)"
    using that assms(2) by (auto simp: list_ex_iff list_all_iff)
  then show "store_ok (snd (upsert_alias hash i kind v scope s))"
    using upsert_keeps assms(1) by (simp add: upsert_alias_def)
  show "bs_sessions (snd (upsert_alias hash i kind v scope s)) = bs_sessions s" by (simp add: upsert_alias_def)
qed

lemma bridge_step_ok: "bridge_step x y \<Longrightarrow> bridge_inv x \<Longrightarrow> step_ok x y"
proof (induction rule: bridge_step.induct)
  case (claim new_id U s hash missed now api_key_id rq)
  then show ?case
    using claim_session_keeps [of s new_id U]
    by (auto simp: step_ok_def bridge_inv_def claim_live_session_def split_beta simp del: claim_session.simps)
next
  case (renew U s now i inst epoch ttl u st)
  then show ?case
    using fenced_update_keeps [OF advances_renew_row]
    by (intro quiet_step_ok) (simp_all add: bridge_inv_def renew_live_session_def renew_session_def split_beta)
next
  case (release U s now i inst epoch draining)
  then show ?case
    using fenced_update_keeps [OF advances_release_row]
    by (intro quiet_step_ok) (simp_all add: bridge_inv_def release_live_session_def release_session_def split_beta)
next
  case (drain U s counted now ids)
  then show ?case
    by (intro quiet_step_ok) (simp_all add: bridge_inv_def draining_keeps)
next
  case (turn_state U s hash now i api_key_id inst epoch v ttl)
  then show ?case by (intro quiet_step_ok) (simp_all add: bridge_inv_def register_turn_state_def register_keeps)
next
  case (response U s hash now i api_key_id inst epoch v ttl n f)
  then show ?case by (intro quiet_step_ok) (simp_all add: bridge_inv_def register_previous_response_id_def register_keeps)
next
  case (header i api_key_id s U hash v)
  then show ?case
    by (intro quiet_step_ok follows_subset) (simp_all add: bridge_inv_def register_session_header_def header_keeps)
next
  case (purge_closed U s cutoff ids)
  then show ?case
    by (intro quiet_step_ok follows_subset) (simp_all add: bridge_inv_def purge_rows_keeps)
next
  case (purge_abandoned U s now cutoff ids)
  then show ?case
    by (intro quiet_step_ok follows_subset) (simp_all add: bridge_inv_def purge_rows_keeps)
next
  case (account_deleted U s acc)
  then show ?case by (intro quiet_step_ok) (simp_all add: bridge_inv_def account_deleted_keeps)
next
  case (account_closed U s now acc)
  then show ?case by (intro quiet_step_ok) (simp_all add: bridge_inv_def account_closed_keeps)
qed

definition empty_bridge :: "bridge_state \<Rightarrow> bool" where
  "empty_bridge x = (bs_sessions (snd x) = [] \<and> bs_aliases (snd x) = [])"

interpretation bridge: invariant_system empty_bridge bridge_step bridge_inv
proof unfold_locales
  show "empty_bridge x \<Longrightarrow> bridge_inv x" for x by (simp add: empty_bridge_def bridge_inv_def store_ok_def)
  show "bridge_inv x \<Longrightarrow> bridge_step x y \<Longrightarrow> bridge_inv y" for x y
    using bridge_step_ok by (simp add: step_ok_def)
qed

text \<open>A session that has moved on from an owner never comes back to it, and its identifier is not given
  out again.\<close>

definition moved_on :: "string \<Rightarrow> string \<Rightarrow> int \<Rightarrow> bridge_state \<Rightarrow> bool" where
  "moved_on i inst epoch x =
     (i \<in> fst x \<and> (\<forall>r \<in> set (bs_sessions (snd x)). hb_id r = i \<longrightarrow> superseded inst epoch r))"

lemma moved_on_step:
  assumes "step_ok x y" "moved_on i inst epoch x"
  shows "moved_on i inst epoch y"
  unfolding moved_on_def
proof (intro conjI ballI impI)
  show "i \<in> fst y" using assms by (auto simp: step_ok_def moved_on_def)
  fix r' assume r': "r' \<in> set (bs_sessions (snd y))" "hb_id r' = i"
  then have "hb_id r' \<in> fst x" using assms(2) by (simp add: moved_on_def)
  then obtain r where r: "r \<in> set (bs_sessions (snd x))" "advances r r'"
    using assms(1) r'(1) unfolding step_ok_def follows_def by blast
  then have "superseded inst epoch r" using assms(2) r'(2) advances_frame(1) by (metis moved_on_def)
  then show "superseded inst epoch r'" using r(2) by (rule advances_superseded)
qed

lemma moved_on_steps:
  assumes "bridge_step\<^sup>*\<^sup>* x y" "bridge_inv x" "moved_on i inst epoch x"
  shows "bridge_inv y \<and> moved_on i inst epoch y"
  using assms
proof (induction rule: rtranclp_induct)
  case (step y z)
  then have ok: "step_ok y z" using bridge_step_ok by blast
  then have "bridge_inv z" by (simp add: step_ok_def)
  then show ?case using moved_on_step [OF ok] step by simp
qed simp

lemma moved_on_fenced:
  assumes "moved_on i inst epoch (U, t)" "r \<in> set (bs_sessions t)"
  shows "\<not> (hb_id r = i \<and> owned_by inst epoch r)"
  using assms by (auto simp: moved_on_def superseded_def owned_by_def)

lemma fenced_noop:
  assumes "\<And>r. r \<in> set (bs_sessions t) \<Longrightarrow> \<not> (hb_id r = i \<and> owned_by inst epoch r)"
  shows "execute_fenced_session_update i inst epoch f t = (get_session_by_id i t, t)"
    and "register_owned_alias hash now i scope inst epoch kind v ttl u t = (False, t)"
proof -
  have "List.find (\<lambda>r. hb_id r = i \<and> owned_by inst epoch r) (bs_sessions t) = None" using assms by (auto simp: find_None_iff)
  moreover have "update_where (\<lambda>r. hb_id r = i \<and> owned_by inst epoch r) f (bs_sessions t) = bs_sessions t"
    by (rule update_where_none) (rule assms)
  ultimately show "execute_fenced_session_update i inst epoch f t = (get_session_by_id i t, t)"
    by (simp add: execute_fenced_session_update_def Let_def)
  show "register_owned_alias hash now i scope inst epoch kind v ttl u t = (False, t)"
    using assms by (auto simp: register_owned_alias_def Let_def list_ex_iff)
qed

lemma closed_account_fenced:
  assumes "distinct (map hb_id (bs_sessions s))" "r \<in> set (bs_sessions s)" "hb_account_id r = Some acc"
    and "x \<in> set (bs_sessions (close_http_bridge_sessions_for_account now acc s))"
  shows "\<not> (hb_id x = hb_id r \<and> owned_by inst epoch x)"
proof
  assume x: "hb_id x = hb_id r \<and> owned_by inst epoch x"
  obtain y where y: "y \<in> set (bs_sessions s)" "x = (if hb_account_id y = Some acc then close_account_row now y else y)"
    using assms(4) by (auto simp: close_http_bridge_sessions_for_account_def Let_def update_where_def)
  then have "hb_id y = hb_id r" using x by (simp add: close_account_row_def split: if_splits)
  then have "y = r" using assms(1,2) y(1) by (auto simp: distinct_map inj_on_def)
  then show False using x y(2) assms(3) by (simp add: close_account_row_def owned_by_def)
qed

lemma to_snapshot_simps [simp]:
  "hb_id (to_snapshot r) = hb_id r" "hb_api_key_scope (to_snapshot r) = hb_api_key_scope r"
  "hb_owner_instance_id (to_snapshot r) = hb_owner_instance_id r" "hb_owner_epoch (to_snapshot r) = hb_owner_epoch r"
  "hb_latest_turn_state (to_snapshot r) = hb_latest_turn_state r"
  by (simp_all add: to_snapshot_def DurableBridgeSessionSnapshot.defs)

lemma filter_unique: "distinct (map f xs) \<Longrightarrow> x \<in> set xs \<Longrightarrow> filter (\<lambda>y. f y = f x) xs = [x]"
  by (induction xs) (auto simp: filter_empty_conv dest: rev_image_eqI [where f = f])

lemma first_row_member: "first_row rows = Some r \<Longrightarrow> r \<in> set rows"
  by (cases rows) (simp_all add: first_row_def)

lemma unique_row: "distinct (map hb_id rows) \<Longrightarrow> r \<in> set rows \<Longrightarrow> r' \<in> set rows \<Longrightarrow> hb_id r' = hb_id r \<Longrightarrow> r' = r"
  by (auto simp: distinct_map inj_on_def)

text \<open>What a claim can return: a new row, the row of another owner, or the row it has taken.\<close>

lemma claim_session_cases:
  "claim_session hash missed now new_id rq s = (Inr snap, s') \<Longrightarrow>
     hb_id snap = new_id \<and> bs_sessions s' = bs_sessions s @ [claimed_record hash now new_id rq]
   \<or> (\<exists>r \<in> set (bs_sessions s). snap = to_snapshot r \<and> claim_refused now rq r \<and> s' = s)
   \<or> (\<exists>r \<in> set (bs_sessions s). snap = to_snapshot (claim_row now rq r) \<and> \<not> claim_refused now rq r
        \<and> bs_sessions s' = update_where (\<lambda>x. hb_id x = hb_id r) (claim_row now rq) (bs_sessions s))"
proof (induction missed)
  case (Cons m ms)
  let ?k = "has_session_key (cl_session_key_kind rq) (hash (cl_session_key_value rq)) (cl_api_key_scope rq)"
  show ?case
  proof (cases "List.find ?k (bs_sessions s)")
    case None
    then show ?thesis using Cons.prems by (auto simp: claimed_record_def)
  next
    case (Some r)
    then have r: "r \<in> set (bs_sessions s)" by (auto simp: find_Some_iff)
    show ?thesis
    proof (cases m)
      case True
      then show ?thesis using Cons Some by (simp split: if_splits)
    next
      case False
      then have e: "claim_existing now rq r s = (snap, s')" using Cons.prems Some by (simp split: prod.splits)
      show ?thesis
      proof (cases "claim_refused now rq r")
        case True
        then show ?thesis using e r by (auto simp: claim_existing_def)
      next
        case False
        then have "snap = to_snapshot (claim_row now rq r)
            \<and> bs_sessions s' = update_where (\<lambda>x. hb_id x = hb_id r) (claim_row now rq) (bs_sessions s)"
          using e by (auto simp: claim_existing_def Let_def clear_aliases_for_session_def split: if_splits)
        then show ?thesis using False r by blast
      qed
    qed
  qed
qed simp

lemma claim_session_error: "claim_session hash missed now new_id rq s = (Inl e, s') \<Longrightarrow> s' = s"
  by (induction missed) (auto split: option.splits if_splits prod.splits)

lemma first_row_sorted: "first_row (sort_key f (filter P rows)) = Some r \<Longrightarrow> r \<in> set rows \<and> P r"
  by (drule first_row_member) simp

lemma resolve_alias_scope:
  assumes "store_ok s" "resolve_alias hash kind v scope s = Some snap"
  shows "hb_api_key_scope snap = scope"
proof -
  let ?rows = "concat (map (\<lambda>a. filter (\<lambda>r. hb_id r = al_session_id a) (bs_sessions s))
    (filter (has_alias_key kind (hash v) scope) (bs_aliases s)))"
  obtain r where r: "first_row ?rows = Some r" "snap = to_snapshot r" using assms(2) by (auto simp: resolve_alias_def)
  then have "r \<in> set ?rows" by (intro first_row_member)
  then obtain a where a: "a \<in> set (bs_aliases s)" "al_api_key_scope a = scope" "r \<in> set (bs_sessions s)" "hb_id r = al_session_id a"
    by (auto simp: has_alias_key_def)
  then have "alias_ok (bs_sessions s) a" using assms(1) by (simp add: store_ok_def list_all_iff)
  then obtain r' where "r' \<in> set (bs_sessions s)" "hb_id r' = al_session_id a" "hb_api_key_scope r' = scope"
    using a(2) by (auto simp: alias_ok_def list_ex_iff)
  moreover have "distinct (map hb_id (bs_sessions s))" using assms(1) by (simp add: store_ok_def)
  ultimately show ?thesis using unique_row [of "bs_sessions s" r r'] a r(2) by simp
qed

lemma resolve_upserted:
  assumes "store_ok s'" "s' = execute_alias_upsert hash i kind v scope s" "r \<in> set (bs_sessions s')" "hb_id r = i"
  shows "resolve_alias hash kind v scope s' = Some (to_snapshot r)"
proof -
  let ?k = "has_alias_key kind (hash v) scope"
  have own: "filter (\<lambda>x. hb_id x = i) (bs_sessions s') = [r]"
    using filter_unique [of hb_id "bs_sessions s'" r] assms(1,3,4) by (simp add: store_ok_def)
  have "\<exists>a \<in> set (bs_aliases s'). ?k a"
  proof (cases "list_ex ?k (bs_aliases s)")
    case True
    then obtain a where a: "a \<in> set (bs_aliases s)" "?k a" by (auto simp: list_ex_iff)
    let ?f = "\<lambda>a. a\<lparr>al_session_id := i, al_alias_value := v\<rparr>"
    have "?f a \<in> set (update_where ?k ?f (bs_aliases s))" using a by (force simp: update_where_def)
    then show ?thesis using a(2) True by (intro bexI [of _ "?f a"]) (simp_all add: assms(2) execute_alias_upsert_def has_alias_key_def)
  qed (simp add: assms(2) execute_alias_upsert_def has_alias_key_def)
  then obtain a where a: "a \<in> set (bs_aliases s')" "?k a" by blast
  have "al_session_id x = i" if x: "x \<in> set (bs_aliases s')" "?k x" for x
  proof (cases "list_ex ?k (bs_aliases s)")
    case True
    let ?f = "\<lambda>a. a\<lparr>al_session_id := i, al_alias_value := v\<rparr>"
    have "x \<in> set (update_where ?k ?f (bs_aliases s))" using x(1) True by (simp add: assms(2) execute_alias_upsert_def)
    then obtain y where "x = (if ?k y then ?f y else y)" unfolding update_where_def set_map by blast
    then show ?thesis using x(2) by (cases "?k y") simp_all
  next
    case False
    then have "x \<notin> set (bs_aliases s)" using x(2) by (auto simp: list_ex_iff)
    then show ?thesis using x(1) False by (simp add: assms(2) execute_alias_upsert_def)
  qed
  then have "map (\<lambda>a. filter (\<lambda>r. hb_id r = al_session_id a) (bs_sessions s')) (filter ?k (bs_aliases s'))
      = map (\<lambda>a. [r]) (filter ?k (bs_aliases s'))" using own by (auto intro: map_cong)
  moreover have "filter ?k (bs_aliases s') \<noteq> []" using a by (auto simp: filter_empty_conv)
  ultimately show ?thesis by (cases "filter ?k (bs_aliases s')") (simp_all add: resolve_alias_def first_row_def)
qed

section \<open>Properties\<close>

definition sample_claim :: "string \<Rightarrow> bool \<Rightarrow> ClaimRequest" where
  "sample_claim inst takeover =
     \<lparr>cl_session_key_kind = ''k'', cl_session_key_value = ''v'', cl_api_key_scope = [], cl_instance_id = inst,
      cl_lease_ttl_seconds = 60, cl_account_id = None, cl_model = None, cl_service_tier = None,
      cl_latest_turn_state = None, cl_latest_response_id = None, cl_allow_takeover = takeover,
      cl_force_owner_epoch_advance = False\<rparr>"

definition no_sessions :: BridgeStore where
  "no_sessions = \<lparr>bs_sessions = [], bs_aliases = []\<rparr>"

definition owned_session :: BridgeStore where
  "owned_session = snd (claim_live_session id (False, False) 10 ''s1'' None (sample_claim ''a'' False) no_sessions)"

definition taken_session :: BridgeStore where
  "taken_session = snd (claim_live_session id (False, False) 20 ''s2'' None (sample_claim ''b'' True) owned_session)"

lemma sample_claim_step: "bridge_step ({}, no_sessions) ({''s1''}, owned_session)"
  unfolding owned_session_def by (rule bridge_step.claim) simp

lemma no_sessions_empty: "empty_bridge ({}, no_sessions)" by (simp add: empty_bridge_def no_sessions_def)

lemma owned_session_inv: "bridge_inv ({''s1''}, owned_session)"
  using bridge.reachable_inv [OF no_sessions_empty] sample_claim_step by blast

lemma owned_session_eq:
  "owned_session = \<lparr>bs_sessions = [claimed_record id 10 ''s1'' ((sample_claim ''a'' False)\<lparr>cl_api_key_scope := ''__anonymous__''\<rparr>)],
                    bs_aliases = []\<rparr>"
  by (simp add: owned_session_def claim_live_session_def no_sessions_def durable_bridge_api_key_scope_def ANONYMOUS_API_KEY_SCOPE_def)

text \<open>C16: Fencing. Once another replica has claimed a session, the guarded writes of the previous owner, which carry the epoch it
  owned the session with, change nothing any more, however much later they come and whatever steps the replicas took in between: its renewals and
  releases leave the store as it is and answer with the current row, and it can register no turn state and no previous response
  for the session. Two writes carry no guard. Registering a session header can still point that name to the
  session, but leaves the rows of the sessions as they are; and draining, which marks the rows it has read earlier, leaves the
  owner, the epoch, the lease and the latest turn state and response of every row. (The identifiers of new rows are fresh, and a
  session header is registered under the key that the session belongs to.)\<close>

theorem takeover_fences_previous_owner:
  assumes "bridge_inv (U, s)" "r \<in> set (bs_sessions s)" "owned_by inst epoch r" "new_id \<notin> U"
    and "claim_live_session hash missed now new_id api_key_id rq s = (Inr lk, s1)"
    and "lk_session_id lk = hb_id r" "lk_owner_instance_id lk \<noteq> Some inst"
    and "bridge_step\<^sup>*\<^sup>* (insert new_id U, s1) (V, t)"
  shows "renew_session now' (hb_id r) inst epoch ttl u st t = (get_session_by_id (hb_id r) t, t)
    \<and> release_session now' (hb_id r) inst epoch draining t = (get_session_by_id (hb_id r) t, t)
    \<and> register_owned_alias hash now' (hb_id r) scope inst epoch kind v ttl u t = (False, t)
    \<and> register_turn_state hash now' (hb_id r) api_key inst epoch v ttl t = (False, t)
    \<and> register_previous_response_id hash now' (hb_id r) api_key inst epoch v ttl n f t = (False, t)
    \<and> bs_sessions (snd (register_session_header hash (hb_id r) api_key v t)) = bs_sessions t
    \<and> map ownership (bs_sessions (snd (commit_draining counted now' ids t))) = map ownership (bs_sessions t)"
proof -
  let ?rq = "rq\<lparr>cl_api_key_scope := durable_bridge_api_key_scope api_key_id\<rparr>"
  have inv1: "bridge_inv (insert new_id U, s1)"
    using bridge_step_ok [OF bridge_step.claim [OF assms(4), of s hash missed now api_key_id rq] assms(1)] assms(5)
    by (simp add: step_ok_def)
  have dist: "distinct (map hb_id (bs_sessions s))" and ids: "hb_id ` set (bs_sessions s) \<subseteq> U"
    using assms(1) by (simp_all add: bridge_inv_def store_ok_def)
  obtain snap where cs: "claim_session hash [fst missed, snd missed] now new_id ?rq s = (Inr snap, s1)" and lk: "lk = to_lookup snap"
    using assms(5) by (auto simp: claim_live_session_def res_map_Inr_iff simp del: claim_session.simps split: prod.splits)
  have snap: "hb_id snap = hb_id r" "hb_owner_instance_id snap \<noteq> Some inst" using assms(6,7) by (simp_all add: lk to_lookup_def)
  have "moved_on (hb_id r) inst epoch (insert new_id U, s1)"
    using claim_session_cases [OF cs]
  proof (elim disjE bexE conjE)
    assume "hb_id snap = new_id"
    then show ?thesis using snap(1) assms(2,4) ids by auto
  next
    fix r' assume kept: "r' \<in> set (bs_sessions s)" "snap = to_snapshot r'"
    then have "r' = r" using unique_row [OF dist assms(2)] snap(1) by simp
    then show ?thesis using kept(2) snap(2) assms(3) by (simp add: owned_by_def)
  next
    fix r' assume taken: "r' \<in> set (bs_sessions s)" "snap = to_snapshot (claim_row now ?rq r')"
      and rows: "bs_sessions s1 = update_where (\<lambda>x. hb_id x = hb_id r') (claim_row now ?rq) (bs_sessions s)"
    then have r': "r' = r" using unique_row [OF dist assms(2)] snap(1) advances_frame(1) [OF advances_claim_row] by simp
    then have other: "owner_changed ?rq r"
      using taken(2) snap(2) assms(3) by (auto simp: owned_by_def owner_changed_def claim_row_def Let_def split: if_splits)
    have "superseded inst epoch (claim_row now ?rq r)"
      using other assms(3) by (simp add: superseded_def owned_by_def claim_row_def claim_epoch_def Let_def)
    then have "superseded inst epoch x" if "x \<in> set (bs_sessions s1)" "hb_id x = hb_id r" for x
      using that unique_row [OF dist assms(2)] advances_frame(1) [OF advances_claim_row]
      by (auto simp: rows r' update_where_def split: if_splits)
    then show ?thesis using assms(2) ids by (auto simp: moved_on_def)
  qed
  then have "moved_on (hb_id r) inst epoch (V, t)" using moved_on_steps [OF assms(8) inv1] by blast
  note fenced = moved_on_fenced [OF this]
  show ?thesis
    by (simp add: renew_session_def release_session_def register_turn_state_def register_previous_response_id_def
        fenced_noop [OF fenced] register_session_header_def upsert_alias_def draining_ownership)
qed

theorem takeover_fences_previous_owner_witness:
  "renew_session 30 ''s1'' ''a'' 1 60 no_continuity None taken_session = (get_session_by_id ''s1'' taken_session, taken_session)
   \<and> register_owned_alias id 30 ''s1'' ''__anonymous__'' ''a'' 1 ''turn_state'' ''t'' 60 no_continuity taken_session = (False, taken_session)"
proof -
  let ?r = "claimed_record id 10 ''s1'' ((sample_claim ''a'' False)\<lparr>cl_api_key_scope := ''__anonymous__''\<rparr>)"
  have r: "?r \<in> set (bs_sessions owned_session)" "owned_by ''a'' 1 ?r" "hb_id ?r = ''s1''" "''s2'' \<notin> {''s1''}"
    by (simp_all add: owned_session_eq owned_by_def claimed_record_def sample_claim_def)
  obtain lk where lk: "claim_live_session id (False, False) 20 ''s2'' None (sample_claim ''b'' True) owned_session = (Inr lk, taken_session)"
    "lk_session_id lk = hb_id ?r" "lk_owner_instance_id lk \<noteq> Some ''a''"
    by (simp add: taken_session_def owned_session_eq claim_live_session_def has_session_key_def claimed_record_def sample_claim_def
        durable_bridge_api_key_scope_def ANONYMOUS_API_KEY_SCOPE_def claim_existing_def claim_refused_def account_changed_def
        claim_row_def Let_def to_lookup_def)
  show ?thesis
    using takeover_fences_previous_owner [OF owned_session_inv r(1,2,4) lk rtranclp.rtrancl_refl] unfolding r(3) by blast
qed

text \<open>A lease is a lease. A claim that is not allowed to take over leaves every session that another
  replica owns, actively and with a lease that has not run out, exactly as it was.\<close>

lemma claim_respects_live_lease:
  assumes "store_ok s" "r \<in> set (bs_sessions s)" "hb_owner_instance_id r = Some inst" "inst \<noteq> cl_instance_id rq"
    and "hb_state r = ACTIVE_SESSION" "hb_lease_expires_at r = Some t" "now < t" "\<not> cl_allow_takeover rq"
  shows "r \<in> set (bs_sessions (snd (claim_session hash missed now new_id rq s)))"
proof -
  have refused: "claim_refused now rq r"
    using assms(3-8) by (simp add: claim_refused_def owner_changed_def lease_expired_def state_allows_takeover_def)
  obtain res s' where cs: "claim_session hash missed now new_id rq s = (res, s')" by fastforce
  show ?thesis
  proof (cases res)
    case (Inl e)
    then show ?thesis using claim_session_error [of hash missed now new_id rq s e s'] cs assms(2) by simp
  next
    case (Inr snap)
    then have "claim_session hash missed now new_id rq s = (Inr snap, s')" using cs by simp
    from claim_session_cases [OF this] have "r \<in> set (bs_sessions s')"
    proof (elim disjE bexE conjE)
      fix r' assume taken: "r' \<in> set (bs_sessions s)" "\<not> claim_refused now rq r'"
        and rows: "bs_sessions s' = update_where (\<lambda>x. hb_id x = hb_id r') (claim_row now rq) (bs_sessions s)"
      have "hb_id r \<noteq> hb_id r'"
        using unique_row [of "bs_sessions s" r r'] taken refused assms(1,2) by (auto simp: store_ok_def)
      then show ?thesis using assms(2) by (force simp: rows update_where_def)
    qed (use assms(2) in simp_all)
    then show ?thesis using cs by simp
  qed
qed

text \<open>Scopes do not mix. In every store that the operations reach from the empty one, a lookup with
  an API key finds only sessions that were opened under the same key, by whichever name it finds
  them.\<close>

lemma lookup_stays_in_scope:
  assumes "empty_bridge x" "bridge_step\<^sup>*\<^sup>* x (U, s)"
    and "lookup_request_targets hash kind v api_key_id turn_state session_header previous_response_id s = Some lk"
  shows "lk_api_key_scope lk = durable_bridge_api_key_scope api_key_id"
proof -
  let ?scope = "durable_bridge_api_key_scope api_key_id"
  have ok: "store_ok s" using bridge.reachable_inv [OF assms(1,2)] by (simp add: bridge_inv_def)
  have by_alias: "hb_api_key_scope snap = ?scope" if "resolve_alias hash k w ?scope s = Some snap" for k w snap
    using resolve_alias_scope [OF ok that] .
  have "hb_api_key_scope snap = ?scope" if "resolve_aliases hash names ?scope s = Some snap" for names snap
    using that by (induction names) (auto dest: by_alias split: option.splits)
  moreover have "hb_api_key_scope snap = ?scope" if "get_session hash kind v ?scope s = Some snap" for snap
    using that by (auto simp: get_session_def find_Some_iff has_session_key_def)
  moreover have "hb_api_key_scope snap = ?scope" if "find_session_by_latest_turn_state x ?scope s = Some snap" for x snap
    using that by (auto simp: find_session_by_latest_turn_state_def dest!: first_row_sorted)
  moreover have "hb_api_key_scope snap = ?scope" if "find_session_by_latest_response_id x ?scope s = Some snap" for x snap
    using that by (auto simp: find_session_by_latest_response_id_def dest!: first_row_sorted)
  ultimately show ?thesis
    using assms(3) by (auto simp: lookup_request_targets_def to_lookup_def Let_def simp del: resolve_aliases.simps split: option.splits if_splits)
qed

text \<open>A turn state that its owner has registered is found again: the next lookup by it, under the
  same API key, returns that session with that turn state as its latest.\<close>

lemma registered_turn_state_found:
  assumes "store_ok s" "register_turn_state hash now i api_key_id inst epoch turn_state ttl s = (True, s')"
  shows "\<exists>lk. lookup_turn_state_target hash turn_state api_key_id s' = Some lk \<and> lk_session_id lk = i
    \<and> lk_latest_turn_state lk = Some turn_state \<and> lk_owner_instance_id lk = Some inst \<and> lk_owner_epoch lk = epoch"
proof -
  let ?scope = "durable_bridge_api_key_scope api_key_id" and ?u = "no_continuity\<lparr>cu_latest_turn_state := Some turn_state\<rparr>"
  let ?cond = "\<lambda>r. hb_id r = i \<and> hb_api_key_scope r = ?scope \<and> owned_by inst epoch r"
  let ?s1 = "s\<lparr>bs_sessions := update_where ?cond (register_row now ttl ?u) (bs_sessions s)\<rparr>"
  have ex: "list_ex ?cond (bs_sessions s)" and s': "s' = execute_alias_upsert hash i ''turn_state'' turn_state ?scope ?s1"
    using assms(2) by (auto simp: register_turn_state_def register_owned_alias_def Let_def split: if_splits)
  have ok: "store_ok s'" using register_keeps(1) [OF assms(1)] assms(2) unfolding register_turn_state_def by (metis snd_conv)
  obtain r where r: "r \<in> set (bs_sessions s)" "?cond r" using ex by (auto simp: list_ex_iff)
  let ?r = "register_row now ttl ?u r"
  have mem: "?r \<in> set (bs_sessions s')" using r by (force simp: s' update_where_def)
  have "resolve_alias hash ''turn_state'' turn_state ?scope s' = Some (to_snapshot ?r)"
    using resolve_upserted [OF ok s'] mem r(2) advances_frame(1) [OF advances_register_row] by simp
  then show ?thesis
    using r(2) by (simp add: lookup_turn_state_target_def to_lookup_def owned_by_def register_row_def no_continuity_def Let_def)
qed

text \<open>Purging removes exactly what it names: of the closed sessions all that were last seen before
  the cutoff and no other, in batches of any positive size; and of the others never one whose lease
  has not run out.\<close>

lemma purge_exact:
  assumes "0 < b" "\<And>k. clock k \<le> latest"
  shows "bs_sessions (snd (purge_closed_before cutoff b n s)) = filter (\<lambda>r. \<not> is_closed_before cutoff r) (bs_sessions s)
    \<and> filter (\<lambda>r. case hb_lease_expires_at r of None \<Rightarrow> False | Some t \<Rightarrow> t \<ge> latest)
        (bs_sessions (snd (purge_abandoned_before clock turn cutoff b n s)))
      = filter (\<lambda>r. case hb_lease_expires_at r of None \<Rightarrow> False | Some t \<Rightarrow> t \<ge> latest) (bs_sessions s)"
proof -
  let ?P = "is_closed_before cutoff" and ?L = "\<lambda>r. case hb_lease_expires_at r of None \<Rightarrow> False | Some t \<Rightarrow> t \<ge> latest"
  have "bs_sessions (snd (purge_closed_before cutoff b n s)) = filter (\<lambda>r. \<not> ?P r) (bs_sessions s)"
  proof (rule purge_closed_loop [where Q = "\<lambda>s t. bs_sessions t = filter (\<lambda>r. \<not> ?P r) (bs_sessions s)"])
    fix s assume "purge_batch ?P b s = []"
    then have "filter ?P (bs_sessions s) = []" using assms(1) by (auto simp: purge_batch_def dest: arg_cong [of _ "[]" length])
    then show "bs_sessions s = filter (\<lambda>r. \<not> ?P r) (bs_sessions s)" by (simp add: filter_empty_conv filter_id_conv)
  next
    fix s t assume "bs_sessions t = filter (\<lambda>r. \<not> ?P r) (bs_sessions (snd (purge_rows ?P (purge_batch ?P b s) s)))"
    then show "bs_sessions t = filter (\<lambda>r. \<not> ?P r) (bs_sessions s)"
      by (auto simp: purge_rows_def Let_def intro: filter_cong)
  qed
  moreover have "filter ?L (bs_sessions (snd (purge_abandoned_before clock turn cutoff b n s))) = filter ?L (bs_sessions s)"
  proof (rule purge_abandoned_loop [where Q = "\<lambda>s t. filter ?L (bs_sessions t) = filter ?L (bs_sessions s)"])
    fix k s t
    let ?A = "is_abandoned_before (clock k) cutoff"
    assume *: "filter ?L (bs_sessions t) = filter ?L (bs_sessions (snd (purge_rows ?A (purge_batch ?A b s) s)))"
    have "\<not> ?A r" if "?L r" for r using that assms(2) [of k] by (auto simp: is_abandoned_before_def split: option.splits)
    then have "filter ?L (bs_sessions (snd (purge_rows ?A (purge_batch ?A b s) s))) = filter ?L (bs_sessions s)"
      by (auto simp: purge_rows_def Let_def intro: filter_cong)
    then show "filter ?L (bs_sessions t) = filter ?L (bs_sessions s)" using * by simp
  qed simp
  ultimately show ?thesis by blast
qed

end
