(* ===== verification/Balancer_Runtime.thy ===== *)
theory Balancer_Runtime
  imports Account_State Sticky_Sessions Durable_Bridge
begin

text \<open>
  The operations of the load balancer that record the outcome of a request, after
  \<open>codex-lb/app/modules/proxy/load_balancer.py\<close> (\<open>mark_rate_limit\<close>, \<open>mark_quota_exceeded\<close>,
  \<open>mark_permanent_failure\<close>, \<open>record_errors\<close>, \<open>record_success\<close> and what they call) and the status
  writes of \<open>codex-lb/app/modules/accounts/repository.py\<close>.

  Three states are explicit: the account object of the caller, the replica (its runtime table, its
  routing overlay, the generation of its selection cache) and the database that replicas share.
  A database call is one step. The invalidation poller is left out.
\<close>

section \<open>State\<close>

record Database =
  db_accounts :: "(string \<times> Account) list"
  db_sticky :: "StickySession list"
  db_bridges :: BridgeStore

record Replica =
  rp_runtime :: runtime_table
  rp_unavailable :: "string list"
  rp_generation :: int

section \<open>Status writes\<close>

record StatusWrite =
  sw_status :: AccountStatus
  sw_reason :: "string option"
  sw_reset_at :: "int option"
  sw_blocked_at :: "int option"

definition write_status :: "StatusWrite \<Rightarrow> Account \<Rightarrow> Account" where
  "write_status w acc =
     acc\<lparr>acc_status := sw_status w, acc_deactivation_reason := sw_reason w,
         acc_reset_at := sw_reset_at w, acc_blocked_at := sw_blocked_at w\<rparr>"

definition drop_sessions :: "int \<Rightarrow> AccountStatus \<Rightarrow> string \<Rightarrow> Database \<Rightarrow> Database" where
  "drop_sessions utcnow s i db =
     (if s \<in> {REAUTH_REQUIRED, DEACTIVATED}
      then db\<lparr>db_sticky := filter (\<lambda>r. ss_account_id r \<noteq> i) (db_sticky db),
              db_bridges := close_http_bridge_sessions_for_account utcnow i (db_bridges db)\<rparr>
      else db)"

definition update_status :: "int \<Rightarrow> string \<Rightarrow> StatusWrite \<Rightarrow> Database \<Rightarrow> bool \<times> Database" where
  "update_status utcnow i w db =
     (let db1 = (case map_of (db_accounts db) i of
                   None \<Rightarrow> db
                 | Some row \<Rightarrow> db\<lparr>db_accounts := AList.update i (write_status w row) (db_accounts db)\<rparr>)
      in (map_of (db_accounts db) i \<noteq> None, drop_sessions utcnow (sw_status w) i db1))"

definition row_matches :: "Account \<Rightarrow> string option \<Rightarrow> Account \<Rightarrow> bool" where
  "row_matches expected token row =
     (acc_status row = acc_status expected \<and> acc_deactivation_reason row = acc_deactivation_reason expected
      \<and> acc_reset_at row = acc_reset_at expected \<and> acc_blocked_at row = acc_blocked_at expected
      \<and> (case token of None \<Rightarrow> True | Some t \<Rightarrow> acc_refresh_token row = t))"

definition update_status_if_current ::
  "int \<Rightarrow> string \<Rightarrow> StatusWrite \<Rightarrow> Account \<Rightarrow> string option \<Rightarrow> Database \<Rightarrow> bool \<times> Database" where
  "update_status_if_current utcnow i w expected token db =
     (case map_of (db_accounts db) i of
        None \<Rightarrow> (False, db)
      | Some row \<Rightarrow>
          if row_matches expected token row
          then (True, drop_sessions utcnow (sw_status w) i
                        (db\<lparr>db_accounts := AList.update i (write_status w row) (db_accounts db)\<rparr>))
          else (False, db))"

definition status_write_of :: "AccountState \<Rightarrow> StatusWrite" where
  "status_write_of st =
     \<lparr>sw_status = status st, sw_reason = deactivation_reason st,
      sw_reset_at = (if truthy (reset_at st) then map_option py_int (reset_at st) else None),
      sw_blocked_at = (if truthy (blocked_at st) then map_option py_int (blocked_at st) else None)\<rparr>"

definition status_dirty :: "Account \<Rightarrow> StatusWrite \<Rightarrow> bool" where
  "status_dirty acc w =
     (acc_status acc \<noteq> sw_status w \<or> acc_deactivation_reason acc \<noteq> sw_reason w
      \<or> acc_reset_at acc \<noteq> sw_reset_at w \<or> acc_blocked_at acc \<noteq> sw_blocked_at w)"

definition persist_state :: "int \<Rightarrow> Account \<Rightarrow> AccountState \<Rightarrow> Database \<Rightarrow> Account \<times> Database" where
  "persist_state utcnow acc st db =
     (let w = status_write_of st
      in if status_dirty acc w then (write_status w acc, snd (update_status utcnow (acc_id acc) w db)) else (acc, db))"

definition persist_state_if_current ::
  "int \<Rightarrow> Account \<Rightarrow> AccountState \<Rightarrow> string option \<Rightarrow> Database \<Rightarrow> bool \<times> Account \<times> Database" where
  "persist_state_if_current utcnow acc st token db =
     (let w = status_write_of st
      in if status_dirty acc w
         then (case update_status_if_current utcnow (acc_id acc) w acc token db of
                 (updated, db') \<Rightarrow> (updated, if updated then write_status w acc else acc, db'))
         else (True, acc, db))"

fun persist_selection_state ::
  "(string \<Rightarrow> int) \<Rightarrow> (string \<Rightarrow> Account option) \<Rightarrow> AccountState list \<Rightarrow> Database \<Rightarrow> string list \<times> (string \<Rightarrow> Account option) \<times> Database" where
  "persist_selection_state utcnow account_map [] db = ([], account_map, db)"
| "persist_selection_state utcnow account_map (st # sts) db =
     (if ignore_standard_quota st then persist_selection_state utcnow account_map sts db
      else (case account_map (account_id st) of
              None \<Rightarrow> persist_selection_state utcnow account_map sts db
            | Some acc \<Rightarrow>
                (case persist_state_if_current (utcnow (account_id st)) acc st None db of
                   (persisted, acc', db1) \<Rightarrow>
                     (case persist_selection_state utcnow (account_map(account_id st \<mapsto> acc')) sts db1 of
                        (stale, m, db2) \<Rightarrow> (if persisted then stale else acc_id acc # stale, m, db2)))))"

section \<open>Runtime entries\<close>

definition state_for :: "Account \<Rightarrow> RuntimeState \<Rightarrow> AccountState" where
  "state_for acc rt =
     (new_account (acc_id acc) (acc_status acc))
       \<lparr>reset_at := rt_reset_at rt,
        blocked_at := effective_blocked_at acc rt,
        cooldown_until := rt_cooldown_until rt, last_error_at := rt_last_error_at rt,
        last_selected_at := rt_last_selected_at rt, error_count := rt_error_count rt,
        deactivation_reason := acc_deactivation_reason acc, plan_type := Some (acc_plan_type acc),
        capacity_credits := capacity_for_plan (Some (acc_plan_type acc)) ''secondary'',
        routing_policy := normalize_account_routing_policy (acc_routing_policy acc),
        ignore_standard_quota := False\<rparr>"

definition runtime_dirty :: "Account \<Rightarrow> AccountState \<Rightarrow> RuntimeState \<Rightarrow> bool" where
  "runtime_dirty acc st rt =
     (rt_reset_at rt \<noteq> reset_at st \<or> rt_cooldown_until rt \<noteq> cooldown_until st \<or> rt_blocked_at rt \<noteq> blocked_at st
      \<or> rt_last_error_at rt \<noteq> last_error_at st \<or> rt_error_count rt \<noteq> error_count st
      \<or> acc_status acc \<noteq> status st \<or> acc_deactivation_reason acc \<noteq> deactivation_reason st)"

definition sync_runtime_entry ::
  "pyfloat \<Rightarrow> Account \<Rightarrow> AccountState \<Rightarrow> bool \<Rightarrow> int option \<Rightarrow> RuntimeState \<Rightarrow> bool \<times> RuntimeState" where
  "sync_runtime_entry now acc st selected expected_version rt =
     (if expected_version \<noteq> None \<and> rt_version rt \<noteq> the expected_version
      then (False, if selected then rt\<lparr>rt_last_selected_at := Some now, rt_version := rt_version rt + 1\<rparr> else rt)
      else (let dirty = (runtime_dirty acc st rt \<or> selected);
                rt1 = rt\<lparr>rt_reset_at := reset_at st, rt_cooldown_until := cooldown_until st,
                         rt_blocked_at := blocked_at st, rt_last_error_at := last_error_at st,
                         rt_error_count := error_count st\<rparr>;
                rt2 = (if selected then rt1\<lparr>rt_last_selected_at := Some now\<rparr> else rt1)
            in (True, if dirty then rt2\<lparr>rt_version := rt_version rt2 + 1\<rparr> else rt2)))"

definition sync_runtime_state ::
  "pyfloat \<Rightarrow> Account \<Rightarrow> AccountState \<Rightarrow> bool \<Rightarrow> int option \<Rightarrow> runtime_table \<Rightarrow> bool \<times> runtime_table" where
  "sync_runtime_state now acc st selected expected_version table =
     (case sync_runtime_entry now acc st selected expected_version (runtime_get (acc_id acc) table) of
        (ok, rt) \<Rightarrow> (ok, AList.update (acc_id acc) rt (runtime_setdefault (acc_id acc) table)))"

section \<open>Outcomes\<close>

text \<open>The part that all markings share: build the state, change it, write it to the runtime table.\<close>

definition mark_runtime :: "(AccountState \<Rightarrow> AccountState) \<Rightarrow> Account \<Rightarrow> Replica \<Rightarrow> AccountState \<times> Replica" where
  "mark_runtime handle acc rp =
     (let st = handle (state_for acc (runtime_get (acc_id acc) (rp_runtime rp)))
      in (st, rp\<lparr>rp_runtime := snd (sync_runtime_state 0 acc st False None (rp_runtime rp))\<rparr>))"

definition mark_rate_limit ::
  "int \<Rightarrow> pyfloat \<Rightarrow> pyfloat \<Rightarrow> pyfloat \<Rightarrow> UpstreamError \<Rightarrow> Account \<Rightarrow> Replica \<Rightarrow> Database \<Rightarrow> Account \<times> Replica \<times> Database" where
  "mark_rate_limit utcnow now time2 u err acc rp db =
     (case mark_runtime (handle_rate_limit now time2 u err) acc rp of
        (st, rp1) \<Rightarrow>
          (case persist_state utcnow acc st db of
             (acc', db') \<Rightarrow> (acc', rp1\<lparr>rp_generation := rp_generation rp1 + 1\<rparr>, db')))"

definition mark_quota_exceeded ::
  "int \<Rightarrow> pyfloat \<Rightarrow> pyfloat \<Rightarrow> pyfloat \<Rightarrow> UpstreamError \<Rightarrow> Account \<Rightarrow> Replica \<Rightarrow> Database \<Rightarrow> Account \<times> Replica \<times> Database" where
  "mark_quota_exceeded utcnow time1 time2 time3 err acc rp db =
     (case mark_runtime (handle_quota_exceeded time1 time2 time3 err) acc rp of
        (st, rp1) \<Rightarrow>
          (case persist_state utcnow acc st db of
             (acc', db') \<Rightarrow> (acc', rp1\<lparr>rp_generation := rp_generation rp1 + 1\<rparr>, db')))"

definition mark_permanent_failure ::
  "int \<Rightarrow> string \<Rightarrow> Account \<Rightarrow> Replica \<Rightarrow> Database \<Rightarrow> bool \<times> Account \<times> Replica \<times> Database" where
  "mark_permanent_failure utcnow error_code acc rp db =
     (case mark_runtime (handle_permanent_failure error_code) acc rp of
        (st, rp1) \<Rightarrow>
          (case persist_state_if_current utcnow acc st (Some (acc_refresh_token acc)) db of
             (downgraded, acc', db') \<Rightarrow>
               (downgraded, acc',
                rp1\<lparr>rp_unavailable := (if downgraded then List.insert (acc_id acc) (rp_unavailable rp1)
                                      else rp_unavailable rp1),
                    rp_generation := rp_generation rp1 + 1\<rparr>, db')))"

definition record_errors :: "int \<Rightarrow> pyfloat \<Rightarrow> int \<Rightarrow> Account \<Rightarrow> Replica \<Rightarrow> Database \<Rightarrow> Replica \<times> Database" where
  "record_errors utcnow now n acc rp db =
     (if n < 1 then (rp, db)
      else (case mark_runtime (\<lambda>st. st\<lparr>error_count := error_count st + n, last_error_at := Some now\<rparr>) acc rp of
              (st, rp1) \<Rightarrow>
                let rt = note_probe_failure (runtime_get (acc_id acc) (rp_runtime rp1));
                    rp2 = rp1\<lparr>rp_runtime := AList.update (acc_id acc) rt (rp_runtime rp1)\<rparr>
                in (rp2, snd (snd (persist_state_if_current utcnow acc st None db)))))"

definition record_error :: "int \<Rightarrow> pyfloat \<Rightarrow> Account \<Rightarrow> Replica \<Rightarrow> Database \<Rightarrow> Replica \<times> Database" where
  "record_error utcnow now acc rp db = record_errors utcnow now 1 acc rp db"

definition record_success :: "Account \<Rightarrow> Replica \<Rightarrow> Replica" where
  "record_success acc rp =
     (case map_of (rp_runtime rp) (acc_id acc) of
        None \<Rightarrow> rp
      | Some rt \<Rightarrow> rp\<lparr>rp_runtime := AList.update (acc_id acc) (note_success rt) (rp_runtime rp)\<rparr>)"

section \<open>Lemmas\<close>

lemma state_for_fields [simp]:
  "status (state_for acc rt) = acc_status acc" "reset_at (state_for acc rt) = rt_reset_at rt"
  "blocked_at (state_for acc rt) = effective_blocked_at acc rt"
  "deactivation_reason (state_for acc rt) = acc_deactivation_reason acc"
  "error_count (state_for acc rt) = rt_error_count rt"
  by (simp_all add: state_for_def new_account_def)

lemma write_status_fields [simp]:
  "acc_id (write_status w acc) = acc_id acc" "acc_status (write_status w acc) = sw_status w"
  "acc_deactivation_reason (write_status w acc) = sw_reason w"
  "acc_reset_at (write_status w acc) = sw_reset_at w" "acc_blocked_at (write_status w acc) = sw_blocked_at w"
  "acc_refresh_token (write_status w acc) = acc_refresh_token acc"
  by (simp_all add: write_status_def)

lemma write_status_clean: "\<not> status_dirty acc w \<Longrightarrow> write_status w acc = acc"
  by (simp add: status_dirty_def write_status_def)

lemma drop_sessions_accounts [simp]: "db_accounts (drop_sessions utcnow s i db) = db_accounts db"
  by (simp add: drop_sessions_def)

lemma mark_runtime_state:
  "fst (mark_runtime handle acc rp) = handle (state_for acc (runtime_get (acc_id acc) (rp_runtime rp)))"
  "rp_unavailable (snd (mark_runtime handle acc rp)) = rp_unavailable rp"
  "rp_generation (snd (mark_runtime handle acc rp)) = rp_generation rp"
  by (simp_all add: mark_runtime_def Let_def)

text \<open>While the object agrees with its row, a persisted state leaves both at the written status.\<close>

lemma persist_state_row:
  assumes "map_of (db_accounts db) (acc_id acc) = Some acc"
  shows "map_of (db_accounts (snd (persist_state utcnow acc st db))) (acc_id acc)
     = Some (write_status (status_write_of st) acc)"
    and "fst (persist_state utcnow acc st db) = write_status (status_write_of st) acc"
  using assms
  by (auto simp: persist_state_def update_status_def Let_def update_conv write_status_clean)

lemma persist_if_current_row:
  assumes "map_of (db_accounts db) (acc_id acc) = Some acc" "token = None \<or> token = Some (acc_refresh_token acc)"
  shows "fst (persist_state_if_current utcnow acc st token db)"
    and "map_of (db_accounts (snd (snd (persist_state_if_current utcnow acc st token db)))) (acc_id acc)
     = Some (write_status (status_write_of st) acc)"
  using assms
  by (auto simp: persist_state_if_current_def update_status_if_current_def row_matches_def Let_def
      update_conv write_status_clean split: option.split)

text \<open>A parsed retry hint is never negative, so the deadline of a rate limit is not in the past.\<close>

lemma add_token_nonneg: "0 \<le> fst acc \<Longrightarrow> 0 \<le> fst (add_token acc t)"
proof -
  assume a: "0 \<le> fst acc"
  obtain tot m ds fr unit where [simp]: "acc = (tot, m)" "t = (ds, fr, unit)" by (metis prod_cases3 surj_pair)
  have "0 \<le> token_number ds fr" by (simp add: token_number_def)
  moreover have "0 \<le> k" if "map_of UNIT_SECONDS x = Some k" for x k
    using map_of_SomeD [OF that] by (auto simp: UNIT_SECONDS_def)
  ultimately show ?thesis using a by (auto simp: add_token_def split: option.split)
qed

lemma parse_retry_after_nonneg: "parse_retry_after m = Some d \<Longrightarrow> 0 \<le> d"
proof -
  assume p: "parse_retry_after m = Some d"
  have "0 \<le> fst (foldl add_token (0, False) ts)" for ts
    by (rule foldl_inv [where P = "\<lambda>a. 0 \<le> fst a"]) (simp_all add: add_token_nonneg)
  then show ?thesis using p by (auto simp: parse_retry_after_def split: option.splits prod.splits if_splits) (metis fst_conv)
qed

lemma hinted_delay_nonneg: "hinted_delay err = Some d \<Longrightarrow> 0 \<le> d"
  by (auto simp: hinted_delay_def parse_retry_after_nonneg split: option.splits if_splits)

lemma rate_limit_reset:
  assumes "extract_reset_at t err = None" "0 < now" "0 \<le> u"
  obtains r where "reset_at (handle_rate_limit now t u err st) = Some (of_int r)" "0 < r" "now \<le> of_int r"
    "hinted_delay err = None \<longrightarrow> now + 30 \<le> of_int r"
    "blocked_at (handle_rate_limit now t u err st) = Some now"
proof -
  define p where "p = (case hinted_delay err of Some d \<Rightarrow> d | None \<Rightarrow> max (backoff_seconds u (error_count st + 1)) 30)"
  define r where "r = \<lceil>now + p\<rceil>"
  have "0 \<le> p" using hinted_delay_nonneg by (auto simp: p_def split: option.split)
  moreover have le: "now + p \<le> of_int r" unfolding r_def by (rule backoff_le_ceil)
  ultimately have "now \<le> of_int r" by linarith
  moreover from this have "0 < real_of_int r" using assms(2) by linarith
  then have "0 < r" by simp
  moreover have "hinted_delay err = None \<longrightarrow> 30 \<le> p" by (simp add: p_def)
  then have "hinted_delay err = None \<longrightarrow> now + 30 \<le> of_int r" using le by linarith
  moreover have "reset_at (handle_rate_limit now t u err st) = Some (of_int r)"
    using rate_limit_fields(2) [OF assms(1), of now u st] by (simp add: r_def p_def)
  moreover have "blocked_at (handle_rate_limit now t u err st) = Some now"
    by (simp add: handle_rate_limit_def Let_def)
  ultimately show ?thesis by - (rule that [of r]; assumption)
qed

lemma mark_rate_limit_row:
  assumes "map_of (db_accounts db) (acc_id acc) = Some acc"
    and "extract_reset_at t err = None" "1 \<le> now" "0 \<le> u"
  obtains row r where "map_of (db_accounts (snd (snd (mark_rate_limit utcnow now t u err acc rp db)))) (acc_id acc) = Some row"
    "acc_status row = RATE_LIMITED" "acc_reset_at row = Some r" "0 < r" "now \<le> of_int r"
    "hinted_delay err = None \<longrightarrow> now + 30 \<le> of_int r" "acc_blocked_at row = Some (py_int now)"
proof -
  define st where "st = handle_rate_limit now t u err (state_for acc (runtime_get (acc_id acc) (rp_runtime rp)))"
  have n: "0 < now" using assms(3) by simp
  obtain r where r: "reset_at st = Some (of_int r)" "0 < r" "now \<le> of_int r"
      "hinted_delay err = None \<longrightarrow> now + 30 \<le> of_int r" "blocked_at st = Some now"
    unfolding st_def by (rule rate_limit_reset [OF assms(2) n assms(4)])
  have s: "status st = RATE_LIMITED" unfolding st_def by (rule rate_limit_fields(1) [OF assms(2)])
  have "snd (snd (mark_rate_limit utcnow now t u err acc rp db)) = snd (persist_state utcnow acc st db)"
    unfolding mark_rate_limit_def mark_runtime_def st_def Let_def case_prod_beta fst_conv snd_conv ..
  then have "map_of (db_accounts (snd (snd (mark_rate_limit utcnow now t u err acc rp db)))) (acc_id acc)
      = Some (write_status (status_write_of st) acc)"
    using persist_state_row(1) [OF assms(1)] by simp
  then show ?thesis
    using that [of "write_status (status_write_of st) acc" r] r s n by (simp add: status_write_of_def)
qed

lemma sync_runtime_step: "lease_step ls caps t (snd (sync_runtime_state now acc st sel ver t))"
proof -
  let ?rt = "runtime_get (acc_id acc) t"
  have "snd (sync_runtime_state now acc st sel ver t) = AList.update (acc_id acc) (snd (sync_runtime_entry now acc st sel ver ?rt)) t"
    by (simp add: sync_runtime_state_def update_setdefault split: prod.split)
  moreover have "rt_leases (snd (sync_runtime_entry now acc st sel ver ?rt)) = rt_leases ?rt"
    "rt_leased_tokens (snd (sync_runtime_entry now acc st sel ver ?rt)) = rt_leased_tokens ?rt"
    "inflight kind (snd (sync_runtime_entry now acc st sel ver ?rt)) = inflight kind ?rt" for kind
    by (cases kind; simp add: sync_runtime_entry_def Let_def inflight_def)+
  ultimately show ?thesis by (metis lease_step.other)
qed

section \<open>Properties\<close>

text \<open>C24: a 429 that one replica sees holds on the replicas that have not seen one since. When the object agrees with its row,
  the clock is past its first second and the random draw is not negative,
  marking a rate limit without reset metadata writes a deadline to the database that lies at or
  after the moment of the 429, at least 30 seconds after it when no retry hint was given. A replica whose runtime entry has no
  cooldown, or whose own marker of the last block it saw (if it has one) is older than the second of this 429, and that evaluates
  the row with all readings of its clock before the deadline, builds a rate-limited state with that deadline and that
  moment of the block, whatever the usage rows and its settings are; and its selector leaves that state as it is and skips the account at
  every time before the deadline, in every call that does not bypass the standard quota for the account.\<close>

theorem rate_limit_holds_across_replicas:
  assumes "map_of (db_accounts db) (acc_id acc) = Some acc" "extract_reset_at t err = None" "1 \<le> now" "0 \<le> u"
  shows "\<exists>row r. map_of (db_accounts (snd (snd (mark_rate_limit utcnow now t u err acc rp db)))) (acc_id acc) = Some row
     \<and> acc_reset_at row = Some r \<and> now \<le> of_int r \<and> (hinted_delay err = None \<longrightarrow> now + 30 \<le> of_int r)
     \<and> (\<forall>settings clk pe se rt st.
          (rt_cooldown_until rt = None \<or> (\<forall>x. rt_blocked_at rt = Some x \<longrightarrow> x < of_int (py_int now)))
          \<and> (\<forall>i. time clk i < of_int r) \<and> st = fst (state_from_account settings clk row pe se rt) \<longrightarrow>
          status st = RATE_LIMITED \<and> reset_at st = Some (of_int r) \<and> blocked_at st = Some (of_int (py_int now))
          \<and> (\<forall>c args. c < of_int r \<and> \<not> bypass_standard_quota args st \<longrightarrow> check_state c args st = (st, Skipped)))"
proof -
  obtain row r where row: "map_of (db_accounts (snd (snd (mark_rate_limit utcnow now t u err acc rp db)))) (acc_id acc) = Some row"
    "acc_status row = RATE_LIMITED" "acc_reset_at row = Some r" "0 < r" "now \<le> of_int r"
    "hinted_delay err = None \<longrightarrow> now + 30 \<le> of_int r" "acc_blocked_at row = Some (py_int now)"
    by (rule mark_rate_limit_row [OF assms, where rp = rp])
  have "status st = RATE_LIMITED \<and> reset_at st = Some (of_int r) \<and> blocked_at st = Some (of_int (py_int now))
      \<and> (\<forall>c args. c < of_int r \<and> \<not> bypass_standard_quota args st \<longrightarrow> check_state c args st = (st, Skipped))"
    if "rt_cooldown_until rt = None \<or> (\<forall>x. rt_blocked_at rt = Some x \<longrightarrow> x < of_int (py_int now))"
      and clk: "\<forall>i. time clk i < of_int r" and st: "st = fst (state_from_account settings clk row pe se rt)"
    for settings clk pe se rt st
  proof -
    have b: "effective_blocked_at row rt = Some (of_int (py_int now))" using row(7) by (simp add: effective_blocked_at_def)
    have "\<not> locally_observed x rt (of_int (py_int now))" for x using that(1) by (intro not_locally_observed)
    note held = peer_state [OF row(2) b row(3) _ this, of clk settings pe se, folded st]
    have "r \<noteq> 0" "\<And>i. time clk i < of_int r" using row(4) clk by simp_all
    note held = held [OF this]
    then show ?thesis using check_rate_limited_skipped [OF held(1,2)] by blast
  qed
  then show ?thesis using row by (intro exI [of _ row] exI [of _ r] conjI allI impI) (assumption | blast)+
qed

theorem rate_limit_holds_across_replicas_witness:
  "\<exists>row r. map_of (db_accounts (snd (snd (mark_rate_limit 0 1000.5 1001 0
        \<lparr>message = None, resets_at = None, resets_in_seconds = None\<rparr> (sample_account ACTIVE)
        \<lparr>rp_runtime = [], rp_unavailable = [], rp_generation = 0\<rparr>
        \<lparr>db_accounts = [(''a'', sample_account ACTIVE)], db_sticky = [], db_bridges = \<lparr>bs_sessions = [], bs_aliases = []\<rparr>\<rparr>)))) ''a'' = Some row
     \<and> acc_reset_at row = Some r \<and> 1030.5 \<le> real_of_int r"
  using rate_limit_holds_across_replicas [of
      "\<lparr>db_accounts = [(''a'', sample_account ACTIVE)], db_sticky = [], db_bridges = \<lparr>bs_sessions = [], bs_aliases = []\<rparr>\<rparr>" "sample_account ACTIVE" 1001
      "\<lparr>message = None, resets_at = None, resets_in_seconds = None\<rparr>" "1000.5" 0 0
      "\<lparr>rp_runtime = [], rp_unavailable = [], rp_generation = 0\<rparr>"]
  by (auto simp: sample_account_def extract_reset_at_def hinted_delay_def)

text \<open>A permanent failure never overwrites a repaired account. When a peer has rotated the refresh
  token of the row since the object was read, the guarded write misses: the database is unchanged,
  the operation reports no downgrade and the account is not put on the routing overlay. When the
  row still agrees with the object, the row is downgraded, the account is excluded locally, no
  sticky session points to it any more, and the owners of its bridge sessions are fenced out: their
  next renewal changes nothing.\<close>

lemma permanent_failure_guarded:
  assumes "map_of (db_accounts db) (acc_id acc) = Some row" "acc_status acc = ACTIVE"
    and "mark_permanent_failure utcnow code acc rp db = (downgraded, acc', rp', db')"
    and "distinct (map hb_id (bs_sessions (db_bridges db)))"
  shows "(acc_refresh_token row \<noteq> acc_refresh_token acc \<longrightarrow>
            \<not> downgraded \<and> db' = db \<and> acc' = acc \<and> rp_unavailable rp' = rp_unavailable rp)
     \<and> (row = acc \<longrightarrow>
            downgraded \<and> acc_id acc \<in> set (rp_unavailable rp')
            \<and> (\<exists>row'. map_of (db_accounts db') (acc_id acc) = Some row' \<and> acc_status row' = account_status_for_permanent_failure code)
            \<and> (\<forall>r \<in> set (db_sticky db'). ss_account_id r \<noteq> acc_id acc)
            \<and> (\<forall>r now inst epoch ttl u st. r \<in> set (bs_sessions (db_bridges db)) \<and> hb_account_id r = Some (acc_id acc) \<longrightarrow>
                 snd (renew_session now (hb_id r) inst epoch ttl u st (db_bridges db')) = db_bridges db'))"
proof -
  define st where "st = handle_permanent_failure code (state_for acc (runtime_get (acc_id acc) (rp_runtime rp)))"
  define w where "w = status_write_of st"
  have s: "sw_status w = account_status_for_permanent_failure code"
    by (simp add: w_def st_def status_write_of_def handle_permanent_failure_def)
  have bad: "account_status_for_permanent_failure code \<in> {REAUTH_REQUIRED, DEACTIVATED}"
    by (simp add: account_status_for_permanent_failure_def)
  have dirty: "status_dirty acc w" using assms(2) s bad by (auto simp: status_dirty_def)
  obtain upd db1 where u: "update_status_if_current utcnow (acc_id acc) w acc (Some (acc_refresh_token acc)) db = (upd, db1)"
    by fastforce
  have "persist_state_if_current utcnow acc st (Some (acc_refresh_token acc)) db = (upd, if upd then write_status w acc else acc, db1)"
    using dirty u by (simp add: persist_state_if_current_def w_def [symmetric] Let_def)
  then have r: "downgraded = upd" "acc' = (if upd then write_status w acc else acc)" "db' = db1"
      "rp_unavailable rp' = (if upd then List.insert (acc_id acc) (rp_unavailable rp) else rp_unavailable rp)"
    using assms(3) by (auto simp: mark_permanent_failure_def mark_runtime_def Let_def st_def split: prod.splits)
  have "acc_refresh_token row \<noteq> acc_refresh_token acc \<Longrightarrow> \<not> upd \<and> db1 = db"
    using u assms(1) by (auto simp: update_status_if_current_def row_matches_def)
  moreover have "upd \<and> db1 = drop_sessions utcnow (sw_status w) (acc_id acc)
      (db\<lparr>db_accounts := AList.update (acc_id acc) (write_status w acc) (db_accounts db)\<rparr>)" if "row = acc"
    using u assms(1) that by (auto simp: update_status_if_current_def row_matches_def)
  moreover have "snd (renew_session now (hb_id x) inst epoch ttl u st (db_bridges db1)) = db_bridges db1"
    if "row = acc" "x \<in> set (bs_sessions (db_bridges db))" "hb_account_id x = Some (acc_id acc)" for x now inst epoch ttl u st
  proof -
    have "db_bridges db1 = close_http_bridge_sessions_for_account utcnow (acc_id acc) (db_bridges db)"
      using calculation(2) [OF that(1)] s bad by (simp add: drop_sessions_def)
    then show ?thesis
      using fenced_noop(1) [OF closed_account_fenced [OF assms(4) that(2,3)]] by (simp add: renew_session_def)
  qed
  ultimately show ?thesis using r s bad by (auto simp: drop_sessions_def update_conv)
qed

text \<open>C40: recording transient errors (at least one) on a replica that has no runtime entry for a rate-limited
  account removes the persisted deadline: when the object agrees with its row, the row has no reset time afterwards and is
  still rate-limited.\<close>

theorem record_error_clears_deadline:
  assumes "map_of (db_accounts db) (acc_id acc) = Some acc" "map_of (rp_runtime rp) (acc_id acc) = None"
    and "acc_status acc = RATE_LIMITED" "1 \<le> n"
  shows "\<exists>row. map_of (db_accounts (snd (record_errors utcnow now n acc rp db))) (acc_id acc) = Some row
     \<and> acc_status row = RATE_LIMITED \<and> acc_reset_at row = None"
proof -
  define st where "st = (state_for acc (runtime_get (acc_id acc) (rp_runtime rp)))
      \<lparr>error_count := rt_error_count (runtime_get (acc_id acc) (rp_runtime rp)) + n, last_error_at := Some now\<rparr>"
  have "snd (record_errors utcnow now n acc rp db) = snd (snd (persist_state_if_current utcnow acc st None db))"
    using assms(4) unfolding record_errors_def mark_runtime_def Let_def case_prod_beta fst_conv snd_conv st_def by simp
  then have "map_of (db_accounts (snd (record_errors utcnow now n acc rp db))) (acc_id acc) = Some (write_status (status_write_of st) acc)"
    using persist_if_current_row(2) [OF assms(1), of None utcnow st] by simp
  moreover have "status st = RATE_LIMITED" "reset_at st = None"
    using assms(2,3) by (simp_all add: st_def runtime_get_def new_runtime_def)
  ultimately show ?thesis by (simp add: status_write_of_def)
qed

theorem record_error_clears_deadline_witness:
  "acc_reset_at (sample_account RATE_LIMITED) = Some 1031
   \<and> (\<exists>row. map_of (db_accounts (snd (record_errors 0 1005 1 (sample_account RATE_LIMITED)
          \<lparr>rp_runtime = [], rp_unavailable = [], rp_generation = 0\<rparr>
          \<lparr>db_accounts = [(''a'', sample_account RATE_LIMITED)], db_sticky = [], db_bridges = \<lparr>bs_sessions = [], bs_aliases = []\<rparr>\<rparr>))) ''a'' = Some row
        \<and> acc_status row = RATE_LIMITED \<and> acc_reset_at row = None)"
  using record_error_clears_deadline [of "\<lparr>db_accounts = [(''a'', sample_account RATE_LIMITED)], db_sticky = [], db_bridges = \<lparr>bs_sessions = [], bs_aliases = []\<rparr>\<rparr>"
      "sample_account RATE_LIMITED" "\<lparr>rp_runtime = [], rp_unavailable = [], rp_generation = 0\<rparr>" 1 0 1005]
  by (simp add: sample_account_def)

end
