(* ===== verification/Budget_Select.thy ===== *)
theory Budget_Select
  imports Balancer_Correct
begin

text \<open>
  Selection with a usage budget, after \<open>_select_account_preferring_budget_safe\<close>,
  \<open>_best_health_tier_states\<close> and the threshold predicates of
  \<open>codex-lb/app/modules/proxy/load_balancer.py\<close>.

  The function calls \<open>select_account\<close> up to three times, on sublists of the same state objects:
  what a call changes in the sublist is written back to the list at the places the objects came
  from (\<open>merge_back\<close>). Each call has its own environment \<open>envs i\<close> (clock, draw), since it reads
  the clock itself.
\<close>

section \<open>Definitions\<close>

definition above_budget_threshold :: "pyfloat \<Rightarrow> AccountState \<Rightarrow> bool" where
  "above_budget_threshold threshold st =
     (case or_else (priority_used_percent st) (used_percent st) of None \<Rightarrow> False | Some u \<Rightarrow> u > threshold)"

definition above_sticky_budget_threshold :: "pyfloat \<Rightarrow> pyfloat option \<Rightarrow> AccountState \<Rightarrow> bool" where
  "above_sticky_budget_threshold threshold secondary_threshold_arg st =
     (let secondary_threshold = default_to secondary_threshold_arg threshold;
          used = or_else (priority_used_percent st) (used_percent st);
          secondary_used =
            (if limit_scoped_usage st \<and> priority_secondary_used_percent st = None then used
             else or_else (priority_secondary_used_percent st) (secondary_used_percent st))
      in (case used of None \<Rightarrow> False | Some u \<Rightarrow> u > threshold)
         \<or> (case secondary_used of None \<Rightarrow> False | Some u \<Rightarrow> u > secondary_threshold))"

definition best_health_tier_states :: "AccountState list \<Rightarrow> AccountState list" where
  "best_health_tier_states states =
     (let healthy = filter (\<lambda>st. health_tier st = HEALTH_TIER_HEALTHY) states;
          probing = filter (\<lambda>st. health_tier st = HEALTH_TIER_PROBING) states;
          draining = filter (\<lambda>st. health_tier st = HEALTH_TIER_DRAINING) states
      in if healthy \<noteq> [] then healthy
         else if probing \<noteq> [] then probing
         else or_list draining states)"

record BudgetArgs =
  base_args :: SelectArgs
  budget_threshold_pct :: pyfloat
  secondary_budget_threshold_pct :: pyfloat
  apply_secondary_budget_threshold :: bool

definition over_budget :: "BudgetArgs \<Rightarrow> AccountState \<Rightarrow> bool" where
  "over_budget b st =
     (if apply_secondary_budget_threshold b
      then above_sticky_budget_threshold (budget_threshold_pct b) (Some (secondary_budget_threshold_pct b)) st
      else above_budget_threshold (budget_threshold_pct b) st)"

definition budget_safe :: "BudgetArgs \<Rightarrow> AccountState \<Rightarrow> bool" where
  "budget_safe b st = (routing_policy st \<noteq> ROUTING_POLICY_PRESERVE \<and> \<not> over_budget b st)"

fun merge_back :: "('a \<Rightarrow> bool) \<Rightarrow> 'a list \<Rightarrow> 'a list \<Rightarrow> 'a list" where
  "merge_back P [] ys = []"
| "merge_back P (x # xs) [] = x # xs"
| "merge_back P (x # xs) (y # ys) = (if P x then y # merge_back P xs ys else x # merge_back P xs (y # ys))"

type_synonym select_outcome = "SelectionResult result \<times> AccountState list \<times> ReplicaSalt"

definition select_among ::
  "SelectEnv \<Rightarrow> SelectArgs \<Rightarrow> (AccountState \<Rightarrow> bool) \<Rightarrow> AccountState list \<Rightarrow> ReplicaSalt \<Rightarrow> select_outcome" where
  "select_among env args P states salts =
     (case select_account env args None (filter P states) salts of
        (r, sub, salts') \<Rightarrow> (r, merge_back P states sub, salts'))"

text \<open>The arguments that the function passes on; the others of \<open>select_account\<close> keep their defaults.\<close>

definition call_args :: "BudgetArgs \<Rightarrow> SelectArgs" where
  "call_args b =
     (let a = base_args b
      in default_args\<lparr>prefer_earlier_reset := prefer_earlier_reset a,
           prefer_earlier_reset_window := prefer_earlier_reset_window a,
           routing_strategy := routing_strategy a, allow_backoff_fallback := allow_backoff_fallback a,
           deterministic_probe := deterministic_probe a,
           relative_availability_power := relative_availability_power a,
           relative_availability_top_k := relative_availability_top_k a,
           traffic_class := traffic_class a, args_ignore_standard_quota := args_ignore_standard_quota a,
           routing_costs := routing_costs a\<rparr>)"

text \<open>The last call takes the whole list; usage-weighted routing then orders by the primary window and
  leaves the relative-availability parameters at their defaults.\<close>

definition fallback_args :: "BudgetArgs \<Rightarrow> AccountState list \<Rightarrow> SelectArgs" where
  "fallback_args b states =
     (if routing_strategy (call_args b) = usage_weighted \<and> states \<noteq> []
      then (call_args b)\<lparr>usage_weighted_order := primary_first, relative_availability_power := 2,
                relative_availability_top_k := 5\<rparr>
      else call_args b)"

definition select_fallback ::
  "SelectEnv \<Rightarrow> BudgetArgs \<Rightarrow> AccountState list \<Rightarrow> ReplicaSalt \<Rightarrow> select_outcome" where
  "select_fallback env b states salts = select_among env (fallback_args b states) (\<lambda>st. True) states salts"

definition select_preferred ::
  "(nat \<Rightarrow> SelectEnv) \<Rightarrow> BudgetArgs \<Rightarrow> AccountState list \<Rightarrow> ReplicaSalt \<Rightarrow> select_outcome" where
  "select_preferred envs b states salts =
     (let preferred = filter (budget_safe b) states;
          whole = (length preferred = length states)
      in if preferred \<noteq> [] then
           (case select_among (envs 1) (call_args b) (if whole then (\<lambda>st. True) else budget_safe b) states salts of
              (r, states1, salts1) \<Rightarrow>
                (case r of
                   Inl e \<Rightarrow> (r, states1, salts1)
                 | Inr s \<Rightarrow>
                     if account s \<noteq> None then (r, states1, salts1)
                     else if whole then (r, states1, salts1)
                     else select_fallback (envs 2) b states1 salts1))
         else select_fallback (envs 2) b states salts)"

definition select_account_preferring_budget_safe ::
  "(nat \<Rightarrow> SelectEnv) \<Rightarrow> BudgetArgs \<Rightarrow> AccountState list \<Rightarrow> ReplicaSalt \<Rightarrow> select_outcome" where
  "select_account_preferring_budget_safe envs b states salts =
     (if routing_strategy (call_args b) \<in> {sequential_drain, reset_drain, single_account}
      then select_among (envs 0) (call_args b)
             (if filter (budget_safe b) states \<noteq> [] then budget_safe b else (\<lambda>st. True)) states salts
      else
        (let burn = (\<lambda>st. st \<in> set (best_health_tier_states states) \<and> routing_policy st = ROUTING_POLICY_BURN_FIRST)
         in if filter burn states \<noteq> [] then
              (case select_among (envs 0) ((call_args b)\<lparr>allow_backoff_fallback := False\<rparr>) burn states salts of
                 (r, states1, salts1) \<Rightarrow>
                   (case r of
                      Inl e \<Rightarrow> (r, states1, salts1)
                    | Inr s \<Rightarrow>
                        if account s \<noteq> None then (r, states1, salts1)
                        else select_preferred envs b states1 salts1))
            else select_preferred envs b states salts))"

text \<open>What every stage guarantees: the outcome is a result with an account or a message, and an
  account is one of the given ones and may serve.\<close>

definition good_outcome :: "(nat \<Rightarrow> SelectEnv) \<Rightarrow> BudgetArgs \<Rightarrow> string set \<Rightarrow> select_outcome \<Rightarrow> bool" where
  "good_outcome envs b ids out =
     (case fst out of
        Inl e \<Rightarrow> False
      | Inr r \<Rightarrow>
          (account r = None) = (error_message r \<noteq> None)
          \<and> (case account r of None \<Rightarrow> True
             | Some st \<Rightarrow> account_id st \<in> ids \<and> (\<exists>i. may_serve (current_time (envs i) None) (call_args b) st)))"

section \<open>Lemmas\<close>

lemma set_best_tier: "set (best_health_tier_states states) \<subseteq> set states"
  by (auto simp: best_health_tier_states_def Let_def or_list_def)

lemma merge_back_eq:
  "merge_back P xs (map f (filter P xs)) = map (\<lambda>x. if P x then f x else x) xs"
proof (induction xs)
  case (Cons x xs)
  show ?case
  proof (cases "P x")
    case True
    then show ?thesis using Cons by simp
  next
    case nP: False
    show ?thesis
    proof (cases "filter P xs")
      case Nil
      then have "map (\<lambda>x. if P x then f x else x) xs = xs" by (induction xs) (auto split: if_splits)
      then show ?thesis using nP Nil by simp
    next
      case c: (Cons y ys)
      show ?thesis using nP c Cons.IH by simp
    qed
  qed
qed simp

lemma select_among_states:
  "fst (snd (select_among env args P states salts))
     = map (\<lambda>st. if P st then fst (check_state (current_time env None) args st) else st) states"
  using states_after_eq [of env args None "filter P states" salts]
  by (auto simp: select_among_def merge_back_eq o_def split: prod.split)

lemma select_among_selection:
  "fst (select_among env args P states salts) = selection env args None (filter P states) salts"
  by (simp add: select_among_def split: prod.split)

lemma select_among_total:
  "\<exists>r. fst (select_among env args P states salts) = Inr r \<and> (account r = None \<longleftrightarrow> error_message r \<noteq> None)"
  unfolding select_among_selection by (rule selection_total)

lemma may_serve_bypass:
  "bypass_standard_quota args st = bypass_standard_quota args' st \<Longrightarrow> may_serve c args st = may_serve c args' st"
  by (simp add: may_serve_def)

lemma good_select_among:
  assumes "\<And>st. bypass_standard_quota args st = bypass_standard_quota (call_args b) st" "account_id ` set states \<subseteq> ids"
  shows "good_outcome envs b ids (select_among (envs i) args P states salts)"
proof -
  obtain r where r: "selection (envs i) args None (filter P states) salts = Inr r" "account r = None \<longleftrightarrow> error_message r \<noteq> None"
    using selection_total [of "envs i" args None "filter P states" salts] by (elim exE conjE) (rule that)
  have "account_id st \<in> ids \<and> may_serve (current_time (envs i) None) (call_args b) st" if "account r = Some st" for st
  proof -
    from selection_sound [OF r(1) that]
    obtain s where s: "s \<in> set states" "st = fst (check_state (current_time (envs i) None) args s)"
      and m: "may_serve (current_time (envs i) None) args st"
      unfolding states_after_eq by auto
    have "account_id st = account_id s" using s(2) by (simp add: check_state_frame)
    moreover have "may_serve (current_time (envs i) None) (call_args b) st"
      using m may_serve_bypass [OF assms(1)] by blast
    ultimately show ?thesis using s(1) assms(2) by auto
  qed
  then show ?thesis using r unfolding good_outcome_def select_among_selection by (auto split: option.split)
qed

lemma select_among_ids:
  "account_id ` set (fst (snd (select_among env args P states salts))) = account_id ` set states"
  unfolding select_among_states set_map image_image by (rule image_cong) (simp_all add: check_state_frame)

lemma fallback_bypass [simp]:
  "bypass_standard_quota (fallback_args b states) st = bypass_standard_quota (call_args b) st"
  "bypass_standard_quota (args\<lparr>allow_backoff_fallback := x\<rparr>) st = bypass_standard_quota args st"
  by (simp_all add: fallback_args_def bypass_standard_quota_def)

lemma good_select_fallback:
  "account_id ` set states \<subseteq> ids \<Longrightarrow> good_outcome envs b ids (select_fallback (envs i) b states salts)"
  unfolding select_fallback_def by (rule good_select_among) simp_all

lemma good_select_preferred:
  assumes "account_id ` set states \<subseteq> ids"
  shows "good_outcome envs b ids (select_preferred envs b states salts)"
proof -
  define P where "P = (if length (filter (budget_safe b) states) = length states then (\<lambda>st. True) else budget_safe b)"
  obtain r states1 salts1 where o: "select_among (envs 1) (call_args b) P states salts = (r, states1, salts1)"
    by (metis prod_cases3)
  have "good_outcome envs b ids (select_among (envs 1) (call_args b) P states salts)"
    by (rule good_select_among) (simp_all add: assms)
  moreover have "account_id ` set states1 \<subseteq> ids"
    using select_among_ids [of "envs 1" "call_args b" P states salts] assms o by simp
  ultimately show ?thesis
    using good_select_fallback [of states1 ids envs b 2 salts1] good_select_fallback [OF assms, of envs b 2 salts]
    unfolding select_preferred_def Let_def P_def [symmetric] o by (auto split: sum.split simp: o)
qed

text \<open>The states keep their identifiers and their order.\<close>

lemma select_among_order: "map account_id (fst (snd (select_among env args P states salts))) = map account_id states"
  unfolding select_among_states by (simp add: check_state_frame)

lemma select_preferred_order: "map account_id (fst (snd (select_preferred envs b states salts))) = map account_id states"
proof -
  define P where "P = (if length (filter (budget_safe b) states) = length states then (\<lambda>st. True) else budget_safe b)"
  obtain r states1 salts1 where o: "select_among (envs 1) (call_args b) P states salts = (r, states1, salts1)"
    by (metis prod_cases3)
  then have "map account_id states1 = map account_id states"
    using select_among_order [of "envs 1" "call_args b" P states salts] by simp
  then show ?thesis
    using select_among_order [of "envs 2" "fallback_args b states1" "\<lambda>st. True" states1 salts1]
      select_among_order [of "envs 2" "fallback_args b states" "\<lambda>st. True" states salts]
    unfolding select_preferred_def Let_def P_def [symmetric] o select_fallback_def by (auto split: sum.split)
qed

lemma budget_select_order:
  "map account_id (fst (snd (select_account_preferring_budget_safe envs b states salts))) = map account_id states"
proof -
  define burn where "burn = (\<lambda>st. st \<in> set (best_health_tier_states states) \<and> routing_policy st = ROUTING_POLICY_BURN_FIRST)"
  obtain r states1 salts1 where
    o: "select_among (envs 0) ((call_args b)\<lparr>allow_backoff_fallback := False\<rparr>) burn states salts = (r, states1, salts1)"
    by (metis prod_cases3)
  then have "map account_id states1 = map account_id states"
    using select_among_order [of "envs 0" "(call_args b)\<lparr>allow_backoff_fallback := False\<rparr>" burn states salts] by simp
  then show ?thesis
    using select_preferred_order [of envs b states1 salts1] select_preferred_order [of envs b states salts]
    unfolding select_account_preferring_budget_safe_def Let_def burn_def [symmetric] o
    by (auto split: sum.split simp: select_among_order)
qed

lemma good_budget_select:
  "good_outcome envs b (account_id ` set states) (select_account_preferring_budget_safe envs b states salts)"
proof (cases "routing_strategy (call_args b) \<in> {sequential_drain, reset_drain, single_account}")
  case True
  then show ?thesis
    unfolding select_account_preferring_budget_safe_def by (simp only: if_True) (rule good_select_among; simp)
next
  case False
  define burn where "burn = (\<lambda>st. st \<in> set (best_health_tier_states states) \<and> routing_policy st = ROUTING_POLICY_BURN_FIRST)"
  obtain r states1 salts1 where
    o: "select_among (envs 0) ((call_args b)\<lparr>allow_backoff_fallback := False\<rparr>) burn states salts = (r, states1, salts1)"
    by (metis prod_cases3)
  have g: "good_outcome envs b (account_id ` set states) (r, states1, salts1)"
    unfolding o [symmetric] by (rule good_select_among) simp_all
  have "account_id ` set states1 \<subseteq> account_id ` set states"
    using select_among_ids [of "envs 0" "(call_args b)\<lparr>allow_backoff_fallback := False\<rparr>" burn states salts] o by simp
  then show ?thesis
    using False g good_select_preferred [of states1 "account_id ` set states" envs b salts1]
      good_select_preferred [of states "account_id ` set states" envs b salts]
    unfolding select_account_preferring_budget_safe_def Let_def burn_def [symmetric] o
    by (auto split: sum.split)
qed

text \<open>The pass over the states only lowers usage, so it does not make a state unsafe.\<close>

lemma recover_usage:
  assumes "recover_rate_limited c x st = Some st1" "recover_quota_exceeded c x st1 = Some st2"
  shows "used_percent st2 \<in> {used_percent st, Some 0}" "secondary_used_percent st2 \<in> {secondary_used_percent st, Some 0}"
    "priority_used_percent st2 = priority_used_percent st" "limit_scoped_usage st2 = limit_scoped_usage st"
    "priority_secondary_used_percent st2 = priority_secondary_used_percent st"
  using assms by (auto simp: recover_rate_limited_def recover_quota_exceeded_def split: if_splits)

lemma check_state_usage:
  "used_percent (fst (check_state c args st)) \<in> {used_percent st, Some 0}
   \<and> secondary_used_percent (fst (check_state c args st)) \<in> {secondary_used_percent st, Some 0}
   \<and> priority_used_percent (fst (check_state c args st)) = priority_used_percent st
   \<and> limit_scoped_usage (fst (check_state c args st)) = limit_scoped_usage st
   \<and> priority_secondary_used_percent (fst (check_state c args st)) = priority_secondary_used_percent st"
proof (cases rule: check_state_cases [of st c args])
  case (passed st1 st2 st3)
  have "fst (check_state c args st) = st3 \<or> fst (check_state c args st) = st3\<lparr>error_count := 0, last_error_at := None\<rparr>"
    unfolding passed(5) by simp
  then show ?thesis
    using recover_usage [OF passed(1,2)] passed(3) by (elim disjE) (simp_all add: clear_cooldown_def)
qed simp_all

lemma budget_safe_check:
  assumes "budget_safe b st" "0 \<le> budget_threshold_pct b" "0 \<le> secondary_budget_threshold_pct b"
  shows "budget_safe b (fst (check_state c args st))"
proof -
  let ?st = "fst (check_state c args st)"
  from check_state_usage [of c args st]
  have u: "used_percent ?st \<in> {used_percent st, Some 0}" "secondary_used_percent ?st \<in> {secondary_used_percent st, Some 0}"
    "priority_used_percent ?st = priority_used_percent st" "limit_scoped_usage ?st = limit_scoped_usage st"
    "priority_secondary_used_percent ?st = priority_secondary_used_percent st"
    by blast+
  have used: "or_else (priority_used_percent ?st) (used_percent ?st) \<in> {or_else (priority_used_percent st) (used_percent st), Some 0}"
    using u(1,3) by (cases "priority_used_percent st") (auto simp: or_else_def)
  have "or_else (priority_secondary_used_percent ?st) (secondary_used_percent ?st)
      \<in> {or_else (priority_secondary_used_percent st) (secondary_used_percent st), Some 0}"
    using u(2,5) by (cases "priority_secondary_used_percent st") (auto simp: or_else_def)
  then have "\<not> over_budget b ?st"
    using assms used u(4,5)
    by (auto simp: budget_safe_def over_budget_def above_budget_threshold_def above_sticky_budget_threshold_def Let_def
        default_to_def split: option.splits if_splits)
  then show ?thesis using assms(1) by (simp add: budget_safe_def check_state_frame)
qed

lemma budget_prefers_safe:
  assumes "pooled (routing_strategy (call_args b))" "traffic_class (call_args b) = foreground"
    and "\<forall>st \<in> set states. routing_policy st \<noteq> ROUTING_POLICY_BURN_FIRST"
    and "s \<in> set states" "budget_safe b s" "check_state (current_time (envs 1) None) (call_args b) s = (s', Available)"
  shows "\<exists>r st s0 salts'. select_account_preferring_budget_safe envs b states salts
       = (Inr r, map (\<lambda>st. if budget_safe b st then fst (check_state (current_time (envs 1) None) (call_args b) st) else st) states, salts')
     \<and> account r = Some st \<and> s0 \<in> set states \<and> budget_safe b s0
     \<and> st = fst (check_state (current_time (envs 1) None) (call_args b) s0)"
proof -
  define P where "P = (if length (filter (budget_safe b) states) = length states then (\<lambda>st. True) else budget_safe b)"
  let ?chk = "\<lambda>st. fst (check_state (current_time (envs 1) None) (call_args b) st)"
  have P: "P x \<longleftrightarrow> budget_safe b x" if "x \<in> set states" for x
    using that length_filter_less [of x states "budget_safe b"] by (cases "budget_safe b x") (auto simp: P_def)
  have ne: "filter (budget_safe b) states \<noteq> []" using assms(4,5) by (auto simp: filter_empty_conv)
  obtain r where r: "selection (envs 1) (call_args b) None (filter P states) salts = Inr r"
    using selection_total [of "envs 1" "call_args b" None "filter P states" salts] by blast
  have "s \<in> set (filter P states)" using assms(4,5) P by simp
  from select_foreground [OF assms(2) r this assms(6)]
  obtain st where st: "account r = Some st" by metis
  from selection_sound [OF r st] obtain s0 where "s0 \<in> set states" "P s0" "st = ?chk s0"
    unfolding states_after_eq by auto
  moreover obtain states1 salts1 where
    o: "select_among (envs 1) (call_args b) P states salts = (Inr r, states1, salts1)"
    using r select_among_selection by (metis prod.collapse)
  then have "select_preferred envs b states salts = (Inr r, states1, salts1)"
    using ne st unfolding select_preferred_def Let_def P_def [symmetric] by simp
  moreover have "states1 = map (\<lambda>st. if budget_safe b st then ?chk st else st) states"
    using select_among_states [of "envs 1" "call_args b" P states salts] P unfolding o by simp
  moreover have "select_account_preferring_budget_safe envs b states salts = select_preferred envs b states salts"
    using assms(1,3) set_best_tier [of states]
    by (auto simp: select_account_preferring_budget_safe_def pooled_def Let_def filter_empty_conv)
  ultimately show ?thesis using st P by (intro exI [of _ r] exI [of _ st] exI [of _ s0] exI [of _ salts1]) simp
qed

section \<open>Properties\<close>

text \<open>Budget-aware selection, which calls the selector up to three times on sublists, never raises
  and returns an account or a message; a returned account is one of the caller's accounts and may
  serve at the time of the call that chose it.\<close>

lemma budget_select_sound:
  "good_outcome envs b (account_id ` set states) (select_account_preferring_budget_safe envs b states salts)"
  by (rule good_budget_select)

text \<open>The budget is respected while it can be. For foreground traffic with a pooled strategy and
  no \<open>burn_first\<close> account, whenever an account under the budget threshold that is not reserved is
  available, the selected account is such an account.\<close>

lemma budget_respected:
  assumes "pooled (routing_strategy (call_args b))" "traffic_class (call_args b) = foreground"
    and "\<forall>st \<in> set states. routing_policy st \<noteq> ROUTING_POLICY_BURN_FIRST"
    and "s \<in> set states" "budget_safe b s" "check_state (current_time (envs 1) None) (call_args b) s = (s', Available)"
  shows "\<exists>r st s0. fst (select_account_preferring_budget_safe envs b states salts) = Inr r \<and> account r = Some st
     \<and> s0 \<in> set states \<and> budget_safe b s0 \<and> st = fst (check_state (current_time (envs 1) None) (call_args b) s0)"
  using budget_prefers_safe [where envs = envs, OF assms, of salts] by (elim exE conjE) (intro exI conjI; simp)

end
