(* ===== verification/Circuit_Breaker.thy ===== *)
theory Circuit_Breaker
  imports Prelude
begin

text \<open>
  The circuit breaker, after \<open>codex-lb/app/core/resilience/circuit_breaker.py\<close>, and the retry budget
  of \<open>codex-lb/app/core/resilience/retry_budget.py\<close>.

  Every method body runs under the breaker's lock, so it is one step; the reading of the monotonic
  clock is an argument. \<open>HALF_OPEN\<close> is never stored: \<open>cb_state\<close> derives it from the age of the last
  failure. An exception is represented by what \<open>_is_server_error\<close> asks of it. The life of a call
  (\<open>call\<close>, between the check and the release in its \<open>finally\<close>) is the step relation
  \<open>breaker_step\<close> over a breaker and the calls in flight.
\<close>

section \<open>The breaker\<close>

datatype CircuitState = CLOSED | OPEN | HALF_OPEN

record CircuitBreaker =
  cb_stored :: CircuitState
  failure_count :: int
  success_count :: int
  last_failure_time :: "pyfloat option"
  half_open_probe_in_flight :: bool
  failure_threshold :: int
  recovery_timeout_seconds :: int
  success_threshold :: int

definition new_breaker :: "int \<Rightarrow> int \<Rightarrow> int \<Rightarrow> CircuitBreaker" where
  "new_breaker threshold timeout successes =
     \<lparr>cb_stored = CLOSED, failure_count = 0, success_count = 0, last_failure_time = None,
      half_open_probe_in_flight = False, failure_threshold = threshold,
      recovery_timeout_seconds = timeout, success_threshold = successes\<rparr>"

definition cb_state :: "pyfloat \<Rightarrow> CircuitBreaker \<Rightarrow> CircuitState" where
  "cb_state now cb =
     (if cb_stored cb = OPEN
         \<and> (case last_failure_time cb of None \<Rightarrow> False
            | Some t \<Rightarrow> now - t \<ge> of_int (recovery_timeout_seconds cb))
      then HALF_OPEN else cb_stored cb)"

datatype breaker_error = CircuitOpen | ProbeInFlight

definition pre_call_check :: "pyfloat \<Rightarrow> CircuitBreaker \<Rightarrow> breaker_error + (bool \<times> CircuitBreaker)" where
  "pre_call_check now cb =
     (case cb_state now cb of
        OPEN \<Rightarrow> Inl CircuitOpen
      | HALF_OPEN \<Rightarrow>
          if half_open_probe_in_flight cb then Inl ProbeInFlight
          else Inr (True, cb\<lparr>half_open_probe_in_flight := True\<rparr>)
      | CLOSED \<Rightarrow> Inr (False, cb))"

definition release_half_open_probe :: "CircuitBreaker \<Rightarrow> CircuitBreaker" where
  "release_half_open_probe cb = cb\<lparr>half_open_probe_in_flight := False\<rparr>"

definition record_call_success :: "pyfloat \<Rightarrow> pyfloat \<Rightarrow> CircuitBreaker \<Rightarrow> CircuitBreaker" where
  "record_call_success time1 time2 cb =
     (if cb_state time1 cb = HALF_OPEN then
        (let n = success_count cb + 1
         in if n \<ge> success_threshold cb
            then cb\<lparr>cb_stored := CLOSED, failure_count := 0, success_count := 0\<rparr>
            else cb\<lparr>success_count := n\<rparr>)
      else if cb_state time2 cb = CLOSED then
        if failure_count cb > 0 then cb\<lparr>failure_count := 0\<rparr> else cb
      else cb)"

datatype upstream_exception =
  ClientResponseError int
| TimeoutError
| StatusCodeError int
| OtherError

definition is_server_error :: "upstream_exception \<Rightarrow> bool" where
  "is_server_error exc =
     (case exc of ClientResponseError s \<Rightarrow> s \<ge> 500 | TimeoutError \<Rightarrow> True
      | StatusCodeError s \<Rightarrow> s \<ge> 500 | OtherError \<Rightarrow> True)"

definition record_call_failure :: "pyfloat \<Rightarrow> upstream_exception \<Rightarrow> CircuitBreaker \<Rightarrow> CircuitBreaker" where
  "record_call_failure now exc cb =
     (if \<not> is_server_error exc then cb
      else (let n = failure_count cb + 1;
                cb1 = cb\<lparr>failure_count := n, last_failure_time := Some now, success_count := 0\<rparr>
            in if n \<ge> failure_threshold cb then cb1\<lparr>cb_stored := OPEN\<rparr> else cb1))"

section \<open>The registry\<close>

record BreakerSettings =
  circuit_breaker_enabled :: bool
  circuit_breaker_failure_threshold :: int
  circuit_breaker_recovery_timeout_seconds :: int

record BreakerRegistry =
  global_breaker :: "CircuitBreaker option"
  account_breakers :: "(string \<times> CircuitBreaker) list"

definition breaker_for :: "BreakerSettings \<Rightarrow> CircuitBreaker" where
  "breaker_for settings =
     new_breaker (circuit_breaker_failure_threshold settings) (circuit_breaker_recovery_timeout_seconds settings) 2"

definition get_circuit_breaker ::
  "BreakerSettings option \<Rightarrow> BreakerRegistry \<Rightarrow> CircuitBreaker option \<times> BreakerRegistry" where
  "get_circuit_breaker settings reg =
     (case settings of None \<Rightarrow> (global_breaker reg, reg)
      | Some s \<Rightarrow>
          (let reg1 = (if circuit_breaker_enabled s \<and> global_breaker reg = None
                       then reg\<lparr>global_breaker := Some (breaker_for s)\<rparr> else reg)
           in (if circuit_breaker_enabled s then global_breaker reg1 else None, reg1)))"

definition get_circuit_breaker_for_account ::
  "string \<Rightarrow> BreakerSettings \<Rightarrow> BreakerRegistry \<Rightarrow> CircuitBreaker option \<times> BreakerRegistry" where
  "get_circuit_breaker_for_account i settings reg =
     (if \<not> circuit_breaker_enabled settings then (None, reg)
      else (case map_of (account_breakers reg) i of
              Some b \<Rightarrow> (Some b, reg)
            | None \<Rightarrow>
                (Some (breaker_for settings),
                 reg\<lparr>account_breakers := AList.update i (breaker_for settings) (account_breakers reg)\<rparr>)))"

definition are_all_account_circuit_breakers_open :: "pyfloat \<Rightarrow> BreakerRegistry \<Rightarrow> bool" where
  "are_all_account_circuit_breakers_open now reg =
     (account_breakers reg \<noteq> [] \<and> list_all (\<lambda>(i, cb). cb_state now cb = OPEN) (account_breakers reg))"

section \<open>The retry budget\<close>

record RetryBudget =
  max_retries :: int
  window_seconds :: int
  retry_timestamps :: "pyfloat list"

definition try_acquire_retry :: "pyfloat \<Rightarrow> RetryBudget \<Rightarrow> bool \<times> RetryBudget" where
  "try_acquire_retry now b =
     (let recent = dropWhile (\<lambda>t. t < now - of_int (window_seconds b)) (retry_timestamps b)
      in if int (length recent) \<ge> max_retries b then (False, b\<lparr>retry_timestamps := recent\<rparr>)
         else (True, b\<lparr>retry_timestamps := recent @ [now]\<rparr>))"

definition remaining_retries :: "pyfloat \<Rightarrow> RetryBudget \<Rightarrow> int" where
  "remaining_retries now b =
     max 0 (max_retries b
       - int (length (filter (\<lambda>t. t \<ge> now - of_int (window_seconds b)) (retry_timestamps b))))"

text \<open>The module's budget, made at the first call.\<close>

definition new_retry_budget :: "int \<Rightarrow> int \<Rightarrow> RetryBudget" where
  "new_retry_budget max_retries_per_window window =
     \<lparr>max_retries = max_retries_per_window, window_seconds = window, retry_timestamps = []\<rparr>"

definition get_retry_budget :: "RetryBudget option \<Rightarrow> RetryBudget \<times> RetryBudget option" where
  "get_retry_budget singleton =
     (let b = default_to singleton (new_retry_budget 100 60) in (b, Some b))"

section \<open>Calls in flight\<close>

text \<open>A call in flight is the flag that its check returned. A call that the check rejects leaves the
  state alone. A call that ends without a result or an exception that counts (it was cancelled) only
  releases its probe. The recording of a result and the release of the probe are two sections of the lock in
  the code and one step here; the recording does not touch the probe.\<close>

datatype call_outcome = Succeeded pyfloat pyfloat | Failed pyfloat upstream_exception | Cancelled

definition end_call :: "bool \<Rightarrow> call_outcome \<Rightarrow> CircuitBreaker \<Rightarrow> CircuitBreaker" where
  "end_call is_probe outcome cb =
     (let cb1 = (case outcome of
                   Succeeded t1 t2 \<Rightarrow> record_call_success t1 t2 cb
                 | Failed t exc \<Rightarrow> record_call_failure t exc cb
                 | Cancelled \<Rightarrow> cb)
      in if is_probe then release_half_open_probe cb1 else cb1)"

inductive breaker_step :: "CircuitBreaker \<times> bool list \<Rightarrow> CircuitBreaker \<times> bool list \<Rightarrow> bool" where
  begin_call: "pre_call_check now cb = Inr (p, cb') \<Longrightarrow> breaker_step (cb, calls) (cb', p # calls)"
| end_call: "calls = xs @ p # ys \<Longrightarrow> breaker_step (cb, calls) (end_call p outcome cb, xs @ ys)"

definition breaker_inv :: "CircuitBreaker \<times> bool list \<Rightarrow> bool" where
  "breaker_inv s =
     (case s of (cb, calls) \<Rightarrow>
        length (filter id calls) = (if half_open_probe_in_flight cb then 1 else 0)
        \<and> (cb_stored cb = OPEN \<longrightarrow> last_failure_time cb \<noteq> None \<and> failure_threshold cb \<le> failure_count cb)
        \<and> (cb_stored cb = CLOSED \<longrightarrow> failure_count cb < failure_threshold cb)
        \<and> cb_stored cb \<noteq> HALF_OPEN \<and> 0 < failure_threshold cb)"

inductive_cases breaker_step_elim: "breaker_step s s'"

definition budget_inv :: "pyfloat \<Rightarrow> RetryBudget \<Rightarrow> bool" where
  "budget_inv now b =
     (sorted (retry_timestamps b) \<and> (\<forall>t \<in> set (retry_timestamps b). t \<le> now)
      \<and> int (length (retry_timestamps b)) \<le> max_retries b)"

text \<open>A sequence of attempts at the given times.\<close>

fun run_budget :: "RetryBudget \<Rightarrow> pyfloat list \<Rightarrow> bool list \<times> RetryBudget" where
  "run_budget b [] = ([], b)"
| "run_budget b (t # ts) =
     (case try_acquire_retry t b of
        (granted, b1) \<Rightarrow> (case run_budget b1 ts of (gs, b2) \<Rightarrow> (granted # gs, b2)))"

section \<open>Lemmas\<close>

lemma cb_state_stored:
  "cb_stored cb \<noteq> HALF_OPEN \<Longrightarrow> cb_state now cb = CLOSED \<longleftrightarrow> cb_stored cb = CLOSED"
  by (auto simp: cb_state_def)

lemma begin_call_inv:
  "breaker_inv (cb, calls) \<Longrightarrow> pre_call_check now cb = Inr (p, cb') \<Longrightarrow> breaker_inv (cb', p # calls)"
  by (auto simp: pre_call_check_def breaker_inv_def split: CircuitState.splits if_splits)

lemma record_success_frame:
  "half_open_probe_in_flight (record_call_success t1 t2 cb) = half_open_probe_in_flight cb"
  "failure_threshold (record_call_success t1 t2 cb) = failure_threshold cb"
  "half_open_probe_in_flight (record_call_failure t exc cb) = half_open_probe_in_flight cb"
  "failure_threshold (record_call_failure t exc cb) = failure_threshold cb"
  by (simp_all add: record_call_success_def record_call_failure_def Let_def)

lemma record_call_inv:
  assumes "breaker_inv (cb, calls)"
  shows "breaker_inv (record_call_success t1 t2 cb, calls)" and "breaker_inv (record_call_failure t exc cb, calls)"
  using assms by (auto simp: breaker_inv_def record_call_success_def record_call_failure_def Let_def cb_state_def
      split: if_splits)

lemma end_call_inv:
  assumes "breaker_inv (cb, xs @ p # ys)"
  shows "breaker_inv (end_call p outcome cb, xs @ ys)"
proof -
  define cb1 where "cb1 = (case outcome of Succeeded t1 t2 \<Rightarrow> record_call_success t1 t2 cb
      | Failed t exc \<Rightarrow> record_call_failure t exc cb | Cancelled \<Rightarrow> cb)"
  have "breaker_inv (cb1, xs @ p # ys)"
    using assms record_call_inv by (auto simp: cb1_def split: call_outcome.split)
  moreover have "end_call p outcome cb = (if p then release_half_open_probe cb1 else cb1)"
    by (simp add: end_call_def cb1_def Let_def)
  ultimately show ?thesis
    by (auto simp: breaker_inv_def release_half_open_probe_def split: if_splits)
qed

lemma breaker_step_inv: "breaker_inv s \<Longrightarrow> breaker_step s s' \<Longrightarrow> breaker_inv s'"
  by (erule breaker_step_elim) (auto intro: begin_call_inv end_call_inv)

interpretation breaker:
  invariant_system "\<lambda>s. \<exists>k r n. 0 < k \<and> s = (new_breaker k r n, [])" breaker_step breaker_inv
proof unfold_locales
  show "\<exists>k r n. 0 < k \<and> s = (new_breaker k r n, []) \<Longrightarrow> breaker_inv s" for s
    by (auto simp: breaker_inv_def new_breaker_def)
  show "breaker_inv s \<Longrightarrow> breaker_step s s' \<Longrightarrow> breaker_inv s'" for s s'
    by (rule breaker_step_inv)
qed

lemma failures_fold:
  assumes "\<forall>e \<in> set errs. is_server_error (snd e)" "errs \<noteq> []" "int (length errs) \<le> failure_threshold cb - failure_count cb"
  shows "failure_count (foldl (\<lambda>c e. record_call_failure (fst e) (snd e) c) cb errs) = failure_count cb + int (length errs)
    \<and> last_failure_time (foldl (\<lambda>c e. record_call_failure (fst e) (snd e) c) cb errs) = Some (fst (last errs))
    \<and> failure_threshold (foldl (\<lambda>c e. record_call_failure (fst e) (snd e) c) cb errs) = failure_threshold cb
    \<and> recovery_timeout_seconds (foldl (\<lambda>c e. record_call_failure (fst e) (snd e) c) cb errs) = recovery_timeout_seconds cb
    \<and> half_open_probe_in_flight (foldl (\<lambda>c e. record_call_failure (fst e) (snd e) c) cb errs) = half_open_probe_in_flight cb
    \<and> (cb_stored (foldl (\<lambda>c e. record_call_failure (fst e) (snd e) c) cb errs)
         = (if int (length errs) = failure_threshold cb - failure_count cb then OPEN else cb_stored cb))"
  using assms
proof (induction errs rule: rev_induct)
  case (snoc e es)
  show ?case
  proof (cases "es = []")
    case True
    then show ?thesis using snoc.prems by (auto simp: record_call_failure_def Let_def)
  next
    case False
    have "int (length es) < failure_threshold cb - failure_count cb" using snoc.prems(3) by simp
    then show ?thesis using snoc.IH False snoc.prems by (auto simp: record_call_failure_def Let_def)
  qed
qed simp

text \<open>With a clock that does not run backwards the timestamps are sorted, so dropping the old prefix
  drops exactly the old entries.\<close>

lemma dropWhile_sorted: "sorted xs \<Longrightarrow> dropWhile (\<lambda>t. t < c) xs = filter (\<lambda>t. c \<le> t) xs"
  for c :: pyfloat
proof (induction xs)
  case (Cons x xs)
  show ?case
  proof (cases "x < c")
    case True
    then show ?thesis using Cons by simp
  next
    case False
    then have "\<forall>y \<in> set (x # xs). c \<le> y" using Cons.prems by auto
    then show ?thesis using False by (simp add: filter_id_conv)
  qed
qed simp

lemma try_acquire_inv:
  assumes "budget_inv t0 b" "t0 \<le> t"
  shows "budget_inv t (snd (try_acquire_retry t b))"
    and "fst (try_acquire_retry t b) \<longleftrightarrow>
      int (length (filter (\<lambda>x. t - of_int (window_seconds b) \<le> x) (retry_timestamps b))) < max_retries b"
    and "max_retries (snd (try_acquire_retry t b)) = max_retries b"
    and "window_seconds (snd (try_acquire_retry t b)) = window_seconds b"
proof -
  define recent where "recent = filter (\<lambda>x. t - of_int (window_seconds b) \<le> x) (retry_timestamps b)"
  have d: "dropWhile (\<lambda>x. x < t - of_int (window_seconds b)) (retry_timestamps b) = recent"
    unfolding recent_def by (rule dropWhile_sorted) (use assms(1) in \<open>simp add: budget_inv_def\<close>)
  have "sorted recent" unfolding recent_def by (rule sorted_wrt_filter) (use assms(1) in \<open>simp add: budget_inv_def\<close>)
  moreover have "\<forall>x \<in> set recent. x \<le> t" using assms by (auto simp: recent_def budget_inv_def)
  moreover have "int (length recent) \<le> max_retries b"
    using assms(1) length_filter_le [of "\<lambda>x. t - of_int (window_seconds b) \<le> x" "retry_timestamps b"]
    unfolding recent_def budget_inv_def by linarith
  ultimately show "budget_inv t (snd (try_acquire_retry t b))"
    by (simp add: budget_inv_def try_acquire_retry_def d Let_def sorted_append)
  show "fst (try_acquire_retry t b) \<longleftrightarrow>
      int (length (filter (\<lambda>x. t - of_int (window_seconds b) \<le> x) (retry_timestamps b))) < max_retries b"
    by (simp add: try_acquire_retry_def d Let_def recent_def)
  show "max_retries (snd (try_acquire_retry t b)) = max_retries b"
      "window_seconds (snd (try_acquire_retry t b)) = window_seconds b"
    by (simp_all add: try_acquire_retry_def Let_def)
qed

lemma run_budget_inv:
  assumes "budget_inv t0 b" "sorted (t0 # ts)"
  shows "budget_inv (last (t0 # ts)) (snd (run_budget b ts)) \<and> max_retries (snd (run_budget b ts)) = max_retries b
     \<and> window_seconds (snd (run_budget b ts)) = window_seconds b"
  using assms
proof (induction ts arbitrary: t0 b)
  case (Cons t ts)
  note t = try_acquire_inv [OF Cons.prems(1), of t]
  have "t0 \<le> t" "sorted (t # ts)" using Cons.prems(2) by auto
  with Cons.IH [OF t(1)] t(3,4) show ?case by (simp add: case_prod_beta)
qed simp

section \<open>Properties\<close>

text \<open>C34: at most one probe is in flight. In every state that calls reach from a new breaker, whatever
  the interleaving of their starts and ends, the flag of the breaker says exactly whether a probe
  is running; a call that the check lets through finds the circuit closed, or is the only probe of a
  half-open one; and an open breaker always knows its last failure, so it can recover.\<close>

theorem breaker_single_probe:
  assumes "breaker_step\<^sup>*\<^sup>* (new_breaker k r n, []) (cb, calls)" "0 < k"
  shows "length (filter id calls) = (if half_open_probe_in_flight cb then 1 else 0)
     \<and> (pre_call_check now cb = Inr (p, cb') \<longrightarrow>
          (if p then cb_state now cb = HALF_OPEN \<and> filter id calls = [] else cb_state now cb = CLOSED))
     \<and> (cb_stored cb = OPEN \<longrightarrow> last_failure_time cb \<noteq> None)"
proof -
  have "breaker_inv (cb, calls)"
    using breaker.reachable_inv [OF _ assms(1)] assms(2) by blast
  then show ?thesis
    by (auto simp: breaker_inv_def pre_call_check_def split: CircuitState.splits if_splits)
qed

theorem breaker_single_probe_witness:
  "length (filter id [True]) = 1
   \<and> pre_call_check 100 (end_call False (Failed 10 OtherError) (new_breaker 1 60 2))
       = Inr (True, (end_call False (Failed 10 OtherError) (new_breaker 1 60 2))\<lparr>half_open_probe_in_flight := True\<rparr>)
   \<and> cb_state 100 (end_call False (Failed 10 OtherError) (new_breaker 1 60 2)) = HALF_OPEN"
proof -
  define cb where "cb = end_call False (Failed 10 OtherError) (new_breaker 1 60 2)"
  have "breaker_step (new_breaker 1 60 2, []) (new_breaker 1 60 2, [False])"
    by (rule breaker_step.begin_call [of 0]) (simp add: pre_call_check_def cb_state_def new_breaker_def)
  moreover have "breaker_step (new_breaker 1 60 2, [False]) (cb, [])"
    unfolding cb_def using breaker_step.end_call [of "[False]" "[]" False "[]"] by simp
  ultimately have reach: "breaker_step\<^sup>*\<^sup>* (new_breaker 1 60 2, []) (cb, [])" by simp
  have chk: "pre_call_check 100 cb = Inr (True, cb\<lparr>half_open_probe_in_flight := True\<rparr>)"
    by (simp add: cb_def end_call_def record_call_failure_def is_server_error_def new_breaker_def pre_call_check_def cb_state_def)
  from breaker_single_probe [OF reach, of 100 True "cb\<lparr>half_open_probe_in_flight := True\<rparr>"] chk
  have "cb_state 100 cb = HALF_OPEN" by simp
  then show ?thesis using chk unfolding cb_def by simp
qed

text \<open>The breaker opens after exactly the configured number of consecutive server failures and
  recovers. From a closed breaker without failures, fewer server failures leave it closed; that
  many open it: calls are rejected until the recovery timeout after the last failure has passed, and
  from then on the next call is admitted as the probe.\<close>

lemma breaker_opens_and_recovers:
  assumes "cb_stored cb = CLOSED" "failure_count cb = 0" "\<not> half_open_probe_in_flight cb"
    and "\<forall>e \<in> set errs. is_server_error (snd e)" "errs \<noteq> []" "int (length errs) \<le> failure_threshold cb"
  defines "cb' \<equiv> foldl (\<lambda>c e. record_call_failure (fst e) (snd e) c) cb errs"
  shows "(int (length errs) < failure_threshold cb \<longrightarrow> cb_state now cb' = CLOSED)
     \<and> (int (length errs) = failure_threshold cb \<longrightarrow>
          (now - fst (last errs) < of_int (recovery_timeout_seconds cb) \<longrightarrow> pre_call_check now cb' = Inl CircuitOpen)
          \<and> (of_int (recovery_timeout_seconds cb) \<le> now - fst (last errs) \<longrightarrow>
                pre_call_check now cb' = Inr (True, cb'\<lparr>half_open_probe_in_flight := True\<rparr>)))"
proof -
  have "int (length errs) \<le> failure_threshold cb - failure_count cb" using assms(2,6) by simp
  from failures_fold [OF assms(4,5) this] show ?thesis
    using assms(1-3,6) unfolding cb'_def by (auto simp: cb_state_def pre_call_check_def)
qed

text \<open>The retry budget is a sliding window. Whatever the times of the attempts (in order), the
  retries recorded within one window never exceed the maximum, a further attempt is granted exactly
  while they are below it, and \<open>remaining\<close> is the difference.\<close>

lemma retry_budget_window:
  fixes w :: int
  assumes "sorted (0 # ts @ [now])" "0 \<le> m"
  defines "b \<equiv> snd (run_budget \<lparr>max_retries = m, window_seconds = w, retry_timestamps = []\<rparr> ts)"
  defines "used \<equiv> int (length (filter (\<lambda>t. now - of_int w \<le> t) (retry_timestamps b)))"
  shows "used \<le> m \<and> (fst (try_acquire_retry now b) \<longleftrightarrow> used < m) \<and> remaining_retries now b = m - used"
proof -
  have "budget_inv 0 \<lparr>max_retries = m, window_seconds = w, retry_timestamps = []\<rparr>" using assms(2) by (simp add: budget_inv_def)
  moreover have "sorted (0 # ts)" using assms(1) by (auto simp: sorted_append)
  ultimately have inv: "budget_inv (last (0 # ts)) b" and p: "max_retries b = m" "window_seconds b = w"
    using run_budget_inv [of 0 _ ts] unfolding b_def by force+
  have "last (0 # ts) \<le> now" using assms(1) by (auto simp: sorted_append dest: bspec [OF _ last_in_set])
  from try_acquire_inv(2) [OF inv this] have "fst (try_acquire_retry now b) \<longleftrightarrow> used < m"
    by (simp add: used_def p)
  moreover have "used \<le> m"
    using inv p length_filter_le [of "\<lambda>t. now - of_int w \<le> t" "retry_timestamps b"]
    unfolding used_def budget_inv_def by linarith
  ultimately show ?thesis by (simp add: remaining_retries_def p used_def)
qed

end
