(* ===== verification/Cap_Partition.thy ===== *)
theory Cap_Partition
  imports Account_Leases
begin

text \<open>
  Cluster-wide account caps, after \<open>codex-lb/app/modules/proxy/cap_partitioning.py\<close> and
  \<open>effective_account_concurrency_caps\<close> of \<open>codex-lb/app/modules/proxy/load_balancer.py\<close>: the share of
  a replica, the hysteresis with which a replica adopts a new partition, the caps in effect.

  The holder's clock is an argument of the observation that reads it. \<open>refresh_cap_partition\<close> is the
  function on the result of the membership read: \<open>None\<close> is a read that raised. The gauge and the log
  line of \<open>observe_ring_members\<close> are left out.
\<close>

section \<open>Definitions\<close>

definition partition_cap :: "int \<Rightarrow> int \<Rightarrow> int \<Rightarrow> int" where
  "partition_cap cap replicas rank =
     (if cap \<le> 0 then 0
      else if replicas \<le> 1 then cap
      else max 1 (cap div replicas + (if rank < cap mod replicas then 1 else 0)))"

record CapPartition =
  cp_replica_count :: int
  cp_rank :: int

definition default_partition :: CapPartition where
  "default_partition = \<lparr>cp_replica_count = 1, cp_rank = 0\<rparr>"

record CapPartitionHolder =
  adopted :: CapPartition
  pending_partition :: "CapPartition option"
  pending_since :: "pyfloat option"

definition new_holder :: CapPartitionHolder where
  "new_holder = \<lparr>adopted = default_partition, pending_partition = None, pending_since = None\<rparr>"

definition clear_pending :: "CapPartitionHolder \<Rightarrow> CapPartitionHolder" where
  "clear_pending h = h\<lparr>pending_partition := None, pending_since := None\<rparr>"

definition share :: "CapPartition \<Rightarrow> int \<Rightarrow> int" where
  "share p cap = partition_cap cap (cp_replica_count p) (cp_rank p)"

definition could_grow_share :: "CapPartitionHolder \<Rightarrow> CapPartition \<Rightarrow> int list \<Rightarrow> bool" where
  "could_grow_share h observed configured_caps =
     list_ex (\<lambda>cap. share observed cap > share (adopted h) cap) configured_caps"

text \<open>\<open>sorted(set(ids) | {self})\<close> and the position of the replica in it.\<close>

definition ring_members :: "string list \<Rightarrow> string \<Rightarrow> string list" where
  "ring_members ids self = sorted_list_of_set (insert self (set ids))"

definition observed_partition :: "string list \<Rightarrow> string \<Rightarrow> CapPartition" where
  "observed_partition ids self =
     (let members = ring_members ids self
      in \<lparr>cp_replica_count = int (length members), cp_rank = int (length (takeWhile (\<lambda>m. m \<noteq> self) members))\<rparr>)"

definition observe_partition ::
  "CapPartition \<Rightarrow> int list \<Rightarrow> pyfloat \<Rightarrow> pyfloat \<Rightarrow> CapPartitionHolder \<Rightarrow> bool \<times> CapPartitionHolder" where
  "observe_partition observed configured_caps scale_down_seconds now h =
     (if observed = adopted h then (False, clear_pending h)
      else if \<not> could_grow_share h observed configured_caps
      then (True, clear_pending (h\<lparr>adopted := observed\<rparr>))
      else if Some observed \<noteq> pending_partition h
      then (False, h\<lparr>pending_partition := Some observed, pending_since := Some now\<rparr>)
      else if (case pending_since h of None \<Rightarrow> False | Some t \<Rightarrow> now - t \<ge> scale_down_seconds)
      then (True, clear_pending (h\<lparr>adopted := observed\<rparr>))
      else (False, h))"

definition observe_members ::
  "string list \<Rightarrow> string \<Rightarrow> int list \<Rightarrow> pyfloat \<Rightarrow> pyfloat \<Rightarrow> CapPartitionHolder \<Rightarrow> bool \<times> CapPartitionHolder" where
  "observe_members ids self configured_caps scale_down_seconds now h =
     observe_partition (observed_partition ids self) configured_caps scale_down_seconds now h"

definition note_failed_read :: "CapPartitionHolder \<Rightarrow> CapPartitionHolder" where
  "note_failed_read h = clear_pending h"

record CapSettings =
  proxy_account_response_create_limit :: "int option"
  proxy_account_stream_limit :: "int option"

definition configured_account_concurrency_caps :: "CapSettings option \<Rightarrow> CapSettings \<Rightarrow> int \<times> int" where
  "configured_account_concurrency_caps dashboard startup =
     (let response_override = Option.bind dashboard proxy_account_response_create_limit;
          stream_override = Option.bind dashboard proxy_account_stream_limit;
          startup_response = default_to (proxy_account_response_create_limit startup) 4;
          startup_stream = default_to (proxy_account_stream_limit startup) 8
      in (max 0 (default_to response_override startup_response), max 0 (default_to stream_override startup_stream)))"

definition observe_ring_members ::
  "string list \<Rightarrow> string \<Rightarrow> CapSettings option \<Rightarrow> CapSettings \<Rightarrow> pyfloat \<Rightarrow> pyfloat \<Rightarrow> CapPartitionHolder
     \<Rightarrow> CapPartitionHolder" where
  "observe_ring_members ids self dashboard startup scale_down_seconds now h =
     (case configured_account_concurrency_caps dashboard startup of
        (rc, st) \<Rightarrow> snd (observe_members ids self [rc, st] scale_down_seconds now h))"

definition refresh_cap_partition ::
  "string list option \<Rightarrow> string \<Rightarrow> CapSettings option \<Rightarrow> CapSettings \<Rightarrow> pyfloat \<Rightarrow> pyfloat \<Rightarrow> CapPartitionHolder
     \<Rightarrow> CapPartitionHolder" where
  "refresh_cap_partition members self dashboard startup scale_down_seconds now h =
     (case members of
        None \<Rightarrow> note_failed_read h
      | Some ids \<Rightarrow> observe_ring_members ids self dashboard startup scale_down_seconds now h)"

definition effective_account_concurrency_caps ::
  "CapSettings option \<Rightarrow> CapSettings \<Rightarrow> string \<Rightarrow> CapPartition \<Rightarrow> AccountConcurrencyCaps" where
  "effective_account_concurrency_caps dashboard startup scope p =
     (case configured_account_concurrency_caps dashboard startup of
        (rc, st) \<Rightarrow>
          if scope = ''replica'' \<or> cp_replica_count p \<le> 1
          then \<lparr>response_create_limit = rc, stream_limit = st, configured_response_create_limit = None,
                configured_stream_limit = None, replica_count = 1\<rparr>
          else \<lparr>response_create_limit = share p rc, stream_limit = share p st,
                configured_response_create_limit = Some rc, configured_stream_limit = Some st,
                replica_count = cp_replica_count p\<rparr>)"

section \<open>Histories\<close>

text \<open>What a replica sees: membership reads that failed, and partitions observed at a time.\<close>

datatype ring_event = FailedRead | Observed CapPartition pyfloat

definition apply_event :: "int list \<Rightarrow> pyfloat \<Rightarrow> CapPartitionHolder \<Rightarrow> ring_event \<Rightarrow> CapPartitionHolder" where
  "apply_event caps window h e =
     (case e of FailedRead \<Rightarrow> note_failed_read h
      | Observed p t \<Rightarrow> snd (observe_partition p caps window t h))"

definition run_events :: "int list \<Rightarrow> pyfloat \<Rightarrow> ring_event list \<Rightarrow> CapPartitionHolder" where
  "run_events caps window es = foldl (apply_event caps window) new_holder es"

definition observes :: "CapPartition \<Rightarrow> ring_event \<Rightarrow> bool" where
  "observes p e = (case e of FailedRead \<Rightarrow> False | Observed q t \<Rightarrow> q = p)"

text \<open>A pending partition has been the only thing observed since the moment it became pending.\<close>

definition held_since :: "ring_event list \<Rightarrow> CapPartition \<Rightarrow> pyfloat \<Rightarrow> bool" where
  "held_since es p t = (\<exists>before after. es = before @ Observed p t # after \<and> list_all (observes p) after)"

definition pending_inv :: "ring_event list \<Rightarrow> CapPartitionHolder \<Rightarrow> bool" where
  "pending_inv es h =
     (case (pending_partition h, pending_since h) of
        (None, None) \<Rightarrow> True | (Some p, Some t) \<Rightarrow> held_since es p t | _ \<Rightarrow> False)"

section \<open>Shares\<close>

lemma sum_shares_rem:
  "0 \<le> r \<Longrightarrow> r \<le> int n \<Longrightarrow> (\<Sum>i < n. b + (if int i < r then 1 else 0)) = int n * b + r"
proof (induction n arbitrary: r)
  case (Suc n)
  show ?case
  proof (cases "r = int (Suc n)")
    case True
    then have "(\<Sum>i < n. b + (if int i < r then 1 else 0)) = (\<Sum>i < n. b + (if int i < int n then 1 else 0))"
      by (intro sum.cong) auto
    then show ?thesis using Suc.IH [of "int n"] True by (simp add: algebra_simps)
  next
    case False
    then show ?thesis using Suc by (simp add: algebra_simps)
  qed
qed simp

lemma partition_cap_large:
  assumes "1 < n" "int n \<le> cap"
  shows "partition_cap cap (int n) i = cap div int n + (if i < cap mod int n then 1 else 0)"
proof -
  have "1 \<le> cap div int n" using assms by (simp add: zdiv_mono1 [of "int n" cap "int n", simplified])
  then show ?thesis using assms by (simp add: partition_cap_def)
qed

lemma sum_partition_cap:
  assumes "1 \<le> n" "int n \<le> cap"
  shows "(\<Sum>i < n. partition_cap cap (int n) (int i)) = cap"
proof (cases "n = 1")
  case True
  then show ?thesis using assms(2) by (simp add: partition_cap_def)
next
  case False
  then have n: "1 < n" using assms by simp
  have "(\<Sum>i < n. partition_cap cap (int n) (int i))
      = (\<Sum>i < n. cap div int n + (if int i < cap mod int n then 1 else 0))"
    by (intro sum.cong refl partition_cap_large n assms(2))
  also have "\<dots> = int n * (cap div int n) + cap mod int n"
    using n by (intro sum_shares_rem) (simp_all add: less_imp_le)
  finally show ?thesis by simp
qed

lemma partition_cap_small:
  assumes "0 < cap" "cap < int n" "0 \<le> i"
  shows "partition_cap cap (int n) i = 1"
  using assms by (simp add: partition_cap_def div_pos_pos_trivial)

lemma partition_cap_pos: "0 < cap \<Longrightarrow> 0 < partition_cap cap n i"
  by (auto simp: partition_cap_def max_def)

text \<open>The caps in effect on the replica of rank \<open>i\<close> among \<open>n\<close>, under a scope other than \<open>replica\<close>.\<close>

lemma effective_caps_share:
  assumes "scope \<noteq> ''replica''" "1 \<le> n"
  shows "cap_of (effective_account_concurrency_caps dashboard startup scope \<lparr>cp_replica_count = int n, cp_rank = i\<rparr>) kind
    = partition_cap (case kind of response_create \<Rightarrow> fst (configured_account_concurrency_caps dashboard startup)
        | stream \<Rightarrow> snd (configured_account_concurrency_caps dashboard startup)) (int n) i"
  using assms
  by (auto simp: effective_account_concurrency_caps_def share_def cap_of_def partition_cap_def
      configured_account_concurrency_caps_def Let_def split: AccountLeaseKind.splits)

section \<open>Hysteresis\<close>

lemma held_since_snoc: "held_since es p t \<Longrightarrow> held_since (es @ [Observed p t']) p t"
  unfolding held_since_def by (force simp: observes_def)

lemma held_since_new: "held_since (es @ [Observed p t]) p t"
  unfolding held_since_def by force

lemma apply_event_inv: "pending_inv es h \<Longrightarrow> pending_inv (es @ [e]) (apply_event caps w h e)"
  by (cases e)
    (auto simp: pending_inv_def apply_event_def note_failed_read_def clear_pending_def observe_partition_def
      held_since_new held_since_snoc split: option.splits)

lemma run_events_snoc: "run_events caps w (es @ [e]) = apply_event caps w (run_events caps w es) e"
  by (simp add: run_events_def)

lemma run_events_inv: "pending_inv es (run_events caps w es)"
  by (induction es rule: rev_induct)
    (simp_all add: run_events_snoc apply_event_inv, simp add: run_events_def new_holder_def pending_inv_def)

section \<open>Properties\<close>

text \<open>The shares of the replicas add up. For \<open>n\<close> replicas and a cap of at least \<open>n\<close>, the shares of
  ranks \<open>0\<close> to \<open>n - 1\<close> sum to exactly the cap and differ by at most one; a smaller positive cap gives
  every replica one slot; a cap that is not positive stays unlimited (zero) everywhere.\<close>

lemma partition_cap_exact:
  assumes "1 \<le> n"
  shows "(int n \<le> cap \<longrightarrow> (\<Sum>i < n. partition_cap cap (int n) (int i)) = cap)
     \<and> (0 < cap \<and> cap < int n \<longrightarrow> (\<forall>i < n. partition_cap cap (int n) (int i) = 1))
     \<and> (cap \<le> 0 \<longrightarrow> partition_cap cap (int n) r = 0)
     \<and> (\<forall>i < n. \<forall>j < n. \<bar>partition_cap cap (int n) (int i) - partition_cap cap (int n) (int j)\<bar> \<le> 1)"
proof -
  have "(\<Sum>i < n. partition_cap cap (int n) (int i)) = cap" if "int n \<le> cap"
    by (rule sum_partition_cap [OF assms that])
  moreover have "\<forall>i < n. partition_cap cap (int n) (int i) = 1" if "0 < cap \<and> cap < int n"
    using that partition_cap_small by simp
  moreover have "\<bar>partition_cap cap (int n) (int i) - partition_cap cap (int n) (int j)\<bar> \<le> 1" for i j
    by (auto simp: partition_cap_def max_def)
  ultimately show ?thesis by (simp add: partition_cap_def)
qed

text \<open>A replica's share grows only after confirmation. In every history of membership reads, when
  an observation at time \<open>now\<close> makes the share of some configured cap grow, that very partition has
  been observed, with no other observation and no failed read in between, since a time at least the
  stability window earlier. Every other change takes effect at once.\<close>

lemma share_growth_confirmed:
  assumes "cap \<in> set caps" "h = run_events caps window es" "h' = apply_event caps window h (Observed p now)"
  shows "(share (adopted h) cap < share (adopted h') cap \<longrightarrow>
            adopted h' = p \<and> (\<exists>t. held_since es p t \<and> window \<le> now - t))
     \<and> ((\<forall>c \<in> set caps. share p c \<le> share (adopted h) c) \<longrightarrow> adopted h' = p)"
proof -
  have inv: "pending_inv es h" unfolding assms(2) by (rule run_events_inv)
  have "adopted h' = p \<and> (\<exists>t. held_since es p t \<and> window \<le> now - t)" if g: "share (adopted h) cap < share (adopted h') cap"
  proof -
    have "adopted h' \<noteq> adopted h" using g by auto
    then have ap: "adopted h' = p"
      using assms(3) by (auto simp: apply_event_def observe_partition_def clear_pending_def split: if_splits)
    then have "could_grow_share h p caps" using g assms(1) by (auto simp: could_grow_share_def list_ex_iff)
    then obtain t where "pending_partition h = Some p" "pending_since h = Some t" "window \<le> now - t"
      using \<open>adopted h' \<noteq> adopted h\<close> ap assms(3)
      by (auto simp: apply_event_def observe_partition_def clear_pending_def split: if_splits option.splits)
    then show ?thesis using ap inv by (auto simp: pending_inv_def)
  qed
  moreover have "adopted h' = p" if "\<forall>c \<in> set caps. share p c \<le> share (adopted h) c"
  proof -
    have "\<not> could_grow_share h p caps" using that by (auto simp: could_grow_share_def list_ex_iff)
    then show ?thesis
      using assms(3) by (auto simp: apply_event_def observe_partition_def clear_pending_def)
  qed
  ultimately show ?thesis by blast
qed

end
