(* ===== verification/Pricing.thy ===== *)
theory Pricing
  imports Prelude "HOL-Library.Sublist"
begin

text \<open>
  Prices and costs, after \<open>codex-lb/app/core/usage/pricing.py\<close>: the price table and the aliases, the
  resolution of a model name, the rates of a service tier, the cost of one usage and the summary
  over many.

  A dictionary is an association list in the order of the source. \<open>fnmatchcase\<close> is modelled for
  patterns of literals, \<open>*\<close> and \<open>?\<close>; the alias table has no character classes. \<open>round(x, n)\<close>
  rounds the exact value half to even at the \<open>n\<close>-th decimal.
\<close>

section \<open>Data\<close>

record ModelPrice =
  input_per_1m :: pyfloat
  output_per_1m :: pyfloat
  cached_input_per_1m :: "pyfloat option"
  priority_multiplier :: "pyfloat option"
  priority_input_per_1m :: "pyfloat option"
  priority_output_per_1m :: "pyfloat option"
  priority_cached_input_per_1m :: "pyfloat option"
  flex_input_per_1m :: "pyfloat option"
  flex_output_per_1m :: "pyfloat option"
  flex_cached_input_per_1m :: "pyfloat option"
  long_context_threshold_tokens :: "pyfloat option"
  long_context_input_per_1m :: "pyfloat option"
  long_context_output_per_1m :: "pyfloat option"
  long_context_cached_input_per_1m :: "pyfloat option"

definition model_price :: "pyfloat \<Rightarrow> pyfloat \<Rightarrow> ModelPrice" where
  "model_price inp out =
     \<lparr>input_per_1m = inp, output_per_1m = out, cached_input_per_1m = None, priority_multiplier = None,
      priority_input_per_1m = None, priority_output_per_1m = None, priority_cached_input_per_1m = None,
      flex_input_per_1m = None, flex_output_per_1m = None, flex_cached_input_per_1m = None,
      long_context_threshold_tokens = None, long_context_input_per_1m = None,
      long_context_output_per_1m = None, long_context_cached_input_per_1m = None\<rparr>"

record UsageTokens =
  ut_input :: pyfloat
  ut_output :: pyfloat
  ut_cached :: pyfloat

text \<open>The fields of the response usage that the costs read; \<open>ru_reasoning\<close> and \<open>ru_cached\<close> are
  those of the optional detail objects.\<close>

record ResponseUsage =
  ru_input :: "pyfloat option"
  ru_output :: "pyfloat option"
  ru_reasoning :: "pyfloat option"
  ru_cached :: "pyfloat option"

datatype usage_input = Tokens UsageTokens | Response ResponseUsage

record UsageCostBreakdown =
  input_usd :: pyfloat
  cached_input_usd :: pyfloat
  output_usd :: pyfloat
  total_usd :: pyfloat

record CostItem =
  ci_model :: string
  ci_usage :: UsageTokens
  ci_service_tier :: "string option"

definition DEFAULT_PRICING_MODELS :: "(string \<times> ModelPrice) list" where
  "DEFAULT_PRICING_MODELS =
     [(''gpt-5.5'', (model_price 5 30)
        \<lparr>cached_input_per_1m := Some (1 / 2), priority_input_per_1m := Some (25 / 2),
         priority_output_per_1m := Some 75, priority_cached_input_per_1m := Some (5 / 4),
         flex_input_per_1m := Some (5 / 2), flex_output_per_1m := Some 15,
         flex_cached_input_per_1m := Some (1 / 4)\<rparr>),
      (''gpt-5.5-pro'', (model_price 30 180)
        \<lparr>flex_input_per_1m := Some 15, flex_output_per_1m := Some 90\<rparr>),
      (''gpt-5.4'', (model_price (5 / 2) 15)
        \<lparr>cached_input_per_1m := Some (1 / 4), priority_input_per_1m := Some 5,
         priority_output_per_1m := Some 30, priority_cached_input_per_1m := Some (1 / 2),
         flex_input_per_1m := Some (5 / 4), flex_output_per_1m := Some (15 / 2),
         flex_cached_input_per_1m := Some (1 / 8),
         long_context_threshold_tokens := Some 272000,
         long_context_input_per_1m := Some 5, long_context_output_per_1m := Some (45 / 2),
         long_context_cached_input_per_1m := Some (1 / 2)\<rparr>),
      (''gpt-5.4-mini'', (model_price (3 / 4) (9 / 2))
        \<lparr>cached_input_per_1m := Some (3 / 40), flex_input_per_1m := Some (3 / 8),
         flex_output_per_1m := Some (9 / 4), flex_cached_input_per_1m := Some (3 / 80)\<rparr>),
      (''gpt-5.4-nano'', (model_price (1 / 5) (5 / 4))
        \<lparr>cached_input_per_1m := Some (1 / 50), flex_input_per_1m := Some (1 / 10),
         flex_output_per_1m := Some (5 / 8), flex_cached_input_per_1m := Some (1 / 100)\<rparr>),
      (''gpt-5.4-pro'', (model_price 30 180)
        \<lparr>flex_input_per_1m := Some 15, flex_output_per_1m := Some 90,
         long_context_threshold_tokens := Some 272000,
         long_context_input_per_1m := Some 60, long_context_output_per_1m := Some 270\<rparr>),
      (''gpt-5.3-codex'', (model_price (7 / 4) 14)
        \<lparr>cached_input_per_1m := Some (7 / 40), priority_input_per_1m := Some (7 / 2),
         priority_output_per_1m := Some 28, priority_cached_input_per_1m := Some (7 / 20)\<rparr>),
      (''gpt-5.3'', (model_price (7 / 4) 14)
        \<lparr>cached_input_per_1m := Some (7 / 40)\<rparr>),
      (''gpt-5.3-chat-latest'', (model_price (7 / 4) 14)
        \<lparr>cached_input_per_1m := Some (7 / 40)\<rparr>),
      (''gpt-5.2'', (model_price (7 / 4) 14)
        \<lparr>cached_input_per_1m := Some (7 / 40), priority_multiplier := Some 2,
         flex_input_per_1m := Some (7 / 8), flex_output_per_1m := Some 7,
         flex_cached_input_per_1m := Some (7 / 80)\<rparr>),
      (''gpt-5.2-chat-latest'', (model_price (7 / 4) 14)
        \<lparr>cached_input_per_1m := Some (7 / 40)\<rparr>),
      (''gpt-5.1'', (model_price (5 / 4) 10)
        \<lparr>cached_input_per_1m := Some (1 / 8), priority_multiplier := Some 2,
         flex_input_per_1m := Some (5 / 8), flex_output_per_1m := Some 5,
         flex_cached_input_per_1m := Some (1 / 16)\<rparr>),
      (''gpt-5.1-chat-latest'', (model_price (5 / 4) 10)
        \<lparr>cached_input_per_1m := Some (1 / 8)\<rparr>),
      (''gpt-5'', (model_price (5 / 4) 10)
        \<lparr>cached_input_per_1m := Some (1 / 8), priority_multiplier := Some 2,
         flex_input_per_1m := Some (5 / 8), flex_output_per_1m := Some 5,
         flex_cached_input_per_1m := Some (1 / 16)\<rparr>),
      (''gpt-5-chat-latest'', (model_price (5 / 4) 10)
        \<lparr>cached_input_per_1m := Some (1 / 8)\<rparr>),
      (''gpt-5.2-codex'', (model_price (7 / 4) 14)
        \<lparr>cached_input_per_1m := Some (7 / 40), priority_input_per_1m := Some (7 / 2),
         priority_output_per_1m := Some 28, priority_cached_input_per_1m := Some (7 / 20)\<rparr>),
      (''gpt-5.1-codex-max'', (model_price (5 / 4) 10)
        \<lparr>cached_input_per_1m := Some (1 / 8), priority_input_per_1m := Some (5 / 2),
         priority_output_per_1m := Some 20, priority_cached_input_per_1m := Some (1 / 4)\<rparr>),
      (''gpt-5.1-codex-mini'', (model_price (1 / 4) 2)
        \<lparr>cached_input_per_1m := Some (1 / 40)\<rparr>),
      (''gpt-5.1-codex'', (model_price (5 / 4) 10)
        \<lparr>cached_input_per_1m := Some (1 / 8), priority_input_per_1m := Some (5 / 2),
         priority_output_per_1m := Some 20, priority_cached_input_per_1m := Some (1 / 4)\<rparr>),
      (''gpt-5-codex'', (model_price (5 / 4) 10)
        \<lparr>cached_input_per_1m := Some (1 / 8), priority_input_per_1m := Some (5 / 2),
         priority_output_per_1m := Some 20, priority_cached_input_per_1m := Some (1 / 4)\<rparr>),
      (''gpt-image-2'', (model_price 5 30)
        \<lparr>cached_input_per_1m := Some 2\<rparr>),
      (''gpt-image-1.5'', (model_price 5 30)
        \<lparr>cached_input_per_1m := Some 2\<rparr>),
      (''gpt-image-1'', (model_price 5 30)
        \<lparr>cached_input_per_1m := Some 2\<rparr>),
      (''gpt-image-1-mini'', (model_price 5 30)
        \<lparr>cached_input_per_1m := Some 2\<rparr>)]"

definition DEFAULT_MODEL_ALIASES :: "(string \<times> string) list" where
  "DEFAULT_MODEL_ALIASES =
     [(''gpt-5.5-pro*'', ''gpt-5.5-pro''), (''gpt-5.5*'', ''gpt-5.5''),
      (''gpt-5.4-pro*'', ''gpt-5.4-pro''), (''gpt-5.4-mini*'', ''gpt-5.4-mini''),
      (''gpt-5.4-nano*'', ''gpt-5.4-nano''), (''gpt-5.4*'', ''gpt-5.4''),
      (''gpt-5.3-codex*'', ''gpt-5.3-codex''), (''gpt-5.3-chat-latest*'', ''gpt-5.3-chat-latest''),
      (''gpt-5.2-codex*'', ''gpt-5.2-codex''), (''gpt-5.2-chat-latest*'', ''gpt-5.2-chat-latest''),
      (''gpt-5.3*'', ''gpt-5.3''), (''gpt-5.1-chat-latest*'', ''gpt-5.1-chat-latest''),
      (''gpt-5.2*'', ''gpt-5.2''), (''gpt-5-chat-latest*'', ''gpt-5-chat-latest''),
      (''gpt-5.1*'', ''gpt-5.1''), (''gpt-5*'', ''gpt-5''),
      (''gpt-5.1-codex-max*'', ''gpt-5.1-codex-max''),
      (''gpt-5.1-codex-mini*'', ''gpt-5.1-codex-mini''), (''gpt-5.1-codex*'', ''gpt-5.1-codex''),
      (''gpt-5-codex*'', ''gpt-5-codex''), (''gpt-image-2*'', ''gpt-image-2''),
      (''gpt-image-1.5*'', ''gpt-image-1.5''), (''gpt-image-1-mini*'', ''gpt-image-1-mini''),
      (''gpt-image-1*'', ''gpt-image-1'')]"

section \<open>Operations\<close>

definition normalize_usage :: "usage_input option \<Rightarrow> UsageTokens option" where
  "normalize_usage usage =
     (case usage of
        None \<Rightarrow> None
      | Some (Tokens u) \<Rightarrow>
          Some \<lparr>ut_input = ut_input u, ut_output = ut_output u,
                ut_cached = max 0 (min (or_num (Some (ut_cached u)) 0) (ut_input u))\<rparr>
      | Some (Response u) \<Rightarrow>
          (case (ru_input u, or_else (ru_output u) (ru_reasoning u)) of
             (Some i, Some out) \<Rightarrow>
               Some \<lparr>ut_input = i, ut_output = out, ut_cached = max 0 (min (or_num (ru_cached u) 0) i)\<rparr>
           | _ \<Rightarrow> None))"

fun fnmatchcase :: "string \<Rightarrow> string \<Rightarrow> bool" where
  "fnmatchcase [] [] = True"
| "fnmatchcase (c # s) [] = False"
| "fnmatchcase [] (p # ps) = (p = CHR ''*'' \<and> fnmatchcase [] ps)"
| "fnmatchcase (c # s) (p # ps) =
     (if p = CHR ''*'' then fnmatchcase (c # s) ps \<or> fnmatchcase s (p # ps)
      else (p = CHR ''?'' \<or> p = c) \<and> fnmatchcase s ps)"

definition alias_matches :: "string \<Rightarrow> (string \<times> string) list \<Rightarrow> (nat \<times> string) list" where
  "alias_matches normalized aliases =
     map (\<lambda>(pattern, target). (length pattern, target))
       (filter (\<lambda>(pattern, target). fnmatchcase normalized (py_lower pattern)) aliases)"

definition resolve_model_alias :: "string \<Rightarrow> (string \<times> string) list \<Rightarrow> string option" where
  "resolve_model_alias model aliases =
     (if model = [] then None
      else (case py_max_by fst (alias_matches (py_lower model) aliases) of
              Inl e \<Rightarrow> None | Inr m \<Rightarrow> Some (snd m)))"

definition find_price :: "string \<Rightarrow> (string \<times> ModelPrice) list \<Rightarrow> (string \<times> ModelPrice) option" where
  "find_price normalized pricing = List.find (\<lambda>(k, v). py_lower k = normalized) pricing"

definition get_pricing_for_model ::
  "string \<Rightarrow> (string \<times> ModelPrice) list option \<Rightarrow> (string \<times> string) list option
     \<Rightarrow> (string \<times> ModelPrice) option" where
  "get_pricing_for_model model pricing_arg aliases_arg =
     (if model = [] then None
      else (let pricing = or_list (default_to pricing_arg []) DEFAULT_PRICING_MODELS;
                aliases = or_list (default_to aliases_arg []) DEFAULT_MODEL_ALIASES
            in case find_price (py_lower model) pricing of
                 Some kv \<Rightarrow> Some kv
               | None \<Rightarrow>
                   (case resolve_model_alias (py_lower model) aliases of
                      None \<Rightarrow> None
                    | Some a \<Rightarrow> if a = [] then None else find_price (py_lower a) pricing)))"

definition normalize_service_tier :: "string option \<Rightarrow> string option" where
  "normalize_service_tier tier =
     (case tier of None \<Rightarrow> None
      | Some t \<Rightarrow> let stripped = py_lower (py_strip t) in if stripped = [] then None else Some stripped)"

definition uses_priority_tier :: "string option \<Rightarrow> bool" where
  "uses_priority_tier tier = (normalize_service_tier tier \<in> {Some ''priority'', Some ''fast''})"

definition uses_flex_tier :: "string option \<Rightarrow> bool" where
  "uses_flex_tier tier = (normalize_service_tier tier = Some ''flex'')"

definition is_long_context :: "UsageTokens \<Rightarrow> ModelPrice \<Rightarrow> bool" where
  "is_long_context usage price =
     ((case long_context_threshold_tokens price of None \<Rightarrow> False | Some t \<Rightarrow> ut_input usage > t)
      \<and> long_context_input_per_1m price \<noteq> None \<and> long_context_output_per_1m price \<noteq> None)"

definition effective_rates :: "UsageTokens \<Rightarrow> ModelPrice \<Rightarrow> string option \<Rightarrow> pyfloat \<times> pyfloat \<times> pyfloat" where
  "effective_rates usage price tier =
     (let long = is_long_context usage price;
          input_rate = input_per_1m price;
          cached_rate = default_to (cached_input_per_1m price) input_rate;
          output_rate = output_per_1m price
      in case (uses_priority_tier tier, priority_input_per_1m price, priority_output_per_1m price) of
           (True, Some pin, Some pout) \<Rightarrow> (pin, default_to (priority_cached_input_per_1m price) pin, pout)
         | _ \<Rightarrow>
             (case (uses_priority_tier tier, priority_multiplier price) of
                (True, Some m) \<Rightarrow> (input_rate * m, cached_rate * m, output_rate * m)
              | _ \<Rightarrow>
                  (case (uses_flex_tier tier, flex_input_per_1m price, flex_output_per_1m price) of
                     (True, Some fin, Some fout) \<Rightarrow>
                       (let fcached = default_to (flex_cached_input_per_1m price) fin
                        in if long then (fin * 2, fcached * 2, fout * (3 / 2)) else (fin, fcached, fout))
                   | _ \<Rightarrow>
                       (if long
                        then (the (long_context_input_per_1m price),
                              default_to (long_context_cached_input_per_1m price) (the (long_context_input_per_1m price)),
                              the (long_context_output_per_1m price))
                        else (input_rate, cached_rate, output_rate)))))"

definition round_to :: "nat \<Rightarrow> pyfloat \<Rightarrow> pyfloat" where
  "round_to n x = of_int (py_round (x * 10 ^ n)) / 10 ^ n"

definition maybe_round :: "nat option \<Rightarrow> pyfloat \<Rightarrow> pyfloat" where
  "maybe_round precision x = (case precision of None \<Rightarrow> x | Some n \<Rightarrow> round_to n x)"

definition calculate_cost_breakdown_from_usage ::
  "usage_input option \<Rightarrow> ModelPrice \<Rightarrow> string option \<Rightarrow> nat option \<Rightarrow> UsageCostBreakdown option" where
  "calculate_cost_breakdown_from_usage usage price tier precision =
     (case normalize_usage usage of None \<Rightarrow> None
      | Some u \<Rightarrow>
          (let billable_input = max 0 (ut_input u - ut_cached u)
           in case effective_rates u price tier of
                (input_rate, cached_rate, output_rate) \<Rightarrow>
                  (let i = maybe_round precision (billable_input / 1000000 * input_rate);
                       c = maybe_round precision (ut_cached u / 1000000 * cached_rate);
                       out = maybe_round precision (ut_output u / 1000000 * output_rate)
                   in Some \<lparr>input_usd = i, cached_input_usd = c, output_usd = out,
                            total_usd = maybe_round precision (i + c + out)\<rparr>)))"

definition calculate_cost_from_usage ::
  "usage_input option \<Rightarrow> ModelPrice \<Rightarrow> string option \<Rightarrow> pyfloat option" where
  "calculate_cost_from_usage usage price tier =
     map_option total_usd (calculate_cost_breakdown_from_usage usage price tier None)"

definition item_cost ::
  "(string \<times> ModelPrice) list option \<Rightarrow> (string \<times> string) list option \<Rightarrow> CostItem \<Rightarrow> (string \<times> pyfloat) option" where
  "item_cost pricing aliases item =
     (case get_pricing_for_model (ci_model item) pricing aliases of
        None \<Rightarrow> None
      | Some (canonical, price) \<Rightarrow>
          map_option (\<lambda>cost. (canonical, cost))
            (calculate_cost_from_usage (Some (Tokens (ci_usage item))) price (ci_service_tier item)))"

definition add_cost :: "(string \<times> pyfloat) list \<times> pyfloat \<Rightarrow> string \<times> pyfloat \<Rightarrow> (string \<times> pyfloat) list \<times> pyfloat" where
  "add_cost acc kc =
     (case acc of (totals, tot) \<Rightarrow>
        (AList.update (fst kc) (default_to (map_of totals (fst kc)) 0 + snd kc) totals, tot + snd kc))"

record UsageCostSummary =
  currency :: string
  total_usd_7d :: pyfloat
  by_model :: "(string \<times> pyfloat) list"

definition calculate_costs ::
  "CostItem list \<Rightarrow> (string \<times> ModelPrice) list option \<Rightarrow> (string \<times> string) list option \<Rightarrow> UsageCostSummary" where
  "calculate_costs items pricing aliases =
     (case foldl add_cost ([], 0) (List.map_filter (item_cost pricing aliases) items) of
        (totals, tot) \<Rightarrow>
          \<lparr>currency = ''USD'',
           total_usd_7d = round_to 6 tot,
           by_model = map (\<lambda>(m, v). (m, round_to 6 v)) (sort_key fst totals)\<rparr>)"

section \<open>Specification\<close>

text \<open>A name without pattern characters, a pair of tables in which every key has its alias
  \<open>key*\<close> and nothing else, and the reference resolution: the longest key that starts the name.\<close>

definition plain_name :: "string \<Rightarrow> bool" where
  "plain_name s = list_all (\<lambda>c. c \<noteq> CHR ''*'' \<and> c \<noteq> CHR ''?'' \<and> lower_char c = c) s"

definition starred_tables :: "(string \<times> ModelPrice) list \<Rightarrow> (string \<times> string) list \<Rightarrow> bool" where
  "starred_tables pricing aliases =
     (distinct (map fst pricing)
      \<and> list_all (\<lambda>k. k \<noteq> [] \<and> plain_name k \<and> (k @ ''*'', k) \<in> set aliases) (map fst pricing)
      \<and> list_all (\<lambda>(p, t). p = t @ ''*'' \<and> t \<in> set (map fst pricing)) aliases)"

definition longest_key :: "(string \<times> ModelPrice) list \<Rightarrow> string \<Rightarrow> string \<times> ModelPrice \<Rightarrow> bool" where
  "longest_key pricing s kp =
     (kp \<in> set pricing \<and> prefix (fst kp) s
      \<and> list_all (\<lambda>k. prefix k s \<longrightarrow> length k \<le> length (fst kp)) (map fst pricing))"

text \<open>No rate is negative, and in each tier cached input costs at most what fresh input costs.\<close>

definition opt_nonneg :: "pyfloat option \<Rightarrow> bool" where
  "opt_nonneg x = (case x of None \<Rightarrow> True | Some v \<Rightarrow> 0 \<le> v)"

definition rates_ok :: "pyfloat \<Rightarrow> pyfloat option \<Rightarrow> pyfloat \<Rightarrow> bool" where
  "rates_ok inp cached out = (0 \<le> default_to cached inp \<and> default_to cached inp \<le> inp \<and> 0 \<le> out)"

definition opt_rates_ok :: "pyfloat option \<Rightarrow> pyfloat option \<Rightarrow> pyfloat option \<Rightarrow> bool" where
  "opt_rates_ok inp cached out =
     (case (inp, out) of (Some i, Some j) \<Rightarrow> rates_ok i cached j | _ \<Rightarrow> True)"

definition price_ok :: "ModelPrice \<Rightarrow> bool" where
  "price_ok p =
     (rates_ok (input_per_1m p) (cached_input_per_1m p) (output_per_1m p)
      \<and> opt_nonneg (priority_multiplier p)
      \<and> opt_rates_ok (priority_input_per_1m p) (priority_cached_input_per_1m p) (priority_output_per_1m p)
      \<and> opt_rates_ok (flex_input_per_1m p) (flex_cached_input_per_1m p) (flex_output_per_1m p)
      \<and> opt_rates_ok (long_context_input_per_1m p) (long_context_cached_input_per_1m p)
          (long_context_output_per_1m p))"

definition token_usage :: "pyfloat \<Rightarrow> pyfloat \<Rightarrow> pyfloat \<Rightarrow> UsageTokens" where
  "token_usage i out c = \<lparr>ut_input = i, ut_output = out, ut_cached = c\<rparr>"

definition model_sum :: "(string \<times> pyfloat) list \<Rightarrow> string \<Rightarrow> pyfloat" where
  "model_sum costs m = sum_list (map snd (filter (\<lambda>kc. fst kc = m) costs))"

section \<open>Resolution of a model name\<close>

lemma fnmatch_star [simp]: "fnmatchcase s ''*''"
  by (induction s) auto

lemma fnmatch_prefix: "plain_name lit \<Longrightarrow> fnmatchcase s (lit @ ''*'') = prefix lit s"
proof (induction lit arbitrary: s)
  case (Cons c lit)
  then show ?case by (cases s) (auto simp: plain_name_def)
qed simp

lemma plain_lower: "plain_name s \<Longrightarrow> py_lower s = s"
  by (induction s) (auto simp: plain_name_def py_lower_def)

lemma plain_star_lower: "plain_name s \<Longrightarrow> py_lower (s @ ''*'') = s @ ''*''"
  using plain_lower [of s] by (simp add: py_lower_def lower_char_def)

lemma find_price_sound:
  "find_price n pricing = Some kv \<Longrightarrow> kv \<in> set pricing \<and> py_lower (fst kv) = n"
  by (auto simp: find_price_def find_Some_iff split_def)

lemma find_price_None: "find_price n pricing = None \<longleftrightarrow> (\<forall>kv \<in> set pricing. py_lower (fst kv) \<noteq> n)"
  by (auto simp: find_price_def find_None_iff split_def)

lemma find_price_key:
  assumes "starred_tables pricing aliases" "(k, v) \<in> set pricing"
  shows "find_price k pricing = Some (k, v)"
proof -
  have low: "py_lower k' = k'" if "(k', v') \<in> set pricing" for k' v'
    using assms(1) that by (force simp: starred_tables_def list_all_iff intro: plain_lower)
  have "find_price k pricing \<noteq> None"
    using assms(2) low [OF assms(2)] by (metis find_price_None fst_conv)
  then obtain k' v' where f: "find_price k pricing = Some (k', v')" by auto
  then have "(k', v') \<in> set pricing" "k' = k"
    using find_price_sound [OF f] low by auto
  then have "v' = v" using assms by (auto simp: starred_tables_def eq_key_imp_eq_value)
  then show ?thesis using f \<open>k' = k\<close> by simp
qed

lemma alias_matches_prefix:
  assumes "starred_tables pricing aliases"
  shows "(n, t) \<in> set (alias_matches s aliases)
     \<longleftrightarrow> t \<in> set (map fst pricing) \<and> prefix t s \<and> n = Suc (length t)"
proof -
  have tab: "(p, t) \<in> set aliases \<longleftrightarrow> p = t @ ''*'' \<and> t \<in> set (map fst pricing)" for p t
    using assms by (auto simp: starred_tables_def list_all_iff)
  have plain: "plain_name t" if "t \<in> set (map fst pricing)" for t
    using assms that by (auto simp: starred_tables_def list_all_iff)
  have "(n, t) \<in> set (alias_matches s aliases)
      \<longleftrightarrow> (\<exists>p. (p, t) \<in> set aliases \<and> fnmatchcase s (py_lower p) \<and> n = length p)"
    by (auto simp: alias_matches_def)
  also have "\<dots> \<longleftrightarrow> t \<in> set (map fst pricing) \<and> fnmatchcase s (py_lower (t @ ''*'')) \<and> n = Suc (length t)"
    by (auto simp: tab)
  also have "\<dots> \<longleftrightarrow> t \<in> set (map fst pricing) \<and> prefix t s \<and> n = Suc (length t)"
    using plain [of t] by (metis plain_star_lower fnmatch_prefix)
  finally show ?thesis .
qed

lemma resolve_longest:
  assumes tabs: "starred_tables pricing aliases"
  shows "resolve_model_alias s aliases = Some t \<longleftrightarrow> (\<exists>v. longest_key pricing (py_lower s) (t, v))"
proof
  assume "resolve_model_alias s aliases = Some t"
  then obtain n where m: "py_max_by fst (alias_matches (py_lower s) aliases) = Inr (n, t)"
    by (auto simp: resolve_model_alias_def split: if_splits sum.splits)
  have "(n, t) \<in> set (alias_matches (py_lower s) aliases)" by (rule max_by.pick_member [OF m])
  then have t: "t \<in> set (map fst pricing)" "prefix t (py_lower s)" "n = Suc (length t)"
    using alias_matches_prefix [OF tabs] by auto
  have "length k \<le> length t" if "k \<in> set (map fst pricing)" "prefix k (py_lower s)" for k
    using py_max_by_greatest [OF m, of "(Suc (length k), k)"] that t(3)
      alias_matches_prefix [OF tabs, of "Suc (length k)" k "py_lower s"] by auto
  with t show "\<exists>v. longest_key pricing (py_lower s) (t, v)"
    by (auto simp: longest_key_def list_all_iff)
next
  assume "\<exists>v. longest_key pricing (py_lower s) (t, v)"
  then obtain v where v: "longest_key pricing (py_lower s) (t, v)" by blast
  have tn: "t \<in> set (map fst pricing)" "prefix t (py_lower s)"
    using v by (force simp: longest_key_def)+
  then have mem: "(Suc (length t), t) \<in> set (alias_matches (py_lower s) aliases)"
    using alias_matches_prefix [OF tabs] by blast
  then have "alias_matches (py_lower s) aliases \<noteq> []" by auto
  then obtain n t' where m: "py_max_by fst (alias_matches (py_lower s) aliases) = Inr (n, t')"
    using max_by.pick_total by (metis surj_pair)
  have "(n, t') \<in> set (alias_matches (py_lower s) aliases)" by (rule max_by.pick_member [OF m])
  then have t': "t' \<in> set (map fst pricing)" "prefix t' (py_lower s)" "n = Suc (length t')"
    using alias_matches_prefix [OF tabs] by auto
  have "length t' = length t"
    using t' v py_max_by_greatest [OF m mem] by (force simp: longest_key_def list_all_iff)
  then have "t' = t" using t'(2) tn(2) by (metis prefix_length_prefix prefix_order.antisym order_refl)
  moreover have "s \<noteq> []"
    using tn tabs by (auto simp: starred_tables_def list_all_iff py_lower_def)
  ultimately show "resolve_model_alias s aliases = Some t" using m by (simp add: resolve_model_alias_def)
qed

lemma default_tables: "starred_tables DEFAULT_PRICING_MODELS DEFAULT_MODEL_ALIASES"
  by code_simp

lemma longest_key_unique:
  assumes "starred_tables pricing aliases" "longest_key pricing s a" "longest_key pricing s b"
  shows "a = b"
proof -
  have mem: "a \<in> set pricing" "b \<in> set pricing" "prefix (fst a) s" "prefix (fst b) s"
    using assms(2,3) by (simp_all add: longest_key_def)
  have "length (fst a) \<le> length (fst b)" "length (fst b) \<le> length (fst a)"
    using assms(2,3) mem by (simp_all add: longest_key_def list_all_iff)
  then have eq: "fst a = fst b"
    using mem(3,4) by (meson prefix_length_prefix prefix_order.antisym)
  have "distinct (map fst pricing)" using assms(1) by (simp add: starred_tables_def)
  then show ?thesis using mem(1,2) eq by (metis eq_key_imp_eq_value prod.collapse)
qed

lemma resolution_longest_key:
  assumes tabs: "starred_tables DEFAULT_PRICING_MODELS DEFAULT_MODEL_ALIASES"
  shows "get_pricing_for_model model None None = Some kp
     \<longleftrightarrow> longest_key DEFAULT_PRICING_MODELS (py_lower model) kp"
proof (cases "find_price (py_lower model) DEFAULT_PRICING_MODELS")
  case (Some kv)
  have kv: "kv \<in> set DEFAULT_PRICING_MODELS" "py_lower (fst kv) = py_lower model"
    using find_price_sound [OF Some] by auto
  then have "fst kv \<noteq> [] \<and> plain_name (fst kv)"
    using tabs by (auto simp: starred_tables_def list_all_iff)
  then have ne: "fst kv \<noteq> []" "py_lower (fst kv) = fst kv" by (simp_all add: plain_lower)
  then have "longest_key DEFAULT_PRICING_MODELS (py_lower model) kv"
    using kv by (auto simp: longest_key_def list_all_iff prefix_length_le)
  moreover have "model \<noteq> []" using ne kv(2) by (metis py_lower_eq_Nil)
  then have "get_pricing_for_model model None None = Some kv"
    using Some by (simp add: get_pricing_for_model_def default_to_def)
  ultimately show ?thesis using longest_key_unique [OF tabs, of _ kv kp] by (metis option.inject)
next
  case None
  show ?thesis
  proof (cases "resolve_model_alias (py_lower model) DEFAULT_MODEL_ALIASES")
    case none: None
    then have "\<not> longest_key DEFAULT_PRICING_MODELS (py_lower model) kp"
      using resolve_longest [OF tabs, of "py_lower model" "fst kp"] by (cases kp) auto
    then show ?thesis
      using None none by (simp add: get_pricing_for_model_def default_to_def)
  next
    case (Some t)
    then obtain v where v: "longest_key DEFAULT_PRICING_MODELS (py_lower model) (t, v)"
      using resolve_longest [OF tabs, of "py_lower model" t] by auto
    then have mem: "(t, v) \<in> set DEFAULT_PRICING_MODELS" by (simp add: longest_key_def)
    then have t: "t \<noteq> []" "py_lower t = t"
      using tabs by (auto simp: starred_tables_def list_all_iff intro!: plain_lower)
    have "model \<noteq> []" using Some by (auto simp: resolve_model_alias_def)
    then have "get_pricing_for_model model None None = Some (t, v)"
      using None Some t find_price_key [OF tabs mem]
      by (simp add: get_pricing_for_model_def default_to_def)
    then show ?thesis using v longest_key_unique [OF tabs v, of kp] by (metis option.inject)
  qed
qed

lemma resolution_none:
  assumes tabs: "starred_tables DEFAULT_PRICING_MODELS DEFAULT_MODEL_ALIASES"
  shows "get_pricing_for_model model None None = None
     \<longleftrightarrow> (\<nexists>k. k \<in> fst ` set DEFAULT_PRICING_MODELS \<and> prefix k (py_lower model))"
proof -
  let ?K = "filter (\<lambda>kp. prefix (fst kp) (py_lower model)) DEFAULT_PRICING_MODELS"
  have "\<exists>kp. longest_key DEFAULT_PRICING_MODELS (py_lower model) kp" if ne: "?K \<noteq> []"
  proof -
    obtain kp where m: "py_max_by (length \<circ> fst) ?K = Inr kp" using max_by.pick_total [OF ne] by blast
    have "kp \<in> set ?K" by (rule max_by.pick_member [OF m])
    moreover have "length (fst y) \<le> length (fst kp)" if "y \<in> set ?K" for y
      using py_max_by_greatest [OF m that] by simp
    ultimately have "longest_key DEFAULT_PRICING_MODELS (py_lower model) kp"
      by (simp add: longest_key_def list_all_iff)
    then show ?thesis by blast
  qed
  moreover have "?K \<noteq> [] \<longleftrightarrow> (\<exists>k. k \<in> fst ` set DEFAULT_PRICING_MODELS \<and> prefix k (py_lower model))"
    by (force simp: filter_empty_conv)
  moreover have "?K \<noteq> []" if "longest_key DEFAULT_PRICING_MODELS (py_lower model) kp" for kp
    using that by (auto simp: longest_key_def filter_empty_conv)
  ultimately show ?thesis
    using resolution_longest_key [OF tabs, of model] by (metis not_None_eq)
qed

text \<open>With the default tables a model name is priced as the longest table key it starts with,
  ignoring case (so \<open>gpt-5.1-codex-mini-2025\<close> is billed as \<open>gpt-5.1-codex-mini\<close>, not as
  \<open>gpt-5.1\<close>), and is unpriced exactly when no key starts it. A shorter alias that comes first in the
  table does not win.\<close>

lemma pricing_longest_prefix:
  "(get_pricing_for_model model None None = Some kp
      \<longleftrightarrow> longest_key DEFAULT_PRICING_MODELS (py_lower model) kp)
   \<and> (get_pricing_for_model model None None = None
      \<longleftrightarrow> (\<nexists>k. k \<in> fst ` set DEFAULT_PRICING_MODELS \<and> prefix k (py_lower model)))"
  using resolution_longest_key [OF default_tables] resolution_none [OF default_tables] by blast

section \<open>Cost of one usage\<close>

lemma default_prices_ok: "list_all (price_ok \<circ> snd) DEFAULT_PRICING_MODELS"
  by code_simp

lemma rates_ok_scale: "rates_ok i c out \<Longrightarrow> 0 \<le> m \<Longrightarrow> 0 \<le> n \<Longrightarrow> rates_ok (i * m) (Some (default_to c i * m)) (out * n)"
  by (auto simp: rates_ok_def default_to_def mult_right_mono)

lemma effective_rates_ok:
  assumes "price_ok price"
  shows "case effective_rates u price tier of (i, c, out) \<Rightarrow> rates_ok i (Some c) out"
  using assms rates_ok_scale [where m = 2 and n = "3 / 2"]
  by (auto simp: effective_rates_def price_ok_def opt_rates_ok_def is_long_context_def rates_ok_def
      opt_nonneg_def default_to_def Let_def mult_right_mono split: option.splits if_splits bool.splits)

lemma rates_by_input: "effective_rates (token_usage i out c) = effective_rates (token_usage i out' c')"
proof -
  have "is_long_context (token_usage i out c) = is_long_context (token_usage i out' c')"
    by (auto simp: is_long_context_def token_usage_def fun_eq_iff split: option.splits)
  then have "effective_rates (token_usage i out c) p t = effective_rates (token_usage i out' c') p t" for p t
    unfolding effective_rates_def by (simp only:)
  then show ?thesis by blast
qed

text \<open>The cost of a usage given by its tokens, in closed form.\<close>

lemma cost_of_tokens:
  assumes "effective_rates (token_usage i out 0) price tier = (ri, rc, rout)" "0 \<le> i"
  shows "calculate_cost_from_usage (Some (Tokens (token_usage i out c))) price tier
    = Some ((i - max 0 (min c i)) / 1000000 * ri + max 0 (min c i) / 1000000 * rc + out / 1000000 * rout)"
proof -
  have n: "normalize_usage (Some (Tokens (token_usage i out c))) = Some (token_usage i out (max 0 (min c i)))"
    by (simp add: normalize_usage_def token_usage_def)
  have "max 0 (i - max 0 (min c i)) = i - max 0 (min c i)" using assms(2) by auto
  then show ?thesis
    using assms(1) rates_by_input [of i out "max 0 (min c i)" out 0]
    by (simp add: calculate_cost_from_usage_def calculate_cost_breakdown_from_usage_def n maybe_round_def
        Let_def) (simp add: token_usage_def)
qed

lemma blend_mono:
  fixes a b i ri rc :: pyfloat
  assumes "a \<le> b" "rc \<le> ri"
  shows "(i - b) / 1000000 * ri + b / 1000000 * rc \<le> (i - a) / 1000000 * ri + a / 1000000 * rc"
proof -
  have "0 \<le> (b - a) * (ri - rc)" using assms by simp
  then show ?thesis by (simp add: algebra_simps divide_simps)
qed

text \<open>Under the default price table the cost of a usage is always defined and never negative,
  in every service tier and on both sides of the long-context threshold, and the more of the input
  was served from the cache the less (never more) it costs.\<close>

lemma cached_input_never_dearer:
  assumes "get_pricing_for_model model None None = Some (k, price)"
    and "0 \<le> i" "0 \<le> out" "c \<le> c'"
  shows "\<exists>x y. calculate_cost_from_usage (Some (Tokens (token_usage i out c))) price tier = Some x
    \<and> calculate_cost_from_usage (Some (Tokens (token_usage i out c'))) price tier = Some y
    \<and> 0 \<le> y \<and> y \<le> x"
proof -
  have "price_ok price"
    using assms(1) resolution_longest_key [OF default_tables] default_prices_ok
    by (fastforce simp: longest_key_def list_all_iff)
  obtain ri rc rout where r: "effective_rates (token_usage i out 0) price tier = (ri, rc, rout)"
    using prod_cases3 by blast
  then have ok: "0 \<le> rc" "rc \<le> ri" "0 \<le> rout"
    using effective_rates_ok [OF \<open>price_ok price\<close>, of "token_usage i out 0" tier]
    by (auto simp: rates_ok_def default_to_def)
  have le: "max 0 (min c i) \<le> max 0 (min c' i)" "max 0 (min c' i) \<le> i"
    using assms(2,4) by auto
  show ?thesis
    unfolding cost_of_tokens [OF r assms(2)]
    using blend_mono [OF le(1) ok(2), of i] le(2) ok assms(3) by (auto intro!: add_nonneg_nonneg mult_nonneg_nonneg)
qed

section \<open>Cost summary\<close>

lemma py_round_error: "\<bar>of_int (py_round x) - x\<bar> \<le> 1 / 2"
  using of_int_floor_le [of x] floor_correct [of x] by (auto simp: py_round_def Let_def abs_le_iff)

lemma round_to_error: "\<bar>round_to n x - x\<bar> \<le> 1 / (2 * 10 ^ n)"
proof -
  have "round_to n x - x = (of_int (py_round (x * 10 ^ n)) - x * 10 ^ n) / 10 ^ n"
    by (simp add: round_to_def field_simps)
  then show ?thesis
    using py_round_error [of "x * 10 ^ n"] by (simp only: abs_divide) (simp add: divide_simps)
qed

lemma add_cost_fold:
  "foldl add_cost ([], 0) costs = (totals, tot) \<Longrightarrow>
     distinct (map fst totals) \<and> fst ` set totals = fst ` set costs \<and> tot = sum_list (map snd costs)
     \<and> (\<forall>m \<in> fst ` set costs. map_of totals m = Some (model_sum costs m))"
proof (induction costs arbitrary: totals tot rule: rev_induct)
  case (snoc kc costs)
  obtain t0 s0 where f: "foldl add_cost ([], 0) costs = (t0, s0)" by fastforce
  note IH = snoc.IH [OF f]
  have eq: "totals = AList.update (fst kc) (default_to (map_of t0 (fst kc)) 0 + snd kc) t0" "tot = s0 + snd kc"
    using snoc.prems unfolding foldl_append f by (simp_all add: add_cost_def)
  have none: "map_of t0 m = None \<and> model_sum costs m = 0" if "m \<notin> fst ` set costs" for m
  proof
    show "map_of t0 m = None" using that IH by (simp add: map_of_eq_None_iff)
    have "filter (\<lambda>kc. fst kc = m) costs = []" using that by (force simp: filter_empty_conv)
    then show "model_sum costs m = 0" by (simp add: model_sum_def)
  qed
  have "default_to (map_of t0 (fst kc)) 0 = model_sum costs (fst kc)"
    using IH none [of "fst kc"] by (cases "fst kc \<in> fst ` set costs") (auto simp: default_to_def)
  then have "map_of totals m = Some (model_sum (costs @ [kc]) m)" if "m \<in> fst ` set (costs @ [kc])" for m
    using that IH by (auto simp: eq update_conv model_sum_def)
  then show ?case
    using IH by (auto simp: eq distinct_update dom_update)
qed simp

lemma sum_rounding:
  "\<bar>sum_list (map (\<lambda>kc. round_to 6 (snd kc)) xs) - sum_list (map snd xs)\<bar> \<le> of_nat (length xs) / 2000000"
proof (induction xs)
  case (Cons x xs)
  have "\<bar>round_to 6 (snd x) - snd x\<bar> \<le> 1 / 2000000" using round_to_error [of 6 "snd x"] by simp
  moreover have "\<bar>(a + b) - (c + d)\<bar> \<le> \<bar>a - c\<bar> + \<bar>b - d\<bar>" for a b c d :: pyfloat by linarith
  ultimately show ?case using Cons by (fastforce simp: add_divide_distrib intro: order_trans)
qed simp

lemma sum_by_model:
  assumes "foldl add_cost ([], 0) costs = (totals, tot)"
  shows "sum_list (map snd totals) = tot"
  using assms
proof (induction costs arbitrary: totals tot rule: rev_induct)
  case (snoc kc costs)
  obtain t0 s0 where f: "foldl add_cost ([], 0) costs = (t0, s0)" by fastforce
  have upd: "sum_list (map snd (AList.update k (default_to (map_of t k) 0 + v) t)) = sum_list (map snd t) + v"
    for k :: string and v :: pyfloat and t
    by (induction t) (auto simp: default_to_def)
  show ?case
    using snoc.prems snoc.IH [OF f] unfolding foldl_append f by (auto simp: add_cost_def upd)
qed simp

lemma distinct_map_sort_key: "distinct (map fst xs) \<Longrightarrow> distinct (map fst (sort_key fst xs))"
  by (metis distinct_map distinct_sort set_sort)

text \<open>The cost summary lists every priced model once, in increasing order, with the rounded sum
  of the costs of its items; its total is the rounded sum of all the items' costs, and differs from
  the sum of the listed figures by at most half a micro-dollar per listed model and half a
  micro-dollar more. Items whose model or tokens are unknown add nothing.\<close>

lemma cost_summary_adds_up:
  fixes pricing :: "(string \<times> ModelPrice) list option" and aliases :: "(string \<times> string) list option"
    and items :: "CostItem list"
  defines "costs \<equiv> List.map_filter (item_cost pricing aliases) items"
    and "S \<equiv> calculate_costs items pricing aliases"
  shows "sorted_wrt (<) (map fst (by_model S))
    \<and> set (by_model S) = (\<lambda>m. (m, round_to 6 (model_sum costs m))) ` fst ` set costs
    \<and> total_usd_7d S = round_to 6 (sum_list (map snd costs))
    \<and> \<bar>total_usd_7d S - sum_list (map snd (by_model S))\<bar> \<le> (1 + of_nat (length (by_model S))) / 2000000"
proof -
  obtain totals tot where f: "foldl add_cost ([], 0) costs = (totals, tot)" by fastforce
  note inv = add_cost_fold [OF f]
  have S: "total_usd_7d S = round_to 6 tot"
    "by_model S = map (\<lambda>(m, v). (m, round_to 6 v)) (sort_key fst totals)"
    using f by (simp_all add: S_def costs_def calculate_costs_def)
  have keys: "map fst (by_model S) = map fst (sort_key fst totals)"
    by (simp add: S(2) split_def o_def)
  have "map_of totals (fst mv) = Some (snd mv)" "fst mv \<in> fst ` set costs" if "mv \<in> set totals" for mv
    using inv that by (simp_all add: map_of_is_SomeI) (metis image_eqI)
  then have "snd mv = model_sum costs (fst mv)" if "mv \<in> set totals" for mv
    using inv that by (metis option.inject)
  then have "set (by_model S) = (\<lambda>mv. (fst mv, round_to 6 (model_sum costs (fst mv)))) ` set totals"
    by (simp add: S(2) split_def cong: image_cong)
  also have "\<dots> = (\<lambda>m. (m, round_to 6 (model_sum costs m))) ` fst ` set totals"
    by (simp add: image_image)
  also have "fst ` set totals = fst ` set costs" using inv by blast
  finally have figs: "set (by_model S) = (\<lambda>m. (m, round_to 6 (model_sum costs m))) ` fst ` set costs" .
  have "mset (sort_key fst totals) = mset totals" by simp
  then have perm: "sum_list (map snd (sort_key fst totals)) = tot"
    using sum_by_model [OF f] by (metis mset_map sum_mset_sum_list)
  have "\<bar>sum_list (map snd (by_model S)) - tot\<bar> \<le> of_nat (length totals) / 2000000"
    using sum_rounding [of "sort_key fst totals"] perm by (simp add: S(2) split_def o_def)
  moreover have "\<bar>round_to 6 tot - tot\<bar> \<le> 1 / 2000000" using round_to_error [of 6 tot] by simp
  moreover have len: "length (by_model S) = length totals" by (simp add: S(2))
  ultimately have "\<bar>total_usd_7d S - sum_list (map snd (by_model S))\<bar> \<le> (1 + of_nat (length (by_model S))) / 2000000"
    unfolding S(1) len add_divide_distrib by linarith
  moreover have "sorted_wrt (<) (map fst (by_model S))"
    using inv by (simp add: keys strict_sorted_iff distinct_map_sort_key)
  ultimately show ?thesis using figs inv S(1) by simp
qed

end
