(* ===== verification/Leader_Election.thy ===== *)
theory Leader_Election
  imports Prelude
begin

text \<open>
  Leader election over a lease row, after \<open>codex-lb/app/core/scheduling/leader_election.py\<close>: the
  acquire and renew statements, \<open>try_acquire\<close>, \<open>renew\<close>, \<open>release\<close> with its drain, the heartbeat of
  \<open>run_if_leader\<close>, and a cluster of replicas that share the row.

  Times are seconds. A statement reads the database's clock several times: the transaction snapshot,
  the writing of the row, the \<open>RETURNING\<close> clause; on SQLite the readings coincide. A renewal checks the row against
  \<open>clock_timestamp()\<close> and not against the snapshot: its \<open>sc_snapshot\<close> is that reading. The row lock makes
  the statements on the row sequential. A replica's event-loop clock runs at the rate of the
  database's clock with an offset of its own. What an execution of a statement met
  (\<open>db_outcome\<close>: an answer, an error, an error of the commit) is an argument. Tasks are represented
  by names; the cancellation of a task by \<open>asyncio\<close> is not modelled.
\<close>

section \<open>The row\<close>

record LeaderRow =
  lr_leader_id :: string
  lr_acquired_at :: pyfloat
  lr_expires_at :: pyfloat

record StatementClock =
  sc_snapshot :: pyfloat
  sc_write :: pyfloat
  sc_return :: pyfloat

definition acquire_row ::
  "StatementClock \<Rightarrow> int \<Rightarrow> string \<Rightarrow> LeaderRow option \<Rightarrow> pyfloat option \<times> LeaderRow option" where
  "acquire_row clk ttl me row =
     (let written = \<lparr>lr_leader_id = me, lr_acquired_at = sc_write clk, lr_expires_at = sc_write clk + of_int ttl\<rparr>;
          remaining = lr_expires_at written - sc_return clk
      in case row of
           None \<Rightarrow> (Some remaining, Some written)
         | Some r \<Rightarrow>
             if lr_expires_at r < sc_snapshot clk \<or> lr_leader_id r = me
             then (Some remaining, Some written) else (None, row))"

definition renew_row ::
  "StatementClock \<Rightarrow> int \<Rightarrow> string \<Rightarrow> LeaderRow option \<Rightarrow> pyfloat option \<times> LeaderRow option" where
  "renew_row clk ttl me row =
     (case row of
        None \<Rightarrow> (None, None)
      | Some r \<Rightarrow>
          if lr_leader_id r = me \<and> lr_expires_at r > sc_snapshot clk
          then (let e = sc_write clk + of_int ttl
                in (Some (e - sc_return clk), Some (r\<lparr>lr_expires_at := e\<rparr>)))
          else (None, row))"

definition delete_row :: "string \<Rightarrow> LeaderRow option \<Rightarrow> LeaderRow option" where
  "delete_row me row =
     (case row of None \<Rightarrow> None | Some r \<Rightarrow> if lr_leader_id r = me then None else row)"

section \<open>The election object\<close>

record LeaderElection =
  el_leader_id :: string
  el_is_leader :: bool
  el_lease_deadline :: "pyfloat option"
  el_detached_bodies :: "string list"

definition new_election :: "string \<Rightarrow> LeaderElection" where
  "new_election me =
     \<lparr>el_leader_id = me, el_is_leader = False, el_lease_deadline = None, el_detached_bodies = []\<rparr>"

definition demote :: "LeaderElection \<Rightarrow> LeaderElection" where
  "demote el = el\<lparr>el_is_leader := False, el_lease_deadline := None\<rparr>"

text \<open>An execution of a statement: it was answered and committed, the commit failed (and was applied
  or not), or the statement raised.\<close>

datatype db_outcome = Committed | CommitFailed bool | Raised

definition row_after :: "db_outcome \<Rightarrow> LeaderRow option \<Rightarrow> LeaderRow option \<Rightarrow> LeaderRow option" where
  "row_after outcome old updated =
     (case outcome of Committed \<Rightarrow> updated | CommitFailed applied \<Rightarrow> if applied then updated else old | Raised \<Rightarrow> old)"

text \<open>The answer of the acquire statement, heard at the loop time \<open>anchor\<close>; the handler of an exception
  at the loop time \<open>now\<close>.\<close>

definition acquire_answered :: "pyfloat option \<Rightarrow> pyfloat \<Rightarrow> LeaderElection \<Rightarrow> bool \<times> LeaderElection" where
  "acquire_answered remaining anchor el =
     (case remaining of
        None \<Rightarrow> (False, demote el)
      | Some r \<Rightarrow> (True, el\<lparr>el_is_leader := True, el_lease_deadline := Some (anchor + r)\<rparr>))"

definition acquire_failed :: "pyfloat \<Rightarrow> LeaderElection \<Rightarrow> bool \<times> LeaderElection" where
  "acquire_failed now el =
     (if el_is_leader el \<and> (case el_lease_deadline el of None \<Rightarrow> False | Some d \<Rightarrow> now < d)
      then (True, el) else (False, demote el))"

record ElectionSettings =
  leader_election_enabled :: bool
  leader_election_ttl_seconds :: int

definition try_acquire ::
  "ElectionSettings \<Rightarrow> db_outcome \<Rightarrow> StatementClock \<Rightarrow> pyfloat \<Rightarrow> pyfloat \<Rightarrow> LeaderElection \<times> LeaderRow option
     \<Rightarrow> bool \<times> LeaderElection \<times> LeaderRow option" where
  "try_acquire settings outcome clk anchor now s =
     (case s of (el, row) \<Rightarrow>
        if \<not> leader_election_enabled settings then (True, el\<lparr>el_is_leader := True\<rparr>, row)
        else (case acquire_row clk (leader_election_ttl_seconds settings) (el_leader_id el) row of
                (remaining, updated) \<Rightarrow>
                  (let row1 = row_after outcome row updated;
                       answered = (case outcome of Raised \<Rightarrow> False
                                   | Committed \<Rightarrow> True | CommitFailed applied \<Rightarrow> remaining = None);
                       (res, el1) = (if answered then acquire_answered remaining anchor el else acquire_failed now el)
                   in (res, el1, row1))))"

datatype renew_error = RenewError

definition renew_answered :: "pyfloat option \<Rightarrow> pyfloat \<Rightarrow> LeaderElection \<Rightarrow> bool \<times> LeaderElection" where
  "renew_answered remaining anchor el =
     (case remaining of
        None \<Rightarrow> (False, demote el)
      | Some r \<Rightarrow> (True, el\<lparr>el_lease_deadline := Some (anchor + r)\<rparr>))"

definition renew ::
  "ElectionSettings \<Rightarrow> db_outcome \<Rightarrow> StatementClock \<Rightarrow> pyfloat \<Rightarrow> LeaderElection \<times> LeaderRow option
     \<Rightarrow> (renew_error + bool) \<times> LeaderElection \<times> LeaderRow option" where
  "renew settings outcome clk anchor s =
     (case s of (el, row) \<Rightarrow>
        if \<not> el_is_leader el then (Inr False, el, row)
        else if \<not> leader_election_enabled settings then (Inr True, el, row)
        else (case renew_row clk (leader_election_ttl_seconds settings) (el_leader_id el) row of
                (remaining, updated) \<Rightarrow>
                  (let row1 = row_after outcome row updated;
                       answered = (case outcome of Raised \<Rightarrow> False
                                   | Committed \<Rightarrow> True | CommitFailed applied \<Rightarrow> remaining = None)
                   in if answered
                      then (case renew_answered remaining anchor el of (res, el1) \<Rightarrow> (Inr res, el1, row1))
                      else (Inl RenewError, el, row1))))"

definition renew_lease_row ::
  "ElectionSettings \<Rightarrow> db_outcome \<Rightarrow> StatementClock \<Rightarrow> string \<Rightarrow> LeaderRow option \<Rightarrow> bool \<times> LeaderRow option" where
  "renew_lease_row settings outcome clk me row =
     (case renew_row clk (leader_election_ttl_seconds settings) me row of
        (remaining, updated) \<Rightarrow> (outcome = Committed \<and> remaining \<noteq> None, row_after outcome row updated))"

section \<open>Release\<close>

definition RELEASE_DRAIN_GRACE_SECONDS :: pyfloat where
  "RELEASE_DRAIN_GRACE_SECONDS = 5"

text \<open>One turn of the drain: the loop time at its start, the renewal, the bodies still running after the
  wait. The list of turns is long enough when the loop ends by itself; \<open>None\<close> is a list that is not.\<close>

record DrainTurn =
  dt_now :: pyfloat
  dt_outcome :: db_outcome
  dt_clock :: StatementClock
  dt_pending :: "string list"

fun drain_loop ::
  "ElectionSettings \<Rightarrow> pyfloat \<Rightarrow> string \<Rightarrow> DrainTurn list \<Rightarrow> string list \<Rightarrow> LeaderRow option
     \<Rightarrow> (bool \<times> LeaderRow option) option" where
  "drain_loop settings deadline me turns [] row = Some (True, row)"
| "drain_loop settings deadline me [] (b # bs) row = None"
| "drain_loop settings deadline me (t # turns) (b # bs) row =
     (if deadline - dt_now t \<le> 0 then Some (False, row)
      else drain_loop settings deadline me turns (dt_pending t)
             (snd (renew_lease_row settings (dt_outcome t) (dt_clock t) me row)))"

definition drain_detached_bodies ::
  "ElectionSettings \<Rightarrow> pyfloat \<Rightarrow> DrainTurn list \<Rightarrow> LeaderElection \<Rightarrow> LeaderRow option \<Rightarrow> (bool \<times> LeaderRow option) option" where
  "drain_detached_bodies settings now turns el row =
     drain_loop settings (now + RELEASE_DRAIN_GRACE_SECONDS) (el_leader_id el) turns (el_detached_bodies el) row"

definition release ::
  "ElectionSettings \<Rightarrow> pyfloat \<Rightarrow> DrainTurn list \<Rightarrow> db_outcome \<Rightarrow> LeaderElection \<times> LeaderRow option
     \<Rightarrow> (LeaderElection \<times> LeaderRow option) option" where
  "release settings now turns outcome s =
     (case s of (el, row) \<Rightarrow>
        if \<not> leader_election_enabled settings then Some (demote el, row)
        else (case drain_detached_bodies settings now turns el row of
                None \<Rightarrow> None
              | Some (drained, row1) \<Rightarrow>
                  if drained then Some (demote el, row_after outcome row1 (delete_row (el_leader_id el) row1))
                  else Some (demote el, row1)))"

definition cancel_within_grace :: "string \<Rightarrow> bool \<Rightarrow> LeaderElection \<Rightarrow> LeaderElection" where
  "cancel_within_grace body still_pending el =
     (if still_pending then el\<lparr>el_detached_bodies := List.insert body (el_detached_bodies el)\<rparr> else el)"

definition on_detached_body_done :: "string \<Rightarrow> LeaderElection \<Rightarrow> LeaderElection" where
  "on_detached_body_done body el = el\<lparr>el_detached_bodies := removeAll body (el_detached_bodies el)\<rparr>"

section \<open>The heartbeat\<close>

definition MAX_CONSECUTIVE_RENEW_ERRORS :: int where
  "MAX_CONSECUTIVE_RENEW_ERRORS = 2"

definition renew_interval :: "int \<Rightarrow> int" where
  "renew_interval ttl = max 1 (ttl div 3)"

definition renew_timeout :: "int \<Rightarrow> pyfloat" where
  "renew_timeout ttl = max 1 (of_int ttl / 6)"

record Heartbeat =
  hb_deadline :: pyfloat
  hb_errors :: int

datatype beat = Lost LeaderElection | Sleep pyfloat Heartbeat

definition heartbeat_begin :: "int \<Rightarrow> pyfloat \<Rightarrow> LeaderElection \<Rightarrow> Heartbeat \<Rightarrow> beat" where
  "heartbeat_begin ttl now el hb =
     (let hb1 = (case el_lease_deadline el of
                   Some d \<Rightarrow> if d > hb_deadline hb then hb\<lparr>hb_deadline := d\<rparr> else hb
                 | None \<Rightarrow> hb);
          remaining = hb_deadline hb1 - now
      in if remaining \<le> 0 then Lost (demote el)
         else Sleep (min (of_int (renew_interval ttl)) (max 0 (remaining - renew_timeout ttl))) hb1)"

definition renew_wait :: "int \<Rightarrow> pyfloat \<Rightarrow> Heartbeat \<Rightarrow> pyfloat" where
  "renew_wait ttl now hb = min (renew_timeout ttl) (max 0 (hb_deadline hb - now))"

datatype attempt = AttemptFailed | AttemptAnswered bool

datatype beat_end = LeaseLost LeaderElection | NextBeat LeaderElection Heartbeat

definition heartbeat_end :: "pyfloat \<Rightarrow> attempt \<Rightarrow> LeaderElection \<Rightarrow> Heartbeat \<Rightarrow> beat_end" where
  "heartbeat_end now attempt el hb =
     (case attempt of
        AttemptFailed \<Rightarrow>
          (let n = hb_errors hb + 1
           in if n < MAX_CONSECUTIVE_RENEW_ERRORS \<and> now < hb_deadline hb then NextBeat el (hb\<lparr>hb_errors := n\<rparr>)
              else (case el_lease_deadline el of
                      Some d \<Rightarrow>
                        if el_is_leader el \<and> d > hb_deadline hb then NextBeat el \<lparr>hb_deadline = d, hb_errors = 0\<rparr>
                        else LeaseLost (demote el)
                    | None \<Rightarrow> LeaseLost (demote el)))
      | AttemptAnswered renewed \<Rightarrow>
          if renewed
          then NextBeat el (case el_lease_deadline el of
                              Some d \<Rightarrow> \<lparr>hb_deadline = d, hb_errors = 0\<rparr> | None \<Rightarrow> hb\<lparr>hb_errors := 0\<rparr>)
          else LeaseLost el)"

definition heartbeat_start :: "int \<Rightarrow> pyfloat \<Rightarrow> LeaderElection \<Rightarrow> Heartbeat" where
  "heartbeat_start ttl now el =
     \<lparr>hb_deadline = default_to (el_lease_deadline el) (now + of_int ttl), hb_errors = 0\<rparr>"

section \<open>The cluster\<close>

text \<open>The shared row, the database's clock, the replicas by their identifiers and the answers on their
  way. An answer carries the reading of its \<open>RETURNING\<close> clause.\<close>

datatype answer = AcquireAnswer "pyfloat option" pyfloat | RenewAnswer "pyfloat option" pyfloat

record Cluster =
  cl_clock :: pyfloat
  cl_row :: "LeaderRow option"
  cl_replicas :: "string \<Rightarrow> LeaderElection"
  cl_answers :: "(string \<times> answer) list"

definition cluster_start :: "Cluster \<Rightarrow> bool" where
  "cluster_start c = (cl_row c = None \<and> (\<forall>i. cl_replicas c i = new_election i) \<and> cl_answers c = [])"

definition set_replica :: "string \<Rightarrow> LeaderElection \<Rightarrow> Cluster \<Rightarrow> Cluster" where
  "set_replica i el c = c\<lparr>cl_replicas := (cl_replicas c)(i := el)\<rparr>"

text \<open>The readings of one statement that runs after the others: the snapshot may be older, as the
  statement may have waited for the lock.\<close>

definition serial_clock :: "Cluster \<Rightarrow> StatementClock \<Rightarrow> bool" where
  "serial_clock c clk =
     (sc_snapshot clk \<le> sc_write clk \<and> cl_clock c \<le> sc_write clk \<and> sc_write clk \<le> sc_return clk)"

definition after_statement :: "StatementClock \<Rightarrow> db_outcome \<Rightarrow> LeaderRow option \<Rightarrow> Cluster \<Rightarrow> Cluster" where
  "after_statement clk outcome updated c =
     c\<lparr>cl_clock := sc_return clk, cl_row := row_after outcome (cl_row c) updated\<rparr>"

text \<open>The steps, for an offset of each loop clock, a time to live and a bound on the time from the
  \<open>RETURNING\<close> reading to the loop reading that anchors it. A statement whose result is lost in an
  exception (\<open>lost\<close>) may have written; the exception is handled by \<open>acquire_raises\<close>, and changes
  nothing in \<open>renew\<close>. The drain and the keeper renew the row without an answer (\<open>keep\<close>). Releasing
  comes after the schedulers have stopped, so no answer of an acquisition is on its way.\<close>

inductive election_step :: "(string \<Rightarrow> pyfloat) \<Rightarrow> int \<Rightarrow> pyfloat \<Rightarrow> Cluster \<Rightarrow> Cluster \<Rightarrow> bool"
  for offset ttl latency where
  tick: "cl_clock c \<le> t \<Longrightarrow> election_step offset ttl latency c (c\<lparr>cl_clock := t\<rparr>)"
| acquire: "serial_clock c clk \<Longrightarrow> acquire_row clk ttl i (cl_row c) = (remaining, updated) \<Longrightarrow>
    election_step offset ttl latency c
      ((after_statement clk Committed updated c)\<lparr>cl_answers := (i, AcquireAnswer remaining (sc_return clk)) # cl_answers c\<rparr>)"
| renewal: "serial_clock c clk \<Longrightarrow> el_is_leader (cl_replicas c i) \<Longrightarrow>
    renew_row clk ttl i (cl_row c) = (remaining, updated) \<Longrightarrow>
    election_step offset ttl latency c
      ((after_statement clk Committed updated c)\<lparr>cl_answers := (i, RenewAnswer remaining (sc_return clk)) # cl_answers c\<rparr>)"
| lost: "serial_clock c clk \<Longrightarrow> updated \<in> {snd (acquire_row clk ttl i (cl_row c)), snd (renew_row clk ttl i (cl_row c))} \<Longrightarrow>
    election_step offset ttl latency c (after_statement clk outcome updated c)"
| hear_acquire: "cl_answers c = xs @ (i, AcquireAnswer remaining r) # ys \<Longrightarrow> r \<le> cl_clock c \<Longrightarrow> cl_clock c \<le> r + latency \<Longrightarrow>
    election_step offset ttl latency c
      ((set_replica i (snd (acquire_answered remaining (cl_clock c + offset i) (cl_replicas c i))) c)\<lparr>cl_answers := xs @ ys\<rparr>)"
| hear_renew: "cl_answers c = xs @ (i, RenewAnswer remaining r) # ys \<Longrightarrow> r \<le> cl_clock c \<Longrightarrow> cl_clock c \<le> r + latency \<Longrightarrow>
    election_step offset ttl latency c
      ((set_replica i (snd (renew_answered remaining (cl_clock c + offset i) (cl_replicas c i))) c)\<lparr>cl_answers := xs @ ys\<rparr>)"
| acquire_raises: "election_step offset ttl latency c
      (set_replica i (snd (acquire_failed (cl_clock c + offset i) (cl_replicas c i))) c)"
| demotes: "election_step offset ttl latency c (set_replica i (demote (cl_replicas c i)) c)"
| keep: "serial_clock c clk \<Longrightarrow>
    election_step offset ttl latency c (after_statement clk outcome (snd (renew_row clk ttl i (cl_row c))) c)"
| release: "\<forall>a \<in> set (cl_answers c). fst a = i \<longrightarrow> (\<exists>m r. snd a = RenewAnswer m r) \<Longrightarrow>
    election_step offset ttl latency c
      ((set_replica i (demote (cl_replicas c i)) c)\<lparr>cl_row := row_after outcome (cl_row c) (delete_row i (cl_row c))\<rparr>)"

inductive_cases election_step_elim: "election_step offset ttl latency c c'"

text \<open>A claim: a replica holds until a time of the database's clock. It is honoured when the row is the
  replica's until then, or the time has passed.\<close>

definition honoured :: "Cluster \<Rightarrow> string \<Rightarrow> pyfloat \<Rightarrow> bool" where
  "honoured c i e =
     ((case cl_row c of None \<Rightarrow> False | Some r \<Rightarrow> lr_leader_id r = i \<and> e \<le> lr_expires_at r) \<or> e < cl_clock c)"

definition answer_claim :: "answer \<Rightarrow> pyfloat option" where
  "answer_claim a =
     (case a of AcquireAnswer m r \<Rightarrow> map_option (\<lambda>x. r + x) m | RenewAnswer m r \<Rightarrow> map_option (\<lambda>x. r + x) m)"

definition is_acquire :: "answer \<Rightarrow> bool" where
  "is_acquire a = (case a of AcquireAnswer m r \<Rightarrow> m \<noteq> None | RenewAnswer m r \<Rightarrow> False)"

text \<open>The claims of a replica, and whether any of them can be acted on.\<close>

definition claims :: "(string \<Rightarrow> pyfloat) \<Rightarrow> pyfloat \<Rightarrow> Cluster \<Rightarrow> string \<Rightarrow> pyfloat set" where
  "claims offset latency c i =
     {d - offset i - latency | d. el_lease_deadline (cl_replicas c i) = Some d}
     \<union> {e. \<exists>a. (i, a) \<in> set (cl_answers c) \<and> answer_claim a = Some e}"

definition contender :: "Cluster \<Rightarrow> string \<Rightarrow> bool" where
  "contender c i = (el_is_leader (cl_replicas c i) \<or> (\<exists>a. (i, a) \<in> set (cl_answers c) \<and> is_acquire a))"

definition election_inv :: "(string \<Rightarrow> pyfloat) \<Rightarrow> int \<Rightarrow> pyfloat \<Rightarrow> Cluster \<Rightarrow> bool" where
  "election_inv offset ttl latency c =
     ((\<forall>r. cl_row c = Some r \<longrightarrow> lr_expires_at r \<le> cl_clock c + of_int ttl)
      \<and> (\<forall>i e. e \<in> claims offset latency c i \<longrightarrow> e \<le> cl_clock c + of_int ttl)
      \<and> (\<forall>i e. contender c i \<longrightarrow> e \<in> claims offset latency c i \<longrightarrow> honoured c i e))"

text \<open>A replica acts as the leader while it believes so and its own deadline has not passed.\<close>

definition acting :: "(string \<Rightarrow> pyfloat) \<Rightarrow> Cluster \<Rightarrow> string \<Rightarrow> pyfloat \<Rightarrow> bool" where
  "acting offset c i margin =
     (el_is_leader (cl_replicas c i)
      \<and> (case el_lease_deadline (cl_replicas c i) of None \<Rightarrow> False
         | Some d \<Rightarrow> cl_clock c + offset i + margin < d))"

definition effect_of :: "Cluster \<Rightarrow> StatementClock \<Rightarrow> int \<Rightarrow> string \<Rightarrow> LeaderRow option \<Rightarrow> bool" where
  "effect_of c clk ttl i updated =
     (updated = cl_row c \<or>
      (\<exists>r'. updated = Some r' \<and> lr_leader_id r' = i \<and> lr_expires_at r' = sc_write clk + of_int ttl
        \<and> (\<forall>r. cl_row c = Some r \<longrightarrow> lr_leader_id r \<noteq> i \<longrightarrow> lr_expires_at r < sc_write clk)))"

definition clock_reading :: "pyfloat \<Rightarrow> StatementClock" where
  "clock_reading t = \<lparr>sc_snapshot = t, sc_write = t, sc_return = t\<rparr>"

definition idle_cluster :: Cluster where
  "idle_cluster = \<lparr>cl_clock = 0, cl_row = None, cl_replicas = new_election, cl_answers = []\<rparr>"

definition after_first :: Cluster where
  "after_first = \<lparr>cl_clock = 0, cl_row = Some \<lparr>lr_leader_id = ''a'', lr_acquired_at = 0, lr_expires_at = 60\<rparr>,
     cl_replicas = new_election, cl_answers = [(''a'', AcquireAnswer (Some 60) 0)]\<rparr>"

definition first_leads :: Cluster where
  "first_leads = \<lparr>cl_clock = 2, cl_row = cl_row after_first,
     cl_replicas = new_election(''a'' := (new_election ''a'')\<lparr>el_is_leader := True, el_lease_deadline := Some 62\<rparr>),
     cl_answers = []\<rparr>"

definition both_lead :: Cluster where
  "both_lead = \<lparr>cl_clock = 61, cl_row = Some \<lparr>lr_leader_id = ''b'', lr_acquired_at = 61, lr_expires_at = 121\<rparr>,
     cl_replicas = (cl_replicas first_leads)
       (''b'' := (new_election ''b'')\<lparr>el_is_leader := True, el_lease_deadline := Some 121\<rparr>),
     cl_answers = []\<rparr>"

section \<open>The row under the statements\<close>

lemma row_after_cases: "row_after outcome old updated = old \<or> row_after outcome old updated = updated"
  by (cases outcome) (simp_all add: row_after_def)

lemma acquire_effect:
  "serial_clock c clk \<Longrightarrow> acquire_row clk ttl i (cl_row c) = (m, updated) \<Longrightarrow> effect_of c clk ttl i updated"
  by (auto simp: effect_of_def acquire_row_def serial_clock_def Let_def split: option.splits if_splits)

lemma renew_effect:
  "serial_clock c clk \<Longrightarrow> renew_row clk ttl i (cl_row c) = (m, updated) \<Longrightarrow> effect_of c clk ttl i updated"
  by (auto simp: effect_of_def renew_row_def serial_clock_def Let_def split: option.splits if_splits)

lemma acquire_granted:
  "acquire_row clk ttl i row = (Some m, updated) \<Longrightarrow>
     \<exists>r. updated = Some r \<and> lr_leader_id r = i \<and> lr_expires_at r = sc_write clk + of_int ttl
       \<and> m = lr_expires_at r - sc_return clk"
  by (auto simp: acquire_row_def Let_def split: option.splits if_splits)

lemma renew_granted:
  "renew_row clk ttl i row = (Some m, updated) \<Longrightarrow>
     \<exists>r. updated = Some r \<and> lr_leader_id r = i \<and> lr_expires_at r = sc_write clk + of_int ttl
       \<and> m = lr_expires_at r - sc_return clk"
  by (auto simp: renew_row_def Let_def split: option.splits if_splits)

lemma honoured_antimono: "honoured c i e \<Longrightarrow> e' \<le> e \<Longrightarrow> honoured c i e'"
  by (auto simp: honoured_def split: option.splits)

lemma honoured_statement:
  assumes "serial_clock c clk" "effect_of c clk ttl i updated" "honoured c j e" "e \<le> cl_clock c + of_int ttl"
    and "cl_row c' = cl_row c \<or> cl_row c' = updated" "cl_clock c' = sc_return clk"
  shows "honoured c' j e"
proof (cases "cl_row c' = cl_row c")
  case True
  then show ?thesis using assms by (auto simp: honoured_def serial_clock_def split: option.splits)
next
  case False
  then obtain r' where r': "cl_row c' = Some r'" "lr_leader_id r' = i" "lr_expires_at r' = sc_write clk + of_int ttl"
    and old: "\<And>r. cl_row c = Some r \<Longrightarrow> lr_leader_id r \<noteq> i \<Longrightarrow> lr_expires_at r < sc_write clk"
    using assms(2,5) by (auto simp: effect_of_def)
  show ?thesis
  proof (cases "j = i")
    case True
    then show ?thesis using r' assms(1,4) by (simp add: honoured_def serial_clock_def)
  next
    case False
    then have "e < sc_return clk"
      using assms(1,3) old by (auto simp: honoured_def serial_clock_def split: option.splits)
    then show ?thesis using assms(6) by (simp add: honoured_def)
  qed
qed

section \<open>The invariant\<close>

lemma same_claims:
  "cl_replicas c' = cl_replicas c \<Longrightarrow> cl_answers c' = cl_answers c \<Longrightarrow>
     claims offset latency c' i = claims offset latency c i \<and> contender c' i = contender c i"
  by (simp add: claims_def contender_def)

lemma inv_statement:
  assumes inv: "election_inv offset ttl latency c" and clk: "serial_clock c clk" and eff: "effect_of c clk ttl i updated"
  shows "election_inv offset ttl latency (after_statement clk outcome updated c)" (is "election_inv _ _ _ ?c")
proof -
  have row: "cl_row ?c = cl_row c \<or> cl_row ?c = updated"
    using row_after_cases by (simp add: after_statement_def)
  have clock: "cl_clock ?c = sc_return clk" "cl_clock c \<le> sc_return clk"
    using clk by (auto simp: after_statement_def serial_clock_def)
  note cl = same_claims [of ?c c offset latency]
  have bound: "lr_expires_at r \<le> cl_clock ?c + of_int ttl" if "cl_row ?c = Some r" for r
  proof (cases "cl_row ?c = cl_row c")
    case True
    then have "lr_expires_at r \<le> cl_clock c + of_int ttl" using that inv by (auto simp: election_inv_def)
    then show ?thesis using clock by linarith
  next
    case False
    then show ?thesis
      using that row eff clk clock by (auto simp: effect_of_def serial_clock_def)
  qed
  have "e \<le> cl_clock ?c + of_int ttl" if "e \<in> claims offset latency ?c j" for j e
    using that inv clock cl by (force simp: election_inv_def after_statement_def)
  moreover have "honoured ?c j e" if "contender ?c j" "e \<in> claims offset latency ?c j" for j e
  proof (rule honoured_statement [OF clk eff _ _ row clock(1)])
    show "honoured c j e" "e \<le> cl_clock c + of_int ttl"
      using that inv cl by (auto simp: election_inv_def after_statement_def)
  qed
  ultimately show ?thesis using bound by (auto simp: election_inv_def)
qed

lemma inv_add_answer:
  assumes inv: "election_inv offset ttl latency c"
    and own: "\<And>e. answer_claim a = Some e \<Longrightarrow> \<exists>r. cl_row c = Some r \<and> lr_leader_id r = i \<and> e \<le> lr_expires_at r
      \<and> (\<forall>e' \<in> claims offset latency c i. e' \<le> lr_expires_at r)"
  shows "election_inv offset ttl latency (c\<lparr>cl_answers := (i, a) # cl_answers c\<rparr>)" (is "election_inv _ _ _ ?c")
proof -
  have claims: "claims offset latency ?c j
      = claims offset latency c j \<union> (if j = i then set_option (answer_claim a) else {})" for j
    by (auto simp: claims_def)
  have cont: "contender ?c j = (contender c j \<or> (j = i \<and> is_acquire a))" for j
    by (auto simp: contender_def)
  have acq: "is_acquire a \<Longrightarrow> \<exists>e. answer_claim a = Some e"
    by (auto simp: is_acquire_def answer_claim_def split: answer.splits option.splits)
  have hon: "honoured ?c j e = honoured c j e" for j e by (simp add: honoured_def)
  have new: "e \<le> cl_clock c + of_int ttl \<and> honoured c i e" if "answer_claim a = Some e" for e
    using own [OF that] inv by (fastforce simp: election_inv_def honoured_def)
  have all: "honoured c i e'" if "is_acquire a" "e' \<in> claims offset latency c i" for e'
    using acq [OF that(1)] own that(2) by (force simp: honoured_def)
  have "e \<le> cl_clock c + of_int ttl" if "e \<in> claims offset latency ?c j" for j e
    using that inv new by (auto simp: claims election_inv_def split: if_splits)
  moreover have "honoured c j e" if "contender ?c j" "e \<in> claims offset latency ?c j" for j e
    using that inv new all by (auto simp: claims cont election_inv_def split: if_splits)
  ultimately show ?thesis using inv by (simp add: election_inv_def hon)
qed

lemma inv_tick:
  assumes inv: "election_inv offset ttl latency c" and le: "cl_clock c \<le> t"
  shows "election_inv offset ttl latency (c\<lparr>cl_clock := t\<rparr>)" (is "election_inv _ _ _ ?c")
proof -
  have same: "claims offset latency ?c i = claims offset latency c i" "contender ?c i = contender c i" for i
    by (simp_all add: claims_def contender_def)
  have "honoured ?c i e" if "honoured c i e" for i e
    using that le by (auto simp: honoured_def split: option.splits)
  moreover have "x \<le> t + of_int ttl" if "x \<le> cl_clock c + of_int ttl" for x using that le by linarith
  ultimately show ?thesis using inv by (simp add: election_inv_def same)
qed

text \<open>A local change: the replica's deadline comes from a claim it had, and it becomes the leader only on
  the answer of an acquisition. The row may lose the replica's own entry when it stops contending.\<close>

lemma inv_local:
  assumes inv: "election_inv offset ttl latency c"
    and c': "cl_clock c' = cl_clock c" "cl_replicas c' = (cl_replicas c)(i := el)" "set (cl_answers c') \<subseteq> set (cl_answers c)"
    and row: "cl_row c' = cl_row c \<or> (cl_row c' = delete_row i (cl_row c) \<and> \<not> contender c' i)"
    and deadline: "\<And>d. el_lease_deadline el = Some d \<Longrightarrow> \<exists>e \<in> claims offset latency c i. d - offset i - latency \<le> e"
    and leads: "el_is_leader el \<Longrightarrow> contender c i"
  shows "election_inv offset ttl latency c'"
proof -
  have sub: "\<exists>e' \<in> claims offset latency c j. e \<le> e'" if mem: "e \<in> claims offset latency c' j" for j e
  proof (cases "\<exists>a. (j, a) \<in> set (cl_answers c') \<and> answer_claim a = Some e")
    case True
    then have "e \<in> claims offset latency c j" using c'(3) by (auto simp: claims_def)
    then show ?thesis by blast
  next
    case False
    then obtain d where d: "el_lease_deadline (cl_replicas c' j) = Some d" "e = d - offset j - latency"
      using mem by (auto simp: claims_def)
    show ?thesis
    proof (cases "j = i")
      case True
      then show ?thesis using d deadline [of d] c'(2) by auto
    next
      case False
      then have "e \<in> claims offset latency c j" using d c'(2) by (auto simp: claims_def)
      then show ?thesis by blast
    qed
  qed
  have cont: "contender c j" if "contender c' j" for j
    using that leads c'(2,3) by (auto simp: contender_def split: if_splits)
  have bound: "lr_expires_at r \<le> cl_clock c' + of_int ttl" if "cl_row c' = Some r" for r
    using that row inv c'(1) by (auto simp: election_inv_def delete_row_def split: option.splits if_splits)
  have claim: "e \<le> cl_clock c' + of_int ttl" if "e \<in> claims offset latency c' j" for j e
    using sub [OF that] inv c'(1) by (force simp: election_inv_def)
  have "honoured c' j e" if con: "contender c' j" and mem: "e \<in> claims offset latency c' j" for j e
  proof -
    obtain e' where e': "e' \<in> claims offset latency c j" "e \<le> e'" using sub [OF mem] by blast
    then have "honoured c j e'" using inv cont [OF con] by (simp add: election_inv_def)
    then have "honoured c j e" using e'(2) by (rule honoured_antimono)
    then show ?thesis
      using row con c'(1) by (cases "j = i") (auto simp: honoured_def delete_row_def split: option.splits)
  qed
  then show ?thesis using bound claim by (simp add: election_inv_def)
qed

lemma inv_hear:
  assumes inv: "election_inv offset ttl latency c" and ans: "cl_answers c = xs @ (i, a) # ys"
    and deadline: "\<And>d. el_lease_deadline el = Some d \<Longrightarrow> \<exists>e. answer_claim a = Some e \<and> d - offset i - latency \<le> e"
    and leads: "el_is_leader el \<Longrightarrow> contender c i"
  shows "election_inv offset ttl latency ((set_replica i el c)\<lparr>cl_answers := xs @ ys\<rparr>)"
proof (rule inv_local [OF inv, where i = i and el = el])
  fix d assume "el_lease_deadline el = Some d"
  then obtain e where e: "answer_claim a = Some e" "d - offset i - latency \<le> e" using deadline by blast
  have "e \<in> claims offset latency c i" using e(1) ans by (auto simp: claims_def)
  then show "\<exists>e \<in> claims offset latency c i. d - offset i - latency \<le> e" using e(2) by blast
qed (auto simp: set_replica_def ans leads)

lemma inv_release:
  assumes inv: "election_inv offset ttl latency c"
    and quiet: "\<forall>a \<in> set (cl_answers c). fst a = i \<longrightarrow> (\<exists>m r. snd a = RenewAnswer m r)"
  shows "election_inv offset ttl latency
    ((set_replica i (demote (cl_replicas c i)) c)\<lparr>cl_row := row_after outcome (cl_row c) (delete_row i (cl_row c))\<rparr>)"
proof -
  have "\<not> contender ((set_replica i (demote (cl_replicas c i)) c)\<lparr>cl_row := row\<rparr>) i" for row
    using quiet by (fastforce simp: contender_def is_acquire_def set_replica_def demote_def)
  then show ?thesis
    by (intro inv_local [OF inv, where i = i])
      (use row_after_cases [of outcome "cl_row c" "delete_row i (cl_row c)"] in \<open>auto simp: set_replica_def demote_def\<close>)
qed

lemma inv_answered:
  assumes inv: "election_inv offset ttl latency c" and clk: "serial_clock c clk" and eff: "effect_of c clk ttl i updated"
    and granted: "\<And>m. remaining = Some m \<Longrightarrow> \<exists>r. updated = Some r \<and> lr_leader_id r = i
      \<and> lr_expires_at r = sc_write clk + of_int ttl \<and> m = lr_expires_at r - sc_return clk"
    and a: "answer_claim a = map_option (\<lambda>m. sc_return clk + m) remaining"
  shows "election_inv offset ttl latency
    ((after_statement clk Committed updated c)\<lparr>cl_answers := (i, a) # cl_answers c\<rparr>)"
proof -
  let ?m = "after_statement clk Committed updated c"
  have row: "cl_row ?m = updated" "cl_answers ?m = cl_answers c" by (simp_all add: after_statement_def row_after_def)
  have same: "claims offset latency ?m i = claims offset latency c i"
    using same_claims [of ?m c] by (simp add: after_statement_def)
  have old: "e \<le> sc_write clk + of_int ttl" if "e \<in> claims offset latency c i" for e
    using inv clk that by (force simp: election_inv_def serial_clock_def)
  have "\<exists>r. cl_row ?m = Some r \<and> lr_leader_id r = i \<and> e \<le> lr_expires_at r
      \<and> (\<forall>e' \<in> claims offset latency ?m i. e' \<le> lr_expires_at r)" if claim: "answer_claim a = Some e" for e
  proof -
    obtain m where "remaining = Some m" "e = sc_return clk + m" using claim a by auto
    then show ?thesis using granted [of m] old unfolding row same by auto
  qed
  then have "election_inv offset ttl latency (?m\<lparr>cl_answers := (i, a) # cl_answers ?m\<rparr>)"
    by (rule inv_add_answer [OF inv_statement [OF inv clk eff]])
  then show ?thesis unfolding row .
qed

lemma election_step_inv:
  assumes inv: "election_inv offset ttl latency c" and step: "election_step offset ttl latency c c'"
  shows "election_inv offset ttl latency c'"
  using step
proof (cases rule: election_step.cases)
  case (tick t)
  then show ?thesis using inv_tick [OF inv] by simp
next
  case (acquire clk i remaining updated)
  then show ?thesis
    using inv_answered [OF inv acquire(2) acquire_effect [OF acquire(2,3)], of remaining "AcquireAnswer remaining (sc_return clk)"]
      acquire_granted [of clk ttl i "cl_row c" _ updated]
    by (auto simp: answer_claim_def)
next
  case (renewal clk i remaining updated)
  then show ?thesis
    using inv_answered [OF inv renewal(2) renew_effect [OF renewal(2,4)], of remaining "RenewAnswer remaining (sc_return clk)"]
      renew_granted [of clk ttl i "cl_row c" _ updated]
    by (auto simp: answer_claim_def)
next
  case (lost clk updated i outcome)
  then have "effect_of c clk ttl i updated" by (metis acquire_effect renew_effect insertE singletonD surjective_pairing)
  then show ?thesis using inv_statement [OF inv lost(2)] lost(1) by blast
next
  case (hear_acquire xs i remaining r ys)
  show ?thesis
    unfolding hear_acquire(1)
    by (rule inv_hear [OF inv hear_acquire(2)])
      (use hear_acquire(2,4) in \<open>auto simp: acquire_answered_def demote_def answer_claim_def contender_def is_acquire_def
        split: option.splits\<close>)
next
  case (hear_renew xs i remaining r ys)
  show ?thesis
    unfolding hear_renew(1)
    by (rule inv_hear [OF inv hear_renew(2)])
      (use hear_renew(4) in \<open>auto simp: renew_answered_def demote_def answer_claim_def contender_def split: option.splits\<close>)
next
  case (acquire_raises i)
  show ?thesis
    unfolding acquire_raises
    by (rule inv_local [OF inv, where i = i])
      (auto simp: set_replica_def acquire_failed_def demote_def claims_def contender_def split: if_splits)
next
  case (demotes i)
  show ?thesis
    unfolding demotes
    by (rule inv_local [OF inv, where i = i]) (auto simp: set_replica_def demote_def)
next
  case (keep clk outcome i)
  have "effect_of c clk ttl i (snd (renew_row clk ttl i (cl_row c)))" by (metis keep(2) renew_effect surjective_pairing)
  then show ?thesis using inv_statement [OF inv keep(2)] keep(1) by blast
next
  case (release i outcome)
  then show ?thesis using inv_release [OF inv] by simp
qed

interpretation election:
  invariant_system cluster_start "election_step offset ttl latency" "\<lambda>c. election_inv offset ttl latency c"
  for offset ttl latency
proof unfold_locales
  show "cluster_start c \<Longrightarrow> election_inv offset ttl latency c" for c
    by (simp add: cluster_start_def election_inv_def claims_def contender_def new_election_def)
  show "election_inv offset ttl latency c \<Longrightarrow> election_step offset ttl latency c c' \<Longrightarrow> election_inv offset ttl latency c'" for c c'
    by (rule election_step_inv)
qed

section \<open>Examples\<close>

text \<open>Replica \<open>a\<close> acquires at 0 and hears of it at 2; replica \<open>b\<close> acquires at 61 and hears at once.\<close>

lemma idle_start: "cluster_start idle_cluster"
  by (simp add: cluster_start_def idle_cluster_def)

lemma reach_first: "(election_step (\<lambda>i. 0) 60 2)\<^sup>*\<^sup>* idle_cluster first_leads"
proof -
  have "election_step (\<lambda>i. 0) 60 2 idle_cluster after_first"
    using election_step.acquire [of idle_cluster "clock_reading 0" 60 "''a''" "Some 60" "cl_row after_first" "\<lambda>i. 0" 2]
    by (simp add: serial_clock_def clock_reading_def idle_cluster_def acquire_row_def after_first_def
        after_statement_def row_after_def)
  moreover have "election_step (\<lambda>i. 0) 60 2 after_first (after_first\<lparr>cl_clock := 2\<rparr>)"
    by (rule election_step.tick) (simp add: after_first_def)
  moreover have "election_step (\<lambda>i. 0) 60 2 (after_first\<lparr>cl_clock := 2\<rparr>) first_leads"
    using election_step.hear_acquire [of "after_first\<lparr>cl_clock := 2\<rparr>" "[]" "''a''" "Some 60" 0 "[]" 2 "\<lambda>i. 0" 60]
    by (simp add: after_first_def first_leads_def set_replica_def acquire_answered_def)
  ultimately show ?thesis by (meson converse_rtranclp_into_rtranclp rtranclp.rtrancl_refl)
qed

lemma reach_both: "(election_step (\<lambda>i. 0) 60 2)\<^sup>*\<^sup>* idle_cluster both_lead"
proof -
  let ?m = "both_lead\<lparr>cl_replicas := cl_replicas first_leads, cl_answers := [(''b'', AcquireAnswer (Some 60) 61)]\<rparr>"
  have "election_step (\<lambda>i. 0) 60 2 first_leads ?m"
    using election_step.acquire [of first_leads "clock_reading 61" 60 "''b''" "Some 60" "cl_row both_lead" "\<lambda>i. 0" 2]
    by (simp add: serial_clock_def clock_reading_def first_leads_def acquire_row_def after_first_def both_lead_def
        after_statement_def row_after_def)
  moreover have "election_step (\<lambda>i. 0) 60 2 ?m both_lead"
    using election_step.hear_acquire [of ?m "[]" "''b''" "Some 60" 61 "[]" 2 "\<lambda>i. 0" 60]
    by (simp add: both_lead_def set_replica_def acquire_answered_def first_leads_def)
  ultimately show ?thesis using reach_first by (meson rtranclp.rtrancl_into_rtrancl)
qed

section \<open>Properties\<close>

text \<open>C3: at most one leader, up to the latency of an answer. In every state that acquisitions,
  renewals, lost answers, failures, demotions and releases of any number of replicas reach, with any
  offsets of their clocks, two different replicas never both believe to lead with more than the
  latency bound left on their own deadlines.\<close>

theorem leader_mutual_exclusion:
  assumes "cluster_start c0" "(election_step offset ttl latency)\<^sup>*\<^sup>* c0 c"
    and "acting offset c i latency" "acting offset c j latency"
  shows "i = j"
proof -
  have inv: "election_inv offset ttl latency c" by (rule election.reachable_inv [OF assms(1,2)])
  have own: "\<exists>r. cl_row c = Some r \<and> lr_leader_id r = k" if act: "acting offset c k latency" for k
  proof -
    obtain d where d: "el_is_leader (cl_replicas c k)" "el_lease_deadline (cl_replicas c k) = Some d"
      "cl_clock c + offset k + latency < d"
      using act by (auto simp: acting_def split: option.splits)
    then have "honoured c k (d - offset k - latency)"
      using inv by (simp add: election_inv_def contender_def claims_def)
    then show ?thesis using d(3) by (auto simp: honoured_def split: option.splits)
  qed
  show ?thesis using own [OF assms(3)] own [OF assms(4)] by auto
qed

theorem leader_mutual_exclusion_witness:
  "acting (\<lambda>i. 0) first_leads ''a'' 2 \<and> \<not> acting (\<lambda>i. 0) first_leads ''b'' 2"
proof -
  have a: "acting (\<lambda>i. 0) first_leads ''a'' 2" by (simp add: acting_def first_leads_def)
  have "\<not> acting (\<lambda>i. 0) first_leads ''b'' 2"
    using leader_mutual_exclusion [OF idle_start reach_first a, of "''b''"] by auto
  with a show ?thesis by blast
qed

text \<open>C38: the margin in the exclusion of two leaders is needed. The local deadline of an acquisition is the
  row's expiry plus the time from the \<open>RETURNING\<close> reading to the anchoring loop reading, so it lies
  after the expiry for every positive delay; and with a delay of two seconds a state is reachable in
  which two replicas believe to lead, both before their own deadlines.\<close>

theorem leaders_overlap_within_latency:
  "(\<exists>r. acquire_row clk ttl me None = (Some (lr_expires_at r - sc_return clk), Some r)
      \<and> el_lease_deadline (snd (acquire_answered (fst (acquire_row clk ttl me None)) (anchor + off) el))
          = Some (lr_expires_at r + off + (anchor - sc_return clk)))
   \<and> (\<exists>c. (election_step (\<lambda>i. 0) 60 2)\<^sup>*\<^sup>* idle_cluster c \<and> acting (\<lambda>i. 0) c ''a'' 0 \<and> acting (\<lambda>i. 0) c ''b'' 0)"
proof -
  have "acting (\<lambda>i. 0) both_lead ''a'' 0" "acting (\<lambda>i. 0) both_lead ''b'' 0"
    by (simp_all add: acting_def both_lead_def first_leads_def)
  moreover have "\<exists>r. acquire_row clk ttl me None = (Some (lr_expires_at r - sc_return clk), Some r)
      \<and> el_lease_deadline (snd (acquire_answered (fst (acquire_row clk ttl me None)) (anchor + off) el))
          = Some (lr_expires_at r + off + (anchor - sc_return clk))"
    by (simp add: acquire_row_def acquire_answered_def Let_def)
  ultimately show ?thesis using reach_both by blast
qed

text \<open>What a replica believes follows the row. A refusal (the row is another's and not expired)
  demotes the replica and leaves the row, even when the commit after it fails; an error before an
  answer leaves the row and keeps exactly a leadership whose deadline has not passed; and a renewal
  that finds the row expired or taken never revives it: it leaves the row and, unless the statement
  raised, demotes.\<close>

lemma election_outcomes:
  assumes "leader_election_enabled settings"
    and "try_acquire settings outcome clk anchor now (el, row) = (res, el1, row1)"
    and "renew settings outcome clk anchor (el, row) = (renewed, el2, row2)"
  shows "res = el_is_leader el1
     \<and> (\<forall>r. row = Some r \<and> lr_leader_id r \<noteq> el_leader_id el \<and> sc_snapshot clk \<le> lr_expires_at r \<and> outcome \<noteq> Raised
            \<longrightarrow> \<not> res \<and> el1 = demote el \<and> row1 = row)
     \<and> (outcome = Raised \<longrightarrow> row1 = row
            \<and> (if el_is_leader el \<and> (\<exists>d. el_lease_deadline el = Some d \<and> now < d) then res \<and> el1 = el
               else \<not> res \<and> el1 = demote el))
     \<and> (\<forall>r. row = Some r \<and> (lr_leader_id r \<noteq> el_leader_id el \<or> lr_expires_at r \<le> sc_snapshot clk)
            \<longrightarrow> row2 = row \<and> (el_is_leader el \<and> outcome \<noteq> Raised \<longrightarrow> renewed = Inr False \<and> el2 = demote el))"
proof (intro conjI allI impI)
  have acq: "(res, el1) = acquire_answered (fst (acquire_row clk (leader_election_ttl_seconds settings) (el_leader_id el) row)) anchor el
      \<or> (res, el1) = acquire_failed now el"
    using assms(1,2) by (auto simp: try_acquire_def Let_def split: prod.splits db_outcome.splits if_splits)
  show "res = el_is_leader el1"
    using acq by (auto simp: acquire_answered_def acquire_failed_def demote_def split: option.splits if_splits)
next
  fix r
  assume "row = Some r \<and> lr_leader_id r \<noteq> el_leader_id el \<and> sc_snapshot clk \<le> lr_expires_at r \<and> outcome \<noteq> Raised"
  then show "\<not> res" "el1 = demote el" "row1 = row"
    using assms(1,2)
    by (auto simp: try_acquire_def acquire_row_def acquire_answered_def row_after_def Let_def split: db_outcome.splits)
next
  assume "outcome = Raised"
  then show "row1 = row" "if el_is_leader el \<and> (\<exists>d. el_lease_deadline el = Some d \<and> now < d) then res \<and> el1 = el
               else \<not> res \<and> el1 = demote el"
    using assms(1,2)
    by (auto simp: try_acquire_def acquire_failed_def row_after_def Let_def split: prod.splits option.splits)
next
  fix r
  assume r: "row = Some r \<and> (lr_leader_id r \<noteq> el_leader_id el \<or> lr_expires_at r \<le> sc_snapshot clk)"
  then have none: "renew_row clk (leader_election_ttl_seconds settings) (el_leader_id el) row = (None, row)"
    by (auto simp: renew_row_def)
  show "row2 = row"
    using assms(1,3) none by (auto simp: renew_def row_after_def renew_answered_def Let_def split: db_outcome.splits if_splits)
  assume "el_is_leader el \<and> outcome \<noteq> Raised"
  then show "renewed = Inr False" "el2 = demote el"
    using assms(1,3) none by (auto simp: renew_def renew_answered_def Let_def split: db_outcome.splits)
qed

text \<open>A heartbeat gives up in time. The sleep before a renewal and the wait for it together never
  pass the deadline known at the start of the beat, so a beat that fails ends at the deadline at the
  latest; and a failed attempt at or after the deadline, or a second failed attempt in a row, loses
  the lease unless another heartbeat of the process has extended it.\<close>

lemma heartbeat_stops_by_deadline:
  assumes "heartbeat_begin ttl now el hb = Sleep s hb1"
  shows "0 \<le> s \<and> s \<le> of_int (renew_interval ttl)
     \<and> now + s + renew_wait ttl (now + s) hb1 \<le> hb_deadline hb1
     \<and> hb_deadline hb1 = max (hb_deadline hb) (default_to (el_lease_deadline el) (hb_deadline hb))
     \<and> (el_lease_deadline el' = Some (hb_deadline hb1) \<and> (hb_deadline hb1 \<le> t \<or> 1 \<le> hb_errors hb1)
          \<longrightarrow> heartbeat_end t AttemptFailed el' hb1 = LeaseLost (demote el'))"
proof -
  have hb1: "hb_deadline hb1 = max (hb_deadline hb) (default_to (el_lease_deadline el) (hb_deadline hb))"
    and s: "s = min (of_int (renew_interval ttl)) (max 0 (hb_deadline hb1 - now - renew_timeout ttl))"
    and pos: "0 < hb_deadline hb1 - now"
    using assms by (auto simp: heartbeat_begin_def default_to_def Let_def split: option.splits if_splits)
  have t: "1 \<le> renew_timeout ttl" "(0::pyfloat) \<le> of_int (renew_interval ttl)"
    by (simp_all add: renew_timeout_def renew_interval_def)
  have "now + s \<le> hb_deadline hb1" using s pos t by auto
  then have "now + s + renew_wait ttl (now + s) hb1 \<le> hb_deadline hb1" by (auto simp: renew_wait_def)
  moreover have "heartbeat_end t AttemptFailed el' hb1 = LeaseLost (demote el')"
    if "el_lease_deadline el' = Some (hb_deadline hb1) \<and> (hb_deadline hb1 \<le> t \<or> 1 \<le> hb_errors hb1)"
    using that by (auto simp: heartbeat_end_def MAX_CONSECUTIVE_RENEW_ERRORS_def Let_def)
  ultimately show ?thesis using s t hb1 by auto
qed

section \<open>Release\<close>

text \<open>The drain ends: as soon as some turn starts at or after the deadline, the loop has returned.\<close>

lemma drain_loop_returns:
  "t \<in> set turns \<Longrightarrow> deadline \<le> dt_now t \<Longrightarrow> \<exists>b row'. drain_loop settings deadline me turns pending row = Some (b, row')"
proof (induction turns arbitrary: pending row)
  case (Cons x turns)
  then show ?case by (cases pending) auto
qed simp

lemma renew_lease_row_owner:
  "row = Some r \<Longrightarrow> lr_leader_id r \<noteq> me \<Longrightarrow> snd (renew_lease_row settings outcome clk me row) = row"
  by (simp add: renew_lease_row_def renew_row_def row_after_def split: db_outcome.splits)

lemma drain_loop_owner:
  "drain_loop settings deadline me turns pending (Some r) = Some (b, row') \<Longrightarrow> lr_leader_id r \<noteq> me \<Longrightarrow> row' = Some r"
  by (induction settings deadline me turns pending "Some r" rule: drain_loop.induct)
    (auto simp: renew_lease_row_owner split: if_splits)

text \<open>Releasing never touches the row of another replica, and leaves no trace of leadership.\<close>

lemma release_keeps_others:
  assumes "release settings now turns outcome (el, row) = Some (el1, row1)"
  shows "\<not> el_is_leader el1 \<and> el_lease_deadline el1 = None
     \<and> (\<forall>r. row = Some r \<longrightarrow> lr_leader_id r \<noteq> el_leader_id el \<longrightarrow> row1 = row)"
  using assms drain_loop_owner
  by (fastforce simp: release_def drain_detached_bodies_def demote_def delete_row_def row_after_def
      split: if_splits option.splits db_outcome.splits)

end
