(* ===== verification/Api_Key_Store.thy ===== *)
theory Api_Key_Store
  imports Pricing Tables
begin

text \<open>
  The tables of the API keys and the statements on them, after
  \<open>codex-lb/app/modules/api_keys/repository.py\<close>, \<open>limit_windows.py\<close> and the tables of
  \<open>codex-lb/app/db/models.py\<close>.

  Tables and statements are those of \<open>Tables\<close>. A \<open>datetime\<close> is a count of microseconds of naive UTC; the
  columns that no statement reads are left out. \<open>utcnow()\<close> and \<open>func.now()\<close> are arguments.
\<close>

section \<open>Windows\<close>

datatype LimitWindow = DAILY | WEEKLY | MONTHLY | FIVE_HOURS | SEVEN_DAYS

definition hours :: "int \<Rightarrow> int" where
  "hours n = n * 3600 * 1000000"

definition days :: "int \<Rightarrow> int" where
  "days n = hours (n * 24)"

definition limit_window_delta :: "LimitWindow \<Rightarrow> int" where
  "limit_window_delta window =
     (case window of FIVE_HOURS \<Rightarrow> hours 5 | SEVEN_DAYS \<Rightarrow> days 7 | DAILY \<Rightarrow> days 1 | WEEKLY \<Rightarrow> days 7
      | MONTHLY \<Rightarrow> days 30)"

definition next_limit_reset :: "int \<Rightarrow> LimitWindow \<Rightarrow> int" where
  "next_limit_reset now window =
     (case window of FIVE_HOURS \<Rightarrow> now + hours 5 | SEVEN_DAYS \<Rightarrow> now + days 7 | DAILY \<Rightarrow> now + days 1
      | WEEKLY \<Rightarrow> now + days 7 | MONTHLY \<Rightarrow> now + days 30)"

lemma limit_window_delta_pos: "0 < limit_window_delta window"
  by (cases window) (simp_all add: limit_window_delta_def days_def hours_def)

function advance_limit_reset :: "int \<Rightarrow> int \<Rightarrow> LimitWindow \<Rightarrow> int" where
  "advance_limit_reset reset_at now window =
     (if reset_at \<le> now then advance_limit_reset (reset_at + limit_window_delta window) now window else reset_at)"
  by pat_completeness auto
termination
proof (relation "measure (\<lambda>(reset_at, now, window). nat (now + 1 - reset_at))")
  fix reset_at now :: int and window
  assume "reset_at \<le> now"
  then show "((reset_at + limit_window_delta window, now, window), reset_at, now, window)
      \<in> measure (\<lambda>(reset_at, now, window). nat (now + 1 - reset_at))"
    using limit_window_delta_pos [of window] by simp
qed simp

declare advance_limit_reset.simps [simp del]

section \<open>Rows\<close>

datatype LimitType = TOTAL_TOKENS | INPUT_TOKENS | OUTPUT_TOKENS | COST_USD | CREDITS

record ApiKeyLimit =
  lim_id :: int
  lim_api_key_id :: string
  lim_type :: LimitType
  lim_window :: LimitWindow
  lim_max_value :: int
  lim_current_value :: int
  lim_model_filter :: "string option"
  lim_reset_at :: int

record UsageReservationItemData =
  it_limit_id :: int
  it_limit_type :: LimitType
  it_reserved_delta :: int
  it_expected_reset_at :: int
  it_actual_delta :: "int option"

record ApiKeyUsageReservation =
  rsv_id :: string
  rsv_api_key_id :: string
  rsv_model :: string
  rsv_status :: string
  rsv_input_tokens :: "int option"
  rsv_output_tokens :: "int option"
  rsv_cached_input_tokens :: "int option"
  rsv_cost_microdollars :: "int option"
  rsv_updated_at :: int
  rsv_items :: "UsageReservationItemData list"

record ApiKey =
  key_id :: string
  key_hash :: string
  key_is_active :: bool
  key_expires_at :: "int option"
  key_last_used_at :: "int option"

record KeyStore =
  ks_keys :: "ApiKey list"
  ks_limits :: "ApiKeyLimit list"
  ks_reservations :: "ApiKeyUsageReservation list"

section \<open>Statements\<close>

definition get_by_id :: "string \<Rightarrow> KeyStore \<Rightarrow> ApiKey option" where
  "get_by_id i s = List.find (\<lambda>k. key_id k = i) (ks_keys s)"

definition get_by_hash :: "string \<Rightarrow> KeyStore \<Rightarrow> ApiKey option" where
  "get_by_hash h s = List.find (\<lambda>k. key_hash k = h) (ks_keys s)"

definition get_limits_by_key :: "string \<Rightarrow> KeyStore \<Rightarrow> ApiKeyLimit list" where
  "get_limits_by_key i s = filter (\<lambda>l. lim_api_key_id l = i) (ks_limits s)"

definition update_last_used :: "int \<Rightarrow> string \<Rightarrow> KeyStore \<Rightarrow> KeyStore" where
  "update_last_used now i s =
     s\<lparr>ks_keys := update_where (\<lambda>k. key_id k = i) (\<lambda>k. k\<lparr>key_last_used_at := Some now\<rparr>) (ks_keys s)\<rparr>"

definition compute_increment :: "ApiKeyLimit \<Rightarrow> int \<Rightarrow> int \<Rightarrow> int \<Rightarrow> int" where
  "compute_increment l input_tokens output_tokens cost_microdollars =
     (case lim_type l of TOTAL_TOKENS \<Rightarrow> input_tokens + output_tokens | INPUT_TOKENS \<Rightarrow> input_tokens
      | OUTPUT_TOKENS \<Rightarrow> output_tokens | COST_USD \<Rightarrow> cost_microdollars | CREDITS \<Rightarrow> 0)"

definition increment_row :: "ApiKeyLimit list \<Rightarrow> int \<times> int \<Rightarrow> ApiKeyLimit list" where
  "increment_row limits entry =
     (case entry of (i, n) \<Rightarrow>
        if n > 0 then update_where (\<lambda>l. lim_id l = i) (\<lambda>l. l\<lparr>lim_current_value := lim_current_value l + n\<rparr>) limits
        else limits)"

definition increment_limit_usage :: "int \<Rightarrow> string \<Rightarrow> string \<Rightarrow> int \<Rightarrow> int \<Rightarrow> int \<Rightarrow> KeyStore \<Rightarrow> KeyStore" where
  "increment_limit_usage now i model input_tokens output_tokens cost_microdollars s =
     (let applicable =
            filter (\<lambda>l. \<not> (lim_model_filter l \<noteq> None \<and> lim_model_filter l \<noteq> Some model)) (get_limits_by_key i s);
          entries = map (\<lambda>l. (lim_id l, compute_increment l input_tokens output_tokens cost_microdollars)) applicable
      in update_last_used now i (s\<lparr>ks_limits := foldl increment_row (ks_limits s) entries\<rparr>))"

definition reset_limit :: "int \<Rightarrow> int \<Rightarrow> int \<Rightarrow> KeyStore \<Rightarrow> bool \<times> KeyStore" where
  "reset_limit i expected_reset_at new_reset_at s =
     (let cond = (\<lambda>l. lim_id l = i \<and> lim_reset_at l = expected_reset_at)
      in (list_ex cond (ks_limits s),
          s\<lparr>ks_limits := update_where cond (\<lambda>l. l\<lparr>lim_current_value := 0, lim_reset_at := new_reset_at\<rparr>) (ks_limits s)\<rparr>))"

definition EXPIRED_LIMIT_RESET_BATCH_SIZE :: nat where
  "EXPIRED_LIMIT_RESET_BATCH_SIZE = 500"

text \<open>One turn of the loop of \<open>reset_expired_limits\<close>: the batch in the order of the query, each of its
  rows reset if it still has the reset time that was read, with the count of the rows reset.\<close>

definition expired_batch :: "int \<Rightarrow> KeyStore \<Rightarrow> ApiKeyLimit list" where
  "expired_batch now s =
     take EXPIRED_LIMIT_RESET_BATCH_SIZE
       (sort_key (\<lambda>l. (lim_reset_at l, lim_id l)) (filter (\<lambda>l. lim_reset_at l < now) (ks_limits s)))"

definition reset_row :: "int \<Rightarrow> nat \<times> KeyStore \<Rightarrow> ApiKeyLimit \<Rightarrow> nat \<times> KeyStore" where
  "reset_row now acc l =
     (case reset_limit (lim_id l) (lim_reset_at l) (advance_limit_reset (lim_reset_at l) now (lim_window l)) (snd acc) of
        (hit, s1) \<Rightarrow> (if hit then fst acc + 1 else fst acc, s1))"

definition expired_count :: "int \<Rightarrow> KeyStore \<Rightarrow> nat" where
  "expired_count now s = length (filter (\<lambda>l. lim_reset_at l < now) (ks_limits s))"

definition reserve_allowed :: "int \<Rightarrow> int \<Rightarrow> int \<Rightarrow> ApiKeyLimit \<Rightarrow> bool" where
  "reserve_allowed i delta expected_reset_at l =
     (lim_id l = i \<and> lim_reset_at l = expected_reset_at \<and> lim_current_value l + delta \<le> lim_max_value l)"

text \<open>The success flag of the result and the store.\<close>

definition try_reserve_usage :: "int \<Rightarrow> int \<Rightarrow> int \<Rightarrow> KeyStore \<Rightarrow> bool \<times> KeyStore" where
  "try_reserve_usage i delta expected_reset_at s =
     (if delta \<le> 0 then (True, s)
      else (list_ex (reserve_allowed i delta expected_reset_at) (ks_limits s),
            s\<lparr>ks_limits := update_where (reserve_allowed i delta expected_reset_at)
                (\<lambda>l. l\<lparr>lim_current_value := lim_current_value l + delta\<rparr>) (ks_limits s)\<rparr>))"

definition adjust_allowed :: "int \<Rightarrow> int \<Rightarrow> int \<Rightarrow> ApiKeyLimit \<Rightarrow> bool" where
  "adjust_allowed i delta expected_reset_at l =
     (lim_id l = i \<and> lim_reset_at l = expected_reset_at \<and> (delta < 0 \<longrightarrow> lim_current_value l \<ge> - delta))"

definition adjust_reserved_usage :: "int \<Rightarrow> int \<Rightarrow> int \<Rightarrow> KeyStore \<Rightarrow> bool \<times> KeyStore" where
  "adjust_reserved_usage i delta expected_reset_at s =
     (list_ex (adjust_allowed i delta expected_reset_at) (ks_limits s),
      s\<lparr>ks_limits := update_where (adjust_allowed i delta expected_reset_at)
          (\<lambda>l. l\<lparr>lim_current_value := lim_current_value l + delta\<rparr>) (ks_limits s)\<rparr>)"

definition create_usage_reservation ::
  "int \<Rightarrow> string \<Rightarrow> string \<Rightarrow> string \<Rightarrow> UsageReservationItemData list \<Rightarrow> KeyStore \<Rightarrow> KeyStore" where
  "create_usage_reservation now rid i model items s =
     s\<lparr>ks_reservations := ks_reservations s @
         [\<lparr>rsv_id = rid, rsv_api_key_id = i, rsv_model = model, rsv_status = ''reserved'', rsv_input_tokens = None,
           rsv_output_tokens = None, rsv_cached_input_tokens = None, rsv_cost_microdollars = None,
           rsv_updated_at = now, rsv_items = items\<rparr>]\<rparr>"

definition get_usage_reservation :: "string \<Rightarrow> KeyStore \<Rightarrow> ApiKeyUsageReservation option" where
  "get_usage_reservation rid s = List.find (\<lambda>r. rsv_id r = rid) (ks_reservations s)"

definition transition_usage_reservation_status ::
  "int \<Rightarrow> string \<Rightarrow> string \<Rightarrow> string \<Rightarrow> KeyStore \<Rightarrow> bool \<times> KeyStore" where
  "transition_usage_reservation_status now rid expected_status new_status s =
     (let cond = (\<lambda>r. rsv_id r = rid \<and> rsv_status r = expected_status)
      in (list_ex cond (ks_reservations s),
          s\<lparr>ks_reservations := update_where cond (\<lambda>r. r\<lparr>rsv_status := new_status, rsv_updated_at := now\<rparr>)
              (ks_reservations s)\<rparr>))"

text \<open>The items of a reservation are unique by limit; a missing item is inserted.\<close>

definition set_item_actual :: "UsageReservationItemData \<Rightarrow> int \<Rightarrow> ApiKeyUsageReservation \<Rightarrow> ApiKeyUsageReservation" where
  "set_item_actual item actual r =
     (if list_ex (\<lambda>x. it_limit_id x = it_limit_id item) (rsv_items r)
      then r\<lparr>rsv_items := update_where (\<lambda>x. it_limit_id x = it_limit_id item)
               (\<lambda>x. x\<lparr>it_actual_delta := Some actual\<rparr>) (rsv_items r)\<rparr>
      else r\<lparr>rsv_items := rsv_items r @ [item\<lparr>it_actual_delta := Some actual\<rparr>]\<rparr>)"

definition upsert_reservation_item_actual ::
  "string \<Rightarrow> UsageReservationItemData \<Rightarrow> int \<Rightarrow> KeyStore \<Rightarrow> KeyStore" where
  "upsert_reservation_item_actual rid item actual s =
     s\<lparr>ks_reservations := update_where (\<lambda>r. rsv_id r = rid) (set_item_actual item actual) (ks_reservations s)\<rparr>"

definition settle_usage_reservation ::
  "int \<Rightarrow> string \<Rightarrow> string \<Rightarrow> int option \<Rightarrow> int option \<Rightarrow> int option \<Rightarrow> int option \<Rightarrow> KeyStore \<Rightarrow> KeyStore" where
  "settle_usage_reservation now rid status input_tokens output_tokens cached_input_tokens cost_microdollars s =
     s\<lparr>ks_reservations := update_where (\<lambda>r. rsv_id r = rid)
         (\<lambda>r. r\<lparr>rsv_status := status, rsv_input_tokens := input_tokens, rsv_output_tokens := output_tokens,
                rsv_cached_input_tokens := cached_input_tokens, rsv_cost_microdollars := cost_microdollars,
                rsv_updated_at := now\<rparr>) (ks_reservations s)\<rparr>"

definition touch_usage_reservation :: "int \<Rightarrow> string \<Rightarrow> KeyStore \<Rightarrow> bool \<times> KeyStore" where
  "touch_usage_reservation now rid s =
     (let cond = (\<lambda>r. rsv_id r = rid \<and> rsv_status r = ''reserved'')
      in (list_ex cond (ks_reservations s),
          s\<lparr>ks_reservations := update_where cond (\<lambda>r. r\<lparr>rsv_updated_at := now\<rparr>) (ks_reservations s)\<rparr>))"

section \<open>Releasing stale reservations\<close>

definition is_stale_reservation :: "int \<Rightarrow> ApiKeyUsageReservation \<Rightarrow> bool" where
  "is_stale_reservation cutoff r = (rsv_status r = ''reserved'' \<and> rsv_updated_at r < cutoff)"

definition stale_batch :: "int \<Rightarrow> nat \<Rightarrow> KeyStore \<Rightarrow> ApiKeyUsageReservation list" where
  "stale_batch cutoff batch_size s =
     take batch_size (sort_key rsv_updated_at (filter (is_stale_reservation cutoff) (ks_reservations s)))"

definition release_item :: "string \<Rightarrow> KeyStore \<Rightarrow> UsageReservationItemData \<Rightarrow> KeyStore" where
  "release_item rid s item =
     upsert_reservation_item_actual rid item 0
       (snd (adjust_reserved_usage (it_limit_id item) (- it_reserved_delta item) (it_expected_reset_at item) s))"

definition release_stale_row :: "int \<Rightarrow> int \<Rightarrow> nat \<times> KeyStore \<Rightarrow> ApiKeyUsageReservation \<Rightarrow> nat \<times> KeyStore" where
  "release_stale_row now cutoff acc r =
     (let s = snd acc; cond = (\<lambda>x. rsv_id x = rsv_id r \<and> is_stale_reservation cutoff x);
          s1 = s\<lparr>ks_reservations := update_where cond
                  (\<lambda>x. x\<lparr>rsv_status := ''released'', rsv_input_tokens := None, rsv_output_tokens := None,
                         rsv_cached_input_tokens := None, rsv_cost_microdollars := None, rsv_updated_at := now\<rparr>)
                  (ks_reservations s)\<rparr>
      in if list_ex cond (ks_reservations s)
         then (fst acc + 1, foldl (release_item (rsv_id r)) s1 (rsv_items r))
         else acc)"

definition stale_count :: "int \<Rightarrow> KeyStore \<Rightarrow> nat" where
  "stale_count cutoff s = length (filter (is_stale_reservation cutoff) (ks_reservations s))"

section \<open>The two clean-up loops\<close>

lemma advance_limit_reset_future: "now < advance_limit_reset reset_at now window"
  by (induction reset_at now window rule: advance_limit_reset.induct) (subst advance_limit_reset.simps, simp)

lemma reset_row_le: "expired_count now (snd (reset_row now acc l)) \<le> expired_count now (snd acc)"
  using advance_limit_reset_future [of now "lim_reset_at l" "lim_window l"]
  by (auto simp: reset_row_def reset_limit_def Let_def expired_count_def intro!: filter_update_le)

lemma reset_row_less:
  assumes "l \<in> set (ks_limits (snd acc))" "lim_reset_at l < now"
  shows "expired_count now (snd (reset_row now acc l)) < expired_count now (snd acc)"
proof -
  have "\<not> advance_limit_reset (lim_reset_at l) now (lim_window l) < now"
    using advance_limit_reset_future [of now "lim_reset_at l" "lim_window l"] by simp
  then show ?thesis
    using assms by (auto simp: reset_row_def reset_limit_def Let_def expired_count_def intro!: filter_update_less)
qed

lemma reset_batch_less:
  assumes "expired_batch now s \<noteq> []" "foldl (reset_row now) (n, s) (expired_batch now s) = (n1, s1)"
  shows "expired_count now s1 < expired_count now s"
proof -
  obtain l ls where b: "expired_batch now s = l # ls" using assms(1) by (cases "expired_batch now s") auto
  then have "l \<in> set (expired_batch now s)" by simp
  then have l: "l \<in> set (ks_limits s)" "lim_reset_at l < now"
    by (auto simp: expired_batch_def dest!: in_set_takeD)
  have "expired_count now (snd (foldl (reset_row now) (reset_row now (n, s) l) ls))
      \<le> expired_count now (snd (reset_row now (n, s) l))"
    by (rule foldl_measure_le [where m = "\<lambda>a. expired_count now (snd a)"]) (rule reset_row_le)
  also have "\<dots> < expired_count now s" using reset_row_less [of l "(n, s)"] l by simp
  finally show ?thesis using assms(2) b by simp
qed

function reset_expired_limits :: "int \<Rightarrow> nat \<Rightarrow> KeyStore \<Rightarrow> nat \<times> KeyStore" where
  "reset_expired_limits now reset_count s =
     (if expired_batch now s = [] then (reset_count, s)
      else (case foldl (reset_row now) (reset_count, s) (expired_batch now s) of
              (reset_count1, s1) \<Rightarrow> reset_expired_limits now reset_count1 s1))"
  by pat_completeness auto
termination
  by (relation "measure (\<lambda>(now, n, s). expired_count now s)") (auto dest: reset_batch_less [OF _ sym] split: prod.split)

declare reset_expired_limits.simps [simp del]

lemma release_item_reservations:
  "ks_reservations (release_item rid s item)
     = update_where (\<lambda>r. rsv_id r = rid) (set_item_actual item 0) (ks_reservations s)"
  by (simp add: release_item_def upsert_reservation_item_actual_def adjust_reserved_usage_def)

lemma set_item_actual_frame [simp]:
  "rsv_status (set_item_actual item n r) = rsv_status r" "rsv_updated_at (set_item_actual item n r) = rsv_updated_at r"
  "rsv_id (set_item_actual item n r) = rsv_id r"
  by (simp_all add: set_item_actual_def)

lemma release_item_stale: "stale_count cutoff (release_item rid s item) \<le> stale_count cutoff s"
  by (auto simp: stale_count_def release_item_reservations is_stale_reservation_def intro!: filter_update_le)

lemma release_stale_row_le: "stale_count cutoff (snd (release_stale_row now cutoff acc r)) \<le> stale_count cutoff (snd acc)"
proof -
  let ?cond = "\<lambda>x. rsv_id x = rsv_id r \<and> is_stale_reservation cutoff x"
  let ?s1 = "(snd acc)\<lparr>ks_reservations := update_where ?cond
    (\<lambda>x. x\<lparr>rsv_status := ''released'', rsv_input_tokens := None, rsv_output_tokens := None,
           rsv_cached_input_tokens := None, rsv_cost_microdollars := None, rsv_updated_at := now\<rparr>)
    (ks_reservations (snd acc))\<rparr>"
  have "stale_count cutoff (foldl (release_item (rsv_id r)) ?s1 (rsv_items r)) \<le> stale_count cutoff ?s1"
    by (rule foldl_measure_le) (rule release_item_stale)
  also have "\<dots> \<le> stale_count cutoff (snd acc)"
    by (auto simp: stale_count_def is_stale_reservation_def intro!: filter_update_le)
  finally show ?thesis by (auto simp: release_stale_row_def Let_def)
qed

lemma release_stale_row_less:
  assumes "r \<in> set (ks_reservations (snd acc))" "is_stale_reservation cutoff r"
  shows "stale_count cutoff (snd (release_stale_row now cutoff acc r)) < stale_count cutoff (snd acc)"
proof -
  let ?cond = "\<lambda>x. rsv_id x = rsv_id r \<and> is_stale_reservation cutoff x"
  let ?s1 = "(snd acc)\<lparr>ks_reservations := update_where ?cond
    (\<lambda>x. x\<lparr>rsv_status := ''released'', rsv_input_tokens := None, rsv_output_tokens := None,
           rsv_cached_input_tokens := None, rsv_cost_microdollars := None, rsv_updated_at := now\<rparr>)
    (ks_reservations (snd acc))\<rparr>"
  have "stale_count cutoff (foldl (release_item (rsv_id r)) ?s1 (rsv_items r)) \<le> stale_count cutoff ?s1"
    by (rule foldl_measure_le) (rule release_item_stale)
  also have "\<dots> < stale_count cutoff (snd acc)"
    using assms by (auto simp: stale_count_def is_stale_reservation_def intro!: filter_update_less)
  finally show ?thesis using assms by (auto simp: release_stale_row_def Let_def list_ex_iff)
qed

lemma stale_batch_less:
  assumes "stale_batch cutoff batch_size s \<noteq> []"
    and "foldl (release_stale_row now cutoff) (n, s) (stale_batch cutoff batch_size s) = (n1, s1)"
  shows "stale_count cutoff s1 < stale_count cutoff s"
proof -
  obtain r rs where b: "stale_batch cutoff batch_size s = r # rs"
    using assms(1) by (cases "stale_batch cutoff batch_size s") auto
  then have "r \<in> set (stale_batch cutoff batch_size s)" by simp
  then have r: "r \<in> set (ks_reservations s)" "is_stale_reservation cutoff r"
    by (auto simp: stale_batch_def dest!: in_set_takeD)
  have "stale_count cutoff (snd (foldl (release_stale_row now cutoff) (release_stale_row now cutoff (n, s) r) rs))
      \<le> stale_count cutoff (snd (release_stale_row now cutoff (n, s) r))"
    by (rule foldl_measure_le [where m = "\<lambda>a. stale_count cutoff (snd a)"]) (rule release_stale_row_le)
  also have "\<dots> < stale_count cutoff s" using release_stale_row_less [of r "(n, s)"] r by simp
  finally show ?thesis using assms(2) b by simp
qed

function release_stale_usage_reservations :: "int \<Rightarrow> int \<Rightarrow> nat \<Rightarrow> nat \<Rightarrow> KeyStore \<Rightarrow> nat \<times> KeyStore" where
  "release_stale_usage_reservations now cutoff batch_size released_count s =
     (if stale_batch cutoff batch_size s = [] then (released_count, s)
      else (case foldl (release_stale_row now cutoff) (released_count, s) (stale_batch cutoff batch_size s) of
              (released_count1, s1) \<Rightarrow> release_stale_usage_reservations now cutoff batch_size released_count1 s1))"
  by pat_completeness auto
termination
  by (relation "measure (\<lambda>(now, cutoff, b, n, s). stale_count cutoff s)") (auto dest: stale_batch_less [OF _ sym] split: prod.split)

declare release_stale_usage_reservations.simps [simp del]

end
