(* ===== verification/Api_Key_Service.thy ===== *)
theory Api_Key_Service
  imports Api_Key_Store
begin

text \<open>
  The limits of an API key, after \<open>codex-lb/app/modules/api_keys/service.py\<close>: validating a key,
  reserving usage before a request, settling or releasing the reservation after it, recording usage
  without one, and the hourly clean-up of \<open>reset_scheduler.py\<close>.

  A transaction is one step: the writer section (SQLite) and the guards of the statements (both
  databases) make it so. A rollback returns to the store of the last commit; \<open>reset_limit\<close> commits, so
  the resets of expired limits survive a refused request. What one attempt of a transaction met is an
  argument (\<open>db_fault\<close>). The hash of a key is a parameter; reservation identifiers are arguments.
\<close>

section \<open>Errors and budgets\<close>

datatype key_error =
  ApiKeyInvalidError string
| ApiKeyRateLimitExceededError string int
| OperationalError bool
| UnreachableError

datatype db_fault = NoFault | Fault (fault_locked: bool) nat

fun is_read_fault :: "db_fault \<Rightarrow> bool" where
  "is_read_fault NoFault = False"
| "is_read_fault (Fault locked k) = (k = 0)"

definition SQLITE_BUSY_RETRY_ATTEMPTS :: nat where
  "SQLITE_BUSY_RETRY_ATTEMPTS = 4"

definition API_KEY_USAGE_RESERVATION_MAX_TOKEN_BUDGET :: int where
  "API_KEY_USAGE_RESERVATION_MAX_TOKEN_BUDGET = 8192"

definition API_KEY_USAGE_RESERVATION_DEFAULT_INPUT_TOKENS :: int where
  "API_KEY_USAGE_RESERVATION_DEFAULT_INPUT_TOKENS = API_KEY_USAGE_RESERVATION_MAX_TOKEN_BUDGET"

definition API_KEY_USAGE_RESERVATION_DEFAULT_OUTPUT_TOKENS :: int where
  "API_KEY_USAGE_RESERVATION_DEFAULT_OUTPUT_TOKENS = 2048"

definition API_KEY_USAGE_RESERVATION_UNKNOWN_MODEL_MICRODOLLARS :: int where
  "API_KEY_USAGE_RESERVATION_UNKNOWN_MODEL_MICRODOLLARS = 2000000"

definition API_KEY_USAGE_RESERVATION_UNKNOWN_MODEL_BASE_TOKENS :: int where
  "API_KEY_USAGE_RESERVATION_UNKNOWN_MODEL_BASE_TOKENS = API_KEY_USAGE_RESERVATION_MAX_TOKEN_BUDGET * 2"

record ApiKeyRequestUsageBudget =
  bud_input_tokens :: "int option"
  bud_output_tokens :: "int option"

definition normalize_reservation_token_budget :: "int option \<Rightarrow> int \<Rightarrow> int" where
  "normalize_reservation_token_budget x d =
     (case x of None \<Rightarrow> d | Some v \<Rightarrow> max 0 (min v API_KEY_USAGE_RESERVATION_MAX_TOKEN_BUDGET))"

definition normalize_request_usage_budget :: "ApiKeyRequestUsageBudget option \<Rightarrow> ApiKeyRequestUsageBudget" where
  "normalize_request_usage_budget budget =
     (case budget of
        None \<Rightarrow> \<lparr>bud_input_tokens = Some API_KEY_USAGE_RESERVATION_DEFAULT_INPUT_TOKENS,
                 bud_output_tokens = Some API_KEY_USAGE_RESERVATION_DEFAULT_OUTPUT_TOKENS\<rparr>
      | Some b \<Rightarrow>
          \<lparr>bud_input_tokens = Some (normalize_reservation_token_budget (bud_input_tokens b)
             API_KEY_USAGE_RESERVATION_DEFAULT_INPUT_TOKENS),
           bud_output_tokens = Some (normalize_reservation_token_budget (bud_output_tokens b)
             API_KEY_USAGE_RESERVATION_DEFAULT_OUTPUT_TOKENS)\<rparr>)"

definition calculate_cost_microdollars :: "string \<Rightarrow> int \<Rightarrow> int \<Rightarrow> int \<Rightarrow> string option \<Rightarrow> int" where
  "calculate_cost_microdollars model input_tokens output_tokens cached_input_tokens service_tier =
     (case get_pricing_for_model model None None of
        None \<Rightarrow> 0
      | Some (k, price) \<Rightarrow>
          (case calculate_cost_from_usage
                  (Some (Tokens \<lparr>ut_input = of_int input_tokens, ut_output = of_int output_tokens,
                                 ut_cached = of_int cached_input_tokens\<rparr>)) price service_tier of
             None \<Rightarrow> 0
           | Some cost_usd \<Rightarrow> py_int (cost_usd * 1000000)))"

definition unknown_model_reserve_cost_budget_microdollars :: "int \<Rightarrow> int \<Rightarrow> int" where
  "unknown_model_reserve_cost_budget_microdollars input_tokens output_tokens =
     (let token_budget = max 0 input_tokens + max 0 output_tokens
      in if token_budget \<le> 0 then 0
         else \<lceil>of_int (API_KEY_USAGE_RESERVATION_UNKNOWN_MODEL_MICRODOLLARS * token_budget)
               / (of_int API_KEY_USAGE_RESERVATION_UNKNOWN_MODEL_BASE_TOKENS :: pyfloat)\<rceil>)"

definition reserve_cost_budget_microdollars :: "string option \<Rightarrow> string option \<Rightarrow> int \<Rightarrow> int \<Rightarrow> int" where
  "reserve_cost_budget_microdollars model service_tier input_tokens output_tokens =
     (if default_to model [] = [] then unknown_model_reserve_cost_budget_microdollars input_tokens output_tokens
      else (let cost = calculate_cost_microdollars (the model) input_tokens output_tokens 0 service_tier
            in if cost > 0 then cost
               else unknown_model_reserve_cost_budget_microdollars input_tokens output_tokens))"

definition reserve_budget_for_limit_type ::
  "LimitType \<Rightarrow> string option \<Rightarrow> string option \<Rightarrow> ApiKeyRequestUsageBudget \<Rightarrow> int" where
  "reserve_budget_for_limit_type ty request_model request_service_tier budget =
     (let input_tokens = or_num (bud_input_tokens budget) 0;
          output_tokens = or_num (bud_output_tokens budget) 0
      in case ty of
           TOTAL_TOKENS \<Rightarrow> input_tokens + output_tokens
         | INPUT_TOKENS \<Rightarrow> input_tokens
         | OUTPUT_TOKENS \<Rightarrow> output_tokens
         | COST_USD \<Rightarrow> reserve_cost_budget_microdollars request_model request_service_tier input_tokens output_tokens
         | CREDITS \<Rightarrow> 0)"

definition reserve_delta_for_limit ::
  "ApiKeyLimit \<Rightarrow> string option \<Rightarrow> string option \<Rightarrow> ApiKeyRequestUsageBudget \<Rightarrow> int" where
  "reserve_delta_for_limit l request_model request_service_tier budget =
     (let remaining = lim_max_value l - lim_current_value l
      in if remaining \<le> 0 then 0
         else min remaining (reserve_budget_for_limit_type (lim_type l) request_model request_service_tier budget))"

definition limit_applies_for_request :: "ApiKeyLimit \<Rightarrow> string option \<Rightarrow> bool" where
  "limit_applies_for_request l request_model =
     (case lim_model_filter l of None \<Rightarrow> True
      | Some m \<Rightarrow> (case request_model of None \<Rightarrow> False | Some q \<Rightarrow> m = q))"

fun limit_type_value :: "LimitType \<Rightarrow> string" where
  "limit_type_value TOTAL_TOKENS = ''total_tokens''"
| "limit_type_value INPUT_TOKENS = ''input_tokens''"
| "limit_type_value OUTPUT_TOKENS = ''output_tokens''"
| "limit_type_value COST_USD = ''cost_usd''"
| "limit_type_value CREDITS = ''credits''"

fun limit_window_value :: "LimitWindow \<Rightarrow> string" where
  "limit_window_value DAILY = ''daily''"
| "limit_window_value WEEKLY = ''weekly''"
| "limit_window_value MONTHLY = ''monthly''"
| "limit_window_value FIVE_HOURS = ''5h''"
| "limit_window_value SEVEN_DAYS = ''7d''"

definition rate_limit_exceeded_error :: "ApiKeyLimit \<Rightarrow> key_error" where
  "rate_limit_exceeded_error l =
     ApiKeyRateLimitExceededError
       (''API key '' @ limit_type_value (lim_type l) @ '' '' @ limit_window_value (lim_window l) @ '' limit exceeded''
        @ (case lim_model_filter l of None \<Rightarrow> []
           | Some m \<Rightarrow> if m = [] then [] else '' for model '' @ m))
       (lim_reset_at l)"

definition compute_increment_for_limit_type :: "LimitType \<Rightarrow> int \<Rightarrow> int \<Rightarrow> int \<Rightarrow> int" where
  "compute_increment_for_limit_type ty input_tokens output_tokens cost_microdollars =
     (case ty of TOTAL_TOKENS \<Rightarrow> input_tokens + output_tokens | INPUT_TOKENS \<Rightarrow> input_tokens
      | OUTPUT_TOKENS \<Rightarrow> output_tokens | COST_USD \<Rightarrow> cost_microdollars | CREDITS \<Rightarrow> 0)"

section \<open>Validation\<close>

definition ensure_valid_api_key_row :: "ApiKey option \<Rightarrow> key_error + ApiKey" where
  "ensure_valid_api_key_row row =
     (case row of None \<Rightarrow> Inl (ApiKeyInvalidError ''Invalid API key'')
      | Some r \<Rightarrow> if key_is_active r then Inr r else Inl (ApiKeyInvalidError ''Invalid API key''))"

definition check_expiry :: "int \<Rightarrow> ApiKey \<Rightarrow> key_error + ApiKey" where
  "check_expiry now r =
     (case key_expires_at r of
        Some e \<Rightarrow> if e < now then Inl (ApiKeyInvalidError ''API key has expired'') else Inr r
      | None \<Rightarrow> Inr r)"

definition valid_row :: "int \<Rightarrow> ApiKey option \<Rightarrow> key_error + ApiKey" where
  "valid_row now row = res_bind (ensure_valid_api_key_row row) (check_expiry now)"

definition lazy_reset_step :: "int \<Rightarrow> bool \<times> KeyStore \<Rightarrow> ApiKeyLimit \<Rightarrow> bool \<times> KeyStore" where
  "lazy_reset_step now acc l =
     (if lim_reset_at l \<ge> now then acc
      else (True, snd (reset_limit (lim_id l) (lim_reset_at l)
                         (advance_limit_reset (lim_reset_at l) now (lim_window l)) (snd acc))))"

definition lazy_reset_expired_limits :: "int \<Rightarrow> ApiKeyLimit list \<Rightarrow> KeyStore \<Rightarrow> bool \<times> KeyStore" where
  "lazy_reset_expired_limits now limits s = foldl (lazy_reset_step now) (False, s) limits"

definition validate_key :: "(string \<Rightarrow> string) \<Rightarrow> int \<Rightarrow> string \<Rightarrow> KeyStore \<Rightarrow> (key_error + ApiKey) \<times> KeyStore" where
  "validate_key hash_key now plain_key s =
     (if plain_key = [] then (Inl (ApiKeyInvalidError ''Missing API key in Authorization header''), s)
      else (case valid_row now (get_by_hash (hash_key plain_key) s) of
              Inl e \<Rightarrow> (Inl e, s)
            | Inr row \<Rightarrow>
                (case lazy_reset_expired_limits now (get_limits_by_key (key_id row) s) s of
                   (performed, s1) \<Rightarrow>
                     (if performed then valid_row now (get_by_hash (hash_key plain_key) s1) else check_expiry now row, s1))))"

definition get_key_by_id :: "int \<Rightarrow> string \<Rightarrow> KeyStore \<Rightarrow> key_error + ApiKey" where
  "get_key_by_id now i s = valid_row now (get_by_id i s)"

section \<open>Reserving\<close>

record RequestContext =
  rq_model :: "string option"
  rq_service_tier :: "string option"
  rq_budget :: ApiKeyRequestUsageBudget

definition reservation_item :: "ApiKeyLimit \<Rightarrow> int \<Rightarrow> UsageReservationItemData" where
  "reservation_item l delta =
     \<lparr>it_limit_id = lim_id l, it_limit_type = lim_type l, it_reserved_delta = delta,
      it_expected_reset_at = lim_reset_at l, it_actual_delta = None\<rparr>"

text \<open>The loop over the limits as the transaction has read them; the statements act on the store.\<close>

fun reserve_limits ::
  "RequestContext \<Rightarrow> ApiKeyLimit list \<Rightarrow> UsageReservationItemData list \<Rightarrow> KeyStore
     \<Rightarrow> key_error + (UsageReservationItemData list \<times> KeyStore)" where
  "reserve_limits rq [] items s = Inr (items, s)"
| "reserve_limits rq (l # ls) items s =
     (if \<not> limit_applies_for_request l (rq_model rq) then reserve_limits rq ls items s
      else if lim_current_value l \<ge> lim_max_value l then Inl (rate_limit_exceeded_error l)
      else (let delta = reserve_delta_for_limit l (rq_model rq) (rq_service_tier rq) (rq_budget rq)
            in if delta > 0
               then (case try_reserve_usage (lim_id l) delta (lim_reset_at l) s of
                       (ok, s1) \<Rightarrow>
                         if ok then reserve_limits rq ls (items @ [reservation_item l delta]) s1
                         else Inl (rate_limit_exceeded_error l))
               else reserve_limits rq ls (items @ [reservation_item l delta]) s))"

record ApiKeyUsageReservationData =
  rd_reservation_id :: string
  rd_key_id :: string
  rd_model :: string
  rd_has_applicable_limits :: bool

definition reserve_for_request ::
  "int \<Rightarrow> string \<Rightarrow> string \<Rightarrow> RequestContext \<Rightarrow> ApiKeyLimit list \<Rightarrow> KeyStore
     \<Rightarrow> (key_error + ApiKeyUsageReservationData) \<times> KeyStore" where
  "reserve_for_request now rid i rq limits s =
     (case reserve_limits rq limits [] s of
        Inl e \<Rightarrow> (Inl e, s)
      | Inr (items, s1) \<Rightarrow>
          (Inr \<lparr>rd_reservation_id = rid, rd_key_id = i, rd_model = default_to (rq_model rq) [],
                rd_has_applicable_limits = (items \<noteq> [])\<rparr>,
           create_usage_reservation now rid i (default_to (rq_model rq) []) items s1))"

definition request_context :: "string option \<Rightarrow> string option \<Rightarrow> ApiKeyRequestUsageBudget option \<Rightarrow> RequestContext" where
  "request_context model tier budget =
     \<lparr>rq_model = model, rq_service_tier = tier, rq_budget = normalize_request_usage_budget budget\<rparr>"

text \<open>The fault met at the read of the key, or after \<open>k\<close> resets have been committed, which stay.\<close>

definition enforce_limits_for_request_once ::
  "db_fault \<Rightarrow> int \<Rightarrow> string \<Rightarrow> string \<Rightarrow> RequestContext \<Rightarrow> KeyStore
     \<Rightarrow> (key_error + ApiKeyUsageReservationData) \<times> KeyStore" where
  "enforce_limits_for_request_once fault now rid i rq s =
     (if is_read_fault fault then (Inl (OperationalError (fault_locked fault)), s)
      else (case valid_row now (get_by_id i s) of
        Inl e \<Rightarrow> (Inl e, s)
      | Inr row \<Rightarrow>
          (let limits = get_limits_by_key i s
           in case fault of
                Fault locked k \<Rightarrow>
                  (Inl (OperationalError locked), snd (lazy_reset_expired_limits now (take (k - 1) limits) s))
              | NoFault \<Rightarrow>
                  (case lazy_reset_expired_limits now limits s of
                     (performed, s1) \<Rightarrow>
                       (case (if performed then valid_row now (get_by_id i s1) else check_expiry now row) of
                          Inl e \<Rightarrow> (Inl e, s1)
                        | Inr row1 \<Rightarrow>
                            reserve_for_request now rid i rq (if performed then get_limits_by_key i s1 else limits) s1)))))"

text \<open>The retry on a locked database, over the attempts that are left.\<close>

fun busy_retry :: "db_fault list \<Rightarrow> (db_fault \<Rightarrow> KeyStore \<Rightarrow> (key_error + 'a) \<times> KeyStore) \<Rightarrow> KeyStore \<Rightarrow> (key_error + 'a) \<times> KeyStore" where
  "busy_retry [] once s = (Inl UnreachableError, s)"
| "busy_retry (f # fs) once s =
     (case once f s of
        (Inl (OperationalError locked), s1) \<Rightarrow>
          if \<not> locked \<or> fs = [] then (Inl (OperationalError locked), s1) else busy_retry fs once s1
      | r \<Rightarrow> r)"

definition enforce_limits_for_request ::
  "db_fault list \<Rightarrow> int \<Rightarrow> string \<Rightarrow> string \<Rightarrow> string option \<Rightarrow> string option \<Rightarrow> ApiKeyRequestUsageBudget option \<Rightarrow> KeyStore
     \<Rightarrow> (key_error + ApiKeyUsageReservationData) \<times> KeyStore" where
  "enforce_limits_for_request faults now rid i model tier budget s =
     busy_retry (take SQLITE_BUSY_RETRY_ATTEMPTS faults)
       (\<lambda>fault. enforce_limits_for_request_once fault now rid i (request_context model tier budget)) s"

section \<open>Settling and releasing\<close>

definition settle_item :: "(LimitType \<Rightarrow> int) \<Rightarrow> string \<Rightarrow> KeyStore \<Rightarrow> UsageReservationItemData \<Rightarrow> KeyStore" where
  "settle_item actual_of rid s item =
     (let actual_delta = actual_of (it_limit_type item);
          delta = actual_delta - it_reserved_delta item;
          s1 = (if delta \<noteq> 0
                then snd (adjust_reserved_usage (it_limit_id item) delta (it_expected_reset_at item) s) else s)
      in upsert_reservation_item_actual rid item actual_delta s1)"

record Settlement =
  st_model :: string
  st_input_tokens :: "int option"
  st_output_tokens :: "int option"
  st_cached_input_tokens :: "int option"
  st_service_tier :: "string option"
  st_status :: string
  st_cost_override :: "int option"

definition settlement_cost :: "Settlement \<Rightarrow> int" where
  "settlement_cost st =
     (case st_cost_override st of
        Some c \<Rightarrow> c
      | None \<Rightarrow> calculate_cost_microdollars (st_model st) (or_num (st_input_tokens st) 0) (or_num (st_output_tokens st) 0)
                  (or_num (st_cached_input_tokens st) 0) (st_service_tier st))"

definition actual_delta_of :: "Settlement \<Rightarrow> LimitType \<Rightarrow> int" where
  "actual_delta_of st ty =
     compute_increment_for_limit_type ty (or_num (st_input_tokens st) 0) (or_num (st_output_tokens st) 0) (settlement_cost st)"

definition settle_reservation :: "db_fault \<Rightarrow> int \<Rightarrow> string \<Rightarrow> Settlement \<Rightarrow> KeyStore \<Rightarrow> (key_error + unit) \<times> KeyStore" where
  "settle_reservation fault now rid st s =
     (case fault of
        Fault locked k \<Rightarrow> (Inl (OperationalError locked), s)
      | NoFault \<Rightarrow>
          (case get_usage_reservation rid s of
             None \<Rightarrow> (Inr (), s)
           | Some r \<Rightarrow>
               if rsv_status r \<noteq> ''reserved'' then (Inr (), s)
               else (case transition_usage_reservation_status now rid ''reserved'' ''settling'' s of
                       (claimed, s1) \<Rightarrow>
                         if \<not> claimed then (Inr (), s)
                         else (let s2 = foldl (settle_item (actual_delta_of st) rid) s1 (rsv_items r);
                                   s3 = settle_usage_reservation now rid (st_status st) (st_input_tokens st)
                                          (st_output_tokens st) (st_cached_input_tokens st) (Some (settlement_cost st)) s2
                               in (Inr (), update_last_used now (rsv_api_key_id r) s3)))))"

definition finalize_usage_reservation ::
  "db_fault list \<Rightarrow> int \<Rightarrow> string \<Rightarrow> string \<Rightarrow> int \<Rightarrow> int \<Rightarrow> int \<Rightarrow> string option \<Rightarrow> int option \<Rightarrow> KeyStore
     \<Rightarrow> (key_error + unit) \<times> KeyStore" where
  "finalize_usage_reservation faults now rid model input_tokens output_tokens cached_input_tokens tier cost s =
     busy_retry (take SQLITE_BUSY_RETRY_ATTEMPTS faults)
       (\<lambda>fault. settle_reservation fault now rid
          \<lparr>st_model = model, st_input_tokens = Some input_tokens, st_output_tokens = Some output_tokens,
           st_cached_input_tokens = Some cached_input_tokens, st_service_tier = tier, st_status = ''finalized'',
           st_cost_override = cost\<rparr>) s"

definition fail_usage_reservation ::
  "db_fault list \<Rightarrow> int \<Rightarrow> string \<Rightarrow> string \<Rightarrow> int option \<Rightarrow> int option \<Rightarrow> int option \<Rightarrow> string option \<Rightarrow> KeyStore
     \<Rightarrow> (key_error + unit) \<times> KeyStore" where
  "fail_usage_reservation faults now rid model input_tokens output_tokens cached_input_tokens tier s =
     busy_retry (take SQLITE_BUSY_RETRY_ATTEMPTS faults)
       (\<lambda>fault. settle_reservation fault now rid
          \<lparr>st_model = model, st_input_tokens = input_tokens, st_output_tokens = output_tokens,
           st_cached_input_tokens = cached_input_tokens, st_service_tier = tier, st_status = ''failed'',
           st_cost_override = None\<rparr>) s"

definition release_usage_reservation_once :: "db_fault \<Rightarrow> int \<Rightarrow> string \<Rightarrow> KeyStore \<Rightarrow> (key_error + unit) \<times> KeyStore" where
  "release_usage_reservation_once fault now rid s =
     (case fault of
        Fault locked k \<Rightarrow> (Inl (OperationalError locked), s)
      | NoFault \<Rightarrow>
          (case get_usage_reservation rid s of
             None \<Rightarrow> (Inr (), s)
           | Some r \<Rightarrow>
               if rsv_status r \<noteq> ''reserved'' then (Inr (), s)
               else (case transition_usage_reservation_status now rid ''reserved'' ''released'' s of
                       (claimed, s1) \<Rightarrow>
                         if \<not> claimed then (Inr (), s)
                         else (Inr (), settle_usage_reservation now rid ''released'' None None None None
                                         (foldl (release_item rid) s1 (rsv_items r))))))"

definition release_usage_reservation :: "db_fault list \<Rightarrow> int \<Rightarrow> string \<Rightarrow> KeyStore \<Rightarrow> (key_error + unit) \<times> KeyStore" where
  "release_usage_reservation faults now rid s =
     busy_retry (take SQLITE_BUSY_RETRY_ATTEMPTS faults) (\<lambda>fault. release_usage_reservation_once fault now rid) s"

definition touch_reservation :: "db_fault list \<Rightarrow> int \<Rightarrow> string \<Rightarrow> KeyStore \<Rightarrow> (key_error + bool) \<times> KeyStore" where
  "touch_reservation faults now rid s =
     busy_retry (take SQLITE_BUSY_RETRY_ATTEMPTS faults)
       (\<lambda>fault s. case fault of Fault locked k \<Rightarrow> (Inl (OperationalError locked), s)
                  | NoFault \<Rightarrow> (case touch_usage_reservation now rid s of (touched, s1) \<Rightarrow> (Inr touched, s1))) s"

definition record_usage :: "int \<Rightarrow> string \<Rightarrow> string \<Rightarrow> int \<Rightarrow> int \<Rightarrow> int \<Rightarrow> string option \<Rightarrow> KeyStore \<Rightarrow> KeyStore" where
  "record_usage now i model input_tokens output_tokens cached_input_tokens tier s =
     increment_limit_usage now i model input_tokens output_tokens
       (calculate_cost_microdollars model input_tokens output_tokens cached_input_tokens tier) s"

definition STALE_USAGE_RESERVATION_AGE :: int where
  "STALE_USAGE_RESERVATION_AGE = hours 6"

definition reset_as_leader :: "int \<Rightarrow> KeyStore \<Rightarrow> KeyStore" where
  "reset_as_leader now s =
     snd (release_stale_usage_reservations now (now - STALE_USAGE_RESERVATION_AGE) 500 0
            (snd (reset_expired_limits now 0 s)))"

end
