(* ===== verification/Api_Key_Ledger.thy ===== *)
theory Api_Key_Ledger
  imports Api_Key_Service
begin

text \<open>
  The accounts of the API key limits. \<open>current_value\<close> of a limit holds what finished requests have
  used and what open reservations hold back; the abstract ledger is the first part alone.

  \<open>ledger_inv\<close> says that no open reservation holds back what the limit does not have. Every operation
  of \<open>Api_Key_Service\<close> keeps it (\<open>ledger_step_keeps\<close>), and on the ledger a request, a release and a
  clean-up have no effect, while settling charges the actual usage, once.
\<close>

section \<open>Specification\<close>

definition item_matches :: "ApiKeyLimit \<Rightarrow> UsageReservationItemData \<Rightarrow> bool" where
  "item_matches l it = (it_limit_id it = lim_id l \<and> it_expected_reset_at it = lim_reset_at l)"

definition items_on :: "ApiKeyLimit \<Rightarrow> UsageReservationItemData list \<Rightarrow> int" where
  "items_on l items = sum_list (map it_reserved_delta (filter (item_matches l) items))"

definition charge_on :: "(LimitType \<Rightarrow> int) \<Rightarrow> ApiKeyLimit \<Rightarrow> UsageReservationItemData list \<Rightarrow> int" where
  "charge_on actual_of l items = sum_list (map (\<lambda>it. actual_of (it_limit_type it)) (filter (item_matches l) items))"

definition open_items :: "ApiKeyUsageReservation \<Rightarrow> UsageReservationItemData list" where
  "open_items r = (if rsv_status r = ''reserved'' then rsv_items r else [])"

definition reserved_on :: "ApiKeyUsageReservation list \<Rightarrow> ApiKeyLimit \<Rightarrow> int" where
  "reserved_on rs l = sum_list (map (\<lambda>r. items_on l (open_items r)) rs)"

definition used :: "KeyStore \<Rightarrow> ApiKeyLimit \<Rightarrow> int" where
  "used s l = lim_current_value l - reserved_on (ks_reservations s) l"

definition items_ok :: "ApiKeyLimit list \<Rightarrow> UsageReservationItemData list \<Rightarrow> bool" where
  "items_ok ls items =
     (\<forall>it \<in> set items. 0 \<le> it_reserved_delta it
        \<and> (\<forall>l \<in> set ls. lim_id l = it_limit_id it \<longrightarrow> it_expected_reset_at it \<le> lim_reset_at l))"

definition ledger_inv :: "KeyStore \<Rightarrow> bool" where
  "ledger_inv s =
     (distinct (map lim_id (ks_limits s)) \<and> distinct (map rsv_id (ks_reservations s))
      \<and> (\<forall>r \<in> set (ks_reservations s). items_ok (ks_limits s) (open_items r))
      \<and> (\<forall>l \<in> set (ks_limits s). 0 \<le> used s l))"

text \<open>The ledger: limit, end of its window, usage in it.\<close>

definition ledger :: "KeyStore \<Rightarrow> (int \<times> int \<times> int) list" where
  "ledger s = map (\<lambda>l. (lim_id l, lim_reset_at l, used s l)) (ks_limits s)"

section \<open>Rows\<close>

lemma items_on_simps [simp]:
  "items_on l [] = 0"
  "items_on l (it # items) = (if item_matches l it then it_reserved_delta it else 0) + items_on l items"
  "items_on l (xs @ ys) = items_on l xs + items_on l ys"
  by (simp_all add: items_on_def)

lemma charge_on_simps [simp]:
  "charge_on f l [] = 0"
  "charge_on f l (it # items) = (if item_matches l it then f (it_limit_type it) else 0) + charge_on f l items"
  by (simp_all add: charge_on_def)

lemma row_cong [simp]:
  "item_matches (l\<lparr>lim_current_value := v\<rparr>) = item_matches l"
  "items_on (l\<lparr>lim_current_value := v\<rparr>) = items_on l"
  "charge_on f (l\<lparr>lim_current_value := v\<rparr>) = charge_on f l"
  "reserved_on rs (l\<lparr>lim_current_value := v\<rparr>) = reserved_on rs l"
proof -
  show m: "item_matches (l\<lparr>lim_current_value := v\<rparr>) = item_matches l" by (simp add: fun_eq_iff item_matches_def)
  show i: "items_on (l\<lparr>lim_current_value := v\<rparr>) = items_on l" by (simp add: fun_eq_iff items_on_def m)
  show "charge_on f (l\<lparr>lim_current_value := v\<rparr>) = charge_on f l" by (simp add: fun_eq_iff charge_on_def m)
  show "reserved_on rs (l\<lparr>lim_current_value := v\<rparr>) = reserved_on rs l" by (simp add: reserved_on_def i)
qed

lemma items_on_nonneg: "items_ok ls items \<Longrightarrow> 0 \<le> items_on l items"
  by (auto simp: items_ok_def items_on_def intro!: sum_list_nonneg)

lemma charge_on_zero [simp]: "charge_on (\<lambda>ty. 0) l items = 0"
  by (induction items) simp_all

lemma items_on_later:
  assumes "items_ok ls items" "l \<in> set ls" "lim_id l' = lim_id l" "lim_reset_at l < lim_reset_at l'"
  shows "items_on l' items = 0"
proof -
  have "filter (item_matches l') items = []"
    using assms by (fastforce simp: filter_empty_conv items_ok_def item_matches_def)
  then show ?thesis by (simp add: items_on_def)
qed

definition adjust_row :: "(LimitType \<Rightarrow> int) \<Rightarrow> ApiKeyLimit \<Rightarrow> UsageReservationItemData \<Rightarrow> ApiKeyLimit" where
  "adjust_row actual_of l it =
     (let delta = actual_of (it_limit_type it) - it_reserved_delta it
      in if adjust_allowed (it_limit_id it) delta (it_expected_reset_at it) l
         then l\<lparr>lim_current_value := lim_current_value l + delta\<rparr> else l)"

lemma map_foldl_rows: "(\<And>s it. rows (f s it) = map (\<lambda>l. g l it) (rows s)) \<Longrightarrow> rows (foldl f s items) = map (\<lambda>l. foldl g l items) (rows s)"
  by (induction items arbitrary: s) (simp_all add: comp_def)

lemma settle_item_limits: "ks_limits (settle_item f rid s it) = map (\<lambda>l. adjust_row f l it) (ks_limits s)"
  by (auto simp: settle_item_def Let_def upsert_reservation_item_actual_def adjust_reserved_usage_def update_where_def
      adjust_row_def intro!: map_idI [symmetric])

lemma release_item_limits: "ks_limits (release_item rid s it) = map (\<lambda>l. adjust_row (\<lambda>ty. 0) l it) (ks_limits s)"
  by (auto simp: release_item_def upsert_reservation_item_actual_def adjust_reserved_usage_def update_where_def
      adjust_row_def)

text \<open>All guards of the adjustments hold while the limit has what the items hold back.\<close>

lemma adjust_rows:
  assumes "items_ok ls items" "\<And>ty. 0 \<le> f ty" "items_on l items \<le> lim_current_value l"
  shows "foldl (adjust_row f) l items
    = l\<lparr>lim_current_value := lim_current_value l - items_on l items + charge_on f l items\<rparr>"
  using assms
proof (induction items arbitrary: l)
  case (Cons it items)
  have ok: "items_ok ls items" "0 \<le> items_on l items" "0 \<le> it_reserved_delta it"
    using Cons.prems(1) items_on_nonneg by (auto simp: items_ok_def)
  let ?d = "f (it_limit_type it) - it_reserved_delta it"
  have step: "adjust_row f l it = (if item_matches l it then l\<lparr>lim_current_value := lim_current_value l + ?d\<rparr> else l)"
    using Cons.prems(2) [of "it_limit_type it"] Cons.prems(3) ok
    by (auto simp: adjust_row_def Let_def adjust_allowed_def item_matches_def)
  have "items_on l items \<le> lim_current_value (adjust_row f l it)"
    using Cons.prems(2) [of "it_limit_type it"] Cons.prems(3) by (auto simp: step split: if_splits)
  then show ?case
    using Cons.IH [OF ok(1) Cons.prems(2), of "adjust_row f l it"]
    by (cases "item_matches l it") (simp_all add: step algebra_simps)
qed simp

lemma items_ok_map:
  assumes "items_ok ls items" "\<And>l. l \<in> set ls \<Longrightarrow> lim_id (h l) = lim_id l \<and> lim_reset_at l \<le> lim_reset_at (h l)"
  shows "items_ok (map h ls) items"
  unfolding items_ok_def
proof (intro ballI conjI impI)
  fix it assume it: "it \<in> set items"
  then show "0 \<le> it_reserved_delta it" using assms(1) by (auto simp: items_ok_def)
  fix l assume "l \<in> set (map h ls)" "lim_id l = it_limit_id it"
  then obtain l0 where "l0 \<in> set ls" "l = h l0" "lim_id l0 = it_limit_id it" using assms(2) by fastforce
  then show "it_expected_reset_at it \<le> lim_reset_at l"
    using assms it unfolding items_ok_def by (meson order_trans)
qed

lemma reserved_on_nonneg: "(\<And>r. r \<in> set rs \<Longrightarrow> items_ok ls (open_items r)) \<Longrightarrow> 0 \<le> reserved_on rs l"
  by (auto simp: reserved_on_def intro!: sum_list_nonneg items_on_nonneg)

section \<open>Closing a reservation\<close>

definition closes :: "(LimitType \<Rightarrow> int) \<Rightarrow> ApiKeyUsageReservation \<Rightarrow> KeyStore \<Rightarrow> KeyStore \<Rightarrow> bool" where
  "closes actual_of r s s' =
     (r \<in> set (ks_reservations s) \<and> rsv_status r = ''reserved''
      \<and> ks_limits s' = map (\<lambda>l. foldl (adjust_row actual_of) l (rsv_items r)) (ks_limits s)
      \<and> (\<exists>g. ks_reservations s' = update_where (\<lambda>x. rsv_id x = rsv_id r) g (ks_reservations s)
             \<and> (\<forall>x. rsv_id (g x) = rsv_id x \<and> rsv_status (g x) \<noteq> ''reserved'')))"

lemma reserved_on_close:
  assumes "distinct (map rsv_id rs)" "r \<in> set rs" "rsv_status r = ''reserved''" "\<And>x. rsv_status (g x) \<noteq> ''reserved''"
  shows "reserved_on rs l = reserved_on (update_where (\<lambda>x. rsv_id x = rsv_id r) g rs) l + items_on l (rsv_items r)"
  using assms(1,2)
proof (induction rs)
  case (Cons x rs)
  have other: "update_where (\<lambda>x. rsv_id x = rsv_id r) g rs = rs" if "x = r"
    using Cons.prems(1) that by (intro update_where_none) (metis distinct.simps(2) image_eqI list.map(2) set_map)
  show ?case
  proof (cases "x = r")
    case True
    then show ?thesis
      using other assms(3,4) by (simp add: reserved_on_def open_items_def update_where_def)
  next
    case False
    then have "rsv_id x \<noteq> rsv_id r" "r \<in> set rs" using Cons.prems by auto
    then show ?thesis using Cons by (simp add: reserved_on_def update_where_def)
  qed
qed simp

lemma closes_effect:
  assumes inv: "ledger_inv s" and cl: "closes f r s s'" and f: "\<And>ty. 0 \<le> f ty"
  shows "ledger_inv s'"
    and "ledger s' = map (\<lambda>l. (lim_id l, lim_reset_at l, used s l + charge_on f l (rsv_items r))) (ks_limits s)"
proof -
  obtain g where g: "ks_reservations s' = update_where (\<lambda>x. rsv_id x = rsv_id r) g (ks_reservations s)"
    "\<And>x. rsv_id (g x) = rsv_id x \<and> rsv_status (g x) \<noteq> ''reserved''"
    using cl unfolding closes_def by blast
  have r: "r \<in> set (ks_reservations s)" "rsv_status r = ''reserved''" using cl by (simp_all add: closes_def)
  have ok: "items_ok (ks_limits s) (open_items x)" if "x \<in> set (ks_reservations s)" for x
    using inv that by (simp add: ledger_inv_def)
  have ok_r: "items_ok (ks_limits s) (rsv_items r)" using ok [OF r(1)] r(2) by (simp add: open_items_def)
  have ok': "items_ok (ks_limits s) (open_items x)" if "x \<in> set (ks_reservations s')" for x
    using that ok g by (auto simp: g(1) update_where_def open_items_def items_ok_def split: if_splits)
  have res: "reserved_on (ks_reservations s) l = reserved_on (ks_reservations s') l + items_on l (rsv_items r)" for l
    unfolding g(1) using inv r g(2) by (intro reserved_on_close) (auto simp: ledger_inv_def)
  have le: "items_on l (rsv_items r) \<le> lim_current_value l" if "l \<in> set (ks_limits s)" for l
  proof -
    have "0 \<le> used s l" using inv that by (simp add: ledger_inv_def)
    then show ?thesis using res [of l] reserved_on_nonneg [of "ks_reservations s'" "ks_limits s" l, OF ok'] by (simp add: used_def)
  qed
  define h where "h l = l\<lparr>lim_current_value := lim_current_value l - items_on l (rsv_items r) + charge_on f l (rsv_items r)\<rparr>" for l :: ApiKeyLimit
  have lims: "ks_limits s' = map h (ks_limits s)"
    using cl le adjust_rows [OF ok_r f] by (auto simp: closes_def h_def)
  have h: "lim_id (h l) = lim_id l" "lim_reset_at (h l) = lim_reset_at l" for l by (simp_all add: h_def)
  have used: "used s' (h l) = used s l + charge_on f l (rsv_items r)" for l
    using res [of l] by (simp add: used_def h_def)
  have c0: "0 \<le> charge_on f l (rsv_items r)" for l using f by (auto simp: charge_on_def intro!: sum_list_nonneg)
  have "distinct (map rsv_id (ks_reservations s'))"
  proof -
    have "map rsv_id (ks_reservations s') = map rsv_id (ks_reservations s)" using g by (auto simp: update_where_def)
    then show ?thesis using inv by (simp add: ledger_inv_def)
  qed
  moreover have "items_ok (ks_limits s') (open_items x)" if "x \<in> set (ks_reservations s')" for x
    unfolding lims using h by (intro items_ok_map [OF ok' [OF that]]) simp
  moreover have "0 \<le> used s' l" if "l \<in> set (ks_limits s')" for l
    using that inv used c0 by (auto simp: lims ledger_inv_def)
  ultimately show "ledger_inv s'" using inv by (simp add: ledger_inv_def lims comp_def h)
  show "ledger s' = map (\<lambda>l. (lim_id l, lim_reset_at l, used s l + charge_on f l (rsv_items r))) (ks_limits s)"
    by (simp add: ledger_def lims comp_def h used)
qed

text \<open>The loops over the items only add the actual amounts to the reservation.\<close>

lemma update_where_twice:
  "(\<And>r. rsv_id (f r) = rsv_id r) \<Longrightarrow> update_where (\<lambda>r. rsv_id r = rid) g (update_where (\<lambda>r. rsv_id r = rid) f rows)
     = update_where (\<lambda>r. rsv_id r = rid) (g \<circ> f) rows"
  by (simp add: update_where_def)

lemma items_loop_reservations:
  assumes "\<And>s it. ks_reservations (f s it) = update_where (\<lambda>r. rsv_id r = rid) (set_item_actual it (a it)) (ks_reservations s)"
  shows "\<exists>g. ks_reservations (foldl f s items) = update_where (\<lambda>r. rsv_id r = rid) g (ks_reservations s)
    \<and> (\<forall>x. rsv_id (g x) = rsv_id x \<and> rsv_status (g x) = rsv_status x)"
proof (induction items arbitrary: s)
  case Nil
  have "ks_reservations s = update_where (\<lambda>r. rsv_id r = rid) (\<lambda>r. r) (ks_reservations s)"
    by (simp add: update_where_def)
  then show ?case by (intro exI [of _ "\<lambda>r. r"]) simp
next
  case (Cons it items)
  obtain g where g: "ks_reservations (foldl f (f s it) items) = update_where (\<lambda>r. rsv_id r = rid) g (ks_reservations (f s it))"
    "\<forall>x. rsv_id (g x) = rsv_id x \<and> rsv_status (g x) = rsv_status x"
    using Cons.IH by blast
  then show ?case
    by (intro exI [of _ "g \<circ> set_item_actual it (a it)"]) (simp add: assms update_where_twice comp_def)
qed

lemma settle_item_reservations:
  "ks_reservations (settle_item f rid s it)
     = update_where (\<lambda>r. rsv_id r = rid) (set_item_actual it (f (it_limit_type it))) (ks_reservations s)"
  by (simp add: settle_item_def Let_def upsert_reservation_item_actual_def adjust_reserved_usage_def)

lemma get_usage_reservation_some:
  "get_usage_reservation rid s = Some r \<Longrightarrow> r \<in> set (ks_reservations s) \<and> rsv_id r = rid"
  by (auto simp: get_usage_reservation_def find_Some_iff)

text \<open>Claiming the reservation and running through its items closes it.\<close>

lemma claimed_closes:
  assumes r: "r \<in> set (ks_reservations s)" "rsv_status r = ''reserved''" "distinct (map rsv_id (ks_reservations s))"
    and s1: "ks_limits s1 = ks_limits s" "ks_reservations s1 = update_where cond c (ks_reservations s)"
    and cond: "\<And>x. cond x = (rsv_id x = rsv_id r \<and> P x)" "P r"
    and c: "\<And>x. rsv_id (c x) = rsv_id x \<and> rsv_status (c x) \<noteq> ''reserved''"
    and lims: "\<And>s it. ks_limits (f s it) = map (\<lambda>l. adjust_row a l it) (ks_limits s)"
    and rsvs: "\<And>s it. ks_reservations (f s it)
      = update_where (\<lambda>x. rsv_id x = rsv_id r) (set_item_actual it (b it)) (ks_reservations s)"
  shows "closes a r s (foldl f s1 (rsv_items r))"
proof -
  obtain g where g: "ks_reservations (foldl f s1 (rsv_items r)) = update_where (\<lambda>x. rsv_id x = rsv_id r) g (ks_reservations s1)"
    "\<And>x. rsv_id (g x) = rsv_id x \<and> rsv_status (g x) = rsv_status x"
    using items_loop_reservations [OF rsvs] by blast
  have one: "cond x \<longleftrightarrow> rsv_id x = rsv_id r" if "x \<in> set (ks_reservations s)" for x
    using r that cond by (metis distinct_map inj_on_eq_iff)
  have "ks_reservations s1 = update_where (\<lambda>x. rsv_id x = rsv_id r) c (ks_reservations s)"
    unfolding s1(2) by (rule update_where_cong) (rule one)
  then have "ks_reservations (foldl f s1 (rsv_items r)) = update_where (\<lambda>x. rsv_id x = rsv_id r) (g \<circ> c) (ks_reservations s)"
    using c by (simp add: g(1) update_where_twice)
  moreover have "ks_limits (foldl f s1 (rsv_items r)) = map (\<lambda>l. foldl (adjust_row a) l (rsv_items r)) (ks_limits s)"
    using map_foldl_rows [of ks_limits f "adjust_row a", OF lims] s1(1) by simp
  ultimately show ?thesis using r c g(2) unfolding closes_def by auto
qed

lemma closes_last:
  assumes "closes a r s s1" "ks_limits s2 = ks_limits s1"
    and "ks_reservations s2 = update_where (\<lambda>x. rsv_id x = rsv_id r) c (ks_reservations s1)"
    and "\<And>x. rsv_id (c x) = rsv_id x \<and> rsv_status (c x) \<noteq> ''reserved''"
  shows "closes a r s s2"
proof -
  obtain g where g: "ks_reservations s1 = update_where (\<lambda>x. rsv_id x = rsv_id r) g (ks_reservations s)"
    "\<forall>x. rsv_id (g x) = rsv_id x \<and> rsv_status (g x) \<noteq> ''reserved''"
    using assms(1) unfolding closes_def by blast
  then have "ks_reservations s2 = update_where (\<lambda>x. rsv_id x = rsv_id r) (c \<circ> g) (ks_reservations s)"
    by (simp add: assms(3) update_where_twice)
  then show ?thesis using assms(1,2,4) g(2) unfolding closes_def by auto
qed

lemma settle_reservation_closes:
  assumes "distinct (map rsv_id (ks_reservations s))" "get_usage_reservation rid s = Some r"
    and "rsv_status r = ''reserved''" "st_status st \<noteq> ''reserved''"
  shows "fst (settle_reservation NoFault now rid st s) = Inr ()"
    and "closes (actual_delta_of st) r s (snd (settle_reservation NoFault now rid st s))"
proof -
  note r = get_usage_reservation_some [OF assms(2)]
  let ?s1 = "snd (transition_usage_reservation_status now rid ''reserved'' ''settling'' s)"
  let ?s2 = "foldl (settle_item (actual_delta_of st) rid) ?s1 (rsv_items r)"
  have "closes (actual_delta_of st) r s ?s2"
    using r assms by (intro claimed_closes [where P = "\<lambda>x. rsv_status x = ''reserved''"])
      (auto simp: transition_usage_reservation_status_def Let_def settle_item_limits settle_item_reservations)
  then have cl: "closes (actual_delta_of st) r s (update_last_used now (rsv_api_key_id r)
      (settle_usage_reservation now rid (st_status st) (st_input_tokens st)
         (st_output_tokens st) (st_cached_input_tokens st) (Some (settlement_cost st)) ?s2))"
    by (rule closes_last) (use r assms(4) in \<open>auto simp: update_last_used_def settle_usage_reservation_def\<close>)
  have claimed: "fst (transition_usage_reservation_status now rid ''reserved'' ''settling'' s)"
    using r assms(3) by (auto simp: transition_usage_reservation_status_def Let_def list_ex_iff)
  show "fst (settle_reservation NoFault now rid st s) = Inr ()"
    "closes (actual_delta_of st) r s (snd (settle_reservation NoFault now rid st s))"
    using assms claimed cl by (simp_all add: settle_reservation_def Let_def split_beta)
qed

lemma release_once_closes:
  assumes "distinct (map rsv_id (ks_reservations s))" "get_usage_reservation rid s = Some r" "rsv_status r = ''reserved''"
  shows "closes (\<lambda>ty. 0) r s (snd (release_usage_reservation_once NoFault now rid s))"
proof -
  note r = get_usage_reservation_some [OF assms(2)]
  let ?s1 = "snd (transition_usage_reservation_status now rid ''reserved'' ''released'' s)"
  let ?s2 = "foldl (release_item rid) ?s1 (rsv_items r)"
  have "closes (\<lambda>ty. 0) r s ?s2"
    using r assms by (intro claimed_closes [where P = "\<lambda>x. rsv_status x = ''reserved''" and b = "\<lambda>it. 0"])
      (auto simp: transition_usage_reservation_status_def Let_def release_item_limits release_item_reservations)
  then have cl: "closes (\<lambda>ty. 0) r s (settle_usage_reservation now rid ''released'' None None None None ?s2)"
    by (rule closes_last) (use r in \<open>auto simp: settle_usage_reservation_def\<close>)
  have claimed: "fst (transition_usage_reservation_status now rid ''reserved'' ''released'' s)"
    using r assms(3) by (auto simp: transition_usage_reservation_status_def Let_def list_ex_iff)
  show ?thesis using assms claimed cl by (simp add: release_usage_reservation_once_def split_beta)
qed

lemma release_stale_row_closes:
  assumes "distinct (map rsv_id (ks_reservations (snd acc)))" "r \<in> set (ks_reservations (snd acc))"
    and "is_stale_reservation cutoff r"
  shows "closes (\<lambda>ty. 0) r (snd acc) (snd (release_stale_row now cutoff acc r))"
proof -
  let ?cond = "\<lambda>x. rsv_id x = rsv_id r \<and> is_stale_reservation cutoff x"
  let ?s1 = "(snd acc)\<lparr>ks_reservations := update_where ?cond
    (\<lambda>x. x\<lparr>rsv_status := ''released'', rsv_input_tokens := None, rsv_output_tokens := None,
           rsv_cached_input_tokens := None, rsv_cost_microdollars := None, rsv_updated_at := now\<rparr>)
    (ks_reservations (snd acc))\<rparr>"
  have "closes (\<lambda>ty. 0) r (snd acc) (foldl (release_item (rsv_id r)) ?s1 (rsv_items r))"
    using assms by (intro claimed_closes [where P = "is_stale_reservation cutoff" and b = "\<lambda>it. 0"])
      (auto simp: is_stale_reservation_def release_item_limits release_item_reservations)
  moreover have "list_ex ?cond (ks_reservations (snd acc))" using assms by (auto simp: list_ex_iff)
  ultimately show ?thesis by (simp add: release_stale_row_def Let_def)
qed

lemma closes_keeps: "closes a r s s' \<Longrightarrow> x \<in> set (ks_reservations s) \<Longrightarrow> rsv_id x \<noteq> rsv_id r \<Longrightarrow> x \<in> set (ks_reservations s')"
  by (auto simp: closes_def update_where_def)

section \<open>Opening a window\<close>

lemma reset_limit_effect:
  assumes inv: "ledger_inv s" and later: "e < n"
  shows "ledger_inv (snd (reset_limit i e n s))"
    and "ledger (snd (reset_limit i e n s))
      = map (\<lambda>(j, r, u). if j = i \<and> r = e then (j, n, 0) else (j, r, u)) (ledger s)"
proof -
  define h where "h l = (if lim_id l = i \<and> lim_reset_at l = e then l\<lparr>lim_current_value := 0, lim_reset_at := n\<rparr> else l)" for l :: ApiKeyLimit
  let ?s = "snd (reset_limit i e n s)"
  have s': "ks_limits ?s = map h (ks_limits s)" "ks_reservations ?s = ks_reservations s"
    by (simp_all add: reset_limit_def Let_def update_where_def h_def)
  have h: "lim_id (h l) = lim_id l" "lim_reset_at l \<le> lim_reset_at (h l)" for l using later by (simp_all add: h_def)
  have ok: "items_ok (ks_limits s) (open_items r)" if "r \<in> set (ks_reservations s)" for r
    using inv that by (simp add: ledger_inv_def)
  have used: "used ?s (h l) = (if lim_id l = i \<and> lim_reset_at l = e then 0 else used s l)" if "l \<in> set (ks_limits s)" for l
  proof (cases "lim_id l = i \<and> lim_reset_at l = e")
    case True
    then have "items_on (h l) (open_items r) = 0" if "r \<in> set (ks_reservations s)" for r
      using items_on_later [OF ok [OF that] \<open>l \<in> set (ks_limits s)\<close>] later by (simp add: h_def)
    then have "reserved_on (ks_reservations s) (h l) = 0" 
      unfolding reserved_on_def by (simp cong: map_cong)
    then show ?thesis using True by (simp add: used_def s' h_def)
  qed (auto simp: h_def used_def s')
  have "items_ok (ks_limits ?s) (open_items r)" if "r \<in> set (ks_reservations s)" for r
    unfolding s' using h by (intro items_ok_map [OF ok [OF that]]) simp
  then show "ledger_inv ?s" using inv used by (auto simp: ledger_inv_def s' comp_def h)
  show "ledger ?s = map (\<lambda>(j, r, u). if j = i \<and> r = e then (j, n, 0) else (j, r, u)) (ledger s)"
    using used by (simp add: ledger_def s' h) (simp add: h_def)
qed

lemma lazy_reset_inv: "ledger_inv s \<Longrightarrow> ledger_inv (snd (lazy_reset_expired_limits now ls s))"
  unfolding lazy_reset_expired_limits_def
  by (rule foldl_inv [where P = "\<lambda>a. ledger_inv (snd a)"])
    (auto simp: lazy_reset_step_def not_le intro!: reset_limit_effect(1)
      intro: less_trans [OF _ advance_limit_reset_future])

lemma reset_row_inv:
  assumes "ledger_inv (snd acc)" "lim_reset_at l < now"
  shows "ledger_inv (snd (reset_row now acc l))"
proof -
  have "lim_reset_at l < advance_limit_reset (lim_reset_at l) now (lim_window l)"
    using assms(2) advance_limit_reset_future by (rule less_trans)
  from reset_limit_effect(1) [OF assms(1) this] show ?thesis by (simp add: reset_row_def split_beta)
qed

lemma reset_batch_inv:
  "ledger_inv (snd acc) \<Longrightarrow> (\<And>l. l \<in> set ls \<Longrightarrow> lim_reset_at l < now) \<Longrightarrow> ledger_inv (snd (foldl (reset_row now) acc ls))"
  by (induction ls arbitrary: acc) (simp_all add: reset_row_inv)

lemma expired_batch_past: "l \<in> set (expired_batch now s) \<Longrightarrow> lim_reset_at l < now"
  by (auto simp: expired_batch_def dest!: in_set_takeD)

lemma reset_expired_inv: "ledger_inv s \<Longrightarrow> ledger_inv (snd (reset_expired_limits now n s))"
proof (induction now n s rule: reset_expired_limits.induct)
  case (1 now n s)
  let ?r = "foldl (reset_row now) (n, s) (expired_batch now s)"
  have "ledger_inv (snd ?r)" using 1(2) expired_batch_past by (intro reset_batch_inv) auto
  then show ?case
    using 1 by (subst reset_expired_limits.simps) (auto split: prod.split)
qed

section \<open>Reserving\<close>

lemma unknown_model_nonneg: "0 \<le> unknown_model_reserve_cost_budget_microdollars i n"
  by (simp add: unknown_model_reserve_cost_budget_microdollars_def Let_def
      API_KEY_USAGE_RESERVATION_UNKNOWN_MODEL_MICRODOLLARS_def API_KEY_USAGE_RESERVATION_UNKNOWN_MODEL_BASE_TOKENS_def
      API_KEY_USAGE_RESERVATION_MAX_TOKEN_BUDGET_def)

definition budget_ok :: "ApiKeyRequestUsageBudget \<Rightarrow> bool" where
  "budget_ok b = (0 \<le> or_num (bud_input_tokens b) 0 \<and> 0 \<le> or_num (bud_output_tokens b) 0)"

lemma normalized_budget_ok: "budget_ok (normalize_request_usage_budget b)"
  by (auto simp: budget_ok_def normalize_request_usage_budget_def normalize_reservation_token_budget_def or_num_def
      API_KEY_USAGE_RESERVATION_DEFAULT_INPUT_TOKENS_def API_KEY_USAGE_RESERVATION_DEFAULT_OUTPUT_TOKENS_def
      API_KEY_USAGE_RESERVATION_MAX_TOKEN_BUDGET_def split: option.split)

lemma reserve_delta_nonneg: "budget_ok b \<Longrightarrow> 0 \<le> reserve_delta_for_limit l m t b"
  using unknown_model_nonneg
  by (auto simp: reserve_delta_for_limit_def reserve_budget_for_limit_type_def reserve_cost_budget_microdollars_def
      budget_ok_def Let_def split: LimitType.split)

lemma reserve_delta_fits: "lim_current_value l < lim_max_value l \<Longrightarrow> lim_current_value l + reserve_delta_for_limit l m t b \<le> lim_max_value l"
  by (simp add: reserve_delta_for_limit_def Let_def)

definition bump :: "UsageReservationItemData list \<Rightarrow> ApiKeyLimit \<Rightarrow> ApiKeyLimit" where
  "bump items l = l\<lparr>lim_current_value := lim_current_value l + items_on l items\<rparr>"

lemma bump_simps [simp]:
  "lim_id (bump items l) = lim_id l" "lim_reset_at (bump items l) = lim_reset_at l" "lim_max_value (bump items l) = lim_max_value l"
  "lim_current_value (bump items l) = lim_current_value l + items_on l items" "bump [] l = l"
  "items_on (bump items l) = items_on l" "reserved_on rs (bump items l) = reserved_on rs l"
  "bump ys (bump xs l) = bump (xs @ ys) l"
  by (simp_all add: bump_def)

text \<open>A statement that succeeds has found the one row of the limit, in the window that was read.\<close>

lemma try_reserve_usage_ok:
  assumes "try_reserve_usage i delta e s = (True, s1)" "0 < delta" "distinct (map lim_id (ks_limits s))"
    and it: "it_limit_id it = i" "it_reserved_delta it = delta" "it_expected_reset_at it = e"
  shows "s1 = s\<lparr>ks_limits := map (bump [it]) (ks_limits s)\<rparr>"
    and "\<And>l. l \<in> set (ks_limits s) \<Longrightarrow> item_matches l it \<Longrightarrow> lim_current_value l + delta \<le> lim_max_value l"
proof -
  obtain l where l: "l \<in> set (ks_limits s)" "reserve_allowed i delta e l"
    using assms(1,2) by (auto simp: try_reserve_usage_def list_ex_iff)
  have only: "reserve_allowed i delta e l' \<longleftrightarrow> item_matches l' it" if "l' \<in> set (ks_limits s)" for l'
  proof -
    have "l' = l" if "lim_id l' = i"
      using l(1) \<open>l' \<in> set (ks_limits s)\<close> assms(3) that l(2) unfolding reserve_allowed_def distinct_map
      by (metis inj_onD)
    then show ?thesis using l(2) it unfolding reserve_allowed_def item_matches_def by metis
  qed
  then show "\<And>l. l \<in> set (ks_limits s) \<Longrightarrow> item_matches l it \<Longrightarrow> lim_current_value l + delta \<le> lim_max_value l"
    by (auto simp: reserve_allowed_def)
  have "update_where (reserve_allowed i delta e) (\<lambda>l. l\<lparr>lim_current_value := lim_current_value l + delta\<rparr>) (ks_limits s)
      = map (bump [it]) (ks_limits s)"
    unfolding update_where_def using only it by (intro map_cong) (auto simp: bump_def)
  then show "s1 = s\<lparr>ks_limits := map (bump [it]) (ks_limits s)\<rparr>"
    using assms(1,2) by (simp add: try_reserve_usage_def)
qed

text \<open>What a granted request holds back: one item per applicable limit, in the window that was read, and
  no more than is left of the limit.\<close>

definition reserves :: "RequestContext \<Rightarrow> ApiKeyLimit list \<Rightarrow> KeyStore \<Rightarrow> UsageReservationItemData list \<Rightarrow> bool" where
  "reserves rq ls s new =
     (map (\<lambda>it. (it_limit_id it, it_expected_reset_at it)) new
        = map (\<lambda>l. (lim_id l, lim_reset_at l)) (filter (\<lambda>l. limit_applies_for_request l (rq_model rq)) ls)
      \<and> (\<forall>it \<in> set new. 0 \<le> it_reserved_delta it)
      \<and> (\<forall>l \<in> set (ks_limits s). 0 < items_on l new \<longrightarrow> lim_current_value l + items_on l new \<le> lim_max_value l))"

abbreviation hold :: "UsageReservationItemData list \<Rightarrow> KeyStore \<Rightarrow> KeyStore" where
  "hold items s \<equiv> s\<lparr>ks_limits := map (bump items) (ks_limits s)\<rparr>"

lemma hold_zero: "it_reserved_delta it = 0 \<Longrightarrow> hold [it] s = s"
proof -
  assume "it_reserved_delta it = 0"
  then have "bump [it] = id" by (auto simp: fun_eq_iff bump_def)
  then show ?thesis by simp
qed

lemma reserve_limits_step:
  assumes "reserve_limits rq (l # ls) items s = Inr res" "distinct (map lim_id (ks_limits s))"
    and "budget_ok (rq_budget rq)" "limit_applies_for_request l (rq_model rq)"
  obtains it where "it_limit_id it = lim_id l" "it_expected_reset_at it = lim_reset_at l" "0 \<le> it_reserved_delta it"
    and "reserve_limits rq ls (items @ [it]) (hold [it] s) = Inr res"
    and "\<And>r. r \<in> set (ks_limits s) \<Longrightarrow> item_matches r it \<Longrightarrow> 0 < it_reserved_delta it
      \<Longrightarrow> lim_current_value r + it_reserved_delta it \<le> lim_max_value r"
proof -
  define d where "d = reserve_delta_for_limit l (rq_model rq) (rq_service_tier rq) (rq_budget rq)"
  let ?it = "reservation_item l d"
  have it: "it_limit_id ?it = lim_id l" "it_expected_reset_at ?it = lim_reset_at l" "it_reserved_delta ?it = d"
    by (simp_all add: reservation_item_def)
  have free: "lim_current_value l < lim_max_value l" using assms(1,4) by (simp split: if_splits)
  have d: "0 \<le> d" using reserve_delta_nonneg [OF assms(3)] by (simp add: d_def)
  show thesis
  proof (cases "0 < d")
    case True
    then obtain s1 where t: "try_reserve_usage (lim_id l) d (lim_reset_at l) s = (True, s1)"
      and st: "reserve_limits rq ls (items @ [?it]) s1 = Inr res"
      using assms(1,4) free by (simp add: Let_def d_def [symmetric] split: prod.splits if_splits)
    note ok = try_reserve_usage_ok [OF t True assms(2) it(1,3,2)]
    show thesis by (rule that [of ?it]) (use it d st ok in auto)
  next
    case False
    then have "reserve_limits rq ls (items @ [?it]) (hold [?it] s) = Inr res"
      using assms(1,4) free d it(3) by (simp add: Let_def d_def [symmetric] hold_zero del: bump_simps)
    then show thesis using that [of ?it] it d False by simp
  qed
qed

lemma reserve_limits_ok:
  assumes "reserve_limits rq ls items s = Inr (items', s')" "distinct (map lim_id (ks_limits s))" "budget_ok (rq_budget rq)"
  shows "\<exists>new. items' = items @ new \<and> s' = hold new s \<and> reserves rq ls s new"
  using assms
proof (induction ls arbitrary: items s)
  case Nil
  then show ?case by (intro exI [of _ "[]"]) (simp add: reserves_def)
next
  case (Cons l ls)
  show ?case
  proof (cases "limit_applies_for_request l (rq_model rq)")
    case False
    then show ?thesis using Cons by (simp add: reserves_def)
  next
    case True
    obtain it where it: "it_limit_id it = lim_id l" "it_expected_reset_at it = lim_reset_at l" "0 \<le> it_reserved_delta it"
      and st: "reserve_limits rq ls (items @ [it]) (hold [it] s) = Inr (items', s')"
      and fits: "\<And>r. r \<in> set (ks_limits s) \<Longrightarrow> item_matches r it \<Longrightarrow> 0 < it_reserved_delta it
        \<Longrightarrow> lim_current_value r + it_reserved_delta it \<le> lim_max_value r"
      using reserve_limits_step [OF Cons.prems True] by blast
    obtain new where new: "items' = (items @ [it]) @ new" "s' = hold new (hold [it] s)" "reserves rq ls (hold [it] s) new"
      using Cons.IH [OF st] Cons.prems(2,3) by (auto simp: comp_def)
    have nn: "0 \<le> items_on r new" for r
      using new(3) by (auto simp: reserves_def items_on_def intro!: sum_list_nonneg)
    have "lim_current_value r + items_on r (it # new) \<le> lim_max_value r"
      if "r \<in> set (ks_limits s)" "0 < items_on r (it # new)" for r
    proof (cases "0 < items_on r new")
      case True
      then show ?thesis using new(3) that(1) by (auto simp: reserves_def)
    next
      case False
      then show ?thesis using fits [OF that(1)] that(2) nn [of r] by (auto split: if_splits)
    qed
    then have "reserves rq (l # ls) s (it # new)" using new(3) it True by (simp add: reserves_def)
    then show ?thesis using new(1,2) by (intro exI [of _ "it # new"]) (simp add: comp_def)
  qed
qed

lemma reserve_for_request_effect:
  assumes inv: "ledger_inv s" and fresh: "rid \<notin> rsv_id ` set (ks_reservations s)" and bud: "budget_ok (rq_budget rq)"
    and snap: "\<And>l l'. l \<in> set limits \<Longrightarrow> l' \<in> set (ks_limits s) \<Longrightarrow> lim_id l' = lim_id l \<Longrightarrow> lim_reset_at l \<le> lim_reset_at l'"
  shows "ledger_inv (snd (reserve_for_request now rid i rq limits s))"
    and "ledger (snd (reserve_for_request now rid i rq limits s)) = ledger s"
proof -
  have dist: "distinct (map lim_id (ks_limits s))" using inv by (simp add: ledger_inv_def)
  have both: "ledger_inv (snd (reserve_for_request now rid i rq limits s))
    \<and> ledger (snd (reserve_for_request now rid i rq limits s)) = ledger s"
  proof (cases "reserve_limits rq limits [] s")
    case (Inl e)
    then show ?thesis using inv by (simp add: reserve_for_request_def)
  next
    case (Inr r)
    obtain new where new: "r = (new, hold new s)" "reserves rq limits s new"
      using reserve_limits_ok [of rq limits "[]" s "fst r" "snd r"] Inr dist bud by (metis append_Nil prod.collapse)
    let ?s = "snd (reserve_for_request now rid i rq limits s)"
    obtain x where x: "ks_reservations ?s = ks_reservations s @ [x]" "open_items x = new" "rsv_id x = rid"
      using Inr new(1) by (simp add: reserve_for_request_def create_usage_reservation_def open_items_def)
    have lims: "ks_limits ?s = map (bump new) (ks_limits s)"
      using Inr new(1) by (simp add: reserve_for_request_def create_usage_reservation_def)
    have used: "used ?s (bump new l) = used s l" for l
      by (simp add: used_def x reserved_on_def)
    have "items_ok (ks_limits s) new"
      unfolding items_ok_def
    proof (intro ballI conjI impI)
      fix it assume it: "it \<in> set new"
      then show "0 \<le> it_reserved_delta it" using new(2) by (simp add: reserves_def)
      fix l' assume l': "l' \<in> set (ks_limits s)" "lim_id l' = it_limit_id it"
      have "(it_limit_id it, it_expected_reset_at it) \<in> set (map (\<lambda>l. (lim_id l, lim_reset_at l)) limits)"
        using new(2) it unfolding reserves_def by (metis (no_types, lifting) filter_is_subset image_eqI image_mono set_map subsetD)
      then show "it_expected_reset_at it \<le> lim_reset_at l'" using snap l' by fastforce
    qed
    then have "items_ok (ks_limits ?s) (open_items r)" if "r \<in> set (ks_reservations ?s)" for r
      unfolding lims using that inv x by (intro items_ok_map) (auto simp: ledger_inv_def)
    then show ?thesis
      using inv fresh x(3) used by (auto simp: ledger_inv_def lims x(1) comp_def ledger_def)
  qed
  then show "ledger_inv (snd (reserve_for_request now rid i rq limits s))"
    "ledger (snd (reserve_for_request now rid i rq limits s)) = ledger s" by simp_all
qed

text \<open>Resets touch neither the keys nor the reservations.\<close>

lemma reset_limit_frame [simp]:
  "ks_reservations (snd (reset_limit i e n s)) = ks_reservations s" "ks_keys (snd (reset_limit i e n s)) = ks_keys s"
  by (simp_all add: reset_limit_def Let_def)

lemma lazy_reset_frame [simp]:
  "ks_reservations (snd (lazy_reset_expired_limits now ls s)) = ks_reservations s"
  "ks_keys (snd (lazy_reset_expired_limits now ls s)) = ks_keys s"
proof -
  let ?P = "\<lambda>a. ks_reservations (snd a) = ks_reservations s \<and> ks_keys (snd a) = ks_keys s"
  have "?P (foldl (lazy_reset_step now) (False, s) ls)"
    by (rule foldl_inv [where P = ?P]) (auto simp: lazy_reset_step_def)
  then show "ks_reservations (snd (lazy_reset_expired_limits now ls s)) = ks_reservations s"
    "ks_keys (snd (lazy_reset_expired_limits now ls s)) = ks_keys s" by (simp_all add: lazy_reset_expired_limits_def)
qed

lemma own_rows_snapshot:
  "distinct (map lim_id (ks_limits s)) \<Longrightarrow> l \<in> set (get_limits_by_key i s) \<Longrightarrow> l' \<in> set (ks_limits s) \<Longrightarrow> lim_id l' = lim_id l
     \<Longrightarrow> lim_reset_at l \<le> lim_reset_at l'"
  by (auto simp: get_limits_by_key_def distinct_map inj_on_def)

definition id_free :: "string \<Rightarrow> KeyStore \<Rightarrow> bool" where
  "id_free rid s = (rid \<notin> rsv_id ` set (ks_reservations s))"

lemma lazy_reset_not_performed:
  "lazy_reset_expired_limits now ls s = (False, s1) \<Longrightarrow> s1 = s"
proof -
  let ?P = "\<lambda>a. \<not> fst a \<longrightarrow> snd a = s"
  have "?P (foldl (lazy_reset_step now) (False, s) ls)"
    by (rule foldl_inv [where P = ?P]) (auto simp: lazy_reset_step_def)
  then show "lazy_reset_expired_limits now ls s = (False, s1) \<Longrightarrow> s1 = s" by (auto simp: lazy_reset_expired_limits_def)
qed

text \<open>The second look at the key finds what the first found.\<close>

lemma valid_row_checked: "valid_row now (Some r) = Inr r' \<Longrightarrow> r' = r \<and> check_expiry now r = Inr r"
  by (auto simp: valid_row_def ensure_valid_api_key_row_def check_expiry_def res_bind_def split: if_splits option.splits)

lemma valid_row_some: "valid_row now x = Inr r \<Longrightarrow> x = Some r"
  by (auto simp: valid_row_def ensure_valid_api_key_row_def check_expiry_def res_bind_def
      split: if_splits option.splits sum.splits)

abbreviation refreshed :: "int \<Rightarrow> string \<Rightarrow> KeyStore \<Rightarrow> KeyStore" where
  "refreshed now i s \<equiv> snd (lazy_reset_expired_limits now (get_limits_by_key i s) s)"

lemma enforce_once_eq:
  "enforce_limits_for_request_once fault now rid i rq s =
     (if is_read_fault fault then (Inl (OperationalError (fault_locked fault)), s)
      else case valid_row now (get_by_id i s) of
             Inl e \<Rightarrow> (Inl e, s)
           | Inr row \<Rightarrow>
               (case fault of
                  Fault locked k \<Rightarrow>
                    (Inl (OperationalError locked), snd (lazy_reset_expired_limits now (take (k - 1) (get_limits_by_key i s)) s))
                | NoFault \<Rightarrow> reserve_for_request now rid i rq (get_limits_by_key i (refreshed now i s)) (refreshed now i s)))"
proof -
  obtain p s1 where lr: "lazy_reset_expired_limits now (get_limits_by_key i s) s = (p, s1)" by fastforce
  have rows: "(if p then get_limits_by_key i s1 else get_limits_by_key i s) = get_limits_by_key i s1"
    using lazy_reset_not_performed [of now "get_limits_by_key i s" s s1] lr by (cases p) auto
  have k: "get_by_id i s1 = get_by_id i s"
    using lazy_reset_frame(2) [of now "get_limits_by_key i s" s] lr by (simp add: get_by_id_def)
  have "(if p then valid_row now (get_by_id i s1) else check_expiry now row) = Inr row"
    if "valid_row now (get_by_id i s) = Inr row" for row
    using valid_row_checked [of now row row] valid_row_some [OF that] that by (simp add: k)
  then show ?thesis
    by (simp add: enforce_limits_for_request_once_def Let_def lr rows split: db_fault.split sum.split)
qed

lemma refreshed_reserve:
  assumes "ledger_inv s" "id_free rid s" "budget_ok (rq_budget rq)"
  shows "ledger_inv (snd (reserve_for_request now rid i rq (get_limits_by_key i (refreshed now i s)) (refreshed now i s)))"
    and "ledger (snd (reserve_for_request now rid i rq (get_limits_by_key i (refreshed now i s)) (refreshed now i s)))
      = ledger (refreshed now i s)"
proof -
  have inv: "ledger_inv (refreshed now i s)" by (rule lazy_reset_inv [OF assms(1)])
  then have "distinct (map lim_id (ks_limits (refreshed now i s)))" by (simp add: ledger_inv_def)
  note args = inv _ assms(3) own_rows_snapshot [OF this]
  show "ledger_inv (snd (reserve_for_request now rid i rq (get_limits_by_key i (refreshed now i s)) (refreshed now i s)))"
    by (rule reserve_for_request_effect(1) [OF args]) (use assms(2) in \<open>simp_all add: id_free_def\<close>)
  show "ledger (snd (reserve_for_request now rid i rq (get_limits_by_key i (refreshed now i s)) (refreshed now i s)))
      = ledger (refreshed now i s)"
    by (rule reserve_for_request_effect(2) [OF args]) (use assms(2) in \<open>simp_all add: id_free_def\<close>)
qed

lemma enforce_once_inv:
  assumes "ledger_inv s" "id_free rid s" "budget_ok (rq_budget rq)"
  shows "ledger_inv (snd (enforce_limits_for_request_once fault now rid i rq s))"
  using assms(1) refreshed_reserve(1) [OF assms] lazy_reset_inv [OF assms(1)]
  by (simp add: enforce_once_eq split: sum.split db_fault.split)

lemma enforce_once_id_free:
  assumes "fst (enforce_limits_for_request_once fault now rid i rq s) = Inl e" "id_free rid s"
  shows "id_free rid (snd (enforce_limits_for_request_once fault now rid i rq s))"
  using assms
  by (auto simp: enforce_once_eq reserve_for_request_def id_free_def split: sum.splits db_fault.splits if_splits)

text \<open>Retrying keeps what each attempt keeps; with an attempt for every turn it never falls through.\<close>

lemma busy_retry_keeps:
  assumes "P s" "\<And>f s e. P s \<Longrightarrow> fst (once f s) = Inl e \<Longrightarrow> P (snd (once f s))" "\<And>f s. P s \<Longrightarrow> Q (snd (once f s))" "\<And>s. P s \<Longrightarrow> Q s"
  shows "Q (snd (busy_retry faults once s))"
  using assms(1)
proof (induction faults arbitrary: s)
  case (Cons f fs)
  have "P (snd (once f s))" if "fst (once f s) = Inl e" for e using assms(2) Cons.prems that by blast
  then show ?case using Cons assms(3) [OF Cons.prems, of f] by (auto split: prod.split sum.split key_error.split)
qed (simp add: assms(4))

lemmas busy_retry_inv = busy_retry_keeps [where P = ledger_inv and Q = ledger_inv]

lemma busy_retry_reachable:
  "faults \<noteq> [] \<Longrightarrow> (\<And>f s. fst (once f s) \<noteq> Inl UnreachableError) \<Longrightarrow> fst (busy_retry faults once s) \<noteq> Inl UnreachableError"
proof (induction faults arbitrary: s)
  case (Cons f fs)
  then show ?case using Cons.prems(2) [of f s] by (cases "once f s") (auto split: sum.split key_error.split)
qed simp

lemma busy_retry_locked:
  "(\<And>f. f \<in> set fs \<Longrightarrow> once f s = (Inl (OperationalError True), s)) \<Longrightarrow>
     busy_retry (fs @ f # rest) once s = busy_retry (f # rest) once s"
  by (induction fs) simp_all

lemma busy_retry_all_locked:
  "(\<And>f. f \<in> set fs \<Longrightarrow> once f s = (Inl (OperationalError True), s)) \<Longrightarrow> fs \<noteq> [] \<Longrightarrow>
     busy_retry fs once s = (Inl (OperationalError True), s)"
proof (induction fs)
  case (Cons f fs)
  then show ?case by (cases fs) simp_all
qed simp

lemma busy_retry_settled:
  "busy_retry (NoFault # fs) (\<lambda>fault. settle_reservation fault now rid st) s
     = busy_retry [NoFault] (\<lambda>fault. settle_reservation fault now rid st) s"
  by (simp add: settle_reservation_def Let_def split_beta split: option.split)

section \<open>Settling\<close>

lemma calculate_cost_microdollars_nonneg:
  assumes "0 \<le> i" "0 \<le> out"
  shows "0 \<le> calculate_cost_microdollars model i out c tier"
proof (cases "get_pricing_for_model model None None")
  case None
  then show ?thesis by (simp add: calculate_cost_microdollars_def)
next
  case (Some kp)
  then have "price_ok (snd kp)"
    using resolution_longest_key [OF default_tables] default_prices_ok by (auto simp: longest_key_def list_all_iff)
  obtain ri rc rout where r: "effective_rates (token_usage (of_int i) (of_int out) 0) (snd kp) tier = (ri, rc, rout)"
    using prod_cases3 by blast
  then have ok: "0 \<le> ri" "0 \<le> rc" "0 \<le> rout"
    using effective_rates_ok [OF \<open>price_ok (snd kp)\<close>, of "token_usage (of_int i) (of_int out) 0" tier]
    by (auto simp: rates_ok_def default_to_def)
  let ?i = "of_int i :: pyfloat" and ?m = "max 0 (min (of_int c) (of_int i)) :: pyfloat"
  have "?m \<le> ?i" "0 \<le> ?m" using assms by auto
  then have "0 \<le> (?i - ?m) / 1000000 * ri + ?m / 1000000 * rc + of_int out / 1000000 * rout"
    using ok assms by (intro add_nonneg_nonneg mult_nonneg_nonneg) auto
  then show ?thesis
    using Some cost_of_tokens [OF r, of "of_int c"] assms
    by (auto simp: calculate_cost_microdollars_def token_usage_def py_int_def split: prod.split)
qed

definition settlement_ok :: "Settlement \<Rightarrow> bool" where
  "settlement_ok st = (0 \<le> or_num (st_input_tokens st) 0 \<and> 0 \<le> or_num (st_output_tokens st) 0
     \<and> (\<forall>c. st_cost_override st = Some c \<longrightarrow> 0 \<le> c) \<and> st_status st \<noteq> ''reserved'')"

lemma actual_delta_nonneg: "settlement_ok st \<Longrightarrow> 0 \<le> actual_delta_of st ty"
  by (auto simp: settlement_ok_def actual_delta_of_def settlement_cost_def compute_increment_for_limit_type_def
      calculate_cost_microdollars_nonneg split: LimitType.split option.split)

lemma settle_not_open:
  "get_usage_reservation rid s = None \<or> (\<exists>r. get_usage_reservation rid s = Some r \<and> rsv_status r \<noteq> ''reserved'')
     \<Longrightarrow> settle_reservation NoFault now rid st s = (Inr (), s) \<and> release_usage_reservation_once NoFault now rid s = (Inr (), s)"
  by (auto simp: settle_reservation_def release_usage_reservation_once_def)

lemma closed_found:
  assumes "closes f r s s'" "rsv_id r = rid"
  shows "get_usage_reservation rid s' = None \<or> (\<exists>x. get_usage_reservation rid s' = Some x \<and> rsv_status x \<noteq> ''reserved'')"
proof (cases "get_usage_reservation rid s'")
  case (Some x)
  then have x: "x \<in> set (ks_reservations s')" "rsv_id x = rid" using get_usage_reservation_some by blast+
  obtain g where g: "ks_reservations s' = update_where (\<lambda>x. rsv_id x = rsv_id r) g (ks_reservations s)"
    "\<And>x. rsv_status (g x) \<noteq> ''reserved''"
    using assms(1) unfolding closes_def by blast
  obtain y where "x = (if rsv_id y = rsv_id r then g y else y)" 
    using x(1) unfolding g(1) update_where_def set_map by blast
  then have "rsv_status x \<noteq> ''reserved''" using x(2) assms(2) g(2) [of y] by (cases "rsv_id y = rsv_id r") simp_all
  then show ?thesis using Some by simp
qed simp

lemma settle_once_inv:
  assumes "ledger_inv s" "settlement_ok st"
  shows "ledger_inv (snd (settle_reservation fault now rid st s))"
proof (cases "\<exists>r. fault = NoFault \<and> get_usage_reservation rid s = Some r \<and> rsv_status r = ''reserved''")
  case True
  then obtain r where r: "fault = NoFault" "get_usage_reservation rid s = Some r" "rsv_status r = ''reserved''" by blast
  have "closes (actual_delta_of st) r s (snd (settle_reservation NoFault now rid st s))"
    using assms r by (intro settle_reservation_closes(2)) (auto simp: ledger_inv_def settlement_ok_def)
  then show ?thesis using closes_effect(1) [OF assms(1)] actual_delta_nonneg [OF assms(2)] r(1) by blast
next
  case False
  then show ?thesis
    using assms(1) settle_not_open [of rid s now st]
    by (cases fault; cases "get_usage_reservation rid s") (auto simp: settle_reservation_def)
qed

lemma release_once_inv:
  assumes "ledger_inv s"
  shows "ledger_inv (snd (release_usage_reservation_once fault now rid s))"
proof (cases "\<exists>r. fault = NoFault \<and> get_usage_reservation rid s = Some r \<and> rsv_status r = ''reserved''")
  case True
  then obtain r where r: "fault = NoFault" "get_usage_reservation rid s = Some r" "rsv_status r = ''reserved''" by blast
  have "closes (\<lambda>ty. 0) r s (snd (release_usage_reservation_once NoFault now rid s))"
    using assms r by (intro release_once_closes) (auto simp: ledger_inv_def)
  then show ?thesis using closes_effect(1) [OF assms] r(1) by fastforce
next
  case False
  then show ?thesis
    using assms(1) settle_not_open [of rid s now]
    by (cases fault; cases "get_usage_reservation rid s") (auto simp: release_usage_reservation_once_def)
qed

section \<open>Clean-up\<close>

lemma stale_batch_effect:
  assumes "ledger_inv (snd acc)" "distinct (map rsv_id rs)"
    and "\<And>r. r \<in> set rs \<Longrightarrow> r \<in> set (ks_reservations (snd acc)) \<and> is_stale_reservation cutoff r"
  shows "ledger_inv (snd (foldl (release_stale_row now cutoff) acc rs))
    \<and> ledger (snd (foldl (release_stale_row now cutoff) acc rs)) = ledger (snd acc)"
  using assms
proof (induction rs arbitrary: acc)
  case (Cons r rs)
  let ?a = "release_stale_row now cutoff acc r"
  have cl: "closes (\<lambda>ty. 0) r (snd acc) (snd ?a)"
    using Cons.prems by (intro release_stale_row_closes) (auto simp: ledger_inv_def)
  have eff: "ledger_inv (snd ?a)" "ledger (snd ?a) = ledger (snd acc)"
    using closes_effect [OF Cons.prems(1) cl] by (simp_all add: ledger_def)
  have "x \<in> set (ks_reservations (snd ?a)) \<and> is_stale_reservation cutoff x" if "x \<in> set rs" for x
    using closes_keeps [OF cl] Cons.prems(2,3) that by (metis distinct.simps(2) image_eqI list.map(2) list.set_intros(2) set_map)
  then show ?case using Cons.IH [OF eff(1)] Cons.prems(2) eff(2) by simp
qed simp

lemma stale_batch_members:
  assumes "distinct (map rsv_id (ks_reservations s))"
  shows "distinct (map rsv_id (stale_batch cutoff n s))"
    and "r \<in> set (stale_batch cutoff n s) \<Longrightarrow> r \<in> set (ks_reservations s) \<and> is_stale_reservation cutoff r"
proof -
  let ?f = "filter (is_stale_reservation cutoff) (ks_reservations s)"
  have "distinct (map rsv_id ?f)" using assms by (simp add: distinct_map_filter)
  then have "distinct (map rsv_id (sort_key rsv_updated_at ?f))" by (auto simp: distinct_map)
  then show "distinct (map rsv_id (stale_batch cutoff n s))" by (simp add: stale_batch_def flip: take_map)
  show "r \<in> set (stale_batch cutoff n s) \<Longrightarrow> r \<in> set (ks_reservations s) \<and> is_stale_reservation cutoff r"
    by (auto simp: stale_batch_def dest!: in_set_takeD)
qed

lemma release_stale_effect:
  "ledger_inv s \<Longrightarrow> ledger_inv (snd (release_stale_usage_reservations now cutoff b n s))
     \<and> ledger (snd (release_stale_usage_reservations now cutoff b n s)) = ledger s"
proof (induction now cutoff b n s rule: release_stale_usage_reservations.induct)
  case (1 now cutoff b n s)
  let ?r = "foldl (release_stale_row now cutoff) (n, s) (stale_batch cutoff b s)"
  have "ledger_inv (snd ?r) \<and> ledger (snd ?r) = ledger (snd (n, s))"
    using 1(2) stale_batch_members [of s] by (intro stale_batch_effect) (auto simp: ledger_inv_def)
  then show ?case
    using 1 by (subst (1 2) release_stale_usage_reservations.simps) (auto split: prod.split)
qed

lemma release_stale_none_left:
  "0 < b \<Longrightarrow> r \<in> set (ks_reservations (snd (release_stale_usage_reservations now cutoff b n s))) \<Longrightarrow> \<not> is_stale_reservation cutoff r"
proof (induction now cutoff b n s rule: release_stale_usage_reservations.induct)
  case (1 now cutoff b n s)
  show ?case
  proof (cases "stale_batch cutoff b s = []")
    case True
    then have "filter (is_stale_reservation cutoff) (ks_reservations s) = []"
      using 1(2) by (auto simp: stale_batch_def dest: arg_cong [of _ "[]" length])
    moreover have "r \<in> set (ks_reservations s)"
      using 1(3) True by (subst (asm) release_stale_usage_reservations.simps) simp
    ultimately show ?thesis by (auto simp: filter_empty_conv)
  next
    case False
    obtain m s1 where b: "(m, s1) = foldl (release_stale_row now cutoff) (n, s) (stale_batch cutoff b s)"
      by (metis prod.collapse)
    have "release_stale_usage_reservations now cutoff b n s = release_stale_usage_reservations now cutoff b m s1"
      using False by (subst release_stale_usage_reservations.simps) (simp flip: b)
    then show ?thesis using 1(1) [OF False b 1(2)] 1(3) by simp
  qed
qed

lemma reset_expired_none_left:
  "l \<in> set (ks_limits (snd (reset_expired_limits now n s))) \<Longrightarrow> now \<le> lim_reset_at l"
proof (induction now n s rule: reset_expired_limits.induct)
  case (1 now n s)
  show ?case
  proof (cases "expired_batch now s = []")
    case True
    then have "filter (\<lambda>l. lim_reset_at l < now) (ks_limits s) = []"
      by (auto simp: expired_batch_def EXPIRED_LIMIT_RESET_BATCH_SIZE_def dest: arg_cong [of _ "[]" length])
    moreover have "l \<in> set (ks_limits s)"
      using 1(2) True by (subst (asm) reset_expired_limits.simps) simp
    ultimately show ?thesis by (auto simp: filter_empty_conv not_less)
  next
    case False
    obtain m s1 where b: "(m, s1) = foldl (reset_row now) (n, s) (expired_batch now s)" by (metis prod.collapse)
    have "reset_expired_limits now n s = reset_expired_limits now m s1"
      using False by (subst reset_expired_limits.simps) (simp flip: b)
    then show ?thesis using 1(1) [OF False b] 1(2) by simp
  qed
qed

lemma release_stale_row_resets:
  "map lim_reset_at (ks_limits (snd (release_stale_row now cutoff acc r))) = map lim_reset_at (ks_limits (snd acc))"
proof -
  have "map lim_reset_at (ks_limits (foldl (release_item rid) s items)) = map lim_reset_at (ks_limits s)" for rid s items
    by (induction items arbitrary: s) (simp_all add: release_item_limits adjust_row_def Let_def comp_def if_distrib cong: if_cong)
  then show ?thesis by (simp add: release_stale_row_def Let_def)
qed

lemma release_stale_resets:
  "map lim_reset_at (ks_limits (snd (release_stale_usage_reservations now cutoff b n s))) = map lim_reset_at (ks_limits s)"
proof (induction now cutoff b n s rule: release_stale_usage_reservations.induct)
  case (1 now cutoff b n s)
  have "map lim_reset_at (ks_limits (snd (foldl (release_stale_row now cutoff) (n, s) rs))) = map lim_reset_at (ks_limits s)" for rs
    by (rule foldl_inv [where P = "\<lambda>a. map lim_reset_at (ks_limits (snd a)) = map lim_reset_at (ks_limits s)"])
      (simp_all add: release_stale_row_resets)
  from this [of "stale_batch cutoff b s"] show ?case
    using 1 by (subst release_stale_usage_reservations.simps) (auto split: prod.split)
qed

section \<open>Recording and touching\<close>

lemma ledger_inv_cong: "ks_limits s' = ks_limits s \<Longrightarrow> ks_reservations s' = ks_reservations s \<Longrightarrow> ledger_inv s' = ledger_inv s"
  by (simp add: ledger_inv_def used_def)

lemma increment_row_inv:
  assumes "ledger_inv (s\<lparr>ks_limits := ls\<rparr>)"
  shows "ledger_inv (s\<lparr>ks_limits := increment_row ls e\<rparr>)"
proof (cases "0 < snd e")
  case True
  define h where "h l = (if lim_id l = fst e then l\<lparr>lim_current_value := lim_current_value l + snd e\<rparr> else l)" for l :: ApiKeyLimit
  have rows: "increment_row ls e = map h ls" using True by (simp add: increment_row_def update_where_def h_def split_beta)
  have h: "lim_id (h l) = lim_id l" "lim_reset_at (h l) = lim_reset_at l" "reserved_on rs (h l) = reserved_on rs l"
    "lim_current_value l \<le> lim_current_value (h l)" for l rs using True by (simp_all add: h_def)
  show ?thesis
    using assms h(4) by (auto simp: ledger_inv_def rows comp_def h used_def intro!: items_ok_map intro: order_trans)
qed (use assms in \<open>simp add: increment_row_def split_beta\<close>)

lemma record_usage_inv: "ledger_inv s \<Longrightarrow> ledger_inv (record_usage now i m inp out c t s)"
proof -
  assume "ledger_inv s"
  then have "ledger_inv (s\<lparr>ks_limits := foldl increment_row (ks_limits s) es\<rparr>)" for es
    by (intro foldl_inv [where P = "\<lambda>ls. ledger_inv (s\<lparr>ks_limits := ls\<rparr>)"] increment_row_inv) simp_all
  then show ?thesis
    by (simp add: record_usage_def increment_limit_usage_def Let_def update_last_used_def ledger_inv_def used_def)
qed

lemma touch_inv: "ledger_inv s \<Longrightarrow> ledger_inv (snd (touch_usage_reservation now rid s))"
proof -
  let ?s = "snd (touch_usage_reservation now rid s)"
  define g where "g r = (if rsv_id r = rid \<and> rsv_status r = ''reserved'' then r\<lparr>rsv_updated_at := now\<rparr> else r)"
    for r :: ApiKeyUsageReservation
  have g: "ks_reservations ?s = map g (ks_reservations s)" "\<And>r. rsv_id (g r) = rsv_id r \<and> open_items (g r) = open_items r"
    by (simp_all add: touch_usage_reservation_def Let_def update_where_def open_items_def g_def)
  have "ks_limits ?s = ks_limits s" by (simp add: touch_usage_reservation_def Let_def)
  moreover have "reserved_on (ks_reservations ?s) l = reserved_on (ks_reservations s) l" for l
    using g(2) by (simp add: reserved_on_def g(1) comp_def)
  ultimately show "ledger_inv s \<Longrightarrow> ledger_inv ?s"
    using g by (simp add: ledger_inv_def used_def comp_def)
qed

section \<open>Steps\<close>

text \<open>The operations in any order, by any number of workers. \<open>interleaved\<close> is a request whose limits were
  read before other steps: what it has read may be outdated, but a window only moves forward.\<close>

inductive ledger_step :: "KeyStore \<Rightarrow> KeyStore \<Rightarrow> bool" where
  validate: "ledger_step s (snd (validate_key hash_key now plain_key s))"
| enforce: "id_free rid s \<Longrightarrow> ledger_step s (snd (enforce_limits_for_request faults now rid i model tier budget s))"
| interleaved: "id_free rid s
    \<Longrightarrow> (\<And>l l'. l \<in> set limits \<Longrightarrow> l' \<in> set (ks_limits s) \<Longrightarrow> lim_id l' = lim_id l \<Longrightarrow> lim_reset_at l \<le> lim_reset_at l')
    \<Longrightarrow> ledger_step s (snd (reserve_for_request now rid i (request_context model tier budget) limits s))"
| finalize: "0 \<le> inp \<Longrightarrow> 0 \<le> out \<Longrightarrow> (\<And>c. cost = Some c \<Longrightarrow> 0 \<le> c)
    \<Longrightarrow> ledger_step s (snd (finalize_usage_reservation faults now rid model inp out cached tier cost s))"
| fail: "0 \<le> or_num inp_o 0 \<Longrightarrow> 0 \<le> or_num out_o 0
    \<Longrightarrow> ledger_step s (snd (fail_usage_reservation faults now rid model inp_o out_o cached_o tier s))"
| release: "ledger_step s (snd (release_usage_reservation faults now rid s))"
| touch: "ledger_step s (snd (touch_reservation faults now rid s))"
| recorded: "ledger_step s (record_usage now i model inp out cached tier s)"
| clean_up: "ledger_step s (reset_as_leader now s)"

lemma validate_key_eq:
  "snd (validate_key hash_key now plain_key s) = s
     \<or> (\<exists>ls. snd (validate_key hash_key now plain_key s) = snd (lazy_reset_expired_limits now ls s))"
  by (auto simp: validate_key_def split: sum.split prod.split) (metis snd_conv)+

lemma enforce_inv:
  assumes "ledger_inv s" "id_free rid s"
  shows "ledger_inv (snd (enforce_limits_for_request faults now rid i model tier budget s))"
proof -
  have "budget_ok (rq_budget (request_context model tier budget))" by (simp add: request_context_def normalized_budget_ok)
  note keeps = enforce_once_inv [OF _ _ this, where rid = rid]
  show ?thesis
    unfolding enforce_limits_for_request_def
    by (rule busy_retry_keeps [where P = "\<lambda>s. ledger_inv s \<and> id_free rid s"])
      (use assms in \<open>simp_all add: keeps enforce_once_id_free\<close>)
qed

lemma ledger_step_keeps: "ledger_step s s' \<Longrightarrow> ledger_inv s \<Longrightarrow> ledger_inv s'"
proof (induction rule: ledger_step.induct)
  show "ledger_inv s \<Longrightarrow> ledger_inv (snd (validate_key hash_key now plain_key s))" for hash_key now plain_key s
    using validate_key_eq [of hash_key now plain_key s] lazy_reset_inv by metis
next
  fix rid s faults now i model tier budget
  assume "id_free rid s" "ledger_inv s"
  then show "ledger_inv (snd (enforce_limits_for_request faults now rid i model tier budget s))"
    by (intro enforce_inv)
next
  fix rid s and limits :: "ApiKeyLimit list" and now i model tier budget
  assume "id_free rid s" "ledger_inv s"
    and "\<And>l l'. l \<in> set limits \<Longrightarrow> l' \<in> set (ks_limits s) \<Longrightarrow> lim_id l' = lim_id l \<Longrightarrow> lim_reset_at l \<le> lim_reset_at l'"
  then show "ledger_inv (snd (reserve_for_request now rid i (request_context model tier budget) limits s))"
    by (intro reserve_for_request_effect(1)) (auto simp: request_context_def normalized_budget_ok id_free_def)
next
  fix inp out :: int and cost :: "int option" and s faults now rid model cached tier
  assume "0 \<le> inp" "0 \<le> out" "\<And>c. cost = Some c \<Longrightarrow> 0 \<le> c" "ledger_inv s"
  then show "ledger_inv (snd (finalize_usage_reservation faults now rid model inp out cached tier cost s))"
    unfolding finalize_usage_reservation_def
    by (intro busy_retry_inv) (simp_all add: settle_once_inv settlement_ok_def)
next
  fix inp out :: "int option" and cached s faults now rid model tier
  assume "0 \<le> or_num inp 0" "0 \<le> or_num out 0" "ledger_inv s"
  then show "ledger_inv (snd (fail_usage_reservation faults now rid model inp out cached tier s))"
    unfolding fail_usage_reservation_def
    by (intro busy_retry_inv) (simp_all add: settle_once_inv settlement_ok_def)
next
  show "ledger_inv s \<Longrightarrow> ledger_inv (snd (release_usage_reservation faults now rid s))" for s faults now rid
    unfolding release_usage_reservation_def by (intro busy_retry_inv) (simp_all add: release_once_inv)
next
  show "ledger_inv s \<Longrightarrow> ledger_inv (snd (touch_reservation faults now rid s))" for s faults now rid
    unfolding touch_reservation_def
    by (intro busy_retry_inv) (simp_all add: split_beta touch_inv split: db_fault.split)
next
  show "ledger_inv s \<Longrightarrow> ledger_inv (record_usage now i model inp out cached tier s)" for s now i model inp out cached tier
    by (rule record_usage_inv)
next
  show "ledger_inv s \<Longrightarrow> ledger_inv (reset_as_leader now s)" for s now
    using release_stale_effect reset_expired_inv by (simp add: reset_as_leader_def)
qed

definition fresh_store :: "KeyStore \<Rightarrow> bool" where
  "fresh_store s = (distinct (map lim_id (ks_limits s)) \<and> ks_reservations s = []
     \<and> (\<forall>l \<in> set (ks_limits s). 0 \<le> lim_current_value l))"

interpretation key_ledger: invariant_system fresh_store ledger_step ledger_inv
proof unfold_locales
  show "fresh_store s \<Longrightarrow> ledger_inv s" for s by (simp add: fresh_store_def ledger_inv_def used_def reserved_on_def)
  show "ledger_inv s \<Longrightarrow> ledger_step s s' \<Longrightarrow> ledger_inv s'" for s s' using ledger_step_keeps by blast
qed

section \<open>Admission\<close>

definition renewed :: "int \<Rightarrow> ApiKeyLimit \<Rightarrow> ApiKeyLimit" where
  "renewed now l = l\<lparr>lim_current_value := 0, lim_reset_at := advance_limit_reset (lim_reset_at l) now (lim_window l)\<rparr>"

lemma renewed_simps [simp]:
  "lim_id (renewed now l) = lim_id l" "lim_max_value (renewed now l) = lim_max_value l" "lim_current_value (renewed now l) = 0"
  "lim_api_key_id (renewed now l) = lim_api_key_id l"
  "limit_applies_for_request (renewed now l) m = limit_applies_for_request l m"
  by (simp_all add: renewed_def limit_applies_for_request_def)

lemma lazy_reset_step_rows:
  assumes "distinct (map lim_id (ks_limits (snd acc)))" "l \<in> set (ks_limits (snd acc))"
  shows "ks_limits (snd (lazy_reset_step now acc l))
    = map (\<lambda>r. if lim_id r = lim_id l \<and> lim_reset_at r < now then renewed now r else r) (ks_limits (snd acc))"
proof -
  have one: "lim_id r = lim_id l \<longleftrightarrow> r = l" if "r \<in> set (ks_limits (snd acc))" for r
    using assms that by (auto simp: distinct_map inj_on_def)
  show ?thesis
    using one by (auto simp: lazy_reset_step_def reset_limit_def Let_def update_where_def renewed_def intro!: map_idI [symmetric])
qed

lemma lazy_reset_rows:
  assumes "distinct (map lim_id (ks_limits (snd acc)))" "set ls \<subseteq> set (ks_limits (snd acc))" "distinct (map lim_id ls)"
  shows "ks_limits (snd (foldl (lazy_reset_step now) acc ls))
    = map (\<lambda>r. if lim_id r \<in> lim_id ` set ls \<and> lim_reset_at r < now then renewed now r else r) (ks_limits (snd acc))"
  using assms
proof (induction ls arbitrary: acc)
  case (Cons l ls)
  let ?a = "lazy_reset_step now acc l"
  have rows: "ks_limits (snd ?a)
      = map (\<lambda>r. if lim_id r = lim_id l \<and> lim_reset_at r < now then renewed now r else r) (ks_limits (snd acc))"
    using Cons.prems by (intro lazy_reset_step_rows) auto
  have ids: "map lim_id (ks_limits (snd ?a)) = map lim_id (ks_limits (snd acc))" by (simp add: rows)
  have "set ls \<subseteq> set (ks_limits (snd ?a))"
  proof
    fix r assume r: "r \<in> set ls"
    then have "lim_id r \<in> lim_id ` set ls" "r \<in> set (ks_limits (snd acc))" using Cons.prems(2) by auto
    moreover have "lim_id l \<notin> lim_id ` set ls" using Cons.prems(3) by simp
    ultimately have "lim_id r \<noteq> lim_id l" "r \<in> set (ks_limits (snd acc))" by auto
    then show "r \<in> set (ks_limits (snd ?a))" by (force simp: rows)
  qed
  then have "ks_limits (snd (foldl (lazy_reset_step now) ?a ls))
      = map (\<lambda>r. if lim_id r \<in> lim_id ` set ls \<and> lim_reset_at r < now then renewed now r else r) (ks_limits (snd ?a))"
    using Cons.prems(1,3) by (intro Cons.IH) (simp_all add: ids)
  moreover have "lim_id l \<notin> lim_id ` set ls" using Cons.prems(3) by simp
  ultimately show ?case by (simp add: rows) auto
qed simp

lemma refreshed_rows:
  assumes "distinct (map lim_id (ks_limits s))"
  shows "ks_limits (refreshed now i s)
    = map (\<lambda>r. if lim_api_key_id r = i \<and> lim_reset_at r < now then renewed now r else r) (ks_limits s)"
proof -
  have own: "lim_id r \<in> lim_id ` set (get_limits_by_key i s) \<longleftrightarrow> lim_api_key_id r = i" if "r \<in> set (ks_limits s)" for r
    using assms that by (auto simp: get_limits_by_key_def distinct_map inj_on_def)
  have "ks_limits (refreshed now i s)
    = map (\<lambda>r. if lim_id r \<in> lim_id ` set (get_limits_by_key i s) \<and> lim_reset_at r < now then renewed now r else r) (ks_limits s)"
    unfolding lazy_reset_expired_limits_def
    using lazy_reset_rows [of "(False, s)" "get_limits_by_key i s" now] assms
    by (simp add: get_limits_by_key_def distinct_map_filter)
  then show ?thesis using own by (simp cong: map_cong)
qed

lemma reserve_limits_admits:
  assumes "distinct (map lim_id (ks_limits s))" "set ls \<subseteq> set (ks_limits s)" "distinct (map lim_id ls)"
    and "\<And>l. l \<in> set ls \<Longrightarrow> limit_applies_for_request l (rq_model rq) \<Longrightarrow> lim_current_value l < lim_max_value l"
  shows "\<exists>r. reserve_limits rq ls items s = Inr r"
  using assms
proof (induction ls arbitrary: items s)
  case (Cons l ls)
  let ?d = "reserve_delta_for_limit l (rq_model rq) (rq_service_tier rq) (rq_budget rq)"
  let ?it = "reservation_item l ?d"
  have tail: "\<exists>r. reserve_limits rq ls items' s' = Inr r"
    if "ks_limits s' = map h (ks_limits s)" "\<And>r. lim_id (h r) = lim_id r" "\<And>r. lim_id r \<noteq> lim_id l \<Longrightarrow> h r = r" for items' s' h
  proof (rule Cons.IH)
    show "set ls \<subseteq> set (ks_limits s')"
    proof
      fix r assume "r \<in> set ls"
      then have "r \<in> set (ks_limits s)" "lim_id r \<in> lim_id ` set ls" using Cons.prems(2) by auto
      moreover have "lim_id l \<notin> lim_id ` set ls" using Cons.prems(3) by simp
      ultimately have "r \<in> set (ks_limits s)" "h r = r" using that(3) [of r] by metis+
      then show "r \<in> set (ks_limits s')" by (force simp: that(1))
    qed
  qed (use Cons.prems that(1,2) in \<open>simp_all add: comp_def\<close>)
  show ?case
  proof (cases "limit_applies_for_request l (rq_model rq) \<and> 0 < ?d")
    case True
    have "reserve_allowed (lim_id l) ?d (lim_reset_at l) l"
      using reserve_delta_fits [of l] Cons.prems(4) [of l] True by (simp add: reserve_allowed_def)
    then obtain s1 where t: "try_reserve_usage (lim_id l) ?d (lim_reset_at l) s = (True, s1)"
      using True Cons.prems(2) by (auto simp: try_reserve_usage_def list_ex_iff)
    have s1: "s1 = hold [?it] s"
      by (rule try_reserve_usage_ok(1) [OF t]) (use True Cons.prems(1) in \<open>simp_all add: reservation_item_def\<close>)
    have "\<exists>r. reserve_limits rq ls (items @ [?it]) s1 = Inr r"
      by (rule tail [where h = "bump [?it]"])
        (auto simp: s1 reservation_item_def bump_def item_matches_def)
    then show ?thesis using True t Cons.prems(4) [of l] by (simp add: Let_def)
  next
    case False
    then show ?thesis using tail [where h = id] Cons.prems(4) [of l] by (auto simp: Let_def)
  qed
qed simp

lemma reserve_limits_refuses:
  "reserve_limits rq ls items s = Inr r \<Longrightarrow> l \<in> set ls \<Longrightarrow> limit_applies_for_request l (rq_model rq)
     \<Longrightarrow> lim_current_value l < lim_max_value l"
  by (induction rq ls items s rule: reserve_limits.induct) (auto simp: Let_def split: if_splits prod.splits)

lemma advance_limit_reset_closed:
  "reset_at \<le> now \<Longrightarrow>
     advance_limit_reset reset_at now w
       = reset_at + limit_window_delta w * ((now - reset_at) div limit_window_delta w + 1)"
proof (induction reset_at now w rule: advance_limit_reset.induct)
  case (1 reset_at now w)
  let ?d = "limit_window_delta w"
  have d: "0 < ?d" by (rule limit_window_delta_pos)
  show ?case
  proof (cases "reset_at + ?d \<le> now")
    case True
    have "(now - (reset_at + ?d)) div ?d = (now - reset_at) div ?d - 1"
      using d div_add_self2 [of ?d "now - (reset_at + ?d)"] by (simp add: algebra_simps)
    then show ?thesis using 1 True by (subst advance_limit_reset.simps) (simp add: algebra_simps)
  next
    case False
    then have "(now - reset_at) div ?d = 0" using 1(2) by (intro div_pos_pos_trivial) simp_all
    then show ?thesis using 1(2) False by (simp add: advance_limit_reset.simps [of reset_at] advance_limit_reset.simps [of "reset_at + ?d"])
  qed
qed

section \<open>Properties\<close>

definition sample_limit :: "int \<Rightarrow> LimitType \<Rightarrow> int \<Rightarrow> int \<Rightarrow> ApiKeyLimit" where
  "sample_limit i ty mx v =
     \<lparr>lim_id = i, lim_api_key_id = ''k'', lim_type = ty, lim_window = DAILY, lim_max_value = mx,
      lim_current_value = v, lim_model_filter = None, lim_reset_at = 100\<rparr>"

definition sample_store :: KeyStore where
  "sample_store =
     \<lparr>ks_keys = [\<lparr>key_id = ''k'', key_hash = ''h'', key_is_active = True, key_expires_at = None, key_last_used_at = None\<rparr>],
      ks_limits = [sample_limit 1 INPUT_TOKENS 100 40, sample_limit 2 OUTPUT_TOKENS 50 0], ks_reservations = []\<rparr>"

definition sample_budget :: "ApiKeyRequestUsageBudget option" where
  "sample_budget = Some \<lparr>bud_input_tokens = Some 80, bud_output_tokens = Some 10\<rparr>"

definition sample_request :: KeyStore where
  "sample_request = snd (enforce_limits_for_request [NoFault] 50 ''r'' ''k'' None None sample_budget sample_store)"

definition sample_usage :: Settlement where
  "sample_usage = \<lparr>st_model = ''m'', st_input_tokens = Some 20, st_output_tokens = Some 70, st_cached_input_tokens = None,
     st_service_tier = None, st_status = ''finalized'', st_cost_override = Some 5\<rparr>"

lemma sample_request_eq:
  "sample_request = sample_store\<lparr>
     ks_limits := [sample_limit 1 INPUT_TOKENS 100 100, sample_limit 2 OUTPUT_TOKENS 50 10],
     ks_reservations :=
       [\<lparr>rsv_id = ''r'', rsv_api_key_id = ''k'', rsv_model = [], rsv_status = ''reserved'', rsv_input_tokens = None,
         rsv_output_tokens = None, rsv_cached_input_tokens = None, rsv_cost_microdollars = None, rsv_updated_at = 50,
         rsv_items =
           [\<lparr>it_limit_id = 1, it_limit_type = INPUT_TOKENS, it_reserved_delta = 60, it_expected_reset_at = 100, it_actual_delta = None\<rparr>,
            \<lparr>it_limit_id = 2, it_limit_type = OUTPUT_TOKENS, it_reserved_delta = 10, it_expected_reset_at = 100, it_actual_delta = None\<rparr>]\<rparr>]\<rparr>"
  by code_simp

lemma sample_fresh: "fresh_store sample_store" "id_free ''r'' sample_store"
  by (simp_all add: fresh_store_def sample_store_def sample_limit_def id_free_def)

lemma sample_step: "ledger_step sample_store sample_request"
  unfolding sample_request_def by (rule ledger_step.enforce [OF sample_fresh(2)])

lemma sample_inv: "ledger_inv sample_store" "ledger_inv sample_request"
  using key_ledger.start_inv [OF sample_fresh(1)] ledger_step_keeps [OF sample_step] by simp_all

lemma sample_valid: "valid_row 50 (get_by_id ''k'' sample_store) = Inr (hd (ks_keys sample_store))"
  by code_simp

text \<open>C4: However requests, settlements, releases, clean-ups and retries interleave, and even
  when a request works from limits it has read too early, no limit counts less than what its open
  reservations hold back, and these amounts are never negative. So the guarded decrements of a
  settlement always find enough.\<close>

theorem key_ledger_covers_reservations:
  assumes "fresh_store s" "ledger_step\<^sup>*\<^sup>* s t" "l \<in> set (ks_limits t)"
  shows "0 \<le> reserved_on (ks_reservations t) l \<and> reserved_on (ks_reservations t) l \<le> lim_current_value l"
proof -
  have "ledger_inv t" using key_ledger.reachable_inv [OF assms(1,2)] .
  then show ?thesis
    using assms(3) reserved_on_nonneg [of "ks_reservations t" "ks_limits t" l] by (simp add: ledger_inv_def used_def)
qed

theorem key_ledger_covers_reservations_witness:
  "reserved_on (ks_reservations sample_request) (sample_limit 1 INPUT_TOKENS 100 100) = 60
   \<and> reserved_on (ks_reservations sample_request) (sample_limit 1 INPUT_TOKENS 100 100) \<le> 100"
proof -
  have "sample_limit 1 INPUT_TOKENS 100 100 \<in> set (ks_limits sample_request)" by (simp add: sample_request_eq)
  from key_ledger_covers_reservations [OF sample_fresh(1) r_into_rtranclp [where r = ledger_step, OF sample_step] this]
  have "reserved_on (ks_reservations sample_request) (sample_limit 1 INPUT_TOKENS 100 100) \<le> 100"
    by (simp add: sample_limit_def)
  moreover have "reserved_on (ks_reservations sample_request) (sample_limit 1 INPUT_TOKENS 100 100) = 60" by code_simp
  ultimately show ?thesis by simp
qed

text \<open>On the ledger of used amounts a granted or refused request changes nothing, except that the
  expired limits of its key start their next window at zero.\<close>

lemma request_charges_nothing:
  assumes "ledger_inv s" "id_free rid s" "valid_row now (get_by_id i s) = Inr row"
  shows "ledger (snd (enforce_limits_for_request_once NoFault now rid i (request_context model tier budget) s))
    = map (\<lambda>l. if lim_api_key_id l = i \<and> lim_reset_at l < now
               then (lim_id l, advance_limit_reset (lim_reset_at l) now (lim_window l), 0)
               else (lim_id l, lim_reset_at l, used s l)) (ks_limits s)"
proof -
  let ?rq = "request_context model tier budget" and ?s = "refreshed now i s"
  have inv: "ledger_inv ?s" by (rule lazy_reset_inv [OF assms(1)])
  have rows: "ks_limits ?s = map (\<lambda>r. if lim_api_key_id r = i \<and> lim_reset_at r < now then renewed now r else r) (ks_limits s)"
    using assms(1) by (intro refreshed_rows) (simp add: ledger_inv_def)
  have zero: "used ?s (renewed now l) = 0" if "l \<in> set (ks_limits s)" "lim_reset_at l < now" for l
  proof -
    have "items_on (renewed now l) (open_items r) = 0" if "r \<in> set (ks_reservations s)" for r
      using assms(1) that \<open>l \<in> set (ks_limits s)\<close> \<open>lim_reset_at l < now\<close> advance_limit_reset_future [of now "lim_reset_at l" "lim_window l"]
      by (intro items_on_later [of "ks_limits s" _ l]) (auto simp: ledger_inv_def renewed_def)
    then show ?thesis by (simp add: used_def reserved_on_def cong: map_cong)
  qed
  have "ledger (snd (enforce_limits_for_request_once NoFault now rid i ?rq s)) = ledger ?s"
    using refreshed_reserve(2) [OF assms(1,2), of ?rq now i] assms(3)
    by (simp add: enforce_once_eq request_context_def normalized_budget_ok)
  then show ?thesis using zero by (simp add: ledger_def rows) (simp add: renewed_def used_def)
qed

text \<open>C18: Settling an open reservation charges the limits it names, in the windows they were
  reserved in, with the actual usage and gives back what was held; releasing it charges nothing.
  Either closes it: settling or releasing it again has no effect.\<close>

theorem settled_exactly_once:
  assumes "ledger_inv s" "settlement_ok st" "get_usage_reservation rid s = Some r" "rsv_status r = ''reserved''"
  shows "let s1 = snd (settle_reservation NoFault now rid st s); s2 = snd (release_usage_reservation_once NoFault now rid s)
    in ledger s1 = map (\<lambda>l. (lim_id l, lim_reset_at l, used s l + charge_on (actual_delta_of st) l (rsv_items r))) (ks_limits s)
       \<and> ledger s2 = ledger s
       \<and> settle_reservation NoFault now' rid st' s1 = (Inr (), s1) \<and> release_usage_reservation_once NoFault now' rid s1 = (Inr (), s1)
       \<and> settle_reservation NoFault now' rid st' s2 = (Inr (), s2) \<and> release_usage_reservation_once NoFault now' rid s2 = (Inr (), s2)"
proof -
  let ?s1 = "snd (settle_reservation NoFault now rid st s)" and ?s2 = "snd (release_usage_reservation_once NoFault now rid s)"
  have d: "distinct (map rsv_id (ks_reservations s))" using assms(1) by (simp add: ledger_inv_def)
  have id: "rsv_id r = rid" using get_usage_reservation_some [OF assms(3)] by simp
  have c1: "closes (actual_delta_of st) r s ?s1"
    using assms(2) by (intro settle_reservation_closes(2) [OF d assms(3,4)]) (simp add: settlement_ok_def)
  have c2: "closes (\<lambda>ty. 0) r s ?s2" by (rule release_once_closes [OF d assms(3,4)])
  have "ledger ?s1 = map (\<lambda>l. (lim_id l, lim_reset_at l, used s l + charge_on (actual_delta_of st) l (rsv_items r))) (ks_limits s)"
    by (rule closes_effect(2) [OF assms(1) c1 actual_delta_nonneg [OF assms(2)]])
  moreover have "ledger ?s2 = ledger s" using closes_effect(2) [OF assms(1) c2] by (simp add: ledger_def)
  ultimately show ?thesis
    using settle_not_open [OF closed_found [OF c1 id], of now' st'] settle_not_open [OF closed_found [OF c2 id], of now' st']
    unfolding Let_def by blast
qed

theorem settled_exactly_once_witness:
  "ledger (snd (settle_reservation NoFault 60 ''r'' sample_usage sample_request)) = [(1, 100, 60), (2, 100, 70)]
   \<and> ledger (snd (release_usage_reservation_once NoFault 60 ''r'' sample_request)) = [(1, 100, 40), (2, 100, 0)]"
proof -
  have "get_usage_reservation ''r'' sample_request = Some (hd (ks_reservations sample_request))"
    "rsv_status (hd (ks_reservations sample_request)) = ''reserved''"
    by (simp_all add: sample_request_eq get_usage_reservation_def)
  moreover have "settlement_ok sample_usage" by (simp add: settlement_ok_def sample_usage_def)
  ultimately have "ledger (snd (settle_reservation NoFault 60 ''r'' sample_usage sample_request))
      = map (\<lambda>l. (lim_id l, lim_reset_at l, used sample_request l
          + charge_on (actual_delta_of sample_usage) l (rsv_items (hd (ks_reservations sample_request))))) (ks_limits sample_request)
    \<and> ledger (snd (release_usage_reservation_once NoFault 60 ''r'' sample_request)) = ledger sample_request"
    using settled_exactly_once [OF sample_inv(2), of sample_usage "''r''" "hd (ks_reservations sample_request)" 60 70 sample_usage]
    by (simp add: Let_def)
  moreover have "map (\<lambda>l. (lim_id l, lim_reset_at l, used sample_request l
      + charge_on (actual_delta_of sample_usage) l (rsv_items (hd (ks_reservations sample_request))))) (ks_limits sample_request)
    = [(1, 100, 60), (2, 100, 70)]" "ledger sample_request = [(1, 100, 40), (2, 100, 0)]"
    by (simp_all add: ledger_def sample_request_eq sample_limit_def used_def reserved_on_def open_items_def item_matches_def
        actual_delta_of_def compute_increment_for_limit_type_def sample_usage_def)
  ultimately show ?thesis by simp
qed

text \<open>C17: A request is granted exactly when the key is valid and every limit that applies to its
  model has something left, an expired limit counting as unused.\<close>

theorem admission_exact:
  assumes "distinct (map lim_id (ks_limits s))"
  shows "(\<exists>d. fst (enforce_limits_for_request_once NoFault now rid i (request_context model tier budget) s) = Inr d)
    \<longleftrightarrow> (\<exists>row. valid_row now (get_by_id i s) = Inr row)
      \<and> (\<forall>l. l \<in> set (get_limits_by_key i s) \<and> limit_applies_for_request l model
              \<longrightarrow> (if lim_reset_at l < now then 0 else lim_current_value l) < lim_max_value l)"
proof -
  let ?rq = "request_context model tier budget" and ?s = "refreshed now i s"
  have rows: "ks_limits ?s = map (\<lambda>r. if lim_api_key_id r = i \<and> lim_reset_at r < now then renewed now r else r) (ks_limits s)"
    by (rule refreshed_rows [OF assms])
  have dist: "distinct (map lim_id (ks_limits ?s))" using assms by (simp add: rows comp_def if_distrib cong: if_cong)
  have own: "get_limits_by_key i ?s = map (\<lambda>r. if lim_reset_at r < now then renewed now r else r) (get_limits_by_key i s)"
    unfolding get_limits_by_key_def rows [unfolded get_limits_by_key_def] by (simp add: filter_map comp_def) (auto intro!: map_cong filter_cong)
  have "(\<exists>r. reserve_limits ?rq (get_limits_by_key i ?s) [] ?s = Inr r)
    \<longleftrightarrow> (\<forall>l \<in> set (get_limits_by_key i ?s). limit_applies_for_request l model \<longrightarrow> lim_current_value l < lim_max_value l)"
    (is "?ok \<longleftrightarrow> ?free")
  proof
    show "?ok \<Longrightarrow> ?free" using reserve_limits_refuses [of ?rq] by (auto simp: request_context_def)
    show "?free \<Longrightarrow> ?ok"
      using dist by (intro reserve_limits_admits) (auto simp: request_context_def get_limits_by_key_def distinct_map_filter)
  qed
  also have "?free \<longleftrightarrow> (\<forall>l. l \<in> set (get_limits_by_key i s) \<and> limit_applies_for_request l model
      \<longrightarrow> (if lim_reset_at l < now then 0 else lim_current_value l) < lim_max_value l)"
    unfolding own set_map ball_simps(9) by (auto split: if_splits)
  finally show ?thesis
    by (auto simp: enforce_once_eq reserve_for_request_def split: sum.split)
qed

theorem admission_exact_witness:
  "(\<exists>d. fst (enforce_limits_for_request_once NoFault 50 ''r'' ''k'' (request_context None None sample_budget) sample_store) = Inr d)
   \<and> (\<nexists>d. fst (enforce_limits_for_request_once NoFault 50 ''r2'' ''k'' (request_context None None sample_budget) sample_request) = Inr d)"
proof -
  have "distinct (map lim_id (ks_limits sample_store))" "distinct (map lim_id (ks_limits sample_request))"
    using sample_inv by (simp_all add: ledger_inv_def)
  note exact = admission_exact [OF this(1)] admission_exact [OF this(2)]
  have "\<exists>row. valid_row 50 (get_by_id ''k'' sample_store) = Inr row" using sample_valid by blast
  then have "\<exists>d. fst (enforce_limits_for_request_once NoFault 50 ''r'' ''k'' (request_context None None sample_budget) sample_store) = Inr d"
    unfolding exact(1) by (auto simp: sample_store_def sample_limit_def get_limits_by_key_def)
  moreover have "sample_limit 1 INPUT_TOKENS 100 100 \<in> set (get_limits_by_key ''k'' sample_request)"
    by (simp add: sample_request_eq get_limits_by_key_def sample_limit_def)
  then have "\<nexists>d. fst (enforce_limits_for_request_once NoFault 50 ''r2'' ''k'' (request_context None None sample_budget) sample_request) = Inr d"
    unfolding exact(2) by (force simp: sample_limit_def limit_applies_for_request_def)
  ultimately show ?thesis by (rule conjI)
qed

text \<open>What a granted request holds back fits into the limit, whatever limits the request had read: the
  reservation has one item per limit that applies, and a row it increases stays within its maximum.\<close>

lemma reservation_within_limit:
  assumes "distinct (map lim_id (ks_limits s))"
    and "reserve_for_request now rid i (request_context model tier budget) limits s = (Inr d, s')"
  shows "\<exists>items. ks_reservations s' = ks_reservations s
      @ [\<lparr>rsv_id = rid, rsv_api_key_id = i, rsv_model = default_to model [], rsv_status = ''reserved'', rsv_input_tokens = None,
          rsv_output_tokens = None, rsv_cached_input_tokens = None, rsv_cost_microdollars = None,
          rsv_updated_at = now, rsv_items = items\<rparr>]
    \<and> map it_limit_id items = map lim_id (filter (\<lambda>l. limit_applies_for_request l model) limits)
    \<and> (\<forall>l' \<in> set (ks_limits s'). l' \<in> set (ks_limits s) \<or> lim_current_value l' \<le> lim_max_value l')"
proof -
  let ?rq = "request_context model tier budget"
  obtain items s1 where res: "reserve_limits ?rq limits [] s = Inr (items, s1)"
    and s': "s' = create_usage_reservation now rid i (default_to model []) items s1"
    using assms(2) by (auto simp: reserve_for_request_def request_context_def split: sum.splits)
  have b: "budget_ok (rq_budget ?rq)" by (simp add: request_context_def normalized_budget_ok)
  have s1: "s1 = hold items s" and new: "reserves ?rq limits s items"
    using reserve_limits_ok [OF res assms(1) b] by auto
  have "map it_limit_id items = map lim_id (filter (\<lambda>l. limit_applies_for_request l model) limits)"
  proof -
    have "map fst (map (\<lambda>it. (it_limit_id it, it_expected_reset_at it)) items)
        = map fst (map (\<lambda>l. (lim_id l, lim_reset_at l)) (filter (\<lambda>l. limit_applies_for_request l model) limits))"
      using new by (simp only: reserves_def request_context_def RequestContext.simps)
    then show ?thesis by (simp add: comp_def)
  qed
  moreover have "l' \<in> set (ks_limits s) \<or> lim_current_value l' \<le> lim_max_value l'" if "l' \<in> set (ks_limits s')" for l'
  proof -
    obtain l where l: "l \<in> set (ks_limits s)" "l' = bump items l"
      using \<open>l' \<in> set (ks_limits s')\<close> by (auto simp: s' create_usage_reservation_def s1)
    have "0 \<le> items_on l items" using new by (auto simp: reserves_def items_on_def intro!: sum_list_nonneg)
    then consider "items_on l items = 0" | "0 < items_on l items" by linarith
    then show ?thesis
    proof cases
      case 1
      then show ?thesis using l by (simp add: bump_def)
    next
      case 2
      then show ?thesis using l new by (simp add: reserves_def)
    qed
  qed
  ultimately show ?thesis by (intro exI [of _ items]) (simp add: s' create_usage_reservation_def s1)
qed

text \<open>The hourly clean-up ends, and leaves no limit whose window is over and no open
  reservation that was not touched for six hours. It takes nothing from the used amounts of the
  windows that are not over.\<close>

lemma clean_up_complete:
  "(\<nexists>l. l \<in> set (ks_limits (reset_as_leader now s)) \<and> lim_reset_at l < now)
   \<and> (\<nexists>r. r \<in> set (ks_reservations (reset_as_leader now s)) \<and> rsv_status r = ''reserved''
          \<and> rsv_updated_at r < now - hours 6)"
proof -
  let ?s1 = "snd (reset_expired_limits now 0 s)"
  have "\<not> lim_reset_at l < now" if "l \<in> set (ks_limits (reset_as_leader now s))" for l
  proof -
    have "lim_reset_at l \<in> set (map lim_reset_at (ks_limits ?s1))"
      using imageI [OF that, of lim_reset_at]
      unfolding reset_as_leader_def set_map [symmetric] release_stale_resets .
    then show ?thesis using reset_expired_none_left [of _ now 0 s] by fastforce
  qed
  then show ?thesis
    using release_stale_none_left [of 500 _ now "now - STALE_USAGE_RESERVATION_AGE" 0 ?s1]
    by (fastforce simp: reset_as_leader_def is_stale_reservation_def STALE_USAGE_RESERVATION_AGE_def)
qed

text \<open>(functional) The next window of an expired limit is on the grid of its own resets: the first reset
  time after now, a whole number of windows after the old one.\<close>

lemma next_window_on_grid:
  "let d = limit_window_delta w; n = advance_limit_reset reset_at now w
   in if now < reset_at then n = reset_at
      else now < n \<and> n \<le> now + d \<and> d dvd n - reset_at"
proof (cases "now < reset_at")
  case False
  let ?d = "limit_window_delta w" and ?n = "advance_limit_reset reset_at now w"
  have d: "0 < ?d" by (rule limit_window_delta_pos)
  have n: "?n = reset_at + ?d * ((now - reset_at) div ?d + 1)" using False by (intro advance_limit_reset_closed) simp
  have "?d * ((now - reset_at) div ?d) \<le> now - reset_at" 
    using d pos_mod_sign [of ?d "now - reset_at"] mult_div_mod_eq [of ?d "now - reset_at"] by linarith
  then have "?n \<le> now + ?d" by (simp add: n algebra_simps)
  moreover have "?d dvd ?n - reset_at" by (simp add: n)
  ultimately show ?thesis using False advance_limit_reset_future [of now reset_at w] by (simp add: Let_def)
qed (simp add: Let_def advance_limit_reset.simps)

text \<open>A settlement that meets a locked database is tried four times in all: up to three
  locked attempts change nothing and the next one settles; the fourth failure is reported. The
  fallback after the loop is never reached.\<close>

lemma settle_retries_locked:
  assumes "\<And>f. f \<in> set locked \<Longrightarrow> \<exists>n. f = Fault True n"
  shows "finalize_usage_reservation (locked @ NoFault # rest) now rid model inp out cached tier cost s
    = (if length locked < 4
       then finalize_usage_reservation [NoFault] now rid model inp out cached tier cost s
       else (Inl (OperationalError True), s))"
proof -
  let ?st = "\<lparr>st_model = model, st_input_tokens = Some inp, st_output_tokens = Some out,
    st_cached_input_tokens = Some cached, st_service_tier = tier, st_status = ''finalized'', st_cost_override = cost\<rparr>"
  let ?once = "\<lambda>fault. settle_reservation fault now rid ?st"
  have locked: "?once f s = (Inl (OperationalError True), s)" if "f \<in> set locked" for f
    using assms [OF that] by (auto simp: settle_reservation_def)
  show ?thesis
  proof (cases "length locked < 4")
    case True
    then have "take 4 (locked @ NoFault # rest) = locked @ NoFault # take (3 - length locked) rest"
      by (simp add: take_Cons' diff_diff_left)
    then show ?thesis
      using busy_retry_locked [of locked ?once s, OF locked] busy_retry_settled [of _ now rid ?st s]
      by (simp add: True finalize_usage_reservation_def SQLITE_BUSY_RETRY_ATTEMPTS_def del: busy_retry.simps)
  next
    case False
    then have "take 4 (locked @ NoFault # rest) = take 4 locked" "take 4 locked \<noteq> []" by auto
    then show ?thesis
      using False locked busy_retry_all_locked [of "take 4 locked" ?once s]
      by (auto simp: finalize_usage_reservation_def SQLITE_BUSY_RETRY_ATTEMPTS_def dest: in_set_takeD)
  qed
qed

end
