(* ===== verification/Sticky_Select.thy ===== *)
theory Sticky_Select
  imports Budget_Select Sticky_Sessions
begin

text \<open>
  Selection for a client key that may be pinned to an account, after \<open>_select_with_stickiness\<close> of
  \<open>codex-lb/app/modules/proxy/load_balancer.py\<close>.

  The function reads and writes the sticky rows and calls the selector up to five times on the same
  state objects, so it is an operation on a run: the states, the salts of the selector and the rows.
  An account has one state (the identifier is the primary key of the row it is built from), so the
  pinned state object is the one with its identifier. Every call of the selector and every reading
  of a clock has its own argument in the environment. The rows are not written by anybody else during a call; they may
  have been since the caller looked the key up.
\<close>

section \<open>Runs\<close>

record StickyRun =
  run_states :: "AccountState list"
  run_salts :: ReplicaSalt
  run_rows :: "StickySession list"

type_synonym 'a sticky_op = "StickyRun \<Rightarrow> 'a result \<times> StickyRun"

definition op_return :: "'a \<Rightarrow> 'a sticky_op" where
  "op_return x = (\<lambda>run. (Inr x, run))"

definition op_raise :: "py_error \<Rightarrow> 'a sticky_op" where
  "op_raise e = (\<lambda>run. (Inl e, run))"

definition op_bind :: "'a sticky_op \<Rightarrow> ('a \<Rightarrow> 'b sticky_op) \<Rightarrow> 'b sticky_op" where
  "op_bind m f = (\<lambda>run. case m run of (r, run1) \<Rightarrow> (case r of Inl e \<Rightarrow> (Inl e, run1) | Inr x \<Rightarrow> f x run1))"

definition op_select :: "SelectEnv \<Rightarrow> SelectArgs \<Rightarrow> (AccountState \<Rightarrow> bool) \<Rightarrow> SelectionResult sticky_op" where
  "op_select env args P =
     (\<lambda>run. case select_among env args P (run_states run) (run_salts run) of
              (r, states, salts) \<Rightarrow> (r, run\<lparr>run_states := states, run_salts := salts\<rparr>))"

definition op_budget :: "(nat \<Rightarrow> SelectEnv) \<Rightarrow> BudgetArgs \<Rightarrow> SelectionResult sticky_op" where
  "op_budget envs b =
     (\<lambda>run. case select_account_preferring_budget_safe envs b (run_states run) (run_salts run) of
              (r, states, salts) \<Rightarrow> (r, run\<lparr>run_states := states, run_salts := salts\<rparr>))"

text \<open>A selection on a copy of one state leaves the states alone.\<close>

definition op_select_copy :: "SelectEnv \<Rightarrow> SelectArgs \<Rightarrow> pyfloat \<Rightarrow> AccountState \<Rightarrow> SelectionResult sticky_op" where
  "op_select_copy env args now st =
     (\<lambda>run. case select_account env args (Some now) [st] (run_salts run) of
              (r, states, salts) \<Rightarrow> (r, run\<lparr>run_salts := salts\<rparr>))"

definition op_upsert :: "int \<Rightarrow> string set \<Rightarrow> string \<Rightarrow> string \<Rightarrow> StickySessionKind \<Rightarrow> unit sticky_op" where
  "op_upsert now accounts key i kind =
     (\<lambda>run. case upsert now accounts key i kind (run_rows run) of
              Inl e \<Rightarrow> (Inl e, run) | Inr rows \<Rightarrow> (Inr (), run\<lparr>run_rows := rows\<rparr>))"

definition op_delete :: "string \<Rightarrow> StickySessionKind \<Rightarrow> unit sticky_op" where
  "op_delete key kind = (\<lambda>run. (Inr (), run\<lparr>run_rows := snd (delete_entry key kind (run_rows run))\<rparr>))"

definition op_existing :: "int \<Rightarrow> string \<Rightarrow> StickySessionKind \<Rightarrow> int option \<Rightarrow> string option sticky_op" where
  "op_existing now key kind max_age =
     (\<lambda>run. case get_account_id now key kind max_age (run_rows run) of (i, rows) \<Rightarrow> (Inr i, run\<lparr>run_rows := rows\<rparr>))"

definition op_states :: "(AccountState list \<Rightarrow> 'a) \<Rightarrow> 'a sticky_op" where
  "op_states f = (\<lambda>run. (Inr (f (run_states run)), run))"

section \<open>Arguments\<close>

text \<open>\<open>sk_existing\<close> is \<open>None\<close> when the caller has not looked the key up, and otherwise what it found.\<close>

record StickyArgs =
  sk_key :: "string option"
  sk_kind :: "StickySessionKind option"
  sk_reallocate :: bool
  sk_max_age_seconds :: "int option"
  sk_existing :: "string option option"
  sk_budget :: BudgetArgs

record StickyEnv =
  se_utcnow :: int
  se_db_now :: int
  se_accounts :: "string set"
  se_time :: pyfloat
  se_grace_time :: pyfloat
  se_burn :: SelectEnv
  se_pinned :: SelectEnv
  se_pool :: "nat \<Rightarrow> SelectEnv"
  se_pinned_again :: SelectEnv
  se_grace :: SelectEnv
  se_choose :: "nat \<Rightarrow> SelectEnv"

definition STICKY_GRACE_PERIOD_SECONDS :: pyfloat where
  "STICKY_GRACE_PERIOD_SECONDS = 10"

definition RECOVERABLE_STATUSES :: "AccountStatus list" where
  "RECOVERABLE_STATUSES = [ACTIVE, RATE_LIMITED, QUOTA_EXCEEDED]"

text \<open>The arguments of the single calls of the selector.\<close>

definition burn_probe_args :: "SelectArgs \<Rightarrow> SelectArgs" where
  "burn_probe_args a =
     default_args\<lparr>prefer_earlier_reset := prefer_earlier_reset a, routing_strategy := routing_strategy a,
       allow_backoff_fallback := False, deterministic_probe := True,
       relative_availability_power := relative_availability_power a,
       relative_availability_top_k := relative_availability_top_k a, traffic_class := traffic_class a,
       args_ignore_standard_quota := args_ignore_standard_quota a\<rparr>"

definition pinned_args :: "SelectArgs \<Rightarrow> SelectArgs" where
  "pinned_args a =
     default_args\<lparr>prefer_earlier_reset := prefer_earlier_reset a,
       prefer_earlier_reset_window := prefer_earlier_reset_window a, routing_strategy := routing_strategy a,
       allow_backoff_fallback := False, relative_availability_power := relative_availability_power a,
       relative_availability_top_k := relative_availability_top_k a, traffic_class := traffic_class a,
       args_ignore_standard_quota := args_ignore_standard_quota a, routing_costs := routing_costs a\<rparr>"

definition choose_args :: "bool \<Rightarrow> BudgetArgs \<Rightarrow> BudgetArgs" where
  "choose_args apply_secondary b =
     b\<lparr>base_args := (base_args b)\<lparr>allow_backoff_fallback := True, deterministic_probe := False\<rparr>,
       apply_secondary_budget_threshold := apply_secondary\<rparr>"

definition pool_args :: "BudgetArgs \<Rightarrow> BudgetArgs" where
  "pool_args b =
     b\<lparr>base_args := (base_args b)\<lparr>allow_backoff_fallback := True, deterministic_probe := True\<rparr>,
       apply_secondary_budget_threshold := True\<rparr>"

section \<open>The pinned account\<close>

definition budget_pressured :: "StickyArgs \<Rightarrow> AccountState \<Rightarrow> bool" where
  "budget_pressured a pinned =
     (sk_kind a \<in> {Some PROMPT_CACHE, Some STICKY_THREAD, Some CODEX_SESSION}
      \<and> routing_strategy (base_args (sk_budget a)) \<notin> {sequential_drain, reset_drain, single_account}
      \<and> status pinned \<noteq> RATE_LIMITED
      \<and> above_sticky_budget_threshold (budget_threshold_pct (sk_budget a))
          (Some (secondary_budget_threshold_pct (sk_budget a))) pinned)"

definition rate_limit_far_away :: "pyfloat \<Rightarrow> StickyArgs \<Rightarrow> AccountState \<Rightarrow> bool" where
  "rate_limit_far_away now a pinned =
     (sk_kind a = Some PROMPT_CACHE \<and> status pinned = RATE_LIMITED
      \<and> (case reset_at pinned of None \<Rightarrow> False | Some r \<Rightarrow> r - now \<ge> 600))"

definition is_burn_first :: "AccountState \<Rightarrow> bool" where
  "is_burn_first st = (routing_policy st = ROUTING_POLICY_BURN_FIRST)"

definition burn_first_reallocate :: "StickyEnv \<Rightarrow> StickyArgs \<Rightarrow> AccountState \<Rightarrow> bool sticky_op" where
  "burn_first_reallocate env a pinned =
     (if is_burn_first pinned then op_return False
      else op_bind (op_states (list_ex is_burn_first))
        (\<lambda>some. if some
                then op_bind (op_select (se_burn env) (burn_probe_args (base_args (sk_budget a))) is_burn_first)
                       (\<lambda>r. op_return (account r \<noteq> None))
                else op_return True))"

definition keep_pin :: "StickyEnv \<Rightarrow> StickyArgs \<Rightarrow> string \<Rightarrow> StickySessionKind \<Rightarrow> string \<Rightarrow> unit sticky_op" where
  "keep_pin env a key kind i =
     (if sk_max_age_seconds a \<noteq> None then op_upsert (se_db_now env) (se_accounts env) key i kind else op_return ())"

text \<open>A result with an account refreshes the pin and is returned; otherwise the search goes on.\<close>

definition if_served ::
  "StickyEnv \<Rightarrow> StickyArgs \<Rightarrow> string \<Rightarrow> StickySessionKind \<Rightarrow> string \<Rightarrow> SelectionResult \<Rightarrow> SelectionResult option sticky_op" where
  "if_served env a key kind i r =
     (if account r \<noteq> None then op_bind (keep_pin env a key kind i) (\<lambda>u. op_return (Some r)) else op_return None)"

definition serve_pinned ::
  "SelectEnv \<Rightarrow> StickyEnv \<Rightarrow> StickyArgs \<Rightarrow> string \<Rightarrow> StickySessionKind \<Rightarrow> string \<Rightarrow> SelectionResult option sticky_op" where
  "serve_pinned call env a key kind i =
     op_bind (op_select call (pinned_args (base_args (sk_budget a))) (\<lambda>st. account_id st = i)) (if_served env a key kind i)"

text \<open>How the pinned account has been dealt with: it serves, or the search goes on, with the two flags
  \<open>reallocate_sticky\<close> and \<open>apply_sticky_secondary_budget_threshold\<close>.\<close>

datatype pin_outcome = Served SelectionResult | GoOn (po_reallocate: bool) (po_secondary: bool)

definition served_or :: "bool \<Rightarrow> bool \<Rightarrow> SelectionResult option \<Rightarrow> pin_outcome sticky_op" where
  "served_or reallocate secondary r = op_return (case r of Some x \<Rightarrow> Served x | None \<Rightarrow> GoOn reallocate secondary)"

definition pool_also_exhausted :: "StickyArgs \<Rightarrow> string \<Rightarrow> SelectionResult \<Rightarrow> bool" where
  "pool_also_exhausted a i pool_best =
     (case account pool_best of
        None \<Rightarrow> False
      | Some st \<Rightarrow> account_id st = i
          \<or> above_sticky_budget_threshold (budget_threshold_pct (sk_budget a))
              (Some (secondary_budget_threshold_pct (sk_budget a))) st)"

definition leave_pressured ::
  "StickyEnv \<Rightarrow> StickyArgs \<Rightarrow> string \<Rightarrow> StickySessionKind \<Rightarrow> string \<Rightarrow> pin_outcome sticky_op" where
  "leave_pressured env a key kind i =
     op_bind (op_budget (se_pool env) (pool_args (sk_budget a)))
       (\<lambda>pool_best.
          if pool_also_exhausted a i pool_best
          then op_bind (serve_pinned (se_pinned_again env) env a key kind i) (served_or True True)
          else op_return (GoOn True True))"

definition try_pinned ::
  "StickyEnv \<Rightarrow> StickyArgs \<Rightarrow> string \<Rightarrow> StickySessionKind \<Rightarrow> string \<Rightarrow> AccountState \<Rightarrow> pin_outcome sticky_op" where
  "try_pinned env a key kind i pinned =
     op_bind (burn_first_reallocate env a pinned)
       (\<lambda>burn.
          if \<not> ((budget_pressured a pinned \<or> rate_limit_far_away (se_time env) a pinned) \<and> burn)
          then op_bind (serve_pinned (se_pinned env) env a key kind i) (served_or (sk_reallocate a) False)
          else if budget_pressured a pinned then leave_pressured env a key kind i
          else op_return (GoOn True False))"

definition grace ::
  "StickyEnv \<Rightarrow> StickyArgs \<Rightarrow> string \<Rightarrow> StickySessionKind \<Rightarrow> string \<Rightarrow> AccountState \<Rightarrow> SelectionResult option sticky_op" where
  "grace env a key kind i pinned =
     op_bind (op_select_copy (se_grace env) (pinned_args (base_args (sk_budget a)))
                (se_grace_time env + STICKY_GRACE_PERIOD_SECONDS) pinned)
       (if_served env a key kind i)"

text \<open>What becomes of the pin when the account did not serve; the result is \<open>persist_fallback\<close>.\<close>

definition loosen_pin :: "StickyArgs \<Rightarrow> string \<Rightarrow> StickySessionKind \<Rightarrow> bool \<Rightarrow> AccountState \<Rightarrow> bool sticky_op" where
  "loosen_pin a key kind reallocate pinned =
     (if reallocate then op_bind (op_delete key kind) (\<lambda>u. op_return True)
      else if status pinned \<notin> set RECOVERABLE_STATUSES then op_return True
      else op_return (sk_max_age_seconds a = None))"

definition the_pinned :: "string \<Rightarrow> AccountState list \<Rightarrow> AccountState option" where
  "the_pinned i states = List.find (\<lambda>st. account_id st = i) states"

text \<open>The whole treatment of a pin: the account serves, or the flags \<open>persist_fallback\<close> and
  \<open>apply_sticky_secondary_budget_threshold\<close> of the search.\<close>

datatype pin_result = Stay SelectionResult | Search (pr_persist: bool) (pr_secondary: bool)

definition after_pinned ::
  "StickyEnv \<Rightarrow> StickyArgs \<Rightarrow> string \<Rightarrow> StickySessionKind \<Rightarrow> string \<Rightarrow> pin_outcome \<Rightarrow> pin_result sticky_op" where
  "after_pinned env a key kind i out =
     (case out of
        Served r \<Rightarrow> op_return (Stay r)
      | GoOn reallocate secondary \<Rightarrow>
          op_bind (op_states (the_pinned i))
            (\<lambda>p. case p of
                   None \<Rightarrow> op_return (Search True secondary)
                 | Some pinned \<Rightarrow>
                     op_bind (if \<not> reallocate \<and> status pinned = RATE_LIMITED then grace env a key kind i pinned
                              else op_return None)
                       (\<lambda>r. case r of
                              Some x \<Rightarrow> op_return (Stay x)
                            | None \<Rightarrow> op_bind (loosen_pin a key kind reallocate pinned)
                                        (\<lambda>persist. op_return (Search persist secondary)))))"

definition handle_pin ::
  "StickyEnv \<Rightarrow> StickyArgs \<Rightarrow> string \<Rightarrow> StickySessionKind \<Rightarrow> string option \<Rightarrow> pin_result sticky_op" where
  "handle_pin env a key kind existing =
     (case existing of
        None \<Rightarrow> op_return (Search True False)
      | Some i \<Rightarrow>
          if i = [] then op_return (Search True False)
          else op_bind (op_states (the_pinned i))
                 (\<lambda>p. case p of
                        None \<Rightarrow> op_bind (op_delete key kind) (\<lambda>u. op_return (Search True False))
                      | Some pinned \<Rightarrow> op_bind (try_pinned env a key kind i pinned) (after_pinned env a key kind i)))"

section \<open>The selection\<close>

definition persist_choice ::
  "StickyEnv \<Rightarrow> string set \<Rightarrow> string \<Rightarrow> StickySessionKind \<Rightarrow> bool \<Rightarrow> SelectionResult \<Rightarrow> SelectionResult sticky_op" where
  "persist_choice env account_map key kind persist chosen =
     (case account chosen of
        None \<Rightarrow> op_return chosen
      | Some st \<Rightarrow>
          if persist \<and> account_id st \<in> account_map
          then op_bind (op_upsert (se_db_now env) (se_accounts env) key (account_id st) kind) (\<lambda>u. op_return chosen)
          else op_return chosen)"

definition search_pool ::
  "StickyEnv \<Rightarrow> StickyArgs \<Rightarrow> string set \<Rightarrow> string \<Rightarrow> StickySessionKind \<Rightarrow> pin_result \<Rightarrow> SelectionResult sticky_op" where
  "search_pool env a account_map key kind out =
     (case out of
        Stay r \<Rightarrow> op_return r
      | Search persist secondary \<Rightarrow>
          op_bind (op_budget (se_choose env) (choose_args secondary (sk_budget a)))
            (persist_choice env account_map key kind persist))"

definition look_up_pin :: "StickyEnv \<Rightarrow> StickyArgs \<Rightarrow> string \<Rightarrow> StickySessionKind \<Rightarrow> string option sticky_op" where
  "look_up_pin env a key kind =
     (case sk_existing a of
        None \<Rightarrow> op_existing (se_utcnow env) key kind (sk_max_age_seconds a)
      | Some existing \<Rightarrow> op_return existing)"

definition select_with_stickiness :: "StickyEnv \<Rightarrow> StickyArgs \<Rightarrow> string set \<Rightarrow> SelectionResult sticky_op" where
  "select_with_stickiness env a account_map =
     (case sk_key a of
        None \<Rightarrow> op_budget (se_choose env) ((choose_args False (sk_budget a))\<lparr>secondary_budget_threshold_pct := 100\<rparr>)
      | Some key \<Rightarrow>
          if key = []
          then op_budget (se_choose env) ((choose_args False (sk_budget a))\<lparr>secondary_budget_threshold_pct := 100\<rparr>)
          else (case sk_kind a of
                  None \<Rightarrow> op_raise ValueError
                | Some kind \<Rightarrow>
                    op_bind (look_up_pin env a key kind)
                      (\<lambda>existing. op_bind (handle_pin env a key kind existing) (search_pool env a account_map key kind))))"

section \<open>Specification\<close>

text \<open>The clocks at which a returned account was admitted.\<close>

definition sticky_clocks :: "StickyEnv \<Rightarrow> pyfloat set" where
  "sticky_clocks env =
     {current_time (se_pinned env) None, current_time (se_pinned_again env) None,
      current_time (se_grace env) (Some (se_grace_time env + STICKY_GRACE_PERIOD_SECONDS))}
     \<union> range (\<lambda>j. current_time (se_choose env j) None)"

definition admitted :: "StickyEnv \<Rightarrow> StickyArgs \<Rightarrow> AccountState \<Rightarrow> bool" where
  "admitted env a st = (\<exists>c \<in> sticky_clocks env. may_serve c (call_args (sk_budget a)) st)"

definition pins :: "string \<Rightarrow> StickySessionKind \<Rightarrow> string \<Rightarrow> StickySession list \<Rightarrow> bool" where
  "pins key kind i rows = (\<exists>row. get_entry key kind rows = Some row \<and> ss_account_id row = i)"

text \<open>The caller has looked the key up before, and the account it found is not the one the row names now.\<close>

definition stale_pin :: "StickyArgs \<Rightarrow> string \<Rightarrow> StickySessionKind \<Rightarrow> StickySession list \<Rightarrow> string \<Rightarrow> bool" where
  "stale_pin a key kind rows i = (sk_existing a = Some (Some i) \<and> \<not> pins key kind i rows)"

text \<open>Only the row of the key has changed, and there is still one row per key and kind.\<close>

definition only_key :: "string \<Rightarrow> StickySessionKind \<Rightarrow> StickySession list \<Rightarrow> StickySession list \<Rightarrow> bool" where
  "only_key key kind rows rows' =
     (filter (\<lambda>r. sticky_id r \<noteq> (key, kind)) rows' = filter (\<lambda>r. sticky_id r \<noteq> (key, kind)) rows
      \<and> (distinct (map sticky_id rows) \<longrightarrow> distinct (map sticky_id rows')))"

text \<open>Weakest preconditions: the operation returns, and with a value and a run that satisfy \<open>Q\<close>.\<close>

definition wp :: "'a sticky_op \<Rightarrow> ('a \<Rightarrow> StickyRun \<Rightarrow> bool) \<Rightarrow> StickyRun \<Rightarrow> bool" where
  "wp m Q run = (case m run of (r, run') \<Rightarrow> (case r of Inl e \<Rightarrow> False | Inr x \<Rightarrow> Q x run'))"

section \<open>Rows\<close>

lemma only_key_refl [simp]: "only_key key kind rows rows"
  by (simp add: only_key_def)

lemma only_key_trans: "only_key key kind r1 r2 \<Longrightarrow> only_key key kind r2 r3 \<Longrightarrow> only_key key kind r1 r3"
  by (simp add: only_key_def)

lemma delete_only_key: "only_key key kind rows (snd (delete_entry key kind rows))"
  by (simp add: only_key_def delete_entry_def distinct_map_filter)

lemma sticky_id_update [simp]: "sticky_id (r\<lparr>ss_account_id := i, ss_updated_at := t\<rparr>) = sticky_id r"
  by (simp add: sticky_id_def)

lemma find_updated:
  assumes "list_ex P rows" "\<And>r. P r \<Longrightarrow> P (f r)"
  shows "\<exists>r. List.find P (update_where P f rows) = Some (f r)"
  using assms(1)
proof (induction rows)
  case (Cons x xs)
  then show ?case using assms(2) by (cases "P x") (auto simp: update_where_def)
qed simp

lemma upsert_ok:
  assumes "i \<in> accounts"
  obtains rows' where "upsert now accounts key i kind rows = Inr rows'"
    "only_key key kind rows rows'" "key \<noteq> [] \<Longrightarrow> pins key kind i rows'"
proof (cases "list_ex (\<lambda>r. sticky_id r = (key, kind)) rows")
  case True
  let ?rows = "update_where (\<lambda>r. sticky_id r = (key, kind)) (\<lambda>r. r\<lparr>ss_account_id := i, ss_updated_at := now\<rparr>) rows"
  have "map sticky_id ?rows = map sticky_id rows" by (simp add: update_where_def)
  moreover have "filter (\<lambda>r. sticky_id r \<noteq> (key, kind)) ?rows = filter (\<lambda>r. sticky_id r \<noteq> (key, kind)) rows"
    by (induction rows) (simp_all add: update_where_def)
  ultimately have "only_key key kind rows ?rows" by (simp add: only_key_def)
  moreover obtain row where "List.find (\<lambda>r. sticky_id r = (key, kind)) ?rows = Some row" "ss_account_id row = i"
    using find_updated [OF True, of "\<lambda>r. r\<lparr>ss_account_id := i, ss_updated_at := now\<rparr>"] by auto
  then have "key \<noteq> [] \<Longrightarrow> pins key kind i ?rows" by (simp add: pins_def get_entry_def)
  ultimately show ?thesis using that [of ?rows] True assms by (simp add: upsert_def)
next
  case False
  let ?r = "\<lparr>ss_key = key, ss_kind = kind, ss_account_id = i, ss_created_at = now, ss_updated_at = now\<rparr>"
  have id: "sticky_id ?r = (key, kind)" by (simp add: sticky_id_def)
  have f: "filter (\<lambda>r. sticky_id r \<noteq> (key, kind)) rows = rows" "(key, kind) \<notin> sticky_id ` set rows"
    using False by (auto simp: list_ex_iff filter_id_conv)
  then have "only_key key kind rows (rows @ [?r])" by (simp add: only_key_def id)
  moreover have "List.find (\<lambda>r. sticky_id r = (key, kind)) (rows @ [?r]) = Some ?r"
    using f(2) id by (induction rows) auto
  then have "key \<noteq> [] \<Longrightarrow> pins key kind i (rows @ [?r])" by (simp add: pins_def get_entry_def)
  ultimately show ?thesis using that [of "rows @ [?r]"] False assms by (simp add: upsert_def)
qed

lemma existing_only_key: "only_key key kind rows (snd (get_account_id now key kind m rows))"
  by (auto simp: get_account_id_def delete_only_key split: option.split)

lemma existing_pins:
  "fst (get_account_id now key kind m rows) = Some i \<Longrightarrow> pins key kind i (snd (get_account_id now key kind m rows))"
  by (auto simp: get_account_id_def pins_def split: option.splits if_splits)

section \<open>Preconditions of the operations\<close>

lemma wp_return [simp]: "wp (op_return x) Q run = Q x run"
  by (simp add: wp_def op_return_def)

lemma wp_bind [simp]: "wp (op_bind m f) Q run = wp m (\<lambda>x. wp (f x) Q) run"
  by (simp add: wp_def op_bind_def split: prod.split sum.split)

lemma wp_states [simp]: "wp (op_states f) Q run = Q (f (run_states run)) run"
  by (simp add: wp_def op_states_def)

lemma wp_delete [simp]: "wp (op_delete key kind) Q run = Q () (run\<lparr>run_rows := snd (delete_entry key kind (run_rows run))\<rparr>)"
  by (simp add: wp_def op_delete_def)

lemma wp_existing [simp]:
  "wp (op_existing now key kind m) Q run
     = (case get_account_id now key kind m (run_rows run) of (i, rows) \<Rightarrow> Q i (run\<lparr>run_rows := rows\<rparr>))"
  by (simp add: wp_def op_existing_def split: prod.split)

lemma wp_mono: "wp m Q run \<Longrightarrow> (\<And>x run'. Q x run' \<Longrightarrow> R x run') \<Longrightarrow> wp m R run"
  by (auto simp: wp_def split: prod.splits sum.splits)

lemma wp_select:
  assumes "\<And>r salts. account r = None \<longleftrightarrow> error_message r \<noteq> None \<Longrightarrow>
      selection env args None (filter P (run_states run)) (run_salts run) = Inr r \<Longrightarrow>
      Q r (run\<lparr>run_states := map (\<lambda>st. if P st then fst (check_state (current_time env None) args st) else st) (run_states run),
               run_salts := salts\<rparr>)"
  shows "wp (op_select env args P) Q run"
proof -
  let ?o = "select_among env args P (run_states run) (run_salts run)"
  obtain r where r: "fst ?o = Inr r" "account r = None \<longleftrightarrow> error_message r \<noteq> None"
    using select_among_total [of env args P "run_states run" "run_salts run"] by (elim exE conjE) (rule that)
  then have "selection env args None (filter P (run_states run)) (run_salts run) = Inr r"
    by (simp add: select_among_selection)
  from assms [OF r(2) this] show ?thesis
    using r(1) select_among_states [of env args P "run_states run" "run_salts run"]
    by (simp add: wp_def op_select_def split_beta)
qed

lemma wp_budget:
  assumes "\<And>r states salts. map account_id states = map account_id (run_states run) \<Longrightarrow>
      select_account_preferring_budget_safe envs b (run_states run) (run_salts run) = (Inr r, states, salts) \<Longrightarrow>
      account r = None \<longleftrightarrow> error_message r \<noteq> None \<Longrightarrow>
      (\<And>st. account r = Some st \<Longrightarrow> account_id st \<in> account_id ` set (run_states run)
             \<and> (\<exists>i. may_serve (current_time (envs i) None) (call_args b) st)) \<Longrightarrow>
      Q r (run\<lparr>run_states := states, run_salts := salts\<rparr>)"
  shows "wp (op_budget envs b) Q run"
proof -
  obtain res states salts where o: "select_account_preferring_budget_safe envs b (run_states run) (run_salts run) = (res, states, salts)"
    by (metis prod_cases3)
  have "good_outcome envs b (account_id ` set (run_states run)) (res, states, salts)"
    unfolding o [symmetric] by (rule good_budget_select)
  then obtain r where r: "res = Inr r" "account r = None \<longleftrightarrow> error_message r \<noteq> None"
    "\<And>st. account r = Some st \<Longrightarrow> account_id st \<in> account_id ` set (run_states run)
             \<and> (\<exists>i. may_serve (current_time (envs i) None) (call_args b) st)"
    by (auto simp: good_outcome_def split: sum.splits option.splits)
  have "map account_id states = map account_id (run_states run)"
    using budget_select_order [of envs b "run_states run" "run_salts run"] o by simp
  from assms [OF this _ r(2,3)] o r(1) show ?thesis by (simp add: wp_def op_budget_def)
qed

lemma wp_select_copy:
  assumes "\<And>r salts. account r = None \<longleftrightarrow> error_message r \<noteq> None \<Longrightarrow>
      selection env args (Some now) [st] (run_salts run) = Inr r \<Longrightarrow> Q r (run\<lparr>run_salts := salts\<rparr>)"
  shows "wp (op_select_copy env args now st) Q run"
proof -
  obtain r where r: "selection env args (Some now) [st] (run_salts run) = Inr r" "account r = None \<longleftrightarrow> error_message r \<noteq> None"
    using selection_total [of env args "Some now" "[st]" "run_salts run"] by (elim exE conjE) (rule that)
  from assms [OF r(2,1)] r(1) show ?thesis by (simp add: wp_def op_select_copy_def split_beta)
qed

lemma wp_upsert:
  assumes "i \<in> accounts" "key \<noteq> []"
    and "\<And>rows. only_key key kind (run_rows run) rows \<Longrightarrow> pins key kind i rows \<Longrightarrow> Q () (run\<lparr>run_rows := rows\<rparr>)"
  shows "wp (op_upsert now accounts key i kind) Q run"
proof -
  obtain rows where "upsert now accounts key i kind (run_rows run) = Inr rows"
    "only_key key kind (run_rows run) rows" "pins key kind i rows"
    using upsert_ok [OF assms(1), of now key kind "run_rows run"] assms(2) by metis
  then show ?thesis using assms(3) by (simp add: wp_def op_upsert_def)
qed

section \<open>The steps\<close>

lemma sticky_bypass [simp]:
  "bypass_standard_quota (pinned_args (base_args b)) st = bypass_standard_quota (call_args b) st"
  "bypass_standard_quota (call_args (choose_args x b)) st = bypass_standard_quota (call_args b) st"
  "bypass_standard_quota (call_args (b\<lparr>secondary_budget_threshold_pct := y\<rparr>)) st = bypass_standard_quota (call_args b) st"
  by (simp_all add: bypass_standard_quota_def pinned_args_def call_args_def choose_args_def default_args_def Let_def)

definition tended :: "string \<Rightarrow> StickySessionKind \<Rightarrow> string \<Rightarrow> StickySession list \<Rightarrow> StickySession list \<Rightarrow> bool" where
  "tended key kind i rows rows' = (only_key key kind rows rows' \<and> (pins key kind i rows \<longrightarrow> pins key kind i rows'))"

lemma tended_refl [simp]: "tended key kind i rows rows"
  by (simp add: tended_def)

lemma tended_trans: "tended key kind i r1 r2 \<Longrightarrow> tended key kind i r2 r3 \<Longrightarrow> tended key kind i r1 r3"
  using only_key_trans by (auto simp: tended_def)

definition stays :: "StickyEnv \<Rightarrow> StickyArgs \<Rightarrow> string \<Rightarrow> SelectionResult \<Rightarrow> bool" where
  "stays env a i r = (\<exists>st. account r = Some st \<and> error_message r = None \<and> account_id st = i \<and> admitted env a st)"

definition same_accounts :: "StickyRun \<Rightarrow> StickyRun \<Rightarrow> bool" where
  "same_accounts run run' = (map account_id (run_states run') = map account_id (run_states run))"

lemma same_accounts_refl [simp]: "same_accounts run run"
  by (simp add: same_accounts_def)

lemma same_accounts_trans: "same_accounts r1 r2 \<Longrightarrow> same_accounts r2 r3 \<Longrightarrow> same_accounts r1 r3"
  by (simp add: same_accounts_def)

lemma same_accounts_ids: "same_accounts run run' \<Longrightarrow> account_id ` set (run_states run') = account_id ` set (run_states run)"
  unfolding same_accounts_def by (metis set_map)

lemma wp_keep_pin:
  assumes "i \<in> se_accounts env" "key \<noteq> []"
    and "\<And>run'. run_states run' = run_states run \<Longrightarrow> tended key kind i (run_rows run) (run_rows run') \<Longrightarrow> Q () run'"
  shows "wp (keep_pin env a key kind i) Q run"
  unfolding keep_pin_def using assms by (auto intro!: wp_upsert simp: tended_def)

lemma wp_if_served:
  assumes "i \<in> se_accounts env" "key \<noteq> []"
    and "\<And>run'. account r \<noteq> None \<Longrightarrow> run_states run' = run_states run \<Longrightarrow> tended key kind i (run_rows run) (run_rows run')
      \<Longrightarrow> Q (Some r) run'"
    and "account r = None \<Longrightarrow> Q None run"
  shows "wp (if_served env a key kind i r) Q run"
  unfolding if_served_def using assms by (auto intro!: wp_keep_pin)

lemma wp_serve_pinned:
  assumes "i \<in> se_accounts env" "key \<noteq> []"
    and "\<And>r st run'. account r = Some st \<Longrightarrow> error_message r = None \<Longrightarrow> account_id st = i \<Longrightarrow>
      may_serve (current_time call None) (call_args (sk_budget a)) st \<Longrightarrow>
      same_accounts run run' \<Longrightarrow> tended key kind i (run_rows run) (run_rows run') \<Longrightarrow> Q (Some r) run'"
    and "\<And>run'. same_accounts run run' \<Longrightarrow> run_rows run' = run_rows run \<Longrightarrow>
      run_states run' = map (\<lambda>st. if account_id st = i
        then fst (check_state (current_time call None) (pinned_args (base_args (sk_budget a))) st) else st) (run_states run) \<Longrightarrow>
      (\<And>st. st \<in> set (run_states run) \<Longrightarrow> account_id st = i \<Longrightarrow> traffic_class (base_args (sk_budget a)) = foreground \<Longrightarrow>
        snd (check_state (current_time call None) (pinned_args (base_args (sk_budget a))) st) \<noteq> Available) \<Longrightarrow>
      Q None run'"
  shows "wp (serve_pinned call env a key kind i) Q run"
  unfolding serve_pinned_def wp_bind
proof (rule wp_select, rule wp_if_served [OF assms(1,2)], goal_cases)
  case (1 r salts run')
  let ?args = "pinned_args (base_args (sk_budget a))"
  from 1 obtain st where st: "account r = Some st" by blast
  obtain s where "s \<in> set (run_states run)" "account_id s = i" "st = fst (check_state (current_time call None) ?args s)"
    and m: "may_serve (current_time call None) ?args st"
    using selection_sound [OF 1(2) st] unfolding states_after_eq by auto
  then have "account_id st = i" by (simp add: check_state_frame)
  moreover have "may_serve (current_time call None) (call_args (sk_budget a)) st"
    using m may_serve_bypass [of ?args st "call_args (sk_budget a)"] by simp
  ultimately show ?case
    using assms(3) [OF st] 1 st by (auto simp: same_accounts_def check_state_frame)
next
  case (2 r salts)
  let ?args = "pinned_args (base_args (sk_budget a))"
  have "snd (check_state (current_time call None) ?args s) \<noteq> Available"
    if s: "s \<in> set (run_states run)" "account_id s = i" and t: "traffic_class (base_args (sk_budget a)) = foreground" for s
  proof
    assume av: "snd (check_state (current_time call None) ?args s) = Available"
    have "traffic_class ?args = foreground" using t by (simp add: pinned_args_def)
    from select_foreground [OF this 2(2), of s] s av 2(3) show False by (metis (mono_tags, lifting) mem_Collect_eq option.distinct(1) set_filter surjective_pairing)
  qed
  then show ?case using assms(4) by (auto simp: same_accounts_def check_state_frame)
qed

lemma wp_burn:
  assumes "\<And>b run' f. run_states run' = map f (run_states run) \<Longrightarrow> (\<And>st. account_id (f st) = account_id st) \<Longrightarrow>
      (\<And>st. \<not> is_burn_first st \<Longrightarrow> f st = st) \<Longrightarrow> (is_burn_first pinned \<Longrightarrow> f = id) \<Longrightarrow> run_rows run' = run_rows run \<Longrightarrow>
      (\<not> is_burn_first pinned \<Longrightarrow> \<not> list_ex is_burn_first (run_states run) \<Longrightarrow> b \<and> f = id) \<Longrightarrow> Q b run'"
  shows "wp (burn_first_reallocate env a pinned) Q run"
proof (cases "is_burn_first pinned")
  case True
  then show ?thesis using assms [of run id False] by (simp add: burn_first_reallocate_def)
next
  case p: False
  show ?thesis
  proof (cases "list_ex is_burn_first (run_states run)")
    case False
    then show ?thesis using p assms [of run id True] by (simp add: burn_first_reallocate_def)
  next
    case True
    then show ?thesis
      unfolding burn_first_reallocate_def using p
      by (auto intro!: wp_select assms [where f = "\<lambda>st. if is_burn_first st
        then fst (check_state (current_time (se_burn env) None) (burn_probe_args (base_args (sk_budget a))) st) else st"]
        simp: check_state_frame)
  qed
qed

lemma stays_pinned:
  assumes "account r = Some st" "error_message r = None" "account_id st = i"
    and "may_serve c (call_args (sk_budget a)) st" "c \<in> sticky_clocks env"
  shows "stays env a i r"
  using assms by (auto simp: stays_def admitted_def)

lemma wp_grace:
  assumes "i \<in> se_accounts env" "key \<noteq> []" "account_id pinned = i"
    and "\<And>r run'. stays env a i r \<Longrightarrow> run_states run' = run_states run \<Longrightarrow> tended key kind i (run_rows run) (run_rows run')
      \<Longrightarrow> Q (Some r) run'"
    and "\<And>run'. run_states run' = run_states run \<Longrightarrow> run_rows run' = run_rows run \<Longrightarrow> Q None run'"
  shows "wp (grace env a key kind i pinned) Q run"
  unfolding grace_def wp_bind
proof (rule wp_select_copy, rule wp_if_served [OF assms(1,2)], goal_cases)
  case (1 r salts run')
  let ?args = "pinned_args (base_args (sk_budget a))" and ?t = "Some (se_grace_time env + STICKY_GRACE_PERIOD_SECONDS)"
  from 1 obtain st where st: "account r = Some st" by blast
  have "st = fst (check_state (current_time (se_grace env) ?t) ?args pinned)"
    and m: "may_serve (current_time (se_grace env) ?t) ?args st"
    using selection_sound [OF 1(2) st] unfolding states_after_eq by auto
  then have "account_id st = i" using assms(3) by (simp add: check_state_frame)
  moreover have "may_serve (current_time (se_grace env) ?t) (call_args (sk_budget a)) st"
    using m may_serve_bypass [of ?args st "call_args (sk_budget a)"] by simp
  ultimately have "stays env a i r" using st 1(1) by (intro stays_pinned [OF st]) (auto simp: sticky_clocks_def)
  then show ?case using assms(4) 1 by simp
qed (use assms(5) in simp)

text \<open>After the attempt with the pinned account.\<close>

definition tried :: "StickyEnv \<Rightarrow> StickyArgs \<Rightarrow> string \<Rightarrow> StickySessionKind \<Rightarrow> string \<Rightarrow> StickyRun \<Rightarrow> pin_outcome \<Rightarrow> StickyRun \<Rightarrow> bool" where
  "tried env a key kind i run out run' =
     (same_accounts run run' \<and> tended key kind i (run_rows run) (run_rows run')
      \<and> (case out of Served r \<Rightarrow> stays env a i r | GoOn x y \<Rightarrow> True))"

lemma wp_leave_pressured:
  assumes "i \<in> se_accounts env" "key \<noteq> []"
  shows "wp (leave_pressured env a key kind i) (tried env a key kind i run) run"
  unfolding leave_pressured_def wp_bind
proof (rule wp_budget, goal_cases)
  case (1 r states salts)
  let ?run = "run\<lparr>run_states := states, run_salts := salts\<rparr>"
  have s: "same_accounts run ?run" using 1(1) by (simp add: same_accounts_def)
  have "wp (op_bind (serve_pinned (se_pinned_again env) env a key kind i) (served_or True True)) (tried env a key kind i run) ?run"
    unfolding wp_bind served_or_def
    by (rule wp_serve_pinned [OF assms])
      (auto simp: tried_def sticky_clocks_def intro: stays_pinned same_accounts_trans [OF s])
  then show ?case using s by (simp add: tried_def)
qed

lemma wp_try_pinned:
  assumes "i \<in> se_accounts env" "key \<noteq> []"
  shows "wp (try_pinned env a key kind i pinned) (tried env a key kind i run) run"
  unfolding try_pinned_def wp_bind
proof (rule wp_burn, goal_cases)
  case (1 b run' f)
  have s: "same_accounts run run'" using 1(1,2) by (simp add: same_accounts_def)
  have serve: "wp (op_bind (serve_pinned (se_pinned env) env a key kind i) (served_or (sk_reallocate a) False))
      (tried env a key kind i run) run'"
    unfolding wp_bind served_or_def
    by (rule wp_serve_pinned [OF assms])
      (auto simp: tried_def sticky_clocks_def 1(5) [symmetric] intro: stays_pinned same_accounts_trans [OF s])
  have leave: "wp (leave_pressured env a key kind i) (tried env a key kind i run) run'"
    by (rule wp_mono [OF wp_leave_pressured [OF assms]])
      (auto simp: tried_def 1(5) intro: same_accounts_trans [OF s])
  show ?case using serve leave s 1(5) by (auto simp: tried_def)
qed

text \<open>After the whole treatment of the pin: who searches on without saving the result has left the pin
  alone, and does so only for a kind with a maximal age.\<close>

definition pin_handled ::
  "StickyEnv \<Rightarrow> StickyArgs \<Rightarrow> string \<Rightarrow> StickySessionKind \<Rightarrow> string option \<Rightarrow> StickyRun \<Rightarrow> pin_result \<Rightarrow> StickyRun \<Rightarrow> bool" where
  "pin_handled env a key kind existing run out run' =
     (same_accounts run run' \<and> only_key key kind (run_rows run) (run_rows run')
      \<and> (case out of
           Stay r \<Rightarrow> (case existing of None \<Rightarrow> False
                      | Some i \<Rightarrow> i \<in> account_id ` set (run_states run) \<and> stays env a i r \<and> tended key kind i (run_rows run) (run_rows run'))
         | Search persist secondary \<Rightarrow>
             \<not> persist \<longrightarrow> sk_max_age_seconds a \<noteq> None
               \<and> (case existing of None \<Rightarrow> False | Some i \<Rightarrow> tended key kind i (run_rows run) (run_rows run'))))"

lemma the_pinned_member: "the_pinned i states = Some st \<Longrightarrow> st \<in> set states \<and> account_id st = i"
  by (auto simp: the_pinned_def find_Some_iff)

lemma wp_loosen:
  "wp (loosen_pin a key kind reallocate pinned)
     (\<lambda>persist run'. run_states run' = run_states run \<and> only_key key kind (run_rows run) (run_rows run')
        \<and> (\<not> persist \<longrightarrow> run_rows run' = run_rows run \<and> sk_max_age_seconds a \<noteq> None)) run"
  by (simp add: loosen_pin_def delete_only_key)

lemma wp_after_pinned:
  assumes "i \<in> se_accounts env" "key \<noteq> []" "i \<in> account_id ` set (run_states run0)" "tried env a key kind i run0 out run"
  shows "wp (after_pinned env a key kind i out) (pin_handled env a key kind (Some i) run0) run"
proof (cases out)
  case (Served r)
  then show ?thesis using assms(3,4) by (simp add: after_pinned_def pin_handled_def tried_def tended_def)
next
  case (GoOn reallocate secondary)
  have s: "same_accounts run0 run" "tended key kind i (run_rows run0) (run_rows run)"
    using assms(4) by (simp_all add: tried_def)
  have stay: "pin_handled env a key kind (Some i) run0 (Stay r) run'"
    if "stays env a i r" "run_states run' = run_states run" "tended key kind i (run_rows run) (run_rows run')" for r run'
    using that s assms(3) tended_trans [OF s(2) that(3)] by (simp add: pin_handled_def same_accounts_def tended_def)
  have on: "wp (op_bind (loosen_pin a key kind reallocate pinned) (\<lambda>persist. op_return (Search persist secondary)))
      (pin_handled env a key kind (Some i) run0) run'"
    if "run_states run' = run_states run" "run_rows run' = run_rows run" for pinned run'
    unfolding wp_bind
    by (rule wp_mono [OF wp_loosen])
      (use that s in \<open>auto simp: pin_handled_def same_accounts_def tended_def intro: only_key_trans\<close>)
  show ?thesis
  proof (cases "the_pinned i (run_states run)")
    case None
    then show ?thesis using GoOn s by (simp add: after_pinned_def pin_handled_def tended_def)
  next
    case (Some pinned)
    then have p: "account_id pinned = i" using the_pinned_member by blast
    show ?thesis
    proof (cases "\<not> reallocate \<and> status pinned = RATE_LIMITED")
      case True
      then show ?thesis
        using GoOn Some on unfolding after_pinned_def wp_bind
        by (auto intro!: wp_grace [OF assms(1,2) p] stay)
    next
      case False
      then show ?thesis using GoOn Some on [of run] by (auto simp: after_pinned_def)
    qed
  qed
qed

lemma wp_handle_pin:
  assumes "account_id ` set (run_states run) \<subseteq> se_accounts env" "key \<noteq> []"
  shows "wp (handle_pin env a key kind existing) (pin_handled env a key kind existing run) run"
proof -
  have "wp (op_bind (try_pinned env a key kind i pinned) (after_pinned env a key kind i)) (pin_handled env a key kind (Some i) run) run"
    if "the_pinned i (run_states run) = Some pinned" for i pinned
  proof -
    have i: "i \<in> account_id ` set (run_states run)" "i \<in> se_accounts env"
      using the_pinned_member [OF that] assms(1) by auto
    show ?thesis
      unfolding wp_bind
      by (rule wp_mono [OF wp_try_pinned [OF i(2) assms(2)]]) (rule wp_after_pinned [OF i(2) assms(2) i(1)])
  qed
  then show ?thesis
    by (auto simp: handle_pin_def pin_handled_def delete_only_key same_accounts_def split: option.split)
qed

section \<open>The selection as a whole\<close>

definition selected_ok :: "StickyEnv \<Rightarrow> StickyArgs \<Rightarrow> StickyRun \<Rightarrow> SelectionResult \<Rightarrow> bool" where
  "selected_ok env a run r =
     ((account r = None) = (error_message r \<noteq> None)
      \<and> (case account r of None \<Rightarrow> True
         | Some st \<Rightarrow> account_id st \<in> account_id ` set (run_states run) \<and> admitted env a st))"

text \<open>The search over the pool: sound, and it writes the row of the key only, to the chosen account and
  only when asked to save the choice.\<close>

definition searched ::
  "StickyEnv \<Rightarrow> StickyArgs \<Rightarrow> string set \<Rightarrow> string \<Rightarrow> StickySessionKind \<Rightarrow> bool \<Rightarrow> StickyRun \<Rightarrow> SelectionResult \<Rightarrow> StickyRun \<Rightarrow> bool" where
  "searched env a account_map key kind persist run r run' =
     (selected_ok env a run r \<and> only_key key kind (run_rows run) (run_rows run')
      \<and> (\<not> persist \<longrightarrow> run_rows run' = run_rows run)
      \<and> (persist \<longrightarrow> (case account r of None \<Rightarrow> True
                       | Some st \<Rightarrow> account_id st \<in> account_map \<longrightarrow> pins key kind (account_id st) (run_rows run'))))"

lemma wp_choose:
  assumes "\<And>st. bypass_standard_quota (call_args b) st = bypass_standard_quota (call_args (sk_budget a)) st"
    and "\<And>r run'. selected_ok env a run r \<Longrightarrow> same_accounts run run' \<Longrightarrow> run_rows run' = run_rows run \<Longrightarrow> Q r run'"
  shows "wp (op_budget (se_choose env) b) Q run"
proof (rule wp_budget, goal_cases)
  case (1 r states salts)
  have "admitted env a st" if "may_serve (current_time (se_choose env j) None) (call_args b) st" for st j
    using that may_serve_bypass [OF assms(1)] by (auto simp: admitted_def sticky_clocks_def)
  then have "selected_ok env a run r" using 1(3,4) by (auto simp: selected_ok_def split: option.split)
  then show ?case using assms(2) 1(1) by (simp add: same_accounts_def)
qed

lemma wp_search:
  assumes "account_id ` set (run_states run) \<subseteq> se_accounts env" "key \<noteq> []"
  shows "wp (search_pool env a account_map key kind (Search persist secondary)) (searched env a account_map key kind persist run) run"
  unfolding search_pool_def pin_result.case wp_bind
proof (rule wp_choose [where a = a and env = env and run = run], goal_cases)
  case (2 r run')
  show ?case
  proof (cases "account r")
    case None
    then show ?thesis using 2 by (simp add: persist_choice_def searched_def)
  next
    case (Some st)
    then have "account_id st \<in> se_accounts env" using 2(1) assms(1) by (auto simp: selected_ok_def)
    then show ?thesis
      using 2 Some assms(2) by (auto simp: persist_choice_def searched_def intro!: wp_upsert)
  qed
qed simp

lemma wp_stickiness:
  assumes "account_id ` set (run_states run) \<subseteq> se_accounts env" "sk_key a = Some key" "key \<noteq> []" "sk_kind a = Some kind"
    and "\<And>existing run1. existing = (case sk_existing a of
            None \<Rightarrow> fst (get_account_id (se_utcnow env) key kind (sk_max_age_seconds a) (run_rows run)) | Some x \<Rightarrow> x) \<Longrightarrow>
        run_rows run1 = (case sk_existing a of
            None \<Rightarrow> snd (get_account_id (se_utcnow env) key kind (sk_max_age_seconds a) (run_rows run)) | Some x \<Rightarrow> run_rows run) \<Longrightarrow>
        run_states run1 = run_states run \<Longrightarrow> wp (handle_pin env a key kind existing) R run1"
    and "\<And>r run2. R (Stay r) run2 \<Longrightarrow> Q r run2"
    and "\<And>persist secondary run2. R (Search persist secondary) run2 \<Longrightarrow>
        wp (search_pool env a account_map key kind (Search persist secondary)) Q run2"
  shows "wp (select_with_stickiness env a account_map) Q run"
proof -
  have search: "wp (search_pool env a account_map key kind out) Q run2" if "R out run2" for out run2
    using that assms(6,7) by (cases out) (simp_all add: search_pool_def)
  have go: "wp (handle_pin env a key kind existing) (\<lambda>out. wp (search_pool env a account_map key kind out) Q) run1"
    if "wp (handle_pin env a key kind existing) R run1" for existing run1
    using that search by (rule wp_mono)
  show ?thesis
  proof (cases "sk_existing a")
    case None
    let ?g = "get_account_id (se_utcnow env) key kind (sk_max_age_seconds a) (run_rows run)"
    have "wp (handle_pin env a key kind (fst ?g)) R (run\<lparr>run_rows := snd ?g\<rparr>)"
      by (rule assms(5)) (simp_all add: None)
    from go [OF this] show ?thesis
      using assms(2-4) None by (simp add: select_with_stickiness_def look_up_pin_def split_beta)
  next
    case (Some x)
    have "wp (handle_pin env a key kind x) R run" by (rule assms(5)) (simp_all add: Some)
    from go [OF this] show ?thesis using assms(2-4) Some by (simp add: select_with_stickiness_def look_up_pin_def)
  qed
qed

lemma wp_select_ok:
  assumes "account_id ` set (run_states run) \<subseteq> se_accounts env" "sk_key a = Some key" "key \<noteq> []" "sk_kind a = Some kind"
  shows "wp (select_with_stickiness env a account_map)
     (\<lambda>r run'. selected_ok env a run r \<and> only_key key kind (run_rows run) (run_rows run')
        \<and> (sk_max_age_seconds a = None \<and> account_id ` set (run_states run) \<subseteq> account_map
             \<longrightarrow> (case account r of None \<Rightarrow> True
                | Some st \<Rightarrow> pins key kind (account_id st) (run_rows run') \<or> stale_pin a key kind (run_rows run) (account_id st)))) run"
    (is "wp _ ?Q run")
proof (rule wp_stickiness [OF assms, where R = "\<lambda>out run2. \<exists>existing run1. run_states run1 = run_states run
      \<and> only_key key kind (run_rows run) (run_rows run1)
      \<and> (\<forall>i. existing = Some i \<longrightarrow> pins key kind i (run_rows run1) \<or> stale_pin a key kind (run_rows run) i)
      \<and> pin_handled env a key kind existing run1 out run2"], goal_cases)
  case (1 existing run1)
  have "only_key key kind (run_rows run) (run_rows run1)"
    using 1(2) existing_only_key by (simp split: option.splits)
  moreover have "\<forall>i. existing = Some i \<longrightarrow> pins key kind i (run_rows run1) \<or> stale_pin a key kind (run_rows run) i"
    using 1(1,2) existing_pins by (auto simp: stale_pin_def split: option.splits)
  ultimately show ?case
    using 1(3) assms(1)
    by (intro wp_mono [OF wp_handle_pin [OF _ assms(3)]]) (simp, intro exI [of _ existing] exI [of _ run1], simp)
next
  case (2 r run2)
  then obtain existing run1 where e: "run_states run1 = run_states run" "only_key key kind (run_rows run) (run_rows run1)"
      "\<forall>i. existing = Some i \<longrightarrow> pins key kind i (run_rows run1) \<or> stale_pin a key kind (run_rows run) i"
      "pin_handled env a key kind existing run1 (Stay r) run2" by (elim exE conjE) (rule that)
  then obtain i where i: "existing = Some i" "i \<in> account_id ` set (run_states run)" "stays env a i r"
      "tended key kind i (run_rows run1) (run_rows run2)"
    by (cases existing) (simp_all add: pin_handled_def)
  then obtain st where st: "account r = Some st" "error_message r = None" "account_id st = i" "admitted env a st"
    by (auto simp: stays_def)
  have "only_key key kind (run_rows run) (run_rows run2)" using e(2) i(4) only_key_trans unfolding tended_def by blast
  moreover have "selected_ok env a run r" using st i(2) by (simp add: selected_ok_def)
  moreover have "pins key kind i (run_rows run2) \<or> stale_pin a key kind (run_rows run) i" using e(3) i(1,4) by (auto simp: tended_def)
  ultimately show ?case using st by simp
next
  case (3 persist secondary run2)
  then obtain existing run1 where e: "run_states run1 = run_states run" "only_key key kind (run_rows run) (run_rows run1)"
      "pin_handled env a key kind existing run1 (Search persist secondary) run2" by (elim exE conjE) (rule that)
  then have same: "same_accounts run run2" by (simp add: pin_handled_def same_accounts_def)
  have "wp (search_pool env a account_map key kind (Search persist secondary)) (searched env a account_map key kind persist run2) run2"
    using assms(1) by (intro wp_search assms(3)) (simp add: same_accounts_ids [OF same])
  then show ?case
  proof (rule wp_mono)
    fix r run' assume s: "searched env a account_map key kind persist run2 r run'"
    have "only_key key kind (run_rows run) (run_rows run')"
      using s e(2,3) by (auto simp: searched_def pin_handled_def intro: only_key_trans)
    moreover have "sk_max_age_seconds a = None \<longrightarrow> persist" using e(3) by (auto simp: pin_handled_def)
    ultimately show "?Q r run'"
      using s by (auto simp: searched_def selected_ok_def same_accounts_ids [OF same] split: option.splits)
  qed
qed

text \<open>A pinned account without pressure on its budget and without a long rate limit.\<close>

definition calm :: "StickyEnv \<Rightarrow> StickyArgs \<Rightarrow> AccountState \<Rightarrow> bool" where
  "calm env a pinned = (\<not> budget_pressured a pinned \<and> \<not> rate_limit_far_away (se_time env) a pinned)"

lemma the_pinned_unique:
  "distinct (map account_id states) \<Longrightarrow> st \<in> set states \<Longrightarrow> the_pinned (account_id st) states = Some st"
  by (induction states) (auto simp: the_pinned_def)

lemma the_pinned_map:
  "(\<And>st. account_id (g st) = account_id st) \<Longrightarrow> the_pinned i (map g states) = map_option g (the_pinned i states)"
  by (induction states) (auto simp: the_pinned_def)

lemma check_state_recoverable:
  "status st \<in> set RECOVERABLE_STATUSES \<Longrightarrow> status (fst (check_state c args st)) \<in> set RECOVERABLE_STATUSES"
proof (cases rule: check_state_cases [of st c args])
  case (passed st1 st2 st3)
  assume r: "status st \<in> set RECOVERABLE_STATUSES"
  have "status (fst (check_state c args st)) = status st2" using passed(3,5) by (auto simp: clear_cooldown_def)
  moreover have "status st1 \<in> {status st, ACTIVE}" using passed(1) by (auto simp: recover_rate_limited_def split: if_splits)
  moreover have "status st2 \<in> {status st1, ACTIVE}" using passed(2) by (auto simp: recover_quota_exceeded_def split: if_splits)
  ultimately show ?thesis using r by (auto simp: RECOVERABLE_STATUSES_def)
qed simp_all

text \<open>A calm pin with a maximal age stays as it is, whatever happens to the request.\<close>

definition pin_stands :: "StickyEnv \<Rightarrow> StickyArgs \<Rightarrow> string \<Rightarrow> StickySessionKind \<Rightarrow> AccountState \<Rightarrow> StickyRun \<Rightarrow> pin_result \<Rightarrow> StickyRun \<Rightarrow> bool" where
  "pin_stands env a key kind pinned run out run' =
     (same_accounts run run' \<and> tended key kind (account_id pinned) (run_rows run) (run_rows run')
      \<and> (case out of
           Stay r \<Rightarrow> stays env a (account_id pinned) r
         | Search persist secondary \<Rightarrow>
             \<not> persist \<and> (traffic_class (base_args (sk_budget a)) = foreground \<longrightarrow>
                snd (check_state (current_time (se_pinned env) None) (pinned_args (base_args (sk_budget a))) pinned) \<noteq> Available)))"

lemma wp_handle_calm:
  assumes "account_id ` set (run_states run) \<subseteq> se_accounts env" "key \<noteq> []" "distinct (map account_id (run_states run))"
    and "pinned \<in> set (run_states run)" "account_id pinned \<noteq> []" "calm env a pinned" "\<not> sk_reallocate a"
    and "sk_max_age_seconds a \<noteq> None" "status pinned \<in> set RECOVERABLE_STATUSES"
  shows "wp (handle_pin env a key kind (Some (account_id pinned))) (pin_stands env a key kind pinned run) run"
proof -
  let ?i = "account_id pinned" and ?args = "pinned_args (base_args (sk_budget a))"
  let ?chk = "check_state (current_time (se_pinned env) None) ?args"
  let ?Q = "pin_stands env a key kind pinned run"
  obtain m where m: "sk_max_age_seconds a = Some m" using assms(8) by blast
  have i: "?i \<in> se_accounts env" using assms(1,4) by auto
  have p: "the_pinned ?i (run_states run) = Some pinned" by (rule the_pinned_unique [OF assms(3,4)])
  have after: "wp (after_pinned env a key kind ?i (GoOn False False)) ?Q run2"
    if run2: "same_accounts run run2" "run_rows run2 = run_rows run" "the_pinned ?i (run_states run2) = Some (fst (?chk pinned))"
      and na: "traffic_class (base_args (sk_budget a)) = foreground \<longrightarrow> snd (?chk pinned) \<noteq> Available" for run2
  proof -
    have rec: "status (fst (?chk pinned)) \<in> set RECOVERABLE_STATUSES" by (rule check_state_recoverable [OF assms(9)])
    have loose: "loosen_pin a key kind False (fst (?chk pinned)) = op_return False" using rec m by (simp add: loosen_pin_def)
    have id: "account_id (fst (?chk pinned)) = ?i" by (simp add: check_state_frame)
    have on: "?Q (Search False False) run'" if "run_states run' = run_states run2" "run_rows run' = run_rows run2" for run'
      using that run2 na by (simp add: pin_stands_def same_accounts_def)
    have "wp (grace env a key kind ?i (fst (?chk pinned)))
        (\<lambda>r. wp (case r of Some x \<Rightarrow> op_return (Stay x)
           | None \<Rightarrow> op_bind (op_return False) (\<lambda>persist. op_return (Search persist False))) ?Q) run2"
    proof (rule wp_grace [OF i assms(2) id], goal_cases)
      case (1 r run')
      then show ?case using run2 by (simp add: pin_stands_def same_accounts_def)
    next
      case (2 run')
      then show ?case using on by simp
    qed
    then show ?thesis
      using on [of run2] run2(3) by (simp add: after_pinned_def loose)
  qed
  have "wp (try_pinned env a key kind ?i pinned) (\<lambda>out. wp (after_pinned env a key kind ?i out) ?Q) run"
    unfolding try_pinned_def wp_bind
  proof (rule wp_burn, goal_cases)
    case (1 b run1 f)
    have f: "f pinned = pinned" using 1(3,4) by (cases "is_burn_first pinned") simp_all
    have p1: "the_pinned ?i (run_states run1) = Some pinned" using the_pinned_map [of f ?i "run_states run", OF 1(2)] 1(1) p f by simp
    have s: "same_accounts run run1" using 1(1,2) by (simp add: same_accounts_def)
    have "wp (serve_pinned (se_pinned env) env a key kind ?i) (\<lambda>r. wp (served_or (sk_reallocate a) False r)
        (\<lambda>out. wp (after_pinned env a key kind ?i out) ?Q)) run1"
    proof (rule wp_serve_pinned [OF i assms(2)], goal_cases)
      case (1 r st run2)
      then have "stays env a ?i r" by (auto simp: sticky_clocks_def intro: stays_pinned)
      moreover have "tended key kind ?i (run_rows run) (run_rows run2)" using 1(6) \<open>run_rows run1 = run_rows run\<close> by simp
      ultimately show ?case using same_accounts_trans [OF s 1(5)] by (simp add: served_or_def after_pinned_def pin_stands_def)
    next
      case (2 run2)
      have "the_pinned ?i (run_states run2) = Some (fst (?chk pinned))"
        unfolding 2(3) by (subst the_pinned_map) (simp_all add: check_state_frame p1)
      moreover have "traffic_class (base_args (sk_budget a)) = foreground \<longrightarrow> snd (?chk pinned) \<noteq> Available"
        using 2(4) [of pinned] the_pinned_member [OF p1] by simp
      ultimately show ?case
        using after [of run2] 2(2) assms(7) same_accounts_trans [OF s 2(1)] \<open>run_rows run1 = run_rows run\<close>
        by (simp add: served_or_def)
    qed
    then show ?case using assms(6) by (simp add: calm_def)
  qed
  then show ?thesis using p assms(5) by (simp add: handle_pin_def)
qed

lemma wp_iff: "wp m Q run \<longleftrightarrow> (\<exists>x run'. m run = (Inr x, run') \<and> Q x run')"
  by (auto simp: wp_def split: prod.splits sum.splits)

lemma check_state_args:
  "bypass_standard_quota args st = bypass_standard_quota args' st \<Longrightarrow> check_state c args st = check_state c args' st"
  by (simp add: check_state_def)

text \<open>Foreground requests under a pooled strategy, without \<open>burn_first\<close> accounts, with a safe account at hand.\<close>

definition safe_alternative :: "(nat \<Rightarrow> SelectEnv) \<Rightarrow> BudgetArgs \<Rightarrow> AccountState list \<Rightarrow> AccountState \<Rightarrow> bool" where
  "safe_alternative envs b states s =
     (pooled (routing_strategy (call_args b)) \<and> traffic_class (call_args b) = foreground
      \<and> (\<forall>st \<in> set states. \<not> is_burn_first st) \<and> s \<in> set states \<and> budget_safe b s
      \<and> snd (check_state (current_time (envs 1) None) (call_args b) s) = Available)"

definition safe_pass :: "pyfloat \<Rightarrow> BudgetArgs \<Rightarrow> AccountState \<Rightarrow> AccountState" where
  "safe_pass c b st = (if budget_safe b st then fst (check_state c (call_args b) st) else st)"

lemma wp_budget_safe:
  assumes "safe_alternative envs b (run_states run) s"
    and "\<And>r st s0 run'. account r = Some st \<Longrightarrow> s0 \<in> set (run_states run) \<Longrightarrow> budget_safe b s0 \<Longrightarrow>
      st = safe_pass (current_time (envs 1) None) b s0 \<Longrightarrow>
      run_states run' = map (safe_pass (current_time (envs 1) None) b) (run_states run) \<Longrightarrow>
      run_rows run' = run_rows run \<Longrightarrow> Q r run'"
  shows "wp (op_budget envs b) Q run"
proof -
  let ?c = "current_time (envs 1) None"
  have "check_state ?c (call_args b) s = (fst (check_state ?c (call_args b) s), Available)"
    using assms(1) by (simp add: safe_alternative_def prod_eq_iff)
  then obtain r st s0 salts where o: "select_account_preferring_budget_safe envs b (run_states run) (run_salts run)
       = (Inr r, map (safe_pass ?c b) (run_states run), salts)"
     and r: "account r = Some st" "s0 \<in> set (run_states run)" "budget_safe b s0" "st = fst (check_state ?c (call_args b) s0)"
    using budget_prefers_safe [where envs = envs and b = b and states = "run_states run" and s = s and salts = "run_salts run"] assms(1)
    unfolding safe_alternative_def is_burn_first_def safe_pass_def by meson
  then show ?thesis
    using assms(2) [OF r(1-3)] by (simp add: wp_def op_budget_def safe_pass_def)
qed

lemma safe_pass_frame [simp]:
  "account_id (safe_pass c b st) = account_id st" "routing_policy (safe_pass c b st) = routing_policy st"
  by (simp_all add: safe_pass_def check_state_frame)

lemma safe_pass_safe:
  "0 \<le> budget_threshold_pct b \<Longrightarrow> 0 \<le> secondary_budget_threshold_pct b \<Longrightarrow> budget_safe b (safe_pass c b st) = budget_safe b st"
  by (simp add: safe_pass_def budget_safe_check)

lemma alternative_args [simp]:
  "budget_safe (choose_args True b) = budget_safe (pool_args b)"
  "safe_pass c (choose_args True b) = safe_pass c (pool_args b)"
  "routing_strategy (call_args (choose_args x b)) = routing_strategy (base_args b)"
  "routing_strategy (call_args (pool_args b)) = routing_strategy (base_args b)"
  "traffic_class (call_args (choose_args x b)) = traffic_class (base_args b)"
  "traffic_class (call_args (pool_args b)) = traffic_class (base_args b)"
proof -
  show b: "budget_safe (choose_args True b) = budget_safe (pool_args b)"
    by (simp add: fun_eq_iff budget_safe_def over_budget_def choose_args_def pool_args_def)
  have "check_state c (call_args (choose_args True b)) st = check_state c (call_args (pool_args b)) st" for st
    by (rule check_state_args) (simp add: bypass_standard_quota_def call_args_def choose_args_def pool_args_def default_args_def Let_def)
  then show "safe_pass c (choose_args True b) = safe_pass c (pool_args b)" by (simp add: fun_eq_iff safe_pass_def b)
qed (simp_all add: call_args_def choose_args_def pool_args_def Let_def)

text \<open>An account that a pass found available stays available after it, at any time.\<close>

lemma check_state_again:
  assumes "snd (check_state c args st) = Available"
  shows "snd (check_state c' args (fst (check_state c args st))) = Available"
proof (cases rule: check_state_cases [of st c args])
  case (passed st1 st2 st3)
  let ?r = "fst (check_state c args st)"
  have r: "status ?r = status st2" "cooldown_until ?r = cooldown_until st3" "error_count ?r < 3" "\<not> in_cooldown c st3"
    using assms passed(3,5) by (auto split: if_splits)
  have "\<not> elapsed (cooldown_until st3) c"
    by (simp add: passed(3) clear_cooldown_def elapsed_def split: option.split)
  then have cool: "\<not> elapsed (cooldown_until ?r) c'" "\<not> in_cooldown c' ?r"
    using r(2,4) by (auto simp: elapsed_def in_cooldown_def split: option.splits)
  let ?b = "bypass_standard_quota args st"
  have status: "status ?r \<notin> {PAUSED, REAUTH_REQUIRED, DEACTIVATED}" "status ?r = ACTIVE \<or> ?b"
    using recovered_status [OF passed(1,2,4)] r(1) by auto
  obtain r1 where r1: "recover_rate_limited c' ?b ?r = Some r1" "error_count r1 < 3" "cooldown_until r1 = cooldown_until ?r"
    "status r1 = status ?r \<or> status r1 = ACTIVE"
    using status(2) r(3) by (cases "status ?r = RATE_LIMITED"; cases "elapsed (reset_at ?r) c'") (auto simp: recover_rate_limited_def)
  obtain r2 where r2: "recover_quota_exceeded c' ?b r1 = Some r2" "error_count r2 < 3" "cooldown_until r2 = cooldown_until ?r"
    using status(2) r1(2-4)
    by (cases "status r1 = QUOTA_EXCEEDED"; cases "elapsed (reset_at r1) c'") (auto simp: recover_quota_exceeded_def)
  have "clear_cooldown c' r2 = r2" "\<not> in_cooldown c' r2" using cool r2(3) by (simp_all add: clear_cooldown_def in_cooldown_def)
  moreover have "bypass_standard_quota args ?r = ?b" by simp
  ultimately show ?thesis
    using status(1) r1(1) r2(1,2) by (simp add: check_state_def [of c' args ?r] Let_def)
qed (use assms in auto)

lemma alternative_stays:
  assumes "safe_alternative envs (pool_args b) states s"
    and "0 \<le> budget_threshold_pct b" "0 \<le> secondary_budget_threshold_pct b"
  shows "safe_alternative envs' (choose_args True b) (map (safe_pass (current_time (envs 1) None) (pool_args b)) states)
    (safe_pass (current_time (envs 1) None) (pool_args b) s)"
proof -
  let ?c = "current_time (envs 1) None" and ?B = "pool_args b"
  let ?chk = "check_state ?c (call_args ?B)"
  have th: "budget_threshold_pct ?B = budget_threshold_pct b" "secondary_budget_threshold_pct ?B = secondary_budget_threshold_pct b"
    by (simp_all add: pool_args_def)
  have s: "budget_safe ?B s" "s \<in> set states" "snd (?chk s) = Available" "pooled (routing_strategy (base_args b))"
      "traffic_class (base_args b) = foreground" "\<forall>st \<in> set states. \<not> is_burn_first st"
    using assms(1) by (simp_all add: safe_alternative_def)
  have check_args: "check_state c' (call_args (choose_args True b)) st = check_state c' (call_args ?B) st" for c' st
    by (rule check_state_args) (simp add: bypass_standard_quota_def call_args_def choose_args_def pool_args_def default_args_def Let_def)
  have "safe_pass ?c ?B s = fst (?chk s)" using s(1) by (simp add: safe_pass_def)
  then have "snd (check_state (current_time (envs' 1) None) (call_args (choose_args True b)) (safe_pass ?c ?B s)) = Available"
    using check_state_again [OF s(3)] check_args by simp
  moreover have "budget_safe ?B (safe_pass ?c ?B s)" using s(1) safe_pass_safe th assms(2,3) by simp
  ultimately show ?thesis using s by (simp add: safe_alternative_def is_burn_first_def)
qed

lemma wp_handle_pressured:
  assumes "key \<noteq> []" "distinct (map account_id (run_states run))" "pinned \<in> set (run_states run)" "account_id pinned \<noteq> []"
    and "budget_pressured a pinned" "safe_alternative (se_pool env) (pool_args (sk_budget a)) (run_states run) s"
    and "0 \<le> budget_threshold_pct (sk_budget a)" "0 \<le> secondary_budget_threshold_pct (sk_budget a)"
  shows "wp (handle_pin env a key kind (Some (account_id pinned)))
     (\<lambda>out run'. out = Search True True
        \<and> run_states run' = map (safe_pass (current_time (se_pool env 1) None) (pool_args (sk_budget a))) (run_states run)
        \<and> only_key key kind (run_rows run) (run_rows run')) run" (is "wp _ ?Q run")
proof -
  let ?B = "pool_args (sk_budget a)" and ?c = "current_time (se_pool env 1) None"
  have p: "the_pinned (account_id pinned) (run_states run) = Some pinned" by (rule the_pinned_unique [OF assms(2,3)])
  have "\<not> is_burn_first pinned" "\<not> list_ex is_burn_first (run_states run)"
    using assms(3,6) by (auto simp: safe_alternative_def list_ex_iff)
  note nb = this
  have th: "budget_threshold_pct ?B = budget_threshold_pct (sk_budget a)"
      "secondary_budget_threshold_pct ?B = secondary_budget_threshold_pct (sk_budget a)"
      "over_budget ?B st = above_sticky_budget_threshold (budget_threshold_pct (sk_budget a))
         (Some (secondary_budget_threshold_pct (sk_budget a))) st" for st
    by (simp_all add: pool_args_def over_budget_def)
  have alive: "\<not> pool_also_exhausted a (account_id pinned) r"
    if "account r = Some st" "s0 \<in> set (run_states run)" "budget_safe ?B s0" "st = safe_pass ?c ?B s0" for r st s0
  proof -
    have "budget_safe ?B st" using that(3,4) safe_pass_safe [of ?B ?c s0] th assms(7,8) by simp
    moreover have "s0 \<noteq> pinned" using that(3) assms(5) by (auto simp: budget_pressured_def budget_safe_def th)
    then have "account_id st \<noteq> account_id pinned" using that(2,4) assms(2,3) by (auto simp: distinct_map inj_on_def)
    ultimately show ?thesis using that(1) by (simp add: pool_also_exhausted_def budget_safe_def th)
  qed
  have loose: "wp (after_pinned env a key kind (account_id pinned) (GoOn True True)) ?Q run2"
    if "run_states run2 = map (safe_pass ?c ?B) (run_states run)" "run_rows run2 = run_rows run" for run2
    using that p by (simp add: after_pinned_def the_pinned_map loosen_pin_def delete_only_key)
  have "wp (leave_pressured env a key kind (account_id pinned)) (\<lambda>out. wp (after_pinned env a key kind (account_id pinned) out) ?Q) run1"
    if "run_states run1 = run_states run" "run_rows run1 = run_rows run" for run1
    unfolding leave_pressured_def wp_bind
  proof (rule wp_budget_safe [where s = s], goal_cases)
    case 1
    then show ?case using assms(6) that by simp
  next
    case (2 r st s0 run2)
    then show ?case using alive [of r st s0] loose [of run2] that by simp
  qed
  then have "wp (try_pinned env a key kind (account_id pinned) pinned)
      (\<lambda>out. wp (after_pinned env a key kind (account_id pinned) out) ?Q) run"
    unfolding try_pinned_def wp_bind using nb assms(5) by (intro wp_burn) simp
  then show ?thesis using p assms(4) by (simp add: handle_pin_def)
qed

section \<open>A sample\<close>

definition sample_sticky_env :: StickyEnv where
  "sample_sticky_env =
     \<lparr>se_utcnow = 100, se_db_now = 200, se_accounts = {''a'', ''b''}, se_time = 1000, se_grace_time = 1000, se_burn = sample_env,
      se_pinned = sample_env, se_pool = (\<lambda>i. sample_env), se_pinned_again = sample_env, se_grace = sample_env,
      se_choose = (\<lambda>i. sample_env)\<rparr>"

definition sample_sticky_args :: "int option \<Rightarrow> StickyArgs" where
  "sample_sticky_args max_age =
     \<lparr>sk_key = Some ''k'', sk_kind = Some PROMPT_CACHE, sk_reallocate = False, sk_max_age_seconds = max_age, sk_existing = None,
      sk_budget = \<lparr>base_args = default_args\<lparr>routing_strategy := round_robin\<rparr>, budget_threshold_pct = 95,
        secondary_budget_threshold_pct = 100, apply_secondary_budget_threshold = False\<rparr>\<rparr>"

definition sample_state :: "string \<Rightarrow> pyfloat \<Rightarrow> AccountState" where
  "sample_state i used = (new_account i ACTIVE)\<lparr>used_percent := Some used\<rparr>"

definition sample_sticky_run :: "pyfloat \<Rightarrow> StickyRun" where
  "sample_sticky_run used =
     \<lparr>run_states = [sample_state ''a'' used, sample_state ''b'' 10], run_salts = sample_salts,
      run_rows = [\<lparr>ss_key = ''k'', ss_kind = PROMPT_CACHE, ss_account_id = ''a'', ss_created_at = 0, ss_updated_at = 0\<rparr>]\<rparr>"

lemmas sample_sticky_defs =
  sample_sticky_env_def sample_sticky_args_def sample_sticky_run_def sample_state_def new_account_def

lemma sample_available: "check_state c args (sample_state i used) = (sample_state i used, Available)"
  by (simp add: sample_state_def new_account_def check_state_def recover_rate_limited_def recover_quota_exceeded_def
      clear_cooldown_def elapsed_def in_cooldown_def)

section \<open>Properties\<close>

definition known_pin :: "StickyEnv \<Rightarrow> StickyArgs \<Rightarrow> string \<Rightarrow> StickySessionKind \<Rightarrow> StickySession list \<Rightarrow> string option" where
  "known_pin env a key kind rows =
     (case sk_existing a of
        None \<Rightarrow> fst (get_account_id (se_utcnow env) key kind (sk_max_age_seconds a) rows) | Some x \<Rightarrow> x)"

text \<open>Selection with a client key never raises while the accounts of the pool exist, returns an
  account or a message, and a returned account is in the pool and was free to serve at the time
  of the call that chose it, the grace period included.\<close>

lemma sticky_select_sound:
  assumes "sk_key a = None \<or> sk_kind a \<noteq> None" "account_id ` set (run_states run) \<subseteq> se_accounts env"
  shows "\<exists>r run'. select_with_stickiness env a account_map run = (Inr r, run')
     \<and> (account r = None) = (error_message r \<noteq> None)
     \<and> (\<forall>st. account r = Some st \<longrightarrow> account_id st \<in> account_id ` set (run_states run) \<and> admitted env a st)"
proof -
  have "wp (select_with_stickiness env a account_map) (\<lambda>r run'. selected_ok env a run r) run"
  proof (cases "sk_key a = None \<or> sk_key a = Some []")
    case True
    then have "select_with_stickiness env a account_map
        = op_budget (se_choose env) ((choose_args False (sk_budget a))\<lparr>secondary_budget_threshold_pct := 100\<rparr>)"
      by (auto simp: select_with_stickiness_def)
    then show ?thesis by (simp add: wp_choose)
  next
    case False
    then obtain key kind where k: "sk_key a = Some key" "key \<noteq> []" "sk_kind a = Some kind" using assms(1) by auto
    show ?thesis by (rule wp_mono [OF wp_select_ok [OF assms(2) k]]) (erule conjunct1)
  qed
  then obtain r run' where "select_with_stickiness env a account_map run = (Inr r, run')" "selected_ok env a run r"
    by (auto simp: wp_iff)
  then show ?thesis by (auto simp: selected_ok_def split: option.splits)
qed

text \<open>C23: sessions follow the account that served them. A call with a key, whose accounts exist and belong to the caller's
  map of accounts, and during which nobody else writes the rows, returns; it touches the row of its own key only and
  keeps one row per key and kind. For a kind without a maximal age, the row afterwards names the
  account that was returned, so the next request of the session finds it, at any later time. One case is excepted: the
  caller had looked the key up before the call (as the service does for codex sessions), the row has changed since, and the account
  returned is the one that the caller had found.\<close>

theorem sticky_session_followed:
  assumes "account_id ` set (run_states run) \<subseteq> se_accounts env" "account_id ` set (run_states run) \<subseteq> account_map"
    and "sk_key a = Some key" "key \<noteq> []" "sk_kind a = Some kind"
  shows "\<exists>r run'. select_with_stickiness env a account_map run = (Inr r, run')
     \<and> filter (\<lambda>x. sticky_id x \<noteq> (key, kind)) (run_rows run') = filter (\<lambda>x. sticky_id x \<noteq> (key, kind)) (run_rows run)
     \<and> (distinct (map sticky_id (run_rows run)) \<longrightarrow> distinct (map sticky_id (run_rows run')))
     \<and> (\<forall>st now. account r = Some st \<and> sk_max_age_seconds a = None \<longrightarrow>
          fst (get_account_id now key kind None (run_rows run')) = Some (account_id st)
          \<or> sk_existing a = Some (Some (account_id st))
            \<and> fst (get_account_id now key kind None (run_rows run)) \<noteq> Some (account_id st))"
proof -
  obtain r run' where s: "select_with_stickiness env a account_map run = (Inr r, run')"
      "only_key key kind (run_rows run) (run_rows run')"
      "sk_max_age_seconds a = None \<longrightarrow> (case account r of None \<Rightarrow> True
         | Some st \<Rightarrow> pins key kind (account_id st) (run_rows run') \<or> stale_pin a key kind (run_rows run) (account_id st))"
    using wp_select_ok [OF assms(1,3-5), of account_map] assms(2) by (auto simp: wp_iff)
  have found: "fst (get_account_id now key kind None rows) = Some i \<longleftrightarrow> pins key kind i rows" for now i rows
    using assms(4) by (auto simp: pins_def get_account_id_def split: option.splits)
  then show ?thesis
    using s by (intro exI [of _ r] exI [of _ run']) (auto simp: only_key_def stale_pin_def)
qed

theorem sticky_session_followed_witness:
  "\<exists>r run'. select_with_stickiness sample_sticky_env (sample_sticky_args None) {''a'', ''b''} (sample_sticky_run 40) = (Inr r, run')
     \<and> (account r = None \<or> fst (get_account_id 500 ''k'' PROMPT_CACHE None (run_rows run')) = map_option account_id (account r))"
proof -
  have "account_id ` set (run_states (sample_sticky_run 40)) \<subseteq> {''a'', ''b''}" "se_accounts sample_sticky_env = {''a'', ''b''}"
    by (simp_all add: sample_sticky_defs)
  then obtain r run' where "select_with_stickiness sample_sticky_env (sample_sticky_args None) {''a'', ''b''} (sample_sticky_run 40) = (Inr r, run')"
    "\<forall>st now. account r = Some st \<and> sk_max_age_seconds (sample_sticky_args None) = None \<longrightarrow>
          fst (get_account_id now ''k'' PROMPT_CACHE None (run_rows run')) = Some (account_id st)
          \<or> sk_existing (sample_sticky_args None) = Some (Some (account_id st))"
    using sticky_session_followed [of "sample_sticky_run 40" sample_sticky_env "{''a'', ''b''}" "sample_sticky_args None" "''k''" PROMPT_CACHE]
    by (auto simp: sample_sticky_args_def)
  then show ?thesis
    by (intro exI [of _ r] exI [of _ run']) (cases "account r"; simp add: sample_sticky_args_def)
qed

text \<open>A pin with a maximal age survives a short outage. While the pinned account is neither over its
  budget nor rate limited for long, and the caller does not ask for a new account, the row still
  names the pinned account after the call, also when another account has served the request; and
  when the pinned account is available, it is the one that serves foreground traffic.\<close>

lemma sticky_pin_kept:
  assumes "account_id ` set (run_states run) \<subseteq> se_accounts env" "distinct (map account_id (run_states run))"
    and "sk_key a = Some key" "key \<noteq> []" "sk_kind a = Some kind" "sk_existing a = None"
    and "sk_max_age_seconds a \<noteq> None" "\<not> sk_reallocate a"
    and "known_pin env a key kind (run_rows run) = Some (account_id pinned)" "account_id pinned \<noteq> []"
    and "pinned \<in> set (run_states run)" "calm env a pinned" "status pinned \<in> set RECOVERABLE_STATUSES"
  shows "\<exists>r run' row. select_with_stickiness env a account_map run = (Inr r, run')
     \<and> get_entry key kind (run_rows run') = Some row \<and> ss_account_id row = account_id pinned
     \<and> (traffic_class (base_args (sk_budget a)) = foreground
        \<and> snd (check_state (current_time (se_pinned env) None) (pinned_args (base_args (sk_budget a))) pinned) = Available
        \<longrightarrow> (\<exists>st. account r = Some st \<and> account_id st = account_id pinned))"
proof -
  let ?av = "traffic_class (base_args (sk_budget a)) = foreground
        \<and> snd (check_state (current_time (se_pinned env) None) (pinned_args (base_args (sk_budget a))) pinned) = Available"
  let ?Q = "\<lambda>r run'. pins key kind (account_id pinned) (run_rows run') \<and> (?av \<longrightarrow> (\<exists>st. account r = Some st \<and> account_id st = account_id pinned))"
  have "wp (select_with_stickiness env a account_map) ?Q run"
  proof (rule wp_stickiness [OF assms(1,3-5), where R = "\<lambda>out run2. \<exists>run1. run_states run1 = run_states run
        \<and> pins key kind (account_id pinned) (run_rows run1) \<and> pin_stands env a key kind pinned run1 out run2"], goal_cases)
    case (1 existing run1)
    then have e: "existing = Some (account_id pinned)" "pins key kind (account_id pinned) (run_rows run1)"
      using assms(6,9) existing_pins by (auto simp: known_pin_def)
    have "wp (handle_pin env a key kind existing) (pin_stands env a key kind pinned run1) run1"
      unfolding e(1) using assms 1(3) by (intro wp_handle_calm) simp_all
    then show ?case by (rule wp_mono) (use 1(3) e(2) in \<open>intro exI [of _ run1], simp\<close>)
  next
    case (2 r run2)
    then show ?case by (auto simp: pin_stands_def tended_def stays_def)
  next
    case (3 persist secondary run2)
    then obtain run1 where r: "run_states run1 = run_states run" "pins key kind (account_id pinned) (run_rows run1)"
      "pin_stands env a key kind pinned run1 (Search persist secondary) run2" by (elim exE conjE) (rule that)
    have ids: "account_id ` set (run_states run2) \<subseteq> se_accounts env"
      using assms(1) r(1,3) same_accounts_ids [of run1 run2] by (simp add: pin_stands_def)
    show ?case
      by (rule wp_mono [OF wp_search [OF ids assms(4)]])
        (use r in \<open>auto simp: pin_stands_def searched_def tended_def\<close>)
  qed
  then show ?thesis by (auto simp: wp_iff pins_def)
qed

text \<open>C32: a session leaves an account that runs out of budget. A foreground request comes under a strategy that draws from the pool, with
  thresholds that are not negative, and finds its pin (looked up by it or by its caller). The pinned account is
  in the pool, over its threshold and not rate limited; no account is marked \<open>burn_first\<close>, and one
  that is available at the time of the first selection, under the thresholds and not marked \<open>preserve\<close> is in the pool. Then the request is served by an account under the
  thresholds and not marked \<open>preserve\<close>, other than the pinned one, and the row names that account afterwards, whatever the
  readings of the clock in between. (The accounts have different identifiers, exist and are in the caller's map, and nobody else writes the rows
  during the call.)\<close>

theorem sticky_leaves_pressured:
  assumes "account_id ` set (run_states run) \<subseteq> se_accounts env" "account_id ` set (run_states run) \<subseteq> account_map"
    and "distinct (map account_id (run_states run))" "sk_key a = Some key" "key \<noteq> []" "sk_kind a = Some kind"
    and "known_pin env a key kind (run_rows run) = Some (account_id pinned)" "account_id pinned \<noteq> []"
    and "pinned \<in> set (run_states run)" "budget_pressured a pinned"
    and "safe_alternative (se_pool env) (pool_args (sk_budget a)) (run_states run) s"
    and "0 \<le> budget_threshold_pct (sk_budget a)" "0 \<le> secondary_budget_threshold_pct (sk_budget a)"
  shows "\<exists>r run' st s0 row. select_with_stickiness env a account_map run = (Inr r, run') \<and> account r = Some st
     \<and> s0 \<in> set (run_states run) \<and> budget_safe (pool_args (sk_budget a)) s0 \<and> account_id st = account_id s0
     \<and> account_id st \<noteq> account_id pinned
     \<and> get_entry key kind (run_rows run') = Some row \<and> ss_account_id row = account_id st"
proof -
  let ?B = "pool_args (sk_budget a)" and ?c = "current_time (se_pool env 1) None"
  let ?pass = "safe_pass ?c ?B"
  have th: "budget_safe ?B (?pass x) = budget_safe ?B x" for x
    using safe_pass_safe [of ?B ?c x] assms(12,13) by (simp add: pool_args_def)
  have unsafe: "\<not> budget_safe ?B pinned" using assms(10) by (simp add: budget_pressured_def budget_safe_def over_budget_def pool_args_def)
  let ?Q = "\<lambda>r run'. \<exists>st s0. account r = Some st \<and> s0 \<in> set (run_states run) \<and> budget_safe ?B s0
      \<and> account_id st = account_id s0 \<and> account_id st \<noteq> account_id pinned \<and> pins key kind (account_id st) (run_rows run')"
  have "wp (select_with_stickiness env a account_map) ?Q run"
  proof (rule wp_stickiness [OF assms(1,4-6), where R = "\<lambda>out run2. out = Search True True
        \<and> run_states run2 = map ?pass (run_states run)"], goal_cases)
    case (1 existing run1)
    have "existing = Some (account_id pinned)" using 1(1) assms(7) by (simp add: known_pin_def)
    then show ?case
      using wp_handle_pressured [OF assms(5), of run1 pinned a env s kind] assms 1(3) by (auto elim: wp_mono)
  next
    case (3 persist secondary run2)
    then have g: "persist" "secondary" and run2: "run_states run2 = map ?pass (run_states run)" by simp_all
    have alt: "safe_alternative (se_choose env) (choose_args True (sk_budget a)) (run_states run2) (?pass s)"
      unfolding run2 using assms(11-13) by (rule alternative_stays [where envs = "se_pool env" and envs' = "se_choose env"])
    show ?case
      unfolding search_pool_def pin_result.case wp_bind g
    proof (rule wp_budget_safe [where s = "?pass s"], goal_cases)
      case 1
      then show ?case using alt g by simp
    next
      case (2 r st s1 run3)
      from 2(2) obtain s0 where s0: "s0 \<in> set (run_states run)" "s1 = ?pass s0" unfolding run2 set_map by (rule imageE)
      have safe: "budget_safe ?B s0" using 2(3) g s0(2) th by simp
      have id: "account_id st = account_id s0" using 2(4) s0(2) by simp
      have "s0 \<noteq> pinned" using safe unsafe by blast
      then have "account_id s0 \<noteq> account_id pinned" using s0(1) assms(3,9) by (auto simp: distinct_map inj_on_def)
      moreover have "account_id st \<in> se_accounts env" "account_id st \<in> account_map" using s0(1) id assms(1,2) by auto
      ultimately show ?case
        using 2(1) g s0(1) safe id assms(5) by (auto simp: persist_choice_def intro!: wp_upsert)
    qed
  qed simp
  then show ?thesis by (auto simp: wp_iff pins_def)
qed

theorem sticky_leaves_pressured_witness:
  "\<exists>r run' st row. select_with_stickiness sample_sticky_env (sample_sticky_args None) {''a'', ''b''} (sample_sticky_run 99) = (Inr r, run')
     \<and> account r = Some st \<and> account_id st = ''b''
     \<and> get_entry ''k'' PROMPT_CACHE (run_rows run') = Some row \<and> ss_account_id row = ''b''"
proof -
  let ?a = "sample_sticky_args None" and ?env = sample_sticky_env and ?run = "sample_sticky_run 99"
  let ?p = "sample_state ''a'' 99" and ?s = "sample_state ''b'' 10"
  have st: "run_states ?run = [?p, ?s]" by (simp add: sample_sticky_run_def)
  have id: "account_id ?p = ''a''" "account_id ?s = ''b''" "routing_policy ?p = routing_policy ?s" by (simp_all add: sample_state_def new_account_def)
  have pr: "budget_pressured ?a ?p"
    by (simp add: budget_pressured_def above_sticky_budget_threshold_def sample_sticky_defs default_to_def or_else_def)
  have pin: "known_pin ?env ?a ''k'' PROMPT_CACHE (run_rows ?run) = Some (account_id ?p)"
    by (simp add: known_pin_def get_account_id_def get_entry_def sticky_id_def sample_sticky_defs)
  have alt: "safe_alternative (se_pool ?env) (pool_args (sk_budget ?a)) (run_states ?run) ?s"
    unfolding st safe_alternative_def sample_available
    by (simp add: pooled_def is_burn_first_def budget_safe_def over_budget_def
        above_sticky_budget_threshold_def pool_args_def call_args_def sample_sticky_args_def default_args_def sample_state_def
        new_account_def policy_constants default_to_def or_else_def Let_def)
  have f: "account_id ` set (run_states ?run) \<subseteq> se_accounts ?env" "account_id ` set (run_states ?run) \<subseteq> {''a'', ''b''}"
      "distinct (map account_id (run_states ?run))" "account_id ?p \<noteq> []" "?p \<in> set (run_states ?run)"
    unfolding st by (simp_all add: id sample_sticky_env_def)
  have g: "sk_key ?a = Some ''k''" "''k'' \<noteq> []" "sk_kind ?a = Some PROMPT_CACHE"
      "0 \<le> budget_threshold_pct (sk_budget ?a)" "0 \<le> secondary_budget_threshold_pct (sk_budget ?a)"
    by (simp_all add: sample_sticky_args_def sample_sticky_env_def)
  obtain r run' st0 s0 row where r: "select_with_stickiness ?env ?a {''a'', ''b''} ?run = (Inr r, run')" "account r = Some st0"
      "s0 \<in> set (run_states ?run)" "budget_safe (pool_args (sk_budget ?a)) s0" "account_id st0 = account_id s0"
      "account_id st0 \<noteq> account_id ?p" "get_entry ''k'' PROMPT_CACHE (run_rows run') = Some row" "ss_account_id row = account_id st0"
    using sticky_leaves_pressured [OF f(1-3) g(1-3) pin f(4,5) pr alt g(4,5)] by (elim exE conjE) (rule that)
  then have "account_id st0 = ''b''" using id by (auto simp: st)
  then show ?thesis using r by (intro exI [of _ r] exI [of _ run'] exI [of _ st0] exI [of _ row]) simp
qed

end
