(* ===== verification/Quota_Planner.thy ===== *)
theory Quota_Planner
  imports Balancer_State
begin

text \<open>
  The quota planner, after \<open>codex-lb/app/modules/quota_planner/logic.py\<close>: routing costs, demand
  forecasts, warm-up plans and the simulation of the pool.

  An aware \<open>datetime\<close> is its timestamp, a \<open>timedelta\<close> a number of seconds. The time zone database is an
  argument: the offset of a zone at an instant, and the offset that belongs to a wall clock reading
  of the zone (an unknown zone is UTC, with offset 0). The \<open>reason\<close> of an action, a text for the
  dashboard, is left out; so are \<open>parse_working_days\<close> and \<open>encode_working_days\<close>, which only read and
  write JSON, and the two settings that \<open>warmup.py\<close> reads (a credit limit, a model name). Floats are reals, so sums are
  exact where the program rounds. The length of a slot is positive (a slot of no seconds raises in the program).
\<close>

section \<open>Data\<close>

definition SHORT_WINDOW_MAX_MINUTES :: int where
  "SHORT_WINDOW_MAX_MINUTES = 24 * 60"

definition EXPIRING_WINDOW_SECONDS :: pyfloat where
  "EXPIRING_WINDOW_SECONDS = 60 * 60"

definition DEFAULT_SLOT_SECONDS :: int where
  "DEFAULT_SLOT_SECONDS = 15 * 60"

definition DEFAULT_ACCOUNT_WINDOW_CAPACITY :: pyfloat where
  "DEFAULT_ACCOUNT_WINDOW_CAPACITY = 100"

definition MIN_PEAK_EXCESS_UNITS :: pyfloat where
  "MIN_PEAK_EXCESS_UNITS = 1"

record PlannerSettings =
  ps_mode :: string
  ps_timezone :: string
  ps_working_days :: "int list"
  ps_working_hours_start :: string
  ps_working_hours_end :: string
  ps_prewarm_enabled :: bool
  ps_prewarm_lead_minutes :: int
  ps_max_warmups_per_day :: int
  ps_min_expected_gain :: pyfloat
  ps_forecast_quantile :: string
  ps_allow_synthetic_traffic :: bool
  ps_dry_run :: bool

record PlannerAction =
  pa_account_id :: string
  pa_action :: string
  pa_scheduled_at :: "pyfloat option"
  pa_score :: pyfloat
  pa_target_peak_at :: "pyfloat option"
  pa_expected_gain :: pyfloat
  pa_expected_cost :: pyfloat
  pa_warmup_cycle_key :: string
  pa_window_seconds :: pyfloat

record DemandBin =
  bin_slot_epoch :: int
  bin_request_kind :: "string option"
  bin_input_tokens :: int
  bin_cached_input_tokens :: int
  bin_output_tokens :: int
  bin_cost_usd :: pyfloat
  bin_request_count :: int

record DemandForecastSlot =
  slot_start :: pyfloat
  slot_demand_units :: pyfloat
  slot_request_count :: pyfloat

record PlannerForecast =
  pf_generated_at :: pyfloat
  pf_horizon_hours :: int
  pf_slot_seconds :: int
  pf_total_demand_units :: pyfloat
  pf_peak_slot_start :: "pyfloat option"
  pf_peak_demand_units :: pyfloat
  pf_slots :: "DemandForecastSlot list"

record SimulationResult =
  sim_loss :: pyfloat
  sim_unmet_demand :: pyfloat
  sim_wasted_capacity :: pyfloat
  sim_cold_start_penalty :: pyfloat
  sim_synchronization_penalty :: pyfloat
  sim_forecast_units :: pyfloat
  sim_served_units :: pyfloat

record TimeZones =
  tz_offset :: "string \<Rightarrow> pyfloat \<Rightarrow> int"
  tz_wall_offset :: "string \<Rightarrow> pyfloat \<Rightarrow> int"

section \<open>Local time\<close>

definition SECONDS_OF_DAY :: pyfloat where
  "SECONDS_OF_DAY = 86400"

definition to_planner_tz :: "TimeZones \<Rightarrow> pyfloat \<Rightarrow> string \<Rightarrow> pyfloat" where
  "to_planner_tz tz t zone = t + of_int (tz_offset tz zone t)"

text \<open>The epoch is a Thursday.\<close>

definition day_number :: "pyfloat \<Rightarrow> int" where
  "day_number wall = \<lfloor>wall / SECONDS_OF_DAY\<rfloor>"

definition weekday :: "pyfloat \<Rightarrow> int" where
  "weekday wall = (day_number wall + 3) mod 7"

definition time_of_day :: "pyfloat \<Rightarrow> pyfloat" where
  "time_of_day wall = wall - SECONDS_OF_DAY * of_int (day_number wall)"

definition wall_hour :: "pyfloat \<Rightarrow> int" where
  "wall_hour wall = \<lfloor>time_of_day wall / 3600\<rfloor>"

definition wall_minute :: "pyfloat \<Rightarrow> int" where
  "wall_minute wall = \<lfloor>time_of_day wall / 60\<rfloor> mod 60"

text \<open>\<open>int(text)\<close>: surrounding blanks, a sign, digits with single underscores between them.\<close>

fun int_digits :: "string \<Rightarrow> bool \<Rightarrow> int \<Rightarrow> int option" where
  "int_digits [] after_digit acc = (if after_digit then Some acc else None)"
| "int_digits (c # cs) after_digit acc =
     (if is_digit c then int_digits cs True (10 * acc + int (digits_value [c]))
      else if c = CHR ''_'' \<and> after_digit \<and> cs \<noteq> [] then int_digits cs False acc
      else None)"

definition parse_int :: "string \<Rightarrow> int option" where
  "parse_int text =
     (case py_strip text of
        [] \<Rightarrow> None
      | c # cs \<Rightarrow>
          if c = CHR ''-'' then map_option uminus (int_digits cs False 0)
          else if c = CHR ''+'' then int_digits cs False 0
          else int_digits (c # cs) False 0)"

definition parse_hhmm :: "string \<Rightarrow> pyfloat \<Rightarrow> pyfloat" where
  "parse_hhmm raw fallback =
     (if CHR '':'' \<notin> set raw then fallback
      else (case (parse_int (takeWhile (\<lambda>c. c \<noteq> CHR '':'') raw), parse_int (tl (dropWhile (\<lambda>c. c \<noteq> CHR '':'') raw))) of
              (Some h, Some m) \<Rightarrow>
                if 0 \<le> h \<and> h < 24 \<and> 0 \<le> m \<and> m < 60 then of_int (3600 * h + 60 * m) else fallback
            | _ \<Rightarrow> fallback))"

definition inside_work_block :: "TimeZones \<Rightarrow> pyfloat \<Rightarrow> PlannerSettings \<Rightarrow> bool" where
  "inside_work_block tz t settings =
     (let local = to_planner_tz tz t (ps_timezone settings);
          start = parse_hhmm (ps_working_hours_start settings) (9 * 3600);
          finish = parse_hhmm (ps_working_hours_end settings) (18 * 3600);
          current = time_of_day local
      in if weekday local \<notin> set (ps_working_days settings) then False
         else if start \<le> finish then start \<le> current \<and> current < finish
         else current \<ge> start \<or> current < finish)"

definition inside_prewarm_band :: "TimeZones \<Rightarrow> pyfloat \<Rightarrow> PlannerSettings \<Rightarrow> bool" where
  "inside_prewarm_band tz t settings =
     (inside_work_block tz t settings
      \<or> inside_work_block tz (t + of_int (60 * max 0 (ps_prewarm_lead_minutes settings))) settings)"

definition floor_datetime :: "pyfloat \<Rightarrow> int \<Rightarrow> pyfloat" where
  "floor_datetime t slot_seconds = of_int (py_int t - py_int t mod slot_seconds)"

section \<open>Windows\<close>

definition plannable_window_seconds :: "AccountState \<Rightarrow> pyfloat option" where
  "plannable_window_seconds st =
     (case primary_window_minutes st of
        None \<Rightarrow> None
      | Some minutes \<Rightarrow>
          if minutes \<le> 0 \<or> minutes > SHORT_WINDOW_MAX_MINUTES then None else Some (of_int minutes * 60))"

definition is_active_window :: "AccountState \<Rightarrow> pyfloat \<Rightarrow> bool" where
  "is_active_window st current_ts =
     (if plannable_window_seconds st = None then False
      else (case primary_reset_at st of None \<Rightarrow> False | Some r \<Rightarrow> of_int r > current_ts))"

definition is_cold_window :: "AccountState \<Rightarrow> pyfloat \<Rightarrow> bool" where
  "is_cold_window st current_ts = (case primary_reset_at st of None \<Rightarrow> True | Some r \<Rightarrow> of_int r \<le> current_ts)"

definition is_warmup_candidate :: "AccountState \<Rightarrow> pyfloat \<Rightarrow> bool" where
  "is_warmup_candidate st current_ts =
     (status st = ACTIVE \<and> plannable_window_seconds st \<noteq> None \<and> is_cold_window st current_ts)"

definition remaining_percent :: "AccountState \<Rightarrow> pyfloat" where
  "remaining_percent st = (case used_percent st of None \<Rightarrow> 100 | Some u \<Rightarrow> max 0 (100 - min 100 u))"

section \<open>Routing costs\<close>

text \<open>The cost and the reasons of one state.\<close>

definition window_cost :: "TimeZones \<Rightarrow> PlannerSettings \<Rightarrow> pyfloat \<Rightarrow> AccountState \<Rightarrow> pyfloat \<times> string list" where
  "window_cost tz settings current st =
     (if is_active_window st current then
        (let seconds_left = of_int (or_num (primary_reset_at st) 0) - current
         in if seconds_left \<le> EXPIRING_WINDOW_SECONDS
            then (- (20 * (1 - max 0 seconds_left / EXPIRING_WINDOW_SECONDS)), [''expiring_active_window''])
            else (0, []))
      else if plannable_window_seconds st \<noteq> None \<and> is_cold_window st current then
        (if inside_work_block tz current settings then (2, [''soft_cold_start_during_work''])
         else if inside_prewarm_band tz current settings then (12, [''cold_start_in_prewarm_band''])
         else (40, [''cold_start_outside_work'']))
      else (0, []))"

definition state_cost :: "TimeZones \<Rightarrow> PlannerSettings \<Rightarrow> pyfloat \<Rightarrow> AccountState \<Rightarrow> pyfloat \<times> string list" where
  "state_cost tz settings current st =
     (case window_cost tz settings current st of
        (cost, reasons) \<Rightarrow>
          if used_percent st = None \<and> secondary_used_percent st = None
          then (cost + 3, reasons @ [''unknown_usage'']) else (cost, reasons))"

fun join_with :: "string \<Rightarrow> string list \<Rightarrow> string" where
  "join_with sep [] = []"
| "join_with sep [x] = x"
| "join_with sep (x # y # ys) = x @ sep @ join_with sep (y # ys)"

definition add_cost ::
  "TimeZones \<Rightarrow> PlannerSettings \<Rightarrow> pyfloat \<Rightarrow> RoutingCostsByAccount \<Rightarrow> AccountState \<Rightarrow> RoutingCostsByAccount" where
  "add_cost tz settings current costs st =
     (case state_cost tz settings current st of
        (cost, reasons) \<Rightarrow>
          if cost \<noteq> 0
          then AList.update (account_id st) \<lparr>rc_total = cost, rc_reason = Some (join_with '','' reasons)\<rparr> costs
          else costs)"

definition build_routing_costs ::
  "TimeZones \<Rightarrow> PlannerSettings \<Rightarrow> AccountState list \<Rightarrow> pyfloat \<Rightarrow> RoutingCostsByAccount" where
  "build_routing_costs tz settings states now =
     (if ps_mode settings = ''off'' then [] else foldl (add_cost tz settings now) [] states)"

section \<open>Forecast\<close>

definition is_forecast_demand_request :: "string option \<Rightarrow> bool" where
  "is_forecast_demand_request request_kind =
     (py_lower (case request_kind of None \<Rightarrow> ''real'' | Some k \<Rightarrow> or_list k ''real'') \<in> {''normal'', ''real''})"

definition bin_demand_units :: "DemandBin \<Rightarrow> pyfloat" where
  "bin_demand_units row =
     (let token_units = (of_int (max 0 (bin_input_tokens row)) + 0.25 * of_int (max 0 (bin_cached_input_tokens row))
                         + 4 * of_int (max 0 (bin_output_tokens row))) / 1000;
          cost_units = max 0 (bin_cost_usd row) * 100;
          request_units = of_int (max 0 (bin_request_count row)) * 5
      in list_max 0 [token_units, cost_units, request_units])"

definition add_bin :: "(int \<times> pyfloat) list \<Rightarrow> DemandBin \<Rightarrow> (int \<times> pyfloat) list" where
  "add_bin units row =
     (if is_forecast_demand_request (bin_request_kind row)
      then AList.update (bin_slot_epoch row) (default_to (map_of units (bin_slot_epoch row)) 0 + bin_demand_units row) units
      else units)"

definition quantile_level :: "string \<Rightarrow> pyfloat" where
  "quantile_level q = (if q = ''p50'' then 0.5 else if q = ''p90'' then 0.9 else 0.75)"

definition quantile :: "pyfloat list \<Rightarrow> string \<Rightarrow> pyfloat" where
  "quantile values q =
     (if values = [] then 0
      else (let ordered = sort values;
                last_index = int (length ordered) - 1;
                index = min last_index (max 0 (py_round (of_int last_index * quantile_level q)))
            in ordered ! nat index))"

definition calendar_prior_units :: "TimeZones \<Rightarrow> pyfloat \<Rightarrow> PlannerSettings \<Rightarrow> pyfloat" where
  "calendar_prior_units tz t settings =
     (if inside_work_block tz t settings then 6 else if inside_prewarm_band tz t settings then 2 else 0.2)"

definition slot_index :: "pyfloat \<Rightarrow> int \<Rightarrow> int" where
  "slot_index local slot_seconds = wall_hour local * 3600 div slot_seconds + wall_minute local * 60 div slot_seconds"

text \<open>The units recorded for the slots whose local start satisfies a condition, in the order of the
  dictionary.\<close>

definition history_units ::
  "TimeZones \<Rightarrow> PlannerSettings \<Rightarrow> (pyfloat \<Rightarrow> bool) \<Rightarrow> (int \<times> pyfloat) list \<Rightarrow> pyfloat list" where
  "history_units tz settings P units =
     map snd (filter (\<lambda>(epoch, u). P (to_planner_tz tz (of_int epoch) (ps_timezone settings))) units)"

definition forecast_slot ::
  "TimeZones \<Rightarrow> PlannerSettings \<Rightarrow> (int \<times> pyfloat) list \<Rightarrow> pyfloat \<Rightarrow> int \<Rightarrow> pyfloat \<Rightarrow> DemandForecastSlot" where
  "forecast_slot tz settings units recent_per_slot slot_seconds start =
     (let local = to_planner_tz tz start (ps_timezone settings);
          same_weekday = quantile (history_units tz settings
            (\<lambda>l. weekday l = weekday local \<and> slot_index l slot_seconds = slot_index local slot_seconds) units)
            (ps_forecast_quantile settings);
          same_work_hour = quantile (history_units tz settings
            (\<lambda>l. weekday l \<in> set (ps_working_days settings) \<and> wall_hour l = wall_hour local) units)
            (ps_forecast_quantile settings);
          demand_units = 0.5 * same_weekday + 0.25 * same_work_hour + 0.15 * recent_per_slot
            + 0.1 * calendar_prior_units tz start settings
      in \<lparr>slot_start = start, slot_demand_units = max 0 demand_units, slot_request_count = max 0 (demand_units / 10)\<rparr>)"

definition peak_slot :: "DemandForecastSlot list \<Rightarrow> DemandForecastSlot option" where
  "peak_slot slots = (case py_max_by slot_demand_units slots of Inl e \<Rightarrow> None | Inr x \<Rightarrow> Some x)"

definition build_demand_forecast ::
  "TimeZones \<Rightarrow> PlannerSettings \<Rightarrow> DemandBin list \<Rightarrow> pyfloat \<Rightarrow> int \<Rightarrow> int \<Rightarrow> PlannerForecast" where
  "build_demand_forecast tz settings bins now horizon_hours slot_seconds =
     (let current = floor_datetime now slot_seconds;
          units = foldl add_bin [] bins;
          recent_units = sum_list (map snd (filter (\<lambda>(epoch, u). of_int epoch \<ge> current - 24 * 60 * 60) units));
          recent_per_slot = recent_units / of_int (max 1 (py_int (24 * 60 * 60 / of_int slot_seconds)));
          slot_count = nat (py_int (of_int (horizon_hours * 60 * 60) / of_int slot_seconds));
          slots = map (\<lambda>k. forecast_slot tz settings units recent_per_slot slot_seconds
                              (current + of_int (int k * slot_seconds))) [0..<slot_count];
          peak = peak_slot slots
      in \<lparr>pf_generated_at = current, pf_horizon_hours = horizon_hours, pf_slot_seconds = slot_seconds,
          pf_total_demand_units = sum_list (map slot_demand_units slots),
          pf_peak_slot_start = (case peak of None \<Rightarrow> None | Some s \<Rightarrow> if slot_demand_units s > 0 then Some (slot_start s) else None),
          pf_peak_demand_units = (case peak of None \<Rightarrow> 0 | Some s \<Rightarrow> slot_demand_units s),
          pf_slots = slots\<rparr>)"

section \<open>Simulation\<close>

definition penalty_of :: "pyfloat \<Rightarrow> pyfloat \<Rightarrow> pyfloat" where
  "penalty_of left right =
     (let delta = \<bar>right - left\<bar> in if delta < 30 * 60 then 4 else if delta < 60 * 60 then 1 else 0)"

definition synchronization_penalty :: "pyfloat list \<Rightarrow> pyfloat" where
  "synchronization_penalty reset_epochs =
     (let ordered = sort reset_epochs
      in sum_list (map (\<lambda>(left, right). penalty_of left right) (zip ordered (tl ordered))))"

type_synonym sim_window = "pyfloat \<times> pyfloat \<times> pyfloat"

definition state_windows :: "AccountState list \<Rightarrow> pyfloat \<Rightarrow> sim_window list" where
  "state_windows states current_ts =
     map (\<lambda>st. (current_ts, of_int (or_num (primary_reset_at st) 0), DEFAULT_ACCOUNT_WINDOW_CAPACITY * remaining_percent st / 100))
       (filter (\<lambda>st. status st \<in> {ACTIVE, RATE_LIMITED, QUOTA_EXCEEDED} \<and> is_active_window st current_ts) states)"

definition warmup_windows :: "PlannerAction list \<Rightarrow> sim_window list" where
  "warmup_windows warmups =
     concat (map (\<lambda>a. case pa_scheduled_at a of None \<Rightarrow> []
                    | Some start \<Rightarrow> [(start, start + pa_window_seconds a, DEFAULT_ACCOUNT_WINDOW_CAPACITY)]) warmups)"

definition add_window :: "((pyfloat \<times> pyfloat) \<times> pyfloat) list \<Rightarrow> sim_window \<Rightarrow> ((pyfloat \<times> pyfloat) \<times> pyfloat) list" where
  "add_window remaining w =
     (case w of (start_at, reset, capacity) \<Rightarrow>
        if start_at \<ge> reset then remaining
        else AList.update (start_at, reset) (default_to (map_of remaining (start_at, reset)) 0 + capacity) remaining)"

record Draw =
  dr_remaining :: "((pyfloat \<times> pyfloat) \<times> pyfloat) list"
  dr_demand :: pyfloat
  dr_served :: pyfloat

definition draw_window :: "Draw \<Rightarrow> pyfloat \<times> pyfloat \<Rightarrow> Draw" where
  "draw_window d key =
     (if dr_demand d \<le> 0 then d
      else (let left = default_to (map_of (dr_remaining d) key) 0;
                taken = min (dr_demand d) left
            in \<lparr>dr_remaining = AList.update key (left - taken) (dr_remaining d), dr_demand = dr_demand d - taken,
                dr_served = dr_served d + taken\<rparr>))"

definition usable_windows :: "pyfloat \<Rightarrow> ((pyfloat \<times> pyfloat) \<times> pyfloat) list \<Rightarrow> (pyfloat \<times> pyfloat) list" where
  "usable_windows slot_ts remaining = sort (filter (\<lambda>(start, reset). start \<le> slot_ts \<and> slot_ts < reset) (map fst remaining))"

record SimState =
  sm_remaining :: "((pyfloat \<times> pyfloat) \<times> pyfloat) list"
  sm_unmet :: pyfloat
  sm_served :: pyfloat

definition simulate_slot :: "SimState \<Rightarrow> DemandForecastSlot \<Rightarrow> SimState" where
  "simulate_slot s slot =
     (let d = foldl draw_window
                \<lparr>dr_remaining = sm_remaining s, dr_demand = slot_demand_units slot, dr_served = sm_served s\<rparr>
                (usable_windows (slot_start slot) (sm_remaining s))
      in \<lparr>sm_remaining = dr_remaining d, sm_unmet = sm_unmet s + max 0 (dr_demand d), sm_served = dr_served d\<rparr>)"

definition simulate_pool ::
  "AccountState list \<Rightarrow> PlannerForecast \<Rightarrow> PlannerAction list \<Rightarrow> pyfloat option \<Rightarrow> SimulationResult" where
  "simulate_pool states forecast warmups now =
     (let current = default_to now (pf_generated_at forecast);
          active_windows = state_windows states current @ warmup_windows warmups;
          start = \<lparr>sm_remaining = foldl add_window [] active_windows, sm_unmet = 0, sm_served = 0\<rparr>;
          finish = foldl simulate_slot start (pf_slots forecast);
          horizon = current + of_int (pf_horizon_hours forecast * 3600);
          wasted = sum_list (map (\<lambda>((start_at, reset), left). if reset \<le> horizon then max 0 left * 0.05 else 0) (sm_remaining finish));
          sync = synchronization_penalty (map (\<lambda>(start_at, reset, capacity). reset) active_windows);
          cold = sum_list (map (\<lambda>a. if pa_action a = ''warmup'' \<and> (case pa_scheduled_at a of None \<Rightarrow> False | Some t \<Rightarrow> t \<le> current)
                                   then 2 else 0) warmups)
      in \<lparr>sim_loss = sm_unmet finish + wasted + sync + cold, sim_unmet_demand = sm_unmet finish, sim_wasted_capacity = wasted,
          sim_cold_start_penalty = cold, sim_synchronization_penalty = sync,
          sim_forecast_units = pf_total_demand_units forecast, sim_served_units = sm_served finish\<rparr>)"

section \<open>Warm-up plan\<close>

definition work_day_start :: "PlannerSettings \<Rightarrow> pyfloat \<Rightarrow> int \<Rightarrow> pyfloat" where
  "work_day_start settings local_now day_offset =
     SECONDS_OF_DAY * of_int (day_number local_now + day_offset) + parse_hhmm (ps_working_hours_start settings) (9 * 3600)"

definition work_day_candidates :: "TimeZones \<Rightarrow> PlannerSettings \<Rightarrow> int list \<Rightarrow> pyfloat \<Rightarrow> pyfloat list" where
  "work_day_candidates tz settings offsets local_start =
     map (\<lambda>h. let wall = local_start + of_int (3600 * h)
              in wall - of_int (tz_wall_offset tz (ps_timezone settings) wall)) offsets"

text \<open>The loop over fourteen days, left as soon as enough results are there.\<close>

fun next_work_days ::
  "TimeZones \<Rightarrow> PlannerSettings \<Rightarrow> int list \<Rightarrow> nat \<Rightarrow> pyfloat \<Rightarrow> pyfloat list \<Rightarrow> int list \<Rightarrow> pyfloat list" where
  "next_work_days tz settings offsets wanted local_now results [] = results"
| "next_work_days tz settings offsets wanted local_now results (d # ds) =
     (let local_start = work_day_start settings local_now d;
          results' = results @ work_day_candidates tz settings offsets local_start
      in if weekday local_start \<notin> set (ps_working_days settings) \<or> local_start < local_now
         then next_work_days tz settings offsets wanted local_now results ds
         else if length results' \<ge> wanted then results'
         else next_work_days tz settings offsets wanted local_now results' ds)"

definition next_work_starts :: "TimeZones \<Rightarrow> pyfloat \<Rightarrow> PlannerSettings \<Rightarrow> nat \<Rightarrow> int list \<Rightarrow> pyfloat list" where
  "next_work_starts tz now settings days offsets =
     next_work_days tz settings offsets (days * length offsets) (to_planner_tz tz now (ps_timezone settings)) []
       (map int [0..<14])"

fun crossing_starts :: "pyfloat \<Rightarrow> pyfloat \<Rightarrow> pyfloat \<Rightarrow> DemandForecastSlot list \<Rightarrow> pyfloat list" where
  "crossing_starts window_seconds cumulative next_bucket [] = []"
| "crossing_starts window_seconds cumulative next_bucket (slot # slots) =
     (let total = cumulative + slot_demand_units slot
      in if total < next_bucket then crossing_starts window_seconds total next_bucket slots
         else (slot_start slot - window_seconds)
              # crossing_starts window_seconds total (next_bucket + DEFAULT_ACCOUNT_WINDOW_CAPACITY) slots)"

definition demand_capacity_crossing_starts :: "PlannerForecast \<Rightarrow> pyfloat \<Rightarrow> pyfloat list" where
  "demand_capacity_crossing_starts forecast window_seconds =
     take 4 (crossing_starts window_seconds 0 DEFAULT_ACCOUNT_WINDOW_CAPACITY (pf_slots forecast))"

definition raw_candidates ::
  "TimeZones \<Rightarrow> pyfloat \<Rightarrow> PlannerSettings \<Rightarrow> PlannerForecast option \<Rightarrow> pyfloat list \<Rightarrow> pyfloat \<Rightarrow> pyfloat list" where
  "raw_candidates tz now settings forecast existing_reset_epochs window_seconds =
     (if inside_work_block tz now settings then [now] else [])
     @ next_work_starts tz now settings 2 [-4, -3, -2]
     @ (case forecast of None \<Rightarrow> []
        | Some f \<Rightarrow>
            (case pf_peak_slot_start f of None \<Rightarrow> []
             | Some peak \<Rightarrow>
                 map (\<lambda>m. peak - window_seconds + of_int (60 * m)) [-60, -30, 0, 30, 60]
                 @ demand_capacity_crossing_starts f window_seconds))
     @ concat (map (\<lambda>r. [r + 30 * 60 - window_seconds, r - 30 * 60 - window_seconds]) existing_reset_epochs)"

definition clamp_candidate :: "pyfloat \<Rightarrow> pyfloat \<Rightarrow> pyfloat" where
  "clamp_candidate now candidate =
     (let c = floor_datetime (if candidate < now then now else candidate) DEFAULT_SLOT_SECONDS
      in if c < now then now else c)"

definition note_candidate ::
  "TimeZones \<Rightarrow> PlannerSettings \<Rightarrow> pyfloat \<Rightarrow> int list \<times> pyfloat list \<Rightarrow> pyfloat \<Rightarrow> int list \<times> pyfloat list" where
  "note_candidate tz settings now acc candidate =
     (case acc of (seen, normalized) \<Rightarrow>
        let c = clamp_candidate now candidate;
            key = py_int c
        in if key \<in> set seen then (seen, normalized)
           else (key # seen, if inside_prewarm_band tz c settings then normalized @ [c] else normalized))"

definition candidate_start_times ::
  "TimeZones \<Rightarrow> pyfloat \<Rightarrow> PlannerSettings \<Rightarrow> PlannerForecast option \<Rightarrow> pyfloat list \<Rightarrow> pyfloat \<Rightarrow> pyfloat list" where
  "candidate_start_times tz now settings forecast existing_reset_epochs window_seconds =
     take 10 (sort (snd (foldl (note_candidate tz settings now) ([], [])
       (raw_candidates tz now settings forecast existing_reset_epochs window_seconds))))"

definition candidate_cost :: "pyfloat \<Rightarrow> PlannerSettings \<Rightarrow> pyfloat list \<Rightarrow> pyfloat \<Rightarrow> pyfloat" where
  "candidate_cost scheduled_at settings existing_reset_epochs window_seconds =
     synchronization_penalty (existing_reset_epochs @ [scheduled_at + window_seconds])
     + (if ps_allow_synthetic_traffic settings \<and> \<not> ps_dry_run settings then 0.5 else 0)"

definition peak_aligned_gain :: "TimeZones \<Rightarrow> pyfloat \<Rightarrow> PlannerSettings \<Rightarrow> PlannerForecast \<Rightarrow> pyfloat \<Rightarrow> pyfloat" where
  "peak_aligned_gain tz scheduled_at settings forecast window_seconds =
     (let work_slots = filter (\<lambda>s. inside_work_block tz (slot_start s) settings) (pf_slots forecast);
          baseline = quantile (map slot_demand_units work_slots) ''p50'';
          peak_excess = max 0 (pf_peak_demand_units forecast - baseline);
          window_end = scheduled_at + window_seconds
      in case pf_peak_slot_start forecast of
           None \<Rightarrow> 0
         | Some peak \<Rightarrow>
             if work_slots = [] then 0
             else if peak_excess < MIN_PEAK_EXCESS_UNITS then 0
             else (let window_slots = filter (\<lambda>s. scheduled_at \<le> slot_start s \<and> slot_start s < window_end) work_slots;
                       reset_aligns_peak = (\<bar>window_end - peak\<bar> \<le> of_int (pf_slot_seconds forecast));
                       window_units = sum_list (map slot_demand_units window_slots);
                       window_excess = max 0 (window_units - baseline * of_nat (length window_slots));
                       reset_bonus = (if reset_aligns_peak then peak_excess else 0)
                   in if window_slots = [] \<and> \<not> reset_aligns_peak then 0
                      else if \<not> (scheduled_at \<le> peak \<and> peak < window_end) then max 0 (window_excess - peak_excess) + reset_bonus
                      else window_excess + peak_excess + reset_bonus))"

definition score_candidate_start ::
  "TimeZones \<Rightarrow> pyfloat \<Rightarrow> PlannerSettings \<Rightarrow> PlannerForecast option \<Rightarrow> pyfloat list \<Rightarrow> pyfloat \<Rightarrow> pyfloat" where
  "score_candidate_start tz scheduled_at settings forecast existing_reset_epochs window_seconds =
     (case forecast of None \<Rightarrow> 0
      | Some f \<Rightarrow> max 0 (peak_aligned_gain tz scheduled_at settings f window_seconds
                      - candidate_cost scheduled_at settings existing_reset_epochs window_seconds))"

text \<open>\<open>%Y%m%d\<close> of a day number: the Gregorian date, years of four digits.\<close>

definition civil_date :: "int \<Rightarrow> int \<times> int \<times> int" where
  "civil_date days =
     (let z = days + 719468;
          era = z div 146097;
          doe = z - era * 146097;
          yoe = (doe - doe div 1460 + doe div 36524 - doe div 146096) div 365;
          doy = doe - (365 * yoe + yoe div 4 - yoe div 100);
          mp = (5 * doy + 2) div 153;
          d = doy - (153 * mp + 2) div 5 + 1;
          m = (if mp < 10 then mp + 3 else mp - 9)
      in (yoe + era * 400 + (if m \<le> 2 then 1 else 0), m, d))"

definition pad_number :: "nat \<Rightarrow> int \<Rightarrow> string" where
  "pad_number width n = (let s = show_int n in replicate (width - length s) CHR ''0'' @ s)"

definition warmup_cycle_key :: "TimeZones \<Rightarrow> pyfloat \<Rightarrow> PlannerSettings \<Rightarrow> string" where
  "warmup_cycle_key tz scheduled_at settings =
     (let local = to_planner_tz tz scheduled_at (ps_timezone settings);
          lead = max 1 (ps_prewarm_lead_minutes settings);
          cycle_minute = (wall_hour local * 60 + wall_minute local) div lead;
          (y, m, d) = civil_date (day_number local)
      in pad_number 4 y @ pad_number 2 m @ pad_number 2 d @ '':warmup_cycle:'' @ show_int cycle_minute)"

definition active_resets :: "AccountState list \<Rightarrow> pyfloat \<Rightarrow> pyfloat list" where
  "active_resets states current =
     concat (map (\<lambda>st. case primary_reset_at st of None \<Rightarrow> []
                   | Some r \<Rightarrow> if is_active_window st current then [of_int r] else []) states)"

definition selected_resets :: "PlannerAction list \<Rightarrow> pyfloat list" where
  "selected_resets actions =
     concat (map (\<lambda>a. case pa_scheduled_at a of None \<Rightarrow> [] | Some t \<Rightarrow> [t + pa_window_seconds a]) actions)"

definition best_candidate ::
  "TimeZones \<Rightarrow> PlannerSettings \<Rightarrow> PlannerForecast option \<Rightarrow> pyfloat list \<Rightarrow> pyfloat \<Rightarrow> pyfloat list \<Rightarrow> (pyfloat \<times> pyfloat) option" where
  "best_candidate tz settings forecast resets window_seconds candidate_times =
     (case py_max_by (\<lambda>item. (snd item, - fst item))
             (map (\<lambda>c. (c, score_candidate_start tz c settings forecast resets window_seconds)) candidate_times) of
        Inl e \<Rightarrow> None | Inr x \<Rightarrow> Some x)"

definition plan_action ::
  "TimeZones \<Rightarrow> PlannerSettings \<Rightarrow> PlannerForecast option \<Rightarrow> pyfloat list \<Rightarrow> string \<Rightarrow> pyfloat \<Rightarrow> pyfloat \<Rightarrow> pyfloat \<Rightarrow> PlannerAction" where
  "plan_action tz settings forecast resets acct window_seconds scheduled_at score =
     (let expected_cost = candidate_cost scheduled_at settings resets window_seconds
      in \<lparr>pa_account_id = acct,
          pa_action = (if ps_allow_synthetic_traffic settings \<and> \<not> ps_dry_run settings then ''warmup'' else ''reserve''),
          pa_scheduled_at = Some scheduled_at, pa_score = score,
          pa_target_peak_at = (case forecast of None \<Rightarrow> None | Some f \<Rightarrow> pf_peak_slot_start f),
          pa_expected_gain = score + expected_cost, pa_expected_cost = expected_cost,
          pa_warmup_cycle_key = warmup_cycle_key tz scheduled_at settings, pa_window_seconds = window_seconds\<rparr>)"

definition plan_state ::
  "TimeZones \<Rightarrow> PlannerSettings \<Rightarrow> PlannerForecast option \<Rightarrow> pyfloat \<Rightarrow> pyfloat list \<Rightarrow> PlannerAction list \<Rightarrow> AccountState
     \<Rightarrow> PlannerAction list" where
  "plan_state tz settings forecast current resets actions st =
     (if \<not> is_warmup_candidate st current then actions
      else (case plannable_window_seconds st of
              None \<Rightarrow> actions
            | Some window_seconds \<Rightarrow>
                (let all_resets = resets @ selected_resets actions
                 in case best_candidate tz settings forecast all_resets window_seconds
                           (candidate_start_times tz current settings forecast resets window_seconds) of
                      None \<Rightarrow> actions
                    | Some (scheduled_at, score) \<Rightarrow>
                        if score < ps_min_expected_gain settings then actions
                        else actions @ [plan_action tz settings forecast all_resets (account_id st) window_seconds scheduled_at score])))"

definition plan_shadow_actions ::
  "TimeZones \<Rightarrow> PlannerSettings \<Rightarrow> AccountState list \<Rightarrow> PlannerForecast option \<Rightarrow> pyfloat \<Rightarrow> PlannerAction list" where
  "plan_shadow_actions tz settings states forecast now =
     (if ps_mode settings = ''off'' then []
      else if \<not> ps_prewarm_enabled settings then []
      else if \<not> inside_prewarm_band tz now settings then []
      else (let actions = foldl (plan_state tz settings forecast now (active_resets states now)) [] states
            in take (nat (max 0 (ps_max_warmups_per_day settings)))
                 (sort_key (\<lambda>a. (- pa_score a, default_to (pa_scheduled_at a) now, pa_account_id a)) actions)))"

section \<open>Forecasts are not negative\<close>

lemma bin_demand_units_nonneg: "0 \<le> bin_demand_units row"
proof -
  have "0 \<le> max 0 (bin_cost_usd row) * 100"
    by simp
  also have "\<dots> \<le> bin_demand_units row"
    unfolding bin_demand_units_def Let_def by (rule list_max_ge) simp
  finally show ?thesis .
qed

lemma list_all_update: "list_all P xs \<Longrightarrow> P (k, v) \<Longrightarrow> list_all P (AList.update k v xs)"
  by (induction xs) (auto split: if_splits)

lemma map_of_nonneg: "list_all (\<lambda>(k, v). 0 \<le> v) xs \<Longrightarrow> 0 \<le> default_to (map_of xs k) (0 :: pyfloat)"
  by (induction xs) (auto simp: default_to_def split: option.splits)

lemma units_nonneg: "list_all (\<lambda>(k, v). 0 \<le> v) units \<Longrightarrow> list_all (\<lambda>(k, v). 0 \<le> v) (foldl add_bin units bins)"
proof (induction bins arbitrary: units)
  case (Cons row rows)
  have "list_all (\<lambda>(k, v). 0 \<le> v) (add_bin units row)"
    using Cons.prems bin_demand_units_nonneg [of row] map_of_nonneg [OF Cons.prems]
    by (auto simp: add_bin_def intro!: list_all_update)
  then show ?case
    by (simp add: Cons.IH)
qed simp

lemma forecast_slots_nonneg: "list_all (\<lambda>slot. 0 \<le> slot_demand_units slot) (pf_slots (build_demand_forecast tz settings bins now h s))"
  by (simp add: build_demand_forecast_def Let_def forecast_slot_def list_all_iff)

section \<open>The simulation conserves demand and capacity\<close>

lemma sum_update:
  "sum_list (map snd (AList.update k v xs)) = sum_list (map snd xs) - default_to (map_of xs k) 0 + (v :: pyfloat)"
  by (induction xs) (auto simp: default_to_def)

definition left_total :: "((pyfloat \<times> pyfloat) \<times> pyfloat) list \<Rightarrow> pyfloat" where
  "left_total remaining = sum_list (map snd remaining)"

definition windows_ok :: "((pyfloat \<times> pyfloat) \<times> pyfloat) list \<Rightarrow> bool" where
  "windows_ok remaining = list_all (\<lambda>(k, v). 0 \<le> v) remaining"

lemma left_total_nonneg: "windows_ok remaining \<Longrightarrow> 0 \<le> left_total remaining"
  by (force simp: windows_ok_def left_total_def list_all_iff intro!: sum_list_nonneg)

lemma draw_window_conserves:
  "dr_demand (draw_window d key) + dr_served (draw_window d key) = dr_demand d + dr_served d"
  "left_total (dr_remaining (draw_window d key)) + dr_served (draw_window d key) = left_total (dr_remaining d) + dr_served d"
  by (auto simp: draw_window_def Let_def left_total_def sum_update)

lemma draw_window_ok:
  assumes "windows_ok (dr_remaining d)" and "0 \<le> dr_demand d"
  shows "windows_ok (dr_remaining (draw_window d key)) \<and> 0 \<le> dr_demand (draw_window d key)
           \<and> dr_served d \<le> dr_served (draw_window d key)"
  using assms map_of_nonneg [of "dr_remaining d" key]
  by (auto simp: draw_window_def Let_def windows_ok_def intro!: list_all_update)

lemma draw_windows_conserve:
  "windows_ok (dr_remaining d) \<Longrightarrow> 0 \<le> dr_demand d \<Longrightarrow>
   (let e = foldl draw_window d keys
    in windows_ok (dr_remaining e) \<and> 0 \<le> dr_demand e \<and> dr_served d \<le> dr_served e
       \<and> dr_demand e + dr_served e = dr_demand d + dr_served d
       \<and> left_total (dr_remaining e) + dr_served e = left_total (dr_remaining d) + dr_served d)"
proof (induction keys arbitrary: d)
  case (Cons key keys)
  have "windows_ok (dr_remaining (draw_window d key))" and "0 \<le> dr_demand (draw_window d key)"
    and "dr_served d \<le> dr_served (draw_window d key)"
    using draw_window_ok [OF Cons.prems] by blast+
  with Cons.IH [OF this(1,2)] show ?case
    by (simp add: Let_def draw_window_conserves)
qed (simp add: Let_def)

lemma simulate_slot_conserves:
  assumes "windows_ok (sm_remaining s)" and "0 \<le> slot_demand_units slot"
  shows "windows_ok (sm_remaining (simulate_slot s slot))"
    and "sm_served s \<le> sm_served (simulate_slot s slot)" and "sm_unmet s \<le> sm_unmet (simulate_slot s slot)"
    and "sm_served (simulate_slot s slot) + sm_unmet (simulate_slot s slot) = sm_served s + sm_unmet s + slot_demand_units slot"
    and "left_total (sm_remaining (simulate_slot s slot)) + sm_served (simulate_slot s slot) = left_total (sm_remaining s) + sm_served s"
  using draw_windows_conserve [of "\<lparr>dr_remaining = sm_remaining s, dr_demand = slot_demand_units slot, dr_served = sm_served s\<rparr>"
      "usable_windows (slot_start slot) (sm_remaining s)"] assms
  by (simp_all add: simulate_slot_def Let_def max_absorb2)

lemma simulate_slots_conserve:
  "windows_ok (sm_remaining s) \<Longrightarrow> list_all (\<lambda>slot. 0 \<le> slot_demand_units slot) slots \<Longrightarrow>
   (let e = foldl simulate_slot s slots
    in windows_ok (sm_remaining e) \<and> sm_served s \<le> sm_served e \<and> sm_unmet s \<le> sm_unmet e
       \<and> sm_served e + sm_unmet e = sm_served s + sm_unmet s + sum_list (map slot_demand_units slots)
       \<and> left_total (sm_remaining e) + sm_served e = left_total (sm_remaining s) + sm_served s)"
proof (induction slots arbitrary: s)
  case (Cons slot slots)
  then have "0 \<le> slot_demand_units slot" and rest: "list_all (\<lambda>slot. 0 \<le> slot_demand_units slot) slots"
    by simp_all
  note step = simulate_slot_conserves [OF Cons.prems(1) this(1)]
  show ?case
    using Cons.IH [OF step(1) rest] step(2-) by (simp add: Let_def)
qed (simp add: Let_def)

text \<open>The windows the simulation starts from.\<close>

definition pool_windows :: "AccountState list \<Rightarrow> PlannerAction list \<Rightarrow> pyfloat \<Rightarrow> sim_window list" where
  "pool_windows states warmups current = state_windows states current @ warmup_windows warmups"

definition pool_capacity :: "AccountState list \<Rightarrow> PlannerAction list \<Rightarrow> pyfloat \<Rightarrow> pyfloat" where
  "pool_capacity states warmups current =
     sum_list (map (\<lambda>(start_at, reset, capacity). if start_at < reset then capacity else 0) (pool_windows states warmups current))"

lemma pool_windows_nonneg: "list_all (\<lambda>(start_at, reset, capacity). 0 \<le> capacity) (pool_windows states warmups current)"
  by (auto simp: pool_windows_def state_windows_def warmup_windows_def list_all_iff remaining_percent_def
      DEFAULT_ACCOUNT_WINDOW_CAPACITY_def split: option.splits)

lemma add_windows_total:
  "windows_ok remaining \<Longrightarrow> list_all (\<lambda>(start_at, reset, capacity). 0 \<le> capacity) ws \<Longrightarrow>
   windows_ok (foldl add_window remaining ws)
   \<and> left_total (foldl add_window remaining ws)
     = left_total remaining + sum_list (map (\<lambda>(start_at, reset, capacity). if start_at < reset then capacity else 0) ws)"
proof (induction ws arbitrary: remaining)
  case (Cons w ws)
  obtain start_at reset capacity where w: "w = (start_at, reset, capacity)"
    by (cases w)
  have "windows_ok (add_window remaining w)"
    using Cons.prems map_of_nonneg [of remaining "(start_at, reset)"]
    by (auto simp: add_window_def w windows_ok_def intro!: list_all_update)
  moreover have "left_total (add_window remaining w) = left_total remaining + (if start_at < reset then capacity else 0)"
    by (simp add: add_window_def w left_total_def sum_update)
  ultimately show ?case
    using Cons.IH [of "add_window remaining w"] Cons.prems by (simp add: w)
qed simp

lemma synchronization_penalty_nonneg: "0 \<le> synchronization_penalty resets"
  by (auto simp: synchronization_penalty_def penalty_of_def Let_def intro!: sum_list_nonneg)

lemma simulate_pool_conserves:
  fixes states warmups now forecast
  defines "r \<equiv> simulate_pool states forecast warmups now"
  assumes "list_all (\<lambda>slot. 0 \<le> slot_demand_units slot) (pf_slots forecast)"
  shows "sim_served_units r + sim_unmet_demand r = sum_list (map slot_demand_units (pf_slots forecast))
    \<and> 0 \<le> sim_served_units r \<and> 0 \<le> sim_unmet_demand r
    \<and> sim_served_units r \<le> pool_capacity states warmups (default_to now (pf_generated_at forecast))
    \<and> sim_unmet_demand r \<le> sim_loss r"
proof -
  define current where "current = default_to now (pf_generated_at forecast)"
  define s where "s = \<lparr>sm_remaining = foldl add_window [] (pool_windows states warmups current), sm_unmet = 0, sm_served = 0\<rparr>"
  define e where "e = foldl simulate_slot s (pf_slots forecast)"
  have start: "windows_ok (sm_remaining s) \<and> left_total (sm_remaining s) = pool_capacity states warmups current"
    using add_windows_total [OF _ pool_windows_nonneg, of "[]" states warmups current]
    by (simp add: s_def windows_ok_def left_total_def pool_capacity_def)
  then have run: "windows_ok (sm_remaining e)" "0 \<le> sm_served e" "0 \<le> sm_unmet e"
    "sm_served e + sm_unmet e = sum_list (map slot_demand_units (pf_slots forecast))"
    "left_total (sm_remaining e) + sm_served e = pool_capacity states warmups current"
    using simulate_slots_conserve [of s "pf_slots forecast"] assms(2) by (simp_all add: e_def s_def Let_def)
  have wasted: "0 \<le> sum_list (map (\<lambda>((start_at, reset), left). if reset \<le> horizon then max 0 left * 0.05 else 0) (sm_remaining e))"
    for horizon :: pyfloat
    by (rule sum_list_nonneg) auto
  have cold: "0 \<le> sum_list (map (\<lambda>a. if P a then 2 else 0 :: pyfloat) warmups)" for P
    by (rule sum_list_nonneg) auto
  have r: "sim_served_units r = sm_served e" "sim_unmet_demand r = sm_unmet e" "sm_unmet e \<le> sim_loss r"
    using wasted cold synchronization_penalty_nonneg
    by (simp_all add: r_def simulate_pool_def Let_def e_def s_def current_def pool_windows_def add_nonneg_nonneg)
  show ?thesis
    using run r left_total_nonneg [OF run(1)] by (simp add: current_def)
qed

text \<open>C33: simulating the pool on a forecast neither invents nor loses demand. What the windows served
  and what was left unmet add up to the forecast's total demand, neither part is negative, no more is
  served than the capacity of the windows (the remaining share of each active window and a full
  window per planned warm-up), and the loss the planner minimises is at least the unmet demand.
\<close>

theorem simulation_conserves_demand:
  "let forecast = build_demand_forecast tz settings bins now horizon_hours slot_seconds;
       r = simulate_pool states forecast warmups moment
   in sim_served_units r + sim_unmet_demand r = sim_forecast_units r
      \<and> 0 \<le> sim_served_units r \<and> 0 \<le> sim_unmet_demand r
      \<and> sim_served_units r \<le> pool_capacity states warmups (default_to moment (pf_generated_at forecast))
      \<and> sim_unmet_demand r \<le> sim_loss r"
proof -
  define forecast where "forecast = build_demand_forecast tz settings bins now horizon_hours slot_seconds"
  have "sim_forecast_units (simulate_pool states forecast warmups moment) = sum_list (map slot_demand_units (pf_slots forecast))"
    by (simp add: simulate_pool_def Let_def forecast_def build_demand_forecast_def)
  moreover have "list_all (\<lambda>slot. 0 \<le> slot_demand_units slot) (pf_slots forecast)"
    by (simp add: forecast_def forecast_slots_nonneg)
  ultimately show ?thesis
    using simulate_pool_conserves [of forecast states warmups moment] by (simp add: Let_def forecast_def)
qed

section \<open>Warm-up plans\<close>

lemma clamp_candidate_ge: "now \<le> clamp_candidate now candidate"
  by (simp add: clamp_candidate_def Let_def)

lemma note_candidates_ok:
  "list_all (\<lambda>c. now \<le> c \<and> inside_prewarm_band tz c settings) (snd acc) \<Longrightarrow>
   list_all (\<lambda>c. now \<le> c \<and> inside_prewarm_band tz c settings) (snd (foldl (note_candidate tz settings now) acc candidates))"
proof (induction candidates arbitrary: acc)
  case (Cons c cs)
  have "list_all (\<lambda>c. now \<le> c \<and> inside_prewarm_band tz c settings) (snd (note_candidate tz settings now acc c))"
    using Cons.prems clamp_candidate_ge by (cases acc) (simp add: note_candidate_def Let_def)
  then show ?case
    by (simp add: Cons.IH)
qed simp

lemma candidate_start_times_ok:
  assumes "c \<in> set (candidate_start_times tz now settings forecast resets window_seconds)"
  shows "now \<le> c" and "inside_prewarm_band tz c settings"
proof -
  have "c \<in> set (snd (foldl (note_candidate tz settings now) ([], []) (raw_candidates tz now settings forecast resets window_seconds)))"
    using assms unfolding candidate_start_times_def by (metis in_set_takeD set_sort)
  then show "now \<le> c" and "inside_prewarm_band tz c settings"
    using note_candidates_ok [of now tz settings "([], [])"] by (auto simp: list_all_iff)
qed

lemma best_candidate_in:
  assumes "best_candidate tz settings forecast resets window_seconds cs = Some (t, score)"
  shows "t \<in> set cs" and "score = score_candidate_start tz t settings forecast resets window_seconds"
    and "\<forall>c \<in> set cs. score_candidate_start tz c settings forecast resets window_seconds \<le> score"
proof -
  let ?items = "map (\<lambda>c. (c, score_candidate_start tz c settings forecast resets window_seconds)) cs"
  have best: "py_max_by (\<lambda>item. (snd item, - fst item)) ?items = Inr (t, score)"
    using assms by (simp add: best_candidate_def split: sum.splits)
  then have "(t, score) \<in> set ?items"
    by (rule max_by.pick_member)
  then show "t \<in> set cs" and "score = score_candidate_start tz t settings forecast resets window_seconds"
    by auto
  show "\<forall>c \<in> set cs. score_candidate_start tz c settings forecast resets window_seconds \<le> score"
    using py_max_by_greatest [OF best] by (force simp: less_eq_prod_def)
qed

text \<open>What an action of the plan promises about the account it is for.\<close>

definition action_sound :: "TimeZones \<Rightarrow> PlannerSettings \<Rightarrow> AccountState list \<Rightarrow> pyfloat \<Rightarrow> PlannerAction \<Rightarrow> bool" where
  "action_sound tz settings states now a =
     (list_ex (\<lambda>st. account_id st = pa_account_id a \<and> is_warmup_candidate st now
                     \<and> plannable_window_seconds st = Some (pa_window_seconds a)) states
      \<and> (case pa_scheduled_at a of None \<Rightarrow> False | Some t \<Rightarrow> now \<le> t \<and> inside_prewarm_band tz t settings)
      \<and> ps_min_expected_gain settings \<le> pa_score a \<and> 0 \<le> pa_score a
      \<and> pa_score a = pa_expected_gain a - pa_expected_cost a
      \<and> (pa_action a = ''warmup'' \<longleftrightarrow> ps_allow_synthetic_traffic settings \<and> \<not> ps_dry_run settings))"

lemma plan_state_cases:
  assumes "st \<in> set states"
  obtains "plan_state tz settings forecast now resets actions st = actions"
  | a where "plan_state tz settings forecast now resets actions st = actions @ [a]"
      and "pa_account_id a = account_id st" and "action_sound tz settings states now a"
proof (cases "plan_state tz settings forecast now resets actions st = actions")
  case False
  let ?resets = "resets @ selected_resets actions"
  from False obtain w t score where cand: "is_warmup_candidate st now" and w: "plannable_window_seconds st = Some w"
    and best: "best_candidate tz settings forecast ?resets w (candidate_start_times tz now settings forecast resets w) = Some (t, score)"
    and gain: "ps_min_expected_gain settings \<le> score"
    and out: "plan_state tz settings forecast now resets actions st
                = actions @ [plan_action tz settings forecast ?resets (account_id st) w t score]"
    by (auto simp: plan_state_def Let_def split: if_splits option.splits)
  have "0 \<le> score"
    using best_candidate_in(2) [OF best] by (simp add: score_candidate_start_def split: option.split)
  moreover have "now \<le> t" and "inside_prewarm_band tz t settings"
    using candidate_start_times_ok best_candidate_in(1) [OF best] by blast+
  ultimately have "action_sound tz settings states now (plan_action tz settings forecast ?resets (account_id st) w t score)"
    using assms cand w gain by (auto simp: action_sound_def plan_action_def Let_def list_ex_iff)
  then show ?thesis
    by (rule that(2) [OF out, rotated]) (simp add: plan_action_def Let_def)
qed (rule that(1))

lemma plan_states_sound:
  assumes "set sts \<subseteq> set states" and "list_all (action_sound tz settings states now) actions"
  shows "list_all (action_sound tz settings states now) (foldl (plan_state tz settings forecast now resets) actions sts)"
  using assms
proof (induction sts arbitrary: actions)
  case (Cons st sts)
  have "st \<in> set states"
    using Cons.prems by simp
  then have "list_all (action_sound tz settings states now) (plan_state tz settings forecast now resets actions st)"
    by (rule plan_state_cases [where tz = tz and settings = settings and forecast = forecast and now = now
          and resets = resets and actions = actions]) (simp_all add: Cons.prems)
  then show ?case
    using Cons by simp
qed simp

lemma plan_states_once:
  assumes "set sts \<subseteq> set states" and "distinct (map account_id sts)" and "distinct (map pa_account_id actions)"
    and "pa_account_id ` set actions \<inter> account_id ` set sts = {}"
  shows "distinct (map pa_account_id (foldl (plan_state tz settings forecast now resets) actions sts))"
  using assms
proof (induction sts arbitrary: actions)
  case (Cons st sts)
  have st: "st \<in> set states"
    using Cons.prems by simp
  have "distinct (map pa_account_id (plan_state tz settings forecast now resets actions st))
        \<and> pa_account_id ` set (plan_state tz settings forecast now resets actions st) \<inter> account_id ` set sts = {}"
    using st by (rule plan_state_cases [where tz = tz and settings = settings and forecast = forecast and now = now
          and resets = resets and actions = actions]) (use Cons.prems in auto)
  then show ?case
    using Cons by simp
qed simp

lemma sorted_map_fst: "sorted xs \<Longrightarrow> sorted (map fst (xs :: (pyfloat \<times> pyfloat \<times> string) list))"
  by (induction xs) (auto simp: less_eq_prod_def)

text \<open>A plan has at most \<open>max_warmups_per_day\<close> actions, best score first, and every one of them is
  for a known account that is active and whose short window is cold, is scheduled at or after the
  moment of planning and inside the pre-warm band, and is expected to gain at least
  \<open>min_expected_gain\<close> net of its cost; no account is warmed up twice. Synthetic traffic is only planned where it is allowed and the
  planner is not on a dry run; otherwise the action only reserves.
\<close>

lemma plan_sound:
  assumes "distinct (map account_id states)"
  shows "let plan = plan_shadow_actions tz settings states forecast now
   in int (length plan) \<le> max 0 (ps_max_warmups_per_day settings)
      \<and> list_all (action_sound tz settings states now) plan
      \<and> sorted (map (\<lambda>a. - pa_score a) plan)
      \<and> distinct (map pa_account_id plan)"
proof -
  let ?key = "\<lambda>a. (- pa_score a, default_to (pa_scheduled_at a) now, pa_account_id a)"
  define actions where "actions = foldl (plan_state tz settings forecast now (active_resets states now)) [] states"
  define plan where "plan = take (nat (max 0 (ps_max_warmups_per_day settings))) (sort_key ?key actions)"
  have "list_all (action_sound tz settings states now) actions"
    unfolding actions_def by (rule plan_states_sound) simp_all
  then have "list_all (action_sound tz settings states now) plan"
    by (auto simp: plan_def list_all_iff dest: in_set_takeD)
  moreover have "distinct (map pa_account_id actions)"
    unfolding actions_def by (rule plan_states_once [of states states]) (use assms in simp_all)
  then have "distinct (map pa_account_id plan)"
    unfolding plan_def take_map [symmetric] by (intro distinct_take) (simp add: distinct_map)
  moreover have "sorted (map ?key (sort_key ?key actions))"
    by (rule sorted_sort_key)
  then have "sorted (map ?key plan)"
    unfolding plan_def take_map [symmetric] by (rule sorted_wrt_take)
  then have "sorted (map fst (map ?key plan))"
    by (rule sorted_map_fst)
  then have "sorted (map (\<lambda>a. - pa_score a) plan)"
    by (simp add: comp_def)
  moreover have "int (length plan) \<le> max 0 (ps_max_warmups_per_day settings)"
    by (simp add: plan_def)
  ultimately show ?thesis
    by (simp add: plan_shadow_actions_def Let_def plan_def actions_def)
qed

text \<open>A Monday morning before work, an account with a cold five hour window and a peak at ten.\<close>

definition sample_planner :: PlannerSettings where
  "sample_planner =
     \<lparr>ps_mode = ''shadow'', ps_timezone = ''UTC'', ps_working_days = [0, 1, 2, 3, 4], ps_working_hours_start = ''09:00'',
      ps_working_hours_end = ''18:00'', ps_prewarm_enabled = True, ps_prewarm_lead_minutes = 300, ps_max_warmups_per_day = 3,
      ps_min_expected_gain = 1, ps_forecast_quantile = ''p75'', ps_allow_synthetic_traffic = False, ps_dry_run = True\<rparr>"

definition sample_zones :: TimeZones where
  "sample_zones = \<lparr>tz_offset = \<lambda>zone t. 0, tz_wall_offset = \<lambda>zone wall. 0\<rparr>"

definition sample_monday :: "pyfloat \<Rightarrow> pyfloat" where
  "sample_monday hour = 4 * 86400 + 3600 * hour"

definition sample_slot :: "pyfloat \<Rightarrow> pyfloat \<Rightarrow> DemandForecastSlot" where
  "sample_slot hour units = \<lparr>slot_start = sample_monday hour, slot_demand_units = units, slot_request_count = units / 10\<rparr>"

definition sample_forecast :: PlannerForecast where
  "sample_forecast =
     \<lparr>pf_generated_at = sample_monday 7, pf_horizon_hours = 36, pf_slot_seconds = 900, pf_total_demand_units = 52,
      pf_peak_slot_start = Some (sample_monday 10), pf_peak_demand_units = 50,
      pf_slots = [sample_slot 9 1, sample_slot 10 50, sample_slot 11 1]\<rparr>"

definition cold_account :: AccountState where
  "cold_account = (new_account ''a'' ACTIVE)\<lparr>primary_window_minutes := Some 300\<rparr>"

section \<open>Routing costs are bounded\<close>

definition cost_ok :: "TimeZones \<Rightarrow> PlannerSettings \<Rightarrow> pyfloat \<Rightarrow> AccountState list \<Rightarrow> string \<times> RoutingCost \<Rightarrow> bool" where
  "cost_ok tz settings now states entry =
     (case entry of (acct, cost) \<Rightarrow>
        acct \<in> account_id ` set states \<and> rc_total cost \<noteq> 0 \<and> - 20 < rc_total cost
        \<and> rc_total cost \<le> (if inside_work_block tz now settings then 5
                           else if inside_prewarm_band tz now settings then 15 else 43))"

lemma window_cost_bounds:
  "- 20 < fst (window_cost tz settings now st)
   \<and> fst (window_cost tz settings now st)
       \<le> (if inside_work_block tz now settings then 2 else if inside_prewarm_band tz now settings then 12 else 40)"
proof (cases "is_active_window st now")
  case True
  then obtain r where r: "primary_reset_at st = Some r" and left: "0 < of_int r - now"
    by (auto simp: is_active_window_def split: if_splits option.splits)
  have "or_num (Some r) 0 = r"
    by (simp add: or_num_def)
  then show ?thesis
    using True left by (auto simp: window_cost_def Let_def r EXPIRING_WINDOW_SECONDS_def max_absorb2 divide_simps)
qed (simp add: window_cost_def)

lemma state_cost_bounds:
  assumes "state_cost tz settings now st = (cost, reasons)"
  shows "- 20 < cost"
    and "cost \<le> (if inside_work_block tz now settings then 5 else if inside_prewarm_band tz now settings then 15 else 43)"
  using assms window_cost_bounds [of tz settings now st]
  by (auto simp: state_cost_def split: prod.splits if_splits)

lemma add_costs_ok:
  assumes "set sts \<subseteq> set states" and "list_all (cost_ok tz settings now states) costs"
  shows "list_all (cost_ok tz settings now states) (foldl (add_cost tz settings now) costs sts)"
  using assms
proof (induction sts arbitrary: costs)
  case (Cons st sts)
  obtain cost reasons where c: "state_cost tz settings now st = (cost, reasons)"
    by (cases "state_cost tz settings now st")
  have "cost \<noteq> 0 \<Longrightarrow> cost_ok tz settings now states (account_id st, \<lparr>rc_total = cost, rc_reason = Some (join_with '','' reasons)\<rparr>)"
    using Cons.prems state_cost_bounds [OF c] by (simp add: cost_ok_def)
  then have "list_all (cost_ok tz settings now states) (add_cost tz settings now costs st)"
    using Cons.prems by (simp add: add_cost_def c list_all_update)
  then show ?case
    using Cons by simp
qed simp

text \<open>The routing costs the planner adds are bounded, so they nudge the choice and never block an
  account: every cost is for a known account, is not zero, takes at most 20 points off, and adds at
  most 5 during work hours, 15 in the pre-warm band and 43 otherwise; a planner that is off adds none.
\<close>

lemma routing_costs_bounded:
  "list_all (cost_ok tz settings now states) (build_routing_costs tz settings states now)
   \<and> build_routing_costs tz (settings\<lparr>ps_mode := ''off''\<rparr>) states now = []"
  by (simp add: build_routing_costs_def add_costs_ok)

end
