(* ===== verification/Additional_Quota.thy ===== *)
theory Additional_Quota
  imports Plan_Types
begin

text \<open>
  The registry of additional quotas, after \<open>codex-lb/app/modules/usage/additional_quota_keys.py\<close> and
  \<open>codex-lb/app/modules/proxy/additional_model_limits.py\<close>: the definitions read from a file, the maps
  built from them, and the resolution of quota keys, limit names, features and models.

  The file is the list of its entries, each with the strings its fields hold (a missing field is
  \<open>None\<close>); reading the file and decoding its JSON is left out. A \<open>frozenset\<close> is a list, a dictionary an
  association list. The registry that a caller finds in the cache is an argument \<open>maps\<close>.
\<close>

section \<open>Identifiers\<close>

definition is_ident :: "char \<Rightarrow> bool" where
  "is_ident c = (let n = of_char c :: nat in (97 \<le> n \<and> n \<le> 122) \<or> (48 \<le> n \<and> n \<le> 57))"

text \<open>\<open>_NORMALIZE_PATTERN.sub("_", text)\<close>: every run of other characters becomes one underscore.\<close>

fun sub_runs :: "bool \<Rightarrow> string \<Rightarrow> string" where
  "sub_runs in_run [] = []"
| "sub_runs in_run (c # cs) =
     (if is_ident c then c # sub_runs False cs
      else if in_run then sub_runs True cs
      else CHR ''_'' # sub_runs True cs)"

definition strip_underscores :: "string \<Rightarrow> string" where
  "strip_underscores s = rev (dropWhile (\<lambda>c. c = CHR ''_'') (rev (dropWhile (\<lambda>c. c = CHR ''_'') s)))"

definition normalize_identifier :: "string option \<Rightarrow> string option" where
  "normalize_identifier v =
     (case v of
        None \<Rightarrow> None
      | Some s \<Rightarrow> (let normalized = strip_underscores (sub_runs False (py_lower (py_strip s)))
                  in if normalized = [] then None else Some normalized))"

section \<open>Definitions\<close>

record AdditionalQuotaDefinition =
  aq_quota_key :: string
  aq_display_label :: string
  aq_routing_policy :: string
  aq_model_ids :: "string list"
  aq_applies_to_plans :: "string list option"
  aq_quota_key_aliases :: "string list"
  aq_limit_name_aliases :: "string list"
  aq_metered_feature_aliases :: "string list"
  aq_raw_limit_name_aliases :: "string list"
  aq_raw_metered_feature_aliases :: "string list"

record AdditionalQuotaRegistryEntry =
  re_quota_key :: "string option"
  re_display_label :: "string option"
  re_routing_policy :: "string option"
  re_model_ids :: "string list"
  re_applies_to_plans :: "string list option"
  re_quota_key_aliases :: "string list"
  re_limit_name_aliases :: "string list"
  re_metered_feature_aliases :: "string list"

definition ADDITIONAL_QUOTA_ROUTING_POLICIES :: "string list" where
  "ADDITIONAL_QUOTA_ROUTING_POLICIES = [''inherit'', ''burn_first'', ''normal'', ''preserve'']"

definition canonicalize_additional_quota_routing_policy :: "string option \<Rightarrow> string option" where
  "canonicalize_additional_quota_routing_policy v =
     (case normalize_identifier v of
        None \<Rightarrow> None
      | Some p \<Rightarrow> if p \<in> set ADDITIONAL_QUOTA_ROUTING_POLICIES then Some p else None)"

definition normalize_routing_policy :: "string option \<Rightarrow> string" where
  "normalize_routing_policy v = default_to (canonicalize_additional_quota_routing_policy v) ''inherit''"

definition normalized_all :: "string list \<Rightarrow> string list" where
  "normalized_all vs = List.map_filter (\<lambda>v. normalize_identifier (Some v)) vs"

definition raw_aliases :: "string list \<Rightarrow> string list" where
  "raw_aliases vs = filter (\<lambda>a. a \<noteq> []) (map py_strip vs)"

definition definition_from_json :: "AdditionalQuotaRegistryEntry \<Rightarrow> AdditionalQuotaDefinition result" where
  "definition_from_json item =
     (case re_quota_key item of
        None \<Rightarrow> Inl KeyError
      | Some raw \<Rightarrow>
          (case normalize_identifier (Some (py_strip raw)) of
             None \<Rightarrow> Inl ValueError
           | Some quota_key \<Rightarrow>
               (case re_display_label item of
                  None \<Rightarrow> Inl KeyError
                | Some label \<Rightarrow>
                    Inr \<lparr>aq_quota_key = quota_key, aq_display_label = py_strip label,
                         aq_routing_policy = normalize_routing_policy (re_routing_policy item),
                         aq_model_ids = normalized_all (re_model_ids item),
                         aq_applies_to_plans = map_option normalized_all (re_applies_to_plans item),
                         aq_quota_key_aliases = filter (\<lambda>a. a \<noteq> quota_key) (normalized_all (re_quota_key_aliases item)),
                         aq_limit_name_aliases = normalized_all (re_limit_name_aliases item),
                         aq_metered_feature_aliases = normalized_all (re_metered_feature_aliases item),
                         aq_raw_limit_name_aliases = raw_aliases (re_limit_name_aliases item),
                         aq_raw_metered_feature_aliases = raw_aliases (re_metered_feature_aliases item)\<rparr>)))"

fun definitions_for_path :: "AdditionalQuotaRegistryEntry list \<Rightarrow> AdditionalQuotaDefinition list result" where
  "definitions_for_path [] = Inr []"
| "definitions_for_path (item # items) =
     res_bind (definition_from_json item) (\<lambda>d. res_map ((#) d) (definitions_for_path items))"

section \<open>Maps\<close>

record QuotaMaps =
  by_quota_key :: "(string \<times> AdditionalQuotaDefinition) list"
  model_to_quota_key :: "(string \<times> string) list"
  model_to_definition :: "(string \<times> AdditionalQuotaDefinition) list"
  alias_to_quota_key :: "(string \<times> string) list"
  quota_key_alias_to_quota_key :: "(string \<times> string) list"

definition empty_maps :: QuotaMaps where
  "empty_maps = \<lparr>by_quota_key = [], model_to_quota_key = [], model_to_definition = [], alias_to_quota_key = [],
     quota_key_alias_to_quota_key = []\<rparr>"

text \<open>Entering names for a key: an error when a name already stands for another key.\<close>

fun claim_names :: "string \<Rightarrow> string list \<Rightarrow> (string \<times> string) list \<Rightarrow> (string \<times> string) list result" where
  "claim_names key [] m = Inr m"
| "claim_names key (a # as) m =
     (case map_of m a of
        None \<Rightarrow> claim_names key as (AList.update a key m)
      | Some previous \<Rightarrow> if previous \<noteq> key then Inl ValueError else claim_names key as (AList.update a key m))"

definition add_definition :: "QuotaMaps \<Rightarrow> AdditionalQuotaDefinition \<Rightarrow> QuotaMaps result" where
  "add_definition maps d =
     (let key = aq_quota_key d
      in if map_of (by_quota_key maps) key \<noteq> None then Inl ValueError
         else res_bind (claim_names key [key] (quota_key_alias_to_quota_key maps))
           (\<lambda>keys. res_bind (claim_names key (aq_model_ids d) (model_to_quota_key maps))
             (\<lambda>models. res_bind (claim_names key (aq_limit_name_aliases d @ aq_metered_feature_aliases d) (alias_to_quota_key maps))
               (\<lambda>aliases. res_bind (claim_names key (aq_quota_key_aliases d) keys)
                 (\<lambda>keys'. Inr
                    \<lparr>by_quota_key = AList.update key d (by_quota_key maps), model_to_quota_key = models,
                     model_to_definition = foldl (\<lambda>m i. AList.update i d m) (model_to_definition maps) (aq_model_ids d),
                     alias_to_quota_key = aliases, quota_key_alias_to_quota_key = keys'\<rparr>)))))"

fun add_definitions :: "QuotaMaps \<Rightarrow> AdditionalQuotaDefinition list \<Rightarrow> QuotaMaps result" where
  "add_definitions maps [] = Inr maps"
| "add_definitions maps (d # ds) = res_bind (add_definition maps d) (\<lambda>maps'. add_definitions maps' ds)"

definition definition_maps_for_path :: "AdditionalQuotaRegistryEntry list \<Rightarrow> QuotaMaps result" where
  "definition_maps_for_path items = res_bind (definitions_for_path items) (add_definitions empty_maps)"

section \<open>Resolution\<close>

record QuotaNames =
  qn_model :: "string option"
  qn_quota_key :: "string option"
  qn_limit_name :: "string option"
  qn_metered_feature :: "string option"

definition no_names :: QuotaNames where
  "no_names = \<lparr>qn_model = None, qn_quota_key = None, qn_limit_name = None, qn_metered_feature = None\<rparr>"

text \<open>A name after normalisation, looked up in a map.\<close>

definition resolve_in :: "(string \<times> string) list \<Rightarrow> string option \<Rightarrow> string option" where
  "resolve_in m v = (case normalize_identifier v of None \<Rightarrow> None | Some n \<Rightarrow> map_of m n)"

definition canonicalize_additional_quota_key :: "QuotaMaps \<Rightarrow> QuotaNames \<Rightarrow> string option" where
  "canonicalize_additional_quota_key maps n =
     or_else (resolve_in (model_to_quota_key maps) (qn_model n))
       (or_else (resolve_in (quota_key_alias_to_quota_key maps) (qn_quota_key n))
         (or_else (resolve_in (alias_to_quota_key maps) (qn_limit_name n))
           (or_else (resolve_in (alias_to_quota_key maps) (qn_metered_feature n))
             (or_else (normalize_identifier (qn_limit_name n))
               (or_else (normalize_identifier (qn_metered_feature n)) (normalize_identifier (qn_quota_key n)))))))"

definition get_additional_quota_definition :: "QuotaMaps \<Rightarrow> string option \<Rightarrow> AdditionalQuotaDefinition option" where
  "get_additional_quota_definition maps quota_key =
     (case canonicalize_additional_quota_key maps (no_names\<lparr>qn_quota_key := quota_key\<rparr>) of
        None \<Rightarrow> None | Some k \<Rightarrow> map_of (by_quota_key maps) k)"

definition get_additional_quota_definition_for_key :: "QuotaMaps \<Rightarrow> string option \<Rightarrow> AdditionalQuotaDefinition option" where
  "get_additional_quota_definition_for_key maps quota_key =
     (let resolved = canonicalize_additional_quota_key maps (no_names\<lparr>qn_quota_key := quota_key\<rparr>);
          registered = (case resolved of None \<Rightarrow> False | Some k \<Rightarrow> map_of (by_quota_key maps) k \<noteq> None);
          resolved' = (if registered then resolved
                       else or_else (resolve_in (alias_to_quota_key maps) quota_key) resolved)
      in case resolved' of None \<Rightarrow> None | Some k \<Rightarrow> map_of (by_quota_key maps) k)"

definition normalize_additional_quota_routing_policy_overrides ::
  "QuotaMaps \<Rightarrow> (string \<times> string) list \<Rightarrow> (string \<times> string) list" where
  "normalize_additional_quota_routing_policy_overrides maps overrides =
     foldl (\<lambda>acc (key, v). case get_additional_quota_definition_for_key maps (Some key) of
              None \<Rightarrow> acc
            | Some d \<Rightarrow> AList.update (aq_quota_key d) (normalize_routing_policy (Some v)) acc) [] overrides"

definition get_additional_quota_routing_policy :: "QuotaMaps \<Rightarrow> string option \<Rightarrow> (string \<times> string) list \<Rightarrow> string" where
  "get_additional_quota_routing_policy maps quota_key overrides =
     (case get_additional_quota_definition_for_key maps quota_key of
        None \<Rightarrow> ''inherit''
      | Some d \<Rightarrow> default_to (map_of (normalize_additional_quota_routing_policy_overrides maps overrides) (aq_quota_key d))
                   (aq_routing_policy d))"

definition get_additional_quota_lookup_keys :: "QuotaMaps \<Rightarrow> QuotaNames \<Rightarrow> string list option" where
  "get_additional_quota_lookup_keys maps n =
     (case canonicalize_additional_quota_key maps (n\<lparr>qn_model := None\<rparr>) of
        None \<Rightarrow> None
      | Some k \<Rightarrow> Some (case map_of (by_quota_key maps) k of None \<Rightarrow> [k] | Some d \<Rightarrow> k # aq_quota_key_aliases d))"

definition get_additional_quota_key_for_model :: "QuotaMaps \<Rightarrow> string option \<Rightarrow> string option" where
  "get_additional_quota_key_for_model maps model = canonicalize_additional_quota_key maps (no_names\<lparr>qn_model := model\<rparr>)"

definition get_additional_quota_definition_for_model :: "QuotaMaps \<Rightarrow> string option \<Rightarrow> AdditionalQuotaDefinition option" where
  "get_additional_quota_definition_for_model maps model =
     (case normalize_identifier model of None \<Rightarrow> None | Some i \<Rightarrow> map_of (model_to_definition maps) i)"

record AdditionalQuotaQueryScope =
  qs_quota_key :: string
  qs_quota_key_match_values :: "string list"
  qs_limit_name_match_values :: "string list"
  qs_metered_feature_match_values :: "string list"

definition get_additional_quota_query_scope :: "QuotaMaps \<Rightarrow> QuotaNames \<Rightarrow> AdditionalQuotaQueryScope option" where
  "get_additional_quota_query_scope maps n =
     (let candidate = or_else (qn_quota_key n) (qn_limit_name n)
      in case canonicalize_additional_quota_key maps (n\<lparr>qn_model := None, qn_limit_name := candidate\<rparr>) of
           None \<Rightarrow> None
         | Some resolved \<Rightarrow>
             Some (case get_additional_quota_definition maps (Some resolved) of
                     None \<Rightarrow> \<lparr>qs_quota_key = resolved, qs_quota_key_match_values = [resolved],
                              qs_limit_name_match_values = [], qs_metered_feature_match_values = []\<rparr>
                   | Some d \<Rightarrow> \<lparr>qs_quota_key = resolved, qs_quota_key_match_values = resolved # aq_quota_key_aliases d,
                                qs_limit_name_match_values = map py_lower (aq_raw_limit_name_aliases d) @ aq_limit_name_aliases d,
                                qs_metered_feature_match_values =
                                  map py_lower (aq_raw_metered_feature_aliases d) @ aq_metered_feature_aliases d\<rparr>))"

definition get_additional_display_label_for_quota_key :: "QuotaMaps \<Rightarrow> string option \<Rightarrow> string option" where
  "get_additional_display_label_for_quota_key maps quota_key =
     map_option aq_display_label (get_additional_quota_definition maps quota_key)"

definition get_additional_display_label :: "QuotaMaps \<Rightarrow> QuotaNames \<Rightarrow> string option" where
  "get_additional_display_label maps n =
     (let resolved = canonicalize_additional_quota_key maps (n\<lparr>qn_model := None, qn_quota_key := None\<rparr>)
      in get_additional_display_label_for_quota_key maps
           (case qn_quota_key n of Some k \<Rightarrow> if k = [] then resolved else Some k | None \<Rightarrow> resolved))"

subsection \<open>Limits of models\<close>

record AdditionalModelLimit =
  ml_model :: string
  ml_quota_key :: string
  ml_display_label :: string

definition get_additional_model_limit :: "QuotaMaps \<Rightarrow> string option \<Rightarrow> AdditionalModelLimit option" where
  "get_additional_model_limit maps model =
     (case get_additional_quota_definition_for_model maps model of
        None \<Rightarrow> None
      | Some d \<Rightarrow>
          (case model of
             None \<Rightarrow> None
           | Some m \<Rightarrow> Some \<lparr>ml_model = py_lower (py_strip m), ml_quota_key = aq_quota_key d, ml_display_label = aq_display_label d\<rparr>))"

definition get_additional_quota_key_for_model_id :: "QuotaMaps \<Rightarrow> string option \<Rightarrow> string option" where
  "get_additional_quota_key_for_model_id maps model = map_option ml_quota_key (get_additional_model_limit maps model)"

definition get_additional_display_label_for_model :: "QuotaMaps \<Rightarrow> string option \<Rightarrow> string option" where
  "get_additional_display_label_for_model maps model =
     get_additional_display_label_for_quota_key maps (get_additional_quota_key_for_model maps model)"

section \<open>Normal identifiers\<close>

text \<open>A canonical identifier: lower case letters and digits, with single underscores between them.\<close>

definition is_identifier :: "string \<Rightarrow> bool" where
  "is_identifier s =
     (s \<noteq> [] \<and> list_all (\<lambda>c. is_ident c \<or> c = CHR ''_'') s
      \<and> hd s \<noteq> CHR ''_'' \<and> last s \<noteq> CHR ''_''
      \<and> successively (\<lambda>a b. a = CHR ''_'' \<longrightarrow> b \<noteq> CHR ''_'') s)"

lemma underscore_not_ident [simp]: "\<not> is_ident CHR ''_''"
  by (simp add: is_ident_def)

lemma ident_lower: "is_ident c \<Longrightarrow> lower_char c = c" "lower_char CHR ''_'' = CHR ''_''"
  by (auto simp: is_ident_def lower_char_def Let_def)

lemma ident_not_space: "is_ident c \<Longrightarrow> \<not> is_space c" "\<not> is_space CHR ''_''"
  by (auto simp: is_ident_def is_space_def Let_def)

lemma sub_runs_wf:
  "list_all (\<lambda>c. is_ident c \<or> c = CHR ''_'') (sub_runs r s)
   \<and> successively (\<lambda>a b. a = CHR ''_'' \<longrightarrow> b \<noteq> CHR ''_'') (sub_runs r s)
   \<and> (r \<longrightarrow> sub_runs r s = [] \<or> hd (sub_runs r s) \<noteq> CHR ''_'')"
proof (induction s arbitrary: r)
  case (Cons c cs)
  show ?case
    using Cons.IH [of True] Cons.IH [of False] by (auto simp: successively_Cons)
qed simp

lemma sub_runs_id:
  "list_all (\<lambda>c. is_ident c \<or> c = CHR ''_'') s \<Longrightarrow>
   successively (\<lambda>a b. a = CHR ''_'' \<longrightarrow> b \<noteq> CHR ''_'') s \<Longrightarrow>
   (r \<Longrightarrow> s = [] \<or> hd s \<noteq> CHR ''_'') \<Longrightarrow> sub_runs r s = s"
  by (induction s arbitrary: r) (auto simp: successively_Cons)

lemma strip_underscores_id: "s \<noteq> [] \<Longrightarrow> hd s \<noteq> CHR ''_'' \<Longrightarrow> last s \<noteq> CHR ''_'' \<Longrightarrow> strip_underscores s = s"
proof -
  assume s: "s \<noteq> []" "hd s \<noteq> CHR ''_''" "last s \<noteq> CHR ''_''"
  have "dropWhile (\<lambda>c. c = CHR ''_'') s = s" "dropWhile (\<lambda>c. c = CHR ''_'') (rev s) = rev s"
    unfolding dropWhile_eq_self_iff using s by (simp_all add: hd_rev)
  then show ?thesis
    by (simp add: strip_underscores_def)
qed

lemma strip_underscores_wf:
  assumes "list_all P s" "successively Q s" "strip_underscores s \<noteq> []"
  shows "list_all P (strip_underscores s)" "successively Q (strip_underscores s)"
    "hd (strip_underscores s) \<noteq> CHR ''_''" "last (strip_underscores s) \<noteq> CHR ''_''"
proof -
  define t where "t = dropWhile (\<lambda>c. c = CHR ''_'') s"
  have t: "s = takeWhile (\<lambda>c. c = CHR ''_'') s @ t"
    by (simp add: t_def)
  define u where "u = strip_underscores s"
  have u: "rev t = takeWhile (\<lambda>c. c = CHR ''_'') (rev t) @ rev u"
    by (simp add: u_def strip_underscores_def t_def)
  then have "t = u @ rev (takeWhile (\<lambda>c. c = CHR ''_'') (rev t))"
    by (metis rev_append rev_rev_ident)
  then obtain a b where ab: "s = a @ u @ b" and tb: "t = u @ b"
    using t by metis
  have "list_all P (a @ u @ b)" "successively Q (a @ u @ b)"
    using assms(1,2) unfolding ab .
  then show "list_all P (strip_underscores s)" "successively Q (strip_underscores s)"
    unfolding u_def [symmetric] by (auto simp: successively_append_iff)
  have "u \<noteq> []"
    using assms(3) by (simp add: u_def)
  then show "hd (strip_underscores s) \<noteq> CHR ''_''"
    using tb hd_dropWhile [of "\<lambda>c. c = CHR ''_''" s] by (simp add: u_def [symmetric] t_def [symmetric])
  have "rev u = dropWhile (\<lambda>c. c = CHR ''_'') (rev t)"
    by (simp add: u_def strip_underscores_def t_def)
  then show "last (strip_underscores s) \<noteq> CHR ''_''"
    using \<open>u \<noteq> []\<close> hd_dropWhile [of "\<lambda>c. c = CHR ''_''" "rev t"] by (metis hd_rev rev_is_Nil_conv u_def)
qed

lemma normalize_identifier_wf: "normalize_identifier v = Some k \<Longrightarrow> is_identifier k"
proof -
  assume k: "normalize_identifier v = Some k"
  then obtain s where "k = strip_underscores (sub_runs False s)" "k \<noteq> []"
    by (auto simp: normalize_identifier_def Let_def split: option.splits if_splits)
  moreover have "list_all (\<lambda>c. is_ident c \<or> c = CHR ''_'') (sub_runs False s)"
    "successively (\<lambda>a b. a = CHR ''_'' \<longrightarrow> b \<noteq> CHR ''_'') (sub_runs False s)"
    using sub_runs_wf [of False s] by blast+
  ultimately show ?thesis
    using strip_underscores_wf unfolding is_identifier_def by blast
qed

lemma identifier_clean:
  assumes "is_identifier s"
  shows "py_lower (py_strip s) = s"
proof -
  have all: "is_ident c \<or> c = CHR ''_''" if "c \<in> set s" for c
    using assms that by (auto simp: is_identifier_def list_all_iff)
  have "s \<noteq> []"
    using assms by (simp add: is_identifier_def)
  then have "\<not> is_space (hd s)" "\<not> is_space (hd (rev s))"
    using all [of "hd s"] all [of "last s"] ident_not_space by (auto simp: hd_rev)
  then have "dropWhile is_space s = s" "dropWhile is_space (rev s) = rev s"
    unfolding dropWhile_eq_self_iff by simp_all
  then have "py_strip s = s"
    by (simp add: py_strip_def)
  moreover have "py_lower s = s"
    unfolding py_lower_def using all ident_lower by (intro map_idI) blast
  ultimately show ?thesis
    by simp
qed

lemma normalize_identifier_id: "is_identifier k \<Longrightarrow> normalize_identifier (Some k) = Some k"
proof -
  assume k: "is_identifier k"
  then have "sub_runs False k = k"
    by (intro sub_runs_id) (simp_all add: is_identifier_def)
  moreover have "strip_underscores k = k"
    using k by (intro strip_underscores_id) (simp_all add: is_identifier_def)
  ultimately show ?thesis
    using k identifier_clean [OF k] by (simp add: normalize_identifier_def is_identifier_def)
qed

section \<open>Consistent registries\<close>

text \<open>Every name stands for a registered key, and a registered key for itself.\<close>

definition maps_ok :: "QuotaMaps \<Rightarrow> bool" where
  "maps_ok maps =
     ((\<forall>m \<in> {model_to_quota_key maps, alias_to_quota_key maps, quota_key_alias_to_quota_key maps}.
         \<forall>n k. map_of m n = Some k \<longrightarrow> map_of (by_quota_key maps) k \<noteq> None)
      \<and> (\<forall>k d. map_of (by_quota_key maps) k = Some d \<longrightarrow>
           is_identifier k \<and> aq_quota_key d = k \<and> map_of (quota_key_alias_to_quota_key maps) k = Some k)
      \<and> (\<forall>i d. map_of (model_to_definition maps) i = Some d \<longrightarrow>
           map_of (by_quota_key maps) (aq_quota_key d) = Some d \<and> map_of (model_to_quota_key maps) i = Some (aq_quota_key d)
           \<and> i \<in> set (aq_model_ids d)))"

lemma claim_names_map:
  "claim_names key names m = Inr m' \<Longrightarrow> map_of m' = (\<lambda>n. if n \<in> set names then Some key else map_of m n)"
  by (induction names arbitrary: m) (auto simp: update_conv fun_eq_iff split: option.splits if_splits)

lemma claim_names_keeps: "claim_names key names m = Inr m' \<Longrightarrow> map_of m n = Some k \<Longrightarrow> n \<in> set names \<Longrightarrow> k = key"
proof (induction names arbitrary: m)
  case (Cons a as)
  then show ?case
    by (cases "n = a") (auto simp: update_conv split: option.splits if_splits)
qed simp

lemma foldl_update_map: "map_of (foldl (\<lambda>m i. AList.update i d m) m is) = (\<lambda>i. if i \<in> set is then Some d else map_of m i)"
  by (induction "is" arbitrary: m) (auto simp: update_conv fun_eq_iff)

lemma definition_from_json_key: "definition_from_json item = Inr d \<Longrightarrow> is_identifier (aq_quota_key d)"
  by (auto simp: definition_from_json_def normalize_identifier_wf split: option.splits)

lemma add_definition_ok:
  assumes "maps_ok maps" "is_identifier (aq_quota_key d)" "add_definition maps d = Inr maps'"
  shows "maps_ok maps'"
proof -
  let ?k = "aq_quota_key d"
  from assms(3) obtain keys models aliases keys' where
    new: "map_of (by_quota_key maps) ?k = None"
    and c: "claim_names ?k [?k] (quota_key_alias_to_quota_key maps) = Inr keys"
      "claim_names ?k (aq_model_ids d) (model_to_quota_key maps) = Inr models"
      "claim_names ?k (aq_limit_name_aliases d @ aq_metered_feature_aliases d) (alias_to_quota_key maps) = Inr aliases"
      "claim_names ?k (aq_quota_key_aliases d) keys = Inr keys'"
    and maps': "maps' = \<lparr>by_quota_key = AList.update ?k d (by_quota_key maps), model_to_quota_key = models,
                     model_to_definition = foldl (\<lambda>m i. AList.update i d m) (model_to_definition maps) (aq_model_ids d),
                     alias_to_quota_key = aliases, quota_key_alias_to_quota_key = keys'\<rparr>"
    by (auto simp: add_definition_def Let_def res_bind_def split: if_splits sum.splits)
  note m = claim_names_map [OF c(1)] claim_names_map [OF c(2)] claim_names_map [OF c(3)] claim_names_map [OF c(4)]
  have old: "map_of (quota_key_alias_to_quota_key maps) j = Some j" "j \<noteq> ?k"
    if "map_of (by_quota_key maps) j = Some e" for j e
    using assms(1) that new by (auto simp: maps_ok_def)
  have keep: "map_of keys' j = Some j" if "map_of (by_quota_key maps) j = Some e" for j e
  proof -
    have j: "map_of keys j = Some j"
      using old [OF that] by (simp add: m(1))
    then have "j \<notin> set (aq_quota_key_aliases d)"
      using claim_names_keeps [OF c(4) j] old(2) [OF that] by blast
    then show ?thesis
      using j by (simp add: m(4))
  qed
  have model_old: "map_of models i = Some (aq_quota_key e)" "map_of (by_quota_key maps) (aq_quota_key e) = Some e"
    if "map_of (model_to_definition maps) i = Some e" "i \<notin> set (aq_model_ids d)" for i e
    using assms(1) that by (auto simp: maps_ok_def m)
  have names: "map_of (by_quota_key maps') k \<noteq> None"
    if "m' \<in> {model_to_quota_key maps', alias_to_quota_key maps', quota_key_alias_to_quota_key maps'}" "map_of m' n = Some k" for m' n k
  proof (cases "k = ?k")
    case False
    from that have "map_of models n = Some k \<or> map_of aliases n = Some k \<or> map_of keys' n = Some k"
      unfolding maps' by fastforce
    then have "map_of (model_to_quota_key maps) n = Some k \<or> map_of (alias_to_quota_key maps) n = Some k
        \<or> map_of (quota_key_alias_to_quota_key maps) n = Some k"
      using False unfolding m by (elim disjE) (simp_all split: if_split_asm)
    then have "map_of (by_quota_key maps) k \<noteq> None"
      using assms(1) unfolding maps_ok_def by blast
    then show ?thesis
      by (simp add: maps' update_conv)
  qed (simp add: maps' update_conv)
  have keys: "is_identifier k \<and> aq_quota_key e = k \<and> map_of keys' k = Some k" if "map_of (by_quota_key maps') k = Some e" for k e
  proof (cases "k = ?k")
    case True
    then show ?thesis
      using that assms(2) by (simp add: maps' update_conv m)
  next
    case False
    then have "map_of (by_quota_key maps) k = Some e"
      using that by (simp add: maps' update_conv)
    then show ?thesis
      using assms(1) keep by (simp add: maps_ok_def)
  qed
  have defs: "map_of (by_quota_key maps') (aq_quota_key e) = Some e \<and> map_of models i = Some (aq_quota_key e) \<and> i \<in> set (aq_model_ids e)"
    if "map_of (model_to_definition maps') i = Some e" for i e
  proof (cases "i \<in> set (aq_model_ids d)")
    case True
    then show ?thesis
      using that by (simp add: maps' foldl_update_map update_conv m)
  next
    case False
    then have e: "map_of (model_to_definition maps) i = Some e"
      using that by (simp add: maps' foldl_update_map)
    then have "i \<in> set (aq_model_ids e)"
      using assms(1) by (simp add: maps_ok_def)
    then show ?thesis
      using model_old [OF e False] new by (auto simp: maps' update_conv)
  qed
  have "quota_key_alias_to_quota_key maps' = keys'" "model_to_quota_key maps' = models"
    by (simp_all add: maps')
  then show ?thesis
    unfolding maps_ok_def using names keys defs by (simp only: ball_simps) blast
qed

lemma add_definitions_ok:
  "maps_ok maps \<Longrightarrow> list_all (\<lambda>d. is_identifier (aq_quota_key d)) ds \<Longrightarrow> add_definitions maps ds = Inr maps' \<Longrightarrow> maps_ok maps'"
proof (induction ds arbitrary: maps)
  case (Cons d ds)
  then obtain m where "add_definition maps d = Inr m" "add_definitions m ds = Inr maps'"
    by (auto simp: res_bind_def split: sum.splits)
  then show ?case
    using Cons add_definition_ok by auto
qed simp

lemma definitions_for_path_keys: "definitions_for_path items = Inr ds \<Longrightarrow> list_all (\<lambda>d. is_identifier (aq_quota_key d)) ds"
proof (induction items arbitrary: ds)
  case (Cons item items)
  then show ?case
    by (auto simp: res_bind_def res_map_Inr_iff definition_from_json_key split: sum.splits)
qed simp

lemma registry_ok: "definition_maps_for_path items = Inr maps \<Longrightarrow> maps_ok maps"
proof -
  assume "definition_maps_for_path items = Inr maps"
  then obtain ds where "definitions_for_path items = Inr ds" "add_definitions empty_maps ds = Inr maps"
    by (auto simp: definition_maps_for_path_def res_bind_def split: sum.splits)
  moreover have "maps_ok empty_maps"
    by (simp add: maps_ok_def empty_maps_def)
  ultimately show ?thesis
    using add_definitions_ok definitions_for_path_keys by blast
qed

section \<open>Properties\<close>

lemma resolve_in_registered:
  assumes "maps_ok maps" "resolve_in m v = Some k"
    and "m \<in> {model_to_quota_key maps, alias_to_quota_key maps, quota_key_alias_to_quota_key maps}"
  shows "map_of (by_quota_key maps) k \<noteq> None"
  using assms unfolding maps_ok_def resolve_in_def by (auto split: option.splits)

lemma registered_key:
  assumes "maps_ok maps" "map_of (by_quota_key maps) k \<noteq> None"
  shows "is_identifier k" "resolve_in (quota_key_alias_to_quota_key maps) (Some k) = Some k"
  using assms by (auto simp: maps_ok_def resolve_in_def normalize_identifier_id)

lemma or_else_Some: "or_else a b = Some k \<longleftrightarrow> a = Some k \<or> a = None \<and> b = Some k"
  by (cases a) simp_all

lemma canonical_cases:
  assumes "maps_ok maps" "canonicalize_additional_quota_key maps n = Some k"
  shows "map_of (by_quota_key maps) k \<noteq> None
    \<or> (normalize_identifier (qn_limit_name n) = Some k
        \<or> normalize_identifier (qn_metered_feature n) = Some k \<or> normalize_identifier (qn_quota_key n) = Some k)
       \<and> resolve_in (quota_key_alias_to_quota_key maps) (qn_quota_key n) = None
       \<and> resolve_in (alias_to_quota_key maps) (qn_limit_name n) = None"
proof -
  have "resolve_in m v = Some k \<Longrightarrow> map_of (by_quota_key maps) k \<noteq> None"
    if "m \<in> {model_to_quota_key maps, alias_to_quota_key maps, quota_key_alias_to_quota_key maps}" for m v
    using resolve_in_registered [OF assms(1) _ that] .
  note r = this [of "model_to_quota_key maps" "qn_model n"] this [of "quota_key_alias_to_quota_key maps" "qn_quota_key n"]
    this [of "alias_to_quota_key maps" "qn_limit_name n"] this [of "alias_to_quota_key maps" "qn_metered_feature n"]
  show ?thesis
    using assms(2) r unfolding canonicalize_additional_quota_key_def or_else_Some by fastforce
qed

text \<open>C37: canonical quota keys are well formed and stable. With a registry that loads, whatever the names
  of a quota resolve to is an identifier of lower case letters and digits with single
  underscores between them; and resolving a name, used as key and as limit name as the
  repository does, gives a key that resolves to itself.\<close>

theorem canonical_key_wellformed:
  assumes "definition_maps_for_path items = Inr maps"
  shows "(case canonicalize_additional_quota_key maps n of None \<Rightarrow> True | Some k \<Rightarrow> is_identifier k)
    \<and> (case canonicalize_additional_quota_key maps (no_names\<lparr>qn_quota_key := v, qn_limit_name := v\<rparr>) of
         None \<Rightarrow> True
       | Some k \<Rightarrow> canonicalize_additional_quota_key maps (no_names\<lparr>qn_quota_key := Some k, qn_limit_name := Some k\<rparr>) = Some k)"
proof -
  note ok = registry_ok [OF assms]
  have "is_identifier k" if "canonicalize_additional_quota_key maps n = Some k" for k
    using canonical_cases [OF ok that] registered_key(1) [OF ok] normalize_identifier_wf by blast
  moreover have "canonicalize_additional_quota_key maps (no_names\<lparr>qn_quota_key := Some k, qn_limit_name := Some k\<rparr>) = Some k"
    if k: "canonicalize_additional_quota_key maps (no_names\<lparr>qn_quota_key := v, qn_limit_name := v\<rparr>) = Some k" for k
  proof (cases "map_of (by_quota_key maps) k = None")
    case True
    then have n: "normalize_identifier v = Some k" and r: "resolve_in (quota_key_alias_to_quota_key maps) v = None"
        "resolve_in (alias_to_quota_key maps) v = None"
      using canonical_cases [OF ok k] by (auto simp: no_names_def normalize_identifier_def)
    then have "normalize_identifier (Some k) = Some k"
      using normalize_identifier_id normalize_identifier_wf by blast
    then show ?thesis
      using n r by (simp add: canonicalize_additional_quota_key_def no_names_def resolve_in_def normalize_identifier_def)
  next
    case False
    then show ?thesis
      using registered_key(2) [OF ok False]
      by (simp add: canonicalize_additional_quota_key_def no_names_def resolve_in_def [of _ None] normalize_identifier_def)
  qed
  ultimately show ?thesis
    by (auto split: option.split)
qed

definition sample_registry :: "AdditionalQuotaRegistryEntry list" where
  "sample_registry =
     [\<lparr>re_quota_key = Some ''codex_spark'', re_display_label = Some ''GPT-5.3-Codex-Spark'',
       re_routing_policy = Some ''burn_first'', re_model_ids = [''gpt-5.3-codex-spark''],
       re_applies_to_plans = Some [''pro'', ''prolite'', ''team'', ''business'', ''enterprise''], re_quota_key_aliases = [],
       re_limit_name_aliases = [''codex_other'', ''GPT-5.3-Codex-Spark'', ''gpt-5.3-codex-spark''],
       re_metered_feature_aliases = [''codex_bengalfox'']\<rparr>]"

lemma sample_registry_maps:
  "definition_maps_for_path sample_registry = Inr (projr (definition_maps_for_path sample_registry))"
  by code_simp

theorem canonical_key_wellformed_witness:
  "canonicalize_additional_quota_key (projr (definition_maps_for_path sample_registry))
     (no_names\<lparr>qn_quota_key := Some ''GPT-5.3 Codex Spark'', qn_limit_name := Some ''GPT-5.3 Codex Spark''\<rparr>) = Some ''codex_spark''
   \<and> canonicalize_additional_quota_key (projr (definition_maps_for_path sample_registry))
       (no_names\<lparr>qn_quota_key := Some ''codex_spark'', qn_limit_name := Some ''codex_spark''\<rparr>) = Some ''codex_spark''"
proof -
  have "canonicalize_additional_quota_key (projr (definition_maps_for_path sample_registry))
     (no_names\<lparr>qn_quota_key := Some ''GPT-5.3 Codex Spark'', qn_limit_name := Some ''GPT-5.3 Codex Spark''\<rparr>) = Some ''codex_spark''"
    by code_simp
  then show ?thesis
    using canonical_key_wellformed [OF sample_registry_maps, of no_names "Some ''GPT-5.3 Codex Spark''"] by simp
qed

end
