(* ===== verification/Json.thy ===== *)
theory Json
  imports Prelude "HOL-Library.AList"
begin

text \<open>
  JSON values (\<open>JsonValue\<close> of \<open>codex-lb/app/core/types.py\<close>), for the components that keep or inspect
  them, and dictionaries of lists, the shape in which Python code groups values under keys.
\<close>

datatype json =
  JNull | JBool bool | JInt int | JFloat pyfloat | JStr string | JList "json list" | JObj "(string \<times> json) list"

text \<open>\<open>isinstance(v, str) and v\<close>.\<close>

definition nonempty_str :: "json option \<Rightarrow> string option" where
  "nonempty_str v = (case v of Some (JStr s) \<Rightarrow> if s = [] then None else Some s | _ \<Rightarrow> None)"

definition list_items :: "json option \<Rightarrow> json list" where
  "list_items v = (case v of Some (JList xs) \<Rightarrow> xs | _ \<Rightarrow> [])"

definition obj_get :: "string \<Rightarrow> json \<Rightarrow> json option" where
  "obj_get k v = (case v of JObj fields \<Rightarrow> map_of fields k | _ \<Rightarrow> None)"

text \<open>\<open>m.setdefault(k, set()).add(v)\<close>, a set as a list without repetitions.\<close>

definition add_to :: "'k \<Rightarrow> 'v \<Rightarrow> ('k \<times> 'v list) list \<Rightarrow> ('k \<times> 'v list) list" where
  "add_to k v m = AList.update k (List.insert v (default_to (map_of m k) [])) m"

definition members :: "('k \<times> 'v list) list \<Rightarrow> 'k \<Rightarrow> 'v set" where
  "members m k = set (default_to (map_of m k) [])"

lemma map_of_add_to: "map_of (add_to k v m) j = (if j = k then Some (List.insert v (default_to (map_of m k) [])) else map_of m j)"
  by (simp add: add_to_def update_conv)

lemma members_add_to: "members (add_to k v m) j = (if j = k then insert v (members m k) else members m j)"
  by (simp add: members_def map_of_add_to)

lemma members_simps [simp]: "members [] k = {}"
  by (simp add: members_def)

lemma set_alist_update: "set (AList.update k v al) \<subseteq> insert (k, v) (set al)"
  by (induction al) auto

text \<open>The pairs of a key and one of its values.\<close>

definition pairs :: "('k \<times> 'v list) list \<Rightarrow> ('k \<times> 'v) set" where
  "pairs m = {(k, v). \<exists>vs. (k, vs) \<in> set m \<and> v \<in> set vs}"

lemma members_pairs: "v \<in> members m k \<Longrightarrow> (k, v) \<in> pairs m"
proof (cases "map_of m k")
  case (Some vs)
  moreover assume "v \<in> members m k"
  ultimately show ?thesis
    using map_of_SomeD [OF Some] by (auto simp: members_def pairs_def)
qed (simp add: members_def)

lemma pairs_members: "distinct (map fst m) \<Longrightarrow> (k, v) \<in> pairs m \<longleftrightarrow> v \<in> members m k"
  using members_pairs [of v m k] by (auto simp: pairs_def members_def)

lemma pairs_Nil [simp]: "pairs [] = {}"
  by (simp add: pairs_def)

lemma pairs_add_to: "pairs (add_to k v m) \<subseteq> insert (k, v) (pairs m)"
proof
  fix x
  assume "x \<in> pairs (add_to k v m)"
  then obtain j vs u where x: "x = (j, u)" "(j, vs) \<in> set (add_to k v m)" "u \<in> set vs"
    by (auto simp: pairs_def)
  then have "(j, vs) = (k, List.insert v (default_to (map_of m k) [])) \<or> (j, vs) \<in> set m"
    using set_alist_update unfolding add_to_def by fast
  then show "x \<in> insert (k, v) (pairs m)"
  proof
    assume "(j, vs) = (k, List.insert v (default_to (map_of m k) []))"
    then have "j = k" "u = v \<or> u \<in> members m k"
      using x(3) by (auto simp: members_def)
    then show ?thesis
      using members_pairs [of u m k] x(1) by auto
  qed (use x in \<open>auto simp: pairs_def\<close>)
qed

lemma distinct_add_to: "distinct (map fst m) \<Longrightarrow> distinct (map fst (add_to k v m))"
  by (simp add: add_to_def distinct_update)

end
