(* ===== verification/Model_Registry.thy ===== *)
theory Model_Registry
  imports Json
begin

text \<open>
  The registry of upstream models, after \<open>codex-lb/app/core/openai/model_registry.py\<close>: the models and
  the plans, accounts and service tiers that offer them, the queries of the balancer, and the update
  after a refresh, with what it carries over from the previous snapshot.

  A \<open>frozenset\<close> is a list without repetitions, a dictionary an association list. \<open>json.dumps\<close> (the
  identity of a tier object that names no tier) is an argument. \<open>update\<close> runs under the lock of the
  registry, so it is one step; its handler, which restores the snapshot when an exception escapes
  the merge, has nothing to restore here. The texts and display fields of the bundled models are kept
  where the code reads them (slug, plans, websocket preference, raw tiers); the rest is left out.
\<close>

section \<open>Data\<close>

record UpstreamModel =
  um_slug :: string
  um_prefer_websockets :: bool
  um_supported_in_api :: bool
  um_available_in_plans :: "string list"
  um_raw :: "(string \<times> json) list"

record ModelRegistrySnapshot =
  rs_models :: "(string \<times> UpstreamModel) list"
  rs_model_plans :: "(string \<times> string list) list"
  rs_plan_models :: "(string \<times> string list) list"
  rs_model_service_tier_plans :: "(string \<times> (string \<times> string list) list) list"
  rs_model_service_tier_accounts :: "(string \<times> (string \<times> string list) list) list"
  rs_account_plans :: "(string \<times> string) list"
  rs_fetched_at :: pyfloat
  rs_model_accounts :: "(string \<times> string list) list"
  rs_account_catalogs_authoritative :: bool
  rs_bootstrap_floor_active :: bool
  rs_suppressed_model_slugs :: "string list"

record ModelRegistry =
  mr_ttl_seconds :: pyfloat
  mr_snapshot :: "ModelRegistrySnapshot option"
  mr_bootstrap_models :: "(string \<times> UpstreamModel) list"
  mr_metadata_models :: "(string \<times> UpstreamModel) list option"
  mr_applied_content_hash :: "string option"

definition normalized_slug :: "string \<Rightarrow> string" where
  "normalized_slug slug = py_lower (py_strip slug)"

section \<open>Service tiers\<close>

definition SERVICE_TIER_OBJECT_KEY_FIELDS :: "string list" where
  "SERVICE_TIER_OBJECT_KEY_FIELDS = [''slug'', ''name'', ''id'', ''tier'']"

definition canonical_service_tier_value :: "string \<Rightarrow> string" where
  "canonical_service_tier_value v =
     (let canonical = py_lower (py_strip v) in if canonical \<in> {''fast'', ''priority''} then ''priority'' else canonical)"

text \<open>The items of two lists in order, without those whose identity has been seen.\<close>

fun union_by :: "('a \<Rightarrow> string) \<Rightarrow> string set \<Rightarrow> 'a list \<Rightarrow> 'a list" where
  "union_by ident seen [] = []"
| "union_by ident seen (x # xs) =
     (if ident x \<in> seen then union_by ident seen xs else x # union_by ident (insert (ident x) seen) xs)"

definition none_if_empty :: "'a list \<Rightarrow> 'a list option" where
  "none_if_empty xs = (if xs = [] then None else Some xs)"

fun string_items :: "json list \<Rightarrow> string list" where
  "string_items [] = []"
| "string_items (JStr s # xs) = s # string_items xs"
| "string_items (x # xs) = string_items xs"

definition union_string_tiers :: "json option \<Rightarrow> json option \<Rightarrow> json list option" where
  "union_string_tiers primary secondary =
     map_option (map JStr)
       (none_if_empty (union_by canonical_service_tier_value {} (string_items (list_items primary) @ string_items (list_items secondary))))"

definition service_tier_identity :: "(json \<Rightarrow> string) \<Rightarrow> json \<Rightarrow> string" where
  "service_tier_identity dumps entry =
     (let identities = filter (\<lambda>s. s \<noteq> [])
            (map canonical_service_tier_value
              (List.map_filter (\<lambda>k. nonempty_str (obj_get k entry)) SERVICE_TIER_OBJECT_KEY_FIELDS))
      in if ''priority'' \<in> set identities then ''tier:priority''
         else if identities \<noteq> [] then ''tier:'' @ hd identities
         else dumps entry)"

definition union_object_tiers :: "(json \<Rightarrow> string) \<Rightarrow> json option \<Rightarrow> json option \<Rightarrow> json list option" where
  "union_object_tiers dumps primary secondary =
     none_if_empty (union_by (service_tier_identity dumps) {} (list_items primary @ list_items secondary))"

definition merge_default_service_tier :: "json option \<Rightarrow> json option \<Rightarrow> string option" where
  "merge_default_service_tier primary secondary =
     (case nonempty_str primary of
        None \<Rightarrow> nonempty_str secondary
      | Some p \<Rightarrow>
          (case nonempty_str secondary of
             None \<Rightarrow> Some p
           | Some s \<Rightarrow>
               if p = s then Some p
               else if p \<in> {''auto'', ''default''} \<and> s \<notin> {''auto'', ''default''} then Some s
               else Some p))"

text \<open>The tiers a name stands for: itself and its canonical form.\<close>

definition tier_names :: "string \<Rightarrow> string list" where
  "tier_names v = v # (let c = canonical_service_tier_value v in if c = [] then [] else [c])"

definition model_service_tier_keys :: "UpstreamModel \<Rightarrow> string list" where
  "model_service_tier_keys m =
     remdups (concat (map tier_names
       (filter (\<lambda>s. s \<noteq> []) (string_items (list_items (map_of (um_raw m) ''additional_speed_tiers'')))
        @ concat (map (\<lambda>item. List.map_filter (\<lambda>k. nonempty_str (obj_get k item)) SERVICE_TIER_OBJECT_KEY_FIELDS)
                   (list_items (map_of (um_raw m) ''service_tiers'')))
        @ (case nonempty_str (map_of (um_raw m) ''default_service_tier'') of None \<Rightarrow> [] | Some s \<Rightarrow> [s]))))"

definition set_field :: "string \<Rightarrow> json option \<Rightarrow> (string \<times> json) list \<Rightarrow> (string \<times> json) list" where
  "set_field k v raw = (case v of None \<Rightarrow> raw | Some x \<Rightarrow> AList.update k x raw)"

definition merge_service_tier_metadata :: "(json \<Rightarrow> string) \<Rightarrow> UpstreamModel \<Rightarrow> UpstreamModel \<Rightarrow> UpstreamModel" where
  "merge_service_tier_metadata dumps existing incoming =
     (let get = (\<lambda>m k. map_of (um_raw m) k);
          raw1 = set_field ''additional_speed_tiers''
                   (map_option JList (union_string_tiers (get incoming ''additional_speed_tiers'') (get existing ''additional_speed_tiers'')))
                   (um_raw incoming);
          raw2 = set_field ''service_tiers''
                   (map_option JList (union_object_tiers dumps (get incoming ''service_tiers'') (get existing ''service_tiers''))) raw1;
          raw3 = set_field ''default_service_tier''
                   (map_option JStr (merge_default_service_tier (get incoming ''default_service_tier'') (get existing ''default_service_tier'')))
                   raw2
      in incoming\<lparr>um_raw := raw3\<rparr>)"

section \<open>Queries\<close>

definition get_models_with_fallback :: "ModelRegistry \<Rightarrow> (string \<times> UpstreamModel) list" where
  "get_models_with_fallback reg =
     (case mr_snapshot reg of
        None \<Rightarrow> mr_bootstrap_models reg
      | Some s \<Rightarrow>
          if rs_bootstrap_floor_active s
          then foldl (\<lambda>m (slug, x). AList.update slug x m)
                 (filter (\<lambda>(slug, x). slug \<notin> set (rs_suppressed_model_slugs s)) (mr_bootstrap_models reg)) (rs_models s)
          else rs_models s)"

definition get_models_for_metadata :: "ModelRegistry \<Rightarrow> (string \<times> UpstreamModel) list" where
  "get_models_for_metadata reg = default_to (mr_metadata_models reg) (mr_bootstrap_models reg)"

text \<open>\<open>m.get(slug) or m.get(normalized_slug)\<close>, for values that are never false and for collections.\<close>

definition get_model :: "(string \<times> 'a) list \<Rightarrow> string \<Rightarrow> 'a option" where
  "get_model m slug = or_else (map_of m slug) (map_of m (normalized_slug slug))"

definition get_nonempty :: "(string \<times> 'a list) list \<Rightarrow> string \<Rightarrow> 'a list option" where
  "get_nonempty m slug =
     (case map_of m slug of Some (x # xs) \<Rightarrow> Some (x # xs) | _ \<Rightarrow> map_of m (normalized_slug slug))"

definition plan_types_for_model :: "ModelRegistry \<Rightarrow> string \<Rightarrow> string list option" where
  "plan_types_for_model reg slug =
     (let bootstrap_model = get_model (mr_bootstrap_models reg) slug
      in case mr_snapshot reg of
           None \<Rightarrow> map_option um_available_in_plans bootstrap_model
         | Some s \<Rightarrow>
             (case get_model (rs_model_plans s) slug of
                Some plans \<Rightarrow> Some plans
              | None \<Rightarrow>
                  (case bootstrap_model of
                     None \<Rightarrow> Some []
                   | Some m \<Rightarrow>
                       if rs_bootstrap_floor_active s \<and> normalized_slug slug \<notin> set (rs_suppressed_model_slugs s)
                       then Some (um_available_in_plans m) else Some [])))"

definition is_suppressed_model :: "ModelRegistry \<Rightarrow> string \<Rightarrow> bool" where
  "is_suppressed_model reg slug =
     (case mr_snapshot reg of None \<Rightarrow> False | Some s \<Rightarrow> normalized_slug slug \<in> set (rs_suppressed_model_slugs s))"

definition plan_types_for_model_service_tier :: "ModelRegistry \<Rightarrow> string \<Rightarrow> string option \<Rightarrow> string list option" where
  "plan_types_for_model_service_tier reg slug service_tier =
     (case service_tier of
        None \<Rightarrow> plan_types_for_model reg slug
      | Some t \<Rightarrow>
          (let tier = (if py_strip t = ''fast'' then ''priority'' else py_strip t)
           in if normalized_slug slug = [] \<or> py_strip t = [] then plan_types_for_model reg slug
              else (case mr_snapshot reg of
                      None \<Rightarrow> plan_types_for_model reg slug
                    | Some s \<Rightarrow>
                        if \<not> rs_account_catalogs_authoritative s \<and> rs_account_plans s \<noteq> [] then plan_types_for_model reg slug
                        else (case get_nonempty (rs_model_service_tier_plans s) slug of
                                None \<Rightarrow> plan_types_for_model reg slug
                              | Some tier_plans \<Rightarrow> Some (default_to (map_of tier_plans tier) [])))))"

definition account_ids_for_model_service_tier :: "ModelRegistry \<Rightarrow> string \<Rightarrow> string option \<Rightarrow> string list option" where
  "account_ids_for_model_service_tier reg slug service_tier =
     (case (service_tier, mr_snapshot reg) of
        (Some t, Some s) \<Rightarrow>
          if \<not> rs_account_catalogs_authoritative s then None
          else if normalized_slug slug = [] \<or> canonical_service_tier_value t = [] then None
          else (case get_nonempty (rs_model_service_tier_accounts s) slug of
                  None \<Rightarrow> Some []
                | Some tier_accounts \<Rightarrow> Some (default_to (map_of tier_accounts (canonical_service_tier_value t)) []))
      | _ \<Rightarrow> None)"

definition account_ids_for_model :: "ModelRegistry \<Rightarrow> string \<Rightarrow> string list option" where
  "account_ids_for_model reg slug =
     (case mr_snapshot reg of
        None \<Rightarrow> None
      | Some s \<Rightarrow>
          if \<not> rs_account_catalogs_authoritative s then None
          else if normalized_slug slug = [] then None
          else Some (default_to (get_nonempty (rs_model_accounts s) slug) []))"

definition prefers_websockets :: "(string \<Rightarrow> bool) \<Rightarrow> ModelRegistry \<Rightarrow> string option \<Rightarrow> bool" where
  "prefers_websockets matches_pattern reg slug_arg =
     (case slug_arg of
        None \<Rightarrow> False
      | Some slug \<Rightarrow>
          if normalized_slug slug = [] then False
          else (case mr_snapshot reg of
                  Some s \<Rightarrow>
                    (case get_model (rs_models s) slug of
                       Some m \<Rightarrow> um_prefer_websockets m
                     | None \<Rightarrow>
                         if rs_bootstrap_floor_active s \<and> normalized_slug slug \<notin> set (rs_suppressed_model_slugs s)
                         then (case get_model (mr_bootstrap_models reg) slug of None \<Rightarrow> False | Some m \<Rightarrow> um_prefer_websockets m)
                         else False)
                | None \<Rightarrow>
                    (case get_model (mr_bootstrap_models reg) slug of
                       Some m \<Rightarrow> um_prefer_websockets m
                     | None \<Rightarrow> matches_pattern (normalized_slug slug))))"

definition needs_refresh :: "pyfloat \<Rightarrow> ModelRegistry \<Rightarrow> bool" where
  "needs_refresh now reg =
     (case mr_snapshot reg of None \<Rightarrow> True | Some s \<Rightarrow> now - rs_fetched_at s \<ge> mr_ttl_seconds reg)"

definition clear_registry :: "ModelRegistry \<Rightarrow> ModelRegistry" where
  "clear_registry reg = reg\<lparr>mr_snapshot := None, mr_metadata_models := None, mr_applied_content_hash := None\<rparr>"

text \<open>The state that replicas exchange through the snapshot store.\<close>

record ModelRegistryExport =
  me_snapshot :: "ModelRegistrySnapshot option"
  me_metadata_models :: "(string \<times> UpstreamModel) list option"

definition export_state :: "ModelRegistry \<Rightarrow> ModelRegistryExport" where
  "export_state reg = \<lparr>me_snapshot = mr_snapshot reg, me_metadata_models = mr_metadata_models reg\<rparr>"

definition import_state :: "string \<Rightarrow> ModelRegistryExport \<Rightarrow> ModelRegistry \<Rightarrow> ModelRegistry" where
  "import_state content_hash st reg =
     reg\<lparr>mr_snapshot := me_snapshot st, mr_metadata_models := me_metadata_models st, mr_applied_content_hash := Some content_hash\<rparr>"

definition note_applied_content_hash :: "string option \<Rightarrow> ModelRegistry \<Rightarrow> ModelRegistry" where
  "note_applied_content_hash content_hash reg = reg\<lparr>mr_applied_content_hash := content_hash\<rparr>"

definition is_public_model :: "UpstreamModel \<Rightarrow> string list option \<Rightarrow> bool" where
  "is_public_model m allowed_models =
     (if \<not> um_supported_in_api m then False
      else (case allowed_models of None \<Rightarrow> True | Some ms \<Rightarrow> um_slug m \<in> set ms))"

section \<open>Update\<close>

text \<open>The dictionaries that the update builds.\<close>

record RegistryWork =
  wk_models :: "(string \<times> UpstreamModel) list"
  wk_model_plans :: "(string \<times> string list) list"
  wk_tier_plans :: "(string \<times> (string \<times> string list) list) list"
  wk_tier_accounts :: "(string \<times> (string \<times> string list) list) list"
  wk_model_accounts :: "(string \<times> string list) list"
  wk_account_plans :: "(string \<times> string) list"

definition empty_work :: RegistryWork where
  "empty_work = \<lparr>wk_models = [], wk_model_plans = [], wk_tier_plans = [], wk_tier_accounts = [], wk_model_accounts = [],
     wk_account_plans = []\<rparr>"

record Refresh =
  rf_plans :: "(string \<times> UpstreamModel list) list"
  rf_accounts :: "(string \<times> string \<times> UpstreamModel list) list option"
  rf_active :: "(string \<times> string) list option"

definition add_tier ::
  "string \<Rightarrow> string \<Rightarrow> string \<Rightarrow> (string \<times> (string \<times> string list) list) list \<Rightarrow> (string \<times> (string \<times> string list) list) list" where
  "add_tier slug tier v m = AList.update slug (add_to tier v (default_to (map_of m slug) [])) m"

definition setdefault_model :: "string \<Rightarrow> UpstreamModel \<Rightarrow> (string \<times> UpstreamModel) list \<Rightarrow> (string \<times> UpstreamModel) list" where
  "setdefault_model slug m models = (case map_of models slug of None \<Rightarrow> AList.update slug m models | Some x \<Rightarrow> models)"

subsection \<open>What is carried over\<close>

definition stale_plans :: "ModelRegistrySnapshot \<Rightarrow> Refresh \<Rightarrow> string list" where
  "stale_plans prev rf =
     filter (\<lambda>p. p \<notin> fst ` set (rf_plans rf) \<and> (case rf_active rf of None \<Rightarrow> True | Some act \<Rightarrow> p \<in> snd ` set act))
       (map fst (rs_plan_models prev))"

definition stale_account :: "ModelRegistrySnapshot \<Rightarrow> Refresh \<Rightarrow> string \<Rightarrow> string \<Rightarrow> bool" where
  "stale_account prev rf acct plan =
     (case rf_active rf of
        None \<Rightarrow> plan \<in> set (stale_plans prev rf)
      | Some act \<Rightarrow>
          map_of act acct = Some plan
          \<and> (plan \<in> set (stale_plans prev rf) \<or> acct \<notin> fst ` set (default_to (rf_accounts rf) [])))"

definition stale_account_ids :: "ModelRegistrySnapshot \<Rightarrow> Refresh \<Rightarrow> string list" where
  "stale_account_ids prev rf = map fst (filter (\<lambda>(acct, plan). stale_account prev rf acct plan) (rs_account_plans prev))"

text \<open>\<open>supported_stale_slugs\<close>: the plan has an account that is carried over and advertised the model.\<close>

definition supported_slug :: "ModelRegistrySnapshot \<Rightarrow> Refresh \<Rightarrow> (string \<times> string) list \<Rightarrow> string \<Rightarrow> string \<Rightarrow> bool" where
  "supported_slug prev rf act plan slug =
     list_ex (\<lambda>acct. acct \<in> set (stale_account_ids prev rf)
                     \<and> or_else (map_of act acct) (map_of (rs_account_plans prev) acct) = Some plan)
       (default_to (map_of (rs_model_accounts prev) slug) [])"

definition stale_slugs :: "ModelRegistrySnapshot \<Rightarrow> Refresh \<Rightarrow> string \<Rightarrow> string list" where
  "stale_slugs prev rf plan =
     (let slugs = default_to (map_of (rs_plan_models prev) plan) []
      in case rf_active rf of
           None \<Rightarrow> slugs
         | Some act \<Rightarrow>
             filter (\<lambda>slug. members (rs_model_accounts prev) slug = {} \<or> supported_slug prev rf act plan slug) slugs)"

definition carry_slug :: "ModelRegistrySnapshot \<Rightarrow> string \<Rightarrow> RegistryWork \<Rightarrow> string \<Rightarrow> RegistryWork" where
  "carry_slug prev plan w slug =
     w\<lparr>wk_models := (case map_of (rs_models prev) slug of None \<Rightarrow> wk_models w | Some m \<Rightarrow> setdefault_model slug m (wk_models w)),
       wk_model_plans := add_to slug plan (wk_model_plans w),
       wk_tier_plans := foldl (\<lambda>t (tier, plans). if plan \<in> set plans then add_tier slug tier plan t else t)
         (wk_tier_plans w) (default_to (map_of (rs_model_service_tier_plans prev) slug) [])\<rparr>"

definition carry_plan :: "ModelRegistrySnapshot \<Rightarrow> Refresh \<Rightarrow> RegistryWork \<Rightarrow> string \<Rightarrow> RegistryWork" where
  "carry_plan prev rf w plan = foldl (carry_slug prev plan) w (stale_slugs prev rf plan)"

definition carry_account :: "ModelRegistrySnapshot \<Rightarrow> Refresh \<Rightarrow> RegistryWork \<Rightarrow> string \<Rightarrow> RegistryWork" where
  "carry_account prev rf w acct =
     (case (case rf_active rf of Some act \<Rightarrow> map_of act acct | None \<Rightarrow> map_of (rs_account_plans prev) acct) of
        None \<Rightarrow> w | Some plan \<Rightarrow> w\<lparr>wk_account_plans := AList.update acct plan (wk_account_plans w)\<rparr>)"

text \<open>The plans of accounts, added under a key of a nested or plain dictionary.\<close>

definition plans_of :: "(string \<times> string) list \<Rightarrow> string list \<Rightarrow> string list" where
  "plans_of account_plans accts = List.map_filter (map_of account_plans) accts"

definition carry_model_accounts ::
  "ModelRegistrySnapshot \<Rightarrow> Refresh \<Rightarrow> RegistryWork \<Rightarrow> string \<times> string list \<Rightarrow> RegistryWork" where
  "carry_model_accounts prev rf w entry =
     (case entry of (slug, accts) \<Rightarrow>
        let kept = filter (\<lambda>a. a \<in> set (stale_account_ids prev rf)) accts
        in (case map_of (rs_models prev) slug of
              None \<Rightarrow> w
            | Some m \<Rightarrow>
                if kept = [] then w
                else w\<lparr>wk_model_accounts := foldl (\<lambda>d a. add_to slug a d) (wk_model_accounts w) kept,
                       wk_models := setdefault_model slug m (wk_models w),
                       wk_model_plans := foldl (\<lambda>d p. add_to slug p d) (wk_model_plans w) (plans_of (wk_account_plans w) kept)\<rparr>))"

definition carry_tier_accounts ::
  "ModelRegistrySnapshot \<Rightarrow> Refresh \<Rightarrow> string \<Rightarrow> RegistryWork \<Rightarrow> string \<times> string list \<Rightarrow> RegistryWork" where
  "carry_tier_accounts prev rf slug w entry =
     (case entry of (tier, accts) \<Rightarrow>
        let kept = filter (\<lambda>a. a \<in> set (stale_account_ids prev rf)) accts
        in w\<lparr>wk_tier_accounts := foldl (\<lambda>d a. add_tier slug tier a d) (wk_tier_accounts w) kept,
             wk_tier_plans := foldl (\<lambda>d p. add_tier slug tier p d) (wk_tier_plans w) (plans_of (wk_account_plans w) kept)\<rparr>)"

definition carry_tiers ::
  "ModelRegistrySnapshot \<Rightarrow> Refresh \<Rightarrow> RegistryWork \<Rightarrow> string \<times> (string \<times> string list) list \<Rightarrow> RegistryWork" where
  "carry_tiers prev rf w entry =
     (case entry of (slug, tiers) \<Rightarrow>
        if map_of (rs_models prev) slug = None then w else foldl (carry_tier_accounts prev rf slug) w tiers)"

definition carry_over :: "ModelRegistrySnapshot option \<Rightarrow> Refresh \<Rightarrow> RegistryWork" where
  "carry_over previous rf =
     (case previous of
        None \<Rightarrow> empty_work
      | Some prev \<Rightarrow>
          (let w1 = foldl (carry_plan prev rf) empty_work (stale_plans prev rf);
               w2 = foldl (carry_account prev rf) w1 (stale_account_ids prev rf);
               w3 = foldl (carry_model_accounts prev rf) w2 (rs_model_accounts prev)
           in foldl (carry_tiers prev rf) w3 (rs_model_service_tier_accounts prev)))"

subsection \<open>What was fetched\<close>

text \<open>\<open>refreshed_model_slugs\<close> is the second component.\<close>

definition merge_model ::
  "(json \<Rightarrow> string) \<Rightarrow> string \<Rightarrow> RegistryWork \<times> string list \<Rightarrow> UpstreamModel \<Rightarrow> RegistryWork \<times> string list" where
  "merge_model dumps plan acc m =
     (case acc of (w, refreshed) \<Rightarrow>
        let slug = um_slug m;
            merged = (case map_of (wk_models w) slug of
                        Some existing \<Rightarrow> if slug \<in> set refreshed then merge_service_tier_metadata dumps existing m else m
                      | None \<Rightarrow> m)
        in (w\<lparr>wk_models := AList.update slug merged (wk_models w),
              wk_model_plans := add_to slug plan (wk_model_plans w),
              wk_tier_plans := foldl (\<lambda>t tier. add_tier slug tier plan t) (wk_tier_plans w) (model_service_tier_keys m)\<rparr>,
            slug # refreshed))"

definition merge_plans :: "(json \<Rightarrow> string) \<Rightarrow> Refresh \<Rightarrow> RegistryWork \<Rightarrow> RegistryWork" where
  "merge_plans dumps rf w =
     fst (foldl (\<lambda>acc (plan, ms). foldl (merge_model dumps plan) acc ms) (w, []) (rf_plans rf))"

definition merge_account_model :: "string \<Rightarrow> RegistryWork \<Rightarrow> UpstreamModel \<Rightarrow> RegistryWork" where
  "merge_account_model acct w m =
     (let slug = um_slug m
      in if map_of (wk_models w) slug = None then w
         else w\<lparr>wk_model_accounts := add_to slug acct (wk_model_accounts w),
                wk_tier_accounts := foldl (\<lambda>t tier. add_tier slug tier acct t) (wk_tier_accounts w) (model_service_tier_keys m)\<rparr>)"

definition merge_account :: "RegistryWork \<Rightarrow> string \<times> string \<times> UpstreamModel list \<Rightarrow> RegistryWork" where
  "merge_account w entry =
     (case entry of (acct, plan, ms) \<Rightarrow>
        foldl (merge_account_model acct) (w\<lparr>wk_account_plans := AList.update acct plan (wk_account_plans w)\<rparr>) ms)"

definition merge_accounts :: "Refresh \<Rightarrow> RegistryWork \<Rightarrow> RegistryWork" where
  "merge_accounts rf w = foldl merge_account w (default_to (rf_accounts rf) [])"

subsection \<open>The new snapshot\<close>

definition authoritative_account_catalogs :: "Refresh \<Rightarrow> RegistryWork \<Rightarrow> bool" where
  "authoritative_account_catalogs rf w =
     (case rf_accounts rf of
        None \<Rightarrow> False
      | Some results \<Rightarrow>
          set (case rf_active rf of Some (a # act) \<Rightarrow> map fst (a # act) | _ \<Rightarrow> map fst results) \<subseteq> fst ` set (wk_account_plans w))"

definition withdrawn_slugs ::
  "(string \<times> UpstreamModel) list \<Rightarrow> ModelRegistrySnapshot option \<Rightarrow> Refresh \<Rightarrow> RegistryWork \<Rightarrow> string list" where
  "withdrawn_slugs bootstrap previous rf w =
     (case previous of None \<Rightarrow> [] | Some prev \<Rightarrow> rs_suppressed_model_slugs prev)
     @ (if authoritative_account_catalogs rf w
        then map fst bootstrap @ concat (map (\<lambda>(acct, plan, ms). map um_slug ms) (default_to (rf_accounts rf) [])) else [])
     @ (case previous of None \<Rightarrow> []
        | Some prev \<Rightarrow> map fst (filter (\<lambda>(slug, accts). accts \<noteq> []) (rs_model_accounts prev)))"

definition suppressed_slugs ::
  "(string \<times> UpstreamModel) list \<Rightarrow> ModelRegistrySnapshot option \<Rightarrow> Refresh \<Rightarrow> RegistryWork \<Rightarrow> string list" where
  "suppressed_slugs bootstrap previous rf w =
     remdups (filter (\<lambda>slug. map_of (wk_models w) slug = None) (withdrawn_slugs bootstrap previous rf w))"

definition plan_models_index :: "(string \<times> string list) list \<Rightarrow> (string \<times> string list) list" where
  "plan_models_index model_plans = foldl (\<lambda>m (slug, plans). foldl (\<lambda>m p. add_to p slug m) m plans) [] model_plans"

definition account_metadata_models ::
  "(string \<times> UpstreamModel) list \<Rightarrow> Refresh \<Rightarrow> (string \<times> UpstreamModel) list" where
  "account_metadata_models bootstrap rf =
     foldl (\<lambda>d m. if map_of bootstrap (um_slug m) = None then d else setdefault_model (um_slug m) m d) []
       (concat (map (\<lambda>(acct, plan, ms). ms) (default_to (rf_accounts rf) [])))"

definition dict_update :: "('k \<times> 'v) list \<Rightarrow> ('k \<times> 'v) list \<Rightarrow> ('k \<times> 'v) list" where
  "dict_update d e = foldl (\<lambda>m (k, v). AList.update k v m) d e"

definition new_metadata_models :: "ModelRegistry \<Rightarrow> Refresh \<Rightarrow> RegistryWork \<Rightarrow> (string \<times> UpstreamModel) list" where
  "new_metadata_models reg rf w =
     (let known = or_list (default_to (mr_metadata_models reg) []) (mr_bootstrap_models reg);
          base = filter (\<lambda>(slug, m). map_of (mr_bootstrap_models reg) slug \<noteq> None) known
      in dict_update (dict_update base (account_metadata_models (mr_bootstrap_models reg) rf)) (wk_models w))"

definition refreshed_work :: "(json \<Rightarrow> string) \<Rightarrow> ModelRegistrySnapshot option \<Rightarrow> Refresh \<Rightarrow> RegistryWork" where
  "refreshed_work dumps previous rf = merge_accounts rf (merge_plans dumps rf (carry_over previous rf))"

definition new_snapshot :: "pyfloat \<Rightarrow> ModelRegistry \<Rightarrow> Refresh \<Rightarrow> RegistryWork \<Rightarrow> ModelRegistrySnapshot" where
  "new_snapshot now reg rf w =
     \<lparr>rs_models = wk_models w, rs_model_plans = wk_model_plans w, rs_plan_models = plan_models_index (wk_model_plans w),
      rs_model_service_tier_plans = wk_tier_plans w, rs_model_service_tier_accounts = wk_tier_accounts w,
      rs_account_plans = wk_account_plans w, rs_fetched_at = now, rs_model_accounts = wk_model_accounts w,
      rs_account_catalogs_authoritative = authoritative_account_catalogs rf w,
      rs_bootstrap_floor_active = (rf_accounts rf \<noteq> None \<and> \<not> authoritative_account_catalogs rf w),
      rs_suppressed_model_slugs = suppressed_slugs (mr_bootstrap_models reg) (mr_snapshot reg) rf w\<rparr>"

definition update_registry :: "(json \<Rightarrow> string) \<Rightarrow> pyfloat \<Rightarrow> Refresh \<Rightarrow> ModelRegistry \<Rightarrow> ModelRegistry" where
  "update_registry dumps now rf reg =
     (if rf_plans rf = [] then reg
      else (let w = refreshed_work dumps (mr_snapshot reg) rf
            in reg\<lparr>mr_snapshot := Some (new_snapshot now reg rf w), mr_metadata_models := Some (new_metadata_models reg rf w)\<rparr>))"

section \<open>Consistent catalogs\<close>

definition tier_pairs :: "(string \<times> (string \<times> string list) list) list \<Rightarrow> (string \<times> string \<times> string) set" where
  "tier_pairs m = {(slug, tier, v). \<exists>tiers. (slug, tiers) \<in> set m \<and> (tier, v) \<in> pairs tiers}"

text \<open>A model that a plan or an account offers is known, an account that offers a model has a plan, and an
  account that offers a tier of a model offers the model.\<close>

definition catalog_ok ::
  "(string \<times> UpstreamModel) list \<Rightarrow> (string \<times> string list) list \<Rightarrow> (string \<times> string list) list
     \<Rightarrow> (string \<times> (string \<times> string list) list) list \<Rightarrow> (string \<times> string) list \<Rightarrow> bool" where
  "catalog_ok models model_plans model_accounts tier_accounts account_plans =
     (distinct (map fst model_plans)
      \<and> (\<forall>slug p. (slug, p) \<in> pairs model_plans \<longrightarrow> map_of models slug \<noteq> None)
      \<and> (\<forall>slug a. (slug, a) \<in> pairs model_accounts \<longrightarrow> map_of models slug \<noteq> None \<and> map_of account_plans a \<noteq> None)
      \<and> (\<forall>slug t a. (slug, t, a) \<in> tier_pairs tier_accounts \<longrightarrow> a \<in> members model_accounts slug))"

definition work_ok :: "RegistryWork \<Rightarrow> bool" where
  "work_ok w = catalog_ok (wk_models w) (wk_model_plans w) (wk_model_accounts w) (wk_tier_accounts w) (wk_account_plans w)"

definition snapshot_ok :: "ModelRegistrySnapshot \<Rightarrow> bool" where
  "snapshot_ok s =
     (catalog_ok (rs_models s) (rs_model_plans s) (rs_model_accounts s) (rs_model_service_tier_accounts s) (rs_account_plans s)
      \<and> (\<forall>p slug. slug \<in> members (rs_plan_models s) p \<longleftrightarrow> p \<in> members (rs_model_plans s) slug)
      \<and> (\<forall>slug. slug \<in> set (rs_suppressed_model_slugs s) \<longrightarrow> map_of (rs_models s) slug = None)
      \<and> \<not> (rs_account_catalogs_authoritative s \<and> rs_bootstrap_floor_active s))"

lemma tier_pairs_add: "tier_pairs (add_tier slug tier v m) \<subseteq> insert (slug, tier, v) (tier_pairs m)"
proof
  fix x
  assume "x \<in> tier_pairs (add_tier slug tier v m)"
  then obtain j t a ts where x: "x = (j, t, a)" "(j, ts) \<in> set (add_tier slug tier v m)" "(t, a) \<in> pairs ts"
    by (auto simp: tier_pairs_def)
  from x(2) consider "j = slug" "ts = add_to tier v (default_to (map_of m slug) [])" | "(j, ts) \<in> set m"
    using set_alist_update unfolding add_tier_def by fast
  then show "x \<in> insert (slug, tier, v) (tier_pairs m)"
  proof cases
    case 1
    then have "(t, a) = (tier, v) \<or> (t, a) \<in> pairs (default_to (map_of m slug) [])"
      using x(3) pairs_add_to by fast
    moreover have "(t, a) \<in> pairs (default_to (map_of m slug) []) \<Longrightarrow> (slug, t, a) \<in> tier_pairs m"
      by (cases "map_of m slug") (auto simp: tier_pairs_def dest: map_of_SomeD)
    ultimately show ?thesis
      using x(1) 1(1) by auto
  qed (use x in \<open>auto simp: tier_pairs_def\<close>)
qed

lemma catalog_grow:
  assumes "catalog_ok models mp ma ta ap"
    and "\<And>slug. map_of models slug \<noteq> None \<Longrightarrow> map_of models' slug \<noteq> None" "\<And>a. map_of ap a \<noteq> None \<Longrightarrow> map_of ap' a \<noteq> None"
  shows "catalog_ok models' mp ma ta ap'"
  using assms unfolding catalog_ok_def by blast

lemma catalog_plan:
  "catalog_ok models mp ma ta ap \<Longrightarrow> map_of models slug \<noteq> None \<Longrightarrow> catalog_ok models (add_to slug p mp) ma ta ap"
  using pairs_add_to [of slug p mp] unfolding catalog_ok_def by (fastforce simp: distinct_add_to)

lemma catalog_account:
  "catalog_ok models mp ma ta ap \<Longrightarrow> map_of models slug \<noteq> None \<Longrightarrow> map_of ap a \<noteq> None
     \<Longrightarrow> catalog_ok models mp (add_to slug a ma) ta ap"
  using pairs_add_to [of slug a ma] unfolding catalog_ok_def by (fastforce simp: members_add_to)

lemma catalog_tier:
  "catalog_ok models mp ma ta ap \<Longrightarrow> a \<in> members ma slug \<Longrightarrow> catalog_ok models mp ma (add_tier slug t a ta) ap"
  using tier_pairs_add [of slug t a ta] unfolding catalog_ok_def by fast

lemma setdefault_model_dom: "map_of (setdefault_model slug m models) j \<noteq> None \<longleftrightarrow> j = slug \<or> map_of models j \<noteq> None"
  by (auto simp: setdefault_model_def update_conv split: option.split)

lemma setdefault_model_has: "\<exists>y. map_of (setdefault_model slug m models) slug = Some y"
  using setdefault_model_dom [of slug m models slug] by blast

lemma catalog_setdefault: "catalog_ok models mp ma ta ap \<Longrightarrow> catalog_ok (setdefault_model slug m models) mp ma ta ap"
  by (erule catalog_grow) (simp_all only: setdefault_model_dom simp_thms)

lemma foldl_catalog_plan:
  "catalog_ok models mp ma ta ap \<Longrightarrow> map_of models slug \<noteq> None \<Longrightarrow>
     catalog_ok models (foldl (\<lambda>d p. add_to slug p d) mp ps) ma ta ap"
  by (rule foldl_inv [where P = "\<lambda>d. catalog_ok models d ma ta ap"]) (auto intro: catalog_plan)

lemma foldl_catalog_account:
  "catalog_ok models mp ma ta ap \<Longrightarrow> map_of models slug \<noteq> None \<Longrightarrow> (\<And>a. a \<in> set as \<Longrightarrow> map_of ap a \<noteq> None) \<Longrightarrow>
     catalog_ok models mp (foldl (\<lambda>d a. add_to slug a d) ma as) ta ap"
  by (rule foldl_inv [where P = "\<lambda>d. catalog_ok models mp d ta ap"]) (auto intro: catalog_account)

lemma foldl_catalog_tier:
  "catalog_ok models mp ma ta ap \<Longrightarrow> (\<And>a. a \<in> set as \<Longrightarrow> a \<in> members ma slug) \<Longrightarrow>
     catalog_ok models mp ma (foldl (\<lambda>d a. add_tier slug t a d) ta as) ap"
  by (rule foldl_inv [where P = "\<lambda>d. catalog_ok models mp ma d ap"]) (auto intro: catalog_tier)

lemma foldl_add_members: "members (foldl (\<lambda>d a. add_to slug a d) m as) j = members m j \<union> (if j = slug then set as else {})"
  by (induction as arbitrary: m) (auto simp: members_add_to)

subsection \<open>Carrying over\<close>

text \<open>What is established once the accounts, and once their models, have been carried over.\<close>

definition accounts_carried :: "ModelRegistrySnapshot \<Rightarrow> Refresh \<Rightarrow> RegistryWork \<Rightarrow> bool" where
  "accounts_carried prev rf w = (\<forall>a \<in> set (stale_account_ids prev rf). map_of (wk_account_plans w) a \<noteq> None)"

definition models_carried :: "ModelRegistrySnapshot \<Rightarrow> Refresh \<Rightarrow> RegistryWork \<Rightarrow> bool" where
  "models_carried prev rf w =
     (\<forall>slug a. a \<in> members (rs_model_accounts prev) slug \<and> a \<in> set (stale_account_ids prev rf)
        \<and> map_of (rs_models prev) slug \<noteq> None \<longrightarrow> a \<in> members (wk_model_accounts w) slug)"

lemma work_ok_empty: "work_ok empty_work"
  by (simp add: work_ok_def catalog_ok_def empty_work_def tier_pairs_def)

lemma carry_slug_ok:
  assumes "work_ok w" "map_of (rs_models prev) slug = Some m"
  shows "work_ok (carry_slug prev plan w slug)"
proof -
  have "catalog_ok (setdefault_model slug m (wk_models w)) (wk_model_plans w) (wk_model_accounts w) (wk_tier_accounts w) (wk_account_plans w)"
    using assms(1) unfolding work_ok_def by (rule catalog_setdefault)
  then show ?thesis
    using catalog_plan [OF _ setdefault_model_dom [THEN iffD2]] assms(2) by (simp add: work_ok_def carry_slug_def)
qed

lemma stale_slugs_known:
  assumes "snapshot_ok prev" "slug \<in> set (stale_slugs prev rf plan)"
  shows "\<exists>m. map_of (rs_models prev) slug = Some m"
proof -
  have "slug \<in> members (rs_plan_models prev) plan"
    using assms(2) by (auto simp: stale_slugs_def members_def Let_def split: option.splits)
  then have "(slug, plan) \<in> pairs (rs_model_plans prev)"
    using assms(1) members_pairs unfolding snapshot_ok_def by metis
  then show ?thesis
    using assms(1) unfolding snapshot_ok_def catalog_ok_def by blast
qed

lemma carry_plans_ok:
  assumes "snapshot_ok prev"
  shows "work_ok (foldl (carry_plan prev rf) empty_work plans)"
proof (rule foldl_inv [where P = work_ok])
  show "work_ok (carry_plan prev rf w plan)" if "work_ok w" for w plan
    unfolding carry_plan_def using that
    by (rule foldl_inv [where P = work_ok]) (use carry_slug_ok stale_slugs_known [OF assms] in blast)
qed (rule work_ok_empty)

lemma stale_account_plan:
  assumes "a \<in> set (stale_account_ids prev rf)"
  shows "\<exists>plan. (a, plan) \<in> set (rs_account_plans prev) \<and> stale_account prev rf a plan"
    and "(case rf_active rf of Some act \<Rightarrow> map_of act a | None \<Rightarrow> map_of (rs_account_plans prev) a) \<noteq> None"
proof -
  obtain plan where p: "(a, plan) \<in> set (rs_account_plans prev)" "stale_account prev rf a plan"
    using assms by (auto simp: stale_account_ids_def)
  then show "\<exists>plan. (a, plan) \<in> set (rs_account_plans prev) \<and> stale_account prev rf a plan"
    by blast
  have "map_of (rs_account_plans prev) a \<noteq> None"
    using p(1) by (auto simp: map_of_eq_None_iff intro: rev_image_eqI)
  then show "(case rf_active rf of Some act \<Rightarrow> map_of act a | None \<Rightarrow> map_of (rs_account_plans prev) a) \<noteq> None"
    using p(2) by (auto simp: stale_account_def split: option.splits)
qed

lemma carry_account_ok:
  assumes "work_ok w"
  shows "work_ok (carry_account prev rf w a)"
proof -
  have "catalog_ok (wk_models w) (wk_model_plans w) (wk_model_accounts w) (wk_tier_accounts w) (AList.update a plan (wk_account_plans w))" for plan
    using assms unfolding work_ok_def by (rule catalog_grow) (simp_all add: update_conv)
  then show ?thesis
    using assms by (auto simp: carry_account_def work_ok_def split: option.split)
qed

lemma carry_accounts_all:
  assumes "\<And>a. a \<in> set as \<Longrightarrow> a \<in> set (stale_account_ids prev rf)"
  shows "\<forall>a. a \<in> set as \<or> map_of (wk_account_plans w) a \<noteq> None \<longrightarrow> map_of (wk_account_plans (foldl (carry_account prev rf) w as)) a \<noteq> None"
  using assms
proof (induction as arbitrary: w)
  case (Cons a as)
  have "map_of (wk_account_plans (carry_account prev rf w a)) b \<noteq> None" if "b = a \<or> map_of (wk_account_plans w) b \<noteq> None" for b
    using stale_account_plan(2) [of a prev rf] Cons.prems [of a] that
    by (auto simp: carry_account_def update_conv split: option.splits)
  then show ?case
    using Cons by auto
qed simp

lemma carry_model_accounts_ok:
  assumes "work_ok w" "accounts_carried prev rf w"
  shows "work_ok (carry_model_accounts prev rf w (slug, accts))" "accounts_carried prev rf (carry_model_accounts prev rf w (slug, accts))"
    "members (wk_model_accounts w) j \<subseteq> members (wk_model_accounts (carry_model_accounts prev rf w (slug, accts))) j"
    "map_of (rs_models prev) slug \<noteq> None \<Longrightarrow> a \<in> set accts \<Longrightarrow> a \<in> set (stale_account_ids prev rf) \<Longrightarrow>
       a \<in> members (wk_model_accounts (carry_model_accounts prev rf w (slug, accts))) slug"
proof -
  let ?kept = "filter (\<lambda>a. a \<in> set (stale_account_ids prev rf)) accts"
  show "accounts_carried prev rf (carry_model_accounts prev rf w (slug, accts))"
    using assms(2) by (simp add: carry_model_accounts_def accounts_carried_def Let_def split: option.split)
  show "members (wk_model_accounts w) j \<subseteq> members (wk_model_accounts (carry_model_accounts prev rf w (slug, accts))) j"
    by (auto simp: carry_model_accounts_def Let_def foldl_add_members split: option.split)
  show "a \<in> members (wk_model_accounts (carry_model_accounts prev rf w (slug, accts))) slug"
    if "map_of (rs_models prev) slug \<noteq> None" "a \<in> set accts" "a \<in> set (stale_account_ids prev rf)"
    using that by (auto simp: carry_model_accounts_def Let_def foldl_add_members filter_empty_conv)
  have "work_ok (w\<lparr>wk_model_accounts := foldl (\<lambda>d a. add_to slug a d) (wk_model_accounts w) ?kept,
       wk_models := setdefault_model slug m (wk_models w),
       wk_model_plans := foldl (\<lambda>d p. add_to slug p d) (wk_model_plans w) (plans_of (wk_account_plans w) ?kept)\<rparr>)" for m
  proof -
    have "catalog_ok (setdefault_model slug m (wk_models w)) (wk_model_plans w) (wk_model_accounts w) (wk_tier_accounts w) (wk_account_plans w)"
      using assms(1) unfolding work_ok_def by (rule catalog_setdefault)
    then show ?thesis
      using assms(2) unfolding work_ok_def accounts_carried_def
      by (auto simp: setdefault_model_has intro!: foldl_catalog_plan foldl_catalog_account)
  qed
  then show "work_ok (carry_model_accounts prev rf w (slug, accts))"
    using assms(1) by (simp add: carry_model_accounts_def Let_def split: option.split)
qed

lemma carry_all_model_accounts:
  assumes "work_ok w" "accounts_carried prev rf w"
  shows "work_ok (foldl (carry_model_accounts prev rf) w entries) \<and> accounts_carried prev rf (foldl (carry_model_accounts prev rf) w entries)
    \<and> (\<forall>j. members (wk_model_accounts w) j \<subseteq> members (wk_model_accounts (foldl (carry_model_accounts prev rf) w entries)) j)
    \<and> (\<forall>slug a. (slug, a) \<in> pairs entries \<and> map_of (rs_models prev) slug \<noteq> None \<and> a \<in> set (stale_account_ids prev rf)
         \<longrightarrow> a \<in> members (wk_model_accounts (foldl (carry_model_accounts prev rf) w entries)) slug)"
  using assms
proof (induction entries arbitrary: w)
  case (Cons entry entries)
  obtain slug accts where e: "entry = (slug, accts)"
    by (cases entry)
  let ?w = "carry_model_accounts prev rf w entry"
  note step = carry_model_accounts_ok [OF Cons.prems, where slug = slug and accts = accts, folded e]
  note ih = Cons.IH [OF step(1,2)]
  have "a \<in> members (wk_model_accounts (foldl (carry_model_accounts prev rf) ?w entries)) j"
    if "(j, a) \<in> pairs (entry # entries)" "map_of (rs_models prev) j \<noteq> None" "a \<in> set (stale_account_ids prev rf)" for j a
  proof (cases "(j, a) \<in> pairs entries")
    case False
    then have "j = slug" "a \<in> set accts"
      using that(1) by (auto simp: pairs_def e)
    then have "a \<in> members (wk_model_accounts ?w) j"
      using step(4) that(2,3) by simp
    then show ?thesis
      using ih by blast
  qed (use ih that in blast)
  moreover have "members (wk_model_accounts w) j \<subseteq> members (wk_model_accounts (foldl (carry_model_accounts prev rf) ?w entries)) j" for j
    using step(3) [of j] ih by blast
  ultimately show ?case
    using ih by simp
qed simp

lemma carry_tiers_ok:
  assumes "snapshot_ok prev" "work_ok w" "models_carried prev rf w" "entry \<in> set (rs_model_service_tier_accounts prev)"
  shows "work_ok (carry_tiers prev rf w entry) \<and> models_carried prev rf (carry_tiers prev rf w entry)"
proof -
  obtain slug tiers where e: "entry = (slug, tiers)"
    by (cases entry)
  have "work_ok (foldl (carry_tier_accounts prev rf slug) w tiers) \<and> models_carried prev rf (foldl (carry_tier_accounts prev rf slug) w tiers)"
    if known: "map_of (rs_models prev) slug \<noteq> None"
  proof (rule foldl_inv [where P = "\<lambda>w. work_ok w \<and> models_carried prev rf w"])
    fix v t
    assume v: "work_ok v \<and> models_carried prev rf v" and t: "t \<in> set tiers"
    obtain tier accts where t': "t = (tier, accts)"
      by (cases t)
    have "(slug, tier, a) \<in> tier_pairs (rs_model_service_tier_accounts prev)" if "a \<in> set accts" for a
      using assms(4) t t' e that by (auto simp: tier_pairs_def pairs_def)
    then have "a \<in> members (rs_model_accounts prev) slug" if "a \<in> set accts" for a
      using assms(1) that unfolding snapshot_ok_def catalog_ok_def by blast
    then have "a \<in> members (wk_model_accounts v) slug" if "a \<in> set accts" "a \<in> set (stale_account_ids prev rf)" for a
      using v known that unfolding models_carried_def by blast
    then show "work_ok (carry_tier_accounts prev rf slug v t) \<and> models_carried prev rf (carry_tier_accounts prev rf slug v t)"
      using v by (auto simp: carry_tier_accounts_def t' Let_def work_ok_def models_carried_def intro!: foldl_catalog_tier)
  qed (use assms in blast)
  then show ?thesis
    using assms(2,3) by (simp add: carry_tiers_def e)
qed

lemma carry_over_ok:
  assumes "\<And>prev. previous = Some prev \<Longrightarrow> snapshot_ok prev"
  shows "work_ok (carry_over previous rf)"
proof (cases previous)
  case (Some prev)
  define w1 where "w1 = foldl (carry_plan prev rf) empty_work (stale_plans prev rf)"
  define w2 where "w2 = foldl (carry_account prev rf) w1 (stale_account_ids prev rf)"
  define w3 where "w3 = foldl (carry_model_accounts prev rf) w2 (rs_model_accounts prev)"
  have ok: "snapshot_ok prev"
    by (rule assms [OF Some])
  have "work_ok w1"
    unfolding w1_def by (rule carry_plans_ok [OF ok])
  then have "work_ok w2"
    unfolding w2_def by (rule foldl_inv [where P = work_ok]) (rule carry_account_ok)
  moreover have "accounts_carried prev rf w2"
    unfolding accounts_carried_def w2_def using carry_accounts_all [of "stale_account_ids prev rf" prev rf w1] by blast
  ultimately have c: "work_ok w3"
      "\<forall>slug a. (slug, a) \<in> pairs (rs_model_accounts prev) \<and> map_of (rs_models prev) slug \<noteq> None \<and> a \<in> set (stale_account_ids prev rf)
         \<longrightarrow> a \<in> members (wk_model_accounts w3) slug"
    using carry_all_model_accounts [of w2 prev rf "rs_model_accounts prev"] unfolding w3_def by simp_all
  have w3: "work_ok w3" "models_carried prev rf w3"
    using c(1) c(2) [rule_format, OF conjI [OF members_pairs]] by (simp_all add: models_carried_def)
  have "work_ok (foldl (carry_tiers prev rf) w3 (rs_model_service_tier_accounts prev))
      \<and> models_carried prev rf (foldl (carry_tiers prev rf) w3 (rs_model_service_tier_accounts prev))"
    by (rule foldl_inv [where P = "\<lambda>w. work_ok w \<and> models_carried prev rf w"]) (use w3 carry_tiers_ok [OF ok] in blast)+
  then show ?thesis
    by (simp add: carry_over_def Some Let_def w1_def w2_def w3_def)
qed (simp add: carry_over_def work_ok_empty)

subsection \<open>Merging what was fetched\<close>

lemma merge_model_ok:
  assumes "work_ok (fst acc)"
  shows "work_ok (fst (merge_model dumps plan acc m))"
proof -
  obtain w refreshed where acc: "acc = (w, refreshed)"
    by (cases acc)
  have "catalog_ok (AList.update (um_slug m) x (wk_models w)) (wk_model_plans w) (wk_model_accounts w) (wk_tier_accounts w) (wk_account_plans w)" for x
    using assms unfolding work_ok_def acc fst_conv by (rule catalog_grow) (simp_all add: update_conv)
  then have "catalog_ok (AList.update (um_slug m) x (wk_models w)) (add_to (um_slug m) plan (wk_model_plans w))
      (wk_model_accounts w) (wk_tier_accounts w) (wk_account_plans w)" for x
    by (rule catalog_plan) (simp add: update_conv)
  then show ?thesis
    by (simp add: merge_model_def acc Let_def work_ok_def)
qed

lemma merge_plans_ok: "work_ok w \<Longrightarrow> work_ok (merge_plans dumps rf w)"
  unfolding merge_plans_def
proof (rule foldl_inv [where P = "\<lambda>acc. work_ok (fst acc)"])
  fix acc :: "RegistryWork \<times> string list" and entry
  assume "work_ok (fst acc)"
  then show "work_ok (fst (case entry of (plan, ms) \<Rightarrow> foldl (merge_model dumps plan) acc ms))"
    by (cases entry) (auto intro: foldl_inv [where P = "\<lambda>acc. work_ok (fst acc)"] merge_model_ok)
qed simp

lemma merge_account_model_ok:
  assumes "work_ok w" "map_of (wk_account_plans w) acct \<noteq> None"
  shows "work_ok (merge_account_model acct w m) \<and> map_of (wk_account_plans (merge_account_model acct w m)) acct \<noteq> None"
proof (cases "map_of (wk_models w) (um_slug m) = None")
  case False
  have "catalog_ok (wk_models w) (wk_model_plans w) (add_to (um_slug m) acct (wk_model_accounts w)) (wk_tier_accounts w) (wk_account_plans w)"
    using assms False unfolding work_ok_def by (intro catalog_account)
  then have "catalog_ok (wk_models w) (wk_model_plans w) (add_to (um_slug m) acct (wk_model_accounts w))
      (foldl (\<lambda>t tier. add_tier (um_slug m) tier acct t) (wk_tier_accounts w) tiers) (wk_account_plans w)" for tiers
    by (rule foldl_inv [where P = "\<lambda>d. catalog_ok _ _ _ d _"]) (auto intro!: catalog_tier simp: members_add_to)
  then show ?thesis
    using assms(2) False by (auto simp: merge_account_model_def Let_def work_ok_def)
qed (use assms in \<open>simp add: merge_account_model_def Let_def\<close>)

lemma merge_accounts_ok: "work_ok w \<Longrightarrow> work_ok (merge_accounts rf w)"
  unfolding merge_accounts_def
proof (rule foldl_inv [where P = work_ok])
  fix w and entry :: "string \<times> string \<times> UpstreamModel list"
  assume w: "work_ok w"
  obtain acct plan ms where e: "entry = (acct, plan, ms)"
    by (cases entry)
  have "work_ok (w\<lparr>wk_account_plans := AList.update acct plan (wk_account_plans w)\<rparr>)"
    using w unfolding work_ok_def by (auto elim!: catalog_grow simp: update_conv)
  then have "work_ok (foldl (merge_account_model acct) (w\<lparr>wk_account_plans := AList.update acct plan (wk_account_plans w)\<rparr>) ms)
      \<and> map_of (wk_account_plans (foldl (merge_account_model acct) (w\<lparr>wk_account_plans := AList.update acct plan (wk_account_plans w)\<rparr>) ms)) acct \<noteq> None"
    by (intro foldl_inv [where P = "\<lambda>w. work_ok w \<and> map_of (wk_account_plans w) acct \<noteq> None"])
       (use merge_account_model_ok in \<open>auto simp: update_conv\<close>)
  then show "work_ok (merge_account w entry)"
    by (simp add: merge_account_def e)
qed

lemma plan_models_index_members:
  "slug \<in> members (plan_models_index mp) p \<longleftrightarrow> (slug, p) \<in> pairs mp"
proof -
  have inner: "members (foldl (\<lambda>m q. add_to q s m) m qs) p = members m p \<union> (if p \<in> set qs then {s} else {})" for s m qs
    by (induction qs arbitrary: m) (auto simp: members_add_to)
  have "members (foldl (\<lambda>m (slug, plans). foldl (\<lambda>m q. add_to q slug m) m plans) m mp) p = members m p \<union> {s. (s, p) \<in> pairs mp}" for m
  proof (induction mp arbitrary: m)
    case (Cons e es)
    obtain s plans where "e = (s, plans)"
      by (cases e)
    then show ?case
      by (auto simp: Cons.IH inner pairs_def)
  qed simp
  then show ?thesis
    by (simp add: plan_models_index_def)
qed

lemma new_snapshot_ok:
  assumes "work_ok w"
  shows "snapshot_ok (new_snapshot now reg rf w)"
proof -
  have "distinct (map fst (wk_model_plans w))"
    using assms by (simp add: work_ok_def catalog_ok_def)
  then have "slug \<in> members (plan_models_index (wk_model_plans w)) p \<longleftrightarrow> p \<in> members (wk_model_plans w) slug" for slug p
    by (simp add: plan_models_index_members pairs_members)
  then show ?thesis
    using assms by (simp add: snapshot_ok_def new_snapshot_def work_ok_def suppressed_slugs_def)
qed

section \<open>Reachable registries\<close>

definition registry_ok :: "ModelRegistry \<Rightarrow> bool" where
  "registry_ok reg = (case mr_snapshot reg of None \<Rightarrow> True | Some s \<Rightarrow> snapshot_ok s)"

text \<open>The snapshot store holds what a well-formed registry of a replica exported.\<close>

inductive registry_step :: "(json \<Rightarrow> string) \<Rightarrow> ModelRegistry \<Rightarrow> ModelRegistry \<Rightarrow> bool" for dumps where
  refreshed: "registry_step dumps reg (update_registry dumps now rf reg)"
| cleared: "registry_step dumps reg (clear_registry reg)"
| imported: "registry_ok peer \<Longrightarrow> registry_step dumps reg (import_state content_hash (export_state peer) reg)"
| noted: "registry_step dumps reg (note_applied_content_hash content_hash reg)"

lemma update_registry_ok: "registry_ok reg \<Longrightarrow> registry_ok (update_registry dumps now rf reg)"
  using new_snapshot_ok [OF merge_accounts_ok [OF merge_plans_ok [OF carry_over_ok [of "mr_snapshot reg" rf]]]]
  by (auto simp: registry_ok_def update_registry_def Let_def refreshed_work_def split: option.splits)

interpretation registry: invariant_system "\<lambda>reg. mr_snapshot reg = None" "registry_step dumps" registry_ok for dumps
proof unfold_locales
  show "registry_ok reg \<Longrightarrow> registry_step dumps reg reg' \<Longrightarrow> registry_ok reg'" for reg reg'
    by (erule registry_step.cases)
      (simp_all add: update_registry_ok, simp_all add: registry_ok_def clear_registry_def import_state_def export_state_def
        note_applied_content_hash_def)
qed (simp add: registry_ok_def)

lemma get_nonempty_normal: "normalized_slug slug = slug \<Longrightarrow> get_nonempty m slug = map_of m slug"
  by (auto simp: get_nonempty_def split: option.split list.split)

lemma get_model_normal: "normalized_slug slug = slug \<Longrightarrow> get_model m slug = map_of m slug"
  by (simp add: get_model_def or_else_def split: option.split)

lemma suppressed_members:
  assumes "snapshot_ok s" "slug \<in> set (rs_suppressed_model_slugs s)"
  shows "members (rs_model_plans s) slug = {}" "members (rs_model_accounts s) slug = {}"
proof -
  have "map_of (rs_models s) slug = None"
    using assms by (simp add: snapshot_ok_def)
  then have "(slug, v) \<notin> pairs (rs_model_plans s)" "(slug, v) \<notin> pairs (rs_model_accounts s)" for v
    using assms(1) unfolding snapshot_ok_def catalog_ok_def by (metis, metis)
  then show "members (rs_model_plans s) slug = {}" "members (rs_model_accounts s) slug = {}"
    using members_pairs [of _ "rs_model_plans s" slug] members_pairs [of _ "rs_model_accounts s" slug] by auto
qed

lemma tier_accounts_offer:
  assumes "snapshot_ok s" "map_of (rs_model_service_tier_accounts s) slug = Some tiers" "a \<in> set (default_to (map_of tiers t) [])"
  shows "a \<in> set (default_to (map_of (rs_model_accounts s) slug) [])"
proof -
  have "(t, a) \<in> pairs tiers"
    using assms(3) by (intro members_pairs) (simp add: members_def)
  then have "(slug, t, a) \<in> tier_pairs (rs_model_service_tier_accounts s)"
    using assms(2) by (auto simp: tier_pairs_def dest: map_of_SomeD)
  then show ?thesis
    using assms(1) unfolding snapshot_ok_def catalog_ok_def members_def by blast
qed

text \<open>C26: a registry that any sequence of refreshes, clearings and imports of the state of another
  replica has produced answers consistently. For a slug in normal form: a model that catalogs withdrew is offered by no plan and no account, and
  every account that is routed to for a service tier of a model offers the model itself.\<close>

theorem registry_answers_consistent:
  assumes "(registry_step dumps)\<^sup>*\<^sup>* reg0 reg" "mr_snapshot reg0 = None" "normalized_slug slug = slug"
  shows "(is_suppressed_model reg slug \<longrightarrow>
            plan_types_for_model reg slug = Some [] \<and> set (default_to (account_ids_for_model reg slug) []) = {})
    \<and> set (default_to (account_ids_for_model_service_tier reg slug tier) []) \<subseteq> set (default_to (account_ids_for_model reg slug) [])"
proof (cases "mr_snapshot reg")
  case None
  then show ?thesis
    by (simp add: is_suppressed_model_def account_ids_for_model_service_tier_def split: option.split)
next
  case (Some s)
  have ok: "snapshot_ok s"
    using registry.reachable_inv [OF assms(2,1)] by (simp add: registry_ok_def Some)
  have "plan_types_for_model reg slug = Some [] \<and> set (default_to (account_ids_for_model reg slug) []) = {}"
    if "is_suppressed_model reg slug"
  proof -
    have sup: "slug \<in> set (rs_suppressed_model_slugs s)"
      using that assms(3) by (simp add: is_suppressed_model_def Some)
    note m = suppressed_members [OF ok sup]
    have "map_of (rs_model_plans s) slug \<in> {None, Some []}"
      using m(1) by (cases "map_of (rs_model_plans s) slug") (simp_all add: members_def)
    then show ?thesis
      using m(2) sup assms(3)
      by (auto simp: plan_types_for_model_def account_ids_for_model_def Some get_model_normal get_nonempty_normal members_def split: option.split)
  qed
  moreover have "set (default_to (account_ids_for_model_service_tier reg slug tier) []) \<subseteq> set (default_to (account_ids_for_model reg slug) [])"
    using tier_accounts_offer [OF ok] assms(3)
    by (auto simp: account_ids_for_model_service_tier_def account_ids_for_model_def Some get_nonempty_normal split: option.split)
  ultimately show ?thesis
    by blast
qed

definition sample_model :: "string \<Rightarrow> UpstreamModel" where
  "sample_model slug = \<lparr>um_slug = slug, um_prefer_websockets = True, um_supported_in_api = True, um_available_in_plans = [''plus''],
     um_raw = [(''additional_speed_tiers'', JList [JStr ''fast''])]\<rparr>"

definition sample_model_registry :: ModelRegistry where
  "sample_model_registry = \<lparr>mr_ttl_seconds = 300, mr_snapshot = None, mr_bootstrap_models = [(''m1'', sample_model ''m1''), (''m2'', sample_model ''m2'')],
     mr_metadata_models = None, mr_applied_content_hash = None\<rparr>"

definition sample_refresh :: Refresh where
  "sample_refresh = \<lparr>rf_plans = [(''plus'', [sample_model ''m1''])], rf_accounts = Some [(''a'', ''plus'', [sample_model ''m1''])],
     rf_active = Some [(''a'', ''plus'')]\<rparr>"

theorem registry_answers_consistent_witness:
  "is_suppressed_model (update_registry (\<lambda>x. []) 0 sample_refresh sample_model_registry) ''m2''
   \<and> plan_types_for_model (update_registry (\<lambda>x. []) 0 sample_refresh sample_model_registry) ''m2'' = Some []"
proof -
  have "(registry_step (\<lambda>x. []))\<^sup>*\<^sup>* sample_model_registry (update_registry (\<lambda>x. []) 0 sample_refresh sample_model_registry)"
    by (rule r_into_rtranclp) (rule registry_step.refreshed)
  moreover have "is_suppressed_model (update_registry (\<lambda>x. []) 0 sample_refresh sample_model_registry) ''m2''"
    by code_simp
  moreover have "normalized_slug ''m2'' = ''m2''"
    by code_simp
  ultimately show ?thesis
    using registry_answers_consistent [of "\<lambda>x. []" sample_model_registry "update_registry (\<lambda>x. []) 0 sample_refresh sample_model_registry" "''m2''"]
    by (simp add: sample_model_registry_def)
qed

section \<open>What a refresh keeps\<close>

definition fetched_slugs :: "Refresh \<Rightarrow> string set" where
  "fetched_slugs rf = {um_slug m | m plan ms. (plan, ms) \<in> set (rf_plans rf) \<and> m \<in> set ms}"

text \<open>An account that is still active with the plan it had is known to offer the model, or it is not
  known which accounts offered it.\<close>

definition still_offered :: "ModelRegistrySnapshot \<Rightarrow> (string \<times> string) list \<Rightarrow> string \<Rightarrow> bool" where
  "still_offered prev act slug =
     (members (rs_model_accounts prev) slug = {}
      \<or> (\<exists>a plan. (slug, a) \<in> pairs (rs_model_accounts prev) \<and> (a, plan) \<in> set (rs_account_plans prev) \<and> map_of act a = Some plan))"

definition offered_only :: "(string \<Rightarrow> bool) \<Rightarrow> RegistryWork \<Rightarrow> bool" where
  "offered_only P w = (\<forall>slug. map_of (wk_models w) slug \<noteq> None \<longrightarrow> P slug)"

lemma stale_account_active:
  "rf_active rf = Some act \<Longrightarrow> a \<in> set (stale_account_ids prev rf) \<Longrightarrow>
     \<exists>plan. (a, plan) \<in> set (rs_account_plans prev) \<and> map_of act a = Some plan"
  using stale_account_plan(1) [of a prev rf] by (auto simp: stale_account_def)

lemma supported_still_offered:
  "rf_active rf = Some act \<Longrightarrow> supported_slug prev rf act plan slug \<Longrightarrow> still_offered prev act slug"
  using stale_account_active [of rf act _ prev] members_pairs [of _ "rs_model_accounts prev" slug]
  unfolding still_offered_def supported_slug_def list_ex_iff members_def by blast

lemma carry_plans_offered:
  assumes "rf_active rf = Some act"
  shows "offered_only (still_offered prev act) (foldl (carry_plan prev rf) empty_work plans)"
proof (rule foldl_inv [where P = "offered_only (still_offered prev act)"])
  show "offered_only (still_offered prev act) (carry_plan prev rf w plan)" if "offered_only (still_offered prev act) w" for w plan
    unfolding carry_plan_def
  proof (rule foldl_inv [where P = "offered_only (still_offered prev act)"])
    fix v slug
    assume v: "offered_only (still_offered prev act) v" and "slug \<in> set (stale_slugs prev rf plan)"
    then have "still_offered prev act slug"
      using supported_still_offered [OF assms] by (auto simp: stale_slugs_def Let_def assms still_offered_def)
    then show "offered_only (still_offered prev act) (carry_slug prev plan v slug)"
      using v unfolding offered_only_def carry_slug_def by (auto simp: setdefault_model_def update_conv split: option.splits if_splits)
  qed (rule that)
qed (simp add: offered_only_def empty_work_def)

lemma carry_over_offered:
  assumes "rf_active rf = Some act"
  shows "offered_only (still_offered prev act) (carry_over (Some prev) rf)"
proof -
  let ?P = "offered_only (still_offered prev act)"
  define w1 where "w1 = foldl (carry_plan prev rf) empty_work (stale_plans prev rf)"
  define w2 where "w2 = foldl (carry_account prev rf) w1 (stale_account_ids prev rf)"
  define w3 where "w3 = foldl (carry_model_accounts prev rf) w2 (rs_model_accounts prev)"
  have "?P w2"
    unfolding w2_def w1_def
    by (rule foldl_inv [where P = ?P, OF carry_plans_offered [OF assms]]) (simp add: offered_only_def carry_account_def split: option.split)
  then have "?P w3"
    unfolding w3_def
  proof (rule foldl_inv [where P = ?P])
    fix w entry
    assume w: "?P w" and entry: "entry \<in> set (rs_model_accounts prev)"
    obtain slug accts where e: "entry = (slug, accts)"
      by (cases entry)
    have "still_offered prev act slug" if kept: "filter (\<lambda>a. a \<in> set (stale_account_ids prev rf)) accts \<noteq> []"
    proof -
      obtain a where "a \<in> set accts" "a \<in> set (stale_account_ids prev rf)"
        using kept unfolding filter_empty_conv by blast
      then show ?thesis
        using stale_account_active [OF assms] entry e unfolding still_offered_def pairs_def by blast
    qed
    then show "?P (carry_model_accounts prev rf w entry)"
      using w unfolding offered_only_def e carry_model_accounts_def Let_def
      by (auto simp: setdefault_model_def update_conv split: option.splits if_splits)
  qed
  moreover have "wk_models (foldl (carry_tiers prev rf) w3 es) = wk_models w3" for es
    by (rule foldl_inv [where P = "\<lambda>w. wk_models w = wk_models w3"])
       (auto simp: carry_tiers_def carry_tier_accounts_def Let_def split: prod.splits intro!: foldl_inv [where P = "\<lambda>w. wk_models w = wk_models w3"])
  ultimately show ?thesis
    by (simp add: carry_over_def Let_def offered_only_def w1_def w2_def w3_def)
qed

lemma merge_plans_models:
  "map_of (wk_models (merge_plans dumps rf w)) slug \<noteq> None \<Longrightarrow> map_of (wk_models w) slug \<noteq> None \<or> slug \<in> fetched_slugs rf"
proof -
  let ?P = "\<lambda>acc. \<forall>slug. map_of (wk_models (fst acc)) slug \<noteq> None \<longrightarrow> map_of (wk_models w) slug \<noteq> None \<or> slug \<in> fetched_slugs rf"
  have "?P (foldl (\<lambda>acc (plan, ms). foldl (merge_model dumps plan) acc ms) (w, []) (rf_plans rf))"
  proof (rule foldl_inv [where P = ?P])
    fix acc :: "RegistryWork \<times> string list" and entry
    assume a: "?P acc" and "entry \<in> set (rf_plans rf)"
    then obtain plan ms where e: "entry = (plan, ms)" "(plan, ms) \<in> set (rf_plans rf)"
      by (cases entry) auto
    have "?P (foldl (merge_model dumps plan) acc ms)"
      using a
    proof (rule foldl_inv [where P = ?P])
      fix acc' :: "RegistryWork \<times> string list" and m
      assume "?P acc'" "m \<in> set ms"
      moreover have "um_slug m \<in> fetched_slugs rf" if "m \<in> set ms"
        using that e(2) by (auto simp: fetched_slugs_def)
      ultimately show "?P (merge_model dumps plan acc' m)"
        by (cases acc') (simp add: merge_model_def Let_def update_conv)
    qed
    then show "?P (case entry of (plan, ms) \<Rightarrow> foldl (merge_model dumps plan) acc ms)"
      by (simp add: e(1))
  qed simp
  then show "map_of (wk_models (merge_plans dumps rf w)) slug \<noteq> None \<Longrightarrow> ?thesis"
    by (simp add: merge_plans_def)
qed

lemma merge_accounts_models: "wk_models (merge_accounts rf w) = wk_models w"
  unfolding merge_accounts_def
  by (rule foldl_inv [where P = "\<lambda>v. wk_models v = wk_models w"])
     (auto simp: merge_account_def merge_account_model_def Let_def split: prod.splits intro!: foldl_inv [where P = "\<lambda>v. wk_models v = wk_models w"])

text \<open>A refresh drops models that nobody offers any more. When the active accounts are known, every
  model of the new snapshot was fetched in this refresh, or is carried over because the previous
  snapshot did not know which accounts offered it, or because an account that offered it is still
  active with the plan it had then.\<close>

lemma carried_models_advertised:
  assumes "mr_snapshot reg = Some prev" "rf_active rf = Some act" "rf_plans rf \<noteq> []"
    and "mr_snapshot (update_registry dumps now rf reg) = Some s" "map_of (rs_models s) slug \<noteq> None"
  shows "slug \<in> fetched_slugs rf \<or> still_offered prev act slug"
proof -
  have "map_of (wk_models (merge_plans dumps rf (carry_over (Some prev) rf))) slug \<noteq> None"
    using assms(1,3-5) by (auto simp: update_registry_def Let_def new_snapshot_def refreshed_work_def merge_accounts_models)
  then show ?thesis
    using merge_plans_models carry_over_offered [OF assms(2), of prev] unfolding offered_only_def by blast
qed

definition next_refresh :: Refresh where
  "next_refresh = \<lparr>rf_plans = [(''plus'', [sample_model ''m3''])], rf_accounts = Some [(''b'', ''plus'', [sample_model ''m3''])],
     rf_active = Some [(''a'', ''plus''), (''b'', ''plus'')]\<rparr>"

definition refreshed_registry :: ModelRegistry where
  "refreshed_registry = update_registry (\<lambda>x. []) 0 sample_refresh sample_model_registry"

end
