(* ===== verification/Selection_Inputs.thy ===== *)
theory Selection_Inputs
  imports Account_State Quota_Planner Additional_Quota Model_Registry
begin

text \<open>
  What a selection starts from, after \<open>_load_selection_inputs\<close> and its helpers in
  \<open>codex-lb/app/modules/proxy/load_balancer.py\<close> and the cache of
  \<open>codex-lb/app/modules/proxy/account_cache.py\<close>: the accounts that may serve a model, a service tier and
  an additional quota, with their usage samples.

  The answers of the database (accounts, planner settings, latest usage samples) are arguments, and
  so are the model registry and the quota registry that the process holds. While the database is read,
  other tasks may store into the cache or invalidate it: \<open>le_others\<close> is what they did. Copies that
  protect cached objects from mutation are values here. The cache key holds the routing overrides
  themselves, sorted by key, in place of their JSON text.
\<close>

section \<open>Data\<close>

record SelectionInputs =
  si_rows :: SelectionRows
  si_quota_planner_settings :: PlannerSettings
  si_runtime_accounts :: "Account list option"
  si_error_message :: "string option"
  si_error_code :: "string option"
  si_ignore_standard_quota_status :: bool
  si_persist_standard_quota_status :: bool

abbreviation si_accounts :: "SelectionInputs \<Rightarrow> Account list" where
  "si_accounts inputs \<equiv> sr_accounts (si_rows inputs)"

definition default_planner_settings :: PlannerSettings where
  "default_planner_settings =
     \<lparr>ps_mode = ''shadow'', ps_timezone = ''UTC'', ps_working_days = [0, 1, 2, 3, 4], ps_working_hours_start = ''09:00'',
      ps_working_hours_end = ''18:00'', ps_prewarm_enabled = True, ps_prewarm_lead_minutes = 300, ps_max_warmups_per_day = 3,
      ps_min_expected_gain = 1, ps_forecast_quantile = ''p75'', ps_allow_synthetic_traffic = False, ps_dry_run = True\<rparr>"

text \<open>The fields of an input without usage samples.\<close>

definition no_rows :: SelectionRows where
  "no_rows = \<lparr>sr_accounts = [], latest_primary = (\<lambda>i. None), latest_secondary = (\<lambda>i. None), latest_monthly = (\<lambda>i. None),
     routing_policy_override = None, ignore_standard_quota_account_ids = []\<rparr>"

definition empty_inputs :: "PlannerSettings \<Rightarrow> Account list \<Rightarrow> string option \<Rightarrow> string option \<Rightarrow> SelectionInputs" where
  "empty_inputs planner all_accounts msg err =
     \<lparr>si_rows = no_rows, si_quota_planner_settings = planner, si_runtime_accounts = Some all_accounts,
      si_error_message = msg, si_error_code = err, si_ignore_standard_quota_status = False,
      si_persist_standard_quota_status = True\<rparr>"

record UsageReads =
  ur_primary :: "string \<Rightarrow> UsageEntry option"
  ur_secondary :: "string \<Rightarrow> UsageEntry option"
  ur_monthly :: "string \<Rightarrow> UsageEntry option"
  ur_additional :: "string \<Rightarrow> string \<Rightarrow> int option \<Rightarrow> string \<Rightarrow> UsageEntry option"

record LoadArgs =
  la_model :: "string option"
  la_service_tier :: "string option"
  la_additional_limit_name :: "string option"
  la_account_ids :: "string list option"

definition NO_PLAN_SUPPORT_FOR_MODEL :: string where
  "NO_PLAN_SUPPORT_FOR_MODEL = ''no_plan_support_for_model''"

definition ADDITIONAL_QUOTA_DATA_UNAVAILABLE :: string where
  "ADDITIONAL_QUOTA_DATA_UNAVAILABLE = ''additional_quota_data_unavailable''"

definition ADDITIONAL_QUOTA_EXHAUSTED :: string where
  "ADDITIONAL_QUOTA_EXHAUSTED = ''quota_exhausted''"

definition NO_ADDITIONAL_QUOTA_ELIGIBLE_ACCOUNTS :: string where
  "NO_ADDITIONAL_QUOTA_ELIGIBLE_ACCOUNTS = ''no_additional_quota_eligible_accounts''"

definition ADDITIONAL_QUOTA_EXEMPT_PLAN_TYPES :: "string list" where
  "ADDITIONAL_QUOTA_EXEMPT_PLAN_TYPES = [''free'', ''plus'', ''edu'']"

section \<open>Routing policies of additional quotas\<close>

definition additional_quota_routing_policy_override :: "QuotaMaps \<Rightarrow> string option \<Rightarrow> (string \<times> string) list \<Rightarrow> string option" where
  "additional_quota_routing_policy_override maps limit_name policies =
     (case limit_name of
        None \<Rightarrow> None
      | Some name \<Rightarrow>
          (case canonicalize_additional_quota_key maps (no_names\<lparr>qn_limit_name := Some name\<rparr>) of
             None \<Rightarrow> None
           | Some k \<Rightarrow>
               (let policy = get_additional_quota_routing_policy maps (Some k) policies
                in if policy = ''inherit'' then None else Some policy)))"

definition normalize_additional_quota_key :: "QuotaMaps \<Rightarrow> string \<Rightarrow> string option" where
  "normalize_additional_quota_key maps raw =
     (case canonicalize_additional_quota_key maps (no_names\<lparr>qn_quota_key := Some raw, qn_limit_name := Some raw\<rparr>) of
        None \<Rightarrow> None
      | Some k \<Rightarrow> if get_additional_quota_definition maps (Some k) = None then None else Some k)"

text \<open>\<open>_parse_additional_quota_routing_policies\<close>, on the decoded text of the setting (\<open>None\<close>: no JSON).\<close>

definition parse_additional_quota_routing_policies :: "QuotaMaps \<Rightarrow> json option \<Rightarrow> (string \<times> string) list" where
  "parse_additional_quota_routing_policies maps parsed =
     (case parsed of
        Some (JObj settings) \<Rightarrow>
          foldl (\<lambda>acc (quota_key, v).
                   case v of
                     JStr policy \<Rightarrow>
                       (case normalize_additional_quota_key maps quota_key of
                          None \<Rightarrow> acc
                        | Some k \<Rightarrow>
                            if k \<noteq> [] \<and> py_lower (py_strip policy) \<in> {''normal'', ''burn_first'', ''preserve'', ''inherit''}
                            then AList.update k (py_lower (py_strip policy)) acc else acc)
                   | _ \<Rightarrow> acc) [] settings
      | _ \<Rightarrow> [])"

section \<open>Filters\<close>

definition selectable_accounts :: "Account list \<Rightarrow> Account list" where
  "selectable_accounts accs = filter (\<lambda>a. acc_status a \<notin> {REAUTH_REQUIRED, DEACTIVATED, PAUSED}) accs"

definition mapped_model_has_registry_entry :: "ModelRegistry \<Rightarrow> string option \<Rightarrow> bool" where
  "mapped_model_has_registry_entry reg model =
     (case model of
        None \<Rightarrow> False
      | Some m \<Rightarrow> (case plan_types_for_model reg m of Some (p # ps) \<Rightarrow> True | _ \<Rightarrow> is_suppressed_model reg m))"

definition account_indexes_cover :: "ModelRegistry \<Rightarrow> Account list \<Rightarrow> bool" where
  "account_indexes_cover reg accs =
     (case mr_snapshot reg of None \<Rightarrow> False | Some s \<Rightarrow> list_all (\<lambda>a. acc_id a \<in> fst ` set (rs_account_plans s)) accs)"

definition effective_service_tier :: "string option \<Rightarrow> string option" where
  "effective_service_tier tier =
     (case tier of None \<Rightarrow> None | Some t \<Rightarrow> if py_lower (py_strip t) \<in> {''auto'', ''default''} then None else Some t)"

definition within_ids :: "string list option \<Rightarrow> Account list \<Rightarrow> Account list" where
  "within_ids ids accs = (case ids of None \<Rightarrow> accs | Some is \<Rightarrow> filter (\<lambda>a. acc_id a \<in> set is) accs)"

definition within_plans :: "string list option \<Rightarrow> Account list \<Rightarrow> Account list" where
  "within_plans plans accs =
     (case plans of None \<Rightarrow> accs | Some ps \<Rightarrow> filter (\<lambda>a. account_plan_matches_allowed (Some (acc_plan_type a)) ps) accs)"

definition filter_accounts_for_model :: "ModelRegistry \<Rightarrow> Account list \<Rightarrow> string \<Rightarrow> string option \<Rightarrow> Account list" where
  "filter_accounts_for_model reg accs model service_tier =
     (let cover = account_indexes_cover reg accs;
          model_accounts = within_ids (if cover then account_ids_for_model reg model else None) accs
      in case effective_service_tier service_tier of
           None \<Rightarrow> within_plans (plan_types_for_model reg model) model_accounts
         | Some tier \<Rightarrow>
             (case (if cover then account_ids_for_model_service_tier reg model (Some tier) else None) of
                Some ids \<Rightarrow> within_ids (Some ids) model_accounts
              | None \<Rightarrow> within_plans (plan_types_for_model_service_tier reg model (Some tier)) model_accounts))"

subsection \<open>Additional quotas\<close>

definition additional_usage_fresh_since :: "BalancerSettings \<Rightarrow> int \<Rightarrow> int" where
  "additional_usage_fresh_since settings now = now - 1000000 * max (usage_refresh_interval_seconds settings * 2) 180"

definition latest_additional_by_key ::
  "QuotaMaps \<Rightarrow> UsageReads \<Rightarrow> string \<Rightarrow> string \<Rightarrow> string list \<Rightarrow> int option \<Rightarrow> string \<Rightarrow> UsageEntry option" where
  "latest_additional_by_key maps reads quota_key window ids since acct =
     (case canonicalize_additional_quota_key maps (no_names\<lparr>qn_quota_key := Some quota_key, qn_limit_name := Some quota_key\<rparr>) of
        None \<Rightarrow> None
      | Some k \<Rightarrow> if acct \<in> set ids then ur_additional reads k window since acct else None)"

definition additional_quota_applies_to_plan :: "QuotaMaps \<Rightarrow> string \<Rightarrow> string \<Rightarrow> bool" where
  "additional_quota_applies_to_plan maps quota_key plan =
     (case get_additional_quota_definition maps (Some quota_key) of
        None \<Rightarrow> True
      | Some d \<Rightarrow>
          (case aq_applies_to_plans d of
             None \<Rightarrow> True
           | Some plans \<Rightarrow>
               (case normalize_account_plan_type (Some plan) of
                  None \<Rightarrow> True
                | Some p \<Rightarrow> p \<in> set plans \<or> p \<notin> set ADDITIONAL_QUOTA_EXEMPT_PLAN_TYPES)))"

definition additional_usage_is_exhausted :: "pyfloat \<Rightarrow> UsageEntry \<Rightarrow> bool" where
  "additional_usage_is_exhausted time_now entry =
     (if (case ue_reset_at entry of None \<Rightarrow> False | Some r \<Rightarrow> r \<le> py_int time_now) then False
      else ue_used_percent entry \<ge> 100)"

datatype quota_eligibility = eligible | data_unavailable | quota_exhausted

record QuotaRows =
  qr_latest_primary :: "string \<Rightarrow> UsageEntry option"
  qr_latest_secondary :: "string \<Rightarrow> UsageEntry option"
  qr_fresh_primary :: "string \<Rightarrow> UsageEntry option"
  qr_fresh_secondary :: "string \<Rightarrow> UsageEntry option"

definition exhausted_entry :: "pyfloat \<Rightarrow> UsageEntry option \<Rightarrow> bool" where
  "exhausted_entry time_now entry = (case entry of None \<Rightarrow> False | Some e \<Rightarrow> additional_usage_is_exhausted time_now e)"

definition additional_quota_eligibility ::
  "QuotaMaps \<Rightarrow> (nat \<Rightarrow> pyfloat) \<Rightarrow> QuotaRows \<Rightarrow> string \<Rightarrow> bool \<Rightarrow> Account \<Rightarrow> quota_eligibility" where
  "additional_quota_eligibility maps time_of rows quota_key explicit_limit acc =
     (let i = acc_id acc
      in if \<not> explicit_limit \<and> \<not> additional_quota_applies_to_plan maps quota_key (acc_plan_type acc) then eligible
         else if qr_latest_primary rows i = None \<and> qr_latest_secondary rows i = None then data_unavailable
         else if qr_latest_primary rows i \<noteq> None \<and> qr_fresh_primary rows i = None then data_unavailable
         else if qr_latest_secondary rows i \<noteq> None \<and> qr_fresh_secondary rows i = None then data_unavailable
         else if exhausted_entry (time_of 0) (qr_fresh_primary rows i) then quota_exhausted
         else if exhausted_entry (time_of 1) (qr_fresh_secondary rows i) then quota_exhausted
         else eligible)"

record AdditionalLimitFilterResult =
  af_accounts :: "Account list"
  af_latest_primary :: "string \<Rightarrow> UsageEntry option"
  af_latest_secondary :: "string \<Rightarrow> UsageEntry option"
  af_error_code :: "string option"
  af_error_message :: "string option"

text \<open>The environment of one load: the answers of the database, the registries, the clocks.\<close>

record LoadEnv =
  le_accounts :: "Account list"
  le_planner_settings :: "PlannerSettings option"
  le_reads :: UsageReads
  le_registry :: ModelRegistry
  le_quotas :: QuotaMaps
  le_routing_overrides :: "(string \<times> string) list"
  le_utcnow :: int
  le_times :: "string \<Rightarrow> nat \<Rightarrow> pyfloat"
  le_lookup_time :: pyfloat
  le_store_time :: pyfloat

definition quota_rows :: "BalancerSettings \<Rightarrow> LoadEnv \<Rightarrow> string \<Rightarrow> string list \<Rightarrow> QuotaRows" where
  "quota_rows settings env limit_name ids =
     (let latest = (\<lambda>window since. latest_additional_by_key (le_quotas env) (le_reads env) limit_name window ids since);
          fresh_since = additional_usage_fresh_since settings (le_utcnow env)
      in \<lparr>qr_latest_primary = latest ''primary'' None, qr_latest_secondary = latest ''secondary'' None,
          qr_fresh_primary = latest ''primary'' (Some fresh_since), qr_fresh_secondary = latest ''secondary'' (Some fresh_since)\<rparr>)"

definition show_model :: "string option \<Rightarrow> string" where
  "show_model model = '' for model '' @ [CHR 0x27] @ default_to model ''None'' @ [CHR 0x27]"

definition filter_accounts_for_additional_limit ::
  "BalancerSettings \<Rightarrow> LoadEnv \<Rightarrow> Account list \<Rightarrow> string option \<Rightarrow> string \<Rightarrow> bool \<Rightarrow> AdditionalLimitFilterResult" where
  "filter_accounts_for_additional_limit settings env accs model limit_name explicit_limit =
     (if accs = []
      then \<lparr>af_accounts = [], af_latest_primary = (\<lambda>i. None), af_latest_secondary = (\<lambda>i. None), af_error_code = None, af_error_message = None\<rparr>
      else
        (let rows = quota_rows settings env limit_name (map acc_id accs);
             verdict = (\<lambda>a. additional_quota_eligibility (le_quotas env) (le_times env (acc_id a)) rows limit_name explicit_limit a);
             ok = filter (\<lambda>a. verdict a = eligible) accs
         in if ok = []
            then (let (err, msg) =
                    (if list_ex (\<lambda>a. verdict a = data_unavailable) accs
                     then (ADDITIONAL_QUOTA_DATA_UNAVAILABLE, ''No fresh additional quota data available'' @ show_model model)
                     else if list_ex (\<lambda>a. verdict a = quota_exhausted) accs
                     then (ADDITIONAL_QUOTA_EXHAUSTED, ''Additional quota exhausted'' @ show_model model)
                     else (NO_ADDITIONAL_QUOTA_ELIGIBLE_ACCOUNTS, ''No accounts with available additional quota'' @ show_model model))
                  in \<lparr>af_accounts = [], af_latest_primary = qr_latest_primary rows, af_latest_secondary = qr_latest_secondary rows,
                      af_error_code = Some err, af_error_message = Some msg\<rparr>)
            else \<lparr>af_accounts = ok,
                  af_latest_primary = (\<lambda>i. if i \<in> acc_id ` set ok then qr_latest_primary rows i else None),
                  af_latest_secondary = (\<lambda>i. if i \<in> acc_id ` set ok then qr_latest_secondary rows i else None),
                  af_error_code = None, af_error_message = None\<rparr>))"

section \<open>Loading\<close>

definition effective_limit_name :: "QuotaMaps \<Rightarrow> LoadArgs \<Rightarrow> string option" where
  "effective_limit_name maps args =
     (case la_additional_limit_name args of
        Some (c # cs) \<Rightarrow> Some (c # cs)
      | _ \<Rightarrow> get_additional_quota_key_for_model_id maps (la_model args))"

text \<open>\<open>model and \<dots>\<close>: the empty name counts as no model.\<close>

definition given :: "string option \<Rightarrow> bool" where
  "given v = (case v of None \<Rightarrow> False | Some s \<Rightarrow> s \<noteq> [])"

definition scoped_accounts :: "LoadEnv \<Rightarrow> LoadArgs \<Rightarrow> Account list" where
  "scoped_accounts env args = within_ids (la_account_ids args) (selectable_accounts (le_accounts env))"

definition model_accounts :: "LoadEnv \<Rightarrow> LoadArgs \<Rightarrow> Account list" where
  "model_accounts env args =
     (if given (la_model args) \<and> mapped_model_has_registry_entry (le_registry env) (la_model args)
      then filter_accounts_for_model (le_registry env) (scoped_accounts env args) (the (la_model args)) (la_service_tier args)
      else scoped_accounts env args)"

definition quota_scoped :: "LoadEnv \<Rightarrow> LoadArgs \<Rightarrow> Account \<Rightarrow> bool" where
  "quota_scoped env args acc =
     (la_additional_limit_name args \<noteq> None
      \<or> (case (if given (la_model args) then plan_types_for_model (le_registry env) (the (la_model args)) else None) of
           None \<Rightarrow> False
         | Some allowed \<Rightarrow>
             (case normalize_account_plan_type (Some (acc_plan_type acc)) of
                None \<Rightarrow> True | Some p \<Rightarrow> p \<notin> set ADDITIONAL_QUOTA_EXEMPT_PLAN_TYPES)
             \<and> account_plan_matches_allowed (Some (acc_plan_type acc)) allowed))"

definition full_inputs ::
  "LoadEnv \<Rightarrow> LoadArgs \<Rightarrow> PlannerSettings \<Rightarrow> Account list \<Rightarrow> AdditionalLimitFilterResult option \<Rightarrow> SelectionInputs" where
  "full_inputs env args planner accs additional =
     (let limit_name = effective_limit_name (le_quotas env) args;
          scoped = (case additional of None \<Rightarrow> [] | Some f \<Rightarrow> map acc_id (filter (quota_scoped env args) accs));
          read = (\<lambda>standard extra i. case additional of
                    None \<Rightarrow> standard i | Some f \<Rightarrow> if i \<in> set scoped then extra f i else standard i)
      in \<lparr>si_rows =
            \<lparr>sr_accounts = accs, latest_primary = read (ur_primary (le_reads env)) af_latest_primary,
             latest_secondary = read (ur_secondary (le_reads env)) af_latest_secondary, latest_monthly = ur_monthly (le_reads env),
             routing_policy_override =
               additional_quota_routing_policy_override (le_quotas env) limit_name
                 (if limit_name = None then [] else le_routing_overrides env),
             ignore_standard_quota_account_ids = scoped\<rparr>,
          si_quota_planner_settings = planner, si_runtime_accounts = Some (le_accounts env),
          si_error_message = None, si_error_code = None, si_ignore_standard_quota_status = (limit_name \<noteq> None),
          si_persist_standard_quota_status = True\<rparr>)"

definition compute_inputs :: "BalancerSettings \<Rightarrow> LoadEnv \<Rightarrow> LoadArgs \<Rightarrow> SelectionInputs" where
  "compute_inputs settings env args =
     (let planner = default_to (le_planner_settings env) default_planner_settings;
          limit_name = effective_limit_name (le_quotas env) args;
          accs = model_accounts env args;
          nothing = empty_inputs planner (le_accounts env)
      in if given (la_model args) \<and> accs = [] then
           (if le_accounts env = [] then nothing None None
            else if scoped_accounts env args = [] then nothing None None
            else nothing (Some (''No accounts with a plan supporting model '' @ [CHR 0x27] @ the (la_model args) @ [CHR 0x27]))
                   (Some NO_PLAN_SUPPORT_FOR_MODEL))
         else if given limit_name then
           (let additional = filter_accounts_for_additional_limit settings env accs (la_model args) (the limit_name)
                               (la_additional_limit_name args \<noteq> None)
            in if af_accounts additional = [] then nothing (af_error_message additional) (af_error_code additional)
               else full_inputs env args planner (af_accounts additional) (Some additional))
         else if accs = [] then nothing None None
         else full_inputs env args planner accs None)"

section \<open>The cache\<close>

type_synonym cache_key = "string option \<times> string option \<times> string option \<times> (string \<times> string) list \<times> string list option"

record SelectionCache =
  sc_ttl_seconds :: int
  sc_entries :: "(cache_key \<times> SelectionInputs \<times> pyfloat) list"
  sc_generation :: int

definition cache_get :: "pyfloat \<Rightarrow> cache_key \<Rightarrow> SelectionCache \<Rightarrow> SelectionInputs option" where
  "cache_get now key c =
     (if sc_ttl_seconds c = 0 then None
      else (case map_of (sc_entries c) key of
              None \<Rightarrow> None | Some (data, expires_at) \<Rightarrow> if now \<ge> expires_at then None else Some data))"

definition cache_set :: "pyfloat \<Rightarrow> SelectionInputs \<Rightarrow> cache_key \<Rightarrow> int option \<Rightarrow> SelectionCache \<Rightarrow> SelectionCache" where
  "cache_set now data key generation c =
     (if generation \<noteq> None \<and> generation \<noteq> Some (sc_generation c) then c
      else c\<lparr>sc_entries := AList.update key (data, now + of_int (sc_ttl_seconds c)) (sc_entries c)\<rparr>)"

definition cache_invalidate :: "SelectionCache \<Rightarrow> SelectionCache" where
  "cache_invalidate c = c\<lparr>sc_generation := sc_generation c + 1, sc_entries := []\<rparr>"

definition cache_key_of :: "LoadEnv \<Rightarrow> LoadArgs \<Rightarrow> cache_key" where
  "cache_key_of env args =
     (la_model args, la_service_tier args, la_additional_limit_name args,
      (if effective_limit_name (le_quotas env) args = None then [] else sort_key fst (le_routing_overrides env)),
      map_option (\<lambda>ids. sort (remdups ids)) (la_account_ids args))"

text \<open>\<open>_load_selection_inputs\<close>: \<open>others\<close> is what other tasks did to the cache while the database was read.\<close>

definition load_selection_inputs ::
  "BalancerSettings \<Rightarrow> LoadEnv \<Rightarrow> (SelectionCache \<Rightarrow> SelectionCache) \<Rightarrow> LoadArgs \<Rightarrow> SelectionCache
     \<Rightarrow> SelectionInputs \<times> SelectionCache" where
  "load_selection_inputs settings env others args c =
     (let key = cache_key_of env args
      in case cache_get (le_lookup_time env) key c of
           Some cached \<Rightarrow> (cached, c)
         | None \<Rightarrow>
             (let load_generation = sc_generation c;
                  inputs = compute_inputs settings env args
              in (inputs, cache_set (le_store_time env) inputs key (Some load_generation) (others c))))"

section \<open>Which accounts may serve a request\<close>

text \<open>The account may serve the model: the registry either says nothing of it, or its account index and
  its plan index (for the service tier that the request names) allow the account.\<close>

definition in_ids :: "string list option \<Rightarrow> Account \<Rightarrow> bool" where
  "in_ids ids a = (\<forall>is. ids = Some is \<longrightarrow> acc_id a \<in> set is)"

definition in_plans :: "string list option \<Rightarrow> Account \<Rightarrow> bool" where
  "in_plans plans a = (\<forall>ps. plans = Some ps \<longrightarrow> account_plan_matches_allowed (Some (acc_plan_type a)) ps)"

definition index_ids :: "LoadEnv \<Rightarrow> LoadArgs \<Rightarrow> string list option \<Rightarrow> string list option" where
  "index_ids env args ids = (if account_indexes_cover (le_registry env) (scoped_accounts env args) then ids else None)"

definition serves_model :: "LoadEnv \<Rightarrow> LoadArgs \<Rightarrow> string \<Rightarrow> Account \<Rightarrow> bool" where
  "serves_model env args m a =
     (let reg = le_registry env
      in in_ids (index_ids env args (account_ids_for_model reg m)) a
         \<and> (case effective_service_tier (la_service_tier args) of
              None \<Rightarrow> in_plans (plan_types_for_model reg m) a
            | Some t \<Rightarrow>
                (let ids = index_ids env args (account_ids_for_model_service_tier reg m (Some t))
                 in in_ids ids a \<and> (ids = None \<longrightarrow> in_plans (plan_types_for_model_service_tier reg m (Some t)) a))))"

text \<open>The additional quota lets the account through: it does not bind the account's plan, or every
  window with a sample has a fresh one, there is such a window, and no fresh sample is used up.\<close>

definition sample_of :: "LoadEnv \<Rightarrow> Account list \<Rightarrow> string \<Rightarrow> string \<Rightarrow> int option \<Rightarrow> Account \<Rightarrow> UsageEntry option" where
  "sample_of env accs limit window since a =
     latest_additional_by_key (le_quotas env) (le_reads env) limit window (map acc_id accs) since (acc_id a)"

definition quota_open :: "BalancerSettings \<Rightarrow> LoadEnv \<Rightarrow> LoadArgs \<Rightarrow> Account list \<Rightarrow> string \<Rightarrow> Account \<Rightarrow> bool" where
  "quota_open settings env args accs limit a =
     ((la_additional_limit_name args = None \<and> \<not> additional_quota_applies_to_plan (le_quotas env) limit (acc_plan_type a))
      \<or> (let since = Some (additional_usage_fresh_since settings (le_utcnow env))
         in (\<exists>window \<in> {''primary'', ''secondary''}. sample_of env accs limit window None a \<noteq> None)
            \<and> (\<forall>window \<in> {''primary'', ''secondary''}.
                 sample_of env accs limit window None a \<noteq> None \<longrightarrow> sample_of env accs limit window since a \<noteq> None)
            \<and> \<not> exhausted_entry (le_times env (acc_id a) 0) (sample_of env accs limit ''primary'' since a)
            \<and> \<not> exhausted_entry (le_times env (acc_id a) 1) (sample_of env accs limit ''secondary'' since a)))"

definition request_candidate :: "BalancerSettings \<Rightarrow> LoadEnv \<Rightarrow> LoadArgs \<Rightarrow> Account \<Rightarrow> bool" where
  "request_candidate settings env args a =
     (acc_status a \<notin> {REAUTH_REQUIRED, DEACTIVATED, PAUSED}
      \<and> in_ids (la_account_ids args) a
      \<and> (given (la_model args) \<and> mapped_model_has_registry_entry (le_registry env) (la_model args)
           \<longrightarrow> serves_model env args (the (la_model args)) a)
      \<and> (\<forall>limit. effective_limit_name (le_quotas env) args = Some limit \<longrightarrow> limit \<noteq> []
           \<longrightarrow> quota_open settings env args (model_accounts env args) limit a))"

lemma within_ids_filter: "within_ids ids accs = filter (in_ids ids) accs"
  by (auto simp: within_ids_def in_ids_def split: option.split intro: filter_cong)

lemma within_plans_filter: "within_plans plans accs = filter (in_plans plans) accs"
  by (auto simp: within_plans_def in_plans_def split: option.split intro: filter_cong)

lemma in_ids_None [simp]: "in_ids None a"
  by (simp add: in_ids_def)

lemma model_filter:
  "filter_accounts_for_model (le_registry env) (scoped_accounts env args) m (la_service_tier args)
     = filter (serves_model env args m) (scoped_accounts env args)"
proof -
  define reg where "reg = le_registry env"
  define model_ids where "model_ids = index_ids env args (account_ids_for_model reg m)"
  define tier_ids where "tier_ids t = index_ids env args (account_ids_for_model_service_tier reg m (Some t))" for t
  have filtered: "filter_accounts_for_model reg (scoped_accounts env args) m (la_service_tier args) =
      (case effective_service_tier (la_service_tier args) of
         None \<Rightarrow> within_plans (plan_types_for_model reg m) (within_ids model_ids (scoped_accounts env args))
       | Some t \<Rightarrow>
           (case tier_ids t of
              Some ids \<Rightarrow> within_ids (Some ids) (within_ids model_ids (scoped_accounts env args))
            | None \<Rightarrow> within_plans (plan_types_for_model_service_tier reg m (Some t)) (within_ids model_ids (scoped_accounts env args))))"
    by (simp only: filter_accounts_for_model_def Let_def index_ids_def model_ids_def tier_ids_def reg_def)
  have "serves_model env args m = (\<lambda>a. in_ids model_ids a
      \<and> (case effective_service_tier (la_service_tier args) of
           None \<Rightarrow> in_plans (plan_types_for_model reg m) a
         | Some t \<Rightarrow> (case tier_ids t of
             Some ids \<Rightarrow> in_ids (Some ids) a | None \<Rightarrow> in_plans (plan_types_for_model_service_tier reg m (Some t)) a)))"
    by (rule ext) (simp add: serves_model_def Let_def model_ids_def tier_ids_def reg_def split: option.split)
  then show ?thesis
    unfolding reg_def [symmetric] filtered
    by (simp add: within_ids_filter within_plans_filter split: option.split)
qed

lemma quota_verdict:
  assumes "rows = quota_rows settings env limit (map acc_id accs)"
  shows "additional_quota_eligibility (le_quotas env) (le_times env (acc_id a)) rows limit
             (la_additional_limit_name args \<noteq> None) a = eligible
         \<longleftrightarrow> quota_open settings env args accs limit a"
  using assms
  by (auto simp: additional_quota_eligibility_def quota_open_def quota_rows_def sample_of_def Let_def)

lemma limit_filter:
  "af_accounts (filter_accounts_for_additional_limit settings env accs model limit (la_additional_limit_name args \<noteq> None))
     = filter (quota_open settings env args accs limit) accs"
proof -
  have "filter (\<lambda>a. additional_quota_eligibility (le_quotas env) (le_times env (acc_id a))
                      (quota_rows settings env limit (map acc_id accs)) limit (la_additional_limit_name args \<noteq> None) a = eligible) accs
        = filter (quota_open settings env args accs limit) accs"
    by (simp add: quota_verdict del: not_None_eq)
  then show ?thesis
    by (simp add: filter_accounts_for_additional_limit_def Let_def del: not_None_eq)
qed

lemma model_accounts_filter:
  "model_accounts env args =
     filter (\<lambda>a. given (la_model args) \<and> mapped_model_has_registry_entry (le_registry env) (la_model args)
                   \<longrightarrow> serves_model env args (the (la_model args)) a) (scoped_accounts env args)"
  by (auto simp: model_accounts_def model_filter intro: filter_cong)

lemma scoped_accounts_filter:
  "scoped_accounts env args =
     filter (\<lambda>a. acc_status a \<notin> {REAUTH_REQUIRED, DEACTIVATED, PAUSED} \<and> in_ids (la_account_ids args) a) (le_accounts env)"
  by (simp add: scoped_accounts_def within_ids_filter selectable_accounts_def conj_commute conj_left_commute)

lemma given_iff: "given v \<longleftrightarrow> (\<exists>s. v = Some s \<and> s \<noteq> [])"
  by (cases v) (auto simp: given_def)

lemma si_accounts_simps [simp]:
  "si_accounts (empty_inputs planner all_accounts msg err) = []"
  "si_error_code (empty_inputs planner all_accounts msg err) = err"
  "si_error_message (empty_inputs planner all_accounts msg err) = msg"
  "si_runtime_accounts (empty_inputs planner all_accounts msg err) = Some all_accounts"
  "si_accounts (full_inputs env args planner accs additional) = accs"
  "si_error_code (full_inputs env args planner accs additional) = None"
  "si_error_message (full_inputs env args planner accs additional) = None"
  "si_runtime_accounts (full_inputs env args planner accs additional) = Some (le_accounts env)"
  by (simp_all add: empty_inputs_def no_rows_def full_inputs_def Let_def)

lemma computed_accounts:
  "si_accounts (compute_inputs settings env args) =
     (if given (effective_limit_name (le_quotas env) args)
      then filter (quota_open settings env args (model_accounts env args) (the (effective_limit_name (le_quotas env) args)))
             (model_accounts env args)
      else model_accounts env args)"
  by (simp add: compute_inputs_def Let_def limit_filter del: not_None_eq)

lemma computed_runtime_accounts [simp]: "si_runtime_accounts (compute_inputs settings env args) = Some (le_accounts env)"
  by (simp add: compute_inputs_def Let_def)

lemma served_accounts:
  "si_accounts (compute_inputs settings env args) = filter (request_candidate settings env args) (le_accounts env)"
proof (cases "given (effective_limit_name (le_quotas env) args)")
  case True
  then obtain limit where q: "effective_limit_name (le_quotas env) args = Some limit" "limit \<noteq> []"
    by (auto simp: given_iff)
  show ?thesis
    unfolding computed_accounts if_P [OF True]
    by (subst (2) model_accounts_filter) (auto simp: scoped_accounts_filter request_candidate_def q intro!: filter_cong)
next
  case False
  show ?thesis
    unfolding computed_accounts if_not_P [OF False] using False
    by (auto simp: model_accounts_filter scoped_accounts_filter request_candidate_def given_iff intro!: filter_cong)
qed

lemma limit_error_code:
  "af_error_code (filter_accounts_for_additional_limit settings env accs model limit explicit)
     \<in> {None, Some ADDITIONAL_QUOTA_DATA_UNAVAILABLE, Some ADDITIONAL_QUOTA_EXHAUSTED, Some NO_ADDITIONAL_QUOTA_ELIGIBLE_ACCOUNTS}"
  by (simp add: filter_accounts_for_additional_limit_def Let_def)

lemma limit_error_not_plan:
  "af_error_code (filter_accounts_for_additional_limit settings env accs model limit explicit) \<noteq> Some NO_PLAN_SUPPORT_FOR_MODEL"
  using limit_error_code [of settings env accs model limit explicit]
  by (auto simp: NO_PLAN_SUPPORT_FOR_MODEL_def ADDITIONAL_QUOTA_DATA_UNAVAILABLE_def ADDITIONAL_QUOTA_EXHAUSTED_def
      NO_ADDITIONAL_QUOTA_ELIGIBLE_ACCOUNTS_def)

lemma plan_error:
  "si_error_code (compute_inputs settings env args) = Some NO_PLAN_SUPPORT_FOR_MODEL
     \<longleftrightarrow> given (la_model args) \<and> scoped_accounts env args \<noteq> [] \<and> model_accounts env args = []"
proof -
  have "le_accounts env \<noteq> []" if "scoped_accounts env args \<noteq> []"
    using that by (auto simp: scoped_accounts_filter)
  then show ?thesis
    by (auto simp: compute_inputs_def Let_def limit_error_not_plan)
qed

lemma error_means_empty: "si_accounts (compute_inputs settings env args) = [] \<or> si_error_code (compute_inputs settings env args) = None"
  by (simp add: compute_inputs_def Let_def)

text \<open>C25: A load offers exactly the accounts that may serve the request, in database order: those that
  are not paused, deactivated or waiting for a sign-in, lie in the key's scope, are allowed by the model
  registry for the model and service tier, and have open additional quota. An error code comes only with no
  account, and the missing-plan code says exactly that accounts are in scope but none serves the model.\<close>

theorem loaded_accounts_exact:
  "si_accounts (compute_inputs settings env args) = filter (request_candidate settings env args) (le_accounts env)
   \<and> (si_accounts (compute_inputs settings env args) = [] \<or> si_error_code (compute_inputs settings env args) = None)
   \<and> (si_error_code (compute_inputs settings env args) = Some NO_PLAN_SUPPORT_FOR_MODEL
      \<longleftrightarrow> given (la_model args) \<and> scoped_accounts env args \<noteq> [] \<and> model_accounts env args = [])"
  by (intro conjI served_accounts error_means_empty plan_error)

section \<open>Loads that overlap with changes\<close>

text \<open>
  Loads of several tasks, interleaved with database commits and invalidations. The database is known by
  the number of commits so far. \<open>cw_stamp\<close> records for each cache key the database version that the
  stored inputs were read at, \<open>cw_flushed\<close> the version at the last invalidation.
\<close>

record LoadTask =
  lt_key :: cache_key
  lt_generation :: int
  lt_read :: "(SelectionInputs \<times> nat) option"

record CacheWorld =
  cw_cache :: SelectionCache
  cw_version :: nat
  cw_loads :: "nat \<Rightarrow> LoadTask option"
  cw_stamp :: "cache_key \<Rightarrow> nat"
  cw_flushed :: nat

inductive cache_step :: "BalancerSettings \<Rightarrow> CacheWorld \<Rightarrow> CacheWorld \<Rightarrow> bool" for settings where
  commit: "cache_step settings w (w\<lparr>cw_version := cw_version w + 1\<rparr>)"
| invalidate: "cache_step settings w (w\<lparr>cw_cache := cache_invalidate (cw_cache w), cw_flushed := cw_version w\<rparr>)"
| begin_load: "cache_get t (cache_key_of env args) (cw_cache w) = None \<Longrightarrow> cw_loads w i = None
    \<Longrightarrow> cache_step settings w (w\<lparr>cw_loads := (cw_loads w)(i \<mapsto>
          \<lparr>lt_key = cache_key_of env args, lt_generation = sc_generation (cw_cache w), lt_read = None\<rparr>)\<rparr>)"
| read_database: "cw_loads w i = Some task \<Longrightarrow> lt_read task = None \<Longrightarrow> lt_key task = cache_key_of env args
    \<Longrightarrow> cache_step settings w (w\<lparr>cw_loads := (cw_loads w)(i \<mapsto>
          task\<lparr>lt_read := Some (compute_inputs settings env args, cw_version w)\<rparr>)\<rparr>)"
| store: "cw_loads w i = Some task \<Longrightarrow> lt_read task = Some (inputs, v)
    \<Longrightarrow> cache_step settings w (w\<lparr>cw_cache := cache_set t inputs (lt_key task) (Some (lt_generation task)) (cw_cache w),
          cw_loads := (cw_loads w)(i := None),
          cw_stamp := (if lt_generation task = sc_generation (cw_cache w) then (cw_stamp w)(lt_key task := v) else cw_stamp w)\<rparr>)"

definition cache_start :: "CacheWorld \<Rightarrow> bool" where
  "cache_start w = (sc_entries (cw_cache w) = [] \<and> (\<forall>i. cw_loads w i = None) \<and> cw_flushed w \<le> cw_version w)"

definition cache_ok :: "CacheWorld \<Rightarrow> bool" where
  "cache_ok w =
     (cw_flushed w \<le> cw_version w
      \<and> (\<forall>k \<in> fst ` set (sc_entries (cw_cache w)). cw_flushed w \<le> cw_stamp w k)
      \<and> (\<forall>i task. cw_loads w i = Some task \<longrightarrow> lt_generation task \<le> sc_generation (cw_cache w)
           \<and> (lt_generation task = sc_generation (cw_cache w)
              \<longrightarrow> (\<forall>inputs v. lt_read task = Some (inputs, v) \<longrightarrow> cw_flushed w \<le> v))))"

lemma cache_set_generation [simp]: "sc_generation (cache_set t data k g c) = sc_generation c"
  by (simp add: cache_set_def)

lemma cache_set_keys:
  "fst ` set (sc_entries (cache_set t data k (Some g) c)) =
     (if g = sc_generation c then insert k (fst ` set (sc_entries c)) else fst ` set (sc_entries c))"
  by (simp add: cache_set_def dom_update)

lemma store_ok:
  assumes "cache_ok w" "cw_loads w i = Some task" "lt_read task = Some (inputs, v)"
  shows "cache_ok (w\<lparr>cw_cache := cache_set t inputs (lt_key task) (Some (lt_generation task)) (cw_cache w),
      cw_loads := (cw_loads w)(i := None),
      cw_stamp := (if lt_generation task = sc_generation (cw_cache w) then (cw_stamp w)(lt_key task := v) else cw_stamp w)\<rparr>)"
proof -
  have "cw_flushed w \<le> v" if "lt_generation task = sc_generation (cw_cache w)"
    using assms that unfolding cache_ok_def by blast
  with assms(1) show ?thesis
    unfolding cache_ok_def by (auto simp: cache_set_keys)
qed

interpretation selection_cache: invariant_system cache_start "cache_step settings" cache_ok for settings
proof unfold_locales
  show "cache_start w \<Longrightarrow> cache_ok w" for w
    by (simp add: cache_start_def cache_ok_def)
  show "cache_ok w \<Longrightarrow> cache_step settings w w' \<Longrightarrow> cache_ok w'" for w w'
  proof (erule cache_step.cases, goal_cases)
    case (2 v)
    then show ?case by (fastforce simp: cache_ok_def cache_invalidate_def)
  next
    case (5 v i task inputs n t)
    then show ?case by (simp add: store_ok)
  qed (auto simp: cache_ok_def split: if_splits)
qed

lemma cached_key: "cache_get t k c = Some inputs \<Longrightarrow> k \<in> fst ` set (sc_entries c)"
  by (auto simp: cache_get_def split: if_splits option.splits dest!: map_of_SomeD intro: rev_image_eqI)

text \<open>Whatever loads overlap with database commits and cache invalidations, inputs that are served
  from the cache were read from the database after the last invalidation: a load that was under way when the
  cache was invalidated never puts its older reading back.\<close>

lemma cached_inputs_read_after_invalidation:
  assumes "cache_start w" "(cache_step settings)\<^sup>*\<^sup>* w w'" "cache_get t k (cw_cache w') = Some inputs"
  shows "cw_flushed w' \<le> cw_stamp w' k"
  using selection_cache.reachable_inv [OF assms(1,2)] cached_key [OF assms(3)] by (auto simp: cache_ok_def)

definition sample_load_env :: LoadEnv where
  "sample_load_env =
     \<lparr>le_accounts = [sample_account ACTIVE], le_planner_settings = None,
      le_reads = \<lparr>ur_primary = (\<lambda>i. None), ur_secondary = (\<lambda>i. None), ur_monthly = (\<lambda>i. None),
                  ur_additional = (\<lambda>k window since i. None)\<rparr>,
      le_registry = sample_model_registry, le_quotas = empty_maps, le_routing_overrides = [], le_utcnow = 0,
      le_times = (\<lambda>i n. 0), le_lookup_time = 0, le_store_time = 0\<rparr>"

definition sample_load_args :: LoadArgs where
  "sample_load_args = \<lparr>la_model = None, la_service_tier = None, la_additional_limit_name = None, la_account_ids = None\<rparr>"

definition sample_cache_world :: CacheWorld where
  "sample_cache_world =
     \<lparr>cw_cache = \<lparr>sc_ttl_seconds = 5, sc_entries = [], sc_generation = 0\<rparr>, cw_version = 0, cw_loads = (\<lambda>i. None),
      cw_stamp = (\<lambda>k. 0), cw_flushed = 0\<rparr>"

text \<open>A first load is overtaken by a commit and an invalidation; a second one is stored.\<close>

end
