(* ===== verification/Balancer_Service.thy ===== *)
theory Balancer_Service
  imports Selection_Inputs Balancer_Runtime Sticky_Select Circuit_Breaker Cap_Partition
begin

text \<open>
  The selection of an account for a request as a whole, after \<open>LoadBalancer.select_account\<close> and
  \<open>check_opportunistic_admission\<close> of \<open>codex-lb/app/modules/proxy/load_balancer.py\<close>, with the service
  level of \<open>codex-lb/app/core/resilience/degradation.py\<close>.

  A call loads its inputs, takes up to four turns, and in every turn prepares the states under the lock,
  selects, takes a lease and saves the states; a row that another task changed, an invalidated cache or a
  recovered account starts another turn. Between two suspension points the call runs alone; what other
  tasks do to the service while the call is suspended are the functions \<open>tn_others\<close> and \<open>ld_others\<close>.
  The save of the states may raise after any number of rows. Clocks, identifiers and random draws are
  arguments of the turn that reads them.
\<close>

section \<open>State\<close>

datatype DegradationLevel = NORMAL | DEGRADED | CRITICAL

record DegradationManager =
  dm_level :: DegradationLevel
  dm_reason :: "string option"

definition new_degradation :: DegradationManager where
  "new_degradation = \<lparr>dm_level = NORMAL, dm_reason = None\<rparr>"

definition set_degraded :: "string option \<Rightarrow> DegradationManager \<Rightarrow> DegradationManager" where
  "set_degraded reason m = m\<lparr>dm_level := DEGRADED, dm_reason := reason\<rparr>"

definition set_normal :: "DegradationManager \<Rightarrow> DegradationManager" where
  "set_normal m = m\<lparr>dm_level := NORMAL, dm_reason := None\<rparr>"

definition is_degraded :: "DegradationManager \<Rightarrow> bool" where
  "is_degraded m = (dm_level m \<noteq> NORMAL)"

record Service =
  sv_runtime :: runtime_table
  sv_cache :: SelectionCache
  sv_db :: Database
  sv_salts :: ReplicaSalt
  sv_degradation :: DegradationManager

record AccountSelection =
  as_account :: "Account option"
  as_error_message :: "string option"
  as_error_code :: "string option"
  as_lease :: "AccountLease option"

record SelectRequest =
  rq_load :: LoadArgs
  rq_sticky_key :: "string option"
  rq_sticky_kind :: "StickySessionKind option"
  rq_reallocate_sticky :: bool
  rq_sticky_max_age_seconds :: "int option"
  rq_budget :: BudgetArgs
  rq_routing_costs :: "RoutingCostsByAccount option"
  rq_lease_kind :: "AccountLeaseKind option"
  rq_estimated_lease_tokens :: pyfloat
  rq_stream_reserve_slots :: int
  rq_excluded :: "string list"
  rq_require_security_work_authorized :: bool
  rq_concurrency_caps :: "AccountConcurrencyCaps option"

record ServiceSettings =
  sg_balancer :: BalancerSettings
  sg_leases :: LeaseSettings
  sg_zones :: TimeZones
  sg_circuit_breaker_enabled :: bool

text \<open>A load: the environment it reads, the error it may raise, and what happens while it waits for the
  routing overrides (0) and for the database (1).\<close>

record LoadStep =
  ld_env :: LoadEnv
  ld_error :: "py_error option"
  ld_others :: "nat \<Rightarrow> Service \<Rightarrow> Service"

record TurnEnv =
  tn_reclaim_time :: pyfloat
  tn_clocks :: "nat \<Rightarrow> Clocks"
  tn_planner_now :: pyfloat
  tn_select :: "nat \<Rightarrow> SelectEnv"
  tn_lookup_now :: int
  tn_sticky :: StickyEnv
  tn_sync_time :: "string \<Rightarrow> pyfloat"
  tn_uuid :: string
  tn_monotonic :: pyfloat
  tn_time :: pyfloat
  tn_utcnow :: "string \<Rightarrow> int"
  tn_persist_fault :: "(nat \<times> py_error) option"
  tn_others :: "nat \<Rightarrow> Service \<Rightarrow> Service"
  tn_reload :: LoadStep

record CallEnv =
  ce_first_load :: LoadStep
  ce_effective_caps :: AccountConcurrencyCaps
  ce_breakers :: BreakerRegistry
  ce_breaker_time :: pyfloat
  ce_turns :: "nat \<Rightarrow> TurnEnv"

definition MAX_SELECTION_ATTEMPTS :: nat where
  "MAX_SELECTION_ATTEMPTS = 4"

definition OPPORTUNISTIC_BURN_WINDOW_CLOSED :: string where
  "OPPORTUNISTIC_BURN_WINDOW_CLOSED = ''opportunistic_burn_window_closed''"

definition no_selection :: "string option \<Rightarrow> string option \<Rightarrow> AccountSelection" where
  "no_selection msg err = \<lparr>as_account = None, as_error_message = msg, as_error_code = err, as_lease = None\<rparr>"

section \<open>Loading\<close>

text \<open>The nested \<open>load_selection_inputs\<close>: the accounts authorised for security work, without the
  excluded ones.\<close>

definition with_accounts :: "Account list \<Rightarrow> SelectionInputs \<Rightarrow> SelectionInputs" where
  "with_accounts accs inputs = inputs\<lparr>si_rows := (si_rows inputs)\<lparr>sr_accounts := accs\<rparr>\<rparr>"

definition unauthorized_inputs :: "SelectionInputs \<Rightarrow> SelectionInputs" where
  "unauthorized_inputs inputs =
     \<lparr>si_rows = no_rows\<lparr>latest_monthly := latest_monthly (si_rows inputs)\<rparr>,
      si_quota_planner_settings = si_quota_planner_settings inputs, si_runtime_accounts = si_runtime_accounts inputs,
      si_error_message = Some ''No accounts marked as authorized for security work'',
      si_error_code = Some ''no_security_work_authorized_accounts'',
      si_ignore_standard_quota_status = False, si_persist_standard_quota_status = True\<rparr>"

definition exclude_accounts :: "SelectRequest \<Rightarrow> SelectionInputs \<Rightarrow> SelectionInputs" where
  "exclude_accounts req inputs =
     (if rq_excluded req \<noteq> [] \<and> si_accounts inputs \<noteq> []
      then (let kept = filter (\<lambda>a. acc_id a \<notin> set (rq_excluded req)) (si_accounts inputs)
            in if rq_require_security_work_authorized req \<and> kept = [] then unauthorized_inputs inputs
               else with_accounts kept inputs)
      else inputs)"

definition scope_inputs :: "SelectRequest \<Rightarrow> SelectionInputs \<Rightarrow> SelectionInputs" where
  "scope_inputs req inputs =
     (if rq_require_security_work_authorized req \<and> si_accounts inputs \<noteq> []
      then (let authorized = filter acc_security_work_authorized (si_accounts inputs)
            in if authorized = [] then unauthorized_inputs inputs
               else exclude_accounts req (with_accounts authorized inputs))
      else exclude_accounts req inputs)"

definition load_inputs :: "ServiceSettings \<Rightarrow> LoadStep \<Rightarrow> LoadArgs \<Rightarrow> Service \<Rightarrow> SelectionInputs result \<times> Service" where
  "load_inputs sg ld args sv =
     (let sv1 = ld_others ld 0 sv;
          sv2 = ld_others ld 1 sv1
      in case ld_error ld of
           Some e \<Rightarrow> (Inl e, sv2)
         | None \<Rightarrow>
             (case load_selection_inputs (sg_balancer sg) (ld_env ld) (\<lambda>c. sv_cache sv2) args (sv_cache sv1) of
                (inputs, c) \<Rightarrow>
                  (Inr inputs,
                   if cache_get (le_lookup_time (ld_env ld)) (cache_key_of (ld_env ld) args) (sv_cache sv1) = None
                   then sv2\<lparr>sv_cache := c\<rparr> else sv1)))"

definition unserved :: "SelectionInputs \<Rightarrow> bool" where
  "unserved inputs = (si_error_code inputs \<noteq> None \<and> si_accounts inputs = [])"

section \<open>The parts of a turn\<close>

definition account_map_of :: "Account list \<Rightarrow> string \<Rightarrow> Account option" where
  "account_map_of accs = map_of (rev (map (\<lambda>a. (acc_id a, a)) accs))"

definition tracked_accounts :: "SelectionInputs \<Rightarrow> Account list" where
  "tracked_accounts inputs = or_list (default_to (si_runtime_accounts inputs) []) (si_accounts inputs)"

definition prepare ::
  "ServiceSettings \<Rightarrow> pyfloat \<Rightarrow> (nat \<Rightarrow> Clocks) \<Rightarrow> SelectionInputs \<Rightarrow> runtime_table \<Rightarrow> AccountState list \<times> runtime_table" where
  "prepare sg now clks inputs table =
     build_states (sg_balancer sg) clks (si_rows inputs)
       (prune_runtime (map acc_id (tracked_accounts inputs)) (reclaim_stale_account_leases_locked (sg_leases sg) now table))
       (si_accounts inputs)"

definition effective_routing_costs ::
  "ServiceSettings \<Rightarrow> SelectRequest \<Rightarrow> pyfloat \<Rightarrow> SelectionInputs \<Rightarrow> AccountState list \<Rightarrow> RoutingCostsByAccount" where
  "effective_routing_costs sg req now inputs states =
     default_to (rq_routing_costs req) (build_routing_costs (sg_zones sg) (si_quota_planner_settings inputs) states now)"

text \<open>The budget arguments of both call sites: no quota bypass, and the routing costs of the turn.\<close>

definition turn_budget :: "SelectRequest \<Rightarrow> RoutingCostsByAccount \<Rightarrow> BudgetArgs" where
  "turn_budget req costs =
     (rq_budget req)\<lparr>base_args := (base_args (rq_budget req))\<lparr>args_ignore_standard_quota := False, routing_costs := Some costs\<rparr>\<rparr>"

definition below_cap :: "AccountLeaseKind option \<Rightarrow> AccountConcurrencyCaps \<Rightarrow> int \<Rightarrow> AccountState \<Rightarrow> bool" where
  "below_cap kind caps reserve st = (filter_states_for_account_caps [st] kind caps reserve \<noteq> [])"

definition cap_refusal :: "SelectRequest \<Rightarrow> AccountConcurrencyCaps \<Rightarrow> SelectionResult" where
  "cap_refusal req caps = \<lparr>account = None, error_message = Some (account_cap_error_message (rq_lease_kind req) caps)\<rparr>"

text \<open>The loop over the states that writes them to the runtime table.\<close>

fun sync_states ::
  "(string \<Rightarrow> pyfloat) \<Rightarrow> (string \<Rightarrow> Account option) \<Rightarrow> string option \<Rightarrow> AccountState list \<Rightarrow> runtime_table
     \<Rightarrow> AccountState list \<times> runtime_table" where
  "sync_states now amap chosen [] table = ([], table)"
| "sync_states now amap chosen (st # sts) table =
     (case amap (account_id st) of
        None \<Rightarrow> sync_states now amap chosen sts table
      | Some acc \<Rightarrow>
          (case sync_states now amap chosen sts
                  (snd (sync_runtime_state (now (account_id st)) acc st (chosen = Some (account_id st)) None table)) of
             (synced, table') \<Rightarrow> (st # synced, table')))"

text \<open>The loop that copies the status of the selected state to its entry among the states, and reads
  the deadline of that entry.\<close>

fun adopt_status :: "AccountState \<Rightarrow> int option \<Rightarrow> AccountState list \<Rightarrow> int option \<times> AccountState list" where
  "adopt_status chosen reset [] = (reset, [])"
| "adopt_status chosen reset (st # sts) =
     (if account_id st = account_id chosen
      then (if truthy (reset_at st) then map_option py_int (reset_at st) else None,
            st\<lparr>status := status chosen, deactivation_reason := deactivation_reason chosen\<rparr> # sts)
      else (case adopt_status chosen reset sts of (r, rest) \<Rightarrow> (r, st # rest)))"

definition snapshot_of :: "Account \<Rightarrow> AccountState \<Rightarrow> int option \<Rightarrow> Account" where
  "snapshot_of acc chosen reset =
     acc\<lparr>acc_status := status chosen, acc_deactivation_reason := deactivation_reason chosen, acc_reset_at := reset\<rparr>"

record Pick =
  pk_snapshot :: "Account option"
  pk_message :: "string option"
  pk_code :: "string option"
  pk_lease :: "AccountLease option"
  pk_states :: "AccountState list"

definition take_lease ::
  "SelectRequest \<Rightarrow> TurnEnv \<Rightarrow> string \<Rightarrow> runtime_table \<Rightarrow> AccountLease option \<times> runtime_table" where
  "take_lease req env i table =
     (case rq_lease_kind req of
        None \<Rightarrow> (None, table)
      | Some kind \<Rightarrow>
          (case acquire_account_lease_locked (tn_uuid env) (tn_monotonic env) (tn_time env) i kind (rq_estimated_lease_tokens req) table of
             (l, table') \<Rightarrow> (Some l, table')))"

text \<open>Whether the lease is allowed. A sticky turn asks again under the lock, since it gave up the lock to select.\<close>

definition ask_room ::
  "SelectRequest \<Rightarrow> AccountConcurrencyCaps \<Rightarrow> bool \<Rightarrow> string \<Rightarrow> runtime_table \<Rightarrow> bool \<times> runtime_table" where
  "ask_room req caps recheck i t =
     (case rq_lease_kind req of
        None \<Rightarrow> (True, t)
      | Some kind \<Rightarrow>
          if recheck then account_lease_allowed_locked i kind caps (rq_stream_reserve_slots req) t else (True, t))"

text \<open>The end of the locked part: the states are written to the table and the lease is taken.\<close>

definition settle_pick ::
  "SelectRequest \<Rightarrow> AccountConcurrencyCaps \<Rightarrow> TurnEnv \<Rightarrow> bool \<Rightarrow> (string \<Rightarrow> Account option) \<Rightarrow> AccountState list
     \<Rightarrow> SelectionResult \<Rightarrow> string option \<Rightarrow> runtime_table \<Rightarrow> Pick \<times> runtime_table" where
  "settle_pick req caps env recheck amap states result err table =
     (case sync_states (tn_sync_time env) amap (map_option account_id (account result)) states table of
        (synced, table1) \<Rightarrow>
          (case account result of
             None \<Rightarrow>
               (\<lparr>pk_snapshot = None, pk_message = error_message result, pk_code = err, pk_lease = None, pk_states = synced\<rparr>, table1)
           | Some chosen \<Rightarrow>
               (case amap (account_id chosen) of
                  None \<Rightarrow>
                    (\<lparr>pk_snapshot = None, pk_message = error_message result, pk_code = err, pk_lease = None, pk_states = synced\<rparr>, table1)
                | Some acc \<Rightarrow>
                    (case adopt_status chosen (acc_reset_at acc) synced of
                       (reset, marked) \<Rightarrow>
                         (case ask_room req caps recheck (acc_id acc) table1 of
                            (allowed, table2) \<Rightarrow>
                              if \<not> allowed
                              then (\<lparr>pk_snapshot = None, pk_message = Some (account_cap_error_message (rq_lease_kind req) caps),
                                     pk_code = account_cap_error_code (rq_lease_kind req), pk_lease = None, pk_states = marked\<rparr>, table2)
                              else (case take_lease req env (acc_id acc) table2 of
                                      (l, table3) \<Rightarrow>
                                        (\<lparr>pk_snapshot = Some (snapshot_of acc chosen reset), pk_message = None, pk_code = err,
                                          pk_lease = l, pk_states = marked\<rparr>, table3)))))))"

text \<open>Saving the states. A fault leaves the rows written so far.\<close>

definition save_states ::
  "TurnEnv \<Rightarrow> (string \<Rightarrow> Account option) \<Rightarrow> AccountState list \<Rightarrow> Service \<Rightarrow> string list result \<times> Service" where
  "save_states env amap states sv =
     (case tn_persist_fault env of
        None \<Rightarrow>
          (case persist_selection_state (tn_utcnow env) amap states (sv_db sv) of
             (stale, m, db) \<Rightarrow> (Inr stale, sv\<lparr>sv_db := db\<rparr>))
      | Some (n, e) \<Rightarrow>
          (case persist_selection_state (tn_utcnow env) amap (take n states) (sv_db sv) of
             (stale, m, db) \<Rightarrow> (Inl e, sv\<lparr>sv_db := db\<rparr>)))"

definition release_in :: "AccountLease option \<Rightarrow> Service \<Rightarrow> Service" where
  "release_in l sv = sv\<lparr>sv_runtime := release_account_lease l (sv_runtime sv)\<rparr>"

text \<open>\<open>_runtime_recovered\<close>: an entry's deadline, cooldown or errors changed since the snapshot.\<close>

definition recovery_fields :: "RuntimeState \<Rightarrow> pyfloat option \<times> pyfloat option \<times> int \<times> pyfloat option" where
  "recovery_fields rt = (rt_reset_at rt, rt_cooldown_until rt, rt_error_count rt, rt_last_error_at rt)"

definition runtime_recovered :: "runtime_table \<Rightarrow> runtime_table \<Rightarrow> bool" where
  "runtime_recovered before table =
     list_ex (\<lambda>(i, rt). recovery_fields (runtime_get i table) \<noteq> recovery_fields rt) before"

section \<open>Turns\<close>

datatype turn_end = Raised py_error | Again | Finished Pick

definition stale_pick :: "Pick \<Rightarrow> string list \<Rightarrow> bool" where
  "stale_pick p stale = (case pk_snapshot p of None \<Rightarrow> False | Some acc \<Rightarrow> acc_id acc \<in> set stale)"

text \<open>After the fourth turn on a changed row: no account, no message, and the code of the turn.\<close>

definition given_up :: "Pick \<Rightarrow> Pick" where
  "given_up p = p\<lparr>pk_snapshot := None, pk_message := None, pk_lease := None\<rparr>"

definition end_plain_turn ::
  "TurnEnv \<Rightarrow> nat \<Rightarrow> Pick \<Rightarrow> (string \<Rightarrow> Account option) \<Rightarrow> Service \<Rightarrow> turn_end \<times> Service" where
  "end_plain_turn env attempt p amap sv =
     (case save_states env amap (pk_states p) (tn_others env 1 sv) of
        (saved, sv1) \<Rightarrow>
          (case saved of
             Inl e \<Rightarrow> (Raised e, release_in (pk_lease p) (tn_others env 2 sv1))
           | Inr stale \<Rightarrow>
               (let sv2 = tn_others env 2 sv1
                in if stale_pick p stale
                   then (let sv3 = release_in (pk_lease p) (tn_others env 3 sv2)
                         in if attempt \<ge> MAX_SELECTION_ATTEMPTS then (Finished (given_up p), sv3) else (Again, sv3))
                   else if pk_snapshot p \<noteq> None \<and> sc_generation (sv_cache sv2) \<noteq> sc_generation (sv_cache sv)
                           \<and> attempt < MAX_SELECTION_ATTEMPTS
                   then (Again, release_in (pk_lease p) (tn_others env 3 sv2))
                   else if pk_snapshot p = None \<and> pk_message p = Some ''No available accounts''
                           \<and> runtime_recovered (sv_runtime sv) (sv_runtime sv2) \<and> attempt < MAX_SELECTION_ATTEMPTS
                   then (Again, sv2)
                   else (Finished p, sv2))))"

definition plain_select ::
  "SelectRequest \<Rightarrow> AccountConcurrencyCaps \<Rightarrow> TurnEnv \<Rightarrow> BudgetArgs \<Rightarrow> AccountState list \<Rightarrow> ReplicaSalt
     \<Rightarrow> SelectionResult result \<times> string option \<times> AccountState list \<times> ReplicaSalt" where
  "plain_select req caps env b states salts =
     (let fits = below_cap (rq_lease_kind req) caps (rq_stream_reserve_slots req)
      in if filter fits states = [] \<and> states \<noteq> []
         then (Inr (cap_refusal req caps), account_cap_error_code (rq_lease_kind req), states, salts)
         else (case select_account_preferring_budget_safe (tn_select env) b (filter fits states) salts of
                 (r, sub, salts') \<Rightarrow> (r, None, merge_back fits states sub, salts')))"

definition plain_turn ::
  "ServiceSettings \<Rightarrow> SelectRequest \<Rightarrow> AccountConcurrencyCaps \<Rightarrow> TurnEnv \<Rightarrow> nat \<Rightarrow> SelectionInputs \<Rightarrow> Service
     \<Rightarrow> turn_end \<times> Service" where
  "plain_turn sg req caps env attempt inputs sv0 =
     (let sv = tn_others env 0 sv0;
          amap = account_map_of (si_accounts inputs)
      in case prepare sg (tn_reclaim_time env) (tn_clocks env) inputs (sv_runtime sv) of
           (states, table) \<Rightarrow>
             (let costs = effective_routing_costs sg req (tn_planner_now env) inputs states
              in case plain_select req caps env (choose_args False (turn_budget req costs)) states (sv_salts sv) of
                   (r, err, states1, salts) \<Rightarrow>
                     (case r of
                        Inl e \<Rightarrow> (Raised e, sv\<lparr>sv_runtime := table, sv_salts := salts\<rparr>)
                      | Inr result \<Rightarrow>
                          (case settle_pick req caps env False amap states1 result err table of
                             (p, table1) \<Rightarrow>
                               end_plain_turn env attempt p amap (sv\<lparr>sv_runtime := table1, sv_salts := salts\<rparr>)))))"

text \<open>A turn for a sticky key.\<close>

definition look_up_session :: "SelectRequest \<Rightarrow> TurnEnv \<Rightarrow> Service \<Rightarrow> string option option \<times> Service" where
  "look_up_session req env sv =
     (case rq_sticky_key req of
        Some (c # cs) \<Rightarrow>
          if rq_sticky_kind req = Some CODEX_SESSION
          then (let sv1 = tn_others env 1 sv
                in case get_account_id (tn_lookup_now env) (c # cs) CODEX_SESSION (rq_sticky_max_age_seconds req) (db_sticky (sv_db sv1)) of
                     (found, rows) \<Rightarrow> (Some found, sv1\<lparr>sv_db := (sv_db sv1)\<lparr>db_sticky := rows\<rparr>\<rparr>))
          else (None, sv)
      | _ \<Rightarrow> (None, sv))"

definition hard_sticky :: "SelectRequest \<Rightarrow> string option option \<Rightarrow> bool" where
  "hard_sticky req existing =
     (rq_sticky_kind req = Some CODEX_SESSION \<and> (case existing of Some (Some i) \<Rightarrow> True | _ \<Rightarrow> False))"

definition sticky_select ::
  "SelectRequest \<Rightarrow> AccountConcurrencyCaps \<Rightarrow> TurnEnv \<Rightarrow> string option option \<Rightarrow> BudgetArgs \<Rightarrow> string set \<Rightarrow> AccountState list
     \<Rightarrow> Service \<Rightarrow> SelectionResult result \<times> string option \<times> AccountState list \<times> Service" where
  "sticky_select req caps env existing b ids states sv =
     (let fits = (if hard_sticky req existing then (\<lambda>st. True)
                  else below_cap (rq_lease_kind req) caps (rq_stream_reserve_slots req))
      in if filter fits states = [] \<and> states \<noteq> []
         then (Inr (cap_refusal req caps), account_cap_error_code (rq_lease_kind req), states, sv)
         else (let sv1 = tn_others env 2 sv;
                   args = \<lparr>sk_key = rq_sticky_key req, sk_kind = rq_sticky_kind req, sk_reallocate = rq_reallocate_sticky req,
                           sk_max_age_seconds = rq_sticky_max_age_seconds req, sk_existing = existing, sk_budget = b\<rparr>;
                   senv = (tn_sticky env)\<lparr>se_accounts := fst ` set (db_accounts (sv_db sv1))\<rparr>
               in case select_with_stickiness senv args ids
                         \<lparr>run_states = filter fits states, run_salts = sv_salts sv1, run_rows = db_sticky (sv_db sv1)\<rparr> of
                    (r, run) \<Rightarrow>
                      (r, None, merge_back fits states (run_states run),
                       sv1\<lparr>sv_salts := run_salts run, sv_db := (sv_db sv1)\<lparr>db_sticky := run_rows run\<rparr>\<rparr>)))"

definition end_sticky_turn ::
  "TurnEnv \<Rightarrow> nat \<Rightarrow> bool \<Rightarrow> Pick \<Rightarrow> (string \<Rightarrow> Account option) \<Rightarrow> Service \<Rightarrow> turn_end \<times> Service" where
  "end_sticky_turn env attempt hard p amap sv =
     (case save_states env amap (pk_states p) (tn_others env 4 sv) of
        (saved, sv1) \<Rightarrow>
          (case saved of
             Inl e \<Rightarrow> (Raised e, release_in (pk_lease p) (tn_others env 5 sv1))
           | Inr stale \<Rightarrow>
               (let sv2 = tn_others env 5 sv1
                in if stale_pick p stale
                   then (let sv3 = release_in (pk_lease p) (tn_others env 6 sv2)
                         in if attempt \<ge> MAX_SELECTION_ATTEMPTS then (Finished (given_up p), sv3) else (Again, sv3))
                   else if pk_snapshot p = None \<and> pk_code p \<noteq> None \<and> \<not> hard \<and> attempt < MAX_SELECTION_ATTEMPTS
                   then (Again, sv2)
                   else (Finished p, sv2))))"

definition sticky_turn ::
  "ServiceSettings \<Rightarrow> SelectRequest \<Rightarrow> AccountConcurrencyCaps \<Rightarrow> TurnEnv \<Rightarrow> nat \<Rightarrow> SelectionInputs \<Rightarrow> Service
     \<Rightarrow> turn_end \<times> Service" where
  "sticky_turn sg req caps env attempt inputs sv0 =
     (let sv = tn_others env 0 sv0;
          accs = si_accounts inputs;
          amap = account_map_of accs
      in case prepare sg (tn_reclaim_time env) (tn_clocks env) inputs (sv_runtime sv) of
           (states, table) \<Rightarrow>
             (let costs = effective_routing_costs sg req (tn_planner_now env) inputs states
              in case look_up_session req env (sv\<lparr>sv_runtime := table\<rparr>) of
                   (existing, sv1) \<Rightarrow>
                     (case sticky_select req caps env existing (turn_budget req costs) (acc_id ` set accs) states sv1 of
                        (r, err, states1, sv2) \<Rightarrow>
                          (case r of
                             Inl e \<Rightarrow> (Raised e, sv2)
                           | Inr result \<Rightarrow>
                               (let sv3 = tn_others env 3 sv2
                                in case settle_pick req caps env True amap states1 result err (sv_runtime sv3) of
                                     (p, table1) \<Rightarrow>
                                       end_sticky_turn env attempt (hard_sticky req existing) p amap
                                         (sv3\<lparr>sv_runtime := table1\<rparr>))))))"

definition turn ::
  "ServiceSettings \<Rightarrow> SelectRequest \<Rightarrow> AccountConcurrencyCaps \<Rightarrow> TurnEnv \<Rightarrow> nat \<Rightarrow> SelectionInputs \<Rightarrow> Service
     \<Rightarrow> turn_end \<times> Service" where
  "turn sg req caps env attempt inputs sv =
     (if rq_sticky_key req = None then plain_turn sg req caps env attempt inputs sv
      else sticky_turn sg req caps env attempt inputs sv)"

section \<open>The call\<close>

definition format_degraded_error_message :: "string option \<Rightarrow> DegradationManager \<Rightarrow> string" where
  "format_degraded_error_message msg m =
     or_list (default_to msg []) ''Upstream unavailable'' @ ''. Service is operating in degraded mode: ''
       @ or_list (default_to (dm_reason m) []) ''upstream capacity is currently unavailable''"

definition finish :: "SelectRequest \<Rightarrow> Pick \<Rightarrow> Service \<Rightarrow> AccountSelection \<times> Service" where
  "finish req p sv =
     (case pk_snapshot p of
        Some acc \<Rightarrow> (\<lparr>as_account = Some acc, as_error_message = None, as_error_code = None, as_lease = pk_lease p\<rparr>, sv)
      | None \<Rightarrow>
          if traffic_class (base_args (rq_budget req)) = opportunistic \<and> given (pk_message p)
          then (no_selection (pk_message p) (Some OPPORTUNISTIC_BURN_WINDOW_CLOSED), sv)
          else if pk_message p = Some ''No available accounts''
          then (let m = set_degraded (Some ''all upstream accounts are unavailable'') (sv_degradation sv)
                in (no_selection (Some (format_degraded_error_message (pk_message p) m)) (pk_code p), sv\<lparr>sv_degradation := m\<rparr>))
          else (no_selection (pk_message p) (pk_code p), sv))"

lemma end_plain_again:
  "end_plain_turn env attempt p amap sv = (Again, sv') \<Longrightarrow> attempt < MAX_SELECTION_ATTEMPTS"
  by (auto simp: end_plain_turn_def Let_def split: prod.splits sum.splits if_splits)

lemma end_sticky_again:
  "end_sticky_turn env attempt hard p amap sv = (Again, sv') \<Longrightarrow> attempt < MAX_SELECTION_ATTEMPTS"
  by (auto simp: end_sticky_turn_def Let_def split: prod.splits sum.splits if_splits)

lemma turn_again: "turn sg req caps env attempt inputs sv = (Again, sv') \<Longrightarrow> attempt < MAX_SELECTION_ATTEMPTS"
  by (auto simp: turn_def plain_turn_def sticky_turn_def Let_def split: prod.splits sum.splits if_splits
      dest: end_plain_again end_sticky_again)

function take_turns ::
  "ServiceSettings \<Rightarrow> SelectRequest \<Rightarrow> AccountConcurrencyCaps \<Rightarrow> (nat \<Rightarrow> TurnEnv) \<Rightarrow> nat \<Rightarrow> SelectionInputs \<Rightarrow> Service
     \<Rightarrow> AccountSelection result \<times> Service" where
  "take_turns sg req caps envs attempt inputs sv =
     (case turn sg req caps (envs attempt) attempt inputs sv of
        (Raised e, sv1) \<Rightarrow> (Inl e, sv1)
      | (Finished p, sv1) \<Rightarrow> (case finish req p sv1 of (sel, sv2) \<Rightarrow> (Inr sel, sv2))
      | (Again, sv1) \<Rightarrow>
          (case load_inputs sg (tn_reload (envs attempt)) (rq_load req) sv1 of
             (Inl e, sv2) \<Rightarrow> (Inl e, sv2)
           | (Inr raw, sv2) \<Rightarrow>
               (let inputs' = scope_inputs req raw
                in if unserved inputs' then (Inr (no_selection (si_error_message inputs') (si_error_code inputs')), sv2)
                   else take_turns sg req caps envs (attempt + 1) inputs' sv2)))"
  by pat_completeness auto

termination take_turns
  by (relation "measure (\<lambda>(sg, req, caps, envs, attempt, inputs, sv). MAX_SELECTION_ATTEMPTS - attempt)")
    (auto dest!: turn_again [OF sym])

declare take_turns.simps [simp del]

definition is_upstream_circuit_breaker_open :: "ServiceSettings \<Rightarrow> CallEnv \<Rightarrow> bool" where
  "is_upstream_circuit_breaker_open sg env =
     (sg_circuit_breaker_enabled sg \<and> are_all_account_circuit_breakers_open (ce_breaker_time env) (ce_breakers env))"

definition note_service_level :: "bool \<Rightarrow> SelectionInputs \<Rightarrow> DegradationManager \<Rightarrow> DegradationManager" where
  "note_service_level breaker_open inputs m =
     (if breaker_open then set_degraded (Some ''upstream circuit breaker is open'') m
      else if si_accounts inputs \<noteq> [] \<or> si_error_code inputs \<noteq> None then set_normal m else m)"

definition select_account_call ::
  "ServiceSettings \<Rightarrow> SelectRequest \<Rightarrow> CallEnv \<Rightarrow> Service \<Rightarrow> AccountSelection result \<times> Service" where
  "select_account_call sg req env sv =
     (case load_inputs sg (ce_first_load env) (rq_load req) sv of
        (Inl e, sv1) \<Rightarrow> (Inl e, sv1)
      | (Inr raw, sv1) \<Rightarrow>
          (let inputs = scope_inputs req raw;
               caps = default_to (rq_concurrency_caps req) (ce_effective_caps env);
               sv2 = sv1\<lparr>sv_degradation := note_service_level (is_upstream_circuit_breaker_open sg env) inputs (sv_degradation sv1)\<rparr>
           in if unserved inputs then (Inr (no_selection (si_error_message inputs) (si_error_code inputs)), sv2)
              else take_turns sg req caps (ce_turns env) 1 inputs sv2))"

section \<open>Opportunistic admission\<close>

definition probe_args :: "BudgetArgs \<Rightarrow> BudgetArgs" where
  "probe_args b =
     b\<lparr>base_args := default_args\<lparr>prefer_earlier_reset := prefer_earlier_reset (base_args b),
          prefer_earlier_reset_window := prefer_earlier_reset_window (base_args b),
          routing_strategy := routing_strategy (base_args b), deterministic_probe := True,
          traffic_class := opportunistic, args_ignore_standard_quota := False\<rparr>,
       apply_secondary_budget_threshold := True\<rparr>"

definition check_opportunistic_admission ::
  "ServiceSettings \<Rightarrow> SelectRequest \<Rightarrow> AccountConcurrencyCaps \<Rightarrow> LoadStep \<Rightarrow> TurnEnv \<Rightarrow> Service
     \<Rightarrow> AccountSelection result \<times> Service" where
  "check_opportunistic_admission sg req caps ld env sv =
     (case load_inputs sg ld (rq_load req) sv of
        (Inl e, sv1) \<Rightarrow> (Inl e, sv1)
      | (Inr inputs, sv1) \<Rightarrow>
          if unserved inputs then (Inr (no_selection (si_error_message inputs) (si_error_code inputs)), sv1)
          else
            (let sv2 = tn_others env 0 sv1
             in case prepare sg (tn_reclaim_time env) (tn_clocks env) inputs (sv_runtime sv2) of
                  (states, table) \<Rightarrow>
                    (let sv3 = sv2\<lparr>sv_runtime := table\<rparr>;
                         fitting = filter_states_for_account_caps states (rq_lease_kind req) caps (rq_stream_reserve_slots req)
                     in if fitting = [] \<and> states \<noteq> []
                        then (Inr (no_selection (Some ''opportunistic burn window closed: no account capacity available'')
                                     (Some OPPORTUNISTIC_BURN_WINDOW_CLOSED)), sv3)
                        else (case select_account_preferring_budget_safe (tn_select env) (probe_args (rq_budget req)) fitting (sv_salts sv3) of
                                (r, sub, salts) \<Rightarrow>
                                  (case r of
                                     Inl e \<Rightarrow> (Inl e, sv3\<lparr>sv_salts := salts\<rparr>)
                                   | Inr result \<Rightarrow>
                                       (Inr (case account result of
                                               None \<Rightarrow> no_selection (error_message result) (Some OPPORTUNISTIC_BURN_WINDOW_CLOSED)
                                             | Some chosen \<Rightarrow>
                                                 (case account_map_of (si_accounts inputs) (account_id chosen) of
                                                    None \<Rightarrow>
                                                      no_selection
                                                        (Some (or_list (default_to (error_message result) [])
                                                                 ''opportunistic burn window closed: no account available''))
                                                        (Some OPPORTUNISTIC_BURN_WINDOW_CLOSED)
                                                  | Some acc \<Rightarrow>
                                                      \<lparr>as_account = Some acc, as_error_message = None, as_error_code = None, as_lease = None\<rparr>)),
                                        sv3\<lparr>sv_salts := salts\<rparr>))))))"

section \<open>What a call may do to the service\<close>

text \<open>\<open>U\<close> are the lease identifiers that this call draws, \<open>H\<close> the leases of the call that may be
  outstanding. \<open>L\<close> are the readings of the database from which accounts may come: those of the loads of this call, and
  those from which other loads have filled the cache. The cache holds only inputs that a load computed from such a reading for
  the key they are stored under.\<close>

definition held :: "string set \<Rightarrow> runtime_table \<Rightarrow> AccountLease set" where
  "held U t = {l \<in> outstanding t. lease_id l \<in> U}"

definition cache_sound :: "BalancerSettings \<Rightarrow> LoadEnv set \<Rightarrow> SelectionCache \<Rightarrow> bool" where
  "cache_sound settings L c =
     (\<forall>(k, inputs, expires) \<in> set (sc_entries c).
        \<exists>env \<in> L. \<exists>args. inputs = compute_inputs settings env args \<and> k = cache_key_of env args)"

definition service_ok ::
  "ServiceSettings \<Rightarrow> AccountConcurrencyCaps \<Rightarrow> string set \<Rightarrow> LoadEnv set \<Rightarrow> AccountLease set \<Rightarrow> Service \<Rightarrow> bool" where
  "service_ok sg caps U L H sv =
     (table_inv (sv_runtime sv) \<and> caps_respected caps (sv_runtime sv) \<and> held U (sv_runtime sv) \<subseteq> H
      \<and> cache_sound (sg_balancer sg) L (sv_cache sv))"

text \<open>What the call relies on: other tasks keep the service in order, create no lease under an
  identifier of this call and cache nothing but what a reading of \<open>L\<close> gives.\<close>

definition rely :: "ServiceSettings \<Rightarrow> AccountConcurrencyCaps \<Rightarrow> string set \<Rightarrow> LoadEnv set \<Rightarrow> (Service \<Rightarrow> Service) \<Rightarrow> bool" where
  "rely sg caps U L f = (\<forall>H sv. service_ok sg caps U L H sv \<longrightarrow> service_ok sg caps U L H (f sv))"

definition load_rely :: "ServiceSettings \<Rightarrow> AccountConcurrencyCaps \<Rightarrow> string set \<Rightarrow> LoadEnv set \<Rightarrow> LoadStep \<Rightarrow> bool" where
  "load_rely sg caps U L ld = (ld_env ld \<in> L \<and> (\<forall>n. rely sg caps U L (ld_others ld n)))"

definition turn_rely :: "ServiceSettings \<Rightarrow> AccountConcurrencyCaps \<Rightarrow> string set \<Rightarrow> LoadEnv set \<Rightarrow> TurnEnv \<Rightarrow> bool" where
  "turn_rely sg caps U L env =
     ((\<forall>n. rely sg caps U L (tn_others env n)) \<and> load_rely sg caps U L (tn_reload env) \<and> tn_uuid env \<in> U)"

lemma rely_ok: "rely sg caps U L f \<Longrightarrow> service_ok sg caps U L H sv \<Longrightarrow> service_ok sg caps U L H (f sv)"
  by (simp add: rely_def)

lemma turn_rely_ok: "turn_rely sg caps U L env \<Longrightarrow> service_ok sg caps U L H sv \<Longrightarrow> service_ok sg caps U L H (tn_others env n sv)"
  by (simp add: turn_rely_def rely_ok)

lemma service_ok_frame [simp]:
  "service_ok sg caps U L H (sv\<lparr>sv_db := db\<rparr>) = service_ok sg caps U L H sv"
  "service_ok sg caps U L H (sv\<lparr>sv_salts := salts\<rparr>) = service_ok sg caps U L H sv"
  "service_ok sg caps U L H (sv\<lparr>sv_degradation := m\<rparr>) = service_ok sg caps U L H sv"
  "service_ok sg caps U L H (sv\<lparr>sv_runtime := t, sv_salts := salts\<rparr>) = service_ok sg caps U L H (sv\<lparr>sv_runtime := t\<rparr>)"
  "service_ok sg caps U L H (sv\<lparr>sv_salts := salts, sv_db := db\<rparr>) = service_ok sg caps U L H sv"
  by (simp_all add: service_ok_def)

subsection \<open>Quiet changes of the runtime table\<close>

text \<open>A quiet change adds no lease and raises no counter.\<close>

definition quiet :: "runtime_table \<Rightarrow> runtime_table \<Rightarrow> bool" where
  "quiet t t' = (table_inv t \<longrightarrow> table_inv t' \<and> outstanding t' \<subseteq> outstanding t \<and> shrinks t t')"

lemma quiet_refl [simp]: "quiet t t"
  by (simp add: quiet_def)

lemma quiet_trans: "quiet t u \<Longrightarrow> quiet u v \<Longrightarrow> quiet t v"
  unfolding quiet_def by (blast intro: shrinks_trans)

lemma quiet_ok: "quiet (sv_runtime sv) t \<Longrightarrow> service_ok sg caps U L H sv \<Longrightarrow> service_ok sg caps U L H (sv\<lparr>sv_runtime := t\<rparr>)"
  by (auto simp: quiet_def service_ok_def held_def intro: caps_shrinks)

lemma quiet_reclaim: "quiet t (reclaim_stale_account_leases_locked ls now t)"
  by (auto simp: quiet_def reclaim_spec)

lemma quiet_prune: "quiet t (prune_runtime ids t)"
  by (auto simp: quiet_def prune_spec)

lemma quiet_setdefault: "quiet t (runtime_setdefault k t)"
  by (simp add: quiet_def table_inv_setdefault shrinks_def)

lemma quiet_release: "quiet t (release_account_lease l t)"
  by (cases l) (auto simp: quiet_def release_account_lease_def release_locked_spec)

text \<open>An entry that is rewritten with the same leases and counters.\<close>

definition same_leases :: "RuntimeState \<Rightarrow> RuntimeState \<Rightarrow> bool" where
  "same_leases rt rt' =
     (rt_leases rt' = rt_leases rt \<and> (\<forall>kind. inflight kind rt' = inflight kind rt) \<and> rt_leased_tokens rt' = rt_leased_tokens rt)"

lemma quiet_update:
  assumes "same_leases (runtime_get k t) rt"
  shows "quiet t (AList.update k rt t)"
  unfolding quiet_def
proof (intro impI conjI)
  assume t: "table_inv t"
  note o = other_step [OF t refl, of rt k]
  show t': "table_inv (AList.update k rt t)" and "shrinks t (AList.update k rt t)"
    using assms o by (simp_all add: same_leases_def)
  have "entry_inv k rt" using entry_inv_get [OF t', of k] by (simp add: runtime_get_def update_conv)
  moreover have "own_leases rt = own_leases (runtime_get k t)"
    using assms by (simp add: own_leases_def lease_list_def same_leases_def)
  ultimately show "outstanding (AList.update k rt t) \<subseteq> outstanding t"
    by (auto simp: outstanding_update [OF t] own_leases_get [OF t])
qed

lemma flight_update:
  assumes "same_leases (runtime_get k t) rt"
  shows "inflight kind (runtime_get j (AList.update k rt t)) = inflight kind (runtime_get j t)"
  using assms by (auto simp: runtime_get_def update_conv same_leases_def)

subsection \<open>Preparing the states\<close>

lemma build_state_entry:
  "\<exists>rt. snd (build_state settings clk rows t acc) = AList.update (acc_id acc) rt t \<and> same_leases (runtime_get (acc_id acc) t) rt"
proof -
  obtain se where se: "snd (build_state settings clk rows t acc) = AList.update (acc_id acc)
      (snd (state_from_account settings clk acc (latest_primary rows (acc_id acc)) se (runtime_get (acc_id acc) t))) t"
    using build_state_table by blast
  obtain s u v where "snd (state_from_account settings clk acc (latest_primary rows (acc_id acc)) se (runtime_get (acc_id acc) t))
      = update_tier settings clk acc s u v (runtime_get (acc_id acc) t)"
    using state_from_account_runtime by blast
  then show ?thesis using se by (auto simp: same_leases_def)
qed

lemma build_state_quiet: "quiet t (snd (build_state settings clk rows t acc))"
  using build_state_entry quiet_update by metis

lemma build_state_flight:
  "inflight kind (runtime_get j (snd (build_state settings clk rows t acc))) = inflight kind (runtime_get j t)"
  using build_state_entry flight_update by metis

text \<open>The counter of a state for a kind of lease.\<close>

definition state_inflight :: "AccountLeaseKind \<Rightarrow> AccountState \<Rightarrow> int" where
  "state_inflight kind st = (case kind of response_create \<Rightarrow> inflight_response_creates st | stream \<Rightarrow> inflight_streams st)"

lemma state_inflight_frame [simp]:
  "state_inflight kind (st\<lparr>routing_policy := p\<rparr>) = state_inflight kind st"
  "state_inflight kind (st\<lparr>ignore_standard_quota := b\<rparr>) = state_inflight kind st"
  by (cases kind; simp add: state_inflight_def)+

lemma state_from_account_flight:
  "state_inflight kind (fst (state_from_account settings clk acc pe se rt)) = inflight kind rt"
  "account_id (fst (state_from_account settings clk acc pe se rt)) = acc_id acc"
proof -
  have "inflight_response_creates (fst (state_from_account settings clk acc pe se rt)) = inflight response_create rt"
    "inflight_streams (fst (state_from_account settings clk acc pe se rt)) = inflight stream rt"
    unfolding state_from_account_def Let_def case_prod_beta
    using update_tier_frame(2) [where kind = response_create] update_tier_frame(2) [where kind = stream]
    by (simp_all add: inflight_def)
  then show "state_inflight kind (fst (state_from_account settings clk acc pe se rt)) = inflight kind rt"
    by (cases kind) (simp_all add: state_inflight_def)
  show "account_id (fst (state_from_account settings clk acc pe se rt)) = acc_id acc"
    unfolding state_from_account_def Let_def case_prod_beta by (simp add: new_account_def)
qed

lemma build_state_counts:
  "state_inflight kind (fst (build_state settings clk rows t acc)) = inflight kind (runtime_get (acc_id acc) t)"
  "account_id (fst (build_state settings clk rows t acc)) = acc_id acc"
  by (simp_all add: build_state_def Let_def case_prod_beta state_from_account_flight split: option.split)

lemma build_states_quiet: "quiet t (snd (build_states settings clks rows t accs))"
proof (induction accs arbitrary: t clks)
  case (Cons acc accs)
  then show ?case using build_state_quiet quiet_trans by (simp add: case_prod_beta) blast
qed simp

lemma build_states_flight:
  "inflight kind (runtime_get j (snd (build_states settings clks rows t accs))) = inflight kind (runtime_get j t)"
  by (induction accs arbitrary: t clks) (simp_all add: case_prod_beta build_state_flight)

lemma build_states_counts:
  "st \<in> set (fst (build_states settings clks rows t accs))
     \<Longrightarrow> state_inflight kind st = inflight kind (runtime_get (account_id st) t)"
proof (induction accs arbitrary: t clks)
  case (Cons acc accs)
  then show ?case by (auto simp: case_prod_beta build_state_counts build_state_flight)
qed simp

lemma build_states_ids: "map account_id (fst (build_states settings clks rows t accs)) = map acc_id accs"
  by (induction accs arbitrary: t clks) (simp_all add: case_prod_beta build_state_counts)

lemma prepare_quiet: "prepare sg now clks inputs t = (states, t') \<Longrightarrow> quiet t t'"
  unfolding prepare_def
  by (metis build_states_quiet quiet_prune quiet_reclaim quiet_trans snd_conv)

lemma prepare_ids: "prepare sg now clks inputs t = (states, t') \<Longrightarrow> map account_id states = map acc_id (si_accounts inputs)"
  unfolding prepare_def by (metis build_states_ids fst_conv)

lemma prepare_counts:
  "prepare sg now clks inputs t = (states, t') \<Longrightarrow> st \<in> set states
     \<Longrightarrow> state_inflight kind st = inflight kind (runtime_get (account_id st) t')"
  unfolding prepare_def by (metis build_states_counts build_states_flight fst_conv snd_conv)

subsection \<open>Settling a pick\<close>

lemma sync_entry_same: "same_leases rt (snd (sync_runtime_entry now acc st sel ver rt))"
  unfolding same_leases_def
proof (intro conjI allI)
  show "inflight kind (snd (sync_runtime_entry now acc st sel ver rt)) = inflight kind rt" for kind
    by (cases kind) (simp_all add: sync_runtime_entry_def Let_def inflight_def)
qed (simp_all add: sync_runtime_entry_def Let_def)

lemma sync_state_table:
  "snd (sync_runtime_state now acc st sel ver t)
     = AList.update (acc_id acc) (snd (sync_runtime_entry now acc st sel ver (runtime_get (acc_id acc) t))) t"
  by (simp add: sync_runtime_state_def update_setdefault split: prod.split)

lemma sync_states_quiet: "sync_states now amap chosen sts t = (synced, t') \<Longrightarrow> quiet t t'"
proof (induction sts arbitrary: t synced)
  case (Cons st sts)
  show ?case
  proof (cases "amap (account_id st)")
    case None
    then show ?thesis using Cons by simp
  next
    case (Some acc)
    have "quiet t (snd (sync_runtime_state (now (account_id st)) acc st (chosen = Some (account_id st)) None t))"
      unfolding sync_state_table by (rule quiet_update [OF sync_entry_same])
    then show ?thesis using Some Cons quiet_trans by (auto split: prod.splits)
  qed
qed simp

lemma sync_states_flight:
  "sync_states now amap chosen sts t = (synced, t') \<Longrightarrow> inflight kind (runtime_get j t') = inflight kind (runtime_get j t)"
proof (induction sts arbitrary: t synced)
  case (Cons st sts)
  show ?case
  proof (cases "amap (account_id st)")
    case None
    then show ?thesis using Cons by simp
  next
    case (Some acc)
    have "inflight kind (runtime_get j (snd (sync_runtime_state (now (account_id st)) acc st (chosen = Some (account_id st)) None t)))
        = inflight kind (runtime_get j t)"
      unfolding sync_state_table by (rule flight_update [OF sync_entry_same])
    then show ?thesis using Some Cons by (auto split: prod.splits)
  qed
qed simp

lemma account_map_member: "account_map_of accs i = Some a \<Longrightarrow> a \<in> set accs \<and> acc_id a = i"
  by (auto simp: account_map_of_def dest: map_of_SomeD)

text \<open>The cap leaves room for one more lease.\<close>

definition has_room :: "AccountConcurrencyCaps \<Rightarrow> AccountLeaseKind \<Rightarrow> int \<Rightarrow> string \<Rightarrow> runtime_table \<Rightarrow> bool" where
  "has_room caps kind reserve i t =
     (cap_of caps kind \<le> 0 \<or> inflight kind (runtime_get i t) < effective_cap caps kind reserve)"

lemma has_room_cap: "has_room caps kind reserve i t \<Longrightarrow> cap_of caps kind \<le> 0 \<or> inflight kind (runtime_get i t) < cap_of caps kind"
  using effective_cap_le [of caps kind reserve] unfolding has_room_def by linarith

text \<open>A pick names an account of the inputs and comes with the lease that was asked for.\<close>

definition pick_ok :: "SelectRequest \<Rightarrow> Account list \<Rightarrow> Pick \<Rightarrow> bool" where
  "pick_ok req accs p =
     (case pk_snapshot p of
        None \<Rightarrow> pk_lease p = None
      | Some acc \<Rightarrow>
          (\<exists>a \<in> set accs. \<exists>st reset. acc = snapshot_of a st reset)
          \<and> (case rq_lease_kind req of
               None \<Rightarrow> pk_lease p = None
             | Some kind \<Rightarrow> (\<exists>l. pk_lease p = Some l \<and> lease_account_id l = acc_id acc \<and> lease_kind l = kind)))"

lemma take_lease_ok:
  assumes "service_ok sg caps U L {} sv" "tn_uuid env \<in> U"
    and "\<And>kind. rq_lease_kind req = Some kind \<Longrightarrow> has_room caps kind reserve i (sv_runtime sv)"
    and "take_lease req env i (sv_runtime sv) = (l, t)"
  shows "service_ok sg caps U L (set_option l) (sv\<lparr>sv_runtime := t\<rparr>)"
    and "case rq_lease_kind req of None \<Rightarrow> l = None
         | Some kind \<Rightarrow> (\<exists>l'. l = Some l' \<and> lease_account_id l' = i \<and> lease_kind l' = kind)"
proof -
  note ok = assms(1) [unfolded service_ok_def]
  have "service_ok sg caps U L (set_option l) (sv\<lparr>sv_runtime := t\<rparr>)
      \<and> (case rq_lease_kind req of None \<Rightarrow> l = None
         | Some kind \<Rightarrow> (\<exists>l'. l = Some l' \<and> lease_account_id l' = i \<and> lease_kind l' = kind))"
  proof (cases "rq_lease_kind req")
    case None
    then show ?thesis using assms(1,4) by (auto simp: take_lease_def)
  next
    case (Some kind)
    obtain l' where a: "acquire_account_lease_locked (tn_uuid env) (tn_monotonic env) (tn_time env) i kind
        (rq_estimated_lease_tokens req) (sv_runtime sv) = (l', t)" and l: "l = Some l'"
      using assms(4) Some by (auto simp: take_lease_def split: prod.splits)
    have fresh: "tn_uuid env \<notin> lease_id ` outstanding (sv_runtime sv)"
      using ok assms(2) by (auto simp: held_def)
    note spec = acquire_locked_spec(1,2) [OF conjunct1 [OF ok] fresh a]
    have "caps_respected caps t"
      using caps_acquire_locked [OF _ fresh, of caps kind i "tn_monotonic env" "tn_time env" "rq_estimated_lease_tokens req"]
        ok has_room_cap [OF assms(3) [OF Some]] a by simp
    moreover have "held U t \<subseteq> {l'}" using spec(2) ok by (auto simp: held_def)
    moreover have "lease_account_id l' = i" "lease_kind l' = kind"
      using a by (auto simp: acquire_account_lease_locked_def Let_def)
    ultimately show ?thesis using spec(1) ok Some l by (simp add: service_ok_def)
  qed
  then show "service_ok sg caps U L (set_option l) (sv\<lparr>sv_runtime := t\<rparr>)"
    and "case rq_lease_kind req of None \<Rightarrow> l = None
         | Some kind \<Rightarrow> (\<exists>l'. l = Some l' \<and> lease_account_id l' = i \<and> lease_kind l' = kind)"
    by blast+
qed

lemma snapshot_id [simp]: "acc_id (snapshot_of a st reset) = acc_id a"
  by (simp add: snapshot_of_def)

lemma allowed_room:
  "account_lease_allowed_locked i kind caps reserve t = (True, t') \<Longrightarrow> t' = runtime_setdefault i t \<and> has_room caps kind reserve i t'"
  by (auto simp: account_lease_allowed_locked_def Let_def has_room_def)

lemma allowed_table: "account_lease_allowed_locked i kind caps reserve t = (b, t') \<Longrightarrow> t' = runtime_setdefault i t"
  by (auto simp: account_lease_allowed_locked_def Let_def)

lemma ask_room_quiet: "ask_room req caps recheck i t = (b, t') \<Longrightarrow> quiet t t'"
  by (auto simp: ask_room_def quiet_setdefault dest: allowed_table split: option.splits if_splits)

lemma ask_room_granted:
  assumes "ask_room req caps recheck i t = (True, t')" "rq_lease_kind req = Some kind"
    "\<not> recheck \<Longrightarrow> has_room caps kind (rq_stream_reserve_slots req) i t"
  shows "has_room caps kind (rq_stream_reserve_slots req) i t'"
  using assms by (auto simp: ask_room_def dest: allowed_room split: if_splits)

lemma settle_pick_ok:
  assumes ok: "service_ok sg caps U L {} sv" and uuid: "tn_uuid env \<in> U"
    and room: "\<And>chosen kind. \<not> recheck \<Longrightarrow> account result = Some chosen \<Longrightarrow> rq_lease_kind req = Some kind
        \<Longrightarrow> has_room caps kind (rq_stream_reserve_slots req) (account_id chosen) (sv_runtime sv)"
    and pick: "settle_pick req caps env recheck (account_map_of accs) states result err (sv_runtime sv) = (p, t)"
  shows "service_ok sg caps U L (set_option (pk_lease p)) (sv\<lparr>sv_runtime := t\<rparr>) \<and> pick_ok req accs p"
proof -
  obtain synced t1 where s: "sync_states (tn_sync_time env) (account_map_of accs) (map_option account_id (account result))
      states (sv_runtime sv) = (synced, t1)" by fastforce
  note q1 = sync_states_quiet [OF s]
  note pick' = pick [unfolded settle_pick_def s prod.case]
  have ok1: "service_ok sg caps U L {} (sv\<lparr>sv_runtime := t1\<rparr>)" by (rule quiet_ok [OF q1 ok])
  show ?thesis
  proof (cases "account result")
    case None
    then show ?thesis using pick' ok1 by (auto simp: pick_ok_def)
  next
    case chosen: (Some chosen)
    show ?thesis
    proof (cases "account_map_of accs (account_id chosen)")
      case None
      then show ?thesis using pick' ok1 chosen by (auto simp: pick_ok_def)
    next
      case (Some acc)
      then have acc: "acc \<in> set accs" "acc_id acc = account_id chosen" using account_map_member by auto
      obtain reset marked where m: "adopt_status chosen (acc_reset_at acc) synced = (reset, marked)" by fastforce
      obtain allowed t2 where a: "ask_room req caps recheck (acc_id acc) t1 = (allowed, t2)" by fastforce
      have ok2: "service_ok sg caps U L {} (sv\<lparr>sv_runtime := t2\<rparr>)"
        using quiet_ok [OF quiet_trans [OF q1 ask_room_quiet [OF a]] ok] .
      note unfolded = pick' [unfolded chosen option.case Some m a prod.case]
      show ?thesis
      proof (cases allowed)
        case False
        then show ?thesis using unfolded ok2 by (auto simp: pick_ok_def)
      next
        case True
        obtain l t3 where l: "take_lease req env (acc_id acc) t2 = (l, t3)" by fastforce
        have p: "p = \<lparr>pk_snapshot = Some (snapshot_of acc chosen reset), pk_message = None, pk_code = err, pk_lease = l, pk_states = marked\<rparr>"
          "t = t3" using unfolded True l by auto
        have room2: "has_room caps kind (rq_stream_reserve_slots req) (acc_id acc) t2" if k: "rq_lease_kind req = Some kind" for kind
        proof (rule ask_room_granted [OF _ k])
          show "ask_room req caps recheck (acc_id acc) t1 = (True, t2)" using a True by simp
          show "has_room caps kind (rq_stream_reserve_slots req) (acc_id acc) t1" if "\<not> recheck"
            using room [OF that chosen k] sync_states_flight [OF s, of kind "acc_id acc"] acc(2) by (simp add: has_room_def)
        qed
        have "take_lease req env (acc_id acc) (sv_runtime (sv\<lparr>sv_runtime := t2\<rparr>)) = (l, t3)" using l by simp
        note taken = take_lease_ok [OF ok2 uuid _ this, of "rq_stream_reserve_slots req"]
        have "service_ok sg caps U L (set_option l) (sv\<lparr>sv_runtime := t3\<rparr>)"
          using taken(1) room2 by simp
        moreover have "pick_ok req accs p"
          unfolding p(1) pick_ok_def using taken(2) room2 acc(1) by (auto split: option.splits)
        ultimately show ?thesis unfolding p by simp
      qed
    qed
  qed
qed

lemma release_in_ok: "service_ok sg caps U L (set_option l) sv \<Longrightarrow> service_ok sg caps U L {} (release_in l sv)"
proof (cases l)
  case (Some x)
  assume ok: "service_ok sg caps U L (set_option l) sv"
  then have t: "table_inv (sv_runtime sv)" by (simp add: service_ok_def)
  have "service_ok sg caps U L (set_option l) (release_in l sv)"
    unfolding release_in_def by (rule quiet_ok [OF quiet_release ok])
  moreover have "x \<notin> outstanding (sv_runtime (release_in l sv))"
    by (simp add: release_in_def release_account_lease_def Some release_locked_spec(2) [OF t])
  ultimately show ?thesis by (auto simp: service_ok_def held_def Some)
qed (simp add: release_in_def release_account_lease_def)

lemma save_states_ok:
  "save_states env amap sts sv = (r, sv') \<Longrightarrow> service_ok sg caps U L H sv' = service_ok sg caps U L H sv"
  by (auto simp: save_states_def split: option.splits prod.splits)

subsection \<open>One turn\<close>

definition turn_ok ::
  "ServiceSettings \<Rightarrow> AccountConcurrencyCaps \<Rightarrow> string set \<Rightarrow> LoadEnv set \<Rightarrow> SelectRequest \<Rightarrow> Account list \<Rightarrow> turn_end \<times> Service \<Rightarrow> bool" where
  "turn_ok sg caps U L req accs out =
     (case fst out of
        Finished p \<Rightarrow> service_ok sg caps U L (set_option (pk_lease p)) (snd out) \<and> pick_ok req accs p
      | _ \<Rightarrow> service_ok sg caps U L {} (snd out))"

lemma turn_ok_simps [simp]:
  "turn_ok sg caps U L req accs (Raised e, sv) = service_ok sg caps U L {} sv"
  "turn_ok sg caps U L req accs (Again, sv) = service_ok sg caps U L {} sv"
  "turn_ok sg caps U L req accs (Finished p, sv) = (service_ok sg caps U L (set_option (pk_lease p)) sv \<and> pick_ok req accs p)"
  by (simp_all add: turn_ok_def)

lemma given_up_ok [simp]: "pick_ok req accs (given_up p)" "pk_lease (given_up p) = None"
  by (simp_all add: given_up_def pick_ok_def)

lemma pick_without_lease: "pick_ok req accs p \<Longrightarrow> pk_snapshot p = None \<Longrightarrow> pk_lease p = None"
  by (simp add: pick_ok_def)

text \<open>Saving the states changes the database only.\<close>

lemma saved_ok:
  assumes "turn_rely sg caps U L env" "service_ok sg caps U L H sv" "save_states env amap sts (tn_others env n sv) = (saved, sv1)"
  shows "service_ok sg caps U L H (tn_others env m sv1)"
  using assms by (metis turn_rely_ok save_states_ok)

lemma end_plain_turn_ok:
  assumes r: "turn_rely sg caps U L env" and ok: "service_ok sg caps U L (set_option (pk_lease p)) sv" and p: "pick_ok req accs p"
  shows "turn_ok sg caps U L req accs (end_plain_turn env attempt p amap sv)"
proof -
  obtain saved sv1 where s: "save_states env amap (pk_states p) (tn_others env 1 sv) = (saved, sv1)" by fastforce
  note ok2 = saved_ok [OF r ok s, of 2]
  note rel2 = release_in_ok [OF ok2] and rel3 = release_in_ok [OF turn_rely_ok [OF r ok2, of 3]]
  show ?thesis
    unfolding end_plain_turn_def s prod.case
    using ok2 rel2 rel3 p pick_without_lease [OF p] by (auto simp: Let_def split: sum.split)
qed

lemma end_sticky_turn_ok:
  assumes r: "turn_rely sg caps U L env" and ok: "service_ok sg caps U L (set_option (pk_lease p)) sv" and p: "pick_ok req accs p"
  shows "turn_ok sg caps U L req accs (end_sticky_turn env attempt hard p amap sv)"
proof -
  obtain saved sv1 where s: "save_states env amap (pk_states p) (tn_others env 4 sv) = (saved, sv1)" by fastforce
  note ok2 = saved_ok [OF r ok s, of 5]
  note rel2 = release_in_ok [OF ok2] and rel3 = release_in_ok [OF turn_rely_ok [OF r ok2, of 6]]
  show ?thesis
    unfolding end_sticky_turn_def s prod.case
    using ok2 rel2 rel3 p pick_without_lease [OF p] by (auto simp: Let_def split: sum.split)
qed

lemma below_cap_iff:
  "below_cap kind caps reserve st
     \<longleftrightarrow> (\<forall>k. kind = Some k \<longrightarrow> cap_of caps k \<le> 0 \<or> state_inflight k st < effective_cap caps k reserve)"
  by (cases kind) (auto simp: below_cap_def filter_states_for_account_caps_def state_inflight_def split: AccountLeaseKind.splits)

lemma plain_select_room:
  assumes "prepare sg now clks inputs t = (states, t')"
    and "plain_select req caps env b states salts = (Inr result, err, states1, salts')"
    and "account result = Some chosen" "rq_lease_kind req = Some kind"
  shows "has_room caps kind (rq_stream_reserve_slots req) (account_id chosen) t'"
proof -
  define fits where "fits = below_cap (rq_lease_kind req) caps (rq_stream_reserve_slots req)"
  have "\<not> (filter fits states = [] \<and> states \<noteq> [])"
    using assms(2,3) unfolding plain_select_def fits_def [symmetric] Let_def by (auto simp: cap_refusal_def split: if_splits)
  then have "fst (select_account_preferring_budget_safe (tn_select env) b (filter fits states) salts) = Inr result"
    using assms(2) unfolding plain_select_def fits_def [symmetric] Let_def by (auto split: prod.splits)
  then have "account_id chosen \<in> account_id ` set (filter fits states)"
    using good_budget_select [of "tn_select env" b "filter fits states" salts] assms(3) by (simp add: good_outcome_def)
  then obtain st where st: "st \<in> set states" "fits st" "account_id st = account_id chosen" by auto
  then show ?thesis
    using prepare_counts [OF assms(1) st(1), of kind] assms(4) by (simp add: fits_def below_cap_iff has_room_def)
qed

lemma plain_turn_ok:
  assumes r: "turn_rely sg caps U L env" and ok: "service_ok sg caps U L {} sv"
  shows "turn_ok sg caps U L req (si_accounts inputs) (plain_turn sg req caps env attempt inputs sv)"
proof -
  define sv0 where "sv0 = tn_others env 0 sv"
  have ok0: "service_ok sg caps U L {} sv0" unfolding sv0_def by (rule turn_rely_ok [OF r ok])
  obtain states t where prep: "prepare sg (tn_reclaim_time env) (tn_clocks env) inputs (sv_runtime sv0) = (states, t)" by fastforce
  have ok1: "service_ok sg caps U L {} (sv0\<lparr>sv_runtime := t\<rparr>)" by (rule quiet_ok [OF prepare_quiet [OF prep] ok0])
  define b where "b = choose_args False (turn_budget req (effective_routing_costs sg req (tn_planner_now env) inputs states))"
  obtain res err states1 salts where sel: "plain_select req caps env b states (sv_salts sv0) = (res, err, states1, salts)"
    by (metis prod_cases4)
  show ?thesis
  proof (cases res)
    case (Inl e)
    then show ?thesis
      using ok1 sel unfolding plain_turn_def Let_def sv0_def [symmetric] prep prod.case b_def [symmetric] by simp
  next
    case (Inr result)
    obtain p t1 where p: "settle_pick req caps env False (account_map_of (si_accounts inputs)) states1 result err t = (p, t1)"
      by fastforce
    have "service_ok sg caps U L (set_option (pk_lease p)) (sv0\<lparr>sv_runtime := t, sv_runtime := t1\<rparr>) \<and> pick_ok req (si_accounts inputs) p"
    proof (rule settle_pick_ok [OF ok1])
      show "tn_uuid env \<in> U" using r by (simp add: turn_rely_def)
      show "settle_pick req caps env False (account_map_of (si_accounts inputs)) states1 result err
          (sv_runtime (sv0\<lparr>sv_runtime := t\<rparr>)) = (p, t1)" using p by simp
      show "has_room caps kind (rq_stream_reserve_slots req) (account_id chosen) (sv_runtime (sv0\<lparr>sv_runtime := t\<rparr>))"
        if "account result = Some chosen" "rq_lease_kind req = Some kind" for chosen kind
        using plain_select_room [OF prep sel [unfolded Inr] that] by simp
    qed
    then have "turn_ok sg caps U L req (si_accounts inputs)
        (end_plain_turn env attempt p (account_map_of (si_accounts inputs)) (sv0\<lparr>sv_runtime := t1, sv_salts := salts\<rparr>))"
      by (intro end_plain_turn_ok [OF r]) simp_all
    then show ?thesis
      using sel Inr p unfolding plain_turn_def Let_def sv0_def [symmetric] prep prod.case b_def [symmetric] by simp
  qed
qed

lemma look_up_session_ok:
  assumes "turn_rely sg caps U L env" "service_ok sg caps U L H sv" "look_up_session req env sv = (existing, sv')"
  shows "service_ok sg caps U L H sv'"
  using assms(2,3) turn_rely_ok [OF assms(1,2), of 1]
  by (auto simp: look_up_session_def Let_def split: option.splits list.splits if_splits prod.splits)

lemma sticky_select_ok:
  assumes "turn_rely sg caps U L env" "service_ok sg caps U L H sv"
    "sticky_select req caps env existing b ids states sv = (res, err, states1, sv')"
  shows "service_ok sg caps U L H sv'"
  using assms(2,3) turn_rely_ok [OF assms(1,2), of 2]
  by (auto simp: sticky_select_def Let_def split: if_splits prod.splits)

lemma sticky_turn_ok:
  assumes r: "turn_rely sg caps U L env" and ok: "service_ok sg caps U L {} sv"
  shows "turn_ok sg caps U L req (si_accounts inputs) (sticky_turn sg req caps env attempt inputs sv)"
proof -
  define sv0 where "sv0 = tn_others env 0 sv"
  define amap where "amap = account_map_of (si_accounts inputs)"
  have ok0: "service_ok sg caps U L {} sv0" unfolding sv0_def by (rule turn_rely_ok [OF r ok])
  obtain states t where prep: "prepare sg (tn_reclaim_time env) (tn_clocks env) inputs (sv_runtime sv0) = (states, t)" by fastforce
  have ok1: "service_ok sg caps U L {} (sv0\<lparr>sv_runtime := t\<rparr>)" by (rule quiet_ok [OF prepare_quiet [OF prep] ok0])
  obtain existing sv1 where look: "look_up_session req env (sv0\<lparr>sv_runtime := t\<rparr>) = (existing, sv1)" by fastforce
  define b where "b = turn_budget req (effective_routing_costs sg req (tn_planner_now env) inputs states)"
  obtain res err states1 sv2 where
    sel: "sticky_select req caps env existing b (acc_id ` set (si_accounts inputs)) states sv1 = (res, err, states1, sv2)"
    by (metis prod_cases4)
  have ok2: "service_ok sg caps U L {} sv2" by (rule sticky_select_ok [OF r look_up_session_ok [OF r ok1 look] sel])
  note turn_eq = sticky_turn_def [of sg req caps env attempt inputs sv, unfolded Let_def, folded sv0_def amap_def,
      unfolded prep prod.case look, folded b_def, unfolded sel prod.case]
  show ?thesis
  proof (cases res)
    case (Inl e)
    then show ?thesis using ok2 unfolding turn_eq by simp
  next
    case (Inr result)
    define sv3 where "sv3 = tn_others env 3 sv2"
    have ok3: "service_ok sg caps U L {} sv3" unfolding sv3_def by (rule turn_rely_ok [OF r ok2])
    obtain p t1 where p: "settle_pick req caps env True amap states1 result err (sv_runtime sv3) = (p, t1)" by fastforce
    have "service_ok sg caps U L (set_option (pk_lease p)) (sv3\<lparr>sv_runtime := t1\<rparr>) \<and> pick_ok req (si_accounts inputs) p"
      using r p by (intro settle_pick_ok [OF ok3]) (auto simp: turn_rely_def amap_def)
    then have "turn_ok sg caps U L req (si_accounts inputs)
        (end_sticky_turn env attempt (hard_sticky req existing) p amap (sv3\<lparr>sv_runtime := t1\<rparr>))"
      by (intro end_sticky_turn_ok [OF r]) simp_all
    then show ?thesis unfolding turn_eq Inr sum.case sv3_def [symmetric] p prod.case .
  qed
qed

lemma one_turn_ok:
  assumes "turn_rely sg caps U L env" "service_ok sg caps U L {} sv"
  shows "turn_ok sg caps U L req (si_accounts inputs) (turn sg req caps env attempt inputs sv)"
  using assms by (simp add: turn_def plain_turn_ok sticky_turn_ok)

subsection \<open>Loads\<close>

text \<open>An account that the request may be given: a reading of the database in \<open>L\<close> has it among its accounts as a
  candidate for the request, it is authorised when the request needs that, and it is not excluded.\<close>

definition eligible_for :: "ServiceSettings \<Rightarrow> LoadEnv set \<Rightarrow> SelectRequest \<Rightarrow> Account \<Rightarrow> bool" where
  "eligible_for sg L req a =
     ((\<exists>env \<in> L. a \<in> set (le_accounts env) \<and> request_candidate (sg_balancer sg) env (rq_load req) a)
      \<and> (rq_require_security_work_authorized req \<longrightarrow> acc_security_work_authorized a)
      \<and> acc_id a \<notin> set (rq_excluded req))"

lemma same_key_scope:
  assumes "cache_key_of env args = cache_key_of env' args'"
  shows "la_model args' = la_model args" "la_service_tier args' = la_service_tier args"
    "la_additional_limit_name args' = la_additional_limit_name args" "in_ids (la_account_ids args') = in_ids (la_account_ids args)"
proof -
  have ids: "map_option (\<lambda>ids. sort (remdups ids)) (la_account_ids args) = map_option (\<lambda>ids. sort (remdups ids)) (la_account_ids args')"
    using assms by (simp add: cache_key_of_def)
  have "map_option set (la_account_ids args) = map_option set (la_account_ids args')"
    using arg_cong [OF ids, of "map_option set"] by (simp add: option.map_comp comp_def)
  then show "in_ids (la_account_ids args') = in_ids (la_account_ids args)"
    by (auto simp: in_ids_def fun_eq_iff map_option_case split: option.splits)
qed (use assms in \<open>simp_all add: cache_key_of_def\<close>)

lemma same_key_candidate:
  assumes "cache_key_of env args = cache_key_of env' args'"
  shows "request_candidate settings e args' a = request_candidate settings e args a"
proof -
  note k = same_key_scope [OF assms]
  have scoped: "scoped_accounts e args' = scoped_accounts e args" by (simp add: scoped_accounts_filter k)
  have model: "model_accounts e args' = model_accounts e args" by (simp add: model_accounts_def scoped k)
  have limits: "effective_limit_name (le_quotas e) args' = effective_limit_name (le_quotas e) args"
    unfolding effective_limit_name_def k ..
  show ?thesis
    unfolding request_candidate_def serves_model_def index_ids_def quota_open_def scoped model limits k ..
qed

lemma load_inputs_ok:
  assumes "load_rely sg caps U L ld" "service_ok sg caps U L {} sv" "load_inputs sg ld args sv = (r, sv')"
  shows "service_ok sg caps U L {} sv'"
    and "r = Inr inputs \<Longrightarrow> a \<in> set (si_accounts inputs)
           \<Longrightarrow> \<exists>env \<in> L. a \<in> set (le_accounts env) \<and> request_candidate (sg_balancer sg) env args a"
proof -
  define sv1 where "sv1 = ld_others ld 0 sv"
  define sv2 where "sv2 = ld_others ld 1 sv1"
  define key where "key = cache_key_of (ld_env ld) args"
  have ok1: "service_ok sg caps U L {} sv1" and ok2: "service_ok sg caps U L {} sv2"
    using assms(1,2) by (simp_all add: sv1_def sv2_def load_rely_def rely_ok)
  note load = assms(3) [unfolded load_inputs_def Let_def, folded sv1_def, folded sv2_def key_def]
  have "service_ok sg caps U L {} sv'
      \<and> (\<forall>inputs a. r = Inr inputs \<longrightarrow> a \<in> set (si_accounts inputs)
           \<longrightarrow> (\<exists>env \<in> L. a \<in> set (le_accounts env) \<and> request_candidate (sg_balancer sg) env args a))"
  proof (cases "ld_error ld")
    case (Some e)
    then show ?thesis using load ok2 by auto
  next
    case None
    show ?thesis
    proof (cases "cache_get (le_lookup_time (ld_env ld)) key (sv_cache sv1)")
      case (Some cached)
      then have "sv' = sv1" "r = Inr cached"
        using load None by (auto simp: load_selection_inputs_def Let_def key_def)
      moreover obtain e where "(key, cached, e) \<in> set (sc_entries (sv_cache sv1))"
        using Some by (auto simp: cache_get_def dest!: map_of_SomeD split: if_splits option.splits)
      then obtain env args' where "env \<in> L" "cached = compute_inputs (sg_balancer sg) env args'" "key = cache_key_of env args'"
        using ok1 by (fastforce simp: service_ok_def cache_sound_def)
      ultimately show ?thesis
        using ok1 same_key_candidate [of "ld_env ld" args env args'] by (auto simp: key_def served_accounts)
    next
      case nc: None
      then have r: "r = Inr (compute_inputs (sg_balancer sg) (ld_env ld) args)"
        "sv' = sv2\<lparr>sv_cache := cache_set (le_store_time (ld_env ld)) (compute_inputs (sg_balancer sg) (ld_env ld) args) key
                 (Some (sc_generation (sv_cache sv1))) (sv_cache sv2)\<rparr>"
        using load None by (auto simp: load_selection_inputs_def Let_def key_def)
      have "ld_env ld \<in> L" using assms(1) by (simp add: load_rely_def)
      then have "cache_sound (sg_balancer sg) L (sv_cache sv')"
        using ok2 by (auto simp: r(2) service_ok_def cache_sound_def cache_set_def key_def dest!: update_entry)
      then show ?thesis using ok2 r \<open>ld_env ld \<in> L\<close> by (auto simp: service_ok_def served_accounts)
    qed
  qed
  then show "service_ok sg caps U L {} sv'"
    and "r = Inr inputs \<Longrightarrow> a \<in> set (si_accounts inputs)
           \<Longrightarrow> \<exists>env \<in> L. a \<in> set (le_accounts env) \<and> request_candidate (sg_balancer sg) env args a"
    by blast+
qed

lemma scope_inputs_eligible:
  assumes "\<And>a. a \<in> set (si_accounts raw) \<Longrightarrow> \<exists>env \<in> L. a \<in> set (le_accounts env) \<and> request_candidate (sg_balancer sg) env (rq_load req) a"
    and "a \<in> set (si_accounts (scope_inputs req raw))"
  shows "eligible_for sg L req a"
proof -
  have "a \<in> set (si_accounts raw)" "rq_require_security_work_authorized req \<longrightarrow> acc_security_work_authorized a"
    "acc_id a \<notin> set (rq_excluded req)"
    using assms(2)
    by (auto simp: scope_inputs_def exclude_accounts_def with_accounts_def unauthorized_inputs_def no_rows_def Let_def split: if_splits)
  then show ?thesis using assms(1) by (simp add: eligible_for_def)
qed

subsection \<open>The whole call\<close>

definition selection_ok :: "ServiceSettings \<Rightarrow> LoadEnv set \<Rightarrow> SelectRequest \<Rightarrow> AccountSelection \<Rightarrow> bool" where
  "selection_ok sg L req sel =
     (case as_account sel of
        None \<Rightarrow> as_lease sel = None
      | Some acc \<Rightarrow>
          (\<exists>a st reset. eligible_for sg L req a \<and> acc = snapshot_of a st reset)
          \<and> (case rq_lease_kind req of
               None \<Rightarrow> as_lease sel = None
             | Some kind \<Rightarrow> (\<exists>l. as_lease sel = Some l \<and> lease_account_id l = acc_id acc \<and> lease_kind l = kind)))"

definition call_ok ::
  "ServiceSettings \<Rightarrow> AccountConcurrencyCaps \<Rightarrow> string set \<Rightarrow> LoadEnv set \<Rightarrow> SelectRequest \<Rightarrow> AccountSelection result \<times> Service \<Rightarrow> bool" where
  "call_ok sg caps U L req out =
     (case fst out of
        Inl e \<Rightarrow> service_ok sg caps U L {} (snd out)
      | Inr sel \<Rightarrow> service_ok sg caps U L (set_option (as_lease sel)) (snd out) \<and> selection_ok sg L req sel)"

lemma no_selection_ok [simp]: "selection_ok sg L req (no_selection msg err)" "as_lease (no_selection msg err) = None"
  by (simp_all add: selection_ok_def no_selection_def)

lemma finish_ok:
  assumes "service_ok sg caps U L (set_option (pk_lease p)) sv" "pick_ok req accs p" "\<And>a. a \<in> set accs \<Longrightarrow> eligible_for sg L req a"
    "finish req p sv = (sel, sv')"
  shows "service_ok sg caps U L (set_option (as_lease sel)) sv' \<and> selection_ok sg L req sel"
proof (cases "pk_snapshot p")
  case None
  then show ?thesis using assms(1,2,4) by (auto simp: finish_def pick_ok_def Let_def split: if_splits)
next
  case (Some acc)
  then have sel: "sel = \<lparr>as_account = Some acc, as_error_message = None, as_error_code = None, as_lease = pk_lease p\<rparr>" "sv' = sv"
    using assms(4) by (simp_all add: finish_def)
  then show ?thesis using assms(1-3) Some by (auto simp: selection_ok_def pick_ok_def split: option.splits)
qed

lemma take_turns_ok:
  assumes "\<And>n. turn_rely sg caps U L (envs n)" "service_ok sg caps U L {} sv"
    "\<And>a. a \<in> set (si_accounts inputs) \<Longrightarrow> eligible_for sg L req a"
  shows "call_ok sg caps U L req (take_turns sg req caps envs attempt inputs sv)"
  using assms
proof (induction sg req caps envs attempt inputs sv rule: take_turns.induct)
  case (1 sg req caps envs attempt inputs sv)
  obtain out sv1 where t: "turn sg req caps (envs attempt) attempt inputs sv = (out, sv1)" by fastforce
  have ok: "turn_ok sg caps U L req (si_accounts inputs) (out, sv1)"
    using one_turn_ok [OF "1.prems"(1,2), where n1 = attempt] t by metis
  show ?case
  proof (cases out)
    case (Raised e)
    then show ?thesis using ok by (simp add: take_turns.simps [of sg req caps envs] t call_ok_def)
  next
    case (Finished p)
    obtain sel sv2 where f: "finish req p sv1 = (sel, sv2)" by fastforce
    then have "service_ok sg caps U L (set_option (as_lease sel)) sv2 \<and> selection_ok sg L req sel"
      using ok Finished "1.prems"(3) by (intro finish_ok [of sg caps U L p sv1 req "si_accounts inputs"]) simp_all
    then show ?thesis by (simp add: take_turns.simps [of sg req caps envs] t Finished f call_ok_def)
  next
    case Again
    then have ok1: "service_ok sg caps U L {} sv1" using ok by simp
    obtain loaded sv2 where l: "load_inputs sg (tn_reload (envs attempt)) (rq_load req) sv1 = (loaded, sv2)" by fastforce
    have "load_rely sg caps U L (tn_reload (envs attempt))" using "1.prems"(1) [of attempt] by (simp add: turn_rely_def)
    note lo = load_inputs_ok [OF this ok1 l]
    show ?thesis
    proof (cases loaded)
      case (Inl e)
      then show ?thesis using lo(1) by (simp add: take_turns.simps [of sg req caps envs] t Again l call_ok_def)
    next
      case (Inr raw)
      have e: "eligible_for sg L req a" if "a \<in> set (si_accounts (scope_inputs req raw))" for a
        using scope_inputs_eligible [OF lo(2) [OF Inr] that] .
      show ?thesis
      proof (cases "unserved (scope_inputs req raw)")
        case True
        then show ?thesis using lo(1) by (simp add: take_turns.simps [of sg req caps envs] t Again l Inr Let_def call_ok_def)
      next
        case False
        have "call_ok sg caps U L req (take_turns sg req caps envs (attempt + 1) (scope_inputs req raw) sv2)"
          using t Again l Inr False by (intro "1.IH") (auto intro: "1.prems"(1) lo(1) e)
        then show ?thesis using False by (simp add: take_turns.simps [of sg req caps envs attempt] t Again l Inr Let_def)
      qed
    qed
  qed
qed

lemma select_account_call_ok:
  assumes "load_rely sg caps U L (ce_first_load env)" "\<And>n. turn_rely sg caps U L (ce_turns env n)" "service_ok sg caps U L {} sv"
    and "caps = default_to (rq_concurrency_caps req) (ce_effective_caps env)"
  shows "call_ok sg caps U L req (select_account_call sg req env sv)"
proof -
  obtain loaded sv1 where l: "load_inputs sg (ce_first_load env) (rq_load req) sv = (loaded, sv1)" by fastforce
  note lo = load_inputs_ok [OF assms(1,3) l]
  show ?thesis
  proof (cases loaded)
    case (Inl e)
    then show ?thesis using lo(1) by (simp add: select_account_call_def l call_ok_def)
  next
    case (Inr raw)
    define inputs where "inputs = scope_inputs req raw"
    define sv2 where "sv2 = sv1\<lparr>sv_degradation := note_service_level (is_upstream_circuit_breaker_open sg env) inputs (sv_degradation sv1)\<rparr>"
    have ok2: "service_ok sg caps U L {} sv2" using lo(1) by (simp add: sv2_def)
    have "eligible_for sg L req a" if "a \<in> set (si_accounts inputs)" for a
      using scope_inputs_eligible [OF lo(2) [OF Inr]] that by (simp add: inputs_def)
    then have "call_ok sg caps U L req (take_turns sg req caps (ce_turns env) 1 inputs sv2)"
      by (intro take_turns_ok assms(2) ok2)
    then show ?thesis
      using ok2 unfolding select_account_call_def l prod.case Inr sum.case Let_def inputs_def [symmetric] assms(4) [symmetric] sv2_def [symmetric]
      by (cases "unserved inputs") (simp_all add: call_ok_def del: One_nat_def)
  qed
qed

section \<open>A sample\<close>

definition sample_service_settings :: ServiceSettings where
  "sample_service_settings =
     \<lparr>sg_balancer = sample_settings, sg_leases = sample_lease_settings, sg_zones = sample_zones, sg_circuit_breaker_enabled = False\<rparr>"

definition sample_select_request :: SelectRequest where
  "sample_select_request =
     \<lparr>rq_load = sample_load_args, rq_sticky_key = None, rq_sticky_kind = None, rq_reallocate_sticky = False,
      rq_sticky_max_age_seconds = None,
      rq_budget = \<lparr>base_args = default_args\<lparr>routing_strategy := round_robin\<rparr>, budget_threshold_pct = 95,
        secondary_budget_threshold_pct = 100, apply_secondary_budget_threshold = False\<rparr>,
      rq_routing_costs = Some [], rq_lease_kind = Some stream, rq_estimated_lease_tokens = 7, rq_stream_reserve_slots = 0,
      rq_excluded = [], rq_require_security_work_authorized = False, rq_concurrency_caps = Some sample_caps\<rparr>"

definition sample_load :: LoadStep where
  "sample_load = \<lparr>ld_env = sample_load_env, ld_error = None, ld_others = (\<lambda>n sv. sv)\<rparr>"

definition sample_turn :: "(nat \<times> py_error) option \<Rightarrow> nat \<Rightarrow> TurnEnv" where
  "sample_turn fault n =
     \<lparr>tn_reclaim_time = 5000, tn_clocks = (\<lambda>i. clock_at 5000), tn_planner_now = 5000, tn_select = (\<lambda>i. sample_env),
      tn_lookup_now = 5000, tn_sticky = sample_sticky_env, tn_sync_time = (\<lambda>i. 5000), tn_uuid = ''u'' @ show_int (int n),
      tn_monotonic = 5000, tn_time = 5000, tn_utcnow = (\<lambda>i. 5000), tn_persist_fault = fault, tn_others = (\<lambda>n sv. sv),
      tn_reload = sample_load\<rparr>"

definition sample_call :: "(nat \<times> py_error) option \<Rightarrow> CallEnv" where
  "sample_call fault =
     \<lparr>ce_first_load = sample_load, ce_effective_caps = sample_caps,
      ce_breakers = \<lparr>global_breaker = None, account_breakers = []\<rparr>, ce_breaker_time = 0, ce_turns = sample_turn fault\<rparr>"

definition sample_service :: Service where
  "sample_service =
     \<lparr>sv_runtime = [], sv_cache = \<lparr>sc_ttl_seconds = 5, sc_entries = [], sc_generation = 0\<rparr>,
      sv_db = \<lparr>db_accounts = [(''a'', sample_account ACTIVE)], db_sticky = [], db_bridges = no_sessions\<rparr>,
      sv_salts = sample_salts, sv_degradation = new_degradation\<rparr>"


lemma sample_rely [simp]: "load_rely sg caps U {sample_load_env} sample_load" "rely sg caps U L (\<lambda>sv. sv)"
  by (simp_all add: load_rely_def rely_def sample_load_def)

definition sample_ids :: "string set" where
  "sample_ids = range (\<lambda>n. ''u'' @ show_int (int n))"

lemma sample_turn_rely: "turn_rely sg caps sample_ids {sample_load_env} (sample_turn fault n)"
  by (simp add: turn_rely_def sample_turn_def sample_ids_def)

lemma sample_service_ok: "service_ok sample_service_settings sample_caps U L {} sample_service"
proof -
  have "inflight kind (runtime_get k []) = 0" for kind k
    by (cases kind) (simp_all add: inflight_def runtime_get_def new_runtime_def)
  then show ?thesis
    by (simp add: service_ok_def sample_service_def table_inv_def caps_respected_def held_def outstanding_def cache_sound_def)
qed

section \<open>Properties\<close>

text \<open>C10: However a selection interleaves with other tasks and wherever it fails, it leaks no lease: when
  the call returns, the only lease it may still hold is the one in its answer, and after an exception, or when no
  account is selected, it holds none. The counters stay exact and no account exceeds its cap.\<close>

theorem selection_leaks_no_lease:
  assumes "load_rely sg caps U L (ce_first_load env)" "\<And>n. turn_rely sg caps U L (ce_turns env n)" "service_ok sg caps U L {} sv"
    and "caps = default_to (rq_concurrency_caps req) (ce_effective_caps env)"
    and "select_account_call sg req env sv = (r, sv')"
  shows "table_inv (sv_runtime sv') \<and> caps_respected caps (sv_runtime sv')
    \<and> {l \<in> outstanding (sv_runtime sv'). lease_id l \<in> U}
        \<subseteq> (case r of Inl e \<Rightarrow> {} | Inr sel \<Rightarrow> if as_account sel = None then {} else set_option (as_lease sel))"
  using select_account_call_ok [OF assms(1-4)] assms(5)
  by (cases r) (auto simp: call_ok_def service_ok_def held_def selection_ok_def)

theorem selection_leaks_no_lease_witness:
  "let out = select_account_call sample_service_settings sample_select_request (sample_call (Some (0, DatabaseError))) sample_service
   in fst out = Inl DatabaseError \<and> {l \<in> outstanding (sv_runtime (snd out)). lease_id l \<in> sample_ids} \<subseteq> {}"
proof -
  define env where "env = sample_call (Some (0, DatabaseError))"
  have raised: "fst (select_account_call sample_service_settings sample_select_request env sample_service) = Inl DatabaseError"
    unfolding env_def by code_simp
  then obtain sv' where out: "select_account_call sample_service_settings sample_select_request env sample_service = (Inl DatabaseError, sv')"
    by (metis prod.collapse)
  have "load_rely sample_service_settings sample_caps sample_ids {sample_load_env} (ce_first_load env)"
    "\<And>n. turn_rely sample_service_settings sample_caps sample_ids {sample_load_env} (ce_turns env n)"
    "sample_caps = default_to (rq_concurrency_caps sample_select_request) (ce_effective_caps env)"
    by (simp_all add: env_def sample_call_def sample_turn_rely sample_select_request_def)
  from selection_leaks_no_lease [OF this(1,2) sample_service_ok this(3) out] show ?thesis
    using out by (simp add: env_def Let_def)
qed

text \<open>C11: let \<open>L\<close> be any set of readings of the database that has those of the loads that this call makes and those from which
  the other loads fill the cache. The account that a selection returns is a copy of one that a reading in \<open>L\<close> has among its
  accounts as a candidate for this very request: by that reading it is selectable, in the key's scope, serving the model and the
  tier, with open quota. It is authorised for security work if the request needs that, and not excluded; the lease in the answer is
  one on that account and of the kind asked for. (Other tasks may do anything at the suspension points that keeps the lease
  table in order, uses no lease identifier of this call and caches only what a reading in \<open>L\<close> gives; the cache starts so.)\<close>

theorem selected_account_eligible:
  assumes "load_rely sg caps U L (ce_first_load env)" "\<And>n. turn_rely sg caps U L (ce_turns env n)" "service_ok sg caps U L {} sv"
    and "caps = default_to (rq_concurrency_caps req) (ce_effective_caps env)"
    and "fst (select_account_call sg req env sv) = Inr sel" "as_account sel = Some acc"
  shows "\<exists>a st reset. eligible_for sg L req a \<and> acc = snapshot_of a st reset
    \<and> map_option (\<lambda>l. (lease_account_id l, lease_kind l)) (as_lease sel) = map_option (\<lambda>kind. (acc_id acc, kind)) (rq_lease_kind req)"
  using select_account_call_ok [OF assms(1-4)] assms(5,6)
  by (auto simp: call_ok_def selection_ok_def split: option.splits)

theorem selected_account_eligible_witness:
  "\<exists>sel acc a st reset. fst (select_account_call sample_service_settings sample_select_request (sample_call None) sample_service) = Inr sel
     \<and> as_account sel = Some acc \<and> acc_id acc = ''a'' \<and> eligible_for sample_service_settings {sample_load_env} sample_select_request a \<and> acc = snapshot_of a st reset
     \<and> map_option (\<lambda>l. (lease_account_id l, lease_kind l)) (as_lease sel) = Some (''a'', stream)"
proof -
  define env where "env = sample_call None"
  define r where "r = fst (select_account_call sample_service_settings sample_select_request env sample_service)"
  have "map_sum id (\<lambda>sel. map_option acc_id (as_account sel)) r = Inr (Some ''a'')"
    unfolding r_def env_def by code_simp
  then obtain sel acc where sel: "r = Inr sel" "as_account sel = Some acc" "acc_id acc = ''a''"
    by (cases r) auto
  have "load_rely sample_service_settings sample_caps sample_ids {sample_load_env} (ce_first_load env)"
    "\<And>n. turn_rely sample_service_settings sample_caps sample_ids {sample_load_env} (ce_turns env n)"
    "sample_caps = default_to (rq_concurrency_caps sample_select_request) (ce_effective_caps env)"
    by (simp_all add: env_def sample_call_def sample_turn_rely sample_select_request_def)
  from selected_account_eligible [OF this(1,2) sample_service_ok this(3) sel(1) [unfolded r_def] sel(2)]
  obtain a st reset where a: "eligible_for sample_service_settings {sample_load_env} sample_select_request a" "acc = snapshot_of a st reset"
      "map_option (\<lambda>l. (lease_account_id l, lease_kind l)) (as_lease sel) = map_option (\<lambda>kind. (acc_id acc, kind)) (Some stream)"
    by (auto simp: sample_select_request_def)
  have "map_option (\<lambda>l. (lease_account_id l, lease_kind l)) (as_lease sel) = Some (''a'', stream)"
    using a(3) sel(3) by simp
  then show ?thesis using sel a(1,2) unfolding r_def env_def by blast
qed

lemma take_turns_bounded:
  "attempt \<le> MAX_SELECTION_ATTEMPTS \<Longrightarrow>
     take_turns sg req caps (\<lambda>n. if n \<le> MAX_SELECTION_ATTEMPTS then envs n else beyond n) attempt inputs sv
       = take_turns sg req caps envs attempt inputs sv"
proof (induction sg req caps envs attempt inputs sv rule: take_turns.induct)
  case (1 sg req caps envs attempt inputs sv)
  obtain out sv1 where t: "turn sg req caps (envs attempt) attempt inputs sv = (out, sv1)" by fastforce
  note eqs = take_turns.simps [of sg req caps "\<lambda>n. if n \<le> MAX_SELECTION_ATTEMPTS then envs n else beyond n" attempt]
    take_turns.simps [of sg req caps envs attempt]
  show ?case
  proof (cases out)
    case Again
    then have "attempt + 1 \<le> MAX_SELECTION_ATTEMPTS" using turn_again t by fastforce
    then show ?thesis
      using "1.IH" [OF t [symmetric] Again] "1.prems" by (simp add: eqs t Again Let_def split: prod.split sum.split)
  qed (use "1.prems" in \<open>simp_all add: eqs t\<close>)
qed

text \<open>A selection always ends, and after at most four turns: what the environment would do in a
  fifth one has no influence on the result.\<close>

lemma selection_ends_in_four_turns:
  "select_account_call sg req (env\<lparr>ce_turns := (\<lambda>n. if n \<le> 4 then ce_turns env n else beyond n)\<rparr>) sv
     = select_account_call sg req env sv"
  using take_turns_bounded [of 1 sg req "default_to (rq_concurrency_caps req) (ce_effective_caps env)" "ce_turns env" beyond]
  by (simp add: select_account_call_def Let_def MAX_SELECTION_ATTEMPTS_def is_upstream_circuit_breaker_open_def
      split: prod.split sum.split)

text \<open>The admission check of opportunistic traffic reserves nothing: it returns without a lease, leaves the
  leases of the call as they are and the caps respected, and an account that it names is a candidate for the
  request; every refusal carries an error code or the errors of the load.\<close>

lemma admission_check_reserves_nothing:
  assumes "load_rely sg caps U L ld" "rely sg caps U L (tn_others env 0)" "service_ok sg caps U L {} sv"
    and "check_opportunistic_admission sg req caps ld env sv = (Inr sel, sv')"
  shows "as_lease sel = None \<and> service_ok sg caps U L {} sv'
    \<and> (\<forall>acc. as_account sel = Some acc
         \<longrightarrow> (\<exists>e \<in> L. acc \<in> set (le_accounts e) \<and> request_candidate (sg_balancer sg) e (rq_load req) acc))
    \<and> (as_account sel = None \<longrightarrow> as_error_code sel \<noteq> None)"
proof -
  obtain loaded sv1 where l: "load_inputs sg ld (rq_load req) sv = (loaded, sv1)" by fastforce
  note lo = load_inputs_ok [OF assms(1,3) l]
  obtain inputs where i: "loaded = Inr inputs" using assms(4) l by (cases loaded) (auto simp: check_opportunistic_admission_def)
  have cand: "\<exists>e \<in> L. a \<in> set (le_accounts e) \<and> request_candidate (sg_balancer sg) e (rq_load req) a" if "a \<in> set (si_accounts inputs)" for a
    by (rule lo(2) [OF i that])
  note call = assms(4) [unfolded check_opportunistic_admission_def l prod.case i sum.case]
  show ?thesis
  proof (cases "unserved inputs")
    case True
    then show ?thesis using call lo(1) by (auto simp: no_selection_def unserved_def)
  next
    case False
    define sv2 where "sv2 = tn_others env 0 sv1"
    have ok2: "service_ok sg caps U L {} sv2" unfolding sv2_def by (rule rely_ok [OF assms(2) lo(1)])
    obtain states t where prep: "prepare sg (tn_reclaim_time env) (tn_clocks env) inputs (sv_runtime sv2) = (states, t)" by fastforce
    have ok3: "service_ok sg caps U L {} (sv2\<lparr>sv_runtime := t\<rparr>)" by (rule quiet_ok [OF prepare_quiet [OF prep] ok2])
    note call' = call [unfolded if_not_P [OF False] Let_def, folded sv2_def, unfolded prep prod.case]
    show ?thesis
      using call' ok3 cand account_map_member [of "si_accounts inputs"]
      by (auto simp: no_selection_def split: if_splits prod.splits sum.splits option.splits)
  qed
qed

end
