(* ===== verification/Cache_Invalidation.thy ===== *)
theory Cache_Invalidation
  imports Account_Leases
begin

text \<open>
  How replicas tell each other that a cache is out of date, after
  \<open>codex-lb/app/core/cache/invalidation.py\<close> and the routing overlay of
  \<open>codex-lb/app/modules/proxy/account_cache.py\<close>.

  A table shared by the replicas holds a version for every namespace. A replica that changes something
  bumps the version, at once or with its next poll; every replica polls the table and runs the
  callbacks of a namespace whose version is newer than the one it has acknowledged.

  An operation that waits for the database takes what other tasks and replicas do meanwhile as the
  function \<open>others\<close>. The callbacks of a namespace are known by whether all of them succeed. Three ghost
  fields record what has happened: \<open>cl_requested\<close> the version at the last request of a bump,
  \<open>cl_caught\<close> the version at the start of the last successful run of the callbacks (or of the baseline
  reading), and \<open>cl_own\<close> the version that a \<open>bump_local\<close> of this replica last acknowledged without running
  them. The log lines and counters of failures are left out.
\<close>

section \<open>State\<close>

record CacheInvalidationPoller =
  pl_known_versions :: "(string \<times> int) list"
  pl_pending_bumps :: "string list"
  pl_consecutive_poll_failures :: int
  pl_poll_initialized :: bool

record CacheCluster =
  cl_versions :: "(string \<times> int) list"
  cl_poller :: CacheInvalidationPoller
  cl_requested :: "string \<Rightarrow> int option"
  cl_caught :: "string \<Rightarrow> int"
  cl_own :: "string \<Rightarrow> int"

definition new_poller :: CacheInvalidationPoller where
  "new_poller = \<lparr>pl_known_versions = [], pl_pending_bumps = [], pl_consecutive_poll_failures = 0, pl_poll_initialized = False\<rparr>"

definition version_of :: "string \<Rightarrow> CacheCluster \<Rightarrow> int" where
  "version_of ns w = default_to (map_of (cl_versions w) ns) 0"

definition known_of :: "string \<Rightarrow> CacheCluster \<Rightarrow> int option" where
  "known_of ns w = map_of (pl_known_versions (cl_poller w)) ns"

definition BUMP_RETRY_ATTEMPTS :: nat where
  "BUMP_RETRY_ATTEMPTS = 3"

section \<open>Bumps\<close>

definition request_bump :: "string \<Rightarrow> CacheCluster \<Rightarrow> CacheCluster" where
  "request_bump ns w =
     w\<lparr>cl_poller := (cl_poller w)\<lparr>pl_pending_bumps := List.insert ns (pl_pending_bumps (cl_poller w))\<rparr>,
       cl_requested := (cl_requested w)(ns \<mapsto> version_of ns w)\<rparr>"

text \<open>The upsert: the first bump writes version 1, a later one adds 1.\<close>

definition bump_once :: "string \<Rightarrow> CacheCluster \<Rightarrow> CacheCluster" where
  "bump_once ns w =
     w\<lparr>cl_versions := AList.update ns (case map_of (cl_versions w) ns of None \<Rightarrow> 1 | Some v \<Rightarrow> v + 1) (cl_versions w)\<rparr>"

datatype write_outcome = Written | OperationalError | OtherError

text \<open>\<open>outcomes n\<close> is how the write of attempt \<open>n\<close> ends, \<open>others n\<close> what happens before it.\<close>

fun bump_from :: "(nat \<Rightarrow> write_outcome) \<Rightarrow> (nat \<Rightarrow> CacheCluster \<Rightarrow> CacheCluster) \<Rightarrow> string \<Rightarrow> nat \<Rightarrow> nat \<Rightarrow> CacheCluster \<Rightarrow> bool \<times> CacheCluster" where
  "bump_from outcomes others ns attempt 0 w = (False, w)"
| "bump_from outcomes others ns attempt (Suc left) w =
     (let w1 = others attempt w
      in case outcomes attempt of
           Written \<Rightarrow> (True, bump_once ns w1)
         | OperationalError \<Rightarrow> bump_from outcomes others ns (attempt + 1) left w1
         | OtherError \<Rightarrow> (False, w1))"

definition bump_version :: "(nat \<Rightarrow> write_outcome) \<Rightarrow> (nat \<Rightarrow> CacheCluster \<Rightarrow> CacheCluster) \<Rightarrow> string \<Rightarrow> CacheCluster \<Rightarrow> bool \<times> CacheCluster" where
  "bump_version outcomes others ns w = bump_from outcomes others ns 0 BUMP_RETRY_ATTEMPTS w"

definition acknowledge :: "string \<Rightarrow> int \<Rightarrow> CacheCluster \<Rightarrow> CacheCluster" where
  "acknowledge ns v w =
     w\<lparr>cl_poller := (cl_poller w)\<lparr>pl_known_versions :=
         AList.update ns (max (default_to (known_of ns w) 0) v) (pl_known_versions (cl_poller w))\<rparr>\<rparr>"

text \<open>A bump for a namespace that the caller has already invalidated here: the version that is read back
  counts as seen, also when a peer has bumped in between. \<open>fails\<close> says that the read raises; the session is
  closed, during \<open>after_read\<close>, before the version is recorded.\<close>

definition acknowledge_own :: "string \<Rightarrow> int \<Rightarrow> CacheCluster \<Rightarrow> CacheCluster" where
  "acknowledge_own ns v w = (acknowledge ns v w)\<lparr>cl_own := (cl_own w)(ns := max (cl_own w ns) v)\<rparr>"

definition bump_local ::
  "(nat \<Rightarrow> write_outcome) \<Rightarrow> (nat \<Rightarrow> CacheCluster \<Rightarrow> CacheCluster) \<Rightarrow> (CacheCluster \<Rightarrow> CacheCluster) \<Rightarrow> bool \<Rightarrow>
   (CacheCluster \<Rightarrow> CacheCluster) \<Rightarrow> string \<Rightarrow> CacheCluster \<Rightarrow> bool \<times> CacheCluster" where
  "bump_local outcomes others before_read fails after_read ns w =
     (case bump_version outcomes others ns w of
        (False, w1) \<Rightarrow> (False, w1)
      | (True, w1) \<Rightarrow>
          (let w2 = before_read w1;
               w3 = after_read w2
           in if fails then (True, w3)
              else (True, case map_of (cl_versions w2) ns of None \<Rightarrow> w3 | Some v \<Rightarrow> acknowledge_own ns v w3)))"

section \<open>Polling\<close>

record FlushEnv =
  fl_outcomes :: "string \<Rightarrow> nat \<Rightarrow> write_outcome"
  fl_others :: "string \<Rightarrow> nat \<Rightarrow> CacheCluster \<Rightarrow> CacheCluster"

text \<open>One namespace of the flush: the marker goes before the write is awaited, and comes back when the
  write fails.\<close>

definition flush_one :: "FlushEnv \<Rightarrow> string \<Rightarrow> CacheCluster \<Rightarrow> CacheCluster" where
  "flush_one env ns w =
     (let w1 = w\<lparr>cl_poller := (cl_poller w)\<lparr>pl_pending_bumps := removeAll ns (pl_pending_bumps (cl_poller w))\<rparr>\<rparr>
      in case bump_version (fl_outcomes env ns) (fl_others env ns) ns w1 of
           (True, w2) \<Rightarrow> w2
         | (False, w2) \<Rightarrow>
             w2\<lparr>cl_poller := (cl_poller w2)\<lparr>pl_pending_bumps := List.insert ns (pl_pending_bumps (cl_poller w2))\<rparr>\<rparr>)"

definition flush_pending_bumps :: "FlushEnv \<Rightarrow> CacheCluster \<Rightarrow> CacheCluster" where
  "flush_pending_bumps env w = foldl (\<lambda>w ns. flush_one env ns w) w (sort (pl_pending_bumps (cl_poller w)))"

definition record_poll_failure :: "CacheCluster \<Rightarrow> CacheCluster" where
  "record_poll_failure w =
     w\<lparr>cl_poller := (cl_poller w)\<lparr>pl_consecutive_poll_failures := pl_consecutive_poll_failures (cl_poller w) + 1\<rparr>\<rparr>"

record PollEnv =
  po_flush :: FlushEnv
  po_read_fails :: bool
  po_before_read :: "CacheCluster \<Rightarrow> CacheCluster"
  po_after_read :: "CacheCluster \<Rightarrow> CacheCluster"
  po_callbacks :: "string \<Rightarrow> bool"
  po_others :: "string \<Rightarrow> CacheCluster \<Rightarrow> CacheCluster"

definition changed :: "string \<Rightarrow> int \<Rightarrow> CacheCluster \<Rightarrow> bool" where
  "changed ns v w =
     (case known_of ns w of
        Some prev \<Rightarrow> v > prev
      | None \<Rightarrow> pl_poll_initialized (cl_poller w) \<and> v > 0)"

text \<open>The callbacks of a namespace; a successful run caught the version that it started at.\<close>

definition run_callbacks :: "PollEnv \<Rightarrow> string \<Rightarrow> CacheCluster \<Rightarrow> bool \<times> CacheCluster" where
  "run_callbacks env ns w =
     (let started_at = version_of ns w;
          w1 = po_others env ns w
      in (po_callbacks env ns,
          if po_callbacks env ns then w1\<lparr>cl_caught := (cl_caught w1)(ns := max (cl_caught w1 ns) started_at)\<rparr> else w1))"

definition poll_row :: "PollEnv \<Rightarrow> CacheCluster \<Rightarrow> string \<times> int \<Rightarrow> CacheCluster" where
  "poll_row env w row =
     (case row of (ns, v) \<Rightarrow>
        if changed ns v w
        then (case run_callbacks env ns w of (ok, w1) \<Rightarrow> if ok then acknowledge ns v w1 else w1)
        else acknowledge ns v w)"

text \<open>The session is closed, during \<open>po_after_read\<close>, before the rows that were read are gone through.\<close>

definition poll_once :: "PollEnv \<Rightarrow> CacheCluster \<Rightarrow> bool \<times> CacheCluster" where
  "poll_once env w =
     (let w1 = po_before_read env (flush_pending_bumps (po_flush env) w)
      in if po_read_fails env then (False, po_after_read env (record_poll_failure w1))
         else (let wr = po_after_read env w1;
                   w2 = wr\<lparr>cl_poller := (cl_poller wr)\<lparr>pl_consecutive_poll_failures := 0\<rparr>\<rparr>;
                   w3 = foldl (poll_row env) w2 (cl_versions w1)
               in (True, w3\<lparr>cl_poller := (cl_poller w3)\<lparr>pl_poll_initialized := True\<rparr>\<rparr>)))"

text \<open>The baseline is read before the process loads anything that the callbacks would renew.\<close>

definition initialize :: "bool \<Rightarrow> CacheCluster \<Rightarrow> bool \<times> CacheCluster" where
  "initialize fails w =
     (if fails then (False, w)
      else (True, w\<lparr>cl_poller := (cl_poller w)\<lparr>pl_known_versions :=
                       foldl (\<lambda>known (ns, v). AList.update ns v known) (pl_known_versions (cl_poller w)) (cl_versions w),
                     pl_poll_initialized := True\<rparr>,
                   cl_caught := (\<lambda>ns. max (cl_caught w ns) (version_of ns w))\<rparr>))"

definition prime :: "PollEnv \<Rightarrow> CacheCluster \<Rightarrow> unit result \<times> CacheCluster" where
  "prime env w = (case poll_once env w of (ok, w1) \<Rightarrow> (if ok then Inr () else Inl DatabaseError, w1))"

section \<open>The routing overlay\<close>

record RoutingAvailabilityCache =
  ra_snapshot :: "(string \<times> AccountStatus) list option"
  ra_local_marks :: "string list"

definition ROUTING_UNAVAILABLE_STATUSES :: "AccountStatus list" where
  "ROUTING_UNAVAILABLE_STATUSES = [PAUSED, REAUTH_REQUIRED, DEACTIVATED]"

definition NAMESPACE_ACCOUNT_ROUTING :: string where
  "NAMESPACE_ACCOUNT_ROUTING = ''account_routing''"

definition mark_unavailable :: "string \<Rightarrow> RoutingAvailabilityCache \<times> CacheCluster \<Rightarrow> RoutingAvailabilityCache \<times> CacheCluster" where
  "mark_unavailable i s =
     (case s of (c, w) \<Rightarrow> (c\<lparr>ra_local_marks := List.insert i (ra_local_marks c)\<rparr>, request_bump NAMESPACE_ACCOUNT_ROUTING w))"

definition clear_unavailable :: "string \<Rightarrow> RoutingAvailabilityCache \<times> CacheCluster \<Rightarrow> RoutingAvailabilityCache \<times> CacheCluster" where
  "clear_unavailable i s =
     (case s of (c, w) \<Rightarrow>
        (c\<lparr>ra_local_marks := removeAll i (ra_local_marks c), ra_snapshot := map_option (AList.update i ACTIVE) (ra_snapshot c)\<rparr>,
         request_bump NAMESPACE_ACCOUNT_ROUTING w))"

definition is_unavailable :: "string \<Rightarrow> RoutingAvailabilityCache \<Rightarrow> bool" where
  "is_unavailable i c =
     (if i \<in> set (ra_local_marks c) then True
      else (case ra_snapshot c of
              None \<Rightarrow> False
            | Some snapshot \<Rightarrow>
                (case map_of snapshot i of None \<Rightarrow> True | Some s \<Rightarrow> s \<in> set ROUTING_UNAVAILABLE_STATUSES)))"

text \<open>\<open>rows\<close> is the answer of the query; \<open>others\<close> is what happens to the overlay while it runs.\<close>

definition refresh_from_db ::
  "(string \<times> AccountStatus) list \<Rightarrow> (RoutingAvailabilityCache \<Rightarrow> RoutingAvailabilityCache) \<Rightarrow> RoutingAvailabilityCache \<Rightarrow> RoutingAvailabilityCache" where
  "refresh_from_db rows others c =
     (let before = ra_local_marks c;
          c1 = others c;
          snapshot = foldl (\<lambda>m (i, s). AList.update i s m) [] rows
      in c1\<lparr>ra_snapshot := Some snapshot,
            ra_local_marks := filter (\<lambda>i. i \<notin> set before
                                \<or> (case map_of snapshot i of None \<Rightarrow> True | Some s \<Rightarrow> s \<in> set ROUTING_UNAVAILABLE_STATUSES))
                              (ra_local_marks c1)\<rparr>)"

definition reset_overlay :: "RoutingAvailabilityCache \<Rightarrow> RoutingAvailabilityCache" where
  "reset_overlay c = c\<lparr>ra_snapshot := None, ra_local_marks := []\<rparr>"

section \<open>Invariant\<close>

text \<open>Of a poller that has its baseline. \<open>F\<close> are the namespaces whose bump is being written. A requested
  bump is pending, being written, or has been followed by a newer version; no version is acknowledged
  before the callbacks caught it, except by a \<open>bump_local\<close> of this replica.\<close>

definition cluster_ok :: "string set \<Rightarrow> CacheCluster \<Rightarrow> bool" where
  "cluster_ok F w =
     (distinct (map fst (cl_versions w)) \<and> pl_poll_initialized (cl_poller w)
      \<and> (\<forall>ns. 0 \<le> cl_caught w ns \<and> cl_caught w ns \<le> version_of ns w)
      \<and> (\<forall>ns k. known_of ns w = Some k \<longrightarrow> k \<le> max (cl_caught w ns) (cl_own w ns))
      \<and> (\<forall>ns v. cl_requested w ns = Some v
           \<longrightarrow> v \<le> version_of ns w \<and> (ns \<in> set (pl_pending_bumps (cl_poller w)) \<or> ns \<in> F \<or> v < version_of ns w)))"

text \<open>Versions, what has been caught and what has been acknowledged by own bumps only grow.\<close>

definition grows :: "CacheCluster \<Rightarrow> CacheCluster \<Rightarrow> bool" where
  "grows w w' = (\<forall>ns. version_of ns w \<le> version_of ns w' \<and> cl_caught w ns \<le> cl_caught w' ns \<and> cl_own w ns \<le> cl_own w' ns)"

text \<open>What the other tasks of the replica and the other replicas may do: anything that keeps the invariant and lets
  nothing shrink. Requests, bumps by peers and \<open>bump_local\<close> do (\<open>request_bump_rely\<close>, \<open>peer_bump_rely\<close>,
  \<open>bump_local_rely\<close>).\<close>

definition cluster_rely :: "(CacheCluster \<Rightarrow> CacheCluster) \<Rightarrow> bool" where
  "cluster_rely f = (\<forall>F w. cluster_ok F w \<longrightarrow> cluster_ok F (f w) \<and> grows w (f w))"

lemma grows_refl [simp]: "grows w w"
  by (simp add: grows_def)

lemma grows_trans: "grows w1 w2 \<Longrightarrow> grows w2 w3 \<Longrightarrow> grows w1 w3"
  unfolding grows_def by (meson order_trans)

lemma rely_step: "cluster_rely f \<Longrightarrow> cluster_ok F w \<Longrightarrow> cluster_ok F (f w) \<and> grows w (f w)"
  by (simp add: cluster_rely_def)

lemma version_frame [simp]:
  "version_of ns (w\<lparr>cl_poller := p\<rparr>) = version_of ns w" "version_of ns (w\<lparr>cl_caught := c\<rparr>) = version_of ns w"
  "version_of ns (w\<lparr>cl_poller := p, cl_requested := r\<rparr>) = version_of ns w"
  by (simp_all add: version_of_def)

lemma known_frame [simp]:
  "known_of ns (w\<lparr>cl_caught := c\<rparr>) = known_of ns w" "known_of ns (w\<lparr>cl_versions := vs\<rparr>) = known_of ns w"
  "known_of ns (w\<lparr>cl_poller := (cl_poller w)\<lparr>pl_pending_bumps := q\<rparr>\<rparr>) = known_of ns w"
  "known_of ns (w\<lparr>cl_poller := (cl_poller w)\<lparr>pl_pending_bumps := q\<rparr>, cl_requested := r\<rparr>) = known_of ns w"
  "known_of ns (w\<lparr>cl_poller := (cl_poller w)\<lparr>pl_consecutive_poll_failures := n\<rparr>\<rparr>) = known_of ns w"
  "known_of ns (w\<lparr>cl_poller := (cl_poller w)\<lparr>pl_poll_initialized := b\<rparr>\<rparr>) = known_of ns w"
  by (simp_all add: known_of_def)

lemma version_bump: "version_of j (bump_once ns w) = version_of j w + (if j = ns then 1 else 0)"
  by (auto simp: version_of_def bump_once_def update_conv split: option.split)

lemma bump_once_fields [simp]:
  "cl_poller (bump_once ns w) = cl_poller w" "cl_requested (bump_once ns w) = cl_requested w" "cl_caught (bump_once ns w) = cl_caught w"
  "cl_own (bump_once ns w) = cl_own w"
  by (simp_all add: bump_once_def)

lemma known_bump [simp]: "known_of j (bump_once ns w) = known_of j w"
  by (simp add: known_of_def)

lemma bump_once_ok: "cluster_ok F w \<Longrightarrow> cluster_ok (F - {ns}) (bump_once ns w) \<and> grows w (bump_once ns w)"
proof -
  assume ok: "cluster_ok F w"
  have d: "distinct (map fst (cl_versions (bump_once ns w)))"
    using ok by (simp add: cluster_ok_def bump_once_def distinct_update)
  have "cluster_ok (F - {ns}) (bump_once ns w)"
    unfolding cluster_ok_def
  proof (intro conjI allI impI)
    fix j v assume "cl_requested (bump_once ns w) j = Some v"
    then have "v \<le> version_of j w"
      and "j \<in> set (pl_pending_bumps (cl_poller w)) \<or> j \<in> F \<or> v < version_of j w"
      using ok by (simp_all add: cluster_ok_def)
    then show "v \<le> version_of j (bump_once ns w)"
      "j \<in> set (pl_pending_bumps (cl_poller (bump_once ns w))) \<or> j \<in> F - {ns} \<or> v < version_of j (bump_once ns w)"
      by (auto simp: version_bump)
  qed (use ok d in \<open>auto simp: cluster_ok_def version_bump add_increasing2\<close>)
  then show ?thesis by (simp add: grows_def version_bump)
qed

lemma bump_from_ok:
  assumes "\<And>n. cluster_rely (others n)" "cluster_ok F w" "bump_from outcomes others ns attempt left w = (ok, w')"
  shows "cluster_ok (if ok then F - {ns} else F) w' \<and> grows w w'"
  using assms(2,3)
proof (induction left arbitrary: attempt w)
  case (Suc left)
  let ?w1 = "others attempt w"
  have step: "cluster_ok F ?w1" "grows w ?w1" using rely_step [OF assms(1) Suc.prems(1)] by simp_all
  show ?case
  proof (cases "outcomes attempt")
    case Written
    then have "ok" "w' = bump_once ns ?w1" using Suc.prems(2) by (simp_all add: Let_def)
    then show ?thesis using bump_once_ok [OF step(1), of ns] step(2) grows_trans by auto
  next
    case OperationalError
    then show ?thesis using Suc.IH [OF step(1)] Suc.prems(2) step(2) grows_trans by (auto simp: Let_def)
  next
    case OtherError
    then show ?thesis using Suc.prems(2) step by (simp add: Let_def)
  qed
qed simp

definition flush_rely :: "FlushEnv \<Rightarrow> bool" where
  "flush_rely env = (\<forall>ns n. cluster_rely (fl_others env ns n))"

lemma flush_one_ok:
  assumes "flush_rely env" "cluster_ok {} w"
  shows "cluster_ok {} (flush_one env ns w) \<and> grows w (flush_one env ns w)"
proof -
  define w1 where "w1 = w\<lparr>cl_poller := (cl_poller w)\<lparr>pl_pending_bumps := removeAll ns (pl_pending_bumps (cl_poller w))\<rparr>\<rparr>"
  have ok1: "cluster_ok {ns} w1" using assms(2) by (auto simp: cluster_ok_def w1_def)
  obtain ok w2 where b: "bump_version (fl_outcomes env ns) (fl_others env ns) ns w1 = (ok, w2)" by fastforce
  have "cluster_ok (if ok then {} else {ns}) w2 \<and> grows w1 w2"
    using bump_from_ok [OF _ ok1 b [unfolded bump_version_def]] assms(1) by (auto simp: flush_rely_def split: if_splits)
  then show ?thesis
    by (cases ok) (auto simp: flush_one_def Let_def w1_def [symmetric] b cluster_ok_def grows_def, simp_all add: w1_def)
qed

lemma flush_fold_ok:
  "flush_rely env \<Longrightarrow> cluster_ok {} w
     \<Longrightarrow> cluster_ok {} (foldl (\<lambda>w ns. flush_one env ns w) w nss) \<and> grows w (foldl (\<lambda>w ns. flush_one env ns w) w nss)"
proof (induction nss arbitrary: w)
  case (Cons ns nss)
  then show ?case using flush_one_ok [OF Cons.prems, of ns] grows_trans by fastforce
qed simp

lemma known_acknowledge:
  "known_of j (acknowledge ns v w) = (if j = ns then Some (max (default_to (known_of ns w) 0) v) else known_of j w)"
  by (simp add: known_of_def acknowledge_def update_conv)

lemma acknowledge_fields [simp]:
  "cl_caught (acknowledge ns v w) = cl_caught w" "cl_own (acknowledge ns v w) = cl_own w" "cl_requested (acknowledge ns v w) = cl_requested w"
  "version_of j (acknowledge ns v w) = version_of j w" "cl_versions (acknowledge ns v w) = cl_versions w"
  "pl_pending_bumps (cl_poller (acknowledge ns v w)) = pl_pending_bumps (cl_poller w)"
  "pl_poll_initialized (cl_poller (acknowledge ns v w)) = pl_poll_initialized (cl_poller w)"
  by (simp_all add: acknowledge_def)

lemma acknowledge_ok:
  assumes "cluster_ok F w" "v \<le> max (cl_caught w ns) (cl_own w ns)"
  shows "cluster_ok F (acknowledge ns v w) \<and> grows w (acknowledge ns v w)"
proof -
  have "default_to (known_of ns w) 0 \<le> max (cl_caught w ns) (cl_own w ns)"
    using assms(1) by (cases "known_of ns w") (simp_all add: cluster_ok_def le_max_iff_disj)
  then show ?thesis using assms by (auto simp: cluster_ok_def grows_def known_acknowledge)
qed

lemma acknowledge_own_ok:
  assumes "cluster_ok F w"
  shows "cluster_ok F (acknowledge_own ns v w) \<and> grows w (acknowledge_own ns v w)"
proof -
  define w1 where "w1 = w\<lparr>cl_own := (cl_own w)(ns := max (cl_own w ns) v)\<rparr>"
  have w1: "cluster_ok F w1" "grows w w1"
    using assms by (auto simp: w1_def cluster_ok_def grows_def version_of_def known_of_def le_max_iff_disj)
  have "acknowledge_own ns v w = acknowledge ns v w1"
    by (simp add: acknowledge_own_def acknowledge_def known_of_def w1_def)
  then show ?thesis using acknowledge_ok [OF w1(1), of v ns] w1(2) grows_trans by (auto simp: w1_def)
qed

lemma run_callbacks_ok:
  assumes "cluster_rely (po_others env ns)" "cluster_ok F w" "run_callbacks env ns w = (ok, w')"
  shows "cluster_ok F w' \<and> grows w w' \<and> ok = po_callbacks env ns \<and> (ok \<longrightarrow> version_of ns w \<le> cl_caught w' ns)"
proof -
  define w1 where "w1 = po_others env ns w"
  have w1: "cluster_ok F w1" "grows w w1" using rely_step [OF assms(1,2)] by (simp_all add: w1_def)
  have ok: "ok = po_callbacks env ns"
    "w' = (if ok then w1\<lparr>cl_caught := (cl_caught w1)(ns := max (cl_caught w1 ns) (version_of ns w))\<rparr> else w1)"
    using assms(3) by (auto simp: run_callbacks_def Let_def w1_def)
  have "version_of ns w \<le> version_of ns w1" using w1(2) by (simp add: grows_def)
  then show ?thesis
    using w1 ok by (cases ok) (auto simp: cluster_ok_def grows_def le_max_iff_disj order_trans)
qed

lemma poll_row_ok:
  assumes "cluster_rely (po_others env ns)" "cluster_ok {} w" "v \<le> version_of ns w"
  shows "cluster_ok {} (poll_row env w (ns, v)) \<and> grows w (poll_row env w (ns, v))
    \<and> (po_callbacks env ns \<longrightarrow> v \<le> max (cl_caught (poll_row env w (ns, v)) ns) (cl_own (poll_row env w (ns, v)) ns))"
proof (cases "changed ns v w")
  case True
  obtain ok w1 where r: "run_callbacks env ns w = (ok, w1)" by fastforce
  note c = run_callbacks_ok [OF assms(1,2) r]
  show ?thesis
  proof (cases ok)
    case ok: True
    then have "v \<le> cl_caught w1 ns" using c assms(3) by auto
    then show ?thesis
      using c ok acknowledge_ok [of "{}" w1 v ns] grows_trans by (auto simp: poll_row_def True r le_max_iff_disj)
  next
    case False
    then show ?thesis using c by (simp add: poll_row_def True r)
  qed
next
  case False
  have "v \<le> max (cl_caught w ns) (cl_own w ns)"
  proof (cases "known_of ns w")
    case None
    then have "v \<le> 0" using False assms(2) by (simp add: changed_def cluster_ok_def)
    then show ?thesis using assms(2) order_trans by (auto simp: cluster_ok_def le_max_iff_disj)
  next
    case (Some k)
    then have "v \<le> k" "k \<le> max (cl_caught w ns) (cl_own w ns)" using False assms(2) by (simp_all add: changed_def cluster_ok_def)
    then show ?thesis by simp
  qed
  then show ?thesis using acknowledge_ok [OF assms(2)] False by (simp add: poll_row_def)
qed

lemma poll_rows_ok:
  assumes "\<And>ns. cluster_rely (po_others env ns)" "cluster_ok {} w" "\<forall>(ns, v) \<in> set rows. v \<le> version_of ns w"
  shows "cluster_ok {} (foldl (poll_row env) w rows) \<and> grows w (foldl (poll_row env) w rows)
    \<and> (\<forall>(ns, v) \<in> set rows. po_callbacks env ns
          \<longrightarrow> v \<le> max (cl_caught (foldl (poll_row env) w rows) ns) (cl_own (foldl (poll_row env) w rows) ns))"
  using assms(2,3)
proof (induction rows arbitrary: w)
  case (Cons row rows)
  obtain ns v where row: "row = (ns, v)" by fastforce
  define w1 where "w1 = poll_row env w (ns, v)"
  have w1: "cluster_ok {} w1" "grows w w1" "po_callbacks env ns \<longrightarrow> v \<le> max (cl_caught w1 ns) (cl_own w1 ns)"
    using poll_row_ok [OF assms(1) Cons.prems(1), of v ns] Cons.prems(2) by (simp_all add: row w1_def)
  have "\<forall>(ns, v) \<in> set rows. v \<le> version_of ns w1"
    using Cons.prems(2) w1(2) by (fastforce simp: grows_def intro: order_trans)
  note ih = Cons.IH [OF w1(1) this]
  moreover have "po_callbacks env ns
      \<longrightarrow> v \<le> max (cl_caught (foldl (poll_row env) w1 rows) ns) (cl_own (foldl (poll_row env) w1 rows) ns)"
    using w1(3) ih by (auto simp: grows_def le_max_iff_disj intro: order_trans)
  ultimately show ?case using grows_trans [OF w1(2)] by (auto simp: row w1_def [symmetric])
qed simp

definition poll_rely :: "PollEnv \<Rightarrow> bool" where
  "poll_rely env = (flush_rely (po_flush env) \<and> cluster_rely (po_before_read env) \<and> cluster_rely (po_after_read env)
     \<and> (\<forall>ns. cluster_rely (po_others env ns)))"

lemma poll_once_ok:
  assumes "poll_rely env" "cluster_ok {} w" "poll_once env w = (ok, w')"
  shows "cluster_ok {} w' \<and> grows w w'
    \<and> (ok \<longrightarrow> (\<forall>ns. po_callbacks env ns \<longrightarrow> version_of ns w \<le> max (cl_caught w' ns) (cl_own w' ns)))"
proof -
  define w0 where "w0 = flush_pending_bumps (po_flush env) w"
  define w1 where "w1 = po_before_read env w0"
  have w0: "cluster_ok {} w0" "grows w w0"
    using flush_fold_ok [OF _ assms(2)] assms(1) by (simp_all add: w0_def flush_pending_bumps_def poll_rely_def)
  then have w1: "cluster_ok {} w1" "grows w w1"
    using rely_step [of "po_before_read env" "{}" w0] assms(1) grows_trans by (auto simp: w1_def poll_rely_def)
  note once = assms(3) [unfolded poll_once_def Let_def, folded w0_def, folded w1_def]
  show ?thesis
  proof (cases "po_read_fails env")
    case True
    then have w': "\<not> ok" "w' = po_after_read env (record_poll_failure w1)" using once by simp_all
    have "cluster_ok {} (record_poll_failure w1)" "grows w (record_poll_failure w1)"
      using w1 by (simp_all add: cluster_ok_def grows_def record_poll_failure_def)
    then show ?thesis
      using rely_step [of "po_after_read env"] assms(1) w' grows_trans by (auto simp: poll_rely_def)
  next
    case False
    define wr where "wr = po_after_read env w1"
    define w2 where "w2 = wr\<lparr>cl_poller := (cl_poller wr)\<lparr>pl_consecutive_poll_failures := 0\<rparr>\<rparr>"
    have wr: "cluster_ok {} wr" "grows w1 wr"
      using rely_step [of "po_after_read env" "{}" w1] assms(1) w1(1) by (simp_all add: wr_def poll_rely_def)
    define w3 where "w3 = foldl (poll_row env) w2 (cl_versions w1)"
    have w': "w' = w3\<lparr>cl_poller := (cl_poller w3)\<lparr>pl_poll_initialized := True\<rparr>\<rparr>"
      using once False by (simp add: w3_def w2_def wr_def)
    have w2: "cluster_ok {} w2" "grows w w2"
      using wr(1) grows_trans [OF w1(2) wr(2)] by (simp_all add: cluster_ok_def grows_def w2_def)
    have rows: "(ns, v) \<in> set (cl_versions w1) \<longleftrightarrow> map_of (cl_versions w1) ns = Some v" for ns v
      using w1(1) by (simp add: cluster_ok_def)
    have "\<forall>(ns, v) \<in> set (cl_versions w1). v \<le> version_of ns w2"
    proof clarify
      fix ns v
      assume "(ns, v) \<in> set (cl_versions w1)"
      then have "version_of ns w1 = v" using rows by (simp add: version_of_def)
      then show "v \<le> version_of ns w2" using wr(2) by (auto simp: w2_def grows_def)
    qed
    note w3 = poll_rows_ok [OF _ w2(1) this, of env, folded w3_def]
    have all: "cluster_ok {} w3" "grows w2 w3"
      and caught: "\<And>ns v. (ns, v) \<in> set (cl_versions w1) \<Longrightarrow> po_callbacks env ns \<Longrightarrow> v \<le> max (cl_caught w3 ns) (cl_own w3 ns)"
      using w3 assms(1) by (auto simp: poll_rely_def)
    have m: "version_of ns w \<le> version_of ns w1" for ns using w1(2) by (simp add: grows_def)
    have "version_of ns w \<le> max (cl_caught w3 ns) (cl_own w3 ns)" if "po_callbacks env ns" for ns
    proof (cases "map_of (cl_versions w1) ns")
      case None
      then have "version_of ns w \<le> 0" using m [of ns] by (simp add: version_of_def [of ns w1])
      then show ?thesis using all(1) order_trans by (auto simp: cluster_ok_def le_max_iff_disj)
    next
      case (Some v)
      then have "version_of ns w \<le> v" using m [of ns] by (simp add: version_of_def [of ns w1])
      then show ?thesis using caught [of ns v] rows Some that by fastforce
    qed
    then show ?thesis
      using all grows_trans [OF w2(2) all(2)] by (simp add: w' cluster_ok_def grows_def)
  qed
qed

text \<open>What other tasks and replicas do keeps the invariant too: a request, a bump by a peer, and a bump by this
  replica of a namespace it has already invalidated.\<close>

lemma request_bump_rely: "cluster_rely (request_bump ns)"
  by (auto simp: cluster_rely_def cluster_ok_def grows_def request_bump_def)

lemma cluster_ok_mono: "cluster_ok F w \<Longrightarrow> F \<subseteq> G \<Longrightarrow> cluster_ok G w"
  unfolding cluster_ok_def by blast

lemma peer_bump_rely: "cluster_rely (bump_once ns)"
  unfolding cluster_rely_def using bump_once_ok cluster_ok_mono by (metis Diff_subset)

lemma bump_local_rely:
  assumes "\<And>n. cluster_rely (others n)" "cluster_rely before_read" "cluster_rely after_read"
  shows "cluster_rely (\<lambda>w. snd (bump_local outcomes others before_read fails after_read ns w))"
  unfolding cluster_rely_def
proof (intro allI impI)
  fix F w
  assume w: "cluster_ok F w"
  obtain ok w1 where b: "bump_version outcomes others ns w = (ok, w1)" by fastforce
  have w1: "cluster_ok F w1" "grows w w1"
    using bump_from_ok [OF assms(1) w b [unfolded bump_version_def]] cluster_ok_mono by (auto split: if_splits)
  define w2 where "w2 = before_read w1"
  define w3 where "w3 = after_read w2"
  have "cluster_ok F w2" "grows w w2"
    using rely_step [OF assms(2) w1(1)] grows_trans [OF w1(2)] by (simp_all add: w2_def)
  then have w3: "cluster_ok F w3" "grows w w3"
    using rely_step [OF assms(3), of F w2] grows_trans by (auto simp: w3_def)
  show "cluster_ok F (snd (bump_local outcomes others before_read fails after_read ns w))
      \<and> grows w (snd (bump_local outcomes others before_read fails after_read ns w))"
    using w1 w3 acknowledge_own_ok [OF w3(1)] grows_trans [OF w3(2)]
    by (auto simp: bump_local_def b Let_def w2_def [symmetric] w3_def [symmetric] split: bool.split option.split)
qed

lemma initialize_ok:
  assumes "distinct (map fst (cl_versions w))" "pl_known_versions (cl_poller w) = []" "\<And>ns. cl_requested w ns = None"
    "\<And>ns. 0 \<le> cl_caught w ns \<and> cl_caught w ns \<le> version_of ns w"
  shows "cluster_ok {} (snd (initialize False w))"
proof -
  have "foldl (\<lambda>known (ns, v). AList.update ns v known) [] vs = vs" if "distinct (map fst vs)" for vs :: "(string \<times> int) list"
    using that
  proof (induction vs rule: rev_induct)
    case (snoc x vs)
    then show ?case by (cases x) (auto simp: update_fresh rev_image_eqI)
  qed simp
  then show ?thesis
    using assms by (auto simp: initialize_def cluster_ok_def version_of_def known_of_def intro: order_trans)
qed

section \<open>Properties\<close>

text \<open>C14: a poller that has read its baseline misses no invalidation by polling. The start is a state with the invariant
  \<open>cluster_ok\<close>, which \<open>initialize\<close> establishes; while the poll waits, other tasks and replicas may do anything that
  keeps it, such as requesting bumps, bumping versions as peers do, and bumping by \<open>bump_local\<close> on this replica. After a
  poll whose read succeeds, for every namespace whose callbacks succeed, the callbacks have run on a state at
  least as new as the version in the table when the poll began, or a \<open>bump_local\<close> of this replica has acknowledged
  that version or a newer one (which it does without running them, whoever wrote that version). A namespace whose version has neither been caught
  by its callbacks nor acknowledged by a \<open>bump_local\<close> counts as changed for the next poll, which runs them again. A bump that was requested, even
  while a bump of the same namespace was being written, is still pending or has been followed by a newer version.\<close>

theorem no_invalidation_missed:
  assumes "poll_rely env" "cluster_ok {} w" "poll_once env w = (ok, w')"
  shows "(ok \<longrightarrow> (\<forall>ns. po_callbacks env ns \<longrightarrow> version_of ns w \<le> cl_caught w' ns \<or> version_of ns w \<le> cl_own w' ns))
    \<and> (\<forall>ns. cl_caught w' ns < version_of ns w' \<longrightarrow> cl_own w' ns < version_of ns w' \<longrightarrow> changed ns (version_of ns w') w')
    \<and> (\<forall>ns v. cl_requested w' ns = Some v \<longrightarrow> ns \<in> set (pl_pending_bumps (cl_poller w')) \<or> v < version_of ns w')"
proof -
  note ok = poll_once_ok [OF assms]
  have "changed ns (version_of ns w') w'" if "cl_caught w' ns < version_of ns w'" "cl_own w' ns < version_of ns w'" for ns
  proof -
    have "0 \<le> cl_caught w' ns" "pl_poll_initialized (cl_poller w')"
      "\<And>k. known_of ns w' = Some k \<Longrightarrow> k \<le> max (cl_caught w' ns) (cl_own w' ns)"
      using ok by (simp_all add: cluster_ok_def)
    then show ?thesis using that by (auto simp: changed_def split: option.split)
  qed
  moreover have "ok \<longrightarrow> (\<forall>ns. po_callbacks env ns \<longrightarrow> version_of ns w \<le> cl_caught w' ns \<or> version_of ns w \<le> cl_own w' ns)"
    using ok by (simp add: le_max_iff_disj)
  ultimately show ?thesis using ok by (auto simp: cluster_ok_def)
qed

definition sample_cluster :: CacheCluster where
  "sample_cluster =
     \<lparr>cl_versions = [(''settings'', 4)], cl_poller = new_poller\<lparr>pl_known_versions := [(''settings'', 3)], pl_poll_initialized := True\<rparr>,
      cl_requested = (\<lambda>ns. None), cl_caught = (\<lambda>ns. if ns = ''settings'' then 3 else 0), cl_own = (\<lambda>ns. 0)\<rparr>"

text \<open>A peer bumps again, a task of this replica bumps another namespace that it has invalidated itself, and another
  asks for a bump, while the poll waits.\<close>

definition sample_poll :: PollEnv where
  "sample_poll =
     \<lparr>po_flush = \<lparr>fl_outcomes = (\<lambda>ns n. Written), fl_others = (\<lambda>ns n w. w)\<rparr>, po_read_fails = False,
      po_before_read = bump_once ''settings'',
      po_after_read = (\<lambda>w. snd (bump_local (\<lambda>n. Written) (\<lambda>n w. w) (\<lambda>w. w) False (\<lambda>w. w) ''credits'' w)), po_callbacks = (\<lambda>ns. True), po_others = (\<lambda>ns. request_bump ''settings'')\<rparr>"

theorem no_invalidation_missed_witness:
  "let w' = snd (poll_once sample_poll sample_cluster)
   in fst (poll_once sample_poll sample_cluster) \<and> 4 \<le> cl_caught w' ''settings'' \<and> known_of ''settings'' w' = Some 5
      \<and> cl_requested w' ''settings'' = Some 5 \<and> cl_own w' ''credits'' = 1 \<and> ''settings'' \<in> set (pl_pending_bumps (cl_poller w'))"
proof -
  have id: "cluster_rely (\<lambda>w. w)" by (simp add: cluster_rely_def)
  have rely: "poll_rely sample_poll"
    using id by (simp add: poll_rely_def flush_rely_def sample_poll_def request_bump_rely peer_bump_rely bump_local_rely)
  have start: "cluster_ok {} sample_cluster"
    by (auto simp: cluster_ok_def sample_cluster_def version_of_def known_of_def new_poller_def)
  have run: "poll_once sample_poll sample_cluster = (True, snd (poll_once sample_poll sample_cluster))"
    "known_of ''settings'' (snd (poll_once sample_poll sample_cluster)) = Some 5"
    "cl_requested (snd (poll_once sample_poll sample_cluster)) ''settings'' = Some 5"
    "version_of ''settings'' (snd (poll_once sample_poll sample_cluster)) = 5"
    "cl_own (snd (poll_once sample_poll sample_cluster)) ''credits'' = 1" "cl_own (snd (poll_once sample_poll sample_cluster)) ''settings'' = 0"
    by (simp_all add: bump_local_def acknowledge_own_def bump_version_def BUMP_RETRY_ATTEMPTS_def numeral_3_eq_3 poll_once_def sample_poll_def sample_cluster_def flush_pending_bumps_def new_poller_def bump_once_def
        poll_row_def changed_def known_of_def run_callbacks_def version_of_def request_bump_def acknowledge_def Let_def)
  note missed = no_invalidation_missed [OF rely start run(1)]
  have start_version: "version_of ''settings'' sample_cluster = 4" by (simp add: sample_cluster_def version_of_def)
  have sample_poll_callbacks: "po_callbacks sample_poll ns" for ns by (simp add: sample_poll_def)
  have "version_of ''settings'' sample_cluster \<le> cl_caught (snd (poll_once sample_poll sample_cluster)) ''settings''"
    using missed [THEN conjunct1, rule_format, OF TrueI sample_poll_callbacks, of "''settings''"] run(6) start_version by simp
  moreover have "''settings'' \<in> set (pl_pending_bumps (cl_poller (snd (poll_once sample_poll sample_cluster))))"
    using missed [THEN conjunct2, THEN conjunct2, rule_format, OF run(3)] run(4) by simp
  moreover note start_version
  moreover have "fst (poll_once sample_poll sample_cluster)" using run(1) by (metis fst_conv)
  ultimately show ?thesis
    using run(2,3,5) by (simp add: Let_def)
qed

text \<open>A refresh of the routing overlay rebuilds it from the committed statuses without losing what happened
  meanwhile: afterwards an account is unavailable exactly when its committed status says so (paused, deactivated,
  waiting for a sign-in, or no row at all) or when it carries a mark that was set while the refresh was reading.\<close>

lemma refresh_keeps_new_marks:
  "is_unavailable i (refresh_from_db rows others c)
     \<longleftrightarrow> (i \<in> set (ra_local_marks (others c)) \<and> i \<notin> set (ra_local_marks c))
       \<or> (case map_of (rev rows) i of None \<Rightarrow> True | Some s \<Rightarrow> s \<in> {PAUSED, REAUTH_REQUIRED, DEACTIVATED})"
proof -
  have "map_of (foldl (\<lambda>m (i, s). AList.update i s m) m0 rows) i = map_of (rev rows @ m0) i" for m0 :: "(string \<times> AccountStatus) list"
  proof (induction rows arbitrary: m0)
    case (Cons row rows)
    then show ?case by (cases row) (simp add: update_conv map_add_def split: option.split)
  qed simp
  from this [of "[]"] show ?thesis
    by (auto simp: refresh_from_db_def is_unavailable_def Let_def ROUTING_UNAVAILABLE_STATUSES_def split: option.splits)
qed

end
