(* ===== verification/Totp.thy ===== *)
theory Totp
  imports Prelude
begin

text \<open>
  One-time codes: \<open>codex-lb/app/core/auth/totp.py\<close>.

  A character is a code point below 256. The code generator \<open>pyotp.TOTP(secret).at(t)\<close> is the parameter
  \<open>code_at\<close>; \<open>base64.b32decode\<close> is modelled as far as the source uses it, which is whether it raises.
  \<open>hmac.compare_digest\<close> raises \<open>TypeError\<close> on a string with a character outside ASCII, and
  \<open>str.isdigit\<close> accepts the three superscript digits of Latin-1 besides the ASCII digits.
\<close>

record TotpVerificationResult =
  is_valid :: bool
  matched_step :: "int option"

definition code_point :: "char \<Rightarrow> nat" where
  "code_point c = of_char c"

definition is_ascii :: "string \<Rightarrow> bool" where
  "is_ascii s = list_all (\<lambda>c. code_point c < 128) s"

definition latin_space :: "char \<Rightarrow> bool" where
  "latin_space c = (is_space c \<or> code_point c = 133 \<or> code_point c = 160)"

definition upper_chars :: "char \<Rightarrow> string" where
  "upper_chars c =
     (if 97 \<le> code_point c \<and> code_point c \<le> 122 then [char_of (code_point c - 32)]
      else if code_point c = 223 then ''SS''
      else [c])"

definition base32_digit :: "char \<Rightarrow> bool" where
  "base32_digit c = (65 \<le> code_point c \<and> code_point c \<le> 90 \<or> 50 \<le> code_point c \<and> code_point c \<le> 55)"

text \<open>\<open>b32decode\<close> decodes: full quanta, no foreign digit, an amount of padding that ends a quantum.\<close>

definition b32_decodes :: "string \<Rightarrow> bool" where
  "b32_decodes s =
     (let body = rev (dropWhile (\<lambda>c. c = CHR ''='') (rev s));
          padchars = length s - length body
      in length s mod 8 = 0 \<and> list_all base32_digit body \<and> padchars \<in> {0, 1, 3, 4, 6})"

definition normalize_secret :: "string \<Rightarrow> string result" where
  "normalize_secret secret =
     (let compact = concat (map upper_chars (filter (\<lambda>c. \<not> latin_space c) secret))
      in if compact = [] then Inl ValueError
         else let padding = replicate (nat (- int (length compact) mod 8)) (CHR ''='')
              in if b32_decodes (compact @ padding) then Inr compact else Inl ValueError)"

definition isdigit :: "char \<Rightarrow> bool" where
  "isdigit c = (is_digit c \<or> code_point c \<in> {178, 179, 185})"

definition normalize_code :: "string \<Rightarrow> string" where
  "normalize_code code = filter isdigit code"

definition time_step :: "int \<Rightarrow> int" where
  "time_step timestamp = timestamp div 30"

definition compare_digest :: "string \<Rightarrow> string \<Rightarrow> bool result" where
  "compare_digest a b = (if is_ascii a \<and> is_ascii b then Inr (a = b) else Inl TypeError)"

text \<open>The loop over the offsets of the window.\<close>

fun search_step :: "(int \<Rightarrow> string) \<Rightarrow> string \<Rightarrow> int option \<Rightarrow> int \<Rightarrow> int list \<Rightarrow> TotpVerificationResult result" where
  "search_step code_of code last_step current [] = Inr \<lparr>is_valid = False, matched_step = None\<rparr>"
| "search_step code_of code last_step current (offset # offsets) =
     (let st = current + offset
      in if (case last_step of None \<Rightarrow> False | Some v \<Rightarrow> st \<le> v)
         then search_step code_of code last_step current offsets
         else case compare_digest (code_of (st * 30)) code of
                Inl e \<Rightarrow> Inl e
              | Inr True \<Rightarrow> Inr \<lparr>is_valid = True, matched_step = Some st\<rparr>
              | Inr False \<Rightarrow> search_step code_of code last_step current offsets)"

definition verify_totp_code :: "(string \<Rightarrow> int \<Rightarrow> string) \<Rightarrow> string \<Rightarrow> string \<Rightarrow> int \<Rightarrow> int \<Rightarrow> int option \<Rightarrow>
    TotpVerificationResult result" where
  "verify_totp_code code_at secret code window now last_step =
     (if window < 0 then Inl ValueError
      else res_bind (normalize_secret secret) (\<lambda>sec.
        if length (normalize_code code) \<noteq> 6 then Inr \<lparr>is_valid = False, matched_step = None\<rparr>
        else search_step (code_at sec) (normalize_code code) last_step (time_step now) [- window..window]))"

text \<open>The number of characters of a fresh secret.\<close>

definition secret_chars :: "int \<Rightarrow> int result" where
  "secret_chars bytes_length =
     (if bytes_length \<le> 0 then Inl ValueError else Inr (max 32 ((bytes_length * 8 + 4) div 5)))"

section \<open>What a verification accepts\<close>

text \<open>The generator makes ASCII texts.\<close>

definition ascii_codes :: "(string \<Rightarrow> int \<Rightarrow> string) \<Rightarrow> bool" where
  "ascii_codes code_at \<longleftrightarrow> (\<forall>secret t. is_ascii (code_at secret t))"

abbreviation fresh_step :: "int option \<Rightarrow> int \<Rightarrow> bool" where
  "fresh_step last_step st \<equiv> (\<forall>v. last_step = Some v \<longrightarrow> v < st)"

lemma search_step_sound:
  assumes "search_step code_of code last_step current offsets = Inr v" "is_valid v"
  shows "\<exists>st. matched_step v = Some st \<and> st - current \<in> set offsets \<and> fresh_step last_step st \<and> code_of (st * 30) = code"
  using assms
proof (induction offsets)
  case (Cons d ds)
  show ?case
  proof (cases "fresh_step last_step (current + d) \<and> code_of ((current + d) * 30) = code \<and> is_ascii code")
    case True
    then have "matched_step v = Some (current + d)"
      using Cons.prems(1) by (auto simp: Let_def compare_digest_def split: option.splits)
    then show ?thesis using True by auto
  next
    case False
    then have "search_step code_of code last_step current ds = Inr v"
      using Cons.prems(1) by (auto simp: Let_def compare_digest_def split: option.splits if_splits)
    then show ?thesis using Cons.IH Cons.prems(2) by auto
  qed
qed auto

lemma search_step_complete:
  assumes "is_ascii code" "\<And>t. is_ascii (code_of t)"
  shows "\<exists>v. search_step code_of code last_step current offsets = Inr v \<and>
     (is_valid v \<longleftrightarrow> (\<exists>d \<in> set offsets. fresh_step last_step (current + d) \<and> code_of ((current + d) * 30) = code))"
proof (induction offsets)
  case (Cons d ds)
  then obtain v where v: "search_step code_of code last_step current ds = Inr v"
    "is_valid v \<longleftrightarrow> (\<exists>d \<in> set ds. fresh_step last_step (current + d) \<and> code_of ((current + d) * 30) = code)"
    by blast
  show ?case
  proof (cases "fresh_step last_step (current + d) \<and> code_of ((current + d) * 30) = code")
    case True
    then show ?thesis using assms by (auto simp: Let_def compare_digest_def split: option.splits)
  next
    case False
    then have "search_step code_of code last_step current (d # ds) = Inr v"
      using v(1) assms by (auto simp: Let_def compare_digest_def split: option.splits)
    then show ?thesis using False v(2) by auto
  qed
qed simp

lemma search_step_invalid:
  "search_step code_of code last_step current offsets = Inr v \<Longrightarrow> \<not> is_valid v \<Longrightarrow> matched_step v = None"
  by (induction offsets) (auto simp: Let_def split: if_splits sum.splits bool.splits)

lemma verify_totp_code_sound:
  assumes "verify_totp_code code_at secret code window now last_step = Inr v" "is_valid v"
  shows "\<exists>st sec. matched_step v = Some st \<and> normalize_secret secret = Inr sec \<and> \<bar>st - time_step now\<bar> \<le> window \<and>
    fresh_step last_step st \<and> code_at sec (st * 30) = normalize_code code"
proof -
  obtain sec where sec: "normalize_secret secret = Inr sec"
    and found: "search_step (code_at sec) (normalize_code code) last_step (time_step now) [- window..window] = Inr v"
    using assms by (cases "normalize_secret secret") (auto simp: verify_totp_code_def split: if_splits)
  show ?thesis using search_step_sound [OF found assms(2)] sec by force
qed

lemma bex_window: "(\<exists>d \<in> set [- w..w]. P (c + d)) \<longleftrightarrow> (\<exists>st. \<bar>st - c\<bar> \<le> w \<and> P st)" for c :: int
proof
  assume "\<exists>d \<in> set [- w..w]. P (c + d)"
  then obtain d where "d \<in> set [- w..w]" "P (c + d)" by blast
  then show "\<exists>st. \<bar>st - c\<bar> \<le> w \<and> P st" by (intro exI [of _ "c + d"]) auto
next
  assume "\<exists>st. \<bar>st - c\<bar> \<le> w \<and> P st"
  then obtain st where "\<bar>st - c\<bar> \<le> w" "P st" by blast
  then show "\<exists>d \<in> set [- w..w]. P (c + d)" by (intro bexI [of _ "st - c"]) auto
qed

text \<open>For a code of ASCII characters and a secret that decodes, the verification returns, and it accepts
  exactly when the digits of the code are the six digits the secret gives for a step at most
  \<open>window\<close> steps from the current one and later than the last verified step.\<close>

lemma totp_accepts_exactly:
  assumes "ascii_codes code_at" "0 \<le> window" "normalize_secret secret = Inr sec" "is_ascii code"
  shows "\<exists>v. verify_totp_code code_at secret code window now last_step = Inr v \<and>
    (is_valid v \<longleftrightarrow> length (normalize_code code) = 6 \<and>
       (\<exists>st. \<bar>st - time_step now\<bar> \<le> window \<and> (\<forall>u. last_step = Some u \<longrightarrow> u < st) \<and>
          code_at sec (st * 30) = normalize_code code))"
proof (cases "length (normalize_code code) = 6")
  case True
  have "is_ascii (normalize_code code)"
    using assms(4) by (auto simp: is_ascii_def normalize_code_def list_all_iff)
  then obtain v where v: "search_step (code_at sec) (normalize_code code) last_step (time_step now) [- window..window] = Inr v"
    "is_valid v \<longleftrightarrow> (\<exists>d \<in> set [- window..window]. fresh_step last_step (time_step now + d) \<and>
        code_at sec ((time_step now + d) * 30) = normalize_code code)"
    using search_step_complete [of "normalize_code code" "code_at sec" last_step "time_step now" "[- window..window]"] assms(1)
    by (auto simp only: ascii_codes_def)
  have "is_valid v \<longleftrightarrow> (\<exists>st. \<bar>st - time_step now\<bar> \<le> window \<and>
      (fresh_step last_step st \<and> code_at sec (st * 30) = normalize_code code))"
    unfolding v(2) by (rule bex_window)
  then show ?thesis using v(1) True assms(2,3) by (simp add: verify_totp_code_def)
qed (use assms in \<open>simp add: verify_totp_code_def\<close>)

definition sample_codes :: "string \<Rightarrow> int \<Rightarrow> string" where
  "sample_codes secret t = (if t = 60 then ''123456'' else ''000000'')"

lemma sample_codes_ascii: "ascii_codes sample_codes"
  by (simp add: ascii_codes_def sample_codes_def is_ascii_def code_point_def)

text \<open>C39: a code of which six characters count as digits, one of them a superscript digit, is refused as invalid only when
  every step of the window is at or before the last step that was verified; otherwise (in particular when there is no
  last step) the comparison raises \<open>TypeError\<close>. (The secret is well-formed and the window is not negative.)\<close>

theorem foreign_digit_raises:
  assumes "0 \<le> window" "normalize_secret secret = Inr sec"
    and "length (normalize_code code) = 6" "\<not> is_ascii (normalize_code code)"
  shows "verify_totp_code code_at secret code window now last_step =
    (if \<exists>v. last_step = Some v \<and> time_step now + window \<le> v then Inr \<lparr>is_valid = False, matched_step = None\<rparr> else Inl TypeError)"
proof -
  have raises: "search_step code_of (normalize_code code) last_step current offsets
      = (if \<forall>d \<in> set offsets. \<not> fresh_step last_step (current + d) then Inr \<lparr>is_valid = False, matched_step = None\<rparr> else Inl TypeError)"
    for code_of current offsets
    using assms(4) by (induction offsets) (auto simp: Let_def compare_digest_def split: option.splits)
  have "(\<forall>d \<in> set [- window..window]. \<not> fresh_step last_step (time_step now + d))
      \<longleftrightarrow> (\<exists>v. last_step = Some v \<and> time_step now + window \<le> v)"
  proof (cases last_step)
    case (Some v)
    have "time_step now + window \<le> v" if "\<forall>d \<in> set [- window..window]. time_step now + d \<le> v"
      using that assms(1) by simp
    then show ?thesis using Some by (auto simp: not_less)
  qed (use assms(1) in auto)
  then show ?thesis using assms(1-3) unfolding verify_totp_code_def by (simp add: raises)
qed

theorem foreign_digit_raises_witness:
  "verify_totp_code sample_codes ''ABCDEFGH'' (''12345'' @ [char_of (178 :: nat)]) 1 45 (Some 1) = Inl TypeError"
proof -
  have "normalize_secret ''ABCDEFGH'' = Inr ''ABCDEFGH''" by code_simp
  moreover have "length (normalize_code (''12345'' @ [char_of (178 :: nat)])) = 6" by code_simp
  moreover have "\<not> is_ascii (normalize_code (''12345'' @ [char_of (178 :: nat)]))" by code_simp
  ultimately show ?thesis
    using foreign_digit_raises [of 1 "''ABCDEFGH''" "''ABCDEFGH''" "''12345'' @ [char_of (178 :: nat)]" sample_codes 45 "Some 1"]
    by (simp add: time_step_def)
qed

end
