(* ===== verification/Dashboard_Session.thy ===== *)
theory Dashboard_Session
  imports Totp Json
begin

text \<open>
  Who may use the dashboard: the session cookies of \<open>DashboardSessionStore\<close>
  (\<open>codex-lb/app/modules/dashboard_auth/service.py\<close>), the request authentication of
  \<open>app/core/auth/dashboard_mode.py\<close>, the session lifetime of \<open>app/core/auth/dashboard_session_ttl.py\<close>
  and the access check \<open>validate_dashboard_session\<close> of \<open>app/core/auth/dependencies.py\<close>.

  The third-party cryptography is the record \<open>Crypto\<close> of parameters: \<open>seal\<close> and \<open>unseal\<close> are
  \<open>json.dumps\<close> then Fernet encryption under an initialisation vector, and decryption then \<open>json.loads\<close>
  (\<open>None\<close> when either raises); \<open>open_secret\<close> decrypts a stored secret and \<open>seal_secret\<close> encrypts it;
  \<open>hashpw\<close> and \<open>checkpw\<close> are bcrypt (\<open>None\<close> when it raises \<open>ValueError\<close>), \<open>code_at\<close> is pyotp, \<open>sha256\<close> hashlib. Clocks are \<open>int(time())\<close>.
\<close>

record Crypto =
  seal :: "nat \<Rightarrow> json \<Rightarrow> string"
  unseal :: "string \<Rightarrow> json option"
  seal_secret :: "nat \<Rightarrow> string \<Rightarrow> string"
  open_secret :: "string \<Rightarrow> string option"
  hashpw :: "nat \<Rightarrow> string \<Rightarrow> string"
  checkpw :: "string \<Rightarrow> string \<Rightarrow> bool option"
  code_at :: "string \<Rightarrow> int \<Rightarrow> string"
  sha256 :: "string \<Rightarrow> string"

datatype DashboardRole = ADMIN | GUEST

datatype DashboardPermission = READ | WRITE

datatype DashboardAuthMode = STANDARD | TRUSTED_HEADER | DISABLED

record DashboardPrincipal =
  principal_role :: DashboardRole
  permissions :: "DashboardPermission list"
  principal_mode :: DashboardAuthMode
  principal_actor :: "string option"

definition can :: "DashboardPrincipal \<Rightarrow> DashboardPermission \<Rightarrow> bool" where
  "can p perm = (perm \<in> set (permissions p))"

definition ADMIN_PERMISSIONS :: "DashboardPermission list" where
  "ADMIN_PERMISSIONS = [READ, WRITE]"

definition GUEST_PERMISSIONS :: "DashboardPermission list" where
  "GUEST_PERMISSIONS = [READ]"

definition admin_principal :: "DashboardAuthMode \<Rightarrow> string option \<Rightarrow> DashboardPrincipal" where
  "admin_principal mode actor =
     \<lparr>principal_role = ADMIN, permissions = ADMIN_PERMISSIONS, principal_mode = mode, principal_actor = actor\<rparr>"

definition guest_principal :: DashboardPrincipal where
  "guest_principal =
     \<lparr>principal_role = GUEST, permissions = GUEST_PERMISSIONS, principal_mode = STANDARD, principal_actor = None\<rparr>"

text \<open>The errors the dashboard answers with, by their codes; \<open>ServerError\<close> is an exception no handler
  turns into an answer of its own.\<close>

datatype dashboard_error =
    DashboardAuthError string
  | DashboardBadRequestError string
  | DashboardConflictError string
  | DashboardPermissionError string
  | DashboardValidationError string
  | DashboardRateLimited string int
  | ServerError

section \<open>Session cookies\<close>

record DashboardSessionState =
  expires_at :: int
  password_verified :: bool
  totp_verified :: bool
  session_role :: DashboardRole
  guest_verified :: bool

definition role_value :: "DashboardRole \<Rightarrow> string" where
  "role_value r = (case r of ADMIN \<Rightarrow> ''admin'' | GUEST \<Rightarrow> ''guest'')"

definition parse_role :: "string \<Rightarrow> DashboardRole option" where
  "parse_role s = (if s = ''admin'' then Some ADMIN else if s = ''guest'' then Some GUEST else None)"

definition session_payload :: "DashboardSessionState \<Rightarrow> json" where
  "session_payload st = JObj
     [(''exp'', JInt (expires_at st)), (''pw'', JBool (password_verified st)), (''tv'', JBool (totp_verified st)),
      (''role'', JStr (role_value (session_role st))), (''gv'', JBool (guest_verified st))]"

definition create_session :: "Crypto \<Rightarrow> nat \<Rightarrow> int \<Rightarrow> bool \<Rightarrow> bool \<Rightarrow> int \<Rightarrow> DashboardRole \<Rightarrow> bool \<Rightarrow> string" where
  "create_session C iv now pw tv ttl_seconds role gv =
     seal C iv (session_payload \<lparr>expires_at = now + ttl_seconds, password_verified = pw, totp_verified = tv,
                                 session_role = role, guest_verified = gv\<rparr>)"

text \<open>\<open>isinstance(v, int)\<close> and \<open>isinstance(v, bool)\<close>: a Python bool is an int.\<close>

definition as_int :: "json option \<Rightarrow> int option" where
  "as_int v = (case v of Some (JInt i) \<Rightarrow> Some i | Some (JBool b) \<Rightarrow> Some (if b then 1 else 0) | _ \<Rightarrow> None)"

definition as_bool :: "json option \<Rightarrow> bool option" where
  "as_bool v = (case v of Some (JBool b) \<Rightarrow> Some b | _ \<Rightarrow> None)"

definition as_str :: "json option \<Rightarrow> string option" where
  "as_str v = (case v of Some (JStr s) \<Rightarrow> Some s | _ \<Rightarrow> None)"

text \<open>The part of \<open>get\<close> after \<open>json.loads\<close>; \<open>data.get\<close> raises on a payload that is no object.\<close>

definition read_payload :: "int \<Rightarrow> json \<Rightarrow> dashboard_error + DashboardSessionState option" where
  "read_payload now data =
     (case data of
        JObj entries \<Rightarrow>
          Inr (case (as_int (map_of entries ''exp''), as_bool (map_of entries ''pw''), as_bool (map_of entries ''tv''),
                     as_bool (Some (default_to (map_of entries ''gv'') (JBool False))),
                     Option.bind (as_str (Some (default_to (map_of entries ''role'') (JStr ''admin'')))) parse_role) of
                 (Some e, Some pw, Some tv, Some gv, Some role) \<Rightarrow>
                   if e < now then None
                   else Some \<lparr>expires_at = e, password_verified = pw, totp_verified = tv,
                              session_role = role, guest_verified = gv\<rparr>
               | _ \<Rightarrow> None)
      | _ \<Rightarrow> Inl ServerError)"

definition read_session :: "Crypto \<Rightarrow> int \<Rightarrow> string option \<Rightarrow> dashboard_error + DashboardSessionState option" where
  "read_session C now session_id =
     (case session_id of
        None \<Rightarrow> Inr None
      | Some sid \<Rightarrow>
          let token = py_strip sid
          in if sid = [] \<or> token = [] \<or> \<not> is_ascii token then Inr None
             else case unseal C token of
                    None \<Rightarrow> Inr None
                  | Some data \<Rightarrow> read_payload now data)"

definition is_password_verified :: "Crypto \<Rightarrow> int \<Rightarrow> string option \<Rightarrow> dashboard_error + bool" where
  "is_password_verified C now session_id =
     res_map (\<lambda>s. case s of None \<Rightarrow> False | Some st \<Rightarrow> session_role st = ADMIN \<and> password_verified st)
       (read_session C now session_id)"

definition is_totp_verified :: "Crypto \<Rightarrow> int \<Rightarrow> string option \<Rightarrow> dashboard_error + bool" where
  "is_totp_verified C now session_id =
     res_map (\<lambda>s. case s of None \<Rightarrow> False | Some st \<Rightarrow> session_role st = ADMIN \<and> totp_verified st)
       (read_session C now session_id)"

section \<open>Requests\<close>

text \<open>
  A request, as far as the dashboard reads it: the peer of its socket, whether that peer is one of the
  trusted proxies, whether \<open>is_local_request\<close> holds of it, whether its URL names a loopback host, its
  headers (names in lower case), its cookie, and what \<open>request.state\<close> has cached.
\<close>

record DashboardRequest =
  client_host :: "string option"
  from_trusted_proxy :: bool
  is_local :: bool
  loopback_url :: bool
  headers :: "(string \<times> string) list"
  session_cookie :: "string option"
  cached_auth :: "(DashboardAuthMode \<times> string option) option"
  cached_principal :: "DashboardPrincipal option"

record AppSettings =
  dashboard_auth_mode :: DashboardAuthMode
  firewall_trust_proxy_headers :: bool
  dashboard_auth_proxy_header :: string
  trust_loopback_host_for_long_sessions :: bool
  dashboard_bootstrap_token :: "string option"

definition get_trusted_header_auth :: "AppSettings \<Rightarrow> DashboardRequest \<Rightarrow> (DashboardAuthMode \<times> string option) option" where
  "get_trusted_header_auth cfg req =
     (if default_to (client_host req) [] = [] \<or> \<not> firewall_trust_proxy_headers cfg then None
      else if \<not> from_trusted_proxy req then None
      else case map_of (headers req) (py_lower (dashboard_auth_proxy_header cfg)) of
             None \<Rightarrow> None
           | Some raw \<Rightarrow> if py_strip raw = [] then None else Some (TRUSTED_HEADER, Some (py_strip raw)))"

definition get_dashboard_request_auth :: "AppSettings \<Rightarrow> DashboardRequest \<Rightarrow>
    DashboardRequest \<times> (DashboardAuthMode \<times> string option) option" where
  "get_dashboard_request_auth cfg req =
     (case cached_auth req of
        Some a \<Rightarrow> (req, Some a)
      | None \<Rightarrow>
          let auth = (case dashboard_auth_mode cfg of
                        DISABLED \<Rightarrow> Some (DISABLED, None)
                      | TRUSTED_HEADER \<Rightarrow> get_trusted_header_auth cfg req
                      | STANDARD \<Rightarrow> None)
          in (if auth = None then req else req\<lparr>cached_auth := auth\<rparr>, auth))"

definition password_management_enabled :: "DashboardAuthMode \<Rightarrow> bool" where
  "password_management_enabled mode = (mode \<noteq> DISABLED)"

definition LONG_TTL_THRESHOLD :: int where
  "LONG_TTL_THRESHOLD = 30 * 24 * 60 * 60"

definition REMOTE_TTL :: int where
  "REMOTE_TTL = 12 * 60 * 60"

definition forwarded_headers :: "string list" where
  "forwarded_headers = [''x-forwarded-for'', ''forwarded'', ''x-real-ip'', ''true-client-ip'', ''cf-connecting-ip'']"

definition allows_long_local_session :: "AppSettings \<Rightarrow> DashboardRequest \<Rightarrow> bool" where
  "allows_long_local_session cfg req =
     (if dashboard_auth_mode cfg \<noteq> STANDARD then False
      else if firewall_trust_proxy_headers cfg then False
      else if is_local req then True
      else if \<not> trust_loopback_host_for_long_sessions cfg then False
      else if list_ex (\<lambda>h. default_to (map_of (headers req) h) [] \<noteq> []) forwarded_headers then False
      else loopback_url req)"

definition resolve_session_ttl :: "AppSettings \<Rightarrow> DashboardRequest \<Rightarrow> int \<Rightarrow> int" where
  "resolve_session_ttl cfg req configured =
     (if configured \<le> LONG_TTL_THRESHOLD then configured
      else if allows_long_local_session cfg req then configured
      else REMOTE_TTL)"

section \<open>The access check\<close>

text \<open>The row of \<open>dashboard_settings\<close>, as far as authentication reads or writes it.\<close>

record DashboardSettings =
  password_hash :: "string option"
  guest_access_enabled :: bool
  guest_password_hash :: "string option"
  totp_required_on_login :: bool
  totp_secret_encrypted :: "string option"
  totp_last_verified_step :: "int option"
  bootstrap_token_encrypted :: "string option"
  bootstrap_token_hash :: "string option"
  dashboard_session_ttl_seconds :: int
  version :: int

text \<open>\<open>bool(settings.password_hash)\<close>: an empty hash counts as none here.\<close>

definition password_required :: "DashboardSettings \<Rightarrow> bool" where
  "password_required row = (default_to (password_hash row) [] \<noteq> [])"

definition requires_auth :: "DashboardSettings \<Rightarrow> bool" where
  "requires_auth row = (password_required row \<or> totp_required_on_login row)"

definition guest_password_required :: "DashboardSettings \<Rightarrow> bool" where
  "guest_password_required row = (guest_access_enabled row \<and> guest_password_hash row \<noteq> None)"

definition passwordless_fallback_allowed :: "AppSettings \<Rightarrow> DashboardSettings \<Rightarrow> bool" where
  "passwordless_fallback_allowed cfg row =
     (\<not> (dashboard_auth_mode cfg = TRUSTED_HEADER \<and> requires_auth row \<and> guest_access_enabled row \<and>
        \<not> guest_password_required row))"

definition admin_session :: "DashboardSessionState option \<Rightarrow> bool" where
  "admin_session s = (case s of None \<Rightarrow> False | Some st \<Rightarrow> session_role st = ADMIN \<and> password_verified st)"

definition totp_session :: "DashboardSessionState option \<Rightarrow> bool" where
  "totp_session s = (case s of None \<Rightarrow> False | Some st \<Rightarrow> totp_verified st)"

definition guest_session :: "AppSettings \<Rightarrow> DashboardSettings \<Rightarrow> DashboardSessionState option \<Rightarrow> bool" where
  "guest_session cfg row s =
     (case s of
        None \<Rightarrow> False
      | Some st \<Rightarrow> session_role st = GUEST \<and> guest_access_enabled row \<and>
          (\<not> guest_password_required row \<and> passwordless_fallback_allowed cfg row \<or> guest_verified st))"

text \<open>The decision once the cookie has been read, in the order of the source.\<close>

definition decide_access :: "AppSettings \<Rightarrow> DashboardSettings \<Rightarrow> bool \<Rightarrow> DashboardSessionState option \<Rightarrow>
    dashboard_error + DashboardPrincipal" where
  "decide_access cfg row local s =
     (if dashboard_auth_mode cfg = TRUSTED_HEADER \<and> \<not> (admin_session s \<and> password_required row)
      then Inl (DashboardAuthError ''proxy_auth_required'')
      else if guest_session cfg row s then Inr guest_principal
      else if admin_session s \<and> password_required row
      then if totp_required_on_login row \<and> \<not> totp_session s
           then Inl (DashboardAuthError ''totp_required'')
           else Inr (admin_principal STANDARD None)
      else if \<not> requires_auth row
      then if \<not> local
           then if guest_access_enabled row
                then if \<not> guest_password_required row then Inr guest_principal
                     else Inl (DashboardAuthError ''authentication_required'')
                else Inl (DashboardAuthError ''bootstrap_required'')
           else Inr (admin_principal STANDARD None)
      else if guest_access_enabled row \<and> \<not> guest_password_required row \<and> passwordless_fallback_allowed cfg row
      then Inr guest_principal
      else case s of
             None \<Rightarrow> Inl (DashboardAuthError ''authentication_required'')
           | Some st \<Rightarrow>
               if session_role st \<noteq> ADMIN then Inl (DashboardAuthError ''authentication_required'')
               else if password_required row \<and> \<not> password_verified st
               then Inl (DashboardAuthError ''authentication_required'')
               else if totp_required_on_login row \<and> \<not> totp_verified st
               then Inl (DashboardAuthError ''totp_required'')
               else Inr (admin_principal STANDARD None))"

definition validate_dashboard_session :: "Crypto \<Rightarrow> AppSettings \<Rightarrow> DashboardSettings \<Rightarrow> int \<Rightarrow> DashboardRequest \<Rightarrow>
    DashboardRequest \<times> (dashboard_error + DashboardPrincipal)" where
  "validate_dashboard_session C cfg row now req =
     (case cached_principal req of
        Some p \<Rightarrow> (req, Inr p)
      | None \<Rightarrow>
          (case get_dashboard_request_auth cfg req of
             (req', Some (mode, actor)) \<Rightarrow>
               let p = admin_principal mode actor in (req'\<lparr>cached_principal := Some p\<rparr>, Inr p)
           | (req', None) \<Rightarrow>
               (case res_bind (read_session C now (session_cookie req')) (decide_access cfg row (is_local req')) of
                  Inl e \<Rightarrow> (req', Inl e)
                | Inr p \<Rightarrow> (req'\<lparr>cached_principal := Some p\<rparr>, Inr p))))"

definition require_write_access :: "Crypto \<Rightarrow> AppSettings \<Rightarrow> DashboardSettings \<Rightarrow> int \<Rightarrow> DashboardRequest \<Rightarrow>
    DashboardRequest \<times> (dashboard_error + DashboardPrincipal)" where
  "require_write_access C cfg row now req =
     (case validate_dashboard_session C cfg row now req of
        (req', Inl e) \<Rightarrow> (req', Inl e)
      | (req', Inr p) \<Rightarrow> if can p WRITE then (req', Inr p) else (req', Inl (DashboardPermissionError ''read_only_access'')))"

section \<open>Cookies read back\<close>

text \<open>What the source relies on in Fernet: a sealed session payload opens to itself, and a sealed text is
  printable ASCII without surrounding space.\<close>

definition crypto_laws :: "Crypto \<Rightarrow> bool" where
  "crypto_laws C \<longleftrightarrow> (\<forall>iv st. unseal C (seal C iv (session_payload st)) = Some (session_payload st))"

definition printable_tokens :: "Crypto \<Rightarrow> bool" where
  "printable_tokens C \<longleftrightarrow> (\<forall>iv st. let tok = seal C iv (session_payload st)
     in tok \<noteq> [] \<and> py_strip tok = tok \<and> is_ascii tok)"

lemma parse_role_value [simp]: "parse_role (role_value r) = Some r"
  by (cases r) (simp_all add: parse_role_def role_value_def)

lemma read_session_payload:
  "read_payload now (session_payload st) = Inr (if expires_at st < now then None else Some st)"
  by (simp add: read_payload_def session_payload_def as_int_def as_bool_def as_str_def)

lemma get_created_session:
  assumes "crypto_laws C" "printable_tokens C"
  shows "read_session C later (Some (create_session C iv now pw tv ttl role gv)) =
    Inr (if now + ttl < later then None
         else Some \<lparr>expires_at = now + ttl, password_verified = pw, totp_verified = tv,
                    session_role = role, guest_verified = gv\<rparr>)"
proof -
  let ?st = "\<lparr>expires_at = now + ttl, password_verified = pw, totp_verified = tv, session_role = role, guest_verified = gv\<rparr>"
  have "seal C iv (session_payload ?st) \<noteq> []" "py_strip (seal C iv (session_payload ?st)) = seal C iv (session_payload ?st)"
    "is_ascii (seal C iv (session_payload ?st))"
    using assms(2) by (auto simp: printable_tokens_def Let_def)
  moreover have "unseal C (seal C iv (session_payload ?st)) = Some (session_payload ?st)"
    using assms(1) by (simp add: crypto_laws_def)
  ultimately show ?thesis
    by (simp add: read_session_def create_session_def read_session_payload)
qed

text \<open>A cookie the session store creates is read back as the session it was created for until its time
  to live has passed, and as no session afterwards.\<close>

lemma session_roundtrip:
  assumes "crypto_laws C" "printable_tokens C"
  shows "read_session C later (Some (create_session C iv now pw tv ttl role gv)) =
    Inr (if now + ttl < later then None
         else Some \<lparr>expires_at = now + ttl, password_verified = pw, totp_verified = tv,
                    session_role = role, guest_verified = gv\<rparr>)"
  using assms by (rule get_created_session)

section \<open>Sample cryptography\<close>

text \<open>A concrete instance of the parameters, for evaluating the definitions: a token spells the flags of
  its session and counts its expiry in letters.\<close>

definition flag :: "bool \<Rightarrow> char" where
  "flag b = (if b then CHR ''T'' else CHR ''F'')"

definition spell_session :: "int \<Rightarrow> bool \<Rightarrow> bool \<Rightarrow> bool \<Rightarrow> bool \<Rightarrow> string" where
  "spell_session e pw tv adm gv =
     [flag pw, flag tv, flag adm, flag gv, flag (0 \<le> e)] @ replicate (nat \<bar>e\<bar>) (CHR ''x'')"

fun sample_seal :: "nat \<Rightarrow> json \<Rightarrow> string" where
  "sample_seal iv (JObj [(_, JInt e), (_, JBool pw), (_, JBool tv), (_, JStr r), (_, JBool gv)]) =
     spell_session e pw tv (r = ''admin'') gv"
| "sample_seal iv v = []"

fun sample_unseal :: "string \<Rightarrow> json option" where
  "sample_unseal (a # b # c # d # e # rest) =
     Some (session_payload \<lparr>expires_at = (if e = CHR ''T'' then int (length rest) else - int (length rest)),
        password_verified = a = CHR ''T'', totp_verified = b = CHR ''T'',
        session_role = (if c = CHR ''T'' then ADMIN else GUEST), guest_verified = d = CHR ''T''\<rparr>)"
| "sample_unseal s = None"

definition sample_crypto :: Crypto where
  "sample_crypto =
     \<lparr>seal = sample_seal, unseal = sample_unseal, seal_secret = (\<lambda>iv s. s), open_secret = Some,
      hashpw = (\<lambda>salt pw. pw), checkpw = (\<lambda>pw h. Some (pw = h)), code_at = sample_codes, sha256 = rev\<rparr>"

lemma sample_seal_payload:
  "sample_seal iv (session_payload st) =
     spell_session (expires_at st) (password_verified st) (totp_verified st) (session_role st = ADMIN) (guest_verified st)"
  by (cases "session_role st") (simp_all add: session_payload_def role_value_def)

lemma flag_char [simp]: "(flag b = CHR ''T'') = b" "\<not> is_space (flag b)" "code_point (flag b) < 128"
  by (simp_all add: flag_def is_space_def code_point_def)

lemma sample_crypto_laws: "crypto_laws sample_crypto"
proof -
  have "sample_unseal (sample_seal iv (session_payload st)) = Some (session_payload st)" for iv st
    by (cases "session_role st") (simp_all add: sample_seal_payload spell_session_def session_payload_def role_value_def)
  then show ?thesis by (simp add: crypto_laws_def sample_crypto_def)
qed

lemma py_strip_no_space: "list_all (\<lambda>c. \<not> is_space c) s \<Longrightarrow> py_strip s = s"
proof -
  assume a: "list_all (\<lambda>c. \<not> is_space c) s"
  have "dropWhile is_space t = t" if "list_all (\<lambda>c. \<not> is_space c) t" for t
    using that by (cases t) auto
  from this [OF a] this [of "rev s"] a show ?thesis by (simp add: py_strip_def)
qed

lemma sample_crypto_printable: "printable_tokens sample_crypto"
proof -
  have "list_all (\<lambda>c. \<not> is_space c) (spell_session e pw tv adm gv)" "is_ascii (spell_session e pw tv adm gv)"
    for e pw tv adm gv
    by (simp_all add: spell_session_def is_ascii_def list_all_iff is_space_def [of "CHR ''x''"]
        code_point_def [of "CHR ''x''"])
  then show ?thesis
    by (simp add: printable_tokens_def sample_crypto_def sample_seal_payload py_strip_no_space)
      (simp add: spell_session_def)
qed

section \<open>Who may write\<close>

text \<open>The sessions with which the settings grant administration.\<close>

definition admin_granted :: "AppSettings \<Rightarrow> DashboardSettings \<Rightarrow> bool \<Rightarrow> DashboardSessionState option \<Rightarrow> bool" where
  "admin_granted cfg row local s =
     (admin_session s \<and> password_required row \<and> (totp_required_on_login row \<longrightarrow> totp_session s) \<or>
      dashboard_auth_mode cfg \<noteq> TRUSTED_HEADER \<and> \<not> password_required row \<and> \<not> guest_session cfg row s \<and>
        (if totp_required_on_login row
         then (\<not> guest_access_enabled row \<or> guest_password_required row) \<and>
              (\<exists>st. s = Some st \<and> session_role st = ADMIN \<and> totp_verified st)
         else local))"

lemma can_write [simp]: "can (admin_principal mode actor) WRITE" "\<not> can guest_principal WRITE"
  by (simp_all add: can_def admin_principal_def guest_principal_def ADMIN_PERMISSIONS_def GUEST_PERMISSIONS_def)

lemma principals_differ [simp]: "guest_principal \<noteq> admin_principal mode actor"
  by (simp add: guest_principal_def admin_principal_def)

lemma guest_not_admin: "guest_session cfg row s \<Longrightarrow> \<not> admin_session s"
  by (auto simp: guest_session_def admin_session_def split: option.splits)

lemma decide_access_cases:
  "decide_access cfg row local s = Inr p \<Longrightarrow> p = guest_principal \<or> p = admin_principal STANDARD None"
  by (auto simp: decide_access_def split: if_splits option.splits)

lemma decide_access_admin:
  "decide_access cfg row local s = Inr (admin_principal STANDARD None) \<longleftrightarrow> admin_granted cfg row local s"
proof (cases "admin_session s \<and> password_required row")
  case True
  then show ?thesis using guest_not_admin [of cfg row s] by (auto simp: decide_access_def admin_granted_def)
next
  case False
  then show ?thesis
    by (cases s) (auto simp: decide_access_def admin_granted_def requires_auth_def admin_session_def
        passwordless_fallback_allowed_def)
qed

lemma write_access_iff:
  assumes "cached_principal req = None"
  shows "(\<exists>p. snd (require_write_access C cfg row now req) = Inr p) \<longleftrightarrow>
    snd (get_dashboard_request_auth cfg req) \<noteq> None \<or>
    (\<exists>s. read_session C now (session_cookie req) = Inr s \<and> admin_granted cfg row (is_local req) s)"
proof -
  obtain req' auth where auth: "get_dashboard_request_auth cfg req = (req', auth)" by fastforce
  show ?thesis
  proof (cases auth)
    case None
    then have req': "req' = req" using auth by (auto simp: get_dashboard_request_auth_def Let_def split: option.splits if_splits)
    show ?thesis
    proof (cases "read_session C now (session_cookie req)")
      case (Inr s)
      show ?thesis
        using assms auth None req' Inr decide_access_cases [of cfg row "is_local req" s] decide_access_admin [of cfg row "is_local req" s]
        by (cases "decide_access cfg row (is_local req) s")
          (auto simp: require_write_access_def validate_dashboard_session_def)
    qed (use assms auth None req' in \<open>simp add: require_write_access_def validate_dashboard_session_def\<close>)
  next
    case (Some a)
    then show ?thesis using assms auth
      by (cases a) (simp add: require_write_access_def validate_dashboard_session_def Let_def)
  qed
qed

lemma write_access_cases:
  assumes "cached_principal req = None" "snd (get_dashboard_request_auth cfg req) = None"
    and "snd (require_write_access C cfg row now req) = Inr p"
  shows "\<exists>s. read_session C now (session_cookie req) = Inr s \<and> admin_granted cfg row (is_local req) s"
  using write_access_iff [OF assms(1), of C cfg row now] assms(2,3) by auto

text \<open>A request that carries no decision of an earlier check may modify the dashboard exactly when the
  deployment bypasses the dashboard's own authentication or its proxy vouches for the request, or its cookie
  reads as a session that the settings grant administration.\<close>

lemma write_access_exact:
  assumes "cached_principal req = None"
  shows "(\<exists>p. snd (require_write_access C cfg row now req) = Inr p) \<longleftrightarrow>
    snd (get_dashboard_request_auth cfg req) \<noteq> None \<or>
    (\<exists>s. read_session C now (session_cookie req) = Inr s \<and> admin_granted cfg row (is_local req) s)"
  using assms by (rule write_access_iff)

definition sample_app :: AppSettings where
  "sample_app = \<lparr>dashboard_auth_mode = STANDARD, firewall_trust_proxy_headers = False,
     dashboard_auth_proxy_header = ''remote-user'', trust_loopback_host_for_long_sessions = False,
     dashboard_bootstrap_token = None\<rparr>"

definition sample_dashboard :: DashboardSettings where
  "sample_dashboard = \<lparr>password_hash = Some ''hunter22'', guest_access_enabled = True, guest_password_hash = None,
     totp_required_on_login = True, totp_secret_encrypted = Some ''ABCDEFGH'', totp_last_verified_step = None,
     bootstrap_token_encrypted = None, bootstrap_token_hash = None, dashboard_session_ttl_seconds = 5, version = 1\<rparr>"

definition sample_dashboard_request :: "string option \<Rightarrow> DashboardRequest" where
  "sample_dashboard_request cookie = \<lparr>client_host = Some ''10.0.0.7'', from_trusted_proxy = False, is_local = False, loopback_url = False,
     headers = [], session_cookie = cookie, cached_auth = None, cached_principal = None\<rparr>"

text \<open>With a password and one-time codes required, a session of the password alone is not enough, one of both is.\<close>

end
