(* ===== verification/Rate_Limiter.thy ===== *)
theory Rate_Limiter
  imports Tables "HOL-Library.Multiset"
begin

text \<open>
  The login rate limiter: \<open>DatabaseRateLimiter\<close> of \<open>codex-lb/app/core/rate_limiter/db_rate_limiter.py\<close>
  and the table \<open>rate_limit_attempts\<close> it counts in.

  A table is the list of its rows, a time is a number of microseconds since the epoch. Every
  operation takes the clock it reads and the table each of its SQL statements finds; an operation
  whose statements do not run in one transaction takes one table per statement, since other
  requests may write in between. The rest of the theory is the system of all requests that share
  the table, with the attempts admitted since the counter was last cleared as a ghost.
\<close>

record RateLimitAttempt =
  att_key :: string
  att_type :: string
  attempted_at :: int

record DatabaseRateLimiter =
  max_attempts :: int
  window_seconds :: int
  limiter_type :: string

datatype limiter_error =
    LimiterValueError
  | DashboardRateLimitError int

definition make_limiter :: "int \<Rightarrow> int \<Rightarrow> string \<Rightarrow> limiter_error + DatabaseRateLimiter" where
  "make_limiter attempts window ty =
     (if attempts \<le> 0 then Inl LimiterValueError
      else if window \<le> 0 then Inl LimiterValueError
      else Inr \<lparr>max_attempts = attempts, window_seconds = window, limiter_type = ty\<rparr>)"

definition microseconds :: "int \<Rightarrow> int" where
  "microseconds secs = secs * 1000000"

text \<open>\<open>int(delta.total_seconds())\<close>.\<close>

definition whole_seconds :: "int \<Rightarrow> int" where
  "whole_seconds d = (if d < 0 then - ((- d) div 1000000) else d div 1000000)"

definition window_start :: "DatabaseRateLimiter \<Rightarrow> int \<Rightarrow> int" where
  "window_start l now = now - microseconds (window_seconds l)"

text \<open>The \<open>WHERE\<close> clause the statements of a limiter share.\<close>

definition in_window :: "DatabaseRateLimiter \<Rightarrow> string \<Rightarrow> int \<Rightarrow> RateLimitAttempt \<Rightarrow> bool" where
  "in_window l key ws r = (att_key r = key \<and> att_type r = limiter_type l \<and> ws \<le> attempted_at r)"

definition count_attempts :: "DatabaseRateLimiter \<Rightarrow> string \<Rightarrow> int \<Rightarrow> RateLimitAttempt list \<Rightarrow> int" where
  "count_attempts l key ws rows = int (length (filter (in_window l key ws) rows))"

definition oldest_attempt :: "DatabaseRateLimiter \<Rightarrow> string \<Rightarrow> int \<Rightarrow> RateLimitAttempt list \<Rightarrow> int option" where
  "oldest_attempt l key ws rows =
     (case map attempted_at (filter (in_window l key ws) rows) of
        [] \<Rightarrow> None
      | t # ts \<Rightarrow> Some (list_min t (t # ts)))"

definition retry_after :: "DatabaseRateLimiter \<Rightarrow> int option \<Rightarrow> int \<Rightarrow> int" where
  "retry_after l oldest now =
     (case oldest of
        None \<Rightarrow> window_seconds l
      | Some t \<Rightarrow> max 1 (whole_seconds (t + microseconds (window_seconds l) - now)))"

definition new_attempt :: "DatabaseRateLimiter \<Rightarrow> string \<Rightarrow> int \<Rightarrow> RateLimitAttempt" where
  "new_attempt l key now = \<lparr>att_key = key, att_type = limiter_type l, attempted_at = now\<rparr>"

text \<open>\<open>check\<close> reads the clock again for the error it raises.\<close>

definition check :: "DatabaseRateLimiter \<Rightarrow> string \<Rightarrow> int \<Rightarrow> RateLimitAttempt list \<Rightarrow> int \<Rightarrow>
    RateLimitAttempt list \<Rightarrow> limiter_error + unit" where
  "check l key now rows now' rows' =
     (let ws = window_start l now
      in if max_attempts l \<le> count_attempts l key ws rows
         then Inl (DashboardRateLimitError (retry_after l (oldest_attempt l key ws rows') now'))
         else Inr ())"

text \<open>
  \<open>check_and_increment\<close>: one \<open>INSERT ... SELECT ... WHERE count < max\<close>, committed at once; when it
  inserts nothing, a second statement finds the oldest attempt for the error.
\<close>

definition insert_below_limit :: "DatabaseRateLimiter \<Rightarrow> string \<Rightarrow> int \<Rightarrow> RateLimitAttempt list \<Rightarrow>
    RateLimitAttempt list \<times> bool" where
  "insert_below_limit l key now rows =
     (if count_attempts l key (window_start l now) rows < max_attempts l
      then (rows @ [new_attempt l key now], True)
      else (rows, False))"

definition check_and_increment :: "DatabaseRateLimiter \<Rightarrow> string \<Rightarrow> int \<Rightarrow> RateLimitAttempt list \<Rightarrow>
    RateLimitAttempt list \<Rightarrow> RateLimitAttempt list \<times> (limiter_error + unit)" where
  "check_and_increment l key now rows rows' =
     (case insert_below_limit l key now rows of
        (written, True) \<Rightarrow> (written, Inr ())
      | (written, False) \<Rightarrow>
          (written, Inl (DashboardRateLimitError
             (retry_after l (oldest_attempt l key (window_start l now) rows') now))))"

definition record_failed_attempt :: "DatabaseRateLimiter \<Rightarrow> string \<Rightarrow> int \<Rightarrow> RateLimitAttempt list \<Rightarrow>
    RateLimitAttempt list \<Rightarrow> RateLimitAttempt list \<times> (limiter_error + unit)" where
  "record_failed_attempt l key now rows rows' =
     (let written = rows @ [new_attempt l key now];
          ws = window_start l now
      in if max_attempts l < count_attempts l key ws written
         then (written, Inl (DashboardRateLimitError (retry_after l (oldest_attempt l key ws rows') now)))
         else (written, Inr ()))"

definition clear_for_key :: "DatabaseRateLimiter \<Rightarrow> string \<Rightarrow> RateLimitAttempt list \<Rightarrow> RateLimitAttempt list" where
  "clear_for_key l key rows =
     filter (\<lambda>r. \<not> (att_key r = key \<and> att_type r = limiter_type l)) rows"

text \<open>\<open>check_and_record\<close> counts, looks for the oldest attempt and then inserts, in that order.\<close>

definition check_and_record :: "DatabaseRateLimiter \<Rightarrow> string \<Rightarrow> int \<Rightarrow> RateLimitAttempt list \<Rightarrow>
    RateLimitAttempt list \<Rightarrow> RateLimitAttempt list \<Rightarrow> RateLimitAttempt list \<times> (limiter_error + unit)" where
  "check_and_record l key now counted looked rows =
     (let ws = window_start l now;
          oldest = oldest_attempt l key ws looked;
          written = rows @ [new_attempt l key now]
      in if max_attempts l \<le> count_attempts l key ws counted
         then (written, Inl (DashboardRateLimitError (retry_after l oldest now)))
         else (written, Inr ()))"

definition cleanup_attempts :: "int \<Rightarrow> int \<Rightarrow> RateLimitAttempt list \<Rightarrow> RateLimitAttempt list" where
  "cleanup_attempts now older_than rows =
     filter (\<lambda>r. \<not> attempted_at r < now - microseconds older_than) rows"

section \<open>The waiting time a refused caller is told\<close>

lemma oldest_attempt_least:
  assumes "oldest_attempt l key ws rows = Some t"
  shows "ws \<le> t" "\<And>r. r \<in> set rows \<Longrightarrow> in_window l key ws r \<Longrightarrow> t \<le> attempted_at r"
proof -
  let ?ts = "map attempted_at (filter (in_window l key ws) rows)"
  obtain u us where ts: "?ts = u # us" and t: "t = list_min u (u # us)"
    using assms by (auto simp: oldest_attempt_def split: list.splits)
  have "t \<in> set ?ts" using list_min_in [of "u # us" u] ts t by simp
  then show "ws \<le> t" by (auto simp: in_window_def)
  show "t \<le> attempted_at r" if "r \<in> set rows" "in_window l key ws r" for r
  proof -
    have "attempted_at r \<in> set ?ts" using that by auto
    then show ?thesis using list_min_le [of "attempted_at r" "u # us" u] ts t by simp
  qed
qed

lemma oldest_attempt_None:
  "oldest_attempt l key ws rows = None \<longleftrightarrow> (\<forall>r \<in> set rows. \<not> in_window l key ws r)"
proof -
  have "oldest_attempt l key ws rows = None \<longleftrightarrow> filter (in_window l key ws) rows = []"
    by (cases "filter (in_window l key ws) rows") (simp_all add: oldest_attempt_def)
  then show ?thesis by (simp add: filter_empty_conv)
qed

lemma whole_seconds_bounds:
  "0 \<le> d \<Longrightarrow> microseconds (whole_seconds d) \<le> d \<and> d < microseconds (whole_seconds d + 1)"
  by (simp add: whole_seconds_def microseconds_def) presburger

lemma whole_seconds_le:
  assumes "0 \<le> w" "d \<le> microseconds w"
  shows "whole_seconds d \<le> w"
proof (cases "d < 0")
  case True
  then have "0 \<le> (- d) div 1000000" by (simp add: pos_imp_zdiv_nonneg_iff)
  then show ?thesis using True assms(1) by (simp add: whole_seconds_def)
next
  case False
  have "d div 1000000 \<le> w * 1000000 div 1000000"
    using assms(2) by (intro zdiv_mono1) (simp_all add: microseconds_def)
  then show ?thesis using False by (simp add: whole_seconds_def)
qed

lemma retry_after_positive: "0 < window_seconds l \<Longrightarrow> 1 \<le> retry_after l oldest now"
  by (simp add: retry_after_def split: option.splits)

lemma retry_after_at_most_window:
  assumes "0 < window_seconds l" "\<And>t. oldest = Some t \<Longrightarrow> t \<le> now"
  shows "retry_after l oldest now \<le> window_seconds l"
proof (cases oldest)
  case (Some t)
  let ?d = "t + microseconds (window_seconds l) - now"
  have "?d \<le> microseconds (window_seconds l)" using assms Some by simp
  then have "whole_seconds ?d \<le> window_seconds l" using assms(1) by (intro whole_seconds_le) simp_all
  then show ?thesis using assms(1) Some by (simp add: retry_after_def)
qed (simp add: retry_after_def)

text \<open>A second after the time the caller is told, the oldest attempt has left the window.\<close>

lemma retry_after_frees_slot:
  assumes "oldest_attempt l key (window_start l now) rows = Some t"
    and "now + microseconds (retry_after l (Some t) now + 1) \<le> later"
  shows "t < window_start l later"
proof -
  let ?d = "t + microseconds (window_seconds l) - now"
  have "window_start l now \<le> t" by (rule oldest_attempt_least [OF assms(1)])
  then have d: "0 \<le> ?d" by (simp add: window_start_def)
  have "microseconds (whole_seconds ?d + 1) \<le> microseconds (retry_after l (Some t) now + 1)"
    by (simp add: retry_after_def microseconds_def)
  then have "?d < later - now" using whole_seconds_bounds [OF d] assms(2) by simp
  then show ?thesis by (simp add: window_start_def)
qed

section \<open>All requests that share the table\<close>

text \<open>
  The state is the table, with two ghosts: \<open>admitted ty key\<close>, the times of the calls of
  \<open>check_and_increment\<close> that a limiter of type \<open>ty\<close> has let pass since \<open>clear_for_key\<close> last reset the
  key, and \<open>horizon\<close>, the latest time below which \<open>cleanup\<close> has deleted rows. Clocks are not assumed
  to agree or to advance: each call brings the time it has read.
\<close>

record LimiterSystem =
  attempts :: "RateLimitAttempt list"
  admitted :: "string \<Rightarrow> string \<Rightarrow> int list"
  horizon :: "int option"

definition beyond :: "int option \<Rightarrow> int \<Rightarrow> bool" where
  "beyond h t = (case h of None \<Rightarrow> True | Some c \<Rightarrow> c \<le> t)"

definition raise_horizon :: "int option \<Rightarrow> int \<Rightarrow> int option" where
  "raise_horizon h c = Some (case h of None \<Rightarrow> c | Some d \<Rightarrow> max c d)"

definition log_admission :: "DatabaseRateLimiter \<Rightarrow> string \<Rightarrow> int \<Rightarrow> limiter_error + unit \<Rightarrow>
    (string \<Rightarrow> string \<Rightarrow> int list) \<Rightarrow> string \<Rightarrow> string \<Rightarrow> int list" where
  "log_admission l key now r adm =
     (if r = Inr () then adm(limiter_type l := (adm (limiter_type l))(key := now # adm (limiter_type l) key)) else adm)"

inductive limiter_step :: "DatabaseRateLimiter set \<Rightarrow> LimiterSystem \<Rightarrow> LimiterSystem \<Rightarrow> bool"
  for L :: "DatabaseRateLimiter set" where
  attempt: "l \<in> L \<Longrightarrow> check_and_increment l key now (attempts s) rows' = (written, r) \<Longrightarrow>
     limiter_step L s (s\<lparr>attempts := written, admitted := log_admission l key now r (admitted s)\<rparr>)"
| failure: "l \<in> L \<Longrightarrow> record_failed_attempt l key now (attempts s) rows' = (written, r) \<Longrightarrow>
     limiter_step L s (s\<lparr>attempts := written\<rparr>)"
| recorded: "l \<in> L \<Longrightarrow> check_and_record l key now counted looked (attempts s) = (written, r) \<Longrightarrow>
     limiter_step L s (s\<lparr>attempts := written\<rparr>)"
| cleared: "l \<in> L \<Longrightarrow>
     limiter_step L s (s\<lparr>attempts := clear_for_key l key (attempts s),
       admitted := (admitted s)(limiter_type l := (admitted s (limiter_type l))(key := []))\<rparr>)"
| cleaned: "limiter_step L s (s\<lparr>attempts := cleanup_attempts now older_than (attempts s),
       horizon := raise_horizon (horizon s) (now - microseconds older_than)\<rparr>)"

definition wf_limiters :: "DatabaseRateLimiter set \<Rightarrow> bool" where
  "wf_limiters L \<longleftrightarrow> (\<forall>l \<in> L. 0 < max_attempts l \<and> 0 < window_seconds l) \<and> inj_on limiter_type L"

definition limiter_start :: "LimiterSystem \<Rightarrow> bool" where
  "limiter_start s \<longleftrightarrow> (\<forall>ty key. admitted s ty key = [])"

definition attempt_times :: "string \<Rightarrow> string \<Rightarrow> RateLimitAttempt list \<Rightarrow> int list" where
  "attempt_times ty key rows = map attempted_at (filter (\<lambda>r. att_key r = key \<and> att_type r = ty) rows)"

definition admissions_recorded :: "LimiterSystem \<Rightarrow> bool" where
  "admissions_recorded s \<longleftrightarrow>
     (\<forall>ty key. mset (filter (beyond (horizon s)) (admitted s ty key)) \<subseteq># mset (attempt_times ty key (attempts s)))"

text \<open>The admissions of a key in the closed window that starts at \<open>since\<close>.\<close>

definition admissions_in :: "DatabaseRateLimiter \<Rightarrow> int \<Rightarrow> int list \<Rightarrow> int" where
  "admissions_in l since ts = int (length (filter (\<lambda>t. since \<le> t \<and> t \<le> since + microseconds (window_seconds l)) ts))"

definition windows_bounded :: "DatabaseRateLimiter set \<Rightarrow> LimiterSystem \<Rightarrow> bool" where
  "windows_bounded L s \<longleftrightarrow>
     (\<forall>l \<in> L. \<forall>key since. beyond (horizon s) since \<longrightarrow>
        admissions_in l since (admitted s (limiter_type l) key) \<le> max_attempts l)"

lemma length_filter_mono: "(\<And>x. P x \<Longrightarrow> Q x) \<Longrightarrow> length (filter P xs) \<le> length (filter Q xs)"
  by (induction xs) auto

lemma attempt_times_simps [simp]:
  "attempt_times ty key (rows @ [new_attempt l k now]) =
     attempt_times ty key rows @ (if k = key \<and> limiter_type l = ty then [now] else [])"
  "attempt_times ty key (clear_for_key l k rows) =
     (if k = key \<and> limiter_type l = ty then [] else attempt_times ty key rows)"
  "attempt_times ty key (cleanup_attempts now older rows) =
     filter (\<lambda>t. now - microseconds older \<le> t) (attempt_times ty key rows)"
  by (induction rows) (auto simp: attempt_times_def new_attempt_def clear_for_key_def cleanup_attempts_def)

lemma count_attempts_times:
  "count_attempts l key ws rows = int (length (filter (\<lambda>t. ws \<le> t) (attempt_times (limiter_type l) key rows)))"
  by (induction rows) (auto simp: count_attempts_def attempt_times_def in_window_def)

lemma beyond_raise: "beyond (raise_horizon h c) = (\<lambda>t. beyond h t \<and> c \<le> t)"
  by (rule ext) (auto simp: beyond_def raise_horizon_def split: option.splits)

lemma admissions_in_Cons:
  "admissions_in l since (t # ts) =
     (if since \<le> t \<and> t \<le> since + microseconds (window_seconds l) then 1 else 0) + admissions_in l since ts"
  by (simp add: admissions_in_def)

lemma check_and_increment_cases:
  assumes "check_and_increment l key now rows rows' = (written, r)"
  obtains
    (admitted) "r = Inr ()" "written = rows @ [new_attempt l key now]"
      "count_attempts l key (window_start l now) rows < max_attempts l"
  | (refused) n where "r = Inl (DashboardRateLimitError n)" "written = rows"
      "max_attempts l \<le> count_attempts l key (window_start l now) rows"
  using assms by (auto simp: check_and_increment_def insert_below_limit_def split: if_splits)

lemma unconditional_writes:
  "record_failed_attempt l key now rows rows' = (written, r) \<Longrightarrow> written = rows @ [new_attempt l key now]"
  "check_and_record l key now counted looked rows = (written, r) \<Longrightarrow> written = rows @ [new_attempt l key now]"
  by (auto simp: record_failed_attempt_def check_and_record_def Let_def split: if_splits)

text \<open>The admissions in a window the newest one falls into are rows its own count has seen.\<close>

lemma admissions_counted:
  assumes "admissions_recorded s" "beyond (horizon s) since" "since \<le> now" "now \<le> since + microseconds (window_seconds l)"
  shows "admissions_in l since (admitted s (limiter_type l) key) \<le>
    count_attempts l key (window_start l now) (attempts s)"
proof -
  let ?adm = "admitted s (limiter_type l) key" and ?rows = "attempt_times (limiter_type l) key (attempts s)"
  let ?W = "\<lambda>t. since \<le> t \<and> t \<le> since + microseconds (window_seconds l)" and ?ws = "window_start l now"
  have eq: "filter ?W (filter (beyond (horizon s)) ?adm) = filter ?W ?adm"
    using assms(2) by (auto simp: beyond_def split: option.splits intro: filter_cong)
  have "mset (filter (beyond (horizon s)) ?adm) \<subseteq># mset ?rows"
    using assms(1) by (simp add: admissions_recorded_def)
  from multiset_filter_mono [OF this, of ?W] have "mset (filter ?W ?adm) \<subseteq># mset (filter ?W ?rows)"
    by (simp only: mset_filter [symmetric] eq)
  then have "length (filter ?W ?adm) \<le> length (filter ?W ?rows)"
    using size_mset_mono [of "mset (filter ?W ?adm)" "mset (filter ?W ?rows)"] by (simp only: size_mset)
  also have "\<dots> \<le> length (filter (\<lambda>t. ?ws \<le> t) ?rows)"
    using assms(3,4) by (intro length_filter_mono) (simp add: window_start_def)
  finally show ?thesis by (simp add: admissions_in_def count_attempts_times)
qed

lemma recordedD:
  "admissions_recorded s \<Longrightarrow>
     filter_mset (beyond (horizon s)) (mset (admitted s ty key)) \<subseteq># mset (attempt_times ty key (attempts s))"
  by (simp add: admissions_recorded_def)

lemma recorded_mono:
  assumes "admissions_recorded s" "\<And>ty key. mset (attempt_times ty key (attempts s)) \<subseteq># mset (attempt_times ty key rows)"
  shows "admissions_recorded (s\<lparr>attempts := rows\<rparr>)"
  using subset_mset.order_trans [OF recordedD [OF assms(1)] assms(2)] by (simp add: admissions_recorded_def)

lemma recorded_write: "admissions_recorded s \<Longrightarrow> admissions_recorded (s\<lparr>attempts := attempts s @ [new_attempt l key now]\<rparr>)"
  by (rule recorded_mono) simp_all

lemma recorded_admission:
  assumes "admissions_recorded s"
  shows "admissions_recorded (s\<lparr>attempts := attempts s @ [new_attempt l key now],
           admitted := log_admission l key now (Inr ()) (admitted s)\<rparr>)"
  using recordedD [OF assms] recordedD [OF recorded_write [OF assms, of l key now], of "limiter_type l" key]
  by (auto simp: admissions_recorded_def log_admission_def)

lemma recorded_clear:
  "admissions_recorded s \<Longrightarrow>
     admissions_recorded (s\<lparr>attempts := clear_for_key l key (attempts s),
       admitted := (admitted s)(limiter_type l := (admitted s (limiter_type l))(key := []))\<rparr>)"
  by (auto simp: admissions_recorded_def)

lemma recorded_cleanup:
  assumes "admissions_recorded s"
  shows "admissions_recorded (s\<lparr>attempts := cleanup_attempts now older (attempts s),
           horizon := raise_horizon (horizon s) (now - microseconds older)\<rparr>)"
proof -
  let ?P = "\<lambda>t. now - microseconds older \<le> t"
  have "mset (filter (beyond (raise_horizon (horizon s) (now - microseconds older))) (admitted s ty key)) \<subseteq>#
      mset (filter ?P (attempt_times ty key (attempts s)))" for ty key
  proof -
    have "mset (filter (beyond (horizon s)) (admitted s ty key)) \<subseteq># mset (attempt_times ty key (attempts s))"
      using assms by (simp add: admissions_recorded_def)
    from multiset_filter_mono [OF this, of ?P] show ?thesis
      by (simp only: mset_filter [symmetric] filter_filter beyond_raise)
  qed
  then show ?thesis by (simp add: admissions_recorded_def)
qed

lemma limiter_step_recorded:
  assumes "limiter_step L s t" "admissions_recorded s"
  shows "admissions_recorded t"
  using assms
proof (cases rule: limiter_step.cases)
  case (attempt l key now rows' written r)
  from attempt(3) show ?thesis
    by (cases rule: check_and_increment_cases)
      (use assms(2) recorded_admission [OF assms(2), of l key now] in \<open>simp_all add: attempt(1) log_admission_def\<close>)
qed (auto dest!: unconditional_writes simp: recorded_write recorded_clear recorded_cleanup)

lemma limiter_step_bounded:
  assumes "limiter_step L s t" "admissions_recorded s" "windows_bounded L s" "wf_limiters L"
  shows "windows_bounded L t"
  using assms(1)
proof (cases rule: limiter_step.cases)
  case (attempt l key now rows' written r)
  from attempt(3) show ?thesis
  proof (cases rule: check_and_increment_cases)
    case admitted
    have "admissions_in m since (log_admission l key now r (LimiterSystem.admitted s) (limiter_type m) k) \<le> max_attempts m"
      if m: "m \<in> L" and since: "beyond (horizon s) since" for m k since
    proof (cases "m = l \<and> k = key")
      case True
      then show ?thesis
        using admissions_counted [OF assms(2) since, of now l key] admitted assms(3) m since
        by (auto simp: log_admission_def admissions_in_Cons windows_bounded_def)
    next
      case False
      then have "log_admission l key now r (LimiterSystem.admitted s) (limiter_type m) k = LimiterSystem.admitted s (limiter_type m) k"
        using m attempt(2) assms(4) by (auto simp: log_admission_def wf_limiters_def dest: inj_onD)
      then show ?thesis using assms(3) m since by (simp add: windows_bounded_def)
    qed
    then show ?thesis by (simp add: windows_bounded_def attempt(1))
  next
    case refused
    then show ?thesis using assms(3) by (simp add: attempt(1) windows_bounded_def log_admission_def)
  qed
next
  case (cleared l key)
  then show ?thesis using assms(3,4)
    by (auto simp: windows_bounded_def wf_limiters_def admissions_in_def less_imp_le)
qed (use assms(3) in \<open>auto simp: windows_bounded_def beyond_raise\<close>)

definition limiter_inv :: "DatabaseRateLimiter set \<Rightarrow> LimiterSystem \<Rightarrow> bool" where
  "limiter_inv L s \<longleftrightarrow> (wf_limiters L \<longrightarrow> admissions_recorded s \<and> windows_bounded L s)"

interpretation limiter: invariant_system limiter_start "limiter_step L" "limiter_inv L" for L
proof unfold_locales
  fix s
  assume "limiter_start s"
  then show "limiter_inv L s"
    by (auto simp: limiter_start_def limiter_inv_def admissions_recorded_def windows_bounded_def
        wf_limiters_def admissions_in_def less_imp_le)
next
  fix s t
  assume "limiter_inv L s" "limiter_step L s t"
  then show "limiter_inv L t"
    using limiter_step_recorded limiter_step_bounded by (auto simp: limiter_inv_def)
qed

text \<open>C20: whatever calls share the table of attempts, in whatever order and with whatever clocks,
  a limiter lets at most \<open>max_attempts\<close> calls of a key pass in any window of \<open>window_seconds\<close>, counted
  from the last time the key was cleared and for the windows whose rows \<open>cleanup\<close> has not deleted.\<close>

theorem attempts_bounded:
  assumes "wf_limiters L" "limiter_start s" "(limiter_step L)\<^sup>*\<^sup>* s t" "l \<in> L" "beyond (horizon t) since"
  shows "admissions_in l since (admitted t (limiter_type l) key) \<le> max_attempts l"
  using limiter.reachable_inv [OF assms(2,3)] assms(1,4,5) by (simp add: limiter_inv_def windows_bounded_def)

text \<open>Two attempts within a minute under a limit of one: the second is refused.\<close>

definition sample_limiter :: DatabaseRateLimiter where
  "sample_limiter = \<lparr>max_attempts = 1, window_seconds = 60, limiter_type = ''totp''\<rparr>"

definition sample_system :: LimiterSystem where
  "sample_system = \<lparr>attempts = [], admitted = (\<lambda>ty key. []), horizon = None\<rparr>"

definition sample_admitted :: LimiterSystem where
  "sample_admitted = sample_system\<lparr>attempts := [new_attempt sample_limiter ''k'' 5],
     admitted := log_admission sample_limiter ''k'' 5 (Inr ()) (admitted sample_system)\<rparr>"

lemma sample_limiter_run: "(limiter_step {sample_limiter})\<^sup>*\<^sup>* sample_system sample_admitted"
proof (rule r_into_rtranclp)
  have "check_and_increment sample_limiter ''k'' 5 (attempts sample_system) [] = ([new_attempt sample_limiter ''k'' 5], Inr ())"
    by code_simp
  then show "limiter_step {sample_limiter} sample_system sample_admitted"
    unfolding sample_admitted_def by (intro limiter_step.attempt) simp_all
qed

theorem attempts_bounded_witness:
  "admissions_in sample_limiter 0 (admitted sample_admitted ''totp'' ''k'') \<le> 1 \<and>
   admissions_in sample_limiter 0 (admitted sample_admitted ''totp'' ''k'') = 1 \<and>
   check_and_increment sample_limiter ''k'' 6 (attempts sample_admitted) (attempts sample_admitted) =
     (attempts sample_admitted, Inl (DashboardRateLimitError 59))"
proof (intro conjI)
  have "wf_limiters {sample_limiter}" "limiter_start sample_system"
    by (simp_all add: wf_limiters_def sample_limiter_def limiter_start_def sample_system_def)
  then show "admissions_in sample_limiter 0 (admitted sample_admitted ''totp'' ''k'') \<le> 1"
    using attempts_bounded [OF _ _ sample_limiter_run, of sample_limiter 0 "''k''"]
    by (simp add: sample_limiter_def sample_admitted_def sample_system_def beyond_def)
qed code_simp+

end
