(* ===== verification/Dashboard_Auth.thy ===== *)
theory Dashboard_Auth
  imports Dashboard_Session Rate_Limiter
begin

text \<open>
  Logging in to the dashboard: \<open>DashboardAuthRepository\<close>, \<open>DashboardAuthService\<close> and the handlers of
  \<open>codex-lb/app/modules/dashboard_auth/\<close>, with the bootstrap tokens of \<open>app/core/bootstrap.py\<close>.

  The repository's operations are functions on the settings row. A service operation takes the row each of
  its reads finds, a handler also the row of the settings cache, the row its write finds and the table of
  login attempts; it returns the row and the table it leaves. Audit log entries are not modelled.
\<close>

section \<open>The repository\<close>

text \<open>
  A change through the object mapper: the columns that differ from the loaded row are written if the
  version is still the loaded one; nothing is sent when no column differs.
\<close>

definition col :: "('r \<Rightarrow> 'a) \<Rightarrow> 'r \<Rightarrow> 'r \<Rightarrow> 'r \<Rightarrow> 'a" where
  "col f loaded changed current = (if f changed = f loaded then f current else f changed)"

definition write_columns :: "DashboardSettings \<Rightarrow> DashboardSettings \<Rightarrow> DashboardSettings \<Rightarrow> DashboardSettings" where
  "write_columns loaded changed current =
     \<lparr>password_hash = col password_hash loaded changed current,
      guest_access_enabled = col guest_access_enabled loaded changed current,
      guest_password_hash = col guest_password_hash loaded changed current,
      totp_required_on_login = col totp_required_on_login loaded changed current,
      totp_secret_encrypted = col totp_secret_encrypted loaded changed current,
      totp_last_verified_step = col totp_last_verified_step loaded changed current,
      bootstrap_token_encrypted = col bootstrap_token_encrypted loaded changed current,
      bootstrap_token_hash = col bootstrap_token_hash loaded changed current,
      dashboard_session_ttl_seconds = col dashboard_session_ttl_seconds loaded changed current,
      version = version current + 1\<rparr>"

definition commit_changes :: "DashboardSettings \<Rightarrow> DashboardSettings \<Rightarrow> DashboardSettings \<Rightarrow> DashboardSettings option" where
  "commit_changes loaded changed current =
     (if changed = loaded then Some current
      else if version loaded = version current then Some (write_columns loaded changed current)
      else None)"

text \<open>\<open>_mutate_settings_with_retry\<close>: the row loaded first, the row the first commit finds, and, after a
  conflict, the row the retry loads and the row its commit finds.\<close>

record MutationRun =
  loaded :: DashboardSettings
  reloaded :: DashboardSettings
  current :: DashboardSettings
  current' :: DashboardSettings

definition mutate_settings_with_retry :: "(DashboardSettings \<Rightarrow> DashboardSettings) \<Rightarrow> MutationRun \<Rightarrow>
    DashboardSettings \<times> (dashboard_error + unit)" where
  "mutate_settings_with_retry mutate run =
     (case commit_changes (loaded run) (mutate (loaded run)) (current run) of
        Some row \<Rightarrow> (row, Inr ())
      | None \<Rightarrow>
          (case commit_changes (reloaded run) (mutate (reloaded run)) (current' run) of
             Some row \<Rightarrow> (row, Inr ())
           | None \<Rightarrow> (current' run, Inl (DashboardConflictError ''settings_conflict''))))"

definition set_totp_secret :: "string option \<Rightarrow> DashboardSettings \<Rightarrow> DashboardSettings" where
  "set_totp_secret secret row =
     (let row' = row\<lparr>totp_secret_encrypted := secret, totp_last_verified_step := None\<rparr>
      in if secret = None then row'\<lparr>totp_required_on_login := False\<rparr> else row')"

definition set_password_hash :: "string \<Rightarrow> DashboardSettings \<Rightarrow> DashboardSettings" where
  "set_password_hash h row =
     row\<lparr>password_hash := Some h, bootstrap_token_encrypted := None, bootstrap_token_hash := None\<rparr>"

definition set_guest_password_hash :: "string \<Rightarrow> DashboardSettings \<Rightarrow> DashboardSettings" where
  "set_guest_password_hash h row = row\<lparr>guest_password_hash := Some h\<rparr>"

definition clear_guest_password_hash :: "DashboardSettings \<Rightarrow> DashboardSettings" where
  "clear_guest_password_hash row = row\<lparr>guest_password_hash := None\<rparr>"

definition clear_password_and_totp :: "DashboardSettings \<Rightarrow> DashboardSettings" where
  "clear_password_and_totp row =
     row\<lparr>password_hash := None, bootstrap_token_encrypted := None, bootstrap_token_hash := None,
        totp_required_on_login := False, totp_secret_encrypted := None, totp_last_verified_step := None\<rparr>"

text \<open>The guarded \<open>UPDATE\<close> statements return whether they changed the row. Whether such a statement also
  advances the version column is up to the object mapper, hence the parameter \<open>bump\<close>.\<close>

definition bulk_update :: "int \<Rightarrow> DashboardSettings \<Rightarrow> DashboardSettings" where
  "bulk_update bump row = row\<lparr>version := version row + bump\<rparr>"

definition try_set_password_hash :: "int \<Rightarrow> string \<Rightarrow> DashboardSettings \<Rightarrow> DashboardSettings \<times> bool" where
  "try_set_password_hash bump h row =
     (if password_hash row = None
      then (bulk_update bump (row\<lparr>password_hash := Some h, bootstrap_token_encrypted := None, bootstrap_token_hash := None\<rparr>), True)
      else (row, False))"

definition store_bootstrap_token_if_absent :: "int \<Rightarrow> string \<Rightarrow> string \<Rightarrow> DashboardSettings \<Rightarrow> DashboardSettings \<times> bool" where
  "store_bootstrap_token_if_absent bump encrypted h row =
     (if password_hash row = None \<and> bootstrap_token_hash row = None
      then (bulk_update bump (row\<lparr>bootstrap_token_encrypted := Some encrypted, bootstrap_token_hash := Some h\<rparr>), True)
      else (row, False))"

definition clear_bootstrap_token :: "int \<Rightarrow> DashboardSettings \<Rightarrow> DashboardSettings \<times> bool" where
  "clear_bootstrap_token bump row =
     (if bootstrap_token_hash row \<noteq> None
      then (bulk_update bump (row\<lparr>bootstrap_token_encrypted := None, bootstrap_token_hash := None\<rparr>), True)
      else (row, False))"

definition try_advance_totp_step :: "int \<Rightarrow> int \<Rightarrow> DashboardSettings \<Rightarrow> DashboardSettings \<times> bool" where
  "try_advance_totp_step bump st row =
     (if (case totp_last_verified_step row of None \<Rightarrow> True | Some v \<Rightarrow> v < st)
      then (bulk_update bump (row\<lparr>totp_last_verified_step := Some st\<rparr>), True)
      else (row, False))"

section \<open>Bootstrap tokens\<close>

definition get_manual_bootstrap_token :: "AppSettings \<Rightarrow> string option" where
  "get_manual_bootstrap_token cfg =
     (let manual = py_strip (default_to (dashboard_bootstrap_token cfg) [])
      in if manual = [] then None else Some manual)"

definition has_active_bootstrap_token :: "AppSettings \<Rightarrow> DashboardSettings \<Rightarrow> bool" where
  "has_active_bootstrap_token cfg row =
     (if get_manual_bootstrap_token cfg \<noteq> None then True
      else password_hash row = None \<and> bootstrap_token_hash row \<noteq> None)"

definition validate_bootstrap_token :: "Crypto \<Rightarrow> AppSettings \<Rightarrow> DashboardSettings \<Rightarrow> string \<Rightarrow> bool" where
  "validate_bootstrap_token C cfg row submitted =
     (case get_manual_bootstrap_token cfg of
        Some manual \<Rightarrow> submitted = manual
      | None \<Rightarrow>
          if password_hash row \<noteq> None \<or> bootstrap_token_hash row = None then False
          else Some (sha256 C submitted) = bootstrap_token_hash row)"

datatype bootstrap_status = Valid | Invalid | Password_already_configured | Unavailable

definition get_bootstrap_validation_status :: "Crypto \<Rightarrow> AppSettings \<Rightarrow> DashboardSettings \<Rightarrow> string \<Rightarrow> bootstrap_status" where
  "get_bootstrap_validation_status C cfg row submitted =
     (case get_manual_bootstrap_token cfg of
        Some manual \<Rightarrow> if submitted = manual then Valid else Invalid
      | None \<Rightarrow>
          (case bootstrap_token_hash row of
             None \<Rightarrow> if password_hash row \<noteq> None then Password_already_configured else Unavailable
           | Some h \<Rightarrow>
               if sha256 C submitted = h then Valid
               else if password_hash row \<noteq> None then Password_already_configured
               else Invalid))"

text \<open>\<open>ensure_auto_bootstrap_token\<close> reads the row, may clear or store a token in the row it then finds and
  returns the token to show to the operator.\<close>

definition ensure_auto_bootstrap_token :: "Crypto \<Rightarrow> AppSettings \<Rightarrow> int \<Rightarrow> nat \<Rightarrow> string \<Rightarrow> DashboardSettings \<Rightarrow>
    DashboardSettings \<Rightarrow> DashboardSettings \<times> string option" where
  "ensure_auto_bootstrap_token C cfg bump iv fresh row cur =
     (if get_manual_bootstrap_token cfg \<noteq> None \<or> password_hash row \<noteq> None
      then (if bootstrap_token_hash row \<noteq> None then fst (clear_bootstrap_token bump cur) else cur, None)
      else if bootstrap_token_hash row \<noteq> None
      then (cur, case bootstrap_token_encrypted row of None \<Rightarrow> None | Some enc \<Rightarrow> open_secret C enc)
      else case store_bootstrap_token_if_absent bump (seal_secret C iv fresh) (sha256 C fresh) cur of
             (cur', stored) \<Rightarrow> (cur', if stored then Some fresh else None))"

definition clear_auto_generated_token :: "int \<Rightarrow> DashboardSettings \<Rightarrow> DashboardSettings" where
  "clear_auto_generated_token bump cur = fst (clear_bootstrap_token bump cur)"

section \<open>The service\<close>

datatype service_error =
    TotpAlreadyConfiguredError
  | TotpNotConfiguredError
  | TotpInvalidCodeError
  | TotpInvalidSetupError
  | PasswordAlreadyConfiguredError
  | PasswordNotConfiguredError
  | InvalidCredentialsError
  | GuestAccessDisabledError
  | PasswordSessionRequiredError
  | OtherError dashboard_error

definition check_password :: "Crypto \<Rightarrow> string \<Rightarrow> string \<Rightarrow> bool" where
  "check_password C pw h = (checkpw C pw h = Some True)"

definition setup_password_service :: "Crypto \<Rightarrow> int \<Rightarrow> nat \<Rightarrow> string \<Rightarrow> DashboardSettings \<Rightarrow>
    DashboardSettings \<times> (service_error + unit)" where
  "setup_password_service C bump salt pw cur =
     (case try_set_password_hash bump (hashpw C salt pw) cur of
        (cur', True) \<Rightarrow> (cur', Inr ())
      | (cur', False) \<Rightarrow> (cur', Inl PasswordAlreadyConfiguredError))"

definition verify_password :: "Crypto \<Rightarrow> DashboardSettings \<Rightarrow> string \<Rightarrow> service_error + unit" where
  "verify_password C row pw =
     (case password_hash row of
        None \<Rightarrow> Inl PasswordNotConfiguredError
      | Some h \<Rightarrow> if \<not> check_password C pw h then Inl InvalidCredentialsError else Inr ())"

definition verify_guest_password :: "Crypto \<Rightarrow> DashboardSettings \<Rightarrow> string option \<Rightarrow> service_error + bool" where
  "verify_guest_password C row pw =
     (if \<not> guest_access_enabled row then Inl GuestAccessDisabledError
      else case guest_password_hash row of
             None \<Rightarrow> Inr False
           | Some h \<Rightarrow>
               (case pw of
                  None \<Rightarrow> Inl InvalidCredentialsError
                | Some p \<Rightarrow> if \<not> check_password C p h then Inl InvalidCredentialsError else Inr True))"

definition of_mutation :: "DashboardSettings \<times> (dashboard_error + unit) \<Rightarrow> DashboardSettings \<times> (service_error + unit)" where
  "of_mutation r = (case r of (row, Inl e) \<Rightarrow> (row, Inl (OtherError e)) | (row, Inr u) \<Rightarrow> (row, Inr u))"

definition change_password_service :: "Crypto \<Rightarrow> nat \<Rightarrow> DashboardSettings \<Rightarrow> string \<Rightarrow> string \<Rightarrow> MutationRun \<Rightarrow>
    DashboardSettings \<times> (service_error + unit)" where
  "change_password_service C salt row current_pw new_pw run =
     (case verify_password C row current_pw of
        Inl e \<Rightarrow> (current run, Inl e)
      | Inr _ \<Rightarrow> of_mutation (mutate_settings_with_retry (set_password_hash (hashpw C salt new_pw)) run))"

definition remove_password_service :: "Crypto \<Rightarrow> DashboardSettings \<Rightarrow> string \<Rightarrow> MutationRun \<Rightarrow>
    DashboardSettings \<times> (service_error + unit)" where
  "remove_password_service C row pw run =
     (case verify_password C row pw of
        Inl e \<Rightarrow> (current run, Inl e)
      | Inr _ \<Rightarrow> of_mutation (mutate_settings_with_retry clear_password_and_totp run))"

definition set_guest_password_service :: "Crypto \<Rightarrow> nat \<Rightarrow> string \<Rightarrow> MutationRun \<Rightarrow> DashboardSettings \<times> (service_error + unit)" where
  "set_guest_password_service C salt pw run =
     of_mutation (mutate_settings_with_retry (set_guest_password_hash (hashpw C salt pw)) run)"

definition clear_guest_password_service :: "MutationRun \<Rightarrow> DashboardSettings \<times> (service_error + unit)" where
  "clear_guest_password_service run = of_mutation (mutate_settings_with_retry clear_guest_password_hash run)"

text \<open>A read of the session store inside the service: what it raises is not a service error.\<close>

definition service_session :: "Crypto \<Rightarrow> int \<Rightarrow> string option \<Rightarrow> service_error + DashboardSessionState option" where
  "service_session C now sid = (case read_session C now sid of Inl e \<Rightarrow> Inl (OtherError e) | Inr s \<Rightarrow> Inr s)"

definition require_active_password_session :: "Crypto \<Rightarrow> int \<Rightarrow> DashboardSettings \<Rightarrow> string option \<Rightarrow>
    service_error + DashboardSessionState" where
  "require_active_password_session C now row sid =
     (if password_hash row = None then Inl PasswordSessionRequiredError
      else res_bind (service_session C now sid) (\<lambda>s.
        case s of
          None \<Rightarrow> Inl PasswordSessionRequiredError
        | Some st \<Rightarrow>
            if session_role st \<noteq> ADMIN \<or> \<not> password_verified st then Inl PasswordSessionRequiredError else Inr st))"

definition require_totp_verified_session :: "Crypto \<Rightarrow> int \<Rightarrow> int \<Rightarrow> DashboardSettings \<Rightarrow> string option \<Rightarrow>
    service_error + unit" where
  "require_totp_verified_session C now now' row sid =
     res_bind (require_active_password_session C now row sid) (\<lambda>_.
       res_bind (service_session C now' sid) (\<lambda>s.
         if totp_session s then Inr () else Inl PasswordSessionRequiredError))"

definition start_totp_setup :: "Crypto \<Rightarrow> int \<Rightarrow> DashboardSettings \<Rightarrow> string option \<Rightarrow> string \<Rightarrow> service_error + string" where
  "start_totp_setup C now row sid fresh_secret =
     res_bind (require_active_password_session C now row sid) (\<lambda>_.
       if totp_secret_encrypted row \<noteq> None then Inl TotpAlreadyConfiguredError else Inr fresh_secret)"

definition confirm_totp_setup_service :: "Crypto \<Rightarrow> int \<Rightarrow> int \<Rightarrow> nat \<Rightarrow> DashboardSettings \<Rightarrow> string option \<Rightarrow> string \<Rightarrow> string \<Rightarrow>
    MutationRun \<Rightarrow> DashboardSettings \<times> (service_error + unit)" where
  "confirm_totp_setup_service C now now' iv row sid secret code run =
     (case require_active_password_session C now row sid of
        Inl e \<Rightarrow> (current run, Inl e)
      | Inr _ \<Rightarrow>
          if totp_secret_encrypted row \<noteq> None then (current run, Inl TotpAlreadyConfiguredError)
          else case verify_totp_code (code_at C) secret code 1 now' None of
                 Inl ValueError \<Rightarrow> (current run, Inl TotpInvalidSetupError)
               | Inl e \<Rightarrow> (current run, Inl (OtherError ServerError))
               | Inr v \<Rightarrow>
                   if \<not> is_valid v then (current run, Inl TotpInvalidCodeError)
                   else of_mutation (mutate_settings_with_retry (set_totp_secret (Some (seal_secret C iv secret))) run))"

text \<open>The check of a code against the stored secret that \<open>verify_totp\<close> and \<open>disable_totp\<close> share.\<close>

definition check_stored_totp :: "Crypto \<Rightarrow> int \<Rightarrow> DashboardSettings \<Rightarrow> string \<Rightarrow> service_error + int" where
  "check_stored_totp C now row code =
     (case totp_secret_encrypted row of
        None \<Rightarrow> Inl TotpNotConfiguredError
      | Some enc \<Rightarrow>
          (case open_secret C enc of
             None \<Rightarrow> Inl (OtherError ServerError)
           | Some secret \<Rightarrow>
               (case verify_totp_code (code_at C) secret code 1 now (totp_last_verified_step row) of
                  Inl e \<Rightarrow> Inl (OtherError ServerError)
                | Inr v \<Rightarrow>
                    (case matched_step v of
                       Some st \<Rightarrow> if \<not> is_valid v then Inl TotpInvalidCodeError else Inr st
                     | None \<Rightarrow> Inl TotpInvalidCodeError))))"

text \<open>\<open>verify_totp\<close> reads the clock for the session, for the code, for the remaining lifetime and for the new
  session. It returns the new cookie and its lifetime.\<close>

definition verify_totp_service :: "Crypto \<Rightarrow> int \<Rightarrow> int \<times> int \<times> int \<times> int \<Rightarrow> nat \<Rightarrow> DashboardSettings \<Rightarrow> string option \<Rightarrow> string \<Rightarrow> int \<Rightarrow>
    DashboardSettings \<Rightarrow> DashboardSettings \<times> (service_error + string \<times> int)" where
  "verify_totp_service C bump clocks iv row sid code ttl_seconds cur =
     (case clocks of (now1, now2, now3, now4) \<Rightarrow>
        (case require_active_password_session C now1 row sid of
           Inl e \<Rightarrow> (cur, Inl e)
         | Inr existing \<Rightarrow>
             (case check_stored_totp C now2 row code of
                Inl e \<Rightarrow> (cur, Inl e)
              | Inr st \<Rightarrow>
                  (case try_advance_totp_step bump st cur of
                     (cur', False) \<Rightarrow> (cur', Inl TotpInvalidCodeError)
                   | (cur', True) \<Rightarrow>
                       let inherited = max 1 (expires_at existing - now3);
                           applied = min inherited ttl_seconds
                       in (cur', Inr (create_session C iv now4 True True applied ADMIN False, applied))))))"

text \<open>\<open>disable_totp\<close> advances the step, then removes the secret from the rows its mutation finds. (In \<open>Dashboard_System\<close> nothing
  happens between the two writes.)\<close>

definition disable_totp_service :: "Crypto \<Rightarrow> int \<Rightarrow> int \<times> int \<times> int \<Rightarrow> DashboardSettings \<Rightarrow> string option \<Rightarrow> string \<Rightarrow>
    DashboardSettings \<Rightarrow> (DashboardSettings \<Rightarrow> MutationRun) \<Rightarrow> DashboardSettings \<times> (service_error + unit)" where
  "disable_totp_service C bump clocks row sid code cur run =
     (case clocks of (now1, now2, now3) \<Rightarrow>
        (case require_totp_verified_session C now1 now2 row sid of
           Inl e \<Rightarrow> (cur, Inl e)
         | Inr _ \<Rightarrow>
             (case check_stored_totp C now3 row code of
                Inl e \<Rightarrow> (cur, Inl e)
              | Inr st \<Rightarrow>
                  (case try_advance_totp_step bump st cur of
                     (cur', False) \<Rightarrow> (cur', Inl TotpInvalidCodeError)
                   | (cur', True) \<Rightarrow>
                       of_mutation (mutate_settings_with_retry (set_totp_secret None) (run cur'))))))"

section \<open>What the dashboard is told about its session\<close>

record DashboardAuthSessionResponse =
  authenticated :: bool
  shows_password_required :: bool
  shows_totp_required :: bool
  totp_configured :: bool
  bootstrap_required :: bool
  bootstrap_token_configured :: bool
  auth_mode :: DashboardAuthMode
  shows_password_management :: bool
  password_session_active :: bool
  shown_role :: DashboardRole
  shown_permissions :: "DashboardPermission list"
  shows_guest_access :: bool
  shows_guest_password :: bool

text \<open>Who a session counts as: whether it is authenticated and in which role.\<close>

definition session_standing :: "AppSettings \<Rightarrow> DashboardSettings \<Rightarrow> DashboardSessionState option \<Rightarrow> bool \<times> DashboardRole" where
  "session_standing cfg row s =
     (let pw_required = password_hash row \<noteq> None;
          totp_required = pw_required \<and> totp_required_on_login row;
          public_guest = guest_access_enabled row \<and> \<not> guest_password_required row \<and> pw_required \<and>
            dashboard_auth_mode cfg = STANDARD
      in if (case s of None \<Rightarrow> False | Some st \<Rightarrow> session_role st = GUEST \<and> guest_access_enabled row \<and>
               (\<not> guest_password_required row \<or> guest_verified st)) then (True, GUEST)
         else if admin_session s then (\<not> totp_required \<or> totp_session s, ADMIN)
         else if \<not> pw_required then (True, ADMIN)
         else if public_guest then (True, GUEST)
         else (False, ADMIN))"

definition role_permissions :: "DashboardRole \<Rightarrow> DashboardPermission list" where
  "role_permissions r = (case r of ADMIN \<Rightarrow> ADMIN_PERMISSIONS | GUEST \<Rightarrow> GUEST_PERMISSIONS)"

definition get_session_state :: "Crypto \<Rightarrow> AppSettings \<Rightarrow> int \<Rightarrow> DashboardSettings \<Rightarrow> string option \<Rightarrow>
    dashboard_error + DashboardAuthSessionResponse" where
  "get_session_state C cfg now row sid =
     res_map (\<lambda>s. case session_standing cfg row s of (ok, role) \<Rightarrow>
         \<lparr>authenticated = ok, shows_password_required = password_hash row \<noteq> None,
          shows_totp_required = password_hash row \<noteq> None \<and> totp_required_on_login row \<and> admin_session s \<and> \<not> totp_session s,
          totp_configured = totp_secret_encrypted row \<noteq> None, bootstrap_required = False, bootstrap_token_configured = False,
          auth_mode = STANDARD, shows_password_management = True, password_session_active = False,
          shown_role = role, shown_permissions = role_permissions role,
          shows_guest_access = guest_access_enabled row, shows_guest_password = guest_password_required row\<rparr>)
       (if password_hash row \<noteq> None \<or> guest_access_enabled row then read_session C now sid else Inr None)"

definition decorate_session_response :: "Crypto \<Rightarrow> AppSettings \<Rightarrow> int \<Rightarrow> DashboardRequest \<Rightarrow> bool \<Rightarrow> string option \<Rightarrow>
    DashboardAuthSessionResponse \<Rightarrow> dashboard_error + DashboardAuthSessionResponse" where
  "decorate_session_response C cfg now req force_authenticated password_session_id resp =
     (let sid = (if default_to password_session_id [] \<noteq> [] then password_session_id else session_cookie req)
      in res_map (\<lambda>s.
           let has_pwd = admin_session s;
               totp_pending = has_pwd \<and> shows_totp_required resp \<and> \<not> totp_session s;
               fully_authorized = has_pwd \<and> \<not> totp_pending \<and> shows_password_required resp
           in case snd (get_dashboard_request_auth cfg req) of
                None \<Rightarrow>
                  resp\<lparr>auth_mode := dashboard_auth_mode cfg,
                    shows_password_management := password_management_enabled (dashboard_auth_mode cfg),
                    password_session_active := fully_authorized,
                    authenticated := authenticated resp \<and>
                      \<not> (dashboard_auth_mode cfg = TRUSTED_HEADER \<and> \<not> shows_password_required resp \<and> \<not> shows_totp_required resp)\<rparr>
              | Some (mode, _) \<Rightarrow>
                  resp\<lparr>authenticated := force_authenticated \<or> authenticated resp, shows_totp_required := totp_pending,
                    auth_mode := mode, shows_password_management := password_management_enabled mode,
                    password_session_active := fully_authorized, shown_role := ADMIN,
                    shown_permissions := ADMIN_PERMISSIONS\<rparr>)
         (if default_to sid [] \<noteq> [] then read_session C now sid else Inr None))"

definition public_guest_response :: "DashboardAuthSessionResponse \<Rightarrow> DashboardAuthSessionResponse" where
  "public_guest_response resp =
     resp\<lparr>authenticated := True, bootstrap_required := False, bootstrap_token_configured := False, shown_role := GUEST,
       shown_permissions := GUEST_PERMISSIONS, shows_guest_access := True, shows_guest_password := False,
       password_session_active := False\<rparr>"

definition guest_login_required_response :: "DashboardAuthSessionResponse \<Rightarrow> DashboardAuthSessionResponse" where
  "guest_login_required_response resp =
     resp\<lparr>authenticated := False, bootstrap_required := False, bootstrap_token_configured := False, shown_role := GUEST,
       shown_permissions := GUEST_PERMISSIONS, shows_guest_access := True, shows_guest_password := True,
       password_session_active := False\<rparr>"

text \<open>The handler reads the settings twice (\<open>row\<close>, \<open>row'\<close>) and the cookie up to three times, each at its own clock.\<close>

definition get_dashboard_auth_session :: "Crypto \<Rightarrow> AppSettings \<Rightarrow> int \<times> int \<times> int \<Rightarrow> DashboardSettings \<Rightarrow> DashboardSettings \<Rightarrow>
    DashboardRequest \<Rightarrow> dashboard_error + DashboardAuthSessionResponse" where
  "get_dashboard_auth_session C cfg clocks row row' req =
     (case clocks of (now1, now2, now3) \<Rightarrow>
        res_bind (get_session_state C cfg now1 row (session_cookie req)) (\<lambda>resp.
        res_bind (decorate_session_response C cfg now2 req True None resp) (\<lambda>decorated.
          if auth_mode decorated \<noteq> STANDARD then Inr decorated
          else if shows_password_required decorated \<or> is_local req then Inr decorated
          else if guest_access_enabled row'
          then if guest_password_hash row' = None then Inr (public_guest_response decorated)
               else if authenticated decorated \<and> shown_role decorated = GUEST
               then res_map (\<lambda>s. case s of
                        Some st \<Rightarrow> if guest_verified st then decorated else guest_login_required_response decorated
                      | None \<Rightarrow> guest_login_required_response decorated)
                      (read_session C now3 (session_cookie req))
               else Inr (guest_login_required_response decorated)
          else Inr (decorated\<lparr>authenticated := False, bootstrap_required := True,
                 bootstrap_token_configured := has_active_bootstrap_token cfg row'\<rparr>))))"

section \<open>The handlers\<close>

definition totp_limiter :: DatabaseRateLimiter where
  "totp_limiter = \<lparr>max_attempts = 8, window_seconds = 60, limiter_type = ''totp''\<rparr>"

definition password_limiter :: DatabaseRateLimiter where
  "password_limiter = \<lparr>max_attempts = 8, window_seconds = 60, limiter_type = ''password''\<rparr>"

definition guest_password_limiter :: DatabaseRateLimiter where
  "guest_password_limiter = \<lparr>max_attempts = 8, window_seconds = 60, limiter_type = ''guest_password''\<rparr>"

definition session_client_key :: "DashboardRequest \<Rightarrow> string \<Rightarrow> string" where
  "session_client_key req prefix = prefix @ '':'' @ default_to (client_host req) ''unknown''"

text \<open>
  What a handler finds outside its own request: the settings cache when it starts and when it creates the
  session, the row the service reads and the row the answer reads, the clocks of the limiter (in
  microseconds) and of the other reads of the time, the table of attempts the limiter's error path reads,
  the randomness of the encryption and of the hash.
\<close>

record HandlerRun =
  cached_settings :: DashboardSettings
  cached_settings' :: DashboardSettings
  read_settings :: DashboardSettings
  read_settings' :: DashboardSettings
  limiter_clock :: int
  clock0 :: int
  clock1 :: int
  clock2 :: int
  clock2' :: int
  clock3 :: int
  clock4 :: int
  clock5 :: int
  attempts_later :: "RateLimitAttempt list"
  fresh_iv :: nat
  fresh_salt :: nat
  version_bump :: int

definition limit_attempt :: "DatabaseRateLimiter \<Rightarrow> string \<Rightarrow> string \<Rightarrow> HandlerRun \<Rightarrow> RateLimitAttempt list \<Rightarrow>
    RateLimitAttempt list \<times> (dashboard_error + unit)" where
  "limit_attempt l key code run rows =
     (case check_and_increment l key (limiter_clock run) rows (attempts_later run) of
        (written, Inr u) \<Rightarrow> (written, Inr u)
      | (written, Inl (DashboardRateLimitError n)) \<Rightarrow> (written, Inl (DashboardRateLimited code n))
      | (written, Inl LimiterValueError) \<Rightarrow> (written, Inl ServerError))"

definition create_dashboard_session :: "Crypto \<Rightarrow> AppSettings \<Rightarrow> HandlerRun \<Rightarrow> DashboardRequest \<Rightarrow> bool \<Rightarrow> bool \<Rightarrow> DashboardRole \<Rightarrow> bool \<Rightarrow>
    string \<times> int" where
  "create_dashboard_session C cfg run req pw tv role gv =
     (let ttl = resolve_session_ttl cfg req (dashboard_session_ttl_seconds (cached_settings' run))
      in (create_session C (fresh_iv run) (clock3 run) pw tv ttl role gv, ttl))"

text \<open>The answer that sets the cookie, with the session state it shows.\<close>

definition answer_with_session :: "Crypto \<Rightarrow> AppSettings \<Rightarrow> HandlerRun \<Rightarrow> DashboardRequest \<Rightarrow> string \<times> int \<Rightarrow>
    dashboard_error + (string \<times> int) \<times> DashboardAuthSessionResponse" where
  "answer_with_session C cfg run req session =
     res_map (Pair session)
       (res_bind (get_session_state C cfg (clock4 run) (read_settings' run) (Some (fst session)))
          (decorate_session_response C cfg (clock5 run) req False (Some (fst session))))"

definition ensure_password_management_enabled :: "AppSettings \<Rightarrow> DashboardRequest \<Rightarrow> dashboard_error + unit" where
  "ensure_password_management_enabled cfg req =
     (case snd (get_dashboard_request_auth cfg req) of
        Some (mode, _) \<Rightarrow>
          if \<not> password_management_enabled mode then Inl (DashboardBadRequestError ''password_management_disabled'') else Inr ()
      | None \<Rightarrow> Inr ())"

definition login_password :: "Crypto \<Rightarrow> AppSettings \<Rightarrow> HandlerRun \<Rightarrow> DashboardRequest \<Rightarrow> string \<Rightarrow> RateLimitAttempt list \<Rightarrow>
    RateLimitAttempt list \<times> (dashboard_error + (string \<times> int) \<times> DashboardAuthSessionResponse)" where
  "login_password C cfg run req pw rows =
     (if dashboard_auth_mode cfg = DISABLED then (rows, Inl (DashboardBadRequestError ''password_management_disabled''))
      else if password_hash (cached_settings run) = None then (rows, Inl (DashboardBadRequestError ''password_not_configured''))
      else let key = session_client_key req ''password_login''
           in case limit_attempt password_limiter key ''password_rate_limited'' run rows of
                (rows1, Inl e) \<Rightarrow> (rows1, Inl e)
              | (rows1, Inr _) \<Rightarrow>
                  (case verify_password C (read_settings run) pw of
                     Inl InvalidCredentialsError \<Rightarrow> (rows1, Inl (DashboardAuthError ''invalid_credentials''))
                   | Inl PasswordNotConfiguredError \<Rightarrow>
                       (clear_for_key password_limiter key rows1, Inl (DashboardBadRequestError ''password_not_configured''))
                   | Inl e \<Rightarrow> (rows1, Inl ServerError)
                   | Inr _ \<Rightarrow>
                       (clear_for_key password_limiter key rows1,
                        answer_with_session C cfg run req (create_dashboard_session C cfg run req True False ADMIN False))))"

definition login_guest :: "Crypto \<Rightarrow> AppSettings \<Rightarrow> HandlerRun \<Rightarrow> DashboardRequest \<Rightarrow> string option \<Rightarrow> RateLimitAttempt list \<Rightarrow>
    RateLimitAttempt list \<times> (dashboard_error + (string \<times> int) \<times> DashboardAuthSessionResponse)" where
  "login_guest C cfg run req pw rows =
     (if \<not> guest_access_enabled (cached_settings run) then (rows, Inl (DashboardBadRequestError ''guest_access_disabled''))
      else if dashboard_auth_mode cfg = TRUSTED_HEADER \<and> snd (get_dashboard_request_auth cfg req) = None
      then (rows, Inl (DashboardAuthError ''proxy_auth_required''))
      else let key = session_client_key req ''guest_login''
           in case (if guest_password_hash (cached_settings run) \<noteq> None
                    then limit_attempt guest_password_limiter key ''guest_password_rate_limited'' run rows
                    else (rows, Inr ())) of
                (rows1, Inl e) \<Rightarrow> (rows1, Inl e)
              | (rows1, Inr _) \<Rightarrow>
                  (case verify_guest_password C (read_settings run) pw of
                     Inl GuestAccessDisabledError \<Rightarrow> (rows1, Inl (DashboardBadRequestError ''guest_access_disabled''))
                   | Inl InvalidCredentialsError \<Rightarrow> (rows1, Inl (DashboardAuthError ''invalid_credentials''))
                   | Inl e \<Rightarrow> (rows1, Inl ServerError)
                   | Inr verified \<Rightarrow>
                       (clear_for_key guest_password_limiter key rows1,
                        answer_with_session C cfg run req (create_dashboard_session C cfg run req False False GUEST verified))))"

text \<open>The errors of the one-time code handlers.\<close>

definition totp_error :: "service_error \<Rightarrow> dashboard_error" where
  "totp_error e =
     (case e of
        PasswordSessionRequiredError \<Rightarrow> DashboardAuthError ''authentication_required''
      | TotpInvalidCodeError \<Rightarrow> DashboardBadRequestError ''invalid_totp_code''
      | TotpNotConfiguredError \<Rightarrow> DashboardBadRequestError ''invalid_totp_code''
      | OtherError d \<Rightarrow> d
      | _ \<Rightarrow> ServerError)"

definition setup_error :: "service_error \<Rightarrow> dashboard_error" where
  "setup_error e =
     (case e of
        PasswordSessionRequiredError \<Rightarrow> DashboardAuthError ''authentication_required''
      | TotpInvalidCodeError \<Rightarrow> DashboardBadRequestError ''invalid_totp_code''
      | TotpInvalidSetupError \<Rightarrow> DashboardBadRequestError ''invalid_totp_setup''
      | TotpAlreadyConfiguredError \<Rightarrow> DashboardBadRequestError ''invalid_totp_setup''
      | OtherError d \<Rightarrow> d
      | _ \<Rightarrow> ServerError)"

definition password_error :: "service_error \<Rightarrow> dashboard_error" where
  "password_error e =
     (case e of
        PasswordNotConfiguredError \<Rightarrow> DashboardBadRequestError ''password_not_configured''
      | InvalidCredentialsError \<Rightarrow> DashboardAuthError ''invalid_credentials''
      | OtherError d \<Rightarrow> d
      | _ \<Rightarrow> ServerError)"

text \<open>A handler that writes settings returns the row, the table and its answer.\<close>

definition verify_totp :: "Crypto \<Rightarrow> AppSettings \<Rightarrow> HandlerRun \<Rightarrow> DashboardSettings \<Rightarrow> DashboardRequest \<Rightarrow> string \<Rightarrow>
    DashboardSettings \<Rightarrow> RateLimitAttempt list \<Rightarrow>
    DashboardSettings \<times> RateLimitAttempt list \<times> (dashboard_error + (string \<times> int) \<times> DashboardAuthSessionResponse)" where
  "verify_totp C cfg run row0 req code cur rows =
     (case ensure_password_management_enabled cfg req of
        Inl e \<Rightarrow> (cur, rows, Inl e)
      | Inr _ \<Rightarrow>
          (case require_active_password_session C (clock0 run) row0 (session_cookie req) of
             Inl e \<Rightarrow> (cur, rows, Inl (totp_error e))
           | Inr _ \<Rightarrow>
               (case limit_attempt totp_limiter (session_client_key req ''totp_verify'') ''totp_rate_limited'' run rows of
                  (rows1, Inl e) \<Rightarrow> (cur, rows1, Inl e)
                | (rows1, Inr _) \<Rightarrow>
                    (case verify_totp_service C (version_bump run) (clock1 run, clock2 run, clock2' run, clock3 run) (fresh_iv run)
                            (read_settings run) (session_cookie req) code
                            (resolve_session_ttl cfg req (dashboard_session_ttl_seconds (cached_settings run))) cur of
                       (cur', Inl e) \<Rightarrow> (cur', rows1, Inl (totp_error e))
                     | (cur', Inr session) \<Rightarrow>
                         (cur', clear_for_key totp_limiter (session_client_key req ''totp_verify'') rows1,
                          answer_with_session C cfg run req session)))))"

definition disable_totp :: "Crypto \<Rightarrow> AppSettings \<Rightarrow> HandlerRun \<Rightarrow> DashboardSettings \<Rightarrow> DashboardRequest \<Rightarrow> string \<Rightarrow>
    DashboardSettings \<Rightarrow> (DashboardSettings \<Rightarrow> MutationRun) \<Rightarrow> RateLimitAttempt list \<Rightarrow>
    DashboardSettings \<times> RateLimitAttempt list \<times> (dashboard_error + unit)" where
  "disable_totp C cfg run row0 req code cur mutation rows =
     (case ensure_password_management_enabled cfg req of
        Inl e \<Rightarrow> (cur, rows, Inl e)
      | Inr _ \<Rightarrow>
          (case require_totp_verified_session C (clock0 run) (clock1 run) row0 (session_cookie req) of
             Inl e \<Rightarrow> (cur, rows, Inl (totp_error e))
           | Inr _ \<Rightarrow>
               (case limit_attempt totp_limiter (session_client_key req ''totp_disable'') ''totp_rate_limited'' run rows of
                  (rows1, Inl e) \<Rightarrow> (cur, rows1, Inl e)
                | (rows1, Inr _) \<Rightarrow>
                    (case disable_totp_service C (version_bump run) (clock2 run, clock2' run, clock3 run) (read_settings run)
                            (session_cookie req) code cur mutation of
                       (cur', Inl e) \<Rightarrow> (cur', rows1, Inl (totp_error e))
                     | (cur', Inr _) \<Rightarrow>
                         (cur', clear_for_key totp_limiter (session_client_key req ''totp_disable'') rows1, Inr ())))))"

definition has_active_password_session :: "Crypto \<Rightarrow> int \<Rightarrow> DashboardSettings \<Rightarrow> DashboardRequest \<Rightarrow> dashboard_error + bool" where
  "has_active_password_session C now row req =
     (if password_hash row = None then Inr False else is_password_verified C now (session_cookie req))"

definition start_totp_setup_handler :: "Crypto \<Rightarrow> AppSettings \<Rightarrow> HandlerRun \<Rightarrow> DashboardSettings \<Rightarrow> DashboardRequest \<Rightarrow> string \<Rightarrow>
    dashboard_error + string" where
  "start_totp_setup_handler C cfg run row0 req fresh_secret =
     res_bind (ensure_password_management_enabled cfg req) (\<lambda>_.
     res_bind (has_active_password_session C (clock1 run) row0 req) (\<lambda>active.
       if \<not> active then Inl (DashboardAuthError ''authentication_required'')
       else case start_totp_setup C (clock2 run) (read_settings run) (session_cookie req) fresh_secret of
              Inl e \<Rightarrow> Inl (setup_error e)
            | Inr secret \<Rightarrow> Inr secret))"

definition confirm_totp_setup :: "Crypto \<Rightarrow> AppSettings \<Rightarrow> HandlerRun \<Rightarrow> DashboardSettings \<Rightarrow> DashboardRequest \<Rightarrow> string \<Rightarrow> string \<Rightarrow>
    MutationRun \<Rightarrow> RateLimitAttempt list \<Rightarrow> DashboardSettings \<times> RateLimitAttempt list \<times> (dashboard_error + unit)" where
  "confirm_totp_setup C cfg run row0 req secret code mutation rows =
     (case res_bind (ensure_password_management_enabled cfg req) (\<lambda>_. has_active_password_session C (clock1 run) row0 req) of
        Inl e \<Rightarrow> (current mutation, rows, Inl e)
      | Inr False \<Rightarrow> (current mutation, rows, Inl (DashboardAuthError ''authentication_required''))
      | Inr True \<Rightarrow>
          (case limit_attempt totp_limiter (session_client_key req ''totp_setup_confirm'') ''totp_rate_limited'' run rows of
             (rows1, Inl e) \<Rightarrow> (current mutation, rows1, Inl e)
           | (rows1, Inr _) \<Rightarrow>
               (case confirm_totp_setup_service C (clock2 run) (clock3 run) (fresh_iv run) (read_settings run) (session_cookie req)
                       secret code mutation of
                  (cur', Inl e) \<Rightarrow> (cur', rows1, Inl (setup_error e))
                | (cur', Inr _) \<Rightarrow>
                    (cur', clear_for_key totp_limiter (session_client_key req ''totp_setup_confirm'') rows1, Inr ()))))"

definition utf8_length :: "string \<Rightarrow> nat" where
  "utf8_length s = sum_list (map (\<lambda>c. if code_point c < 128 then 1 else 2) s)"

definition validate_password_length :: "string \<Rightarrow> dashboard_error + unit" where
  "validate_password_length pw =
     (if length pw < 8 then Inl (DashboardValidationError ''validation_error'')
      else if 72 < utf8_length pw then Inl (DashboardValidationError ''password_too_long'')
      else Inr ())"

text \<open>The guards of \<open>setup_password\<close>: the deployment's mode, and a bootstrap token for a remote first setup.\<close>

definition setup_allowed :: "Crypto \<Rightarrow> AppSettings \<Rightarrow> DashboardSettings \<Rightarrow> DashboardSettings \<Rightarrow> DashboardRequest \<Rightarrow> string option \<Rightarrow>
    dashboard_error + unit" where
  "setup_allowed C cfg row row' req bootstrap =
     (if dashboard_auth_mode cfg = DISABLED then Inl (DashboardBadRequestError ''password_management_disabled'')
      else if dashboard_auth_mode cfg = TRUSTED_HEADER \<and> snd (get_dashboard_request_auth cfg req) = None \<and> password_hash row = None
      then Inl (DashboardAuthError ''proxy_auth_required'')
      else if password_hash row = None \<and> dashboard_auth_mode cfg \<noteq> TRUSTED_HEADER \<and> \<not> is_local req
      then case get_bootstrap_validation_status C cfg row' (py_strip (default_to bootstrap [])) of
             Unavailable \<Rightarrow> Inl (DashboardAuthError ''bootstrap_unavailable'')
           | Password_already_configured \<Rightarrow> Inl (DashboardConflictError ''password_already_configured'')
           | Valid \<Rightarrow> Inr ()
           | Invalid \<Rightarrow> Inl (DashboardAuthError ''invalid_bootstrap_token'')
      else Inr ())"

definition setup_password :: "Crypto \<Rightarrow> AppSettings \<Rightarrow> HandlerRun \<Rightarrow> DashboardSettings \<Rightarrow> DashboardRequest \<Rightarrow> string \<Rightarrow> string option \<Rightarrow>
    DashboardSettings \<Rightarrow> DashboardSettings \<times> (dashboard_error + (string \<times> int) \<times> DashboardAuthSessionResponse)" where
  "setup_password C cfg run row' req pw bootstrap cur =
     (case res_bind (setup_allowed C cfg (read_settings run) row' req bootstrap) (\<lambda>_. validate_password_length (py_strip pw)) of
        Inl e \<Rightarrow> (cur, Inl e)
      | Inr _ \<Rightarrow>
          (case setup_password_service C (version_bump run) (fresh_salt run) (py_strip pw) cur of
             (cur', Inl _) \<Rightarrow> (cur', Inl (DashboardConflictError ''password_already_configured''))
           | (cur', Inr _) \<Rightarrow>
               (cur', answer_with_session C cfg run req (create_dashboard_session C cfg run req True False ADMIN False))))"

definition validate_password_management_session :: "Crypto \<Rightarrow> AppSettings \<Rightarrow> HandlerRun \<Rightarrow> DashboardRequest \<Rightarrow> dashboard_error + unit" where
  "validate_password_management_session C cfg run req =
     res_bind (ensure_password_management_enabled cfg req) (\<lambda>_.
     res_bind (read_session C (clock1 run) (session_cookie req)) (\<lambda>s.
       if \<not> admin_session s then Inl (DashboardAuthError ''authentication_required'')
       else if totp_required_on_login (cached_settings run) \<and> \<not> totp_session s then Inl (DashboardAuthError ''totp_required'')
       else Inr ()))"

definition change_password :: "Crypto \<Rightarrow> AppSettings \<Rightarrow> HandlerRun \<Rightarrow> DashboardRequest \<Rightarrow> string \<Rightarrow> string \<Rightarrow> MutationRun \<Rightarrow>
    DashboardSettings \<times> (dashboard_error + unit)" where
  "change_password C cfg run req current_pw new_pw mutation =
     (case res_bind (validate_password_management_session C cfg run req) (\<lambda>_. validate_password_length (py_strip new_pw)) of
        Inl e \<Rightarrow> (current mutation, Inl e)
      | Inr _ \<Rightarrow>
          (case change_password_service C (fresh_salt run) (read_settings run) current_pw (py_strip new_pw) mutation of
             (cur', Inl e) \<Rightarrow> (cur', Inl (password_error e))
           | (cur', Inr _) \<Rightarrow> (cur', Inr ())))"

text \<open>\<open>remove_password\<close> also makes sure that a bootstrap token exists for the next setup.\<close>

definition remove_password :: "Crypto \<Rightarrow> AppSettings \<Rightarrow> HandlerRun \<Rightarrow> DashboardRequest \<Rightarrow> string \<Rightarrow> MutationRun \<Rightarrow> string \<Rightarrow>
    DashboardSettings \<times> (dashboard_error + string option)" where
  "remove_password C cfg run req pw mutation fresh_token =
     (case validate_password_management_session C cfg run req of
        Inl e \<Rightarrow> (current mutation, Inl e)
      | Inr _ \<Rightarrow>
          (case remove_password_service C (read_settings run) pw mutation of
             (cur', Inl e) \<Rightarrow> (cur', Inl (password_error e))
           | (cur', Inr _) \<Rightarrow>
               (case ensure_auto_bootstrap_token C cfg (version_bump run) (fresh_iv run) fresh_token (read_settings' run) cur' of
                  (cur'', tok) \<Rightarrow> (cur'', Inr tok))))"

definition set_guest_password :: "Crypto \<Rightarrow> AppSettings \<Rightarrow> HandlerRun \<Rightarrow> DashboardRequest \<Rightarrow> string \<Rightarrow> MutationRun \<Rightarrow>
    DashboardSettings \<times> (dashboard_error + unit)" where
  "set_guest_password C cfg run req pw mutation =
     (case res_bind (snd (require_write_access C cfg (cached_settings run) (clock1 run) req)) (\<lambda>_. validate_password_length (py_strip pw)) of
        Inl e \<Rightarrow> (current mutation, Inl e)
      | Inr _ \<Rightarrow>
          (case set_guest_password_service C (fresh_salt run) (py_strip pw) mutation of
             (cur', Inl e) \<Rightarrow> (cur', Inl (password_error e))
           | (cur', Inr _) \<Rightarrow> (cur', Inr ())))"

definition remove_guest_password :: "Crypto \<Rightarrow> AppSettings \<Rightarrow> HandlerRun \<Rightarrow> DashboardRequest \<Rightarrow> MutationRun \<Rightarrow>
    DashboardSettings \<times> (dashboard_error + unit)" where
  "remove_guest_password C cfg run req mutation =
     (case snd (require_write_access C cfg (cached_settings run) (clock1 run) req) of
        Inl e \<Rightarrow> (current mutation, Inl e)
      | Inr _ \<Rightarrow>
          (case clear_guest_password_service mutation of
             (cur', Inl e) \<Rightarrow> (cur', Inl (password_error e))
           | (cur', Inr _) \<Rightarrow> (cur', Inr ())))"

section \<open>What the operations do\<close>

text \<open>The last verified step never falls from \<open>row\<close> to \<open>row'\<close>.\<close>

definition step_kept :: "DashboardSettings \<Rightarrow> DashboardSettings \<Rightarrow> bool" where
  "step_kept row row' \<longleftrightarrow>
     (\<forall>v. totp_last_verified_step row = Some v \<longrightarrow> (\<exists>w. totp_last_verified_step row' = Some w \<and> v \<le> w))"

lemma step_kept_refl [simp]: "step_kept row row"
  by (simp add: step_kept_def)

lemma step_kept_same: "totp_last_verified_step row' = totp_last_verified_step row \<Longrightarrow> step_kept row row'"
  by (simp add: step_kept_def)

lemma try_advance_step:
  assumes "try_advance_totp_step bump st row = (row', ok)"
  shows "step_kept row row'"
    "ok \<Longrightarrow> totp_last_verified_step row' = Some st \<and> (\<forall>v. totp_last_verified_step row = Some v \<longrightarrow> v < st)"
    "\<not> ok \<Longrightarrow> row' = row"
  using assms by (auto simp: try_advance_totp_step_def step_kept_def bulk_update_def split: if_splits option.splits)

lemma commit_keeps_step:
  assumes "commit_changes l ch c = Some r" "totp_last_verified_step ch = totp_last_verified_step l"
  shows "totp_last_verified_step r = totp_last_verified_step c"
proof -
  have "r = c \<or> r = write_columns l ch c"
    using assms(1) by (auto simp: commit_changes_def split: if_splits)
  moreover have "totp_last_verified_step (write_columns l ch c) = totp_last_verified_step c"
    using assms(2) by (simp add: write_columns_def col_def)
  ultimately show ?thesis by auto
qed

lemma mutate_cases:
  assumes "mutate_settings_with_retry mutate run = (row', r)"
  obtains (first) "commit_changes (loaded run) (mutate (loaded run)) (current run) = Some row'" "r = Inr ()"
  | (second) "commit_changes (reloaded run) (mutate (reloaded run)) (current' run) = Some row'" "r = Inr ()"
  | (conflict) e where "row' = current' run" "r = Inl e"
  using assms by (auto simp: mutate_settings_with_retry_def split: option.splits)

lemma mutate_keeps_step:
  assumes "mutate_settings_with_retry mutate run = (row', r)" "\<And>row. totp_last_verified_step (mutate row) = totp_last_verified_step row"
    and "current run = row" "current' run = row"
  shows "step_kept row row'"
  using assms(1)
proof (cases rule: mutate_cases)
  case first
  from commit_keeps_step [OF first(1) assms(2)] show ?thesis by (intro step_kept_same) (simp add: assms(3))
next
  case second
  from commit_keeps_step [OF second(1) assms(2)] show ?thesis by (intro step_kept_same) (simp add: assms(4))
qed (simp add: assms(4))

lemma mutate_fails_unchanged:
  "mutate_settings_with_retry mutate run = (row', Inl e) \<Longrightarrow> row' = current' run"
  by (auto simp: mutate_settings_with_retry_def split: option.splits)

lemma of_mutation_eq:
  "of_mutation m = (row', r) \<Longrightarrow> \<exists>q. m = (row', q) \<and> ((\<exists>e. r = Inl e) \<longleftrightarrow> (\<exists>e. q = Inl e))"
  by (auto simp: of_mutation_def split: prod.splits sum.splits)

lemma answer_with_session_cookie:
  "answer_with_session C cfg run req session = Inr (session', resp) \<Longrightarrow> session' = session"
  by (auto simp: answer_with_session_def res_map_Inr_iff)

lemma login_password_issues:
  assumes "login_password C cfg run req pw rows = (rows', Inr ((tok, ttl), resp))"
  shows "\<exists>h. password_hash (read_settings run) = Some h \<and> check_password C pw h \<and>
    tok = create_session C (fresh_iv run) (clock3 run) True False ttl ADMIN False"
proof -
  obtain rows1 u where lim: "limit_attempt password_limiter (session_client_key req ''password_login'') ''password_rate_limited'' run rows = (rows1, Inr u)"
    using assms by (fastforce simp: login_password_def Let_def split: if_splits prod.splits sum.splits)
  from assms have ver: "verify_password C (read_settings run) pw = Inr ()"
    by (cases "verify_password C (read_settings run) pw")
      (auto simp: login_password_def Let_def lim split: if_splits service_error.splits)
  from assms have "answer_with_session C cfg run req (create_dashboard_session C cfg run req True False ADMIN False) = Inr ((tok, ttl), resp)"
    by (simp add: login_password_def Let_def lim ver split: if_splits)
  from answer_with_session_cookie [OF this] ver show ?thesis
    by (auto simp: create_dashboard_session_def Let_def verify_password_def split: option.splits if_splits)
qed

lemma login_guest_issues:
  assumes "login_guest C cfg run req pw rows = (rows', Inr ((tok, ttl), resp))"
  shows "\<exists>v. verify_guest_password C (read_settings run) pw = Inr v \<and>
    tok = create_session C (fresh_iv run) (clock3 run) False False ttl GUEST v"
proof -
  from assms obtain v where "verify_guest_password C (read_settings run) pw = Inr v"
    "answer_with_session C cfg run req (create_dashboard_session C cfg run req False False GUEST v) = Inr ((tok, ttl), resp)"
    by (auto simp: login_guest_def Let_def split: if_splits prod.splits sum.splits service_error.splits)
  then show ?thesis by (auto simp: create_dashboard_session_def Let_def dest!: answer_with_session_cookie)
qed

lemma setup_password_issues:
  assumes "setup_password C cfg run row' req pw bootstrap cur = (cur', Inr ((tok, ttl), resp))"
  shows "setup_allowed C cfg (read_settings run) row' req bootstrap = Inr ()"
    "password_hash cur = None" "totp_last_verified_step cur' = totp_last_verified_step cur"
    "tok = create_session C (fresh_iv run) (clock3 run) True False ttl ADMIN False"
proof -
  obtain u where allowed: "setup_allowed C cfg (read_settings run) row' req bootstrap = Inr u"
    and set: "setup_password_service C (version_bump run) (fresh_salt run) (py_strip pw) cur = (cur', Inr ())"
    and ans: "answer_with_session C cfg run req (create_dashboard_session C cfg run req True False ADMIN False) = Inr ((tok, ttl), resp)"
    using assms
    by (cases "setup_allowed C cfg (read_settings run) row' req bootstrap")
      (auto simp: setup_password_def split: prod.splits sum.splits)
  show "setup_allowed C cfg (read_settings run) row' req bootstrap = Inr ()" using allowed by simp
  show "password_hash cur = None" "totp_last_verified_step cur' = totp_last_verified_step cur"
    using set by (auto simp: setup_password_service_def try_set_password_hash_def bulk_update_def split: if_splits)
  show "tok = create_session C (fresh_iv run) (clock3 run) True False ttl ADMIN False"
    using answer_with_session_cookie [OF ans] by (simp add: create_dashboard_session_def Let_def)
qed

lemma setup_password_keeps_step:
  "setup_password C cfg run row' req pw bootstrap cur = (cur', r) \<Longrightarrow> step_kept cur cur'"
  by (auto simp: setup_password_def setup_password_service_def try_set_password_hash_def bulk_update_def
      intro!: step_kept_same split: prod.splits sum.splits if_splits bool.splits)

lemma require_active_session:
  assumes "require_active_password_session C now row sid = Inr st"
  shows "read_session C now sid = Inr (Some st)" "session_role st = ADMIN" "password_verified st" "password_hash row \<noteq> None"
  using assms
  by (auto simp: require_active_password_session_def service_session_def
      split: if_splits sum.splits option.splits)

lemma verify_totp_service_accepts:
  assumes "verify_totp_service C bump clocks iv row sid code ttl_seconds cur = (cur', Inr (tok, ttl))"
  obtains existing st where
    "require_active_password_session C (fst clocks) row sid = Inr existing"
    "check_stored_totp C (fst (snd clocks)) row code = Inr st"
    "try_advance_totp_step bump st cur = (cur', True)"
    "ttl = min (max 1 (expires_at existing - fst (snd (snd clocks)))) ttl_seconds"
    "tok = create_session C iv (snd (snd (snd clocks))) True True ttl ADMIN False"
  using assms
  by (cases clocks) (auto simp: verify_totp_service_def Let_def split: sum.splits prod.splits bool.splits)

lemma verify_totp_service_keeps_step:
  "verify_totp_service C bump clocks iv row sid code ttl_seconds cur = (cur', r) \<Longrightarrow> step_kept cur cur'"
  by (cases clocks)
    (auto simp: verify_totp_service_def Let_def dest: try_advance_step(1) split: sum.splits prod.splits bool.splits)

text \<open>A successful \<open>verify_totp\<close>: a session of the password behind it, a code that matches the secret the service
  read, a step later than any verified before, and the cookie of both.\<close>

lemma verify_totp_accepts:
  assumes "verify_totp C cfg run row0 req code cur rows = (cur', rows', Inr ((tok, ttl), resp))"
  obtains existing st where
    "require_active_password_session C (clock1 run) (read_settings run) (session_cookie req) = Inr existing"
    "check_stored_totp C (clock2 run) (read_settings run) code = Inr st"
    "try_advance_totp_step (version_bump run) st cur = (cur', True)"
    "ttl = min (max 1 (expires_at existing - clock2' run))
             (resolve_session_ttl cfg req (dashboard_session_ttl_seconds (cached_settings run)))"
    "tok = create_session C (fresh_iv run) (clock3 run) True True ttl ADMIN False"
proof -
  let ?service = "verify_totp_service C (version_bump run) (clock1 run, clock2 run, clock2' run, clock3 run) (fresh_iv run)
    (read_settings run) (session_cookie req) code
    (resolve_session_ttl cfg req (dashboard_session_ttl_seconds (cached_settings run))) cur"
  obtain session where "?service = (cur', Inr session)" "answer_with_session C cfg run req session = Inr ((tok, ttl), resp)"
    using assms by (auto simp: verify_totp_def split: sum.splits prod.splits)
  then have "?service = (cur', Inr (tok, ttl))" using answer_with_session_cookie by fastforce
  then show thesis by (rule verify_totp_service_accepts) (simp_all add: that)
qed

lemma verify_totp_keeps_step:
  "verify_totp C cfg run row0 req code cur rows = (cur', rows', r) \<Longrightarrow> step_kept cur cur'"
  by (auto simp: verify_totp_def dest: verify_totp_service_keeps_step split: sum.splits prod.splits)

lemma disable_totp_cases:
  assumes "disable_totp_service C bump clocks row sid code cur mutation = (cur', r)"
    and "\<And>c. current' (mutation c) = c"
  obtains (failed) e where "r = Inl e" "step_kept cur cur'"
  | (disabled) st cur1 where "r = Inr ()" "check_stored_totp C (snd (snd clocks)) row code = Inr st"
      "try_advance_totp_step bump st cur = (cur1, True)"
      "require_totp_verified_session C (fst clocks) (fst (snd clocks)) row sid = Inr ()"
proof (cases r)
  case (Inl e)
  have "step_kept cur cur'"
    using assms(1) Inl assms(2)
    by (cases clocks) (auto simp: disable_totp_service_def dest!: of_mutation_eq mutate_fails_unchanged dest: try_advance_step(1)
        split: sum.splits prod.splits bool.splits)
  then show thesis using Inl by (rule failed [rotated])
next
  case (Inr u)
  then show thesis using assms(1)
    by (cases clocks) (auto simp: disable_totp_service_def intro: disabled split: sum.splits prod.splits bool.splits)
qed

lemma disable_totp_outcome:
  assumes "disable_totp C cfg run row0 req code cur mutation rows = (cur', rows', r)" "\<And>c. current' (mutation c) = c"
  obtains (failed) e where "r = Inl e" "step_kept cur cur'"
  | (disabled) st cur1 where "r = Inr ()" "check_stored_totp C (clock3 run) (read_settings run) code = Inr st"
      "try_advance_totp_step (version_bump run) st cur = (cur1, True)"
proof -
  let ?service = "disable_totp_service C (version_bump run) (clock2 run, clock2' run, clock3 run) (read_settings run)
    (session_cookie req) code cur mutation"
  have "(isl r \<and> cur' = cur) \<or> (\<exists>q. ?service = (cur', q) \<and> isl r = isl q)"
  proof (cases "ensure_password_management_enabled cfg req")
    case (Inl e)
    then have "cur' = cur" "r = Inl e" using assms(1) by (simp_all add: disable_totp_def)
    then show ?thesis by simp
  next
    case (Inr u)
    from assms(1) [unfolded disable_totp_def Inr sum.case] show ?thesis
      by (auto split: sum.splits prod.splits)
  qed
  then consider e where "r = Inl e" "cur' = cur" | q where "?service = (cur', q)" "isl r = isl q"
    by (auto simp: isl_def)
  then show thesis
  proof cases
    case 2
    from 2(1) assms(2) show thesis
      by (rule disable_totp_cases; cases r) (use 2 failed disabled in auto)
  qed (simp add: failed)
qed

text \<open>A mutation whose commits find the row \<open>row\<close>.\<close>

definition commits_on :: "DashboardSettings \<Rightarrow> MutationRun \<Rightarrow> bool" where
  "commits_on row run \<longleftrightarrow> current run = row \<and> current' run = row"

lemma confirm_totp_setup_failed:
  assumes "confirm_totp_setup C cfg run row0 req secret code mutation rows = (cur', rows', Inl e)" "commits_on cur mutation"
  shows "cur' = cur"
proof -
  have service: "cur'' = cur" if "confirm_totp_setup_service C n1 n2 iv row sid secret code mutation = (cur'', Inl e')"
    for n1 n2 iv row sid cur'' e'
    using that assms(2)
    by (auto simp: confirm_totp_setup_service_def commits_on_def dest!: of_mutation_eq mutate_fails_unchanged
        split: sum.splits if_splits py_error.splits)
  then show ?thesis using assms
    by (auto simp: confirm_totp_setup_def commits_on_def split: sum.splits prod.splits bool.splits)
qed

lemma set_password_keeps_step: "totp_last_verified_step (set_password_hash h row) = totp_last_verified_step row"
  by (simp add: set_password_hash_def)

lemma set_guest_keeps_step:
  "totp_last_verified_step (set_guest_password_hash h row) = totp_last_verified_step row"
  "totp_last_verified_step (clear_guest_password_hash row) = totp_last_verified_step row"
  by (simp_all add: set_guest_password_hash_def clear_guest_password_hash_def)

lemma of_mutation_keeps_step:
  assumes "of_mutation (mutate_settings_with_retry mutate run) = (row', r)"
    and "\<And>row. totp_last_verified_step (mutate row) = totp_last_verified_step row" "commits_on row run"
  shows "step_kept row row'"
  using of_mutation_eq [OF assms(1)] mutate_keeps_step [OF _ assms(2)] assms(3) by (auto simp: commits_on_def)

lemma change_password_keeps_step:
  assumes "change_password C cfg run req current_pw new_pw mutation = (cur', r)" "commits_on cur mutation"
  shows "step_kept cur cur'"
proof -
  have "step_kept cur cur''" if "change_password_service C salt row p q mutation = (cur'', r')" for salt row p q cur'' r'
    using that assms(2)
    by (auto simp: change_password_service_def commits_on_def split: sum.splits
        dest!: of_mutation_keeps_step [OF _ set_password_keeps_step])
  then show ?thesis using assms by (auto simp: change_password_def commits_on_def split: sum.splits prod.splits)
qed

lemma guest_password_keeps_step:
  assumes "commits_on cur mutation"
  shows "set_guest_password C cfg run req pw mutation = (cur', r) \<Longrightarrow> step_kept cur cur'"
    and "remove_guest_password C cfg run req mutation = (cur', r) \<Longrightarrow> step_kept cur cur'"
  using assms
  by (auto simp: set_guest_password_def set_guest_password_service_def remove_guest_password_def
      clear_guest_password_service_def commits_on_def split: sum.splits prod.splits
      dest!: of_mutation_keeps_step [OF _ set_guest_keeps_step(1)] of_mutation_keeps_step [OF _ set_guest_keeps_step(2)])

lemma remove_password_failed:
  assumes "remove_password C cfg run req pw mutation fresh = (cur', Inl e)" "commits_on cur mutation"
  shows "cur' = cur"
proof -
  have "cur'' = cur" if "remove_password_service C row pw mutation = (cur'', Inl e')" for row cur'' e'
    using that assms(2)
    by (auto simp: remove_password_service_def commits_on_def dest!: of_mutation_eq mutate_fails_unchanged split: sum.splits)
  then show ?thesis using assms by (auto simp: remove_password_def commits_on_def split: sum.splits prod.splits)
qed

lemma bootstrap_keeps_step:
  "step_kept cur (fst (ensure_auto_bootstrap_token C cfg bump iv fresh row cur))"
  "step_kept cur (clear_auto_generated_token bump cur)"
  by (auto simp: ensure_auto_bootstrap_token_def clear_auto_generated_token_def clear_bootstrap_token_def
      store_bootstrap_token_if_absent_def bulk_update_def intro!: step_kept_same)

section \<open>The session shown and the access granted\<close>

text \<open>The settings rows the code means to have: no empty hash, one-time codes only on top of a password.\<close>

definition settings_consistent :: "DashboardSettings \<Rightarrow> bool" where
  "settings_consistent row \<longleftrightarrow> password_hash row \<noteq> Some [] \<and> (totp_required_on_login row \<longrightarrow> password_hash row \<noteq> None)"

text \<open>The session endpoint in standard mode, by its outcome.\<close>

definition shown_standing :: "AppSettings \<Rightarrow> DashboardSettings \<Rightarrow> bool \<Rightarrow> DashboardSessionState option \<Rightarrow> bool \<times> DashboardRole" where
  "shown_standing cfg row local s =
     (let s' = (if password_hash row \<noteq> None \<or> guest_access_enabled row then s else None)
      in if password_hash row \<noteq> None \<or> local then session_standing cfg row s'
         else if guest_access_enabled row
         then if guest_password_hash row = None then (True, GUEST)
              else if session_standing cfg row s' = (True, GUEST) \<and> (case s of None \<Rightarrow> False | Some st \<Rightarrow> guest_verified st)
              then (True, GUEST) else (False, GUEST)
         else (False, snd (session_standing cfg row s')))"

definition displays :: "bool \<times> DashboardRole \<Rightarrow> DashboardAuthSessionResponse \<Rightarrow> bool" where
  "displays v resp \<longleftrightarrow> authenticated resp = fst v \<and> shown_role resp = snd v \<and> shown_permissions resp = role_permissions (snd v)"

lemma session_endpoint_shows:
  assumes "dashboard_auth_mode cfg = STANDARD" "cached_auth req = None" "read_session C now (session_cookie req) = Inr s"
  shows "\<exists>resp. get_dashboard_auth_session C cfg (now, now, now) row row req = Inr resp \<and> displays (shown_standing cfg row (is_local req) s) resp"
proof -
  have auth: "snd (get_dashboard_request_auth cfg req) = None"
    using assms(1,2) by (simp add: get_dashboard_request_auth_def)
  have cookie: "(if default_to (session_cookie req) [] \<noteq> [] then read_session C now (session_cookie req) else Inr None) =
      Inr (if default_to (session_cookie req) [] \<noteq> [] then s else None)"
    using assms(3) by simp
  let ?s' = "if password_hash row \<noteq> None \<or> guest_access_enabled row then s else None"
  have state: "(if password_hash row \<noteq> None \<or> guest_access_enabled row then read_session C now (session_cookie req) else Inr None) = Inr ?s'"
    using assms(3) by simp
  obtain ok role where st: "session_standing cfg row ?s' = (ok, role)" by fastforce
  show ?thesis
    unfolding get_dashboard_auth_session_def get_session_state_def decorate_session_response_def prod.case state
      res_map_simps res_bind_simps st auth option.case Let_def default_to_simps list.simps if_False simp_thms cookie
    using st assms(1,3)
    by (auto simp: shown_standing_def displays_def public_guest_response_def guest_login_required_response_def
        role_permissions_def Let_def split: option.splits)
qed

lemma decide_access_shown:
  assumes "dashboard_auth_mode cfg = STANDARD" "settings_consistent row"
  shows "case decide_access cfg row local s of
      Inr p \<Rightarrow> shown_standing cfg row local s = (True, principal_role p) \<and> permissions p = role_permissions (principal_role p)
    | Inl e \<Rightarrow> \<not> fst (shown_standing cfg row local s)"
proof -
  have principals: "principal_role guest_principal = GUEST" "permissions guest_principal = role_permissions GUEST"
    "principal_role (admin_principal STANDARD None) = ADMIN" "permissions (admin_principal STANDARD None) = role_permissions ADMIN"
    by (simp_all add: guest_principal_def admin_principal_def role_permissions_def)
  show ?thesis
  proof (cases "password_hash row")
    case None
    then show ?thesis using assms
      by (cases s) (auto simp: decide_access_def shown_standing_def session_standing_def settings_consistent_def principals
          password_required_def requires_auth_def guest_password_required_def passwordless_fallback_allowed_def
          guest_session_def admin_session_def totp_session_def Let_def split: DashboardRole.splits)
  next
    case (Some h)
    then show ?thesis using assms
      by (cases s) (auto simp: decide_access_def shown_standing_def session_standing_def settings_consistent_def principals
          password_required_def requires_auth_def guest_password_required_def passwordless_fallback_allowed_def
          guest_session_def admin_session_def totp_session_def Let_def split: DashboardRole.splits)
  qed
qed

text \<open>C29: in standard mode, with consistent settings and a cookie that can be read, the session endpoint
  answers, it shows the request as authenticated exactly when the access check lets it in, and then it
  shows the role and the permissions the check grants.\<close>

theorem session_shown_as_granted:
  assumes "dashboard_auth_mode cfg = STANDARD" "cached_auth req = None" "cached_principal req = None"
    and "settings_consistent row" "read_session C now (session_cookie req) = Inr s"
  shows "\<exists>resp. get_dashboard_auth_session C cfg (now, now, now) row row req = Inr resp \<and>
    (case snd (validate_dashboard_session C cfg row now req) of
       Inr p \<Rightarrow> authenticated resp \<and> shown_role resp = principal_role p \<and> shown_permissions resp = permissions p
     | Inl e \<Rightarrow> \<not> authenticated resp)"
proof -
  have "get_dashboard_request_auth cfg req = (req, None)"
    using assms(1,2) by (simp add: get_dashboard_request_auth_def)
  then have granted: "snd (validate_dashboard_session C cfg row now req) = decide_access cfg row (is_local req) s"
    using assms(3,5) by (simp add: validate_dashboard_session_def split: sum.splits)
  obtain resp where resp: "get_dashboard_auth_session C cfg (now, now, now) row row req = Inr resp"
    "displays (shown_standing cfg row (is_local req) s) resp"
    using session_endpoint_shows [OF assms(1,2,5)] by blast
  show ?thesis
    unfolding granted using decide_access_shown [OF assms(1,4), of "is_local req" s] resp
    by (auto simp: displays_def split: sum.splits)
qed

theorem session_shown_as_granted_witness:
  "\<exists>resp. get_dashboard_auth_session sample_crypto sample_app (12, 12, 12) sample_dashboard sample_dashboard (sample_dashboard_request None) = Inr resp \<and>
    authenticated resp \<and> shown_role resp = GUEST \<and> shown_permissions resp = [READ]"
proof -
  have "dashboard_auth_mode sample_app = STANDARD" "cached_auth (sample_dashboard_request None) = None"
    "cached_principal (sample_dashboard_request None) = None" "settings_consistent sample_dashboard"
    "read_session sample_crypto 12 (session_cookie (sample_dashboard_request None)) = Inr None"
    by (simp_all add: sample_app_def sample_dashboard_request_def settings_consistent_def sample_dashboard_def read_session_def)
  note shown = session_shown_as_granted [OF this]
  have "case snd (validate_dashboard_session sample_crypto sample_app sample_dashboard 12 (sample_dashboard_request None)) of
      Inr p \<Rightarrow> p = guest_principal | Inl e \<Rightarrow> False"
    by code_simp
  then show ?thesis using shown
    by (auto simp: guest_principal_def GUEST_PERMISSIONS_def split: sum.splits)
qed

end
