(* ===== verification/Dashboard_System.thy ===== *)
theory Dashboard_System
  imports Dashboard_Auth
begin

text \<open>
  All requests to the dashboard's authentication together. The state is the settings row with every row
  there has been (what a cache or an unfinished read may still hold), and three ghosts: the cookies handed
  out with the reason for each, the one-time codes accepted, by the period between two changes of the
  secret, and the number of that period.

  A request may carry any cookie that was handed out; of others, Fernet opens none (\<open>presentable\<close>). A
  handler's reads find any row there has been, its writes the row of the moment.
\<close>

datatype grant =
    ByPassword "string option" string
  | ByFirstSetup
  | ByTotp string int
  | AsGuest

record AuthSystem =
  row :: DashboardSettings
  seen :: "DashboardSettings set"
  issued :: "(string \<times> DashboardSessionState \<times> grant) list"
  accepted :: "(nat \<times> int) list"
  period :: nat

definition token_of :: "DashboardRequest \<Rightarrow> string" where
  "token_of req = py_strip (default_to (session_cookie req) [])"

definition presentable :: "Crypto \<Rightarrow> AuthSystem \<Rightarrow> DashboardRequest \<Rightarrow> bool" where
  "presentable C s req \<longleftrightarrow> unseal C (token_of req) = None \<or> token_of req \<in> fst ` set (issued s)"

definition run_at :: "AuthSystem \<Rightarrow> HandlerRun \<Rightarrow> bool" where
  "run_at s run \<longleftrightarrow> {cached_settings run, cached_settings' run, read_settings run, read_settings' run} \<subseteq> seen s"

definition set_row :: "DashboardSettings \<Rightarrow> AuthSystem \<Rightarrow> AuthSystem" where
  "set_row r s = s\<lparr>row := r, seen := insert r (seen s)\<rparr>"

definition hand_out :: "string \<Rightarrow> int \<Rightarrow> bool \<Rightarrow> bool \<Rightarrow> DashboardRole \<Rightarrow> bool \<Rightarrow> grant \<Rightarrow> AuthSystem \<Rightarrow> AuthSystem" where
  "hand_out tok e pw tv role gv g s =
     s\<lparr>issued := (tok, \<lparr>expires_at = e, password_verified = pw, totp_verified = tv, session_role = role, guest_verified = gv\<rparr>, g)
          # issued s\<rparr>"

definition accept_code :: "int \<Rightarrow> AuthSystem \<Rightarrow> AuthSystem" where
  "accept_code st s = s\<lparr>accepted := (period s, st) # accepted s\<rparr>"

definition next_period :: "AuthSystem \<Rightarrow> AuthSystem" where
  "next_period s = s\<lparr>period := Suc (period s)\<rparr>"

inductive auth_step :: "Crypto \<Rightarrow> AppSettings \<Rightarrow> AuthSystem \<Rightarrow> AuthSystem \<Rightarrow> bool"
  for C :: Crypto and cfg :: AppSettings where
  password_login: "run_at s run \<Longrightarrow> login_password C cfg run req pw rows = (rows', Inr ((tok, ttl), resp)) \<Longrightarrow>
     auth_step C cfg s (hand_out tok (clock3 run + ttl) True False ADMIN False (ByPassword (password_hash (read_settings run)) pw) s)"
| guest_login: "run_at s run \<Longrightarrow> login_guest C cfg run req opw rows = (rows', Inr ((tok, ttl), resp)) \<Longrightarrow>
     verify_guest_password C (read_settings run) opw = Inr gv \<Longrightarrow>
     auth_step C cfg s (hand_out tok (clock3 run + ttl) False False GUEST gv AsGuest s)"
| first_setup: "run_at s run \<Longrightarrow> row' \<in> seen s \<Longrightarrow>
     setup_password C cfg run row' req pw bootstrap (row s) = (cur, Inr ((tok, ttl), resp)) \<Longrightarrow>
     auth_step C cfg s (hand_out tok (clock3 run + ttl) True False ADMIN False ByFirstSetup (set_row cur s))"
| setup_refused: "run_at s run \<Longrightarrow> row' \<in> seen s \<Longrightarrow>
     setup_password C cfg run row' req pw bootstrap (row s) = (cur, Inl e) \<Longrightarrow> auth_step C cfg s (set_row cur s)"
| totp_login: "run_at s run \<Longrightarrow> row0 \<in> seen s \<Longrightarrow> presentable C s req \<Longrightarrow>
     verify_totp C cfg run row0 req code (row s) rows = (cur, rows', Inr ((tok, ttl), resp)) \<Longrightarrow>
     check_stored_totp C (clock2 run) (read_settings run) code = Inr st \<Longrightarrow>
     auth_step C cfg s (hand_out tok (clock3 run + ttl) True True ADMIN False (ByTotp (token_of req) st) (accept_code st (set_row cur s)))"
| totp_refused: "run_at s run \<Longrightarrow> row0 \<in> seen s \<Longrightarrow> presentable C s req \<Longrightarrow>
     verify_totp C cfg run row0 req code (row s) rows = (cur, rows', Inl e) \<Longrightarrow> auth_step C cfg s (set_row cur s)"
| totp_disabled: "run_at s run \<Longrightarrow> row0 \<in> seen s \<Longrightarrow> presentable C s req \<Longrightarrow> (\<And>c. commits_on c (mutation c)) \<Longrightarrow>
     disable_totp C cfg run row0 req code (row s) mutation rows = (cur, rows', Inr u) \<Longrightarrow>
     check_stored_totp C (clock3 run) (read_settings run) code = Inr st \<Longrightarrow>
     auth_step C cfg s (next_period (accept_code st (set_row cur s)))"
| disable_refused: "run_at s run \<Longrightarrow> row0 \<in> seen s \<Longrightarrow> presentable C s req \<Longrightarrow> (\<And>c. commits_on c (mutation c)) \<Longrightarrow>
     disable_totp C cfg run row0 req code (row s) mutation rows = (cur, rows', Inl e) \<Longrightarrow> auth_step C cfg s (set_row cur s)"
| totp_set: "run_at s run \<Longrightarrow> row0 \<in> seen s \<Longrightarrow> presentable C s req \<Longrightarrow> commits_on (row s) run' \<Longrightarrow>
     confirm_totp_setup C cfg run row0 req secret code run' rows = (cur, rows', Inr u) \<Longrightarrow>
     auth_step C cfg s (next_period (set_row cur s))"
| set_refused: "run_at s run \<Longrightarrow> row0 \<in> seen s \<Longrightarrow> presentable C s req \<Longrightarrow> commits_on (row s) run' \<Longrightarrow>
     confirm_totp_setup C cfg run row0 req secret code run' rows = (cur, rows', Inl e) \<Longrightarrow> auth_step C cfg s (set_row cur s)"
| password_changed: "run_at s run \<Longrightarrow> presentable C s req \<Longrightarrow> commits_on (row s) run' \<Longrightarrow>
     change_password C cfg run req pw pw' run' = (cur, r) \<Longrightarrow> auth_step C cfg s (set_row cur s)"
| password_removed: "run_at s run \<Longrightarrow> presentable C s req \<Longrightarrow> commits_on (row s) run' \<Longrightarrow>
     remove_password C cfg run req pw run' fresh = (cur, Inr tok) \<Longrightarrow> auth_step C cfg s (next_period (set_row cur s))"
| remove_refused: "run_at s run \<Longrightarrow> presentable C s req \<Longrightarrow> commits_on (row s) run' \<Longrightarrow>
     remove_password C cfg run req pw run' fresh = (cur, Inl e) \<Longrightarrow> auth_step C cfg s (set_row cur s)"
| guest_password_set: "run_at s run \<Longrightarrow> presentable C s req \<Longrightarrow> commits_on (row s) run' \<Longrightarrow>
     set_guest_password C cfg run req pw run' = (cur, r) \<Longrightarrow> auth_step C cfg s (set_row cur s)"
| guest_password_removed: "run_at s run \<Longrightarrow> presentable C s req \<Longrightarrow> commits_on (row s) run' \<Longrightarrow>
     remove_guest_password C cfg run req run' = (cur, r) \<Longrightarrow> auth_step C cfg s (set_row cur s)"
| bootstrap_ensured: "row0 \<in> seen s \<Longrightarrow>
     auth_step C cfg s (set_row (fst (ensure_auto_bootstrap_token C cfg bump iv fresh row0 (row s))) s)"
| bootstrap_cleared: "auth_step C cfg s (set_row (clear_auto_generated_token bump (row s)) s)"
| settings_saved: "auth_step C cfg s (set_row ((row s)\<lparr>guest_access_enabled := guest, totp_required_on_login := required,
       dashboard_session_ttl_seconds := ttl, version := version (row s) + 1\<rparr>) s)"

definition auth_start :: "AuthSystem \<Rightarrow> bool" where
  "auth_start s \<longleftrightarrow> seen s = {row s} \<and> issued s = [] \<and> accepted s = []"

section \<open>No code is accepted twice\<close>

definition codes_fresh :: "AuthSystem \<Rightarrow> bool" where
  "codes_fresh s \<longleftrightarrow>
     (\<forall>(p, st) \<in> set (accepted s). p \<le> period s \<and>
        (p = period s \<longrightarrow> (\<exists>v. totp_last_verified_step (row s) = Some v \<and> st \<le> v))) \<and>
     sorted_wrt (\<lambda>(p, st) (q, su). p = q \<longrightarrow> su < st) (accepted s)"

lemma state_simps [simp]:
  "row (set_row r s) = r" "accepted (set_row r s) = accepted s" "period (set_row r s) = period s" "issued (set_row r s) = issued s"
  "row (hand_out tok e pw tv role gv g s) = row s" "accepted (hand_out tok e pw tv role gv g s) = accepted s"
  "period (hand_out tok e pw tv role gv g s) = period s" "seen (hand_out tok e pw tv role gv g s) = seen s"
  "row (accept_code st s) = row s" "issued (accept_code st s) = issued s" "period (accept_code st s) = period s"
  "accepted (accept_code st s) = (period s, st) # accepted s"
  "row (next_period s) = row s" "issued (next_period s) = issued s" "accepted (next_period s) = accepted s"
  "period (next_period s) = Suc (period s)"
  by (simp_all add: set_row_def hand_out_def accept_code_def next_period_def)

lemma codes_fresh_row: "codes_fresh s \<Longrightarrow> step_kept (row s) r \<Longrightarrow> codes_fresh (set_row r s)"
  by (fastforce simp: codes_fresh_def step_kept_def)

lemma codes_fresh_hand_out: "codes_fresh (hand_out tok e pw tv role gv g s) = codes_fresh s"
  by (simp add: codes_fresh_def)

lemma codes_fresh_next: "codes_fresh s \<Longrightarrow> codes_fresh (next_period (set_row r s))"
  by (fastforce simp: codes_fresh_def)

lemma codes_fresh_accept:
  assumes "codes_fresh s" "try_advance_totp_step bump st (row s) = (r, True)"
  shows "codes_fresh (accept_code st (set_row r s))"
proof -
  have last: "totp_last_verified_step r = Some st" "\<And>v. totp_last_verified_step (row s) = Some v \<Longrightarrow> v < st"
    using try_advance_step(2) [OF assms(2)] by auto
  have old: "p \<le> period s \<and> (p = period s \<longrightarrow> su < st)" if "(p, su) \<in> set (accepted s)" for p su
    using assms(1) that last(2) by (fastforce simp: codes_fresh_def)
  then have "\<And>p su. (p, su) \<in> set (accepted s) \<Longrightarrow> p \<le> period s \<and> (p = period s \<longrightarrow> su \<le> st)"
    by fastforce
  then show ?thesis using assms(1) last(1) old by (auto simp: codes_fresh_def)
qed

lemma codes_fresh_consume:
  assumes "codes_fresh s" "try_advance_totp_step bump st (row s) = (r, True)"
  shows "codes_fresh (next_period (accept_code st (set_row r' s)))"
proof -
  have "codes_fresh (accept_code st (set_row r s))" by (rule codes_fresh_accept [OF assms])
  then show ?thesis by (fastforce simp: codes_fresh_def)
qed

lemma commits_later: "(\<And>c. commits_on c (mutation c)) \<Longrightarrow> current' (mutation c) = c"
  by (simp add: commits_on_def)

lemma refused_keep_step:
  "confirm_totp_setup C cfg run row0 req secret code m rows = (cur', rows', Inl e) \<Longrightarrow> commits_on cur m \<Longrightarrow> step_kept cur cur'"
  "remove_password C cfg run req pw m fresh = (cur', Inl e) \<Longrightarrow> commits_on cur m \<Longrightarrow> step_kept cur cur'"
  using confirm_totp_setup_failed remove_password_failed step_kept_refl by metis+

lemma auth_step_codes:
  assumes "auth_step C cfg s t" "codes_fresh s"
  shows "codes_fresh t"
  using assms(1)
proof (cases rule: auth_step.cases)
  case (totp_login run row0 req code rows cur rows' tok ttl resp st)
  from totp_login(5) show ?thesis
    by (rule verify_totp_accepts) (use totp_login(1,6) codes_fresh_accept [OF assms(2)] in \<open>simp add: codes_fresh_hand_out\<close>)
next
  case (totp_disabled run row0 req mutation code rows cur rows' u st)
  from totp_disabled(6) commits_later [OF totp_disabled(5)] show ?thesis
    by (rule disable_totp_outcome) (use totp_disabled(1,7) codes_fresh_consume [OF assms(2)] in simp_all)
next
  case (disable_refused run row0 req mutation code rows cur rows' e)
  from disable_refused(6) commits_later [OF disable_refused(5)] show ?thesis
    by (rule disable_totp_outcome) (use disable_refused(1) codes_fresh_row [OF assms(2)] in simp_all)
next
  case (settings_saved guest required ttl)
  then show ?thesis using codes_fresh_row [OF assms(2)] by (simp add: step_kept_same)
qed (use assms(2) in \<open>simp_all add: codes_fresh_hand_out codes_fresh_next codes_fresh_row setup_password_keeps_step
    verify_totp_keeps_step refused_keep_step change_password_keeps_step
    guest_password_keeps_step bootstrap_keeps_step\<close>)

section \<open>Where a session comes from\<close>

text \<open>A cookie is earned by the password, by the first setup, or by a one-time code on top of an earned cookie.\<close>

inductive earned :: "Crypto \<Rightarrow> (string \<times> DashboardSessionState \<times> grant) list \<Rightarrow> string \<Rightarrow> bool"
  for C :: Crypto and hist :: "(string \<times> DashboardSessionState \<times> grant) list" where
  by_password: "(tok, st, ByPassword (Some h) pw) \<in> set hist \<Longrightarrow> check_password C pw h \<Longrightarrow> earned C hist tok"
| by_setup: "(tok, st, ByFirstSetup) \<in> set hist \<Longrightarrow> earned C hist tok"
| by_totp: "(tok, st, ByTotp parent su) \<in> set hist \<Longrightarrow> earned C hist parent \<Longrightarrow> earned C hist tok"

lemma earned_mono: "earned C hist tok \<Longrightarrow> set hist \<subseteq> set hist' \<Longrightarrow> earned C hist' tok"
  by (induction rule: earned.induct) (auto intro: earned.intros)

definition entry_ok :: "Crypto \<Rightarrow> AuthSystem \<Rightarrow> string \<times> DashboardSessionState \<times> grant \<Rightarrow> bool" where
  "entry_ok C s x = (case x of (tok, st, g) \<Rightarrow>
     (\<exists>iv. tok = seal C iv (session_payload st)) \<and>
     (password_verified st \<longrightarrow> earned C (issued s) tok) \<and>
     (totp_verified st \<longrightarrow> password_verified st \<and>
        (\<exists>parent su p. g = ByTotp parent su \<and> (p, su) \<in> set (accepted s))))"

definition cookies_earned :: "Crypto \<Rightarrow> AuthSystem \<Rightarrow> bool" where
  "cookies_earned C s \<longleftrightarrow> (\<forall>x \<in> set (issued s). entry_ok C s x)"

lemma entry_ok_mono:
  assumes "entry_ok C s x" "set (issued s) \<subseteq> set (issued t)" "set (accepted s) \<subseteq> set (accepted t)"
  shows "entry_ok C t x"
  using assms earned_mono [of C "issued s"] by (fastforce simp: entry_ok_def split: prod.splits)

lemma cookies_earned_same:
  "cookies_earned C s \<Longrightarrow> issued t = issued s \<Longrightarrow> set (accepted s) \<subseteq> set (accepted t) \<Longrightarrow> cookies_earned C t"
  by (auto simp: cookies_earned_def intro: entry_ok_mono)

text \<open>Handing out one more cookie keeps the invariant when the new cookie satisfies it.\<close>

lemma cookies_earned_hand_out:
  assumes "cookies_earned C s" "issued s' = issued s" "set (accepted s) \<subseteq> set (accepted s')"
    and "let t = hand_out tok e pw tv role gv g s' in entry_ok C t (hd (issued t))"
  shows "cookies_earned C (hand_out tok e pw tv role gv g s')"
proof -
  let ?t = "hand_out tok e pw tv role gv g s'"
  have sub: "set (issued s) \<subseteq> set (issued ?t)" "set (accepted s) \<subseteq> set (accepted ?t)"
    using assms(2,3) by (auto simp: hand_out_def)
  have "entry_ok C ?t x" if x: "x \<in> set (issued ?t)" for x
  proof (cases "x \<in> set (issued s)")
    case True
    then show ?thesis using assms(1) entry_ok_mono [OF _ sub] by (auto simp: cookies_earned_def)
  next
    case False
    then have "x = hd (issued ?t)" using x assms(2) by (auto simp: hand_out_def)
    then show ?thesis using assms(4) by (simp add: Let_def)
  qed
  then show ?thesis by (simp add: cookies_earned_def)
qed

text \<open>The session a presentable cookie is read as is one that was handed out under that cookie.\<close>

lemma presented_session:
  assumes "crypto_laws C" "cookies_earned C s" "presentable C s req" "read_session C now (session_cookie req) = Inr (Some st)"
  shows "\<exists>g. (token_of req, st, g) \<in> set (issued s)"
proof -
  obtain sid data where sid: "session_cookie req = Some sid" and data: "unseal C (py_strip sid) = Some data"
    and rd: "read_payload now data = Inr (Some st)"
    using assms(4) by (auto simp: read_session_def Let_def split: option.splits if_splits)
  have tok: "token_of req = py_strip sid" using sid by (simp add: token_of_def)
  then obtain st' g where entry: "(token_of req, st', g) \<in> set (issued s)"
    using assms(3) data by (auto simp: presentable_def)
  then obtain iv where "token_of req = seal C iv (session_payload st')"
    using assms(2) by (auto simp: cookies_earned_def entry_ok_def)
  then have "data = session_payload st'" using assms(1) data tok by (auto simp: crypto_laws_def)
  then have "st = st'" using rd by (simp add: read_session_payload split: if_splits)
  then show ?thesis using entry by blast
qed

lemma presented_admin_earned:
  assumes "crypto_laws C" "cookies_earned C s" "presentable C s req" "read_session C now (session_cookie req) = Inr (Some st)"
    and "password_verified st"
  shows "earned C (issued s) (token_of req)"
  using presented_session [OF assms(1-4)] assms(2,5) by (auto simp: cookies_earned_def entry_ok_def)

lemma auth_step_cookies:
  assumes "crypto_laws C" "auth_step C cfg s t" "cookies_earned C s"
  shows "cookies_earned C t"
  using assms(2)
proof (cases rule: auth_step.cases)
  case (password_login run req pw rows rows' tok ttl resp)
  obtain h where "password_hash (read_settings run) = Some h" "check_password C pw h"
    "tok = create_session C (fresh_iv run) (clock3 run) True False ttl ADMIN False"
    using login_password_issues [OF password_login(3)] by blast
  then show ?thesis unfolding password_login(1) using assms(3)
    by (intro cookies_earned_hand_out) (auto simp: Let_def hand_out_def entry_ok_def create_session_def intro: earned.by_password)
next
  case (guest_login run req opw rows rows' tok ttl resp gv)
  then have "tok = create_session C (fresh_iv run) (clock3 run) False False ttl GUEST gv"
    using login_guest_issues [OF guest_login(3)] by auto
  then show ?thesis unfolding guest_login(1) using assms(3)
    by (intro cookies_earned_hand_out) (auto simp: Let_def hand_out_def entry_ok_def create_session_def)
next
  case (first_setup run row' req pw bootstrap cur tok ttl resp)
  have "tok = create_session C (fresh_iv run) (clock3 run) True False ttl ADMIN False"
    by (rule setup_password_issues(4) [OF first_setup(4)])
  then show ?thesis unfolding first_setup(1) using assms(3)
    by (intro cookies_earned_hand_out [where s = s])
      (auto simp: Let_def hand_out_def entry_ok_def create_session_def intro: earned.by_setup)
next
  case (totp_login run row0 req code rows cur rows' tok ttl resp st)
  obtain existing where ex: "require_active_password_session C (clock1 run) (read_settings run) (session_cookie req) = Inr existing"
    and tok: "tok = create_session C (fresh_iv run) (clock3 run) True True ttl ADMIN False"
    using totp_login(5) by (rule verify_totp_accepts) blast
  have "earned C (issued s) (token_of req)"
    using presented_admin_earned [OF assms(1,3) totp_login(4)] require_active_session [OF ex] by blast
  then have "earned C (issued t) (token_of req)"
    unfolding totp_login(1) by (rule earned_mono) (auto simp: hand_out_def)
  then show ?thesis unfolding totp_login(1) using assms(3) tok
    by (intro cookies_earned_hand_out [where s = s])
      (auto simp: Let_def hand_out_def entry_ok_def create_session_def intro: earned.by_totp)
qed (use assms(3) in \<open>auto intro: cookies_earned_same\<close>)

definition auth_inv :: "Crypto \<Rightarrow> AuthSystem \<Rightarrow> bool" where
  "auth_inv C s \<longleftrightarrow> codes_fresh s \<and> (crypto_laws C \<longrightarrow> cookies_earned C s)"

interpretation auth: invariant_system auth_start "auth_step C cfg" "auth_inv C" for C cfg
proof unfold_locales
  fix s
  assume "auth_start s"
  then show "auth_inv C s"
    by (simp add: auth_start_def auth_inv_def codes_fresh_def cookies_earned_def)
next
  fix s t
  assume "auth_inv C s" "auth_step C cfg s t"
  then show "auth_inv C t"
    using auth_step_codes auth_step_cookies by (auto simp: auth_inv_def)
qed

text \<open>C19: between two changes of the secret, no two successful verifications, of logins or of disabling, however
  their requests interleave, accept a code of the same time step: the accepted steps strictly increase.\<close>

theorem totp_code_accepted_once:
  assumes "auth_start s" "(auth_step C cfg)\<^sup>*\<^sup>* s t"
  shows "sorted_wrt (\<lambda>(p, st) (q, su). p = q \<longrightarrow> su < st) (accepted t) \<and> distinct (accepted t)"
proof -
  have sorted: "sorted_wrt (\<lambda>(p, st) (q, su). p = q \<longrightarrow> su < st) (accepted t)"
    using auth.reachable_inv [OF assms] by (simp add: auth_inv_def codes_fresh_def)
  have "distinct xs" if "sorted_wrt (\<lambda>(p, st) (q, su). p = q \<longrightarrow> su < st) xs" for xs :: "(nat \<times> int) list"
    using that by (induction xs) auto
  from this [OF sorted] sorted show ?thesis by blast
qed

text \<open>C5: where a password is configured and the deployment does not vouch for the request otherwise, a request
  that carries a cookie the server handed out may write only if that cookie goes back to a login with
  the password or to the first setup, and, where one-time codes are required, to an accepted code.\<close>

theorem write_access_earned:
  assumes "crypto_laws C" "auth_start s" "(auth_step C cfg)\<^sup>*\<^sup>* s t" "presentable C t req"
    and "cached_principal req = None" "snd (get_dashboard_request_auth cfg req) = None" "password_required cfgrow"
    and "snd (require_write_access C cfg cfgrow now req) = Inr p"
  shows "earned C (issued t) (token_of req)
    \<and> (totp_required_on_login cfgrow \<longrightarrow>
      (\<exists>st parent su n. (token_of req, st, ByTotp parent su) \<in> set (issued t) \<and> (n, su) \<in> set (accepted t)))"
proof -
  have inv: "cookies_earned C t" using auth.reachable_inv [OF assms(2,3)] assms(1) by (simp add: auth_inv_def)
  obtain st where st: "read_session C now (session_cookie req) = Inr (Some st)" "password_verified st"
    "totp_required_on_login cfgrow \<Longrightarrow> totp_verified st"
    using write_access_cases [OF assms(5,6,8)] assms(7)
    by (auto simp: admin_granted_def admin_session_def totp_session_def split: option.splits)
  have earned: "earned C (issued t) (token_of req)" by (rule presented_admin_earned [OF assms(1) inv assms(4) st(1,2)])
  obtain g where "(token_of req, st, g) \<in> set (issued t)" using presented_session [OF assms(1) inv assms(4) st(1)] by blast
  then have "\<exists>st parent su n. (token_of req, st, ByTotp parent su) \<in> set (issued t) \<and> (n, su) \<in> set (accepted t)"
    if "totp_required_on_login cfgrow"
    using inv st(3) that by (fastforce simp: cookies_earned_def entry_ok_def)
  with earned show ?thesis by blast
qed

section \<open>A sample run\<close>

text \<open>A login with the password and then with the code of the next time step.\<close>

definition sample_auth :: AuthSystem where
  "sample_auth = \<lparr>row = sample_dashboard, seen = {sample_dashboard}, issued = [], accepted = [], period = 0\<rparr>"

definition sample_run :: "int \<Rightarrow> HandlerRun" where
  "sample_run now = \<lparr>cached_settings = sample_dashboard, cached_settings' = sample_dashboard, read_settings = sample_dashboard,
     read_settings' = sample_dashboard, limiter_clock = now * 1000000, clock0 = now, clock1 = now, clock2 = now, clock2' = now,
     clock3 = now, clock4 = now, clock5 = now, attempts_later = [], fresh_iv = 0, fresh_salt = 0, version_bump = 0\<rparr>"

definition password_cookie :: string where
  "password_cookie = create_session sample_crypto 0 41 True False 5 ADMIN False"

definition totp_cookie :: string where
  "totp_cookie = create_session sample_crypto 0 45 True True 1 ADMIN False"

definition sample_logged_in :: AuthSystem where
  "sample_logged_in = hand_out password_cookie 46 True False ADMIN False (ByPassword (Some ''hunter22'') ''hunter22'') sample_auth"

definition sample_row :: DashboardSettings where
  "sample_row = sample_dashboard\<lparr>totp_last_verified_step := Some 2\<rparr>"

definition sample_verified :: AuthSystem where
  "sample_verified = hand_out totp_cookie 46 True True ADMIN False (ByTotp password_cookie 2)
     (accept_code 2 (set_row sample_row sample_logged_in))"

lemma sample_run_at: "seen s = {sample_dashboard} \<Longrightarrow> run_at s (sample_run now)"
  by (simp add: run_at_def sample_run_def)

lemma sample_password_login: "auth_step sample_crypto sample_app sample_auth sample_logged_in"
proof -
  let ?L = "login_password sample_crypto sample_app (sample_run 41) (sample_dashboard_request None) ''hunter22'' []"
  have "case snd ?L of Inr ((tok, ttl), resp) \<Rightarrow> tok = password_cookie \<and> ttl = 5 | Inl e \<Rightarrow> False" by code_simp
  then obtain rows' resp where "?L = (rows', Inr ((password_cookie, 5), resp))"
    by (cases ?L) (auto split: sum.splits)
  from auth_step.password_login [OF sample_run_at this, of sample_auth] show ?thesis
    by (simp add: sample_auth_def sample_logged_in_def sample_run_def sample_dashboard_def)
qed

lemma sample_token: "token_of (sample_dashboard_request (Some password_cookie)) = password_cookie"
  by code_simp

lemma sample_totp_login: "auth_step sample_crypto sample_app sample_logged_in sample_verified"
proof -
  let ?req = "sample_dashboard_request (Some password_cookie)"
  let ?L = "verify_totp sample_crypto sample_app (sample_run 45) sample_dashboard ?req ''123456'' (row sample_logged_in) []"
  have "case ?L of (cur, rows', Inr ((tok, ttl), resp)) \<Rightarrow> cur = sample_row \<and> tok = totp_cookie \<and> ttl = 1 | _ \<Rightarrow> False" by code_simp
  then obtain rows' resp where L: "?L = (sample_row, rows', Inr ((totp_cookie, 1), resp))"
    by (cases ?L) (auto split: sum.splits)
  have st: "check_stored_totp sample_crypto (clock2 (sample_run 45)) (read_settings (sample_run 45)) ''123456'' = Inr 2"
    by code_simp
  have "presentable sample_crypto sample_logged_in ?req"
    by (simp add: presentable_def sample_token) (simp add: sample_logged_in_def hand_out_def)
  from auth_step.totp_login [OF sample_run_at _ this L st] show ?thesis
    by (simp add: sample_verified_def sample_token) (simp add: sample_logged_in_def sample_auth_def sample_run_def)
qed

lemma sample_auth_reaches:
  "auth_start sample_auth" "(auth_step sample_crypto sample_app)\<^sup>*\<^sup>* sample_auth sample_verified"
  using sample_password_login sample_totp_login by (auto simp: auth_start_def sample_auth_def)

theorem totp_code_accepted_once_witness:
  "distinct (accepted sample_verified) \<and> accepted sample_verified = [(0, 2)] \<and>
   \<not> snd (try_advance_totp_step 0 2 (row sample_verified))"
  using totp_code_accepted_once [OF sample_auth_reaches]
  by (simp add: sample_verified_def sample_logged_in_def sample_auth_def sample_row_def try_advance_totp_step_def)

theorem write_access_earned_witness:
  "earned sample_crypto (issued sample_verified) totp_cookie \<and>
   (\<exists>st parent su n. (totp_cookie, st, ByTotp parent su) \<in> set (issued sample_verified) \<and> (n, su) \<in> set (accepted sample_verified))"
proof -
  let ?req = "sample_dashboard_request (Some totp_cookie)"
  have tok: "token_of ?req = totp_cookie" by code_simp
  have "presentable sample_crypto sample_verified ?req"
    by (simp add: presentable_def tok) (simp add: sample_verified_def hand_out_def)
  moreover have "case snd (require_write_access sample_crypto sample_app sample_dashboard 45 ?req) of Inr p \<Rightarrow> True | Inl e \<Rightarrow> False"
    by code_simp
  then obtain p where "snd (require_write_access sample_crypto sample_app sample_dashboard 45 ?req) = Inr p"
    by (auto split: sum.splits)
  moreover have "cached_principal ?req = None" "snd (get_dashboard_request_auth sample_app ?req) = None"
    "password_required sample_dashboard" "totp_required_on_login sample_dashboard"
    by code_simp+
  ultimately show ?thesis
    using write_access_earned [OF sample_crypto_laws sample_auth_reaches, of ?req sample_dashboard 45 p] tok by simp
qed

end
