(* ===== verification/Admission.thy ===== *)
theory Admission
  imports Prelude
begin

text \<open>
  Bounded concurrency: the admission leases of \<open>codex-lb/app/modules/proxy/work_admission.py\<close> and the
  bulkhead of \<open>codex-lb/app/core/resilience/bulkhead.py\<close>, both on \<open>asyncio.Semaphore\<close>.

  The semaphore is modelled as the standard library has it (Python 3.13): the counter and the queue of
  futures of the tasks that wait, each has_pending, granted (its result is set, its task has not run yet) or
  cancelled. One event loop runs all tasks, so the code between two suspensions is one step. Tasks are
  numbered. The second part is the system of all tasks at one semaphore.
\<close>

datatype future = Pending | Granted | Cancelled

record Semaphore =
  sem_value :: nat
  waiters :: "(nat \<times> future) list"

definition new_semaphore :: "nat \<Rightarrow> Semaphore" where
  "new_semaphore n = \<lparr>sem_value = n, waiters = []\<rparr>"

definition locked :: "Semaphore \<Rightarrow> bool" where
  "locked sem = (sem_value sem = 0 \<or> (\<exists>w \<in> set (waiters sem). snd w \<noteq> Cancelled))"

text \<open>\<open>_wake_up_next\<close> sets the result of the first future that is not done and takes a permit for it.\<close>

fun grant_first :: "(nat \<times> future) list \<Rightarrow> (nat \<times> future) list option" where
  "grant_first [] = None"
| "grant_first ((t, f) # ws) = (if f = Pending then Some ((t, Granted) # ws) else map_option ((#) (t, f)) (grant_first ws))"

definition wake_up_next :: "Semaphore \<Rightarrow> Semaphore option" where
  "wake_up_next sem =
     map_option (\<lambda>ws. sem\<lparr>sem_value := sem_value sem - 1, waiters := ws\<rparr>) (grant_first (waiters sem))"

text \<open>The loop in the last clause of \<open>acquire\<close>: wake up while there is a permit and somebody to wake.\<close>

fun wake_loop :: "nat \<Rightarrow> (nat \<times> future) list \<Rightarrow> nat \<times> (nat \<times> future) list" where
  "wake_loop 0 ws = (0, ws)"
| "wake_loop (Suc v) ws = (case grant_first ws of None \<Rightarrow> (Suc v, ws) | Some ws' \<Rightarrow> wake_loop v ws')"

definition wake_all :: "Semaphore \<Rightarrow> Semaphore" where
  "wake_all sem = (case wake_loop (sem_value sem) (waiters sem) of (v, ws) \<Rightarrow> \<lparr>sem_value = v, waiters = ws\<rparr>)"

text \<open>\<open>acquire\<close> up to its first suspension: \<open>True\<close> when it returns at once.\<close>

definition acquire :: "nat \<Rightarrow> Semaphore \<Rightarrow> Semaphore \<times> bool" where
  "acquire t sem =
     (if \<not> locked sem then (sem\<lparr>sem_value := sem_value sem - 1\<rparr>, True)
      else (sem\<lparr>waiters := waiters sem @ [(t, Pending)]\<rparr>, False))"

definition drop_waiter :: "nat \<Rightarrow> (nat \<times> future) list \<Rightarrow> (nat \<times> future) list" where
  "drop_waiter t ws = filter (\<lambda>w. fst w \<noteq> t) ws"

text \<open>\<open>acquire\<close> after the suspension: the future had its result, or the wait was cancelled. A cancelled
  task whose future already had its result gives the permit back.\<close>

definition acquire_resumed :: "nat \<Rightarrow> Semaphore \<Rightarrow> Semaphore" where
  "acquire_resumed t sem = wake_all (sem\<lparr>waiters := drop_waiter t (waiters sem)\<rparr>)"

definition acquire_cancelled :: "nat \<Rightarrow> Semaphore \<Rightarrow> Semaphore" where
  "acquire_cancelled t sem =
     wake_all (sem\<lparr>sem_value := sem_value sem + (if (t, Granted) \<in> set (waiters sem) then 1 else 0),
                   waiters := drop_waiter t (waiters sem)\<rparr>)"

text \<open>\<open>task.cancel()\<close> cancels the future the task waits for unless it is done.\<close>

definition cancel_wait :: "nat \<Rightarrow> Semaphore \<Rightarrow> Semaphore" where
  "cancel_wait t sem =
     sem\<lparr>waiters := map (\<lambda>w. if w = (t, Pending) then (t, Cancelled) else w) (waiters sem)\<rparr>"

definition sem_release :: "Semaphore \<Rightarrow> Semaphore" where
  "sem_release sem =
     (let sem' = sem\<lparr>sem_value := sem_value sem + 1\<rparr>
      in case wake_up_next sem' of None \<Rightarrow> sem' | Some sem'' \<Rightarrow> sem'')"

section \<open>Admission leases\<close>

text \<open>A lease of a disabled gate has no semaphore. \<open>release\<close>, leaving the \<open>with\<close> block and the finaliser all
  release at most once.\<close>

record AdmissionLease =
  guarded :: bool
  stage :: string
  released :: bool

definition lease_release :: "AdmissionLease \<Rightarrow> Semaphore \<Rightarrow> AdmissionLease \<times> Semaphore" where
  "lease_release lease sem =
     (if released lease \<or> \<not> guarded lease then (lease, sem)
      else (lease\<lparr>released := True\<rparr>, sem_release sem))"

definition make_gate :: "int \<Rightarrow> Semaphore option" where
  "make_gate limit = (if limit \<le> 0 then None else Some (new_semaphore (nat limit)))"

record WorkAdmissionController =
  token_refresh :: "Semaphore option"
  websocket_connect :: "Semaphore option"
  gate_response_create :: "Semaphore option"
  gate_compact_response_create :: "Semaphore option"

definition make_controller :: "int \<Rightarrow> int \<Rightarrow> int \<Rightarrow> int \<Rightarrow> WorkAdmissionController" where
  "make_controller token_limit connect_limit create_limit compact_limit =
     \<lparr>token_refresh = make_gate token_limit, websocket_connect = make_gate connect_limit,
      gate_response_create = make_gate create_limit, gate_compact_response_create = make_gate compact_limit\<rparr>"

datatype admission_error = Admission_overloaded string

text \<open>\<open>_acquire\<close> up to its suspension: a lease at once, or a place in the queue (\<open>None\<close>).\<close>

definition admit_start :: "nat \<Rightarrow> string \<Rightarrow> Semaphore option \<Rightarrow> Semaphore option \<times> AdmissionLease option" where
  "admit_start t st gate =
     (case gate of
        None \<Rightarrow> (None, Some \<lparr>guarded = False, stage = st, released = False\<rparr>)
      | Some sem \<Rightarrow>
          (case acquire t sem of
             (sem', True) \<Rightarrow> (Some sem', Some \<lparr>guarded = True, stage = st, released = False\<rparr>)
           | (sem', False) \<Rightarrow> (Some sem', None)))"

definition admit_resumed :: "nat \<Rightarrow> string \<Rightarrow> Semaphore \<Rightarrow> Semaphore \<times> AdmissionLease" where
  "admit_resumed t st sem = (acquire_resumed t sem, \<lparr>guarded = True, stage = st, released = False\<rparr>)"

definition admit_timed_out :: "nat \<Rightarrow> string \<Rightarrow> Semaphore \<Rightarrow> Semaphore \<times> (admission_error + AdmissionLease)" where
  "admit_timed_out t st sem =
     (acquire_cancelled t sem, Inl (Admission_overloaded (''codex-lb is temporarily overloaded during '' @ st)))"

definition response_create_gate :: "bool \<Rightarrow> WorkAdmissionController \<Rightarrow> Semaphore option \<times> string" where
  "response_create_gate is_compact c =
     (if is_compact then (gate_compact_response_create c, ''compact_response_create'') else (gate_response_create c, ''response_create''))"

section \<open>The bulkhead\<close>

definition is_proxy_path :: "string \<Rightarrow> bool" where
  "is_proxy_path path = (starts_with path ''/v1/'' \<or> starts_with path ''/backend-api/'')"

definition is_compact_path :: "string \<Rightarrow> bool" where
  "is_compact_path path = ends_with path ''/responses/compact''"

datatype lane = Proxy_http | Proxy_websocket | Proxy_compact | Dashboard_lane | Background

type_synonym bulkhead = "lane \<Rightarrow> Semaphore option"

definition bulkhead_limits :: "int option \<Rightarrow> int \<Rightarrow> int \<Rightarrow> int option \<Rightarrow> int option \<Rightarrow> int option \<Rightarrow> lane \<Rightarrow> int" where
  "bulkhead_limits proxy_limit dashboard_limit background_limit http_limit websocket_limit compact_limit l =
     (let resolved = default_to proxy_limit 200;
          http = default_to http_limit resolved
      in case l of
           Proxy_http \<Rightarrow> http
         | Proxy_websocket \<Rightarrow> default_to websocket_limit resolved
         | Proxy_compact \<Rightarrow> default_to compact_limit (if http \<le> 0 then 0 else min http 16)
         | Dashboard_lane \<Rightarrow> dashboard_limit
         | Background \<Rightarrow> background_limit)"

definition make_bulkhead :: "(lane \<Rightarrow> int) \<Rightarrow> bulkhead" where
  "make_bulkhead limits l = make_gate (limits l)"

definition get_semaphore :: "string \<Rightarrow> string \<Rightarrow> lane" where
  "get_semaphore scope_type path =
     (if scope_type = ''websocket'' \<and> is_proxy_path path then Proxy_websocket
      else if scope_type = ''http'' \<and> is_compact_path path then Proxy_compact
      else if scope_type = ''http'' \<and> is_proxy_path path then Proxy_http
      else Dashboard_lane)"

text \<open>What the middleware does with a request: pass it on outside the bulkhead, refuse it with a status and
  whether it is denied as a websocket and whether the answer is in the proxy's error format, or run it in a lane.\<close>

datatype bulkhead_action =
    Pass_through
  | Refuse int bool bool
  | Run_in lane

definition bulkhead_call :: "string \<Rightarrow> string \<Rightarrow> bool \<Rightarrow> nat \<Rightarrow> bulkhead \<Rightarrow> bulkhead_action \<times> bulkhead" where
  "bulkhead_call scope_type path memory_pressure t b =
     (if scope_type \<noteq> ''http'' \<and> scope_type \<noteq> ''websocket'' then (Pass_through, b)
      else if starts_with path ''/health'' then (Pass_through, b)
      else if memory_pressure then (Refuse 503 (scope_type = ''websocket'') (is_proxy_path path), b)
      else let l = get_semaphore scope_type path
           in case b l of
                None \<Rightarrow> (Pass_through, b)
              | Some sem \<Rightarrow>
                  if locked sem then (Refuse 429 (scope_type = ''websocket'') (is_proxy_path path), b)
                  else (Run_in l, b(l \<mapsto> fst (acquire t sem))))"

definition bulkhead_done :: "lane \<Rightarrow> bulkhead \<Rightarrow> bulkhead" where
  "bulkhead_done l b = (case b l of None \<Rightarrow> b | Some sem \<Rightarrow> b(l \<mapsto> sem_release sem))"

section \<open>Permits are conserved\<close>

abbreviation granted :: "(nat \<times> future) list \<Rightarrow> nat" where
  "granted ws \<equiv> length (filter (\<lambda>w. snd w = Granted) ws)"

definition has_pending :: "(nat \<times> future) list \<Rightarrow> bool" where
  "has_pending ws = (\<exists>w \<in> set ws. snd w = Pending)"

text \<open>The permits of a semaphore: those nobody has and those handed to a task that has not run yet.\<close>

definition permits :: "Semaphore \<Rightarrow> nat" where
  "permits sem = sem_value sem + granted (waiters sem)"

text \<open>Nobody waits for a permit that is free, unless a task that has been granted one is about to run.\<close>

definition no_lost_wakeup :: "Semaphore \<Rightarrow> bool" where
  "no_lost_wakeup sem \<longleftrightarrow> (has_pending (waiters sem) \<longrightarrow> sem_value sem = 0 \<or> 0 < granted (waiters sem))"

lemma has_pending_simps [simp]: "\<not> has_pending []" "has_pending (w # ws) = (snd w = Pending \<or> has_pending ws)"
  "has_pending (ws @ ws') = (has_pending ws \<or> has_pending ws')"
  by (auto simp: has_pending_def)

lemma grant_first_None: "grant_first ws = None \<longleftrightarrow> \<not> has_pending ws"
  by (induction ws rule: grant_first.induct) auto

lemma grant_first_Some:
  "grant_first ws = Some ws' \<Longrightarrow> granted ws' = Suc (granted ws) \<and> map fst ws' = map fst ws"
  by (induction ws arbitrary: ws' rule: grant_first.induct) (auto split: if_splits)

lemma wake_loop_props:
  "wake_loop v ws = (v', ws') \<Longrightarrow>
     v' + granted ws' = v + granted ws \<and> map fst ws' = map fst ws \<and> (v' = 0 \<or> \<not> has_pending ws')"
proof (induction v ws arbitrary: v' ws' rule: wake_loop.induct)
  case (2 v ws)
  show ?case
  proof (cases "grant_first ws")
    case None
    then show ?thesis using 2(2) grant_first_None [of ws] by auto
  next
    case (Some ws1)
    then show ?thesis using 2(1) [OF Some, of v' ws'] 2(2) grant_first_Some [OF Some] by simp
  qed
qed simp

lemma wake_all_props:
  "permits (wake_all sem) = permits sem" "map fst (waiters (wake_all sem)) = map fst (waiters sem)" "no_lost_wakeup (wake_all sem)"
  using wake_loop_props [of "sem_value sem" "waiters sem"]
  by (auto simp: wake_all_def permits_def no_lost_wakeup_def split: prod.splits)

lemma sem_release_props:
  "permits (sem_release sem) = Suc (permits sem)" "map fst (waiters (sem_release sem)) = map fst (waiters sem)" "no_lost_wakeup (sem_release sem)"
  using grant_first_Some [of "waiters sem"] grant_first_None [of "waiters sem"]
  by (auto simp: sem_release_def wake_up_next_def permits_def no_lost_wakeup_def Let_def split: option.splits)

lemma granted_drop:
  "distinct (map fst ws) \<Longrightarrow> (t, f) \<in> set ws \<Longrightarrow>
     granted ws = granted (drop_waiter t ws) + (if f = Granted then 1 else 0)"
proof (induction ws)
  case (Cons w ws)
  show ?case
  proof (cases "fst w = t")
    case True
    then have "drop_waiter t ws = ws" "w = (t, f)"
      using Cons.prems by (auto simp: drop_waiter_def filter_id_conv image_iff)
    then show ?thesis by (simp add: drop_waiter_def)
  next
    case False
    then show ?thesis using Cons by (auto simp: drop_waiter_def)
  qed
qed simp

lemma distinct_drop_waiter: "distinct (map fst ws) \<Longrightarrow> distinct (map fst (drop_waiter t ws))"
  by (simp add: drop_waiter_def distinct_map_filter)

lemma set_drop_waiter: "fst ` set (drop_waiter t ws) = fst ` set ws - {t}"
  by (auto simp: drop_waiter_def)

section \<open>All tasks at one gate\<close>

text \<open>The semaphore and the leases that tasks have got, by task. A task gets at most one lease from the gate.\<close>

record GateSystem =
  gate :: Semaphore
  leases :: "(nat \<times> AdmissionLease) list"

definition holds :: "AdmissionLease \<Rightarrow> bool" where
  "holds lease = (guarded lease \<and> \<not> released lease)"

definition held_leases :: "GateSystem \<Rightarrow> nat" where
  "held_leases s = length (filter (\<lambda>x. holds (snd x)) (leases s))"

definition put_lease :: "nat \<Rightarrow> AdmissionLease \<Rightarrow> (nat \<times> AdmissionLease) list \<Rightarrow> (nat \<times> AdmissionLease) list" where
  "put_lease t lease ls = map (\<lambda>x. if fst x = t then (t, lease) else x) ls"

inductive gate_step :: "GateSystem \<Rightarrow> GateSystem \<Rightarrow> bool" where
  enter: "t \<notin> fst ` set (waiters (gate s)) \<union> fst ` set (leases s) \<Longrightarrow> admit_start t st (Some (gate s)) = (Some sem, Some lease) \<Longrightarrow>
     gate_step s (s\<lparr>gate := sem, leases := (t, lease) # leases s\<rparr>)"
| queue: "t \<notin> fst ` set (waiters (gate s)) \<union> fst ` set (leases s) \<Longrightarrow> admit_start t st (Some (gate s)) = (Some sem, None) \<Longrightarrow>
     gate_step s (s\<lparr>gate := sem\<rparr>)"
| resume: "(t, Granted) \<in> set (waiters (gate s)) \<Longrightarrow> admit_resumed t st (gate s) = (sem, lease) \<Longrightarrow>
     gate_step s (s\<lparr>gate := sem, leases := (t, lease) # leases s\<rparr>)"
| cancel: "gate_step s (s\<lparr>gate := cancel_wait t (gate s)\<rparr>)"
| time_out: "(t, Granted) \<in> set (waiters (gate s)) \<or> (t, Cancelled) \<in> set (waiters (gate s)) \<Longrightarrow>
     admit_timed_out t st (gate s) = (sem, e) \<Longrightarrow> gate_step s (s\<lparr>gate := sem\<rparr>)"
| give_back: "(t, lease) \<in> set (leases s) \<Longrightarrow> lease_release lease (gate s) = (lease', sem) \<Longrightarrow>
     gate_step s (s\<lparr>gate := sem, leases := put_lease t lease' (leases s)\<rparr>)"

definition gate_start :: "nat \<Rightarrow> GateSystem \<Rightarrow> bool" where
  "gate_start n s \<longleftrightarrow> gate s = new_semaphore n \<and> leases s = []"

definition gate_inv :: "nat \<Rightarrow> GateSystem \<Rightarrow> bool" where
  "gate_inv n s \<longleftrightarrow> permits (gate s) + held_leases s = n \<and> no_lost_wakeup (gate s) \<and>
     distinct (map fst (waiters (gate s))) \<and> distinct (map fst (leases s)) \<and>
     fst ` set (waiters (gate s)) \<inter> fst ` set (leases s) = {}"

lemma permits_update [simp]:
  "permits (sem\<lparr>sem_value := v\<rparr>) = v + granted (waiters sem)"
  "permits (sem\<lparr>waiters := ws\<rparr>) = sem_value sem + granted ws"
  "permits (sem\<lparr>sem_value := v, waiters := ws\<rparr>) = v + granted ws"
  by (simp_all add: permits_def)

lemma fst_waiters_same: "map fst (waiters a) = map fst (waiters b) \<Longrightarrow> fst ` set (waiters a) = fst ` set (waiters b)"
  by (metis set_map)

lemma acquire_now:
  assumes "\<not> locked sem"
  shows "acquire t sem = (sem\<lparr>sem_value := sem_value sem - 1\<rparr>, True)" "granted (waiters sem) = 0" "\<not> has_pending (waiters sem)"
    "Suc (permits (fst (acquire t sem))) = permits sem"
  using assms by (auto simp: acquire_def locked_def has_pending_def permits_def filter_empty_conv)

lemma locked_wakes:
  assumes "locked sem" "no_lost_wakeup sem"
  shows "sem_value sem = 0 \<or> 0 < granted (waiters sem)"
proof (cases "sem_value sem = 0")
  case False
  then obtain w where w: "w \<in> set (waiters sem)" "snd w \<noteq> Cancelled" using assms(1) by (auto simp: locked_def)
  show ?thesis
  proof (cases "snd w")
    case Pending
    then have "has_pending (waiters sem)" using w(1) by (auto simp: has_pending_def)
    then show ?thesis using assms(2) by (simp add: no_lost_wakeup_def)
  next
    case Granted
    then show ?thesis using w(1) length_pos_if_in_set [of w "filter (\<lambda>w. snd w = Granted) (waiters sem)"] by simp
  qed (use w(2) in simp)
qed simp

lemma admit_start_cases:
  assumes "admit_start t st (Some sem) = (Some sem', r)"
  obtains (now) lease where "\<not> locked sem" "sem' = fst (acquire t sem)" "r = Some lease" "holds lease"
  | (later) "locked sem" "sem' = sem\<lparr>waiters := waiters sem @ [(t, Pending)]\<rparr>" "r = None"
proof (cases "locked sem")
  case True
  then have "sem' = sem\<lparr>waiters := waiters sem @ [(t, Pending)]\<rparr>" "r = None"
    using assms by (simp_all add: admit_start_def acquire_def)
  then show thesis using True by (intro later)
next
  case False
  then have "sem' = fst (acquire t sem)" "r = Some \<lparr>guarded = True, stage = st, released = False\<rparr>"
    using assms by (simp_all add: admit_start_def acquire_def)
  then show thesis using False
    by (intro now [of "\<lparr>guarded = True, stage = st, released = False\<rparr>"]) (simp_all add: holds_def)
qed

lemma cancel_wait_props:
  "permits (cancel_wait t sem) = permits sem" "map fst (waiters (cancel_wait t sem)) = map fst (waiters sem)"
  "no_lost_wakeup sem \<Longrightarrow> no_lost_wakeup (cancel_wait t sem)"
proof -
  let ?f = "\<lambda>w. if w = (t, Pending) then (t, Cancelled) else w"
  have g: "granted (map ?f ws) = granted ws" for ws by (induction ws) auto
  have m: "map fst (map ?f ws) = map fst ws" for ws by (induction ws) auto
  have "has_pending (map ?f ws) \<Longrightarrow> has_pending ws" for ws by (induction ws) (auto split: if_splits)
  then show "permits (cancel_wait t sem) = permits sem" "map fst (waiters (cancel_wait t sem)) = map fst (waiters sem)"
    "no_lost_wakeup sem \<Longrightarrow> no_lost_wakeup (cancel_wait t sem)"
    using g m by (auto simp: cancel_wait_def permits_def no_lost_wakeup_def)
qed

lemma leave_props:
  assumes "distinct (map fst (waiters sem))" "(t, f) \<in> set (waiters sem)"
  shows "permits (acquire_resumed t sem) + (if f = Granted then 1 else 0) = permits sem"
    "f \<noteq> Pending \<Longrightarrow> permits (acquire_cancelled t sem) = permits sem"
    "fst ` set (waiters (acquire_resumed t sem)) = fst ` set (waiters sem) - {t}"
    "fst ` set (waiters (acquire_cancelled t sem)) = fst ` set (waiters sem) - {t}"
    "distinct (map fst (waiters (acquire_resumed t sem)))" "distinct (map fst (waiters (acquire_cancelled t sem)))"
    "no_lost_wakeup (acquire_resumed t sem)" "no_lost_wakeup (acquire_cancelled t sem)"
proof -
  have only: "(t, Granted) \<in> set (waiters sem) \<longleftrightarrow> f = Granted"
    using eq_key_imp_eq_value [OF assms(1) assms(2), of Granted] assms(2) by metis
  show "permits (acquire_resumed t sem) + (if f = Granted then 1 else 0) = permits sem"
    "f \<noteq> Pending \<Longrightarrow> permits (acquire_cancelled t sem) = permits sem"
    using granted_drop [OF assms] only
    by (simp_all add: acquire_resumed_def acquire_cancelled_def wake_all_props) (simp_all add: permits_def)
  show "fst ` set (waiters (acquire_resumed t sem)) = fst ` set (waiters sem) - {t}"
    "fst ` set (waiters (acquire_cancelled t sem)) = fst ` set (waiters sem) - {t}"
    unfolding acquire_resumed_def acquire_cancelled_def fst_waiters_same [OF wake_all_props(2)] by (simp_all add: set_drop_waiter)
  show "distinct (map fst (waiters (acquire_resumed t sem)))" "distinct (map fst (waiters (acquire_cancelled t sem)))"
    using assms(1) by (simp_all add: acquire_resumed_def acquire_cancelled_def wake_all_props distinct_drop_waiter)
qed (simp_all add: acquire_resumed_def acquire_cancelled_def wake_all_props)

lemma held_leases_put:
  assumes "distinct (map fst ls)" "(t, lease) \<in> set ls"
  shows "length (filter (\<lambda>x. holds (snd x)) (put_lease t lease' ls)) + (if holds lease then 1 else 0) =
    length (filter (\<lambda>x. holds (snd x)) ls) + (if holds lease' then 1 else 0)"
  using assms
proof (induction ls)
  case (Cons x ls)
  show ?case
  proof (cases "fst x = t")
    case True
    then have "x = (t, lease)" "put_lease t lease' ls = ls"
      using Cons.prems by (auto simp: put_lease_def image_iff intro!: map_idI)
    then show ?thesis by (simp add: put_lease_def)
  next
    case False
    then have "(t, lease) \<in> set ls" using Cons.prems by auto
    then show ?thesis using Cons False by (auto simp: put_lease_def)
  qed
qed simp

lemma put_lease_keys [simp]: "map fst (put_lease t lease ls) = map fst ls"
  by (auto simp: put_lease_def)

lemma gate_step_inv:
  assumes "gate_step s s'" "gate_inv n s"
  shows "gate_inv n s'"
  using assms(1)
proof (cases rule: gate_step.cases)
  case (enter t st sem lease)
  from enter(3) show ?thesis
  proof (cases rule: admit_start_cases)
    case now
    then show ?thesis using assms(2) enter(1,2) acquire_now(2,3) [of "gate s"] acquire_now(1,4) [of "gate s" t]
      by (auto simp: gate_inv_def held_leases_def no_lost_wakeup_def)
  qed simp
next
  case (queue t st sem)
  from queue(3) show ?thesis
  proof (cases rule: admit_start_cases)
    case later
    have "sem_value (gate s) = 0 \<or> 0 < granted (waiters (gate s))"
      by (rule locked_wakes) (use later(1) assms(2) in \<open>simp_all add: gate_inv_def\<close>)
    then show ?thesis using later(2) assms(2) queue(1,2) by (auto simp: gate_inv_def held_leases_def no_lost_wakeup_def permits_def)
  qed simp
next
  case (resume t st sem lease)
  then have sem: "sem = acquire_resumed t (gate s)" "holds lease" by (auto simp: admit_resumed_def holds_def)
  have d: "distinct (map fst (waiters (gate s)))" using assms(2) by (simp add: gate_inv_def)
  have "t \<notin> fst ` set (leases s)" using resume(2) assms(2) by (force simp: gate_inv_def)
  then show ?thesis using leave_props [OF d resume(2)] sem assms(2) resume(1)
    by (auto simp: gate_inv_def held_leases_def)
next
  case (cancel t)
  then show ?thesis using cancel_wait_props(1,2) [of t "gate s"] cancel_wait_props(3) [of "gate s" t] assms(2)
      fst_waiters_same [OF cancel_wait_props(2)]
    by (simp add: gate_inv_def held_leases_def)
next
  case (time_out t st sem e)
  then have sem: "sem = acquire_cancelled t (gate s)" by (auto simp: admit_timed_out_def)
  have d: "distinct (map fst (waiters (gate s)))" using assms(2) by (simp add: gate_inv_def)
  obtain f where f: "(t, f) \<in> set (waiters (gate s))" "f \<noteq> Pending" using time_out(2) by auto
  show ?thesis using leave_props [OF d f(1)] f(2) sem assms(2) time_out(1) by (auto simp: gate_inv_def held_leases_def)
next
  case (give_back t lease lease' sem)
  have d: "distinct (map fst (leases s))" using assms(2) by (simp add: gate_inv_def)
  have keys: "fst ` set (put_lease t lease' (leases s)) = fst ` set (leases s)" by (metis put_lease_keys set_map)
  show ?thesis
  proof (cases "holds lease")
    case True
    then have "lease' = lease\<lparr>released := True\<rparr>" "sem = sem_release (gate s)"
      using give_back(3) by (auto simp: lease_release_def holds_def)
    then show ?thesis
      using held_leases_put [OF d give_back(2), of lease'] True sem_release_props [of "gate s"] assms(2) give_back(1) keys
        fst_waiters_same [OF sem_release_props(2) [of "gate s"]]
      by (simp add: gate_inv_def held_leases_def holds_def)
  next
    case False
    then have "lease' = lease" "sem = gate s" using give_back(3) by (auto simp: lease_release_def holds_def split: if_splits)
    then show ?thesis
      using held_leases_put [OF d give_back(2), of lease'] assms(2) give_back(1) keys by (simp add: gate_inv_def held_leases_def)
  qed
qed

interpretation gate: invariant_system "gate_start n" gate_step "gate_inv n" for n
proof unfold_locales
  fix s
  assume "gate_start n s"
  then show "gate_inv n s"
    by (simp add: gate_start_def gate_inv_def new_semaphore_def permits_def no_lost_wakeup_def held_leases_def)
qed (rule gate_step_inv)

text \<open>C27: at a gate of limit \<open>n\<close>, whichever tasks enter, wait, are granted, time out (also between the grant and
  the task's next run) or release, at most \<open>n\<close> leases are held, no permit is ever lost (every one is free, handed to a waiter or held), and while a task waits
  either all permits are held or at least one is handed to a waiter that has not run since (others may then be free).\<close>

theorem admission_gate_bounded:
  assumes "gate_start n s" "gate_step\<^sup>*\<^sup>* s t"
  shows "held_leases t \<le> n \<and> sem_value (gate t) + granted (waiters (gate t)) + held_leases t = n \<and>
    (has_pending (waiters (gate t)) \<longrightarrow> held_leases t = n \<or> 0 < granted (waiters (gate t)))"
  using gate.reachable_inv [OF assms] by (auto simp: gate_inv_def permits_def no_lost_wakeup_def)

definition sample_gate :: GateSystem where
  "sample_gate = \<lparr>gate = new_semaphore 1, leases = []\<rparr>"

definition sample_entered :: GateSystem where
  "sample_entered = \<lparr>gate = \<lparr>sem_value = 0, waiters = []\<rparr>, leases = [(7, \<lparr>guarded = True, stage = ''s'', released = False\<rparr>)]\<rparr>"

definition sample_waiting :: GateSystem where
  "sample_waiting = sample_entered\<lparr>gate := \<lparr>sem_value = 0, waiters = [(8, Pending)]\<rparr>\<rparr>"

lemma sample_gate_run: "gate_step\<^sup>*\<^sup>* sample_gate sample_waiting"
proof -
  have "admit_start 7 ''s'' (Some (gate sample_gate)) =
      (Some \<lparr>sem_value = 0, waiters = []\<rparr>, Some \<lparr>guarded = True, stage = ''s'', released = False\<rparr>)"
    by (simp add: admit_start_def acquire_def locked_def sample_gate_def new_semaphore_def)
  from gate_step.enter [OF _ this] have "gate_step sample_gate sample_entered"
    by (simp add: sample_gate_def sample_entered_def new_semaphore_def)
  moreover have "admit_start 8 ''s'' (Some (gate sample_entered)) = (Some \<lparr>sem_value = 0, waiters = [(8, Pending)]\<rparr>, None)"
    by (simp add: admit_start_def acquire_def locked_def sample_entered_def)
  from gate_step.queue [OF _ this] have "gate_step sample_entered sample_waiting"
    by (simp add: sample_entered_def sample_waiting_def)
  ultimately show ?thesis by (meson converse_rtranclp_into_rtranclp rtranclp.rtrancl_refl)
qed

theorem admission_gate_bounded_witness:
  "held_leases sample_waiting \<le> 1 \<and> has_pending (waiters (gate sample_waiting)) \<and> held_leases sample_waiting = 1 \<and>
   waiters (sem_release (gate sample_waiting)) = [(8, Granted)]"
proof -
  have "gate_start 1 sample_gate" by (simp add: gate_start_def sample_gate_def)
  from admission_gate_bounded [OF this sample_gate_run] show ?thesis
    by (simp add: sample_waiting_def sample_entered_def sem_release_def wake_up_next_def)
qed

section \<open>The bulkhead bounds every lane\<close>

text \<open>The requests in flight, by the lane they run in.\<close>

record BulkheadSystem =
  lanes :: bulkhead
  running :: "lane list"

inductive bulkhead_step :: "BulkheadSystem \<Rightarrow> BulkheadSystem \<Rightarrow> bool" where
  run_request: "bulkhead_call scope_type path pressure t (lanes s) = (Run_in l, b) \<Longrightarrow>
     bulkhead_step s (s\<lparr>lanes := b, running := l # running s\<rparr>)"
| other_request: "bulkhead_call scope_type path pressure t (lanes s) = (a, b) \<Longrightarrow> (\<And>l. a \<noteq> Run_in l) \<Longrightarrow>
     bulkhead_step s (s\<lparr>lanes := b\<rparr>)"
| request_done: "l \<in> set (running s) \<Longrightarrow> bulkhead_step s (s\<lparr>lanes := bulkhead_done l (lanes s), running := remove1 l (running s)\<rparr>)"

definition bulkhead_start :: "(lane \<Rightarrow> int) \<Rightarrow> BulkheadSystem \<Rightarrow> bool" where
  "bulkhead_start limits s \<longleftrightarrow> lanes s = make_bulkhead limits \<and> running s = []"

definition lane_inv :: "int \<Rightarrow> Semaphore option \<Rightarrow> nat \<Rightarrow> bool" where
  "lane_inv limit gate_opt n \<longleftrightarrow>
     (case gate_opt of
        None \<Rightarrow> limit \<le> 0 \<and> n = 0
      | Some sem \<Rightarrow> 0 < limit \<and> waiters sem = [] \<and> int (sem_value sem + n) = limit)"

definition bulkhead_inv :: "(lane \<Rightarrow> int) \<Rightarrow> BulkheadSystem \<Rightarrow> bool" where
  "bulkhead_inv limits s \<longleftrightarrow> (\<forall>l. lane_inv (limits l) (lanes s l) (count_list (running s) l))"

lemma bulkhead_call_cases:
  assumes "bulkhead_call scope_type path pressure t b = (a, b')"
  obtains (run) l sem where "a = Run_in l" "b l = Some sem" "\<not> locked sem" "b' = b(l \<mapsto> fst (acquire t sem))" "l = get_semaphore scope_type path"
  | (other) "b' = b" "\<And>l. a \<noteq> Run_in l"
proof (cases "\<exists>l. a = Run_in l")
  case True
  let ?l = "get_semaphore scope_type path"
  obtain sem where sem: "b ?l = Some sem" using assms True by (auto simp: bulkhead_call_def Let_def split: if_splits option.splits)
  then have "\<not> locked sem" "a = Run_in ?l" "b' = b(?l \<mapsto> fst (acquire t sem))"
    using assms True by (auto simp: bulkhead_call_def Let_def split: if_splits)
  then show thesis using sem by (intro run) simp_all
next
  case False
  then have "b' = b" using assms by (auto simp: bulkhead_call_def Let_def split: if_splits option.splits)
  then show thesis using False by (intro other) auto
qed

lemma count_remove1: "x \<in> set xs \<Longrightarrow> count_list xs x = Suc (count_list (remove1 x xs) x)"
  by (induction xs) auto

lemma count_remove1_other: "x \<noteq> y \<Longrightarrow> count_list (remove1 x xs) y = count_list xs y"
  by (induction xs) auto

lemma sem_release_idle: "waiters sem = [] \<Longrightarrow> sem_release sem = sem\<lparr>sem_value := sem_value sem + 1\<rparr>"
  by (simp add: sem_release_def wake_up_next_def Let_def)

lemma bulkhead_step_inv:
  assumes "bulkhead_step s t" "bulkhead_inv limits s"
  shows "bulkhead_inv limits t"
  using assms(1)
proof (cases rule: bulkhead_step.cases)
  case (run_request scope_type path pressure tk l b)
  from run_request(2) show ?thesis
  proof (cases rule: bulkhead_call_cases)
    case (run l' sem)
    have "lane_inv (limits l) (Some sem) (count_list (running s) l)"
      using assms(2) run(1,2) unfolding bulkhead_inv_def by (metis bulkhead_action.inject(2))
    then have "lane_inv (limits l) (b l) (Suc (count_list (running s) l))"
      using run acquire_now(1) [OF run(3), of tk] by (auto simp: lane_inv_def locked_def)
    then show ?thesis using assms(2) run by (auto simp: bulkhead_inv_def run_request(1))
  next
    case other
    then show ?thesis by blast
  qed
next
  case (other_request scope_type path pressure tk a b)
  from other_request(2) show ?thesis
    by (cases rule: bulkhead_call_cases) (use other_request assms(2) in \<open>auto simp: bulkhead_inv_def\<close>)
next
  case (request_done l)
  have "lane_inv (limits l) (lanes s l) (Suc (count_list (remove1 l (running s)) l))"
    using assms(2) count_remove1 [OF request_done(2)] by (simp add: bulkhead_inv_def)
  then have "lane_inv (limits l) (bulkhead_done l (lanes s) l) (count_list (remove1 l (running s)) l)"
    by (auto simp: lane_inv_def bulkhead_done_def sem_release_idle split: option.splits)
  moreover have "bulkhead_done l (lanes s) l' = lanes s l'" if "l' \<noteq> l" for l'
    using that by (simp add: bulkhead_done_def split: option.splits)
  ultimately show ?thesis using assms(2)
    by (auto simp: bulkhead_inv_def request_done(1) count_remove1_other)
qed

interpretation bulkhead: invariant_system "bulkhead_start limits" bulkhead_step "bulkhead_inv limits" for limits
proof unfold_locales
  fix s
  assume "bulkhead_start limits s"
  then show "bulkhead_inv limits s"
    by (simp add: bulkhead_start_def bulkhead_inv_def lane_inv_def make_bulkhead_def make_gate_def new_semaphore_def)
qed (rule bulkhead_step_inv)

text \<open>A lane of the bulkhead with a positive limit never runs more requests than its limit, a request is
  refused for overload exactly when its lane runs that many, and one that is let in never waits.\<close>

lemma bulkhead_bounded:
  assumes "bulkhead_start limits s" "bulkhead_step\<^sup>*\<^sup>* s t" "0 < limits l"
  shows "\<exists>sem. lanes t l = Some sem \<and> int (count_list (running t) l) \<le> limits l \<and>
    (locked sem \<longleftrightarrow> int (count_list (running t) l) = limits l) \<and>
    (\<not> locked sem \<longrightarrow> snd (acquire tk sem))"
proof -
  have "lane_inv (limits l) (lanes t l) (count_list (running t) l)"
    using bulkhead.reachable_inv [OF assms(1,2)] by (simp add: bulkhead_inv_def)
  then show ?thesis using assms(3) by (auto simp: lane_inv_def locked_def acquire_def split: option.splits)
qed

definition one_request :: "lane \<Rightarrow> int" where
  "one_request l = (if l = Proxy_http then 1 else 0)"

definition sample_bulkhead :: BulkheadSystem where
  "sample_bulkhead = \<lparr>lanes = make_bulkhead one_request, running = []\<rparr>"

definition sample_busy :: BulkheadSystem where
  "sample_busy = \<lparr>lanes = (make_bulkhead one_request)(Proxy_http \<mapsto> \<lparr>sem_value = 0, waiters = []\<rparr>), running = [Proxy_http]\<rparr>"

end
