(* ===== verification/Oauth_Refresh.thy ===== *)
theory Oauth_Refresh
  imports Balancer_Health Json
begin

text \<open>
  The refresh of OAuth tokens up to the network, after \<open>codex-lb/app/core/auth/refresh.py\<close> and the
  identity claims of \<open>codex-lb/app/core/auth/__init__.py\<close>: the error type and its classes, the reading of
  the token endpoint's answer, the claims of an identity token, the age at which an account is
  refreshed.

  The HTTP exchange is an argument (\<open>exchange\<close>): it failed in the transport, or it answered with a
  status and a body. The decoding of the middle part of an identity token (base64 and
  JSON) is the parameter \<open>decode\<close>. A field of a model declared \<open>str\<close> takes a string or null; any
  other value is a validation error. Of the fields of an error those that tell a retry what to do with the
  connection are left out. The texts of the messages composed here are left out, except
  for those that come from the body.
\<close>

section \<open>Errors\<close>

record RefreshError =
  re_code :: string
  re_message :: string
  re_permanent :: bool
  re_transport :: bool

definition refresh_error :: "string \<Rightarrow> string \<Rightarrow> bool \<Rightarrow> RefreshError" where
  "refresh_error code text permanent =
     \<lparr>re_code = code, re_message = text, re_permanent = permanent, re_transport = False\<rparr>"

text \<open>The errors raised with \<open>transport_error=True\<close>; none of them is permanent.\<close>

definition transient_error :: "string \<Rightarrow> RefreshError" where
  "transient_error code = \<lparr>re_code = code, re_message = [], re_permanent = False, re_transport = True\<rparr>"

definition REFRESH_CLAIM_CONTENTION_CODES :: "string list" where
  "REFRESH_CLAIM_CONTENTION_CODES = [''refresh_claim_timeout'']"

definition REFRESH_PERSIST_CONFLICT_CODES :: "string list" where
  "REFRESH_PERSIST_CONFLICT_CODES = [''token_persist_conflict'', ''status_downgrade_conflict'']"

definition TRANSIENT_REFRESH_CONTENTION_CODES :: "string list" where
  "TRANSIENT_REFRESH_CONTENTION_CODES = REFRESH_CLAIM_CONTENTION_CODES @ REFRESH_PERSIST_CONFLICT_CODES"

definition is_refresh_claim_contention :: "RefreshError \<Rightarrow> bool" where
  "is_refresh_claim_contention e = (re_transport e \<and> re_code e \<in> set REFRESH_CLAIM_CONTENTION_CODES)"

definition is_refresh_persist_conflict :: "RefreshError \<Rightarrow> bool" where
  "is_refresh_persist_conflict e = (re_transport e \<and> re_code e \<in> set REFRESH_PERSIST_CONFLICT_CODES)"

definition is_transient_refresh_contention :: "RefreshError \<Rightarrow> bool" where
  "is_transient_refresh_contention e = (re_transport e \<and> re_code e \<in> set TRANSIENT_REFRESH_CONTENTION_CODES)"

definition refresh_contention_kind :: "RefreshError \<Rightarrow> string option" where
  "refresh_contention_kind e =
     (if \<not> re_transport e then None
      else if re_code e \<in> set REFRESH_CLAIM_CONTENTION_CODES then Some ''claim_contention''
      else if re_code e \<in> set REFRESH_PERSIST_CONFLICT_CODES then Some ''persist_conflict''
      else None)"

definition classify_refresh_error :: "string option \<Rightarrow> bool" where
  "classify_refresh_error code =
     (case code of None \<Rightarrow> False | Some c \<Rightarrow> c \<noteq> [] \<and> c \<in> fst ` set PERMANENT_FAILURE_CODES)"

section \<open>When to refresh\<close>

definition TOKEN_REFRESH_INTERVAL_DAYS :: int where
  "TOKEN_REFRESH_INTERVAL_DAYS = 8"

text \<open>Times are microseconds; a configured interval of zero falls back to the constant.\<close>

definition should_refresh :: "int \<Rightarrow> int \<Rightarrow> int \<Rightarrow> bool" where
  "should_refresh interval_days last_refresh now =
     (let days = or_num (Some interval_days) TOKEN_REFRESH_INTERVAL_DAYS
      in now - last_refresh > days * 86400000000)"

definition effective_token_refresh_timeout :: "pyfloat option \<Rightarrow> pyfloat \<Rightarrow> pyfloat" where
  "effective_token_refresh_timeout override configured =
     (case override of None \<Rightarrow> configured | Some o' \<Rightarrow> max (1 / 1000) (min configured o'))"

section \<open>The answer of the token endpoint\<close>

text \<open>\<open>a or b\<close> for optional strings.\<close>

definition or_str :: "string option \<Rightarrow> string option \<Rightarrow> string option" where
  "or_str x y = (case x of None \<Rightarrow> y | Some s \<Rightarrow> if s = [] then y else Some s)"

datatype oauth_error = ErrorObject json | ErrorText string | NoError

record OAuthTokenPayload =
  op_access_token :: "string option"
  op_refresh_token :: "string option"
  op_id_token :: "string option"
  op_error :: oauth_error
  op_error_description :: "string option"
  op_message :: "string option"
  op_error_code :: "string option"
  op_code :: "string option"

text \<open>A field that is a string or null: \<open>None\<close> is a validation error. Of several aliases the first that
  the object has counts.\<close>

definition str_field :: "string list \<Rightarrow> json \<Rightarrow> string option option" where
  "str_field aliases v =
     (case map_option (\<lambda>k. obj_get k v) (find (\<lambda>k. obj_get k v \<noteq> None) aliases) of
        None \<Rightarrow> Some None
      | Some None \<Rightarrow> Some None
      | Some (Some JNull) \<Rightarrow> Some None
      | Some (Some (JStr s)) \<Rightarrow> Some (Some s)
      | Some (Some other) \<Rightarrow> None)"

definition error_field :: "json \<Rightarrow> oauth_error option" where
  "error_field v =
     (case obj_get ''error'' v of
        None \<Rightarrow> Some NoError
      | Some JNull \<Rightarrow> Some NoError
      | Some (JStr s) \<Rightarrow> Some (ErrorText s)
      | Some (JObj fs) \<Rightarrow> Some (ErrorObject (JObj fs))
      | Some other \<Rightarrow> None)"

text \<open>The fields \<open>authorization_code\<close>, \<open>code_verifier\<close> and \<open>status\<close> are not read by the refresh;
  they only have to be strings or null.\<close>

definition validate_token_payload :: "json \<Rightarrow> RefreshError + OAuthTokenPayload" where
  "validate_token_payload data =
     (case (str_field [''access_token''] data, str_field [''refresh_token''] data, str_field [''id_token''] data,
            error_field data, str_field [''error_description''] data, str_field [''message''] data,
            str_field [''error_code''] data, str_field [''code''] data, str_field [''authorization_code''] data,
            str_field [''code_verifier''] data, str_field [''status''] data) of
        (Some access, Some refresh, Some id', Some err, Some desc, Some msg, Some ecode, Some code,
         Some _, Some _, Some _) \<Rightarrow>
          Inr \<lparr>op_access_token = access, op_refresh_token = refresh, op_id_token = id', op_error = err,
               op_error_description = desc, op_message = msg, op_error_code = ecode, op_code = code\<rparr>
      | _ \<Rightarrow> Inl (refresh_error ''invalid_response'' [] False))"

text \<open>\<open>v if isinstance(v, str) else None\<close>, and \<open>d.get(k1) or d.get(k2)\<close> with Python's truth.\<close>

definition json_str :: "json option \<Rightarrow> string option" where
  "json_str v = (case v of Some (JStr s) \<Rightarrow> Some s | _ \<Rightarrow> None)"

definition json_truthy :: "json option \<Rightarrow> bool" where
  "json_truthy v =
     (case v of None \<Rightarrow> False
      | Some JNull \<Rightarrow> False | Some (JBool b) \<Rightarrow> b | Some (JInt i) \<Rightarrow> i \<noteq> 0 | Some (JFloat x) \<Rightarrow> x \<noteq> 0
      | Some (JStr s) \<Rightarrow> s \<noteq> [] | Some (JList xs) \<Rightarrow> xs \<noteq> [] | Some (JObj fs) \<Rightarrow> fs \<noteq> [])"

definition get_or :: "string \<Rightarrow> string \<Rightarrow> json \<Rightarrow> json option" where
  "get_or k1 k2 v = (if json_truthy (obj_get k1 v) then obj_get k1 v else obj_get k2 v)"

definition extract_error_code :: "OAuthTokenPayload \<Rightarrow> string option" where
  "extract_error_code p =
     (case op_error p of
        ErrorObject v \<Rightarrow> json_str (get_or ''code'' ''error'' v)
      | ErrorText s \<Rightarrow> Some s
      | NoError \<Rightarrow> or_str (op_error_code p) (op_code p))"

definition extract_error_message :: "OAuthTokenPayload \<Rightarrow> string option" where
  "extract_error_message p =
     (case op_error p of
        ErrorObject v \<Rightarrow> json_str (get_or ''message'' ''error_description'' v)
      | ErrorText s \<Rightarrow> or_str (op_error_description p) (Some s)
      | NoError \<Rightarrow> op_message p)"

definition refresh_error_from_payload :: "OAuthTokenPayload \<Rightarrow> nat \<Rightarrow> RefreshError" where
  "refresh_error_from_payload p status_code =
     (let code = default_to (or_str (extract_error_code p) None) (''http_'' @ show_nat status_code);
          msg = default_to (or_str (extract_error_message p) None)
                      (''Token refresh failed ('' @ show_nat status_code @ '')'')
      in refresh_error code msg (classify_refresh_error (Some code)))"

section \<open>The claims of an identity token\<close>

record OpenAIAuthClaims =
  ac_chatgpt_account_id :: "string option"
  ac_chatgpt_user_id :: "string option"
  ac_chatgpt_plan_type :: "string option"
  ac_workspace_id :: "string option"
  ac_workspace_label :: "string option"
  ac_seat_type :: "string option"

definition no_auth_claims :: OpenAIAuthClaims where
  "no_auth_claims =
     \<lparr>ac_chatgpt_account_id = None, ac_chatgpt_user_id = None, ac_chatgpt_plan_type = None,
      ac_workspace_id = None, ac_workspace_label = None, ac_seat_type = None\<rparr>"

record IdTokenClaims = OpenAIAuthClaims +
  ic_email :: "string option"
  ic_sub :: "string option"
  ic_auth :: "OpenAIAuthClaims option"

definition no_id_claims :: IdTokenClaims where
  "no_id_claims =
     \<lparr>ac_chatgpt_account_id = None, ac_chatgpt_user_id = None, ac_chatgpt_plan_type = None,
      ac_workspace_id = None, ac_workspace_label = None, ac_seat_type = None,
      ic_email = None, ic_sub = None, ic_auth = None\<rparr>"

definition WORKSPACE_ID_ALIASES :: "string list" where
  "WORKSPACE_ID_ALIASES = [''workspace_id'', ''chatgpt_workspace_id'', ''organization_id'', ''org_id'', ''tenant_id'']"

definition WORKSPACE_LABEL_ALIASES :: "string list" where
  "WORKSPACE_LABEL_ALIASES =
     [''workspace_label'', ''workspace_name'', ''organization_name'', ''org_name'', ''tenant_name'']"

definition SEAT_TYPE_ALIASES :: "string list" where
  "SEAT_TYPE_ALIASES = [''seat_type'', ''chatgpt_seat_type'', ''entitlement_type'']"

definition validate_auth_claims :: "json \<Rightarrow> OpenAIAuthClaims option" where
  "validate_auth_claims v =
     (case (str_field [''chatgpt_account_id''] v,
            str_field [''chatgpt_user_id'', ''user_id'', ''chatgpt_account_user_id''] v,
            str_field [''chatgpt_plan_type''] v, str_field WORKSPACE_ID_ALIASES v,
            str_field WORKSPACE_LABEL_ALIASES v, str_field SEAT_TYPE_ALIASES v) of
        (Some a, Some u, Some p, Some w, Some l, Some s) \<Rightarrow>
          Some \<lparr>ac_chatgpt_account_id = a, ac_chatgpt_user_id = u, ac_chatgpt_plan_type = p,
                ac_workspace_id = w, ac_workspace_label = l, ac_seat_type = s\<rparr>
      | _ \<Rightarrow> None)"

text \<open>The nested object, under its alias or its name; \<open>exp\<close> may be a number, a string or null.\<close>

definition validate_auth_field :: "json \<Rightarrow> OpenAIAuthClaims option option" where
  "validate_auth_field v =
     (case or_else (obj_get ''https://api.openai.com/auth'' v) (obj_get ''auth'' v) of
        None \<Rightarrow> Some None
      | Some JNull \<Rightarrow> Some None
      | Some (JObj fs) \<Rightarrow> map_option Some (validate_auth_claims (JObj fs))
      | Some other \<Rightarrow> None)"

definition exp_valid :: "json \<Rightarrow> bool" where
  "exp_valid v = (case obj_get ''exp'' v of Some (JList xs) \<Rightarrow> False | Some (JObj fs) \<Rightarrow> False | _ \<Rightarrow> True)"

definition validate_id_claims :: "json \<Rightarrow> IdTokenClaims option" where
  "validate_id_claims v =
     (case (str_field [''email''] v, str_field [''sub''] v, str_field [''chatgpt_account_id''] v,
            str_field [''chatgpt_user_id'', ''chatgpt_account_user_id''] v, str_field [''chatgpt_plan_type''] v,
            str_field WORKSPACE_ID_ALIASES v, str_field WORKSPACE_LABEL_ALIASES v, str_field SEAT_TYPE_ALIASES v,
            validate_auth_field v) of
        (Some e, Some sb, Some a, Some u, Some p, Some w, Some l, Some s, Some auth) \<Rightarrow>
          if exp_valid v
          then Some \<lparr>ac_chatgpt_account_id = a, ac_chatgpt_user_id = u, ac_chatgpt_plan_type = p,
                     ac_workspace_id = w, ac_workspace_label = l, ac_seat_type = s,
                     ic_email = e, ic_sub = sb, ic_auth = auth\<rparr>
          else None
      | _ \<Rightarrow> None)"

fun split_dots :: "string \<Rightarrow> string list" where
  "split_dots [] = [[]]"
| "split_dots (c # cs) =
     (if c = CHR ''.'' then [] # split_dots cs
      else (case split_dots cs of [] \<Rightarrow> [[c]] | p # ps \<Rightarrow> (c # p) # ps))"

text \<open>Every failure on the way gives the empty claims.\<close>

definition extract_id_token_claims :: "(string \<Rightarrow> json option) \<Rightarrow> string \<Rightarrow> IdTokenClaims" where
  "extract_id_token_claims decode id_token =
     (case split_dots id_token of
        _ # payload # _ \<Rightarrow>
          (case decode payload of
             Some (JObj fs) \<Rightarrow> default_to (validate_id_claims (JObj fs)) no_id_claims
           | _ \<Rightarrow> no_id_claims)
      | _ \<Rightarrow> no_id_claims)"

definition clean_account_identity_part :: "string option \<Rightarrow> string option" where
  "clean_account_identity_part v =
     (case v of None \<Rightarrow> None | Some s \<Rightarrow> if py_strip s = [] then None else Some (py_strip s))"

definition normalize_seat_type :: "string option \<Rightarrow> string option" where
  "normalize_seat_type v =
     map_option (\<lambda>s. map (\<lambda>c. if c = CHR ''-'' then CHR ''_'' else c) (py_lower s)) (clean_account_identity_part v)"

definition resolve_seat_identity :: "IdTokenClaims \<Rightarrow> string option" where
  "resolve_seat_identity claims =
     (let auth = default_to (ic_auth claims) no_auth_claims
      in clean_account_identity_part
           (or_str (ac_chatgpt_user_id auth) (or_str (ac_chatgpt_user_id claims) (ic_sub claims))))"

section \<open>The refresh\<close>

record TokenRefreshResult =
  tr_access_token :: string
  tr_refresh_token :: string
  tr_id_token :: string
  tr_account_id :: "string option"
  tr_plan_type :: "string option"
  tr_email :: "string option"
  tr_workspace_id :: "string option"
  tr_workspace_label :: "string option"
  tr_seat_type :: "string option"
  tr_chatgpt_user_id :: "string option"

datatype exchange = TransportFailed | Answered (answer_status: nat) (answer_body: json)

text \<open>\<open>answer_body\<close> is what \<open>_safe_json\<close> makes of the body: an object.\<close>

definition token_result :: "(string \<Rightarrow> json option) \<Rightarrow> string \<Rightarrow> string \<Rightarrow> string \<Rightarrow> TokenRefreshResult" where
  "token_result decode access refresh id' =
     (let claims = extract_id_token_claims decode id';
          auth = default_to (ic_auth claims) no_auth_claims
      in \<lparr>tr_access_token = access, tr_refresh_token = refresh, tr_id_token = id',
          tr_account_id = or_str (ac_chatgpt_account_id auth) (ac_chatgpt_account_id claims),
          tr_plan_type = or_str (ac_chatgpt_plan_type auth) (ac_chatgpt_plan_type claims),
          tr_email = ic_email claims,
          tr_workspace_id = clean_account_identity_part (or_str (ac_workspace_id auth) (ac_workspace_id claims)),
          tr_workspace_label = clean_account_identity_part (or_str (ac_workspace_label auth) (ac_workspace_label claims)),
          tr_seat_type = normalize_seat_type (or_str (ac_seat_type auth) (ac_seat_type claims)),
          tr_chatgpt_user_id = resolve_seat_identity claims\<rparr>)"

definition refresh_access_token ::
  "(string \<Rightarrow> json option) \<Rightarrow> exchange \<Rightarrow> RefreshError + TokenRefreshResult" where
  "refresh_access_token decode ex =
     (case ex of
        TransportFailed \<Rightarrow> Inl (transient_error ''transport_error'')
      | Answered code body \<Rightarrow>
          (case validate_token_payload body of
             Inl e \<Rightarrow> Inl e
           | Inr p \<Rightarrow>
               if code \<ge> 400 then Inl (refresh_error_from_payload p code)
               else (case (or_str (op_access_token p) None, or_str (op_refresh_token p) None,
                           or_str (op_id_token p) None) of
                       (Some access, Some refresh, Some id') \<Rightarrow> Inr (token_result decode access refresh id')
                     | _ \<Rightarrow> Inl (refresh_error ''invalid_response'' [] False))))"

section \<open>Account identifiers\<close>

definition DEFAULT_EMAIL :: string where
  "DEFAULT_EMAIL = ''unknown@example.com''"

definition DEFAULT_PLAN :: string where
  "DEFAULT_PLAN = ''unknown''"

definition fallback_account_id :: "(string \<Rightarrow> string) \<Rightarrow> string \<Rightarrow> string option \<Rightarrow> string" where
  "fallback_account_id sha uuid_hex email =
     (case or_str email None of
        Some e \<Rightarrow> if e \<noteq> DEFAULT_EMAIL then ''email_'' @ take 12 (sha e) else ''local_'' @ take 12 uuid_hex
      | None \<Rightarrow> ''local_'' @ take 12 uuid_hex)"

definition generate_unique_account_id ::
  "(string \<Rightarrow> string) \<Rightarrow> string \<Rightarrow> string option \<Rightarrow> string option \<Rightarrow> string option \<Rightarrow> string option \<Rightarrow> string" where
  "generate_unique_account_id sha uuid_hex acc_id' email workspace_id' workspace_label' =
     (let workspace_key = or_else (clean_account_identity_part workspace_id') (clean_account_identity_part workspace_label')
      in case or_str acc_id' None of
           None \<Rightarrow> fallback_account_id sha uuid_hex email
         | Some a \<Rightarrow>
             (case workspace_key of
                Some w \<Rightarrow> a @ ''_'' @ take 8 (sha w)
              | None \<Rightarrow>
                  (case or_str email None of
                     Some e \<Rightarrow> if e \<noteq> DEFAULT_EMAIL then a @ ''_'' @ take 8 (sha e) else a
                   | None \<Rightarrow> a)))"

section \<open>Lemmas\<close>

lemmas refresh_codes =
  REFRESH_CLAIM_CONTENTION_CODES_def REFRESH_PERSIST_CONFLICT_CODES_def TRANSIENT_REFRESH_CONTENTION_CODES_def

lemma or_str_None: "or_str x None = Some s \<longleftrightarrow> x = Some s \<and> s \<noteq> []"
  by (auto simp: or_str_def split: option.splits)

lemma transient_error_simps [simp]:
  "re_code (transient_error c) = c" "\<not> re_permanent (transient_error c)" "re_transport (transient_error c)"
  by (simp_all add: transient_error_def)

text \<open>The two classes of contention are disjoint and make up the whole.\<close>

lemma contention_classes:
  "is_transient_refresh_contention e \<longleftrightarrow> is_refresh_claim_contention e \<or> is_refresh_persist_conflict e"
  "\<not> (is_refresh_claim_contention e \<and> is_refresh_persist_conflict e)"
  "refresh_contention_kind e = Some ''claim_contention'' \<longleftrightarrow> is_refresh_claim_contention e"
  "refresh_contention_kind e = Some ''persist_conflict'' \<longleftrightarrow> is_refresh_persist_conflict e"
  by (auto simp: is_transient_refresh_contention_def is_refresh_claim_contention_def
      is_refresh_persist_conflict_def refresh_contention_kind_def refresh_codes)

text \<open>What a refresh reports as permanent is a code of the table, given by the endpoint with an error
  status; it is never a contention.\<close>

lemma permanent_refresh_error:
  assumes "refresh_access_token decode ex = Inl e" "re_permanent e"
  shows "re_code e \<in> fst ` set PERMANENT_FAILURE_CODES \<and> \<not> re_transport e
    \<and> (\<exists>code body. ex = Answered code body \<and> code \<ge> 400)"
  using assms
  by (auto simp: refresh_access_token_def refresh_error_from_payload_def refresh_error_def classify_refresh_error_def
      validate_token_payload_def Let_def split: exchange.splits sum.splits if_splits option.splits prod.splits)

text \<open>A refresh that succeeds has all three tokens.\<close>

lemma refreshed_tokens:
  assumes "refresh_access_token decode ex = Inr r"
  shows "tr_access_token r \<noteq> [] \<and> tr_refresh_token r \<noteq> [] \<and> tr_id_token r \<noteq> []"
  using assms
  by (auto simp: refresh_access_token_def token_result_def Let_def or_str_None
      split: exchange.splits sum.splits if_splits option.splits prod.splits)

end
