(* ===== verification/Refresh_Claims.thy ===== *)
theory Refresh_Claims
  imports Retry Leader_Election
begin

text \<open>
  The claims that serialise token refreshes across replicas, after
  \<open>codex-lb/app/modules/accounts/refresh_claims.py\<close>: the identities of claimants, the conditional
  upsert that takes a claim, its release and its reading.

  A statement reads the clock of the database, as in leader election (\<open>StatementClock\<close>); on SQLite
  the readings coincide. The table is a map from accounts to rows, the primary key. The process
  identifier and the random component of a process are arguments; \<open>uuid4().hex[:8]\<close> is a string
  of hexadecimal digits.
\<close>

section \<open>Claimants\<close>

text \<open>The suffix of a process, memoised under the process identifier it was made for.\<close>

record ProcessSuffix =
  ps_suffix :: "string option"
  ps_pid :: "nat option"

definition no_process_suffix :: ProcessSuffix where
  "no_process_suffix = \<lparr>ps_suffix = None, ps_pid = None\<rparr>"

definition current_process_suffix :: "nat \<Rightarrow> string \<Rightarrow> ProcessSuffix \<Rightarrow> string \<times> ProcessSuffix" where
  "current_process_suffix pid hex memo =
     (case ps_suffix memo of
        Some s \<Rightarrow>
          if ps_pid memo = Some pid then (s, memo)
          else (let s' = show_nat pid @ ''-'' @ take 8 hex in (s', \<lparr>ps_suffix = Some s', ps_pid = Some pid\<rparr>))
      | None \<Rightarrow> (let s' = show_nat pid @ ''-'' @ take 8 hex in (s', \<lparr>ps_suffix = Some s', ps_pid = Some pid\<rparr>)))"

definition CLAIMED_BY_COLUMN_LEN :: nat where
  "CLAIMED_BY_COLUMN_LEN = 128"

definition CLAIM_OWNER_TOKEN_LEN :: nat where
  "CLAIM_OWNER_TOKEN_LEN = 16"

definition CLAIM_OWNER_SEPARATOR :: string where
  "CLAIM_OWNER_SEPARATOR = ''#''"

definition CLAIM_OWNER_SUFFIX_LEN :: nat where
  "CLAIM_OWNER_SUFFIX_LEN = length CLAIM_OWNER_SEPARATOR + CLAIM_OWNER_TOKEN_LEN"

definition CLAIMANT_ID_MAX_LEN :: nat where
  "CLAIMANT_ID_MAX_LEN = CLAIMED_BY_COLUMN_LEN - CLAIM_OWNER_SUFFIX_LEN"

definition compose_claimed_by :: "string \<Rightarrow> string \<Rightarrow> string" where
  "compose_claimed_by claimant owner =
     (let owner_token = take CLAIM_OWNER_TOKEN_LEN owner;
          suffix = CLAIM_OWNER_SEPARATOR @ owner_token;
          prefix = take (CLAIMED_BY_COLUMN_LEN - length suffix) claimant
      in prefix @ suffix)"

text \<open>The slice \<open>instance_id[:budget]\<close>; a negative bound counts from the end.\<close>

definition slice_to :: "int \<Rightarrow> 'a list \<Rightarrow> 'a list" where
  "slice_to n xs = (if 0 \<le> n then take (nat n) xs else take (length xs - nat (- n)) xs)"

definition default_refresh_claimant_id :: "string \<Rightarrow> string \<Rightarrow> string" where
  "default_refresh_claimant_id instance_id process_suffix =
     (let suffix = '':'' @ process_suffix;
          budget = int CLAIMANT_ID_MAX_LEN - int (length suffix)
      in slice_to budget instance_id @ suffix)"

text \<open>A coordinator keeps an injected claimant; the derived one is made anew for each use.\<close>

definition claimant_id :: "string \<Rightarrow> nat \<Rightarrow> string \<Rightarrow> string option \<Rightarrow> ProcessSuffix \<Rightarrow> string \<times> ProcessSuffix" where
  "claimant_id instance_id pid hex explicit memo =
     (case explicit of
        Some c \<Rightarrow> (c, memo)
      | None \<Rightarrow> (case current_process_suffix pid hex memo of
                   (s, memo') \<Rightarrow> (default_refresh_claimant_id instance_id s, memo')))"

section \<open>The table\<close>

record RefreshClaim =
  rc_claimed_by :: string
  rc_claimed_at :: pyfloat
  rc_expires_at :: pyfloat

type_synonym claim_table = "string \<Rightarrow> RefreshClaim option"

definition is_expired :: "pyfloat \<Rightarrow> RefreshClaim \<Rightarrow> bool" where
  "is_expired now c = (rc_expires_at c < now)"

text \<open>The conditional upsert: whether a row was returned, and the table.\<close>

definition claim_upsert ::
  "StatementClock \<Rightarrow> pyfloat \<Rightarrow> string \<Rightarrow> string \<Rightarrow> claim_table \<Rightarrow> bool \<times> claim_table" where
  "claim_upsert clk ttl i me tab =
     (let written = \<lparr>rc_claimed_by = me, rc_claimed_at = sc_write clk, rc_expires_at = sc_write clk + ttl\<rparr>
      in case tab i of
           None \<Rightarrow> (True, tab(i \<mapsto> written))
         | Some c \<Rightarrow>
             if rc_expires_at c < sc_snapshot clk \<or> rc_claimed_by c = me
             then (True, tab(i \<mapsto> written)) else (False, tab))"

definition build_refresh_claim_upsert ::
  "string \<Rightarrow> (StatementClock \<Rightarrow> pyfloat \<Rightarrow> string \<Rightarrow> string \<Rightarrow> claim_table \<Rightarrow> bool \<times> claim_table) option" where
  "build_refresh_claim_upsert dialect =
     (if dialect = ''postgresql'' then Some claim_upsert
      else if dialect = ''sqlite''
      then Some (\<lambda>clk. claim_upsert (clk\<lparr>sc_snapshot := sc_write clk, sc_return := sc_write clk\<rparr>))
      else None)"

definition claim_release :: "string \<Rightarrow> string \<Rightarrow> claim_table \<Rightarrow> claim_table" where
  "claim_release i me tab =
     (case tab i of Some c \<Rightarrow> if rc_claimed_by c = me then tab(i := None) else tab | None \<Rightarrow> tab)"

definition current_claim :: "string \<Rightarrow> claim_table \<Rightarrow> RefreshClaim option" where
  "current_claim i tab = tab i"

definition SQLITE_CLAIM_RETRY_ATTEMPTS :: nat where
  "SQLITE_CLAIM_RETRY_ATTEMPTS = 4"

text \<open>One of the up to four attempts of \<open>try_acquire\<close>, with the clock of its statement and what it
  meets: it runs, or an exception comes before the commit (nothing written) or after it (the write
  stands). Only a locked database is tried again, and not after the last attempt. A claim refers to the row of its
  account: without one (\<open>known\<close>) the statement violates the foreign key.\<close>

datatype attempt_fault = Ran | Interrupted (fault_locked: bool) (fault_applied: bool)

datatype attempt_end = Won | Refused | TryAgain | Raises

definition claim_attempt ::
  "StatementClock \<Rightarrow> attempt_fault \<Rightarrow> bool \<Rightarrow> pyfloat \<Rightarrow> string \<Rightarrow> string \<Rightarrow> string \<Rightarrow> nat \<Rightarrow> claim_table \<Rightarrow> attempt_end \<times> claim_table" where
  "claim_attempt clk fault known ttl i claimant owner n tab =
     (case (if known then claim_upsert clk ttl i (compose_claimed_by claimant owner) tab else (False, tab)) of (won, tab') \<Rightarrow>
        (case fault of
           Ran \<Rightarrow> (if \<not> known then Raises else if won then Won else Refused, tab')
         | Interrupted locked applied \<Rightarrow>
             (if \<not> locked \<or> n = SQLITE_CLAIM_RETRY_ATTEMPTS - 1 then Raises else TryAgain,
              if applied then tab' else tab)))"

definition release_claim :: "string \<Rightarrow> string \<Rightarrow> string \<Rightarrow> claim_table \<Rightarrow> claim_table" where
  "release_claim i claimant owner tab = claim_release i (compose_claimed_by claimant owner) tab"

section \<open>The default coordinator\<close>

text \<open>\<open>None\<close> until it is initialised; \<open>Some None\<close> switches claims off. A coordinator is its injected
  claimant, if any.\<close>

type_synonym coordinator = "string option"

definition get_refresh_claim_coordinator ::
  "coordinator option option \<Rightarrow> coordinator option \<times> coordinator option option" where
  "get_refresh_claim_coordinator d =
     (case d of None \<Rightarrow> (Some None, Some (Some None)) | Some c \<Rightarrow> (c, d))"

definition set_refresh_claim_coordinator :: "coordinator option \<Rightarrow> coordinator option option" where
  "set_refresh_claim_coordinator c = Some c"

definition reset_refresh_claim_coordinator :: "coordinator option option" where
  "reset_refresh_claim_coordinator = None"

section \<open>Lemmas\<close>

lemmas claim_lengths =
  CLAIMED_BY_COLUMN_LEN_def CLAIM_OWNER_TOKEN_LEN_def CLAIM_OWNER_SEPARATOR_def CLAIM_OWNER_SUFFIX_LEN_def
  CLAIMANT_ID_MAX_LEN_def

text \<open>A word is cut at the last occurrence of a letter in one way only.\<close>

lemma last_separator:
  assumes "xs @ c # s = ys @ c # t" "c \<notin> set s" "c \<notin> set t"
  shows "xs = ys \<and> s = t"
proof -
  have "takeWhile (\<lambda>x. x \<noteq> c) (rev (zs @ c # u)) = rev u" if "c \<notin> set u" for zs u
    using that by simp (subst takeWhile_append2, auto)
  from this [OF assms(2), of xs] this [OF assms(3), of ys] assms(1) show ?thesis by auto
qed

lemma compose_length: "length (compose_claimed_by claimant owner) \<le> CLAIMED_BY_COLUMN_LEN"
  by (simp add: compose_claimed_by_def Let_def claim_lengths)

lemma claimant_length:
  assumes "length s + 1 \<le> CLAIMANT_ID_MAX_LEN"
  shows "length (default_refresh_claimant_id inst s) \<le> CLAIMANT_ID_MAX_LEN"
  using assms by (simp add: default_refresh_claimant_id_def slice_to_def Let_def claim_lengths)

lemma claimant_keeps_suffix:
  assumes "default_refresh_claimant_id inst s = default_refresh_claimant_id inst' s'"
    and "CHR '':'' \<notin> set s" "CHR '':'' \<notin> set s'"
  shows "s = s'"
  using last_separator [of _ "CHR '':''" s _ s'] assms by (simp add: default_refresh_claimant_id_def Let_def)

text \<open>What is stored tells claimants and owners apart: nothing of a claimant of the reserved length is
  cut off, and owners are fingerprints without the separator.\<close>

lemma compose_injective:
  assumes "compose_claimed_by c o1 = compose_claimed_by d o2"
    and "length c \<le> CLAIMANT_ID_MAX_LEN" "length d \<le> CLAIMANT_ID_MAX_LEN"
    and "CHR ''#'' \<notin> set o1" "CHR ''#'' \<notin> set o2"
  shows "c = d \<and> take CLAIM_OWNER_TOKEN_LEN o1 = take CLAIM_OWNER_TOKEN_LEN o2"
proof -
  have "CHR ''#'' \<notin> set (take 16 o1)" "CHR ''#'' \<notin> set (take 16 o2)"
    using assms(4,5) by (auto dest: in_set_takeD)
  then show ?thesis
    using assms(1-3) last_separator [of _ "CHR ''#''" "take 16 o1" _ "take 16 o2"]
    by (simp add: compose_claimed_by_def Let_def claim_lengths)
qed

text \<open>A process keeps its suffix, and a fork gets one of its own.\<close>

lemma suffix_memo:
  assumes "current_process_suffix pid hex memo = (s, memo')"
  shows "current_process_suffix pid hex' memo' = (s, memo')"
  using assms by (auto simp: current_process_suffix_def Let_def split: option.splits if_splits)

lemma claim_upsert_simps:
  "fst (claim_upsert clk ttl i me tab) \<longleftrightarrow>
     (case tab i of None \<Rightarrow> True | Some c \<Rightarrow> rc_expires_at c < sc_snapshot clk \<or> rc_claimed_by c = me)"
  "snd (claim_upsert clk ttl i me tab) =
     (if fst (claim_upsert clk ttl i me tab)
      then tab(i \<mapsto> \<lparr>rc_claimed_by = me, rc_claimed_at = sc_write clk, rc_expires_at = sc_write clk + ttl\<rparr>) else tab)"
  by (auto simp: claim_upsert_def Let_def split: option.splits)

text \<open>A claim of another claimant that has not run out is never touched.\<close>

lemma live_claim_kept:
  assumes "tab i = Some c" "rc_claimed_by c \<noteq> me" "sc_snapshot clk \<le> rc_expires_at c"
  shows "claim_upsert clk ttl i me tab = (False, tab)"
  using assms by (simp add: claim_upsert_def)

lemma claim_release_other: "j \<noteq> i \<Longrightarrow> claim_release i me tab j = tab j"
  by (auto simp: claim_release_def split: option.splits)

lemma release_claim_own: "release_claim i claimant owner tab i = Some c \<Longrightarrow> rc_claimed_by c \<noteq> compose_claimed_by claimant owner"
  by (auto simp: release_claim_def claim_release_def split: option.splits if_splits)

lemma claim_release_foreign:
  assumes "tab i = Some c" "rc_claimed_by c \<noteq> me"
  shows "claim_release i me tab = tab"
  using assms by (simp add: claim_release_def)

end
