(* ===== verification/Token_Refresh.thy ===== *)
theory Token_Refresh
  imports Oauth_Refresh Refresh_Claims Sticky_Sessions Durable_Bridge Account_State
begin

text \<open>
  The refresh of an account's tokens, after \<open>AuthManager\<close> in
  \<open>codex-lb/app/modules/accounts/auth_manager.py\<close>, with the statements of
  \<open>codex-lb/app/modules/accounts/repository.py\<close> that it runs: the wait for the claim, the exchange, the
  persisting of the new tokens and the recording of a permanent failure.

  A refresh is a coroutine that shares the database with other replicas. It is modelled at the points
  where it waits for the database or the network: \<open>refresh_pc\<close> says what it waits for and keeps its
  local variables, and a definition for each point says how it goes on. \<open>task_step\<close> collects them.
  A statement of the database is atomic; \<open>db_outcome\<close> (of leader election) says whether it raised and
  whether it was applied. Readings of \<open>time.monotonic()\<close> are arguments.

  Ciphertexts are non-deterministic: \<open>tv_encrypt\<close> takes a nonce. Fernet and SHA-256 are parameters. An account object that
  is attached to the session (\<open>rt_attached\<close>) is overwritten by each fresh read, as the identity map of
  SQLAlchemy does. Log lines, and the texts of the errors raised here, are left out.
\<close>

section \<open>State\<close>

record TokenVault =
  tv_encrypt :: "nat \<Rightarrow> string \<Rightarrow> string"
  tv_decrypt :: "string \<Rightarrow> string option"
  tv_sha256 :: "string \<Rightarrow> string"

text \<open>The columns of an account that a refresh reads and writes; \<open>acc_refresh_token\<close> is the
  ciphertext of the refresh token.\<close>

record TokenAccount = Account +
  ta_access_token :: string
  ta_id_token :: string
  ta_last_refresh :: int
  ta_chatgpt_account_id :: "string option"
  ta_chatgpt_user_id :: "string option"
  ta_email :: string
  ta_workspace_id :: "string option"
  ta_workspace_label :: "string option"
  ta_seat_type :: "string option"

record TokenDb =
  td_accounts :: "(string \<times> TokenAccount) list"
  td_sticky :: "StickySession list"
  td_bridges :: BridgeStore
  td_claims :: claim_table
  td_clock :: pyfloat

section \<open>Statements\<close>

definition get_by_id_fresh :: "string \<Rightarrow> TokenDb \<Rightarrow> TokenAccount option" where
  "get_by_id_fresh i db = map_of (td_accounts db) i"

record TokenWrite =
  tw_access_token :: string
  tw_refresh_token :: string
  tw_id_token :: string
  tw_last_refresh :: int
  tw_plan_type :: string
  tw_email :: string
  tw_chatgpt_account_id :: "string option"
  tw_chatgpt_user_id :: "string option"
  tw_workspace_id :: "string option"
  tw_workspace_label :: "string option"
  tw_seat_type :: "string option"

definition write_tokens :: "TokenWrite \<Rightarrow> TokenAccount \<Rightarrow> TokenAccount" where
  "write_tokens w acc =
     acc\<lparr>acc_refresh_token := tw_refresh_token w, acc_plan_type := tw_plan_type w,
         ta_access_token := tw_access_token w, ta_id_token := tw_id_token w, ta_last_refresh := tw_last_refresh w,
         ta_chatgpt_account_id := or_else (tw_chatgpt_account_id w) (ta_chatgpt_account_id acc),
         ta_chatgpt_user_id := or_else (or_str (tw_chatgpt_user_id w) None) (ta_chatgpt_user_id acc),
         ta_email := tw_email w,
         ta_workspace_id := or_else (tw_workspace_id w) (ta_workspace_id acc),
         ta_workspace_label := or_else (tw_workspace_label w) (ta_workspace_label acc),
         ta_seat_type := or_else (tw_seat_type w) (ta_seat_type acc)\<rparr>"

definition rotate_tokens :: "string \<Rightarrow> TokenWrite \<Rightarrow> string \<Rightarrow> TokenDb \<Rightarrow> bool \<times> TokenDb" where
  "rotate_tokens i w expected db =
     (case map_of (td_accounts db) i of
        None \<Rightarrow> (False, db)
      | Some row \<Rightarrow>
          if acc_refresh_token row = expected
          then (True, db\<lparr>td_accounts := AList.update i (write_tokens w row) (td_accounts db)\<rparr>)
          else (False, db))"

text \<open>The call of \<open>update_status_if_current\<close> with the status, reason, reset time and ciphertext of a row
  just read; the reset time is cleared, the time of the block is neither compared nor written.\<close>

definition set_status :: "AccountStatus \<Rightarrow> string \<Rightarrow> TokenAccount \<Rightarrow> TokenAccount" where
  "set_status s reason acc = acc\<lparr>acc_status := s, acc_deactivation_reason := Some reason\<rparr>"

definition write_status_row :: "int \<Rightarrow> string \<Rightarrow> TokenAccount \<Rightarrow> TokenDb \<Rightarrow> TokenDb" where
  "write_status_row utcnow i row db =
     (let db1 = db\<lparr>td_accounts := AList.update i row (td_accounts db)\<rparr>
      in if acc_status row \<in> {REAUTH_REQUIRED, DEACTIVATED}
         then db1\<lparr>td_sticky := filter (\<lambda>r. ss_account_id r \<noteq> i) (td_sticky db1),
                  td_bridges := close_http_bridge_sessions_for_account utcnow i (td_bridges db1)\<rparr>
         else db1)"

definition status_if_current ::
  "int \<Rightarrow> string \<Rightarrow> AccountStatus \<Rightarrow> string \<Rightarrow> TokenAccount \<Rightarrow> TokenDb \<Rightarrow> bool \<times> TokenDb" where
  "status_if_current utcnow i s reason expected db =
     (case map_of (td_accounts db) i of
        None \<Rightarrow> (False, db)
      | Some row \<Rightarrow>
          if acc_status row = acc_status expected \<and> acc_deactivation_reason row = acc_deactivation_reason expected
             \<and> acc_reset_at row = acc_reset_at expected \<and> acc_refresh_token row = acc_refresh_token expected
          then (True, write_status_row utcnow i (set_status s reason row\<lparr>acc_reset_at := None\<rparr>) db)
          else (False, db))"

definition set_chatgpt_account_id :: "string \<Rightarrow> string \<Rightarrow> TokenDb \<Rightarrow> TokenDb" where
  "set_chatgpt_account_id i v db =
     (case map_of (td_accounts db) i of
        None \<Rightarrow> db
      | Some row \<Rightarrow> db\<lparr>td_accounts := AList.update i (row\<lparr>ta_chatgpt_account_id := Some v\<rparr>) (td_accounts db)\<rparr>)"

text \<open>The deletion of an account, as far as these tables go; the claim is deleted with the row it refers to.\<close>

definition delete_account :: "string \<Rightarrow> TokenDb \<Rightarrow> TokenDb" where
  "delete_account i db =
     db\<lparr>td_accounts := AList.delete i (td_accounts db), td_sticky := filter (\<lambda>r. ss_account_id r \<noteq> i) (td_sticky db),
        td_claims := (td_claims db)(i := None)\<rparr>"

definition workspace_slot_taken :: "string \<Rightarrow> string \<Rightarrow> string option \<Rightarrow> string \<Rightarrow> TokenDb \<Rightarrow> bool" where
  "workspace_slot_taken i email chatgpt workspace db =
     (\<exists>(j, row) \<in> set (td_accounts db). j \<noteq> i \<and> ta_workspace_id row = Some workspace \<and>
        (case or_str chatgpt None of
           Some c \<Rightarrow> ta_chatgpt_account_id row = Some c \<or> (ta_email row = email \<and> ta_chatgpt_account_id row = None)
         | None \<Rightarrow> ta_email row = email))"

section \<open>Helpers\<close>

definition TERMINAL_REFRESH_STATUSES :: "AccountStatus list" where
  "TERMINAL_REFRESH_STATUSES = [REAUTH_REQUIRED, DEACTIVATED]"

definition TOKEN_CAS_MAX_ATTEMPTS :: nat where
  "TOKEN_CAS_MAX_ATTEMPTS = 5"

definition FINAL_PERSIST_MAX_ATTEMPTS :: nat where
  "FINAL_PERSIST_MAX_ATTEMPTS = 3"

definition CLAIM_RELEASE_MAX_ATTEMPTS :: nat where
  "CLAIM_RELEASE_MAX_ATTEMPTS = 3"

definition TOKEN_REFRESH_CLAIM_WAIT_SECONDS :: pyfloat where
  "TOKEN_REFRESH_CLAIM_WAIT_SECONDS = 8"

definition TOKEN_REFRESH_CLAIM_POLL_SECONDS :: pyfloat where
  "TOKEN_REFRESH_CLAIM_POLL_SECONDS = 1 / 4"

definition PERSIST_CONFLICT_REASON :: string where
  "PERSIST_CONFLICT_REASON = ''Refresh token persistence conflict; stored token is stale - re-login required''"

definition fingerprint :: "TokenVault \<Rightarrow> string \<Rightarrow> string" where
  "fingerprint V c = tv_sha256 V (default_to (tv_decrypt V c) c)"

definition is_genuine_peer_rotation :: "string option \<Rightarrow> string option \<Rightarrow> bool" where
  "is_genuine_peer_rotation consumed latest = (consumed \<noteq> None \<and> latest \<noteq> None \<and> latest \<noteq> consumed)"

definition adopt_account_row :: "TokenAccount \<Rightarrow> TokenAccount \<Rightarrow> TokenAccount" where
  "adopt_account_row target source = source\<lparr>acc_id := acc_id target\<rparr>"

definition terminal_status_refresh_error :: "TokenAccount \<Rightarrow> RefreshError" where
  "terminal_status_refresh_error acc =
     refresh_error (if acc_status acc = DEACTIVATED then ''account_deactivated'' else ''refresh_token_invalidated'') [] True"

text \<open>\<open>_clean_optional\<close> is \<open>clean_account_identity_part\<close>. The values a refresh writes, for the
  workspace it settled on.\<close>

definition rotation ::
  "TokenVault \<Rightarrow> (nat \<Rightarrow> nat) \<Rightarrow> int \<Rightarrow> TokenAccount \<Rightarrow> TokenRefreshResult \<Rightarrow> string option \<Rightarrow> TokenWrite" where
  "rotation V nonce utcnow acc r next_workspace =
     (let matches = (clean_account_identity_part (tr_workspace_id r) = None
                     \<or> clean_account_identity_part (tr_workspace_id r) = next_workspace)
      in \<lparr>tw_access_token = tv_encrypt V (nonce 0) (tr_access_token r),
          tw_refresh_token = tv_encrypt V (nonce 1) (tr_refresh_token r),
          tw_id_token = tv_encrypt V (nonce 2) (tr_id_token r),
          tw_last_refresh = utcnow,
          tw_plan_type =
            (case tr_plan_type r of
               Some p \<Rightarrow> coerce_account_plan_type (Some p) (or_list (acc_plan_type acc) DEFAULT_PLAN)
             | None \<Rightarrow> or_list (acc_plan_type acc) DEFAULT_PLAN),
          tw_email = default_to (or_str (tr_email r) None) (ta_email acc),
          tw_chatgpt_account_id = or_str (tr_account_id r) (ta_chatgpt_account_id acc),
          tw_chatgpt_user_id = or_str (tr_chatgpt_user_id r) (ta_chatgpt_user_id acc),
          tw_workspace_id = next_workspace,
          tw_workspace_label =
            (if matches \<and> or_str (tr_workspace_label r) None \<noteq> None then tr_workspace_label r else ta_workspace_label acc),
          tw_seat_type =
            (if matches \<and> or_str (tr_seat_type r) None \<noteq> None then tr_seat_type r else ta_seat_type acc)\<rparr>)"

text \<open>A refresh that reports a workspace for an account without one asks whether the slot is taken;
  an account with a workspace keeps it.\<close>

definition asks_for_slot :: "TokenAccount \<Rightarrow> TokenRefreshResult \<Rightarrow> string option" where
  "asks_for_slot acc r =
     (case clean_account_identity_part (ta_workspace_id acc) of
        None \<Rightarrow> clean_account_identity_part (tr_workspace_id r)
      | Some _ \<Rightarrow> None)"

definition next_workspace_id :: "TokenAccount \<Rightarrow> TokenRefreshResult \<Rightarrow> bool \<Rightarrow> string option" where
  "next_workspace_id acc r slot_taken =
     (case asks_for_slot acc r of
        Some w \<Rightarrow> if slot_taken then None else Some w
      | None \<Rightarrow> clean_account_identity_part (ta_workspace_id acc))"

text \<open>The caller's object after its own rotation.\<close>

definition mirror_tokens :: "TokenWrite \<Rightarrow> TokenAccount \<Rightarrow> TokenAccount" where
  "mirror_tokens w acc =
     acc\<lparr>acc_refresh_token := tw_refresh_token w, acc_plan_type := tw_plan_type w,
         ta_access_token := tw_access_token w, ta_id_token := tw_id_token w, ta_last_refresh := tw_last_refresh w,
         ta_chatgpt_account_id := tw_chatgpt_account_id w, ta_chatgpt_user_id := tw_chatgpt_user_id w,
         ta_email := tw_email w, ta_workspace_id := tw_workspace_id w, ta_workspace_label := tw_workspace_label w,
         ta_seat_type := tw_seat_type w\<rparr>"

section \<open>The coroutine\<close>

text \<open>How a refresh ends: with the account, with a \<open>RefreshError\<close>, or with another exception.\<close>

datatype refresh_outcome = Refreshed TokenAccount | RefreshFailed RefreshError | RefreshBroke

text \<open>Where a refresh waits. \<open>Claiming\<close>: for the upsert of its claim (an attempt). \<open>Waiting\<close>: the claim is
  another's; for the row. \<open>Holding\<close>: it has the claim; for the row. \<open>Preparing\<close>: for the admission and the
  route. \<open>Exchanging\<close>: the token is sent; for the answer. \<open>Slotting\<close>: for the workspace query.
  \<open>Persisting\<close>, \<open>Missed\<close>: for a token write, for the row after a miss; \<open>FinalWrite\<close>, \<open>FinalMissed\<close>: the same in
  the final attempts. \<open>Flagging\<close>, \<open>FlagWrite\<close>: for the row and the status write of the terminal outcome.
  \<open>Failing\<close>, \<open>Downgrading\<close>, \<open>DowngradeMissed\<close>: for the row, the status write and the row again after a permanent
  failure. \<open>Releasing\<close>: for the release of the claim. Arguments named \<open>dl\<close> are deadlines of the claim. The field \<open>rt_marked\<close> says that the task has called \<open>mark_account_routing_unavailable\<close> and invalidated the selection cache.\<close>

datatype refresh_pc =
  Claiming nat
| Waiting
| Holding pyfloat
| Preparing string "pyfloat option" "pyfloat option"
| Exchanging string "pyfloat option"
| Slotting string TokenRefreshResult "pyfloat option"
| Persisting nat TokenWrite "string option" string "pyfloat option"
| Missed nat TokenWrite "string option" "pyfloat option"
| FinalWrite nat TokenWrite "string option" string
| FinalMissed nat TokenWrite "string option" string
| Flagging nat TokenWrite "string option"
| FlagWrite nat TokenWrite "string option" TokenAccount
| Failing RefreshError string "pyfloat option"
| Downgrading nat RefreshError string TokenAccount "pyfloat option"
| DowngradeMissed nat RefreshError string "pyfloat option"
| Releasing nat refresh_outcome
| Done refresh_outcome

record RefreshTask =
  rt_claimant :: "string option"
  rt_account :: TokenAccount
  rt_attached :: bool
  rt_requested :: string
  rt_caller_deadline :: "pyfloat option"
  rt_wait_deadline :: pyfloat
  rt_marked :: bool
  rt_pc :: refresh_pc

definition goto :: "refresh_pc \<Rightarrow> RefreshTask \<Rightarrow> RefreshTask" where
  "goto p t = t\<lparr>rt_pc := p\<rparr>"

text \<open>Leaving the refresh proper: a claimant releases its claim in \<open>finally\<close>.\<close>

definition leave :: "refresh_outcome \<Rightarrow> RefreshTask \<Rightarrow> RefreshTask" where
  "leave out t = goto (if rt_claimant t = None then Done out else Releasing 0 out) t"

definition leave_with :: "TokenAccount \<Rightarrow> RefreshTask \<Rightarrow> RefreshTask" where
  "leave_with acc t = leave (Refreshed acc) (t\<lparr>rt_account := acc\<rparr>)"

definition seen_row :: "TokenAccount \<Rightarrow> RefreshTask \<Rightarrow> RefreshTask" where
  "seen_row latest t = (if rt_attached t then t\<lparr>rt_account := latest\<rparr> else t)"

definition past :: "pyfloat option \<Rightarrow> pyfloat \<Rightarrow> bool" where
  "past dl tick = (case dl of None \<Rightarrow> False | Some d \<Rightarrow> tick \<ge> d)"

text \<open>The start of \<open>_perform_refresh\<close>: ciphertext that cannot be decrypted raises.\<close>

definition perform_refresh :: "TokenVault \<Rightarrow> string \<Rightarrow> pyfloat option \<Rightarrow> pyfloat option \<Rightarrow> RefreshTask \<Rightarrow> RefreshTask" where
  "perform_refresh V material budget dl t =
     (case tv_decrypt V material of
        None \<Rightarrow> leave RefreshBroke t
      | Some _ \<Rightarrow> goto (Preparing material budget dl) t)"

text \<open>\<open>refresh_account\<close>: without a coordinator at once, with one behind the claim. The budget of the
  caller bounds the wait.\<close>

definition refresh_account ::
  "TokenVault \<Rightarrow> string option \<Rightarrow> bool \<Rightarrow> pyfloat option \<Rightarrow> pyfloat \<Rightarrow> TokenAccount \<Rightarrow> RefreshTask" where
  "refresh_account V claimant attached budget tick acc =
     (let t = \<lparr>rt_claimant = claimant, rt_account = acc, rt_attached = attached,
               rt_requested = fingerprint V (acc_refresh_token acc),
               rt_caller_deadline = map_option (\<lambda>b. tick + max 0 b) budget,
               rt_wait_deadline =
                 tick + (case budget of None \<Rightarrow> TOKEN_REFRESH_CLAIM_WAIT_SECONDS
                         | Some b \<Rightarrow> min TOKEN_REFRESH_CLAIM_WAIT_SECONDS (max 0 b)),
               rt_marked = False, rt_pc = Claiming 0\<rparr>
      in if claimant = None then perform_refresh V (acc_refresh_token acc) budget None t else t)"

definition after_claim :: "pyfloat \<Rightarrow> pyfloat \<Rightarrow> nat \<Rightarrow> attempt_end \<Rightarrow> RefreshTask \<Rightarrow> RefreshTask" where
  "after_claim ttl tick n result t =
     (case result of
        Won \<Rightarrow> (let pd = tick + max 0 ttl
                in goto (Holding (case rt_caller_deadline t of None \<Rightarrow> pd | Some d \<Rightarrow> min pd d)) t)
      | Refused \<Rightarrow> goto Waiting t
      | TryAgain \<Rightarrow> goto (Claiming (n + 1)) t
      | Raises \<Rightarrow> goto (Done RefreshBroke) t)"

definition after_wait :: "TokenVault \<Rightarrow> pyfloat \<Rightarrow> TokenAccount option \<Rightarrow> RefreshTask \<Rightarrow> RefreshTask" where
  "after_wait V tick latest t =
     (let t' = (case latest of None \<Rightarrow> t | Some row \<Rightarrow> seen_row row t);
          timed = (if rt_wait_deadline t - tick \<le> 0
                   then goto (Done (RefreshFailed (transient_error ''refresh_claim_timeout''))) t'
                   else goto (Claiming 0) t')
      in case latest of
           None \<Rightarrow> timed
         | Some row \<Rightarrow>
             if fingerprint V (acc_refresh_token row) \<noteq> rt_requested t
             then (let acc = adopt_account_row (rt_account t') row in goto (Done (Refreshed acc)) (t'\<lparr>rt_account := acc\<rparr>))
             else timed)"

text \<open>The claim is won: a rotation of a peer is adopted, a terminal status surfaces, a spent budget
  ends the refresh; otherwise the exchange begins with the material just read.\<close>

definition begin_exchange :: "TokenVault \<Rightarrow> pyfloat \<Rightarrow> pyfloat \<Rightarrow> string \<Rightarrow> RefreshTask \<Rightarrow> RefreshTask" where
  "begin_exchange V tick pd material t =
     (case rt_caller_deadline t of
        None \<Rightarrow> perform_refresh V material None (Some pd) t
      | Some d \<Rightarrow>
          if d - tick \<le> 0 then leave (RefreshFailed (transient_error ''refresh_claim_timeout'')) t
          else perform_refresh V material (Some (d - tick)) (Some pd) t)"

definition after_hold :: "TokenVault \<Rightarrow> pyfloat \<Rightarrow> pyfloat \<Rightarrow> TokenAccount option \<Rightarrow> RefreshTask \<Rightarrow> RefreshTask" where
  "after_hold V tick pd latest t =
     (case latest of
        None \<Rightarrow> begin_exchange V tick pd (acc_refresh_token (rt_account t)) t
      | Some row \<Rightarrow>
          (let t' = seen_row row t
           in if fingerprint V (acc_refresh_token row) \<noteq> rt_requested t
              then leave_with (adopt_account_row (rt_account t') row) t'
              else if acc_status row \<in> set TERMINAL_REFRESH_STATUSES
              then (let acc = adopt_account_row (rt_account t') row
                    in leave (RefreshFailed (terminal_status_refresh_error acc)) (t'\<lparr>rt_account := acc\<rparr>))
              else begin_exchange V tick pd (acc_refresh_token row) t'))"

text \<open>\<open>_refresh_tokens\<close> up to the request: the admission within the budget, the route, what is left of the
  budget. \<open>None\<close> sends the request.\<close>

datatype admission = NoGate | Admitted | AdmissionTimedOut | AdmissionRaised

datatype route = RouteFound | NoRouteDirect | NoRouteBound | RouteRaised

definition refresh_tokens ::
  "pyfloat option \<Rightarrow> (nat \<Rightarrow> pyfloat) \<Rightarrow> admission \<Rightarrow> route \<Rightarrow> refresh_outcome option" where
  "refresh_tokens budget tick adm rt =
     (let deadline = map_option (\<lambda>b. tick 0 + max 0 b) budget;
          timeout = Some (RefreshFailed (transient_error ''refresh_claim_timeout''));
          no_route = Some (RefreshFailed (transient_error ''upstream_proxy_unavailable''));
          routed = (case rt of
                      RouteRaised \<Rightarrow> no_route
                    | NoRouteBound \<Rightarrow> no_route
                    | _ \<Rightarrow> (case deadline of None \<Rightarrow> None | Some d \<Rightarrow> if d - tick 2 \<le> 0 then timeout else None))
      in case adm of
           NoGate \<Rightarrow> routed
         | Admitted \<Rightarrow> if past deadline (tick 1) then timeout else routed
         | AdmissionTimedOut \<Rightarrow> if deadline = None then Some RefreshBroke else timeout
         | AdmissionRaised \<Rightarrow> if past deadline (tick 1) then timeout else Some RefreshBroke)"

definition after_prepare ::
  "pyfloat option \<Rightarrow> (nat \<Rightarrow> pyfloat) \<Rightarrow> admission \<Rightarrow> route \<Rightarrow> string \<Rightarrow> pyfloat option \<Rightarrow> RefreshTask \<Rightarrow> RefreshTask" where
  "after_prepare budget tick adm rt material dl t =
     (case refresh_tokens budget tick adm rt of
        Some out \<Rightarrow> leave out t
      | None \<Rightarrow> goto (Exchanging material dl) t)"

definition start_persist ::
  "TokenVault \<Rightarrow> (nat \<Rightarrow> nat) \<Rightarrow> int \<Rightarrow> string \<Rightarrow> TokenRefreshResult \<Rightarrow> bool \<Rightarrow> pyfloat option \<Rightarrow> RefreshTask \<Rightarrow> RefreshTask" where
  "start_persist V nonce utcnow material r slot_taken dl t =
     goto (Persisting 0 (rotation V nonce utcnow (rt_account t) r (next_workspace_id (rt_account t) r slot_taken))
             (tv_decrypt V material) material dl) t"

definition after_answer ::
  "TokenVault \<Rightarrow> (string \<Rightarrow> json option) \<Rightarrow> (nat \<Rightarrow> nat) \<Rightarrow> int \<Rightarrow> exchange \<Rightarrow> string \<Rightarrow> pyfloat option \<Rightarrow> RefreshTask \<Rightarrow> RefreshTask" where
  "after_answer V decode nonce utcnow ex material dl t =
     (case refresh_access_token decode ex of
        Inl e \<Rightarrow> if re_permanent e then goto (Failing e (fingerprint V material) dl) t else leave (RefreshFailed e) t
      | Inr r \<Rightarrow>
          (case asks_for_slot (rt_account t) r of
             Some _ \<Rightarrow> goto (Slotting material r dl) t
           | None \<Rightarrow> start_persist V nonce utcnow material r False dl t))"

subsection \<open>Persisting the rotation\<close>

text \<open>\<open>_persist_refreshed_tokens\<close>. A write that lands, and a row that is gone, end it with the caller's
  object showing the new tokens.\<close>

definition after_write :: "bool \<Rightarrow> nat \<Rightarrow> TokenWrite \<Rightarrow> string option \<Rightarrow> pyfloat option \<Rightarrow> RefreshTask \<Rightarrow> RefreshTask" where
  "after_write landed n w consumed dl t =
     (if landed then leave_with (mirror_tokens w (rt_account t)) t else goto (Missed n w consumed dl) t)"

definition after_miss ::
  "TokenVault \<Rightarrow> pyfloat \<Rightarrow> nat \<Rightarrow> TokenWrite \<Rightarrow> string option \<Rightarrow> pyfloat option \<Rightarrow> TokenAccount option \<Rightarrow> RefreshTask \<Rightarrow> RefreshTask" where
  "after_miss V tick n w consumed dl latest t =
     (case latest of
        None \<Rightarrow> leave_with (mirror_tokens w (rt_account t)) t
      | Some row \<Rightarrow>
          (let t' = seen_row row t; plain = tv_decrypt V (acc_refresh_token row)
           in if consumed = None \<or> plain = None
              then leave (RefreshFailed (transient_error ''token_persist_conflict'')) t'
              else if plain \<noteq> consumed then leave_with (adopt_account_row (rt_account t') row) t'
              else if past dl tick \<or> n + 1 = TOKEN_CAS_MAX_ATTEMPTS
              then goto (FinalWrite 0 w consumed (acc_refresh_token row)) t'
              else goto (Persisting (n + 1) w consumed (acc_refresh_token row) dl) t'))"

definition after_final_write :: "bool \<Rightarrow> nat \<Rightarrow> TokenWrite \<Rightarrow> string option \<Rightarrow> string \<Rightarrow> RefreshTask \<Rightarrow> RefreshTask" where
  "after_final_write landed n w consumed expected t =
     (if landed then leave_with (mirror_tokens w (rt_account t)) t else goto (FinalMissed n w consumed expected) t)"

definition after_final_miss ::
  "TokenVault \<Rightarrow> nat \<Rightarrow> TokenWrite \<Rightarrow> string option \<Rightarrow> TokenAccount option \<Rightarrow> RefreshTask \<Rightarrow> RefreshTask" where
  "after_final_miss V n w consumed latest t =
     (case latest of
        None \<Rightarrow> leave_with (mirror_tokens w (rt_account t)) t
      | Some row \<Rightarrow>
          (let t' = seen_row row t; plain = tv_decrypt V (acc_refresh_token row)
           in if is_genuine_peer_rotation consumed plain then leave_with (adopt_account_row (rt_account t') row) t'
              else if consumed = None \<or> plain = None \<or> n + 1 = FINAL_PERSIST_MAX_ATTEMPTS
              then goto (Flagging 0 w consumed) t'
              else goto (FinalWrite (n + 1) w consumed (acc_refresh_token row)) t'))"

text \<open>\<open>_flag_persist_conflict_reauth\<close>.\<close>

definition after_flag_read ::
  "TokenVault \<Rightarrow> nat \<Rightarrow> TokenWrite \<Rightarrow> string option \<Rightarrow> TokenAccount option \<Rightarrow> RefreshTask \<Rightarrow> RefreshTask" where
  "after_flag_read V n w consumed latest t =
     (case latest of
        None \<Rightarrow> leave_with (mirror_tokens w (rt_account t)) t
      | Some row \<Rightarrow>
          (let t' = seen_row row t
           in if is_genuine_peer_rotation consumed (tv_decrypt V (acc_refresh_token row))
              then leave_with (adopt_account_row (rt_account t') row) t'
              else goto (FlagWrite n w consumed row) t'))"

definition after_flag_write :: "bool \<Rightarrow> nat \<Rightarrow> TokenWrite \<Rightarrow> string option \<Rightarrow> RefreshTask \<Rightarrow> RefreshTask" where
  "after_flag_write applied n w consumed t =
     (if applied then leave_with (set_status REAUTH_REQUIRED PERSIST_CONFLICT_REASON (rt_account t)) (t\<lparr>rt_marked := True\<rparr>)
      else if n + 1 = FINAL_PERSIST_MAX_ATTEMPTS
      then leave (RefreshFailed (transient_error ''token_persist_conflict'')) t
      else goto (Flagging (n + 1) w consumed) t)"

subsection \<open>A permanent failure\<close>

text \<open>\<open>_handle_permanent_refresh_failure\<close>: when the failure stands the error is raised again.\<close>

definition failure_reason :: "RefreshError \<Rightarrow> string" where
  "failure_reason e = default_to (map_of PERMANENT_FAILURE_CODES (re_code e)) (re_message e)"

definition after_failure :: "TokenVault \<Rightarrow> RefreshError \<Rightarrow> string \<Rightarrow> pyfloat option \<Rightarrow> TokenAccount option \<Rightarrow> RefreshTask \<Rightarrow> RefreshTask" where
  "after_failure V e fp dl latest t =
     (case latest of
        None \<Rightarrow> leave (RefreshFailed e) t
      | Some row \<Rightarrow>
          (let t' = seen_row row t
           in if fingerprint V (acc_refresh_token row) \<noteq> fp then leave_with (adopt_account_row (rt_account t') row) t'
              else goto (Downgrading 0 e fp row dl) t'))"

definition after_downgrade :: "bool \<Rightarrow> nat \<Rightarrow> RefreshError \<Rightarrow> string \<Rightarrow> pyfloat option \<Rightarrow> RefreshTask \<Rightarrow> RefreshTask" where
  "after_downgrade applied n e fp dl t =
     (if applied
      then leave (RefreshFailed e)
             (t\<lparr>rt_account := set_status (account_status_for_permanent_failure (re_code e)) (failure_reason e) (rt_account t), rt_marked := True\<rparr>)
      else goto (DowngradeMissed n e fp dl) t)"

definition after_downgrade_miss ::
  "TokenVault \<Rightarrow> pyfloat \<Rightarrow> nat \<Rightarrow> RefreshError \<Rightarrow> string \<Rightarrow> pyfloat option \<Rightarrow> TokenAccount option \<Rightarrow> RefreshTask \<Rightarrow> RefreshTask" where
  "after_downgrade_miss V tick n e fp dl latest t =
     (case latest of
        None \<Rightarrow> leave (RefreshFailed e) t
      | Some row \<Rightarrow>
          (let t' = seen_row row t
           in if fingerprint V (acc_refresh_token row) \<noteq> fp then leave_with (adopt_account_row (rt_account t') row) t'
              else if n + 1 = TOKEN_CAS_MAX_ATTEMPTS \<or> past dl tick
              then leave (RefreshFailed (transient_error ''status_downgrade_conflict'')) t'
              else goto (Downgrading (n + 1) e fp row dl) t'))"

text \<open>\<open>_release_claim_quietly\<close>: after the last attempt the claim is left to expire.\<close>

definition after_release :: "bool \<Rightarrow> nat \<Rightarrow> refresh_outcome \<Rightarrow> RefreshTask \<Rightarrow> RefreshTask" where
  "after_release raised n out t =
     goto (if raised \<and> n + 1 < CLAIM_RELEASE_MAX_ATTEMPTS then Releasing (n + 1) out else Done out) t"

subsection \<open>Steps\<close>

text \<open>The database after a statement that was applied or not, and the continuation of a statement that
  raised: the exception leaves the refresh.\<close>

definition applied :: "db_outcome \<Rightarrow> 'a \<Rightarrow> 'a \<Rightarrow> 'a" where
  "applied out before after =
     (case out of Committed \<Rightarrow> after | CommitFailed b \<Rightarrow> if b then after else before | Raised \<Rightarrow> before)"

definition answered :: "db_outcome \<Rightarrow> RefreshTask \<Rightarrow> RefreshTask \<Rightarrow> RefreshTask" where
  "answered out next t = (if out = Committed then next else leave RefreshBroke t)"

text \<open>The statements on the claims are serial, as those on a leader's row; a row is written with
  \<open>rotate_tokens\<close> or \<open>status_if_current\<close> only.\<close>

definition claim_clock :: "TokenDb \<Rightarrow> StatementClock \<Rightarrow> bool" where
  "claim_clock db clk = (sc_snapshot clk \<le> sc_write clk \<and> td_clock db \<le> sc_write clk)"

definition own_id :: "RefreshTask \<Rightarrow> string" where
  "own_id t = acc_id (rt_account t)"

definition read_row :: "RefreshTask \<Rightarrow> TokenDb \<Rightarrow> TokenAccount option" where
  "read_row t db = get_by_id_fresh (own_id t) db"

inductive task_step ::
  "TokenVault \<Rightarrow> (string \<Rightarrow> json option) \<Rightarrow> pyfloat \<Rightarrow> RefreshTask \<Rightarrow> TokenDb \<Rightarrow> RefreshTask \<Rightarrow> TokenDb \<Rightarrow> bool"
  for V decode ttl where
  claims: "rt_pc t = Claiming n \<Longrightarrow> rt_claimant t = Some me \<Longrightarrow> claim_clock db clk \<Longrightarrow>
    claim_attempt clk fault (read_row t db \<noteq> None) ttl (own_id t) me (rt_requested t) n (td_claims db) = (result, tab) \<Longrightarrow>
    task_step V decode ttl t db (after_claim ttl tick n result t) (db\<lparr>td_claims := tab, td_clock := sc_write clk\<rparr>)"
| waits: "rt_pc t = Waiting \<Longrightarrow> out \<in> {Committed, Raised} \<Longrightarrow>
    task_step V decode ttl t db
      (if out = Committed then after_wait V tick (read_row t db) t else goto (Done RefreshBroke) t) db"
| holds: "rt_pc t = Holding pd \<Longrightarrow>
    task_step V decode ttl t db (answered out (after_hold V tick pd (read_row t db) t) t) db"
| prepares: "rt_pc t = Preparing material budget dl \<Longrightarrow>
    task_step V decode ttl t db (after_prepare budget ticks adm route material dl t) db"
| hears: "rt_pc t = Exchanging material dl \<Longrightarrow>
    task_step V decode ttl t db (after_answer V decode nonce utcnow ex material dl t) db"
| slots: "rt_pc t = Slotting material r dl \<Longrightarrow> asks_for_slot (rt_account t) r = Some w \<Longrightarrow>
    taken = workspace_slot_taken (own_id t) (default_to (or_str (tr_email r) None) (ta_email (rt_account t)))
              (or_str (tr_account_id r) (ta_chatgpt_account_id (rt_account t))) w db \<Longrightarrow>
    task_step V decode ttl t db (answered out (start_persist V nonce utcnow material r taken dl t) t) db"
| writes: "rt_pc t = Persisting n w consumed expected dl \<Longrightarrow>
    rotate_tokens (own_id t) w expected db = (landed, db1) \<Longrightarrow>
    task_step V decode ttl t db (answered out (after_write landed n w consumed dl t) t) (applied out db db1)"
| misses: "rt_pc t = Missed n w consumed dl \<Longrightarrow>
    task_step V decode ttl t db (answered out (after_miss V tick n w consumed dl (read_row t db) t) t) db"
| writes_final: "rt_pc t = FinalWrite n w consumed expected \<Longrightarrow>
    rotate_tokens (own_id t) w expected db = (landed, db1) \<Longrightarrow>
    task_step V decode ttl t db (answered out (after_final_write landed n w consumed expected t) t) (applied out db db1)"
| misses_final: "rt_pc t = FinalMissed n w consumed expected \<Longrightarrow>
    task_step V decode ttl t db (answered out (after_final_miss V n w consumed (read_row t db) t) t) db"
| reads_flag: "rt_pc t = Flagging n w consumed \<Longrightarrow>
    task_step V decode ttl t db (answered out (after_flag_read V n w consumed (read_row t db) t) t) db"
| writes_flag: "rt_pc t = FlagWrite n w consumed row \<Longrightarrow>
    status_if_current utcnow (own_id t) REAUTH_REQUIRED PERSIST_CONFLICT_REASON row db = (landed, db1) \<Longrightarrow>
    task_step V decode ttl t db (answered out (after_flag_write landed n w consumed t) t) (applied out db db1)"
| fails: "rt_pc t = Failing e fp dl \<Longrightarrow>
    task_step V decode ttl t db (answered out (after_failure V e fp dl (read_row t db) t) t) db"
| downgrades: "rt_pc t = Downgrading n e fp row dl \<Longrightarrow>
    status_if_current utcnow (own_id t) (account_status_for_permanent_failure (re_code e)) (failure_reason e) row db = (landed, db1) \<Longrightarrow>
    task_step V decode ttl t db (answered out (after_downgrade landed n e fp dl t) t) (applied out db db1)"
| misses_downgrade: "rt_pc t = DowngradeMissed n e fp dl \<Longrightarrow>
    task_step V decode ttl t db (answered out (after_downgrade_miss V tick n e fp dl (read_row t db) t) t) db"
| releases: "rt_pc t = Releasing n out \<Longrightarrow> rt_claimant t = Some me \<Longrightarrow>
    task_step V decode ttl t db (after_release (db_out \<noteq> Committed) n out t)
      (db\<lparr>td_claims := applied db_out (td_claims db) (release_claim (own_id t) me (rt_requested t) (td_claims db))\<rparr>)"

inductive_cases task_step_elim: "task_step V decode ttl t db t' db'"

section \<open>What a refresh holds\<close>

text \<open>The plaintext of the stored refresh token of a row; the token a task is about to send or has
  sent; the token it has exchanged and not yet settled; the token it got for it.\<close>

definition plain :: "TokenVault \<Rightarrow> TokenAccount \<Rightarrow> string option" where
  "plain V row = tv_decrypt V (acc_refresh_token row)"

definition sending :: "TokenVault \<Rightarrow> RefreshTask \<Rightarrow> string option" where
  "sending V t =
     (case rt_pc t of
        Preparing material budget dl \<Rightarrow> tv_decrypt V material
      | Exchanging material dl \<Rightarrow> tv_decrypt V material
      | _ \<Rightarrow> None)"

definition resolving :: "TokenVault \<Rightarrow> RefreshTask \<Rightarrow> string option" where
  "resolving V t =
     (case rt_pc t of
        Slotting material r dl \<Rightarrow> tv_decrypt V material
      | Persisting n w consumed expected dl \<Rightarrow> consumed
      | Missed n w consumed dl \<Rightarrow> consumed
      | FinalWrite n w consumed expected \<Rightarrow> consumed
      | FinalMissed n w consumed expected \<Rightarrow> consumed
      | Flagging n w consumed \<Rightarrow> consumed
      | FlagWrite n w consumed row \<Rightarrow> consumed
      | _ \<Rightarrow> None)"

definition pending_token :: "TokenVault \<Rightarrow> RefreshTask \<Rightarrow> string option" where
  "pending_token V t =
     (case rt_pc t of
        Slotting material r dl \<Rightarrow> Some (tr_refresh_token r)
      | Persisting n w consumed expected dl \<Rightarrow> tv_decrypt V (tw_refresh_token w)
      | Missed n w consumed dl \<Rightarrow> tv_decrypt V (tw_refresh_token w)
      | FinalWrite n w consumed expected \<Rightarrow> tv_decrypt V (tw_refresh_token w)
      | FinalMissed n w consumed expected \<Rightarrow> tv_decrypt V (tw_refresh_token w)
      | Flagging n w consumed \<Rightarrow> tv_decrypt V (tw_refresh_token w)
      | FlagWrite n w consumed row \<Rightarrow> tv_decrypt V (tw_refresh_token w)
      | _ \<Rightarrow> None)"

text \<open>Between winning the claim and beginning to release it; and after the end.\<close>

definition working :: "RefreshTask \<Rightarrow> bool" where
  "working t =
     (case rt_pc t of Claiming n \<Rightarrow> False | Waiting \<Rightarrow> False | Releasing n out \<Rightarrow> False | Done out \<Rightarrow> False | _ \<Rightarrow> True)"

definition over :: "RefreshTask \<Rightarrow> bool" where
  "over t = (case rt_pc t of Done out \<Rightarrow> True | _ \<Rightarrow> False)"

text \<open>The end of a refresh with an exception.\<close>

definition ends_badly :: "RefreshTask \<Rightarrow> bool" where
  "ends_badly t =
     (case rt_pc t of
        Releasing n (Refreshed acc) \<Rightarrow> False | Done (Refreshed acc) \<Rightarrow> False
      | Releasing n out \<Rightarrow> True | Done out \<Rightarrow> True | _ \<Rightarrow> False)"

text \<open>What the local variables of a task mean: until the claim is won the account has the token the refresh was
  asked for, and the exchange is of that token; the ciphertext a write expects is of the consumed token;
  a row about to be flagged holds the consumed token or none that can be read, a row about to be downgraded the
  token asked for.\<close>

definition task_ok :: "TokenVault \<Rightarrow> RefreshTask \<Rightarrow> bool" where
  "task_ok V t =
     (rt_claimant t \<noteq> None \<and>
      (case rt_pc t of
         Claiming n \<Rightarrow> fingerprint V (acc_refresh_token (rt_account t)) = rt_requested t
       | Waiting \<Rightarrow> fingerprint V (acc_refresh_token (rt_account t)) = rt_requested t
       | Holding pd \<Rightarrow> fingerprint V (acc_refresh_token (rt_account t)) = rt_requested t
       | Preparing material budget dl \<Rightarrow> tv_decrypt V material \<noteq> None \<and> fingerprint V material = rt_requested t
       | Exchanging material dl \<Rightarrow> tv_decrypt V material \<noteq> None \<and> fingerprint V material = rt_requested t
       | Slotting material r dl \<Rightarrow> tv_decrypt V material \<noteq> None
       | Persisting n w consumed expected dl \<Rightarrow> consumed \<noteq> None \<and> tv_decrypt V expected = consumed \<and> tv_decrypt V (tw_refresh_token w) \<noteq> None
       | Missed n w consumed dl \<Rightarrow> consumed \<noteq> None \<and> tv_decrypt V (tw_refresh_token w) \<noteq> None
       | FinalWrite n w consumed expected \<Rightarrow> consumed \<noteq> None \<and> tv_decrypt V expected = consumed \<and> tv_decrypt V (tw_refresh_token w) \<noteq> None
       | FinalMissed n w consumed expected \<Rightarrow> consumed \<noteq> None \<and> tv_decrypt V (tw_refresh_token w) \<noteq> None
       | Flagging n w consumed \<Rightarrow> consumed \<noteq> None \<and> tv_decrypt V (tw_refresh_token w) \<noteq> None
       | FlagWrite n w consumed row \<Rightarrow>
           consumed \<noteq> None \<and> (plain V row = consumed \<or> plain V row = None) \<and> tv_decrypt V (tw_refresh_token w) \<noteq> None
       | Failing e fp dl \<Rightarrow> fp = rt_requested t
       | Downgrading n e fp row dl \<Rightarrow> fp = rt_requested t \<and> fingerprint V (acc_refresh_token row) = rt_requested t
       | DowngradeMissed n e fp dl \<Rightarrow> fp = rt_requested t
       | _ \<Rightarrow> True))"

text \<open>The ciphertexts a task may give a terminal status for: of the token it was asked to refresh, or, after an
  exchange, of the consumed token or unreadable ones.\<close>

definition blames :: "TokenVault \<Rightarrow> RefreshTask \<Rightarrow> string \<Rightarrow> bool" where
  "blames V t c =
     (case resolving V t of
        None \<Rightarrow> fingerprint V c = rt_requested t
      | Some p \<Rightarrow> tv_decrypt V c = Some p \<or> tv_decrypt V c = None)"

definition vault_laws :: "TokenVault \<Rightarrow> bool" where
  "vault_laws V = ((\<forall>n p. tv_decrypt V (tv_encrypt V n p) = Some p) \<and>
     (\<forall>x. CHR ''#'' \<notin> set (tv_sha256 V x)) \<and>
     (\<forall>x y. take CLAIM_OWNER_TOKEN_LEN (tv_sha256 V x) = take CLAIM_OWNER_TOKEN_LEN (tv_sha256 V y)
        \<longrightarrow> tv_sha256 V x = tv_sha256 V y))"

section \<open>Lemmas on the statements\<close>

abbreviation stored :: "string \<Rightarrow> TokenDb \<Rightarrow> TokenAccount option" where
  "stored a db \<equiv> map_of (td_accounts db) a"

lemma get_by_id_fresh_simp [simp]: "get_by_id_fresh i db = stored i db"
  by (simp add: get_by_id_fresh_def)

lemma read_row_simp [simp]: "read_row t db = stored (own_id t) db"
  by (simp add: read_row_def)

lemma write_tokens_simps [simp]:
  "acc_refresh_token (write_tokens w acc) = tw_refresh_token w"
  "acc_status (write_tokens w acc) = acc_status acc"
  by (simp_all add: write_tokens_def)

text \<open>A token write replaces the expected ciphertext of one row, or nothing.\<close>

lemma rotate_tokens_cases:
  assumes "rotate_tokens i w expected db = (landed, db')"
  obtains (missed) "\<not> landed" "db' = db"
  | (wrote) row where "landed" "stored i db = Some row" "acc_refresh_token row = expected"
      "db' = db\<lparr>td_accounts := AList.update i (write_tokens w row) (td_accounts db)\<rparr>"
proof (cases "stored i db")
  case None
  then show ?thesis using assms missed by (simp add: rotate_tokens_def)
next
  case (Some row)
  then show ?thesis
    using assms missed wrote [of row] by (simp add: rotate_tokens_def split: if_splits)
qed

lemma write_status_row_simps [simp]:
  "td_accounts (write_status_row utcnow i row db) = AList.update i row (td_accounts db)"
  "td_claims (write_status_row utcnow i row db) = td_claims db"
  "td_clock (write_status_row utcnow i row db) = td_clock db"
  by (simp_all add: write_status_row_def Let_def)

lemma status_if_current_cases:
  assumes "status_if_current utcnow i s reason expected db = (landed, db')"
  obtains (missed) "\<not> landed" "db' = db"
  | (wrote) row where "landed" "stored i db = Some row" "acc_refresh_token row = acc_refresh_token expected"
      "db' = write_status_row utcnow i (set_status s reason row\<lparr>acc_reset_at := None\<rparr>) db"
proof (cases "stored i db")
  case None
  then show ?thesis using assms missed by (simp add: status_if_current_def)
next
  case (Some row)
  then show ?thesis
    using assms missed wrote [of row] by (simp add: status_if_current_def split: if_splits)
qed

lemma set_status_simps [simp]:
  "acc_refresh_token (set_status s reason acc) = acc_refresh_token acc"
  "acc_status (set_status s reason acc) = s"
  "acc_id (set_status s reason acc) = acc_id acc"
  by (simp_all add: set_status_def)

lemma adopt_simps [simp]:
  "acc_id (adopt_account_row target source) = acc_id target"
  "acc_refresh_token (adopt_account_row target source) = acc_refresh_token source"
  by (simp_all add: adopt_account_row_def)

lemma mirror_simps [simp]:
  "acc_id (mirror_tokens w acc) = acc_id acc"
  "acc_refresh_token (mirror_tokens w acc) = tw_refresh_token w"
  by (simp_all add: mirror_tokens_def)

lemma applied_cases: "applied out x y = x \<or> (out \<noteq> Raised \<and> applied out x y = y)"
  by (auto simp: applied_def split: db_outcome.splits)

lemma applied_Committed [simp]: "applied Committed x y = y"
  by (simp add: applied_def)

lemma permanent_status_terminal: "account_status_for_permanent_failure c \<in> set TERMINAL_REFRESH_STATUSES"
  by (simp add: account_status_for_permanent_failure_def TERMINAL_REFRESH_STATUSES_def)

end
