(* ===== verification/Refresh_Steps.thy ===== *)
theory Refresh_Steps
  imports Token_Refresh
begin

text \<open>
  What a step of a token refresh does, in the terms the cluster's invariants are stated in: the claim,
  the token being sent, the token exchanged and not settled, the token to be stored, the row. The steps of
  \<open>Token_Refresh.task_step\<close> refine the moves of \<open>refresh_move\<close>.
\<close>

section \<open>Lemmas on tasks\<close>

lemmas after_defs =
  after_claim_def after_wait_def after_hold_def begin_exchange_def perform_refresh_def after_prepare_def after_answer_def
  start_persist_def after_write_def after_miss_def after_final_write_def after_final_miss_def after_flag_read_def
  after_flag_write_def after_failure_def after_downgrade_def after_downgrade_miss_def after_release_def answered_def

lemmas after_splits =
  option.splits if_splits sum.splits attempt_end.splits

lemma goto_simps [simp]:
  "rt_pc (goto p t) = p" "rt_claimant (goto p t) = rt_claimant t" "rt_account (goto p t) = rt_account t"
  "rt_requested (goto p t) = rt_requested t" "rt_attached (goto p t) = rt_attached t" "own_id (goto p t) = own_id t"
  by (simp_all add: goto_def own_id_def)

lemma leave_simps [simp]:
  "rt_claimant (leave out t) = rt_claimant t" "rt_account (leave out t) = rt_account t"
  "rt_requested (leave out t) = rt_requested t" "own_id (leave out t) = own_id t"
  "rt_pc (leave out t) = (if rt_claimant t = None then Done out else Releasing 0 out)"
  by (simp_all add: leave_def)

lemma leave_with_simps [simp]:
  "rt_claimant (leave_with acc t) = rt_claimant t" "rt_account (leave_with acc t) = acc"
  "rt_requested (leave_with acc t) = rt_requested t" "own_id (leave_with acc t) = acc_id acc"
  "rt_pc (leave_with acc t) = (if rt_claimant t = None then Done (Refreshed acc) else Releasing 0 (Refreshed acc))"
  by (simp_all add: leave_with_def own_id_def)

lemma seen_row_simps [simp]:
  "rt_claimant (seen_row row t) = rt_claimant t" "rt_requested (seen_row row t) = rt_requested t"
  "rt_pc (seen_row row t) = rt_pc t" "rt_caller_deadline (seen_row row t) = rt_caller_deadline t"
  "rt_account (seen_row row t) = (if rt_attached t then row else rt_account t)"
  by (simp_all add: seen_row_def)

lemma own_id_simps [simp]:
  "own_id (t\<lparr>rt_account := acc\<rparr>) = acc_id acc" "own_id (t\<lparr>rt_marked := b\<rparr>) = own_id t"
  "acc_id (rt_account t) = own_id t"
  "own_id (seen_row row t) = (if rt_attached t then acc_id row else own_id t)"
  by (simp_all add: own_id_def seen_row_def)

text \<open>The key of a row is its identifier.\<close>

definition db_ok :: "TokenDb \<Rightarrow> bool" where
  "db_ok db = (\<forall>a row. stored a db = Some row \<longrightarrow> acc_id row = a)"

lemma db_okD: "db_ok db \<Longrightarrow> stored a db = Some row \<Longrightarrow> acc_id row = a"
  by (simp add: db_ok_def)

lemma rotation_token [simp]: "tw_refresh_token (rotation V nonce utcnow acc r ws) = tv_encrypt V (nonce 1) (tr_refresh_token r)"
  by (simp add: rotation_def Let_def)

lemmas view_defs =
  plain_def sending_def resolving_def pending_token_def working_def over_def ends_badly_def

lemma idle_views:
  assumes "\<not> working t"
  shows "sending V t = None" "resolving V t = None" "pending_token V t = None"
  using assms by (simp_all add: view_defs split: refresh_pc.splits)

section \<open>Moves\<close>

text \<open>The token of the task's account object after a step: as before, as stored, or the new one, and
  then the new one is no longer to be stored.\<close>

definition account_follows :: "TokenVault \<Rightarrow> RefreshTask \<Rightarrow> TokenDb \<Rightarrow> RefreshTask \<Rightarrow> bool" where
  "account_follows V t db t' =
     (plain V (rt_account t') = plain V (rt_account t)
      \<or> (\<exists>row. stored (own_id t) db = Some row \<and> plain V (rt_account t') = plain V row)
      \<or> (\<exists>q. pending_token V t = Some q \<and> plain V (rt_account t') = Some q \<and> pending_token V t' = None))"

text \<open>Why a refresh may stop resolving a token without having stored another: it failed, or the token is
  no longer the one stored.\<close>

definition resolved :: "TokenVault \<Rightarrow> string \<Rightarrow> TokenDb \<Rightarrow> RefreshTask \<Rightarrow> bool" where
  "resolved V p db t' =
     (ends_badly t' \<or> (case stored (own_id t') db of None \<Rightarrow> True | Some row \<Rightarrow> plain V row \<noteq> Some p))"

inductive refresh_move ::
  "TokenVault \<Rightarrow> pyfloat \<Rightarrow> RefreshTask \<Rightarrow> TokenDb \<Rightarrow> RefreshTask \<Rightarrow> TokenDb \<Rightarrow> bool" for V ttl where
  claim: "\<not> working t \<Longrightarrow> \<not> over t \<Longrightarrow> rt_claimant t = Some c \<Longrightarrow> me = compose_claimed_by c (rt_requested t) \<Longrightarrow>
    claim_clock db clk \<Longrightarrow> td_accounts db' = td_accounts db \<Longrightarrow> td_clock db' = sc_write clk \<Longrightarrow>
    td_claims db' = td_claims db \<or> td_claims db' = snd (claim_upsert clk ttl (own_id t) me (td_claims db)) \<Longrightarrow>
    (working t' \<Longrightarrow> fst (claim_upsert clk ttl (own_id t) me (td_claims db))
       \<and> td_claims db' = snd (claim_upsert clk ttl (own_id t) me (td_claims db))) \<Longrightarrow>
    sending V t' = None \<Longrightarrow> resolving V t' = None \<Longrightarrow> pending_token V t' = None \<Longrightarrow> refresh_move V ttl t db t' db'"
| wait: "\<not> working t \<Longrightarrow> \<not> over t \<Longrightarrow> \<not> working t' \<Longrightarrow> refresh_move V ttl t db t' db"
| start: "working t \<Longrightarrow> working t' \<Longrightarrow> sending V t = None \<Longrightarrow> resolving V t = None \<Longrightarrow> pending_token V t = None \<Longrightarrow>
    resolving V t' = None \<Longrightarrow> pending_token V t' = None \<Longrightarrow> sending V t' = Some p \<Longrightarrow>
    (case stored (own_id t) db of
       None \<Rightarrow> plain V (rt_account t) = Some p
     | Some row \<Rightarrow> plain V row = Some p \<and> acc_status row \<notin> set TERMINAL_REFRESH_STATUSES) \<Longrightarrow>
    refresh_move V ttl t db t' db"
| proceed: "working t \<Longrightarrow> working t' \<Longrightarrow> sending V t' = sending V t \<or> sending V t' = None \<Longrightarrow>
    resolving V t' = resolving V t \<Longrightarrow> pending_token V t' = pending_token V t \<Longrightarrow> refresh_move V ttl t db t' db"
| spend: "working t \<Longrightarrow> working t' \<Longrightarrow> sending V t = Some p \<Longrightarrow> resolving V t = None \<Longrightarrow> pending_token V t = None \<Longrightarrow>
    resolving V t' = Some p \<Longrightarrow> sending V t' = None \<Longrightarrow> pending_token V t' = Some q \<Longrightarrow> refresh_move V ttl t db t' db"
| store: "working t \<Longrightarrow> \<not> working t' \<Longrightarrow> \<not> over t' \<Longrightarrow> resolving V t = Some p \<Longrightarrow> pending_token V t = Some q \<Longrightarrow>
    stored (own_id t) db = Some row \<Longrightarrow> plain V row = Some p \<Longrightarrow>
    td_accounts db' = AList.update (own_id t) row' (td_accounts db) \<Longrightarrow> plain V row' = Some q \<Longrightarrow> acc_id row' = acc_id row \<Longrightarrow>
    acc_status row' = acc_status row \<Longrightarrow>
    td_claims db' = td_claims db \<Longrightarrow> td_clock db' = td_clock db \<Longrightarrow> refresh_move V ttl t db t' db'"
| block: "working t \<Longrightarrow> \<not> working t' \<Longrightarrow> \<not> over t' \<Longrightarrow> stored (own_id t) db = Some row \<Longrightarrow> blames V t (acc_refresh_token row) \<Longrightarrow>
    td_accounts db' = AList.update (own_id t) row' (td_accounts db) \<Longrightarrow>
    acc_refresh_token row' = acc_refresh_token row \<Longrightarrow> acc_status row' \<in> set TERMINAL_REFRESH_STATUSES \<Longrightarrow>
    acc_id row' = acc_id row \<Longrightarrow> td_claims db' = td_claims db \<Longrightarrow> td_clock db' = td_clock db \<Longrightarrow> refresh_move V ttl t db t' db'"
| stop: "working t \<Longrightarrow> \<not> working t' \<Longrightarrow> \<not> over t' \<Longrightarrow> (\<And>p. resolving V t = Some p \<Longrightarrow> resolved V p db t') \<Longrightarrow>
    refresh_move V ttl t db t' db"
| release: "\<not> working t \<Longrightarrow> \<not> over t \<Longrightarrow> \<not> working t' \<Longrightarrow> rt_claimant t = Some c \<Longrightarrow>
    td_accounts db' = td_accounts db \<Longrightarrow> td_clock db' = td_clock db \<Longrightarrow>
    td_claims db' \<in> {td_claims db, release_claim (own_id t) c (rt_requested t) (td_claims db)} \<Longrightarrow>
    refresh_move V ttl t db t' db'"

section \<open>The steps are moves\<close>

lemma step_claims:
  assumes "rt_pc t = Claiming n" "rt_claimant t = Some me" "claim_clock db clk"
    and "claim_attempt clk fault known ttl (own_id t) me (rt_requested t) n (td_claims db) = (result, tab)"
  shows "refresh_move V ttl t db (after_claim ttl tick n result t) (db\<lparr>td_claims := tab, td_clock := sc_write clk\<rparr>)"
proof (rule refresh_move.claim [OF _ _ assms(2) refl assms(3)])
  show "td_claims (db\<lparr>td_claims := tab, td_clock := sc_write clk\<rparr>) = td_claims db \<or>
    td_claims (db\<lparr>td_claims := tab, td_clock := sc_write clk\<rparr>) =
    snd (claim_upsert clk ttl (own_id t) (compose_claimed_by me (rt_requested t)) (td_claims db))"
    using assms(4) by (auto simp: claim_attempt_def split: prod.splits attempt_fault.splits if_splits)
qed (use assms in \<open>auto simp: claim_attempt_def after_defs view_defs Let_def split: prod.splits attempt_fault.splits if_splits attempt_end.splits\<close>)

lemma step_waits:
  assumes "rt_pc t = Waiting"
  shows "refresh_move V ttl t db (if out = Committed then after_wait V tick (read_row t db) t else goto (Done RefreshBroke) t) db"
  using assms by (intro refresh_move.wait) (auto simp: after_defs view_defs Let_def split: option.splits)

text \<open>An exception leaves the refresh; a row that is adopted is not the one consumed.\<close>

lemma move_raise:
  assumes "working t" "rt_claimant t' \<noteq> None" "\<And>acc. out \<noteq> Refreshed acc"
  shows "refresh_move V ttl t db (leave out t') db"
  using assms by (intro refresh_move.stop) (auto simp: resolved_def view_defs split: refresh_outcome.splits)

lemma move_settle:
  assumes "working t" "rt_claimant t' \<noteq> None" "acc_id acc = own_id t"
    and "\<And>p row. resolving V t = Some p \<Longrightarrow> stored (own_id t) db = Some row \<Longrightarrow> plain V row \<noteq> Some p"
  shows "refresh_move V ttl t db (leave_with acc t') db"
  using assms by (intro refresh_move.stop) (auto simp: resolved_def view_defs split: option.splits)

lemma move_answered:
  assumes "working t" "rt_claimant t \<noteq> None" "refresh_move V ttl t db next db"
  shows "refresh_move V ttl t db (answered out next t) db"
  using assms move_raise [of t t RefreshBroke] by (simp add: answered_def)

lemma move_perform:
  assumes "rt_pc t = Holding pd" "rt_claimant t \<noteq> None" "rt_claimant t' = rt_claimant t"
    and "case stored (own_id t) db of
       None \<Rightarrow> acc_refresh_token (rt_account t) = material
     | Some row \<Rightarrow> acc_refresh_token row = material \<and> acc_status row \<notin> set TERMINAL_REFRESH_STATUSES"
  shows "refresh_move V ttl t db (perform_refresh V material budget dl t') db"
proof (cases "tv_decrypt V material")
  case None
  then show ?thesis using assms by (auto simp: perform_refresh_def view_defs intro!: move_raise)
next
  case (Some p)
  have "refresh_move V ttl t db (goto (Preparing material budget dl) t') db"
    by (rule refresh_move.start [of _ _ _ p]) (use assms Some in \<open>auto simp: view_defs split: option.splits\<close>)
  then show ?thesis using Some by (simp add: perform_refresh_def)
qed

lemma step_holds:
  assumes "rt_pc t = Holding pd" "task_ok V t" "db_ok db"
  shows "refresh_move V ttl t db (after_hold V tick pd (read_row t db) t) db"
proof -
  have c: "rt_claimant t \<noteq> None" "working t" "resolving V t = None"
    using assms by (auto simp: task_ok_def view_defs)
  have ex: "refresh_move V ttl t db (begin_exchange V tick pd material t') db"
    if "rt_claimant t' = rt_claimant t" and "case stored (own_id t) db of
       None \<Rightarrow> acc_refresh_token (rt_account t) = material
     | Some row \<Rightarrow> acc_refresh_token row = material \<and> acc_status row \<notin> set TERMINAL_REFRESH_STATUSES" for material t'
    using that c move_perform [OF assms(1)] by (auto simp: begin_exchange_def split: option.splits intro!: move_raise)
  show ?thesis
  proof (cases "stored (own_id t) db")
    case None
    then show ?thesis by (simp add: after_hold_def ex)
  next
    case (Some row)
    then have "acc_id row = own_id t" using assms(3) by (rule db_okD [rotated])
    then show ?thesis
      using Some c by (auto simp: after_hold_def Let_def intro!: ex move_settle move_raise)
  qed
qed

lemma step_prepares:
  assumes "rt_pc t = Preparing material budget dl" "task_ok V t"
  shows "refresh_move V ttl t db (after_prepare budget ticks adm rt material dl t) db"
proof (cases "refresh_tokens budget ticks adm rt")
  case None
  show ?thesis
    unfolding after_prepare_def None option.case
    by (rule refresh_move.proceed) (use assms in \<open>auto simp: view_defs\<close>)
next
  case (Some out)
  then have "out \<noteq> Refreshed acc" for acc
    by (auto simp: refresh_tokens_def Let_def split: admission.splits route.splits option.splits if_splits)
  then show ?thesis
    using assms Some by (auto simp: after_prepare_def task_ok_def view_defs intro!: move_raise)
qed

lemma step_hears:
  assumes "rt_pc t = Exchanging material dl" "task_ok V t" "vault_laws V"
  shows "refresh_move V ttl t db (after_answer V decode nonce utcnow ex material dl t) db"
proof -
  obtain p where p: "tv_decrypt V material = Some p" "rt_claimant t \<noteq> None" "working t" "sending V t = Some p"
    "resolving V t = None" "pending_token V t = None"
    using assms by (auto simp: task_ok_def view_defs)
  show ?thesis
  proof (cases "refresh_access_token decode ex")
    case (Inl e)
    have "refresh_move V ttl t db (goto (Failing e (fingerprint V material) dl) t) db"
      by (rule refresh_move.proceed) (use p in \<open>simp_all add: view_defs\<close>)
    then show ?thesis using Inl p by (auto simp: after_answer_def intro!: move_raise)
  next
    case (Inr r)
    have "refresh_move V ttl t db (goto (Slotting material r dl) t) db"
      by (rule refresh_move.spend [of _ _ _ p "tr_refresh_token r"]) (use p in \<open>simp_all add: view_defs\<close>)
    moreover have "refresh_move V ttl t db (start_persist V nonce utcnow material r b dl t) db" for b
      by (rule refresh_move.spend [of _ _ _ p "tr_refresh_token r"])
        (use p assms(3) in \<open>simp_all add: start_persist_def view_defs vault_laws_def Let_def\<close>)
    ultimately show ?thesis using Inr by (simp add: after_answer_def split: option.splits)
  qed
qed

lemma step_slots:
  assumes "rt_pc t = Slotting material r dl" "task_ok V t" "vault_laws V"
  shows "refresh_move V ttl t db (start_persist V nonce utcnow material r b dl t) db"
  by (rule refresh_move.proceed)
    (use assms in \<open>simp_all add: start_persist_def view_defs vault_laws_def Let_def\<close>)


text \<open>A token write: when it is applied the row held the consumed token and holds the new one; when its
  answer is an exception the refresh ends all the same.\<close>

lemma step_writes:
  assumes "working t" "rt_claimant t \<noteq> None" "resolving V t = Some p" "pending_token V t = Some q"
    and "tv_decrypt V expected = Some p" "tv_decrypt V (tw_refresh_token w) = Some q"
    and "rotate_tokens (own_id t) w expected db = (landed, db1)"
    and "landed \<Longrightarrow> \<not> working next \<and> \<not> over next" "\<not> landed \<Longrightarrow> refresh_move V ttl t db next db"
  shows "refresh_move V ttl t db (answered out next t) (applied out db db1)"
  using assms(7)
proof (cases rule: rotate_tokens_cases)
  case missed
  then have "applied out db db1 = db" by (simp add: applied_def split: db_outcome.splits)
  with missed show ?thesis using assms by (simp add: move_answered)
next
  case (wrote row)
  have end_of: "\<not> working (answered out next t) \<and> \<not> over (answered out next t)"
    using assms(2,8) wrote(1) by (auto simp: answered_def view_defs)
  have "refresh_move V ttl t db (answered out next t) db1"
    by (rule refresh_move.store [of _ _ _ p q _ row _ "write_tokens w row"])
      (use assms end_of wrote in \<open>simp_all add: plain_def write_tokens_def\<close>)
  moreover have "refresh_move V ttl t db (answered out next t) db" if "out \<noteq> Committed"
    using that assms(1,2) move_raise [of t t RefreshBroke] by (simp add: answered_def)
  ultimately show ?thesis using applied_cases [of out db db1] by (cases "out = Committed") auto
qed

lemma step_blocks:
  assumes "working t" "rt_claimant t \<noteq> None" "s \<in> set TERMINAL_REFRESH_STATUSES" "blames V t (acc_refresh_token row)"
    and "status_if_current utcnow (own_id t) s reason row db = (landed, db1)"
    and "landed \<Longrightarrow> \<not> working next \<and> \<not> over next" "\<not> landed \<Longrightarrow> refresh_move V ttl t db next db"
  shows "refresh_move V ttl t db (answered out next t) (applied out db db1)"
  using assms(5)
proof (cases rule: status_if_current_cases)
  case missed
  then have "applied out db db1 = db" by (simp add: applied_def split: db_outcome.splits)
  with missed show ?thesis using assms by (simp add: move_answered)
next
  case (wrote cur)
  have end_of: "\<not> working (answered out next t) \<and> \<not> over (answered out next t)"
    using assms(2,6) wrote(1) by (auto simp: answered_def view_defs)
  have "refresh_move V ttl t db (answered out next t) db1"
    by (rule refresh_move.block [where row = cur and row' = "set_status s reason cur\<lparr>acc_reset_at := None\<rparr>"])
      (use assms end_of wrote in simp_all)
  moreover have "refresh_move V ttl t db (answered out next t) db" if "out \<noteq> Committed"
    using that assms(1,2) move_raise [of t t RefreshBroke] by (simp add: answered_def)
  ultimately show ?thesis using applied_cases [of out db db1] by (cases "out = Committed") auto
qed

text \<open>A task that looks at the row again: it goes on, adopts the row, or finds no row.\<close>

lemma move_resolving:
  assumes "working t" "working t'" "sending V t' = None" "resolving V t' = resolving V t" "pending_token V t' = pending_token V t"
  shows "refresh_move V ttl t db t' db"
  using assms by (intro refresh_move.proceed) simp_all

lemma move_adopt:
  assumes "working t" "rt_claimant t \<noteq> None" "db_ok db" "stored (own_id t) db = Some row"
    and "\<And>p. resolving V t = Some p \<Longrightarrow> plain V row \<noteq> Some p"
  shows "refresh_move V ttl t db (leave_with (adopt_account_row (rt_account (seen_row row t)) row) (seen_row row t)) db"
  using assms db_okD [OF assms(3,4)] by (intro move_settle) auto

lemma move_gone:
  assumes "working t" "rt_claimant t \<noteq> None" "stored (own_id t) db = None" "acc_id acc = own_id t"
  shows "refresh_move V ttl t db (leave_with acc t) db"
  using assms by (intro move_settle) auto

lemma step_misses:
  assumes "rt_pc t = Missed n w consumed dl" "task_ok V t" "db_ok db"
  shows "refresh_move V ttl t db (after_miss V tick n w consumed dl (read_row t db) t) db"
proof -
  have c: "working t" "rt_claimant t \<noteq> None" "resolving V t = consumed" using assms by (auto simp: task_ok_def view_defs)
  have "refresh_move V ttl t db (leave (RefreshFailed e) (seen_row row t)) db"
    "refresh_move V ttl t db (goto (FinalWrite 0 w consumed x) (seen_row row t)) db"
    "refresh_move V ttl t db (goto (Persisting m w consumed x dl) (seen_row row t)) db" for e row x m
    using assms(1) c(1,2) by (auto intro!: move_resolving move_raise simp: view_defs)
  then show ?thesis
    using c(3)
    by (auto simp: after_miss_def Let_def plain_def simp del: seen_row_simps(5) split: option.splits
        intro!: move_adopt [OF c(1,2) assms(3)] move_gone [OF c(1,2)])
qed

lemma step_misses_final:
  assumes "rt_pc t = FinalMissed n w consumed expected" "task_ok V t" "db_ok db"
  shows "refresh_move V ttl t db (after_final_miss V n w consumed (read_row t db) t) db"
proof -
  have c: "working t" "rt_claimant t \<noteq> None" "resolving V t = consumed" using assms by (auto simp: task_ok_def view_defs)
  have "refresh_move V ttl t db (goto (Flagging 0 w consumed) (seen_row row t)) db"
    "refresh_move V ttl t db (goto (FinalWrite m w consumed x) (seen_row row t)) db" for row x m
    using assms(1) by (auto intro!: move_resolving simp: view_defs)
  then show ?thesis
    using c(3)
    by (auto simp: after_final_miss_def Let_def plain_def is_genuine_peer_rotation_def simp del: seen_row_simps(5) split: option.splits
        intro!: move_adopt [OF c(1,2) assms(3)] move_gone [OF c(1,2)])
qed

lemma step_reads_flag:
  assumes "rt_pc t = Flagging n w consumed" "task_ok V t" "db_ok db"
  shows "refresh_move V ttl t db (after_flag_read V n w consumed (read_row t db) t) db"
proof -
  have c: "working t" "rt_claimant t \<noteq> None" "resolving V t = consumed" using assms by (auto simp: task_ok_def view_defs)
  have "refresh_move V ttl t db (goto (FlagWrite n w consumed row) (seen_row row t)) db" for row
    using assms(1) by (auto intro!: move_resolving simp: view_defs)
  then show ?thesis
    using c(3)
    by (auto simp: after_flag_read_def Let_def plain_def is_genuine_peer_rotation_def simp del: seen_row_simps(5) split: option.splits
        intro!: move_adopt [OF c(1,2) assms(3)] move_gone [OF c(1,2)])
qed

lemma step_fails:
  assumes "rt_pc t = Failing e fp dl" "task_ok V t" "db_ok db"
  shows "refresh_move V ttl t db (after_failure V e fp dl (read_row t db) t) db"
proof -
  have c: "working t" "rt_claimant t \<noteq> None" "resolving V t = None" using assms by (auto simp: task_ok_def view_defs)
  have "refresh_move V ttl t db (goto (Downgrading m e fp row dl) (seen_row row t)) db"
    "refresh_move V ttl t db (leave (RefreshFailed e) t) db" for row m
    using assms(1) c(1,2) by (auto intro!: move_resolving move_raise simp: view_defs)
  then show ?thesis
    using c(3)
    by (auto simp: after_failure_def Let_def simp del: seen_row_simps(5) split: option.splits intro!: move_adopt [OF c(1,2) assms(3)])
qed

lemma step_misses_downgrade:
  assumes "rt_pc t = DowngradeMissed n e fp dl" "task_ok V t" "db_ok db"
  shows "refresh_move V ttl t db (after_downgrade_miss V tick n e fp dl (read_row t db) t) db"
proof -
  have c: "working t" "rt_claimant t \<noteq> None" "resolving V t = None" using assms by (auto simp: task_ok_def view_defs)
  have "refresh_move V ttl t db (goto (Downgrading m e fp row dl) (seen_row row t)) db"
    "refresh_move V ttl t db (leave (RefreshFailed x) (seen_row row t)) db"
    "refresh_move V ttl t db (leave (RefreshFailed x) t) db" for row m x
    using assms(1) c(1,2) by (auto intro!: move_resolving move_raise simp: view_defs)
  then show ?thesis
    using c(3)
    by (auto simp: after_downgrade_miss_def Let_def simp del: seen_row_simps(5) split: option.splits intro!: move_adopt [OF c(1,2) assms(3)])
qed


lemma step_releases:
  assumes "rt_pc t = Releasing n out" "rt_claimant t = Some c"
  shows "refresh_move V ttl t db (after_release raised n out t)
    (db\<lparr>td_claims := applied db_out (td_claims db) (release_claim (own_id t) c (rt_requested t) (td_claims db))\<rparr>)"
  by (rule refresh_move.release [OF _ _ _ assms(2)])
    (use assms in \<open>auto simp: after_release_def view_defs applied_def split: db_outcome.splits\<close>)

lemma task_step_refines:
  assumes "task_step V decode ttl t db t' db'" "task_ok V t" "db_ok db" "vault_laws V"
  shows "refresh_move V ttl t db t' db'"
proof -
  have c: "rt_claimant t \<noteq> None" using assms(2) by (simp add: task_ok_def)
  note answered = move_answered [OF _ c]
  from assms(1) show ?thesis
  proof (cases rule: task_step.cases)
    case (claims n me clk fault result tab tick)
    then show ?thesis using step_claims by blast
  next
    case (waits out tick)
    then show ?thesis using step_waits by blast
  next
    case (holds pd out tick)
    then show ?thesis using step_holds [OF _ assms(2,3)] answered by (simp add: view_defs)
  next
    case (prepares material budget dl ticks adm route)
    then show ?thesis using step_prepares assms(2) by blast
  next
    case (hears material dl nonce utcnow ex)
    then show ?thesis using step_hears assms(2,4) by blast
  next
    case (slots material r dl w taken out nonce utcnow)
    then show ?thesis using step_slots [OF _ assms(2,4)] answered by (simp add: view_defs)
  next
    case (writes n w consumed expected dl landed db1 out)
    then obtain p q where "working t" "resolving V t = Some p" "pending_token V t = Some q" "tv_decrypt V expected = Some p"
      "tv_decrypt V (tw_refresh_token w) = Some q"
      using assms(2) by (auto simp: task_ok_def view_defs)
    moreover have "refresh_move V ttl t db (goto (Missed n w consumed dl) t) db"
      using writes(3) by (auto intro!: move_resolving simp: view_defs)
    ultimately show ?thesis
      unfolding writes(1,2) using writes(4) c by (intro step_writes) (auto simp: after_write_def view_defs)
  next
    case (misses n w consumed dl out tick)
    then show ?thesis using step_misses [OF _ assms(2,3)] answered by (simp add: view_defs)
  next
    case (writes_final n w consumed expected landed db1 out)
    then obtain p q where "working t" "resolving V t = Some p" "pending_token V t = Some q" "tv_decrypt V expected = Some p"
      "tv_decrypt V (tw_refresh_token w) = Some q"
      using assms(2) by (auto simp: task_ok_def view_defs)
    moreover have "refresh_move V ttl t db (goto (FinalMissed n w consumed expected) t) db"
      using writes_final(3) by (auto intro!: move_resolving simp: view_defs)
    ultimately show ?thesis
      unfolding writes_final(1,2) using writes_final(4) c
      by (intro step_writes) (auto simp: after_final_write_def view_defs)
  next
    case (misses_final n w consumed expected out)
    then show ?thesis using step_misses_final [OF _ assms(2,3)] answered by (simp add: view_defs)
  next
    case (reads_flag n w consumed out)
    then show ?thesis using step_reads_flag [OF _ assms(2,3)] answered by (simp add: view_defs)
  next
    case (writes_flag n w consumed row utcnow landed db1 out)
    have "refresh_move V ttl t db (goto (Flagging m w consumed) t) db"
      "refresh_move V ttl t db (leave (RefreshFailed e) t) db" for m e
      using writes_flag(3) c by (auto intro!: move_resolving move_raise simp: view_defs)
    then have "refresh_move V ttl t db (after_flag_write landed n w consumed t) db" if "\<not> landed"
      using that by (simp add: after_flag_write_def)
    moreover have "blames V t (acc_refresh_token row)"
      using writes_flag(3) assms(2) by (auto simp: task_ok_def blames_def view_defs)
    ultimately show ?thesis
      unfolding writes_flag(1,2)
      by (intro step_blocks [OF _ c _ _ writes_flag(4)])
        (use writes_flag(3) c in \<open>auto simp: after_flag_write_def view_defs TERMINAL_REFRESH_STATUSES_def\<close>)
  next
    case (fails e fp dl out)
    then show ?thesis using step_fails [OF _ assms(2,3)] answered by (simp add: view_defs)
  next
    case (downgrades n e fp row dl utcnow landed db1 out)
    have "refresh_move V ttl t db (goto (DowngradeMissed n e fp dl) t) db"
      using downgrades(3) by (auto intro!: move_resolving simp: view_defs)
    moreover have "blames V t (acc_refresh_token row)"
      using downgrades(3) assms(2) by (simp add: task_ok_def blames_def view_defs)
    ultimately show ?thesis
      unfolding downgrades(1,2)
      by (intro step_blocks [OF _ c permanent_status_terminal _ downgrades(4)])
        (use downgrades(3) c in \<open>auto simp: after_downgrade_def view_defs\<close>)
  next
    case (misses_downgrade n e fp dl out tick)
    then show ?thesis using step_misses_downgrade [OF _ assms(2,3)] answered by (simp add: view_defs)
  next
    case (releases n out me db_out)
    then show ?thesis using step_releases by blast
  qed
qed


section \<open>What a step keeps\<close>

lemma task_identity:
  assumes "task_step V decode ttl t db t' db'"
  shows "rt_claimant t' = rt_claimant t" "rt_requested t' = rt_requested t"
  using assms by (cases rule: task_step.cases; auto simp: after_defs Let_def split: after_splits)+

lemma task_account:
  assumes "task_step V decode ttl t db t' db'" "db_ok db"
  shows "own_id t' = own_id t"
proof -
  have "acc_id row = own_id t" if "stored (own_id t) db = Some row" for row using db_okD [OF assms(2) that] .
  with assms(1) show ?thesis
    by (cases rule: task_step.cases) (auto simp: after_defs Let_def split: after_splits)
qed

lemma task_ok_leave [simp]:
  "task_ok V (leave out t) \<longleftrightarrow> rt_claimant t \<noteq> None"
  "task_ok V (leave_with acc t) \<longleftrightarrow> rt_claimant t \<noteq> None"
  by (auto simp: task_ok_def)

lemma task_ok_perform:
  assumes "rt_claimant t \<noteq> None" "fingerprint V material = rt_requested t"
  shows "task_ok V (perform_refresh V material budget dl t)"
  using assms by (cases "tv_decrypt V material") (simp_all add: perform_refresh_def task_ok_def)

lemma task_ok_hold:
  assumes "rt_claimant t \<noteq> None" "fingerprint V (acc_refresh_token (rt_account t)) = rt_requested t"
  shows "task_ok V (after_hold V tick pd latest t)"
  using assms
  by (simp add: after_hold_def begin_exchange_def Let_def task_ok_perform del: seen_row_simps(5) split: option.splits)

lemma task_ok_step:
  assumes "task_step V decode ttl t db t' db'" "task_ok V t" "vault_laws V"
  shows "task_ok V t'"
proof -
  have enc: "tv_decrypt V (tv_encrypt V n p) = Some p" for n p using assms(3) by (simp add: vault_laws_def)
  have c: "rt_claimant t \<noteq> None" using assms(2) by (simp add: task_ok_def)
  from assms(1) show ?thesis
  proof (cases rule: task_step.cases)
    case (holds pd out tick)
    have "fingerprint V (acc_refresh_token (rt_account t)) = rt_requested t"
      using holds(3) assms(2) by (simp add: task_ok_def)
    then show ?thesis using holds c by (simp add: answered_def task_ok_hold)
  next
    case hears
    then show ?thesis using assms(2) c enc
      by (simp add: after_answer_def start_persist_def split: sum.splits option.splits) (simp_all add: task_ok_def)
  next
    case misses
    then show ?thesis using assms(2) c
      by (simp add: after_miss_def answered_def Let_def split: option.splits) (simp_all add: task_ok_def)
  qed (use assms(2) enc in \<open>auto simp: after_defs Let_def task_ok_def plain_def is_genuine_peer_rotation_def split: after_splits\<close>)
qed

lemma account_follows_step:
  assumes "task_step V decode ttl t db t' db'" "task_ok V t"
  shows "account_follows V t db t'"
  using assms(1)
  by (cases rule: task_step.cases)
    (insert assms(2), auto simp: after_defs Let_def task_ok_def account_follows_def view_defs split: after_splits)

lemma db_ok_move:
  assumes "refresh_move V ttl t db t' db'" "db_ok db"
  shows "db_ok db'"
  using assms by (induction rule: refresh_move.induct) (auto simp: db_ok_def update_conv)


section \<open>The end of a refresh\<close>

text \<open>The attempts a task has behind it are below their bounds, and it asks for a workspace slot only when there is
  one to ask for.\<close>

definition attempts_ok :: "RefreshTask \<Rightarrow> bool" where
  "attempts_ok t =
     (case rt_pc t of
        Persisting n w consumed expected dl \<Rightarrow> n < TOKEN_CAS_MAX_ATTEMPTS
      | Missed n w consumed dl \<Rightarrow> n < TOKEN_CAS_MAX_ATTEMPTS
      | FinalWrite n w consumed expected \<Rightarrow> n < FINAL_PERSIST_MAX_ATTEMPTS
      | FinalMissed n w consumed expected \<Rightarrow> n < FINAL_PERSIST_MAX_ATTEMPTS
      | Flagging n w consumed \<Rightarrow> n < FINAL_PERSIST_MAX_ATTEMPTS
      | FlagWrite n w consumed row \<Rightarrow> n < FINAL_PERSIST_MAX_ATTEMPTS
      | Downgrading n e fp row dl \<Rightarrow> n < TOKEN_CAS_MAX_ATTEMPTS
      | DowngradeMissed n e fp dl \<Rightarrow> n < TOKEN_CAS_MAX_ATTEMPTS
      | Releasing n out \<Rightarrow> n < CLAIM_RELEASE_MAX_ATTEMPTS
      | Slotting material r dl \<Rightarrow> asks_for_slot (rt_account t) r \<noteq> None
      | _ \<Rightarrow> True)"

text \<open>A bound on the steps a task still takes once it has won the claim.\<close>

definition steps_left :: "RefreshTask \<Rightarrow> nat" where
  "steps_left t =
     (case rt_pc t of
        Done out \<Rightarrow> 0
      | Releasing n out \<Rightarrow> 3 - n
      | FlagWrite n w consumed row \<Rightarrow> 3 + 2 * (3 - n)
      | Flagging n w consumed \<Rightarrow> 4 + 2 * (3 - n)
      | FinalMissed n w consumed expected \<Rightarrow> 9 + 2 * (3 - n)
      | FinalWrite n w consumed expected \<Rightarrow> 10 + 2 * (3 - n)
      | Missed n w consumed dl \<Rightarrow> 15 + 2 * (5 - n)
      | Persisting n w consumed expected dl \<Rightarrow> 16 + 2 * (5 - n)
      | Slotting material r dl \<Rightarrow> 27
      | DowngradeMissed n e fp dl \<Rightarrow> 3 + 2 * (5 - n)
      | Downgrading n e fp row dl \<Rightarrow> 4 + 2 * (5 - n)
      | Failing e fp dl \<Rightarrow> 15
      | Exchanging material dl \<Rightarrow> 28
      | Preparing material budget dl \<Rightarrow> 29
      | _ \<Rightarrow> 30)"

lemmas end_defs =
  attempts_ok_def steps_left_def TOKEN_CAS_MAX_ATTEMPTS_def FINAL_PERSIST_MAX_ATTEMPTS_def CLAIM_RELEASE_MAX_ATTEMPTS_def

definition claiming :: "RefreshTask \<Rightarrow> bool" where
  "claiming t = (case rt_pc t of Claiming n \<Rightarrow> True | Waiting \<Rightarrow> True | _ \<Rightarrow> False)"

lemma leave_ends [simp]:
  "attempts_ok (leave out t)" "attempts_ok (leave_with acc t)" "steps_left (leave out t) \<le> 3" "steps_left (leave_with acc t) \<le> 3"
  "\<not> claiming (leave out t)" "\<not> claiming (leave_with acc t)"
  by (simp_all add: end_defs claiming_def)

definition nearer :: "nat \<Rightarrow> RefreshTask \<Rightarrow> bool" where
  "nearer k t = (attempts_ok t \<and> \<not> claiming t \<and> steps_left t < k)"

lemma nearer_leave:
  "3 < k \<Longrightarrow> nearer k (leave out t)" "3 < k \<Longrightarrow> nearer k (leave_with acc t)"
  using leave_ends(3) [of out t] leave_ends(4) [of acc t] unfolding nearer_def by (simp_all del: leave_ends(3,4))

lemma nearer_answered:
  "3 < k \<Longrightarrow> nearer k next \<Longrightarrow> nearer k (answered out next t)"
  by (simp add: answered_def nearer_leave)

lemma nearer_perform: "nearer 30 (perform_refresh V material budget dl t)"
  by (simp add: perform_refresh_def nearer_leave split: option.splits) (simp add: nearer_def end_defs claiming_def)

lemmas nearer_defs = nearer_def end_defs claiming_def

lemma step_nearer:
  assumes "task_step V decode ttl t db t' db'" "attempts_ok t" "\<not> claiming t"
  shows "nearer (steps_left t) t'"
  using assms(1)
proof (cases rule: task_step.cases)
  case (holds pd out tick)
  have "nearer 30 (after_hold V tick pd (read_row t db) t)"
    by (simp add: after_hold_def begin_exchange_def Let_def nearer_leave nearer_perform split: option.splits)
  then show ?thesis using holds by (simp add: nearer_answered steps_left_def)
next
  case (prepares material budget dl ticks adm route)
  then show ?thesis
    by (simp add: after_prepare_def steps_left_def nearer_leave split: option.splits) (simp add: nearer_defs)
next
  case (hears material dl nonce utcnow ex)
  then show ?thesis
    by (simp add: after_answer_def start_persist_def steps_left_def nearer_leave split: sum.splits option.splits)
      (simp_all add: nearer_defs)
next
  case (slots material r dl w taken out nonce utcnow)
  have "nearer 27 (start_persist V nonce utcnow material r taken dl t)" by (simp add: start_persist_def nearer_defs)
  then show ?thesis using slots by (simp add: nearer_answered steps_left_def)
next
  case (writes n w consumed expected dl landed db1 out)
  then have "nearer (steps_left t) (after_write landed n w consumed dl t)"
    using assms(2) by (simp add: after_write_def nearer_leave steps_left_def) (simp add: nearer_defs)
  then show ?thesis using writes by (simp add: nearer_answered steps_left_def)
next
  case (misses n w consumed dl out tick)
  then have "nearer (steps_left t) (after_miss V tick n w consumed dl (read_row t db) t)"
    using assms(2) by (simp add: after_miss_def Let_def nearer_leave steps_left_def split: option.splits) (auto simp: nearer_defs)
  then show ?thesis using misses by (simp add: nearer_answered steps_left_def)
next
  case (writes_final n w consumed expected landed db1 out)
  then have "nearer (steps_left t) (after_final_write landed n w consumed expected t)"
    using assms(2) by (simp add: after_final_write_def nearer_leave steps_left_def) (simp add: nearer_defs)
  then show ?thesis using writes_final by (simp add: nearer_answered steps_left_def)
next
  case (misses_final n w consumed expected out)
  then have "nearer (steps_left t) (after_final_miss V n w consumed (read_row t db) t)"
    using assms(2) by (simp add: after_final_miss_def Let_def nearer_leave steps_left_def split: option.splits) (auto simp: nearer_defs)
  then show ?thesis using misses_final by (simp add: nearer_answered steps_left_def)
next
  case (reads_flag n w consumed out)
  then have "nearer (steps_left t) (after_flag_read V n w consumed (read_row t db) t)"
    using assms(2) by (simp add: after_flag_read_def Let_def nearer_leave steps_left_def split: option.splits) (auto simp: nearer_defs)
  then show ?thesis using reads_flag by (simp add: nearer_answered steps_left_def)
next
  case (writes_flag n w consumed row utcnow landed db1 out)
  then have "nearer (steps_left t) (after_flag_write landed n w consumed t)"
    using assms(2) by (simp add: after_flag_write_def nearer_leave steps_left_def) (auto simp: nearer_defs)
  then show ?thesis using writes_flag assms(2) by (simp add: nearer_answered end_defs)
next
  case (fails e fp dl out)
  then have "nearer (steps_left t) (after_failure V e fp dl (read_row t db) t)"
    by (simp add: after_failure_def Let_def nearer_leave steps_left_def split: option.splits) (auto simp: nearer_defs)
  then show ?thesis using fails by (simp add: nearer_answered steps_left_def)
next
  case (downgrades n e fp row dl utcnow landed db1 out)
  then have "nearer (steps_left t) (after_downgrade landed n e fp dl t)"
    using assms(2) by (simp add: after_downgrade_def nearer_leave steps_left_def) (simp add: nearer_defs)
  then show ?thesis using downgrades by (simp add: nearer_answered steps_left_def)
next
  case (misses_downgrade n e fp dl out tick)
  then have "nearer (steps_left t) (after_downgrade_miss V tick n e fp dl (read_row t db) t)"
    using assms(2) by (simp add: after_downgrade_miss_def Let_def nearer_leave steps_left_def split: option.splits) (auto simp: nearer_defs)
  then show ?thesis using misses_downgrade assms(2) by (simp add: nearer_answered end_defs)
next
  case (releases n out me db_out)
  then show ?thesis using assms(2) by (auto simp: after_release_def nearer_defs)
qed (use assms(3) in \<open>simp_all add: claiming_def\<close>)


text \<open>A task with a claimant ends with a release of its claim.\<close>

lemma leave_running [simp]:
  "rt_claimant t \<noteq> None \<Longrightarrow> \<not> over (leave out t)" "rt_claimant t \<noteq> None \<Longrightarrow> \<not> over (leave_with acc t)"
  by (simp_all add: over_def)

lemma step_over:
  assumes "task_step V decode ttl t db t' db'" "\<not> claiming t" "rt_claimant t = Some me" "over t'"
  shows "\<exists>n out db_out. rt_pc t = Releasing n out \<and> (db_out = Committed \<or> CLAIM_RELEASE_MAX_ATTEMPTS \<le> n + 1) \<and>
    td_claims db' = applied db_out (td_claims db) (release_claim (own_id t) me (rt_requested t) (td_claims db))"
  using assms(1)
proof (cases rule: task_step.cases)
  case (releases n out me' db_out)
  then show ?thesis using assms(3,4)
    by (intro exI [of _ n] exI [of _ out] exI [of _ db_out]) (auto simp: after_release_def over_def split: if_splits)
qed (use assms(2-4) in \<open>auto simp: after_defs claiming_def over_def Let_def split: after_splits\<close>)

text \<open>A task with a claimant that is not over can go on.\<close>

definition task_runs :: "TokenVault \<Rightarrow> (string \<Rightarrow> json option) \<Rightarrow> pyfloat \<Rightarrow> RefreshTask \<Rightarrow> RefreshTask \<Rightarrow> bool" where
  "task_runs V decode ttl t t' = (\<exists>db db'. task_step V decode ttl t db t' db')"

lemma task_runsI: "task_step V decode ttl t db t' db' \<Longrightarrow> task_runs V decode ttl t t'"
  by (auto simp: task_runs_def)

lemma task_progress:
  assumes "attempts_ok t" "\<not> claiming t" "\<not> over t" "rt_claimant t \<noteq> None"
  shows "\<exists>t'. task_runs V decode ttl t t'"
proof -
  fix db :: TokenDb
  obtain me where me: "rt_claimant t = Some me" using assms(4) by auto
  show ?thesis
  proof (cases "rt_pc t")
    case (Slotting material r dl)
    then obtain w where "asks_for_slot (rt_account t) r = Some w" using assms(1) by (auto simp: attempts_ok_def)
    from task_step.slots [OF Slotting this refl] show ?thesis by (blast intro: task_runsI)
  next
    case (Persisting n w consumed expected dl)
    obtain landed db1 where "rotate_tokens (own_id t) w expected db = (landed, db1)" by (rule prod.exhaust)
    from task_step.writes [OF Persisting this] show ?thesis by (blast intro: task_runsI)
  next
    case (FinalWrite n w consumed expected)
    obtain landed db1 where "rotate_tokens (own_id t) w expected db = (landed, db1)" by (rule prod.exhaust)
    from task_step.writes_final [OF FinalWrite this] show ?thesis by (blast intro: task_runsI)
  next
    case (FlagWrite n w consumed row)
    obtain landed db1 where "status_if_current 0 (own_id t) REAUTH_REQUIRED PERSIST_CONFLICT_REASON row db = (landed, db1)"
      by (rule prod.exhaust)
    from task_step.writes_flag [OF FlagWrite this] show ?thesis by (blast intro: task_runsI)
  next
    case (Downgrading n e fp row dl)
    obtain landed db1 where "status_if_current 0 (own_id t) (account_status_for_permanent_failure (re_code e)) (failure_reason e) row db
      = (landed, db1)" by (rule prod.exhaust)
    from task_step.downgrades [OF Downgrading this] show ?thesis by (blast intro: task_runsI)
  next
    case (Releasing n out)
    from task_step.releases [OF Releasing me] show ?thesis by (blast intro: task_runsI)
  next
    case (Holding pd)
    from task_step.holds [OF this] show ?thesis by (blast intro: task_runsI)
  next
    case (Preparing material budget dl)
    from task_step.prepares [OF this] show ?thesis by (blast intro: task_runsI)
  next
    case (Exchanging material dl)
    from task_step.hears [OF this] show ?thesis by (blast intro: task_runsI)
  next
    case (Missed n w consumed dl)
    from task_step.misses [OF this] show ?thesis by (blast intro: task_runsI)
  next
    case (FinalMissed n w consumed expected)
    from task_step.misses_final [OF this] show ?thesis by (blast intro: task_runsI)
  next
    case (Flagging n w consumed)
    from task_step.reads_flag [OF this] show ?thesis by (blast intro: task_runsI)
  next
    case (Failing e fp dl)
    from task_step.fails [OF this] show ?thesis by (blast intro: task_runsI)
  next
    case (DowngradeMissed n e fp dl)
    from task_step.misses_downgrade [OF this] show ?thesis by (blast intro: task_runsI)
  qed (use assms(2,3) in \<open>simp_all add: claiming_def over_def\<close>)
qed

lemma task_chain:
  assumes "(task_runs V decode ttl ^^ k) t u" "attempts_ok t" "\<not> claiming t" "rt_claimant t \<noteq> None"
  shows "attempts_ok u \<and> \<not> claiming u \<and> rt_claimant u \<noteq> None \<and> k + steps_left u \<le> steps_left t"
  using assms
proof (induction k arbitrary: u)
  case (Suc k)
  then obtain v where v: "(task_runs V decode ttl ^^ k) t v" "task_runs V decode ttl v u" by auto
  note ih = Suc.IH [OF v(1) Suc.prems(2-4)]
  obtain db db' where step: "task_step V decode ttl v db u db'" using v(2) by (auto simp: task_runs_def)
  have "nearer (steps_left v) u" using step_nearer [OF step] ih by blast
  then show ?case using ih task_identity(1) [OF step] by (auto simp: nearer_def)
qed simp

end
