(* ===== verification/Refresh_System.thy ===== *)
theory Refresh_System
  imports Refresh_Steps
begin

text \<open>
  Token refreshes of several processes on one database. The first part is \<open>_RefreshSingleflight\<close>,
  \<open>ensure_fresh\<close> and the backfill of the account identifier of
  \<open>codex-lb/app/modules/accounts/auth_manager.py\<close>; the second is the system: tasks of
  \<open>Token_Refresh\<close> started through the singleflight of their process, writes by others, the clock,
  crashes. A refresh token can be exchanged once; the theorems say that no two refreshes of an account work at the
  same time, that a rotation by somebody else is never overwritten and that a token is not sent again unless others
  put it back.

  A process is a position in the list of claimants. The cancellation of a task is not modelled; a crash of a process
  ends its tasks. Times of the singleflight are \<open>time.monotonic()\<close>.
\<close>

section \<open>The singleflight\<close>

type_synonym flight_key = "string \<times> string"

record RefreshSingleflight =
  sf_inflight :: "(flight_key \<times> nat) list"
  sf_recent_failures :: "(flight_key \<times> pyfloat \<times> RefreshError) list"

definition no_flights :: RefreshSingleflight where
  "no_flights = \<lparr>sf_inflight = [], sf_recent_failures = []\<rparr>"

text \<open>How the task with a number ended; \<open>None\<close> while it runs.\<close>

type_synonym outcomes = "nat \<Rightarrow> refresh_outcome option"

definition purge_stale_versions :: "outcomes \<Rightarrow> flight_key \<Rightarrow> RefreshSingleflight \<Rightarrow> RefreshSingleflight" where
  "purge_stale_versions ended keep sf =
     sf\<lparr>sf_recent_failures := filter (\<lambda>(k, f). \<not> (fst k = fst keep \<and> k \<noteq> keep)) (sf_recent_failures sf),
        sf_inflight := filter (\<lambda>(k, n). \<not> (fst k = fst keep \<and> k \<noteq> keep \<and> ended n \<noteq> None)) (sf_inflight sf)\<rparr>"

text \<open>The answer of \<open>run\<close> under its lock: wait for a task, raise a failure remembered, or start a task.
  A task that ended with an account is waited for (its result is handed out); one that failed is
  replaced.\<close>

datatype flight = Joined nat | CachedFailure RefreshError | MustStart

definition join_or_start :: "outcomes \<Rightarrow> flight_key \<Rightarrow> RefreshSingleflight \<Rightarrow> flight" where
  "join_or_start ended key sf =
     (case map_of (sf_inflight sf) key of
        None \<Rightarrow> MustStart
      | Some n \<Rightarrow>
          (case ended n of
             None \<Rightarrow> Joined n
           | Some (Refreshed acc) \<Rightarrow> Joined n
           | Some out \<Rightarrow> MustStart))"

definition flight_run :: "outcomes \<Rightarrow> pyfloat \<Rightarrow> flight_key \<Rightarrow> RefreshSingleflight \<Rightarrow> flight \<times> RefreshSingleflight" where
  "flight_run ended now key sf =
     (let sf1 = purge_stale_versions ended key sf
      in case map_of (sf_recent_failures sf1) key of
           Some (expires_at, e) \<Rightarrow>
             if expires_at > now then (CachedFailure (refresh_error (re_code e) (re_message e) (re_permanent e)), sf1)
             else (let sf2 = sf1\<lparr>sf_recent_failures := AList.delete key (sf_recent_failures sf1)\<rparr>
                   in (join_or_start ended key sf2, sf2))
         | None \<Rightarrow> (join_or_start ended key sf1, sf1))"

definition flight_started :: "flight_key \<Rightarrow> nat \<Rightarrow> RefreshSingleflight \<Rightarrow> RefreshSingleflight" where
  "flight_started key n sf = sf\<lparr>sf_inflight := AList.update key n (sf_inflight sf)\<rparr>"

definition flight_complete ::
  "pyfloat \<Rightarrow> pyfloat \<Rightarrow> flight_key \<Rightarrow> nat \<Rightarrow> refresh_outcome \<Rightarrow> RefreshSingleflight \<Rightarrow> RefreshSingleflight" where
  "flight_complete cooldown now key n out sf =
     sf\<lparr>sf_inflight := (if map_of (sf_inflight sf) key = Some n then AList.delete key (sf_inflight sf) else sf_inflight sf),
        sf_recent_failures :=
          (case out of
             RefreshFailed e \<Rightarrow>
               if max 0 cooldown > 0 \<and> \<not> re_transport e
               then AList.update key (now + max 0 cooldown, e) (sf_recent_failures sf)
               else AList.delete key (sf_recent_failures sf)
           | _ \<Rightarrow> AList.delete key (sf_recent_failures sf))\<rparr>"

definition refresh_singleflight_key :: "TokenVault \<Rightarrow> TokenAccount \<Rightarrow> flight_key" where
  "refresh_singleflight_key V acc = (acc_id acc, fingerprint V (acc_refresh_token acc))"

text \<open>\<open>ensure_fresh\<close> asks for a refresh or not; afterwards the account's identifier is completed from its
  identity token, and written unless the write fails.\<close>

definition wants_refresh :: "int \<Rightarrow> int \<Rightarrow> bool \<Rightarrow> TokenAccount \<Rightarrow> bool" where
  "wants_refresh interval_days now force acc = (force \<or> should_refresh interval_days (ta_last_refresh acc) now)"

definition chatgpt_account_id_from_id_token :: "(string \<Rightarrow> json option) \<Rightarrow> string \<Rightarrow> string option" where
  "chatgpt_account_id_from_id_token decode id_token =
     (let claims = extract_id_token_claims decode id_token
      in or_str (ac_chatgpt_account_id (default_to (ic_auth claims) no_auth_claims)) (ac_chatgpt_account_id claims))"

definition ensure_chatgpt_account_id ::
  "TokenVault \<Rightarrow> (string \<Rightarrow> json option) \<Rightarrow> db_outcome \<Rightarrow> TokenAccount \<Rightarrow> TokenDb \<Rightarrow> TokenAccount \<times> TokenDb" where
  "ensure_chatgpt_account_id V decode out acc db =
     (if or_str (ta_chatgpt_account_id acc) None \<noteq> None then (acc, db)
      else (case tv_decrypt V (ta_id_token acc) of
              None \<Rightarrow> (acc, db)
            | Some id_token \<Rightarrow>
                (case or_str (chatgpt_account_id_from_id_token decode id_token) None of
                   None \<Rightarrow> (acc, db)
                 | Some raw \<Rightarrow>
                     (acc\<lparr>ta_chatgpt_account_id := Some raw\<rparr>,
                      applied out db (set_chatgpt_account_id (acc_id acc) raw db)))))"

section \<open>The system\<close>

text \<open>A task in flight, with its process and, as an observer would note, the time until which its claim was
  granted. The observer also keeps the tokens known, those spent (by account and token) and those
  lost.\<close>

record RefreshFlight =
  fl_process :: nat
  fl_task :: RefreshTask
  fl_held :: pyfloat

record RefreshSystem =
  rs_db :: TokenDb
  rs_tasks :: "nat \<Rightarrow> RefreshFlight option"
  rs_flights :: "nat \<Rightarrow> RefreshSingleflight"
  rs_known :: "string set"
  rs_spent :: "(string \<times> string) set"
  rs_lost :: "(string \<times> string) set"

definition ended :: "RefreshSystem \<Rightarrow> outcomes" where
  "ended s n =
     (case rs_tasks s n of
        None \<Rightarrow> None
      | Some f \<Rightarrow> (case rt_pc (fl_task f) of Done out \<Rightarrow> Some out | _ \<Rightarrow> None))"

definition task_key :: "RefreshTask \<Rightarrow> flight_key" where
  "task_key t = (own_id t, rt_requested t)"

definition tokens_of :: "'a option \<Rightarrow> 'a set" where
  "tokens_of x = (case x of None \<Rightarrow> {} | Some p \<Rightarrow> {p})"

text \<open>A token that no task has got and not yet stored.\<close>

definition unissued :: "TokenVault \<Rightarrow> RefreshSystem \<Rightarrow> string option \<Rightarrow> bool" where
  "unissued V s q = (\<forall>n f. q \<noteq> None \<longrightarrow> rs_tasks s n = Some f \<longrightarrow> pending_token V (fl_task f) \<noteq> q)"

text \<open>A step of a task: a token is spent when its exchange succeeds, and lost when the refresh then ends with an
  exception.\<close>

definition granted_until :: "RefreshFlight \<Rightarrow> TokenDb \<Rightarrow> pyfloat" where
  "granted_until f db' =
     (case td_claims db' (own_id (fl_task f)) of
        Some c \<Rightarrow> if working (fl_task f) then fl_held f else rc_expires_at c
      | None \<Rightarrow> fl_held f)"

definition run_task :: "TokenVault \<Rightarrow> nat \<Rightarrow> RefreshFlight \<Rightarrow> RefreshTask \<Rightarrow> TokenDb \<Rightarrow> RefreshSystem \<Rightarrow> RefreshSystem" where
  "run_task V n f t' db' s =
     (let t = fl_task f; a = own_id t
      in s\<lparr>rs_db := db', rs_tasks := (rs_tasks s)(n \<mapsto> f\<lparr>fl_task := t', fl_held := granted_until f db'\<rparr>),
           rs_known := rs_known s \<union> tokens_of (pending_token V t'),
           rs_spent := rs_spent s \<union> (if resolving V t = None then {a} \<times> tokens_of (resolving V t') else {}),
           rs_lost := rs_lost s \<union> (if ends_badly t' then {a} \<times> tokens_of (resolving V t) else {})\<rparr>)"

text \<open>A write by somebody else (a login, an import, the balancer, an operator, another component) puts any row in the
  account's place; only a token that nobody but a running refresh has received is not among what it stores.
  A write may bring a spent token back, or take an account that holds one out of a terminal status (the balancer's
  unguarded status writes, \<open>import_account\<close> and \<open>reactivate_account\<close> can); the observer notes that token as
  put back in use by others.\<close>

definition peer_write :: "TokenVault \<Rightarrow> RefreshSystem \<Rightarrow> string \<Rightarrow> TokenAccount \<Rightarrow> bool" where
  "peer_write V s a row = (acc_id row = a \<and> unissued V s (plain V row))"

definition put_back :: "TokenVault \<Rightarrow> RefreshSystem \<Rightarrow> string \<Rightarrow> TokenAccount \<Rightarrow> (string \<times> string) set" where
  "put_back V s a row =
     (if \<exists>old. stored a (rs_db s) = Some old \<and> plain V old = plain V row \<and>
           (acc_status old \<in> set TERMINAL_REFRESH_STATUSES \<longrightarrow> acc_status row \<in> set TERMINAL_REFRESH_STATUSES)
      then {} else rs_spent s \<inter> {a} \<times> tokens_of (plain V row))"

text \<open>A deletion also takes the claim from the tasks of the account.\<close>

definition remove_account :: "string \<Rightarrow> RefreshSystem \<Rightarrow> RefreshSystem" where
  "remove_account a s =
     s\<lparr>rs_db := delete_account a (rs_db s),
       rs_tasks := (\<lambda>n. map_option
         (\<lambda>f. if own_id (fl_task f) = a then f\<lparr>fl_held := td_clock (rs_db s) - 1\<rparr> else f) (rs_tasks s n))\<rparr>"

definition crash :: "TokenVault \<Rightarrow> nat \<Rightarrow> RefreshSystem \<Rightarrow> RefreshSystem" where
  "crash V p s =
     s\<lparr>rs_tasks := (\<lambda>n. case rs_tasks s n of None \<Rightarrow> None | Some f \<Rightarrow> if fl_process f = p then None else Some f),
       rs_flights := (rs_flights s)(p := no_flights),
       rs_lost := rs_lost s \<union>
         {(a, q). \<exists>n f. rs_tasks s n = Some f \<and> fl_process f = p \<and> own_id (fl_task f) = a \<and> resolving V (fl_task f) = Some q}\<rparr>"

text \<open>What the observer notes after each step: the spent tokens of an account without a row, and those whose
  refresh has outlived its claim, are lost.\<close>

definition settle :: "TokenVault \<Rightarrow> RefreshSystem \<Rightarrow> RefreshSystem" where
  "settle V s =
     s\<lparr>rs_lost := rs_lost s \<union> {(a, p). (a, p) \<in> rs_spent s \<and> stored a (rs_db s) = None} \<union>
         {(a, p). \<exists>n f. rs_tasks s n = Some f \<and> own_id (fl_task f) = a \<and> resolving V (fl_task f) = Some p
            \<and> fl_held f < td_clock (rs_db s)}\<rparr>"

inductive raw_step ::
  "TokenVault \<Rightarrow> (string \<Rightarrow> json option) \<Rightarrow> pyfloat \<Rightarrow> pyfloat \<Rightarrow> string list \<Rightarrow> RefreshSystem \<Rightarrow> RefreshSystem \<Rightarrow> bool"
  for V decode ttl cooldown claimants where
  start: "flight_run (ended s) now (refresh_singleflight_key V acc) (rs_flights s p) = (MustStart, sf) \<Longrightarrow>
    p < length claimants \<Longrightarrow> rs_tasks s n = None \<Longrightarrow> unissued V s (plain V acc) \<Longrightarrow>
    raw_step V decode ttl cooldown claimants s
      (s\<lparr>rs_tasks := (rs_tasks s)(n \<mapsto> \<lparr>fl_process = p,
            fl_task = refresh_account V (Some (claimants ! p)) attached budget tick acc, fl_held = 0\<rparr>),
         rs_flights := (rs_flights s)(p := flight_started (refresh_singleflight_key V acc) n sf),
         rs_known := rs_known s \<union> tokens_of (plain V acc)\<rparr>)"
| share: "flight_run (ended s) now key (rs_flights s p) = (answer, sf) \<Longrightarrow> answer \<noteq> MustStart \<Longrightarrow>
    raw_step V decode ttl cooldown claimants s (s\<lparr>rs_flights := (rs_flights s)(p := sf)\<rparr>)"
| complete: "rs_tasks s n = Some f \<Longrightarrow> rt_pc (fl_task f) = Done out \<Longrightarrow> p = fl_process f \<Longrightarrow>
    raw_step V decode ttl cooldown claimants s
      (s\<lparr>rs_flights := (rs_flights s)(p := flight_complete cooldown now (task_key (fl_task f)) n out (rs_flights s p))\<rparr>)"
| run: "rs_tasks s n = Some f \<Longrightarrow> task_step V decode ttl (fl_task f) (rs_db s) t' db' \<Longrightarrow>
    (\<And>q. pending_token V (fl_task f) = None \<Longrightarrow> pending_token V t' = Some q \<Longrightarrow> q \<notin> rs_known s) \<Longrightarrow>
    raw_step V decode ttl cooldown claimants s (run_task V n f t' db' s)"
| peer: "peer_write V s a row \<Longrightarrow>
    raw_step V decode ttl cooldown claimants s
      (s\<lparr>rs_db := (rs_db s)\<lparr>td_accounts := AList.update a row (td_accounts (rs_db s))\<rparr>,
         rs_known := rs_known s \<union> tokens_of (plain V row), rs_lost := rs_lost s \<union> put_back V s a row\<rparr>)"
| remove: "raw_step V decode ttl cooldown claimants s (remove_account a s)"
| tick: "td_clock (rs_db s) \<le> now \<Longrightarrow>
    raw_step V decode ttl cooldown claimants s (s\<lparr>rs_db := (rs_db s)\<lparr>td_clock := now\<rparr>\<rparr>)"
| crash: "raw_step V decode ttl cooldown claimants s (crash V p s)"

inductive system_step ::
  "TokenVault \<Rightarrow> (string \<Rightarrow> json option) \<Rightarrow> pyfloat \<Rightarrow> pyfloat \<Rightarrow> string list \<Rightarrow> RefreshSystem \<Rightarrow> RefreshSystem \<Rightarrow> bool"
  for V decode ttl cooldown claimants where
  "raw_step V decode ttl cooldown claimants s s' \<Longrightarrow> system_step V decode ttl cooldown claimants s (settle V s')"

definition system_start :: "TokenVault \<Rightarrow> RefreshSystem \<Rightarrow> bool" where
  "system_start V s =
     (db_ok (rs_db s) \<and> (\<forall>n. rs_tasks s n = None) \<and> rs_spent s = {} \<and>
      (\<forall>a row p. stored a (rs_db s) = Some row \<longrightarrow> plain V row = Some p \<longrightarrow> p \<in> rs_known s))"

section \<open>Invariants\<close>

definition cluster_laws :: "TokenVault \<Rightarrow> string list \<Rightarrow> bool" where
  "cluster_laws V claimants =
     (vault_laws V \<and> distinct claimants \<and> (\<forall>c \<in> set claimants. length c \<le> CLAIMANT_ID_MAX_LEN))"

definition claimed_by :: "RefreshTask \<Rightarrow> string" where
  "claimed_by t = compose_claimed_by (default_to (rt_claimant t) []) (rt_requested t)"

text \<open>A task that works within the time its claim was granted for.\<close>

definition live :: "RefreshSystem \<Rightarrow> RefreshFlight \<Rightarrow> bool" where
  "live s f = (working (fl_task f) \<and> td_clock (rs_db s) \<le> fl_held f)"

text \<open>The tasks belong to their processes and are known to their singleflights.\<close>

definition tasks_inv :: "TokenVault \<Rightarrow> string list \<Rightarrow> RefreshSystem \<Rightarrow> bool" where
  "tasks_inv V claimants s =
     (db_ok (rs_db s) \<and>
      (\<forall>n f. rs_tasks s n = Some f \<longrightarrow>
         task_ok V (fl_task f) \<and> fl_process f < length claimants \<and> rt_claimant (fl_task f) = Some (claimants ! fl_process f) \<and>
         rt_requested (fl_task f) \<in> range (tv_sha256 V) \<and>
         (\<not> over (fl_task f) \<longrightarrow> map_of (sf_inflight (rs_flights s (fl_process f))) (task_key (fl_task f)) = Some n)))"

text \<open>A live task has the claim's row.\<close>

definition claims_inv :: "RefreshSystem \<Rightarrow> bool" where
  "claims_inv s =
     (\<forall>n f. rs_tasks s n = Some f \<longrightarrow> live s f \<longrightarrow>
        (\<exists>c. td_claims (rs_db s) (own_id (fl_task f)) = Some c \<and> rc_claimed_by c = claimed_by (fl_task f)
           \<and> rc_expires_at c = fl_held f))"

text \<open>What is known, and that a new token is nowhere but with the task that got it.\<close>

definition known_inv :: "TokenVault \<Rightarrow> RefreshSystem \<Rightarrow> bool" where
  "known_inv V s =
     ((\<forall>a row. stored a (rs_db s) = Some row \<longrightarrow> tokens_of (plain V row) \<subseteq> rs_known s) \<and>
      (\<forall>n f. rs_tasks s n = Some f \<longrightarrow>
         tokens_of (plain V (rt_account (fl_task f))) \<union> tokens_of (sending V (fl_task f)) \<union> tokens_of (pending_token V (fl_task f))
           \<subseteq> rs_known s) \<and>
      snd ` rs_spent s \<subseteq> rs_known s)"

definition clean :: "TokenVault \<Rightarrow> RefreshSystem \<Rightarrow> string \<Rightarrow> nat \<Rightarrow> bool" where
  "clean V s q n =
     (q \<notin> snd ` rs_spent s \<and>
      (\<forall>a row. stored a (rs_db s) = Some row \<longrightarrow> plain V row \<noteq> Some q) \<and>
      (\<forall>m g. rs_tasks s m = Some g \<longrightarrow>
         plain V (rt_account (fl_task g)) \<noteq> Some q \<and> sending V (fl_task g) \<noteq> Some q \<and>
         (pending_token V (fl_task g) = Some q \<longrightarrow> m = n)))"

definition fresh_inv :: "TokenVault \<Rightarrow> RefreshSystem \<Rightarrow> bool" where
  "fresh_inv V s = (\<forall>n f q. rs_tasks s n = Some f \<longrightarrow> pending_token V (fl_task f) = Some q \<longrightarrow> clean V s q n)"

text \<open>A stored token that is spent and not lost: its account is terminal, or a live task is settling it.
  A token that a live task sends is not spent, or lost.\<close>

definition settling :: "TokenVault \<Rightarrow> RefreshSystem \<Rightarrow> string \<Rightarrow> string \<Rightarrow> bool" where
  "settling V s a p =
     (\<exists>n f. rs_tasks s n = Some f \<and> live s f \<and> own_id (fl_task f) = a \<and> resolving V (fl_task f) = Some p)"

definition spent_inv :: "TokenVault \<Rightarrow> RefreshSystem \<Rightarrow> bool" where
  "spent_inv V s =
     ((\<forall>a p. (a, p) \<in> rs_spent s - rs_lost s \<longrightarrow>
         (\<exists>row. stored a (rs_db s) = Some row \<and>
            (plain V row = Some p \<longrightarrow> acc_status row \<in> set TERMINAL_REFRESH_STATUSES \<or> settling V s a p))) \<and>
      (\<forall>n f p. rs_tasks s n = Some f \<longrightarrow> live s f \<longrightarrow> sending V (fl_task f) = Some p \<longrightarrow>
         (own_id (fl_task f), p) \<notin> rs_spent s - rs_lost s))"

lemma settle_simps [simp]:
  "rs_db (settle V s) = rs_db s" "rs_tasks (settle V s) = rs_tasks s" "rs_flights (settle V s) = rs_flights s"
  "rs_known (settle V s) = rs_known s" "rs_spent (settle V s) = rs_spent s"
  by (simp_all add: settle_def)

lemma tokens_of_simps [simp]: "tokens_of None = {}" "tokens_of (Some p) = {p}"
  by (simp_all add: tokens_of_def)

lemma tokens_of_subset: "tokens_of x \<subseteq> A \<longleftrightarrow> (\<forall>p. x = Some p \<longrightarrow> p \<in> A)"
  by (simp add: tokens_of_def split: option.splits)

lemma inv_settle [simp]:
  "tasks_inv V claimants (settle V s) = tasks_inv V claimants s" "claims_inv (settle V s) = claims_inv s"
  "known_inv V (settle V s) = known_inv V s" "fresh_inv V (settle V s) = fresh_inv V s" "live (settle V s) f = live s f"
  "settling V (settle V s) a p = settling V s a p"
  by (simp_all add: tasks_inv_def claims_inv_def known_inv_def fresh_inv_def clean_def live_def settling_def)

lemma run_task_simps [simp]:
  "rs_db (run_task V n f t' db' s) = db'" "rs_flights (run_task V n f t' db' s) = rs_flights s"
  "rs_known (run_task V n f t' db' s) = rs_known s \<union> tokens_of (pending_token V t')"
  "rs_tasks (run_task V n f t' db' s) = (rs_tasks s)(n \<mapsto> f\<lparr>fl_task := t', fl_held := granted_until f db'\<rparr>)"
  "rs_spent (run_task V n f t' db' s) =
     rs_spent s \<union> (if resolving V (fl_task f) = None then {own_id (fl_task f)} \<times> tokens_of (resolving V t') else {})"
  by (simp_all add: run_task_def Let_def)

lemma granted_working [simp]: "working (fl_task f) \<Longrightarrow> granted_until f db = fl_held f"
  by (simp add: granted_until_def split: option.splits)

subsection \<open>Tasks\<close>

lemma purge_keeps:
  assumes "map_of (sf_inflight sf) key = Some n" "ended' n = None \<or> key = keep"
  shows "map_of (sf_inflight (purge_stale_versions ended' keep sf)) key = Some n"
proof -
  have "map_of (filter P xs) key = Some n" if "map_of xs key = Some n" "P (key, n)" for P and xs :: "(flight_key \<times> nat) list"
    using that by (induction xs) auto
  with assms show ?thesis by (auto simp: purge_stale_versions_def)
qed

lemma flight_run_inflight:
  assumes "flight_run ended' now key sf = (answer, sf')"
  shows "sf_inflight sf' = sf_inflight (purge_stale_versions ended' key sf)"
    and "answer = MustStart \<Longrightarrow> map_of (sf_inflight sf') key = Some n \<Longrightarrow> ended' n \<noteq> None"
  using assms
  by (auto simp: flight_run_def join_or_start_def Let_def split: option.splits prod.splits if_splits refresh_outcome.splits)

lemma refresh_account_start [simp]:
  "rt_claimant (refresh_account V (Some c) attached budget tick acc) = Some c"
  "rt_requested (refresh_account V (Some c) attached budget tick acc) = fingerprint V (acc_refresh_token acc)"
  "rt_account (refresh_account V (Some c) attached budget tick acc) = acc"
  "rt_pc (refresh_account V (Some c) attached budget tick acc) = Claiming 0"
  "own_id (refresh_account V (Some c) attached budget tick acc) = acc_id acc"
  by (simp_all add: refresh_account_def own_id_def)

lemma started_idle [simp]:
  "\<not> working (refresh_account V (Some c) attached budget tick acc)"
  "\<not> over (refresh_account V (Some c) attached budget tick acc)"
  "task_ok V (refresh_account V (Some c) attached budget tick acc)"
  by (simp_all add: view_defs task_ok_def)

lemma db_ok_accounts:
  "td_accounts db = td_accounts db' \<Longrightarrow> db_ok db = db_ok db'"
  by (simp add: db_ok_def)

text \<open>The parts of the invariant of tasks, for a step that keeps the tasks.\<close>

lemma tasks_inv_flights:
  assumes "tasks_inv V claimants s"
    and "\<And>n f. rs_tasks s n = Some f \<Longrightarrow> \<not> over (fl_task f) \<Longrightarrow> fl_process f = p \<Longrightarrow>
      map_of (sf_inflight (rs_flights s p)) (task_key (fl_task f)) = Some n \<Longrightarrow>
      map_of (sf_inflight sf) (task_key (fl_task f)) = Some n"
  shows "tasks_inv V claimants (s\<lparr>rs_flights := (rs_flights s)(p := sf)\<rparr>)"
  using assms unfolding tasks_inv_def by (auto split: if_splits)

lemma ended_running: "rs_tasks s n = Some f \<Longrightarrow> ended s n = None \<longleftrightarrow> \<not> over (fl_task f)"
  by (auto simp: ended_def over_def split: refresh_pc.splits)

lemma tasks_inv_task:
  assumes "tasks_inv V claimants s" "rs_tasks s n = Some f"
  shows "task_ok V (fl_task f)" "rt_claimant (fl_task f) = Some (claimants ! fl_process f)"
    "rt_requested (fl_task f) \<in> range (tv_sha256 V)" "db_ok (rs_db s)" "fl_process f < length claimants"
  using assms by (auto simp: tasks_inv_def)

lemma tasks_inv_run:
  assumes "tasks_inv V claimants s" "rs_tasks s n = Some f" "task_step V decode ttl (fl_task f) (rs_db s) t' db'" "vault_laws V"
  shows "tasks_inv V claimants (run_task V n f t' db' s)"
proof -
  note ok = tasks_inv_task [OF assms(1,2)]
  note move = task_step_refines [OF assms(3) ok(1,4) assms(4)]
  have "\<not> over (fl_task f)" using move by (cases rule: refresh_move.cases) (auto simp: view_defs split: refresh_pc.splits)
  then have "map_of (sf_inflight (rs_flights s (fl_process f))) (task_key t') = Some n"
    using assms(1,2) task_identity [OF assms(3)] task_account [OF assms(3) ok(4)]
    by (simp add: tasks_inv_def task_key_def)
  then show ?thesis
    using assms(1) ok task_ok_step [OF assms(3) ok(1) assms(4)] task_identity [OF assms(3)] db_ok_move [OF move ok(4)]
    by (simp add: tasks_inv_def)
qed

lemma map_of_delete: "map_of (AList.delete k xs) j = (if j = k then None else map_of xs j)"
  by (simp add: delete_conv)

lemma remove_simps [simp]:
  "rs_spent (remove_account a s) = rs_spent s" "rs_lost (remove_account a s) = rs_lost s"
  "rs_known (remove_account a s) = rs_known s" "rs_flights (remove_account a s) = rs_flights s"
  "td_clock (rs_db (remove_account a s)) = td_clock (rs_db s)"
  "stored b (rs_db (remove_account a s)) = (if b = a then None else stored b (rs_db s))"
  "td_claims (rs_db (remove_account a s)) b = (if b = a then None else td_claims (rs_db s) b)"
  by (simp_all add: remove_account_def delete_account_def map_of_delete)

lemma remove_task:
  "rs_tasks (remove_account a s) n = Some g \<Longrightarrow>
     \<exists>f. rs_tasks s n = Some f \<and> fl_task g = fl_task f \<and> fl_process g = fl_process f"
  "rs_tasks s n = Some f \<Longrightarrow> \<exists>g. rs_tasks (remove_account a s) n = Some g \<and> fl_task g = fl_task f"
  by (auto simp: remove_account_def split: if_splits)

lemma remove_live:
  assumes "rs_tasks (remove_account a s) n = Some f" "live (remove_account a s) f"
  shows "rs_tasks s n = Some f \<and> live s f \<and> own_id (fl_task f) \<noteq> a"
proof -
  obtain g where g: "rs_tasks s n = Some g" "f = (if own_id (fl_task g) = a then g\<lparr>fl_held := td_clock (rs_db s) - 1\<rparr> else g)"
    using assms(1) by (auto simp: remove_account_def)
  then show ?thesis using assms(2) by (cases "own_id (fl_task g) = a") (simp_all add: live_def)
qed

lemma tasks_inv_start:
  assumes "tasks_inv V claimants s" "flight_run (ended s) now (refresh_singleflight_key V acc) (rs_flights s p) = (MustStart, sf)"
    and "p < length claimants" "rs_tasks s n = None" "t = refresh_account V (Some (claimants ! p)) attached budget tick acc"
  shows "tasks_inv V claimants
     (s\<lparr>rs_tasks := (rs_tasks s)(n \<mapsto> \<lparr>fl_process = p, fl_task = t, fl_held = 0\<rparr>),
        rs_flights := (rs_flights s)(p := flight_started (refresh_singleflight_key V acc) n sf),
        rs_known := known\<rparr>)"
proof -
  have key: "task_key t = refresh_singleflight_key V acc"
    by (simp add: assms(5) task_key_def refresh_singleflight_key_def)
  have kept: "map_of (sf_inflight (flight_started (refresh_singleflight_key V acc) n sf)) (task_key (fl_task g)) = Some m"
    if "rs_tasks s m = Some g" "\<not> over (fl_task g)" "fl_process g = p" for m g
  proof -
    have in_s: "map_of (sf_inflight (rs_flights s p)) (task_key (fl_task g)) = Some m"
      using assms(1) that by (auto simp: tasks_inv_def)
    have run: "ended s m = None" using ended_running that(1,2) by blast
    then have "map_of (sf_inflight sf) (task_key (fl_task g)) = Some m"
      using flight_run_inflight(1) [OF assms(2)] purge_keeps [OF in_s] by simp
    moreover from this have "task_key (fl_task g) \<noteq> refresh_singleflight_key V acc"
      using flight_run_inflight(2) [OF assms(2) refl] run by metis
    ultimately show ?thesis by (simp add: flight_started_def update_conv)
  qed
  have "map_of (sf_inflight (flight_started (refresh_singleflight_key V acc) n sf)) (task_key t) = Some n"
    by (simp add: key flight_started_def update_conv)
  moreover have "task_ok V t" "rt_claimant t = Some (claimants ! p)" "rt_requested t \<in> range (tv_sha256 V)"
    by (simp_all add: assms(5) fingerprint_def)
  ultimately show ?thesis
    using assms(1,3,4) kept by (auto simp: tasks_inv_def)
qed

lemma tasks_inv_step:
  assumes "raw_step V decode ttl cooldown claimants s s'" "tasks_inv V claimants s" "vault_laws V"
  shows "tasks_inv V claimants s'"
  using assms(1)
proof (cases rule: raw_step.cases)
  case (start now acc p sf n attached budget tick)
  then show ?thesis using tasks_inv_start [OF assms(2)] by simp
next
  case (share now key p answer sf)
  have "map_of (sf_inflight sf) (task_key (fl_task f)) = Some n"
    if "rs_tasks s n = Some f" "\<not> over (fl_task f)"
      "map_of (sf_inflight (rs_flights s p)) (task_key (fl_task f)) = Some n" for n f
    using purge_keeps [OF that(3)] ended_running [OF that(1)] that(2) flight_run_inflight(1) [OF share(2)] by simp
  then show ?thesis using share tasks_inv_flights [OF assms(2)] by simp
next
  case (complete n f out p now)
  have "over (fl_task f)" using complete by (simp add: over_def)
  then have "map_of (sf_inflight (flight_complete cooldown now (task_key (fl_task f)) n out (rs_flights s p))) (task_key (fl_task g)) = Some m"
    if "rs_tasks s m = Some g" "\<not> over (fl_task g)"
      "map_of (sf_inflight (rs_flights s p)) (task_key (fl_task g)) = Some m" for m g
    using that complete(2) by (auto simp: flight_complete_def map_of_delete)
  then show ?thesis using complete tasks_inv_flights [OF assms(2)] by simp
next
  case (run n f t' db')
  then show ?thesis using tasks_inv_run [OF assms(2) _ _ assms(3)] by simp
next
  case (peer a row)
  then show ?thesis using assms(2) by (auto simp: tasks_inv_def db_ok_def update_conv peer_write_def)
next
  case (remove a)
  have "db_ok (rs_db (remove_account a s))" using assms(2) by (simp add: tasks_inv_def db_ok_def)
  moreover have "task_ok V (fl_task g) \<and> fl_process g < length claimants \<and> rt_claimant (fl_task g) = Some (claimants ! fl_process g)
      \<and> rt_requested (fl_task g) \<in> range (tv_sha256 V) \<and>
      (\<not> over (fl_task g) \<longrightarrow> map_of (sf_inflight (rs_flights s (fl_process g))) (task_key (fl_task g)) = Some n)"
    if "rs_tasks (remove_account a s) n = Some g" for n g
    using remove_task(1) [OF that] assms(2) by (fastforce simp: tasks_inv_def)
  ultimately show ?thesis unfolding remove by (simp add: tasks_inv_def)
next
  case (tick now)
  then show ?thesis using assms(2) by (simp add: tasks_inv_def db_ok_def)
next
  case (crash p)
  then show ?thesis using assms(2) by (auto simp: tasks_inv_def crash_def split: option.splits if_splits)
qed

subsection \<open>Claims\<close>

text \<open>Two tasks that are not over and have the same entry for the claim are one.\<close>

lemma claimed_by_unique:
  assumes "tasks_inv V claimants s" "cluster_laws V claimants"
    and "rs_tasks s n = Some f" "rs_tasks s m = Some g" "\<not> over (fl_task f)" "\<not> over (fl_task g)"
    and "own_id (fl_task f) = own_id (fl_task g)" "claimed_by (fl_task f) = claimed_by (fl_task g)"
  shows "n = m"
proof -
  note f = tasks_inv_task [OF assms(1,3)] and g = tasks_inv_task [OF assms(1,4)]
  have no_sep: "CHR ''#'' \<notin> set (tv_sha256 V x)" for x using assms(2) by (simp add: cluster_laws_def vault_laws_def)
  have len: "length (claimants ! p) \<le> CLAIMANT_ID_MAX_LEN" if "p < length claimants" for p
    using assms(2) that by (simp add: cluster_laws_def)
  obtain x y where xy: "rt_requested (fl_task f) = tv_sha256 V x" "rt_requested (fl_task g) = tv_sha256 V y"
    using f(3) g(3) by auto
  have "distinct claimants" using assms(2) by (simp add: cluster_laws_def)
  have sha: "tv_sha256 V x = tv_sha256 V y"
    if "take CLAIM_OWNER_TOKEN_LEN (tv_sha256 V x) = take CLAIM_OWNER_TOKEN_LEN (tv_sha256 V y)"
    using assms(2) that by (simp add: cluster_laws_def vault_laws_def)
  have eq: "compose_claimed_by (claimants ! fl_process f) (tv_sha256 V x) = compose_claimed_by (claimants ! fl_process g) (tv_sha256 V y)"
    using assms(8) f(2) g(2) xy by (simp add: claimed_by_def)
  have "claimants ! fl_process f = claimants ! fl_process g"
    "take CLAIM_OWNER_TOKEN_LEN (tv_sha256 V x) = take CLAIM_OWNER_TOKEN_LEN (tv_sha256 V y)"
    using compose_injective [OF eq len [OF f(5)] len [OF g(5)] no_sep no_sep] by simp_all
  then have "fl_process f = fl_process g" "task_key (fl_task f) = task_key (fl_task g)"
    using \<open>distinct claimants\<close> f(5) g(5) sha xy assms(7) by (simp_all add: task_key_def nth_eq_iff_index_eq)
  moreover have "map_of (sf_inflight (rs_flights s (fl_process f))) (task_key (fl_task f)) = Some n"
    "map_of (sf_inflight (rs_flights s (fl_process g))) (task_key (fl_task g)) = Some m"
    using assms(1,3-6) by (simp_all add: tasks_inv_def)
  ultimately show ?thesis by simp
qed

lemma live_working: "live s f \<Longrightarrow> working (fl_task f) \<and> \<not> over (fl_task f)"
  by (auto simp: live_def working_def over_def split: refresh_pc.splits)

text \<open>At most one task of an account is live.\<close>

lemma live_unique:
  assumes "tasks_inv V claimants s" "claims_inv s" "cluster_laws V claimants"
    and "rs_tasks s n = Some f" "rs_tasks s m = Some g" "live s f" "live s g" "own_id (fl_task f) = own_id (fl_task g)"
  shows "n = m"
proof (rule claimed_by_unique [OF assms(1,3-5)])
  have "\<exists>c. td_claims (rs_db s) (own_id (fl_task f)) = Some c \<and> rc_claimed_by c = claimed_by (fl_task f)"
    "\<exists>c. td_claims (rs_db s) (own_id (fl_task g)) = Some c \<and> rc_claimed_by c = claimed_by (fl_task g)"
    using assms(2,4-7) by (auto simp: claims_inv_def)
  then show "claimed_by (fl_task f) = claimed_by (fl_task g)" using assms(8) by auto
qed (use assms live_working in auto)

lemma move_clock: "refresh_move V ttl t db t' db' \<Longrightarrow> td_clock db \<le> td_clock db'"
  by (induction rule: refresh_move.induct) (auto simp: claim_clock_def)

lemma move_running: "refresh_move V ttl t db t' db' \<Longrightarrow> \<not> over t"
  by (induction rule: refresh_move.induct) (auto simp: working_def over_def split: refresh_pc.splits)

text \<open>A move leaves the claims of others alone while they run.\<close>

lemma move_foreign_claim:
  assumes "refresh_move V ttl t db t' db'" "td_claims db a = Some c" "td_clock db' \<le> rc_expires_at c"
    and "a = own_id t \<Longrightarrow> rc_claimed_by c \<noteq> claimed_by t"
  shows "td_claims db' a = Some c"
  using assms(1)
proof (cases rule: refresh_move.cases)
  case (claim cl me clk)
  have "td_claims db' = td_claims db \<or> td_claims db' a = Some c"
  proof (cases "a = own_id t")
    case True
    then have "rc_claimed_by c \<noteq> me" using assms(4) claim(3,4) by (simp add: claimed_by_def)
    moreover have "sc_snapshot clk \<le> rc_expires_at c" using claim(5,7) assms(3) by (simp add: claim_clock_def)
    ultimately have "claim_upsert clk ttl (own_id t) me (td_claims db) = (False, td_claims db)"
      using live_claim_kept assms(2) True by simp
    then show ?thesis using claim(8) by auto
  next
    case False
    then show ?thesis using claim(8) assms(2) by (auto simp: claim_upsert_simps)
  qed
  then show ?thesis using assms(2) by auto
next
  case (release cl)
  have "release_claim (own_id t) cl (rt_requested t) (td_claims db) a = Some c"
  proof (cases "a = own_id t")
    case True
    then have "rc_claimed_by c \<noteq> compose_claimed_by cl (rt_requested t)"
      using assms(4) release(4) by (simp add: claimed_by_def)
    then show ?thesis using assms(2) True by (simp add: release_claim_def claim_release_foreign)
  qed (simp add: release_claim_def claim_release_other assms(2))
  then show ?thesis using release assms(2) by auto
qed (use assms(2) in auto)

text \<open>A move that enters the working part has just won the claim; one that stays in it keeps the
  claims.\<close>

lemma move_own_claim:
  assumes "refresh_move V ttl t db t' db'" "working t'" "\<not> working t" "rt_claimant t = Some cl"
  shows "\<exists>c. td_claims db' (own_id t) = Some c \<and> rc_claimed_by c = claimed_by t"
  using assms by (cases rule: refresh_move.cases) (auto simp: claim_upsert_simps(2) claimed_by_def)

lemma move_keeps_claims:
  assumes "refresh_move V ttl t db t' db'" "working t"
  shows "td_claims db' = td_claims db \<and> td_clock db' = td_clock db"
  using assms by (cases rule: refresh_move.cases) auto

lemma claims_inv_run:
  assumes "claims_inv s" "tasks_inv V claimants s" "cluster_laws V claimants"
    and "rs_tasks s n = Some f" "task_step V decode ttl (fl_task f) (rs_db s) t' db'"
  shows "claims_inv (run_task V n f t' db' s)"
proof -
  note ok = tasks_inv_task [OF assms(2,4)]
  have "vault_laws V" using assms(3) by (simp add: cluster_laws_def)
  note move = task_step_refines [OF assms(5) ok(1,4) this]
  have same: "own_id t' = own_id (fl_task f)" "claimed_by t' = claimed_by (fl_task f)"
    using task_identity [OF assms(5)] task_account [OF assms(5) ok(4)] by (simp_all add: claimed_by_def)
  let ?s = "run_task V n f t' db' s"
  have others: "\<exists>c. td_claims db' (own_id (fl_task g)) = Some c \<and> rc_claimed_by c = claimed_by (fl_task g) \<and> rc_expires_at c = fl_held g"
    if g: "rs_tasks s m = Some g" "m \<noteq> n" "live ?s g" for m g
  proof -
    have "live s g" using g(3) move_clock [OF move] by (simp add: live_def)
    with assms(1) g(1) obtain c where c: "td_claims (rs_db s) (own_id (fl_task g)) = Some c"
      "rc_claimed_by c = claimed_by (fl_task g)" "rc_expires_at c = fl_held g"
      by (auto simp: claims_inv_def)
    have "claimed_by (fl_task g) \<noteq> claimed_by (fl_task f)" if "own_id (fl_task g) = own_id (fl_task f)"
      using claimed_by_unique [OF assms(2,3) g(1) assms(4)] live_working [OF \<open>live s g\<close>] move_running [OF move] g(2) that by blast
    then have "td_claims db' (own_id (fl_task g)) = Some c"
      using move_foreign_claim [OF move c(1)] c(2,3) g(3) by (auto simp: live_def)
    with c show ?thesis by blast
  qed
  have own: "\<exists>c. td_claims db' (own_id t') = Some c \<and> rc_claimed_by c = claimed_by t' \<and> rc_expires_at c = granted_until f db'"
    if "working t'" "td_clock db' \<le> granted_until f db'"
  proof (cases "working (fl_task f)")
    case True
    then have "live s f" using that move_keeps_claims [OF move] by (simp add: live_def)
    then show ?thesis using assms(1,4) True move_keeps_claims [OF move] same by (auto simp: claims_inv_def)
  next
    case False
    then show ?thesis using move_own_claim [OF move that(1) _ ok(2)] same by (auto simp: granted_until_def)
  qed
  show ?thesis
    unfolding claims_inv_def
  proof (intro allI impI)
    fix m g
    assume g: "rs_tasks ?s m = Some g" "live ?s g"
    show "\<exists>c. td_claims (rs_db ?s) (own_id (fl_task g)) = Some c \<and> rc_claimed_by c = claimed_by (fl_task g) \<and> rc_expires_at c = fl_held g"
    proof (cases "m = n")
      case True
      then show ?thesis using g own by (auto simp: live_def)
    next
      case False
      then show ?thesis using g others [of m g] by simp
    qed
  qed
qed

lemma claims_inv_step:
  assumes "raw_step V decode ttl cooldown claimants s s'" "claims_inv s" "tasks_inv V claimants s" "cluster_laws V claimants"
  shows "claims_inv s'"
  using assms(1)
proof (cases rule: raw_step.cases)
  case (start now acc p sf n attached budget tick)
  then show ?thesis using assms(2) by (auto simp: claims_inv_def live_def)
next
  case (run n f t' db')
  then show ?thesis using claims_inv_run [OF assms(2-4)] by simp
next
  case (tick now)
  then have "live s f" if "live s' f" for f using that by (simp add: live_def)
  then show ?thesis using tick assms(2) by (auto simp: claims_inv_def)
next
  case (remove a)
  show ?thesis
    unfolding remove claims_inv_def
  proof (intro allI impI)
    fix n f
    assume "rs_tasks (remove_account a s) n = Some f" "live (remove_account a s) f"
    then have "rs_tasks s n = Some f" "live s f" "own_id (fl_task f) \<noteq> a" using remove_live by blast+
    then show "\<exists>c. td_claims (rs_db (remove_account a s)) (own_id (fl_task f)) = Some c \<and> rc_claimed_by c = claimed_by (fl_task f)
        \<and> rc_expires_at c = fl_held f"
      using assms(2) by (simp add: claims_inv_def)
  qed
next
  case (crash p)
  then show ?thesis using assms(2) by (auto simp: claims_inv_def live_def crash_def split: option.splits if_splits)
qed (use assms(2) in \<open>simp_all add: claims_inv_def live_def\<close>)

subsection \<open>Tokens\<close>

lemma move_spends:
  assumes "refresh_move V ttl t db t' db'" "resolving V t = None" "resolving V t' = Some p"
  shows "sending V t = Some p \<and> sending V t' = None \<and> pending_token V t = None \<and> working t \<and> working t' \<and> db' = db"
  using assms by (cases rule: refresh_move.cases) (auto simp: idle_views)

lemma move_sends:
  assumes "refresh_move V ttl t db t' db'" "sending V t' = Some p"
  shows "sending V t = Some p \<or> (\<exists>row. stored (own_id t) db = Some row \<and> plain V row = Some p) \<or> plain V (rt_account t) = Some p"
  using assms by (cases rule: refresh_move.cases) (auto simp: idle_views split: option.splits)

lemma move_rows:
  assumes "refresh_move V ttl t db t' db'" "stored a db' = Some row'"
  shows "(\<exists>row. stored a db = Some row \<and> plain V row = plain V row')
    \<or> (a = own_id t \<and> pending_token V t = plain V row' \<and> pending_token V t \<noteq> None \<and> pending_token V t' = None)"
  using assms
  by (cases rule: refresh_move.cases)
    (auto simp: update_conv plain_def idle_views split: if_splits)

lemma move_account:
  assumes "account_follows V t db t'" "plain V (rt_account t') = Some q"
  shows "plain V (rt_account t) = Some q \<or> (\<exists>row. stored (own_id t) db = Some row \<and> plain V row = Some q)
    \<or> (pending_token V t = Some q \<and> pending_token V t' = None)"
  using assms by (auto simp: account_follows_def)

lemma known_inv_run:
  assumes "known_inv V s" "rs_tasks s n = Some f" "refresh_move V ttl (fl_task f) (rs_db s) t' db'"
    and "account_follows V (fl_task f) (rs_db s) t'"
  shows "known_inv V (run_task V n f t' db' s)"
proof -
  have rows: "p \<in> rs_known s" if "stored a (rs_db s) = Some row" "plain V row = Some p" for a row p
    using assms(1) that by (auto simp: known_inv_def tokens_of_subset)
  have task: "p \<in> rs_known s" if "plain V (rt_account (fl_task f)) = Some p \<or> sending V (fl_task f) = Some p \<or> pending_token V (fl_task f) = Some p" for p
    using assms(1,2) that by (auto simp: known_inv_def tokens_of_subset)
  have "p \<in> rs_known s" if "stored a db' = Some row" "plain V row = Some p" for a row p
    using move_rows [OF assms(3) that(1)] that(2) rows task by fastforce
  moreover have "p \<in> rs_known s" if "plain V (rt_account t') = Some p" for p
    using move_account [OF assms(4) that] rows task by blast
  moreover have "p \<in> rs_known s" if "sending V t' = Some p" for p
    using move_sends [OF assms(3) that] rows task by blast
  moreover have "p \<in> rs_known s" if "resolving V (fl_task f) = None" "resolving V t' = Some p" for p
    using move_spends [OF assms(3) that] task by blast
  ultimately show ?thesis
    using assms(1) by (auto simp: known_inv_def tokens_of_subset split: if_splits) (auto simp: tokens_of_def split: option.splits)
qed

text \<open>A token that is nowhere but with one task stays so, unless that task stores it or another gets it.\<close>

lemma clean_run:
  assumes "clean V s q k" "rs_tasks s n = Some f" "refresh_move V ttl (fl_task f) (rs_db s) t' db'"
    and "account_follows V (fl_task f) (rs_db s) t'"
    and "pending_token V (fl_task f) = Some q \<Longrightarrow> pending_token V t' = Some q" "pending_token V t' = Some q \<Longrightarrow> n = k"
  shows "clean V (run_task V n f t' db' s) q k"
proof -
  have task: "plain V (rt_account (fl_task f)) \<noteq> Some q" "sending V (fl_task f) \<noteq> Some q"
    using assms(1,2) by (auto simp: clean_def)
  have rows: "plain V row \<noteq> Some q" if "stored a (rs_db s) = Some row" for a row using assms(1) that by (auto simp: clean_def)
  have "plain V row \<noteq> Some q" if "stored a db' = Some row" for a row
    using move_rows [OF assms(3) that] rows assms(5) by auto
  moreover have "plain V (rt_account t') \<noteq> Some q"
    using move_account [OF assms(4)] task rows assms(5) by fastforce
  moreover have "sending V t' \<noteq> Some q" using move_sends [OF assms(3)] task rows by blast
  moreover have "resolving V t' \<noteq> Some q" if "resolving V (fl_task f) = None"
    using move_spends [OF assms(3) that] task by blast
  ultimately show ?thesis
    using assms(1,6) by (auto simp: clean_def tokens_of_def split: if_splits option.splits)
qed

lemma fresh_inv_run:
  assumes "fresh_inv V s" "known_inv V s" "rs_tasks s n = Some f" "refresh_move V ttl (fl_task f) (rs_db s) t' db'"
    and "account_follows V (fl_task f) (rs_db s) t'"
    and "\<And>q. pending_token V (fl_task f) = None \<Longrightarrow> pending_token V t' = Some q \<Longrightarrow> q \<notin> rs_known s"
  shows "fresh_inv V (run_task V n f t' db' s)"
proof -
  have same: "pending_token V t' = pending_token V (fl_task f) \<or> pending_token V t' = None \<or> pending_token V (fl_task f) = None"
    using assms(4) by (cases rule: refresh_move.cases) (auto simp: idle_views)
  have known: "q \<in> rs_known s" if "rs_tasks s k = Some g" "pending_token V (fl_task g) = Some q" for k g q
    using assms(2) that by (auto simp: known_inv_def tokens_of_subset)
  have unknown: "clean V s q n" if "q \<notin> rs_known s" for q
    using assms(2) that by (auto simp: clean_def known_inv_def tokens_of_subset image_subset_iff)
  have own: "clean V (run_task V n f t' db' s) q n" if q: "pending_token V t' = Some q" for q
  proof -
    have "clean V s q n"
    proof (cases "pending_token V (fl_task f)")
      case None
      then show ?thesis using unknown assms(6) q by blast
    next
      case (Some p)
      then show ?thesis using same q assms(1,3) by (auto simp: fresh_inv_def)
    qed
    then show ?thesis using clean_run [OF _ assms(3-5)] q by blast
  qed
  have others: "clean V (run_task V n f t' db' s) q k" if g: "rs_tasks s k = Some g" "k \<noteq> n" "pending_token V (fl_task g) = Some q" for k g q
  proof -
    have cl: "clean V s q k" using assms(1) g by (auto simp: fresh_inv_def)
    then have "pending_token V (fl_task f) \<noteq> Some q" using assms(3) g(2) by (auto simp: clean_def)
    moreover from this have "pending_token V t' \<noteq> Some q" using same assms(6) known [OF g(1,3)] by auto
    ultimately show ?thesis using clean_run [OF cl assms(3-5)] by blast
  qed
  show ?thesis unfolding fresh_inv_def using own others by auto
qed

lemma tokens_inv_step:
  assumes "raw_step V decode ttl cooldown claimants s s'" "known_inv V s" "fresh_inv V s" "tasks_inv V claimants s" "vault_laws V"
  shows "known_inv V s' \<and> fresh_inv V s'"
  using assms(1)
proof (cases rule: raw_step.cases)
  case (start now acc p sf n attached budget tick)
  then show ?thesis
    using assms(2,3) by (auto simp: known_inv_def fresh_inv_def clean_def tokens_of_subset unissued_def idle_views)
next
  case (run n f t' db')
  note ok = tasks_inv_task [OF assms(4) run(2)]
  note move = task_step_refines [OF run(3) ok(1,4) assms(5)] and follows = account_follows_step [OF run(3) ok(1)]
  show ?thesis
    unfolding run(1)
    using known_inv_run [OF assms(2) run(2) move follows] fresh_inv_run [OF assms(3,2) run(2) move follows run(4)] by blast
next
  case (peer a row)
  then show ?thesis
    using assms(2,3)
    by (auto simp: known_inv_def fresh_inv_def clean_def tokens_of_subset peer_write_def unissued_def update_conv split: if_splits)
next
  case (remove a)
  have rows: "stored b (rs_db s) = Some row" if "stored b (rs_db (remove_account a s)) = Some row" for b row
    using that by (simp split: if_splits)
  have "known_inv V (remove_account a s)"
    unfolding known_inv_def
  proof (intro conjI allI impI)
    fix n g
    assume "rs_tasks (remove_account a s) n = Some g"
    from remove_task(1) [OF this] obtain f where "rs_tasks s n = Some f" "fl_task g = fl_task f" by blast
    then show "tokens_of (plain V (rt_account (fl_task g))) \<union> tokens_of (sending V (fl_task g)) \<union> tokens_of (pending_token V (fl_task g))
        \<subseteq> rs_known (remove_account a s)"
      using assms(2) by (simp add: known_inv_def)
  next
    fix b row
    assume "stored b (rs_db (remove_account a s)) = Some row"
    from rows [OF this] show "tokens_of (plain V row) \<subseteq> rs_known (remove_account a s)"
      using assms(2) by (simp add: known_inv_def)
  next
    show "snd ` rs_spent (remove_account a s) \<subseteq> rs_known (remove_account a s)"
      using assms(2) by (simp add: known_inv_def)
  qed
  moreover have "clean V (remove_account a s) q n" if cl: "clean V s q n" for q n
    unfolding clean_def
  proof (intro conjI allI impI)
    fix m g
    assume "rs_tasks (remove_account a s) m = Some g"
    from remove_task(1) [OF this] obtain f where "rs_tasks s m = Some f" "fl_task g = fl_task f" by blast
    then show "plain V (rt_account (fl_task g)) \<noteq> Some q" "sending V (fl_task g) \<noteq> Some q"
      "pending_token V (fl_task g) = Some q \<Longrightarrow> m = n"
      using cl by (simp_all add: clean_def)
  next
    fix b row
    assume "stored b (rs_db (remove_account a s)) = Some row"
    from rows [OF this] show "plain V row \<noteq> Some q" using cl by (simp add: clean_def)
  qed (use cl in \<open>simp add: clean_def\<close>)
  then have "fresh_inv V (remove_account a s)"
    using assms(3) remove_task(1) [of a s] unfolding fresh_inv_def by metis
  ultimately show ?thesis using remove by blast
next
  case (crash p)
  then show ?thesis
    using assms(2,3) by (auto simp: crash_def known_inv_def fresh_inv_def clean_def split: option.splits if_splits)
qed (use assms(2,3) in \<open>simp_all add: known_inv_def fresh_inv_def clean_def\<close>)

subsection \<open>Spent tokens\<close>

lemma resolving_working: "resolving V t = Some p \<Longrightarrow> working t"
  using idle_views(2) by fastforce

text \<open>What it means that a spent token is not lost after a step.\<close>

lemma not_lost:
  assumes "(a, p) \<in> rs_spent s" "(a, p) \<notin> rs_lost (settle V s)"
  shows "(a, p) \<notin> rs_lost s" "\<exists>row. stored a (rs_db s) = Some row"
    "\<And>n f. rs_tasks s n = Some f \<Longrightarrow> own_id (fl_task f) = a \<Longrightarrow> resolving V (fl_task f) = Some p \<Longrightarrow> live s f"
  using assms resolving_working by (fastforce simp: settle_def live_def)+

lemma settlingI:
  assumes "(a, p) \<in> rs_spent s" "(a, p) \<notin> rs_lost (settle V s)"
    and "rs_tasks s n = Some f" "own_id (fl_task f) = a" "resolving V (fl_task f) = Some p"
  shows "settling V s a p"
  using assms not_lost(3) [OF assms(1,2)] by (auto simp: settling_def)

text \<open>The invariant after a step, when the token was spent before it: the row is as before or terminal,
  and a task that was settling the token still is.\<close>

lemma spent_inv_kept:
  assumes "spent_inv V s" "(a, p) \<in> rs_spent s" "(a, p) \<in> rs_spent s'" "(a, p) \<notin> rs_lost (settle V s')" "rs_lost s \<subseteq> rs_lost s'"
    and "stored a (rs_db s') = Some row'" "plain V row' = Some p"
    and "acc_status row' \<in> set TERMINAL_REFRESH_STATUSES \<or>
      (\<exists>row. stored a (rs_db s) = Some row \<and> plain V row = Some p \<and>
         (acc_status row \<in> set TERMINAL_REFRESH_STATUSES \<longrightarrow> acc_status row' \<in> set TERMINAL_REFRESH_STATUSES))"
    and "\<And>n f. rs_tasks s n = Some f \<Longrightarrow> own_id (fl_task f) = a \<Longrightarrow> resolving V (fl_task f) = Some p \<Longrightarrow>
      \<exists>n f. rs_tasks s' n = Some f \<and> own_id (fl_task f) = a \<and> resolving V (fl_task f) = Some p"
  shows "acc_status row' \<in> set TERMINAL_REFRESH_STATUSES \<or> settling V s' a p"
proof (rule ccontr)
  assume no: "\<not> ?thesis"
  with assms(8) obtain row where row: "stored a (rs_db s) = Some row" "plain V row = Some p"
    "acc_status row \<notin> set TERMINAL_REFRESH_STATUSES" by auto
  have "(a, p) \<in> rs_spent s - rs_lost s" using assms(2,5) not_lost(1) [OF assms(3,4)] by auto
  with assms(1) row have "settling V s a p" by (fastforce simp: spent_inv_def)
  then have "settling V s' a p" using assms(9) settlingI [OF assms(3,4)] unfolding settling_def by metis
  with no show False by blast
qed

lemma move_settles:
  assumes "refresh_move V ttl t db t' db'" "resolving V t = Some p" "\<not> ends_badly t'" "own_id t' = own_id t"
    and "stored (own_id t) db' = Some row'" "plain V row' = Some p" "acc_status row' \<notin> set TERMINAL_REFRESH_STATUSES"
    and "pending_token V t \<noteq> Some p"
  shows "resolving V t' = Some p"
  using assms
  by (cases rule: refresh_move.cases) (auto simp: idle_views resolved_def update_conv split: option.splits)

lemma move_row_status:
  assumes "refresh_move V ttl t db t' db'" "stored a db' = Some row'" "pending_token V t \<noteq> plain V row' \<or> pending_token V t = None"
  shows "acc_status row' \<in> set TERMINAL_REFRESH_STATUSES \<or> stored a db = Some row'"
  using assms by (cases rule: refresh_move.cases) (auto simp: update_conv split: if_splits)

lemma run_task_lost:
  "rs_lost s \<subseteq> rs_lost (run_task V n f t' db' s)"
  "resolving V (fl_task f) = Some p \<Longrightarrow> ends_badly t' \<Longrightarrow> (own_id (fl_task f), p) \<in> rs_lost (run_task V n f t' db' s)"
  by (auto simp: run_task_def Let_def)

lemma pending_unspent:
  assumes "fresh_inv V s" "rs_tasks s n = Some f" "(a, p) \<in> rs_spent s"
  shows "pending_token V (fl_task f) \<noteq> Some p"
proof
  assume "pending_token V (fl_task f) = Some p"
  then have "clean V s p n" using assms(1,2) by (simp add: fresh_inv_def)
  then show False using imageI [OF assms(3), of snd] by (simp add: clean_def)
qed

lemma run_stored_inv:
  assumes "spent_inv V s" "fresh_inv V s" "rs_tasks s n = Some f" "refresh_move V ttl (fl_task f) (rs_db s) t' db'"
    and "own_id t' = own_id (fl_task f)" "s' = run_task V n f t' db' s" "(a, p) \<in> rs_spent s'" "(a, p) \<notin> rs_lost (settle V s')"
    and "stored a db' = Some row'" "plain V row' = Some p"
  shows "acc_status row' \<in> set TERMINAL_REFRESH_STATUSES \<or> settling V s' a p"
proof (cases "(a, p) \<in> rs_spent s")
  case True
  note kept = move_row_status [OF assms(4,9)] and pend = pending_unspent [OF assms(2,3) True]
  show ?thesis
  proof (cases "acc_status row' \<in> set TERMINAL_REFRESH_STATUSES")
    case False
    have "\<exists>m g. rs_tasks s' m = Some g \<and> own_id (fl_task g) = a \<and> resolving V (fl_task g) = Some p"
      if g: "rs_tasks s m = Some g" "own_id (fl_task g) = a" "resolving V (fl_task g) = Some p" for m g
    proof (cases "m = n")
      case True
      then have "\<not> ends_badly t'"
        using g assms(3) run_task_lost(2) [of V f p t' n db' s] not_lost(1) [OF assms(7,8)] assms(6) by auto
      then have "resolving V t' = Some p"
        using True g assms(3,9,10) False pend by (intro move_settles [OF assms(4) _ _ assms(5), where row' = row']) auto
      then show ?thesis using True g assms(3,5,6) by (intro exI [of _ n]) auto
    next
      case False
      then show ?thesis using g assms(6) by (intro exI [of _ m]) auto
    qed
    moreover have "stored a (rs_db s) = Some row'" using kept pend assms(10) False by auto
    ultimately show ?thesis
      using assms(6,9,10) run_task_lost(1) [of s V n f t' db']
      by (intro spent_inv_kept [OF assms(1) True assms(7,8)]) auto
  qed simp
next
  case False
  then have "resolving V t' = Some p" "a = own_id (fl_task f)" using assms(6,7) by (auto simp: tokens_of_def split: if_splits option.splits)
  then show ?thesis
    using settlingI [OF assms(7,8), of n "f\<lparr>fl_task := t', fl_held := granted_until f db'\<rparr>"] assms(5,6) by simp
qed

lemma run_sending_inv:
  assumes "spent_inv V s" "tasks_inv V claimants s" "claims_inv s" "cluster_laws V claimants" "rs_tasks s n = Some f"
    and "refresh_move V ttl (fl_task f) (rs_db s) t' db'" "own_id t' = own_id (fl_task f)" "s' = run_task V n f t' db' s"
    and "rs_tasks s' m = Some g" "live s' g" "sending V (fl_task g) = Some p"
  shows "(own_id (fl_task g), p) \<notin> rs_spent s' - rs_lost (settle V s')"
proof
  assume "(own_id (fl_task g), p) \<in> rs_spent s' - rs_lost (settle V s')"
  then have spent: "(own_id (fl_task g), p) \<in> rs_spent s'" "(own_id (fl_task g), p) \<notin> rs_lost (settle V s')" by auto
  have old_lost: "(own_id (fl_task g), p) \<notin> rs_lost s"
    using not_lost(1) [OF spent] run_task_lost(1) [of s V n f t' db'] assms(8) by auto
  have K: "(own_id (fl_task h), q) \<notin> rs_spent s - rs_lost s"
    if "rs_tasks s k = Some h" "live s h" "sending V (fl_task h) = Some q" for k h q
    using assms(1) that by (auto simp: spent_inv_def)
  show False
  proof (cases "m = n")
    case True
    then have g: "fl_task g = t'" "fl_held g = granted_until f db'" using assms(8,9) by auto
    have "resolving V t' = None" if "resolving V (fl_task f) = None"
      using move_spends [OF assms(6) that] assms(11) g by fastforce
    then have old: "(own_id t', p) \<in> rs_spent s"
      using spent(1) assms(8) g by (auto split: if_splits)
    from assms(6) show False
    proof (cases rule: refresh_move.cases)
      case (start q)
      then have "live s f" using assms(8,10) g by (simp add: live_def)
      obtain row where row: "stored (own_id (fl_task f)) (rs_db s) = Some row"
        "plain V row = Some p \<longrightarrow> acc_status row \<in> set TERMINAL_REFRESH_STATUSES \<or> settling V s (own_id (fl_task f)) p"
        using assms(1,7) old old_lost g by (fastforce simp: spent_inv_def)
      with start assms(11) g have "settling V s (own_id (fl_task f)) p" by auto
      then obtain k h where h: "rs_tasks s k = Some h" "live s h" "own_id (fl_task h) = own_id (fl_task f)"
        "resolving V (fl_task h) = Some p" by (auto simp: settling_def)
      then have "k = n" using live_unique [OF assms(2-4) h(1) assms(5) h(2) \<open>live s f\<close> h(3)] by simp
      then show False using h assms(5) start by simp
    next
      case proceed
      then have "live s f" "sending V (fl_task f) = Some p" using assms(8,10,11) g by (auto simp: live_def)
      then show False using K [OF assms(5)] old old_lost g assms(7) by auto
    qed (use assms(11) g in \<open>auto simp: idle_views\<close>)
  next
    case False
    then have g: "rs_tasks s m = Some g" using assms(8,9) by simp
    have "live s g" using assms(8,10) move_clock [OF assms(6)] by (simp add: live_def)
    then have "(own_id (fl_task g), p) \<notin> rs_spent s" using K [OF g] assms(11) old_lost by auto
    then have new: "resolving V (fl_task f) = None" "resolving V t' = Some p" "own_id (fl_task f) = own_id (fl_task g)"
      using spent(1) assms(8) by (auto simp: tokens_of_def split: if_splits option.splits)
    have "live s' (f\<lparr>fl_task := t', fl_held := granted_until f db'\<rparr>)"
      using not_lost(3) [OF spent, of n] new assms(7,8) by simp
    then have "live s f" using move_spends [OF assms(6) new(1,2)] assms(8) by (simp add: live_def)
    then show False using live_unique [OF assms(2-4,5) g _ \<open>live s g\<close> new(3)] False by simp
  qed
qed

text \<open>The invariant after a step that starts no live task and spends nothing.\<close>

lemma spent_inv_settle:
  assumes "spent_inv V s" "rs_spent s' = rs_spent s" "rs_lost s \<subseteq> rs_lost s'"
    and "\<And>n f. rs_tasks s' n = Some f \<Longrightarrow> live s' f \<Longrightarrow> sending V (fl_task f) \<noteq> None \<Longrightarrow> rs_tasks s n = Some f \<and> live s f"
    and "\<And>a p row'. (a, p) \<in> rs_spent s \<Longrightarrow> (a, p) \<notin> rs_lost s' \<Longrightarrow> stored a (rs_db s') = Some row' \<Longrightarrow> plain V row' = Some p \<Longrightarrow>
      \<exists>row. stored a (rs_db s) = Some row \<and> plain V row = Some p \<and>
        (acc_status row \<in> set TERMINAL_REFRESH_STATUSES \<longrightarrow> acc_status row' \<in> set TERMINAL_REFRESH_STATUSES)"
    and "\<And>n f a p. rs_tasks s n = Some f \<Longrightarrow> own_id (fl_task f) = a \<Longrightarrow> resolving V (fl_task f) = Some p \<Longrightarrow>
      (a, p) \<notin> rs_lost s' \<Longrightarrow> \<exists>g. rs_tasks s' n = Some g \<and> fl_task g = fl_task f"
  shows "spent_inv V (settle V s')"
proof -
  have J: "\<exists>row'. stored a (rs_db s') = Some row' \<and>
      (plain V row' = Some p \<longrightarrow> acc_status row' \<in> set TERMINAL_REFRESH_STATUSES \<or> settling V s' a p)"
    if ap: "(a, p) \<in> rs_spent s'" "(a, p) \<notin> rs_lost (settle V s')" for a p
  proof -
    obtain row' where row': "stored a (rs_db s') = Some row'" using not_lost(2) [OF ap] by blast
    have "acc_status row' \<in> set TERMINAL_REFRESH_STATUSES \<or> settling V s' a p" if "plain V row' = Some p"
    proof (rule spent_inv_kept [OF assms(1) _ ap assms(3) row' that])
      show "(a, p) \<in> rs_spent s" using ap(1) assms(2) by simp
      then show "acc_status row' \<in> set TERMINAL_REFRESH_STATUSES \<or> (\<exists>row. stored a (rs_db s) = Some row \<and> plain V row = Some p \<and>
          (acc_status row \<in> set TERMINAL_REFRESH_STATUSES \<longrightarrow> acc_status row' \<in> set TERMINAL_REFRESH_STATUSES))"
        using assms(5) [OF _ not_lost(1) [OF ap] row' that] by blast
    qed (use assms(6) not_lost(1) [OF ap] in metis)
    with row' show ?thesis by blast
  qed
  have K: "(own_id (fl_task f), p) \<notin> rs_spent s' - rs_lost (settle V s')"
    if f: "rs_tasks s' n = Some f" "live s' f" "sending V (fl_task f) = Some p" for n f p
  proof -
    have "(own_id (fl_task f), p) \<notin> rs_spent s - rs_lost s"
      using assms(1,4) f by (fastforce simp: spent_inv_def)
    then show ?thesis using assms(2,3) by (auto simp: settle_def)
  qed
  show ?thesis
    unfolding spent_inv_def by (intro conjI allI impI) (use J K in \<open>auto\<close>)
qed

lemma spent_inv_run:
  assumes "spent_inv V s" "fresh_inv V s" "tasks_inv V claimants s" "claims_inv s" "cluster_laws V claimants"
    and "rs_tasks s n = Some f" "task_step V decode ttl (fl_task f) (rs_db s) t' db'"
  shows "spent_inv V (settle V (run_task V n f t' db' s))"
proof -
  note ok = tasks_inv_task [OF assms(3,6)]
  have "vault_laws V" using assms(5) by (simp add: cluster_laws_def)
  note move = task_step_refines [OF assms(7) ok(1,4) this] and own = task_account [OF assms(7) ok(4)]
  let ?s = "run_task V n f t' db' s"
  have "\<exists>row. stored a db' = Some row \<and>
      (plain V row = Some p \<longrightarrow> acc_status row \<in> set TERMINAL_REFRESH_STATUSES \<or> settling V ?s a p)"
    if ap: "(a, p) \<in> rs_spent ?s" "(a, p) \<notin> rs_lost (settle V ?s)" for a p
    using not_lost(2) [OF ap] run_stored_inv [OF assms(1,2,6) move own refl ap] by (metis run_task_simps(1))
  moreover have "(own_id (fl_task g), p) \<notin> rs_spent ?s - rs_lost (settle V ?s)"
    if "rs_tasks ?s m = Some g" "live ?s g" "sending V (fl_task g) = Some p" for m g p
    by (rule run_sending_inv [OF assms(1,3,4,5,6) move own refl that])
  ultimately show ?thesis
    unfolding spent_inv_def settle_simps inv_settle run_task_simps(1) by blast
qed

lemma spent_inv_step:
  assumes "raw_step V decode ttl cooldown claimants s s'" "spent_inv V s" "fresh_inv V s" "tasks_inv V claimants s"
    and "claims_inv s" "cluster_laws V claimants"
  shows "spent_inv V (settle V s')"
  using assms(1)
proof (cases rule: raw_step.cases)
  case (start now acc p sf n attached budget tick)
  then show ?thesis by (intro spent_inv_settle [OF assms(2)]) (auto simp: live_def split: if_splits)
next
  case (run n f t' db')
  then show ?thesis using spent_inv_run [OF assms(2-6)] by simp
next
  case (peer a row)
  then show ?thesis
    by (intro spent_inv_settle [OF assms(2)]) (auto simp: live_def put_back_def update_conv split: if_splits)
next
  case (remove a)
  then show ?thesis
    by (intro spent_inv_settle [OF assms(2)]) (auto dest: remove_live remove_task(2) split: if_splits)
next
  case (tick now)
  then show ?thesis by (intro spent_inv_settle [OF assms(2)]) (auto simp: live_def)
next
  case (crash p)
  then show ?thesis
    by (intro spent_inv_settle [OF assms(2)]) (auto simp: live_def crash_def split: option.splits if_splits)
next
  case (share now key p answer sf)
  then show ?thesis by (intro spent_inv_settle [OF assms(2)]) (auto simp: live_def)
next
  case (complete n f out p now)
  then show ?thesis by (intro spent_inv_settle [OF assms(2)]) (auto simp: live_def)
qed

subsection \<open>All together\<close>

definition refresh_inv :: "TokenVault \<Rightarrow> string list \<Rightarrow> RefreshSystem \<Rightarrow> bool" where
  "refresh_inv V claimants s =
     (cluster_laws V claimants \<longrightarrow>
        tasks_inv V claimants s \<and> claims_inv s \<and> known_inv V s \<and> fresh_inv V s \<and> spent_inv V s)"

interpretation refreshes: invariant_system "system_start V" "system_step V decode ttl cooldown claimants" "refresh_inv V claimants"
  for V decode ttl cooldown claimants
proof unfold_locales
  fix s
  assume "system_start V s"
  then show "refresh_inv V claimants s"
    by (auto simp: system_start_def refresh_inv_def tasks_inv_def claims_inv_def known_inv_def fresh_inv_def
        spent_inv_def tokens_of_subset)
next
  fix s s'
  assume inv: "refresh_inv V claimants s" and "system_step V decode ttl cooldown claimants s s'"
  then obtain s1 where step: "raw_step V decode ttl cooldown claimants s s1" and s': "s' = settle V s1"
    by (auto simp: system_step.simps)
  show "refresh_inv V claimants s'"
    unfolding refresh_inv_def
  proof
    assume laws: "cluster_laws V claimants"
    then have "vault_laws V" by (simp add: cluster_laws_def)
    with inv laws step show "tasks_inv V claimants s' \<and> claims_inv s' \<and> known_inv V s' \<and> fresh_inv V s' \<and> spent_inv V s'"
      using tasks_inv_step [OF step] claims_inv_step [OF step] tokens_inv_step [OF step] spent_inv_step [OF step]
      by (simp add: refresh_inv_def s')
  qed
qed

end
