(* ===== verification/Refresh_Safety.thy ===== *)
theory Refresh_Safety
  imports Refresh_System
begin

text \<open>
  What the token refreshes of a cluster guarantee, from the invariants of \<open>Refresh_System\<close>: one refresh works
  on an account at a time, nothing a peer wrote is overwritten, a spent token is not sent again, and a
  refresh with the claim comes to an end. A run of two processes at the end shows that the hypotheses can be met.
\<close>

section \<open>Facts of reachable states\<close>

lemma reachable_refresh_inv:
  assumes "cluster_laws V claimants" "system_start V s" "(system_step V decode ttl cooldown claimants)\<^sup>*\<^sup>* s t"
  shows "tasks_inv V claimants t" "claims_inv t" "spent_inv V t" "vault_laws V"
  using refreshes.reachable_inv [OF assms(2,3)] assms(1) by (simp_all add: refresh_inv_def cluster_laws_def)

lemma move_overwrites:
  assumes "refresh_move V ttl t db t' db'" "stored a db = Some row"
  shows "\<exists>row'. stored a db' = Some row' \<and>
    (acc_refresh_token row' \<noteq> acc_refresh_token row \<longrightarrow>
       a = own_id t \<and> resolving V t = plain V row \<and> plain V row \<noteq> None \<and> plain V row' = pending_token V t) \<and>
    (acc_status row' \<noteq> acc_status row \<longrightarrow>
       a = own_id t \<and> acc_refresh_token row' = acc_refresh_token row \<and> blames V t (acc_refresh_token row))"
  using assms by (cases rule: refresh_move.cases) (auto simp: update_conv)

text \<open>Claimants derived from different process suffixes are different and fit their column.\<close>

lemma default_claimants:
  assumes "distinct (map snd ps)" "\<And>i x. (i, x) \<in> set ps \<Longrightarrow> CHR '':'' \<notin> set x \<and> length x + 1 \<le> CLAIMANT_ID_MAX_LEN"
  shows "distinct (map (\<lambda>(i, x). default_refresh_claimant_id i x) ps)
    \<and> (\<forall>c \<in> set (map (\<lambda>(i, x). default_refresh_claimant_id i x) ps). length c \<le> CLAIMANT_ID_MAX_LEN)"
proof -
  have "inj_on (\<lambda>(i, x). default_refresh_claimant_id i x) (set ps)"
  proof (rule inj_onI, clarify)
    fix i x j y
    assume p: "(i, x) \<in> set ps" "(j, y) \<in> set ps" "default_refresh_claimant_id i x = default_refresh_claimant_id j y"
    then have "x = y" using claimant_keeps_suffix assms(2) by blast
    then show "i = j \<and> x = y" using p(1,2) assms(1) by (force simp: distinct_map inj_on_def)
  qed
  moreover have "distinct ps" using assms(1) by (simp add: distinct_map)
  ultimately show ?thesis using claimant_length assms(2) by (auto simp: distinct_map)
qed

section \<open>Theorems\<close>

text \<open>C6: at any time at most one refresh of an account is between winning the claim and giving it up within the time the
  claim was granted for (which the deletion of the account ends), over all processes: two replicas never exchange the same account's refresh token at
  the same time.\<close>

theorem one_refresher_per_account:
  assumes "cluster_laws V claimants" "system_start V s" "(system_step V decode ttl cooldown claimants)\<^sup>*\<^sup>* s t"
    and "rs_tasks t n = Some f" "rs_tasks t m = Some g" "live t f" "live t g" "own_id (fl_task f) = own_id (fl_task g)"
  shows "n = m"
  using live_unique [OF _ _ assms(1,4-8)] reachable_refresh_inv [OF assms(1-3)] by blast

text \<open>C7: the token that a refresh with a running claim has sent upstream was not exchanged successfully by an earlier
  refresh of the account, with two exceptions. That refresh lost its new token: its process crashed, it ended in an exception
  after the exchange or it outlived its claim, or the account's row was deleted. Or another writer put the token back in
  use: a write of the row that is no refresh's stored it again, or took the account that held it out of a terminal status. (The
  endpoint answers with tokens that are new; a write that is no refresh's may store any row but not a token that only a
  running refresh has received, and no refresh starts from such a token.)\<close>

theorem spent_token_not_resent:
  assumes "cluster_laws V claimants" "system_start V s" "(system_step V decode ttl cooldown claimants)\<^sup>*\<^sup>* s t"
    and "rs_tasks t n = Some f" "live t f" "rt_pc (fl_task f) = Exchanging material dl"
  shows "\<exists>p. tv_decrypt V material = Some p \<and> (own_id (fl_task f), p) \<notin> rs_spent t - rs_lost t"
proof -
  note inv = reachable_refresh_inv [OF assms(1-3)]
  obtain p where p: "tv_decrypt V material = Some p"
    using tasks_inv_task(1) [OF inv(1) assms(4)] assms(6) by (auto simp: task_ok_def)
  then have "sending V (fl_task f) = Some p" using assms(6) by (simp add: sending_def)
  then show ?thesis using inv(3) assms(4,5) p by (auto simp: spent_inv_def)
qed

text \<open>C8: a step of a refresh, in any state the cluster can reach, deletes no row; it replaces a refresh token only where
  the row holds the very token this refresh has exchanged, and then by the one it got for it; it changes a
  status only where the row holds the token this refresh was asked for, consumed, or none that can be
  read. A rotation that a peer has committed in between is never overwritten.\<close>

theorem peer_rotation_kept:
  assumes "cluster_laws V claimants" "system_start V s" "(system_step V decode ttl cooldown claimants)\<^sup>*\<^sup>* s t"
    and "rs_tasks t n = Some f" "task_step V decode ttl (fl_task f) (rs_db t) u db'" "stored a (rs_db t) = Some row"
  shows "\<exists>row'. stored a db' = Some row' \<and>
    (acc_refresh_token row' \<noteq> acc_refresh_token row \<longrightarrow>
       a = own_id (fl_task f) \<and> resolving V (fl_task f) = plain V row \<and> plain V row \<noteq> None
       \<and> plain V row' = pending_token V (fl_task f)) \<and>
    (acc_status row' \<noteq> acc_status row \<longrightarrow>
       a = own_id (fl_task f) \<and> acc_refresh_token row' = acc_refresh_token row
       \<and> blames V (fl_task f) (acc_refresh_token row))"
proof -
  note inv = reachable_refresh_inv [OF assms(1-3)] and ok = tasks_inv_task [OF reachable_refresh_inv(1) [OF assms(1-3)] assms(4)]
  show ?thesis by (rule move_overwrites [OF task_step_refines [OF assms(5) ok(1,4) inv(4)] assms(6)])
qed

text \<open>C31: once a refresh has won the claim of its account it takes at most thirty further steps of its own, whatever the
  other replicas do to the database in between and whatever fails, and until it is over it can take a step: it
  always comes to an end. Its last step is an attempt to release the claim, after which the account's claim is not its own,
  unless that was its third attempt, which may fail like the two before it and leave the claim to expire.\<close>

theorem claimed_refresh_ends:
  assumes "rt_pc t = Holding pd" "rt_claimant t \<noteq> None" "(task_runs V decode ttl ^^ k) t u"
  shows "k \<le> 30 \<and> (over u \<or> (\<exists>u'. task_runs V decode ttl u u')) \<and>
    (\<forall>db u' db'. task_step V decode ttl u db u' db' \<longrightarrow> over u' \<longrightarrow>
       (\<exists>n out. rt_pc u = Releasing n out \<and>
          (n = 2 \<or> (\<forall>c. td_claims db' (own_id u) = Some c \<longrightarrow> rc_claimed_by c \<noteq> claimed_by u))))"
proof -
  have "attempts_ok t" "\<not> claiming t" "steps_left t = 30" using assms(1) by (simp_all add: end_defs claiming_def)
  with task_chain [OF assms(3)] assms(2)
  have "attempts_ok u" "\<not> claiming u" "rt_claimant u \<noteq> None" "k + steps_left u \<le> 30" by auto
  then have bound: "k \<le> 30" "over u \<or> (\<exists>u'. task_runs V decode ttl u u')" using task_progress by fastforce+
  obtain me where me: "rt_claimant u = Some me" using \<open>rt_claimant u \<noteq> None\<close> by auto
  have "\<exists>n out. rt_pc u = Releasing n out \<and> (n = 2 \<or> (\<forall>c. td_claims db' (own_id u) = Some c \<longrightarrow> rc_claimed_by c \<noteq> claimed_by u))"
    if last: "task_step V decode ttl u db u' db'" "over u'" for db u' db'
    using step_over [OF last(1) \<open>\<not> claiming u\<close> me last(2)] \<open>attempts_ok u\<close> release_claim_own [of "own_id u" me]
    by (auto simp: claimed_by_def me default_to_def end_defs)
  with bound show ?thesis by blast
qed

section \<open>A sample run\<close>

text \<open>Two processes and one account. The first wins the claim, reads the row, sends the token and hears the
  answer; the second is refused.\<close>

definition sample_vault :: TokenVault where
  "sample_vault = \<lparr>tv_encrypt = (\<lambda>n p. p), tv_decrypt = Some,
     tv_sha256 = (\<lambda>x. map (\<lambda>c. if c = CHR ''#'' then CHR ''_'' else c) (take CLAIM_OWNER_TOKEN_LEN x))\<rparr>"

definition sample_decode :: "string \<Rightarrow> json option" where
  "sample_decode x = None"

definition sample_claimants :: "string list" where
  "sample_claimants = [''left:1-aa'', ''right:2-bb'']"

lemma sample_laws: "cluster_laws sample_vault sample_claimants"
  by (auto simp: cluster_laws_def vault_laws_def sample_vault_def sample_claimants_def claim_lengths dest: in_set_takeD split: if_splits)

definition sample_token_account :: TokenAccount where
  "sample_token_account =
     \<lparr>acc_id = ''acc'', acc_status = ACTIVE, acc_deactivation_reason = None, acc_reset_at = None, acc_blocked_at = None,
      acc_plan_type = ''plus'', acc_routing_policy = None, acc_refresh_token = ''r0'', acc_security_work_authorized = False,
      ta_access_token = ''a0'', ta_id_token = ''i0'', ta_last_refresh = 0, ta_chatgpt_account_id = None,
      ta_chatgpt_user_id = None, ta_email = ''me@example.com'', ta_workspace_id = None, ta_workspace_label = None,
      ta_seat_type = None\<rparr>"

definition sample_token_db :: TokenDb where
  "sample_token_db =
     \<lparr>td_accounts = [(''acc'', sample_token_account)], td_sticky = [],
      td_bridges = \<lparr>bs_sessions = [], bs_aliases = []\<rparr>, td_claims = Map.empty, td_clock = 0\<rparr>"

definition sample_task :: "nat \<Rightarrow> RefreshTask" where
  "sample_task p = refresh_account sample_vault (Some (sample_claimants ! p)) False None 0 sample_token_account"

definition sample_clock :: StatementClock where
  "sample_clock = \<lparr>sc_snapshot = 1, sc_write = 1, sc_return = 1\<rparr>"

definition sample_refresh_claim :: RefreshClaim where
  "sample_refresh_claim = \<lparr>rc_claimed_by = claimed_by (sample_task 0), rc_claimed_at = 1, rc_expires_at = 31\<rparr>"

definition sample_claimed_db :: TokenDb where
  "sample_claimed_db = sample_token_db\<lparr>td_claims := [''acc'' \<mapsto> sample_refresh_claim], td_clock := 1\<rparr>"

definition sample_empty :: RefreshSystem where
  "sample_empty = \<lparr>rs_db = sample_token_db, rs_tasks = Map.empty, rs_flights = (\<lambda>p. no_flights),
     rs_known = {''r0''}, rs_spent = {}, rs_lost = {}\<rparr>"

definition sample_started :: "nat \<Rightarrow> RefreshSystem \<Rightarrow> RefreshSystem" where
  "sample_started p s = s\<lparr>rs_tasks := (rs_tasks s)(p \<mapsto> \<lparr>fl_process = p, fl_task = sample_task p, fl_held = 0\<rparr>),
     rs_flights := (rs_flights s)(p := flight_started (refresh_singleflight_key sample_vault sample_token_account) p no_flights)\<rparr>"

text \<open>The system with the two tasks at given points.\<close>

definition sample_refreshing :: "refresh_pc \<Rightarrow> pyfloat \<Rightarrow> refresh_pc \<Rightarrow> TokenDb \<Rightarrow> RefreshSystem" where
  "sample_refreshing p0 h0 p1 db = (sample_started 1 (sample_started 0 sample_empty))\<lparr>rs_db := db,
     rs_tasks := [0 \<mapsto> \<lparr>fl_process = 0, fl_task = goto p0 (sample_task 0), fl_held = h0\<rparr>,
                  1 \<mapsto> \<lparr>fl_process = 1, fl_task = goto p1 (sample_task 1), fl_held = 0\<rparr>]\<rparr>"

abbreviation sample_sys_step :: "RefreshSystem \<Rightarrow> RefreshSystem \<Rightarrow> bool" where
  "sample_sys_step \<equiv> system_step sample_vault sample_decode 30 60 sample_claimants"

lemma settle_idle:
  assumes "\<And>n f. rs_tasks s n = Some f \<Longrightarrow> resolving V (fl_task f) = None" "rs_spent s = {}"
  shows "settle V s = s"
proof -
  have none: "{(a, p). \<exists>n f. rs_tasks s n = Some f \<and> own_id (fl_task f) = a \<and> resolving V (fl_task f) = Some p
      \<and> fl_held f < td_clock (rs_db s)} = {}" using assms(1) by fastforce
  show ?thesis unfolding settle_def none assms(2) by simp
qed

lemma goto_goto [simp]:
  "goto p (goto q t) = goto p t" "goto (rt_pc t) t = t" "rt_caller_deadline (goto p t) = rt_caller_deadline t"
  by (simp_all add: goto_def)

lemma sample_task_simps [simp]:
  "rt_pc (sample_task p) = Claiming 0" "rt_account (sample_task p) = sample_token_account" "own_id (sample_task p) = ''acc''"
  "rt_claimant (sample_task p) = Some (sample_claimants ! p)" "rt_attached (sample_task p) = False"
  "rt_requested (sample_task p) = ''r0''" "rt_caller_deadline (sample_task p) = None"
  by (simp_all add: sample_task_def refresh_account_def own_id_def sample_token_account_def fingerprint_def sample_vault_def
      default_to_def CLAIM_OWNER_TOKEN_LEN_def)

lemma sample_simps [simp]:
  "tv_decrypt sample_vault c = Some c" "acc_refresh_token sample_token_account = ''r0''" "acc_id sample_token_account = ''acc''"
  "acc_status sample_token_account = ACTIVE" "stored ''acc'' sample_token_db = Some sample_token_account"
  "plain sample_vault row = Some (acc_refresh_token row)" "fingerprint sample_vault ''r0'' = ''r0''"
  by (simp_all add: sample_vault_def sample_token_account_def sample_token_db_def plain_def fingerprint_def default_to_def
      CLAIM_OWNER_TOKEN_LEN_def)

lemma sample_flight_run: "flight_run e now key no_flights = (MustStart, no_flights)"
  by (simp add: flight_run_def purge_stale_versions_def no_flights_def join_or_start_def Let_def)

lemma sample_start:
  assumes "p < 2" "rs_tasks s p = None" "rs_flights s p = no_flights" "rs_spent s = {}" "''r0'' \<in> rs_known s"
    and "\<And>n f. rs_tasks s n = Some f \<Longrightarrow> rt_pc (fl_task f) = Claiming 0"
  shows "sample_sys_step s (sample_started p s)"
proof -
  have idle: "pending_token sample_vault (fl_task f) = None" if "rs_tasks s n = Some f" for n f
    using assms(6) [OF that] by (simp add: pending_token_def)
  have "raw_step sample_vault sample_decode 30 60 sample_claimants s
     (s\<lparr>rs_tasks := (rs_tasks s)(p \<mapsto> \<lparr>fl_process = p, fl_task = sample_task p, fl_held = 0\<rparr>),
        rs_flights := (rs_flights s)(p := flight_started (refresh_singleflight_key sample_vault sample_token_account) p no_flights),
        rs_known := rs_known s \<union> tokens_of (plain sample_vault sample_token_account)\<rparr>)"
    unfolding sample_task_def
    by (rule raw_step.start) (use assms idle in \<open>auto simp: sample_flight_run sample_claimants_def unissued_def\<close>)
  then have "raw_step sample_vault sample_decode 30 60 sample_claimants s (sample_started p s)"
    using assms(5) by (simp add: sample_started_def insert_absorb)
  moreover have "settle sample_vault (sample_started p s) = sample_started p s"
    by (rule settle_idle) (use assms(4,6) in \<open>auto simp: sample_started_def resolving_def split: if_splits\<close>)
  ultimately show ?thesis using system_step.intros by metis
qed

lemma sample_two: "sample_started 1 (sample_started 0 sample_empty) = sample_refreshing (Claiming 0) 0 (Claiming 0) sample_token_db"
  using goto_goto(2) [of "sample_task 0"] goto_goto(2) [of "sample_task 1"]
  by (simp add: sample_refreshing_def sample_started_def sample_empty_def)

lemma sample_both_start:
  "system_start sample_vault sample_empty"
  "sample_sys_step\<^sup>*\<^sup>* sample_empty (sample_refreshing (Claiming 0) 0 (Claiming 0) sample_token_db)"
proof -
  show "system_start sample_vault sample_empty"
    by (auto simp: system_start_def sample_empty_def db_ok_def sample_token_db_def split: if_splits)
  have "sample_sys_step sample_empty (sample_started 0 sample_empty)"
    by (rule sample_start) (simp_all add: sample_empty_def)
  moreover have "sample_sys_step (sample_started 0 sample_empty) (sample_started 1 (sample_started 0 sample_empty))"
    by (rule sample_start) (auto simp: sample_empty_def sample_started_def split: if_splits)
  ultimately show "sample_sys_step\<^sup>*\<^sup>* sample_empty (sample_refreshing (Claiming 0) 0 (Claiming 0) sample_token_db)"
    unfolding sample_two [symmetric] by simp
qed

text \<open>A step of one of the two tasks before anything is spent.\<close>

lemma sample_run:
  assumes "task_step sample_vault sample_decode 30 (goto p0 (sample_task 0)) db (goto p0' (sample_task 0)) db'"
    and "resolving sample_vault (goto p0' (sample_task 0)) = None" "pending_token sample_vault (goto p0' (sample_task 0)) = None"
    and "resolving sample_vault (goto p0 (sample_task 0)) = None" "resolving sample_vault (goto p1 (sample_task 1)) = None"
    and "h0' = granted_until \<lparr>fl_process = 0, fl_task = goto p0 (sample_task 0), fl_held = h0\<rparr> db'"
  shows "sample_sys_step (sample_refreshing p0 h0 p1 db) (sample_refreshing p0' h0' p1 db')"
proof -
  let ?f = "\<lparr>fl_process = 0, fl_task = goto p0 (sample_task 0), fl_held = h0\<rparr>"
  have "raw_step sample_vault sample_decode 30 60 sample_claimants (sample_refreshing p0 h0 p1 db)
     (run_task sample_vault 0 ?f (goto p0' (sample_task 0)) db' (sample_refreshing p0 h0 p1 db))"
    by (rule raw_step.run) (use assms in \<open>simp_all add: sample_refreshing_def\<close>)
  moreover have "run_task sample_vault 0 ?f (goto p0' (sample_task 0)) db' (sample_refreshing p0 h0 p1 db)
     = sample_refreshing p0' h0' p1 db'"
    using assms(2-4,6) by (simp add: run_task_def sample_refreshing_def Let_def fun_upd_twist)
  moreover have "settle sample_vault (sample_refreshing p0' h0' p1 db') = sample_refreshing p0' h0' p1 db'"
    by (rule settle_idle)
      (use assms(2,5) in \<open>auto simp: sample_refreshing_def sample_started_def sample_empty_def split: if_splits\<close>)
  ultimately show ?thesis using system_step.intros by metis
qed

lemma sample_prepares:
  "task_step sample_vault sample_decode 30 (goto (Holding 30) (sample_task 0)) sample_claimed_db
     (goto (Preparing ''r0'' None (Some 30)) (sample_task 0)) sample_claimed_db"
proof -
  have "task_step sample_vault sample_decode 30 (goto (Holding 30) (sample_task 0)) sample_claimed_db
      (answered Committed (after_hold sample_vault 0 30 (read_row (goto (Holding 30) (sample_task 0)) sample_claimed_db) (goto (Holding 30) (sample_task 0)))
         (goto (Holding 30) (sample_task 0))) sample_claimed_db"
    by (rule task_step.holds) simp
  moreover have "stored ''acc'' sample_claimed_db = Some sample_token_account" by (simp add: sample_claimed_db_def)
  ultimately show ?thesis
    by (simp add: answered_def after_hold_def begin_exchange_def perform_refresh_def TERMINAL_REFRESH_STATUSES_def seen_row_def)
qed

lemma sample_reaches_exchange:
  "sample_sys_step\<^sup>*\<^sup>* sample_empty
     (sample_refreshing (Exchanging ''r0'' (Some 30)) 31 (Claiming 0) sample_claimed_db)"
proof -
  have "task_step sample_vault sample_decode 30 (goto (Claiming 0) (sample_task 0)) sample_token_db
      (after_claim 30 0 0 Won (goto (Claiming 0) (sample_task 0))) (sample_token_db\<lparr>td_claims := [''acc'' \<mapsto> sample_refresh_claim], td_clock := sc_write sample_clock\<rparr>)"
    by (rule task_step.claims [where me = "sample_claimants ! 0" and fault = Ran])
      (simp_all add: sample_clock_def claim_clock_def sample_token_db_def claim_attempt_def claim_upsert_def sample_refresh_claim_def claimed_by_def default_to_def)
  then have "task_step sample_vault sample_decode 30 (goto (Claiming 0) (sample_task 0)) sample_token_db
      (goto (Holding 30) (sample_task 0)) sample_claimed_db"
    by (simp add: after_claim_def sample_clock_def sample_claimed_db_def goto_def)
  then have won: "sample_sys_step (sample_refreshing (Claiming 0) 0 (Claiming 0) sample_token_db)
      (sample_refreshing (Holding 30) 31 (Claiming 0) sample_claimed_db)"
    by (rule sample_run) (simp_all add: view_defs granted_until_def sample_claimed_db_def sample_refresh_claim_def)
  note sample_prepares
  then have held: "sample_sys_step (sample_refreshing (Holding 30) 31 (Claiming 0) sample_claimed_db)
      (sample_refreshing (Preparing ''r0'' None (Some 30)) 31 (Claiming 0) sample_claimed_db)"
    by (rule sample_run) (simp_all add: view_defs)
  have "task_step sample_vault sample_decode 30 (goto (Preparing ''r0'' None (Some 30)) (sample_task 0)) sample_claimed_db
      (after_prepare None (\<lambda>i. 0) NoGate NoRouteDirect ''r0'' (Some 30) (goto (Preparing ''r0'' None (Some 30)) (sample_task 0))) sample_claimed_db"
    by (rule task_step.prepares) simp
  then have "task_step sample_vault sample_decode 30 (goto (Preparing ''r0'' None (Some 30)) (sample_task 0)) sample_claimed_db
      (goto (Exchanging ''r0'' (Some 30)) (sample_task 0)) sample_claimed_db"
    by (simp add: after_prepare_def refresh_tokens_def)
  then have "sample_sys_step (sample_refreshing (Preparing ''r0'' None (Some 30)) 31 (Claiming 0) sample_claimed_db)
      (sample_refreshing (Exchanging ''r0'' (Some 30)) 31 (Claiming 0) sample_claimed_db)"
    by (rule sample_run) (simp_all add: view_defs)
  with sample_both_start(2) won held show ?thesis by (meson rtranclp.rtrancl_into_rtrancl)
qed

text \<open>The answer of the token endpoint, and the task that is about to write the new tokens.\<close>

definition sample_answer :: exchange where
  "sample_answer = Answered 200 (JObj [(''access_token'', JStr ''a1''), (''refresh_token'', JStr ''r1''), (''id_token'', JStr ''i1'')])"

definition sample_result :: TokenRefreshResult where
  "sample_result = token_result sample_decode ''a1'' ''r1'' ''i1''"

definition sample_write :: TokenWrite where
  "sample_write = rotation sample_vault (\<lambda>i. i) 7 sample_token_account sample_result None"

definition sample_persisting :: RefreshSystem where
  "sample_persisting = settle sample_vault
     (run_task sample_vault 0 \<lparr>fl_process = 0, fl_task = goto (Exchanging ''r0'' (Some 30)) (sample_task 0), fl_held = 31\<rparr>
        (goto (Persisting 0 sample_write (Some ''r0'') ''r0'' (Some 30)) (sample_task 0)) sample_claimed_db
        (sample_refreshing (Exchanging ''r0'' (Some 30)) 31 (Claiming 0) sample_claimed_db))"

lemma sample_result_simps:
  "refresh_access_token sample_decode sample_answer = Inr sample_result"
  "asks_for_slot sample_token_account sample_result = None" "next_workspace_id sample_token_account sample_result False = None"
  "tr_refresh_token sample_result = ''r1''"
  by code_simp+

lemma sample_write_token: "tw_refresh_token sample_write = ''r1''"
  by code_simp

lemma sample_reaches_persisting: "sample_sys_step\<^sup>*\<^sup>* sample_empty sample_persisting"
proof -
  let ?s = "sample_refreshing (Exchanging ''r0'' (Some 30)) 31 (Claiming 0) sample_claimed_db"
  have "task_step sample_vault sample_decode 30 (goto (Exchanging ''r0'' (Some 30)) (sample_task 0)) sample_claimed_db
      (after_answer sample_vault sample_decode (\<lambda>i. i) 7 sample_answer ''r0'' (Some 30) (goto (Exchanging ''r0'' (Some 30)) (sample_task 0))) sample_claimed_db"
    by (rule task_step.hears) simp
  then have "task_step sample_vault sample_decode 30 (goto (Exchanging ''r0'' (Some 30)) (sample_task 0)) sample_claimed_db
      (goto (Persisting 0 sample_write (Some ''r0'') ''r0'' (Some 30)) (sample_task 0)) sample_claimed_db"
    by (simp add: after_answer_def start_persist_def sample_result_simps sample_write_def)
  then have "sample_sys_step ?s sample_persisting"
    unfolding sample_persisting_def
    by (intro system_step.intros raw_step.run)
      (auto simp: sample_refreshing_def sample_started_def sample_empty_def pending_token_def sample_write_token)
  with sample_reaches_exchange show ?thesis by simp
qed

theorem one_refresher_per_account_witness:
  "{n. \<exists>f. rs_tasks (sample_refreshing (Exchanging ''r0'' (Some 30)) 31 (Claiming 0) sample_claimed_db) n = Some f
     \<and> live (sample_refreshing (Exchanging ''r0'' (Some 30)) 31 (Claiming 0) sample_claimed_db) f \<and> own_id (fl_task f) = ''acc''} = {0}"
proof -
  let ?s = "sample_refreshing (Exchanging ''r0'' (Some 30)) 31 (Claiming 0) sample_claimed_db"
  let ?f = "\<lparr>fl_process = 0, fl_task = goto (Exchanging ''r0'' (Some 30)) (sample_task 0), fl_held = 31\<rparr>"
  have f: "rs_tasks ?s 0 = Some ?f" "live ?s ?f" "own_id (fl_task ?f) = ''acc''"
    by (simp_all add: sample_refreshing_def live_def working_def sample_claimed_db_def)
  have "n = 0" if "rs_tasks ?s n = Some g" "live ?s g" "own_id (fl_task g) = ''acc''" for n g
    using one_refresher_per_account [OF sample_laws sample_both_start(1) sample_reaches_exchange that(1) f(1) that(2) f(2)]
      that(3) f(3) by simp
  then show ?thesis using f by auto
qed

theorem spent_token_not_resent_witness:
  "(''acc'', ''r0'') \<notin> rs_spent (sample_refreshing (Exchanging ''r0'' (Some 30)) 31 (Claiming 0) sample_claimed_db)
     - rs_lost (sample_refreshing (Exchanging ''r0'' (Some 30)) 31 (Claiming 0) sample_claimed_db)
   \<and> (''acc'', ''r0'') \<in> rs_spent sample_persisting"
proof
  let ?s = "sample_refreshing (Exchanging ''r0'' (Some 30)) 31 (Claiming 0) sample_claimed_db"
  let ?f = "\<lparr>fl_process = 0, fl_task = goto (Exchanging ''r0'' (Some 30)) (sample_task 0), fl_held = 31\<rparr>"
  have "rs_tasks ?s 0 = Some ?f" "live ?s ?f" "rt_pc (fl_task ?f) = Exchanging ''r0'' (Some 30)"
    by (simp_all add: sample_refreshing_def live_def working_def sample_claimed_db_def)
  from spent_token_not_resent [OF sample_laws sample_both_start(1) sample_reaches_exchange this]
  show "(''acc'', ''r0'') \<notin> rs_spent ?s - rs_lost ?s" by simp
  show "(''acc'', ''r0'') \<in> rs_spent sample_persisting" by (simp add: sample_persisting_def resolving_def)
qed

theorem peer_rotation_kept_witness:
  "\<exists>row' u db'. task_step sample_vault sample_decode 30 (goto (Persisting 0 sample_write (Some ''r0'') ''r0'' (Some 30)) (sample_task 0)) sample_claimed_db u db'
     \<and> stored ''acc'' db' = Some row' \<and> acc_refresh_token row' = ''r1'' \<and> plain sample_vault row' = pending_token sample_vault (goto (Persisting 0 sample_write (Some ''r0'') ''r0'' (Some 30)) (sample_task 0))"
proof -
  let ?t = "goto (Persisting 0 sample_write (Some ''r0'') ''r0'' (Some 30)) (sample_task 0)"
  let ?f = "\<lparr>fl_process = 0, fl_task = ?t, fl_held = 31\<rparr>"
  have row: "stored ''acc'' sample_claimed_db = Some sample_token_account" by (simp add: sample_claimed_db_def)
  obtain landed db1 where rot: "rotate_tokens (own_id ?t) sample_write ''r0'' sample_claimed_db = (landed, db1)" by (rule prod.exhaust)
  then have token: "stored ''acc'' db1 = Some (write_tokens sample_write sample_token_account)"
    using row by (auto simp: rotate_tokens_def update_conv)
  have step: "task_step sample_vault sample_decode 30 ?t sample_claimed_db
      (answered Committed (after_write landed 0 sample_write (Some ''r0'') (Some 30) ?t) ?t) (applied Committed sample_claimed_db db1)"
    by (rule task_step.writes [OF _ rot]) simp
  have r1: "acc_refresh_token (write_tokens sample_write sample_token_account) = ''r1''"
    by (simp add: sample_write_token)
  have f: "rs_tasks sample_persisting 0 = Some ?f" "rs_db sample_persisting = sample_claimed_db"
    by (simp_all add: sample_persisting_def working_def)
  from peer_rotation_kept [OF sample_laws sample_both_start(1) sample_reaches_persisting f(1), of _ _ "''acc''" sample_token_account]
    step f(2) row token r1
  have "plain sample_vault (write_tokens sample_write sample_token_account) = pending_token sample_vault ?t" by fastforce
  with step token r1 show ?thesis by (metis applied_Committed)
qed

theorem claimed_refresh_ends_witness:
  "\<exists>u'. task_runs sample_vault sample_decode 30 (goto (Preparing ''r0'' None (Some 30)) (sample_task 0)) u'"
proof -
  have "(task_runs sample_vault sample_decode 30 ^^ 1) (goto (Holding 30) (sample_task 0)) (goto (Preparing ''r0'' None (Some 30)) (sample_task 0))"
    using task_runsI [OF sample_prepares] by (simp add: relcompp_apply)
  from claimed_refresh_ends [OF _ _ this, of 30] show ?thesis by (auto simp: over_def)
qed

end
