(* ===== verification/Tool_Calls.thy ===== *)
theory Tool_Calls
  imports Json
begin

text \<open>
  Side-effecting tool calls in streams, after \<open>codex-lb/app/modules/proxy/tool_call_dedupe.py\<close>: which calls
  have side effects, the canonical key of their arguments, the suppression of calls that upstream
  repeats in a stream, and the rewriting of parallel calls. A reconnect makes upstream send a call
  again; a client that receives it twice runs a shell command twice. \<open>json.dumps\<close> is modelled
  (\<open>json_text\<close>) up to the printing of floats; \<open>json.loads\<close> is an argument.
\<close>

section \<open>JSON text\<close>

text \<open>\<open>js_loads\<close> is \<open>json.loads\<close>, with \<open>None\<close> for \<open>JSONDecodeError\<close>; \<open>js_repr\<close> is \<open>float.__repr__\<close>.\<close>

record JsonText =
  js_loads :: "string \<Rightarrow> json option"
  js_repr :: "pyfloat \<Rightarrow> string"

definition hex_char :: "nat \<Rightarrow> char" where
  "hex_char n = char_of (if n < 10 then 48 + n else 87 + n)"

definition json_char :: "bool \<Rightarrow> char \<Rightarrow> string" where
  "json_char ascii c =
     (let n = of_char c :: nat; quoted = (\<lambda>x. [CHR 0x5C, x])
      in if n = 34 \<or> n = 92 then quoted c
         else if n = 8 then quoted (CHR ''b'') else if n = 9 then quoted (CHR ''t'')
         else if n = 10 then quoted (CHR ''n'') else if n = 12 then quoted (CHR ''f'')
         else if n = 13 then quoted (CHR ''r'')
         else if n < 32 \<or> (ascii \<and> 127 \<le> n) then quoted (CHR ''u'') @ ''00'' @ [hex_char (n div 16), hex_char (n mod 16)]
         else [c])"

definition json_string :: "bool \<Rightarrow> string \<Rightarrow> string" where
  "json_string ascii s = CHR 0x22 # concat (map (json_char ascii) s) @ [CHR 0x22]"

fun joined :: "string list \<Rightarrow> string" where
  "joined [] = []"
| "joined [x] = x"
| "joined (x # y # xs) = x @ '','' @ joined (y # xs)"

text \<open>\<open>json.dumps(v, sort_keys=..., ensure_ascii=..., separators=(",", ":"))\<close>.\<close>

primrec json_text :: "bool \<Rightarrow> bool \<Rightarrow> (pyfloat \<Rightarrow> string) \<Rightarrow> json \<Rightarrow> string" where
  "json_text sorted_keys ascii repr JNull = ''null''"
| "json_text sorted_keys ascii repr (JBool b) = (if b then ''true'' else ''false'')"
| "json_text sorted_keys ascii repr (JInt i) = show_int i"
| "json_text sorted_keys ascii repr (JFloat x) = repr x"
| "json_text sorted_keys ascii repr (JStr s) = json_string ascii s"
| "json_text sorted_keys ascii repr (JList xs) = ''['' @ joined (map (json_text sorted_keys ascii repr) xs) @ '']''"
| "json_text sorted_keys ascii repr (JObj fs) =
     (let ts = map (map_prod id (json_text sorted_keys ascii repr)) fs;
          os = (if sorted_keys then sort_key fst ts else ts)
      in CHR 0x7B # joined (map (\<lambda>(k, t). json_string ascii k @ '':'' @ t) os) @ [CHR 0x7D])"

definition canonical_json_key :: "JsonText \<Rightarrow> json \<Rightarrow> string" where
  "canonical_json_key J v = json_text True False (js_repr J) v"

type_synonym json_dict = "(string \<times> json) list"

definition json_object_from_argument :: "JsonText \<Rightarrow> string \<Rightarrow> json_dict option" where
  "json_object_from_argument J arg = (case js_loads J arg of Some (JObj fs) \<Rightarrow> Some fs | _ \<Rightarrow> None)"

text \<open>\<open>d.get(k)\<close> as a JSON value, and as a string or \<open>None\<close>.\<close>

definition get_json :: "string \<Rightarrow> json_dict \<Rightarrow> json" where
  "get_json k d = default_to (map_of d k) JNull"

definition get_str :: "string \<Rightarrow> json_dict \<Rightarrow> string option" where
  "get_str k d = (case map_of d k of Some (JStr s) \<Rightarrow> Some s | _ \<Rightarrow> None)"

section \<open>The tools with side effects\<close>

definition TOOL_CALL_DEDUPE_CACHE_LIMIT :: nat where
  "TOOL_CALL_DEDUPE_CACHE_LIMIT = 1024"

definition PARALLEL_TOOL_CALL_NAME :: string where
  "PARALLEL_TOOL_CALL_NAME = ''multi_tool_use.parallel''"

definition HISTORY_DIRECT_SIDE_EFFECT_TOOL_CALL_NAMES :: "string list" where
  "HISTORY_DIRECT_SIDE_EFFECT_TOOL_CALL_NAMES =
     [''apply_patch'', ''close_agent'', ''create_goal'', ''exec_command'', ''request_user_input'', ''resume_agent'',
      ''send_input'', ''spawn_agent'', ''update_goal'', ''update_plan'', ''wait_agent'', ''write_stdin'']"

definition CODE_MODE_DOWNSTREAM_SIDE_EFFECT_TOOL_CALL_NAMES :: "string list" where
  "CODE_MODE_DOWNSTREAM_SIDE_EFFECT_TOOL_CALL_NAMES = [''collaboration'', ''exec'']"

definition DOWNSTREAM_DIRECT_SIDE_EFFECT_TOOL_CALL_NAMES :: "string list" where
  "DOWNSTREAM_DIRECT_SIDE_EFFECT_TOOL_CALL_NAMES =
     HISTORY_DIRECT_SIDE_EFFECT_TOOL_CALL_NAMES @ CODE_MODE_DOWNSTREAM_SIDE_EFFECT_TOOL_CALL_NAMES"

definition in_functions :: "string \<Rightarrow> string" where
  "in_functions name = ''functions.'' @ name"

definition HISTORY_SIDE_EFFECT_TOOL_CALL_NAMES :: "string list" where
  "HISTORY_SIDE_EFFECT_TOOL_CALL_NAMES =
     PARALLEL_TOOL_CALL_NAME # HISTORY_DIRECT_SIDE_EFFECT_TOOL_CALL_NAMES
       @ map in_functions HISTORY_DIRECT_SIDE_EFFECT_TOOL_CALL_NAMES"

definition DOWNSTREAM_SIDE_EFFECT_TOOL_CALL_NAMES :: "string list" where
  "DOWNSTREAM_SIDE_EFFECT_TOOL_CALL_NAMES =
     PARALLEL_TOOL_CALL_NAME # DOWNSTREAM_DIRECT_SIDE_EFFECT_TOOL_CALL_NAMES
       @ map in_functions DOWNSTREAM_DIRECT_SIDE_EFFECT_TOOL_CALL_NAMES"

definition SIDE_EFFECT_TOOL_CALL_ITEM_TYPES :: "string list" where
  "SIDE_EFFECT_TOOL_CALL_ITEM_TYPES = [''apply_patch_call'']"

definition PARALLEL_TOOL_USE_DEDUPE_RECIPIENT_NAMES :: "string list" where
  "PARALLEL_TOOL_USE_DEDUPE_RECIPIENT_NAMES =
     map in_functions HISTORY_DIRECT_SIDE_EFFECT_TOOL_CALL_NAMES @ [''multi_tool_use.parallel'']"

definition SIDE_EFFECT_VOLATILE_ARG_KEYS :: "string list" where
  "SIDE_EFFECT_VOLATILE_ARG_KEYS = [''max_output_tokens'', ''timeout_ms'', ''yield_time_ms'']"

definition normalize_tool_call_name :: "string option \<Rightarrow> string option" where
  "normalize_tool_call_name name =
     map_option (\<lambda>n. if starts_with n ''functions.'' then drop (length ''functions.'') n else n) name"

text \<open>The recipient of a nested tool use that is compared with others.\<close>

definition dedupe_recipient :: "json \<Rightarrow> (json_dict \<times> string) option" where
  "dedupe_recipient use =
     (case use of
        JObj d \<Rightarrow>
          (case get_str ''recipient_name'' d of
             Some r \<Rightarrow> if r \<in> set PARALLEL_TOOL_USE_DEDUPE_RECIPIENT_NAMES then Some (d, r) else None
           | None \<Rightarrow> None)
      | _ \<Rightarrow> None)"

definition tool_call_has_side_effect_arguments :: "JsonText \<Rightarrow> string option \<Rightarrow> string \<Rightarrow> bool" where
  "tool_call_has_side_effect_arguments J name arg =
     (if name \<noteq> Some PARALLEL_TOOL_CALL_NAME then name \<in> Some ` set DOWNSTREAM_SIDE_EFFECT_TOOL_CALL_NAMES
      else (case json_object_from_argument J arg of
              None \<Rightarrow> False
            | Some d \<Rightarrow>
                (case map_of d ''tool_uses'' of
                   Some (JList uses) \<Rightarrow> list_ex (\<lambda>u. dedupe_recipient u \<noteq> None) uses
                 | _ \<Rightarrow> False)))"

section \<open>Canonical keys of arguments\<close>

definition canonical_parameters_key :: "JsonText \<Rightarrow> string \<Rightarrow> json_dict \<Rightarrow> string" where
  "canonical_parameters_key J recipient params =
     canonical_json_key J
       (JObj [(''recipient_name'', JStr recipient),
              (''parameters'', JObj (filter (\<lambda>(k, v). k \<notin> set SIDE_EFFECT_VOLATILE_ARG_KEYS) params))])"

fun class_name :: "json \<Rightarrow> string" where
  "class_name JNull = ''NoneType''"
| "class_name (JBool b) = ''bool''"
| "class_name (JInt i) = ''int''"
| "class_name (JFloat x) = ''float''"
| "class_name (JStr s) = ''str''"
| "class_name (JList xs) = ''list''"
| "class_name (JObj fs) = ''dict''"

definition canonical_wait_agent_targets :: "JsonText \<Rightarrow> json \<Rightarrow> json" where
  "canonical_wait_agent_targets J targets =
     (case targets of
        JList ts \<Rightarrow> JList (sort_key (\<lambda>t. (class_name t, canonical_json_key J t)) ts)
      | _ \<Rightarrow> targets)"

text \<open>The parameters of \<open>write_stdin\<close> that are passed on to the key.\<close>

definition stdin_parameters :: "json_dict \<Rightarrow> json_dict" where
  "stdin_parameters d =
     [(''session_id'', get_json ''session_id'' d), (''chars'', get_json ''chars'' d),
      (''yield_time_ms'', get_json ''yield_time_ms'' d), (''max_output_tokens'', get_json ''max_output_tokens'' d)]"

definition canonical_parallel_tool_use_key :: "JsonText \<Rightarrow> json_dict \<Rightarrow> string" where
  "canonical_parallel_tool_use_key J use =
     (case normalize_tool_call_name (get_str ''recipient_name'' use) of
        None \<Rightarrow> canonical_json_key J (JObj use)
      | Some r \<Rightarrow>
          (case map_of use ''parameters'' of
             Some (JObj ps) \<Rightarrow>
               if r = ''write_stdin'' then canonical_parameters_key J r (stdin_parameters ps)
               else if r = ''wait_agent''
               then canonical_json_key J
                      (JObj [(''recipient_name'', JStr r),
                             (''targets'', canonical_wait_agent_targets J (get_json ''targets'' ps))])
               else if r = ''exec_command'' then canonical_parameters_key J r ps
               else canonical_json_key J (JObj use)
           | _ \<Rightarrow> canonical_json_key J (JObj use)))"

definition canonical_tool_use :: "JsonText \<Rightarrow> json \<Rightarrow> json" where
  "canonical_tool_use J use =
     (case use of
        JObj d \<Rightarrow>
          (case json_object_from_argument J (canonical_parallel_tool_use_key J d) of
             Some (f # fs) \<Rightarrow> JObj (f # fs)
           | _ \<Rightarrow> use)
      | _ \<Rightarrow> use)"

text \<open>\<open>normalized_item_name or item_name\<close>, as a JSON value.\<close>

definition shown_name :: "string option \<Rightarrow> json" where
  "shown_name name =
     (case normalize_tool_call_name name of
        None \<Rightarrow> JNull
      | Some n \<Rightarrow> JStr (if n = [] then default_to name [] else n))"

definition canonical_side_effect_argument_key :: "JsonText \<Rightarrow> string option \<Rightarrow> string \<Rightarrow> string" where
  "canonical_side_effect_argument_key J name arg =
     (case json_object_from_argument J arg of
        None \<Rightarrow> arg
      | Some d \<Rightarrow>
          (let n = normalize_tool_call_name name
           in if n = Some ''write_stdin''
              then canonical_json_key J
                     (JObj [(''name'', JStr ''write_stdin''), (''session_id'', get_json ''session_id'' d),
                            (''chars'', get_json ''chars'' d), (''yield_time_ms'', get_json ''yield_time_ms'' d)])
              else if n = Some ''wait_agent''
              then canonical_json_key J
                     (JObj [(''name'', JStr ''wait_agent''),
                            (''targets'', canonical_wait_agent_targets J (get_json ''targets'' d))])
              else if n = Some ''exec_command'' then canonical_parameters_key J ''exec_command'' d
              else if name \<noteq> Some PARALLEL_TOOL_CALL_NAME
              then canonical_json_key J (JObj [(''name'', shown_name name), (''parameters'', JObj d)])
              else (case map_of d ''tool_uses'' of
                      Some (JList uses) \<Rightarrow>
                        canonical_json_key J
                          (JObj (AList.update ''tool_uses'' (JList (map (canonical_tool_use J) uses)) d))
                    | _ \<Rightarrow> canonical_json_key J (JObj d))))"

definition canonical_downstream_side_effect_argument_key :: "JsonText \<Rightarrow> string option \<Rightarrow> string \<Rightarrow> string" where
  "canonical_downstream_side_effect_argument_key J name arg =
     (case json_object_from_argument J arg of
        None \<Rightarrow> arg
      | Some d \<Rightarrow>
          (let n = normalize_tool_call_name name
           in if n = Some ''write_stdin'' then canonical_parameters_key J ''write_stdin'' (stdin_parameters d)
              else if n = Some ''exec_command'' then canonical_parameters_key J ''exec_command'' d
              else canonical_side_effect_argument_key J name arg))"

section \<open>The keys seen in a stream\<close>

text \<open>\<open>ToolCallDedupeKey\<close>: response, item type, namespace, name, call, arguments. The dictionary of keys
  seen is the list of its keys in insertion order.\<close>

type_synonym dedupe_key = "string \<times> string \<times> string option \<times> string option \<times> string option \<times> string"
type_synonym seen_keys = "dedupe_key list"

definition see :: "dedupe_key \<Rightarrow> seen_keys \<Rightarrow> seen_keys" where
  "see k seen = (if k \<in> set seen then seen else seen @ [k])"

fun evict :: "seen_keys \<Rightarrow> seen_keys" where
  "evict seen = (if length seen > TOOL_CALL_DEDUPE_CACHE_LIMIT then evict (tl seen) else seen)"

declare evict.simps [simp del]

definition has_identity :: "dedupe_key \<Rightarrow> bool" where
  "has_identity k = (case k of (_, _, namespace, _, call, _) \<Rightarrow> namespace \<noteq> None \<and> call \<noteq> None)"

definition clear_legacy_downstream_tool_call_keys :: "seen_keys \<Rightarrow> seen_keys" where
  "clear_legacy_downstream_tool_call_keys seen = filter has_identity seen"

text \<open>The three keys of a call that is not parallel: of the call itself, of its arguments in the
  response, and across responses. A call with a namespace, or of the code mode, keeps its identity in the last.\<close>

definition own_key :: "string option \<Rightarrow> string \<Rightarrow> string option \<Rightarrow> string option \<Rightarrow> string option \<Rightarrow> string \<Rightarrow> dedupe_key" where
  "own_key rid ty namespace name call arg = (default_to rid [], ty, namespace, name, call, arg)"

definition identity_scoped :: "string option \<Rightarrow> string option \<Rightarrow> bool" where
  "identity_scoped namespace name =
     (name \<in> Some ` set CODE_MODE_DOWNSTREAM_SIDE_EFFECT_TOOL_CALL_NAMES \<or> namespace \<noteq> None)"

definition cross_response_call_id :: "string option \<Rightarrow> string option \<Rightarrow> string option \<Rightarrow> string option" where
  "cross_response_call_id namespace name call = (if identity_scoped namespace name then call else None)"

definition mark_single ::
  "string option \<Rightarrow> bool \<Rightarrow> string \<Rightarrow> string option \<Rightarrow> string option \<Rightarrow> string option \<Rightarrow> string \<Rightarrow> seen_keys \<Rightarrow> bool \<times> seen_keys" where
  "mark_single rid scope ty namespace name call arg seen =
     (let key = own_key rid ty namespace name call arg;
          same_response = own_key rid ty namespace name None arg;
          cross_call = cross_response_call_id namespace name call;
          cross_response = own_key None ty namespace name cross_call arg;
          has_cross = (\<not> identity_scoped namespace name \<or> cross_call \<noteq> None)
      in if key \<in> set seen then (True, seen)
         else if \<not> scope \<and> has_cross \<and> cross_response \<in> set seen
                 \<and> (identity_scoped namespace name \<or> same_response \<notin> set seen)
         then (True, seen)
         else (let seen1 = see same_response (see key seen);
                   seen2 = (if \<not> scope \<and> has_cross then see cross_response seen1 else seen1)
               in (False, evict seen2)))"

text \<open>The loop over the nested uses of a parallel call: a use whose key has been seen is left out.\<close>

fun keep_new_uses :: "(json \<Rightarrow> dedupe_key option) \<Rightarrow> json list \<Rightarrow> seen_keys \<Rightarrow> json list \<times> nat \<times> seen_keys" where
  "keep_new_uses key_of [] seen = ([], 0, seen)"
| "keep_new_uses key_of (u # us) seen =
     (case key_of u of
        None \<Rightarrow> (case keep_new_uses key_of us seen of (kept, n, seen') \<Rightarrow> (u # kept, n, seen'))
      | Some k \<Rightarrow>
          if k \<in> set seen then (case keep_new_uses key_of us seen of (kept, n, seen') \<Rightarrow> (kept, n + 1, seen'))
          else (case keep_new_uses key_of us (see k seen) of (kept, n, seen') \<Rightarrow> (u # kept, n, seen')))"

definition parallel_use_key :: "JsonText \<Rightarrow> string option \<Rightarrow> json \<Rightarrow> dedupe_key option" where
  "parallel_use_key J rid use =
     map_option (\<lambda>(d, r). (default_to rid [], ''parallel_tool_use'', None, Some r, None, canonical_parallel_tool_use_key J d))
       (dedupe_recipient use)"

definition mark_duplicate_parallel_tool_call_downstream_event ::
  "JsonText \<Rightarrow> json_dict \<Rightarrow> string \<Rightarrow> string option \<Rightarrow> bool \<Rightarrow> seen_keys \<Rightarrow> bool \<times> seen_keys \<times> json_dict" where
  "mark_duplicate_parallel_tool_call_downstream_event J item arg rid scope seen =
     (case json_object_from_argument J arg of
        None \<Rightarrow> (False, seen, item)
      | Some d \<Rightarrow>
          (case map_of d ''tool_uses'' of
             Some (JList uses) \<Rightarrow>
               (case keep_new_uses (parallel_use_key J (if scope then rid else None)) uses seen of
                  (kept, removed, seen') \<Rightarrow>
                    if removed = 0 then (False, evict seen', item)
                    else if kept = [] then (True, evict seen', item)
                    else (False, evict seen',
                          AList.update ''arguments''
                            (JStr (canonical_json_key J (JObj (AList.update ''tool_uses'' (JList kept) d)))) item))
           | _ \<Rightarrow> (False, seen, item)))"

section \<open>Events of a stream\<close>

text \<open>The argument of a tool call: nothing for an item of another type.\<close>

definition tool_call_argument :: "JsonText \<Rightarrow> json_dict \<Rightarrow> (string \<times> json option) option" where
  "tool_call_argument J item =
     (case map_of item ''type'' of
        Some (JStr ty) \<Rightarrow>
          if ty = ''function_call'' then Some (ty, map_of item ''arguments'')
          else if ty = ''custom_tool_call'' then Some (ty, map_of item ''input'')
          else if ty = ''apply_patch_call''
          then Some (ty, case map_of item ''operation'' of
                           Some (JObj op) \<Rightarrow> Some (JStr (canonical_json_key J (JObj op)))
                         | v \<Rightarrow> v)
          else None
      | _ \<Rightarrow> None)"

definition is_side_effect_call :: "JsonText \<Rightarrow> string \<Rightarrow> string option \<Rightarrow> string \<Rightarrow> bool" where
  "is_side_effect_call J ty name arg =
     (ty \<in> set SIDE_EFFECT_TOOL_CALL_ITEM_TYPES
      \<or> (name \<in> Some ` set DOWNSTREAM_SIDE_EFFECT_TOOL_CALL_NAMES \<and> tool_call_has_side_effect_arguments J name arg))"

definition mark_item ::
  "JsonText \<Rightarrow> string option \<Rightarrow> bool \<Rightarrow> json_dict \<Rightarrow> seen_keys \<Rightarrow> bool \<times> seen_keys \<times> json_dict" where
  "mark_item J rid scope item seen =
     (case tool_call_argument J item of
        None \<Rightarrow> (False, clear_legacy_downstream_tool_call_keys seen, item)
      | Some (ty, v) \<Rightarrow>
          (case v of
             Some (JStr arg) \<Rightarrow>
               (let name = get_str ''name'' item
                in if \<not> is_side_effect_call J ty name arg
                   then (False, clear_legacy_downstream_tool_call_keys seen, item)
                   else if name = Some PARALLEL_TOOL_CALL_NAME
                   then mark_duplicate_parallel_tool_call_downstream_event J item arg rid scope seen
                   else (let n = normalize_tool_call_name name
                         in case mark_single rid scope ty (get_str ''namespace'' item) n (get_str ''call_id'' item)
                                   (canonical_downstream_side_effect_argument_key J n arg) seen of
                              (duplicate, seen') \<Rightarrow> (duplicate, seen', item)))
           | _ \<Rightarrow> (False, seen, item)))"

text \<open>The item is changed in place, so the payload is part of the result.\<close>

definition mark_duplicate_tool_call_downstream_event ::
  "JsonText \<Rightarrow> json option \<Rightarrow> string option \<Rightarrow> bool \<Rightarrow> seen_keys \<Rightarrow> bool \<times> seen_keys \<times> json option" where
  "mark_duplicate_tool_call_downstream_event J payload rid scope seen =
     (case payload of
        Some (JObj p) \<Rightarrow>
          if map_of p ''type'' \<noteq> Some (JStr ''response.output_item.done'') then (False, seen, payload)
          else (case map_of p ''item'' of
                  Some (JObj item) \<Rightarrow>
                    (case mark_item J rid scope item seen of
                       (duplicate, seen', item') \<Rightarrow>
                         (duplicate, seen', Some (JObj (AList.update ''item'' (JObj item') p))))
                | _ \<Rightarrow> (False, seen, payload))
      | _ \<Rightarrow> (False, seen, payload))"

definition response_id_from_payload :: "json option \<Rightarrow> string option" where
  "response_id_from_payload payload =
     (case payload of
        Some (JObj p) \<Rightarrow>
          (let nested = (case map_of p ''response'' of
                           Some (JObj r) \<Rightarrow>
                             (case get_str ''id'' r of
                                Some i \<Rightarrow> if py_strip i = [] then None else Some (py_strip i)
                              | None \<Rightarrow> None)
                         | _ \<Rightarrow> None)
           in case get_str ''response_id'' p of
                Some i \<Rightarrow> if py_strip i = [] then nested else Some (py_strip i)
              | None \<Rightarrow> nested)
      | _ \<Rightarrow> None)"

section \<open>Parallel calls\<close>

text \<open>The uses within one call; the set of keys seen is local to it.\<close>

fun distinct_uses :: "JsonText \<Rightarrow> json list \<Rightarrow> string set \<Rightarrow> json list \<times> nat" where
  "distinct_uses J [] seen = ([], 0)"
| "distinct_uses J (u # us) seen =
     (case dedupe_recipient u of
        None \<Rightarrow> (case distinct_uses J us seen of (kept, n) \<Rightarrow> (u # kept, n))
      | Some (d, r) \<Rightarrow>
          (let k = canonical_parallel_tool_use_key J d
           in if k \<in> seen then (case distinct_uses J us seen of (kept, n) \<Rightarrow> (kept, n + 1))
              else (case distinct_uses J us (insert k seen) of (kept, n) \<Rightarrow> (u # kept, n))))"

definition dedupe_parallel_tool_uses_argument :: "JsonText \<Rightarrow> string \<Rightarrow> string \<times> bool \<times> nat" where
  "dedupe_parallel_tool_uses_argument J arg =
     (case js_loads J arg of
        Some (JObj d) \<Rightarrow>
          (case map_of d ''tool_uses'' of
             Some (JList uses) \<Rightarrow>
               (case distinct_uses J uses {} of
                  (kept, removed) \<Rightarrow>
                    if removed = 0 then (arg, False, 0)
                    else (canonical_json_key J (JObj (AList.update ''tool_uses'' (JList kept) d)), True, removed))
           | _ \<Rightarrow> (arg, False, 0))
      | _ \<Rightarrow> (arg, False, 0))"

definition rewrite_parallel_tool_call_payload :: "JsonText \<Rightarrow> json option \<Rightarrow> json option \<times> bool \<times> nat" where
  "rewrite_parallel_tool_call_payload J payload =
     (case payload of
        Some (JObj p) \<Rightarrow>
          if map_of p ''type'' \<noteq> Some (JStr ''response.output_item.done'') then (payload, False, 0)
          else (case map_of p ''item'' of
                  Some (JObj item) \<Rightarrow>
                    if map_of item ''type'' \<noteq> Some (JStr ''function_call'')
                       \<or> map_of item ''name'' \<noteq> Some (JStr PARALLEL_TOOL_CALL_NAME) then (payload, False, 0)
                    else (case map_of item ''arguments'' of
                            Some (JStr arg) \<Rightarrow>
                              (case dedupe_parallel_tool_uses_argument J arg of
                                 (arg', changed, removed) \<Rightarrow>
                                   if \<not> changed then (payload, False, 0)
                                   else (Some (JObj (AList.update ''item''
                                           (JObj (AList.update ''arguments'' (JStr arg') item)) p)), True, removed))
                          | _ \<Rightarrow> (payload, False, 0))
                | _ \<Rightarrow> (payload, False, 0))
      | _ \<Rightarrow> (payload, False, 0))"

text \<open>\<open>format_sse_event\<close> of \<open>core/utils/sse.py\<close>.\<close>

definition format_sse_event :: "JsonText \<Rightarrow> json_dict \<Rightarrow> string" where
  "format_sse_event J p =
     (let block = ''data: '' @ json_text False True (js_repr J) (JObj p) @ [CHR 0x0A, CHR 0x0A]
      in case get_str ''type'' p of
           Some (c # ty) \<Rightarrow> ''event: '' @ (c # ty) @ CHR 0x0A # block
         | _ \<Rightarrow> block)"

text \<open>Events are validated by pydantic: \<open>validate\<close> is \<open>parse_sse_event_payload\<close> of a payload, and \<open>type_of\<close> the
  type of an event.\<close>

definition event_type_from_payload :: "('e \<Rightarrow> string) \<Rightarrow> 'e option \<Rightarrow> json option \<Rightarrow> string option" where
  "event_type_from_payload type_of ev payload =
     (case ev of
        Some e \<Rightarrow> Some (type_of e)
      | None \<Rightarrow>
          (case payload of
             Some (JObj p) \<Rightarrow>
               (case map_of p ''type'' of
                  Some (JStr s) \<Rightarrow> Some s
                | _ \<Rightarrow> (case map_of p ''error'' of Some (JObj e) \<Rightarrow> Some ''error'' | _ \<Rightarrow> None))
           | _ \<Rightarrow> None))"

definition rewrite_parallel_tool_call_text ::
  "JsonText \<Rightarrow> (json \<Rightarrow> 'e option) \<Rightarrow> ('e \<Rightarrow> string) \<Rightarrow> string \<Rightarrow> json option \<Rightarrow> string \<Rightarrow> 'e option
     \<Rightarrow> string \<times> json option \<times> 'e option \<times> string option \<times> string" where
  "rewrite_parallel_tool_call_text J validate type_of txt payload block ev =
     (case rewrite_parallel_tool_call_payload J payload of
        (payload', changed, removed) \<Rightarrow>
          if \<not> changed
          then (let ev' = (if ev = None then Option.bind payload validate else ev)
                in (txt, payload, ev', event_type_from_payload type_of ev' payload, block))
          else (let ev' = Option.bind payload' validate; d = (case payload' of Some (JObj p) \<Rightarrow> p | _ \<Rightarrow> [])
                in (json_text False True (js_repr J) (JObj d), payload', ev',
                    event_type_from_payload type_of ev' payload', format_sse_event J d)))"

definition rewrite_parallel_tool_call_sse_line ::
  "JsonText \<Rightarrow> (json \<Rightarrow> 'e option) \<Rightarrow> ('e \<Rightarrow> string) \<Rightarrow> string \<Rightarrow> json option \<Rightarrow> 'e option
     \<Rightarrow> string \<times> json option \<times> 'e option \<times> string option" where
  "rewrite_parallel_tool_call_sse_line J validate type_of line payload ev =
     (case rewrite_parallel_tool_call_payload J payload of
        (payload', changed, removed) \<Rightarrow>
          if \<not> changed
          then (let ev' = (if ev = None then Option.bind payload validate else ev)
                in (line, payload, ev', event_type_from_payload type_of ev' payload))
          else (let ev' = Option.bind payload' validate; d = (case payload' of Some (JObj p) \<Rightarrow> p | _ \<Rightarrow> [])
                in (format_sse_event J d, payload', ev', event_type_from_payload type_of ev' payload')))"


section \<open>What a stream of events does to the keys\<close>

text \<open>The parts of a call that is not parallel: item type, namespace, name, call and canonical arguments.\<close>

definition call_parts ::
  "JsonText \<Rightarrow> json option \<Rightarrow> (string \<times> string option \<times> string option \<times> string option \<times> string) option" where
  "call_parts J payload =
     (case payload of
        Some (JObj p) \<Rightarrow>
          if map_of p ''type'' \<noteq> Some (JStr ''response.output_item.done'') then None
          else (case map_of p ''item'' of
                  Some (JObj item) \<Rightarrow>
                    (case tool_call_argument J item of
                       Some (ty, Some (JStr arg)) \<Rightarrow>
                         (let name = get_str ''name'' item; n = normalize_tool_call_name name
                          in if is_side_effect_call J ty name arg \<and> name \<noteq> Some PARALLEL_TOOL_CALL_NAME
                             then Some (ty, get_str ''namespace'' item, n, get_str ''call_id'' item,
                                        canonical_downstream_side_effect_argument_key J n arg)
                             else None)
                     | _ \<Rightarrow> None)
                | _ \<Rightarrow> None)
      | _ \<Rightarrow> None)"

text \<open>An event that makes the keys without identity be forgotten: a finished item that is no call with side effects.\<close>

definition forgets :: "JsonText \<Rightarrow> json option \<Rightarrow> bool" where
  "forgets J payload =
     (case payload of
        Some (JObj p) \<Rightarrow>
          map_of p ''type'' = Some (JStr ''response.output_item.done'') \<and>
          (case map_of p ''item'' of
             Some (JObj item) \<Rightarrow>
               (case tool_call_argument J item of
                  None \<Rightarrow> True
                | Some (ty, Some (JStr arg)) \<Rightarrow> \<not> is_side_effect_call J ty (get_str ''name'' item) arg
                | _ \<Rightarrow> False)
           | _ \<Rightarrow> False)
      | _ \<Rightarrow> False)"

text \<open>How many keys an event adds at most: the nested uses of a parallel call, three for another call.\<close>

definition keys_added :: "JsonText \<Rightarrow> json option \<Rightarrow> nat" where
  "keys_added J payload =
     (case payload of
        Some (JObj p) \<Rightarrow>
          (case map_of p ''item'' of
             Some (JObj item) \<Rightarrow>
               (case tool_call_argument J item of
                  Some (ty, Some (JStr arg)) \<Rightarrow>
                    (if get_str ''name'' item = Some PARALLEL_TOOL_CALL_NAME
                     then length (list_items (Option.bind (json_object_from_argument J arg) (\<lambda>d. map_of d ''tool_uses'')))
                     else 3)
                | _ \<Rightarrow> 0)
           | _ \<Rightarrow> 0)
      | _ \<Rightarrow> 0)"

definition stream_step :: "JsonText \<Rightarrow> seen_keys \<Rightarrow> string option \<times> json option \<Rightarrow> seen_keys" where
  "stream_step J seen ev =
     fst (snd (mark_duplicate_tool_call_downstream_event J (snd ev) (fst ev) False seen))"

section \<open>Lemmas\<close>

lemma evict_drop: "evict seen = drop (length seen - TOOL_CALL_DEDUPE_CACHE_LIMIT) seen"
proof (induction seen rule: evict.induct)
  case (1 seen)
  show ?case
  proof (cases "length seen > TOOL_CALL_DEDUPE_CACHE_LIMIT")
    case True
    then have "length seen - TOOL_CALL_DEDUPE_CACHE_LIMIT = Suc (length (tl seen) - TOOL_CALL_DEDUPE_CACHE_LIMIT)" by simp
    then show ?thesis using 1 True by (simp add: evict.simps [of seen] drop_Suc)
  qed (simp add: evict.simps [of seen])
qed

lemma see_append: "\<exists>new. see k seen = seen @ new \<and> length new \<le> 1 \<and> set new \<subseteq> {k}"
  by (simp add: see_def)

lemma set_see [simp]: "set (see k seen) = insert k (set seen)"
  by (auto simp: see_def)

text \<open>A key that fewer than \<open>n\<close> keys have followed.\<close>

definition recent :: "nat \<Rightarrow> dedupe_key \<Rightarrow> seen_keys \<Rightarrow> bool" where
  "recent n k seen = (\<exists>older newer. seen = older @ k # newer \<and> length newer < n)"

lemma recent_seen: "recent n k seen \<Longrightarrow> k \<in> set seen"
  by (auto simp: recent_def)

lemma recent_append: "recent n k seen \<Longrightarrow> length new \<le> m \<Longrightarrow> recent (n + m) k (seen @ new)"
  unfolding recent_def by (fastforce intro: exI [of _ "_ @ new"])

lemma recent_last: "length new < n \<Longrightarrow> recent n k (seen @ k # new)"
  unfolding recent_def by blast

lemma recent_mono: "recent n k seen \<Longrightarrow> n \<le> m \<Longrightarrow> recent m k seen"
  unfolding recent_def by (metis order_less_le_trans)

lemma recent_filter:
  assumes "recent n k seen" "P k"
  shows "recent n k (filter P seen)"
proof -
  obtain older newer where "seen = older @ k # newer" "length newer < n" using assms(1) by (auto simp: recent_def)
  moreover from this(2) have "length (filter P newer) < n" by (meson length_filter_le order_le_less_trans)
  ultimately show ?thesis using assms(2) recent_last by simp
qed

lemma recent_evict:
  assumes "recent n k seen" "n \<le> TOOL_CALL_DEDUPE_CACHE_LIMIT"
  shows "recent n k (evict seen)"
proof -
  obtain older newer where s: "seen = older @ k # newer" "length newer < n" using assms(1) by (auto simp: recent_def)
  then have "length seen - TOOL_CALL_DEDUPE_CACHE_LIMIT \<le> length older" using assms(2) by simp
  then show ?thesis using s by (auto simp: evict_drop recent_def)
qed

lemma keep_new_uses_seen:
  "keep_new_uses key_of us seen = (kept, n, seen') \<Longrightarrow> \<exists>new. seen' = seen @ new \<and> length new \<le> length us"
proof (induction us arbitrary: seen kept n seen')
  case (Cons u us)
  show ?case
  proof (cases "\<exists>k. key_of u = Some k \<and> k \<notin> set seen")
    case True
    then obtain k kept' n' where "keep_new_uses key_of us (seen @ [k]) = (kept', n', seen')"
      using Cons.prems by (auto simp: see_def split: prod.splits)
    from Cons.IH [OF this] show ?thesis by fastforce
  next
    case False
    then obtain kept' n' where "keep_new_uses key_of us seen = (kept', n', seen')"
      using Cons.prems by (auto split: prod.splits option.splits if_splits)
    from Cons.IH [OF this] show ?thesis by fastforce
  qed
qed simp

text \<open>What a call that is forwarded leaves: its own key, the key of its response and, over responses, the
  cross key if it has one.\<close>

lemma mark_single_forwarded:
  assumes "mark_single rid False ty namespace name call arg seen = (False, seen')"
  defines "key \<equiv> own_key rid ty namespace name call arg"
    and "same \<equiv> own_key rid ty namespace name None arg"
    and "cross \<equiv> own_key None ty namespace name (cross_response_call_id namespace name call) arg"
  shows "key \<notin> set seen"
    and "\<exists>new. seen' = evict (seen @ key # new) \<and> length new \<le> 2 \<and> set new \<subseteq> {same, cross}
      \<and> same \<in> set (seen @ key # new)
      \<and> (\<not> identity_scoped namespace name \<or> call \<noteq> None \<longrightarrow> cross \<in> set (seen @ key # new))"
    and "identity_scoped namespace name \<Longrightarrow> call \<noteq> None \<Longrightarrow> cross \<notin> set seen"
proof -
  show "key \<notin> set seen" using assms(1) by (auto simp: mark_single_def key_def Let_def split: if_splits)
  then have "seen' = evict (see same (see key seen)) \<and> identity_scoped namespace name \<and> call = None
      \<or> seen' = evict (see cross (see same (see key seen)))"
    using assms(1) unfolding key_def same_def cross_def
    by (auto simp: mark_single_def Let_def cross_response_call_id_def split: if_splits)
  moreover obtain n1 n2 where "see same (see key seen) = seen @ key # n1" "see cross (see same (see key seen)) = seen @ key # n1 @ n2"
    "length n1 \<le> 1" "length n2 \<le> 1" "set n1 \<subseteq> {same}" "set n2 \<subseteq> {cross}"
  proof -
    obtain n1 where n1: "see same (seen @ [key]) = (seen @ [key]) @ n1 \<and> length n1 \<le> 1 \<and> set n1 \<subseteq> {same}"
      using see_append by blast
    moreover obtain n2 where "see cross (seen @ key # n1) = (seen @ key # n1) @ n2 \<and> length n2 \<le> 1 \<and> set n2 \<subseteq> {cross}"
      using see_append by blast
    moreover have "see key seen = seen @ [key]" using \<open>key \<notin> set seen\<close> by (simp add: see_def)
    ultimately show ?thesis using that by simp
  qed
  moreover from this(1,2) have "same \<in> set (seen @ key # n1)" "cross \<in> set (seen @ key # n1 @ n2)"
    by (metis set_see insertI1)+
  ultimately show "\<exists>new. seen' = evict (seen @ key # new) \<and> length new \<le> 2 \<and> set new \<subseteq> {same, cross}
      \<and> same \<in> set (seen @ key # new)
      \<and> (\<not> identity_scoped namespace name \<or> call \<noteq> None \<longrightarrow> cross \<in> set (seen @ key # new))"
    by (elim disjE conjE; intro exI [of _ "if seen' = evict (seen @ key # n1) \<and> identity_scoped namespace name \<and> call = None then n1 else n1 @ n2"])
      (auto split: if_splits)
  assume "identity_scoped namespace name" "call \<noteq> None"
  then show "cross \<notin> set seen"
    using assms(1) unfolding cross_def by (auto simp: mark_single_def Let_def cross_response_call_id_def split: if_splits)
qed

lemma mark_single_seen:
  assumes "mark_single rid False ty namespace name call arg seen = (duplicate, seen')"
  shows "seen' = seen \<or> (\<exists>new. seen' = evict (seen @ new) \<and> length new \<le> 3)"
proof (cases duplicate)
  case False
  then have "mark_single rid False ty namespace name call arg seen = (False, seen')" using assms by simp
  from mark_single_forwarded(2) [OF this] obtain new where
    "seen' = evict (seen @ own_key rid ty namespace name call arg # new)" "length new \<le> 2" by blast
  then show ?thesis by (intro disjI2 exI [of _ "own_key rid ty namespace name call arg # new"]) simp
qed (use assms in \<open>auto simp: mark_single_def Let_def split: if_splits\<close>)

lemma mark_parallel_seen:
  assumes "mark_duplicate_parallel_tool_call_downstream_event J item arg rid scope seen = (duplicate, seen', item')"
  shows "seen' = seen \<or> (\<exists>new. seen' = evict (seen @ new) \<and>
    length new \<le> length (list_items (Option.bind (json_object_from_argument J arg) (\<lambda>d. map_of d ''tool_uses''))))"
proof (cases "\<exists>d uses. json_object_from_argument J arg = Some d \<and> map_of d ''tool_uses'' = Some (JList uses)")
  case True
  then obtain d uses where d: "json_object_from_argument J arg = Some d" "map_of d ''tool_uses'' = Some (JList uses)" by blast
  obtain kept n seen1 where k: "keep_new_uses (parallel_use_key J (if scope then rid else None)) uses seen = (kept, n, seen1)"
    by (rule prod_cases3)
  have "seen' = evict seen1"
    using assms d k by (auto simp: mark_duplicate_parallel_tool_call_downstream_event_def split: if_splits)
  moreover obtain new where "seen1 = seen @ new" "length new \<le> length uses" using keep_new_uses_seen [OF k] by blast
  ultimately show ?thesis using d by (auto simp: list_items_def)
qed (use assms in \<open>auto simp: mark_duplicate_parallel_tool_call_downstream_event_def split: option.splits json.splits\<close>)

lemma stream_step_seen:
  "stream_step J seen ev = seen
   \<or> forgets J (snd ev) \<and> stream_step J seen ev = filter has_identity seen
   \<or> (\<exists>new. stream_step J seen ev = evict (seen @ new) \<and> length new \<le> keys_added J (snd ev))"
proof -
  obtain rid payload where ev: "ev = (rid, payload)" by (cases ev)
  show ?thesis
  proof (cases "\<exists>p item ty arg. payload = Some (JObj p) \<and> map_of p ''type'' = Some (JStr ''response.output_item.done'')
      \<and> map_of p ''item'' = Some (JObj item) \<and> tool_call_argument J item = Some (ty, Some (JStr arg))
      \<and> is_side_effect_call J ty (get_str ''name'' item) arg")
    case True
    then obtain p item ty arg where c: "payload = Some (JObj p)" "map_of p ''type'' = Some (JStr ''response.output_item.done'')"
      "map_of p ''item'' = Some (JObj item)" "tool_call_argument J item = Some (ty, Some (JStr arg))"
      "is_side_effect_call J ty (get_str ''name'' item) arg" by blast
    show ?thesis
    proof (cases "get_str ''name'' item = Some PARALLEL_TOOL_CALL_NAME")
      case True
      then have "stream_step J seen ev = fst (snd (mark_duplicate_parallel_tool_call_downstream_event J item arg rid False seen))"
        using c by (simp add: ev stream_step_def mark_duplicate_tool_call_downstream_event_def mark_item_def split_def)
      moreover have "keys_added J payload
          = length (list_items (Option.bind (json_object_from_argument J arg) (\<lambda>d. map_of d ''tool_uses'')))"
        using True c by (simp add: keys_added_def)
      ultimately show ?thesis using mark_parallel_seen by (metis ev prod.collapse snd_conv)
    next
      case False
      then have "stream_step J seen ev = snd (mark_single rid False ty (get_str ''namespace'' item)
          (normalize_tool_call_name (get_str ''name'' item)) (get_str ''call_id'' item)
          (canonical_downstream_side_effect_argument_key J (normalize_tool_call_name (get_str ''name'' item)) arg) seen)"
        using c by (simp add: ev stream_step_def mark_duplicate_tool_call_downstream_event_def mark_item_def split_def Let_def)
      moreover have "keys_added J payload = 3" using False c by (simp add: keys_added_def)
      ultimately show ?thesis using mark_single_seen by (metis ev prod.collapse snd_conv)
    qed
  next
    case False
    then show ?thesis
      by (auto simp: ev stream_step_def mark_duplicate_tool_call_downstream_event_def mark_item_def forgets_def Let_def
          clear_legacy_downstream_tool_call_keys_def split: option.splits json.splits prod.splits)
  qed
qed

lemma recent_stream:
  assumes "recent n k seen" "n + sum_list (map (keys_added J \<circ> snd) evs) \<le> TOOL_CALL_DEDUPE_CACHE_LIMIT"
    and "has_identity k \<or> list_all (\<lambda>ev. \<not> forgets J (snd ev)) evs"
  shows "k \<in> set (foldl (stream_step J) seen evs)"
  using assms
proof (induction evs arbitrary: seen n)
  case (Cons ev evs)
  have "recent (n + keys_added J (snd ev)) k (stream_step J seen ev)"
    using stream_step_seen [of J seen ev]
  proof (elim disjE conjE exE)
    fix new
    assume "stream_step J seen ev = evict (seen @ new)" "length new \<le> keys_added J (snd ev)"
    then show ?thesis using Cons.prems(1,2) by (simp add: recent_append recent_evict)
  qed (use Cons.prems in \<open>auto intro: recent_mono recent_filter\<close>)
  from Cons.IH [OF this] Cons.prems(2,3) show ?case by (auto simp: add.assoc)
qed (simp add: recent_seen)

lemma mark_call:
  assumes "call_parts J payload = Some (ty, namespace, name, call, arg)"
  shows "fst (mark_duplicate_tool_call_downstream_event J payload rid scope seen)
      = fst (mark_single rid scope ty namespace name call arg seen)"
    and "fst (snd (mark_duplicate_tool_call_downstream_event J payload rid scope seen))
      = snd (mark_single rid scope ty namespace name call arg seen)"
  using assms
  by (auto simp: call_parts_def mark_duplicate_tool_call_downstream_event_def mark_item_def Let_def split_def
      split: option.splits json.splits if_splits prod.splits)

text \<open>The keys that a forwarded call adds stay while fewer keys follow than the cache keeps, and those without an identity
  until an item makes them forgotten.\<close>

lemma forwarded_kept:
  assumes "mark_single rid False ty namespace name call arg seen = (False, seen1)"
    and "sum_list (map (keys_added J \<circ> snd) evs) + 3 \<le> TOOL_CALL_DEDUPE_CACHE_LIMIT"
    and "k = own_key rid ty namespace name call arg \<or> k = own_key rid ty namespace name None arg \<or>
      (\<not> identity_scoped namespace name \<or> call \<noteq> None)
        \<and> k = own_key None ty namespace name (cross_response_call_id namespace name call) arg"
    and "k \<notin> set seen" "has_identity k \<or> list_all (\<lambda>ev. \<not> forgets J (snd ev)) evs"
  shows "k \<in> set (foldl (stream_step J) seen1 evs)"
proof -
  define key where "key = own_key rid ty namespace name call arg"
  obtain new where new: "seen1 = evict (seen @ key # new)" "length new \<le> 2" "own_key rid ty namespace name None arg \<in> set (seen @ key # new)"
    "\<not> identity_scoped namespace name \<or> call \<noteq> None \<longrightarrow>
       own_key None ty namespace name (cross_response_call_id namespace name call) arg \<in> set (seen @ key # new)"
    using mark_single_forwarded(2) [OF assms(1)] unfolding key_def by blast
  then have "k \<in> set (key # new)" using assms(3,4) by (auto simp: key_def)
  from split_list [OF this] obtain older newer where split: "key # new = older @ k # newer" by blast
  moreover from arg_cong [OF this, of length] have "length newer < 3" using new(2) by simp
  ultimately have "recent 3 k (seen @ key # new)" using recent_last [of newer 3 k "seen @ older"] by simp
  then have "recent 3 k seen1" unfolding new(1) by (rule recent_evict) (simp add: TOOL_CALL_DEDUPE_CACHE_LIMIT_def)
  then show ?thesis using recent_stream assms(2,5) by (simp add: add.commute)
qed

section \<open>Theorems\<close>

text \<open>C9: with the suppression across responses switched on (\<open>scope_side_effects_by_response_id\<close> false, as
  every caller passes it), a side-effecting call other than a parallel one that was forwarded to the client is not forwarded
  again when upstream repeats it: the same call in the same response; a call with an identity (a namespace or the
  code mode, and a call id) in any response; and a flat call, under any call id, in another response whose arguments that response has
  not yet sent, if at the first call no earlier one with these arguments was remembered from any response. This holds until as many keys
  have followed as the cache keeps, and for
  calls without namespace and call id until an item without side effects comes.\<close>

theorem replayed_call_suppressed:
  assumes "call_parts J p = Some (ty, namespace, name, call, arg)" "call_parts J p' = Some (ty, namespace, name, call', arg)"
    and "mark_duplicate_tool_call_downstream_event J p rid False seen = (False, seen1, p1)"
    and "seen2 = foldl (stream_step J) seen1 evs"
    and "sum_list (map (keys_added J \<circ> snd) evs) + 3 \<le> TOOL_CALL_DEDUPE_CACHE_LIMIT"
    and "namespace \<noteq> None \<and> call \<noteq> None \<or> list_all (\<lambda>ev. \<not> forgets J (snd ev)) evs"
    and "rid' = rid \<and> call' = call \<or> identity_scoped namespace name \<and> call' = call \<and> call \<noteq> None
       \<or> \<not> identity_scoped namespace name \<and> own_key None ty namespace name None arg \<notin> set seen
         \<and> own_key rid' ty namespace name None arg \<notin> set seen2"
  shows "fst (mark_duplicate_tool_call_downstream_event J p' rid' False seen2)"
proof -
  define key where "key = own_key rid ty namespace name call arg"
  define cross where "cross = own_key None ty namespace name (cross_response_call_id namespace name call) arg"
  have m: "mark_single rid False ty namespace name call arg seen = (False, seen1)"
    using mark_call [OF assms(1), of rid False seen] assms(3) by (simp add: prod_eq_iff)
  note kept = forwarded_kept [OF m assms(5), folded assms(4) key_def cross_def]
  have idn: "has_identity key \<or> list_all (\<lambda>ev. \<not> forgets J (snd ev)) evs"
    "identity_scoped namespace name \<Longrightarrow> has_identity cross \<or> list_all (\<lambda>ev. \<not> forgets J (snd ev)) evs"
    using assms(6) by (auto simp: key_def cross_def own_key_def has_identity_def cross_response_call_id_def)
  show ?thesis
    unfolding mark_call(1) [OF assms(2)]
    using assms(7)
  proof (elim disjE conjE)
    assume "rid' = rid" "call' = call"
    then show "fst (mark_single rid' False ty namespace name call' arg seen2)"
      using kept [OF _ _ idn(1)] mark_single_forwarded(1) [OF m] by (simp add: mark_single_def key_def)
  next
    assume i: "identity_scoped namespace name" "call' = call" "call \<noteq> None"
    then have "cross \<in> set seen2"
      using kept [of cross] mark_single_forwarded(3) [OF m i(1,3)] idn(2) [OF i(1)] by (auto simp: cross_def)
    with i show "fst (mark_single rid' False ty namespace name call' arg seen2)"
      by (simp add: mark_single_def cross_def Let_def cross_response_call_id_def)
  next
    assume f: "\<not> identity_scoped namespace name" "own_key None ty namespace name None arg \<notin> set seen"
      "own_key rid' ty namespace name None arg \<notin> set seen2"
    then have "cross \<notin> set seen" by (auto simp: cross_def cross_response_call_id_def)
    moreover have "has_identity cross \<or> list_all (\<lambda>ev. \<not> forgets J (snd ev)) evs"
      using assms(6) f(1) by (auto simp: identity_scoped_def)
    ultimately have "cross \<in> set seen2" using kept [of cross] f(1) by simp
    with f show "fst (mark_single rid' False ty namespace name call' arg seen2)"
      by (simp add: mark_single_def cross_def Let_def cross_response_call_id_def)
  qed
qed

text \<open>C36: with the suppression across responses switched on, a flat side-effecting call (no namespace, not of the code mode, not
  a parallel one) that comes again in the same response with the same arguments is forwarded when its call id is one that is not remembered
  for these arguments in this response. The first call was the first with its arguments that is remembered from this response; between the two comes
  no item without side effects, and fewer keys than the cache keeps.\<close>

theorem new_call_id_forwarded:
  assumes "call_parts J p = Some (ty, None, name, call, arg)" "call_parts J p' = Some (ty, None, name, Some call', arg)"
    and "mark_duplicate_tool_call_downstream_event J p rid False seen = (False, seen1, p1)"
    and "seen2 = foldl (stream_step J) seen1 evs"
    and "sum_list (map (keys_added J \<circ> snd) evs) + 3 \<le> TOOL_CALL_DEDUPE_CACHE_LIMIT"
    and "list_all (\<lambda>ev. \<not> forgets J (snd ev)) evs" "\<not> identity_scoped None name"
    and "own_key rid ty None name None arg \<notin> set seen" "own_key rid ty None name (Some call') arg \<notin> set seen2"
  shows "\<not> fst (mark_duplicate_tool_call_downstream_event J p' rid False seen2)"
proof -
  have m: "mark_single rid False ty None name call arg seen = (False, seen1)"
    using mark_call [OF assms(1), of rid False seen] assms(3) by (simp add: prod_eq_iff)
  have "own_key rid ty None name None arg \<in> set seen2"
    unfolding assms(4) by (rule forwarded_kept [OF m assms(5)]) (use assms(6,8) in auto)
  with assms(7,9) show ?thesis
    unfolding mark_call(1) [OF assms(2)] by (auto simp: mark_single_def Let_def)
qed

section \<open>Samples\<close>

definition sample_json_text :: JsonText where
  "sample_json_text = \<lparr>js_loads = (\<lambda>s. None), js_repr = (\<lambda>x. [])\<rparr>"

definition sample_call_event :: "string \<Rightarrow> json option" where
  "sample_call_event call =
     Some (JObj [(''type'', JStr ''response.output_item.done''),
       (''item'', JObj [(''type'', JStr ''function_call''), (''name'', JStr ''exec_command''),
          (''arguments'', JStr ''ls''), (''call_id'', JStr call)])])"

lemma sample_call_parts:
  "call_parts sample_json_text (sample_call_event c) = Some (''function_call'', None, Some ''exec_command'', Some c, ''ls'')"
  by (simp add: call_parts_def sample_call_event_def sample_json_text_def tool_call_argument_def is_side_effect_call_def get_str_def
      normalize_tool_call_name_def starts_with_def canonical_downstream_side_effect_argument_key_def json_object_from_argument_def
      tool_call_has_side_effect_arguments_def DOWNSTREAM_SIDE_EFFECT_TOOL_CALL_NAMES_def PARALLEL_TOOL_CALL_NAME_def
      DOWNSTREAM_DIRECT_SIDE_EFFECT_TOOL_CALL_NAMES_def HISTORY_DIRECT_SIDE_EFFECT_TOOL_CALL_NAMES_def Let_def)

lemma sample_first_mark:
  "mark_duplicate_tool_call_downstream_event sample_json_text (sample_call_event ''c1'') (Some ''r1'') False []
   = (False, [own_key (Some ''r1'') ''function_call'' None (Some ''exec_command'') (Some ''c1'') ''ls'',
       own_key (Some ''r1'') ''function_call'' None (Some ''exec_command'') None ''ls'',
       own_key None ''function_call'' None (Some ''exec_command'') None ''ls''], sample_call_event ''c1'')"
  by code_simp

theorem replayed_call_suppressed_witness:
  "fst (mark_duplicate_tool_call_downstream_event sample_json_text (sample_call_event ''c2'') (Some ''r2'') False
     (fst (snd (mark_duplicate_tool_call_downstream_event sample_json_text (sample_call_event ''c1'') (Some ''r1'') False []))))"
  unfolding sample_first_mark fst_conv snd_conv
  by (rule replayed_call_suppressed [OF sample_call_parts sample_call_parts sample_first_mark, where evs = "[]"])
    (simp_all add: TOOL_CALL_DEDUPE_CACHE_LIMIT_def own_key_def identity_scoped_def CODE_MODE_DOWNSTREAM_SIDE_EFFECT_TOOL_CALL_NAMES_def)

theorem new_call_id_forwarded_witness:
  "\<not> fst (mark_duplicate_tool_call_downstream_event sample_json_text (sample_call_event ''c2'') (Some ''r1'') False
     (fst (snd (mark_duplicate_tool_call_downstream_event sample_json_text (sample_call_event ''c1'') (Some ''r1'') False []))))"
  unfolding sample_first_mark fst_conv snd_conv
  by (rule new_call_id_forwarded [OF sample_call_parts sample_call_parts sample_first_mark, where evs = "[]"])
    (simp_all add: TOOL_CALL_DEDUPE_CACHE_LIMIT_def own_key_def identity_scoped_def CODE_MODE_DOWNSTREAM_SIDE_EFFECT_TOOL_CALL_NAMES_def)

end
