(* ===== verification/Replay_History.thy ===== *)
theory Replay_History
  imports Tool_Calls
begin

text \<open>
  Side-effecting tool calls in the history that a client sends with a request, after
  \<open>dedupe_replayed_side_effect_input_items\<close> of \<open>codex-lb/app/modules/proxy/tool_call_dedupe.py\<close>. A call that was
  replayed is dropped, its output is turned into a message, and a call that has no output may be turned
  into one too: upstream refuses a history with a call that has no output. An input item is a JSON
  value; indices are positions in the list of items, and a dictionary is a map.
\<close>

section \<open>Items of a history\<close>

text \<open>\<open>ReplayedSideEffectToolCallKey\<close>: item type, namespace, name, call, arguments.\<close>

datatype replay_key =
  ReplayKey (rk_type: string) (rk_namespace: "string option") (rk_name: "string option") (rk_call: "string option")
    (rk_arguments: string)

definition replayed_side_effect_tool_call_key :: "JsonText \<Rightarrow> json_dict \<Rightarrow> replay_key option" where
  "replayed_side_effect_tool_call_key J item =
     (let namespace = get_str ''namespace'' item;
          call = (if namespace \<noteq> None then nonempty_str (map_of item ''call_id'') else None);
          name = get_str ''name'' item
      in case get_str ''type'' item of
           None \<Rightarrow> None
         | Some ty \<Rightarrow>
             if ty = ''function_call''
             then (case get_str ''arguments'' item of
                     None \<Rightarrow> None
                   | Some arg \<Rightarrow>
                       if name \<in> Some ` set HISTORY_SIDE_EFFECT_TOOL_CALL_NAMES
                          \<and> tool_call_has_side_effect_arguments J name arg
                       then Some (ReplayKey ty namespace name call (canonical_side_effect_argument_key J name arg)) else None)
             else if ty = ''custom_tool_call''
             then (if name \<notin> Some ` set HISTORY_SIDE_EFFECT_TOOL_CALL_NAMES then None
                   else (case get_str ''input'' item of
                           None \<Rightarrow> None
                         | Some arg \<Rightarrow> Some (ReplayKey ty namespace name call (canonical_side_effect_argument_key J name arg))))
             else if ty \<in> set SIDE_EFFECT_TOOL_CALL_ITEM_TYPES
             then Some (ReplayKey ty namespace (Some ty) call (canonical_json_key J (get_json ''operation'' item)))
             else None)"

definition replayed_side_effect_key_has_stable_identity :: "replay_key \<Rightarrow> bool" where
  "replayed_side_effect_key_has_stable_identity k =
     (rk_namespace k \<noteq> None \<and> rk_call k \<noteq> None)"

definition replayed_input_segment_boundary :: "json_dict \<Rightarrow> bool" where
  "replayed_input_segment_boundary item =
     (map_of item ''role'' \<in> {Some (JStr ''developer''), Some (JStr ''system''), Some (JStr ''user'')}
      \<and> map_of item ''type'' \<in> {None, Some JNull, Some (JStr ''message'')})"

definition replayed_tool_call_segment_boundary :: "json_dict \<Rightarrow> bool" where
  "replayed_tool_call_segment_boundary item =
     (get_str ''type'' item \<in> Some ` set ([''function_call'', ''custom_tool_call''] @ SIDE_EFFECT_TOOL_CALL_ITEM_TYPES))"

definition replayed_tool_output_call_id :: "json_dict \<Rightarrow> string option" where
  "replayed_tool_output_call_id item =
     (if get_str ''type'' item
         \<notin> {Some ''function_call_output'', Some ''custom_tool_call_output'', Some ''apply_patch_call_output''} then None
      else nonempty_str (map_of item ''call_id''))"

definition assistant_message :: "string \<Rightarrow> json" where
  "assistant_message txt =
     JObj [(''type'', JStr ''message''), (''role'', JStr ''assistant''),
           (''content'', JList [JObj [(''type'', JStr ''output_text''), (''text'', JStr txt)]])]"

definition replayed_tool_output_as_assistant_message :: "JsonText \<Rightarrow> json_dict \<Rightarrow> json" where
  "replayed_tool_output_as_assistant_message J item =
     assistant_message (case get_json ''output'' item of JStr s \<Rightarrow> s | v \<Rightarrow> canonical_json_key J v)"

definition replayed_tool_call_without_output_as_assistant_message :: "json_dict \<Rightarrow> json" where
  "replayed_tool_call_without_output_as_assistant_message item =
     assistant_message (''Omitted replayed side-effect tool call without matching output: ''
       @ default_to (nonempty_str (map_of item ''name'')) ''tool'' @ ''.'')"

section \<open>The first pass\<close>

text \<open>\<open>call_keys\<close>, \<open>call_ids\<close> and \<open>output_indices_by_call_id\<close>, as functions of the index or the call id.\<close>

definition item_key :: "JsonText \<Rightarrow> json \<Rightarrow> replay_key option" where
  "item_key J v = (case v of JObj item \<Rightarrow> replayed_side_effect_tool_call_key J item | _ \<Rightarrow> None)"

definition item_call_id :: "json \<Rightarrow> string option" where
  "item_call_id v = (case v of JObj item \<Rightarrow> nonempty_str (map_of item ''call_id'') | _ \<Rightarrow> None)"

definition item_output_id :: "json \<Rightarrow> string option" where
  "item_output_id v = (case v of JObj item \<Rightarrow> replayed_tool_output_call_id item | _ \<Rightarrow> None)"

definition output_indices :: "JsonText \<Rightarrow> json list \<Rightarrow> string \<Rightarrow> nat list" where
  "output_indices J items call =
     filter (\<lambda>i. item_key J (items ! i) = None \<and> item_output_id (items ! i) = Some call) [0..<length items]"

section \<open>The second pass\<close>

text \<open>The state of the loop. \<open>rp_output\<close> is \<open>output_index_by_call_index\<close>, with \<open>Some None\<close> for an entry \<open>None\<close>.\<close>

record ReplayPass =
  rp_dropped :: "nat set"
  rp_rewritten :: "nat \<rightharpoonup> json"
  rp_first_id :: "replay_key \<rightharpoonup> string option"
  rp_first_index :: "replay_key \<rightharpoonup> nat"
  rp_output :: "nat \<rightharpoonup> nat option"
  rp_cursor :: "string \<rightharpoonup> nat"
  rp_last :: "replay_key option"
  rp_removed :: nat

definition start_pass :: ReplayPass where
  "start_pass = \<lparr>rp_dropped = {}, rp_rewritten = Map.empty, rp_first_id = Map.empty, rp_first_index = Map.empty,
     rp_output = Map.empty, rp_cursor = Map.empty, rp_last = None, rp_removed = 0\<rparr>"

definition clear_legacy_replayed_side_effect_keys :: "ReplayPass \<Rightarrow> ReplayPass" where
  "clear_legacy_replayed_side_effect_keys s =
     (let stable = (\<lambda>m k. if replayed_side_effect_key_has_stable_identity k then m k else None)
      in s\<lparr>rp_first_id := stable (rp_first_id s),
           rp_first_index := (\<lambda>k. if rp_first_id s k = None \<or> replayed_side_effect_key_has_stable_identity k
                                  then rp_first_index s k else None)\<rparr>)"

text \<open>The cursor moves past the outputs that come before the call.\<close>

function skip_before :: "nat list \<Rightarrow> nat \<Rightarrow> nat \<Rightarrow> nat" where
  "skip_before outs i cursor = (if cursor < length outs \<and> outs ! cursor < i then skip_before outs i (cursor + 1) else cursor)"

  by pat_completeness auto

termination by (relation "measure (\<lambda>(outs, i, cursor). length outs - cursor)") auto

declare skip_before.simps [simp del]

definition replayed_tool_output_index_for_call ::
  "(string \<Rightarrow> nat list) \<Rightarrow> nat \<Rightarrow> string \<Rightarrow> (string \<rightharpoonup> nat) \<Rightarrow> nat option \<times> (string \<rightharpoonup> nat)" where
  "replayed_tool_output_index_for_call outs i call cursors =
     (if outs call = [] then (None, cursors)
      else (let c = skip_before (outs call) i (default_to (cursors call) 0)
            in if length (outs call) \<le> c then (None, cursors(call \<mapsto> c))
               else (Some (outs call ! c), cursors(call \<mapsto> c + 1))))"

definition starts_segment :: "json \<Rightarrow> bool" where
  "starts_segment v = (case v of JObj item \<Rightarrow> replayed_input_segment_boundary item | _ \<Rightarrow> False)"

definition ends_burst :: "json \<Rightarrow> bool" where
  "ends_burst v = (case v of JObj item \<Rightarrow> replayed_tool_call_segment_boundary item | _ \<Rightarrow> False)"

definition enter_segment :: "json \<Rightarrow> ReplayPass \<Rightarrow> ReplayPass" where
  "enter_segment v s =
     (if starts_segment v
      then s\<lparr>rp_first_id := Map.empty, rp_first_index := Map.empty, rp_last := None\<rparr> else s)"

definition pass_other :: "json \<Rightarrow> ReplayPass \<Rightarrow> ReplayPass" where
  "pass_other v s =
     (let out = item_output_id v
      in if rp_last s \<noteq> None \<and> out \<noteq> None \<and> Option.bind (rp_first_id s (the (rp_last s))) id = out then s
         else if ends_burst v \<or> out \<noteq> None
         then clear_legacy_replayed_side_effect_keys s else s)"

definition drop_call :: "JsonText \<Rightarrow> json list \<Rightarrow> nat \<Rightarrow> nat option \<Rightarrow> replay_key \<Rightarrow> ReplayPass \<Rightarrow> ReplayPass" where
  "drop_call J items i out key s =
     (let rewritten1 = (case rp_first_index s key of
                          Some j \<Rightarrow>
                            if Option.bind (rp_output s j) id = None
                            then (case items ! j of
                                    JObj item \<Rightarrow> (rp_rewritten s)(j \<mapsto> replayed_tool_call_without_output_as_assistant_message item)
                                  | _ \<Rightarrow> rp_rewritten s)
                            else rp_rewritten s
                        | None \<Rightarrow> rp_rewritten s);
          rewritten2 = (case out of
                          Some j \<Rightarrow>
                            (case items ! j of
                               JObj item \<Rightarrow> rewritten1(j \<mapsto> replayed_tool_output_as_assistant_message J item)
                             | _ \<Rightarrow> rewritten1)
                        | None \<Rightarrow> rewritten1)
      in s\<lparr>rp_removed := rp_removed s + 1, rp_dropped := insert i (rp_dropped s), rp_rewritten := rewritten2\<rparr>)"

text \<open>The state in which a call is compared with the keys, and the output that belongs to it.\<close>

definition compared :: "replay_key \<Rightarrow> ReplayPass \<Rightarrow> ReplayPass" where
  "compared key s = (if rp_last s \<noteq> None \<and> rp_last s \<noteq> Some key then clear_legacy_replayed_side_effect_keys s else s)"

definition found_output :: "JsonText \<Rightarrow> json list \<Rightarrow> nat \<Rightarrow> ReplayPass \<Rightarrow> nat option \<times> (string \<rightharpoonup> nat)" where
  "found_output J items i s =
     (case item_call_id (items ! i) of
        None \<Rightarrow> (None, rp_cursor s)
      | Some c \<Rightarrow> replayed_tool_output_index_for_call (output_indices J items) i c (rp_cursor s))"

definition pass_call :: "JsonText \<Rightarrow> json list \<Rightarrow> nat \<Rightarrow> replay_key \<Rightarrow> ReplayPass \<Rightarrow> ReplayPass" where
  "pass_call J items i key s =
     (let s1 = compared key s; (out, cursors) = found_output J items i s1;
          s2 = s1\<lparr>rp_last := Some key, rp_cursor := cursors, rp_output := (rp_output s1)(i \<mapsto> out)\<rparr>
      in if rp_first_id s2 key = None
         then s2\<lparr>rp_first_id := (rp_first_id s2)(key \<mapsto> item_call_id (items ! i)),
                 rp_first_index := (rp_first_index s2)(key \<mapsto> i)\<rparr>
         else drop_call J items i out key s2)"

definition pass_item :: "JsonText \<Rightarrow> json list \<Rightarrow> ReplayPass \<Rightarrow> nat \<Rightarrow> ReplayPass" where
  "pass_item J items s i =
     (let s1 = enter_segment (items ! i) s
      in case item_key J (items ! i) of
           None \<Rightarrow> pass_other (items ! i) s1
         | Some key \<Rightarrow> pass_call J items i key s1)"

definition replay_pass :: "JsonText \<Rightarrow> json list \<Rightarrow> ReplayPass" where
  "replay_pass J items = foldl (pass_item J items) start_pass [0..<length items]"

section \<open>The result\<close>

text \<open>The calls that are left without an output.\<close>

definition unanswered :: "JsonText \<Rightarrow> json list \<Rightarrow> ReplayPass \<Rightarrow> nat \<Rightarrow> bool" where
  "unanswered J items s i =
     (item_key J (items ! i) \<noteq> None \<and> i \<notin> rp_dropped s \<and> rp_rewritten s i = None \<and> Option.bind (rp_output s i) id = None)"

definition rewrite_call :: "json list \<Rightarrow> (nat \<rightharpoonup> json) \<Rightarrow> nat \<Rightarrow> (nat \<rightharpoonup> json)" where
  "rewrite_call items m i =
     (case items ! i of
        JObj item \<Rightarrow> m(i \<mapsto> replayed_tool_call_without_output_as_assistant_message item)
      | _ \<Rightarrow> m)"

definition sanitize_missing :: "JsonText \<Rightarrow> json list \<Rightarrow> ReplayPass \<Rightarrow> (nat \<rightharpoonup> json) \<times> nat" where
  "sanitize_missing J items s =
     (let missing = filter (unanswered J items s) [0..<length items]
      in (foldl (rewrite_call items) (rp_rewritten s) missing, length missing))"

text \<open>\<open>x in {...}\<close> raises \<open>TypeError\<close> when \<open>x\<close> is a list or a dictionary.\<close>

definition unhashable_field :: "string \<Rightarrow> json \<Rightarrow> bool" where
  "unhashable_field k v =
     (case v of
        JObj item \<Rightarrow> (case map_of item k of Some (JList xs) \<Rightarrow> True | Some (JObj fs) \<Rightarrow> True | _ \<Rightarrow> False)
      | _ \<Rightarrow> False)"

definition dedupe_replayed_side_effect_input_items :: "JsonText \<Rightarrow> bool \<Rightarrow> json list \<Rightarrow> (json list \<times> nat) result" where
  "dedupe_replayed_side_effect_input_items J sanitize items =
     (if list_ex (unhashable_field ''type'') items then Inl TypeError
      else if \<not> list_ex (\<lambda>v. item_key J v \<noteq> None) items then Inr (items, 0)
      else if list_ex (unhashable_field ''role'') items then Inl TypeError
      else (let s = replay_pass J items;
                (rewritten, missing) = (if sanitize then sanitize_missing J items s else (rp_rewritten s, 0))
            in if rp_removed s = 0 \<and> missing = 0 then Inr (items, 0)
               else Inr (map (\<lambda>i. default_to (rewritten i) (items ! i)) (filter (\<lambda>i. i \<notin> rp_dropped s) [0..<length items]),
                         rp_removed s + missing)))"

section \<open>Lemmas on the second pass\<close>

lemma skip_before_bounds:
  "cursor \<le> skip_before outs i cursor"
  "skip_before outs i cursor < length outs \<Longrightarrow> i \<le> outs ! skip_before outs i cursor"
proof (induction outs i cursor rule: skip_before.induct)
  case (1 outs i cursor)
  { case 1 then show ?case using "1.IH"(1) by (subst skip_before.simps) force }
  { case 2 then show ?case using "1.IH"(2) by (subst skip_before.simps, subst (asm) skip_before.simps) (auto split: if_splits) }
qed

lemma output_for_call:
  assumes "replayed_tool_output_index_for_call outs i call cursors = (out, cursors')"
  shows "\<And>c. default_to (cursors c) 0 \<le> default_to (cursors' c) 0"
    and "out = Some j \<Longrightarrow> \<exists>p < length (outs call). outs call ! p = j \<and> i \<le> j \<and> default_to (cursors call) 0 \<le> p
      \<and> p < default_to (cursors' call) 0"
  using assms skip_before_bounds(1) [of "default_to (cursors call) 0" "outs call" i]
    skip_before_bounds(2) [of "outs call" i "default_to (cursors call) 0"]
  by (auto simp: replayed_tool_output_index_for_call_def Let_def not_le split: if_splits)

lemma output_indices_nth:
  assumes "p < length (output_indices J items c)"
  shows "output_indices J items c ! p < length items" "item_key J (items ! (output_indices J items c ! p)) = None"
    "item_output_id (items ! (output_indices J items c ! p)) = Some c"
  using nth_mem [OF assms] by (auto simp: output_indices_def)

lemma distinct_output_indices: "distinct (output_indices J items c)"
  by (simp add: output_indices_def)

text \<open>Messages are neither calls nor outputs, and nothing but the bookkeeping of keys changes between calls.\<close>

lemma message_item [simp]: "item_key J (assistant_message txt) = None" "item_output_id (assistant_message txt) = None"
  by (simp_all add: item_key_def item_output_id_def assistant_message_def replayed_side_effect_tool_call_key_def
      replayed_tool_output_call_id_def get_str_def Let_def SIDE_EFFECT_TOOL_CALL_ITEM_TYPES_def)

definition is_message :: "json \<Rightarrow> bool" where
  "is_message v = (\<exists>txt. v = assistant_message txt)"

lemma rewritten_message [simp]:
  "is_message (replayed_tool_output_as_assistant_message J item)"
  "is_message (replayed_tool_call_without_output_as_assistant_message item)"
  by (auto simp: is_message_def replayed_tool_output_as_assistant_message_def
      replayed_tool_call_without_output_as_assistant_message_def)

lemma item_key_JObj: "item_key J v \<noteq> None \<Longrightarrow> \<exists>item. v = JObj item"
  by (cases v) (auto simp: item_key_def)

lemma bookkeeping [simp]:
  "rp_dropped (clear_legacy_replayed_side_effect_keys s) = rp_dropped s"
  "rp_rewritten (clear_legacy_replayed_side_effect_keys s) = rp_rewritten s"
  "rp_output (clear_legacy_replayed_side_effect_keys s) = rp_output s"
  "rp_cursor (clear_legacy_replayed_side_effect_keys s) = rp_cursor s"
  "rp_removed (clear_legacy_replayed_side_effect_keys s) = rp_removed s"
  "rp_last (clear_legacy_replayed_side_effect_keys s) = rp_last s"
  "rp_dropped (enter_segment v s) = rp_dropped s" "rp_rewritten (enter_segment v s) = rp_rewritten s"
  "rp_output (enter_segment v s) = rp_output s" "rp_cursor (enter_segment v s) = rp_cursor s"
  "rp_removed (enter_segment v s) = rp_removed s"
  "rp_dropped (pass_other v s) = rp_dropped s" "rp_rewritten (pass_other v s) = rp_rewritten s"
  "rp_output (pass_other v s) = rp_output s" "rp_cursor (pass_other v s) = rp_cursor s"
  "rp_removed (pass_other v s) = rp_removed s" "rp_last (pass_other v s) = rp_last s"
  by (simp_all add: clear_legacy_replayed_side_effect_keys_def enter_segment_def pass_other_def Let_def)

section \<open>The keys of the second pass\<close>

text \<open>An item that does not separate a call from its replay.\<close>

definition transparent :: "JsonText \<Rightarrow> replay_key \<Rightarrow> json \<Rightarrow> bool" where
  "transparent J k v = (item_key J v = Some k \<or> item_key J v = None \<and> \<not> ends_burst v)"

text \<open>\<open>replay_span J items k j i\<close>: item \<open>j\<close> is a call with key \<open>k\<close>, and no user turn starts after it up to \<open>i\<close>; if
  the key has no stable identity, the items in between are transparent.\<close>

definition replay_span :: "JsonText \<Rightarrow> json list \<Rightarrow> replay_key \<Rightarrow> nat \<Rightarrow> nat \<Rightarrow> bool" where
  "replay_span J items k j i =
     (j < i \<and> item_key J (items ! j) = Some k \<and>
      (\<forall>l. j < l \<and> l < i \<longrightarrow> \<not> starts_segment (items ! l)
         \<and> (replayed_side_effect_key_has_stable_identity k \<or> transparent J k (items ! l))))"

definition keys_inv :: "JsonText \<Rightarrow> json list \<Rightarrow> nat \<Rightarrow> ReplayPass \<Rightarrow> bool" where
  "keys_inv J items m s =
     ((\<forall>k. (rp_first_id s k = None) = (rp_first_index s k = None)) \<and>
      (\<forall>k j. rp_first_index s k = Some j \<longrightarrow> replay_span J items k j m \<and> j \<notin> rp_dropped s) \<and>
      (\<forall>k. rp_first_id s k \<noteq> None \<longrightarrow> replayed_side_effect_key_has_stable_identity k \<or> rp_last s = Some k) \<and>
      (\<forall>i \<in> rp_dropped s. i < m \<and> (\<exists>k j. item_key J (items ! i) = Some k \<and> replay_span J items k j i
         \<and> \<not> starts_segment (items ! i) \<and> j \<notin> rp_dropped s)))"

lemma keys_invD:
  assumes "keys_inv J items m s"
  shows "(rp_first_id s k = None) = (rp_first_index s k = None)"
    and "rp_first_index s k = Some j \<Longrightarrow> replay_span J items k j m \<and> j \<notin> rp_dropped s"
    and "rp_first_id s k \<noteq> None \<Longrightarrow> replayed_side_effect_key_has_stable_identity k \<or> rp_last s = Some k"
    and "i \<in> rp_dropped s \<Longrightarrow> i < m \<and> (\<exists>k j. item_key J (items ! i) = Some k \<and> replay_span J items k j i
         \<and> \<not> starts_segment (items ! i) \<and> j \<notin> rp_dropped s)"
  using assms by (auto simp: keys_inv_def)

lemma keys_invI:
  assumes "\<And>k. (rp_first_id s k = None) = (rp_first_index s k = None)"
    and "\<And>k j. rp_first_index s k = Some j \<Longrightarrow> replay_span J items k j m \<and> j \<notin> rp_dropped s"
    and "\<And>k. rp_first_id s k \<noteq> None \<Longrightarrow> replayed_side_effect_key_has_stable_identity k \<or> rp_last s = Some k"
    and "\<And>i. i \<in> rp_dropped s \<Longrightarrow> i < m \<and> (\<exists>k j. item_key J (items ! i) = Some k \<and> replay_span J items k j i
         \<and> \<not> starts_segment (items ! i) \<and> j \<notin> rp_dropped s)"
  shows "keys_inv J items m s"
  using assms unfolding keys_inv_def by blast

lemma replay_span_Suc:
  "replay_span J items k j m \<Longrightarrow> \<not> starts_segment (items ! m)
   \<Longrightarrow> replayed_side_effect_key_has_stable_identity k \<or> transparent J k (items ! m) \<Longrightarrow> replay_span J items k j (Suc m)"
  by (auto simp: replay_span_def less_Suc_eq)

lemma output_not_call: "item_output_id v \<noteq> None \<Longrightarrow> \<not> ends_burst v"
  by (auto simp: item_output_id_def ends_burst_def replayed_tool_output_call_id_def replayed_tool_call_segment_boundary_def
      SIDE_EFFECT_TOOL_CALL_ITEM_TYPES_def split: json.splits if_splits)

text \<open>The state when item \<open>m\<close> has been looked at for the start of a segment.\<close>

lemma keys_inv_enter:
  assumes "keys_inv J items m s"
  shows "keys_inv J items m (enter_segment (items ! m) s)"
    and "rp_first_id (enter_segment (items ! m) s) k \<noteq> None \<Longrightarrow> \<not> starts_segment (items ! m)"
  using assms by (auto simp: keys_inv_def enter_segment_def)

lemma keys_inv_clear:
  assumes "keys_inv J items m s"
  shows "keys_inv J items m (clear_legacy_replayed_side_effect_keys s)"
    and "rp_first_id (clear_legacy_replayed_side_effect_keys s) k \<noteq> None
      \<Longrightarrow> rp_first_id s k \<noteq> None \<and> replayed_side_effect_key_has_stable_identity k"
  using assms
  by (auto simp: keys_inv_def clear_legacy_replayed_side_effect_keys_def Let_def split: if_splits; metis not_None_eq)+

lemma keys_inv_other:
  assumes "keys_inv J items m s" "item_key J (items ! m) = None" "\<And>k. rp_first_id s k \<noteq> None \<Longrightarrow> \<not> starts_segment (items ! m)"
  shows "keys_inv J items (Suc m) (pass_other (items ! m) s)"
proof -
  let ?s = "pass_other (items ! m) s"
  have "?s = s \<and> \<not> ends_burst (items ! m) \<or> ?s = clear_legacy_replayed_side_effect_keys s"
    using output_not_call by (auto simp: pass_other_def Let_def)
  then have inv: "keys_inv J items m ?s"
    and still: "rp_first_id ?s k \<noteq> None \<Longrightarrow> rp_first_id s k \<noteq> None \<and>
      (replayed_side_effect_key_has_stable_identity k \<or> transparent J k (items ! m))" for k
    using assms(1,2) keys_inv_clear [OF assms(1)] by (auto simp: transparent_def)
  have "replay_span J items k j (Suc m)" if "rp_first_index ?s k = Some j" for k j
  proof (rule replay_span_Suc)
    have "rp_first_id ?s k \<noteq> None" using that keys_invD(1) [OF inv, of k] by simp
    then show "\<not> starts_segment (items ! m)" "replayed_side_effect_key_has_stable_identity k \<or> transparent J k (items ! m)"
      using still assms(3) by blast+
  qed (use keys_invD(2) [OF inv that] in simp)
  then show ?thesis using inv unfolding keys_inv_def by (meson less_SucI)
qed

text \<open>What a call does to the state.\<close>

lemma compared_simps [simp]:
  "rp_cursor (compared key s) = rp_cursor s" "rp_output (compared key s) = rp_output s"
  "rp_dropped (compared key s) = rp_dropped s" "rp_rewritten (compared key s) = rp_rewritten s"
  "rp_removed (compared key s) = rp_removed s"
  by (simp_all add: compared_def)

lemma found_compared: "found_output J items i (compared key s) = found_output J items i s"
  by (simp add: found_output_def split: option.split)

lemma pass_call_fields:
  fixes J items i s key
  assumes "found_output J items i s = (out, cursors)"
  defines "s' \<equiv> pass_call J items i key s"
  shows "rp_output s' = (rp_output s)(i \<mapsto> out)" "rp_cursor s' = cursors" "rp_last s' = Some key"
    and "rp_first_id (compared key s) key = None \<Longrightarrow>
      rp_first_id s' = (rp_first_id (compared key s))(key \<mapsto> item_call_id (items ! i))
      \<and> rp_first_index s' = (rp_first_index (compared key s))(key \<mapsto> i)
      \<and> rp_dropped s' = rp_dropped s \<and> rp_rewritten s' = rp_rewritten s \<and> rp_removed s' = rp_removed s"
    and "rp_first_id (compared key s) key \<noteq> None \<Longrightarrow>
      rp_first_id s' = rp_first_id (compared key s) \<and> rp_first_index s' = rp_first_index (compared key s)
      \<and> rp_dropped s' = insert i (rp_dropped s) \<and> rp_removed s' = rp_removed s + 1"
proof -
  let ?s = "(compared key s)\<lparr>rp_last := Some key, rp_cursor := cursors, rp_output := (rp_output s)(i \<mapsto> out)\<rparr>"
  have s': "s' = (if rp_first_id (compared key s) key = None
      then ?s\<lparr>rp_first_id := (rp_first_id (compared key s))(key \<mapsto> item_call_id (items ! i)),
              rp_first_index := (rp_first_index (compared key s))(key \<mapsto> i)\<rparr>
      else drop_call J items i out key ?s)"
    using assms(1) by (simp add: s'_def pass_call_def found_compared Let_def)
  show "rp_output s' = (rp_output s)(i \<mapsto> out)" "rp_cursor s' = cursors" "rp_last s' = Some key"
    by (simp_all add: s' drop_call_def Let_def)
  show "rp_first_id (compared key s) key = None \<Longrightarrow>
      rp_first_id s' = (rp_first_id (compared key s))(key \<mapsto> item_call_id (items ! i))
      \<and> rp_first_index s' = (rp_first_index (compared key s))(key \<mapsto> i)
      \<and> rp_dropped s' = rp_dropped s \<and> rp_rewritten s' = rp_rewritten s \<and> rp_removed s' = rp_removed s"
    by (simp add: s')
  show "rp_first_id (compared key s) key \<noteq> None \<Longrightarrow>
      rp_first_id s' = rp_first_id (compared key s) \<and> rp_first_index s' = rp_first_index (compared key s)
      \<and> rp_dropped s' = insert i (rp_dropped s) \<and> rp_removed s' = rp_removed s + 1"
    by (simp add: s' drop_call_def Let_def)
qed

lemma compared_keys:
  assumes "keys_inv J items m s"
  shows "keys_inv J items m (compared key s)"
    and "rp_first_id (compared key s) k \<noteq> None \<Longrightarrow>
      rp_first_id s k \<noteq> None \<and> (replayed_side_effect_key_has_stable_identity k \<or> k = key)"
  using assms keys_inv_clear [OF assms] keys_invD(3) [OF assms, of k]
  by (cases "rp_last s \<noteq> None \<and> rp_last s \<noteq> Some key"; auto simp: compared_def)+

lemma keys_inv_call:
  assumes "keys_inv J items m s" "item_key J (items ! m) = Some key" "\<And>k. rp_first_id s k \<noteq> None \<Longrightarrow> \<not> starts_segment (items ! m)"
  shows "keys_inv J items (Suc m) (pass_call J items m key s)"
proof -
  obtain out cursors where f: "found_output J items m s = (out, cursors)" by (rule prod.exhaust)
  let ?s = "pass_call J items m key s" and ?c = "compared key s"
  note fields = pass_call_fields [OF f, of key] and inv = compared_keys(1) [OF assms(1), of key]
    and still = compared_keys(2) [OF assms(1), of key]
  have dropped: "rp_dropped ?c = rp_dropped s" by (simp add: compared_def)
  have span: "replay_span J items k j (Suc m)" if "rp_first_index ?c k = Some j" for k j
  proof (rule replay_span_Suc)
    have "rp_first_id ?c k \<noteq> None" using that keys_invD(1) [OF inv, of k] by simp
    then show "\<not> starts_segment (items ! m)" "replayed_side_effect_key_has_stable_identity k \<or> transparent J k (items ! m)"
      using still [of k] assms(2,3) by (auto simp: transparent_def)
  qed (use keys_invD(2) [OF inv that] in simp)
  have fresh: "m \<notin> rp_dropped s" "\<And>k j. rp_first_index ?c k = Some j \<Longrightarrow> j < m \<and> j \<notin> rp_dropped s"
    using keys_invD(4) [OF assms(1), of m] keys_invD(2) [OF inv] by (auto simp: dropped replay_span_def)
  have old: "i < Suc m \<and> (\<exists>k j. item_key J (items ! i) = Some k \<and> replay_span J items k j i
      \<and> \<not> starts_segment (items ! i) \<and> j \<notin> insert m (rp_dropped s))" if "i \<in> rp_dropped s" for i
    using keys_invD(4) [OF assms(1) that] by (fastforce simp: replay_span_def)
  have own: "replay_span J items key m (Suc m)" using assms(2) by (auto simp: replay_span_def)
  show ?thesis
  proof (cases "rp_first_id ?c key = None")
    case True
    note new = fields(4) [OF True]
    show ?thesis
    proof (rule keys_invI)
      show "(rp_first_id ?s k = None) = (rp_first_index ?s k = None)" for k using new keys_invD(1) [OF inv] by simp
      show "replay_span J items k j (Suc m) \<and> j \<notin> rp_dropped ?s" if "rp_first_index ?s k = Some j" for k j
        using that new span [of k j] own fresh by (cases "k = key") auto
      show "replayed_side_effect_key_has_stable_identity k \<or> rp_last ?s = Some k" if "rp_first_id ?s k \<noteq> None" for k
        using that new still [of k] fields(3) by (cases "k = key") auto
    qed (use new old in blast)
  next
    case False
    then obtain j where j: "rp_first_index ?c key = Some j" using keys_invD(1) [OF inv, of key] by auto
    have own: "replay_span J items key j m" "\<not> starts_segment (items ! m)" "j \<notin> insert m (rp_dropped s)"
      using keys_invD(2) [OF inv j] fresh(2) [OF j] still [OF False] assms(3) by auto
    note new = fields(5) [OF False]
    show ?thesis
    proof (rule keys_invI)
      show "(rp_first_id ?s k = None) = (rp_first_index ?s k = None)" for k using new keys_invD(1) [OF inv] by simp
      show "replay_span J items k j (Suc m) \<and> j \<notin> rp_dropped ?s" if "rp_first_index ?s k = Some j" for k j
        using that new span [of k j] fresh(2) [of k j] by auto
      show "replayed_side_effect_key_has_stable_identity k \<or> rp_last ?s = Some k" if "rp_first_id ?s k \<noteq> None" for k
        using that new still [of k] fields(3) by auto
      show "i < Suc m \<and> (\<exists>k j. item_key J (items ! i) = Some k \<and> replay_span J items k j i
          \<and> \<not> starts_segment (items ! i) \<and> j \<notin> rp_dropped ?s)" if "i \<in> rp_dropped ?s" for i
      proof (cases "i = m")
        case True
        then show ?thesis using own new assms(2) by auto
      qed (use that new old [of i] in auto)
    qed
  qed
qed

lemma keys_inv_pass: "m \<le> length items \<Longrightarrow> keys_inv J items m (foldl (pass_item J items) start_pass [0..<m])"
proof (induction m)
  case 0
  show ?case by (simp add: keys_inv_def start_pass_def)
next
  case (Suc m)
  then have "keys_inv J items m (foldl (pass_item J items) start_pass [0..<m])" by simp
  note entered = keys_inv_enter [OF this]
  have "keys_inv J items (Suc m) (pass_item J items (foldl (pass_item J items) start_pass [0..<m]) m)"
    using keys_inv_other [OF entered(1) _ entered(2)] keys_inv_call [OF entered(1) _ entered(2)]
    by (auto simp: pass_item_def Let_def split: option.split)
  then show ?case by simp
qed

section \<open>The outputs of the second pass\<close>

definition output_of :: "ReplayPass \<Rightarrow> nat \<Rightarrow> nat option" where
  "output_of s i = Option.bind (rp_output s i) id"

definition outputs_inv :: "JsonText \<Rightarrow> json list \<Rightarrow> nat \<Rightarrow> ReplayPass \<Rightarrow> bool" where
  "outputs_inv J items m s =
     ((\<forall>i j. output_of s i = Some j \<longrightarrow> i < m \<and> i < j \<and>
         (\<exists>c p. item_call_id (items ! i) = Some c \<and> p < length (output_indices J items c)
            \<and> p < default_to (rp_cursor s c) 0 \<and> output_indices J items c ! p = j)) \<and>
      (\<forall>i i' j. output_of s i = Some j \<longrightarrow> output_of s i' = Some j \<longrightarrow> i = i') \<and>
      (\<forall>k v. rp_rewritten s k = Some v \<longrightarrow> is_message v \<and>
         (item_key J (items ! k) \<noteq> None \<or> (\<exists>i \<in> rp_dropped s. output_of s i = Some k))) \<and>
      (rp_removed s = 0 \<longrightarrow> rp_dropped s = {} \<and> rp_rewritten s = Map.empty))"

lemma outputs_invD:
  assumes "outputs_inv J items m s"
  shows "output_of s i = Some j \<Longrightarrow> i < m \<and> i < j \<and> (\<exists>c p. item_call_id (items ! i) = Some c
      \<and> p < length (output_indices J items c) \<and> p < default_to (rp_cursor s c) 0 \<and> output_indices J items c ! p = j)"
    and "output_of s i = Some j \<Longrightarrow> output_of s i' = Some j \<Longrightarrow> i = i'"
    and "rp_rewritten s k = Some v \<Longrightarrow> is_message v \<and>
      (item_key J (items ! k) \<noteq> None \<or> (\<exists>i \<in> rp_dropped s. output_of s i = Some k))"
    and "rp_removed s = 0 \<Longrightarrow> rp_dropped s = {} \<and> rp_rewritten s = Map.empty"
  using assms unfolding outputs_inv_def by blast+

lemma drop_call_rewritten:
  assumes "rp_rewritten (drop_call J items i out key s) k = Some v"
  shows "rp_rewritten s k = Some v \<or> is_message v \<and> (rp_first_index s key = Some k \<or> out = Some k)"
proof -
  define r1 where "r1 = (case rp_first_index s key of
      Some j \<Rightarrow> if Option.bind (rp_output s j) id = None
        then (case items ! j of JObj item \<Rightarrow> (rp_rewritten s)(j \<mapsto> replayed_tool_call_without_output_as_assistant_message item)
          | _ \<Rightarrow> rp_rewritten s) else rp_rewritten s
    | None \<Rightarrow> rp_rewritten s)"
  have "r1 k = Some v \<or> is_message v \<and> out = Some k"
    using assms by (auto simp: drop_call_def r1_def [symmetric] Let_def split: option.splits json.splits if_splits)
  moreover have "r1 k = Some v \<Longrightarrow> rp_rewritten s k = Some v \<or> is_message v \<and> rp_first_index s key = Some k"
    by (auto simp: r1_def split: option.splits json.splits if_splits)
  ultimately show ?thesis by blast
qed

lemma pass_call_rewritten:
  assumes "found_output J items i s = (out, cursors)" "rp_rewritten (pass_call J items i key s) k = Some v"
  shows "rp_rewritten s k = Some v
    \<or> rp_first_id (compared key s) key \<noteq> None \<and> is_message v \<and> (rp_first_index (compared key s) key = Some k \<or> out = Some k)"
proof (cases "rp_first_id (compared key s) key = None")
  case False
  then show ?thesis
    using assms(2) drop_call_rewritten
    by (fastforce simp: pass_call_def found_compared assms(1) Let_def)
qed (use pass_call_fields(4) [OF assms(1)] assms(2) in simp)

lemma outputs_inv_bookkeeping:
  assumes "outputs_inv J items m s" "m \<le> m'" "rp_output s' = rp_output s" "rp_cursor s' = rp_cursor s"
    "rp_rewritten s' = rp_rewritten s" "rp_dropped s' = rp_dropped s" "rp_removed s' = rp_removed s"
  shows "outputs_inv J items m' s'"
proof -
  have "output_of s' = output_of s" by (simp add: output_of_def assms(3) fun_eq_iff)
  then show ?thesis
    unfolding outputs_inv_def assms(4-7) using outputs_invD [OF assms(1)] assms(2)
    by (intro conjI allI impI; simp; meson order_less_le_trans)
qed

lemma found_output_fits:
  assumes "found_output J items m s = (out, cursors)" "item_key J (items ! m) \<noteq> None"
  shows "\<And>c. default_to (rp_cursor s c) 0 \<le> default_to (cursors c) 0"
    and "out = Some j \<Longrightarrow> m < j \<and> (\<exists>c p. item_call_id (items ! m) = Some c \<and> p < length (output_indices J items c)
      \<and> default_to (rp_cursor s c) 0 \<le> p \<and> p < default_to (cursors c) 0 \<and> output_indices J items c ! p = j)"
proof -
  show "\<And>c. default_to (rp_cursor s c) 0 \<le> default_to (cursors c) 0"
    using assms(1) output_for_call(1) by (auto simp: found_output_def split: option.splits)
  assume out: "out = Some j"
  then obtain c where c: "item_call_id (items ! m) = Some c"
    "replayed_tool_output_index_for_call (output_indices J items) m c (rp_cursor s) = (out, cursors)"
    using assms(1) by (auto simp: found_output_def split: option.splits)
  from output_for_call(2) [OF c(2) out] obtain p where p: "p < length (output_indices J items c)"
    "output_indices J items c ! p = j" "m \<le> j" "default_to (rp_cursor s c) 0 \<le> p" "p < default_to (cursors c) 0" by blast
  have "m \<noteq> j" using assms(2) output_indices_nth(2) [OF p(1)] p(2) by auto
  then show "m < j \<and> (\<exists>c p. item_call_id (items ! m) = Some c \<and> p < length (output_indices J items c)
      \<and> default_to (rp_cursor s c) 0 \<le> p \<and> p < default_to (cursors c) 0 \<and> output_indices J items c ! p = j)"
    using p c(1) by auto
qed

lemma outputs_inv_call:
  assumes "outputs_inv J items m s" "keys_inv J items m s" "item_key J (items ! m) = Some key"
  shows "outputs_inv J items (Suc m) (pass_call J items m key s)"
proof -
  obtain out cursors where f: "found_output J items m s = (out, cursors)" by (rule prod.exhaust)
  let ?s = "pass_call J items m key s"
  note fields = pass_call_fields [OF f, of key] and fits = found_output_fits [OF f, unfolded assms(3), simplified]
  have out: "output_of ?s i = (if i = m then out else output_of s i)" for i
    by (simp add: output_of_def fields(1))
  have none: "output_of s m = None" using outputs_invD(1) [OF assms(1), of m] by (cases "output_of s m") auto
  have new: "output_of s i \<noteq> Some j" if j: "out = Some j" for i j
  proof
    assume o: "output_of s i = Some j"
    from outputs_invD(1) [OF assms(1) o] obtain c p where p: "p < length (output_indices J items c)"
      "p < default_to (rp_cursor s c) 0" "output_indices J items c ! p = j" by blast
    from fits(2) [OF j] obtain c' p' where p': "p' < length (output_indices J items c')"
      "default_to (rp_cursor s c') 0 \<le> p'" "output_indices J items c' ! p' = j" by blast
    have "c = c'" using output_indices_nth(3) [OF p(1)] output_indices_nth(3) [OF p'(1)] p(3) p'(3) by simp
    then have "p = p'" using p(1,3) p'(1,3) distinct_output_indices nth_eq_iff_index_eq by metis
    then show False using p(2) p'(2) \<open>c = c'\<close> by simp
  qed
  show ?thesis
    unfolding outputs_inv_def
  proof (intro conjI allI impI)
    fix i j
    assume o: "output_of ?s i = Some j"
    show "i < Suc m" "i < j" "\<exists>c p. item_call_id (items ! i) = Some c \<and> p < length (output_indices J items c)
        \<and> p < default_to (rp_cursor ?s c) 0 \<and> output_indices J items c ! p = j"
      using o outputs_invD(1) [OF assms(1), of i j] fits(2) [of j] fits(1) unfolding out fields(2)
      by (auto split: if_splits) (metis order_less_le_trans)
  next
    fix i i' j
    assume "output_of ?s i = Some j" "output_of ?s i' = Some j"
    then show "i = i'" using new outputs_invD(2) [OF assms(1)] unfolding out by (auto split: if_splits)
  next
    fix k v
    assume r: "rp_rewritten ?s k = Some v"
    have sub: "rp_dropped s \<subseteq> rp_dropped ?s" using fields(4,5) by blast
    have keep: "output_of ?s i = Some k" if "output_of s i = Some k" for i using that none out by auto
    from pass_call_rewritten [OF f r] show "is_message v"
      using outputs_invD(3) [OF assms(1)] by blast
    from pass_call_rewritten [OF f r]
    show "item_key J (items ! k) \<noteq> None \<or> (\<exists>i \<in> rp_dropped ?s. output_of ?s i = Some k)"
    proof (elim disjE conjE)
      assume "rp_rewritten s k = Some v"
      then show ?thesis using outputs_invD(3) [OF assms(1)] sub keep by blast
    next
      assume "rp_first_index (compared key s) key = Some k"
      then show ?thesis using keys_invD(2) [OF compared_keys(1) [OF assms(2)]] by (auto simp: replay_span_def)
    next
      assume "out = Some k" "rp_first_id (compared key s) key \<noteq> None"
      then show ?thesis using fields(5) out by auto
    qed
  next
    assume "rp_removed ?s = 0"
    then show "rp_dropped ?s = {}" "rp_rewritten ?s = Map.empty"
      using fields(4,5) outputs_invD(4) [OF assms(1)] by fastforce+
  qed
qed

lemma outputs_inv_pass: "m \<le> length items \<Longrightarrow> outputs_inv J items m (foldl (pass_item J items) start_pass [0..<m])"
proof (induction m)
  case 0
  show ?case by (simp add: outputs_inv_def start_pass_def output_of_def)
next
  case (Suc m)
  let ?s = "foldl (pass_item J items) start_pass [0..<m]"
  have keys: "keys_inv J items m (enter_segment (items ! m) ?s)" using keys_inv_enter(1) keys_inv_pass Suc.prems by simp
  have entered: "outputs_inv J items m (enter_segment (items ! m) ?s)"
    by (rule outputs_inv_bookkeeping [where s = ?s and m = m]) (use Suc in simp_all)
  have "outputs_inv J items (Suc m) (pass_other (items ! m) (enter_segment (items ! m) ?s))"
    by (rule outputs_inv_bookkeeping [OF entered]) simp_all
  moreover have "outputs_inv J items (Suc m) (pass_call J items m key (enter_segment (items ! m) ?s))"
    if "item_key J (items ! m) = Some key" for key
    by (rule outputs_inv_call [OF entered keys that])
  ultimately have "outputs_inv J items (Suc m) (pass_item J items ?s m)"
    by (auto simp: pass_item_def Let_def split: option.split)
  then show ?case by simp
qed

section \<open>The result\<close>

lemma rewrite_calls_cases:
  "foldl (rewrite_call items) m is i = Some v \<Longrightarrow> m i = Some v \<or> is_message v \<and> i \<in> set is"
  by (induction "is" arbitrary: m) (fastforce simp: rewrite_call_def split: json.splits if_splits)+

lemma rewrite_calls_keep: "m i \<noteq> None \<Longrightarrow> foldl (rewrite_call items) m is i \<noteq> None"
  by (induction "is" arbitrary: m) (simp_all add: rewrite_call_def split: json.split)

lemma rewrite_calls_new: "i \<in> set is \<Longrightarrow> items ! i = JObj item \<Longrightarrow> foldl (rewrite_call items) m is i \<noteq> None"
proof (induction "is" arbitrary: m)
  case (Cons j js)
  show ?case
  proof (cases "i = j")
    case True
    then have "rewrite_call items m j i \<noteq> None" using Cons.prems(2) by (simp add: rewrite_call_def)
    then show ?thesis using rewrite_calls_keep by simp
  qed (use Cons in simp)
qed simp

lemma sanitize_missing_props:
  assumes "sanitize_missing J items s = (rewritten, missing)"
  shows "rewritten i = Some v \<Longrightarrow> rp_rewritten s i = Some v \<or> is_message v \<and> unanswered J items s i"
    and "i < length items \<Longrightarrow> unanswered J items s i \<Longrightarrow> rewritten i \<noteq> None"
    and "rp_rewritten s i \<noteq> None \<Longrightarrow> rewritten i \<noteq> None"
    and "missing = 0 \<Longrightarrow> rewritten = rp_rewritten s"
proof -
  let ?is = "filter (unanswered J items s) [0..<length items]"
  have r: "rewritten = foldl (rewrite_call items) (rp_rewritten s) ?is" and n: "missing = length ?is"
    using assms by (auto simp: sanitize_missing_def Let_def)
  show "rewritten i = Some v \<Longrightarrow> rp_rewritten s i = Some v \<or> is_message v \<and> unanswered J items s i"
    using rewrite_calls_cases [of items _ ?is i v] by (fastforce simp: r)
  show "rp_rewritten s i \<noteq> None \<Longrightarrow> rewritten i \<noteq> None" unfolding r by (rule rewrite_calls_keep)
  show "missing = 0 \<Longrightarrow> rewritten = rp_rewritten s" using n r by simp
  assume "i < length items" "unanswered J items s i"
  moreover from this(2) obtain item where "items ! i = JObj item" using item_key_JObj by (auto simp: unanswered_def)
  ultimately show "rewritten i \<noteq> None" unfolding r by (intro rewrite_calls_new) auto
qed

lemma replay_pass_inv:
  "keys_inv J items (length items) (replay_pass J items)" "outputs_inv J items (length items) (replay_pass J items)"
  unfolding replay_pass_def by (simp_all add: keys_inv_pass outputs_inv_pass)

lemma dropped_call: "i \<in> rp_dropped (replay_pass J items) \<Longrightarrow> i < length items \<and> item_key J (items ! i) \<noteq> None"
  using keys_invD(4) [OF replay_pass_inv(1)] by fastforce

text \<open>What the result is made of, whichever way the function returns.\<close>

definition kept_items :: "JsonText \<Rightarrow> json list \<Rightarrow> nat list" where
  "kept_items J items = filter (\<lambda>i. i \<notin> rp_dropped (replay_pass J items)) [0..<length items]"

definition faithful_rewrite :: "JsonText \<Rightarrow> bool \<Rightarrow> json list \<Rightarrow> (nat \<rightharpoonup> json) \<Rightarrow> bool" where
  "faithful_rewrite J sanitize items rewritten =
     ((\<forall>i v. i < length items \<longrightarrow> rewritten i = Some v \<longrightarrow> is_message v \<and> (item_key J (items ! i) \<noteq> None
         \<or> (\<exists>d \<in> rp_dropped (replay_pass J items). output_of (replay_pass J items) d = Some i))) \<and>
      (sanitize \<longrightarrow> (\<forall>i < length items. item_key J (items ! i) \<noteq> None \<longrightarrow> i \<notin> rp_dropped (replay_pass J items)
         \<longrightarrow> rewritten i = None \<longrightarrow> output_of (replay_pass J items) i \<noteq> None)))"

lemma dedupe_result:
  assumes "dedupe_replayed_side_effect_input_items J sanitize items = Inr (out, n)"
  obtains rewritten where
    "out = map (\<lambda>i. default_to (rewritten i) (items ! i)) (kept_items J items)" "faithful_rewrite J sanitize items rewritten"
proof -
  let ?s = "replay_pass J items"
  note inv = replay_pass_inv(2) [of J items]
  have same: "map (\<lambda>i. default_to (Map.empty i) (items ! i)) (kept_items J items) = items" if "rp_dropped ?s = {}"
    using that by (simp add: kept_items_def map_nth)
  show thesis
  proof (cases "list_ex (\<lambda>v. item_key J v \<noteq> None) items")
    case False
    then have "out = items" "\<And>i. i < length items \<Longrightarrow> item_key J (items ! i) = None"
      using assms by (auto simp: dedupe_replayed_side_effect_input_items_def list_ex_length split: if_splits)
    moreover from this(2) have "rp_dropped ?s = {}" using dropped_call by blast
    ultimately show ?thesis using same by (intro that [of Map.empty]) (simp_all add: faithful_rewrite_def)
  next
    case True
    obtain rewritten missing where r: "(if sanitize then sanitize_missing J items ?s else (rp_rewritten ?s, 0)) = (rewritten, missing)"
      by (rule prod.exhaust)
    have out: "out = (if rp_removed ?s = 0 \<and> missing = 0 then items
        else map (\<lambda>i. default_to (rewritten i) (items ! i)) (kept_items J items))"
      using assms True r
      by (auto simp: dedupe_replayed_side_effect_input_items_def kept_items_def Let_def split: if_splits)
    have "out = map (\<lambda>i. default_to (rewritten i) (items ! i)) (kept_items J items)"
    proof (cases "rp_removed ?s = 0 \<and> missing = 0")
      case True
      then have "rewritten = Map.empty" "rp_dropped ?s = {}"
        using outputs_invD(4) [OF inv] r sanitize_missing_props(4) by (auto split: if_splits)
      then show ?thesis using same out True by simp
    qed (auto simp: out)
    moreover have "is_message v \<and> (item_key J (items ! i) \<noteq> None \<or> (\<exists>d \<in> rp_dropped ?s. output_of ?s d = Some i))"
      if "rewritten i = Some v" for i v
      using that r outputs_invD(3) [OF inv, of i v] sanitize_missing_props(1) [of J items ?s rewritten missing i v]
      by (auto simp: unanswered_def split: if_splits)
    moreover have "output_of ?s i \<noteq> None" if "sanitize" "i < length items" "item_key J (items ! i) \<noteq> None"
        "i \<notin> rp_dropped ?s" "rewritten i = None" for i
    proof
      assume "output_of ?s i = None"
      moreover have "rp_rewritten ?s i = None"
        using sanitize_missing_props(3) [of J items ?s rewritten missing i] r that(1,5)
        by (cases "rp_rewritten ?s i") auto
      ultimately have "unanswered J items ?s i" using that by (simp add: unanswered_def output_of_def)
      then show False using sanitize_missing_props(2) [of J items ?s rewritten missing i] r that by simp
    qed
    ultimately show ?thesis by (intro that [of rewritten]) (simp_all add: faithful_rewrite_def)
  qed
qed

lemma kept_items_props:
  "sorted_wrt (<) (kept_items J items)" "distinct (kept_items J items)"
  "set (kept_items J items) = {i. i < length items \<and> i \<notin> rp_dropped (replay_pass J items)}"
  by (auto simp: kept_items_def sorted_wrt_filter)

text \<open>A call of the sanitized result has an output: the one that the second pass found for it.\<close>

lemma call_has_output:
  assumes "out = map (\<lambda>i. default_to (rewritten i) (items ! i)) (kept_items J items)" "faithful_rewrite J True items rewritten"
    and p: "p < length out" "item_key J (out ! p) \<noteq> None"
  shows "\<exists>q. p < q \<and> q < length out \<and> output_of (replay_pass J items) (kept_items J items ! p) = Some (kept_items J items ! q)
    \<and> item_call_id (out ! p) \<noteq> None \<and> item_output_id (out ! q) = item_call_id (out ! p)"
proof -
  let ?s = "replay_pass J items" and ?ks = "kept_items J items"
  note out = assms(1) and fr = assms(2)
  have message: "is_message v \<and> (item_key J (items ! i) \<noteq> None \<or> (\<exists>d \<in> rp_dropped ?s. output_of ?s d = Some i))"
    if "i < length items" "rewritten i = Some v" for i v using fr that unfolding faithful_rewrite_def by blast
  have answered: "output_of ?s i \<noteq> None"
    if "i < length items" "item_key J (items ! i) \<noteq> None" "i \<notin> rp_dropped ?s" "rewritten i = None" for i
    using fr that unfolding faithful_rewrite_def by blast
  let ?i = "?ks ! p"
  have i: "?i < length items" "?i \<notin> rp_dropped ?s" using kept_items_props(3) [of J items] nth_mem [of p ?ks] p(1) out by auto
  have none: "rewritten ?i = None"
  proof (cases "rewritten ?i")
    case (Some v)
    then show ?thesis using message [OF i(1)] p by (auto simp: out is_message_def)
  qed
  then have same: "out ! p = items ! ?i" using p(1) by (simp add: out)
  obtain j where j: "output_of ?s ?i = Some j" using answered [OF i(1)] i(2) none p(2) same by auto
  from outputs_invD(1) [OF replay_pass_inv(2) j] obtain c r where c: "?i < j" "item_call_id (items ! ?i) = Some c"
    "r < length (output_indices J items c)" "output_indices J items c ! r = j" by blast
  note oj = output_indices_nth [OF c(3), unfolded c(4)]
  have "j \<notin> rp_dropped ?s" using dropped_call oj(2) by blast
  then have "j \<in> set ?ks" by (simp add: kept_items_props(3) oj(1))
  then obtain q where q: "q < length ?ks" "?ks ! q = j" by (auto simp: in_set_conv_nth)
  have "rewritten j = None"
  proof (rule ccontr)
    assume "rewritten j \<noteq> None"
    then obtain d where "d \<in> rp_dropped ?s" "output_of ?s d = Some j" using message [OF oj(1)] oj(2) by auto
    then show False using outputs_invD(2) [OF replay_pass_inv(2) j] i(2) by blast
  qed
  then have "out ! q = items ! j" using q by (simp add: out)
  moreover have "p < q"
  proof (rule ccontr)
    assume "\<not> p < q"
    then have "q < p \<or> q = p" by auto
    then show False using sorted_wrt_nth_less [OF kept_items_props(1), of q p J items] c(1) q p(1) out by auto
  qed
  ultimately show ?thesis using q j c(2) same oj(3) by (auto simp: out)
qed

text \<open>C21: in a history whose missing outputs are sanitized, every side-effecting call that is left has an output of its own
  further on: there is an injective function from the calls of the result to later items of the
  result, which are outputs for the same call id.\<close>

theorem sanitized_calls_answered:
  assumes "dedupe_replayed_side_effect_input_items J True items = Inr (out, n)"
  shows "\<exists>answer. inj_on answer {p. p < length out \<and> item_key J (out ! p) \<noteq> None} \<and>
    (\<forall>p < length out. item_key J (out ! p) \<noteq> None \<longrightarrow> p < answer p \<and> answer p < length out
       \<and> item_call_id (out ! p) \<noteq> None \<and> item_output_id (out ! answer p) = item_call_id (out ! p))"
proof -
  let ?s = "replay_pass J items" and ?ks = "kept_items J items"
  obtain rewritten where out: "out = map (\<lambda>i. default_to (rewritten i) (items ! i)) ?ks"
    and fr: "faithful_rewrite J True items rewritten" by (rule dedupe_result [OF assms])
  from call_has_output [OF out fr] obtain answer where a: "\<And>p. p < length out \<Longrightarrow> item_key J (out ! p) \<noteq> None \<Longrightarrow> p < answer p \<and> answer p < length out
      \<and> output_of ?s (?ks ! p) = Some (?ks ! answer p) \<and> item_call_id (out ! p) \<noteq> None
      \<and> item_output_id (out ! answer p) = item_call_id (out ! p)" by metis
  have "inj_on answer {p. p < length out \<and> item_key J (out ! p) \<noteq> None}"
  proof (rule inj_onI)
    fix p q
    assume pq: "p \<in> {p. p < length out \<and> item_key J (out ! p) \<noteq> None}" "q \<in> {p. p < length out \<and> item_key J (out ! p) \<noteq> None}"
      "answer p = answer q"
    then have "?ks ! p = ?ks ! q" using a [of p] a [of q] outputs_invD(2) [OF replay_pass_inv(2)] by auto
    then show "p = q" using pq(1,2) kept_items_props(2) by (auto simp: out nth_eq_iff_index_eq)
  qed
  then show ?thesis using a by blast
qed

text \<open>C22: the result keeps the items in their order, as they are or, for a call or an output, as a message; an
  item is left out only if it is a side-effecting call that replays an earlier call which is
  kept: one with the same key and no user turn in between and, unless the key has a namespace and a
  call id, with no other tool call in between.\<close>

theorem only_replays_dropped:
  assumes "dedupe_replayed_side_effect_input_items J sanitize items = Inr (out, n)"
  shows "\<exists>kept. sorted_wrt (<) kept \<and> set kept \<subseteq> {..<length items} \<and> length out = length kept \<and>
    (\<forall>p < length out. out ! p = items ! (kept ! p)
       \<or> is_message (out ! p) \<and> (item_key J (items ! (kept ! p)) \<noteq> None \<or> item_output_id (items ! (kept ! p)) \<noteq> None)) \<and>
    (\<forall>i < length items. i \<notin> set kept \<longrightarrow> \<not> starts_segment (items ! i)
       \<and> (\<exists>k j. item_key J (items ! i) = Some k \<and> j \<in> set kept \<and> replay_span J items k j i))"
proof (intro exI conjI)
  let ?s = "replay_pass J items" and ?ks = "kept_items J items"
  obtain rewritten where out: "out = map (\<lambda>i. default_to (rewritten i) (items ! i)) ?ks"
    and fr: "faithful_rewrite J sanitize items rewritten" by (rule dedupe_result [OF assms])
  show "sorted_wrt (<) ?ks" "set ?ks \<subseteq> {..<length items}" using kept_items_props [of J items] by auto
  show "length out = length ?ks" by (simp add: out)
  show "\<forall>p < length out. out ! p = items ! (?ks ! p)
      \<or> is_message (out ! p) \<and> (item_key J (items ! (?ks ! p)) \<noteq> None \<or> item_output_id (items ! (?ks ! p)) \<noteq> None)"
  proof (intro allI impI)
    fix p
    assume p: "p < length out"
    then have i: "?ks ! p < length items" using kept_items_props(3) [of J items] nth_mem [of p ?ks] by (auto simp: out)
    show "out ! p = items ! (?ks ! p)
      \<or> is_message (out ! p) \<and> (item_key J (items ! (?ks ! p)) \<noteq> None \<or> item_output_id (items ! (?ks ! p)) \<noteq> None)"
    proof (cases "rewritten (?ks ! p)")
      case (Some v)
      then have v: "is_message v" "item_key J (items ! (?ks ! p)) \<noteq> None \<or> (\<exists>d. output_of ?s d = Some (?ks ! p))"
        using fr i unfolding faithful_rewrite_def by blast+
      from v(2) have "item_key J (items ! (?ks ! p)) \<noteq> None \<or> item_output_id (items ! (?ks ! p)) \<noteq> None"
        using outputs_invD(1) [OF replay_pass_inv(2)] output_indices_nth(3) by (metis option.distinct(1))
      then show ?thesis using v(1) Some p by (simp add: out)
    qed (use p in \<open>simp add: out\<close>)
  qed
  show "\<forall>i < length items. i \<notin> set ?ks \<longrightarrow> \<not> starts_segment (items ! i)
      \<and> (\<exists>k j. item_key J (items ! i) = Some k \<and> j \<in> set ?ks \<and> replay_span J items k j i)"
  proof (intro allI impI)
    fix i
    assume "i < length items" "i \<notin> set ?ks"
    then have "i \<in> rp_dropped ?s" by (simp add: kept_items_props(3))
    from keys_invD(4) [OF replay_pass_inv(1) this] obtain k j where
      "item_key J (items ! i) = Some k" "replay_span J items k j i" "\<not> starts_segment (items ! i)" "j \<notin> rp_dropped ?s" by blast
    moreover from this(2) \<open>i < length items\<close> have "j < length items" by (simp add: replay_span_def)
    ultimately show "\<not> starts_segment (items ! i)
        \<and> (\<exists>k j. item_key J (items ! i) = Some k \<and> j \<in> set ?ks \<and> replay_span J items k j i)"
      by (auto simp: kept_items_props(3))
  qed
qed

section \<open>A sample\<close>

text \<open>A command and its output, its replay under another call id, and a command without output.\<close>

definition sample_history_call :: "string \<Rightarrow> string \<Rightarrow> json" where
  "sample_history_call arg call =
     JObj [(''type'', JStr ''function_call''), (''name'', JStr ''exec_command''), (''arguments'', JStr arg), (''call_id'', JStr call)]"

definition sample_history_output :: "string \<Rightarrow> string \<Rightarrow> json" where
  "sample_history_output call txt =
     JObj [(''type'', JStr ''function_call_output''), (''call_id'', JStr call), (''output'', JStr txt)]"

definition sample_history :: "json list" where
  "sample_history =
     [sample_history_call ''ls'' ''c1'', sample_history_output ''c1'' ''x'',
      sample_history_call ''ls'' ''c2'', sample_history_output ''c2'' ''y'', sample_history_call ''rm'' ''c3'']"

definition sample_sanitized :: "json list" where
  "sample_sanitized =
     [sample_history_call ''ls'' ''c1'', sample_history_output ''c1'' ''x'', assistant_message ''y'',
      assistant_message ''Omitted replayed side-effect tool call without matching output: exec_command.'']"

lemma sample_dedupe:
  "dedupe_replayed_side_effect_input_items sample_json_text True sample_history = Inr (sample_sanitized, 2)"
  by code_simp

theorem sanitized_calls_answered_witness:
  "item_key sample_json_text (sample_sanitized ! 0) \<noteq> None \<and>
   (\<exists>q. 0 < q \<and> q < length sample_sanitized \<and> item_output_id (sample_sanitized ! q) = item_call_id (sample_sanitized ! 0))"
proof
  show call: "item_key sample_json_text (sample_sanitized ! 0) \<noteq> None" by code_simp
  have "0 < length sample_sanitized" by (simp add: sample_sanitized_def)
  with call sanitized_calls_answered [OF sample_dedupe]
  show "\<exists>q. 0 < q \<and> q < length sample_sanitized \<and> item_output_id (sample_sanitized ! q) = item_call_id (sample_sanitized ! 0)"
    by blast
qed

theorem only_replays_dropped_witness:
  "\<exists>kept. sorted_wrt (<) kept \<and> length kept = 4 \<and>
     (\<forall>i < 5. i \<notin> set kept \<longrightarrow> (\<exists>k j. item_key sample_json_text (sample_history ! i) = Some k
        \<and> j \<in> set kept \<and> replay_span sample_json_text sample_history k j i))"
proof -
  have "length sample_sanitized = 4" "length sample_history = 5" by (simp_all add: sample_sanitized_def sample_history_def)
  with only_replays_dropped [OF sample_dedupe] show ?thesis by metis
qed

end
