(* ===== verification/Depletion.thy ===== *)
theory Depletion
  imports Prelude
begin

text \<open>
  Forecasts of when the quota of an account runs out, after \<open>codex-lb/app/core/usage/depletion.py\<close> and
  \<open>codex-lb/app/modules/usage/depletion_service.py\<close>: a rate of use as an exponentially weighted average over the
  samples of a window, the risk and the time of exhaustion that it implies, and a cache that spares replaying
  a history that has not changed. A naive UTC date is its epoch second with fraction; the digest (\<open>blake2b\<close>)
  is an argument.
\<close>

section \<open>Rates and risks\<close>

definition RISK_WARNING :: pyfloat where "RISK_WARNING = 60 / 100"

definition RISK_DANGER :: pyfloat where "RISK_DANGER = 80 / 100"

definition RISK_CRITICAL :: pyfloat where "RISK_CRITICAL = 95 / 100"

definition DEFAULT_ALPHA :: pyfloat where "DEFAULT_ALPHA = 4 / 10"

record EWMAState =
  ew_rate :: "pyfloat option"
  ew_last_used_percent :: pyfloat
  ew_last_timestamp :: pyfloat
  ew_last_reset_at :: "int option"

definition ewma_update :: "EWMAState option \<Rightarrow> pyfloat \<Rightarrow> pyfloat \<Rightarrow> pyfloat \<Rightarrow> int option \<Rightarrow> EWMAState" where
  "ewma_update st used ts alpha reset_at =
     (let fresh = \<lparr>ew_rate = None, ew_last_used_percent = used, ew_last_timestamp = ts, ew_last_reset_at = reset_at\<rparr>
      in case st of
           None \<Rightarrow> fresh
         | Some s \<Rightarrow>
             (let dt = ts - ew_last_timestamp s;
                  window_changed = (reset_at \<noteq> None \<and> ew_last_reset_at s \<noteq> None \<and> reset_at \<noteq> ew_last_reset_at s);
                  decline = ew_last_used_percent s - used
              in if dt = 0 then s
                 else if decline > 0 \<or> window_changed then fresh
                 else (let raw_rate = max ((used - ew_last_used_percent s) / dt) 0
                       in fresh\<lparr>ew_rate := Some (case ew_rate s of
                                                  None \<Rightarrow> raw_rate
                                                | Some r \<Rightarrow> alpha * raw_rate + (1 - alpha) * r)\<rparr>)))"

definition compute_burn_rate :: "pyfloat \<Rightarrow> pyfloat \<Rightarrow> pyfloat \<Rightarrow> pyfloat" where
  "compute_burn_rate rate remaining until_reset =
     (if rate = 0 \<or> until_reset = 0 then 0
      else (let sustainable = remaining / until_reset in if sustainable = 0 then 0 else rate / sustainable))"

definition compute_depletion_risk :: "pyfloat \<Rightarrow> pyfloat \<Rightarrow> pyfloat \<Rightarrow> pyfloat" where
  "compute_depletion_risk used rate until_reset = min ((used + max 0 rate * until_reset) / 100) 1"

definition compute_safe_usage_percent :: "pyfloat \<Rightarrow> pyfloat \<Rightarrow> pyfloat" where
  "compute_safe_usage_percent elapsed window_seconds =
     (if window_seconds = 0 then 0 else min (max (elapsed / window_seconds) 0) 1 * 100)"

definition classify_risk :: "pyfloat \<Rightarrow> string" where
  "classify_risk risk =
     (if risk \<ge> RISK_CRITICAL then ''critical'' else if risk \<ge> RISK_DANGER then ''danger''
      else if risk \<ge> RISK_WARNING then ''warning'' else ''safe'')"

definition aggregate_risks :: "pyfloat list \<Rightarrow> pyfloat" where
  "aggregate_risks risks = list_max 0 risks"

section \<open>Histories and their signatures\<close>

text \<open>The fields of a usage row that are read, which are also those of its edge signature.\<close>

record HistoryRow =
  hr_id :: "int option"
  hr_recorded_at :: pyfloat
  hr_used_percent :: pyfloat
  hr_reset_at :: "int option"
  hr_window_minutes :: "int option"

record HistorySignature =
  hs_row_count :: nat
  hs_first :: HistoryRow
  hs_latest :: HistoryRow
  hs_content_digest :: "string option"

definition history_signature_from_edges :: "HistoryRow list \<Rightarrow> HistorySignature" where
  "history_signature_from_edges h =
     \<lparr>hs_row_count = length h, hs_first = hd h, hs_latest = last h, hs_content_digest = None\<rparr>"

definition history_signature_from_rows :: "(HistoryRow list \<Rightarrow> string) \<Rightarrow> HistoryRow list \<Rightarrow> HistorySignature result" where
  "history_signature_from_rows digest h =
     (if h = [] then Inl ValueError
      else Inr \<lparr>hs_row_count = length h, hs_first = hd h, hs_latest = last h, hs_content_digest = Some (digest h)\<rparr>)"

text \<open>A list of rows, with its signature when it is a \<open>_SignedHistory\<close>.\<close>

type_synonym history = "HistoryRow list \<times> HistorySignature option"

definition attach_depletion_history_signature :: "(HistoryRow list \<Rightarrow> string) \<Rightarrow> HistoryRow list \<Rightarrow> history result" where
  "attach_depletion_history_signature digest h = res_map (\<lambda>s. (h, Some s)) (history_signature_from_rows digest h)"

definition filter_depletion_history_since :: "(HistoryRow list \<Rightarrow> string) \<Rightarrow> HistoryRow list \<Rightarrow> pyfloat \<Rightarrow> history" where
  "filter_depletion_history_since digest h cutoff =
     (let rows = filter (\<lambda>e. \<not> hr_recorded_at e < cutoff) h
      in if rows = [] then ([], None)
         else (rows, Some \<lparr>hs_row_count = length rows, hs_first = hd rows, hs_latest = last rows,
                          hs_content_digest = Some (digest rows)\<rparr>))"

definition history_signature :: "history \<Rightarrow> HistorySignature" where
  "history_signature h = (case snd h of Some s \<Rightarrow> s | None \<Rightarrow> history_signature_from_edges (fst h))"

section \<open>The forecast of an account\<close>

definition naive_utc_to_epoch :: "pyfloat \<Rightarrow> pyfloat" where
  "naive_utc_to_epoch t = of_int (py_int t)"

definition feed :: "EWMAState option \<Rightarrow> HistoryRow \<Rightarrow> EWMAState" where
  "feed st e = ewma_update st (hr_used_percent e) (naive_utc_to_epoch (hr_recorded_at e)) DEFAULT_ALPHA (hr_reset_at e)"

definition rebuild_ewma_state :: "HistoryRow list \<Rightarrow> EWMAState option" where
  "rebuild_ewma_state h = foldl (\<lambda>st e. Some (feed st e)) None h"

record DepletionMetrics =
  dm_risk :: pyfloat
  dm_risk_level :: string
  dm_rate_per_second :: pyfloat
  dm_burn_rate :: pyfloat
  dm_safe_usage_percent :: pyfloat
  dm_projected_exhaustion_at :: "pyfloat option"
  dm_seconds_until_exhaustion :: "pyfloat option"

definition window_over :: "HistoryRow \<Rightarrow> pyfloat \<Rightarrow> bool" where
  "window_over latest now =
     (case hr_reset_at latest of Some r \<Rightarrow> max 0 (of_int r - naive_utc_to_epoch now) = 0 | None \<Rightarrow> False)"

definition seconds_until_reset :: "HistoryRow \<Rightarrow> pyfloat \<Rightarrow> pyfloat" where
  "seconds_until_reset latest now =
     (case hr_reset_at latest of
        Some r \<Rightarrow> max 0 (of_int r - naive_utc_to_epoch now)
      | None \<Rightarrow> (case hr_window_minutes latest of Some m \<Rightarrow> of_int (m * 60) | None \<Rightarrow> 0))"

definition exhaustion :: "pyfloat \<Rightarrow> pyfloat \<Rightarrow> pyfloat \<Rightarrow> pyfloat option" where
  "exhaustion rate used until_reset =
     (if rate > 0 \<and> until_reset > 0 \<and> (100 - used) / rate \<le> until_reset then Some ((100 - used) / rate) else None)"

definition depletion_metrics :: "pyfloat \<Rightarrow> HistoryRow \<Rightarrow> pyfloat \<Rightarrow> DepletionMetrics" where
  "depletion_metrics rate latest now =
     (let used = hr_used_percent latest; until_reset = seconds_until_reset latest now;
          window_seconds = of_int (or_num (hr_window_minutes latest) 0 * 60);
          risk = compute_depletion_risk used rate until_reset;
          secs = exhaustion rate used until_reset
      in \<lparr>dm_risk = risk, dm_risk_level = classify_risk risk, dm_rate_per_second = rate,
          dm_burn_rate = compute_burn_rate rate (100 - used) until_reset,
          dm_safe_usage_percent = compute_safe_usage_percent (max 0 (window_seconds - until_reset)) window_seconds,
          dm_projected_exhaustion_at = map_option (\<lambda>s. now + s) secs, dm_seconds_until_exhaustion = secs\<rparr>)"

text \<open>The caches of the module: the states and the signatures of the histories they come from.\<close>

type_synonym state_key = "string \<times> string \<times> string"

record DepletionCache =
  dc_states :: "state_key \<rightharpoonup> EWMAState"
  dc_signatures :: "state_key \<rightharpoonup> HistorySignature"

definition reset_ewma_state :: DepletionCache where
  "reset_ewma_state = \<lparr>dc_states = Map.empty, dc_signatures = Map.empty\<rparr>"

definition prune_depletion_cache :: "state_key list \<Rightarrow> DepletionCache \<Rightarrow> DepletionCache" where
  "prune_depletion_cache active c =
     \<lparr>dc_states = (\<lambda>k. if k \<in> set active then dc_states c k else None),
      dc_signatures = (\<lambda>k. if k \<in> set active then dc_signatures c k else None)\<rparr>"

definition current_state :: "state_key \<Rightarrow> history \<Rightarrow> DepletionCache \<Rightarrow> EWMAState option \<times> DepletionCache" where
  "current_state key h c =
     (if dc_states c key \<noteq> None \<and> dc_signatures c key = Some (history_signature h) then (dc_states c key, c)
      else (case rebuild_ewma_state (fst h) of
              None \<Rightarrow> (None, c)
            | Some st \<Rightarrow> (Some st, \<lparr>dc_states = (dc_states c)(key \<mapsto> st),
                                   dc_signatures = (dc_signatures c)(key \<mapsto> history_signature h)\<rparr>)))"

definition compute_depletion_for_account ::
  "state_key \<Rightarrow> history \<Rightarrow> pyfloat \<Rightarrow> DepletionCache \<Rightarrow> DepletionMetrics option \<times> DepletionCache" where
  "compute_depletion_for_account key h now c =
     (case fst h of
        [] \<Rightarrow> (None, c)
      | [e] \<Rightarrow> (None, \<lparr>dc_states = (dc_states c)(key \<mapsto> feed None e),
                       dc_signatures = (dc_signatures c)(key \<mapsto> history_signature_from_edges (fst h))\<rparr>)
      | _ \<Rightarrow>
          (case current_state key h c of
             (st, c1) \<Rightarrow>
               (case Option.bind st ew_rate of
                  None \<Rightarrow> (None, c1)
                | Some rate \<Rightarrow>
                    if window_over (last (fst h)) now then (None, c1\<lparr>dc_states := (dc_states c1)(key := None)\<rparr>)
                    else (Some (depletion_metrics rate (last (fst h)) now), c1))))"

record AggregateDepletionMetrics =
  ad_risk :: pyfloat
  ad_risk_level :: string
  ad_burn_rate :: pyfloat
  ad_safe_usage_percent :: pyfloat
  ad_projected_exhaustion_at :: "pyfloat option"
  ad_seconds_until_exhaustion :: "pyfloat option"

definition compute_aggregate_depletion :: "DepletionMetrics option list \<Rightarrow> AggregateDepletionMetrics option result" where
  "compute_aggregate_depletion ms =
     (let valid = List.map_filter id ms
      in if valid = [] then Inr None
         else res_map (\<lambda>w. Some \<lparr>ad_risk = dm_risk w, ad_risk_level = dm_risk_level w, ad_burn_rate = dm_burn_rate w,
                ad_safe_usage_percent = dm_safe_usage_percent w, ad_projected_exhaustion_at = dm_projected_exhaustion_at w,
                ad_seconds_until_exhaustion = dm_seconds_until_exhaustion w\<rparr>) (py_max_by dm_risk valid))"

section \<open>Bounds\<close>

lemma feed_rate_nonneg:
  assumes "\<And>s r. st = Some s \<Longrightarrow> ew_rate s = Some r \<Longrightarrow> 0 \<le> r" "ew_rate (feed st e) = Some r"
  shows "0 \<le> r"
  using assms
  by (auto simp: feed_def ewma_update_def Let_def DEFAULT_ALPHA_def split: option.splits if_splits)

lemma rebuild_rate_nonneg: "rebuild_ewma_state h = Some s \<Longrightarrow> ew_rate s = Some r \<Longrightarrow> 0 \<le> r"
proof (induction h arbitrary: s r rule: rev_induct)
  case (snoc e h)
  then have "s = feed (rebuild_ewma_state h) e" by (simp add: rebuild_ewma_state_def)
  then show ?case using snoc feed_rate_nonneg by blast
qed (simp add: rebuild_ewma_state_def)

text \<open>Exhaustion before the reset is announced exactly when the quota is used at a positive rate and the risk is one.\<close>

lemma exhaustion_iff_full_risk:
  assumes "0 \<le> rate" "0 < until_reset"
  shows "exhaustion rate used until_reset \<noteq> None \<longleftrightarrow> 0 < rate \<and> compute_depletion_risk used rate until_reset = 1"
proof -
  have "(100 - used) / rate \<le> until_reset \<longleftrightarrow> 100 \<le> used + rate * until_reset" if "0 < rate"
    using that by (auto simp: field_simps)
  moreover have "compute_depletion_risk used rate until_reset = 1 \<longleftrightarrow> 100 \<le> used + rate * until_reset"
    using assms(1) by (auto simp: compute_depletion_risk_def min_def)
  ultimately show ?thesis using assms(2) by (auto simp: exhaustion_def)
qed

lemma risk_bounds: "0 \<le> used \<Longrightarrow> 0 \<le> until_reset \<Longrightarrow> 0 \<le> compute_depletion_risk used rate until_reset \<and> compute_depletion_risk used rate until_reset \<le> 1"
  by (simp add: compute_depletion_risk_def)

section \<open>The cache\<close>

text \<open>The forecast without a cache.\<close>

definition depletion_reference :: "HistoryRow list \<Rightarrow> pyfloat \<Rightarrow> DepletionMetrics option" where
  "depletion_reference rows now =
     (if length rows < 2 then None
      else (case Option.bind (rebuild_ewma_state rows) ew_rate of
              None \<Rightarrow> None
            | Some rate \<Rightarrow> if window_over (last rows) now then None else Some (depletion_metrics rate (last rows) now)))"

text \<open>What the dashboard does with the module: forecasts over rows since a cutoff, pruning, and a reset.\<close>

datatype depletion_op =
  Forecast state_key "HistoryRow list" pyfloat pyfloat
| Prune "state_key list"
| Reset

fun run_op :: "(HistoryRow list \<Rightarrow> string) \<Rightarrow> DepletionCache \<Rightarrow> depletion_op \<Rightarrow> DepletionCache" where
  "run_op digest c (Forecast key rows cutoff now) =
     snd (compute_depletion_for_account key (filter_depletion_history_since digest rows cutoff) now c)"
| "run_op digest c (Prune active) = prune_depletion_cache active c"
| "run_op digest c Reset = reset_ewma_state"

fun op_rows :: "depletion_op \<Rightarrow> HistoryRow list set" where
  "op_rows (Forecast key rows cutoff now) = {filter (\<lambda>e. \<not> hr_recorded_at e < cutoff) rows}"
| "op_rows (Prune active) = {}"
| "op_rows Reset = {}"

definition cache_faithful :: "(HistoryRow list \<Rightarrow> string) \<Rightarrow> HistoryRow list set \<Rightarrow> DepletionCache \<Rightarrow> bool" where
  "cache_faithful digest H c =
     (\<forall>key st sg d. dc_states c key = Some st \<longrightarrow> dc_signatures c key = Some sg \<longrightarrow> hs_content_digest sg = Some d
        \<longrightarrow> (\<exists>rows \<in> H. d = digest rows \<and> rebuild_ewma_state rows = Some st))"

lemma signed_rows:
  "fst (filter_depletion_history_since digest rows cutoff) = filter (\<lambda>e. \<not> hr_recorded_at e < cutoff) rows"
  "filter (\<lambda>e. \<not> hr_recorded_at e < cutoff) rows \<noteq> [] \<Longrightarrow>
     hs_content_digest (history_signature (filter_depletion_history_since digest rows cutoff))
       = Some (digest (filter (\<lambda>e. \<not> hr_recorded_at e < cutoff) rows))"
  by (auto simp: filter_depletion_history_since_def history_signature_def Let_def)

lemma rebuild_Some: "rows \<noteq> [] \<Longrightarrow> \<exists>st. rebuild_ewma_state rows = Some st"
  by (cases rows rule: rev_cases) (simp_all add: rebuild_ewma_state_def)

lemma current_state_ok:
  assumes "cache_faithful digest H c" "inj_on digest (insert (fst h) H)" "fst h \<noteq> []"
    and "hs_content_digest (history_signature h) = Some (digest (fst h))" "current_state key h c = (st, c1)"
  shows "st = rebuild_ewma_state (fst h)" "cache_faithful digest (insert (fst h) H) c1"
proof -
  obtain s where s: "rebuild_ewma_state (fst h) = Some s" using rebuild_Some assms(3) by blast
  have "st = rebuild_ewma_state (fst h) \<and> cache_faithful digest (insert (fst h) H) c1"
  proof (cases "dc_states c key \<noteq> None \<and> dc_signatures c key = Some (history_signature h)")
    case True
    then obtain st0 where "dc_states c key = Some st0" by blast
    with True obtain rows where rows: "rows \<in> H" "digest (fst h) = digest rows" "rebuild_ewma_state rows = dc_states c key"
      using assms(1,4) unfolding cache_faithful_def by metis
    then have "rows = fst h" using assms(2) by (auto dest: inj_onD)
    then show ?thesis using True rows(3) assms(1,5) by (auto simp: current_state_def cache_faithful_def)
  next
    case False
    then have "st = Some s" "c1 = \<lparr>dc_states = (dc_states c)(key \<mapsto> s), dc_signatures = (dc_signatures c)(key \<mapsto> history_signature h)\<rparr>"
      using assms(5) s by (auto simp: current_state_def split: if_splits)
    then show ?thesis using assms(1,4) s by (auto simp: cache_faithful_def)
  qed
  then show "st = rebuild_ewma_state (fst h)" "cache_faithful digest (insert (fst h) H) c1" by blast+
qed

lemma compute_depletion_ok:
  assumes "cache_faithful digest H c" "inj_on digest (insert (fst h) H)"
    and "fst h \<noteq> [] \<Longrightarrow> hs_content_digest (history_signature h) = Some (digest (fst h))"
  shows "fst (compute_depletion_for_account key h now c) = depletion_reference (fst h) now"
    and "cache_faithful digest (insert (fst h) H) (snd (compute_depletion_for_account key h now c))"
proof -
  consider "fst h = []" | e where "fst h = [e]" | e f rows where "fst h = e # f # rows" by (metis list.exhaust)
  then have "fst (compute_depletion_for_account key h now c) = depletion_reference (fst h) now
    \<and> cache_faithful digest (insert (fst h) H) (snd (compute_depletion_for_account key h now c))"
  proof cases
    case 3
    obtain st c1 where cs: "current_state key h c = (st, c1)" by (rule prod.exhaust)
    have ok: "st = rebuild_ewma_state (fst h)" "cache_faithful digest (insert (fst h) H) c1"
      using current_state_ok [OF assms(1,2) _ assms(3) cs] 3 by auto
    then have "cache_faithful digest (insert (fst h) H) (c1\<lparr>dc_states := (dc_states c1)(key := None)\<rparr>)"
      by (auto simp: cache_faithful_def)
    then show ?thesis
      using 3 cs ok by (auto simp: compute_depletion_for_account_def depletion_reference_def split: option.split)
  qed (use assms(1) in \<open>auto simp: compute_depletion_for_account_def depletion_reference_def cache_faithful_def history_signature_from_edges_def\<close>)
  then show "fst (compute_depletion_for_account key h now c) = depletion_reference (fst h) now"
    "cache_faithful digest (insert (fst h) H) (snd (compute_depletion_for_account key h now c))" by blast+
qed

lemma cache_faithful_mono: "cache_faithful digest H c \<Longrightarrow> H \<subseteq> H' \<Longrightarrow> cache_faithful digest H' c"
  unfolding cache_faithful_def by blast

lemma run_op_ok:
  assumes "cache_faithful digest H c" "inj_on digest (op_rows p \<union> H)"
  shows "cache_faithful digest (op_rows p \<union> H) (run_op digest c p)"
proof (cases p)
  case (Forecast key rows cutoff now)
  then show ?thesis
    using compute_depletion_ok(2) [OF assms(1), of "filter_depletion_history_since digest rows cutoff" key now] assms(2)
    by (simp add: signed_rows)
qed (use assms(1) in \<open>auto simp: prune_depletion_cache_def reset_ewma_state_def cache_faithful_def split: if_splits\<close>)

lemma run_ops_ok:
  "cache_faithful digest H c \<Longrightarrow> inj_on digest (\<Union>(op_rows ` set ops) \<union> H)
   \<Longrightarrow> cache_faithful digest (\<Union>(op_rows ` set ops) \<union> H) (foldl (run_op digest) c ops)"
proof (induction ops arbitrary: H c)
  case (Cons p ops)
  have "cache_faithful digest (op_rows p \<union> H) (run_op digest c p)"
    by (rule run_op_ok [OF Cons.prems(1)]) (rule inj_on_subset [OF Cons.prems(2)], auto)
  moreover have "\<Union>(op_rows ` set ops) \<union> (op_rows p \<union> H) = \<Union>(op_rows ` set (p # ops)) \<union> H" by auto
  ultimately show ?case using Cons.IH [of "op_rows p \<union> H" "run_op digest c p"] Cons.prems(2) by simp
qed simp

text \<open>C30: the cache of depletion forecasts is invisible. After any sequence of forecasts, prunings and resets,
  the forecast of an account over its rows since a cutoff is the one computed from these rows alone, as
  long as the digest tells apart the histories that were asked about.\<close>

theorem depletion_cache_transparent:
  assumes "inj_on digest (insert (filter (\<lambda>e. \<not> hr_recorded_at e < cutoff) rows) (\<Union>(op_rows ` set ops)))"
  shows "fst (compute_depletion_for_account key (filter_depletion_history_since digest rows cutoff) now
           (foldl (run_op digest) reset_ewma_state ops))
    = depletion_reference (filter (\<lambda>e. \<not> hr_recorded_at e < cutoff) rows) now"
proof -
  have "inj_on digest (\<Union>(op_rows ` set ops) \<union> {})" by (rule inj_on_subset [OF assms]) auto
  moreover have "cache_faithful digest {} reset_ewma_state" by (simp add: cache_faithful_def reset_ewma_state_def)
  ultimately have c: "cache_faithful digest (\<Union>(op_rows ` set ops)) (foldl (run_op digest) reset_ewma_state ops)"
    using run_ops_ok by fastforce
  show ?thesis
    using compute_depletion_ok(1) [OF c, of "filter_depletion_history_since digest rows cutoff" key now] assms
    by (simp add: signed_rows)
qed

definition sample_usage_row :: "pyfloat \<Rightarrow> pyfloat \<Rightarrow> HistoryRow" where
  "sample_usage_row t u = \<lparr>hr_id = None, hr_recorded_at = t, hr_used_percent = u, hr_reset_at = Some 200, hr_window_minutes = Some 5\<rparr>"

definition sample_digest :: "HistoryRow list \<Rightarrow> string" where
  "sample_digest rows = show_nat (length rows)"

theorem depletion_cache_transparent_witness:
  "fst (compute_depletion_for_account (''a'', ''l'', ''w'')
       (filter_depletion_history_since sample_digest [sample_usage_row 0 10, sample_usage_row 10 20] 0) 20
       (foldl (run_op sample_digest) reset_ewma_state
          [Forecast (''a'', ''l'', ''w'') [sample_usage_row 0 10, sample_usage_row 10 20] 0 15]))
    = depletion_reference [sample_usage_row 0 10, sample_usage_row 10 20] 20
   \<and> depletion_reference [sample_usage_row 0 10, sample_usage_row 10 20] 20 \<noteq> None"
proof
  have rows: "filter (\<lambda>e. \<not> hr_recorded_at e < 0) [sample_usage_row 0 10, sample_usage_row 10 20] = [sample_usage_row 0 10, sample_usage_row 10 20]"
    by (simp add: sample_usage_row_def)
  have "inj_on sample_digest (insert (filter (\<lambda>e. \<not> hr_recorded_at e < 0) [sample_usage_row 0 10, sample_usage_row 10 20])
     (\<Union>(op_rows ` set [Forecast (''a'', ''l'', ''w'') [sample_usage_row 0 10, sample_usage_row 10 20] 0 15])))"
    by simp
  from depletion_cache_transparent [OF this]
  show "fst (compute_depletion_for_account (''a'', ''l'', ''w'')
       (filter_depletion_history_since sample_digest [sample_usage_row 0 10, sample_usage_row 10 20] 0) 20
       (foldl (run_op sample_digest) reset_ewma_state
          [Forecast (''a'', ''l'', ''w'') [sample_usage_row 0 10, sample_usage_row 10 20] 0 15]))
    = depletion_reference [sample_usage_row 0 10, sample_usage_row 10 20] 20" unfolding rows .
  show "depletion_reference [sample_usage_row 0 10, sample_usage_row 10 20] 20 \<noteq> None"
    by (simp add: depletion_reference_def rebuild_ewma_state_def feed_def ewma_update_def Let_def sample_usage_row_def window_over_def
        naive_utc_to_epoch_def py_int_def)
qed

end
