(* ===== verification/Spec2Isabelle.thy ===== *)
theory Spec2Isabelle
  imports Balancer_Correct Retry Balancer_Runtime Budget_Select Circuit_Breaker Cap_Partition Pricing
    Leader_Election Api_Key_Ledger Durable_Bridge Sticky_Select Quota_Planner Balancer_Service Cache_Invalidation
    Dashboard_System Admission Refresh_Safety Replay_History
    Depletion
begin

text \<open>
  A verification of the account balancer of \<^emph>\<open>codex-lb\<close>, the Python service under
  \<open>src/codex-lb/app\<close>: a proxy that spreads requests over a pool of accounts, on one or more replicas
  that share a database. The paths below are relative to that directory.

  \<^bold>\<open>The program.\<close> A request asks the load balancer of its replica for an account
  (\<open>modules/proxy/load_balancer.py\<close>). The balancer reads the account rows and the usage samples, turns
  each pair into a snapshot (\<open>_state_from_account\<close>, with \<open>core/usage\<close> for windows and quotas), and gives
  the snapshots to the pure selector \<open>select_account\<close> of \<open>core/balancer/logic.py\<close>, through
  \<open>_select_account_preferring_budget_safe\<close>. A chosen account is leased in the runtime table of the
  replica, under the share of the cluster-wide cap that \<open>modules/proxy/cap_partitioning.py\<close> gives the
  replica. What upstream answers comes back as \<open>mark_rate_limit\<close>, \<open>mark_quota_exceeded\<close>,
  \<open>mark_permanent_failure\<close>, \<open>record_errors\<close> and \<open>record_success\<close>, which change the runtime entry and write
  the row under a compare-and-set guard. Breakers and a retry budget (\<open>core/resilience\<close>) protect
  upstream, background jobs run on the replica that holds the lease row
  (\<open>core/scheduling/leader_election.py\<close>), and usage is priced by \<open>core/usage/pricing.py\<close>. A client key
  pins a session to the account that served it (\<open>modules/sticky_sessions\<close>, \<open>_select_with_stickiness\<close>);
  the limits of an API key are reserved before a request and settled after it (\<open>modules/api_keys\<close>);
  a bridge session belongs to one replica at a time (\<open>modules/proxy/durable_bridge_repository.py\<close>);
  the quota planner (\<open>modules/quota_planner/logic.py\<close>) forecasts demand, adds routing costs and plans
  warm-ups of cold windows. The accounts that may serve a request are found with the model registry
  (\<open>core/openai/model_registry.py\<close>) and the additional quotas (\<open>modules/usage/additional_quota_keys.py\<close>) and
  cached per process; replicas tell each other through a version table that a cache is out of date
  (\<open>core/cache/invalidation.py\<close>). The refresh token of an account is good for one exchange, so a refresh
  (\<open>modules/accounts/auth_manager.py\<close>) first joins the refresh under way in its process, then claims the account
  in a table of leases (\<open>refresh_claims.py\<close>), exchanges the token upstream (\<open>core/auth/refresh.py\<close>) and writes
  what it got under compare-and-set guards. A tool call that upstream repeats after a reconnect must not reach the
  client twice (\<open>modules/proxy/tool_call_dedupe.py\<close>). Work is admitted through semaphores
  (\<open>modules/proxy/work_admission.py\<close>, \<open>core/resilience/bulkhead.py\<close>). The operators log in to the dashboard
  with a password and one-time codes (\<open>modules/dashboard_auth\<close>, \<open>core/auth\<close>), under a limit on the
  attempts (\<open>core/rate_limiter\<close>).

  \<^bold>\<open>The theories\<close>, in the order of import.

  \<^item> \<^verbatim>\<open>Prelude\<close>: the Python operations the source uses (\<open>or\<close>, \<open>int\<close>, \<open>round\<close>, \<open>min\<close> and \<open>max\<close> by key,
    \<open>random.choices\<close>, \<open>str.strip\<close>, decimal printing), results with errors, and the interfaces that several
    components share as locales: \<open>chooser\<close> and \<open>key_chooser\<close> (picking from a list: never an error on a
    nonempty list, always a member, of least key) and \<open>invariant_system\<close> (start, steps, invariant).
  \<^item> \<^verbatim>\<open>Plan_Types\<close> (\<open>core/plan_types.py\<close>) and \<^verbatim>\<open>Usage_Core\<close> (\<open>core/usage/__init__.py\<close>, \<open>types.py\<close>): plan names,
    capacities, windows, expiry, summary and the re-mapping of weekly rows.
  \<^item> \<^verbatim>\<open>Balancer_State\<close>, \<^verbatim>\<open>Balancer_Strategies\<close>, \<^verbatim>\<open>Balancer_Select\<close> (\<open>core/balancer/logic.py\<close>): the snapshot
    record, the scores, the eight strategies, and \<open>select_account\<close> with the states it changes in place
    returned beside its result. \<^verbatim>\<open>Balancer_Correct\<close> holds its theorems: no exception, soundness,
    completeness, the ladders of health tiers and policies, opportunistic traffic, the strategies.
  \<^item> \<^verbatim>\<open>Retry\<close> (\<open>core/utils/retry.py\<close>) and \<^verbatim>\<open>Balancer_Health\<close> (the failure handlers, failover, tiers of
    \<open>logic.py\<close> and \<open>rendezvous_hash.py\<close>): deadlines, cooldowns, the round trip of the retry hint,
    minimal disruption of the hash.
  \<^item> \<^verbatim>\<open>Usage_Quota\<close> (\<open>core/usage/quota.py\<close>): the status that usage samples imply.
  \<^item> \<^verbatim>\<open>Account_Leases\<close> (the leases of \<open>load_balancer.py\<close>): the runtime table as a step relation, its exact
    accounting as an invariant, and its refinement of a set of leases.
  \<^item> \<^verbatim>\<open>Account_State\<close> (\<open>_state_from_account\<close> and callers): snapshots honour the deadlines that peers
    persisted, and the tier machine recovers through probing only.
  \<^item> \<^verbatim>\<open>Balancer_Runtime\<close> (\<open>mark_*\<close>, \<open>record_*\<close>, \<open>_persist_state\<close>, \<open>modules/accounts/repository.py\<close>): a replica
    with its runtime table over a table of rows; guarded writes and what peers see.
  \<^item> \<^verbatim>\<open>Budget_Select\<close>: the up to three calls of the selector that prefer accounts under their budget.
  \<^item> \<^verbatim>\<open>Circuit_Breaker\<close> (\<open>core/resilience\<close>): the breaker with any interleaving of calls; the retry window.
  \<^item> \<^verbatim>\<open>Cap_Partition\<close> (\<open>cap_partitioning.py\<close>): shares that add up, growth only after confirmation.
  \<^item> \<^verbatim>\<open>Leader_Election\<close>: the lease row under the acquire and renew statements, replicas with clock offsets
    and delayed answers, the heartbeat.
  \<^item> \<^verbatim>\<open>Pricing\<close>: the tables, the resolution of a model name and its reference (longest prefix), costs.
  \<^item> \<^verbatim>\<open>Tables\<close>: updates of row lists, for the theories that model SQL statements. \<^verbatim>\<open>Api_Key_Store\<close>
    (\<open>modules/api_keys/repository.py\<close>), \<^verbatim>\<open>Api_Key_Service\<close> (\<open>service.py\<close>, \<open>reset_scheduler.py\<close>) and
    \<^verbatim>\<open>Api_Key_Ledger\<close> (the theorems): keys, limits and reservations as rows; a limit always covers
    the reservations that are open on it, admission is exact, a reservation settles once.
  \<^item> \<^verbatim>\<open>Durable_Bridge\<close> (\<open>durable_bridge_repository.py\<close>, \<open>durable_bridge_coordinator.py\<close>): session and alias
    rows as a step relation; a takeover fences the guarded writes of the previous owner, lookups stay in the scope of
    the API key, purges delete what they should.
  \<^item> \<^verbatim>\<open>Sticky_Sessions\<close> (\<open>modules/proxy/sticky_repository.py\<close>, \<open>modules/sticky_sessions/service.py\<close>): the
    rows, the statements, listing and deletion by filter. \<^verbatim>\<open>Sticky_Select\<close> (\<open>_select_with_stickiness\<close>):
    the selection as an operation on the states, the salts and the rows, with a weakest
    precondition calculus; no exception, the row follows the account, pins survive short outages
    and leave accounts that run out of budget.
  \<^item> \<^verbatim>\<open>Quota_Planner\<close> (\<open>modules/quota_planner/logic.py\<close>): forecast, simulation, plan and routing costs; the
    simulation conserves demand, plans are sound, costs are bounded.
  \<^item> \<^verbatim>\<open>Additional_Quota\<close> (\<open>modules/usage/additional_quota_keys.py\<close>): the registry of additional quotas and the
    resolution of names; canonical keys are identifiers. \<^verbatim>\<open>Json\<close>: JSON values and multi-valued dictionaries.
    \<^verbatim>\<open>Model_Registry\<close> (\<open>core/openai/model_registry.py\<close>): the catalogue under refreshes, clearings and
    imports as a step relation; answers are consistent, and what is carried over is still advertised.
  \<^item> \<^verbatim>\<open>Selection_Inputs\<close> (\<open>_load_selection_inputs\<close>, \<open>account_cache.py\<close>): a load offers exactly the accounts
    that may serve the request, and the cache never serves what was read before an invalidation.
  \<^item> \<^verbatim>\<open>Balancer_Service\<close> (\<open>LoadBalancer.select_account\<close>, \<open>check_opportunistic_admission\<close>, \<open>degradation.py\<close>): the
    whole call with its turns, in a rely and guarantee style: what other tasks do at a suspension
    point is a function, and the call relies on it only to keep the tables in order. No lease leaks,
    the returned account is eligible by a reading of the database that the call or the filling of the cache made, the call ends after at most four turns.
  \<^item> \<^verbatim>\<open>Cache_Invalidation\<close> (\<open>core/cache/invalidation.py\<close>, the routing overlay of \<open>account_cache.py\<close>): bumps,
    polls and callbacks, in the same style; a poll misses no invalidation but what a \<open>bump_local\<close> of the replica
    itself has acknowledged, and no requested bump is lost.
  \<^item> \<^verbatim>\<open>Rate_Limiter\<close> (\<open>core/rate_limiter/db_rate_limiter.py\<close>): the table of login attempts under all calls that
    share it; no window has more admissions than the limit, whatever the clocks. \<^verbatim>\<open>Totp\<close>
    (\<open>core/auth/totp.py\<close>): which codes a verification accepts. \<^verbatim>\<open>Dashboard_Session\<close> (the session store,
    \<open>core/auth/dashboard_mode.py\<close>, \<open>dashboard_session_ttl.py\<close>, \<open>dependencies.py\<close>): cookies and the access
    check, with its exact characterisation. \<^verbatim>\<open>Dashboard_Auth\<close> (\<open>modules/dashboard_auth\<close>,
    \<open>core/bootstrap.py\<close>): the settings row with its version check, the service and the handlers; the
    session that is shown is the access that is granted. \<^verbatim>\<open>Dashboard_System\<close>: all requests together as
    a step relation with a history; a code is accepted once, and write access goes back to a login.
  \<^item> \<^verbatim>\<open>Admission\<close> (\<open>work_admission.py\<close>, \<open>bulkhead.py\<close>): \<open>asyncio.Semaphore\<close> with its queue of futures, leases
    and lanes; permits are conserved under cancellation, no wake-up is lost.
  \<^item> \<^verbatim>\<open>Oauth_Refresh\<close> (\<open>core/auth/refresh.py\<close>, \<open>core/auth/__init__.py\<close>, \<open>models.py\<close>): answers of the token endpoint,
    which errors are permanent, the claims of an identity token. \<^verbatim>\<open>Refresh_Claims\<close> (\<open>refresh_claims.py\<close>): claim
    rows and claimants. \<^verbatim>\<open>Token_Refresh\<close> (\<open>auth_manager.py\<close>, the token and status writes of
    \<open>modules/accounts/repository.py\<close>): a refresh as a machine whose program counter is the suspension point,
    with every retry and every failure of the database. \<^verbatim>\<open>Refresh_Steps\<close>: the machine refines the few moves
    that the invariants speak of, and a measure of the steps left. \<^verbatim>\<open>Refresh_System\<close>: the singleflight, and
    the processes of a cluster over one database, with crashes and writes of other code; its invariants.
    \<^verbatim>\<open>Refresh_Safety\<close>: one refresh of an account at a time, no spent token is sent again unless its successor was lost or
    other code put it back, no rotation of a
    peer is overwritten, a refresh with the claim ends within thirty steps and with an attempt to release the claim.
  \<^item> \<^verbatim>\<open>Tool_Calls\<close> and \<^verbatim>\<open>Replay_History\<close> (\<open>modules/proxy/tool_call_dedupe.py\<close>): tool calls with side effects in the
    stream to the client and in the history that a client sends; a repeated call is suppressed, only replays are
    dropped from a history, and a sanitized history has an output for every such call.
  \<^item> \<^verbatim>\<open>Depletion\<close> (\<open>core/usage/depletion.py\<close>, \<open>modules/usage/depletion_service.py\<close>): the forecast of exhaustion and its
    cache, which never changes an answer.
  \<^item> This theory: what spans the components, the cap of an account over the whole cluster.

  \<^bold>\<open>Conventions.\<close> A float is a real number: rounding of binary floats is not modelled, comparisons and
  \<open>round\<close> act on exact values. A Python \<open>int\<close> is \<^typ>\<open>int\<close>; \<open>None\<close> is an option; a dataclass is a record; a
  dictionary is an association list in insertion order; an exception is the left of a sum. Strings are
  taken as ASCII. Clock readings, random draws, host names, digests and identifiers are arguments, so a
  theorem holds for every reading and draw. A method that runs under a lock is one step. No fuel is
  used: every loop is a fold, a structural recursion or, for the batched clean-up loops and the turns
  of a selection, a function with a termination proof, except the drain of \<open>release\<close>, whose turns are a list and which is proved
  to return as soon as a turn starts after its deadline.

  \<^bold>\<open>Parameters.\<close> The digest of the rendezvous hash and of the tie breakers (\<open>hashlib\<close>) is a function
  argument with no assumption on it. The time zone database of the planner is a pair of offset
  functions, and the e-mail address of an account is a function of its identifier.
  The canonical JSON text of a service tier is a function with no assumption on it, and so are the file of
  additional quotas, the bootstrap catalogue of models and the usage samples that the database answers.
  Fernet, bcrypt, pyotp and SHA-256 are the record \<open>Crypto\<close>; the theorems on the dashboard assume of it that
  a sealed session opens to itself (\<open>crypto_laws\<close>), that codes are ASCII (\<open>ascii_codes\<close>), and of requests
  that a cookie Fernet opens was handed out by the server (\<open>presentable\<close>).
  The token cipher and its fingerprint are the record \<open>TokenVault\<close>; the theorems on refreshes assume
  (\<open>cluster_laws\<close>) that what was encrypted is decrypted to itself, that fingerprints have no separator and are told
  apart by their first sixteen digits, and that the claimants of the processes are distinct and fit their column.
  The answers of the token endpoint are arguments, with new refresh tokens that are new; other code may write any account
  row at any time, only not with a token that nobody but a running refresh has received (\<open>peer_write\<close>).
  The digest of a usage history is a function that must tell apart the histories that were asked about.
  \<open>json.loads\<close> and the printing of floats are the record \<open>JsonText\<close>, with no assumption.
  The database is the row table that the statements act on. A statement is one step; a method of several statements is one
  step where it holds the lock of the row or of the writer, and its theory says where it does not.

  \<^bold>\<open>Not modelled.\<close> Streaming and websockets (\<open>modules/proxy/_service\<close>, \<open>core/clients\<close>), the OAuth
  login flows, the HTTP handlers, dashboards and reports, migrations, the web front end, and Tokdash: these
  are dominated by I/O. Cancellation of tasks by \<open>asyncio\<close>, metrics and logging are left out of the
  components that are modelled.

  \<^bold>\<open>Open.\<close> Components with logic of their own that could be added on the same lines: the
  derivation of client keys (\<open>modules/proxy/affinity.py\<close>), the administration of API keys, automations.
\<close>

section \<open>The cluster\<close>

text \<open>The replica of rank \<open>i\<close> among \<open>n\<close> that has adopted the current partition, and the cap configured
  for a kind of lease.\<close>

definition replica_caps :: "CapSettings option \<Rightarrow> CapSettings \<Rightarrow> string \<Rightarrow> nat \<Rightarrow> nat \<Rightarrow> AccountConcurrencyCaps" where
  "replica_caps dashboard startup scope n i =
     effective_account_concurrency_caps dashboard startup scope \<lparr>cp_replica_count = int n, cp_rank = int i\<rparr>"

definition configured_cap :: "CapSettings option \<Rightarrow> CapSettings \<Rightarrow> AccountLeaseKind \<Rightarrow> int" where
  "configured_cap dashboard startup kind =
     (case configured_account_concurrency_caps dashboard startup of
        (rc, st) \<Rightarrow> (case kind of response_create \<Rightarrow> rc | stream \<Rightarrow> st))"

lemma replica_cap_share:
  assumes "scope \<noteq> ''replica''" "1 \<le> n"
  shows "cap_of (replica_caps dashboard startup scope n i) kind
    = partition_cap (configured_cap dashboard startup kind) (int n) (int i)"
  using effective_caps_share [OF assms, of dashboard startup "int i" kind]
  by (simp add: replica_caps_def configured_cap_def split_def)

text \<open>C15: the configured cap holds across the cluster. Let \<open>n\<close> replicas have adopted the ranks \<open>0\<close> to
  \<open>n - 1\<close> of one partition, each with a runtime table of its own that any sequence of lease
  operations under its own share has produced. If the configured cap of a kind is at least \<open>n\<close>,
  the leases of that kind outstanding on one account, summed over all the replicas, never exceed
  the configured cap.\<close>

theorem cluster_cap_respected:
  assumes "scope \<noteq> ''replica''" "1 \<le> n" "int n \<le> configured_cap dashboard startup kind"
    and "\<And>i. i < n \<Longrightarrow> (lease_step settings (replica_caps dashboard startup scope n i))\<^sup>*\<^sup>* [] (tables i)"
  shows "(\<Sum>i < n. inflight kind (runtime_get acct (tables i))) \<le> configured_cap dashboard startup kind"
proof -
  let ?cap = "configured_cap dashboard startup kind"
  have "inflight kind (runtime_get acct (tables i)) \<le> partition_cap ?cap (int n) (int i)" if "i < n" for i
  proof -
    have "caps_respected (replica_caps dashboard startup scope n i) (tables i)"
      using lease_table.reachable_inv [OF refl assms(4) [OF that]] by blast
    moreover have "0 < partition_cap ?cap (int n) (int i)"
      using assms(2,3) by (intro partition_cap_pos) simp
    ultimately show ?thesis
      by (simp add: caps_respected_def replica_cap_share [OF assms(1,2), symmetric])
  qed
  then have "(\<Sum>i < n. inflight kind (runtime_get acct (tables i))) \<le> (\<Sum>i < n. partition_cap ?cap (int n) (int i))"
    by (intro sum_mono) simp
  also have "\<dots> = ?cap" by (rule sum_partition_cap [OF assms(2,3)])
  finally show ?thesis .
qed

theorem cluster_cap_respected_witness:
  "let startup = \<lparr>proxy_account_response_create_limit = None, proxy_account_stream_limit = Some 3\<rparr>;
       t = (\<lambda>i. snd (acquire_account_lease sample_lease_settings (replica_caps None startup ''partitioned'' 2 i)
                       0 ''u1'' 0 0 ''a'' stream 7 []))
   in (\<Sum>i < (2::nat). inflight stream (runtime_get ''a'' (t i))) \<le> 3"
proof -
  define startup where "startup = \<lparr>proxy_account_response_create_limit = None, proxy_account_stream_limit = Some (3::int)\<rparr>"
  define t where "t = (\<lambda>i. snd (acquire_account_lease sample_lease_settings (replica_caps None startup ''partitioned'' 2 i)
                       0 ''u1'' 0 0 ''a'' stream 7 []))"
  have c: "configured_cap None startup stream = 3"
    by (simp add: configured_cap_def configured_account_concurrency_caps_def startup_def default_to_def)
  have "lease_step sample_lease_settings (replica_caps None startup ''partitioned'' 2 i) [] (t i)" for i
    unfolding t_def by (rule lease_step.acquire) (simp add: outstanding_def)
  then have r: "(lease_step sample_lease_settings (replica_caps None startup ''partitioned'' 2 i))\<^sup>*\<^sup>* [] (t i)" for i
    by blast
  have "(\<Sum>i < (2::nat). inflight stream (runtime_get ''a'' (t i))) \<le> configured_cap None startup stream"
    by (rule cluster_cap_respected [where scope = "''partitioned''", OF _ _ _ r]) (simp_all add: c)
  then show ?thesis unfolding c by (simp only: Let_def startup_def t_def)
qed

end
